(* ===== verification/Prelude.thy ===== *)
theory Prelude
  imports Main "HOL-Library.Sublist"
begin

text \<open>
  Shared vocabulary of the development: the parts of the JavaScript standard library the harness
  uses (strings, insertion-ordered maps and sets, array splices), the lemmas the components
  share about them, the fact collections their proofs use, and two small locales for step
  relations (an invariant and a monotone quantity carried along any run).

  Strings.  A JavaScript string is a sequence of UTF-16 code units; here it is a HOL \<open>string\<close>
  (a list of 8-bit \<open>char\<close>s), one \<open>char\<close> per code unit, read in the windows-1252 code page, so
  that the ellipsis, the em dash and the bullet the source writes in its messages are one unit
  each, as they are in UTF-16.  Lengths and slices therefore count what the source counts.
\<close>

section \<open>Fact collections\<close>

named_theorems inv_defs \<open>invariants to unfold\<close>
named_theorems op_defs \<open>operations to unfold\<close>

section \<open>Strings\<close>

abbreviation nl :: char where "nl \<equiv> CHR 0x0A"
abbreviation cr :: char where "cr \<equiv> CHR 0x0D"
abbreviation tab :: char where "tab \<equiv> CHR 0x09"
abbreviation dquote :: char where "dquote \<equiv> CHR 0x22"
abbreviation squote :: char where "squote \<equiv> CHR 0x27"
abbreviation bslash :: char where "bslash \<equiv> CHR 0x5C"
abbreviation backtick :: char where "backtick \<equiv> CHR 0x60"

definition ellipsis :: string where "ellipsis = [CHR 0x85]"
definition emdash :: string where "emdash = [CHR 0x97]"
definition bullet :: string where "bullet = [CHR 0x95]"

lemma length_marks [simp]: "length ellipsis = 1" "length emdash = 1" "length bullet = 1"
  by (simp_all add: ellipsis_def emdash_def bullet_def)

text \<open>The white space of \<open>String.trim\<close> and of \<open>\s\<close>.\<close>

definition is_ws :: "char \<Rightarrow> bool" where
  "is_ws c = (c \<in> {CHR 0x09, CHR 0x0A, CHR 0x0B, CHR 0x0C, CHR 0x0D, CHR 0x20, CHR 0xA0})"

definition trimStart :: "string \<Rightarrow> string" where
  "trimStart s = dropWhile is_ws s"

definition trimEnd :: "string \<Rightarrow> string" where
  "trimEnd s = rev (dropWhile is_ws (rev s))"

definition trim :: "string \<Rightarrow> string" where
  "trim s = trimEnd (trimStart s)"

lemma length_trimEnd: "length (trimEnd s) \<le> length s"
  using length_dropWhile_le [of is_ws "rev s"] by (simp add: trimEnd_def)

lemma length_trim: "length (trim s) \<le> length s"
  using length_trimEnd [of "trimStart s"] length_dropWhile_le [of is_ws s]
  by (simp add: trim_def trimStart_def)

text \<open>\<open>s.split(c)\<close> for a one-character separator: always at least one piece.\<close>

fun split_ch :: "char \<Rightarrow> string \<Rightarrow> string list" where
  "split_ch c [] = [[]]"
| "split_ch c (x # xs) =
     (if x = c then [] # split_ch c xs
      else (case split_ch c xs of [] \<Rightarrow> [[x]] | p # ps \<Rightarrow> (x # p) # ps))"

lemma split_ch_not_Nil [simp]: "split_ch c s \<noteq> []"
  by (induction s) (auto split: list.splits)

lemma length_split_ch_piece: "\<forall>p \<in> set (split_ch c s). length p \<le> length s"
proof (induction s)
  case Nil
  then show ?case by simp
next
  case (Cons x xs)
  obtain p ps where ps: "split_ch c xs = p # ps"
    by (cases "split_ch c xs") auto
  with Cons have "length p \<le> length xs" "\<forall>q \<in> set ps. length q \<le> length xs"
    by auto
  then show ?case using ps by (auto intro: le_SucI)
qed

text \<open>\<open>xs.join(sep)\<close>.\<close>

fun join :: "string \<Rightarrow> string list \<Rightarrow> string" where
  "join sep [] = []"
| "join sep [x] = x"
| "join sep (x # y # ys) = x @ sep @ join sep (y # ys)"

lemma join_split_ch: "join [c] (split_ch c s) = s"
proof (induction s)
  case Nil
  then show ?case by simp
next
  case (Cons x xs)
  obtain p ps where "split_ch c xs = p # ps"
    by (cases "split_ch c xs") auto
  with Cons show ?case by (cases ps) auto
qed

text \<open>\<open>s.replace(/\s+/g, " ")\<close>: every maximal run of white space becomes one space.\<close>

fun collapse_from :: "bool \<Rightarrow> string \<Rightarrow> string" where
  "collapse_from w [] = []"
| "collapse_from w (c # cs) =
     (if is_ws c then (if w then collapse_from True cs else CHR '' '' # collapse_from True cs)
      else c # collapse_from False cs)"

definition collapse_ws :: "string \<Rightarrow> string" where
  "collapse_ws s = collapse_from False s"

lemma length_collapse_from: "length (collapse_from w s) \<le> length s"
proof (induction s arbitrary: w)
  case Nil
  then show ?case by simp
next
  case (Cons c cs)
  from Cons [of True] Cons [of False] show ?case by (simp add: le_SucI)
qed

lemma length_collapse_ws: "length (collapse_ws s) \<le> length s"
  by (simp add: collapse_ws_def length_collapse_from)

text \<open>Decimal notation of a natural number (\<open>String(n)\<close>).\<close>

definition digit_char :: "nat \<Rightarrow> char" where
  "digit_char d = char_of (48 + d)"

lemma digit_char_simps:
  "digit_char 0 = CHR ''0''" "digit_char 1 = CHR ''1''" "digit_char (Suc 0) = CHR ''1''" "digit_char 2 = CHR ''2''"
  "digit_char 3 = CHR ''3''" "digit_char 4 = CHR ''4''" "digit_char 5 = CHR ''5''" "digit_char 6 = CHR ''6''"
  "digit_char 7 = CHR ''7''" "digit_char 8 = CHR ''8''" "digit_char 9 = CHR ''9''"
  by code_simp+

fun nat_str :: "nat \<Rightarrow> string" where
  "nat_str n = (if n < 10 then [digit_char n] else nat_str (n div 10) @ [digit_char (n mod 10)])"

declare nat_str.simps [simp del]

text \<open>Reading the digits back, which shows that distinct numbers have distinct notations.\<close>

definition str_nat :: "string \<Rightarrow> nat" where
  "str_nat s = foldl (\<lambda>n c. 10 * n + (of_char c - 48)) 0 s"

lemma digit_char_value: "d < 10 \<Longrightarrow> (of_char (digit_char d) :: nat) - 48 = d"
  unfolding digit_char_def by (subst of_char_of) simp

lemma str_nat_nat_str: "str_nat (nat_str n) = n"
proof (induction n rule: nat_str.induct)
  case (1 n)
  show ?case
  proof (cases "n < 10")
    case True
    then show ?thesis
      by (subst nat_str.simps) (simp add: str_nat_def digit_char_value)
  next
    case False
    with "1.IH" have "str_nat (nat_str (n div 10)) = n div 10" by simp
    moreover have "str_nat (nat_str n) = 10 * str_nat (nat_str (n div 10)) + n mod 10"
      using False by (subst nat_str.simps) (simp add: str_nat_def digit_char_value)
    ultimately show ?thesis by simp
  qed
qed

lemma nat_str_inject [simp]: "nat_str m = nat_str n \<longleftrightarrow> m = n"
  by (metis str_nat_nat_str)

lemma nat_str_not_Nil [simp]: "nat_str n \<noteq> []"
  by (subst nat_str.simps) simp

section \<open>Arrays\<close>

text \<open>\<open>xs.findIndex(p)\<close> (\<open>None\<close> for -1) and \<open>xs.splice(i, 1)\<close>.\<close>

fun find_index :: "('a \<Rightarrow> bool) \<Rightarrow> 'a list \<Rightarrow> nat option" where
  "find_index P [] = None"
| "find_index P (x # xs) = (if P x then Some 0 else map_option Suc (find_index P xs))"

definition remove_at :: "nat \<Rightarrow> 'a list \<Rightarrow> 'a list" where
  "remove_at i xs = take i xs @ drop (Suc i) xs"

lemma find_index_None: "find_index P xs = None \<longleftrightarrow> (\<forall>x \<in> set xs. \<not> P x)"
  by (induction xs) auto

lemma find_index_Some:
  "find_index P xs = Some i \<Longrightarrow> i < length xs \<and> P (xs ! i) \<and> (\<forall>j < i. \<not> P (xs ! j))"
proof (induction xs arbitrary: i)
  case Nil
  then show ?case by simp
next
  case (Cons x xs)
  then show ?case by (auto split: if_splits simp: nth_Cons split: nat.splits)
qed

lemma split_at: "i < length xs \<Longrightarrow> xs = take i xs @ xs ! i # drop (Suc i) xs"
  by (simp add: id_take_nth_drop)

lemma remove_at_subset: "set (remove_at i xs) \<subseteq> set xs"
  by (auto simp: remove_at_def dest: in_set_takeD in_set_dropD)

lemma length_remove_at: "i < length xs \<Longrightarrow> length (remove_at i xs) = length xs - 1"
  by (simp add: remove_at_def)

lemma set_remove_at: "i < length xs \<Longrightarrow> insert (xs ! i) (set (remove_at i xs)) = set xs"
  by (subst (3) split_at [of i xs]) (auto simp: remove_at_def)

lemma map_remove_at: "map f (remove_at i xs) = remove_at i (map f xs)"
  by (simp add: remove_at_def take_map drop_map)

lemma distinct_remove_at: "distinct xs \<Longrightarrow> distinct (remove_at i xs)"
proof (cases "i < length xs")
  case True
  assume "distinct xs"
  then have "distinct (take i xs @ xs ! i # drop (Suc i) xs)"
    using split_at [OF True] by simp
  then show ?thesis by (auto simp: remove_at_def)
qed (simp add: remove_at_def)

lemma distinct_map_remove_at: "distinct (map f xs) \<Longrightarrow> distinct (map f (remove_at i xs))"
  by (simp add: map_remove_at distinct_remove_at)

lemma nth_not_in_remove_at:
  "distinct (map f xs) \<Longrightarrow> i < length xs \<Longrightarrow> f (xs ! i) \<notin> f ` set (remove_at i xs)"
proof -
  assume d: "distinct (map f xs)" and i: "i < length xs"
  from d have "distinct (map f (take i xs @ xs ! i # drop (Suc i) xs))"
    using split_at [OF i] by simp
  then show ?thesis by (auto simp: remove_at_def)
qed

lemma filter_remove_at:
  "i < length xs \<Longrightarrow> P (xs ! i) \<Longrightarrow> length (filter P (remove_at i xs)) = length (filter P xs) - 1"
  by (subst (2) split_at [of i xs]) (auto simp: remove_at_def)

lemma filter_remove_at_other:
  "i < length xs \<Longrightarrow> \<not> P (xs ! i) \<Longrightarrow> filter P (remove_at i xs) = filter P xs"
  by (subst (2) split_at [of i xs]) (auto simp: remove_at_def)

section \<open>Maps and sets in insertion order\<close>

text \<open>
  A JavaScript \<open>Map\<close> iterates in insertion order; \<open>set\<close> on a present key keeps its place.
  It is an association list with distinct keys; \<open>get\<close> is \<open>map_of\<close>.  A \<open>Set\<close> is the list
  of its members.
\<close>

type_synonym ('k, 'v) jmap = "('k \<times> 'v) list"

fun jmap_set :: "'k \<Rightarrow> 'v \<Rightarrow> ('k, 'v) jmap \<Rightarrow> ('k, 'v) jmap" where
  "jmap_set k v [] = [(k, v)]"
| "jmap_set k v ((k', v') # m) = (if k' = k then (k, v) # m else (k', v') # jmap_set k v m)"

definition jmap_del :: "'k \<Rightarrow> ('k, 'v) jmap \<Rightarrow> ('k, 'v) jmap" where
  "jmap_del k m = filter (\<lambda>kv. fst kv \<noteq> k) m"

abbreviation jmap_keys :: "('k, 'v) jmap \<Rightarrow> 'k list" where
  "jmap_keys m \<equiv> map fst m"

definition jset_add :: "'a \<Rightarrow> 'a list \<Rightarrow> 'a list" where
  "jset_add x xs = (if x \<in> set xs then xs else xs @ [x])"

definition jset_del :: "'a \<Rightarrow> 'a list \<Rightarrow> 'a list" where
  "jset_del x xs = filter (\<lambda>y. y \<noteq> x) xs"

lemma set_jset_add [simp]: "set (jset_add x xs) = insert x (set xs)"
  by (auto simp: jset_add_def)

lemma distinct_jset_add [simp]: "distinct xs \<Longrightarrow> distinct (jset_add x xs)"
  by (auto simp: jset_add_def)

lemma set_jset_del [simp]: "set (jset_del x xs) = set xs - {x}"
  by (auto simp: jset_del_def)

lemma distinct_jset_del [simp]: "distinct xs \<Longrightarrow> distinct (jset_del x xs)"
  by (auto simp: jset_del_def)

lemma length_jset_del_le: "length (jset_del x xs) \<le> length xs"
  by (simp add: jset_del_def)

lemma find_append: "find P (xs @ ys) = (case find P xs of None \<Rightarrow> find P ys | Some x \<Rightarrow> Some x)"
  by (induction xs) auto

text \<open>What a client of a \<open>Map\<close> relies on.\<close>

locale ordered_map =
  fixes get :: "'m \<Rightarrow> 'k \<Rightarrow> 'v option"
    and put :: "'k \<Rightarrow> 'v \<Rightarrow> 'm \<Rightarrow> 'm"
    and del :: "'k \<Rightarrow> 'm \<Rightarrow> 'm"
    and keys :: "'m \<Rightarrow> 'k list"
  assumes get_put: "get (put k v m) k' = (if k' = k then Some v else get m k')"
    and get_del: "get (del k m) k' = (if k' = k then None else get m k')"
    and keys_get: "k \<in> set (keys m) \<longleftrightarrow> get m k \<noteq> None"
    and keys_put: "keys (put k v m) = (if get m k = None then keys m @ [k] else keys m)"
    and keys_del: "keys (del k m) = filter (\<lambda>k'. k' \<noteq> k) (keys m)"
begin

lemma distinct_put: "distinct (keys m) \<Longrightarrow> distinct (keys (put k v m))"
  by (auto simp: keys_put keys_get)

lemma distinct_del: "distinct (keys m) \<Longrightarrow> distinct (keys (del k m))"
  by (simp add: keys_del)

lemma get_put_put: "get (put k v (put k w m)) k' = get (put k v m) k'"
  by (simp add: get_put)

lemma get_fold_put:
  "get (fold (\<lambda>x. put (kf x) (vf x)) xs m) k
     = (case find (\<lambda>x. kf x = k) (rev xs) of None \<Rightarrow> get m k | Some x \<Rightarrow> Some (vf x))"
proof (induction xs arbitrary: m)
  case Nil
  then show ?case by simp
next
  case (Cons x xs)
  then show ?case
    by (auto simp: get_put find_append split: option.splits)
qed

lemma get_fold_put_other: "k \<notin> kf ` set xs \<Longrightarrow> get (fold (\<lambda>x. put (kf x) (vf x)) xs m) k = get m k"
  by (induction xs arbitrary: m) (auto simp: get_put)

lemma keys_fold_put_subset:
  "set (keys (fold (\<lambda>x. put (kf x) (vf x)) xs m)) = set (keys m) \<union> kf ` set xs"
  by (induction xs arbitrary: m) (auto simp: keys_put keys_get)

end

lemma map_of_jmap_set: "map_of (jmap_set k v m) k' = (if k' = k then Some v else map_of m k')"
  by (induction k v m rule: jmap_set.induct) auto

lemma map_of_jmap_del: "map_of (jmap_del k m) k' = (if k' = k then None else map_of m k')"
  by (induction m) (auto simp: jmap_del_def)

lemma keys_jmap_set: "jmap_keys (jmap_set k v m) = (if map_of m k = None then jmap_keys m @ [k] else jmap_keys m)"
  by (induction k v m rule: jmap_set.induct) auto

lemma keys_jmap_del: "jmap_keys (jmap_del k m) = filter (\<lambda>k'. k' \<noteq> k) (jmap_keys m)"
  by (induction m) (auto simp: jmap_del_def)

interpretation jm: ordered_map map_of jmap_set jmap_del "\<lambda>m. jmap_keys m"
  by unfold_locales
    (simp_all add: map_of_jmap_set map_of_jmap_del keys_jmap_set keys_jmap_del map_of_eq_None_iff image_iff)

lemma jmap_set_new: "k \<notin> set (jmap_keys m) \<Longrightarrow> jmap_set k v m = m @ [(k, v)]"
  by (induction k v m rule: jmap_set.induct) auto

lemma set_jmap_setD: "x \<in> set (jmap_set k v m) \<Longrightarrow> x = (k, v) \<or> x \<in> set m"
  by (induction k v m rule: jmap_set.induct) (auto split: if_splits)

lemma set_jmap_delD: "x \<in> set (jmap_del k m) \<Longrightarrow> x \<in> set m"
  by (simp add: jmap_del_def)

section \<open>Runs of a step relation\<close>

text \<open>
  The components with state are step relations; a property of every run from a good state is
  an invariant of one step.  \<open>progress_system\<close> adds a quantity no step decreases.
\<close>

locale invariant_system =
  fixes step :: "'s \<Rightarrow> 's \<Rightarrow> bool"
    and inv :: "'s \<Rightarrow> bool"
  assumes step_inv: "inv s \<Longrightarrow> step s t \<Longrightarrow> inv t"
begin

lemma run_inv: "step\<^sup>*\<^sup>* s t \<Longrightarrow> inv s \<Longrightarrow> inv t"
  by (induction rule: rtranclp_induct) (auto intro: step_inv)

end

locale progress_system = invariant_system step inv
  for step :: "'s \<Rightarrow> 's \<Rightarrow> bool" and inv :: "'s \<Rightarrow> bool" +
  fixes progress :: "'s \<Rightarrow> 'm :: preorder"
  assumes step_progress: "inv s \<Longrightarrow> step s t \<Longrightarrow> progress s \<le> progress t"
begin

lemma run_progress: "step\<^sup>*\<^sup>* s t \<Longrightarrow> inv s \<Longrightarrow> progress s \<le> progress t"
proof (induction rule: rtranclp_induct)
  case base
  then show ?case by simp
next
  case (step t u)
  then have "progress t \<le> progress u"
    by (meson run_inv step_progress)
  with step show ?case by (meson order_trans)
qed

end

end
