(* ===== verification/Protocol.thy ===== *)
theory Protocol
  imports Prelude Complex_Main "HOL-Library.Multiset"
begin

text \<open>
  The data of \<open>packages/protocol/src\<close>: content blocks and messages (\<open>content.ts\<close>, \<open>message.ts\<close>), authors, usage,
  control messages and the event stream with its persisted subset (\<open>sdk.ts\<close>).  JSON values are a
  datatype; the numbers the harness's own records carry are integers, except the compute units,
  which are rationals; a JSON number is an integer or else a rational, kept exactly.  \<open>JSON.stringify\<close> is written out, since sizes of its output are compared
  with bounds.
\<close>

section \<open>JSON\<close>

datatype json =
    JNull
  | JBool bool
  | JNum int
  | JFrac rat
  | JStr string
  | JArr "json list"
  | JObj "(string \<times> json) list"

definition hex_digit :: "nat \<Rightarrow> char" where
  "hex_digit n = (if n < 10 then char_of (48 + n) else char_of (87 + n))"

definition json_esc :: "char \<Rightarrow> string" where
  "json_esc c =
     (if c = dquote then [bslash, dquote]
      else if c = bslash then [bslash, bslash]
      else if c = nl then [bslash] @ ''n''
      else if c = cr then [bslash] @ ''r''
      else if c = tab then [bslash] @ ''t''
      else if c = CHR 0x08 then [bslash] @ ''b''
      else if c = CHR 0x0C then [bslash] @ ''f''
      else if (of_char c :: nat) < 32 then
        [bslash] @ ''u00'' @ [hex_digit (of_char c div 16), hex_digit (of_char c mod 16)]
      else [c])"

definition json_quote :: "string \<Rightarrow> string" where
  "json_quote s = [dquote] @ concat (map json_esc s) @ [dquote]"

definition int_str :: "int \<Rightarrow> string" where
  "int_str n = (if n < 0 then ''-'' @ nat_str (nat (- n)) else nat_str (nat n))"

text \<open>A number that is not an integer, in decimal: at most thirty places, more than a double has.\<close>

primrec decimals :: "nat \<Rightarrow> rat \<Rightarrow> string" where
  "decimals 0 q = []"
| "decimals (Suc n) q = (if q = 0 then [] else digit_char (nat \<lfloor>10 * q\<rfloor>) # decimals n (10 * q - of_int \<lfloor>10 * q\<rfloor>))"

definition frac_str :: "rat \<Rightarrow> string" where
  "frac_str q =
     (if q < 0 then ''-'' else []) @ int_str \<lfloor>\<bar>q\<bar>\<rfloor> @ ''.'' @ decimals 30 (\<bar>q\<bar> - of_int \<lfloor>\<bar>q\<bar>\<rfloor>)"

fun json_str :: "json \<Rightarrow> string" where
  "json_str JNull = ''null''"
| "json_str (JBool b) = (if b then ''true'' else ''false'')"
| "json_str (JNum n) = int_str n"
| "json_str (JFrac q) = frac_str q"
| "json_str (JStr s) = json_quote s"
| "json_str (JArr xs) = ''['' @ join '','' (map json_str xs) @ '']''"
| "json_str (JObj kvs) = ''{'' @ join '','' (map (\<lambda>(k, v). json_quote k @ '':'' @ json_str v) kvs) @ ''}''"

text \<open>Own properties of an object; a repeated key keeps the last value, as \<open>JSON.parse\<close> does.\<close>

fun jget :: "string \<Rightarrow> json \<Rightarrow> json option" where
  "jget k (JObj kvs) = map_of (rev kvs) k"
| "jget k _ = None"

section \<open>Content blocks and messages\<close>

datatype rich_block =
    RText (rich_text: string)
  | RImage (rich_media: string) (rich_data: string)
  | RDocument (rich_media: string) (rich_data: string)

datatype result_content = ResultString string | ResultBlocks "rich_block list"

datatype content_block =
    TextBlock string
  | ThinkingBlock string "string option"
  | ToolUse string string json
  | ToolResult string result_content "bool option"
  | ImageBlock string string
  | DocumentBlock string string

datatype role = User | Assistant

datatype msg_content = StrContent string | Blocks "content_block list"

record message =
  role :: role
  content :: msg_content

datatype stop_reason = EndTurn | ToolUseStop | MaxTokens | StopSequence

abbreviation user_msg :: "msg_content \<Rightarrow> message" where
  "user_msg c \<equiv> \<lparr>role = User, content = c\<rparr>"

abbreviation assistant_msg :: "msg_content \<Rightarrow> message" where
  "assistant_msg c \<equiv> \<lparr>role = Assistant, content = c\<rparr>"

section \<open>Authors and usage\<close>

datatype author_type = HumanAuthor | AgentAuthor | SystemAuthor

record author =
  au_type :: author_type
  au_id :: "string option"
  au_displayName :: "string option"

definition HUMAN :: author where
  "HUMAN = \<lparr>au_type = HumanAuthor, au_id = None, au_displayName = None\<rparr>"

definition SYSTEM :: author where
  "SYSTEM = \<lparr>au_type = SystemAuthor, au_id = None, au_displayName = None\<rparr>"

definition agentAuthor :: "string \<Rightarrow> string option \<Rightarrow> author" where
  "agentAuthor i displayName =
     \<lparr>au_type = AgentAuthor, au_id = Some i, au_displayName = Some (case displayName of None \<Rightarrow> i | Some d \<Rightarrow> d)\<rparr>"

definition USD_PER_CU :: nat where "USD_PER_CU = 10"

record usage =
  input_tokens :: nat
  output_tokens :: nat
  cache_creation :: "nat option"
  cache_read :: "nat option"
  compute_units :: "rat option"

definition emptyUsage :: usage where
  "emptyUsage = \<lparr>input_tokens = 0, output_tokens = 0, cache_creation = None, cache_read = None, compute_units = None\<rparr>"

definition or_zero :: "'a :: zero option \<Rightarrow> 'a" where
  "or_zero x = (case x of None \<Rightarrow> 0 | Some v \<Rightarrow> v)"

definition addUsage :: "usage \<Rightarrow> usage \<Rightarrow> usage" where
  "addUsage a b =
     \<lparr>input_tokens = input_tokens a + input_tokens b,
      output_tokens = output_tokens a + output_tokens b,
      cache_creation = Some (or_zero (cache_creation a) + or_zero (cache_creation b)),
      cache_read = Some (or_zero (cache_read a) + or_zero (cache_read b)),
      compute_units = (if compute_units a \<noteq> None \<or> compute_units b \<noteq> None
                       then Some (or_zero (compute_units a) + or_zero (compute_units b)) else None)\<rparr>"

section \<open>Events\<close>

datatype refusal_code = ModelAccessDenied | BudgetExceeded
datatype refusal_reason = HopPolicy | KeyPolicy | NotServed | GatewayRefused

record model_refusal =
  rf_code :: refusal_code
  rf_model :: string
  rf_hop :: string
  rf_reason :: "refusal_reason option"
  rf_message :: string
  rf_window :: "string option"
  rf_resetsAt :: "string option"

datatype capacity_reason = QuotaGlobal | QuotaTenant | HostFull | NoHosts

record sandbox_refusal =
  sr_reason :: capacity_reason
  sr_retryAfterS :: "nat option"
  sr_sandboxId :: "string option"
  sr_message :: string

record system_init_event =
  si_sessionId :: string
  si_agentId :: string
  si_model :: string
  si_cwd :: string

record user_event =
  ue_message :: message
  ue_author :: author
  ue_requestId :: "string option"

record assistant_event =
  ae_message :: message
  ae_usage :: usage
  ae_stopReason :: "stop_reason option"
  ae_model :: string
  ae_effort :: "(string \<times> string) option"

datatype judge_verdict = JudgeAllow | JudgeDeny

record tool_result_event =
  tr_toolUseId :: string
  tr_toolName :: string
  tr_content :: string
  tr_blocks :: "rich_block list option"
  tr_diff :: "string option"
  tr_judged :: "(judge_verdict \<times> string) option"
  tr_refusal :: "model_refusal option"
  tr_sandboxRefusal :: "sandbox_refusal option"
  tr_isError :: bool

datatype result_subtype = Success | ErrorResult | MaxTurns | Cancelled | NeedsApproval | InterruptedRun

record pending_approval =
  pa_command :: string
  pa_reason :: string
  pa_toolUseId :: "string option"
  pa_index :: "nat option"

record result_event =
  re_subtype :: result_subtype
  re_reason :: "string option"
  re_refusal :: "model_refusal option"
  re_sandboxRefusal :: "sandbox_refusal option"
  re_numTurns :: nat
  re_usage :: usage
  re_pendingApproval :: "pending_approval option"

record error_event =
  ee_message :: string
  ee_refusal :: "model_refusal option"
  ee_sandboxRefusal :: "sandbox_refusal option"

datatype subagent_kind = SubStart | SubProgress | SubEnd
datatype subagent_outcome = SubSuccess | SubError | SubCancelled

record subagent_event =
  sa_kind :: subagent_kind
  sa_toolUseId :: string
  sa_childSessionId :: string
  sa_description :: string
  sa_model :: "string option"
  sa_background :: bool
  sa_status :: "string option"
  sa_outcome :: "subagent_outcome option"

record rewind_event =
  rw_toUuid :: "string option"
  rw_turn :: nat

datatype compact_trigger = AutoCompact | ManualCompact

record compact_event =
  ce_summary :: string
  ce_trigger :: compact_trigger
  ce_replacedMessages :: nat

record model_fallback_event =
  mf_from :: string
  mf_to :: string
  mf_reason :: string
  mf_code :: string

datatype sdk_message =
    SystemInit system_init_event
  | UserEv user_event
  | AssistantEv assistant_event
  | RewindEv rewind_event
  | ToolResultEv tool_result_event
  | ResultEv result_event
  | ErrorEv error_event
  | CompactEv compact_event
  | SubagentEv subagent_event
  | ModelFallbackEv model_fallback_event

datatype stream_delta = TextDelta string | ThinkingDelta string | ToolUseStart string string | ResetDelta

datatype engine_event = Sdk sdk_message | Delta stream_delta | SubagentStream string engine_event

definition isPersisted :: "engine_event \<Rightarrow> bool" where
  "isPersisted e =
     (case e of
        Sdk (SubagentEv s) \<Rightarrow> sa_kind s \<noteq> SubProgress
      | Sdk _ \<Rightarrow> True
      | Delta _ \<Rightarrow> False
      | SubagentStream _ _ \<Rightarrow> False)"

record conversation_entry =
  ce_uuid :: string
  ce_parentUuid :: "string option"
  ce_ts :: string
  ce_payload :: sdk_message

section \<open>Readers of a message\<close>

definition tool_use_ids :: "content_block list \<Rightarrow> string list" where
  "tool_use_ids bs = concat (map (\<lambda>b. case b of ToolUse i n j \<Rightarrow> [i] | _ \<Rightarrow> []) bs)"

definition tool_result_ids :: "content_block list \<Rightarrow> string list" where
  "tool_result_ids bs = concat (map (\<lambda>b. case b of ToolResult i c e \<Rightarrow> [i] | _ \<Rightarrow> []) bs)"

definition msg_blocks :: "message \<Rightarrow> content_block list" where
  "msg_blocks m = (case content m of StrContent s \<Rightarrow> [] | Blocks bs \<Rightarrow> bs)"

definition msg_uses :: "message \<Rightarrow> string list" where
  "msg_uses m = (if role m = Assistant then tool_use_ids (msg_blocks m) else [])"

definition msg_results :: "message \<Rightarrow> string list" where
  "msg_results m = (if role m = User then tool_result_ids (msg_blocks m) else [])"

lemma tool_use_ids_simps [simp]:
  "tool_use_ids [] = []"
  "tool_use_ids (b # bs) = (case b of ToolUse i n j \<Rightarrow> [i] | _ \<Rightarrow> []) @ tool_use_ids bs"
  "tool_use_ids (bs @ cs) = tool_use_ids bs @ tool_use_ids cs"
  by (simp_all add: tool_use_ids_def)

lemma tool_result_ids_simps [simp]:
  "tool_result_ids [] = []"
  "tool_result_ids (b # bs) = (case b of ToolResult i c e \<Rightarrow> [i] | _ \<Rightarrow> []) @ tool_result_ids bs"
  "tool_result_ids (bs @ cs) = tool_result_ids bs @ tool_result_ids cs"
  by (simp_all add: tool_result_ids_def)

lemma msg_blocks_simps [simp]:
  "msg_blocks \<lparr>role = r, content = StrContent s\<rparr> = []"
  "msg_blocks \<lparr>role = r, content = Blocks bs\<rparr> = bs"
  by (simp_all add: msg_blocks_def)

text \<open>\<open>addUsage\<close> counts: absent and zero are the same to every reader.\<close>

definition usage_counts :: "usage \<Rightarrow> nat \<times> nat \<times> nat \<times> nat \<times> rat" where
  "usage_counts u = (input_tokens u, output_tokens u, or_zero (cache_creation u), or_zero (cache_read u), or_zero (compute_units u))"

lemma or_zero_simps [simp]: "or_zero None = 0" "or_zero (Some v) = v"
  by (simp_all add: or_zero_def)

lemma or_zero_addUsage:
  "or_zero (compute_units (addUsage a b)) = or_zero (compute_units a) + or_zero (compute_units b)"
  by (auto simp: addUsage_def)

lemma fold_addUsage_counts:
  "usage_counts (foldl addUsage u us) =
     (input_tokens u + sum_list (map input_tokens us), output_tokens u + sum_list (map output_tokens us),
      or_zero (cache_creation u) + sum_list (map (or_zero \<circ> cache_creation) us),
      or_zero (cache_read u) + sum_list (map (or_zero \<circ> cache_read) us),
      or_zero (compute_units u) + sum_list (map (or_zero \<circ> compute_units) us))"
proof (induction us arbitrary: u)
  case Nil
  then show ?case by (simp add: usage_counts_def)
next
  case (Cons v us)
  show ?case
    by (simp add: Cons.IH or_zero_addUsage) (simp add: addUsage_def)
qed

lemma fold_addUsage_units:
  "compute_units (foldl addUsage u us) = None \<longleftrightarrow> compute_units u = None \<and> (\<forall>v \<in> set us. compute_units v = None)"
  by (induction us arbitrary: u) (auto simp: addUsage_def)

text \<open>
  Folding \<open>addUsage\<close> over the usages of a run does not depend on their order in any count the
  meter reads, and the compute units are absent exactly when no call reported any.
\<close>

theorem usage_meter:
  assumes "mset us = mset vs"
  shows "usage_counts (foldl addUsage emptyUsage us) = usage_counts (foldl addUsage emptyUsage vs)
    \<and> (compute_units (foldl addUsage emptyUsage us) = None \<longleftrightarrow> (\<forall>u \<in> set us. compute_units u = None))"
proof -
  have "sum_list (map f us) = sum_list (map f vs)" for f :: "usage \<Rightarrow> nat"
    using assms by (metis mset_map sum_mset_sum_list)
  moreover have "sum_list (map f us) = sum_list (map f vs)" for f :: "usage \<Rightarrow> rat"
    using assms by (metis mset_map sum_mset_sum_list)
  ultimately show ?thesis
    by (simp add: fold_addUsage_counts fold_addUsage_units emptyUsage_def)
qed

definition sample_usage :: "nat \<Rightarrow> usage" where
  "sample_usage n = emptyUsage\<lparr>input_tokens := n, compute_units := Some (of_nat n / 10)\<rparr>"

theorem usage_meter_witness:
  "usage_counts (foldl addUsage emptyUsage [sample_usage 1, sample_usage 2])
     = usage_counts (foldl addUsage emptyUsage [sample_usage 2, sample_usage 1])"
  by (rule usage_meter [THEN conjunct1]) simp

end
