(* ===== verification/Sha256.thy ===== *)
theory Sha256
  imports Prelude "HOL-Library.Word"
begin

unbundle bit_operations_syntax

text \<open>
  The digest of \<open>node:crypto\<close>, \<open>createHash("sha256").update(s).digest("hex")\<close>: SHA-256 (FIPS 180-4) over the
  UTF-8 bytes of the string, in hexadecimal.  Words are 32 bits wide and their addition wraps, as the standard has it.
\<close>

type_synonym word32 = "32 word"

text \<open>
  The constants are the first 32 bits of the fractional parts of the cube roots (square roots) of the first primes:
  \<open>root_bits k n i r\<close> is the largest number that differs from \<open>r\<close> in its low \<open>i\<close> bits and whose \<open>k\<close>-th power is at
  most \<open>n\<close>.
\<close>

primrec root_bits :: "nat \<Rightarrow> nat \<Rightarrow> nat \<Rightarrow> nat \<Rightarrow> nat" where
  "root_bits k n 0 r = r"
| "root_bits k n (Suc i) r = root_bits k n i (if (r + 2 ^ i) ^ k \<le> n then r + 2 ^ i else r)"

definition primes_below :: "nat \<Rightarrow> nat list" where
  "primes_below m = filter (\<lambda>p. list_all (\<lambda>d. p mod d \<noteq> 0) [2..<p]) [2..<m]"

definition root_fraction :: "nat \<Rightarrow> nat \<Rightarrow> word32" where
  "root_fraction k p = of_nat (root_bits k (p * 2 ^ (32 * k)) 40 0)"

definition sha_K :: "word32 list" where "sha_K = map (root_fraction 3) (primes_below 312)"
definition sha_H :: "word32 list" where "sha_H = map (root_fraction 2) (primes_below 20)"

section \<open>Bytes of a string\<close>

text \<open>The code points of the upper quarter of the code page, and the UTF-8 encoding of a code point below \<open>0x10000\<close>.\<close>

definition high_points :: "nat list" where
  "high_points =
     [0x20AC, 0x81, 0x201A, 0x192, 0x201E, 0x2026, 0x2020, 0x2021, 0x2C6, 0x2030, 0x160, 0x2039, 0x152, 0x8D, 0x17D, 0x8F,
      0x90, 0x2018, 0x2019, 0x201C, 0x201D, 0x2022, 0x2013, 0x2014, 0x2DC, 0x2122, 0x161, 0x203A, 0x153, 0x9D, 0x17E, 0x178]"

definition code_point :: "char \<Rightarrow> nat" where
  "code_point c = (let n = of_char c in if 0x80 \<le> n \<and> n < 0xA0 then high_points ! (n - 0x80) else n)"

definition utf8 :: "nat \<Rightarrow> nat list" where
  "utf8 n =
     (if n < 0x80 then [n]
      else if n < 0x800 then [0xC0 + n div 64, 0x80 + n mod 64]
      else [0xE0 + n div 4096, 0x80 + n div 64 mod 64, 0x80 + n mod 64])"

definition utf8_bytes :: "string \<Rightarrow> nat list" where
  "utf8_bytes s = concat (map (\<lambda>c. utf8 (code_point c)) s)"

section \<open>The compression of one block\<close>

definition sha_ch :: "word32 \<Rightarrow> word32 \<Rightarrow> word32 \<Rightarrow> word32" where "sha_ch x y z = (x AND y) XOR (NOT x AND z)"
definition sha_maj :: "word32 \<Rightarrow> word32 \<Rightarrow> word32 \<Rightarrow> word32" where "sha_maj x y z = (x AND y) XOR (x AND z) XOR (y AND z)"
definition rotr :: "nat \<Rightarrow> word32 \<Rightarrow> word32" where "rotr n x = drop_bit n x OR push_bit (32 - n) x"
definition big0 :: "word32 \<Rightarrow> word32" where "big0 x = rotr 2 x XOR rotr 13 x XOR rotr 22 x"
definition big1 :: "word32 \<Rightarrow> word32" where "big1 x = rotr 6 x XOR rotr 11 x XOR rotr 25 x"
definition small0 :: "word32 \<Rightarrow> word32" where "small0 x = rotr 7 x XOR rotr 18 x XOR drop_bit 3 x"
definition small1 :: "word32 \<Rightarrow> word32" where "small1 x = rotr 17 x XOR rotr 19 x XOR drop_bit 10 x"

definition word_of_bytes :: "nat list \<Rightarrow> word32" where
  "word_of_bytes bs = of_nat (foldl (\<lambda>n b. 256 * n + b) 0 bs)"

fun chunks :: "nat \<Rightarrow> 'a list \<Rightarrow> 'a list list" where
  "chunks n [] = []"
| "chunks n (x # xs) = (x # take (n - 1) xs) # chunks n (drop (n - 1) xs)"

text \<open>The message schedule: sixteen words extended to sixty-four.\<close>

primrec extend :: "nat \<Rightarrow> word32 list \<Rightarrow> word32 list" where
  "extend 0 w = w"
| "extend (Suc n) w =
     (let t = length w
      in extend n (w @ [small1 (w ! (t - 2)) + w ! (t - 7) + small0 (w ! (t - 15)) + w ! (t - 16)]))"

fun sha_round :: "word32 list \<Rightarrow> word32 \<times> word32 \<Rightarrow> word32 list" where
  "sha_round [a, b, c, d, e, f, g, h] (k, w) =
     (let t1 = h + big1 e + sha_ch e f g + k + w; t2 = big0 a + sha_maj a b c
      in [t1 + t2, a, b, c, d + t1, e, f, g])"
| "sha_round s _ = s"

definition sha_block :: "word32 list \<Rightarrow> nat list \<Rightarrow> word32 list" where
  "sha_block hs block =
     map2 (+) hs (foldl sha_round hs (zip sha_K (extend 48 (map word_of_bytes (chunks 4 block)))))"

definition sha_pad :: "nat list \<Rightarrow> nat list" where
  "sha_pad bs =
     (let n = length bs; zeros = (119 - n mod 64) mod 64
      in bs @ 0x80 # replicate zeros 0 @ map (\<lambda>i. (8 * n) div 256 ^ (7 - i) mod 256) [0..<8])"

section \<open>The digest\<close>

definition hex_nibble :: "nat \<Rightarrow> char" where
  "hex_nibble n = (if n < 10 then char_of (48 + n) else char_of (87 + n))"

definition word_hex :: "word32 \<Rightarrow> string" where
  "word_hex w = map (\<lambda>i. hex_nibble (unat w div 16 ^ (7 - i) mod 16)) [0..<8]"

definition sha256_hex :: "string \<Rightarrow> string" where
  "sha256_hex s = concat (map word_hex (foldl sha_block sha_H (chunks 64 (sha_pad (utf8_bytes s)))))"

text \<open>The padding fills blocks of sixty-four bytes.\<close>

lemma sha_pad_blocks: "64 dvd length (sha_pad bs)"
proof -
  define n r where "n = length bs" and "r = n mod 64"
  have r: "r < 64" and n: "n = 64 * (n div 64) + r" by (simp_all add: r_def)
  have "(r + (9 + (119 - r) mod 64)) mod 64 = 0"
  proof (cases "r \<le> 55")
    case True
    then have "(119 - r) mod 64 = 55 - r" by (simp add: mod_if)
    with True show ?thesis by simp
  next
    case False
    with r have "(119 - r) mod 64 = 119 - r" by simp
    with False r show ?thesis by simp
  qed
  then have "64 dvd r + (9 + (119 - r) mod 64)" by presburger
  then have "64 dvd 64 * (n div 64) + (r + (9 + (119 - r) mod 64))" by (rule dvd_add [OF dvd_triv_left])
  moreover have "length (sha_pad bs) = 64 * (n div 64) + (r + (9 + (119 - r) mod 64))"
    using n by (simp add: sha_pad_def Let_def n_def r_def)
  ultimately show ?thesis by simp
qed

lemma length_sha_round: "length (sha_round s kw) = length s"
  by (cases "(s, kw)" rule: sha_round.cases) (simp_all add: Let_def)

lemma length_sha_rounds: "length (foldl sha_round s kws) = length s"
  by (induction kws arbitrary: s) (simp_all add: length_sha_round)

lemma length_sha_blocks: "length (foldl sha_block hs bs) = length hs"
  by (induction bs arbitrary: hs) (simp_all add: sha_block_def length_sha_rounds)

lemma length_concat_words: "length (concat (map word_hex ws)) = 8 * length ws"
  by (induction ws) (simp_all add: word_hex_def)

lemma length_sha_H: "length sha_H = 8"
proof -
  have "length (primes_below 20) = 8" by code_simp
  then show ?thesis by (simp add: sha_H_def)
qed

lemma length_sha256_hex: "length (sha256_hex s) = 64"
  by (simp add: sha256_hex_def length_concat_words length_sha_blocks length_sha_H)

end
