(* ===== verification/JsRegex.thy ===== *)
theory JsRegex
  imports Prelude "HOL-Library.Char_ord"
begin

text \<open>
  The regular expressions of the source, as data.  A position is the character before it (none at the start of
  the string) and the rest of the string; \<open>rx_ends\<close> lists the positions a match from a position can end at,
  in the order the backtracking matcher of JavaScript tries them (alternatives left to right, the
  star greedy, an empty iteration never repeated), so its head is the match \<open>exec\<close> returns.
  Character classes are predicates.  The flags of the source are spelled out where an expression is
  translated: \<open>i\<close> by case-insensitive classes, no \<open>m\<close>, so \<open>^\<close> and \<open>$\<close> are the ends of the string.
\<close>

section \<open>Expressions\<close>

type_synonym pos = "char option \<times> string"

datatype rx =
    Eps
  | Chr "char \<Rightarrow> bool"
  | Cat rx rx
  | Alt rx rx
  | Star rx
  | Bol
  | Eol
  | WordB
  | Prev "char option \<Rightarrow> bool"
  | Ahead rx
  | NotAhead rx

definition is_lower :: "char \<Rightarrow> bool" where "is_lower c = (CHR ''a'' \<le> c \<and> c \<le> CHR ''z'')"
definition is_upper :: "char \<Rightarrow> bool" where "is_upper c = (CHR ''A'' \<le> c \<and> c \<le> CHR ''Z'')"
definition is_digit :: "char \<Rightarrow> bool" where "is_digit c = (CHR ''0'' \<le> c \<and> c \<le> CHR ''9'')"
definition is_alpha :: "char \<Rightarrow> bool" where "is_alpha c = (is_lower c \<or> is_upper c)"
definition is_word :: "char \<Rightarrow> bool" where "is_word c = (is_alpha c \<or> is_digit c \<or> c = CHR ''_'')"

text \<open>\<open>c.toLowerCase()\<close> on ASCII letters, and \<open>.\<close> (no line terminator).\<close>

definition lower :: "char \<Rightarrow> char" where
  "lower c =
     (case map_of (zip ''ABCDEFGHIJKLMNOPQRSTUVWXYZ'' ''abcdefghijklmnopqrstuvwxyz'') c of None \<Rightarrow> c | Some d \<Rightarrow> d)"

definition toLowerCase :: "string \<Rightarrow> string" where
  "toLowerCase s = map lower s"

definition not_newline :: "char \<Rightarrow> bool" where "not_newline c = (c \<noteq> nl \<and> c \<noteq> cr)"

section \<open>Matching\<close>

fun advance :: "pos \<Rightarrow> (char \<times> pos) option" where
  "advance (prev, []) = None"
| "advance (prev, c # cs) = Some (c, (Some c, cs))"

definition at_boundary :: "pos \<Rightarrow> bool" where
  "at_boundary p =
     ((case fst p of None \<Rightarrow> False | Some c \<Rightarrow> is_word c) \<noteq> (case snd p of [] \<Rightarrow> False | c # _ \<Rightarrow> is_word c))"

text \<open>At most \<open>n\<close> iterations, each of which moves on; as many as characters are left is every iteration there is.\<close>

primrec star_ends :: "(pos \<Rightarrow> pos list) \<Rightarrow> nat \<Rightarrow> pos \<Rightarrow> pos list" where
  "star_ends f 0 p = [p]"
| "star_ends f (Suc n) p = concat (map (star_ends f n) (filter (\<lambda>q. length (snd q) < length (snd p)) (f p))) @ [p]"

primrec rx_ends :: "rx \<Rightarrow> pos \<Rightarrow> pos list" where
  "rx_ends Eps p = [p]"
| "rx_ends (Chr P) p = (case advance p of Some (c, q) \<Rightarrow> (if P c then [q] else []) | None \<Rightarrow> [])"
| "rx_ends (Cat a b) p = concat (map (rx_ends b) (rx_ends a p))"
| "rx_ends (Alt a b) p = rx_ends a p @ rx_ends b p"
| "rx_ends (Star a) p = star_ends (rx_ends a) (length (snd p)) p"
| "rx_ends Bol p = (if fst p = None then [p] else [])"
| "rx_ends Eol p = (if snd p = [] then [p] else [])"
| "rx_ends WordB p = (if at_boundary p then [p] else [])"
| "rx_ends (Prev P) p = (if P (fst p) then [p] else [])"
| "rx_ends (Ahead a) p = (if rx_ends a p \<noteq> [] then [p] else [])"
| "rx_ends (NotAhead a) p = (if rx_ends a p = [] then [p] else [])"

text \<open>\<open>re.test(s)\<close>: a match from some position of the string.\<close>

function rx_search :: "rx \<Rightarrow> pos \<Rightarrow> bool" where
  "rx_search r p = (rx_ends r p \<noteq> [] \<or> (case snd p of [] \<Rightarrow> False | c # cs \<Rightarrow> rx_search r (Some c, cs)))"
  by pat_completeness auto
termination by (relation "measure (\<lambda>(r, p). length (snd p))") auto

declare rx_search.simps [simp del]

definition rx_test :: "rx \<Rightarrow> string \<Rightarrow> bool" where
  "rx_test r s = rx_search r (None, s)"

text \<open>\<open>s.replace(re, by)\<close> without the \<open>g\<close> flag: the first match only.\<close>

function rx_replace_from :: "rx \<Rightarrow> string \<Rightarrow> pos \<Rightarrow> string" where
  "rx_replace_from r by_s p =
     (case rx_ends r p of
        q # _ \<Rightarrow> by_s @ snd q
      | [] \<Rightarrow> (case snd p of [] \<Rightarrow> [] | c # cs \<Rightarrow> c # rx_replace_from r by_s (Some c, cs)))"
  by pat_completeness auto
termination by (relation "measure (\<lambda>(r, b, p). length (snd p))") auto

declare rx_replace_from.simps [simp del]

definition rx_replace1 :: "rx \<Rightarrow> string \<Rightarrow> string \<Rightarrow> string" where
  "rx_replace1 r by_s s = rx_replace_from r by_s (None, s)"

text \<open>\<open>s.replace(re, by)\<close> with the \<open>g\<close> flag; an empty match leaves the next character in place.\<close>

function rx_replace_all :: "rx \<Rightarrow> string \<Rightarrow> pos \<Rightarrow> string" where
  "rx_replace_all r by_s p =
     (case find (\<lambda>q. True) (rx_ends r p) of
        Some q \<Rightarrow>
          if length (snd q) < length (snd p) then by_s @ rx_replace_all r by_s q
          else (case snd p of [] \<Rightarrow> by_s | c # cs \<Rightarrow> by_s @ c # rx_replace_all r by_s (Some c, cs))
      | None \<Rightarrow> (case snd p of [] \<Rightarrow> [] | c # cs \<Rightarrow> c # rx_replace_all r by_s (Some c, cs)))"
  by pat_completeness auto
termination by (relation "measure (\<lambda>(r, b, p). length (snd p))") auto

declare rx_replace_all.simps [simp del]

section \<open>Spelling expressions\<close>

primrec lit :: "string \<Rightarrow> rx" where
  "lit [] = Eps"
| "lit (c # cs) = Cat (Chr (\<lambda>d. d = c)) (lit cs)"

primrec lit_i :: "string \<Rightarrow> rx" where
  "lit_i [] = Eps"
| "lit_i (c # cs) = Cat (Chr (\<lambda>d. lower d = lower c)) (lit_i cs)"

fun alts :: "rx list \<Rightarrow> rx" where
  "alts [] = Chr (\<lambda>_. False)"
| "alts [r] = r"
| "alts (r # s # rs) = Alt r (alts (s # rs))"

fun cats :: "rx list \<Rightarrow> rx" where
  "cats [] = Eps"
| "cats [r] = r"
| "cats (r # s # rs) = Cat r (cats (s # rs))"

definition one_of :: "string \<Rightarrow> rx" where "one_of cs = Chr (\<lambda>c. c \<in> set cs)"
definition none_of :: "string \<Rightarrow> rx" where "none_of cs = Chr (\<lambda>c. c \<notin> set cs)"
definition opt :: "rx \<Rightarrow> rx" where "opt r = Alt r Eps"
definition plus :: "rx \<Rightarrow> rx" where "plus r = Cat r (Star r)"
definition ws :: rx where "ws = Chr is_ws"
definition non_ws :: rx where "non_ws = Chr (\<lambda>c. \<not> is_ws c)"
definition dot :: rx where "dot = Chr not_newline"
definition digit :: rx where "digit = Chr is_digit"
definition lower_i :: rx where "lower_i = Chr (\<lambda>c. is_lower (lower c))"

lemmas rx_spell = one_of_def none_of_def opt_def plus_def ws_def non_ws_def dot_def digit_def lower_i_def

section \<open>Positions only move on\<close>

definition after :: "pos \<Rightarrow> pos \<Rightarrow> bool" where
  "after p q \<longleftrightarrow> (\<exists>cs. snd p = cs @ snd q \<and> (if cs = [] then fst q = fst p else fst q = Some (last cs)))"

lemma after_refl [simp]: "after p p"
  by (simp add: after_def)

lemma after_trans: "after p q \<Longrightarrow> after q r \<Longrightarrow> after p r"
  unfolding after_def by (elim exE, rule_tac x = "cs @ csa" in exI) (auto split: if_splits)

lemma after_step: "after (prev, c # cs) (Some c, cs)"
  by (auto simp: after_def intro: exI [of _ "[c]"])

lemma star_ends_after:
  "(\<And>p q. q \<in> set (f p) \<Longrightarrow> after p q) \<Longrightarrow> q \<in> set (star_ends f n p) \<Longrightarrow> after p q"
proof (induction n arbitrary: p)
  case (Suc n)
  from Suc.prems(2) consider "q = p" | r where "r \<in> set (f p)" "q \<in> set (star_ends f n r)" by auto
  then show ?case
  proof cases
    case 2
    with Suc.IH [OF Suc.prems(1)] Suc.prems(1) have "after p r" "after r q" by blast+
    then show ?thesis by (rule after_trans)
  qed simp
qed simp

lemma rx_ends_after: "q \<in> set (rx_ends r p) \<Longrightarrow> after p q"
proof (induction r arbitrary: p q)
  case (Chr P)
  then show ?case by (cases p; cases "snd p") (auto simp: after_step split: if_splits)
next
  case (Cat a b)
  from Cat.prems obtain r where "r \<in> set (rx_ends a p)" "q \<in> set (rx_ends b r)" by auto
  then show ?case using Cat.IH after_trans by blast
next
  case (Star a)
  from Star.prems have "q \<in> set (star_ends (rx_ends a) (length (snd p)) p)" by simp
  from star_ends_after [OF Star.IH this] show ?case .
qed (auto split: if_splits)

lemma after_length: "after p q \<Longrightarrow> length (snd q) \<le> length (snd p)"
  by (auto simp: after_def)

text \<open>An expression that reads at least one character moves on strictly.\<close>

primrec consumes :: "rx \<Rightarrow> bool" where
  "consumes Eps = False"
| "consumes (Chr P) = True"
| "consumes (Cat a b) = (consumes a \<or> consumes b)"
| "consumes (Alt a b) = (consumes a \<and> consumes b)"
| "consumes (Star a) = False"
| "consumes Bol = False"
| "consumes Eol = False"
| "consumes WordB = False"
| "consumes (Prev P) = False"
| "consumes (Ahead a) = False"
| "consumes (NotAhead a) = False"

lemma rx_ends_consumes: "consumes r \<Longrightarrow> q \<in> set (rx_ends r p) \<Longrightarrow> length (snd q) < length (snd p)"
proof (induction r arbitrary: p q)
  case (Chr P)
  then show ?case by (cases p; cases "snd p") (auto split: if_splits)
next
  case (Cat a b)
  from Cat.prems obtain m where m: "m \<in> set (rx_ends a p)" "q \<in> set (rx_ends b m)" by auto
  have "length (snd m) \<le> length (snd p)" "length (snd q) \<le> length (snd m)"
    using m by (auto intro: after_length rx_ends_after)
  with Cat m show ?case by (cases "consumes a") fastforce+
qed auto

section \<open>A context that does not matter\<close>

text \<open>
  An expression without \<open>^\<close> cannot tell the start of a string from a position after a non-word
  character: what it matches in a string it matches there too.
\<close>

primrec no_bol :: "rx \<Rightarrow> bool" where
  "no_bol Eps = True"
| "no_bol (Chr P) = True"
| "no_bol (Cat a b) = (no_bol a \<and> no_bol b)"
| "no_bol (Alt a b) = (no_bol a \<and> no_bol b)"
| "no_bol (Star a) = no_bol a"
| "no_bol Bol = False"
| "no_bol Eol = True"
| "no_bol WordB = True"
| "no_bol (Prev P) = False"
| "no_bol (Ahead a) = no_bol a"
| "no_bol (NotAhead a) = no_bol a"

definition same_view :: "pos \<Rightarrow> pos \<Rightarrow> bool" where
  "same_view p q \<longleftrightarrow> snd p = snd q \<and>
     (case fst p of None \<Rightarrow> False | Some c \<Rightarrow> is_word c) = (case fst q of None \<Rightarrow> False | Some c \<Rightarrow> is_word c)"

lemma same_view_refl [simp]: "same_view p p"
  by (simp add: same_view_def)

lemma list_all2_concat_map:
  "list_all2 R xs ys \<Longrightarrow> (\<And>x y. R x y \<Longrightarrow> list_all2 S (f x) (g y)) \<Longrightarrow> list_all2 S (concat (map f xs)) (concat (map g ys))"
  by (induction rule: list_all2_induct) (auto intro: list_all2_appendI)

lemma list_all2_filter:
  "list_all2 R xs ys \<Longrightarrow> (\<And>x y. R x y \<Longrightarrow> P x = Q y) \<Longrightarrow> list_all2 R (filter P xs) (filter Q ys)"
  by (induction rule: list_all2_induct) auto

lemma star_ends_view:
  assumes "\<And>p q. same_view p q \<Longrightarrow> list_all2 same_view (f p) (f q)" "same_view p q"
  shows "list_all2 same_view (star_ends f n p) (star_ends f n q)"
  using assms(2)
proof (induction n arbitrary: p q)
  case (Suc n)
  have "list_all2 same_view (filter (\<lambda>r. length (snd r) < length (snd p)) (f p)) (filter (\<lambda>r. length (snd r) < length (snd q)) (f q))"
    using assms(1) Suc.prems by (intro list_all2_filter) (auto simp: same_view_def)
  with Suc show ?case
    by (auto intro!: list_all2_appendI list_all2_concat_map)
qed simp

lemma rx_ends_view: "no_bol r \<Longrightarrow> same_view p q \<Longrightarrow> list_all2 same_view (rx_ends r p) (rx_ends r q)"
proof (induction r arbitrary: p q)
  case (Chr P)
  then show ?case
    by (cases p; cases q; cases "snd p") (auto simp: same_view_def)
next
  case (Cat a b)
  then have "list_all2 same_view (rx_ends a p) (rx_ends a q)" by simp
  from list_all2_concat_map [OF this, of same_view "rx_ends b" "rx_ends b"] Cat show ?case by simp
next
  case (Alt a b)
  then show ?case by (simp add: list_all2_appendI)
next
  case (Star a)
  then have "length (snd p) = length (snd q)" by (simp add: same_view_def)
  moreover have "list_all2 same_view (star_ends (rx_ends a) n p) (star_ends (rx_ends a) n q)" for n
    using Star.prems by (intro star_ends_view Star.IH) simp_all
  ultimately show ?case by simp
next
  case WordB
  then show ?case by (auto simp: same_view_def at_boundary_def)
next
  case (Ahead a)
  then have "list_all2 same_view (rx_ends a p) (rx_ends a q)" by simp
  then have "(rx_ends a p = []) = (rx_ends a q = [])" by auto
  with Ahead show ?case by auto
next
  case (NotAhead a)
  then have "list_all2 same_view (rx_ends a p) (rx_ends a q)" by simp
  then have "(rx_ends a p = []) = (rx_ends a q = [])" by auto
  with NotAhead show ?case by auto
qed (auto simp: same_view_def)

lemma rx_ends_view_Nil: "no_bol r \<Longrightarrow> same_view p q \<Longrightarrow> (rx_ends r p = []) = (rx_ends r q = [])"
  using rx_ends_view [of r p q] by auto

lemma rx_search_view: "no_bol r \<Longrightarrow> same_view p q \<Longrightarrow> rx_search r p = rx_search r q"
proof -
  assume v: "no_bol r" "same_view p q"
  then have "snd p = snd q" by (simp add: same_view_def)
  then show ?thesis
    using rx_ends_view_Nil [OF v] rx_search.simps [of r p] rx_search.simps [of r q] by simp
qed

lemma rx_search_skip: "rx_search r (Some c, cs) \<Longrightarrow> rx_search r (prev, c # cs)"
  by (subst rx_search.simps) simp

lemma rx_search_skip_all: "cs \<noteq> [] \<Longrightarrow> rx_search r (Some (last cs), rest) \<Longrightarrow> rx_search r (prev, cs @ rest)"
proof (induction cs arbitrary: prev)
  case (Cons c cs)
  then show ?case by (cases cs) (auto intro: rx_search_skip)
qed simp

text \<open>So a match in a string is a match in any longer string that puts a non-word character before it.\<close>

lemma rx_test_suffix:
  assumes "no_bol r" "cs \<noteq> []" "\<not> is_word (last cs)" "rx_test r s"
  shows "rx_test r (cs @ s)"
proof -
  have "same_view (None, s) (Some (last cs), s)" using assms(3) by (simp add: same_view_def)
  with assms have "rx_search r (Some (last cs), s)" by (simp add: rx_test_def rx_search_view)
  then show ?thesis unfolding rx_test_def by (rule rx_search_skip_all [OF assms(2)])
qed

section \<open>Globs\<close>

text \<open>\<open>globMatch\<close> of \<open>permission/engine.ts\<close>: every character but \<open>*\<close> stands for itself, \<open>*\<close> for any run without a line break.\<close>

primrec glob_rx :: "string \<Rightarrow> rx" where
  "glob_rx [] = Eol"
| "glob_rx (c # cs) = Cat (if c = CHR ''*'' then Star dot else Chr (\<lambda>d. d = c)) (glob_rx cs)"

definition globMatch :: "string \<Rightarrow> string \<Rightarrow> bool" where
  "globMatch pattern value = rx_test (Cat Bol (glob_rx pattern)) value"

end
