(* ===== verification/Json.thy ===== *)
theory Json
  imports Protocol Sha256 JsRegex
begin

text \<open>
  \<open>JSON.parse\<close> over the values of the development, and the tolerant reader of \<open>tools/json.ts\<close> behind it.  A reader
  returns the value and the text after it.  Both readers recurse on fuel; each call that spends a unit of it has read at
  least one character, so the length of the text is enough, which the round trip with \<open>json_str\<close> shows for what it
  prints.  A number is kept exactly; a \<open>\u\<close> escape outside the code page reads as the substitute character.
\<close>

section \<open>Characters and numbers\<close>

definition next_is :: "char \<Rightarrow> string \<Rightarrow> bool" where "next_is c s \<longleftrightarrow> s \<noteq> [] \<and> hd s = c"

lemma next_is_simps [simp]: "\<not> next_is c []" "next_is c (d # cs) \<longleftrightarrow> d = c"
  by (auto simp: next_is_def)

lemma next_is_shorter: "next_is c s \<Longrightarrow> length (tl s) < length s"
  by (cases s) simp_all

definition unit_char :: "nat \<Rightarrow> char" where
  "unit_char n =
     (if n < 0x80 \<or> 0xA0 \<le> n \<and> n < 0x100 then char_of n
      else (case find_index (\<lambda>m. m = n) high_points of Some i \<Rightarrow> char_of (0x80 + i) | None \<Rightarrow> CHR 0x1A))"

definition hex_value :: "char \<Rightarrow> nat option" where
  "hex_value c =
     (if is_digit c then Some (of_char c - 48)
      else if CHR ''a'' \<le> c \<and> c \<le> CHR ''f'' then Some (of_char c - 87)
      else if CHR ''A'' \<le> c \<and> c \<le> CHR ''F'' then Some (of_char c - 55)
      else None)"

text \<open>The unit of four hexadecimal digits at the start of the text, and the rest.\<close>

definition hex_unit :: "string \<Rightarrow> (char \<times> string) option" where
  "hex_unit s =
     (case s of
        a # b # c # d # r \<Rightarrow>
          (case (hex_value a, hex_value b, hex_value c, hex_value d) of
             (Some w, Some x, Some y, Some z) \<Rightarrow> Some (unit_char (4096 * w + 256 * x + 16 * y + z), r)
           | _ \<Rightarrow> None)
      | _ \<Rightarrow> None)"

definition digits_value :: "string \<Rightarrow> nat" where
  "digits_value ds = foldl (\<lambda>n c. 10 * n + (of_char c - 48)) 0 ds"

text \<open>The longest number at the start of the text: sign, whole part, fraction, exponent.\<close>

definition whole_part :: "string \<Rightarrow> (string \<times> string) option" where
  "whole_part s =
     (if next_is (CHR ''0'') s then Some (''0'', tl s)
      else if takeWhile is_digit s \<noteq> [] then Some (takeWhile is_digit s, dropWhile is_digit s)
      else None)"

definition fraction_part :: "string \<Rightarrow> string \<times> string" where
  "fraction_part s =
     (if next_is (CHR ''.'') s \<and> takeWhile is_digit (tl s) \<noteq> [] then (takeWhile is_digit (tl s), dropWhile is_digit (tl s))
      else ([], s))"

definition exponent_part :: "string \<Rightarrow> int \<times> string" where
  "exponent_part s =
     (let r = tl s; signed = (next_is (CHR ''+'') r \<or> next_is (CHR ''-'') r); ds = (if signed then tl r else r);
          e = int (digits_value (takeWhile is_digit ds))
      in if (next_is (CHR ''e'') s \<or> next_is (CHR ''E'') s) \<and> takeWhile is_digit ds \<noteq> [] then
           (if next_is (CHR ''-'') r then - e else e, dropWhile is_digit ds)
         else (0, s))"

definition scaled :: "rat \<Rightarrow> int \<Rightarrow> rat" where
  "scaled q e = (if e \<ge> 0 then q * 10 ^ nat e else q / 10 ^ nat (- e))"

definition number_of :: "bool \<Rightarrow> string \<Rightarrow> string \<Rightarrow> int \<Rightarrow> json" where
  "number_of neg whole fraction e =
     (let sgn = (if neg then - 1 else 1)
      in if fraction = [] \<and> e = 0 then JNum (sgn * int (digits_value whole))
         else
           (let q = of_int sgn * scaled (of_nat (digits_value (whole @ fraction)) / 10 ^ length fraction) e
            in if of_int \<lfloor>q\<rfloor> = q then JNum \<lfloor>q\<rfloor> else JFrac q))"

definition read_number :: "string \<Rightarrow> (json \<times> string) option" where
  "read_number s =
     (let neg = (s \<noteq> [] \<and> hd s = CHR ''-'')
      in case whole_part (if neg then tl s else s) of
           None \<Rightarrow> None
         | Some (whole, r) \<Rightarrow>
             (case fraction_part r of
                (fraction, r') \<Rightarrow> (case exponent_part r' of (e, r'') \<Rightarrow> Some (number_of neg whole fraction e, r''))))"

section \<open>JSON.parse\<close>

definition json_ws :: "char \<Rightarrow> bool" where "json_ws c \<longleftrightarrow> c \<in> {CHR '' '', tab, nl, cr}"

definition skip_ws :: "string \<Rightarrow> string" where "skip_ws s = dropWhile json_ws s"

definition simple_escape :: "char \<Rightarrow> char option" where
  "simple_escape c =
     (if c = dquote \<or> c = bslash \<or> c = CHR ''/'' then Some c
      else if c = CHR ''b'' then Some (CHR 0x08)
      else if c = CHR ''f'' then Some (CHR 0x0C)
      else if c = CHR ''n'' then Some nl
      else if c = CHR ''r'' then Some cr
      else if c = CHR ''t'' then Some tab
      else None)"

text \<open>The rest of a string after its opening quote.\<close>

function strict_string :: "string \<Rightarrow> (string \<times> string) option" where
  "strict_string [] = None"
| "strict_string (c # cs) =
     (if c = dquote then Some ([], cs)
      else if c = bslash then
        (case cs of
           [] \<Rightarrow> None
         | e # r \<Rightarrow>
             if e = CHR ''u'' then
               (case hex_unit r of Some (x, r') \<Rightarrow> map_option (apfst ((#) x)) (strict_string r') | None \<Rightarrow> None)
             else (case simple_escape e of Some x \<Rightarrow> map_option (apfst ((#) x)) (strict_string r) | None \<Rightarrow> None))
      else if (of_char c :: nat) < 32 then None
      else map_option (apfst ((#) c)) (strict_string cs))"
  by pat_completeness auto
termination
  by (relation "measure length") (auto simp: hex_unit_def split: list.splits option.splits)

declare strict_string.simps [simp del]

definition keyword :: "string \<Rightarrow> json \<Rightarrow> string \<Rightarrow> (json \<times> string) option" where
  "keyword w v s = (if take (length w) s = w then Some (v, drop (length w) s) else None)"

fun strict_value :: "nat \<Rightarrow> string \<Rightarrow> (json \<times> string) option"
  and strict_members :: "nat \<Rightarrow> (string \<times> json) list \<Rightarrow> string \<Rightarrow> (json \<times> string) option"
  and strict_elements :: "nat \<Rightarrow> json list \<Rightarrow> string \<Rightarrow> (json \<times> string) option"
where
  "strict_value 0 s = None"
| "strict_value (Suc n) s =
     (case skip_ws s of
        [] \<Rightarrow> None
      | c # r \<Rightarrow>
          if c = CHR ''{'' then
            (if next_is (CHR ''}'') (skip_ws r) then Some (JObj [], tl (skip_ws r)) else strict_members n [] r)
          else if c = CHR ''['' then
            (if next_is (CHR '']'') (skip_ws r) then Some (JArr [], tl (skip_ws r)) else strict_elements n [] r)
          else if c = dquote then map_option (apfst JStr) (strict_string r)
          else if c = CHR ''t'' then keyword ''true'' (JBool True) (c # r)
          else if c = CHR ''f'' then keyword ''false'' (JBool False) (c # r)
          else if c = CHR ''n'' then keyword ''null'' JNull (c # r)
          else read_number (c # r))"
| "strict_members 0 kvs s = None"
| "strict_members (Suc n) kvs s =
     (if \<not> next_is dquote (skip_ws s) then None
      else
        (case strict_string (tl (skip_ws s)) of
           None \<Rightarrow> None
         | Some (k, r1) \<Rightarrow>
             if \<not> next_is (CHR '':'') (skip_ws r1) then None
             else
               (case strict_value n (tl (skip_ws r1)) of
                  None \<Rightarrow> None
                | Some (v, r3) \<Rightarrow>
                    if next_is (CHR '','') (skip_ws r3) then strict_members n (kvs @ [(k, v)]) (tl (skip_ws r3))
                    else if next_is (CHR ''}'') (skip_ws r3) then Some (JObj (kvs @ [(k, v)]), tl (skip_ws r3))
                    else None)))"
| "strict_elements 0 vs s = None"
| "strict_elements (Suc n) vs s =
     (case strict_value n s of
        None \<Rightarrow> None
      | Some (v, r) \<Rightarrow>
          if next_is (CHR '','') (skip_ws r) then strict_elements n (vs @ [v]) (tl (skip_ws r))
          else if next_is (CHR '']'') (skip_ws r) then Some (JArr (vs @ [v]), tl (skip_ws r))
          else None)"

declare strict_value.simps [simp del] strict_members.simps [simp del] strict_elements.simps [simp del]

definition json_parse :: "string \<Rightarrow> json option" where
  "json_parse s =
     (case strict_value (length s + 1) s of
        Some (v, r) \<Rightarrow> if skip_ws r = [] then Some v else None
      | None \<Rightarrow> None)"

section \<open>The tolerant reader\<close>

type_synonym 'a reading = "string + 'a \<times> string"

text \<open>The message of a failure: \<open>n\<close> is the length of the whole text, so the position is what is left of it.\<close>

definition fail_at :: "nat \<Rightarrow> string \<Rightarrow> string \<Rightarrow> 'a reading" where
  "fail_at n msg rest = Inl (msg @ '' at '' @ nat_str (n - length rest))"

definition fail_past :: "nat \<Rightarrow> string \<Rightarrow> 'a reading" where
  "fail_past n msg = Inl (msg @ '' at '' @ nat_str (n + 1))"

definition open_quotes :: string where "open_quotes = [dquote, squote, CHR 0x93, CHR 0x91]"

text \<open>The text after a comment opened by \<open>/*\<close>, if it is closed.\<close>

fun after_comment :: "string \<Rightarrow> string option" where
  "after_comment [] = None"
| "after_comment [c] = None"
| "after_comment (c # d # cs) = (if c = CHR ''*'' \<and> d = CHR ''/'' then Some cs else after_comment (d # cs))"

lemma after_comment_shorter: "after_comment s = Some r \<Longrightarrow> length r < length s"
  by (induction s arbitrary: r rule: after_comment.induct) (auto split: if_splits)

function lenient_ws :: "nat \<Rightarrow> string \<Rightarrow> unit reading" where
  "lenient_ws n s =
     (let s1 = dropWhile is_ws s
      in if take 2 s1 = ''//'' then lenient_ws n (dropWhile (\<lambda>c. c \<noteq> nl) (drop 2 s1))
         else if take 2 s1 = ''/*'' then
           (case after_comment (drop 2 s1) of Some r \<Rightarrow> lenient_ws n r | None \<Rightarrow> fail_at n ''unterminated comment'' s1)
         else Inr ((), s1))"
  by pat_completeness auto
termination
proof (relation "measure (\<lambda>(n, s). length s)")
  have two: "length (drop 2 s1) < length s" if "s1 = dropWhile is_ws s" "take 2 s1 = [c, d]" for s s1 c d
  proof -
    have "length s1 \<le> length s" using that(1) by (simp add: length_dropWhile_le)
    moreover have "length s1 > 0" using that(2) by auto
    ultimately show ?thesis unfolding length_drop by linarith
  qed
  show "((n, dropWhile (\<lambda>c. c \<noteq> nl) (drop 2 s1)), n, s) \<in> measure (\<lambda>(n, s). length s)"
    if "s1 = dropWhile is_ws s" "take 2 s1 = ''//''" for n s s1
    using le_less_trans [OF length_dropWhile_le two [OF that]] by simp
  show "((n, r), n, s) \<in> measure (\<lambda>(n, s). length s)"
    if "s1 = dropWhile is_ws s" "take 2 s1 = ''/*''" "after_comment (drop 2 s1) = Some r" for n s s1 r
    using less_trans [OF after_comment_shorter [OF that(3)] two [OF that(1,2)]] by simp
qed simp

declare lenient_ws.simps [simp del]

text \<open>The token a keyword or a number is read from ends at white space, a comma or a closing bracket.\<close>

definition token_char :: "char \<Rightarrow> bool" where "token_char c \<longleftrightarrow> \<not> is_ws c \<and> c \<notin> set '',]}''"

definition lenient_bare :: "nat \<Rightarrow> string \<Rightarrow> json reading" where
  "lenient_bare n s =
     (let tok = takeWhile token_char s; r = dropWhile token_char s
      in if tok = [] then fail_at n ''expected value'' s
         else if tok = ''true'' \<or> tok = ''True'' then Inr (JBool True, r)
         else if tok = ''false'' \<or> tok = ''False'' then Inr (JBool False, r)
         else if tok = ''null'' \<or> tok = ''None'' \<or> tok = ''undefined'' then Inr (JNull, r)
         else (case read_number tok of
                 Some (v, []) \<Rightarrow> Inr (v, r)
               | _ \<Rightarrow> fail_at n (''unexpected token '' @ [squote] @ take 20 tok @ [squote]) r))"

definition closers :: "char \<Rightarrow> string" where
  "closers opener =
     (if opener = CHR 0x93 then [CHR 0x94, dquote] else if opener = CHR 0x91 then [CHR 0x92, dquote] else [opener, dquote])"

definition ends_string :: "string \<Rightarrow> bool" where
  "ends_string r =
     (case dropWhile (\<lambda>c. c = CHR '' '' \<or> c = tab) r of [] \<Rightarrow> True | c # _ \<Rightarrow> c \<in> set '',:]}'' \<or> c = nl \<or> c = cr)"

definition lenient_escape :: "char \<Rightarrow> char" where
  "lenient_escape e = (if e = CHR ''n'' then nl else if e = CHR ''t'' then tab else if e = CHR ''r'' then cr else e)"

text \<open>The rest of a string after its opening quote.\<close>

function lenient_string :: "nat \<Rightarrow> string \<Rightarrow> string \<Rightarrow> string reading" where
  "lenient_string n cl [] = fail_at n ''unterminated string'' []"
| "lenient_string n cl (c # cs) =
     (if c = bslash then
        (case cs of
           [] \<Rightarrow> fail_past n ''unterminated string''
         | e # r \<Rightarrow>
             (case (if e = CHR ''u'' then hex_unit r else None) of
                Some (x, r') \<Rightarrow> map_sum id (apfst ((#) x)) (lenient_string n cl r')
              | None \<Rightarrow> map_sum id (apfst ((#) (lenient_escape e))) (lenient_string n cl r)))
      else if c \<in> set cl \<and> ends_string cs then Inr ([], cs)
      else map_sum id (apfst ((#) c)) (lenient_string n cl cs))"
  by pat_completeness auto
termination
  by (relation "measure (\<lambda>(n, cl, s). length s)") (auto simp: hex_unit_def split: list.splits option.splits if_splits)

declare lenient_string.simps [simp del]

definition lenient_key :: "nat \<Rightarrow> string \<Rightarrow> string reading" where
  "lenient_key n s =
     (case s of
        [] \<Rightarrow> fail_at n ''expected object key'' s
      | c # r \<Rightarrow>
          if c \<in> set open_quotes then lenient_string n (closers c) r
          else if is_alpha c \<or> c = CHR ''_'' \<or> c = CHR ''$'' then
            Inr (takeWhile (\<lambda>d. is_word d \<or> d = CHR ''$'') s, dropWhile (\<lambda>d. is_word d \<or> d = CHR ''$'') s)
          else fail_at n ''expected object key'' s)"

definition expected_colon :: string where "expected_colon = ''expected '' @ [squote] @ '':'' @ [squote]"

definition expected_end :: "string \<Rightarrow> string" where
  "expected_end closer = ''expected '' @ [squote] @ '','' @ [squote] @ '' or '' @ [squote] @ closer @ [squote]"

text \<open>\<open>out[key] = v\<close>: a present key keeps its place; \<open>__proto__\<close> is no own property of the result.\<close>

definition put_member :: "string \<Rightarrow> json \<Rightarrow> (string \<times> json) list \<Rightarrow> (string \<times> json) list" where
  "put_member k v kvs = (if k = ''__proto__'' then kvs else jmap_set k v kvs)"

fun lenient_value :: "nat \<Rightarrow> nat \<Rightarrow> string \<Rightarrow> json reading"
  and lenient_members :: "nat \<Rightarrow> nat \<Rightarrow> (string \<times> json) list \<Rightarrow> string \<Rightarrow> json reading"
  and lenient_elements :: "nat \<Rightarrow> nat \<Rightarrow> json list \<Rightarrow> string \<Rightarrow> json reading"
where
  "lenient_value n 0 s = Inl ''out of fuel''"
| "lenient_value n (Suc k) s =
     (case lenient_ws n s of
        Inl e \<Rightarrow> Inl e
      | Inr (_, s1) \<Rightarrow>
          (case s1 of
             [] \<Rightarrow> lenient_bare n s1
           | c # r \<Rightarrow>
               if c = CHR ''{'' then
                 (case lenient_ws n r of
                    Inl e \<Rightarrow> Inl e
                  | Inr (_, r') \<Rightarrow> if next_is (CHR ''}'') r' then Inr (JObj [], tl r') else lenient_members n k [] r')
               else if c = CHR ''['' then
                 (case lenient_ws n r of
                    Inl e \<Rightarrow> Inl e
                  | Inr (_, r') \<Rightarrow> if next_is (CHR '']'') r' then Inr (JArr [], tl r') else lenient_elements n k [] r')
               else if c \<in> set open_quotes then map_sum id (apfst JStr) (lenient_string n (closers c) r)
               else lenient_bare n s1))"
| "lenient_members n 0 kvs s = Inl ''out of fuel''"
| "lenient_members n (Suc k) kvs s =
     (case lenient_ws n s of
        Inl e \<Rightarrow> Inl e
      | Inr (_, s1) \<Rightarrow>
          (case lenient_key n s1 of
             Inl e \<Rightarrow> Inl e
           | Inr (key, r1) \<Rightarrow>
               (case lenient_ws n r1 of
                  Inl e \<Rightarrow> Inl e
                | Inr (_, []) \<Rightarrow> fail_past n expected_colon
                | Inr (_, c # r2) \<Rightarrow>
                    if c \<noteq> CHR '':'' then fail_at n expected_colon r2
                    else
                      (case lenient_value n k r2 of
                         Inl e \<Rightarrow> Inl e
                       | Inr (v, r3) \<Rightarrow>
                           (case lenient_ws n r3 of
                              Inl e \<Rightarrow> Inl e
                            | Inr (_, []) \<Rightarrow> fail_past n (expected_end ''}'')
                            | Inr (_, d # r4) \<Rightarrow>
                                if d = CHR '','' then
                                  (case lenient_ws n r4 of
                                     Inl e \<Rightarrow> Inl e
                                   | Inr (_, r5) \<Rightarrow>
                                       if next_is (CHR ''}'') r5 then Inr (JObj (put_member key v kvs), tl r5)
                                       else lenient_members n k (put_member key v kvs) r5)
                                else if d = CHR ''}'' then Inr (JObj (put_member key v kvs), r4)
                                else fail_at n (expected_end ''}'') r4)))))"
| "lenient_elements n 0 vs s = Inl ''out of fuel''"
| "lenient_elements n (Suc k) vs s =
     (case lenient_value n k s of
        Inl e \<Rightarrow> Inl e
      | Inr (v, r) \<Rightarrow>
          (case lenient_ws n r of
             Inl e \<Rightarrow> Inl e
           | Inr (_, []) \<Rightarrow> fail_past n (expected_end '']'')
           | Inr (_, c # r1) \<Rightarrow>
               if c = CHR '','' then
                 (case lenient_ws n r1 of
                    Inl e \<Rightarrow> Inl e
                  | Inr (_, r2) \<Rightarrow>
                      if next_is (CHR '']'') r2 then Inr (JArr (vs @ [v]), tl r2) else lenient_elements n k (vs @ [v]) r2)
               else if c = CHR '']'' then Inr (JArr (vs @ [v]), r1)
               else fail_at n (expected_end '']'') r1))"

declare lenient_value.simps [simp del] lenient_members.simps [simp del] lenient_elements.simps [simp del]

text \<open>The text between markdown fences, at the first place the closing fence can start.\<close>

definition fence_open :: rx where
  "fence_open = cats [Bol, lit (replicate 3 backtick), Star (Chr is_alpha), Star ws, opt (lit [nl])]"

definition fence_close :: rx where
  "fence_close = cats [opt (lit [nl]), lit (replicate 3 backtick), Star ws, Eol]"

function up_to_close :: "pos \<Rightarrow> string option" where
  "up_to_close p =
     (if rx_ends fence_close p \<noteq> [] then Some []
      else (case snd p of [] \<Rightarrow> None | c # cs \<Rightarrow> map_option ((#) c) (up_to_close (Some c, cs))))"
  by pat_completeness auto
termination by (relation "measure (\<lambda>p. length (snd p))") auto

declare up_to_close.simps [simp del]

definition unfenced :: "string \<Rightarrow> string" where
  "unfenced s =
     (case List.map_filter up_to_close (rx_ends fence_open (None, s)) of body # _ \<Rightarrow> trim body | [] \<Rightarrow> s)"

text \<open>\<open>parseJsonLenient\<close>: the error message or the value.\<close>

definition read_tolerantly :: "string \<Rightarrow> string + json" where
  "read_tolerantly s =
     (let start = dropWhile (\<lambda>c. c \<noteq> CHR ''['' \<and> c \<noteq> CHR ''{'') s
      in if start = [] then Inl ''no JSON value found''
         else map_sum id fst (lenient_value (length s) (2 * length start + 1) start))"

definition parseJsonLenient :: "string \<Rightarrow> string + json" where
  "parseJsonLenient raw =
     (case json_parse raw of Some v \<Rightarrow> Inr v | None \<Rightarrow> read_tolerantly (unfenced (trim raw)))"

section \<open>Printed values are read back\<close>

text \<open>The texts that may follow a value inside an array or an object.\<close>

definition follows :: "string \<Rightarrow> bool" where
  "follows r \<longleftrightarrow> r = [] \<or> hd r \<in> set '',]}''"

lemma follows_simps [simp]: "follows []" "follows (c # cs) \<longleftrightarrow> c \<in> set '',]}''"
  by (simp_all add: follows_def)

fun printable :: "(string \<Rightarrow> bool) \<Rightarrow> json \<Rightarrow> bool" where
  "printable P JNull = True"
| "printable P (JBool b) = True"
| "printable P (JNum n) = True"
| "printable P (JFrac q) = False"
| "printable P (JStr s) = P s"
| "printable P (JArr vs) = list_all (printable P) vs"
| "printable P (JObj kvs) = list_all (\<lambda>kv. P (fst kv) \<and> printable P (snd kv)) kvs"

lemma digit_char_is_digit: "d < 10 \<Longrightarrow> is_digit (digit_char d) \<and> (digit_char d = CHR ''0'' \<longleftrightarrow> d = 0)"
proof -
  assume "d < 10"
  then have "d \<in> set [0..<10]" by simp
  moreover have "list_all (\<lambda>d. is_digit (digit_char d) \<and> (digit_char d = CHR ''0'') = (d = 0)) [0..<10]" by code_simp
  ultimately show ?thesis by (auto simp: list_all_iff)
qed

lemma nat_str_digits: "list_all is_digit (nat_str n)"
  by (induction n rule: nat_str.induct) (subst nat_str.simps, auto simp: digit_char_is_digit)

lemma nat_str_hd: "0 < n \<Longrightarrow> hd (nat_str n) \<noteq> CHR ''0''"
proof (induction n rule: nat_str.induct)
  case (1 n)
  then show ?case
    by (subst nat_str.simps) (auto simp: digit_char_is_digit hd_append)
qed

lemma nat_str_0: "nat_str 0 = ''0''"
  by code_simp

lemma takeWhile_digits: "list_all is_digit ds \<Longrightarrow> r = [] \<or> \<not> is_digit (hd r) \<Longrightarrow> takeWhile is_digit (ds @ r) = ds \<and> dropWhile is_digit (ds @ r) = r"
  by (induction ds; cases r) auto

lemma follows_not_digit: "follows r \<Longrightarrow> r = [] \<or> \<not> is_digit (hd r)"
  by (cases r) (auto simp: is_digit_def)

lemma whole_part_nat: "follows r \<Longrightarrow> whole_part (nat_str n @ r) = Some (nat_str n, r)"
proof (cases "n = 0")
  case False
  assume r: "follows r"
  from False have "\<not> next_is (CHR ''0'') (nat_str n @ r)" using nat_str_hd [of n] by (simp add: next_is_def)
  with takeWhile_digits [OF nat_str_digits follows_not_digit [OF r], of n] show ?thesis
    by (simp add: whole_part_def)
qed (simp add: whole_part_def nat_str_0)

lemma minus_not_digit: "\<not> is_digit (CHR ''-'')"
  by code_simp

lemma read_number_int: "follows r \<Longrightarrow> read_number (int_str n @ r) = Some (JNum n, r)"
proof -
  assume r: "follows r"
  then have p: "fraction_part r = ([], r)" "exponent_part r = (0, r)"
    by (auto simp: fraction_part_def exponent_part_def Let_def follows_def next_is_def)
  have v: "digits_value (nat_str k) = k" for k using str_nat_nat_str [of k] by (simp add: digits_value_def str_nat_def)
  have d: "is_digit (hd (nat_str k))" for k using nat_str_digits [of k] by (cases "nat_str k") auto
  then have m: "hd (nat_str k) \<noteq> CHR ''-''" for k 
    using d [of k] by (metis (full_types) minus_not_digit)
  show ?thesis
  proof (cases "n < 0")
    case True
    then show ?thesis using r p v by (simp add: int_str_def read_number_def whole_part_nat number_of_def)
  next
    case False
    then show ?thesis using r p v m by (simp add: int_str_def read_number_def whole_part_nat number_of_def)
  qed
qed

text \<open>Each character is written as itself, as a letter escape, or as a \<open>\u00\<close> escape.\<close>

lemma hex_digit_value: "n < 16 \<Longrightarrow> hex_value (hex_digit n) = Some n"
proof -
  assume "n < 16"
  then have "n \<in> set [0..<16]" by simp
  moreover have "list_all (\<lambda>n. hex_value (hex_digit n) = Some n) [0..<16]" by code_simp
  ultimately show ?thesis unfolding list_all_iff by blast
qed

lemma control_escape:
  assumes "(of_char c :: nat) < 32"
  shows "hex_unit (''00'' @ [hex_digit (of_char c div 16), hex_digit (of_char c mod 16)] @ r) = Some (c, r)"
proof -
  let ?n = "of_char c :: nat"
  have "hex_value (CHR ''0'') = Some 0" by code_simp
  moreover have "hex_value (hex_digit (?n div 16)) = Some (?n div 16)" "hex_value (hex_digit (?n mod 16)) = Some (?n mod 16)"
    using assms by (auto intro!: hex_digit_value)
  moreover have "16 * (?n div 16) + ?n mod 16 = ?n" by simp
  moreover have "unit_char ?n = c" using assms by (simp add: unit_char_def)
  ultimately show ?thesis by (simp add: hex_unit_def)
qed

lemma json_esc_cases:
  obtains "json_esc c = [c]" "c \<noteq> dquote" "c \<noteq> bslash" "32 \<le> (of_char c :: nat)"
  | e where "json_esc c = [bslash, e]" "simple_escape e = Some c" "e \<noteq> CHR ''u''"
      "c = CHR 0x08 \<or> c = CHR 0x0C \<or> lenient_escape e = c"
  | d where "json_esc c = [bslash, CHR ''u''] @ d" "\<And>r. hex_unit (d @ r) = Some (c, r)"
proof -
  consider "c \<in> {dquote, bslash, nl, cr, tab, CHR 0x08, CHR 0x0C}"
    | "c \<notin> {dquote, bslash, nl, cr, tab, CHR 0x08, CHR 0x0C}" "(of_char c :: nat) < 32"
    | "c \<notin> {dquote, bslash, nl, cr, tab, CHR 0x08, CHR 0x0C}" "32 \<le> (of_char c :: nat)" by fastforce
  then show ?thesis
  proof cases
    case 1
    then show ?thesis using that(2) by (auto simp: json_esc_def simple_escape_def lenient_escape_def)
  next
    case 2
    then have "json_esc c = [bslash, CHR ''u''] @ (''00'' @ [hex_digit (of_char c div 16), hex_digit (of_char c mod 16)])"
      by (simp add: json_esc_def)
    then show ?thesis using that(3) control_escape [OF 2(2)] by (metis append_assoc)
  next
    case 3
    then show ?thesis using that(1) by (simp add: json_esc_def)
  qed
qed

lemma strict_string_esc: "strict_string (concat (map json_esc s) @ dquote # r) = Some (s, r)"
proof (induction s)
  case Nil
  then show ?case by (simp add: strict_string.simps)
next
  case (Cons c s)
  then show ?case
    by (cases c rule: json_esc_cases) (simp_all add: strict_string.simps(2))
qed

definition no_feed :: "string \<Rightarrow> bool" where "no_feed s \<longleftrightarrow> CHR 0x08 \<notin> set s \<and> CHR 0x0C \<notin> set s"

lemma lenient_string_esc:
  "no_feed s \<Longrightarrow> ends_string r \<Longrightarrow> lenient_string n (closers dquote) (concat (map json_esc s) @ dquote # r) = Inr (s, r)"
proof (induction s)
  case Nil
  then show ?case by (simp add: lenient_string.simps(2) closers_def)
next
  case (Cons c s)
  then have IH: "lenient_string n (closers dquote) (concat (map json_esc s) @ dquote # r) = Inr (s, r)"
    and c: "c \<noteq> CHR 0x08" "c \<noteq> CHR 0x0C" by (auto simp: no_feed_def)
  show ?case
    by (cases c rule: json_esc_cases) (use IH c in \<open>simp_all add: lenient_string.simps(2) closers_def\<close>)
qed

section \<open>The first character of a value\<close>

definition value_start :: "char \<Rightarrow> bool" where
  "value_start c \<longleftrightarrow> is_digit c \<or> c \<in> {CHR ''-'', dquote, CHR ''['', CHR ''{'', CHR ''t'', CHR ''f'', CHR ''n''}"

lemma value_start_plain:
  "value_start c \<Longrightarrow> \<not> json_ws c \<and> \<not> is_ws c \<and> c \<noteq> CHR ''/'' \<and> c \<noteq> CHR '']'' \<and> c \<noteq> CHR ''}'' \<and> c \<noteq> CHR '','' \<and> c \<noteq> CHR '':''"
  by (auto simp: value_start_def json_ws_def is_ws_def is_digit_def)

lemma int_str_start: "\<exists>c cs. int_str n = c # cs \<and> (is_digit c \<or> c = CHR ''-'')"
proof -
  have "\<exists>c cs. nat_str k = c # cs \<and> is_digit c" for k using nat_str_digits [of k] by (cases "nat_str k") auto
  from this [of "nat n"] show ?thesis by (auto simp: int_str_def)
qed

lemma json_str_start: "printable P v \<Longrightarrow> \<exists>c cs. json_str v = c # cs \<and> value_start c"
  using int_str_start by (cases v) (fastforce simp: json_quote_def value_start_def)+

lemma quiet_char:
  assumes "value_start c \<or> c \<in> set '',:]}''"
  shows "\<not> json_ws c \<and> \<not> is_ws c \<and> c \<noteq> CHR ''/''"
proof (cases "value_start c")
  case True
  from value_start_plain [OF this] show ?thesis by blast
next
  case False
  with assms have "c \<in> set '',:]}''" by blast
  moreover have "list_all (\<lambda>c. \<not> json_ws c \<and> \<not> is_ws c \<and> c \<noteq> CHR ''/'') '',:]}''" by code_simp
  ultimately show ?thesis unfolding list_all_iff by blast
qed

lemma skip_ws_start: "value_start c \<or> c \<in> set '',:]}'' \<Longrightarrow> skip_ws (c # cs) = c # cs"
  using quiet_char [of c] by (simp add: skip_ws_def)

lemma lenient_ws_start: "value_start c \<or> c \<in> set '',:]}'' \<Longrightarrow> lenient_ws n (c # cs) = Inr ((), c # cs)"
  using quiet_char [of c] by (simp add: lenient_ws.simps [of n "c # cs"] numeral_2_eq_2)

lemma lenient_ws_Nil: "lenient_ws n [] = Inr ((), [])"
  by (subst lenient_ws.simps) simp

section \<open>The strict reader\<close>

lemma strict_elements_str:
  assumes "\<And>v k r. v \<in> set vs \<Longrightarrow> follows r \<Longrightarrow> length (json_str v) < k \<Longrightarrow> strict_value k (json_str v @ r) = Some (v, r)"
    "vs \<noteq> []" "length (join '','' (map json_str vs)) + 1 < k"
  shows "strict_elements k acc (join '','' (map json_str vs) @ '']'' @ r) = Some (JArr (acc @ vs), r)"
  using assms
proof (induction vs arbitrary: acc k)
  case (Cons v vs)
  then obtain k' where k: "k = Suc k'" by (cases k) auto
  show ?case
  proof (cases vs)
    case Nil
    with Cons.prems(3) k have "strict_value k' (json_str v @ '']'' @ r) = Some (v, '']'' @ r)" by (intro Cons.prems(1)) auto
    with Nil k show ?thesis by (simp add: strict_elements.simps skip_ws_start)
  next
    case (Cons w ws')
    with \<open>length (join '','' (map json_str (v # vs))) + 1 < k\<close> k
    have l: "length (json_str v) < k'" "length (join '','' (map json_str vs)) + 1 < k'" by auto
    have "strict_value k' (json_str v @ '','' @ join '','' (map json_str vs) @ '']'' @ r) = Some (v, '','' @ join '','' (map json_str vs) @ '']'' @ r)"
      using l by (intro Cons.prems(1)) auto
    moreover have "strict_elements k' (acc @ [v]) (join '','' (map json_str vs) @ '']'' @ r) = Some (JArr ((acc @ [v]) @ vs), r)"
      using l Cons by (intro Cons.IH) (auto intro: Cons.prems(1))
    ultimately show ?thesis using k Cons by (simp add: strict_elements.simps skip_ws_start)
  qed
qed simp

definition member_str :: "string \<times> json \<Rightarrow> string" where
  "member_str kv = json_quote (fst kv) @ '':'' @ json_str (snd kv)"

lemma json_str_JObj: "json_str (JObj kvs) = ''{'' @ join '','' (map member_str kvs) @ ''}''"
  by (simp add: member_str_def [abs_def] case_prod_unfold)

lemma strict_members_str:
  assumes "\<And>kv k r. kv \<in> set kvs \<Longrightarrow> follows r \<Longrightarrow> length (json_str (snd kv)) < k \<Longrightarrow>
      strict_value k (json_str (snd kv) @ r) = Some (snd kv, r)"
    "kvs \<noteq> []" "length (join '','' (map member_str kvs)) + 1 < k"
  shows "strict_members k acc (join '','' (map member_str kvs) @ ''}'' @ r) = Some (JObj (acc @ kvs), r)"
  using assms
proof (induction kvs arbitrary: acc k)
  case (Cons kv kvs)
  then obtain k' where k: "k = Suc k'" by (cases k) auto
  have q: "skip_ws (json_quote s @ t) = json_quote s @ t" "next_is dquote (json_quote s @ t)"
    "tl (json_quote s @ t) = concat (map json_esc s) @ dquote # t" for s t
    by (simp_all add: json_quote_def skip_ws_start value_start_def)
  show ?case
  proof (cases kvs)
    case Nil
    with Cons.prems(3) k have "strict_value k' (json_str (snd kv) @ ''}'' @ r) = Some (snd kv, ''}'' @ r)"
      by (intro Cons.prems(1)) (auto simp: member_str_def)
    with Nil k show ?thesis by (simp add: strict_members.simps member_str_def q strict_string_esc skip_ws_start)
  next
    case (Cons w ws')
    with \<open>length (join '','' (map member_str (kv # kvs))) + 1 < k\<close> k
    have l: "length (json_str (snd kv)) < k'" "length (join '','' (map member_str kvs)) + 1 < k'" by (auto simp: member_str_def)
    have "strict_value k' (json_str (snd kv) @ '','' @ join '','' (map member_str kvs) @ ''}'' @ r) =
        Some (snd kv, '','' @ join '','' (map member_str kvs) @ ''}'' @ r)"
      using l by (intro Cons.prems(1)) auto
    moreover have "strict_members k' (acc @ [kv]) (join '','' (map member_str kvs) @ ''}'' @ r) = Some (JObj ((acc @ [kv]) @ kvs), r)"
      using l Cons by (intro Cons.IH) (auto intro: Cons.prems(1))
    moreover have "join '','' (map member_str (kv # kvs)) @ ''}'' @ r =
        json_quote (fst kv) @ '':'' @ json_str (snd kv) @ '','' @ join '','' (map member_str kvs) @ ''}'' @ r"
      using Cons by (simp add: member_str_def)
    ultimately show ?thesis by (simp add: k strict_members.simps q strict_string_esc skip_ws_start)
  qed
qed simp

lemma join_hd: "xs \<noteq> [] \<Longrightarrow> hd xs = c # cs \<Longrightarrow> \<exists>t. join sep xs = c # t"
  by (cases xs; cases "tl xs") auto

lemma keyword_text: "keyword w v (w @ r) = Some (v, r)"
  by (simp add: keyword_def)

lemma strict_value_str: "printable (\<lambda>_. True) v \<Longrightarrow> follows r \<Longrightarrow> length (json_str v) < k \<Longrightarrow> strict_value k (json_str v @ r) = Some (v, r)"
proof (induction v arbitrary: k r)
  case (JNum n)
  obtain c cs where c: "int_str n = c # cs" "is_digit c \<or> c = CHR ''-''" using int_str_start by blast
  from JNum obtain k' where "k = Suc k'" by (cases k) auto
  moreover have "c \<noteq> CHR ''{'' \<and> c \<noteq> CHR ''['' \<and> c \<noteq> dquote \<and> c \<noteq> CHR ''t'' \<and> c \<noteq> CHR ''f'' \<and> c \<noteq> CHR ''n''"
    using c(2) by (auto simp: is_digit_def)
  moreover have "value_start c" using c(2) by (auto simp: value_start_def)
  ultimately show ?case using read_number_int [OF JNum(2), of n] c(1) by (simp add: strict_value.simps skip_ws_start)
next
  case (JStr s)
  then obtain k' where "k = Suc k'" by (cases k) auto
  then show ?case by (simp add: strict_value.simps json_quote_def skip_ws_start value_start_def strict_string_esc)
next
  case (JArr vs)
  then obtain k' where k: "k = Suc k'" by (cases k) auto
  show ?case
  proof (cases vs)
    case Nil
    with k show ?thesis by (simp add: strict_value.simps skip_ws_start value_start_def)
  next
    case (Cons w ws')
    with JArr.prems obtain c cs where "json_str w = c # cs" "value_start c"
      using json_str_start [of "\<lambda>_. True" w] by auto
    with Cons obtain t where t: "join '','' (map json_str vs) = c # t" "value_start c"
      using join_hd [of "map json_str vs" c cs "'',''"] by auto
    have "strict_elements k' [] (join '','' (map json_str vs) @ '']'' @ r) = Some (JArr ([] @ vs), r)"
      using JArr.prems k Cons by (intro strict_elements_str JArr.IH) (auto simp: list_all_iff)
    with t k value_start_plain [OF t(2)] show ?thesis
      by (simp add: strict_value.simps skip_ws_start value_start_def [of "CHR ''[''"])
  qed
next
  case (JObj kvs)
  then obtain k' where k: "k = Suc k'" by (cases k) auto
  show ?case
  proof (cases kvs)
    case Nil
    with k show ?thesis by (simp add: strict_value.simps skip_ws_start value_start_def)
  next
    case (Cons w ws')
    have "\<exists>cs. member_str w = dquote # cs" by (simp add: member_str_def json_quote_def)
    with Cons obtain t where t: "join '','' (map member_str kvs) = dquote # t"
      using join_hd [of "map member_str kvs" dquote _ "'',''"] by auto
    have l: "length (join '','' (map member_str kvs)) + 1 < k'" using JObj.prems(3) k by (simp only: json_str_JObj) simp
    have "strict_members k' [] (join '','' (map member_str kvs) @ ''}'' @ r) = Some (JObj ([] @ kvs), r)"
    proof (intro strict_members_str l)
      show "strict_value k (json_str (snd kv) @ r) = Some (snd kv, r)"
        if "kv \<in> set kvs" "follows r" "length (json_str (snd kv)) < k" for kv k r
        using that JObj.prems(1) by (intro JObj.IH [of kv]) (auto simp: list_all_iff snds.simps)
    qed (use Cons in simp)
    with t k show ?thesis
      unfolding json_str_JObj by (simp add: strict_value.simps skip_ws_start value_start_def)
  qed
next
  case JNull
  then obtain k' where "k = Suc k'" by (cases k) auto
  then show ?case by (simp add: strict_value.simps skip_ws_start value_start_def keyword_text [of "''null''", simplified])
next
  case (JBool b)
  then obtain k' where "k = Suc k'" by (cases k) auto
  then show ?case
    by (cases b)
      (simp_all add: strict_value.simps skip_ws_start value_start_def keyword_text [of "''true''", simplified]
        keyword_text [of "''false''", simplified])
qed simp

lemma json_parse_str: "printable (\<lambda>_. True) v \<Longrightarrow> json_parse (json_str v) = Some v"
  using strict_value_str [of v "[]" "length (json_str v) + 1"] by (simp add: json_parse_def skip_ws_def)

section \<open>The tolerant reader agrees\<close>

text \<open>Objects whose keys are distinct and not \<open>__proto__\<close>, as an object of the program has them.\<close>

fun own_keys :: "json \<Rightarrow> bool" where
  "own_keys (JArr vs) = list_all own_keys vs"
| "own_keys (JObj kvs) = (distinct (map fst kvs) \<and> ''__proto__'' \<notin> set (map fst kvs) \<and> list_all (\<lambda>kv. own_keys (snd kv)) kvs)"
| "own_keys _ = True"

definition readable :: "json \<Rightarrow> bool" where "readable v \<longleftrightarrow> printable no_feed v \<and> own_keys v"

lemma readable_simps:
  "readable (JStr s) = no_feed s"
  "readable (JArr vs) = (\<forall>v \<in> set vs. readable v)"
  "readable (JObj kvs) = (distinct (map fst kvs) \<and> ''__proto__'' \<notin> set (map fst kvs) \<and> (\<forall>kv \<in> set kvs. no_feed (fst kv) \<and> readable (snd kv)))"
  by (auto simp: readable_def list_all_iff)

lemma readable_start: "readable v \<Longrightarrow> \<exists>c cs. json_str v = c # cs \<and> value_start c"
  unfolding readable_def using json_str_start by blast

lemma put_member_new: "k \<notin> set (map fst kvs) \<Longrightarrow> k \<noteq> ''__proto__'' \<Longrightarrow> put_member k v kvs = kvs @ [(k, v)]"
  by (simp add: put_member_def jmap_set_new)

lemma ends_string_at: "c \<in> set '',:]}'' \<Longrightarrow> ends_string (c # r)"
  by (auto simp: ends_string_def)

lemma follows_ends: "follows r \<Longrightarrow> ends_string r"
  by (cases r) (auto simp: ends_string_def)

lemma follows_token: "follows r \<Longrightarrow> takeWhile token_char r = [] \<and> dropWhile token_char r = r"
  by (cases r) (auto simp: token_char_def)

lemma token_append:
  "list_all token_char t \<Longrightarrow> follows r \<Longrightarrow> takeWhile token_char (t @ r) = t \<and> dropWhile token_char (t @ r) = r"
  using follows_token by (induction t) auto

lemma digit_token: "is_digit c \<Longrightarrow> token_char c"
  using value_start_plain [of c] by (auto simp: value_start_def token_char_def is_digit_def)

lemma int_str_token: "list_all token_char (int_str n)"
proof -
  have "list_all token_char (nat_str k)" for k using nat_str_digits [of k] digit_token by (auto simp: list_all_iff)
  moreover have "token_char (CHR ''-'')" by code_simp
  ultimately show ?thesis by (simp add: int_str_def)
qed

lemma lenient_bare_int: "follows r \<Longrightarrow> lenient_bare n (int_str i @ r) = Inr (JNum i, r)"
proof -
  assume r: "follows r"
  obtain c cs where c: "int_str i = c # cs" "is_digit c \<or> c = CHR ''-''" using int_str_start by blast
  then have w: "int_str i \<notin> {[], ''true'', ''True'', ''false'', ''False'', ''null'', ''None'', ''undefined''}"
    by (auto simp: is_digit_def)
  have "read_number (int_str i @ []) = Some (JNum i, [])" by (rule read_number_int) simp
  with w token_append [OF int_str_token r, of i] show ?thesis by (simp add: lenient_bare_def Let_def)
qed

lemma lenient_bare_keyword:
  assumes "follows r"
  shows "lenient_bare n (''true'' @ r) = Inr (JBool True, r)" "lenient_bare n (''false'' @ r) = Inr (JBool False, r)"
    "lenient_bare n (''null'' @ r) = Inr (JNull, r)"
proof -
  have "list_all token_char ''true''" "list_all token_char ''false''" "list_all token_char ''null''" by code_simp+
  note t = this [THEN token_append, OF assms]
  show "lenient_bare n (''true'' @ r) = Inr (JBool True, r)" unfolding lenient_bare_def Let_def using t(1) by simp
  show "lenient_bare n (''false'' @ r) = Inr (JBool False, r)" unfolding lenient_bare_def Let_def using t(2) by simp
  show "lenient_bare n (''null'' @ r) = Inr (JNull, r)" unfolding lenient_bare_def Let_def using t(3) by simp
qed

lemma lenient_elements_str:
  assumes "\<And>v k r. v \<in> set vs \<Longrightarrow> follows r \<Longrightarrow> length (json_str v) < k \<Longrightarrow> lenient_value n k (json_str v @ r) = Inr (v, r)"
    "vs \<noteq> []" "length (join '','' (map json_str vs)) + 1 < k" "\<And>v. v \<in> set vs \<Longrightarrow> readable v"
  shows "lenient_elements n k acc (join '','' (map json_str vs) @ '']'' @ r) = Inr (JArr (acc @ vs), r)"
  using assms
proof (induction vs arbitrary: acc k)
  case (Cons v vs)
  then obtain k' where k: "k = Suc k'" by (cases k) auto
  show ?case
  proof (cases vs)
    case Nil
    with Cons.prems(3) k have "lenient_value n k' (json_str v @ '']'' @ r) = Inr (v, '']'' @ r)" by (intro Cons.prems(1)) auto
    with Nil k show ?thesis by (simp add: lenient_elements.simps lenient_ws_start)
  next
    case (Cons w ws')
    with \<open>length (join '','' (map json_str (v # vs))) + 1 < k\<close> k
    have l: "length (json_str v) < k'" "length (join '','' (map json_str vs)) + 1 < k'" by auto
    obtain c t where t: "join '','' (map json_str vs) = c # t" "value_start c"
      using Cons Cons.prems(4) [of w] readable_start [of w] join_hd [of "map json_str vs" _ _ "'',''"] by fastforce
    have "lenient_value n k' (json_str v @ '','' @ join '','' (map json_str vs) @ '']'' @ r) = Inr (v, '','' @ join '','' (map json_str vs) @ '']'' @ r)"
      using l by (intro Cons.prems(1)) auto
    moreover have "lenient_elements n k' (acc @ [v]) (join '','' (map json_str vs) @ '']'' @ r) = Inr (JArr ((acc @ [v]) @ vs), r)"
      using l Cons by (intro Cons.IH) (auto intro: Cons.prems(1,4))
    moreover have "join '','' (map json_str (v # vs)) @ '']'' @ r = json_str v @ '','' @ join '','' (map json_str vs) @ '']'' @ r"
      using Cons by simp
    ultimately show ?thesis using t value_start_plain [OF t(2)] by (simp add: k lenient_elements.simps lenient_ws_start)
  qed
qed simp

lemma lenient_members_str:
  assumes "\<And>kv k r. kv \<in> set kvs \<Longrightarrow> follows r \<Longrightarrow> length (json_str (snd kv)) < k \<Longrightarrow>
      lenient_value n k (json_str (snd kv) @ r) = Inr (snd kv, r)"
    "kvs \<noteq> []" "length (join '','' (map member_str kvs)) + 1 < k"
    "distinct (map fst (acc @ kvs))" "''__proto__'' \<notin> set (map fst kvs)" "\<And>kv. kv \<in> set kvs \<Longrightarrow> no_feed (fst kv)"
  shows "lenient_members n k acc (join '','' (map member_str kvs) @ ''}'' @ r) = Inr (JObj (acc @ kvs), r)"
  using assms
proof (induction kvs arbitrary: acc k)
  case (Cons kv kvs)
  then obtain k' where k: "k = Suc k'" by (cases k) auto
  have q: "lenient_ws n (json_quote s @ t) = Inr ((), json_quote s @ t)" for s t
    by (simp add: json_quote_def lenient_ws_start value_start_def)
  have key: "lenient_key n (json_quote (fst kv) @ CHR '':'' # t) = Inr (fst kv, CHR '':'' # t)" for t
    using Cons.prems(6) [of kv] by (simp add: lenient_key_def json_quote_def open_quotes_def lenient_string_esc ends_string_at)
  from Cons.prems(4,5) have put: "put_member (fst kv) (snd kv) acc = acc @ [kv]" by (subst put_member_new) auto
  show ?case
  proof (cases kvs)
    case Nil
    with Cons.prems(3) k have "lenient_value n k' (json_str (snd kv) @ ''}'' @ r) = Inr (snd kv, ''}'' @ r)"
      by (intro Cons.prems(1)) (auto simp: member_str_def)
    with Nil show ?thesis by (simp add: k lenient_members.simps member_str_def q key put lenient_ws_start)
  next
    case (Cons w ws')
    with \<open>length (join '','' (map member_str (kv # kvs))) + 1 < k\<close> k
    have l: "length (json_str (snd kv)) < k'" "length (join '','' (map member_str kvs)) + 1 < k'" by (auto simp: member_str_def)
    have "\<exists>cs. member_str w = dquote # cs" by (simp add: member_str_def json_quote_def)
    with Cons obtain t where t: "join '','' (map member_str kvs) = dquote # t"
      using join_hd [of "map member_str kvs" dquote _ "'',''"] by auto
    have "lenient_value n k' (json_str (snd kv) @ '','' @ join '','' (map member_str kvs) @ ''}'' @ r) =
        Inr (snd kv, '','' @ join '','' (map member_str kvs) @ ''}'' @ r)"
      using l by (intro Cons.prems(1)) auto
    moreover have "lenient_members n k' (acc @ [kv]) (join '','' (map member_str kvs) @ ''}'' @ r) = Inr (JObj ((acc @ [kv]) @ kvs), r)"
      using l Cons Cons.prems(4,5) by (intro Cons.IH) (auto intro: Cons.prems(1,6))
    moreover have "join '','' (map member_str (kv # kvs)) @ ''}'' @ r =
        json_quote (fst kv) @ '':'' @ json_str (snd kv) @ '','' @ join '','' (map member_str kvs) @ ''}'' @ r"
      using Cons by (simp add: member_str_def)
    ultimately show ?thesis using t
      by (simp add: k lenient_members.simps q key put lenient_ws_start value_start_def)
  qed
qed simp

fun is_container :: "json \<Rightarrow> bool" where
  "is_container (JArr _) = True"
| "is_container (JObj _) = True"
| "is_container _ = False"

lemma lenient_value_str:
  "readable v \<Longrightarrow> follows r \<or> is_container v \<Longrightarrow> length (json_str v) < k \<Longrightarrow> lenient_value n k (json_str v @ r) = Inr (v, r)"
proof (induction v arbitrary: k r)
  case (JNum i)
  obtain c cs where c: "int_str i = c # cs" "is_digit c \<or> c = CHR ''-''" using int_str_start by blast
  from JNum obtain k' where "k = Suc k'" by (cases k) auto
  moreover have "c \<noteq> CHR ''{'' \<and> c \<noteq> CHR ''['' \<and> c \<notin> set open_quotes"
    using c(2) by (auto simp: is_digit_def open_quotes_def)
  moreover have "value_start c" using c(2) by (auto simp: value_start_def)
  ultimately show ?case using lenient_bare_int [of r n i] JNum(2) c(1) by (simp add: lenient_value.simps lenient_ws_start)
next
  case (JFrac q)
  then show ?case by (simp add: readable_def)
next
  case (JStr s)
  then obtain k' where "k = Suc k'" by (cases k) auto
  with JStr show ?case
    by (simp add: lenient_value.simps json_quote_def lenient_ws_start value_start_def open_quotes_def readable_simps
        lenient_string_esc follows_ends)
next
  case (JArr vs)
  then obtain k' where k: "k = Suc k'" by (cases k) auto
  show ?case
  proof (cases vs)
    case Nil
    with k show ?thesis by (simp add: lenient_value.simps lenient_ws_start value_start_def)
  next
    case (Cons w ws')
    with JArr.prems obtain c cs where "json_str w = c # cs" "value_start c"
      using readable_start [of w] by (auto simp: readable_simps)
    with Cons obtain t where t: "join '','' (map json_str vs) = c # t" "value_start c"
      using join_hd [of "map json_str vs" c cs "'',''"] by auto
    have "lenient_elements n k' [] (join '','' (map json_str vs) @ '']'' @ r) = Inr (JArr ([] @ vs), r)"
      using JArr.prems k Cons by (intro lenient_elements_str JArr.IH) (auto simp: readable_simps)
    with t k value_start_plain [OF t(2)] show ?thesis
      by (simp add: lenient_value.simps lenient_ws_start value_start_def [of "CHR ''[''"])
  qed
next
  case (JObj kvs)
  then obtain k' where k: "k = Suc k'" by (cases k) auto
  show ?case
  proof (cases kvs)
    case Nil
    with k show ?thesis by (simp add: lenient_value.simps lenient_ws_start value_start_def)
  next
    case (Cons w ws')
    have "\<exists>cs. member_str w = dquote # cs" by (simp add: member_str_def json_quote_def)
    with Cons obtain t where t: "join '','' (map member_str kvs) = dquote # t"
      using join_hd [of "map member_str kvs" dquote _ "'',''"] by auto
    have l: "length (join '','' (map member_str kvs)) + 1 < k'" using JObj.prems(3) k by (simp only: json_str_JObj) simp
    have "lenient_members n k' [] (join '','' (map member_str kvs) @ ''}'' @ r) = Inr (JObj ([] @ kvs), r)"
    proof (intro lenient_members_str l)
      show "lenient_value n k (json_str (snd kv) @ r) = Inr (snd kv, r)"
        if "kv \<in> set kvs" "follows r" "length (json_str (snd kv)) < k" for kv k r
        using that JObj.prems(1) by (intro JObj.IH [of kv]) (auto simp: readable_simps snds.simps)
    qed (use Cons JObj.prems(1) in \<open>auto simp: readable_simps\<close>)
    with t k show ?thesis
      unfolding json_str_JObj by (simp add: lenient_value.simps lenient_ws_start value_start_def)
  qed
next
  case JNull
  then obtain k' where "k = Suc k'" by (cases k) auto
  with JNull lenient_bare_keyword(3) [of r n] show ?case
    by (simp add: lenient_value.simps lenient_ws_start value_start_def open_quotes_def)
next
  case (JBool b)
  then obtain k' where "k = Suc k'" by (cases k) auto
  with JBool lenient_bare_keyword(1,2) [of r n] show ?case
    by (cases b) (simp_all add: lenient_value.simps lenient_ws_start value_start_def open_quotes_def)
qed

text \<open>A tool input printed as JSON is read back as it is, by the strict parse first: no value of the model's numbers, strings
  and structure is changed on the way.\<close>

theorem json_roundtrip:
  assumes "printable (\<lambda>_. True) v"
  shows "parseJsonLenient (json_str v) = Inr v"
  using json_parse_str [OF assms] by (simp add: parseJsonLenient_def)

definition sample_json :: json where
  "sample_json = JObj [(''command'', JStr ([dquote] @ ''x'' @ [nl])), (''n'', JArr [JNum (- 12), JBool True, JNull])]"

theorem json_roundtrip_witness: "parseJsonLenient (json_str sample_json) = Inr sample_json"
  by (rule json_roundtrip) (simp add: sample_json_def)

text \<open>Where the strict parse fails, the tolerant reader is no second opinion: an array or object printed as JSON inside any
  prose is read as the value it is, whatever follows it, provided the prose before it opens no bracket and no string
  holds a backspace or a form feed.\<close>

theorem tolerant_reader_agrees:
  assumes "readable v" "is_container v" "\<forall>c \<in> set prose. c \<noteq> CHR ''['' \<and> c \<noteq> CHR ''{''"
  shows "read_tolerantly (prose @ json_str v @ rest) = Inr v"
proof -
  have s: "\<exists>cs. json_str v = CHR ''['' # cs \<or> json_str v = CHR ''{'' # cs"
    using assms(2) by (cases v) simp_all
  have "dropWhile (\<lambda>c. c \<noteq> CHR ''['' \<and> c \<noteq> CHR ''{'') (prose @ json_str v @ rest) = json_str v @ rest"
    using assms(3) s by (induction prose) auto
  moreover have "lenient_value n (2 * length (json_str v @ rest) + 1) (json_str v @ rest) = Inr (v, rest)" for n
    by (rule lenient_value_str) (use assms in simp_all)
  ultimately show ?thesis using s by (auto simp: read_tolerantly_def Let_def)
qed

theorem tolerant_reader_agrees_witness:
  "read_tolerantly (''Here is the call: '' @ json_str sample_json @ '' (end)'') = Inr sample_json"
  by (rule tolerant_reader_agrees) (auto simp: sample_json_def readable_def no_feed_def)

text \<open>The proviso is needed: behind any syntax error the reader takes the escapes of a backspace and a form feed for the letters,
  so a payload with a trailing comma silently changes its text.\<close>

theorem escapes_misread:
  "parseJsonLenient (''{'' @ json_quote ''path'' @ '':'' @ json_quote (''a'' @ [CHR 0x08] @ ''c'') @ '',}'') = Inr (JObj [(''path'', JStr ''abc'')]) \<and>
   parseJsonLenient (''{'' @ json_quote ''path'' @ '':'' @ json_quote (''a'' @ [CHR 0x08] @ ''c'') @ ''}'') =
     Inr (JObj [(''path'', JStr (''a'' @ [CHR 0x08] @ ''c''))])"
  by (rule conjI; code_simp)

section \<open>The fuel is enough\<close>

definition spent :: "'a reading \<Rightarrow> bool" where "spent res \<longleftrightarrow> res = Inl ''out of fuel''"

lemma fail_not_spent [simp]: "\<not> spent (fail_at n msg r)" "\<not> spent (fail_past n msg)"
proof -
  have l: "is_digit (last (nat_str k))" for k
    using nat_str_digits [of k] by (cases "nat_str k" rule: rev_cases) auto
  have "msg @ '' at '' @ nat_str k \<noteq> ''out of fuel''" for k
  proof
    assume "msg @ '' at '' @ nat_str k = ''out of fuel''"
    then have "last (nat_str k) = last ''out of fuel''" by (metis append_is_Nil_conv last_appendR nat_str_not_Nil)
    with l [of k] show False by (simp add: is_digit_def)
  qed
  then show "\<not> spent (fail_at n msg r)" "\<not> spent (fail_past n msg)" by (simp_all add: spent_def fail_at_def fail_past_def)
qed

lemma spent_Inr [simp]: "\<not> spent (Inr x)"
  by (simp add: spent_def)

lemma spent_map [simp]: "spent (map_sum id f res) \<longleftrightarrow> spent res"
  by (cases res) (simp_all add: spent_def)

text \<open>A reading that is not out of fuel and, when it succeeds, leaves at most \<open>m\<close> characters.\<close>

definition leaves :: "nat \<Rightarrow> 'a reading \<Rightarrow> bool" where
  "leaves m res \<longleftrightarrow> \<not> spent res \<and> (case res of Inl _ \<Rightarrow> True | Inr (_, r) \<Rightarrow> length r \<le> m)"

lemma leaves_simps [simp]:
  "leaves m (fail_at n msg r)" "leaves m (fail_past n msg)" "leaves m (Inr (v, r)) \<longleftrightarrow> length r \<le> m"
  by (simp_all add: leaves_def) (simp_all add: fail_at_def fail_past_def)

lemma leaves_map [simp]: "leaves m (map_sum id (apfst f) res) \<longleftrightarrow> leaves m res"
  by (cases res) (auto simp: leaves_def spent_def)

lemma leaves_InlD: "leaves m res \<Longrightarrow> res = Inl e \<Longrightarrow> leaves k (Inl e)"
  by (simp add: leaves_def spent_def)

lemma leaves_mono: "leaves m res \<Longrightarrow> m \<le> k \<Longrightarrow> leaves k res"
  by (cases res) (auto simp: leaves_def)

lemma lenient_ws_leaves: "leaves (length s) (lenient_ws n s)"
proof (induction n s rule: lenient_ws.induct)
  case (1 n s)
  have le: "length (dropWhile P xs) \<le> length xs" for P and xs :: string by (rule length_dropWhile_le)
  let ?s = "dropWhile is_ws s"
  show ?case
  proof (cases "take 2 ?s = ''//''")
    case True
    with 1(1) have "leaves (length (dropWhile (\<lambda>c. c \<noteq> nl) (drop 2 ?s))) (lenient_ws n s)" by (simp add: lenient_ws.simps [of n s])
    then show ?thesis using le [of "\<lambda>c. c \<noteq> nl" "drop 2 ?s"] le [of is_ws s] by (elim leaves_mono) simp
  next
    case False
    show ?thesis
    proof (cases "take 2 ?s = ''/*''")
      case True
      show ?thesis
      proof (cases "after_comment (drop 2 ?s)")
        case None
        with False True show ?thesis by (simp add: lenient_ws.simps [of n s])
      next
        case (Some r)
        with False True 1(2) have "leaves (length r) (lenient_ws n s)" by (simp add: lenient_ws.simps [of n s])
        then show ?thesis using after_comment_shorter [OF Some] le [of is_ws s] by (elim leaves_mono) simp
      qed
    next
      case False
      with \<open>take 2 ?s \<noteq> ''//''\<close> le [of is_ws s] show ?thesis by (simp add: lenient_ws.simps [of n s])
    qed
  qed
qed

lemma lenient_string_leaves: "leaves (length s - 1) (lenient_string n cl s)"
proof (induction n cl s rule: lenient_string.induct)
  case (2 n cl c cs)
  show ?case
  proof (cases "c = bslash")
    case True
    show ?thesis
    proof (cases cs)
      case (Cons e r)
      show ?thesis
      proof (cases "if e = CHR ''u'' then hex_unit r else None")
        case None
        with 2(1) [OF True Cons None] True Cons show ?thesis by (auto simp: lenient_string.simps(2) elim: leaves_mono)
      next
        case (Some xr)
        then obtain x r' where xr: "xr = (x, r')" by (cases xr)
        with Some have "length r' \<le> length r" by (auto simp: hex_unit_def split: if_splits list.splits option.splits)
        with 2(2) [OF True Cons Some xr [symmetric]] True Cons Some xr show ?thesis by (auto simp: lenient_string.simps(2) elim: leaves_mono)
      qed
    qed (use True in \<open>simp add: lenient_string.simps(2)\<close>)
  next
    case False
    show ?thesis
    proof (cases "c \<in> set cl \<and> ends_string cs")
      case True
      with False show ?thesis by (simp add: lenient_string.simps(2))
    next
      case no_end: False
      then have "leaves (length cs) (lenient_string n cl cs)" using leaves_mono [OF 2(3) [OF False], of "length cs"] by auto
      with False no_end show ?thesis by (auto simp: lenient_string.simps(2))
    qed
  qed
qed (simp add: lenient_string.simps)

lemma lenient_bare_leaves: "leaves (length s - 1) (lenient_bare n s)"
proof -
  have "length (dropWhile token_char s) \<le> length s - 1" if "takeWhile token_char s \<noteq> []"
    using that length_dropWhile_le [of token_char "tl s"] by (cases s) (auto split: if_splits)
  then show ?thesis by (auto simp: lenient_bare_def Let_def split: option.splits prod.splits list.splits)
qed

lemma lenient_key_leaves: "leaves (length s - 1) (lenient_key n s)"
proof (cases s)
  case (Cons c r)
  have "length (dropWhile P r) \<le> length r" for P by (rule length_dropWhile_le)
  with Cons lenient_string_leaves [of r n "closers c"] show ?thesis
    by (auto simp: lenient_key_def is_word_def elim: leaves_mono)
qed (simp add: lenient_key_def)

text \<open>A step of the reader: what the first reading leaves, the rest may use.\<close>

lemma leaves_bind:
  "leaves m res \<Longrightarrow> (\<And>v r. res = Inr (v, r) \<Longrightarrow> length r \<le> m \<Longrightarrow> leaves k (f v r)) \<Longrightarrow>
     leaves k (case res of Inl e \<Rightarrow> Inl e | Inr (v, r) \<Rightarrow> f v r)"
  by (cases res) (auto simp: leaves_def spent_def)

lemma leaves_close:
  "length r \<le> m \<Longrightarrow> leaves m g \<Longrightarrow> leaves m (if next_is c r then Inr (v, tl r) else g)"
  by auto

lemmas leaves_step = leaves_bind [OF lenient_ws_leaves] leaves_close

definition enough :: "nat \<Rightarrow> nat \<Rightarrow> bool" where
  "enough n k \<longleftrightarrow>
     (\<forall>s. 2 * length s < k \<longrightarrow> leaves (length s - 1) (lenient_value n k s)) \<and>
     (\<forall>kvs s. 2 * length s < k \<longrightarrow> leaves (length s - 1) (lenient_members n k kvs s)) \<and>
     (\<forall>vs s. 2 * length s + 1 < k \<longrightarrow> leaves (length s - 1) (lenient_elements n k vs s))"

lemma enoughD:
  assumes "enough n k" "length s \<le> m"
  shows "2 * length s < k \<Longrightarrow> leaves m (lenient_value n k s)" "2 * length s < k \<Longrightarrow> leaves m (lenient_members n k kvs s)"
    "2 * length s + 1 < k \<Longrightarrow> leaves m (lenient_elements n k vs s)"
  using assms unfolding enough_def by (meson diff_le_self leaves_mono order_trans)+

lemma enough_value:
  assumes e: "enough n k" and s: "2 * length s < Suc k"
  shows "leaves (length s - 1) (lenient_value n (Suc k) s)"
  unfolding lenient_value.simps
proof (rule leaves_bind [OF lenient_ws_leaves])
  fix u and s1 :: string
  assume "length s1 \<le> length s"
  with s show "leaves (length s - 1)
      (case s1 of [] \<Rightarrow> lenient_bare n s1
       | c # r \<Rightarrow>
           if c = CHR ''{'' then
             (case lenient_ws n r of Inl e \<Rightarrow> Inl e
              | Inr (_, r') \<Rightarrow> if next_is (CHR ''}'') r' then Inr (JObj [], tl r') else lenient_members n k [] r')
           else if c = CHR ''['' then
             (case lenient_ws n r of Inl e \<Rightarrow> Inl e
              | Inr (_, r') \<Rightarrow> if next_is (CHR '']'') r' then Inr (JArr [], tl r') else lenient_elements n k [] r')
           else if c \<in> set open_quotes then map_sum id (apfst JStr) (lenient_string n (closers c) r)
           else lenient_bare n s1)"
    using leaves_mono [OF lenient_bare_leaves, of s1 "length s - 1" n]
      leaves_mono [OF lenient_string_leaves, of "tl s1" "length s - 1" n "closers (hd s1)"]
    by (cases s1) (simp_all add: leaves_step enoughD [OF e])
qed

lemma enough_members:
  assumes e: "enough n k" and s: "2 * length s < Suc k"
  shows "leaves (length s - 1) (lenient_members n (Suc k) kvs s)"
  unfolding lenient_members.simps
proof (rule leaves_bind [OF lenient_ws_leaves], rule leaves_bind [OF lenient_key_leaves], rule leaves_bind [OF lenient_ws_leaves])
  fix u v and s1 key r1 r2 :: string
  assume "length s1 \<le> length s" "length r1 \<le> length s1 - 1" "length r2 \<le> length r1"
  then have "length r2 \<le> length s - 1" by linarith
  with s show "leaves (length s - 1)
      (case r2 of [] \<Rightarrow> fail_past n expected_colon
       | c # rc \<Rightarrow>
           if c \<noteq> CHR '':'' then fail_at n expected_colon rc
           else
             (case lenient_value n k rc of Inl e \<Rightarrow> Inl e
              | Inr (v, r3) \<Rightarrow>
                  (case lenient_ws n r3 of Inl e \<Rightarrow> Inl e
                   | Inr (_, []) \<Rightarrow> fail_past n (expected_end ''}'')
                   | Inr (_, d # r4) \<Rightarrow>
                       if d = CHR '','' then
                         (case lenient_ws n r4 of Inl e \<Rightarrow> Inl e
                          | Inr (_, r5) \<Rightarrow>
                              if next_is (CHR ''}'') r5 then Inr (JObj (put_member key v kvs), tl r5)
                              else lenient_members n k (put_member key v kvs) r5)
                       else if d = CHR ''}'' then Inr (JObj (put_member key v kvs), r4)
                       else fail_at n (expected_end ''}'') r4)))"
    by (cases r2) (auto intro!: leaves_step leaves_bind [OF enoughD(1) [OF e order_refl]] enoughD [OF e] split: list.split)
qed

lemma enough_elements:
  assumes e: "enough n k" and s: "2 * length s + 1 < Suc k"
  shows "leaves (length s - 1) (lenient_elements n (Suc k) vs s)"
  unfolding lenient_elements.simps
  using s by (intro leaves_bind [of "length s - 1" "lenient_value n k s"])
    (use e in \<open>auto intro!: leaves_step enoughD [OF e] split: list.split simp: enough_def\<close>)

lemma enough_fuel: "enough n k"
proof (induction k)
  case (Suc k)
  show ?case
    unfolding enough_def using enough_value [OF Suc] enough_members [OF Suc] enough_elements [OF Suc] by blast
qed (simp add: enough_def)

text \<open>The tolerant reader always answers: its nested readings are bounded by twice the length of its text, and no text, well
  formed or not, needs more.\<close>

theorem tolerant_reader_terminates: "read_tolerantly s \<noteq> Inl ''out of fuel''"
proof -
  define start where "start = dropWhile (\<lambda>c. c \<noteq> CHR ''['' \<and> c \<noteq> CHR ''{'') s"
  have "leaves (length start) (lenient_value (length s) (2 * length start + 1) start)"
    using enoughD(1) [OF enough_fuel, of start "length start" "2 * length start + 1"] by simp
  then show ?thesis
    by (cases "lenient_value (length s) (2 * length start + 1) start")
      (auto simp: read_tolerantly_def Let_def leaves_def spent_def start_def [symmetric])
qed

end
