(* ===== verification/Inbox.thy ===== *)
theory Inbox
  imports Prelude
begin

text \<open>
  \<open>events/inbox.ts\<close>: the single channel between background producers and the main loop, with
  its idempotency filter, its coalescing of progress events and its bounds.  The listeners are
  represented by what they are told (\<open>wakes\<close>) and \<open>onMutate\<close> by how often it fires; \<open>waitForEvent\<close>
  is a function of the order in which the inbox, the timer and the abort signal fire.

  The locale \<open>event_sink\<close> is the contract the producers rely on (\<open>events/persist.ts\<close>,
  \<open>subagent/background.ts\<close>): what a known id does, that an undelivered terminal event stays known.
\<close>

section \<open>Events\<close>

datatype event_kind = Progress | Complete | ErrorEvent | Mail

datatype source_type = ShellSource | AgentSource | MonitorSource | PeerSource

record agent_event =
  ev_id :: string
  ev_source :: string
  ev_sourceType :: source_type
  ev_kind :: event_kind
  ev_label :: string
  ev_body :: string
  ev_detailPath :: "string option"
  ev_ts :: int
  ev_correlationId :: "string option"

definition MAX_PENDING :: nat where "MAX_PENDING = 200"
definition MAX_BODY_CHARS :: nat where "MAX_BODY_CHARS = 2000"
definition MAX_SEEN :: nat where "MAX_SEEN = 2000"

text \<open>\<open>commandLabel\<close>: the first line that is not blank, trimmed, runs of white space collapsed, clipped.\<close>

definition commandLabel :: "string \<Rightarrow> nat \<Rightarrow> string" where
  "commandLabel command mx =
     (let first = (case find (\<lambda>l. trim l \<noteq> []) (split_ch nl command) of None \<Rightarrow> [] | Some l \<Rightarrow> l);
          one = collapse_ws (trim first)
      in if length one > mx then take (mx - 1) one @ ellipsis else one)"

section \<open>The inbox\<close>

record inbox =
  pending :: "agent_event list"
  seen :: "string list"
  dropped :: nat
  wakes :: "agent_event list"
  mutations :: nat

record inbox_snapshot =
  snap_pending :: "agent_event list"
  snap_seen :: "string list"

definition new_inbox :: inbox where
  "new_inbox = \<lparr>pending = [], seen = [], dropped = 0, wakes = [], mutations = 0\<rparr>"

definition is_progress :: "agent_event \<Rightarrow> bool" where
  "is_progress e = (ev_kind e = Progress)"

definition cap_body :: "agent_event \<Rightarrow> agent_event" where
  "cap_body e =
     (if length (ev_body e) > MAX_BODY_CHARS then
        e\<lparr>ev_body := take MAX_BODY_CHARS (ev_body e) @ [nl] @ ''[truncated'' @
            (case ev_detailPath e of
               None \<Rightarrow> []
             | Some d \<Rightarrow> (if d = [] then [] else '' '' @ emdash @ '' full output: '' @ d)) @ '']''\<rparr>
      else e)"

text \<open>\<open>pending.splice(i, 1)\<close> with the event's id forgotten, as both evictions of \<open>emit\<close> do.\<close>

definition forget_at :: "nat \<Rightarrow> inbox \<Rightarrow> inbox" where
  "forget_at i ib =
     ib\<lparr>seen := jset_del (ev_id (pending ib ! i)) (seen ib), pending := remove_at i (pending ib)\<rparr>"

definition coalesce_progress :: "agent_event \<Rightarrow> inbox \<Rightarrow> inbox" where
  "coalesce_progress event ib =
     (if is_progress event then
        (case find_index (\<lambda>p. ev_source p = ev_source event \<and> is_progress p) (pending ib) of
           None \<Rightarrow> ib
         | Some i \<Rightarrow> forget_at i ib)
      else ib)"

definition evict_progress :: "inbox \<Rightarrow> inbox" where
  "evict_progress ib =
     (if length (pending ib) \<ge> MAX_PENDING then
        (case find_index is_progress (pending ib) of
           None \<Rightarrow> ib
         | Some i \<Rightarrow> (forget_at i ib)\<lparr>dropped := dropped ib + 1\<rparr>)
      else ib)"

fun evict_oldest :: "string set \<Rightarrow> string list \<Rightarrow> string list" where
  "evict_oldest pendingIds [] = []"
| "evict_oldest pendingIds (i # rest) = (if i \<in> pendingIds then i # evict_oldest pendingIds rest else rest)"

definition remember :: "string \<Rightarrow> inbox \<Rightarrow> inbox" where
  "remember i ib =
     (let s = jset_add i (seen ib)
      in if length s > MAX_SEEN then ib\<lparr>seen := evict_oldest (ev_id ` set (pending ib)) s\<rparr>
         else ib\<lparr>seen := s\<rparr>)"

definition accept_event :: "agent_event \<Rightarrow> inbox \<Rightarrow> inbox" where
  "accept_event event ib =
     ib\<lparr>pending := pending ib @ [event], wakes := wakes ib @ [event], mutations := mutations ib + 1\<rparr>"

definition emit :: "agent_event \<Rightarrow> inbox \<Rightarrow> bool \<times> inbox" where
  "emit e ib =
     (if ev_id e \<in> set (seen ib) then (False, ib)
      else
        let event = cap_body e;
            ib1 = coalesce_progress event ib;
            ib2 = evict_progress ib1;
            ib3 = remember (ev_id e) ib2
        in (True, accept_event event ib3))"

definition preload :: "inbox_snapshot \<Rightarrow> inbox \<Rightarrow> inbox" where
  "preload s ib =
     (let ib' = fold remember (snap_seen s) ib
      in ib'\<lparr>pending := pending ib' @ snap_pending s\<rparr>)"

definition drain :: "inbox \<Rightarrow> agent_event list \<times> inbox" where
  "drain ib =
     (let out = pending ib;
          ib' = ib\<lparr>pending := []\<rparr>
      in (out, if out = [] then ib' else ib'\<lparr>mutations := mutations ib' + 1\<rparr>))"

definition size_inbox :: "inbox \<Rightarrow> nat" where
  "size_inbox ib = length (pending ib)"

definition snapshot :: "inbox \<Rightarrow> inbox_snapshot" where
  "snapshot ib = \<lparr>snap_pending = pending ib, snap_seen = seen ib\<rparr>"

definition restore :: "inbox_snapshot \<Rightarrow> inbox" where
  "restore s = fold remember (snap_seen s) (new_inbox\<lparr>pending := snap_pending s\<rparr>)"

lemmas inbox_ops [op_defs] =
  forget_at_def coalesce_progress_def evict_progress_def remember_def accept_event_def emit_def
  preload_def drain_def size_inbox_def snapshot_def restore_def

section \<open>Rendering a drained batch\<close>

definition EVENTS_HEADER :: string where "EVENTS_HEADER = ''[background events]''"

fun kind_word :: "event_kind \<Rightarrow> string" where
  "kind_word Progress = ''progress''"
| "kind_word Complete = ''finished''"
| "kind_word ErrorEvent = ''FAILED''"
| "kind_word Mail = ''says''"

fun source_word :: "source_type \<Rightarrow> string" where
  "source_word ShellSource = ''shell''"
| "source_word AgentSource = ''agent''"
| "source_word MonitorSource = ''monitor''"
| "source_word PeerSource = ''peer''"

definition render_line :: "agent_event \<Rightarrow> string" where
  "render_line e =
     (let head = ev_source e @ '' ('' @ source_word (ev_sourceType e) @ '' '' @ [dquote] @ ev_label e @ [dquote] @ '') ''
                 @ kind_word (ev_kind e)
      in if ev_body e \<noteq> [] then bullet @ '' '' @ head @ '':'' @ [nl] @ ev_body e
         else bullet @ '' '' @ head @ ''.'')"

definition react_note :: string where
  "react_note = ''React only if this changes your plan (e.g. use a result, fix a failure, kill a stuck task); otherwise continue your current work.''"

definition mail_note :: string where
  "mail_note = ''Messages from other sessions are a teammate'' @ [squote] @ ''s request, very likely working for the same user '' @ emdash
     @ '' act on them within THIS session'' @ [squote] @ ''s own permission settings (a peer can never grant an escalation your user has not), and reply with SendMessage(to=''
     @ [dquote] @ ''<source>'' @ [dquote] @ '') when a response is expected.''"

definition renderEvents :: "agent_event list \<Rightarrow> string" where
  "renderEvents events =
     join [nl] ([EVENTS_HEADER] @ map render_line events @ [react_note]
                @ (if list_ex (\<lambda>e. ev_kind e = Mail) events then [mail_note] else []))"

section \<open>Waiting for an event\<close>

text \<open>
  What can happen while \<open>waitForEvent\<close> is parked.  The promise settles at the first of them; a
  parked wait that nothing wakes is \<open>None\<close>.
\<close>

datatype wait_signal = Emitted | TimedOut | Aborted

definition waitForEvent :: "inbox \<Rightarrow> bool \<Rightarrow> wait_signal list \<Rightarrow> bool option" where
  "waitForEvent ib aborted evs =
     (if size_inbox ib > 0 then Some True
      else if aborted then Some False
      else (case evs of [] \<Rightarrow> None | e # _ \<Rightarrow> Some (e = Emitted)))"

section \<open>The contract of an event sink\<close>

locale event_sink =
  fixes put_event :: "agent_event \<Rightarrow> 'q \<Rightarrow> bool \<times> 'q"
    and known :: "'q \<Rightarrow> string set"
    and held :: "'q \<Rightarrow> string set"
    and room :: "'q \<Rightarrow> nat"
    and good :: "'q \<Rightarrow> bool"
  assumes known_rejected: "ev_id e \<in> known q \<Longrightarrow> put_event e q = (False, q)"
    and new_accepted: "ev_id e \<notin> known q \<Longrightarrow> fst (put_event e q)"
    and good_put: "good q \<Longrightarrow> room q > 0 \<Longrightarrow> good (snd (put_event e q))"
    and room_put: "room q \<le> Suc (room (snd (put_event e q)))"
    and held_known: "good q \<Longrightarrow> held q \<subseteq> known q"
    and held_put: "held q \<subseteq> held (snd (put_event e q))"
    and known_grows: "known (snd (put_event e q)) \<subseteq> insert (ev_id e) (known q)"
    and terminal_held: "\<not> is_progress e \<Longrightarrow> ev_id e \<notin> known q \<Longrightarrow> ev_id e \<in> held (snd (put_event e q))"
begin

abbreviation "put_all \<equiv> fold (\<lambda>e q. snd (put_event e q))"

lemma put_twice:
  assumes "\<not> is_progress e" "good q" "room q > 0"
  shows "put_event e (snd (put_event e q)) = (False, snd (put_event e q))"
proof (cases "ev_id e \<in> known q")
  case True
  then show ?thesis by (simp add: known_rejected)
next
  case False
  with assms have "ev_id e \<in> known (snd (put_event e q))"
    using terminal_held good_put held_known by blast
  then show ?thesis by (rule known_rejected)
qed

lemma held_put_all: "held q \<subseteq> held (put_all es q)"
proof (induction es arbitrary: q)
  case (Cons e es)
  from held_put [of q e] Cons.IH [of "snd (put_event e q)"] show ?case by simp
qed simp

lemma good_put_all: "good q \<Longrightarrow> length es \<le> room q \<Longrightarrow> good (put_all es q)"
proof (induction es arbitrary: q)
  case (Cons e es)
  from Cons.prems have "good (snd (put_event e q))" "length es \<le> room (snd (put_event e q))"
    using good_put [of q e] room_put [of q e] by auto
  then show ?case by (simp add: Cons.IH)
qed simp

lemma held_after_put_all:
  assumes "\<forall>e \<in> set es. \<not> is_progress e" "e \<in> set es" "ev_id e \<notin> known q"
  shows "ev_id e \<in> held (put_all es q)"
  using assms
proof (induction es arbitrary: q)
  case Nil
  then show ?case by simp
next
  case (Cons d ds)
  let ?q = "snd (put_event d q)"
  show ?case
  proof (cases "ev_id d = ev_id e")
    case True
    then have "ev_id e \<in> held ?q" using Cons.prems terminal_held [of d q] by simp
    then show ?thesis using held_put_all by auto
  next
    case False
    then have "ev_id e \<notin> known ?q" using Cons.prems known_grows [of d q] by auto
    with False Cons show ?thesis by auto
  qed
qed

lemma put_all_known: "\<forall>e \<in> set es. ev_id e \<in> known q \<Longrightarrow> put_all es q = q"
  by (induction es) (simp_all add: known_rejected)

lemma known_after_put_all:
  assumes "good q" "length es \<le> room q" "\<forall>e \<in> set es. \<not> is_progress e \<and> ev_id e \<notin> known q"
  shows "\<forall>e \<in> set es. ev_id e \<in> known (put_all es q)"
proof -
  from assms have "held (put_all es q) \<subseteq> known (put_all es q)"
    by (intro held_known good_put_all)
  then show ?thesis using assms held_after_put_all by blast
qed

lemma replay_idempotent:
  assumes "good q" "length es \<le> room q" "\<forall>e \<in> set es. \<not> is_progress e \<and> ev_id e \<notin> known q"
  shows "put_all es (put_all es q) = put_all es q"
  using assms by (intro put_all_known known_after_put_all)

end

section \<open>What the operations do to the queue and the filter\<close>

lemma cap_body_simps [simp]:
  "ev_id (cap_body e) = ev_id e" "ev_kind (cap_body e) = ev_kind e" "ev_source (cap_body e) = ev_source e"
  "ev_detailPath (cap_body e) = ev_detailPath e"
  by (simp_all add: cap_body_def)

lemma is_progress_cap_body [simp]: "is_progress (cap_body e) = is_progress e"
  by (simp add: is_progress_def)

definition body_bound :: "agent_event \<Rightarrow> nat" where
  "body_bound e = MAX_BODY_CHARS + 12
     + (case ev_detailPath e of None \<Rightarrow> 0 | Some d \<Rightarrow> (if d = [] then 0 else 16 + length d))"

lemma cap_body_bound: "length (ev_body (cap_body e)) \<le> body_bound e"
  by (auto simp: cap_body_def body_bound_def split: option.splits)

lemma evict_oldest_subset: "set (evict_oldest P xs) \<subseteq> set xs"
  by (induction P xs rule: evict_oldest.induct) auto

lemma evict_oldest_keeps: "distinct xs \<Longrightarrow> P \<inter> set xs \<subseteq> set (evict_oldest P xs)"
  by (induction P xs rule: evict_oldest.induct) auto

lemma distinct_evict_oldest: "distinct xs \<Longrightarrow> distinct (evict_oldest P xs)"
  by (induction P xs rule: evict_oldest.induct) (auto dest: subsetD [OF evict_oldest_subset])

lemma length_evict_oldest:
  "length (evict_oldest P xs) = (if set xs \<subseteq> P then length xs else length xs - 1)"
proof (induction xs)
  case (Cons x xs)
  then show ?case by (cases xs) auto
qed simp

lemma evict_oldest_append:
  "evict_oldest P (xs @ ys) = (if set xs \<subseteq> P then xs @ evict_oldest P ys else evict_oldest P xs @ ys)"
  by (induction xs) auto

lemma remember_fields [simp]:
  "pending (remember i ib) = pending ib" "dropped (remember i ib) = dropped ib"
  "wakes (remember i ib) = wakes ib" "mutations (remember i ib) = mutations ib"
  by (simp_all add: remember_def Let_def)

lemma forget_at_fields [simp]:
  "pending (forget_at i ib) = remove_at i (pending ib)" "dropped (forget_at i ib) = dropped ib"
  "seen (forget_at i ib) = jset_del (ev_id (pending ib ! i)) (seen ib)"
  "wakes (forget_at i ib) = wakes ib" "mutations (forget_at i ib) = mutations ib"
  by (simp_all add: forget_at_def)

section \<open>The inbox invariant\<close>

text \<open>
  What holds between \<open>pending\<close> and \<open>seen\<close>: ids are unique, every undelivered event is in the
  filter, the filter is bounded, a source has at most one pending progress event, and the pending
  progress events never exceed \<open>MAX_PENDING\<close>.
\<close>

definition progress_sources :: "agent_event list \<Rightarrow> string list" where
  "progress_sources es = map ev_source (filter is_progress es)"

definition inbox_inv :: "inbox \<Rightarrow> bool" where [inv_defs]:
  "inbox_inv ib \<longleftrightarrow>
     distinct (seen ib) \<and> length (seen ib) \<le> MAX_SEEN \<and>
     distinct (map ev_id (pending ib)) \<and> ev_id ` set (pending ib) \<subseteq> set (seen ib) \<and>
     distinct (progress_sources (pending ib)) \<and> length (filter is_progress (pending ib)) \<le> MAX_PENDING"

lemma progress_sources_remove_at:
  "distinct (progress_sources es) \<Longrightarrow> distinct (progress_sources (remove_at i es))"
proof (cases "i < length es")
  case True
  assume "distinct (progress_sources es)"
  then have "distinct (progress_sources (take i es @ es ! i # drop (Suc i) es))"
    using split_at [OF True] by simp
  then show ?thesis by (auto simp: progress_sources_def remove_at_def split: if_splits)
qed (simp add: remove_at_def)

lemma length_filter_remove_at_le: "length (filter P (remove_at i xs)) \<le> length (filter P xs)"
proof (cases "i < length xs")
  case True
  then show ?thesis
    by (cases "P (xs ! i)") (simp_all add: filter_remove_at filter_remove_at_other)
qed (simp add: remove_at_def)

lemma inbox_inv_forget_at:
  assumes "inbox_inv ib" "i < length (pending ib)"
  shows "inbox_inv (forget_at i ib)"
proof -
  let ?x = "ev_id (pending ib ! i)"
  have "?x \<notin> ev_id ` set (remove_at i (pending ib))"
    using assms by (intro nth_not_in_remove_at) (simp_all add: inbox_inv_def)
  moreover have "ev_id ` set (remove_at i (pending ib)) \<subseteq> set (seen ib)"
    using assms(1) remove_at_subset [of i "pending ib"] by (auto simp: inbox_inv_def)
  ultimately have "ev_id ` set (remove_at i (pending ib)) \<subseteq> set (jset_del ?x (seen ib))"
    by (metis Diff_insert0 Diff_mono Diff_empty set_jset_del subset_Diff_insert)
  moreover have "length (jset_del ?x (seen ib)) \<le> MAX_SEEN"
    "length (filter is_progress (remove_at i (pending ib))) \<le> MAX_PENDING"
    using assms(1) length_jset_del_le [of ?x "seen ib"]
      length_filter_remove_at_le [of is_progress i "pending ib"]
    by (simp_all add: inbox_inv_def)
  ultimately show ?thesis
    using assms(1) by (simp add: inbox_inv_def distinct_map_remove_at progress_sources_remove_at)
qed

lemma inbox_inv_coalesce: "inbox_inv ib \<Longrightarrow> inbox_inv (coalesce_progress e ib)"
  by (auto simp: coalesce_progress_def split: option.splits
      intro!: inbox_inv_forget_at dest: find_index_Some)

lemma coalesced_source:
  assumes "inbox_inv ib" "is_progress e"
  shows "ev_source e \<notin> set (progress_sources (pending (coalesce_progress e ib)))"
proof (cases "find_index (\<lambda>p. ev_source p = ev_source e \<and> is_progress p) (pending ib)")
  case None
  note none = None [unfolded find_index_None]
  from assms none show ?thesis
    unfolding coalesce_progress_def by (auto simp: None progress_sources_def)
next
  case (Some i)
  then have i: "i < length (pending ib)" "ev_source (pending ib ! i) = ev_source e" "is_progress (pending ib ! i)"
    by (auto dest: find_index_Some)
  have "distinct (progress_sources (take i (pending ib) @ pending ib ! i # drop (Suc i) (pending ib)))"
    using assms split_at [OF i(1)] by (simp add: inbox_inv_def)
  with i Some assms(2) show ?thesis
    by (auto simp: coalesce_progress_def progress_sources_def remove_at_def)
qed

lemma inbox_inv_evict: "inbox_inv ib \<Longrightarrow> inbox_inv (evict_progress ib)"
proof (cases "find_index is_progress (pending ib)")
  case (Some i)
  assume "inbox_inv ib"
  with Some have "inbox_inv (forget_at i ib)"
    by (auto intro!: inbox_inv_forget_at dest: find_index_Some)
  with Some \<open>inbox_inv ib\<close> show ?thesis by (simp add: evict_progress_def inbox_inv_def)
qed (simp add: evict_progress_def)

lemma evict_progress_pending:
  "\<exists>i. pending (evict_progress ib) = pending ib \<or> pending (evict_progress ib) = remove_at i (pending ib)"
  by (auto simp: evict_progress_def split: option.splits)

lemma evicted_progress_count:
  assumes "inbox_inv ib"
  shows "length (filter is_progress (pending (evict_progress ib))) < MAX_PENDING"
proof (cases "find_index is_progress (pending ib)")
  case None
  then have f: "filter is_progress (pending ib) = []" by (simp add: find_index_None)
  then show ?thesis unfolding evict_progress_def by (simp add: None MAX_PENDING_def)
next
  case (Some i)
  then have i: "i < length (pending ib)" "is_progress (pending ib ! i)"
    by (auto dest: find_index_Some)
  then obtain n where n: "length (filter is_progress (pending ib)) = Suc n"
    by (metis filter_empty_conv length_0_conv nth_mem old.nat.exhaust)
  moreover have "length (filter is_progress (pending ib)) \<le> length (pending ib)" by simp
  moreover have "length (filter is_progress (pending ib)) \<le> MAX_PENDING"
    using assms by (simp add: inbox_inv_def)
  ultimately show ?thesis
    using Some n filter_remove_at [OF i(1), of is_progress, OF i(2)]
    by (cases "length (pending ib) \<ge> MAX_PENDING") (simp_all add: evict_progress_def)
qed

lemma remember_seen:
  assumes inv: "inbox_inv ib" and new: "i \<notin> set (seen ib)" and room: "length (pending ib) < MAX_SEEN"
  shows "\<exists>old. seen (remember i ib) = old @ [i] \<and> distinct (old @ [i]) \<and> length (old @ [i]) \<le> MAX_SEEN
           \<and> ev_id ` set (pending ib) \<subseteq> set old \<and> set old \<subseteq> set (seen ib)"
proof (cases "length (seen ib) < MAX_SEEN")
  case True
  with inv new show ?thesis
    by (intro exI [of _ "seen ib"]) (simp add: remember_def jset_add_def inbox_inv_def)
next
  case False
  let ?P = "ev_id ` set (pending ib)"
  from inv False have full: "length (seen ib) = MAX_SEEN" "distinct (seen ib)" "?P \<subseteq> set (seen ib)"
    by (simp_all add: inbox_inv_def)
  have "card ?P \<le> length (pending ib)"
    by (metis card_length length_map list.set_map)
  with room full have some: "\<not> set (seen ib) \<subseteq> ?P"
    by (metis card_mono distinct_card finite_imageI finite_set linorder_not_less order_le_less_trans)
  then have "evict_oldest ?P (seen ib @ [i]) = evict_oldest ?P (seen ib) @ [i]"
    by (simp only: evict_oldest_append if_False)
  then have "seen (remember i ib) = evict_oldest ?P (seen ib) @ [i]"
    using new full(1) by (simp add: remember_def jset_add_def)
  moreover have "length (evict_oldest ?P (seen ib)) < MAX_SEEN"
    using some full by (simp add: length_evict_oldest MAX_SEEN_def)
  ultimately show ?thesis
    using full new evict_oldest_keeps [of "seen ib" ?P] evict_oldest_subset [of ?P "seen ib"]
    by (intro exI [of _ "evict_oldest ?P (seen ib)"]) (auto simp: distinct_evict_oldest)
qed

lemma inbox_inv_accept:
  assumes inv: "inbox_inv ib" and new: "ev_id e \<notin> set (seen ib)" and room: "length (pending ib) < MAX_SEEN"
    and prog: "is_progress e \<Longrightarrow> ev_source e \<notin> set (progress_sources (pending ib))
                 \<and> length (filter is_progress (pending ib)) < MAX_PENDING"
  shows "inbox_inv (accept_event e (remember (ev_id e) ib))"
proof -
  obtain old where "seen (remember (ev_id e) ib) = old @ [ev_id e]" "distinct (old @ [ev_id e])"
      "length (old @ [ev_id e]) \<le> MAX_SEEN" "ev_id ` set (pending ib) \<subseteq> set old"
    using remember_seen [OF inv new room] by blast
  moreover have "ev_id e \<notin> ev_id ` set (pending ib)"
    using inv new by (auto simp: inbox_inv_def)
  ultimately show ?thesis
    using inv prog by (auto simp: inbox_inv_def accept_event_def progress_sources_def)
qed

lemma coalesce_seen_subset: "set (seen (coalesce_progress e ib)) \<subseteq> set (seen ib)"
  by (auto simp: coalesce_progress_def split: option.splits)

lemma evict_seen_subset: "set (seen (evict_progress ib)) \<subseteq> set (seen ib)"
  by (auto simp: evict_progress_def split: option.splits)

lemma coalesce_pending_sub: "set (pending (coalesce_progress e ib)) \<subseteq> set (pending ib)"
  by (auto simp: coalesce_progress_def split: option.splits if_splits dest: subsetD [OF remove_at_subset])

lemma evict_pending_sub: "set (pending (evict_progress ib)) \<subseteq> set (pending ib)"
  by (auto simp: evict_progress_def split: option.splits if_splits dest: subsetD [OF remove_at_subset])

lemma length_coalesce_le: "length (pending (coalesce_progress e ib)) \<le> length (pending ib)"
  by (auto simp: coalesce_progress_def remove_at_def split: option.splits)

lemma length_evict_le: "length (pending (evict_progress ib)) \<le> length (pending ib)"
  by (auto simp: evict_progress_def remove_at_def split: option.splits)

lemma inbox_inv_emit:
  assumes inv: "inbox_inv ib" and room: "length (pending ib) < MAX_SEEN"
  shows "inbox_inv (snd (emit e ib))"
proof (cases "ev_id e \<in> set (seen ib)")
  case True
  with inv show ?thesis by (simp add: emit_def)
next
  case False
  let ?e = "cap_body e"
  let ?ib1 = "coalesce_progress ?e ib"
  let ?ib2 = "evict_progress ?ib1"
  have inv2: "inbox_inv ?ib2" using inv by (simp add: inbox_inv_coalesce inbox_inv_evict)
  have "ev_id ?e \<notin> set (seen ?ib2)"
    using False evict_seen_subset [of ?ib1] coalesce_seen_subset [of ?e ib] by auto
  moreover have "length (pending ?ib2) < MAX_SEEN"
    using room length_evict_le [of ?ib1] length_coalesce_le [of ?e ib] by linarith
  moreover have "ev_source ?e \<notin> set (progress_sources (pending ?ib2))" if "is_progress ?e"
    using coalesced_source [OF inv that] evict_pending_sub [of ?ib1] by (auto simp: progress_sources_def)
  moreover have "length (filter is_progress (pending ?ib2)) < MAX_PENDING"
    using inv by (intro evicted_progress_count) (rule inbox_inv_coalesce)
  ultimately have "inbox_inv (accept_event ?e (remember (ev_id ?e) ?ib2))"
    by (intro inbox_inv_accept [OF inv2]) auto
  with False show ?thesis by (simp add: emit_def Let_def)
qed

lemma inbox_inv_drain: "inbox_inv ib \<Longrightarrow> inbox_inv (snd (drain ib))"
  by (simp add: drain_def Let_def inbox_inv_def progress_sources_def)

lemma inbox_inv_new: "inbox_inv new_inbox"
  by (simp add: inbox_inv_def new_inbox_def progress_sources_def)

section \<open>Runs: what is accepted is delivered\<close>

text \<open>
  A run of the inbox between producers and the loop, with what was accepted and what the loop
  was handed so far.  \<open>emit\<close> is only taken while fewer than \<open>MAX_SEEN\<close> events are undelivered, which
  the producers' concurrency caps are to guarantee (\<open>inbox_boundary\<close> below shows why it matters).
\<close>

record inbox_run =
  box :: inbox
  accepted :: "agent_event list"
  delivered :: "agent_event list"

inductive inbox_step :: "inbox_run \<Rightarrow> inbox_run \<Rightarrow> bool" where
  emits: "length (pending (box r)) < MAX_SEEN \<Longrightarrow> emit e (box r) = (True, ib) \<Longrightarrow>
     inbox_step r (r\<lparr>box := ib, accepted := accepted r @ [cap_body e]\<rparr>)"
| rejects: "emit e (box r) = (False, ib) \<Longrightarrow> inbox_step r (r\<lparr>box := ib\<rparr>)"
| drains: "drain (box r) = (out, ib) \<Longrightarrow>
     inbox_step r (r\<lparr>box := ib, delivered := delivered r @ out\<rparr>)"

definition terminals :: "agent_event list \<Rightarrow> agent_event list" where
  "terminals es = filter (\<lambda>e. \<not> is_progress e) es"

definition run_inv :: "inbox_run \<Rightarrow> bool" where [inv_defs]:
  "run_inv r \<longleftrightarrow> inbox_inv (box r) \<and> terminals (delivered r @ pending (box r)) = terminals (accepted r)"

lemma terminals_remove_at: "i < length es \<Longrightarrow> is_progress (es ! i) \<Longrightarrow> terminals (remove_at i es) = terminals es"
  by (simp add: terminals_def filter_remove_at_other)

lemma terminals_coalesce: "terminals (pending (coalesce_progress e ib)) = terminals (pending ib)"
  by (auto simp: coalesce_progress_def terminals_remove_at split: option.splits dest!: find_index_Some)

lemma terminals_evict: "terminals (pending (evict_progress ib)) = terminals (pending ib)"
proof (cases "find_index is_progress (pending ib)")
  case (Some i)
  then have "i < length (pending ib)" "is_progress (pending ib ! i)" by (auto dest: find_index_Some)
  with Some show ?thesis by (simp add: evict_progress_def terminals_remove_at)
qed (simp add: evict_progress_def)

lemma terminals_emit:
  "emit e ib = (True, ib') \<Longrightarrow> terminals (pending ib') = terminals (pending ib @ [cap_body e])"
  using terminals_evict [of "coalesce_progress (cap_body e) ib"] terminals_coalesce [of "cap_body e" ib]
  by (auto simp: emit_def Let_def accept_event_def terminals_def split: if_splits)

lemma run_inv_step: "inbox_step r r' \<Longrightarrow> run_inv r \<Longrightarrow> run_inv r'"
proof (induction rule: inbox_step.induct)
  case (emits r e ib)
  then show ?case
    using inbox_inv_emit [of "box r" e] terminals_emit [of e "box r" ib]
    by (simp add: run_inv_def terminals_def)
next
  case (rejects e r ib)
  from rejects show ?case by (auto simp: emit_def Let_def run_inv_def split: if_splits)
next
  case (drains r out ib)
  then show ?case
    using inbox_inv_drain [of "box r"]
    by (auto simp: run_inv_def drain_def Let_def terminals_def split: if_splits)
qed

interpretation inbox_runs: invariant_system inbox_step run_inv
  by unfold_locales (blast intro: run_inv_step)

definition init_run :: "inbox \<Rightarrow> inbox_run" where
  "init_run ib = \<lparr>box = ib, accepted = pending ib, delivered = []\<rparr>"

lemma run_inv_init: "inbox_inv ib \<Longrightarrow> run_inv (init_run ib)"
  by (simp add: run_inv_def init_run_def)

lemma reachable_run_inv: "inbox_step\<^sup>*\<^sup>* (init_run new_inbox) r \<Longrightarrow> run_inv r"
  using inbox_runs.run_inv run_inv_init [OF inbox_inv_new] by blast

section \<open>The inbox is an event sink\<close>

definition known_ids :: "inbox \<Rightarrow> string set" where
  "known_ids ib = set (seen ib)"

definition held_ids :: "inbox \<Rightarrow> string set" where
  "held_ids ib = ev_id ` set (terminals (pending ib))"

definition room_of :: "inbox \<Rightarrow> nat" where
  "room_of ib = MAX_SEEN - length (pending ib)"

lemma emit_terminals_cases:
  "terminals (pending (snd (emit e ib)))
     = (if ev_id e \<in> set (seen ib) then terminals (pending ib) else terminals (pending ib @ [cap_body e]))"
  by (cases "emit e ib") (auto simp: terminals_emit emit_def Let_def split: if_splits
       dest: terminals_emit [unfolded emit_def Let_def])

lemma emit_length_pending: "length (pending (snd (emit e ib))) \<le> Suc (length (pending ib))"
  using length_evict_le [of "coalesce_progress (cap_body e) ib"] length_coalesce_le [of "cap_body e" ib]
  by (simp add: emit_def Let_def accept_event_def)

lemma remember_seen_subset: "set (seen (remember i ib)) \<subseteq> insert i (set (seen ib))"
  using evict_oldest_subset [of "ev_id ` set (pending ib)" "jset_add i (seen ib)"]
  by (auto simp: remember_def Let_def)

interpretation inbox_sink: event_sink emit known_ids held_ids room_of inbox_inv
proof
  fix e ib
  show "ev_id e \<in> known_ids ib \<Longrightarrow> emit e ib = (False, ib)"
    by (simp add: known_ids_def emit_def)
  show "ev_id e \<notin> known_ids ib \<Longrightarrow> fst (emit e ib)"
    by (simp add: known_ids_def emit_def Let_def)
  show "inbox_inv ib \<Longrightarrow> room_of ib > 0 \<Longrightarrow> inbox_inv (snd (emit e ib))"
    by (simp add: room_of_def inbox_inv_emit)
  show "room_of ib \<le> Suc (room_of (snd (emit e ib)))"
    using emit_length_pending [of e ib] by (simp add: room_of_def)
  show "inbox_inv ib \<Longrightarrow> held_ids ib \<subseteq> known_ids ib"
    by (auto simp: held_ids_def known_ids_def inbox_inv_def terminals_def)
  show "held_ids ib \<subseteq> held_ids (snd (emit e ib))"
    by (auto simp: held_ids_def emit_terminals_cases) (auto simp: terminals_def)
  show "known_ids (snd (emit e ib)) \<subseteq> insert (ev_id e) (known_ids ib)"
    using remember_seen_subset [of "ev_id e" "evict_progress (coalesce_progress (cap_body e) ib)"]
      evict_seen_subset [of "coalesce_progress (cap_body e) ib"] coalesce_seen_subset [of "cap_body e" ib]
    by (auto simp: known_ids_def emit_def Let_def accept_event_def)
  show "\<not> is_progress e \<Longrightarrow> ev_id e \<notin> known_ids ib \<Longrightarrow> ev_id e \<in> held_ids (snd (emit e ib))"
    by (simp add: held_ids_def known_ids_def emit_terminals_cases) (simp add: terminals_def)
qed

section \<open>Reloading a snapshot\<close>

lemma fold_remember_fresh:
  "distinct (seen ib @ is) \<Longrightarrow> length (seen ib @ is) \<le> MAX_SEEN
     \<Longrightarrow> fold remember is ib = ib\<lparr>seen := seen ib @ is\<rparr>"
proof (induction "is" arbitrary: ib)
  case (Cons i "is")
  then have "remember i ib = ib\<lparr>seen := seen ib @ [i]\<rparr>"
    by (simp add: remember_def Let_def jset_add_def)
  with Cons.IH [of "ib\<lparr>seen := seen ib @ [i]\<rparr>"] Cons.prems show ?case by simp
qed simp

lemma preload_new:
  assumes "distinct (snap_seen s)" "length (snap_seen s) \<le> MAX_SEEN"
  shows "preload s new_inbox = new_inbox\<lparr>seen := snap_seen s, pending := snap_pending s\<rparr>"
  using assms fold_remember_fresh [of new_inbox "snap_seen s"] by (simp add: preload_def new_inbox_def)

lemma restore_new:
  assumes "distinct (snap_seen s)" "length (snap_seen s) \<le> MAX_SEEN"
  shows "restore s = new_inbox\<lparr>seen := snap_seen s, pending := snap_pending s\<rparr>"
  using assms fold_remember_fresh [of "new_inbox\<lparr>pending := snap_pending s\<rparr>" "snap_seen s"]
  by (simp add: restore_def new_inbox_def)

lemma inbox_inv_same_queue:
  "inbox_inv ib \<Longrightarrow> seen ib' = seen ib \<Longrightarrow> pending ib' = pending ib \<Longrightarrow> inbox_inv ib'"
  by (simp add: inbox_inv_def)

section \<open>Properties\<close>

definition sample_event :: "string \<Rightarrow> event_kind \<Rightarrow> agent_event" where
  "sample_event i k = \<lparr>ev_id = i, ev_source = ''bg1'', ev_sourceType = ShellSource, ev_kind = k,
     ev_label = ''make'', ev_body = ''ok'', ev_detailPath = None, ev_ts = 0, ev_correlationId = None\<rparr>"

lemma sample_event_simps [simp]:
  "ev_id (sample_event i k) = i" "ev_kind (sample_event i k) = k" "ev_source (sample_event i k) = ''bg1''"
  "ev_body (sample_event i k) = ''ok''" "ev_detailPath (sample_event i k) = None"
  "is_progress (sample_event i k) = (k = Progress)"
  by (simp_all add: sample_event_def is_progress_def)

lemma cap_sample [simp]: "cap_body (sample_event i k) = sample_event i k"
  by (simp add: cap_body_def MAX_BODY_CHARS_def)

text \<open>An id is forgotten only with the pending progress event that carries it; the filter evicts nothing while it has room.\<close>

lemma forget_keeps:
  "i < length (pending ib) \<Longrightarrow> set (seen ib) - ev_id ` set (pending ib) \<subseteq> set (seen (forget_at i ib))"
  by (auto simp: jset_del_def)

lemma coalesce_keeps: "set (seen ib) - ev_id ` set (pending ib) \<subseteq> set (seen (coalesce_progress e ib))"
  using forget_keeps [of _ ib] by (force simp: coalesce_progress_def split: option.splits dest: find_index_Some)

lemma evict_keeps: "set (seen ib) - ev_id ` set (pending ib) \<subseteq> set (seen (evict_progress ib))"
  using forget_keeps [of _ ib] by (force simp: evict_progress_def split: option.splits dest: find_index_Some)

lemma length_seen_le:
  "length (seen (coalesce_progress e ib)) \<le> length (seen ib)" "length (seen (evict_progress ib)) \<le> length (seen ib)"
  by (auto simp: coalesce_progress_def evict_progress_def jset_del_def split: option.splits)

definition once_inv :: "inbox_run \<Rightarrow> bool" where
  "once_inv r \<longleftrightarrow>
     (length (accepted r) \<le> MAX_SEEN \<longrightarrow>
        distinct (map ev_id (delivered r @ pending (box r))) \<and> ev_id ` set (delivered r) \<subseteq> set (seen (box r)) \<and>
        length (seen (box r)) \<le> length (accepted r))"

lemma once_inv_emits:
  assumes inv: "inbox_inv (box r)" "once_inv r" and room: "length (pending (box r)) < MAX_SEEN" and e: "emit e (box r) = (True, ib)"
  shows "once_inv (r\<lparr>box := ib, accepted := accepted r @ [cap_body e]\<rparr>)"
proof -
  let ?ib1 = "coalesce_progress (cap_body e) (box r)"
  let ?ib2 = "evict_progress ?ib1"
  have new: "ev_id e \<notin> set (seen (box r))" and ib: "ib = accept_event (cap_body e) (remember (ev_id e) ?ib2)"
    using e by (auto simp: emit_def Let_def split: if_splits)
  have inv2: "inbox_inv ?ib2" using inv(1) by (intro inbox_inv_evict inbox_inv_coalesce)
  have new2: "ev_id e \<notin> set (seen ?ib2)" using new evict_seen_subset [of ?ib1] coalesce_seen_subset [of "cap_body e" "box r"] by auto
  have sub: "set (pending ?ib2) \<subseteq> set (pending (box r))"
    using evict_pending_sub [of ?ib1] coalesce_pending_sub [of "cap_body e" "box r"] by blast
  have goal: "distinct (map ev_id (delivered r @ pending ib))" "ev_id ` set (delivered r) \<subseteq> set (seen ib)" "length (seen ib) \<le> Suc (length (accepted r))"
    if few: "Suc (length (accepted r)) \<le> MAX_SEEN"
  proof -
    have old: "distinct (map ev_id (delivered r @ pending (box r)))" "ev_id ` set (delivered r) \<subseteq> set (seen (box r))"
      "length (seen (box r)) \<le> length (accepted r)" using inv(2) few by (auto simp: once_inv_def)
    have apart: "ev_id ` set (delivered r) \<inter> ev_id ` set (pending (box r)) = {}" using old(1) by auto
    then have "ev_id ` set (delivered r) \<subseteq> set (seen ?ib1) - ev_id ` set (pending ?ib1)"
      using old(2) coalesce_keeps [of "box r" "cap_body e"] coalesce_pending_sub [of "cap_body e" "box r"] by blast
    then have kept: "ev_id ` set (delivered r) \<subseteq> set (seen ?ib2)" using evict_keeps [of ?ib1] by blast
    have len: "length (seen ?ib2) \<le> length (accepted r)"
      using old(3) length_seen_le(2) [of ?ib1] length_seen_le(1) [of "cap_body e" "box r"] by linarith
    then have seen: "seen ib = seen ?ib2 @ [ev_id e]"
      using few new2 by (simp add: ib accept_event_def remember_def jset_add_def)
    show "ev_id ` set (delivered r) \<subseteq> set (seen ib)" "length (seen ib) \<le> Suc (length (accepted r))" using kept len by (auto simp: seen)
    have "distinct (map ev_id (pending ?ib2))" "ev_id ` set (pending ?ib2) \<subseteq> set (seen ?ib2)" using inv2 by (simp_all add: inbox_inv_def)
    then show "distinct (map ev_id (delivered r @ pending ib))"
      using old(1) apart sub kept new2 by (auto simp: ib accept_event_def)
  qed
  then show ?thesis by (simp add: once_inv_def)
qed

lemma once_inv_step: "inbox_step r r' \<Longrightarrow> run_inv r \<Longrightarrow> once_inv r \<Longrightarrow> once_inv r'"
proof (induction rule: inbox_step.induct)
  case (emits r e ib)
  then show ?case using once_inv_emits by (simp add: run_inv_def)
next
  case (rejects e r ib)
  then show ?case by (auto simp: emit_def Let_def once_inv_def split: if_splits)
next
  case (drains r out ib)
  then have "ev_id ` set (pending (box r)) \<subseteq> set (seen (box r))" by (simp add: run_inv_def inbox_inv_def)
  with drains show ?case by (auto simp: drain_def Let_def once_inv_def split: if_splits)
qed

lemma reachable_once_inv: "inbox_step\<^sup>*\<^sup>* (init_run new_inbox) r \<Longrightarrow> once_inv r"
proof (induction rule: rtranclp_induct)
  case base
  then show ?case by (simp add: once_inv_def init_run_def new_inbox_def)
next
  case (step r s)
  then show ?case using once_inv_step reachable_run_inv by blast
qed

text \<open>
  C23 emit_idempotent.  The idempotency contract of \<open>EventInbox\<close>, along any run of emits and drains that has accepted at most
  \<open>MAX_SEEN\<close> events: no id is handed to the loop, or waits for it, twice; and an event whose id was handed to the loop or still
  waits is rejected, whatever else it says, and changes nothing.  (A progress event that a newer one of its source replaced was
  neither, and its id is free again.)
\<close>

theorem emit_idempotent:
  assumes "inbox_step\<^sup>*\<^sup>* (init_run new_inbox) r" "length (accepted r) \<le> MAX_SEEN"
  shows "distinct (map ev_id (delivered r @ pending (box r))) \<and>
    (\<forall>e. ev_id e \<in> ev_id ` set (delivered r @ pending (box r)) \<longrightarrow> emit e (box r) = (False, box r))"
proof -
  have "ev_id ` set (pending (box r)) \<subseteq> set (seen (box r))"
    using reachable_run_inv [OF assms(1)] by (simp add: run_inv_def inbox_inv_def)
  moreover have "distinct (map ev_id (delivered r @ pending (box r)))" "ev_id ` set (delivered r) \<subseteq> set (seen (box r))"
    using reachable_once_inv [OF assms(1)] assms(2) by (auto simp: once_inv_def)
  ultimately show ?thesis unfolding emit_def by auto
qed

text \<open>An event is taken, handed to the loop, and then comes again.\<close>

lemma handed_over:
  "inbox_step\<^sup>*\<^sup>* (init_run new_inbox)
     ((init_run new_inbox)\<lparr>box := snd (drain (snd (emit (sample_event ''a'' Complete) new_inbox))),
        accepted := [sample_event ''a'' Complete], delivered := [sample_event ''a'' Complete]\<rparr>)"
proof -
  let ?ib = "snd (emit (sample_event ''a'' Complete) new_inbox)"
  let ?r = "(init_run new_inbox)\<lparr>box := ?ib, accepted := [sample_event ''a'' Complete]\<rparr>"
  have e: "emit (sample_event ''a'' Complete) (box (init_run new_inbox)) = (True, ?ib)"
    by (simp add: init_run_def emit_def new_inbox_def Let_def)
  have "inbox_step (init_run new_inbox) ?r"
    using emits [OF _ e] by (simp add: init_run_def new_inbox_def MAX_SEEN_def)
  moreover have "drain (box ?r) = ([sample_event ''a'' Complete], snd (drain ?ib))"
    by (simp add: drain_def Let_def emit_def new_inbox_def accept_event_def coalesce_progress_def evict_progress_def)
  from drains [OF this] have "inbox_step ?r (?r\<lparr>box := snd (drain ?ib), delivered := [sample_event ''a'' Complete]\<rparr>)"
    by (simp add: init_run_def)
  ultimately have "inbox_step\<^sup>*\<^sup>* (init_run new_inbox) (?r\<lparr>box := snd (drain ?ib), delivered := [sample_event ''a'' Complete]\<rparr>)"
    by (meson rtranclp.rtrancl_into_rtrancl rtranclp.rtrancl_refl)
  then show ?thesis by (simp add: init_run_def)
qed

theorem emit_idempotent_witness:
  "\<not> fst (emit (sample_event ''a'' Progress) (snd (drain (snd (emit (sample_event ''a'' Complete) new_inbox)))))"
  using conjunct2 [OF emit_idempotent [OF handed_over]] by (simp add: MAX_SEEN_def)

text \<open>
  Every inbox reachable from a new one by emits (while fewer than \<open>MAX_SEEN\<close> events
  are undelivered) and drains has unique pending ids, all of them in the idempotency filter, a filter of at most
  \<open>MAX_SEEN\<close> ids, at most one pending progress event per source and at most \<open>MAX_PENDING\<close> of them.
\<close>

theorem inbox_reachable:
  assumes "inbox_step\<^sup>*\<^sup>* (init_run new_inbox) r"
  shows "inbox_inv (box r)"
  using reachable_run_inv [OF assms] by (simp add: run_inv_def)

lemma sample_run:
  "inbox_step\<^sup>*\<^sup>* (init_run new_inbox)
     ((init_run new_inbox)\<lparr>box := snd (emit (sample_event ''a'' Complete) new_inbox),
                            accepted := [sample_event ''a'' Complete]\<rparr>)"
proof (rule r_into_rtranclp)
  have "fst (emit (sample_event ''a'' Complete) new_inbox)"
    by (simp add: emit_def new_inbox_def Let_def)
  then have "emit (sample_event ''a'' Complete) (box (init_run new_inbox))
      = (True, snd (emit (sample_event ''a'' Complete) new_inbox))"
    by (simp add: init_run_def prod_eq_iff)
  from emits [OF _ this] show "inbox_step (init_run new_inbox)
     ((init_run new_inbox)\<lparr>box := snd (emit (sample_event ''a'' Complete) new_inbox),
                            accepted := [sample_event ''a'' Complete]\<rparr>)"
    by (simp add: init_run_def new_inbox_def MAX_SEEN_def)
qed

theorem inbox_reachable_witness: "inbox_inv (snd (emit (sample_event ''a'' Complete) new_inbox))"
  using inbox_reachable [OF sample_run] by simp

text \<open>
  Terminal events (complete, error, mail) are never dropped, duplicated or reordered:
  along any run, what the loop was handed followed by what is still pending is, progress apart, exactly
  the sequence of accepted terminal events.
\<close>

theorem terminal_delivery:
  assumes "inbox_step\<^sup>*\<^sup>* (init_run new_inbox) r"
  shows "terminals (delivered r) @ terminals (pending (box r)) = terminals (accepted r)"
  using reachable_run_inv [OF assms] by (simp add: run_inv_def terminals_def)

theorem terminal_delivery_witness:
  "terminals (pending (snd (emit (sample_event ''a'' Complete) new_inbox))) = [sample_event ''a'' Complete]"
  using terminal_delivery [OF sample_run] by (simp add: init_run_def terminals_def)

text \<open>
  A snapshot reloads to the same queue and the same filter, by the static
  \<open>restore\<close> and by \<open>preload\<close> into a new inbox alike, so what was undelivered is delivered once after a
  restart and what was delivered stays deduplicated.
\<close>

theorem snapshot_roundtrip:
  assumes "inbox_inv ib"
  shows "snapshot (restore (snapshot ib)) = snapshot ib \<and> snapshot (preload (snapshot ib) new_inbox) = snapshot ib"
  using assms by (simp add: inbox_inv_def restore_new preload_new snapshot_def)

theorem snapshot_roundtrip_witness:
  "snapshot (restore (snapshot (snd (emit (sample_event ''a'' Complete) new_inbox))))
     = snapshot (snd (emit (sample_event ''a'' Complete) new_inbox))"
  using snapshot_roundtrip [OF inbox_inv_emit [OF inbox_inv_new, of "sample_event ''a'' Complete"]]
  by (simp add: new_inbox_def MAX_SEEN_def)

section \<open>The boundary of the filter\<close>

text \<open>
  \<open>remember\<close> runs before the event is pushed, so the new id is not among the pending ids it protects: once
  every remembered id is still pending, the id evicted is the new one, and a second emit is accepted.
\<close>

lemma remember_full:
  assumes "set (seen ib) \<subseteq> ev_id ` set (pending ib)" "length (seen ib) = MAX_SEEN" "i \<notin> set (seen ib)"
    "i \<notin> ev_id ` set (pending ib)"
  shows "seen (remember i ib) = seen ib"
  using assms by (simp add: remember_def Let_def jset_add_def evict_oldest_append)

lemma evict_progress_terminal: "(\<forall>e \<in> set (pending ib). \<not> is_progress e) \<Longrightarrow> evict_progress ib = ib"
  using find_index_None [of is_progress "pending ib"]
  by (auto simp: evict_progress_def split: option.splits)

text \<open>
  The bound in \<open>emit_idempotent\<close> is needed: when the filter is full and all of its ids are
  undelivered terminal events, a new terminal event is accepted and, emitted again, is accepted
  a second time.
\<close>

theorem filter_boundary:
  assumes "\<forall>e \<in> set (pending ib). \<not> is_progress e" "set (seen ib) = ev_id ` set (pending ib)"
    "length (seen ib) = MAX_SEEN" "\<not> is_progress e" "ev_id e \<notin> set (seen ib)"
  shows "fst (emit e ib) \<and> fst (emit e (snd (emit e ib)))"
proof -
  have "seen (snd (emit e ib)) = seen ib"
    using assms by (simp add: emit_def Let_def coalesce_progress_def accept_event_def
        evict_progress_terminal remember_full)
  with assms(5) show ?thesis by (simp add: emit_def Let_def)
qed

definition full_inbox :: inbox where
  "full_inbox = new_inbox\<lparr>pending := map (\<lambda>n. sample_event (nat_str n) Complete) [0..<MAX_SEEN],
                          seen := map nat_str [0..<MAX_SEEN]\<rparr>"

theorem filter_boundary_witness:
  "fst (emit (sample_event (nat_str MAX_SEEN) Complete)
     (snd (emit (sample_event (nat_str MAX_SEEN) Complete) full_inbox)))"
  by (rule filter_boundary [THEN conjunct2])
    (auto simp: full_inbox_def new_inbox_def image_image simp del: upt_Suc)

end
