(* ===== verification/Persist.thy ===== *)
theory Persist
  imports Inbox
begin

text \<open>
  \<open>events/persist.ts\<close>: what \<open>restoreInbox\<close> does to the inbox from the file of a previous run.  The file,
  the process table and the output files are an environment: whether the file is missing, torn
  or a document (\<open>JSON.parse\<close> is the standard library's), which pids are alive, which live monitor
  the caller adopts, what the output files hold.  The debounced writer (\<open>persistInbox\<close>) is a small
  state of the timer and the file.
\<close>

section \<open>The document\<close>

record live_work_ref =
  lw_id :: string
  lw_kind :: source_type
  lw_label :: string
  lw_pid :: "int option"
  lw_outFile :: "string option"
  lw_filePos :: "int option"
  lw_startedAt :: "int option"
  lw_timeoutAt :: "int option"

record persisted_events =
  pe_inbox :: inbox_snapshot
  pe_live :: "live_work_ref list"

datatype saved_file = NoFile | TornFile | Saved persisted_events

definition SAVE_DEBOUNCE_MS :: nat where "SAVE_DEBOUNCE_MS = 300"

record restore_env =
  env_alive :: "int \<Rightarrow> bool"
  env_adopt :: "live_work_ref \<Rightarrow> bool"
  env_output :: "string \<Rightarrow> string option"
  env_host :: string
  env_now :: int

text \<open>\<open>s.slice(Math.max(0, pos)).slice(-2000).trimEnd()\<close>.\<close>

definition output_tail :: "int option \<Rightarrow> string \<Rightarrow> string" where
  "output_tail pos s =
     (let rest = drop (nat (max 0 (case pos of None \<Rightarrow> 0 | Some p \<Rightarrow> p))) s
      in trimEnd (drop (length rest - 2000) rest))"

fun kind_name :: "source_type \<Rightarrow> string" where
  "kind_name ShellSource = ''shell''"
| "kind_name AgentSource = ''agent''"
| "kind_name MonitorSource = ''monitor''"
| "kind_name PeerSource = ''peer''"

definition ref_title :: "live_work_ref \<Rightarrow> string" where
  "ref_title r = lw_id r @ '' ('' @ kind_name (lw_kind r) @ '' '' @ [dquote] @ commandLabel (lw_label r) 64 @ [dquote] @ '')''"

definition offline_end :: "restore_env \<Rightarrow> live_work_ref \<Rightarrow> string \<Rightarrow> agent_event" where
  "offline_end env r outFile =
     (let tl = (case env_output env outFile of None \<Rightarrow> [] | Some s \<Rightarrow> output_tail (lw_filePos r) s)
      in \<lparr>ev_id = lw_id r @ ''#offline-end'', ev_source = lw_id r, ev_sourceType = lw_kind r, ev_kind = Complete,
          ev_label = lw_label r,
          ev_body = ref_title r @ '' finished while '' @ env_host env @ '' was not running (exit status unknown).''
             @ (if tl \<noteq> [] then '' Output after the last delivered point:'' @ [nl] @ tl else '' (no further output.)''),
          ev_detailPath = None, ev_ts = env_now env, ev_correlationId = None\<rparr>)"

definition interrupted :: "restore_env \<Rightarrow> live_work_ref \<Rightarrow> agent_event" where
  "interrupted env r =
     \<lparr>ev_id = lw_id r @ ''#interrupted'', ev_source = lw_id r, ev_sourceType = lw_kind r, ev_kind = ErrorEvent,
      ev_label = lw_label r,
      ev_body = ref_title r @ '' was still running when the previous '' @ env_host env
         @ '' process exited, and did not survive the restart. Start it again if it'' @ [squote] @ ''s still needed.'',
      ev_detailPath = None, ev_ts = env_now env, ev_correlationId = None\<rparr>"

section \<open>Restoring\<close>

text \<open>What one roster entry becomes: an adoption (no event), or one event and the file to remove.\<close>

definition roster_event :: "restore_env \<Rightarrow> live_work_ref \<Rightarrow> (agent_event \<times> string option) option" where
  "roster_event env r =
     (case (lw_pid r, lw_outFile r) of
        (Some pid, Some outFile) \<Rightarrow>
          (if env_alive env pid \<and> env_adopt env r then None else Some (offline_end env r outFile, Some outFile))
      | _ \<Rightarrow> Some (interrupted env r, None))"

record restored =
  rs_box :: inbox
  rs_count :: nat
  rs_unlinked :: "string list"

definition restore_ref :: "restore_env \<Rightarrow> live_work_ref \<Rightarrow> restored \<Rightarrow> restored" where
  "restore_ref env r st =
     (case roster_event env r of
        None \<Rightarrow> st
      | Some (e, file) \<Rightarrow>
          (let (accepted, ib) = emit e (rs_box st)
           in st\<lparr>rs_box := ib,
                 rs_count := (if accepted then rs_count st + 1 else rs_count st),
                 rs_unlinked := rs_unlinked st @ (case file of None \<Rightarrow> [] | Some f \<Rightarrow> [f])\<rparr>))"

definition restoreInbox :: "restore_env \<Rightarrow> string \<Rightarrow> saved_file \<Rightarrow> inbox \<Rightarrow> restored" where
  "restoreInbox env path f ib =
     (case f of
        NoFile \<Rightarrow> \<lparr>rs_box = ib, rs_count = 0, rs_unlinked = []\<rparr>
      | TornFile \<Rightarrow> \<lparr>rs_box = ib, rs_count = 0, rs_unlinked = [path]\<rparr>
      | Saved doc \<Rightarrow>
          fold (restore_ref env) (pe_live doc)
            \<lparr>rs_box = preload (pe_inbox doc) ib, rs_count = length (snap_pending (pe_inbox doc)), rs_unlinked = []\<rparr>)"

section \<open>The debounced writer\<close>

record persister =
  ps_timer :: bool
  ps_writing :: nat
  ps_file :: saved_file

definition on_mutate :: "persister \<Rightarrow> persister" where
  "on_mutate p = (if ps_timer p then p else p\<lparr>ps_timer := True\<rparr>)"

definition timer_fires :: "persister \<Rightarrow> persister" where
  "timer_fires p = (if ps_timer p then p\<lparr>ps_timer := False, ps_writing := ps_writing p + 1\<rparr> else p)"

definition flush_persister :: "persister \<Rightarrow> persister" where
  "flush_persister p = p\<lparr>ps_timer := False, ps_writing := ps_writing p + 1\<rparr>"

text \<open>A queued write runs, reading the inbox and the roster at that moment.\<close>

definition write_runs :: "inbox \<Rightarrow> live_work_ref list \<Rightarrow> persister \<Rightarrow> persister" where
  "write_runs ib live p =
     (if ps_writing p > 0 then
        p\<lparr>ps_writing := ps_writing p - 1, ps_file := Saved \<lparr>pe_inbox = snapshot ib, pe_live = live\<rparr>\<rparr>
      else p)"

section \<open>Restoring as a batch of events\<close>

definition roster_events :: "restore_env \<Rightarrow> live_work_ref list \<Rightarrow> agent_event list" where
  "roster_events env rs = map fst (List.map_filter (roster_event env) rs)"

lemma roster_events_simps [simp]:
  "roster_events env [] = []"
  "roster_events env (r # rs) =
     (case roster_event env r of None \<Rightarrow> roster_events env rs | Some (e, f) \<Rightarrow> e # roster_events env rs)"
  by (simp_all add: roster_events_def List.map_filter_simps split: option.splits)

lemma roster_event_kind: "roster_event env r = Some (e, f) \<Longrightarrow> \<not> is_progress e"
  by (auto simp: roster_event_def offline_end_def interrupted_def is_progress_def Let_def
      split: option.splits if_splits)

lemma roster_event_id:
  "roster_event env r = Some (e, f) \<Longrightarrow>
     ev_id e = lw_id r @ (if lw_pid r = None \<or> lw_outFile r = None then ''#interrupted'' else ''#offline-end'')"
  by (auto simp: roster_event_def offline_end_def interrupted_def Let_def split: option.splits if_splits)

lemma roster_events_terminal: "\<forall>e \<in> set (roster_events env rs). \<not> is_progress e"
  by (induction rs) (auto split: option.splits dest: roster_event_kind)

lemma suffixes_differ: "xs @ ''#interrupted'' \<noteq> ys @ ''#offline-end''"
proof
  assume "xs @ ''#interrupted'' = ys @ ''#offline-end''"
  then have "rev (xs @ ''#interrupted'') = rev (ys @ ''#offline-end'')" by (rule arg_cong)
  then show False by simp
qed

lemma roster_event_id_inj:
  assumes "roster_event env r = Some (e, f)" "roster_event env r' = Some (e', f')" "ev_id e = ev_id e'"
  shows "lw_id r = lw_id r'"
  using roster_event_id [OF assms(1)] roster_event_id [OF assms(2)] assms(3) suffixes_differ
    suffixes_differ [symmetric]
  by (auto split: if_splits)

lemma roster_events_origin:
  "e \<in> set (roster_events env rs) \<Longrightarrow> \<exists>r \<in> set rs. \<exists>f. roster_event env r = Some (e, f)"
  by (induction rs) (auto split: option.splits)

lemma distinct_roster_events:
  "distinct (map lw_id rs) \<Longrightarrow> distinct (map ev_id (roster_events env rs))"
proof (induction rs)
  case (Cons r rs)
  have "ev_id e \<notin> ev_id ` set (roster_events env rs)" if "roster_event env r = Some (e, f)" for e f
  proof
    assume "ev_id e \<in> ev_id ` set (roster_events env rs)"
    then obtain d where d: "d \<in> set (roster_events env rs)" "ev_id e = ev_id d" by blast
    then obtain r' f' where r': "r' \<in> set rs" "roster_event env r' = Some (d, f')"
      using roster_events_origin by blast
    have "lw_id r = lw_id r'" by (rule roster_event_id_inj [OF that r'(2) d(2)])
    with r'(1) Cons.prems show False by simp
  qed
  with Cons show ?case by (auto split: option.splits)
qed simp

lemma length_roster_events: "length (roster_events env rs) \<le> length rs"
  by (induction rs) (auto split: option.splits)

text \<open>Ids and addresses do not depend on the clock or on what the output files hold.\<close>

lemma roster_events_ids:
  assumes "env_alive env' = env_alive env" "env_adopt env' = env_adopt env"
  shows "map ev_id (roster_events env' rs) = map ev_id (roster_events env rs)"
  using assms
  by (induction rs)
    (auto simp: roster_event_def offline_end_def interrupted_def Let_def split: option.splits)

lemma fold_restore_ref_box:
  "rs_box (fold (restore_ref env) rs st) = inbox_sink.put_all (roster_events env rs) (rs_box st)"
proof (induction rs arbitrary: st)
  case (Cons r rs)
  then show ?case
    by (auto simp: restore_ref_def Let_def split: option.splits prod.splits)
qed simp

lemma fresh_after:
  "S' \<subseteq> insert (ev_id e) S \<Longrightarrow> ev_id e \<notin> ev_id ` D \<Longrightarrow> \<forall>d \<in> D. ev_id d \<notin> S \<Longrightarrow> \<forall>d \<in> D. ev_id d \<notin> S'"
  by (metis image_eqI insertE subsetD)

lemma put_all_fresh:
  "distinct (map ev_id es) \<Longrightarrow> \<forall>e \<in> set es. \<not> is_progress e \<and> ev_id e \<notin> set (seen ib)
     \<Longrightarrow> terminals (pending (inbox_sink.put_all es ib)) = terminals (pending ib) @ map cap_body es"
proof (induction es arbitrary: ib)
  case (Cons e es)
  have "set (seen (snd (emit e ib))) \<subseteq> insert (ev_id e) (set (seen ib))"
    using inbox_sink.known_grows [of e ib] by (simp add: known_ids_def)
  with Cons have "terminals (pending (inbox_sink.put_all es (snd (emit e ib))))
      = terminals (pending (snd (emit e ib))) @ map cap_body es"
    by (intro Cons.IH) (use Cons.prems fresh_after [of _ e _ "set es"] in auto)
  with Cons.prems show ?case
    by (auto simp: emit_terminals_cases) (auto simp: terminals_def)
qed (simp add: terminals_def)

lemma fold_restore_ref_count:
  "distinct (map lw_id rs) \<Longrightarrow> \<forall>e \<in> set (roster_events env rs). ev_id e \<notin> set (seen (rs_box st))
     \<Longrightarrow> rs_count (fold (restore_ref env) rs st) = rs_count st + length (roster_events env rs)"
proof (induction rs arbitrary: st)
  case (Cons r rs)
  show ?case
  proof (cases "roster_event env r")
    case None
    with Cons show ?thesis by (simp add: restore_ref_def)
  next
    case (Some p)
    then obtain e f where p: "roster_event env r = Some (e, f)" by (cases p) auto
    let ?st = "restore_ref env r st"
    from Cons.prems p have new: "ev_id e \<notin> set (seen (rs_box st))" by simp
    then have acc: "fst (emit e (rs_box st))" by (simp add: emit_def Let_def)
    have box: "rs_box ?st = snd (emit e (rs_box st))"
      using p by (simp add: restore_ref_def split: prod.splits)
    have "distinct (map ev_id (e # roster_events env rs))"
      using distinct_roster_events [OF Cons.prems(1), of env] p by simp
    moreover have "set (seen (rs_box ?st)) \<subseteq> insert (ev_id e) (set (seen (rs_box st)))"
      using inbox_sink.known_grows [of e "rs_box st"] by (simp add: known_ids_def box)
    ultimately have "\<forall>d \<in> set (roster_events env rs). ev_id d \<notin> set (seen (rs_box ?st))"
      using Cons.prems p
      by (intro fresh_after [of "set (seen (rs_box ?st))" e "set (seen (rs_box st))"]) auto
    then have "rs_count (fold (restore_ref env) rs ?st) = rs_count ?st + length (roster_events env rs)"
      using Cons by simp
    moreover have "rs_count ?st = rs_count st + 1"
      using p acc by (cases "emit e (rs_box st)") (simp add: restore_ref_def)
    ultimately show ?thesis using p by simp
  qed
qed simp

section \<open>Properties\<close>

definition saved_ok :: "restore_env \<Rightarrow> persisted_events \<Rightarrow> bool" where
  "saved_ok env doc \<longleftrightarrow>
     inbox_inv (restore (pe_inbox doc)) \<and>
     distinct (snap_seen (pe_inbox doc)) \<and> length (snap_seen (pe_inbox doc)) \<le> MAX_SEEN \<and>
     distinct (map lw_id (pe_live doc)) \<and>
     length (snap_pending (pe_inbox doc)) + length (pe_live doc) \<le> MAX_SEEN \<and>
     (\<forall>e \<in> set (roster_events env (pe_live doc)). ev_id e \<notin> set (snap_seen (pe_inbox doc)))"

abbreviation restored_box :: "restore_env \<Rightarrow> persisted_events \<Rightarrow> inbox" where
  "restored_box env doc \<equiv> rs_box (restoreInbox env ''s.events.json'' (Saved doc) new_inbox)"

lemma restored_box_put_all:
  assumes "saved_ok env doc"
  shows "restored_box env doc = inbox_sink.put_all (roster_events env (pe_live doc)) (restore (pe_inbox doc))"
  using assms by (simp add: saved_ok_def restoreInbox_def fold_restore_ref_box preload_new restore_new)

lemma restored_box_good:
  assumes ok: "saved_ok env doc"
  shows "inbox_inv (restored_box env doc)
    \<and> (\<forall>e \<in> set (roster_events env (pe_live doc)). ev_id e \<in> set (seen (restored_box env doc)))"
proof -
  let ?es = "roster_events env (pe_live doc)" and ?q = "restore (pe_inbox doc)"
  have 1: "inbox_inv ?q" "length ?es \<le> room_of ?q"
    using ok length_roster_events [of env "pe_live doc"]
    by (auto simp: saved_ok_def room_of_def restore_new)
  have 2: "\<forall>e \<in> set ?es. \<not> is_progress e \<and> ev_id e \<notin> known_ids ?q"
    using ok roster_events_terminal [of env "pe_live doc"]
    by (auto simp: saved_ok_def known_ids_def restore_new)
  show ?thesis
    using inbox_sink.good_put_all [OF 1] inbox_sink.known_after_put_all [OF 1 2]
    by (simp add: restored_box_put_all [OF ok] known_ids_def)
qed

text \<open>
  Restoring a saved document into a new inbox reports every roster entry that was not
  adopted: the undelivered events come back in their order, followed by exactly one event for each such
  entry, and the count returned is the number of both.
\<close>

theorem restore_reports:
  assumes "saved_ok env doc"
  shows "terminals (pending (restored_box env doc))
           = terminals (snap_pending (pe_inbox doc)) @ map cap_body (roster_events env (pe_live doc))
         \<and> rs_count (restoreInbox env ''s.events.json'' (Saved doc) new_inbox)
           = length (snap_pending (pe_inbox doc)) + length (roster_events env (pe_live doc))"
proof
  let ?es = "roster_events env (pe_live doc)" and ?q = "restore (pe_inbox doc)"
  have "\<forall>e \<in> set ?es. \<not> is_progress e \<and> ev_id e \<notin> set (seen ?q)"
    using assms roster_events_terminal [of env "pe_live doc"] by (auto simp: saved_ok_def restore_new)
  then show "terminals (pending (restored_box env doc)) = terminals (snap_pending (pe_inbox doc)) @ map cap_body ?es"
    using assms put_all_fresh [of ?es ?q] distinct_roster_events [of "pe_live doc" env]
    by (simp add: restored_box_put_all) (simp add: saved_ok_def restore_new)
  show "rs_count (restoreInbox env ''s.events.json'' (Saved doc) new_inbox)
           = length (snap_pending (pe_inbox doc)) + length ?es"
    using assms by (simp add: saved_ok_def restoreInbox_def fold_restore_ref_count preload_new)
qed

definition sample_ref :: live_work_ref where
  "sample_ref = \<lparr>lw_id = ''bg1'', lw_kind = ShellSource, lw_label = ''make'', lw_pid = None, lw_outFile = None,
     lw_filePos = None, lw_startedAt = None, lw_timeoutAt = None\<rparr>"

definition sample_doc :: persisted_events where
  "sample_doc = \<lparr>pe_inbox = \<lparr>snap_pending = [sample_event ''a'' Complete], snap_seen = [''a'']\<rparr>, pe_live = [sample_ref]\<rparr>"

definition sample_env :: restore_env where
  "sample_env = \<lparr>env_alive = (\<lambda>_. False), env_adopt = (\<lambda>_. False), env_output = (\<lambda>_. None), env_host = ''mlpal'', env_now = 5\<rparr>"

lemma saved_ok_sample: "saved_ok sample_env sample_doc"
  by (simp add: saved_ok_def sample_doc_def restore_new inbox_inv_def progress_sources_def new_inbox_def
      MAX_SEEN_def MAX_PENDING_def roster_event_def sample_ref_def interrupted_def)

theorem restore_reports_witness:
  "rs_count (restoreInbox sample_env ''s.events.json'' (Saved sample_doc) new_inbox) = 2"
  using restore_reports [OF saved_ok_sample]
  by (simp add: sample_doc_def roster_event_def sample_ref_def)

text \<open>
  A crash right after a restore, before the roster is rewritten, loses and repeats
  nothing: restoring the saved result with the same roster (whatever the clock and the output files
  now hold, as long as the same monitors are adopted) gives the same queue and filter.
\<close>

theorem restore_idempotent:
  assumes "saved_ok env doc" "env_alive env' = env_alive env" "env_adopt env' = env_adopt env"
  shows "snapshot (restored_box env' \<lparr>pe_inbox = snapshot (restored_box env doc), pe_live = pe_live doc\<rparr>)
           = snapshot (restored_box env doc)"
proof -
  let ?q = "restored_box env doc"
  from restored_box_good [OF assms(1)] have q: "inbox_inv ?q"
    "\<forall>e \<in> set (roster_events env (pe_live doc)). ev_id e \<in> set (seen ?q)" by simp_all
  have p: "preload (snapshot ?q) new_inbox = new_inbox\<lparr>seen := seen ?q, pending := pending ?q\<rparr>"
    using q(1) by (simp add: preload_new snapshot_def inbox_inv_def)
  have "ev_id ` set (roster_events env' (pe_live doc)) = ev_id ` set (roster_events env (pe_live doc))"
    using roster_events_ids [OF assms(2,3), of "pe_live doc"] by (metis list.set_map)
  with q(2) have "ev_id ` set (roster_events env' (pe_live doc)) \<subseteq> set (seen ?q)"
    by (simp only: image_subset_iff)
  then have "\<forall>e \<in> set (roster_events env' (pe_live doc)). ev_id e \<in> set (seen ?q)"
    by (simp only: image_subset_iff)
  then have "inbox_sink.put_all (roster_events env' (pe_live doc)) (preload (snapshot ?q) new_inbox)
      = preload (snapshot ?q) new_inbox"
    by (intro inbox_sink.put_all_known) (simp add: known_ids_def p)
  then have "restored_box env' \<lparr>pe_inbox = snapshot ?q, pe_live = pe_live doc\<rparr> = preload (snapshot ?q) new_inbox"
    by (subst restoreInbox_def) (simp add: fold_restore_ref_box)
  then show ?thesis by (simp only: p) (simp add: snapshot_def)
qed

theorem restore_idempotent_witness:
  "snapshot (restored_box sample_env \<lparr>pe_inbox = snapshot (restored_box sample_env sample_doc), pe_live = [sample_ref]\<rparr>)
     = snapshot (restored_box sample_env sample_doc)"
  using restore_idempotent [OF saved_ok_sample refl refl] by (simp add: sample_doc_def)

section \<open>No mutation is left unsaved\<close>

text \<open>
  The inbox and its writer together.  Every accepted emit and every non-empty drain raises \<open>mutations\<close>,
  which is when \<open>onMutate\<close> fires; the timer and the queued write run at any later moment.
\<close>

record saved_inbox =
  si_box :: inbox
  si_writer :: persister

definition after_op :: "inbox \<Rightarrow> saved_inbox \<Rightarrow> saved_inbox" where
  "after_op ib s =
     s\<lparr>si_box := ib, si_writer := (if mutations ib \<noteq> mutations (si_box s) then on_mutate (si_writer s) else si_writer s)\<rparr>"

inductive persist_step :: "saved_inbox \<Rightarrow> saved_inbox \<Rightarrow> bool" where
  p_emit: "persist_step s (after_op (snd (emit e (si_box s))) s)"
| p_drain: "persist_step s (after_op (snd (drain (si_box s))) s)"
| p_timer: "persist_step s (s\<lparr>si_writer := timer_fires (si_writer s)\<rparr>)"
| p_flush: "persist_step s (s\<lparr>si_writer := flush_persister (si_writer s)\<rparr>)"
| p_write: "persist_step s (s\<lparr>si_writer := write_runs (si_box s) live (si_writer s)\<rparr>)"

definition persist_inv :: "saved_inbox \<Rightarrow> bool" where [inv_defs]:
  "persist_inv s \<longleftrightarrow>
     ps_timer (si_writer s) \<or> ps_writing (si_writer s) > 0
     \<or> (\<exists>doc. ps_file (si_writer s) = Saved doc \<and> pe_inbox doc = snapshot (si_box s))"

lemma emit_mutations: "emit e ib = (True, ib') \<Longrightarrow> mutations ib' = Suc (mutations ib)"
  by (auto simp: emit_def Let_def accept_event_def coalesce_progress_def evict_progress_def
      split: if_splits option.splits)

lemma emit_rejected: "emit e ib = (False, ib') \<Longrightarrow> ib' = ib"
  by (auto simp: emit_def Let_def split: if_splits)

lemma drain_mutations: "mutations (snd (drain ib)) = mutations ib \<Longrightarrow> snapshot (snd (drain ib)) = snapshot ib"
  by (auto simp: drain_def Let_def snapshot_def split: if_splits)

lemma after_op_inv:
  assumes "persist_inv s" "mutations ib = mutations (si_box s) \<Longrightarrow> snapshot ib = snapshot (si_box s)"
  shows "persist_inv (after_op ib s)"
  using assms by (auto simp: persist_inv_def after_op_def on_mutate_def)

lemma persist_inv_step: "persist_step s t \<Longrightarrow> persist_inv s \<Longrightarrow> persist_inv t"
proof (induction rule: persist_step.induct)
  case (p_emit s e)
  have "snapshot (snd (emit e (si_box s))) = snapshot (si_box s)"
    if "mutations (snd (emit e (si_box s))) = mutations (si_box s)"
    using that emit_mutations [of e "si_box s"] emit_rejected [of e "si_box s"]
    by (cases "emit e (si_box s)"; cases "fst (emit e (si_box s))") auto
  with p_emit show ?case by (intro after_op_inv)
next
  case (p_drain s)
  then show ?case by (intro after_op_inv drain_mutations)
qed (auto simp: persist_inv_def timer_fires_def flush_persister_def write_runs_def)

interpretation persisted: invariant_system persist_step persist_inv
  by unfold_locales (blast intro: persist_inv_step)

definition fresh_saved :: saved_inbox where
  "fresh_saved = \<lparr>si_box = new_inbox,
     si_writer = \<lparr>ps_timer = False, ps_writing = 0, ps_file = Saved \<lparr>pe_inbox = snapshot new_inbox, pe_live = []\<rparr>\<rparr>\<rparr>"

text \<open>
  However emits, drains, timers, flushes and writes interleave, when no timer is armed and
  no write is queued the file holds the inbox as it is now: the debounce never swallows the last
  mutation.
\<close>

theorem saves_not_lost:
  assumes "persist_step\<^sup>*\<^sup>* fresh_saved s" "\<not> ps_timer (si_writer s)" "ps_writing (si_writer s) = 0"
  shows "\<exists>doc. ps_file (si_writer s) = Saved doc \<and> pe_inbox doc = snapshot (si_box s)"
proof -
  have "persist_inv fresh_saved" by (simp add: persist_inv_def fresh_saved_def)
  with persisted.run_inv [OF assms(1)] assms(2,3) show ?thesis by (simp add: persist_inv_def)
qed

theorem saves_not_lost_witness:
  "\<exists>doc. ps_file (si_writer (after_op new_inbox fresh_saved)) = Saved doc \<and> pe_inbox doc = snapshot new_inbox"
proof -
  have "persist_step\<^sup>*\<^sup>* fresh_saved (after_op (snd (drain (si_box fresh_saved))) fresh_saved)"
    by (rule r_into_rtranclp [of persist_step, OF p_drain])
  from saves_not_lost [OF this] show ?thesis
    by (simp add: fresh_saved_def after_op_def drain_def new_inbox_def snapshot_def)
qed

end
