(* ===== verification/Messages.thy ===== *)
theory Messages
  imports Protocol
begin

text \<open>
  \<open>loop/messages.ts\<close>: rebuilding the message array of a session from its persisted entries.  Rewind
  records are resolved (\<open>effectiveEntries\<close>), replay starts at the last compaction boundary, tool
  results are folded into user turns (\<open>load_step\<close>, \<open>loadMessages\<close>) and every tool call left without a
  result by an interruption is answered (\<open>healInterruptedTools\<close>).
\<close>

section \<open>Rewinds\<close>

definition effective_step :: "conversation_entry list \<Rightarrow> conversation_entry \<Rightarrow> conversation_entry list" where
  "effective_step out e =
     (case ce_payload e of
        RewindEv r \<Rightarrow>
          (case rw_toUuid r of
             None \<Rightarrow> []
           | Some to \<Rightarrow>
               (case find_index (\<lambda>x. ce_uuid x = to) out of
                  None \<Rightarrow> out
                | Some idx \<Rightarrow> take (idx + 1) out))
      | _ \<Rightarrow> out @ [e])"

definition effectiveEntries :: "conversation_entry list \<Rightarrow> conversation_entry list" where
  "effectiveEntries entries = foldl effective_step [] entries"

section \<open>Replay\<close>

definition summaryHeader :: "string \<Rightarrow> string" where
  "summaryHeader summary =
     ''[Summary of earlier conversation]'' @ [nl] @ summary @ [nl] @ ''[End summary '' @ emdash @ '' continuing below]''"

definition is_compact :: "conversation_entry \<Rightarrow> bool" where
  "is_compact e = (case ce_payload e of CompactEv c \<Rightarrow> True | _ \<Rightarrow> False)"

definition compact_messages :: "conversation_entry list \<Rightarrow> message list" where
  "compact_messages entries =
     (case find is_compact (rev entries) of
        None \<Rightarrow> []
      | Some e \<Rightarrow>
          (case ce_payload e of CompactEv c \<Rightarrow> [user_msg (StrContent (summaryHeader (ce_summary c)))] | _ \<Rightarrow> []))"

definition recent_entries :: "conversation_entry list \<Rightarrow> conversation_entry list" where
  "recent_entries entries = rev (takeWhile (\<lambda>e. \<not> is_compact e) (rev entries))"

definition as_blocks :: "msg_content \<Rightarrow> content_block list" where
  "as_blocks c = (case c of StrContent t \<Rightarrow> [TextBlock t] | Blocks bs \<Rightarrow> bs)"

definition result_block :: "tool_result_event \<Rightarrow> content_block" where
  "result_block t =
     ToolResult (tr_toolUseId t) (case tr_blocks t of None \<Rightarrow> ResultString (tr_content t) | Some bs \<Rightarrow> ResultBlocks bs)
       (Some (tr_isError t))"

definition flush_pending :: "message list \<times> content_block list \<Rightarrow> message list \<times> content_block list" where
  "flush_pending s = (case s of (messages, pend) \<Rightarrow>
     if pend \<noteq> [] then (messages @ [user_msg (Blocks pend)], []) else (messages, pend))"

definition load_step :: "message list \<times> content_block list \<Rightarrow> sdk_message \<Rightarrow> message list \<times> content_block list" where
  "load_step s p =
     (case p of
        UserEv u \<Rightarrow>
          (case s of (messages, pend) \<Rightarrow>
             if pend \<noteq> [] then (messages @ [user_msg (Blocks (pend @ as_blocks (content (ue_message u))))], [])
             else (messages @ [user_msg (content (ue_message u))], pend))
      | AssistantEv a \<Rightarrow>
          (case flush_pending s of (messages, pend) \<Rightarrow> (messages @ [assistant_msg (content (ae_message a))], pend))
      | ToolResultEv t \<Rightarrow> (fst s, snd s @ [result_block t])
      | _ \<Rightarrow> s)"

section \<open>Answering interrupted tool calls\<close>

definition interrupted_note :: string where
  "interrupted_note = ''[no result recorded '' @ emdash @ '' the previous run was interrupted before this tool finished]''"

definition synthesized :: "string list \<Rightarrow> content_block list" where
  "synthesized missing = map (\<lambda>i. ToolResult i (ResultString interrupted_note) (Some True)) missing"

definition next_array :: "message list \<Rightarrow> content_block list option" where
  "next_array ms =
     (case ms of
        [] \<Rightarrow> None
      | n # _ \<Rightarrow> (if role n = User then (case content n of Blocks bs \<Rightarrow> Some bs | StrContent _ \<Rightarrow> None) else None))"

fun healInterruptedTools :: "message list \<Rightarrow> message list" where
  "healInterruptedTools [] = []"
| "healInterruptedTools (m # ms) =
     (let ids = msg_uses m
      in if ids = [] then m # healInterruptedTools ms
         else (case next_array ms of
                 Some bs \<Rightarrow>
                   (let missing = filter (\<lambda>i. i \<notin> set (tool_result_ids bs)) ids
                    in if missing = [] then m # healInterruptedTools ms
                       else m # user_msg (Blocks (synthesized missing @ bs)) # healInterruptedTools (tl ms))
               | None \<Rightarrow> m # user_msg (Blocks (synthesized ids)) # healInterruptedTools ms))"

definition loadMessages :: "conversation_entry list \<Rightarrow> message list" where
  "loadMessages stored =
     (let entries = effectiveEntries stored;
          (messages, _) = flush_pending (foldl load_step (compact_messages entries, []) (map ce_payload (recent_entries entries)))
      in healInterruptedTools messages)"

section \<open>Every call is answered\<close>

fun all_answered :: "message list \<Rightarrow> bool" where
  "all_answered [] = True"
| "all_answered (m # ms) =
     ((msg_uses m = [] \<or>
       (case next_array ms of None \<Rightarrow> False | Some bs \<Rightarrow> set (msg_uses m) \<subseteq> set (tool_result_ids bs)))
      \<and> all_answered ms)"

lemma next_array_SomeD: "next_array ms = Some bs \<Longrightarrow> \<exists>rest. ms = user_msg (Blocks bs) # rest"
  by (cases ms; cases "hd ms") (auto simp: next_array_def split: if_splits msg_content.splits)

lemma next_array_user [simp]: "next_array (user_msg (Blocks bs) # ms) = Some bs"
  by (simp add: next_array_def)

lemma msg_uses_user [simp]: "msg_uses (user_msg c) = []"
  by (simp add: msg_uses_def)

lemma heal_user [simp]: "healInterruptedTools (user_msg c # ms) = user_msg c # healInterruptedTools ms"
  by simp

lemma tool_result_ids_synthesized [simp]: "tool_result_ids (synthesized is) = is"
  by (induction "is") (simp_all add: synthesized_def)

lemma tool_use_ids_synthesized [simp]: "tool_use_ids (synthesized is) = []"
  by (induction "is") (simp_all add: synthesized_def)

lemma heal_answers: "all_answered (healInterruptedTools ms)"
proof (induction ms rule: healInterruptedTools.induct)
  case 1
  then show ?case by simp
next
  case (2 m ms)
  show ?case
  proof (cases "msg_uses m = [] \<or> next_array ms = None")
    case True
    with 2 show ?thesis by (auto simp: Let_def)
  next
    case False
    then obtain bs where bs: "next_array ms = Some bs" "msg_uses m \<noteq> []" by auto
    then obtain rest where ms: "ms = user_msg (Blocks bs) # rest" using next_array_SomeD by blast
    from bs 2 show ?thesis by (auto simp: Let_def ms filter_empty_conv)
  qed
qed

lemma heal_answered_id: "all_answered ms \<Longrightarrow> healInterruptedTools ms = ms"
proof (induction ms rule: healInterruptedTools.induct)
  case (2 m ms)
  then show ?case by (auto simp: Let_def filter_empty_conv split: option.splits)
qed simp

section \<open>Nothing else changes\<close>

text \<open>The conversation as one sequence of blocks with their roles, a string being one text block.\<close>

definition flat_msg :: "message \<Rightarrow> (role \<times> content_block) list" where
  "flat_msg m = map (Pair (role m)) (as_blocks (content m))"

definition flat :: "message list \<Rightarrow> (role \<times> content_block) list" where
  "flat ms = concat (map flat_msg ms)"

definition is_synthetic :: "role \<times> content_block \<Rightarrow> bool" where
  "is_synthetic rb = (case rb of (r, b) \<Rightarrow> r = User \<and> (case b of ToolResult i c e \<Rightarrow> c = ResultString interrupted_note \<and> e = Some True | _ \<Rightarrow> False))"

definition genuine :: "(role \<times> content_block) list \<Rightarrow> (role \<times> content_block) list" where
  "genuine xs = filter (\<lambda>x. \<not> is_synthetic x) xs"

lemma flat_simps [simp]: "flat [] = []" "flat (m # ms) = flat_msg m @ flat ms" "flat (ms @ ns) = flat ms @ flat ns"
  by (simp_all add: flat_def)

lemma genuine_simps [simp]: "genuine [] = []" "genuine (xs @ ys) = genuine xs @ genuine ys"
  by (simp_all add: genuine_def)

lemma flat_user_blocks: "flat_msg (user_msg (Blocks (bs @ cs))) = flat_msg (user_msg (Blocks bs)) @ flat_msg (user_msg (Blocks cs))"
  by (simp add: flat_msg_def as_blocks_def)

lemma genuine_synthesized [simp]: "genuine (flat_msg (user_msg (Blocks (synthesized is)))) = []"
  by (induction "is") (simp_all add: synthesized_def flat_msg_def as_blocks_def genuine_def is_synthetic_def)

lemma heal_genuine: "genuine (flat (healInterruptedTools ms)) = genuine (flat ms)"
proof (induction ms rule: healInterruptedTools.induct)
  case 1
  then show ?case by simp
next
  case (2 m ms)
  show ?case
  proof (cases "msg_uses m = [] \<or> next_array ms = None")
    case True
    with 2 show ?thesis by (auto simp: Let_def)
  next
    case False
    then obtain bs where bs: "next_array ms = Some bs" "msg_uses m \<noteq> []" by auto
    then obtain rest where ms: "ms = user_msg (Blocks bs) # rest" using next_array_SomeD by blast
    from bs 2 show ?thesis by (auto simp: Let_def ms flat_user_blocks)
  qed
qed

text \<open>What an entry says, as the flat view sees it.\<close>

definition payload_flat :: "sdk_message \<Rightarrow> (role \<times> content_block) list" where
  "payload_flat p =
     (case p of
        UserEv u \<Rightarrow> map (Pair User) (as_blocks (content (ue_message u)))
      | AssistantEv a \<Rightarrow> map (Pair Assistant) (as_blocks (content (ae_message a)))
      | ToolResultEv t \<Rightarrow> [(User, result_block t)]
      | _ \<Rightarrow> [])"

definition state_flat :: "message list \<times> content_block list \<Rightarrow> (role \<times> content_block) list" where
  "state_flat s = flat (fst s) @ map (Pair User) (snd s)"

lemma state_flat_flush: "state_flat (flush_pending s) = state_flat s"
  by (auto simp: state_flat_def flush_pending_def flat_msg_def as_blocks_def split: prod.splits)

lemma flush_pending_empty [simp]: "snd (flush_pending s) = []"
  by (auto simp: flush_pending_def split: prod.splits)

lemma state_flat_step: "state_flat (load_step s p) = state_flat s @ payload_flat p"
proof (cases p)
  case (AssistantEv a)
  have "state_flat (load_step s p) = state_flat (flush_pending s) @ payload_flat p"
    by (simp add: AssistantEv load_step_def state_flat_def payload_flat_def flat_msg_def split: prod.splits)
      (metis flush_pending_empty list.simps(8) snd_conv)
  then show ?thesis by (simp add: state_flat_flush)
qed (auto simp: load_step_def state_flat_def payload_flat_def flat_msg_def as_blocks_def
      split: prod.splits msg_content.splits)

lemma state_flat_fold: "state_flat (foldl load_step s ps) = state_flat s @ concat (map payload_flat ps)"
  by (induction ps arbitrary: s) (simp_all add: state_flat_step)

lemma load_genuine:
  "genuine (flat (loadMessages stored)) =
     genuine (flat (compact_messages (effectiveEntries stored))
              @ concat (map payload_flat (map ce_payload (recent_entries (effectiveEntries stored)))))"
proof -
  let ?es = "effectiveEntries stored"
  let ?s = "flush_pending (foldl load_step (compact_messages ?es, []) (map ce_payload (recent_entries ?es)))"
  have "loadMessages stored = healInterruptedTools (fst ?s)"
    by (simp add: loadMessages_def Let_def split: prod.splits)
  moreover have "flat (fst ?s) = state_flat ?s" by (simp add: state_flat_def)
  moreover have "state_flat ?s = flat (compact_messages ?es) @ concat (map payload_flat (map ce_payload (recent_entries ?es)))"
    by (simp only: state_flat_flush state_flat_fold) (simp add: state_flat_def)
  ultimately show ?thesis by (simp add: heal_genuine)
qed

section \<open>Rewinds and boundaries\<close>

definition is_rewind :: "conversation_entry \<Rightarrow> bool" where
  "is_rewind e = (case ce_payload e of RewindEv r \<Rightarrow> True | _ \<Rightarrow> False)"

lemma effective_append [simp]: "effectiveEntries (xs @ [e]) = effective_step (effectiveEntries xs) e"
  by (simp add: effectiveEntries_def)

lemma effective_step_plain: "\<not> is_rewind e \<Longrightarrow> effective_step out e = out @ [e]"
  by (simp add: effective_step_def is_rewind_def split: sdk_message.splits)

lemma effective_plain: "\<forall>e \<in> set xs. \<not> is_rewind e \<Longrightarrow> foldl effective_step out xs = out @ xs"
  by (induction xs arbitrary: out) (simp_all add: effective_step_plain)

lemma effective_no_rewind: "\<forall>e \<in> set (effectiveEntries xs). \<not> is_rewind e"
proof (induction xs rule: rev_induct)
  case (snoc e xs)
  then show ?case
    by (auto simp: effective_step_def is_rewind_def split: sdk_message.splits option.splits dest: in_set_takeD)
qed (simp add: effectiveEntries_def)

lemma effective_idem: "effectiveEntries (effectiveEntries xs) = effectiveEntries xs"
  using effective_plain [OF effective_no_rewind, of "[]" xs] by (simp add: effectiveEntries_def)

lemma recent_after_compact:
  assumes "is_compact c" "\<forall>e \<in> set post. \<not> is_compact e"
  shows "recent_entries (pre @ c # post) = post" "compact_messages (pre @ c # post) = compact_messages [c]"
proof -
  have "takeWhile (\<lambda>e. \<not> is_compact e) (rev post @ c # rev pre) = rev post"
    using assms by (subst takeWhile_append2) simp_all
  then show "recent_entries (pre @ c # post) = post"
    by (simp add: recent_entries_def)
  have "find is_compact (rev post) = None" using assms(2) by (simp add: find_None_iff)
  with assms(1) show "compact_messages (pre @ c # post) = compact_messages [c]"
    by (simp add: compact_messages_def find_append)
qed

lemma load_cong:
  "recent_entries (effectiveEntries xs) = recent_entries (effectiveEntries ys)
   \<Longrightarrow> compact_messages (effectiveEntries xs) = compact_messages (effectiveEntries ys)
   \<Longrightarrow> loadMessages xs = loadMessages ys"
  by (simp add: loadMessages_def Let_def)

section \<open>Properties\<close>

text \<open>
  C26 load_answers_calls.  Whatever was persisted, in whatever order and however the run was cut off, every tool
  call of every assistant message that \<open>loadMessages\<close> returns is answered by a tool result in the user
  message right after it, so the next model call is not rejected.
\<close>

theorem load_answers_calls: "all_answered (loadMessages stored)"
  by (simp add: loadMessages_def Let_def heal_answers split: prod.splits)

text \<open>
  Apart from the synthetic results of interrupted calls, the rebuilt messages are
  exactly, in order and with their roles, the summary of the last compaction followed by the content
  of every user, assistant and tool-result entry after it: nothing is lost, duplicated or reordered.
\<close>

theorem load_keeps_conversation:
  "genuine (flat (loadMessages stored)) =
     genuine (flat (compact_messages (effectiveEntries stored))
              @ concat (map (payload_flat \<circ> ce_payload) (recent_entries (effectiveEntries stored))))"
  by (simp add: load_genuine)

text \<open>
  Replay is bounded by compaction: with a compaction record and no later rewind or
  compaction, what came before the record does not influence the rebuilt messages.
\<close>

theorem load_from_boundary:
  assumes "is_compact c" "\<forall>e \<in> set post. \<not> is_compact e \<and> \<not> is_rewind e"
  shows "loadMessages (pre @ c # post) = loadMessages (c # post)"
proof -
  have c: "\<not> is_rewind c" using assms(1) by (auto simp: is_rewind_def is_compact_def split: sdk_message.splits)
  have "effectiveEntries (pre @ c # post) = effectiveEntries pre @ c # post" for pre
    using c assms(2) effective_plain [of "c # post" "effectiveEntries pre"] by (simp add: effectiveEntries_def)
  note e = this [of pre] this [of "[]"]
  show ?thesis
    by (rule load_cong) (use e assms in \<open>simp_all add: effectiveEntries_def [of "[]"] recent_after_compact
      recent_after_compact [of c post "[]", simplified]\<close>)
qed

definition entry :: "string \<Rightarrow> sdk_message \<Rightarrow> conversation_entry" where
  "entry u p = \<lparr>ce_uuid = u, ce_parentUuid = None, ce_ts = [], ce_payload = p\<rparr>"

definition user_says :: "string \<Rightarrow> sdk_message" where
  "user_says t = UserEv \<lparr>ue_message = user_msg (StrContent t), ue_author = HUMAN, ue_requestId = None\<rparr>"

definition calls_tool :: "string \<Rightarrow> sdk_message" where
  "calls_tool i = AssistantEv \<lparr>ae_message = assistant_msg (Blocks [ToolUse i ''Bash'' (JObj [])]), ae_usage = emptyUsage,
     ae_stopReason = Some ToolUseStop, ae_model = ''m'', ae_effort = None\<rparr>"

definition compacted :: "string \<Rightarrow> sdk_message" where
  "compacted s = CompactEv \<lparr>ce_summary = s, ce_trigger = AutoCompact, ce_replacedMessages = 3\<rparr>"

theorem load_from_boundary_witness:
  "loadMessages ([entry ''1'' (user_says ''old'')] @ entry ''2'' (compacted ''s'') # [entry ''3'' (user_says ''hi'')])
     = loadMessages (entry ''2'' (compacted ''s'') # [entry ''3'' (user_says ''hi'')])"
  by (rule load_from_boundary) (simp_all add: is_compact_def is_rewind_def entry_def compacted_def user_says_def)

text \<open>
  A rewind leaves exactly the entries up to and including the first one with the
  target's uuid, an unknown target leaves everything, and a rewind to null leaves nothing; resolving
  rewinds twice is resolving them once.
\<close>

theorem rewind_to_entry:
  assumes "ce_payload r = RewindEv w"
  shows "effectiveEntries (xs @ [r]) =
      (case rw_toUuid w of
         None \<Rightarrow> []
       | Some u \<Rightarrow> (if u \<in> ce_uuid ` set (effectiveEntries xs)
                   then takeWhile (\<lambda>e. ce_uuid e \<noteq> u) (effectiveEntries xs) @ [hd (dropWhile (\<lambda>e. ce_uuid e \<noteq> u) (effectiveEntries xs))]
                   else effectiveEntries xs))
    \<and> effectiveEntries (effectiveEntries (xs @ [r])) = effectiveEntries (xs @ [r])"
proof -
  have "take (Suc i) ys = takeWhile (\<lambda>e. ce_uuid e \<noteq> u) ys @ [hd (dropWhile (\<lambda>e. ce_uuid e \<noteq> u) ys)]
      \<and> u \<in> ce_uuid ` set ys"
    if "find_index (\<lambda>x. ce_uuid x = u) ys = Some i" for u i and ys :: "conversation_entry list"
    using that by (induction ys arbitrary: i) (auto split: if_splits)
  moreover have "find_index (\<lambda>x. ce_uuid x = u) ys = None \<Longrightarrow> u \<notin> ce_uuid ` set ys"
    for u and ys :: "conversation_entry list"
    by (auto simp: find_index_None)
  ultimately show ?thesis
    using assms effective_idem [of "xs @ [r]"]
    by (auto simp: effective_step_def split: option.splits)
qed

theorem rewind_to_entry_witness:
  "effectiveEntries ([entry ''1'' (user_says ''a''), entry ''2'' (user_says ''b'')] @
      [entry ''3'' (RewindEv \<lparr>rw_toUuid = Some ''1'', rw_turn = 1\<rparr>)]) = [entry ''1'' (user_says ''a'')]"
  by (subst rewind_to_entry [THEN conjunct1, of _ "\<lparr>rw_toUuid = Some ''1'', rw_turn = 1\<rparr>"])
    (simp_all add: entry_def user_says_def effectiveEntries_def effective_step_def)

text \<open>
  When the turn after an interrupted tool call is a plain-string user message, the
  synthetic results are not folded into it: the rebuilt array has two consecutive user messages.
\<close>

theorem heal_breaks_alternation:
  "map role (loadMessages [entry ''1'' (user_says ''go''), entry ''2'' (calls_tool ''t''), entry ''3'' (user_says ''again'')])
     = [User, Assistant, User, User]"
  by (simp add: loadMessages_def effectiveEntries_def effective_step_def entry_def user_says_def calls_tool_def
      compact_messages_def recent_entries_def is_compact_def load_step_def flush_pending_def Let_def
      msg_uses_def next_array_def)

end
