(* ===== verification/Compaction.thy ===== *)
theory Compaction
  imports Messages Inbox
begin

text \<open>
  \<open>context/compaction.ts\<close>: the size estimate of a message array, microcompaction of old tool results and event
  feeds, the choice of a cut that separates no tool call from its result, and \<open>maybeCompact\<close>.  The
  summariser is a parameter (a model call, which may fail: \<open>None\<close>); the two hooks are the list of what
  they are shown.  The threshold is a rational, so \<open>contextWindow * threshold\<close> is exact.
\<close>

section \<open>Estimating\<close>

definition estimateTokens :: "string \<Rightarrow> nat" where
  "estimateTokens text = (length text + 3) div 4"

definition base64_source :: "string \<Rightarrow> string \<Rightarrow> json" where
  "base64_source media_type data = JObj [(''type'', JStr ''base64''), (''media_type'', JStr media_type), (''data'', JStr data)]"

fun rich_json :: "rich_block \<Rightarrow> json" where
  "rich_json (RText t) = JObj [(''type'', JStr ''text''), (''text'', JStr t)]"
| "rich_json (RImage media d) = JObj [(''type'', JStr ''image''), (''source'', base64_source media d)]"
| "rich_json (RDocument media d) = JObj [(''type'', JStr ''document''), (''source'', base64_source media d)]"

fun blockText :: "content_block \<Rightarrow> string" where
  "blockText (TextBlock t) = t"
| "blockText (ThinkingBlock t _) = ''(thinking) '' @ t"
| "blockText (ToolUse _ name input) = ''(tool:'' @ name @ '' '' @ json_str input @ '')''"
| "blockText (ToolResult _ c _) =
     ''(result) '' @ (case c of ResultString s \<Rightarrow> s | ResultBlocks bs \<Rightarrow> json_str (JArr (map rich_json bs)))"
| "blockText (ImageBlock _ _) = replicate 6400 CHR ''x''"
| "blockText (DocumentBlock _ _) = replicate 4000 CHR ''x''"

definition role_name :: "role \<Rightarrow> string" where
  "role_name r = (case r of User \<Rightarrow> ''user'' | Assistant \<Rightarrow> ''assistant'')"

definition message_text :: "message \<Rightarrow> string" where
  "message_text m =
     role_name (role m) @ '': '' @ (case content m of StrContent s \<Rightarrow> s | Blocks bs \<Rightarrow> join [nl] (map blockText bs))"

definition renderTranscript :: "message list \<Rightarrow> string" where
  "renderTranscript messages = join [nl, nl] (map message_text messages)"

definition estimateMessagesTokens :: "message list \<Rightarrow> string option \<Rightarrow> nat" where
  "estimateMessagesTokens messages system =
     estimateTokens ((case system of None \<Rightarrow> [] | Some s \<Rightarrow> s) @ [nl] @ renderTranscript messages)"

record compaction_options =
  contextWindow :: nat
  maxOutputTokens :: nat
  threshold :: "rat option"
  keepRecentTurns :: "nat option"
  overheadTokens :: "nat option"
  knownFloorTokens :: "nat option"

definition occupancy :: "message list \<Rightarrow> string option \<Rightarrow> compaction_options \<Rightarrow> nat" where
  "occupancy messages system opts =
     max (estimateMessagesTokens messages system + or_zero (overheadTokens opts)) (or_zero (knownFloorTokens opts))"

datatype window_hook = BeforeCompact | CompactWindow "message list"

record compaction_result =
  cr_messages :: "message list"
  cr_compacted :: bool
  cr_summary :: "string option"
  cr_summaryTokens :: "nat option"
  cr_replaced :: "nat option"
  cr_hooks :: "window_hook list"

section \<open>Cuts\<close>

primrec find_cut_from :: "message list \<Rightarrow> nat \<Rightarrow> nat" where
  "find_cut_from ms 0 = 0"
| "find_cut_from ms (Suc i) = (if role (ms ! Suc i) = Assistant then Suc i else find_cut_from ms i)"

text \<open>A negative \<open>maxCut\<close> starts the loop below 1, as 0 does.\<close>

definition findCut :: "message list \<Rightarrow> nat \<Rightarrow> nat" where
  "findCut messages maxCut = find_cut_from messages (min maxCut (length messages - 1))"

definition prependSummary :: "message list \<Rightarrow> string \<Rightarrow> message list" where
  "prependSummary recent summary = user_msg (StrContent (summaryHeader summary)) # recent"

section \<open>Microcompaction\<close>

definition events_stub :: string where "events_stub = ''[old background events cleared]''"

definition result_stub :: "nat \<Rightarrow> string" where
  "result_stub n = ''[old tool result cleared '' @ emdash @ '' '' @ nat_str n @ '' chars]''"

definition starts_with :: "string \<Rightarrow> string \<Rightarrow> bool" where
  "starts_with p s = (take (length p) s = p)"

definition stub_block :: "nat \<Rightarrow> content_block \<Rightarrow> content_block" where
  "stub_block minChars b =
     (case b of
        TextBlock t \<Rightarrow> (if starts_with EVENTS_HEADER t then TextBlock events_stub else b)
      | ToolResult i (ResultString s) e \<Rightarrow>
          (if length s < minChars then b else ToolResult i (ResultString (result_stub (length s))) e)
      | _ \<Rightarrow> b)"

definition stub_message :: "nat \<Rightarrow> message \<Rightarrow> message" where
  "stub_message minChars m =
     (case content m of
        StrContent s \<Rightarrow> (if starts_with EVENTS_HEADER s then m\<lparr>content := StrContent events_stub\<rparr> else m)
      | Blocks bs \<Rightarrow> m\<lparr>content := Blocks (map (stub_block minChars) bs)\<rparr>)"

definition microcompact :: "message list \<Rightarrow> nat \<Rightarrow> nat \<Rightarrow> message list" where
  "microcompact messages keep minChars =
     (let cutoff = length messages - keep
      in map (\<lambda>(i, m). if i \<ge> cutoff \<or> role m \<noteq> User then m else stub_message minChars m) (enumerate 0 messages))"

section \<open>Compaction\<close>

text \<open>The loop over a shrinking recent window, from \<open>keep - 1\<close> down to 1.\<close>

primrec shrink_cut :: "(message list \<Rightarrow> bool) \<Rightarrow> message list \<Rightarrow> nat \<Rightarrow> nat" where
  "shrink_cut fits micro 0 = 0"
| "shrink_cut fits micro (Suc k) =
     (let c = findCut micro (length micro - Suc k)
      in if c > 0 \<and> fits (drop c micro) then c else shrink_cut fits micro k)"

definition compaction_budget :: "compaction_options \<Rightarrow> int" where
  "compaction_budget opts =
     \<lfloor>of_nat (contextWindow opts) * (case threshold opts of None \<Rightarrow> 4 / 5 | Some t \<Rightarrow> t)\<rfloor> - int (maxOutputTokens opts)"

definition keep_window :: "compaction_options \<Rightarrow> nat" where
  "keep_window opts = (case keepRecentTurns opts of None \<Rightarrow> 6 | Some k \<Rightarrow> k)"

definition uncompacted :: "message list \<Rightarrow> window_hook list \<Rightarrow> compaction_result" where
  "uncompacted ms hooks =
     \<lparr>cr_messages = ms, cr_compacted = False, cr_summary = None, cr_summaryTokens = None, cr_replaced = None, cr_hooks = hooks\<rparr>"

definition micro_only :: "message list \<Rightarrow> compaction_result" where
  "micro_only ms =
     \<lparr>cr_messages = ms, cr_compacted = True, cr_summary = None, cr_summaryTokens = None, cr_replaced = Some 0,
      cr_hooks = [BeforeCompact]\<rparr>"

definition choose_cut :: "message list \<Rightarrow> string option \<Rightarrow> compaction_options \<Rightarrow> nat" where
  "choose_cut micro system opts =
     (let keep = keep_window opts;
          cut = findCut micro (length micro - keep)
      in if cut = 0 then shrink_cut (\<lambda>rest. int (occupancy rest system opts) \<le> compaction_budget opts) micro (keep - 1)
         else cut)"

definition maybeCompact ::
    "(message list \<Rightarrow> string option) \<Rightarrow> message list \<Rightarrow> string option \<Rightarrow> compaction_options \<Rightarrow> compaction_result option" where
  "maybeCompact summarize messages system opts =
     (let budget = compaction_budget opts
      in if budget \<le> 0 then Some (uncompacted messages [])
         else if int (occupancy messages system opts) \<le> budget then Some (uncompacted messages [])
         else
           let micro = microcompact messages (keep_window opts) 600
           in if int (occupancy micro system opts) \<le> budget then Some (micro_only micro)
              else
                let microShrank = occupancy micro system opts < occupancy messages system opts;
                    cut = choose_cut micro system opts
                in if cut = 0 then Some (if microShrank then micro_only micro else uncompacted messages [BeforeCompact])
                   else
                     let older = take cut micro;
                         recent = drop cut micro
                     in (case summarize older of
                           None \<Rightarrow> None
                         | Some summary \<Rightarrow>
                             Some \<lparr>cr_messages = prependSummary recent summary, cr_compacted = True,
                                   cr_summary = Some summary, cr_summaryTokens = Some (estimateTokens summary),
                                   cr_replaced = Some (length older),
                                   cr_hooks = [BeforeCompact, CompactWindow (take cut messages)]\<rparr>))"

section \<open>What microcompaction keeps\<close>

text \<open>Results refer back to the calls of the message before them: no result is orphaned.\<close>

fun backed :: "string set \<Rightarrow> message list \<Rightarrow> bool" where
  "backed S [] = True"
| "backed S (m # ms) = (set (msg_results m) \<subseteq> S \<and> backed (set (msg_uses m)) ms)"

lemma tool_ids_stub [simp]:
  "tool_use_ids (map (stub_block n) bs) = tool_use_ids bs"
  "tool_result_ids (map (stub_block n) bs) = tool_result_ids bs"
  by (induction bs) (auto simp: stub_block_def split: content_block.splits result_content.splits)

lemma stub_message_simps [simp]:
  "role (stub_message n m) = role m" "msg_uses (stub_message n m) = msg_uses m"
  "msg_results (stub_message n m) = msg_results m"
  by (auto simp: stub_message_def msg_uses_def msg_results_def msg_blocks_def split: msg_content.splits)

definition same_shape :: "message \<Rightarrow> message \<Rightarrow> bool" where
  "same_shape m m' \<longleftrightarrow> role m' = role m \<and> msg_uses m' = msg_uses m \<and> msg_results m' = msg_results m
     \<and> map_option tool_result_ids (next_array [m']) = map_option tool_result_ids (next_array [m])"

lemma same_shape_refl [simp]: "same_shape m m"
  by (simp add: same_shape_def)

lemma same_shape_stub: "role m = User \<Longrightarrow> same_shape m (stub_message n m)"
  by (auto simp: same_shape_def) (auto simp: next_array_def stub_message_def split: msg_content.splits)

lemma map_enumerate_take_drop:
  "map (\<lambda>(i, m). if i \<ge> c \<or> q m then m else f m) (enumerate k xs)
     = map (\<lambda>m. if q m then m else f m) (take (c - k) xs) @ drop (c - k) xs"
proof (induction xs arbitrary: k)
  case (Cons x xs)
  show ?case
  proof (cases "k < c")
    case True
    then obtain d where "c - k = Suc d" "c - Suc k = d" by (metis Suc_diff_Suc)
    with True Cons.IH [of "Suc k"] show ?thesis by simp
  next
    case False
    with Cons.IH [of "Suc k"] show ?thesis by simp
  qed
qed simp

lemma microcompact_split:
  "microcompact ms keep n =
     map (\<lambda>m. if role m \<noteq> User then m else stub_message n m) (take (length ms - keep) ms) @ drop (length ms - keep) ms"
  by (simp add: microcompact_def Let_def map_enumerate_take_drop)

lemma length_microcompact [simp]: "length (microcompact ms keep n) = length ms"
  by (simp add: microcompact_def Let_def)

lemma microcompact_same_shape: "list_all2 same_shape ms (microcompact ms keep n)"
proof -
  let ?c = "length ms - keep"
  have "list_all2 same_shape (take ?c ms @ drop ?c ms)
      (map (\<lambda>m. if role m \<noteq> User then m else stub_message n m) (take ?c ms) @ drop ?c ms)"
    by (intro list_all2_appendI) (auto simp: list_all2_conv_all_nth intro: same_shape_stub)
  then show ?thesis by (simp add: microcompact_split)
qed

lemma same_shape_backed: "list_all2 same_shape ms ms' \<Longrightarrow> backed S ms' = backed S ms"
proof (induction arbitrary: S rule: list_all2_induct)
  case (Cons m ms m' ms')
  then show ?case by (simp add: same_shape_def)
qed simp

lemma next_array_Cons: "next_array (m # ms) = next_array [m]"
  by (simp add: next_array_def)

lemma same_shape_answered: "list_all2 same_shape ms ms' \<Longrightarrow> all_answered ms' = all_answered ms"
proof (induction rule: list_all2_induct)
  case (Cons m ms m' ms')
  have "map_option tool_result_ids (next_array ms') = map_option tool_result_ids (next_array ms)"
  proof (cases ms)
    case Nil
    with Cons show ?thesis by simp
  next
    case (Cons a as)
    with Cons.hyps obtain a' as' where "ms' = a' # as'" "same_shape a a'"
      by (auto simp: list_all2_Cons1)
    with Cons next_array_Cons [of a' as'] next_array_Cons [of a as] show ?thesis
      by (simp only: same_shape_def)
  qed
  then have "(case next_array ms' of None \<Rightarrow> False | Some bs \<Rightarrow> P (tool_result_ids bs))
      = (case next_array ms of None \<Rightarrow> False | Some bs \<Rightarrow> P (tool_result_ids bs))" for P
    by (cases "next_array ms"; cases "next_array ms'") auto
  note arr = this [of "\<lambda>is. set (msg_uses m') \<subseteq> set is"]
  have "msg_uses m' = msg_uses m" using Cons.hyps(1) by (simp add: same_shape_def)
  with arr Cons.IH show ?case by (simp only: all_answered.simps)
qed simp

section \<open>What a cut keeps\<close>

lemma find_cut_from_le: "find_cut_from ms i \<le> i"
  by (induction i) (auto intro: le_SucI)

lemma find_cut_from_assistant: "find_cut_from ms i = c \<Longrightarrow> c > 0 \<Longrightarrow> role (ms ! c) = Assistant"
  by (induction i) (auto split: if_splits)

lemma findCut_ok: "findCut ms k = c \<Longrightarrow> c > 0 \<Longrightarrow> c < length ms \<and> role (ms ! c) = Assistant"
  using find_cut_from_le [of ms "min k (length ms - 1)"] find_cut_from_assistant [of ms "min k (length ms - 1)" c]
  by (simp add: findCut_def) linarith

lemma shrink_cut_ok:
  "shrink_cut fits ms k = c \<Longrightarrow> c > 0 \<Longrightarrow> c < length ms \<and> role (ms ! c) = Assistant \<and> fits (drop c ms)"
proof (induction k)
  case (Suc k)
  show ?case
  proof (cases "findCut ms (length ms - Suc k) > 0 \<and> fits (drop (findCut ms (length ms - Suc k)) ms)")
    case True
    with Suc.prems(1) have c: "c = findCut ms (length ms - Suc k)" by (simp add: Let_def)
    with Suc.prems(2) True show ?thesis
      using findCut_ok [of ms "length ms - Suc k" c] by simp
  next
    case False
    with Suc.prems have "shrink_cut fits ms k = c" by (auto simp: Let_def)
    with Suc show ?thesis by simp
  qed
qed simp

lemma choose_cut_ok:
  "choose_cut ms system opts = c \<Longrightarrow> c > 0 \<Longrightarrow> c < length ms \<and> role (ms ! c) = Assistant"
  using findCut_ok [of ms "length ms - keep_window opts" c]
    shrink_cut_ok [of "\<lambda>rest. int (occupancy rest system opts) \<le> compaction_budget opts" ms "keep_window opts - 1" c]
  by (simp add: choose_cut_def Let_def split: if_splits)

lemma backed_drop: "backed S ms \<Longrightarrow> \<exists>T. backed T (drop c ms)"
proof (induction ms arbitrary: S c)
  case Nil
  then show ?case by simp
next
  case (Cons m ms)
  then show ?case by (cases c) (auto intro: exI [of _ S])
qed

lemma backed_cut:
  assumes "backed S ms" "c < length ms" "role (ms ! c) = Assistant"
  shows "backed T (drop c ms)"
proof -
  obtain U where "backed U (drop c ms)" using backed_drop assms(1) by blast
  with assms(2,3) show ?thesis by (simp add: Cons_nth_drop_Suc [symmetric] msg_results_def)
qed

lemma answered_drop: "all_answered ms \<Longrightarrow> all_answered (drop c ms)"
proof (induction ms arbitrary: c)
  case (Cons m ms)
  then show ?case by (cases c) auto
qed simp

text \<open>The four shapes a result has.\<close>

lemma maybeCompact_cases:
  assumes "maybeCompact summarize ms system opts = Some r"
  obtains hooks where "r = uncompacted ms hooks"
  | "r = micro_only (microcompact ms (keep_window opts) 600)"
  | c summary where "c > 0" "c < length ms" "role (microcompact ms (keep_window opts) 600 ! c) = Assistant"
      "summarize (take c (microcompact ms (keep_window opts) 600)) = Some summary"
      "cr_messages r = prependSummary (drop c (microcompact ms (keep_window opts) 600)) summary"
      "cr_replaced r = Some c" "cr_hooks r = [BeforeCompact, CompactWindow (take c ms)]"
      "cr_summary r = Some summary" "cr_compacted r"
proof -
  let ?m = "microcompact ms (keep_window opts) 600" and ?c = "choose_cut (microcompact ms (keep_window opts) 600) system opts"
  consider "compaction_budget opts \<le> 0 \<or> int (occupancy ms system opts) \<le> compaction_budget opts"
    | "\<not> compaction_budget opts \<le> 0" "\<not> int (occupancy ms system opts) \<le> compaction_budget opts"
      "int (occupancy ?m system opts) \<le> compaction_budget opts \<or> ?c = 0"
    | "\<not> compaction_budget opts \<le> 0" "\<not> int (occupancy ms system opts) \<le> compaction_budget opts"
      "\<not> int (occupancy ?m system opts) \<le> compaction_budget opts" "?c > 0"
    by linarith
  then show ?thesis
  proof cases
    case 1
    with assms show ?thesis by (intro that(1) [of "[]"]) (auto simp: maybeCompact_def Let_def split: if_splits)
  next
    case 2
    with assms have "r = micro_only ?m \<or> r = uncompacted ms [BeforeCompact]"
      by (simp add: maybeCompact_def Let_def split: if_splits)
    then show ?thesis using that(1,2) by blast
  next
    case 3
    with choose_cut_ok [of ?m system opts ?c] have "?c < length ms" "role (?m ! ?c) = Assistant" by simp_all
    moreover from 3 assms have "(case summarize (take ?c ?m) of None \<Rightarrow> None | Some summary \<Rightarrow>
        Some \<lparr>cr_messages = prependSummary (drop ?c ?m) summary, cr_compacted = True, cr_summary = Some summary,
          cr_summaryTokens = Some (estimateTokens summary), cr_replaced = Some (length (take ?c ?m)),
          cr_hooks = [BeforeCompact, CompactWindow (take ?c ms)]\<rparr>) = Some r"
      by (simp add: maybeCompact_def Let_def)
    ultimately show ?thesis using 3(4)
      by (cases "summarize (take ?c ?m)") (auto intro: that(3))
  qed
qed

lemma maybeCompact_answered:
  assumes "all_answered ms" "maybeCompact summarize ms system opts = Some r"
  shows "all_answered (cr_messages r)"
proof -
  let ?m = "microcompact ms (keep_window opts) 600"
  have m: "all_answered ?m" using assms(1) same_shape_answered [OF microcompact_same_shape] by simp
  from assms(2) show ?thesis
    by (cases rule: maybeCompact_cases) (use assms m in \<open>simp_all add: uncompacted_def micro_only_def prependSummary_def answered_drop\<close>)
qed

section \<open>Properties\<close>

text \<open>
  Compaction is boundary-safe: if no tool result of the array is orphaned and every
  tool call is answered, the same holds of the array \<open>maybeCompact\<close> returns, whichever branch it takes.
\<close>

theorem compact_keeps_pairing:
  assumes "backed {} ms" "all_answered ms" "maybeCompact summarize ms system opts = Some r"
  shows "backed {} (cr_messages r) \<and> all_answered (cr_messages r)"
proof -
  let ?m = "microcompact ms (keep_window opts) 600"
  have shape: "list_all2 same_shape ms ?m" by (rule microcompact_same_shape)
  have m: "backed {} ?m" using assms(1) same_shape_backed [OF shape] by simp
  from assms(3) have "backed {} (cr_messages r)"
  proof (cases rule: maybeCompact_cases)
    case (3 c summary)
    then have "backed {} (drop c ?m)" using backed_cut [OF m] by simp
    with 3 show ?thesis by (simp add: prependSummary_def msg_results_def)
  qed (use assms m in \<open>simp_all add: uncompacted_def micro_only_def\<close>)
  then show ?thesis using maybeCompact_answered assms(2,3) by blast
qed

definition small_opts :: compaction_options where
  "small_opts = \<lparr>contextWindow = 1000, maxOutputTokens = 4, threshold = None, keepRecentTurns = Some 1,
     overheadTokens = None, knownFloorTokens = None\<rparr>"

definition small_chat :: "message list" where
  "small_chat = [user_msg (Blocks [ImageBlock ''image/png'' ''d'']), assistant_msg (StrContent ''done'')]"

lemma small_budget: "compaction_budget small_opts = 796"
  by (simp add: compaction_budget_def small_opts_def)

lemma small_micro: "microcompact small_chat n k = small_chat"
  by (auto simp: microcompact_def small_chat_def stub_message_def stub_block_def Let_def)

lemma small_occupancy: "occupancy small_chat None small_opts = 1606"
  by (simp add: occupancy_def estimateMessagesTokens_def estimateTokens_def renderTranscript_def message_text_def
      role_name_def small_opts_def small_chat_def)

lemma small_cut: "choose_cut small_chat None small_opts = 1"
  by (simp add: choose_cut_def keep_window_def findCut_def small_opts_def small_chat_def)

lemma compact_small:
  "\<exists>r. maybeCompact (\<lambda>_. Some ''s'') small_chat None small_opts = Some r \<and> cr_summary r = Some ''s''"
  by (simp add: maybeCompact_def Let_def small_budget small_micro small_occupancy small_cut)

theorem compact_keeps_pairing_witness:
  "\<exists>r. maybeCompact (\<lambda>_. Some ''s'') small_chat None small_opts = Some r
       \<and> backed {} (cr_messages r) \<and> all_answered (cr_messages r)"
proof -
  obtain r where r: "maybeCompact (\<lambda>_. Some ''s'') small_chat None small_opts = Some r"
    using compact_small by blast
  have "backed {} small_chat" "all_answered small_chat"
    by (simp_all add: small_chat_def msg_results_def msg_uses_def)
  with compact_keeps_pairing [OF _ _ r] r show ?thesis by blast
qed

text \<open>
  C28 compact_loses_nothing_unseen.  A compaction that summarises replaces exactly a prefix: the summariser saw that
  prefix (old results stubbed), the PreCompact hook saw it verbatim, and what is kept is the summary
  turn followed by the rest of the array, starting at an assistant message, with the last
  \<open>keepRecentTurns\<close> messages among it untouched.
\<close>

theorem compact_loses_nothing_unseen:
  assumes "maybeCompact summarize ms system opts = Some r" "cr_summary r = Some summary"
  shows "\<exists>c. 0 < c \<and> c < length ms
      \<and> summarize (take c (microcompact ms (keep_window opts) 600)) = Some summary
      \<and> CompactWindow (take c ms) \<in> set (cr_hooks r)
      \<and> cr_messages r = user_msg (StrContent (summaryHeader summary)) # drop c (microcompact ms (keep_window opts) 600)
      \<and> drop (max c (length ms - keep_window opts)) (microcompact ms (keep_window opts) 600)
          = drop (max c (length ms - keep_window opts)) ms"
  using assms(1)
proof (cases rule: maybeCompact_cases)
  case (3 c s)
  let ?k = "length ms - keep_window opts"
  have "drop (max c ?k) (microcompact ms (keep_window opts) 600) = drop (max c ?k) ms"
    by (simp add: microcompact_split)
  with 3 assms(2) show ?thesis by (intro exI [of _ c]) (simp add: prependSummary_def)
qed (use assms(2) in \<open>simp_all add: uncompacted_def micro_only_def\<close>)

theorem compact_loses_nothing_unseen_witness:
  "\<exists>r c. maybeCompact (\<lambda>_. Some ''s'') small_chat None small_opts = Some r
     \<and> CompactWindow (take c small_chat) \<in> set (cr_hooks r)"
proof -
  obtain r where "maybeCompact (\<lambda>_. Some ''s'') small_chat None small_opts = Some r" "cr_summary r = Some ''s''"
    using compact_small by blast
  then show ?thesis using compact_loses_nothing_unseen by blast
qed

end
