(* ===== verification/Coalescer.thy ===== *)
theory Coalescer
  imports Protocol
begin

text \<open>
  \<open>store/remote/coalescer.ts\<close>: token deltas of one kind share a window and reach the session log as one event.
  The sink is the list of frames it was handed; the window timer is the flag \<open>dc_timer\<close>, and its firing
  is a \<open>flush\<close> like the caller's own.
\<close>

datatype delta_type = TextDeltaType | ThinkingDeltaType

record coalescer =
  dc_open :: "(delta_type \<times> string) option"
  dc_timer :: bool
  dc_sunk :: "engine_event list"

definition new_coalescer :: coalescer where
  "new_coalescer = \<lparr>dc_open = None, dc_timer = False, dc_sunk = []\<rparr>"

fun delta_of :: "engine_event \<Rightarrow> (delta_type \<times> string) option" where
  "delta_of (Delta (TextDelta t)) = Some (TextDeltaType, t)"
| "delta_of (Delta (ThinkingDelta t)) = Some (ThinkingDeltaType, t)"
| "delta_of _ = None"

fun delta_frame :: "delta_type \<times> string \<Rightarrow> engine_event" where
  "delta_frame (TextDeltaType, t) = Delta (TextDelta t)"
| "delta_frame (ThinkingDeltaType, t) = Delta (ThinkingDelta t)"

definition flush_deltas :: "coalescer \<Rightarrow> coalescer" where
  "flush_deltas c =
     (let c' = c\<lparr>dc_timer := False, dc_open := None\<rparr>
      in (case dc_open c of None \<Rightarrow> c' | Some op \<Rightarrow> c'\<lparr>dc_sunk := dc_sunk c' @ [delta_frame op]\<rparr>))"

definition push_frame :: "engine_event \<Rightarrow> coalescer \<Rightarrow> coalescer" where
  "push_frame frame c =
     (case delta_of frame of
        None \<Rightarrow> (let c' = flush_deltas c in c'\<lparr>dc_sunk := dc_sunk c' @ [frame]\<rparr>)
      | Some (ty, text) \<Rightarrow>
          (case dc_open c of
             Some (ty', text') \<Rightarrow>
               (if ty' = ty then c\<lparr>dc_open := Some (ty', text' @ text)\<rparr>
                else (flush_deltas c)\<lparr>dc_open := Some (ty, text), dc_timer := True\<rparr>)
           | None \<Rightarrow> (flush_deltas c)\<lparr>dc_open := Some (ty, text), dc_timer := True\<rparr>))"

text \<open>What the caller and the timer do.\<close>

datatype coalescer_op = PushFrame engine_event | FlushWindow

fun coalescer_do :: "coalescer_op \<Rightarrow> coalescer \<Rightarrow> coalescer" where
  "coalescer_do (PushFrame f) c = push_frame f c"
| "coalescer_do FlushWindow c = flush_deltas c"

section \<open>The stream a reader sees\<close>

text \<open>Each delta character by character, every other frame whole: what a stream says, however it is cut.\<close>

datatype stream_item = DeltaChar delta_type char | Frame engine_event

definition items :: "engine_event \<Rightarrow> stream_item list" where
  "items f = (case delta_of f of None \<Rightarrow> [Frame f] | Some (ty, text) \<Rightarrow> map (DeltaChar ty) text)"

definition op_items :: "coalescer_op \<Rightarrow> stream_item list" where
  "op_items x = (case x of PushFrame f \<Rightarrow> items f | FlushWindow \<Rightarrow> [])"

definition told :: "coalescer \<Rightarrow> stream_item list" where
  "told c = concat (map items (dc_sunk c)) @ (case dc_open c of None \<Rightarrow> [] | Some (ty, text) \<Rightarrow> map (DeltaChar ty) text)"

lemma delta_of_frame [simp]: "delta_of (delta_frame p) = Some p"
  by (cases p rule: delta_frame.cases) simp_all

lemma told_flush: "told (flush_deltas c) = told c"
  by (simp add: told_def flush_deltas_def Let_def items_def split: option.splits)

lemma open_flush [simp]: "dc_open (flush_deltas c) = None"
  by (simp add: flush_deltas_def Let_def split: option.splits)

lemma told_push: "told (push_frame f c) = told c @ items f"
proof (cases "delta_of f")
  case None
  then show ?thesis
    using told_flush [of c] by (simp add: push_frame_def Let_def told_def items_def)
next
  case (Some p)
  obtain ty tx where p: "p = (ty, tx)" by (cases p)
  show ?thesis
  proof (cases "\<exists>text'. dc_open c = Some (ty, text')")
    case True
    with Some p show ?thesis by (auto simp: push_frame_def told_def items_def)
  next
    case False
    with Some p have "push_frame f c = (flush_deltas c)\<lparr>dc_open := Some (ty, tx), dc_timer := True\<rparr>"
      by (auto simp: push_frame_def split: option.splits)
    then show ?thesis
      using told_flush [of c] Some p by (simp add: told_def items_def)
  qed
qed

lemma told_do: "told (coalescer_do x c) = told c @ op_items x"
  by (cases x) (simp_all add: told_push told_flush op_items_def)

lemma told_run: "told (fold coalescer_do xs c) = told c @ concat (map op_items xs)"
  by (induction xs arbitrary: c) (simp_all add: told_do)

definition timer_ok :: "coalescer \<Rightarrow> bool" where [inv_defs]:
  "timer_ok c \<longleftrightarrow> dc_timer c = (dc_open c \<noteq> None)"

lemma timer_ok_do: "timer_ok c \<Longrightarrow> timer_ok (coalescer_do x c)"
  by (cases x) (auto simp: timer_ok_def push_frame_def flush_deltas_def Let_def split: option.splits prod.splits)

lemma timer_ok_run: "timer_ok c \<Longrightarrow> timer_ok (fold coalescer_do xs c)"
  by (induction xs arbitrary: c) (simp_all add: timer_ok_do)

section \<open>Properties\<close>

text \<open>
  For any interleaving of frames, caller flushes and timer firings, after a final flush the
  sink has been told exactly the stream that was pushed: no text lost, no frame reordered against the
  text around it; and while text is held back a timer is armed, so it does reach the sink.
\<close>

theorem coalescer_faithful:
  "concat (map items (dc_sunk (flush_deltas (fold coalescer_do xs new_coalescer)))) = concat (map op_items xs)
   \<and> dc_timer (fold coalescer_do xs new_coalescer) = (dc_open (fold coalescer_do xs new_coalescer) \<noteq> None)"
proof
  let ?c = "fold coalescer_do xs new_coalescer"
  have "told (flush_deltas ?c) = concat (map op_items xs)"
    by (simp add: told_flush told_run) (simp add: told_def new_coalescer_def)
  then show "concat (map items (dc_sunk (flush_deltas ?c))) = concat (map op_items xs)"
    by (simp add: told_def)
  have "timer_ok ?c" by (rule timer_ok_run) (simp add: timer_ok_def new_coalescer_def)
  then show "dc_timer ?c = (dc_open ?c \<noteq> None)" by (simp add: timer_ok_def)
qed

end
