(* ===== verification/AppendQueue.thy ===== *)
theory AppendQueue
  imports Protocol
begin

text \<open>
  \<open>store/append-queue.ts\<close>: the background writer.  Its state is the class's (pending lines per file in map order,
  totals, timer, counters) plus what the running drain holds: the blobs, then the batch it took.  The
  disk is what \<open>appendImpl\<close> and \<open>writeImpl\<close> were called with and succeeded; each call may fail.  Pushes
  happen between any two steps of a drain, as between its awaits.
\<close>

section \<open>State\<close>

record pending_lines =
  pl_lines :: "string list"
  pl_bytes :: int

datatype drain_phase =
    Idle
  | WritingFiles "(string \<times> string) list"
  | Appending "(string \<times> pending_lines) list"

record append_queue =
  aq_pending :: "(string, pending_lines) jmap"
  aq_totalLines :: int
  aq_totalBytes :: int
  aq_timer :: bool
  aq_drain :: drain_phase
  aq_files :: "(string, string) jmap"
  aq_dropped :: nat
  aq_failures :: nat
  aq_failedFiles :: "string list"
  aq_maxPending :: int
  aq_maxPendingBytes :: int
  aq_disk :: "(string \<times> string list) list"
  aq_blobs :: "(string \<times> string) list"

definition new_queue :: "int option \<Rightarrow> int option \<Rightarrow> append_queue" where
  "new_queue maxPending maxPendingBytes =
     \<lparr>aq_pending = [], aq_totalLines = 0, aq_totalBytes = 0, aq_timer = False, aq_drain = Idle, aq_files = [],
      aq_dropped = 0, aq_failures = 0, aq_failedFiles = [],
      aq_maxPending = (case maxPending of None \<Rightarrow> 20000 | Some n \<Rightarrow> n),
      aq_maxPendingBytes = (case maxPendingBytes of None \<Rightarrow> 64 * 1024 * 1024 | Some n \<Rightarrow> n),
      aq_disk = [], aq_blobs = []\<rparr>"

section \<open>Operations\<close>

definition schedule :: "append_queue \<Rightarrow> append_queue" where
  "schedule q = (if aq_timer q \<or> aq_drain q \<noteq> Idle then q else q\<lparr>aq_timer := True\<rparr>)"

definition pushFile :: "string \<Rightarrow> string \<Rightarrow> append_queue \<Rightarrow> append_queue" where
  "pushFile file data q = schedule (q\<lparr>aq_files := jmap_set file data (aq_files q)\<rparr>)"

text \<open>The first file with the most lines, in map order.\<close>

fun fullest_of :: "(string \<times> pending_lines) option \<Rightarrow> (string, pending_lines) jmap \<Rightarrow> (string \<times> pending_lines) option" where
  "fullest_of best [] = best"
| "fullest_of None (e # es) = fullest_of (Some e) es"
| "fullest_of (Some b) (e # es) =
     fullest_of (Some (if length (pl_lines (snd e)) > length (pl_lines (snd b)) then e else b)) es"

definition lines_bytes :: "string list \<Rightarrow> int" where
  "lines_bytes ls = sum_list (map (\<lambda>l. int (length l) + 1) ls)"

definition dropped_marker :: "string \<Rightarrow> nat \<Rightarrow> string" where
  "dropped_marker ts n =
     json_str (JObj [(''ts'', JStr ts), (''kind'', JStr ''store.dropped''), (''count'', JNum (int n)),
                     (''reason'', JStr ''append queue over cap'')])"

definition shed :: "string \<Rightarrow> append_queue \<Rightarrow> append_queue" where
  "shed ts q =
     (case fullest_of None (aq_pending q) of
        None \<Rightarrow> q
      | Some (file, p) \<Rightarrow>
          (let n = max 1 (length (pl_lines p) div 2);
               removed = take n (pl_lines p);
               bytes = lines_bytes removed;
               marker = dropped_marker ts n;
               mbytes = int (length marker) + 1;
               p' = \<lparr>pl_lines = marker # drop n (pl_lines p), pl_bytes = pl_bytes p - bytes + mbytes\<rparr>
           in q\<lparr>aq_pending := jmap_set file p' (aq_pending q),
                aq_totalLines := aq_totalLines q - int n + 1,
                aq_totalBytes := aq_totalBytes q - bytes + mbytes,
                aq_dropped := aq_dropped q + n\<rparr>))"

definition push_line :: "string \<Rightarrow> string \<Rightarrow> string \<Rightarrow> append_queue \<Rightarrow> append_queue" where
  "push_line ts file line q =
     (let p = (case map_of (aq_pending q) file of None \<Rightarrow> \<lparr>pl_lines = [], pl_bytes = 0\<rparr> | Some p \<Rightarrow> p);
          p' = \<lparr>pl_lines = pl_lines p @ [line], pl_bytes = pl_bytes p + int (length line) + 1\<rparr>;
          q1 = q\<lparr>aq_pending := jmap_set file p' (aq_pending q),
                 aq_totalLines := aq_totalLines q + 1,
                 aq_totalBytes := aq_totalBytes q + int (length line) + 1\<rparr>;
          q2 = (if aq_totalLines q1 > aq_maxPending q1 \<or> aq_totalBytes q1 > aq_maxPendingBytes q1 then shed ts q1 else q1)
      in schedule q2)"

definition size_queue :: "append_queue \<Rightarrow> int" where
  "size_queue q = aq_totalLines q + int (length (aq_files q))"

text \<open>A drain: take the blobs, write each, take the batch, append each file's lines, finish.\<close>

definition drain_begin :: "append_queue \<Rightarrow> append_queue" where
  "drain_begin q =
     (if aq_drain q \<noteq> Idle then q else q\<lparr>aq_drain := WritingFiles (aq_files q), aq_files := []\<rparr>)"

definition drain_step :: "bool \<Rightarrow> append_queue \<Rightarrow> append_queue" where
  "drain_step ok q =
     (case aq_drain q of
        Idle \<Rightarrow> q
      | WritingFiles ((file, data) # rest) \<Rightarrow>
          (if ok then q\<lparr>aq_drain := WritingFiles rest, aq_blobs := aq_blobs q @ [(file, data)]\<rparr>
           else q\<lparr>aq_drain := WritingFiles rest, aq_failures := aq_failures q + 1\<rparr>)
      | WritingFiles [] \<Rightarrow>
          q\<lparr>aq_drain := Appending (aq_pending q), aq_pending := [], aq_totalLines := 0, aq_totalBytes := 0\<rparr>
      | Appending ((file, p) # rest) \<Rightarrow>
          (if ok then
             q\<lparr>aq_drain := Appending rest, aq_disk := aq_disk q @ [(file, pl_lines p)],
               aq_failedFiles := jset_del file (aq_failedFiles q)\<rparr>
           else
             q\<lparr>aq_drain := Appending rest, aq_failures := aq_failures q + length (pl_lines p),
               aq_failedFiles := jset_add file (aq_failedFiles q)\<rparr>)
      | Appending [] \<Rightarrow>
          (let q' = q\<lparr>aq_drain := Idle\<rparr>
           in if aq_totalLines q' > 0 \<or> aq_files q' \<noteq> [] then schedule q' else q'))"

definition timer_drains :: "append_queue \<Rightarrow> append_queue" where
  "timer_drains q = (if aq_timer q then drain_begin (q\<lparr>aq_timer := False\<rparr>) else q)"

text \<open>\<open>flush\<close> cancels the timer and starts a drain whenever none runs and something waits.\<close>

definition flush_begin :: "append_queue \<Rightarrow> append_queue" where
  "flush_begin q =
     (let q' = q\<lparr>aq_timer := False\<rparr>
      in if aq_drain q' = Idle \<and> (aq_totalLines q' > 0 \<or> aq_files q' \<noteq> []) then drain_begin q' else q')"

inductive queue_step :: "append_queue \<Rightarrow> append_queue \<Rightarrow> bool" where
  q_push: "queue_step q (push_line ts file line q)"
| q_pushFile: "queue_step q (pushFile file data q)"
| q_timer: "queue_step q (timer_drains q)"
| q_flush: "queue_step q (flush_begin q)"
| q_drain: "queue_step q (drain_step ok q)"

section \<open>The counters count\<close>

definition entry_ok :: "string \<times> pending_lines \<Rightarrow> bool" where
  "entry_ok e = (pl_bytes (snd e) = lines_bytes (pl_lines (snd e)) \<and> pl_lines (snd e) \<noteq> [])"

definition total_lines :: "(string, pending_lines) jmap \<Rightarrow> int" where
  "total_lines m = sum_list (map (\<lambda>e. int (length (pl_lines (snd e)))) m)"

definition total_bytes :: "(string, pending_lines) jmap \<Rightarrow> int" where
  "total_bytes m = sum_list (map (\<lambda>e. pl_bytes (snd e)) m)"

definition queue_inv :: "append_queue \<Rightarrow> bool" where [inv_defs]:
  "queue_inv q \<longleftrightarrow>
     distinct (jmap_keys (aq_pending q)) \<and> (\<forall>e \<in> set (aq_pending q). entry_ok e) \<and>
     aq_totalLines q = total_lines (aq_pending q) \<and> aq_totalBytes q = total_bytes (aq_pending q) \<and>
     (aq_drain q = Idle \<longrightarrow> aq_timer q \<or> (aq_pending q = [] \<and> aq_files q = []))"

lemma sum_jmap_set:
  fixes f :: "'v \<Rightarrow> int"
  shows "distinct (jmap_keys m) \<Longrightarrow>
     sum_list (map (\<lambda>e. f (snd e)) (jmap_set k v m))
       = sum_list (map (\<lambda>e. f (snd e)) m) + f v - (case map_of m k of None \<Rightarrow> 0 | Some w \<Rightarrow> f w)"
proof (induction m)
  case (Cons e m)
  obtain k' v' where [simp]: "e = (k', v')" by (cases e)
  from Cons show ?case by (auto split: option.splits)
qed simp

lemma total_set:
  assumes "distinct (jmap_keys m)"
  shows "total_lines (jmap_set k p m) = total_lines m + int (length (pl_lines p))
           - (case map_of m k of None \<Rightarrow> 0 | Some w \<Rightarrow> int (length (pl_lines w)))"
    "total_bytes (jmap_set k p m) = total_bytes m + pl_bytes p
           - (case map_of m k of None \<Rightarrow> 0 | Some w \<Rightarrow> pl_bytes w)"
  using sum_jmap_set [OF assms, of "\<lambda>w. int (length (pl_lines w))" k p] sum_jmap_set [OF assms, of pl_bytes k p]
  by (simp_all add: total_lines_def total_bytes_def)

lemma lines_bytes_simps [simp]:
  "lines_bytes [] = 0" "lines_bytes (l # ls) = int (length l) + 1 + lines_bytes ls"
  "lines_bytes (ks @ ls) = lines_bytes ks + lines_bytes ls"
  by (simp_all add: lines_bytes_def)

lemma lines_bytes_take_drop: "lines_bytes (drop n ls) = lines_bytes ls - lines_bytes (take n ls)"
  using lines_bytes_simps(3) [of "take n ls" "drop n ls"] by simp

lemma fullest_of_in: "fullest_of b m = Some e \<Longrightarrow> e \<in> set m \<or> b = Some e"
proof (induction m arbitrary: b)
  case (Cons x xs)
  then show ?case by (cases b) (auto split: if_splits)
qed simp

lemma fullest_of_max:
  "fullest_of b m = Some e \<Longrightarrow> x \<in> set m \<or> b = Some x \<Longrightarrow> length (pl_lines (snd x)) \<le> length (pl_lines (snd e))"
proof (induction m arbitrary: b x)
  case (Cons y ys)
  show ?case
  proof (cases b)
    case None
    with Cons.prems have f: "fullest_of (Some y) ys = Some e" by simp
    from Cons.IH [OF f, of x] Cons.prems(2) None show ?thesis by (metis option.distinct(1) set_ConsD)
  next
    case (Some c)
    let ?d = "if length (pl_lines (snd y)) > length (pl_lines (snd c)) then y else c"
    from Cons.prems(1) Some have f: "fullest_of (Some ?d) ys = Some e" by simp
    have "length (pl_lines (snd ?d)) \<le> length (pl_lines (snd e))" by (rule Cons.IH [OF f]) simp
    moreover have "x \<in> set ys \<Longrightarrow> ?thesis" using Cons.IH [OF f] by blast
    ultimately show ?thesis using Cons.prems(2) Some by (auto split: if_splits)
  qed
qed simp

lemma fullest_of_None: "fullest_of b m = None \<longleftrightarrow> b = None \<and> m = []"
  by (induction b m rule: fullest_of.induct) simp_all

definition counts_ok :: "append_queue \<Rightarrow> bool" where [inv_defs]:
  "counts_ok q \<longleftrightarrow>
     distinct (jmap_keys (aq_pending q)) \<and> (\<forall>e \<in> set (aq_pending q). entry_ok e) \<and>
     aq_totalLines q = total_lines (aq_pending q) \<and> aq_totalBytes q = total_bytes (aq_pending q)"

lemma counts_ok_shed: "counts_ok q \<Longrightarrow> counts_ok (shed ts q)"
proof (cases "fullest_of None (aq_pending q)")
  case None
  then show "counts_ok q \<Longrightarrow> ?thesis" by (simp add: shed_def)
next
  case (Some e)
  obtain fl p where e: "e = (fl, p)" by (cases e)
  assume ok: "counts_ok q"
  have mem: "(fl, p) \<in> set (aq_pending q)" using fullest_of_in [OF Some] e by simp
  with ok have look: "map_of (aq_pending q) fl = Some p" and p: "entry_ok (fl, p)"
    by (auto simp: counts_ok_def intro: map_of_is_SomeI)
  let ?n = "max 1 (length (pl_lines p) div 2)"
  have n: "?n \<le> length (pl_lines p)" using p by (cases "pl_lines p") (auto simp: entry_ok_def)
  show ?thesis
    using ok look p n
    by (auto simp: counts_ok_def shed_def Some e Let_def total_set jm.distinct_put entry_ok_def lines_bytes_take_drop
        dest!: set_jmap_setD)
qed

lemma schedule_fields [simp]:
  "aq_pending (schedule q) = aq_pending q" "aq_totalLines (schedule q) = aq_totalLines q"
  "aq_totalBytes (schedule q) = aq_totalBytes q" "aq_files (schedule q) = aq_files q"
  "aq_drain (schedule q) = aq_drain q" "aq_disk (schedule q) = aq_disk q" "aq_blobs (schedule q) = aq_blobs q"
  "aq_dropped (schedule q) = aq_dropped q" "aq_failures (schedule q) = aq_failures q"
  "aq_maxPending (schedule q) = aq_maxPending q" "aq_maxPendingBytes (schedule q) = aq_maxPendingBytes q"
  by (simp_all add: schedule_def)

lemma counts_ok_schedule [simp]: "counts_ok (schedule q) = counts_ok q"
  by (simp add: counts_ok_def)

lemma counts_ok_push: "counts_ok q \<Longrightarrow> counts_ok (push_line ts file line q)"
proof -
  assume ok: "counts_ok q"
  define p where "p = (case map_of (aq_pending q) file of None \<Rightarrow> \<lparr>pl_lines = [], pl_bytes = 0\<rparr> | Some p \<Rightarrow> p)"
  define q1 where "q1 = q\<lparr>aq_pending := jmap_set file \<lparr>pl_lines = pl_lines p @ [line], pl_bytes = pl_bytes p + int (length line) + 1\<rparr> (aq_pending q),
                 aq_totalLines := aq_totalLines q + 1, aq_totalBytes := aq_totalBytes q + int (length line) + 1\<rparr>"
  have "pl_bytes p = lines_bytes (pl_lines p)"
    using ok by (auto simp: p_def counts_ok_def entry_ok_def split: option.splits dest!: map_of_SomeD)
  then have "counts_ok q1"
    using ok by (auto simp: q1_def p_def counts_ok_def total_set jm.distinct_put entry_ok_def
        split: option.splits dest!: set_jmap_setD)
  then show ?thesis
    by (simp add: push_line_def Let_def p_def [symmetric] q1_def [symmetric] counts_ok_shed)
qed

section \<open>A pending line always has a drain coming\<close>

definition armed :: "append_queue \<Rightarrow> bool" where [inv_defs]:
  "armed q \<longleftrightarrow> (aq_drain q = Idle \<longrightarrow> aq_timer q \<or> (aq_pending q = [] \<and> aq_files q = []))"

lemma armed_schedule: "armed (schedule q)"
  by (auto simp: armed_def schedule_def)

lemma total_lines_zero: "(\<forall>e \<in> set m. entry_ok e) \<Longrightarrow> total_lines m \<le> 0 \<Longrightarrow> m = []"
proof (cases m)
  case (Cons e es)
  assume a: "\<forall>e \<in> set m. entry_ok e" "total_lines m \<le> 0"
  moreover have "sum_list (map (\<lambda>e. int (length (pl_lines (snd e)))) es) \<ge> 0"
    by (induction es) simp_all
  moreover from a Cons have "length (pl_lines (snd e)) > 0" by (simp add: entry_ok_def)
  then have "int (length (pl_lines (snd e))) > 0" by linarith
  ultimately show ?thesis using Cons by (simp add: total_lines_def)
qed simp

lemma queue_inv_split: "queue_inv q \<longleftrightarrow> counts_ok q \<and> armed q"
  by (auto simp: queue_inv_def counts_ok_def armed_def)


lemma counts_drain_begin: "counts_ok q \<Longrightarrow> counts_ok (drain_begin q)"
  by (simp add: drain_begin_def counts_ok_def)

lemma armed_drain_begin: "armed (drain_begin q)"
  by (simp add: drain_begin_def armed_def)

lemma counts_drain_step: "counts_ok q \<Longrightarrow> counts_ok (drain_step ok q)"
  by (auto simp: drain_step_def counts_ok_def Let_def total_lines_def total_bytes_def
      split: drain_phase.splits list.splits prod.splits)

lemma waiting_iff: "counts_ok q \<Longrightarrow> (aq_totalLines q > 0) = (aq_pending q \<noteq> [])"
proof (cases "aq_pending q = []")
  case False
  assume "counts_ok q"
  with False total_lines_zero [of "aq_pending q"] have "\<not> total_lines (aq_pending q) \<le> 0" "aq_totalLines q = total_lines (aq_pending q)"
    by (auto simp: counts_ok_def)
  with False show ?thesis by simp
qed (simp add: counts_ok_def total_lines_def)

lemma armed_drain_step: "counts_ok q \<Longrightarrow> armed q \<Longrightarrow> armed (drain_step ok q)"
proof (cases "aq_drain q")
  case (Appending b)
  assume c: "counts_ok q" "armed q"
  show ?thesis
  proof (cases b)
    case Nil
    have "counts_ok (q\<lparr>aq_drain := Idle\<rparr>)" using c(1) by (simp add: counts_ok_def)
    from waiting_iff [OF this] have w: "(aq_totalLines q > 0) = (aq_pending q \<noteq> [])" by simp
    show ?thesis
    proof (cases "aq_totalLines q > 0 \<or> aq_files q \<noteq> []")
      case True
      with Appending Nil have "drain_step ok q = schedule (q\<lparr>aq_drain := Idle\<rparr>)"
        by (simp add: drain_step_def Let_def)
      then show ?thesis by (simp add: armed_schedule)
    next
      case False
      with Appending Nil w show ?thesis by (simp add: drain_step_def Let_def armed_def)
    qed
  next
    case (Cons e es)
    with Appending show ?thesis by (cases e) (simp add: drain_step_def armed_def)
  qed
next
  case (WritingFiles w)
  then show ?thesis by (cases w; cases "hd w") (simp_all add: drain_step_def armed_def)
next
  case Idle
  assume "armed q"
  with Idle show ?thesis by (simp add: drain_step_def)
qed

lemma armed_push: "armed (push_line ts file line q)"
  by (simp add: push_line_def Let_def armed_schedule)

lemma queue_inv_step: "queue_step q q' \<Longrightarrow> queue_inv q \<Longrightarrow> queue_inv q'"
proof (induction rule: queue_step.induct)
  case (q_timer q)
  then show ?case
    by (auto simp: queue_inv_split timer_drains_def armed_drain_begin intro!: counts_drain_begin)
      (auto simp: counts_ok_def)
next
  case (q_flush q)
  have c: "counts_ok (q\<lparr>aq_timer := False\<rparr>)" using q_flush by (simp add: queue_inv_split counts_ok_def)
  show ?case
    using c waiting_iff [OF c]
    by (auto simp: queue_inv_split flush_begin_def Let_def armed_drain_begin counts_drain_begin)
      (auto simp: armed_def)
next
  case (q_pushFile q fl data)
  then show ?case by (simp add: queue_inv_split pushFile_def armed_schedule) (simp add: counts_ok_def)
qed (simp_all add: queue_inv_split counts_ok_push armed_push counts_drain_step armed_drain_step)

interpretation append_queues: invariant_system queue_step queue_inv
  by unfold_locales (blast intro: queue_inv_step)

lemma queue_inv_new: "queue_inv (new_queue a b)"
  by (simp add: queue_inv_def new_queue_def total_lines_def total_bytes_def)

section \<open>What is pushed is written, in order\<close>

record queue_run =
  qr_queue :: append_queue
  qr_pushed :: "(string \<times> string) list"

inductive queue_run_step :: "queue_run \<Rightarrow> queue_run \<Rightarrow> bool" where
  r_push: "queue_run_step r (r\<lparr>qr_queue := push_line ts file line (qr_queue r), qr_pushed := qr_pushed r @ [(file, line)]\<rparr>)"
| r_pushFile: "queue_run_step r (r\<lparr>qr_queue := pushFile file data (qr_queue r)\<rparr>)"
| r_timer: "queue_run_step r (r\<lparr>qr_queue := timer_drains (qr_queue r)\<rparr>)"
| r_flush: "queue_run_step r (r\<lparr>qr_queue := flush_begin (qr_queue r)\<rparr>)"
| r_drain: "queue_run_step r (r\<lparr>qr_queue := drain_step ok (qr_queue r)\<rparr>)"

definition lines_of :: "string \<Rightarrow> (string \<times> pending_lines) list \<Rightarrow> string list" where
  "lines_of f es = concat (map (\<lambda>e. pl_lines (snd e)) (filter (\<lambda>e. fst e = f) es))"

definition disk_lines :: "string \<Rightarrow> append_queue \<Rightarrow> string list" where
  "disk_lines f q = concat (map snd (filter (\<lambda>e. fst e = f) (aq_disk q)))"

definition inflight_lines :: "string \<Rightarrow> append_queue \<Rightarrow> string list" where
  "inflight_lines f q = (case aq_drain q of Appending b \<Rightarrow> lines_of f b | _ \<Rightarrow> [])"

definition pushed_lines :: "string \<Rightarrow> (string \<times> string) list \<Rightarrow> string list" where
  "pushed_lines f ps = map snd (filter (\<lambda>e. fst e = f) ps)"

definition line_trace :: "string \<Rightarrow> append_queue \<Rightarrow> string list" where
  "line_trace f q = disk_lines f q @ inflight_lines f q @ lines_of f (aq_pending q)"

definition order_inv :: "queue_run \<Rightarrow> bool" where [inv_defs]:
  "order_inv r \<longleftrightarrow> queue_inv (qr_queue r) \<and>
     (aq_dropped (qr_queue r) = 0 \<and> aq_failures (qr_queue r) = 0
        \<longrightarrow> (\<forall>f. line_trace f (qr_queue r) = pushed_lines f (qr_pushed r)))
     \<and> (case aq_drain (qr_queue r) of Appending b \<Rightarrow> distinct (map fst b) \<and> (\<forall>e \<in> set b. entry_ok e) | _ \<Rightarrow> True)"

lemma lines_of_simps [simp]:
  "lines_of f [] = []"
  "lines_of f (e # es) = (if fst e = f then pl_lines (snd e) else []) @ lines_of f es"
  by (simp_all add: lines_of_def)

lemma lines_of_absent: "f \<notin> fst ` set es \<Longrightarrow> lines_of f es = []"
  by (induction es) auto

lemma lines_of_set:
  "distinct (map fst m) \<Longrightarrow> lines_of f (jmap_set k p m) = (if f = k then pl_lines p else lines_of f m)"
proof (induction k p m rule: jmap_set.induct)
  case (2 k v k' v' m)
  then show ?case by (auto simp: lines_of_absent)
qed simp

lemma lines_of_get:
  "distinct (map fst m) \<Longrightarrow> lines_of f m = (case map_of m f of None \<Rightarrow> [] | Some p \<Rightarrow> pl_lines p)"
proof (induction m)
  case (Cons e m)
  obtain k p where [simp]: "e = (k, p)" by (cases e)
  from Cons show ?case by (auto simp: lines_of_absent)
qed simp

lemma shed_dropped: "aq_pending q \<noteq> [] \<Longrightarrow> aq_dropped (shed ts q) > 0"
  by (cases "fullest_of None (aq_pending q)") (auto simp: shed_def Let_def fullest_of_None split: prod.splits)

lemma jmap_set_not_Nil [simp]: "jmap_set k v m \<noteq> []"
  by (induction k v m rule: jmap_set.induct) simp_all

lemma push_line_trace:
  assumes "aq_dropped (push_line ts fl l q) = 0" "distinct (jmap_keys (aq_pending q))"
  shows "aq_dropped q = 0 \<and> line_trace f (push_line ts fl l q) = line_trace f q @ (if f = fl then [l] else [])"
proof -
  define p where "p = (case map_of (aq_pending q) fl of None \<Rightarrow> \<lparr>pl_lines = [], pl_bytes = 0\<rparr> | Some p \<Rightarrow> p)"
  define q1 where "q1 = q\<lparr>aq_pending := jmap_set fl \<lparr>pl_lines = pl_lines p @ [l], pl_bytes = pl_bytes p + int (length l) + 1\<rparr> (aq_pending q),
                 aq_totalLines := aq_totalLines q + 1, aq_totalBytes := aq_totalBytes q + int (length l) + 1\<rparr>"
  have "aq_dropped (shed ts q1) > 0" by (intro shed_dropped) (simp add: q1_def)
  with assms(1) have "push_line ts fl l q = schedule q1"
    by (auto simp: push_line_def Let_def p_def [symmetric] q1_def [symmetric] split: if_splits)
  moreover have "pl_lines p = lines_of fl (aq_pending q)"
    by (simp add: p_def lines_of_get [OF assms(2)] split: option.splits)
  ultimately show ?thesis
    using assms by (simp add: line_trace_def disk_lines_def inflight_lines_def q1_def lines_of_set)
qed

lemma trace_schedule [simp]: "line_trace f (schedule q) = line_trace f q"
  by (simp add: line_trace_def disk_lines_def inflight_lines_def)

lemma drain_step_trace:
  assumes "aq_failures (drain_step ok q) = 0"
    "case aq_drain q of Appending b \<Rightarrow> distinct (map fst b) \<and> (\<forall>e \<in> set b. entry_ok e) | _ \<Rightarrow> True"
  shows "aq_failures q = 0 \<and> line_trace f (drain_step ok q) = line_trace f q"
proof (cases "aq_drain q")
  case (WritingFiles w)
  with assms show ?thesis
    by (cases w) (auto simp: drain_step_def line_trace_def disk_lines_def inflight_lines_def lines_of_def split: if_splits)
next
  case (Appending b)
  show ?thesis
  proof (cases b)
    case Nil
    with Appending assms show ?thesis
      by (auto simp: drain_step_def Let_def line_trace_def disk_lines_def inflight_lines_def split: if_splits)
  next
    case (Cons e es)
    with Appending assms show ?thesis
      by (cases e) (auto simp: drain_step_def line_trace_def disk_lines_def inflight_lines_def entry_ok_def
          lines_of_absent split: if_splits)
  qed
qed (use assms in \<open>simp add: drain_step_def\<close>)

lemma drain_begin_trace: "aq_failures (drain_begin q) = aq_failures q \<and> aq_dropped (drain_begin q) = aq_dropped q
    \<and> line_trace f (drain_begin q) = line_trace f q"
  by (auto simp: drain_begin_def line_trace_def disk_lines_def inflight_lines_def)

lemma timer_flush_trace:
  "aq_failures (timer_drains q) = aq_failures q" "aq_dropped (timer_drains q) = aq_dropped q"
  "line_trace f (timer_drains q) = line_trace f q"
  "aq_failures (flush_begin q) = aq_failures q" "aq_dropped (flush_begin q) = aq_dropped q"
  "line_trace f (flush_begin q) = line_trace f q"
  using drain_begin_trace [of "q\<lparr>aq_timer := False\<rparr>" f]
  by (simp_all add: timer_drains_def flush_begin_def Let_def line_trace_def disk_lines_def inflight_lines_def)

definition batch_ok :: "drain_phase \<Rightarrow> bool" where
  "batch_ok d = (case d of Appending b \<Rightarrow> distinct (map fst b) \<and> (\<forall>e \<in> set b. entry_ok e) | _ \<Rightarrow> True)"

lemma batch_ok_steps:
  "batch_ok (aq_drain q) \<Longrightarrow> batch_ok (aq_drain (push_line ts fl l q))"
  "batch_ok (aq_drain q) \<Longrightarrow> batch_ok (aq_drain (drain_begin q))"
  "batch_ok (aq_drain q) \<Longrightarrow> counts_ok q \<Longrightarrow> batch_ok (aq_drain (drain_step ok q))"
proof -
  have "aq_drain (shed ts q') = aq_drain q'" for q'
    by (simp add: shed_def Let_def split: option.splits)
  then show "batch_ok (aq_drain q) \<Longrightarrow> batch_ok (aq_drain (push_line ts fl l q))"
    by (simp add: push_line_def Let_def)
  show "batch_ok (aq_drain q) \<Longrightarrow> batch_ok (aq_drain (drain_begin q))"
    by (simp add: drain_begin_def batch_ok_def)
  show "batch_ok (aq_drain (drain_step ok q))" if "batch_ok (aq_drain q)" "counts_ok q"
  proof (cases "aq_drain q")
    case (WritingFiles w)
    with that show ?thesis
      by (cases w; cases "hd w") (simp_all add: drain_step_def batch_ok_def counts_ok_def)
  next
    case (Appending b)
    with that show ?thesis
      by (cases b; cases "hd b") (simp_all add: drain_step_def batch_ok_def Let_def)
  qed (simp add: drain_step_def batch_ok_def)
qed

lemma order_inv_alt:
  "order_inv r \<longleftrightarrow> queue_inv (qr_queue r) \<and>
     (aq_dropped (qr_queue r) = 0 \<and> aq_failures (qr_queue r) = 0
        \<longrightarrow> (\<forall>f. line_trace f (qr_queue r) = pushed_lines f (qr_pushed r)))
     \<and> batch_ok (aq_drain (qr_queue r))"
  by (simp add: order_inv_def batch_ok_def)

lemma push_line_failures [simp]: "aq_failures (push_line ts fl l q) = aq_failures q"
  by (simp add: push_line_def Let_def shed_def split: option.splits)

lemma drain_step_dropped [simp]: "aq_dropped (drain_step ok q) = aq_dropped q"
  by (simp add: drain_step_def Let_def split: drain_phase.splits list.splits)

lemma order_inv_step: "queue_run_step r r' \<Longrightarrow> order_inv r \<Longrightarrow> order_inv r'"
proof (induction rule: queue_run_step.induct)
  case (r_push r fl l ts)
  let ?q = "qr_queue r"
  have q: "queue_inv (push_line ts fl l ?q)" using r_push queue_inv_step [OF q_push] by (simp add: order_inv_alt)
  have d: "distinct (jmap_keys (aq_pending ?q))" using r_push by (simp add: order_inv_alt queue_inv_def)
  show ?case
    using r_push q push_line_trace [of ts fl l ?q, OF _ d] batch_ok_steps(1) [of ?q ts fl l]
    by (auto simp: order_inv_alt pushed_lines_def)
next
  case (r_pushFile r fl data)
  have "queue_inv (pushFile fl data (qr_queue r))"
    using r_pushFile queue_inv_step [OF q_pushFile] by (simp add: order_inv_alt)
  with r_pushFile show ?case
    by (simp add: order_inv_alt) (simp add: pushFile_def line_trace_def disk_lines_def inflight_lines_def)
next
  case (r_timer r)
  have "queue_inv (timer_drains (qr_queue r))"
    using r_timer queue_inv_step [OF q_timer] by (simp add: order_inv_alt)
  moreover have "batch_ok (aq_drain (timer_drains (qr_queue r)))"
    using r_timer batch_ok_steps(2) [of "qr_queue r\<lparr>aq_timer := False\<rparr>"] by (simp add: order_inv_alt timer_drains_def)
  ultimately show ?case using r_timer by (simp add: order_inv_alt timer_flush_trace)
next
  case (r_flush r)
  have "queue_inv (flush_begin (qr_queue r))"
    using r_flush queue_inv_step [OF q_flush] by (simp add: order_inv_alt)
  moreover have "batch_ok (aq_drain (flush_begin (qr_queue r)))"
    using r_flush batch_ok_steps(2) [of "qr_queue r\<lparr>aq_timer := False\<rparr>"] by (simp add: order_inv_alt flush_begin_def Let_def)
  ultimately show ?case using r_flush by (simp add: order_inv_alt timer_flush_trace)
next
  case (r_drain r ok)
  let ?q = "qr_queue r"
  have "queue_inv (drain_step ok ?q)" using r_drain queue_inv_step [OF q_drain] by (simp add: order_inv_alt)
  moreover have "batch_ok (aq_drain (drain_step ok ?q))"
    using r_drain batch_ok_steps(3) [of ?q ok] by (simp add: order_inv_alt queue_inv_split)
  moreover have "line_trace f (drain_step ok ?q) = line_trace f ?q \<and> aq_failures ?q = 0"
    if "aq_failures (drain_step ok ?q) = 0" for f
    using drain_step_trace [OF that, of f] r_drain by (simp add: order_inv_alt batch_ok_def)
  ultimately show ?case using r_drain by (auto simp: order_inv_alt)
qed

interpretation queue_runs: invariant_system queue_run_step order_inv
  by unfold_locales (blast intro: order_inv_step)

definition init_queue_run :: "int option \<Rightarrow> int option \<Rightarrow> queue_run" where
  "init_queue_run a b = \<lparr>qr_queue = new_queue a b, qr_pushed = []\<rparr>"

lemma order_inv_init: "order_inv (init_queue_run a b)"
  using queue_inv_new [of a b]
  by (simp add: order_inv_def init_queue_run_def)
    (simp add: new_queue_def line_trace_def disk_lines_def inflight_lines_def pushed_lines_def)

section \<open>The cap\<close>

lemma total_lines_le:
  "\<forall>e \<in> set m. length (pl_lines (snd e)) \<le> k \<Longrightarrow> total_lines m \<le> int (length m) * int k"
proof (induction m)
  case (Cons e m)
  then show ?case by (simp add: total_lines_def distrib_right)
qed (simp add: total_lines_def)

lemma shed_bound:
  assumes "counts_ok q" "3 * int (length (aq_pending q)) \<le> cap" "aq_totalLines q \<le> cap + 1"
  shows "aq_totalLines (shed ts q) \<le> cap"
proof (cases "fullest_of None (aq_pending q)")
  case None
  then have "aq_pending q = []" by (simp add: fullest_of_None)
  with assms None show ?thesis by (simp add: shed_def counts_ok_def total_lines_def)
next
  case (Some e)
  obtain fl p where e: "e = (fl, p)" by (cases e)
  let ?k = "length (pl_lines p)"
  have shed: "aq_totalLines (shed ts q) = aq_totalLines q - int (max 1 (?k div 2)) + 1"
    by (simp add: shed_def Some e Let_def)
  show ?thesis
  proof (cases "?k \<ge> 4")
    case True
    then have "max 1 (?k div 2) \<ge> 2" by linarith
    with shed assms(3) show ?thesis by linarith
  next
    case False
    have "\<forall>x \<in> set (aq_pending q). length (pl_lines (snd x)) \<le> 3"
      using fullest_of_max [OF Some] e False by fastforce
    from total_lines_le [OF this] assms(1,2) have "aq_totalLines q \<le> cap" by (simp add: counts_ok_def)
    moreover have "int (max 1 (?k div 2)) \<ge> 1" by simp
    ultimately show ?thesis using shed by linarith
  qed
qed

lemma length_jmap_set: "length (jmap_set k v m) \<le> Suc (length m)"
  by (induction k v m rule: jmap_set.induct) auto

lemma push_line_total:
  assumes "counts_ok q" "3 * (int (length (aq_pending q)) + 1) \<le> aq_maxPending q" "aq_totalLines q \<le> aq_maxPending q"
  shows "aq_totalLines (push_line ts fl l q) \<le> aq_maxPending q"
proof -
  define p where "p = (case map_of (aq_pending q) fl of None \<Rightarrow> \<lparr>pl_lines = [], pl_bytes = 0\<rparr> | Some p \<Rightarrow> p)"
  define q1 where "q1 = q\<lparr>aq_pending := jmap_set fl \<lparr>pl_lines = pl_lines p @ [l], pl_bytes = pl_bytes p + int (length l) + 1\<rparr> (aq_pending q),
                 aq_totalLines := aq_totalLines q + 1, aq_totalBytes := aq_totalBytes q + int (length l) + 1\<rparr>"
  have "pl_bytes p = lines_bytes (pl_lines p)"
    using assms(1) by (auto simp: p_def counts_ok_def entry_ok_def split: option.splits dest!: map_of_SomeD)
  then have c: "counts_ok q1"
    using assms(1) by (auto simp: q1_def p_def counts_ok_def total_set jm.distinct_put entry_ok_def
        split: option.splits dest!: set_jmap_setD)
  have "length (aq_pending q1) \<le> Suc (length (aq_pending q))" by (simp add: q1_def length_jmap_set)
  then have "aq_totalLines (shed ts q1) \<le> aq_maxPending q"
    using assms by (intro shed_bound [OF c]) (simp_all add: q1_def)
  then show ?thesis
    by (simp add: push_line_def Let_def p_def [symmetric] q1_def [symmetric]) (simp add: q1_def)
qed

section \<open>Properties\<close>

text \<open>
  For every run of pushes, timers, flushes and drain steps, as long as nothing was dropped and
  no write failed, the lines on the disk, those in the running batch and those waiting are, per file,
  exactly the lines pushed, in order.
\<close>

theorem append_in_order:
  assumes "queue_run_step\<^sup>*\<^sup>* (init_queue_run a b) r"
    "aq_dropped (qr_queue r) = 0" "aq_failures (qr_queue r) = 0"
  shows "disk_lines f (qr_queue r) @ inflight_lines f (qr_queue r) @ lines_of f (aq_pending (qr_queue r))
     = pushed_lines f (qr_pushed r)"
  using queue_runs.run_inv [OF assms(1) order_inv_init] assms(2,3)
  by (simp add: order_inv_def line_trace_def)

lemma one_push: "queue_run_step\<^sup>*\<^sup>* (init_queue_run None None)
    ((init_queue_run None None)\<lparr>qr_queue := push_line ''t'' ''f'' ''x'' (new_queue None None), qr_pushed := [(''f'', ''x'')]\<rparr>)"
  using r_push [of "init_queue_run None None" "''f''" "''x''" "''t''"]
  by (intro r_into_rtranclp) (simp add: init_queue_run_def)

theorem append_in_order_witness:
  "lines_of ''f'' (aq_pending (push_line ''t'' ''f'' ''x'' (new_queue None None))) = [''x'']"
  using append_in_order [OF one_push, of "''f''"]
  by (simp add: push_line_def new_queue_def Let_def disk_lines_def inflight_lines_def pushed_lines_def)

text \<open>
  In every reachable state the two totals are the exact line and byte counts of what waits,
  and whenever something waits either a drain is running or the flush timer is armed.
\<close>

theorem append_never_stuck:
  assumes "queue_step\<^sup>*\<^sup>* (new_queue a b) q"
  shows "aq_totalLines q = total_lines (aq_pending q) \<and> aq_totalBytes q = total_bytes (aq_pending q)
    \<and> (aq_pending q = [] \<and> aq_files q = [] \<or> aq_timer q \<or> aq_drain q \<noteq> Idle)"
  using append_queues.run_inv [OF assms queue_inv_new] by (auto simp: queue_inv_def)

theorem append_never_stuck_witness: "aq_timer (push_line ''t'' ''f'' ''x'' (new_queue None None))"
proof -
  have "queue_step\<^sup>*\<^sup>* (new_queue None None) (push_line ''t'' ''f'' ''x'' (new_queue None None))"
    by (intro r_into_rtranclp q_push)
  from append_never_stuck [OF this] show ?thesis
    by (simp add: push_line_def new_queue_def Let_def schedule_def)
qed

text \<open>
  While at most a third as many files wait as the line cap, a push keeps the number of waiting
  lines, markers included, within the cap.
\<close>

theorem append_capped:
  assumes "queue_inv q" "3 * (int (length (aq_pending q)) + 1) \<le> aq_maxPending q" "aq_totalLines q \<le> aq_maxPending q"
  shows "aq_totalLines (push_line ts fl l q) \<le> aq_maxPending q"
  using push_line_total assms by (simp add: queue_inv_split)

theorem append_capped_witness: "aq_totalLines (push_line ''t'' ''f'' ''x'' (new_queue None None)) \<le> 20000"
  using append_capped [OF queue_inv_new, of None None "''t''" "''f''" "''x''"] by (simp add: new_queue_def)

text \<open>
  The cap alone is not enforced: with more files than that, each holding a line, a push over
  the cap sheds one line, leaves a marker in its place, and the queue ends up longer than its cap.
\<close>

theorem cap_not_enforced:
  "aq_totalLines (fold (\<lambda>f. push_line ''t'' f ''x'') [''a'', ''b'', ''c''] (new_queue (Some 2) None)) = 3"
  by (simp add: push_line_def shed_def new_queue_def schedule_def Let_def)

text \<open>
  The marker of a second shed replaces the first marker and counts it as one record: after six
  pushes under a cap of four, three records are gone from the file, its only marker says two, and the
  queue's own counter says four.
\<close>

theorem marker_undercounts:
  "let q = fold (\<lambda>l. push_line ''t'' ''f'' l) [''1'', ''2'', ''3'', ''4'', ''5'', ''6''] (new_queue (Some 4) None)
   in lines_of ''f'' (aq_pending q) = [dropped_marker ''t'' 2, ''4'', ''5'', ''6''] \<and> aq_dropped q = 4"
  by (simp add: push_line_def shed_def new_queue_def schedule_def Let_def lines_bytes_def)
    (simp only: numeral_2_eq_2)

end
