(* ===== verification/Batcher.thy ===== *)
theory Batcher
  imports Protocol
begin

text \<open>
  \<open>store/remote/batcher.ts\<close>: the single in-order writer to the session store.  Every queued event has a ticket
  (its promise); \<open>ba_settled\<close> records, in order, what each promise came to.  The store's answer to a
  batch is an input of \<open>batch_ack\<close> and \<open>batch_error\<close>; the properties that speak of sequence numbers
  assume what the store documents of an acknowledgement (\<open>honest_ack\<close>).
\<close>

section \<open>State\<close>

record encoded_event =
  en_kind :: string
  en_ts :: int
  en_json :: string
  en_bytes :: nat

datatype consume_outcome = TurnOutcome | AnswerOutcome | RejectedOutcome

record inbox_consume =
  ic_requestId :: string
  ic_outcome :: consume_outcome

record queued =
  qd_ticket :: nat
  qd_event :: encoded_event
  qd_consume :: "(inbox_consume \<times> nat) option"

datatype append_error =
    ItemNotPending
  | BatchTooLargeEvent "nat option"
  | EventTooLarge nat nat
  | OtherAppendError string

datatype outcome = Resolved nat | Rejected append_error

record batcher =
  ba_queue :: "queued list"
  ba_inFlight :: "queued list"
  ba_acked :: nat
  ba_fatal :: "append_error option"
  ba_eventLimit :: "nat option"
  ba_maxEvents :: nat
  ba_maxBytes :: nat
  ba_next :: nat
  ba_settled :: "(nat \<times> outcome) list"
  ba_sent :: "(nat \<times> queued list) list"

definition new_batcher :: "nat \<Rightarrow> nat option \<Rightarrow> nat option \<Rightarrow> nat option \<Rightarrow> batcher" where
  "new_batcher afterSeq maxEvents maxBytes maxEventBytes =
     \<lparr>ba_queue = [], ba_inFlight = [], ba_acked = afterSeq, ba_fatal = None, ba_eventLimit = maxEventBytes,
      ba_maxEvents = (case maxEvents of None \<Rightarrow> 256 | Some n \<Rightarrow> n),
      ba_maxBytes = (case maxBytes of None \<Rightarrow> 1024 * 1024 | Some n \<Rightarrow> n),
      ba_next = 0, ba_settled = [], ba_sent = []\<rparr>"

section \<open>Operations\<close>

text \<open>A refusal at once (the rejected promise or the throw) issues no ticket.\<close>

definition push_event :: "encoded_event \<Rightarrow> batcher \<Rightarrow> append_error + batcher" where
  "push_event e b =
     (case ba_fatal b of
        Some err \<Rightarrow> Inl err
      | None \<Rightarrow>
          (case ba_eventLimit b of
             Some limit \<Rightarrow>
               (if en_bytes e > limit then Inl (EventTooLarge (en_bytes e) limit)
                else Inr (b\<lparr>ba_queue := ba_queue b @ [\<lparr>qd_ticket = ba_next b, qd_event = e, qd_consume = None\<rparr>],
                            ba_next := ba_next b + 1\<rparr>))
           | None \<Rightarrow>
               Inr (b\<lparr>ba_queue := ba_queue b @ [\<lparr>qd_ticket = ba_next b, qd_event = e, qd_consume = None\<rparr>],
                      ba_next := ba_next b + 1\<rparr>)))"

definition consume_group :: "nat \<Rightarrow> encoded_event list \<Rightarrow> inbox_consume \<Rightarrow> queued list" where
  "consume_group t es c =
     map (\<lambda>(i, e). \<lparr>qd_ticket = t + i, qd_event = e, qd_consume = (if i = 0 then Some (c, length es) else None)\<rparr>)
       (enumerate 0 es)"

definition consume_events :: "encoded_event list \<Rightarrow> inbox_consume \<Rightarrow> batcher \<Rightarrow> append_error + batcher" where
  "consume_events es c b =
     (case ba_fatal b of
        Some err \<Rightarrow> Inl err
      | None \<Rightarrow>
          (if es = [] then Inl (OtherAppendError ''a consuming batch needs its opening event'')
           else Inr (b\<lparr>ba_queue := ba_queue b @ consume_group (ba_next b) es c, ba_next := ba_next b + length es\<rparr>)))"

text \<open>The inner loop of \<open>drain\<close>: how many plain events the next batch takes.\<close>

fun cut_count :: "nat \<Rightarrow> nat \<Rightarrow> queued list \<Rightarrow> nat \<Rightarrow> nat \<Rightarrow> nat" where
  "cut_count maxEvents maxBytes [] n bytes = n"
| "cut_count maxEvents maxBytes (q # qs) n bytes =
     (if n < maxEvents \<and> qd_consume q = None \<and> (n = 0 \<or> bytes + en_bytes (qd_event q) \<le> maxBytes)
      then cut_count maxEvents maxBytes qs (n + 1) (bytes + en_bytes (qd_event q))
      else n)"

definition batch_size :: "batcher \<Rightarrow> nat" where
  "batch_size b =
     (case ba_queue b of
        [] \<Rightarrow> 0
      | q # _ \<Rightarrow>
          (case qd_consume q of
             Some (_, sz) \<Rightarrow> sz
           | None \<Rightarrow> cut_count (ba_maxEvents b) (ba_maxBytes b) (ba_queue b) 0 0))"

definition can_send :: "batcher \<Rightarrow> bool" where
  "can_send b = (ba_inFlight b = [] \<and> ba_queue b \<noteq> [] \<and> ba_fatal b = None)"

definition send_batch :: "batcher \<Rightarrow> batcher" where
  "send_batch b =
     (let n = batch_size b
      in b\<lparr>ba_inFlight := take n (ba_queue b), ba_queue := drop n (ba_queue b),
           ba_sent := ba_sent b @ [(ba_acked b, take n (ba_queue b))]\<rparr>)"

definition in_flight_consume :: "batcher \<Rightarrow> bool" where
  "in_flight_consume b = (case ba_inFlight b of [] \<Rightarrow> False | q # _ \<Rightarrow> qd_consume q \<noteq> None)"

definition batch_ack :: "nat \<Rightarrow> nat \<Rightarrow> batcher \<Rightarrow> batcher" where
  "batch_ack firstSeq lastSeq b =
     b\<lparr>ba_acked := lastSeq, ba_inFlight := [],
       ba_settled := ba_settled b @ map (\<lambda>(i, q). (qd_ticket q, Resolved (firstSeq + i))) (enumerate 0 (ba_inFlight b))\<rparr>"

definition reject_all :: "append_error \<Rightarrow> queued list \<Rightarrow> (nat \<times> outcome) list" where
  "reject_all err qs = map (\<lambda>q. (qd_ticket q, Rejected err)) qs"

definition stop :: "append_error \<Rightarrow> batcher \<Rightarrow> batcher" where
  "stop err b =
     b\<lparr>ba_fatal := Some err, ba_settled := ba_settled b @ reject_all err (ba_inFlight b @ ba_queue b),
       ba_inFlight := [], ba_queue := []\<rparr>"

definition batch_error :: "append_error \<Rightarrow> batcher \<Rightarrow> batcher" where
  "batch_error err b =
     (if in_flight_consume b \<and> err = ItemNotPending then
        b\<lparr>ba_settled := ba_settled b @ reject_all err (ba_inFlight b), ba_inFlight := []\<rparr>
      else
        (case (err, ba_inFlight b) of
           (BatchTooLargeEvent mx, [only]) \<Rightarrow>
             (let limit = (case mx of Some m \<Rightarrow> m | None \<Rightarrow> en_bytes (qd_event only) - 1)
              in b\<lparr>ba_eventLimit := Some limit, ba_inFlight := [],
                   ba_settled := ba_settled b @ [(qd_ticket only, Rejected (EventTooLarge (en_bytes (qd_event only)) limit))]\<rparr>)
         | _ \<Rightarrow> stop err b))"

text \<open>What the store documents of an acknowledgement: the batch got the next seqs.\<close>

definition honest_ack :: "nat \<Rightarrow> nat \<Rightarrow> batcher \<Rightarrow> bool" where
  "honest_ack firstSeq lastSeq b \<longleftrightarrow> firstSeq = ba_acked b + 1 \<and> lastSeq = ba_acked b + length (ba_inFlight b)"

inductive batch_step :: "batcher \<Rightarrow> batcher \<Rightarrow> bool" where
  s_push: "push_event e b = Inr b' \<Longrightarrow> batch_step b b'"
| s_consume: "consume_events es c b = Inr b' \<Longrightarrow> batch_step b b'"
| s_send: "can_send b \<Longrightarrow> batch_step b (send_batch b)"
| s_ack: "ba_inFlight b \<noteq> [] \<Longrightarrow> honest_ack f l b \<Longrightarrow> batch_step b (batch_ack f l b)"
| s_error: "ba_inFlight b \<noteq> [] \<Longrightarrow> batch_step b (batch_error err b)"

section \<open>Groups in the queue\<close>

text \<open>A consuming group stands whole in the queue: its head says how many follow, and none of those opens another.\<close>

function wf_queue :: "queued list \<Rightarrow> bool" where
  "wf_queue [] = True"
| "wf_queue (q # qs) =
     (case qd_consume q of
        None \<Rightarrow> wf_queue qs
      | Some (c, sz) \<Rightarrow>
          0 < sz \<and> sz \<le> Suc (length qs) \<and> (\<forall>x \<in> set (take (sz - 1) qs). qd_consume x = None)
          \<and> wf_queue (drop (sz - 1) qs))"
  by pat_completeness auto
termination by (relation "measure length") auto

lemma wf_queue_append: "wf_queue xs \<Longrightarrow> wf_queue ys \<Longrightarrow> wf_queue (xs @ ys)"
  by (induction xs rule: wf_queue.induct) (auto split: option.splits)

lemma wf_queue_plain: "\<forall>x \<in> set xs. qd_consume x = None \<Longrightarrow> wf_queue xs"
  by (induction xs rule: wf_queue.induct) auto

lemma wf_queue_drop_plain: "wf_queue xs \<Longrightarrow> \<forall>x \<in> set (take n xs). qd_consume x = None \<Longrightarrow> wf_queue (drop n xs)"
proof (induction n arbitrary: xs)
  case (Suc n)
  then show ?case by (cases xs) auto
qed simp

lemma length_consume_group [simp]: "length (consume_group t es c) = length es"
  by (simp add: consume_group_def)

lemma consume_group_nth:
  "i < length es \<Longrightarrow> consume_group t es c ! i =
     \<lparr>qd_ticket = t + i, qd_event = es ! i, qd_consume = (if i = 0 then Some (c, length es) else None)\<rparr>"
  by (simp add: consume_group_def nth_enumerate_eq)

lemma tickets_consume_group: "map qd_ticket (consume_group t es c) = [t ..< t + length es]"
  by (rule nth_equalityI) (simp_all add: consume_group_nth)

lemma wf_consume_group: "es \<noteq> [] \<Longrightarrow> wf_queue (consume_group t es c)"
proof -
  assume "es \<noteq> []"
  then have len: "0 < length es" by simp
  then obtain q qs where g: "consume_group t es c = q # qs"
    by (metis length_consume_group length_greater_0_conv neq_Nil_conv)
  have q: "qd_consume q = Some (c, length es)"
    using consume_group_nth [OF len, of t c] g by simp
  have tl: "qd_consume x = None" if "x \<in> set qs" for x
  proof -
    from that obtain i where "i < length qs" "x = qs ! i" by (metis in_set_conv_nth)
    then have "x = consume_group t es c ! Suc i" "Suc i < length es"
      using g length_consume_group [of t es c] by simp_all
    then show ?thesis by (simp add: consume_group_nth)
  qed
  have "length es = Suc (length qs)" using g length_consume_group [of t es c] by simp
  moreover from this have "drop (length es - 1) qs = []" "take (length es - 1) qs = qs" by simp_all
  ultimately show ?thesis using q tl len by (simp add: g)
qed

section \<open>The cut\<close>

definition batch_bytes :: "queued list \<Rightarrow> nat" where
  "batch_bytes qs = sum_list (map (\<lambda>q. en_bytes (qd_event q)) qs)"

lemma cut_count_ge: "n \<le> cut_count mE mB qs n bytes"
  by (induction mE mB qs n bytes rule: cut_count.induct) auto

lemma cut_count_le: "cut_count mE mB qs n bytes \<le> n + length qs"
  by (induction mE mB qs n bytes rule: cut_count.induct) auto

lemma cut_count_max: "n \<le> mE \<Longrightarrow> cut_count mE mB qs n bytes \<le> mE"
  by (induction mE mB qs n bytes rule: cut_count.induct) auto

lemma cut_count_plain: "\<forall>x \<in> set (take (cut_count mE mB qs n bytes - n) qs). qd_consume x = None"
proof (induction mE mB qs n bytes rule: cut_count.induct)
  case (2 mE mB q qs n bytes)
  show ?case
  proof (cases "n < mE \<and> qd_consume q = None \<and> (n = 0 \<or> bytes + en_bytes (qd_event q) \<le> mB)")
    case True
    let ?k = "cut_count mE mB qs (n + 1) (bytes + en_bytes (qd_event q))"
    have "n + 1 \<le> ?k" by (rule cut_count_ge)
    then have "?k - n = Suc (?k - (n + 1))" by linarith
    with True 2 show ?thesis by simp
  next
    case False
    then show ?thesis by auto
  qed
qed simp

lemma cut_count_bytes:
  "0 < n \<Longrightarrow> n = 1 \<or> bytes \<le> mB \<Longrightarrow>
     cut_count mE mB qs n bytes = 1 \<or> bytes + batch_bytes (take (cut_count mE mB qs n bytes - n) qs) \<le> mB"
proof (induction mE mB qs n bytes rule: cut_count.induct)
  case (1 mE mB n bytes)
  then show ?case by (auto simp: batch_bytes_def)
next
  case (2 mE mB q qs n bytes)
  show ?case
  proof (cases "n < mE \<and> qd_consume q = None \<and> (n = 0 \<or> bytes + en_bytes (qd_event q) \<le> mB)")
    case True
    let ?k = "cut_count mE mB qs (n + 1) (bytes + en_bytes (qd_event q))"
    have "n + 1 \<le> ?k" by (rule cut_count_ge)
    then have k: "?k - n = Suc (?k - (n + 1))" "n + 1 \<le> ?k" by linarith+
    from True 2 have "?k = 1 \<or> (bytes + en_bytes (qd_event q)) + batch_bytes (take (?k - (n + 1)) qs) \<le> mB" by simp
    with True k show ?thesis by (simp add: batch_bytes_def add.assoc)
  next
    case False
    then have "cut_count mE mB (q # qs) n bytes = n" by auto
    with 2(2,3) show ?thesis by (auto simp: batch_bytes_def)
  qed
qed

section \<open>Every batch is within its limits and consuming batches go alone\<close>

definition batch_fits :: "nat \<Rightarrow> nat \<Rightarrow> queued list \<Rightarrow> bool" where
  "batch_fits maxEvents maxBytes qs \<longleftrightarrow>
     (case qs of
        [] \<Rightarrow> False
      | q # rest \<Rightarrow>
          (\<forall>x \<in> set rest. qd_consume x = None) \<and>
          (case qd_consume q of
             Some (c, sz) \<Rightarrow> length qs = sz
           | None \<Rightarrow> length qs \<le> maxEvents \<and> (length qs = 1 \<or> batch_bytes qs \<le> maxBytes)))"

lemma batch_size_fits:
  assumes "ba_queue b \<noteq> []" "wf_queue (ba_queue b)" "0 < ba_maxEvents b"
  shows "batch_fits (ba_maxEvents b) (ba_maxBytes b) (take (batch_size b) (ba_queue b))
    \<and> wf_queue (drop (batch_size b) (ba_queue b))"
proof -
  obtain q qs where q: "ba_queue b = q # qs" using assms(1) by (cases "ba_queue b") auto
  show ?thesis
  proof (cases "qd_consume q")
    case None
    let ?k = "cut_count (ba_maxEvents b) (ba_maxBytes b) qs 1 (en_bytes (qd_event q))"
    have sz: "batch_size b = ?k" using q None assms(3) by (simp add: batch_size_def)
    have k: "1 \<le> ?k" "?k \<le> 1 + length qs" "?k \<le> ba_maxEvents b"
      using assms(3) cut_count_ge [of 1 "ba_maxEvents b" "ba_maxBytes b" qs "en_bytes (qd_event q)"]
        cut_count_le [of "ba_maxEvents b" "ba_maxBytes b" qs 1 "en_bytes (qd_event q)"]
        cut_count_max [of 1 "ba_maxEvents b" "ba_maxBytes b" qs "en_bytes (qd_event q)"] by simp_all
    then obtain j where j: "?k = Suc j" by (metis Suc_le_D One_nat_def)
    have plain: "\<forall>x \<in> set (take j qs). qd_consume x = None"
      using cut_count_plain [of "ba_maxEvents b" "ba_maxBytes b" qs 1 "en_bytes (qd_event q)"] j by simp
    have "?k = 1 \<or> en_bytes (qd_event q) + batch_bytes (take j qs) \<le> ba_maxBytes b"
      using cut_count_bytes [of 1 "en_bytes (qd_event q)" "ba_maxBytes b" "ba_maxEvents b" qs] j by simp
    moreover have "length (take j qs) = j" using k j by simp
    ultimately have "batch_fits (ba_maxEvents b) (ba_maxBytes b) (q # take j qs)"
      using None k j plain by (auto simp: batch_fits_def batch_bytes_def)
    moreover have "wf_queue (drop j qs)"
      using assms(2) q None plain by (intro wf_queue_drop_plain) auto
    ultimately show ?thesis using sz j q by simp
  next
    case (Some cs)
    obtain c sz where cs: "cs = (c, sz)" by (cases cs)
    from assms(2) q Some cs have wf: "0 < sz" "sz \<le> Suc (length qs)"
        "\<forall>x \<in> set (take (sz - 1) qs). qd_consume x = None" "wf_queue (drop (sz - 1) qs)" by simp_all
    then obtain j where j: "sz = Suc j" by (cases sz) auto
    have "batch_size b = sz" using q Some cs by (simp add: batch_size_def)
    with wf j q Some cs show ?thesis by (simp add: batch_fits_def min_def)
  qed
qed

definition batcher_inv :: "nat \<Rightarrow> batcher \<Rightarrow> bool" where [inv_defs]:
  "batcher_inv start b \<longleftrightarrow>
     0 < ba_maxEvents b \<and> wf_queue (ba_queue b) \<and>
     map fst (ba_settled b) @ map qd_ticket (ba_inFlight b) @ map qd_ticket (ba_queue b) = [0 ..< ba_next b] \<and>
     concat (map (\<lambda>s. case snd s of Resolved n \<Rightarrow> [n] | Rejected _ \<Rightarrow> []) (ba_settled b)) = [Suc start ..< Suc (ba_acked b)] \<and>
     start \<le> ba_acked b \<and>
     (ba_fatal b \<noteq> None \<longrightarrow> ba_queue b = [] \<and> ba_inFlight b = []) \<and>
     (\<forall>s \<in> set (ba_sent b). batch_fits (ba_maxEvents b) (ba_maxBytes b) (snd s)) \<and>
     (ba_inFlight b \<noteq> [] \<longrightarrow> ba_sent b \<noteq> [] \<and> last (ba_sent b) = (ba_acked b, ba_inFlight b))"

lemma resolved_reject_all [simp]:
  "concat (map (\<lambda>s. case snd s of Resolved n \<Rightarrow> [n] | Rejected _ \<Rightarrow> []) (reject_all err qs)) = []"
  by (induction qs) (simp_all add: reject_all_def)

lemma fst_reject_all [simp]: "map fst (reject_all err qs) = map qd_ticket qs"
  by (induction qs) (simp_all add: reject_all_def)

lemma ack_tickets: "map fst (map (\<lambda>(i, q). (qd_ticket q, g i)) (enumerate k qs)) = map qd_ticket qs"
  by (induction qs arbitrary: k) simp_all

lemma ack_seqs:
  "concat (map (\<lambda>s. case snd s of Resolved n \<Rightarrow> [n] | Rejected _ \<Rightarrow> [])
     (map (\<lambda>(i, q). (qd_ticket q, Resolved (f + i))) (enumerate k qs))) = [f + k ..< f + k + length qs]"
proof (induction qs arbitrary: k)
  case (Cons q qs)
  from Cons [of "Suc k"] show ?case by (simp add: upt_conv_Cons del: upt_Suc)
qed simp

lemma batcher_inv_push: "batcher_inv st b \<Longrightarrow> push_event e b = Inr b' \<Longrightarrow> batcher_inv st b'"
proof -
  assume inv: "batcher_inv st b" and push: "push_event e b = Inr b'"
  let ?q = "\<lparr>qd_ticket = ba_next b, qd_event = e, qd_consume = None\<rparr>"
  from push have f: "ba_fatal b = None" and b': "b' = b\<lparr>ba_queue := ba_queue b @ [?q], ba_next := ba_next b + 1\<rparr>"
    by (auto simp: push_event_def split: option.splits if_splits)
  have "map fst (ba_settled b) @ map qd_ticket (ba_inFlight b) @ map qd_ticket (ba_queue b @ [?q]) = [0 ..< ba_next b] @ [ba_next b]"
    using inv by (simp add: batcher_inv_def)
  also have "\<dots> = [0 ..< Suc (ba_next b)]" by simp
  finally have t: "map fst (ba_settled b) @ map qd_ticket (ba_inFlight b) @ map qd_ticket (ba_queue b @ [?q]) = [0 ..< Suc (ba_next b)]" .
  have "wf_queue (ba_queue b @ [?q])" using inv by (intro wf_queue_append) (simp_all add: batcher_inv_def)
  with t show ?thesis
    using inv f by (simp add: batcher_inv_def b' del: upt_Suc map_append)
qed

lemma batcher_inv_consume:
  assumes "batcher_inv st b" "consume_events es c b = Inr b'"
  shows "batcher_inv st b'"
proof -
  from assms(2) have f: "ba_fatal b = None" "es \<noteq> []"
    and b': "b' = b\<lparr>ba_queue := ba_queue b @ consume_group (ba_next b) es c, ba_next := ba_next b + length es\<rparr>"
    by (auto simp: consume_events_def split: option.splits if_splits)
  have t0: "map fst (ba_settled b) @ map qd_ticket (ba_inFlight b) @ map qd_ticket (ba_queue b) = [0 ..< ba_next b]"
    using assms(1) unfolding batcher_inv_def by blast
  have "map fst (ba_settled b) @ map qd_ticket (ba_inFlight b) @ map qd_ticket (ba_queue b @ consume_group (ba_next b) es c)
      = [0 ..< ba_next b] @ [ba_next b ..< ba_next b + length es]"
    using arg_cong [OF t0, of "\<lambda>l. l @ [ba_next b ..< ba_next b + length es]"]
    by (simp only: map_append tickets_consume_group append_assoc)
  also have "\<dots> = [0 ..< ba_next b + length es]" by (rule upt_add_eq_append [symmetric]) simp
  finally have t: "map fst (ba_settled b) @ map qd_ticket (ba_inFlight b) @ map qd_ticket (ba_queue b @ consume_group (ba_next b) es c)
      = [0 ..< ba_next b + length es]" .
  have "wf_queue (ba_queue b @ consume_group (ba_next b) es c)"
    using assms(1) wf_consume_group [OF f(2)] by (intro wf_queue_append) (simp_all add: batcher_inv_def)
  with t show ?thesis
    using assms(1) f(1) by (simp add: batcher_inv_def b' del: upt_Suc map_append)
qed

lemma batcher_inv_send:
  assumes "batcher_inv st b" "can_send b"
  shows "batcher_inv st (send_batch b)"
proof -
  have fits: "batch_fits (ba_maxEvents b) (ba_maxBytes b) (take (batch_size b) (ba_queue b))
    \<and> wf_queue (drop (batch_size b) (ba_queue b))"
    using assms by (intro batch_size_fits) (simp_all add: can_send_def batcher_inv_def)
  have "map qd_ticket (take (batch_size b) (ba_queue b)) @ map qd_ticket (drop (batch_size b) (ba_queue b))
      = map qd_ticket (ba_queue b)"
    by (metis append_take_drop_id map_append)
  with assms fits show ?thesis
    by (simp add: batcher_inv_def can_send_def send_batch_def Let_def)
qed

lemma batcher_inv_ack:
  assumes "batcher_inv st b" "honest_ack f l b"
  shows "batcher_inv st (batch_ack f l b)"
proof -
  have "[Suc st ..< Suc (ba_acked b)] @ [f ..< f + length (ba_inFlight b)] = [Suc st ..< Suc l]"
    using assms upt_add_eq_append [of "Suc st" "Suc (ba_acked b)" "length (ba_inFlight b)"]
    by (simp add: honest_ack_def batcher_inv_def del: upt_Suc)
  then show ?thesis
    using assms ack_seqs [of f 0 "ba_inFlight b"]
    by (simp add: batcher_inv_def batch_ack_def ack_tickets honest_ack_def del: upt_Suc map_map)
qed

lemma batcher_inv_stop: "batcher_inv st b \<Longrightarrow> batcher_inv st (stop err b)"
  by (simp add: batcher_inv_def stop_def del: upt_Suc)

lemma batcher_inv_error: "batcher_inv st b \<Longrightarrow> ba_inFlight b \<noteq> [] \<Longrightarrow> batcher_inv st (batch_error err b)"
proof (cases "in_flight_consume b \<and> err = ItemNotPending")
  case True
  assume "batcher_inv st b"
  with True show ?thesis by (simp add: batcher_inv_def batch_error_def del: upt_Suc)
next
  case False
  assume inv: "batcher_inv st b"
  show ?thesis
  proof (cases "\<exists>mx only. err = BatchTooLargeEvent mx \<and> ba_inFlight b = [only]")
    case True
    then obtain mx only where e: "err = BatchTooLargeEvent mx" "ba_inFlight b = [only]" by blast
    with inv show ?thesis by (simp add: batcher_inv_def batch_error_def Let_def del: upt_Suc)
  next
    case no: False
    have "batch_error err b = stop err b"
      using False no by (auto simp: batch_error_def split: append_error.splits list.splits)
    with inv show ?thesis by (simp add: batcher_inv_stop)
  qed
qed

lemma batcher_inv_step: "batch_step b b' \<Longrightarrow> batcher_inv st b \<Longrightarrow> batcher_inv st b'"
  by (induction rule: batch_step.induct)
    (erule (1) batcher_inv_push batcher_inv_consume batcher_inv_send batcher_inv_ack batcher_inv_error)+

interpretation batchers: invariant_system batch_step "batcher_inv st" for st
  by unfold_locales (blast intro: batcher_inv_step)

lemma batcher_inv_new: "maxEvents \<noteq> Some 0 \<Longrightarrow> batcher_inv st (new_batcher st maxEvents a c)"
  by (auto simp: batcher_inv_def new_batcher_def split: option.splits)

section \<open>Properties\<close>

definition sample_encoded :: encoded_event where
  "sample_encoded = \<lparr>en_kind = ''user'', en_ts = 0, en_json = ''null'', en_bytes = 4\<rparr>"

definition one_queued :: batcher where
  "one_queued = (new_batcher 7 None None None)\<lparr>ba_queue := [\<lparr>qd_ticket = 0, qd_event = sample_encoded, qd_consume = None\<rparr>], ba_next := 1\<rparr>"

lemma reach_one_queued: "batch_step\<^sup>*\<^sup>* (new_batcher 7 None None None) one_queued"
  by (intro r_into_rtranclp s_push [of sample_encoded]) (simp add: push_event_def new_batcher_def one_queued_def)

lemma reach_sent: "batch_step\<^sup>*\<^sup>* (new_batcher 7 None None None) (send_batch one_queued)"
  using reach_one_queued s_send [of one_queued]
  by (simp add: can_send_def one_queued_def new_batcher_def rtranclp.rtrancl_into_rtrancl)

lemma reach_acked: "batch_step\<^sup>*\<^sup>* (new_batcher 7 None None None) (batch_ack 8 8 (send_batch one_queued))"
  using reach_sent s_ack [of "send_batch one_queued" 8 8]
  by (simp add: honest_ack_def send_batch_def batch_size_def one_queued_def new_batcher_def Let_def
      rtranclp.rtrancl_into_rtrancl)

text \<open>
  Every ticket is settled at most once and strictly in the order it was issued: what was settled,
  then what is in flight, then what is queued are exactly the tickets issued so far, in order.
\<close>

theorem batcher_fifo:
  assumes "batch_step\<^sup>*\<^sup>* (new_batcher st maxEvents maxBytes limit) b" "maxEvents \<noteq> Some 0"
  shows "map fst (ba_settled b) @ map qd_ticket (ba_inFlight b) @ map qd_ticket (ba_queue b) = [0 ..< ba_next b]"
  using batchers.run_inv [OF assms(1) batcher_inv_new [OF assms(2)]] by (simp add: batcher_inv_def)

theorem batcher_fifo_witness: "map qd_ticket (ba_queue one_queued) = [0]"
  using batcher_fifo [OF reach_one_queued] by (simp add: one_queued_def new_batcher_def)

text \<open>
  With a store that acknowledges as documented, the sequence numbers handed to the appenders are,
  in ticket order, the contiguous range after the starting seq up to the last acknowledged one.
\<close>

theorem batcher_seqs:
  assumes "batch_step\<^sup>*\<^sup>* (new_batcher st maxEvents maxBytes limit) b" "maxEvents \<noteq> Some 0"
  shows "concat (map (\<lambda>s. case snd s of Resolved n \<Rightarrow> [n] | Rejected _ \<Rightarrow> []) (ba_settled b)) = [Suc st ..< Suc (ba_acked b)]"
  using batchers.run_inv [OF assms(1) batcher_inv_new [OF assms(2)]] by (simp add: batcher_inv_def)

theorem batcher_seqs_witness: "ba_settled (batch_ack 8 8 (send_batch one_queued)) = [(0, Resolved 8)]
    \<and> concat (map (\<lambda>s. case snd s of Resolved n \<Rightarrow> [n] | Rejected _ \<Rightarrow> []) (ba_settled (batch_ack 8 8 (send_batch one_queued)))) = [8]"
  using batcher_seqs [OF reach_acked]
  by (simp add: batch_ack_def send_batch_def batch_size_def one_queued_def new_batcher_def)

text \<open>
  Every batch ever sent is within the event and byte limits or a single event, and a consuming
  batch is sent alone: it holds exactly the events of its group and no plain batch holds any of them.
\<close>

theorem batches_fit:
  assumes "batch_step\<^sup>*\<^sup>* (new_batcher st maxEvents maxBytes limit) b" "maxEvents \<noteq> Some 0" "(after, qs) \<in> set (ba_sent b)"
  shows "batch_fits (ba_maxEvents b) (ba_maxBytes b) qs"
  using batchers.run_inv [OF assms(1) batcher_inv_new [OF assms(2)]] assms(3) by (auto simp: batcher_inv_def)

theorem batches_fit_witness:
  "batch_fits 256 1048576 [\<lparr>qd_ticket = 0, qd_event = sample_encoded, qd_consume = None\<rparr>]"
  using batches_fit [OF reach_sent, of 7 "[\<lparr>qd_ticket = 0, qd_event = sample_encoded, qd_consume = None\<rparr>]"]
  by (simp add: send_batch_def batch_size_def one_queued_def new_batcher_def)

text \<open>
  After a fatal error nothing is pending and nothing more is accepted: every promise made
  before is settled, and every later push or consuming append is refused with that error.
\<close>

theorem batcher_fails_closed:
  assumes "batch_step\<^sup>*\<^sup>* (new_batcher st maxEvents maxBytes limit) b" "maxEvents \<noteq> Some 0" "ba_fatal b = Some err"
  shows "map fst (ba_settled b) = [0 ..< ba_next b] \<and> \<not> can_send b
    \<and> push_event e b = Inl err \<and> consume_events es c b = Inl err"
proof -
  have "batcher_inv st b" by (rule batchers.run_inv [OF assms(1) batcher_inv_new [OF assms(2)]])
  then have "map fst (ba_settled b) @ map qd_ticket (ba_inFlight b) @ map qd_ticket (ba_queue b) = [0 ..< ba_next b]"
    and "ba_fatal b \<noteq> None \<longrightarrow> ba_queue b = [] \<and> ba_inFlight b = []"
    unfolding batcher_inv_def by blast+
  with assms(3) show ?thesis by (simp add: push_event_def consume_events_def can_send_def)
qed

lemma reach_stopped: "batch_step\<^sup>*\<^sup>* (new_batcher 7 None None None) (batch_error (OtherAppendError ''x'') (send_batch one_queued))"
proof (rule rtranclp.rtrancl_into_rtrancl [OF reach_sent])
  show "batch_step (send_batch one_queued) (batch_error (OtherAppendError ''x'') (send_batch one_queued))"
    by (rule s_error) (simp add: send_batch_def batch_size_def one_queued_def new_batcher_def Let_def)
qed

theorem batcher_fails_closed_witness:
  "push_event sample_encoded (batch_error (OtherAppendError ''x'') (send_batch one_queued)) = Inl (OtherAppendError ''x'')"
proof -
  have "ba_fatal (batch_error (OtherAppendError ''x'') (send_batch one_queued)) = Some (OtherAppendError ''x'')"
    by (simp add: batch_error_def stop_def)
  from batcher_fails_closed [OF reach_stopped _ this] show ?thesis by simp
qed

end
