(* ===== verification/Lease.thy ===== *)
theory Lease
  imports Prelude Complex_Main
begin

text \<open>
  \<open>store/remote/lease.ts\<close>: the keeper of a session lease.  Times are rationals in milliseconds; a timer is the time
  it fires at.  Renews in flight stay in \<open>lk_inFlight\<close> until answered, those of an earlier holding too, so a
  late answer is a step of the model.  \<open>lease_step\<close> lets time pass only up to the earliest armed timer:
  timers fire on time, answers come at any time or never.
\<close>

section \<open>State\<close>

datatype lease_state = NoLease | Held string | LeaseLost string | Released | DroppedLease

record renew_request =
  rn_generation :: nat
  rn_leaseId :: string
  rn_sent :: rat
  rn_number :: nat

record lease_keeper =
  lk_state :: lease_state
  lk_ttlS :: nat
  lk_aborted :: bool
  lk_callbacks :: "nat list"
  lk_called :: "(nat \<times> string) list"
  lk_renewAt :: "rat option"
  lk_deadlineAt :: "rat option"
  lk_deadline :: rat
  lk_deadlineSkew :: "rat option"
  lk_renewsSent :: nat
  lk_lastGoodRenew :: nat
  lk_skewLogged :: bool
  lk_generation :: nat
  lk_inFlight :: "renew_request list"
  lk_givenBack :: "string list"
  lk_now :: rat

definition ttlMs :: "lease_keeper \<Rightarrow> rat" where
  "ttlMs k = of_nat (lk_ttlS k) * 1000"

definition marginMs :: "lease_keeper \<Rightarrow> rat" where
  "marginMs k = max 1000 (ttlMs k / 6)"

definition new_keeper :: "nat option \<Rightarrow> rat \<Rightarrow> lease_keeper" where
  "new_keeper ttl now =
     \<lparr>lk_state = NoLease, lk_ttlS = (case ttl of None \<Rightarrow> 60 | Some s \<Rightarrow> s), lk_aborted = False, lk_callbacks = [],
      lk_called = [], lk_renewAt = None, lk_deadlineAt = None, lk_deadline = 0, lk_deadlineSkew = None,
      lk_renewsSent = 0, lk_lastGoodRenew = 0, lk_skewLogged = False, lk_generation = 0, lk_inFlight = [],
      lk_givenBack = [], lk_now = now\<rparr>"

definition is_held :: "lease_keeper \<Rightarrow> bool" where
  "is_held k = (case lk_state k of Held _ \<Rightarrow> True | _ \<Rightarrow> False)"

text \<open>The getter \<open>leaseId\<close>: a value while held, an error otherwise.\<close>

definition lease_id :: "lease_keeper \<Rightarrow> string + string" where
  "lease_id k =
     (case lk_state k of
        LeaseLost err \<Rightarrow> Inl err
      | Held i \<Rightarrow> Inr i
      | NoLease \<Rightarrow> Inl ''no lease held (none)''
      | Released \<Rightarrow> Inl ''no lease held (released)''
      | DroppedLease \<Rightarrow> Inl ''no lease held (dropped)'')"

section \<open>Operations\<close>

definition endHolding :: "lease_keeper \<Rightarrow> lease_keeper" where
  "endHolding k = k\<lparr>lk_renewAt := None, lk_deadlineAt := None, lk_generation := lk_generation k + 1\<rparr>"

definition armDeadline :: "rat \<Rightarrow> rat option \<Rightarrow> lease_keeper \<Rightarrow> lease_keeper" where
  "armDeadline due skew k =
     k\<lparr>lk_deadline := due, lk_deadlineSkew := skew, lk_deadlineAt := Some (lk_now k + max 0 (due - lk_now k))\<rparr>"

definition lose :: "string \<Rightarrow> lease_keeper \<Rightarrow> lease_keeper" where
  "lose err k =
     (if \<not> is_held k then k
      else
        (let k' = endHolding k
         in k'\<lparr>lk_state := LeaseLost err, lk_aborted := True,
               lk_called := lk_called k' @ map (\<lambda>cb. (cb, err)) (lk_callbacks k')\<rparr>))"

definition renew :: "nat \<Rightarrow> lease_keeper \<Rightarrow> lease_keeper" where
  "renew gen k =
     (case lk_state k of
        Held i \<Rightarrow>
          (if gen \<noteq> lk_generation k then k
           else k\<lparr>lk_renewAt := Some (lk_now k + ttlMs k / 3), lk_renewsSent := lk_renewsSent k + 1,
                  lk_inFlight := lk_inFlight k @
                    [\<lparr>rn_generation = gen, rn_leaseId = i, rn_sent = lk_now k, rn_number = lk_renewsSent k + 1\<rparr>]\<rparr>)
      | _ \<Rightarrow> k)"

definition adopt :: "string \<Rightarrow> lease_keeper \<Rightarrow> lease_keeper" where
  "adopt leaseId k =
     (let k1 = endHolding k;
          k2 = k1\<lparr>lk_aborted := False, lk_state := Held leaseId, lk_lastGoodRenew := lk_renewsSent k1, lk_skewLogged := False\<rparr>;
          k3 = armDeadline (lk_now k2 + ttlMs k2 - marginMs k2) None k2
      in renew (lk_generation k3) k3)"

definition onLost :: "nat \<Rightarrow> lease_keeper \<Rightarrow> lease_keeper" where
  "onLost cb k =
     (let k' = k\<lparr>lk_callbacks := lk_callbacks k @ [cb]\<rparr>
      in (case lk_state k' of LeaseLost err \<Rightarrow> k'\<lparr>lk_called := lk_called k' @ [(cb, err)]\<rparr> | _ \<Rightarrow> k'))"

definition release :: "lease_keeper \<Rightarrow> lease_keeper" where
  "release k =
     (let k' = endHolding k
      in (case lk_state k' of
            LeaseLost _ \<Rightarrow> k'
          | DroppedLease \<Rightarrow> k'
          | Held i \<Rightarrow> k'\<lparr>lk_state := Released, lk_givenBack := lk_givenBack k' @ [i]\<rparr>
          | _ \<Rightarrow> k'\<lparr>lk_state := Released\<rparr>))"

definition drop_lease :: "lease_keeper \<Rightarrow> lease_keeper" where
  "drop_lease k = (let k' = endHolding k in if is_held k' then k'\<lparr>lk_state := DroppedLease\<rparr> else k')"

definition renew_ok :: "renew_request \<Rightarrow> rat \<Rightarrow> lease_keeper \<Rightarrow> lease_keeper" where
  "renew_ok r expiresAt k =
     (if rn_generation r \<noteq> lk_generation k \<or> rn_number r \<le> lk_lastGoodRenew k then k
      else
        (let k' = k\<lparr>lk_lastGoodRenew := rn_number r\<rparr>;
             ours = rn_sent r + ttlMs k'
         in if expiresAt \<ge> ours then armDeadline (ours - marginMs k') None k'
            else armDeadline (expiresAt - marginMs k') (Some (expiresAt - ours)) (k'\<lparr>lk_skewLogged := True\<rparr>)))"

text \<open>A failed renew: \<open>Some err\<close> when the store answered \<open>lease_lost\<close>.\<close>

definition renew_failed :: "renew_request \<Rightarrow> string option \<Rightarrow> lease_keeper \<Rightarrow> lease_keeper" where
  "renew_failed r lost k =
     (if rn_generation r \<noteq> lk_generation k then k
      else (case lost of Some err \<Rightarrow> lose err k | None \<Rightarrow> k))"

definition deadline_fires :: "lease_keeper \<Rightarrow> lease_keeper" where
  "deadline_fires k = lose ''lease not renewed within its ttl'' (k\<lparr>lk_deadlineAt := None\<rparr>)"

definition answered :: "renew_request \<Rightarrow> lease_keeper \<Rightarrow> lease_keeper" where
  "answered r k = k\<lparr>lk_inFlight := remove1 r (lk_inFlight k)\<rparr>"

section \<open>Steps\<close>

text \<open>\<open>lr_base\<close> is the send time of the newest renew that succeeded in this holding, or of its adoption.\<close>

record lease_run =
  lr_keeper :: lease_keeper
  lr_base :: rat

definition timer_allows :: "rat \<Rightarrow> rat option \<Rightarrow> bool" where
  "timer_allows t tm = (case tm of None \<Rightarrow> True | Some f \<Rightarrow> t \<le> f)"

inductive lease_step :: "lease_run \<Rightarrow> lease_run \<Rightarrow> bool" where
  l_adopt: "lease_step r (r\<lparr>lr_keeper := adopt i (lr_keeper r), lr_base := lk_now (lr_keeper r)\<rparr>)"
| l_onLost: "lease_step r (r\<lparr>lr_keeper := onLost cb (lr_keeper r)\<rparr>)"
| l_release: "lease_step r (r\<lparr>lr_keeper := release (lr_keeper r)\<rparr>)"
| l_drop: "lease_step r (r\<lparr>lr_keeper := drop_lease (lr_keeper r)\<rparr>)"
| l_renew: "lk_renewAt (lr_keeper r) = Some t \<Longrightarrow> t \<le> lk_now (lr_keeper r) \<Longrightarrow>
     lease_step r (r\<lparr>lr_keeper := renew (lk_generation (lr_keeper r)) (lr_keeper r)\<rparr>)"
| l_ok: "q \<in> set (lk_inFlight (lr_keeper r)) \<Longrightarrow>
     lease_step r (r\<lparr>lr_keeper := answered q (renew_ok q e (lr_keeper r)),
       lr_base := (if lk_lastGoodRenew (renew_ok q e (lr_keeper r)) = lk_lastGoodRenew (lr_keeper r) then lr_base r else rn_sent q)\<rparr>)"
| l_failed: "q \<in> set (lk_inFlight (lr_keeper r)) \<Longrightarrow>
     lease_step r (r\<lparr>lr_keeper := answered q (renew_failed q lost (lr_keeper r))\<rparr>)"
| l_deadline: "lk_deadlineAt (lr_keeper r) = Some t \<Longrightarrow> t \<le> lk_now (lr_keeper r) \<Longrightarrow>
     lease_step r (r\<lparr>lr_keeper := deadline_fires (lr_keeper r)\<rparr>)"
| l_tick: "lk_now (lr_keeper r) \<le> t \<Longrightarrow> timer_allows t (lk_renewAt (lr_keeper r)) \<Longrightarrow> timer_allows t (lk_deadlineAt (lr_keeper r)) \<Longrightarrow>
     lease_step r (r\<lparr>lr_keeper := (lr_keeper r)\<lparr>lk_now := t\<rparr>\<rparr>)"

definition sends_ok :: "lease_keeper \<Rightarrow> bool" where
  "sends_ok k \<longleftrightarrow>
     (\<forall>q \<in> set (lk_inFlight k). rn_sent q \<le> lk_now k \<and> rn_number q \<le> lk_renewsSent k \<and> rn_generation q \<le> lk_generation k) \<and>
     (\<forall>p \<in> set (lk_inFlight k). \<forall>q \<in> set (lk_inFlight k). rn_number p < rn_number q \<longrightarrow> rn_sent p \<le> rn_sent q)"

definition holding_ok :: "lease_run \<Rightarrow> bool" where
  "holding_ok r \<longleftrightarrow>
     (let k = lr_keeper r
      in if is_held k then
           lr_base r \<le> lk_now k \<and>
           (\<exists>t. lk_deadlineAt k = Some t \<and> lk_now k \<le> t \<and> t \<le> lr_base r + ttlMs k - marginMs k) \<and>
           (\<forall>q \<in> set (lk_inFlight k). rn_generation q = lk_generation k \<and> lk_lastGoodRenew k < rn_number q \<longrightarrow> lr_base r \<le> rn_sent q)
         else
           lk_deadlineAt k = None \<and> lk_renewAt k = None \<and>
           (\<forall>q \<in> set (lk_inFlight k). rn_generation q < lk_generation k))"

definition lease_inv :: "lease_run \<Rightarrow> bool" where [inv_defs]:
  "lease_inv r \<longleftrightarrow> 1 \<le> lk_ttlS (lr_keeper r) \<and> sends_ok (lr_keeper r) \<and> holding_ok r
     \<and> (lk_aborted (lr_keeper r) \<longleftrightarrow> (\<exists>e. lk_state (lr_keeper r) = LeaseLost e))"

lemmas lease_ops [op_defs] =
  endHolding_def armDeadline_def lose_def renew_def adopt_def onLost_def release_def drop_lease_def
  renew_ok_def renew_failed_def deadline_fires_def answered_def Let_def

lemma is_held_iff: "is_held k \<longleftrightarrow> (\<exists>i. lk_state k = Held i)"
  by (simp add: is_held_def split: lease_state.splits)

lemma ttl_margin: "1 \<le> lk_ttlS k \<Longrightarrow> marginMs k \<le> ttlMs k"
proof -
  assume "1 \<le> lk_ttlS k"
  then have "(1::rat) \<le> of_nat (lk_ttlS k)" by simp
  then have "(1000::rat) \<le> ttlMs k" by (simp add: ttlMs_def)
  then show ?thesis by (simp add: marginMs_def)
qed

lemma ttl_update [simp]:
  "ttlMs (lk_state_update g1 k) = ttlMs k" "marginMs (lk_state_update g2 k) = marginMs k"
  "ttlMs (lk_aborted_update g3 k) = ttlMs k" "marginMs (lk_aborted_update g4 k) = marginMs k"
  "ttlMs (lk_callbacks_update g5 k) = ttlMs k" "marginMs (lk_callbacks_update g6 k) = marginMs k"
  "ttlMs (lk_called_update g7 k) = ttlMs k" "marginMs (lk_called_update g8 k) = marginMs k"
  "ttlMs (lk_renewAt_update g9 k) = ttlMs k" "marginMs (lk_renewAt_update g10 k) = marginMs k"
  "ttlMs (lk_deadlineAt_update g11 k) = ttlMs k" "marginMs (lk_deadlineAt_update g12 k) = marginMs k"
  "ttlMs (lk_deadline_update g13 k) = ttlMs k" "marginMs (lk_deadline_update g14 k) = marginMs k"
  "ttlMs (lk_deadlineSkew_update g15 k) = ttlMs k" "marginMs (lk_deadlineSkew_update g16 k) = marginMs k"
  "ttlMs (lk_renewsSent_update g17 k) = ttlMs k" "marginMs (lk_renewsSent_update g18 k) = marginMs k"
  "ttlMs (lk_lastGoodRenew_update g19 k) = ttlMs k" "marginMs (lk_lastGoodRenew_update g20 k) = marginMs k"
  "ttlMs (lk_skewLogged_update g21 k) = ttlMs k" "marginMs (lk_skewLogged_update g22 k) = marginMs k"
  "ttlMs (lk_generation_update g23 k) = ttlMs k" "marginMs (lk_generation_update g24 k) = marginMs k"
  "ttlMs (lk_inFlight_update g25 k) = ttlMs k" "marginMs (lk_inFlight_update g26 k) = marginMs k"
  "ttlMs (lk_givenBack_update g27 k) = ttlMs k" "marginMs (lk_givenBack_update g28 k) = marginMs k"
  "ttlMs (lk_now_update g29 k) = ttlMs k" "marginMs (lk_now_update g30 k) = marginMs k"
  by (simp_all add: ttlMs_def marginMs_def)

lemma is_held_update [simp]:
  "is_held (lk_aborted_update g31 k) = is_held k"
  "is_held (lk_callbacks_update g32 k) = is_held k"
  "is_held (lk_called_update g33 k) = is_held k"
  "is_held (lk_renewAt_update g34 k) = is_held k"
  "is_held (lk_deadlineAt_update g35 k) = is_held k"
  "is_held (lk_deadline_update g36 k) = is_held k"
  "is_held (lk_deadlineSkew_update g37 k) = is_held k"
  "is_held (lk_renewsSent_update g38 k) = is_held k"
  "is_held (lk_lastGoodRenew_update g39 k) = is_held k"
  "is_held (lk_skewLogged_update g40 k) = is_held k"
  "is_held (lk_generation_update g41 k) = is_held k"
  "is_held (lk_inFlight_update g42 k) = is_held k"
  "is_held (lk_givenBack_update g43 k) = is_held k"
  "is_held (lk_now_update g44 k) = is_held k"
  by (simp_all add: is_held_def)

lemma is_held_state [simp]: "is_held (k\<lparr>lk_state := st\<rparr>) = (\<exists>i. st = Held i)"
  by (simp add: is_held_iff)

section \<open>The invariant\<close>

lemma lease_inv_adopt:
  assumes "lease_inv r"
  shows "lease_inv (r\<lparr>lr_keeper := adopt i (lr_keeper r), lr_base := lk_now (lr_keeper r)\<rparr>)"
proof -
  let ?k = "lr_keeper r"
  have m: "marginMs ?k \<le> ttlMs ?k" using assms by (intro ttl_margin) (simp add: lease_inv_def)
  have s: "sends_ok ?k" using assms by (simp add: lease_inv_def)
  have "sends_ok (adopt i ?k)"
    using s by (fastforce simp: sends_ok_def adopt_def Let_def armDeadline_def endHolding_def renew_def)
  moreover have "holding_ok (r\<lparr>lr_keeper := adopt i ?k, lr_base := lk_now ?k\<rparr>)"
    using s m by (auto simp: sends_ok_def holding_ok_def adopt_def Let_def armDeadline_def endHolding_def renew_def)
  ultimately show ?thesis
    using assms by (simp add: lease_inv_def adopt_def Let_def armDeadline_def endHolding_def renew_def)
qed

lemma sends_ok_end: "sends_ok k \<Longrightarrow> sends_ok (endHolding k)"
  by (fastforce simp: sends_ok_def endHolding_def)

lemma lose_inv:
  assumes "1 \<le> lk_ttlS k" "sends_ok k" "is_held k"
  shows "lease_inv (r\<lparr>lr_keeper := lose err k\<rparr>)"
  using assms sends_ok_end [of k]
  by (auto simp: lease_inv_def lose_def Let_def holding_ok_def) (auto simp: sends_ok_def endHolding_def less_Suc_eq_le)

lemma lease_inv_ended:
  assumes "lease_inv r" "k = endHolding (lr_keeper r)" "\<not> (\<exists>i. st = Held i)"
    "(\<exists>e. st = LeaseLost e) = (\<exists>e. lk_state (lr_keeper r) = LeaseLost e)"
  shows "lease_inv (r\<lparr>lr_keeper := k\<lparr>lk_state := st, lk_givenBack := g\<rparr>\<rparr>)"
  using assms
  by (auto simp: lease_inv_def holding_ok_def Let_def sends_ok_def endHolding_def less_Suc_eq_le)

lemma lease_inv_same_state:
  assumes "lease_inv r" "k = endHolding (lr_keeper r)" "\<not> is_held (lr_keeper r)"
  shows "lease_inv (r\<lparr>lr_keeper := k\<rparr>)"
  using assms
  by (auto simp: lease_inv_def holding_ok_def Let_def sends_ok_def endHolding_def is_held_iff less_Suc_eq_le)

lemma endHolding_fields [simp]:
  "lk_state (endHolding k) = lk_state k" "lk_now (endHolding k) = lk_now k" "lk_ttlS (endHolding k) = lk_ttlS k"
  "lk_callbacks (endHolding k) = lk_callbacks k" "lk_called (endHolding k) = lk_called k"
  "lk_inFlight (endHolding k) = lk_inFlight k" "lk_generation (endHolding k) = lk_generation k + 1"
  "lk_aborted (endHolding k) = lk_aborted k" "lk_givenBack (endHolding k) = lk_givenBack k"
  "is_held (endHolding k) = is_held k"
  by (simp_all add: endHolding_def)

lemma lease_inv_release: "lease_inv r \<Longrightarrow> lease_inv (r\<lparr>lr_keeper := release (lr_keeper r)\<rparr>)"
proof -
  assume inv: "lease_inv r"
  let ?k = "endHolding (lr_keeper r)"
  show ?thesis
  proof (cases "lk_state (lr_keeper r)")
    case (Held i)
    then have "release (lr_keeper r) = ?k\<lparr>lk_state := Released, lk_givenBack := lk_givenBack ?k @ [i]\<rparr>"
      by (simp add: release_def Let_def)
    with inv Held show ?thesis by (simp add: lease_inv_ended)
  next
    case (LeaseLost e)
    then have "release (lr_keeper r) = ?k" by (simp add: release_def Let_def)
    with inv LeaseLost show ?thesis by (simp add: lease_inv_same_state is_held_iff)
  next
    case DroppedLease
    then have "release (lr_keeper r) = ?k" by (simp add: release_def Let_def)
    with inv DroppedLease show ?thesis by (simp add: lease_inv_same_state is_held_iff)
  next
    case NoLease
    then have "release (lr_keeper r) = ?k\<lparr>lk_state := Released, lk_givenBack := lk_givenBack ?k\<rparr>"
      by (simp add: release_def Let_def)
    with inv NoLease show ?thesis by (simp add: lease_inv_ended)
  next
    case Released
    then have "release (lr_keeper r) = ?k\<lparr>lk_state := Released, lk_givenBack := lk_givenBack ?k\<rparr>"
      by (simp add: release_def Let_def)
    with inv Released show ?thesis by (simp add: lease_inv_ended)
  qed
qed

lemma lease_inv_drop: "lease_inv r \<Longrightarrow> lease_inv (r\<lparr>lr_keeper := drop_lease (lr_keeper r)\<rparr>)"
proof (cases "is_held (lr_keeper r)")
  case True
  assume inv: "lease_inv r"
  let ?k = "endHolding (lr_keeper r)"
  have "drop_lease (lr_keeper r) = ?k\<lparr>lk_state := DroppedLease, lk_givenBack := lk_givenBack ?k\<rparr>"
    using True by (simp add: drop_lease_def Let_def)
  with inv True show ?thesis by (auto simp: is_held_iff intro!: lease_inv_ended)
next
  case False
  assume "lease_inv r"
  with False show ?thesis by (simp add: drop_lease_def Let_def lease_inv_same_state)
qed

lemma lease_inv_onLost: "lease_inv r \<Longrightarrow> lease_inv (r\<lparr>lr_keeper := onLost cb (lr_keeper r)\<rparr>)"
  by (auto simp: lease_inv_def onLost_def Let_def holding_ok_def sends_ok_def split: lease_state.splits)

lemma lease_inv_renew: "lease_inv r \<Longrightarrow> lease_inv (r\<lparr>lr_keeper := renew (lk_generation (lr_keeper r)) (lr_keeper r)\<rparr>)"
proof (cases "lk_state (lr_keeper r)")
  case (Held i)
  assume inv: "lease_inv r"
  let ?k = "lr_keeper r"
  have held: "is_held ?k" by (simp add: is_held_iff Held)
  have "sends_ok (renew (lk_generation ?k) ?k)"
    using inv by (fastforce simp: lease_inv_def sends_ok_def renew_def Held)
  moreover have "holding_ok (r\<lparr>lr_keeper := renew (lk_generation ?k) ?k\<rparr>)"
    using inv held by (auto simp: lease_inv_def holding_ok_def Let_def renew_def Held)
  ultimately show ?thesis using inv by (simp add: lease_inv_def renew_def Held)
qed (simp_all add: renew_def)

lemma sends_ok_answered: "sends_ok k \<Longrightarrow> sends_ok (answered q k)"
  unfolding sends_ok_def answered_def by (simp, meson notin_set_remove1)

lemma answered_inv: "lease_inv (r\<lparr>lr_keeper := k, lr_base := b\<rparr>) \<Longrightarrow> lease_inv (r\<lparr>lr_keeper := answered q k, lr_base := b\<rparr>)"
  using sends_ok_answered [of k q]
  by (auto simp: lease_inv_def holding_ok_def Let_def answered_def dest: subsetD [OF set_remove1_subset])

lemma lease_inv_deadline: "lease_inv r \<Longrightarrow> is_held (lr_keeper r) \<Longrightarrow> lease_inv (r\<lparr>lr_keeper := deadline_fires (lr_keeper r)\<rparr>)"
  unfolding deadline_fires_def
  by (rule lose_inv) (auto simp: lease_inv_def sends_ok_def)

lemma lease_inv_failed:
  assumes "lease_inv r"
  shows "lease_inv (r\<lparr>lr_keeper := renew_failed q lost (lr_keeper r)\<rparr>)"
proof (cases "rn_generation q = lk_generation (lr_keeper r) \<and> lost \<noteq> None \<and> is_held (lr_keeper r)")
  case True
  then obtain err where "lost = Some err" by auto
  with True assms show ?thesis
    by (simp add: renew_failed_def lose_inv lease_inv_def [of r])
next
  case False
  then have "renew_failed q lost (lr_keeper r) = lr_keeper r"
    by (auto simp: renew_failed_def lose_def split: option.splits)
  with assms show ?thesis by simp
qed

lemma lease_inv_ok:
  assumes inv: "lease_inv r" and q: "q \<in> set (lk_inFlight (lr_keeper r))"
  shows "lease_inv (r\<lparr>lr_keeper := renew_ok q e (lr_keeper r),
       lr_base := (if lk_lastGoodRenew (renew_ok q e (lr_keeper r)) = lk_lastGoodRenew (lr_keeper r) then lr_base r else rn_sent q)\<rparr>)"
proof (cases "rn_generation q \<noteq> lk_generation (lr_keeper r) \<or> rn_number q \<le> lk_lastGoodRenew (lr_keeper r)")
  case True
  with inv show ?thesis by (simp add: renew_ok_def)
next
  case False
  let ?k = "lr_keeper r"
  let ?ours = "rn_sent q + ttlMs ?k"
  have held: "is_held ?k"
    using inv q False by (auto simp: lease_inv_def holding_ok_def Let_def split: if_splits)
  then obtain i where st: "lk_state ?k = Held i" by (auto simp: is_held_iff)
  from inv held obtain t where t: "lk_now ?k \<le> t" "t \<le> lr_base r + ttlMs ?k - marginMs ?k" "lr_base r \<le> rn_sent q"
    using q False by (force simp: lease_inv_def holding_ok_def Let_def)
  have now: "rn_sent q \<le> lk_now ?k" "lk_now ?k \<le> ?ours - marginMs ?k"
    using inv q t by (auto simp: lease_inv_def sends_ok_def)
  have later: "rn_sent q \<le> rn_sent p" if "p \<in> set (lk_inFlight ?k)" "rn_number q < rn_number p" for p
    using inv q that by (auto simp: lease_inv_def sends_ok_def)
  obtain due skew b where k: "renew_ok q e ?k = armDeadline due skew (?k\<lparr>lk_lastGoodRenew := rn_number q, lk_skewLogged := b\<rparr>)"
      "due \<le> ?ours - marginMs ?k"
  proof (cases "e \<ge> ?ours")
    case True
    with False show ?thesis
      by (intro that [of "?ours - marginMs ?k" None "lk_skewLogged ?k"]) (simp_all add: renew_ok_def Let_def)
  next
    case less: False
    with False show ?thesis
      by (intro that [of "e - marginMs ?k" "Some (e - ?ours)" True]) (simp_all add: renew_ok_def Let_def)
  qed
  have "lease_inv (r\<lparr>lr_keeper := armDeadline due skew (?k\<lparr>lk_lastGoodRenew := rn_number q, lk_skewLogged := b\<rparr>), lr_base := rn_sent q\<rparr>)"
    using inv held now later k(2) st
    by (auto simp: lease_inv_def holding_ok_def Let_def armDeadline_def sends_ok_def)
  then show ?thesis using False by (simp add: k(1)) (simp add: armDeadline_def)
qed

lemma lease_inv_tick:
  assumes "lease_inv r" "lk_now (lr_keeper r) \<le> t" "timer_allows t (lk_deadlineAt (lr_keeper r))"
  shows "lease_inv (r\<lparr>lr_keeper := (lr_keeper r)\<lparr>lk_now := t\<rparr>\<rparr>)"
  using assms by (force simp: lease_inv_def holding_ok_def Let_def sends_ok_def timer_allows_def split: option.splits)

lemma deadline_held: "lease_inv r \<Longrightarrow> lk_deadlineAt (lr_keeper r) = Some t \<Longrightarrow> is_held (lr_keeper r)"
  by (auto simp: lease_inv_def holding_ok_def Let_def split: if_splits)

lemma lease_inv_step: "lease_step r s \<Longrightarrow> lease_inv r \<Longrightarrow> lease_inv s"
proof (induction rule: lease_step.induct)
  case (l_ok q r e)
  from answered_inv [OF lease_inv_ok [OF l_ok(2,1)]] show ?case .
next
  case (l_failed q r lost)
  from answered_inv [where r = r and k = "renew_failed q lost (lr_keeper r)" and b = "lr_base r" and q = q] lease_inv_failed [OF l_failed(2), of q lost]
  show ?case by simp
qed (simp_all add: lease_inv_adopt lease_inv_onLost lease_inv_release lease_inv_drop lease_inv_renew
      lease_inv_deadline deadline_held lease_inv_tick)

interpretation leases: invariant_system lease_step lease_inv
  by unfold_locales (blast intro: lease_inv_step)

lemma lease_inv_new: "ttl \<noteq> Some 0 \<Longrightarrow> lease_inv \<lparr>lr_keeper = new_keeper ttl now, lr_base = b\<rparr>"
  by (auto simp: lease_inv_def new_keeper_def sends_ok_def holding_ok_def is_held_def Let_def split: option.splits)

section \<open>Properties\<close>

text \<open>
  C25 lease_fails_closed.  However renews are answered, late, out of order, with a skewed clock, or never, the keeper
  does not hold the lease past one ttl less the margin after the send time of the newest renew that
  succeeded (or after the adoption): it has lost it by then.
\<close>

theorem lease_fails_closed:
  assumes "lease_step\<^sup>*\<^sup>* \<lparr>lr_keeper = new_keeper ttl now, lr_base = b\<rparr> r" "ttl \<noteq> Some 0"
    "lease_id (lr_keeper r) = Inr i"
  shows "lk_now (lr_keeper r) \<le> lr_base r + ttlMs (lr_keeper r) - marginMs (lr_keeper r)"
proof -
  have "lease_inv r" by (rule leases.run_inv [OF assms(1) lease_inv_new [OF assms(2)]])
  moreover have "is_held (lr_keeper r)"
    using assms(3) by (auto simp: lease_id_def is_held_iff split: lease_state.splits)
  ultimately show ?thesis by (auto simp: lease_inv_def holding_ok_def Let_def)
qed

definition adopted_run :: lease_run where
  "adopted_run = \<lparr>lr_keeper = adopt ''L'' (new_keeper None 0), lr_base = 0\<rparr>"

lemma reach_adopted: "lease_step\<^sup>*\<^sup>* \<lparr>lr_keeper = new_keeper None 0, lr_base = 0\<rparr> adopted_run"
  using l_adopt [of "\<lparr>lr_keeper = new_keeper None 0, lr_base = 0\<rparr>" "''L''"]
  by (intro r_into_rtranclp) (simp add: adopted_run_def new_keeper_def)

lemma lease_id_adopt [simp]: "lease_id (adopt i k) = Inr i"
  by (simp add: lease_id_def adopt_def Let_def armDeadline_def renew_def)

theorem lease_fails_closed_witness: "lk_now (lr_keeper adopted_run) \<le> 50000"
  using lease_fails_closed [OF reach_adopted, of "''L''"]
  by (simp add: adopted_run_def adopt_def Let_def armDeadline_def renew_def endHolding_def new_keeper_def ttlMs_def marginMs_def)

text \<open>
  Once a lease is lost, released or dropped, nothing but an adoption makes the keeper hold
  one again: no renew timer or deadline is left armed, every renew still in flight is of an earlier
  generation, and neither a success, a failure nor a loss answered to it changes the state.
\<close>

theorem lease_only_adopt_holds:
  assumes "lease_step\<^sup>*\<^sup>* \<lparr>lr_keeper = new_keeper ttl now, lr_base = b\<rparr> r" "ttl \<noteq> Some 0"
    "\<not> is_held (lr_keeper r)" "q \<in> set (lk_inFlight (lr_keeper r))"
  shows "lk_renewAt (lr_keeper r) = None \<and> lk_deadlineAt (lr_keeper r) = None
    \<and> renew_ok q e (lr_keeper r) = lr_keeper r \<and> renew_failed q lost (lr_keeper r) = lr_keeper r"
proof -
  have "lease_inv r" by (rule leases.run_inv [OF assms(1) lease_inv_new [OF assms(2)]])
  with assms(3,4) show ?thesis
    by (fastforce simp: lease_inv_def holding_ok_def Let_def renew_ok_def renew_failed_def)
qed

definition released_run :: lease_run where
  "released_run = adopted_run\<lparr>lr_keeper := release (lr_keeper adopted_run)\<rparr>"

lemma reach_released: "lease_step\<^sup>*\<^sup>* \<lparr>lr_keeper = new_keeper None 0, lr_base = 0\<rparr> released_run"
  unfolding released_run_def by (rule rtranclp.rtrancl_into_rtrancl [OF reach_adopted l_release])

definition first_renew :: renew_request where
  "first_renew = \<lparr>rn_generation = 1, rn_leaseId = ''L'', rn_sent = 0, rn_number = 1\<rparr>"

theorem lease_only_adopt_holds_witness:
  "renew_ok first_renew 60000 (lr_keeper released_run) = lr_keeper released_run"
proof -
  have "\<not> is_held (lr_keeper released_run)" "first_renew \<in> set (lk_inFlight (lr_keeper released_run))"
    by (simp_all add: released_run_def adopted_run_def release_def adopt_def Let_def armDeadline_def renew_def
        endHolding_def new_keeper_def first_renew_def is_held_iff)
  from lease_only_adopt_holds [OF reach_released _ this] show ?thesis by simp
qed

text \<open>
  The abort signal the host wires to its run is raised exactly while the current lease is lost, and
  in that state the getter throws the loss and a new callback is called at once.
\<close>

theorem lease_signal:
  assumes "lease_step\<^sup>*\<^sup>* \<lparr>lr_keeper = new_keeper ttl now, lr_base = b\<rparr> r" "ttl \<noteq> Some 0"
  shows "lk_aborted (lr_keeper r) \<longleftrightarrow>
    (\<exists>err. lease_id (lr_keeper r) = Inl err \<and> lk_called (onLost cb (lr_keeper r)) = lk_called (lr_keeper r) @ [(cb, err)])"
proof -
  have "lease_inv r" by (rule leases.run_inv [OF assms(1) lease_inv_new [OF assms(2)]])
  then show ?thesis
    by (auto simp: lease_inv_def lease_id_def onLost_def split: lease_state.splits)
qed

theorem lease_signal_witness: "\<not> lk_aborted (lr_keeper adopted_run)"
  using lease_signal [OF reach_adopted] by (simp add: adopted_run_def)

end
