(* ===== verification/BackgroundAgents.thy ===== *)
theory BackgroundAgents
  imports Inbox Sanitize Protocol
begin

text \<open>
  \<open>subagent/background.ts\<close>: the registry of background sub-agents.  Tasks are a map in start order; inboxes are
  objects that several sessions may share, so they live in a store of addresses (\<open>ba_store\<close>) and the maps
  hold addresses.  A child's runner is the event of its settling (\<open>settle\<close>, with its text or its error) at any
  later moment, or never.  \<open>emit\<close> is the inbox's own.
\<close>

section \<open>State\<close>

datatype task_status = Running | TaskDone | TaskFailed | TaskCancelled

record bg_task =
  bt_id :: string
  bt_description :: string
  bt_status :: task_status
  bt_result :: "string option"
  bt_error :: "string option"
  bt_startedAt :: int
  bt_endedAt :: "int option"
  bt_reported :: bool
  bt_aborted :: bool
  bt_outputTokens :: nat
  bt_model :: "string option"
  bt_sessionId :: "string option"
  bt_agent :: "string option"
  bt_prompt :: "string option"
  bt_steerQueue :: "string list"
  bt_foreground :: bool
  bt_owner :: "string option"
  bt_refusal :: "model_refusal option"

record bg_agents =
  ba_tasks :: "(string, bg_task) jmap"
  ba_seq :: nat
  ba_inboxes :: "(string, nat) jmap"
  ba_defaultInbox :: "nat option"
  ba_store :: "nat \<Rightarrow> inbox"
  ba_pushes :: "(nat \<times> agent_event) list"
  ba_progressMinMs :: int
  ba_lastProgressAt :: "(string, int) jmap"
  ba_progressSeq :: nat

definition new_agents :: "int \<Rightarrow> (nat \<Rightarrow> inbox) \<Rightarrow> bg_agents" where
  "new_agents minMs store =
     \<lparr>ba_tasks = [], ba_seq = 0, ba_inboxes = [], ba_defaultInbox = None, ba_store = store, ba_pushes = [],
      ba_progressMinMs = minMs, ba_lastProgressAt = [], ba_progressSeq = 0\<rparr>"

section \<open>Operations\<close>

definition attachInbox :: "nat \<Rightarrow> string option \<Rightarrow> bg_agents \<Rightarrow> bg_agents" where
  "attachInbox ref sessionId b =
     (case sessionId of None \<Rightarrow> b\<lparr>ba_defaultInbox := Some ref\<rparr> | Some s \<Rightarrow> b\<lparr>ba_inboxes := jmap_set s ref (ba_inboxes b)\<rparr>)"

definition detachInbox :: "string option \<Rightarrow> bg_agents \<Rightarrow> bg_agents" where
  "detachInbox sessionId b =
     (case sessionId of None \<Rightarrow> b\<lparr>ba_defaultInbox := None, ba_inboxes := []\<rparr> | Some s \<Rightarrow> b\<lparr>ba_inboxes := jmap_del s (ba_inboxes b)\<rparr>)"

definition inboxFor :: "bg_agents \<Rightarrow> bg_task \<Rightarrow> nat option" where
  "inboxFor b t =
     (case (case bt_owner t of Some s \<Rightarrow> map_of (ba_inboxes b) s | None \<Rightarrow> None) of
        Some ref \<Rightarrow> Some ref
      | None \<Rightarrow> ba_defaultInbox b)"

definition task_name :: "nat \<Rightarrow> string" where
  "task_name n = ''agent'' @ nat_str n"

definition fresh_task :: "string \<Rightarrow> string \<Rightarrow> string option \<Rightarrow> int \<Rightarrow> bg_task" where
  "fresh_task i description owner now =
     \<lparr>bt_id = i, bt_description = description, bt_status = Running, bt_result = None, bt_error = None,
      bt_startedAt = now, bt_endedAt = None, bt_reported = False, bt_aborted = False, bt_outputTokens = 0,
      bt_model = None, bt_sessionId = None, bt_agent = None, bt_prompt = None, bt_steerQueue = [],
      bt_foreground = False, bt_owner = owner, bt_refusal = None\<rparr>"

definition set_task :: "bg_task \<Rightarrow> bg_agents \<Rightarrow> bg_agents" where
  "set_task t b = b\<lparr>ba_tasks := jmap_set (bt_id t) t (ba_tasks b)\<rparr>"

definition track :: "string \<Rightarrow> string option \<Rightarrow> int \<Rightarrow> bg_agents \<Rightarrow> bg_agents" where
  "track description owner now b =
     (let b' = b\<lparr>ba_seq := ba_seq b + 1\<rparr>
      in set_task ((fresh_task (task_name (ba_seq b')) description owner now)\<lparr>bt_reported := True, bt_foreground := True\<rparr>) b')"

definition start_task :: "string \<Rightarrow> string option \<Rightarrow> int \<Rightarrow> bg_agents \<Rightarrow> bg_agents" where
  "start_task description owner now b =
     (let b' = b\<lparr>ba_seq := ba_seq b + 1\<rparr>
      in set_task (fresh_task (task_name (ba_seq b')) description owner now) b')"

definition emit_at :: "nat \<Rightarrow> agent_event \<Rightarrow> bg_agents \<Rightarrow> bg_agents" where
  "emit_at ref e b =
     b\<lparr>ba_store := (ba_store b)(ref := snd (emit e (ba_store b ref))), ba_pushes := ba_pushes b @ [(ref, e)]\<rparr>"

definition end_event :: "bg_task \<Rightarrow> int \<Rightarrow> agent_event" where
  "end_event t now =
     \<lparr>ev_id = bt_id t @ ''#end'', ev_source = bt_id t, ev_sourceType = AgentSource,
      ev_kind = (if bt_status t = TaskDone then Complete else ErrorEvent), ev_label = bt_description t,
      ev_body = (if bt_status t = TaskDone
                 then (case bt_result t of Some r \<Rightarrow> (if r \<noteq> [] then r else ''(no output)'') | None \<Rightarrow> ''(no output)'')
                 else ''failed: '' @ (case bt_error t of Some e \<Rightarrow> e | None \<Rightarrow> ''unknown error'')),
      ev_detailPath = None, ev_ts = now, ev_correlationId = None\<rparr>"

definition push_end :: "bg_task \<Rightarrow> int \<Rightarrow> bg_agents \<Rightarrow> bg_agents" where
  "push_end t now b =
     (case inboxFor b t of
        None \<Rightarrow> b
      | Some ref \<Rightarrow>
          (if bt_reported t then b
           else emit_at ref (end_event t now) (set_task (t\<lparr>bt_reported := True\<rparr>) b)))"

text \<open>The runner's promise settles: its text, or its error with the refusal when it is one.\<close>

definition settle :: "string \<Rightarrow> string + (string \<times> model_refusal option) \<Rightarrow> int \<Rightarrow> bg_agents \<Rightarrow> bg_agents" where
  "settle i res now b =
     (case map_of (ba_tasks b) i of
        None \<Rightarrow> b
      | Some t \<Rightarrow>
          (if bt_status t \<noteq> Running then b
           else
             (let t' = (case res of
                          Inl tx \<Rightarrow> t\<lparr>bt_status := TaskDone, bt_result := Some tx, bt_endedAt := Some now\<rparr>
                        | Inr (err, refusal) \<Rightarrow>
                            t\<lparr>bt_status := TaskFailed, bt_error := Some err,
                              bt_refusal := (case refusal of None \<Rightarrow> bt_refusal t | Some r \<Rightarrow> Some r), bt_endedAt := Some now\<rparr>)
              in push_end t' now (set_task t' b))))"

definition bySession :: "string \<Rightarrow> bg_agents \<Rightarrow> bg_task option" where
  "bySession s b = find (\<lambda>t. bt_sessionId t = Some s) (map snd (ba_tasks b))"

definition kill :: "string \<Rightarrow> int \<Rightarrow> bg_agents \<Rightarrow> bool \<times> bg_agents" where
  "kill i now b =
     (case map_of (ba_tasks b) i of
        None \<Rightarrow> (False, b)
      | Some t \<Rightarrow>
          (if bt_status t \<noteq> Running then (False, b)
           else (True, set_task (t\<lparr>bt_status := TaskCancelled, bt_endedAt := Some now, bt_aborted := True\<rparr>) b)))"

definition killBySession :: "string \<Rightarrow> int \<Rightarrow> bg_agents \<Rightarrow> bool \<times> bg_agents" where
  "killBySession s now b = (case bySession s b of None \<Rightarrow> (False, b) | Some t \<Rightarrow> kill (bt_id t) now b)"

definition steer :: "string \<Rightarrow> string \<Rightarrow> bg_agents \<Rightarrow> bool \<times> bg_agents" where
  "steer i tx b =
     (case map_of (ba_tasks b) i of
        None \<Rightarrow> (False, b)
      | Some t \<Rightarrow>
          (if bt_status t \<noteq> Running then (False, b)
           else (True, set_task (t\<lparr>bt_steerQueue := bt_steerQueue t @ [tx]\<rparr>) b)))"

definition reportUsage :: "string \<Rightarrow> nat \<Rightarrow> string option \<Rightarrow> bg_agents \<Rightarrow> bg_agents" where
  "reportUsage i outputTokens model b =
     (case map_of (ba_tasks b) i of
        None \<Rightarrow> b
      | Some t \<Rightarrow>
          set_task (t\<lparr>bt_outputTokens := bt_outputTokens t + outputTokens,
                      bt_model := (case model of Some m \<Rightarrow> (if m \<noteq> [] then Some m else bt_model t) | None \<Rightarrow> bt_model t)\<rparr>) b)"

definition reportProgress :: "string \<Rightarrow> string \<Rightarrow> int \<Rightarrow> bg_agents \<Rightarrow> bg_agents" where
  "reportProgress i status now b =
     (case map_of (ba_tasks b) i of
        None \<Rightarrow> b
      | Some t \<Rightarrow>
          (if bt_status t \<noteq> Running then b
           else (case inboxFor b t of
                   None \<Rightarrow> b
                 | Some ref \<Rightarrow>
                     (if now - (case map_of (ba_lastProgressAt b) i of None \<Rightarrow> 0 | Some l \<Rightarrow> l) < ba_progressMinMs b then b
                      else
                        (let b' = b\<lparr>ba_lastProgressAt := jmap_set i now (ba_lastProgressAt b), ba_progressSeq := ba_progressSeq b + 1\<rparr>
                         in emit_at ref
                              \<lparr>ev_id = i @ ''#p'' @ nat_str (ba_progressSeq b'), ev_source = i, ev_sourceType = AgentSource,
                               ev_kind = Progress, ev_label = bt_description t, ev_body = status, ev_detailPath = None,
                               ev_ts = now, ev_correlationId = None\<rparr> b')))))"

definition liveCount :: "bg_agents \<Rightarrow> nat" where
  "liveCount b = length (filter (\<lambda>t. bt_status t = Running \<and> \<not> bt_foreground t) (map snd (ba_tasks b)))"

definition notification :: "bg_task \<Rightarrow> string" where
  "notification t =
     (case bt_status t of
        TaskDone \<Rightarrow>
          ''[Background task '' @ bt_id t @ '' finished.]'' @ [nl]
            @ frameSubagentResult (bt_description t) (case bt_result t of Some r \<Rightarrow> r | None \<Rightarrow> [])
      | TaskCancelled \<Rightarrow> ''[Background task '' @ bt_id t @ '' '' @ [dquote] @ bt_description t @ [dquote] @ '' was cancelled.]''
      | _ \<Rightarrow> ''[Background task '' @ bt_id t @ '' '' @ [dquote] @ bt_description t @ [dquote] @ '' failed: ''
               @ (case bt_error t of Some e \<Rightarrow> e | None \<Rightarrow> ''unknown error'') @ '']'')"

definition drainable :: "string option \<Rightarrow> bg_task \<Rightarrow> bool" where
  "drainable owner t \<longleftrightarrow>
     \<not> (owner \<noteq> None \<and> bt_owner t \<noteq> owner) \<and> \<not> (bt_status t = Running \<or> bt_reported t)"

definition drainNotifications :: "string option \<Rightarrow> bg_agents \<Rightarrow> string list \<times> bg_agents" where
  "drainNotifications owner b =
     (map notification (filter (drainable owner) (map snd (ba_tasks b))),
      b\<lparr>ba_tasks := map (\<lambda>(i, t). (i, if drainable owner t then t\<lparr>bt_reported := True\<rparr> else t)) (ba_tasks b)\<rparr>)"

definition killAll :: "int \<Rightarrow> bg_agents \<Rightarrow> bg_agents" where
  "killAll now b =
     fold (\<lambda>t b. if bt_status t = Running then snd (kill (bt_id t) now b) else b) (map snd (ba_tasks b)) b"

section \<open>Each task is surfaced at most once\<close>

text \<open>
  A run with the ids the main loop was told about by \<open>drainNotifications\<close>; what was pushed to an inbox is
  in \<open>ba_pushes\<close>.  A foreground child's record is completed by its caller (\<open>complete\<close>).
\<close>

record bg_run =
  br_agents :: bg_agents
  br_told :: "string list"

definition drained_ids :: "string option \<Rightarrow> bg_agents \<Rightarrow> string list" where
  "drained_ids owner b = map bt_id (filter (drainable owner) (map snd (ba_tasks b)))"

inductive bg_step :: "bg_run \<Rightarrow> bg_run \<Rightarrow> bool" where
  b_attach: "bg_step r (r\<lparr>br_agents := attachInbox ref s (br_agents r)\<rparr>)"
| b_detach: "bg_step r (r\<lparr>br_agents := detachInbox s (br_agents r)\<rparr>)"
| b_track: "bg_step r (r\<lparr>br_agents := track d own now (br_agents r)\<rparr>)"
| b_start: "bg_step r (r\<lparr>br_agents := start_task d own now (br_agents r)\<rparr>)"
| b_settle: "bg_step r (r\<lparr>br_agents := settle i res now (br_agents r)\<rparr>)"
| b_kill: "bg_step r (r\<lparr>br_agents := snd (kill i now (br_agents r))\<rparr>)"
| b_killSession: "bg_step r (r\<lparr>br_agents := snd (killBySession s now (br_agents r))\<rparr>)"
| b_steer: "bg_step r (r\<lparr>br_agents := snd (steer i tx (br_agents r))\<rparr>)"
| b_usage: "bg_step r (r\<lparr>br_agents := reportUsage i n m (br_agents r)\<rparr>)"
| b_progress: "bg_step r (r\<lparr>br_agents := reportProgress i tx now (br_agents r)\<rparr>)"
| b_drain: "bg_step r (r\<lparr>br_agents := snd (drainNotifications own (br_agents r)),
     br_told := br_told r @ drained_ids own (br_agents r)\<rparr>)"

definition pushed_ends :: "bg_agents \<Rightarrow> string list" where
  "pushed_ends b = map ev_source (filter (\<lambda>e. \<not> is_progress e) (map snd (ba_pushes b)))"

definition task_ok :: "bg_agents \<Rightarrow> string list \<Rightarrow> string \<times> bg_task \<Rightarrow> bool" where
  "task_ok b told it \<longleftrightarrow>
     (case it of (i, t) \<Rightarrow> bt_id t = i \<and> (\<exists>n. i = task_name n \<and> n \<le> ba_seq b) \<and>
        (bt_foreground t \<longrightarrow> bt_reported t \<and> i \<notin> set told \<union> set (pushed_ends b)) \<and>
        (\<not> bt_foreground t \<longrightarrow> (bt_reported t \<longleftrightarrow> i \<in> set told \<union> set (pushed_ends b)) \<and> (bt_reported t \<longrightarrow> bt_status t \<noteq> Running)))"

definition bg_inv :: "bg_run \<Rightarrow> bool" where [inv_defs]:
  "bg_inv r \<longleftrightarrow>
     distinct (jmap_keys (ba_tasks (br_agents r))) \<and>
     (\<forall>it \<in> set (ba_tasks (br_agents r)). task_ok (br_agents r) (br_told r) it) \<and>
     distinct (br_told r @ pushed_ends (br_agents r)) \<and>
     set (br_told r @ pushed_ends (br_agents r)) \<subseteq> set (jmap_keys (ba_tasks (br_agents r)))"

lemma task_name_inject [simp]: "task_name m = task_name n \<longleftrightarrow> m = n"
  by (simp add: task_name_def)

text \<open>Replacing a task by one with the same report state, and starting a task under the next name.\<close>

definition same_report :: "bg_task \<Rightarrow> bg_task \<Rightarrow> bool" where
  "same_report t t' \<longleftrightarrow> bt_id t' = bt_id t \<and> bt_foreground t' = bt_foreground t \<and> bt_reported t' = bt_reported t
     \<and> (bt_status t' = Running \<longrightarrow> bt_status t = Running)"

lemma bg_inv_update:
  assumes "bg_inv r" "map_of (ba_tasks (br_agents r)) i = Some t" "same_report t t'"
  shows "bg_inv (r\<lparr>br_agents := set_task t' (br_agents r)\<rparr>)"
proof -
  let ?b = "br_agents r"
  have t: "(i, t) \<in> set (ba_tasks ?b)" using assms(2) by (rule map_of_SomeD)
  with assms(1) have ok: "task_ok ?b (br_told r) (i, t)" by (auto simp: bg_inv_def)
  then have i: "bt_id t' = i" using assms(3) by (simp add: task_ok_def same_report_def)
  have keys: "jmap_keys (jmap_set i t' (ba_tasks ?b)) = jmap_keys (ba_tasks ?b)"
    using assms(2) by (simp add: keys_jmap_set)
  have "task_ok ?b (br_told r) (i, t')" using ok assms(3) by (auto simp: task_ok_def same_report_def)
  then have "\<forall>it \<in> set (jmap_set i t' (ba_tasks ?b)). task_ok ?b (br_told r) it"
    using assms(1) by (auto simp: bg_inv_def dest!: set_jmap_setD)
  moreover have "task_ok (set_task t' ?b) (br_told r) it = task_ok ?b (br_told r) it" for it
    by (simp add: task_ok_def set_task_def pushed_ends_def)
  ultimately show ?thesis
    using assms(1) by (simp add: bg_inv_def set_task_def i keys pushed_ends_def)
qed

lemma bg_inv_add:
  assumes "bg_inv r" "bt_id t = task_name (Suc (ba_seq (br_agents r)))" "bt_reported t = bt_foreground t"
  shows "bg_inv (r\<lparr>br_agents := set_task t ((br_agents r)\<lparr>ba_seq := Suc (ba_seq (br_agents r))\<rparr>)\<rparr>)"
proof -
  let ?b = "br_agents r" and ?i = "bt_id t"
  have new: "?i \<notin> set (jmap_keys (ba_tasks ?b))"
    using assms(1,2) by (fastforce simp: bg_inv_def task_ok_def)
  then have none: "map_of (ba_tasks ?b) ?i = None" by (simp add: map_of_eq_None_iff)
  have app: "jmap_set ?i t (ba_tasks ?b) = ba_tasks ?b @ [(?i, t)]"
    using new by (rule jmap_set_new)
  have told: "?i \<notin> set (br_told r) \<union> set (pushed_ends ?b)"
    using assms(1) new by (auto simp: bg_inv_def)
  have old: "task_ok (set_task t (?b\<lparr>ba_seq := Suc (ba_seq ?b)\<rparr>)) (br_told r) it" if "it \<in> set (ba_tasks ?b)" for it
  proof -
    have "task_ok ?b (br_told r) it" using assms(1) that by (simp add: bg_inv_def)
    then show ?thesis by (auto simp: task_ok_def set_task_def pushed_ends_def intro: le_SucI)
  qed
  have "task_ok (set_task t (?b\<lparr>ba_seq := Suc (ba_seq ?b)\<rparr>)) (br_told r) (?i, t)"
    using assms(2,3) told by (auto simp: task_ok_def set_task_def pushed_ends_def)
  with old assms(1) new show ?thesis
    by (simp add: bg_inv_def set_task_def app pushed_ends_def) blast
qed

lemma bg_inv_other:
  assumes "bg_inv r" "ba_tasks b = ba_tasks (br_agents r)" "ba_seq b = ba_seq (br_agents r)"
    "pushed_ends b = pushed_ends (br_agents r)"
  shows "bg_inv (r\<lparr>br_agents := b\<rparr>)"
  using assms by (simp add: bg_inv_def task_ok_def)

lemma bg_inv_push_end:
  assumes inv: "bg_inv r" and t: "map_of (ba_tasks (br_agents r)) (bt_id t) = Some t" and ended: "bt_status t \<noteq> Running"
  shows "bg_inv (r\<lparr>br_agents := push_end t now (br_agents r)\<rparr>)"
proof (cases "inboxFor (br_agents r) t = None \<or> bt_reported t")
  case True
  then have "push_end t now (br_agents r) = br_agents r" by (auto simp: push_end_def split: option.splits)
  with inv show ?thesis by simp
next
  case False
  then obtain ref where ref: "inboxFor (br_agents r) t = Some ref" by auto
  let ?b = "br_agents r" and ?t = "t\<lparr>bt_reported := True\<rparr>" and ?i = "bt_id t"
  let ?b' = "emit_at ref (end_event t now) (set_task ?t ?b)"
  have b': "push_end t now ?b = ?b'" using False ref by (simp add: push_end_def)
  have mem: "(?i, t) \<in> set (ba_tasks ?b)" using t by (rule map_of_SomeD)
  with inv have ok: "task_ok ?b (br_told r) (?i, t)" by (auto simp: bg_inv_def)
  with False have fg: "\<not> bt_foreground t" and new: "?i \<notin> set (br_told r) \<union> set (pushed_ends ?b)"
    by (auto simp: task_ok_def)
  have ends: "pushed_ends ?b' = pushed_ends ?b @ [?i]"
    by (simp add: pushed_ends_def emit_at_def set_task_def end_event_def is_progress_def)
  have tasks: "ba_tasks ?b' = jmap_set ?i ?t (ba_tasks ?b)" "ba_seq ?b' = ba_seq ?b"
    by (simp_all add: emit_at_def set_task_def)
  have keys: "jmap_keys (jmap_set ?i ?t (ba_tasks ?b)) = jmap_keys (ba_tasks ?b)"
    using t by (simp add: keys_jmap_set)
  have "task_ok ?b' (br_told r) it" if it: "it \<in> set (jmap_set ?i ?t (ba_tasks ?b))" for it
  proof (cases "fst it = ?i")
    case True
    have "map_of (jmap_set ?i ?t (ba_tasks ?b)) ?i = Some ?t" by (simp add: map_of_jmap_set)
    moreover have "distinct (jmap_keys (jmap_set ?i ?t (ba_tasks ?b)))" using inv by (simp add: keys bg_inv_def)
    ultimately have "it = (?i, ?t)"
      using it True by (metis eq_fst_iff map_of_eq_Some_iff option.inject snd_conv)
    with ok fg ended ends tasks(2) show ?thesis by (auto simp: task_ok_def)
  next
    case False
    with it have "it \<in> set (ba_tasks ?b)" by (auto dest: set_jmap_setD)
    with inv have "task_ok ?b (br_told r) it" by (simp add: bg_inv_def)
    with False ends tasks(2) show ?thesis by (cases it) (auto simp: task_ok_def)
  qed
  moreover have "?i \<in> set (jmap_keys (ba_tasks ?b))" using mem by force
  ultimately show ?thesis
    using inv new by (simp add: b' bg_inv_def ends tasks keys)
qed

lemma bg_inv_settle:
  assumes inv: "bg_inv r"
  shows "bg_inv (r\<lparr>br_agents := settle i res now (br_agents r)\<rparr>)"
proof (cases "map_of (ba_tasks (br_agents r)) i")
  case None
  with inv show ?thesis by (simp add: settle_def)
next
  case (Some t)
  show ?thesis
  proof (cases "bt_status t = Running")
    case False
    with inv Some show ?thesis by (simp add: settle_def)
  next
    case True
    define t' where "t' = (case res of
                          Inl tx \<Rightarrow> t\<lparr>bt_status := TaskDone, bt_result := Some tx, bt_endedAt := Some now\<rparr>
                        | Inr (err, refusal) \<Rightarrow>
                            t\<lparr>bt_status := TaskFailed, bt_error := Some err,
                              bt_refusal := (case refusal of None \<Rightarrow> bt_refusal t | Some r \<Rightarrow> Some r), bt_endedAt := Some now\<rparr>)"
    have t': "same_report t t'" "bt_status t' \<noteq> Running"
      by (auto simp: t'_def same_report_def split: sum.splits)
    have "bt_id t = i"
      using inv map_of_SomeD [OF Some] by (fastforce simp: bg_inv_def task_ok_def)
    with t' have id: "bt_id t' = i" by (simp add: same_report_def)
    have upd: "bg_inv (r\<lparr>br_agents := set_task t' (br_agents r)\<rparr>)"
      by (rule bg_inv_update [OF inv Some t'(1)])
    have "settle i res now (br_agents r) = push_end t' now (set_task t' (br_agents r))"
      using Some True by (simp add: settle_def t'_def Let_def)
    moreover have "bg_inv (r\<lparr>br_agents := set_task t' (br_agents r)\<rparr>\<lparr>br_agents := push_end t' now (br_agents (r\<lparr>br_agents := set_task t' (br_agents r)\<rparr>))\<rparr>)"
      by (rule bg_inv_push_end [OF upd _ t'(2)]) (simp add: set_task_def map_of_jmap_set id)
    ultimately show ?thesis by simp
  qed
qed

lemma bg_inv_kill: "bg_inv r \<Longrightarrow> bg_inv (r\<lparr>br_agents := snd (kill i now (br_agents r))\<rparr>)"
  by (auto simp: kill_def same_report_def split: option.splits intro!: bg_inv_update)

lemma distinct_drained: "bg_inv r \<Longrightarrow> distinct (drained_ids own (br_agents r))
    \<and> set (drained_ids own (br_agents r)) \<subseteq> set (jmap_keys (ba_tasks (br_agents r)))"
proof -
  assume inv: "bg_inv r"
  let ?ts = "ba_tasks (br_agents r)"
  have "bt_id (snd it) = fst it" if "it \<in> set ?ts" for it
    using inv that by (cases it) (auto simp: bg_inv_def task_ok_def)
  then have ids: "map (\<lambda>it. bt_id (snd it)) (filter P ?ts) = map fst (filter P ?ts)" for P
    by (intro map_cong) auto
  have "drained_ids own (br_agents r) = map (\<lambda>it. bt_id (snd it)) (filter (\<lambda>it. drainable own (snd it)) ?ts)"
    by (simp add: drained_ids_def filter_map o_def)
  then have "drained_ids own (br_agents r) = map fst (filter (\<lambda>it. drainable own (snd it)) ?ts)"
    using ids by simp
  moreover have "distinct (map fst (filter (\<lambda>it. drainable own (snd it)) ?ts))"
    using inv by (simp add: bg_inv_def distinct_map_filter)
  ultimately show ?thesis by auto
qed

lemma bg_inv_drain:
  assumes inv: "bg_inv r"
  shows "bg_inv (r\<lparr>br_agents := snd (drainNotifications own (br_agents r)), br_told := br_told r @ drained_ids own (br_agents r)\<rparr>)"
proof -
  let ?b = "br_agents r" and ?d = "drained_ids own (br_agents r)"
  let ?b' = "snd (drainNotifications own ?b)"
  have tasks: "ba_tasks ?b' = map (\<lambda>(i, t). (i, if drainable own t then t\<lparr>bt_reported := True\<rparr> else t)) (ba_tasks ?b)"
    and rest: "pushed_ends ?b' = pushed_ends ?b" "ba_seq ?b' = ba_seq ?b"
    by (simp_all add: drainNotifications_def pushed_ends_def)
  have keys: "jmap_keys (ba_tasks ?b') = jmap_keys (ba_tasks ?b)"
    by (simp add: tasks case_prod_beta)
  have d: "distinct ?d" "set ?d \<subseteq> set (jmap_keys (ba_tasks ?b))" using distinct_drained [OF inv] by simp_all
  have uniq: "t = t'" if "(i, t) \<in> set (ba_tasks ?b)" "(i, t') \<in> set (ba_tasks ?b)" for i t t'
    using inv that by (auto simp: bg_inv_def dest: eq_key_imp_eq_value)
  have mem: "i \<in> set ?d \<longleftrightarrow> drainable own t" if "(i, t) \<in> set (ba_tasks ?b)" for i t
  proof -
    have "bt_id t' = j" if "(j, t') \<in> set (ba_tasks ?b)" for j t'
      using inv that by (auto simp: bg_inv_def task_ok_def)
    note ids = this
    show ?thesis
    proof
      assume "i \<in> set ?d"
      then obtain j t' where t': "(j, t') \<in> set (ba_tasks ?b)" "drainable own t'" "bt_id t' = i"
        by (auto simp: drained_ids_def)
      with ids have "(i, t') \<in> set (ba_tasks ?b)" by blast
      with that uniq have "t = t'" by blast
      with t' show "drainable own t" by simp
    next
      assume "drainable own t"
      moreover have "t \<in> set (map snd (ba_tasks ?b))" using that by force
      ultimately show "i \<in> set ?d" using ids [OF that] by (auto simp: drained_ids_def)
    qed
  qed
  have fresh: "i \<notin> set (br_told r) \<union> set (pushed_ends ?b)" if i: "i \<in> set ?d" for i
  proof -
    from i d(2) obtain t where t: "(i, t) \<in> set (ba_tasks ?b)" by auto
    with i mem have "drainable own t" by simp
    moreover have "task_ok ?b (br_told r) (i, t)" using inv t by (auto simp: bg_inv_def)
    ultimately show ?thesis by (auto simp: task_ok_def drainable_def)
  qed
  have "task_ok ?b' (br_told r @ ?d) (i, if drainable own t then t\<lparr>bt_reported := True\<rparr> else t)"
    if t: "(i, t) \<in> set (ba_tasks ?b)" for i t
  proof -
    have "task_ok ?b (br_told r) (i, t)" using inv t by (auto simp: bg_inv_def)
    with mem [OF t] rest show ?thesis by (auto simp: task_ok_def drainable_def)
  qed
  then have "\<forall>it \<in> set (ba_tasks ?b'). task_ok ?b' (br_told r @ ?d) it" by (auto simp: tasks)
  moreover have "distinct ((br_told r @ ?d) @ pushed_ends ?b)"
    using inv d(1) fresh by (auto simp: bg_inv_def)
  ultimately show ?thesis
    using inv d(2) by (simp add: bg_inv_def keys rest)
qed

lemma pushed_ends_progress:
  "ev_kind e = Progress \<Longrightarrow> pushed_ends (emit_at ref e b) = pushed_ends b"
  by (simp add: pushed_ends_def emit_at_def is_progress_def)

lemma bg_inv_step: "bg_step r r' \<Longrightarrow> bg_inv r \<Longrightarrow> bg_inv r'"
proof (induction rule: bg_step.induct)
  case (b_progress r i tx now)
  then show ?case
    by (auto simp: reportProgress_def Let_def pushed_ends_progress split: option.splits
        intro!: bg_inv_other) (simp_all add: emit_at_def pushed_ends_def)
next
  case (b_track r d own now)
  then show ?case by (simp add: track_def Let_def bg_inv_add fresh_task_def)
next
  case (b_start r d own now)
  then show ?case by (simp add: start_task_def Let_def bg_inv_add fresh_task_def)
next
  case (b_steer r i tx)
  then show ?case by (auto simp: steer_def same_report_def split: option.splits intro!: bg_inv_update)
next
  case (b_usage r i n m)
  then show ?case by (auto simp: reportUsage_def same_report_def split: option.splits intro!: bg_inv_update)
next
  case (b_killSession r s now)
  then show ?case by (auto simp: killBySession_def bg_inv_kill split: option.splits)
next
  case (b_attach r ref s)
  then show ?case by (auto simp: attachInbox_def pushed_ends_def split: option.splits intro!: bg_inv_other)
next
  case (b_detach r s)
  then show ?case by (auto simp: detachInbox_def pushed_ends_def split: option.splits intro!: bg_inv_other)
qed (simp_all add: bg_inv_settle bg_inv_kill bg_inv_drain)

interpretation bg_runs: invariant_system bg_step bg_inv
  by unfold_locales (blast intro: bg_inv_step)

definition init_bg :: "int \<Rightarrow> (nat \<Rightarrow> inbox) \<Rightarrow> bg_run" where
  "init_bg minMs store = \<lparr>br_agents = new_agents minMs store, br_told = []\<rparr>"

lemma bg_inv_init: "bg_inv (init_bg minMs store)"
  by (simp add: bg_inv_def init_bg_def new_agents_def pushed_ends_def)

section \<open>Properties\<close>

definition sample_agents :: bg_agents where
  "sample_agents = start_task ''look'' None 0 (attachInbox 0 None (new_agents 2000 (\<lambda>_. new_inbox)))"

lemma reach_started: "bg_step\<^sup>*\<^sup>* (init_bg 2000 (\<lambda>_. new_inbox)) \<lparr>br_agents = sample_agents, br_told = []\<rparr>"
proof -
  let ?i = "init_bg 2000 (\<lambda>_. new_inbox)"
  let ?a = "?i\<lparr>br_agents := attachInbox 0 None (br_agents ?i)\<rparr>"
  have "bg_step ?i ?a" by (rule b_attach)
  moreover have "bg_step ?a (?a\<lparr>br_agents := start_task ''look'' None 0 (br_agents ?a)\<rparr>)" by (rule b_start)
  ultimately show ?thesis by (simp add: sample_agents_def init_bg_def rtranclp.rtrancl_into_rtrancl r_into_rtranclp)
qed

lemma sample_task: "ba_tasks sample_agents = [(''agent1'', fresh_task ''agent1'' ''look'' None 0)]"
  by (simp add: sample_agents_def start_task_def attachInbox_def new_agents_def set_task_def Let_def task_name_def
      fresh_task_def nat_str.simps digit_char_simps)

text \<open>
  C29 background_reported_once.  However children settle, are killed, steered and drained, and inboxes come and go, the
  end of a task is surfaced at most once, by a push to an inbox or by a drained notification but never
  both, only when it is no longer running, and never for a foreground child.
\<close>

theorem background_reported_once:
  assumes "bg_step\<^sup>*\<^sup>* (init_bg minMs store) r"
  shows "distinct (br_told r @ pushed_ends (br_agents r))
    \<and> (\<forall>t. map_of (ba_tasks (br_agents r)) i = Some t \<and> i \<in> set (br_told r @ pushed_ends (br_agents r))
         \<longrightarrow> bt_status t \<noteq> Running \<and> \<not> bt_foreground t)"
proof -
  have "bg_inv r" by (rule bg_runs.run_inv [OF assms bg_inv_init])
  then show ?thesis by (auto simp: bg_inv_def task_ok_def dest!: map_of_SomeD)
qed

theorem background_reported_once_witness: "distinct (pushed_ends sample_agents)"
  using background_reported_once [OF reach_started] by simp

text \<open>
  After a successful kill the task is cancelled and its signal aborted; when its runner settles later,
  with a result or an error, the registry, the inboxes and the pushes are exactly as the kill left them.
\<close>

theorem kill_wins:
  assumes "bg_step\<^sup>*\<^sup>* (init_bg minMs store) r" "kill i now (br_agents r) = (True, b)"
  shows "settle i res later b = b
    \<and> (\<exists>t. map_of (ba_tasks b) i = Some t \<and> bt_status t = TaskCancelled \<and> bt_aborted t)
    \<and> fst (kill i later b) = False \<and> ba_pushes b = ba_pushes (br_agents r)"
proof -
  have inv: "bg_inv r" by (rule bg_runs.run_inv [OF assms(1) bg_inv_init])
  from assms(2) obtain t where t: "map_of (ba_tasks (br_agents r)) i = Some t" "bt_status t = Running"
    and b: "b = set_task (t\<lparr>bt_status := TaskCancelled, bt_endedAt := Some now, bt_aborted := True\<rparr>) (br_agents r)"
    by (auto simp: kill_def split: option.splits if_splits)
  have "bt_id t = i" using inv map_of_SomeD [OF t(1)] by (fastforce simp: bg_inv_def task_ok_def)
  then have "map_of (ba_tasks b) i = Some (t\<lparr>bt_status := TaskCancelled, bt_endedAt := Some now, bt_aborted := True\<rparr>)"
    by (simp add: b set_task_def map_of_jmap_set)
  then show ?thesis by (simp add: settle_def kill_def) (simp add: b set_task_def)
qed

theorem kill_wins_witness:
  "settle ''agent1'' (Inl ''late'') 9 (snd (kill ''agent1'' 5 sample_agents)) = snd (kill ''agent1'' 5 sample_agents)"
proof -
  have "kill ''agent1'' 5 (br_agents \<lparr>br_agents = sample_agents, br_told = []\<rparr>) = (True, snd (kill ''agent1'' 5 sample_agents))"
    by (simp add: kill_def sample_task fresh_task_def)
  from kill_wins [OF reach_started this] show ?thesis by blast
qed

text \<open>
  A background child that settles while its owner's session (or the default) has a well-formed
  inbox with room hands it exactly one terminal event, which the inbox holds under the task's end id
  and would reject a second time; the task is then reported and no notification repeats it.
\<close>

theorem push_delivers:
  assumes "bg_step\<^sup>*\<^sup>* (init_bg minMs store) r" "map_of (ba_tasks (br_agents r)) i = Some t"
    "bt_status t = Running" "\<not> bt_foreground t" "inboxFor (br_agents r) t = Some ref"
    "inbox_inv (ba_store (br_agents r) ref)" "length (pending (ba_store (br_agents r) ref)) < MAX_SEEN"
    "i @ ''#end'' \<notin> set (seen (ba_store (br_agents r) ref))"
  shows "i @ ''#end'' \<in> held_ids (ba_store (settle i res now (br_agents r)) ref)
    \<and> pushed_ends (settle i res now (br_agents r)) = pushed_ends (br_agents r) @ [i]
    \<and> (\<exists>t'. map_of (ba_tasks (settle i res now (br_agents r))) i = Some t' \<and> bt_reported t' \<and> \<not> drainable own t')"
proof -
  let ?b = "br_agents r"
  have inv: "bg_inv r" by (rule bg_runs.run_inv [OF assms(1) bg_inv_init])
  have id: "bt_id t = i" and rep: "\<not> bt_reported t"
    using inv map_of_SomeD [OF assms(2)] assms(3,4) by (fastforce simp: bg_inv_def task_ok_def)+
  obtain t' where t': "settle i res now ?b = push_end t' now (set_task t' ?b)" "bt_id t' = i" "\<not> bt_reported t'"
    "bt_owner t' = bt_owner t"
    by (rule that [of "case res of Inl tx \<Rightarrow> t\<lparr>bt_status := TaskDone, bt_result := Some tx, bt_endedAt := Some now\<rparr>
         | Inr (err, refusal) \<Rightarrow> t\<lparr>bt_status := TaskFailed, bt_error := Some err,
              bt_refusal := (case refusal of None \<Rightarrow> bt_refusal t | Some r \<Rightarrow> Some r), bt_endedAt := Some now\<rparr>"])
      (use assms(2,3) id rep in \<open>auto simp: settle_def Let_def split: sum.splits\<close>)
  have ref: "inboxFor (set_task t' ?b) t' = Some ref"
    using assms(5) t'(4) by (simp add: inboxFor_def set_task_def split: option.splits)
  have s: "settle i res now ?b = emit_at ref (end_event t' now) (set_task (t'\<lparr>bt_reported := True\<rparr>) (set_task t' ?b))"
    using t' ref by (simp add: push_end_def)
  have e: "ev_id (end_event t' now) = i @ ''#end''" "\<not> is_progress (end_event t' now)"
    using t'(2) by (simp_all add: end_event_def is_progress_def)
  have "ev_id (end_event t' now) \<in> held_ids (snd (emit (end_event t' now) (ba_store ?b ref)))"
    using inbox_sink.terminal_held [of "end_event t' now" "ba_store ?b ref"] e assms(8) by (simp add: known_ids_def)
  with e have "i @ ''#end'' \<in> held_ids (ba_store (settle i res now ?b) ref)"
    by (simp add: s emit_at_def set_task_def)
  moreover have "pushed_ends (settle i res now ?b) = pushed_ends ?b @ [i]"
    using e t'(2) by (simp add: s pushed_ends_def emit_at_def set_task_def) (simp add: end_event_def)
  ultimately show ?thesis
    using t'(2) by (simp add: s emit_at_def set_task_def map_of_jmap_set drainable_def)
qed

theorem push_delivers_witness:
  "''agent1#end'' \<in> held_ids (ba_store (settle ''agent1'' (Inl ''found'') 3 sample_agents) 0)"
proof -
  have "inboxFor sample_agents (fresh_task ''agent1'' ''look'' None 0) = Some 0" "ba_store sample_agents 0 = new_inbox"
    by (simp_all add: sample_agents_def inboxFor_def fresh_task_def start_task_def attachInbox_def new_agents_def set_task_def Let_def)
  then show ?thesis
    using push_delivers [OF reach_started, of "''agent1''" "fresh_task ''agent1'' ''look'' None 0" 0] inbox_inv_new
    by (simp add: sample_task) (simp add: fresh_task_def new_inbox_def MAX_SEEN_def)
qed

end
