(* ===== verification/Safety.thy ===== *)
theory Safety
  imports JsRegex
begin

text \<open>
  \<open>permission/safety.ts\<close> and \<open>permission/containment.ts\<close>: the deny backstop no mode or rule can override.  The
  splitter of a command line into simple commands, the catastrophic-command and protected-path rules
  as regular expressions of \<open>JsRegex\<close>, the redirect targets, and the containment rules of autopilot.
\<close>

section \<open>Splitting a command line\<close>

text \<open>The index, from here, of the parenthesis that closes at depth \<open>d\<close>; quotes are not looked at.\<close>

fun match_paren_from :: "nat \<Rightarrow> string \<Rightarrow> nat option" where
  "match_paren_from d [] = None"
| "match_paren_from d (c # cs) =
     (if c = CHR ''('' then map_option Suc (match_paren_from (d + 1) cs)
      else if c = CHR '')'' then (if d = 1 then Some 0 else map_option Suc (match_paren_from (d - 1) cs))
      else map_option Suc (match_paren_from d cs))"

definition flush_buf :: "string \<Rightarrow> string list" where
  "flush_buf buf = (let t = trim buf in if t \<noteq> [] then [t] else [])"

text \<open>
  The scan, with the character before it, the open quote and the buffer; the parts come out in the order they are
  pushed.
\<close>

function split_go :: "char option \<Rightarrow> string \<Rightarrow> char option \<Rightarrow> string \<Rightarrow> string list" where
  "split_go prev [] quote buf = flush_buf buf"
| "split_go prev (c # cs) quote buf =
     (case quote of
        Some q \<Rightarrow> (if c = q then split_go (Some c) cs None buf else split_go (Some c) cs quote (buf @ [c]))
      | None \<Rightarrow>
          (if c = dquote \<or> c = squote then split_go (Some c) cs (Some c) buf
           else if c = bslash \<and> cs \<noteq> [] then split_go (Some (hd cs)) (tl cs) None (buf @ [c, hd cs])
           else if (c = CHR ''&'' \<or> c = CHR ''|'') \<and> cs \<noteq> [] \<and> hd cs = c then
             flush_buf buf @ split_go (Some c) (tl cs) None []
           else if c = CHR ''&'' \<and> prev \<noteq> Some (CHR ''>'') \<and> \<not> (cs \<noteq> [] \<and> hd cs = CHR ''>'') then
             flush_buf buf @ split_go (Some c) cs None []
           else if c = CHR '';'' \<or> c = CHR ''|'' \<or> c = nl then flush_buf buf @ split_go (Some c) cs None []
           else if (c = CHR ''<'' \<or> c = CHR ''>'' \<or> c = CHR ''$'') \<and> cs \<noteq> [] \<and> hd cs = CHR ''('' then
             (case match_paren_from 0 cs of
                Some k \<Rightarrow> split_go None (take (k - 1) (tl cs)) None [] @ split_go (Some (CHR '')'')) (drop (k + 1) cs) None buf
              | None \<Rightarrow> split_go (Some c) cs None (buf @ [c]))
           else if c = backtick then
             (case find_index (\<lambda>d. d = backtick) cs of
                Some k \<Rightarrow> split_go None (take k cs) None [] @ split_go (Some backtick) (drop (k + 1) cs) None buf
              | None \<Rightarrow> split_go (Some c) cs None (buf @ [c]))
           else split_go (Some c) cs None (buf @ [c])))"
  by pat_completeness auto
termination by (relation "measure (\<lambda>(p, s, q, b). length s)") auto

definition splitShellCommands :: "string \<Rightarrow> string list" where
  "splitShellCommands command = split_go None command None []"

section \<open>Catastrophic commands\<close>

record deny_rule =
  dr_test :: rx
  dr_reason :: string

definition segment :: rx where "segment = Star (none_of ''|;&'')"

definition raw_disk :: rx where
  "raw_disk = alts [lit_i ''sd'', lit_i ''nvme'', lit_i ''disk'', lit_i ''hd'', lit_i ''vd'']"

definition recursive_on_root :: "string \<Rightarrow> rx" where
  "recursive_on_root prog =
     cats [WordB, lit_i prog, WordB, segment, ws, lit ''-'', Star lower_i, lit_i ''R'', segment, ws, lit ''/'', alts [ws, Eol, lit ''*'']]"

definition CATASTROPHIC :: "deny_rule list" where
  "CATASTROPHIC =
     [\<lparr>dr_test = alts [cats [WordB, lit_i ''rm'', WordB, segment, ws, lit ''-'', Star lower_i, lit_i ''r'', Star lower_i, lit_i ''f''],
                       cats [WordB, lit_i ''rm'', WordB, segment, ws, lit ''-'', Star lower_i, lit_i ''f'', Star lower_i, lit_i ''r'']],
       dr_reason = ''recursive-force rm''\<rparr>,
      \<lparr>dr_test = alts [cats [WordB, lit_i ''mkfs'', WordB], cats [WordB, lit_i ''mke2fs'', WordB]],
       dr_reason = ''filesystem format (mkfs)''\<rparr>,
      \<lparr>dr_test = cats [WordB, lit_i ''dd'', WordB, segment, WordB, lit_i ''of=/dev/'', raw_disk],
       dr_reason = ''dd writing to a raw disk device''\<rparr>,
      \<lparr>dr_test = cats [lit ''>'', Star ws, lit_i ''/dev/'', raw_disk, Chr (\<lambda>c. is_lower (lower c) \<or> is_digit c)],
       dr_reason = ''redirect overwriting a raw disk device''\<rparr>,
      \<lparr>dr_test = cats [lit '':'', Star ws, lit ''('', Star ws, lit '')'', Star ws, lit ''{'', Star ws, lit '':'', Star ws, lit ''|'',
                       Star ws, lit '':'', Star ws, lit ''&'', Star ws, lit ''}'', Star ws, lit '';'', Star ws, lit '':''],
       dr_reason = ''fork bomb''\<rparr>,
      \<lparr>dr_test = alts [recursive_on_root ''chmod'', recursive_on_root ''chown''],
       dr_reason = ''recursive chmod/chown on the filesystem root''\<rparr>]"

definition flag_with :: "string \<Rightarrow> rx" where
  "flag_with f = cats [lit ''-'', Star lower_i, lit_i f]"

definition rm_word :: rx where "rm_word = cats [WordB, lit_i ''rm'', WordB]"

text \<open>\<open>s.split(/\s+/)\<close> without the empty pieces.\<close>

fun words_from :: "string \<Rightarrow> string \<Rightarrow> string list" where
  "words_from buf [] = (if buf = [] then [] else [buf])"
| "words_from buf (c # cs) =
     (if is_ws c then (if buf = [] then words_from [] cs else buf # words_from [] cs) else words_from (buf @ [c]) cs)"

definition root_operand :: rx where
  "root_operand =
     alts [cats [Bol, lit ''/'', Eol],
           cats [Bol, lit ''/*'', Eol],
           cats [Bol, lit ''~'', Eol],
           cats [Bol, lit ''~'', opt (lit ''/''), opt (lit ''*''), Eol],
           cats [Bol, lit ''$HOME'', opt (lit ''/''), opt (lit ''*''), Eol],
           cats [Bol, lit ''/'',
                 alts (map lit [''bin'', ''etc'', ''usr'', ''var'', ''lib'', ''boot'', ''dev'', ''sys'', ''home'', ''root'', ''System'', ''Library'']),
                 alts [lit ''/'', Eol, lit ''*'']]]"

definition isRootRm :: "string \<Rightarrow> bool" where
  "isRootRm cmd =
     (if \<not> rx_test rm_word cmd \<or> \<not> rx_test (flag_with ''r'') cmd \<or> \<not> rx_test (flag_with ''f'') cmd then False
      else
        let operands = filter (\<lambda>t. \<not> (t \<noteq> [] \<and> hd t = CHR ''-'')) (words_from [] (rx_replace1 rm_word [] cmd))
        in list_ex (rx_test root_operand) operands)"

definition rule_hits :: "string \<Rightarrow> deny_rule option" where
  "rule_hits c = find (\<lambda>r. dr_reason r \<noteq> ''recursive-force rm'' \<and> rx_test (dr_test r) c) CATASTROPHIC"

fun first_hit :: "string list \<Rightarrow> deny_rule option" where
  "first_hit [] = None"
| "first_hit (c # cs) = (case rule_hits c of Some r \<Rightarrow> Some r | None \<Rightarrow> first_hit cs)"

definition catastrophicDeny :: "string \<Rightarrow> string option" where
  "catastrophicDeny command =
     (let subs = splitShellCommands command
      in if list_ex isRootRm subs then Some ''blocked: recursive-force rm targeting a system/home root''
         else map_option (\<lambda>r. ''blocked: '' @ dr_reason r) (first_hit (command # subs)))"

section \<open>Protected paths\<close>

definition at_component :: rx where "at_component = alts [Bol, lit ''/'']"

definition PROTECTED_WRITE :: "deny_rule list" where
  "PROTECTED_WRITE =
     [\<lparr>dr_test = cats [at_component, lit ''.git/'', NotAhead (cats [lit ''info/exclude'', Eol])],
       dr_reason = ''git internals (.git/)''\<rparr>,
      \<lparr>dr_test = cats [at_component, lit ''.ssh/'', alts [lit ''id_'', cats [Star dot, lit ''_key'', Eol], cats [lit ''authorized_keys'', Eol]]],
       dr_reason = ''SSH keys (.ssh/)''\<rparr>,
      \<lparr>dr_test = cats [at_component, lit ''.aws/credentials'', Eol],
       dr_reason = ''AWS credentials''\<rparr>,
      \<lparr>dr_test = cats [at_component, lit ''.'', alts [lit ''npmrc'', lit ''pypirc'', lit ''netrc''], Eol],
       dr_reason = ''package/registry credentials''\<rparr>,
      \<lparr>dr_test = cats [at_component, lit ''id_'', alts [lit ''rsa'', lit ''ed25519'', lit ''ecdsa'', lit ''dsa''], Eol],
       dr_reason = ''private key''\<rparr>]"

definition contentSafetyDeny :: "string \<Rightarrow> string option" where
  "contentSafetyDeny path =
     (let p = map (\<lambda>c. if c = bslash then CHR ''/'' else c) path
      in map_option (\<lambda>r. ''blocked: write to '' @ dr_reason r @ '' is not allowed'') (find (\<lambda>r. rx_test (dr_test r) p) PROTECTED_WRITE))"

section \<open>Redirect targets\<close>

definition redirect_head :: rx where
  "redirect_head =
     cats [alts [Cat (lit ''>'') (opt (lit ''>'')), cats [alts [Bol, ws], lit ''tee'', opt (Cat (plus ws) (lit ''-a''))]], plus ws]"

definition redirect_target :: rx where
  "redirect_target =
     alts [cats [Chr (\<lambda>c. c = dquote), plus (Chr (\<lambda>c. c \<noteq> dquote)), Chr (\<lambda>c. c = dquote)],
           cats [Chr (\<lambda>c. c = squote), plus (Chr (\<lambda>c. c \<noteq> squote)), Chr (\<lambda>c. c = squote)],
           plus (Chr (\<lambda>c. \<not> is_ws c \<and> c \<notin> set ''|;&''))]"

definition is_quote :: "char \<Rightarrow> bool" where "is_quote c = (c = dquote \<or> c = squote)"

text \<open>\<open>m.replace(/^["']|["']$/g, "")\<close>.\<close>

definition strip_quotes :: "string \<Rightarrow> string" where
  "strip_quotes s =
     (let s1 = (if s \<noteq> [] \<and> is_quote (hd s) then tl s else s)
      in if s1 \<noteq> [] \<and> is_quote (last s1) then butlast s1 else s1)"

text \<open>The first match of the expression from a position: where its group starts and ends.\<close>

definition redirect_match :: "pos \<Rightarrow> (pos \<times> pos) list" where
  "redirect_match p = concat (map (\<lambda>m. map (Pair m) (rx_ends redirect_target m)) (rx_ends redirect_head p))"

lemma redirect_match_shorter: "(m, e) \<in> set (redirect_match p) \<Longrightarrow> length (snd e) < length (snd p)"
proof -
  assume "(m, e) \<in> set (redirect_match p)"
  then have m: "m \<in> set (rx_ends redirect_head p)" "e \<in> set (rx_ends redirect_target m)"
    by (auto simp: redirect_match_def)
  have "consumes redirect_target" by (simp add: redirect_target_def plus_def)
  from rx_ends_consumes [OF this m(2)] after_length [OF rx_ends_after [OF m(1)]] show ?thesis by linarith
qed

function redirect_scan :: "pos \<Rightarrow> string list" where
  "redirect_scan p =
     (case redirect_match p of
        (m, e) # _ \<Rightarrow> strip_quotes (take (length (snd m) - length (snd e)) (snd m)) # redirect_scan e
      | [] \<Rightarrow> (case snd p of [] \<Rightarrow> [] | c # cs \<Rightarrow> redirect_scan (Some c, cs)))"
  by pat_completeness auto
termination
proof (relation "measure (\<lambda>p. length (snd p))")
  fix p x xs m e
  assume "redirect_match p = x # xs" "(m, e) = x"
  then have "(m, e) \<in> set (redirect_match p)" by simp
  then show "(e, p) \<in> measure (\<lambda>p. length (snd p))" using redirect_match_shorter by simp
qed auto

declare redirect_scan.simps [simp del]

definition redirectTargets :: "string \<Rightarrow> string list" where
  "redirectTargets command = redirect_scan (None, command)"

section \<open>A denied command stays denied in a chain\<close>

declare split_go.simps [simp del]

lemma trim_front_ws: "list_all is_ws w \<Longrightarrow> trim (w @ buf) = trim buf"
  by (simp add: trim_def trimStart_def list_all_iff dropWhile_append1 dropWhile_append2)

lemma flush_front_ws: "list_all is_ws w \<Longrightarrow> flush_buf (w @ buf) = flush_buf buf"
  by (simp add: flush_buf_def trim_front_ws)

lemma trim_back_ws: "list_all is_ws w \<Longrightarrow> trim (buf @ w) = trim buf"
proof -
  assume w: "list_all is_ws w"
  have "trimEnd (s @ w) = trimEnd s" for s
    using w by (simp add: trimEnd_def) (subst dropWhile_append2, auto simp: list_all_iff)
  moreover have "trimStart (buf @ w) = (if list_all is_ws buf then [] else trimStart buf @ w)"
    using w by (induction buf) (auto simp: trimStart_def list_all_iff)
  moreover have "list_all is_ws buf \<Longrightarrow> trimStart buf = []"
    by (simp add: trimStart_def list_all_iff)
  ultimately show ?thesis by (simp add: trim_def)
qed

lemma flush_back_ws: "list_all is_ws w \<Longrightarrow> flush_buf (buf @ w) = flush_buf buf"
  by (simp add: flush_buf_def trim_back_ws)

lemma split_go_front_ws:
  assumes w: "list_all is_ws w"
  shows "split_go prev s q (w @ buf) = split_go prev s q buf"
proof (induction s arbitrary: prev q buf rule: length_induct)
  case (1 s)
  then have ih: "length s' < length s \<Longrightarrow> split_go prev s' q (w @ buf) = split_go prev s' q buf" for prev s' q buf
    by blast
  show ?case
  proof (cases s)
    case (Cons c cs)
    show ?thesis
      unfolding Cons
      apply (subst (1 2) split_go.simps)
      apply (intro option.case_cong if_cong refl arg_cong2 [where f = "(@)"])
                    apply (simp_all add: flush_front_ws w ih Cons)
      done
  qed (simp add: flush_front_ws w split_go.simps)
qed

lemma split_go_prev:
  assumes "prev \<noteq> Some (CHR ''>'')" "prev' \<noteq> Some (CHR ''>'')"
  shows "split_go prev s q buf = split_go prev' s q buf"
proof (cases s)
  case (Cons c cs)
  show ?thesis
    unfolding Cons
    apply (subst (1 2) split_go.simps)
    apply (intro option.case_cong if_cong refl)
    using assms apply simp_all
    done
qed (simp add: split_go.simps)

text \<open>A command with no quote, escape, parenthesis or backtick.\<close>

definition plain :: "string \<Rightarrow> bool" where
  "plain a \<longleftrightarrow> list_all (\<lambda>c. c \<notin> set [dquote, squote, bslash, CHR ''('', backtick]) a"

lemma split_go_chain_end: "split_go prev ('' && '' @ b) None buf = flush_buf buf @ split_go None b None []"
proof -
  have "split_go (Some (CHR ''&'')) (CHR '' '' # b) None [] = split_go (Some (CHR '' '')) b None ('' '' @ [])"
    by (simp add: split_go.simps)
  also have "\<dots> = split_go None b None []"
    by (subst split_go_front_ws) (auto simp: is_ws_def intro: split_go_prev)
  finally show ?thesis
    using flush_back_ws [of "'' ''" buf] by (simp add: split_go.simps is_ws_def)
qed

lemma split_go_plain:
  assumes "c \<notin> set [dquote, squote, bslash, CHR ''('', backtick]" "cs = [] \<or> hd cs \<noteq> CHR ''(''"
  shows "split_go prev (c # cs) None buf =
    (if (c = CHR ''&'' \<or> c = CHR ''|'') \<and> cs \<noteq> [] \<and> hd cs = c then flush_buf buf @ split_go (Some c) (tl cs) None []
     else if c = CHR ''&'' \<and> prev \<noteq> Some (CHR ''>'') \<and> \<not> (cs \<noteq> [] \<and> hd cs = CHR ''>'') then
       flush_buf buf @ split_go (Some c) cs None []
     else if c = CHR '';'' \<or> c = CHR ''|'' \<or> c = nl then flush_buf buf @ split_go (Some c) cs None []
     else split_go (Some c) cs None (buf @ [c]))"
proof -
  have c: "(c = dquote \<or> c = squote) = False" "(c = bslash \<and> cs \<noteq> []) = False" "(c = backtick) = False"
     "((c = CHR ''<'' \<or> c = CHR ''>'' \<or> c = CHR ''$'') \<and> cs \<noteq> [] \<and> hd cs = CHR ''('') = False"
    using assms by auto
  show ?thesis unfolding split_go.simps option.case c if_False ..
qed

lemma split_go_append:
  assumes r: "r \<noteq> []" "hd r = CHR '' ''" and sep: "\<And>prev buf. split_go prev r None buf = flush_buf buf @ rest"
  shows "plain a \<Longrightarrow> split_go prev (a @ r) None buf = split_go prev a None buf @ rest"
proof (induction a arbitrary: prev buf rule: length_induct)
  case (1 a)
  then have ih: "length a' < length a \<Longrightarrow> plain a' \<Longrightarrow> split_go prev (a' @ r) None buf = split_go prev a' None buf @ rest"
      for prev a' buf by blast
  show ?case
  proof (cases a)
    case Nil
    then show ?thesis by (simp add: sep) (simp add: split_go.simps)
  next
    case (Cons c cs)
    from 1 Cons have pl: "plain cs" "c \<notin> set [dquote, squote, bslash, CHR ''('', backtick]" by (simp_all add: plain_def)
    have hd: "cs = [] \<or> hd cs \<noteq> CHR ''(''" "cs @ r = [] \<or> hd (cs @ r) \<noteq> CHR ''(''"
      using pl r by (cases cs; auto simp: plain_def)+
    have pt: "plain (tl cs)" using pl by (cases cs) (simp_all add: plain_def)
    have sp: "(c = CHR ''&'' \<or> c = CHR ''|'') \<and> cs @ r \<noteq> [] \<and> hd (cs @ r) = c \<longleftrightarrow> (c = CHR ''&'' \<or> c = CHR ''|'') \<and> cs \<noteq> [] \<and> hd cs = c"
       "\<not> (cs @ r \<noteq> [] \<and> hd (cs @ r) = CHR ''>'') \<longleftrightarrow> \<not> (cs \<noteq> [] \<and> hd cs = CHR ''>'')"
      using r by (cases cs; auto)+
    have i1: "split_go p (cs @ r) None x = split_go p cs None x @ rest" for p x using ih pl Cons by simp
    have i2: "cs \<noteq> [] \<Longrightarrow> split_go p (tl cs @ r) None x = split_go p (tl cs) None x @ rest" for p x
      using ih [of "tl cs"] pt Cons by (cases cs) simp_all
    show ?thesis
      unfolding Cons append_Cons split_go_plain [OF pl(2) hd(1)] split_go_plain [OF pl(2) hd(2)] sp i1
      by (cases "cs = []") (auto simp: i2)
  qed
qed

lemma split_chain: "plain a \<Longrightarrow> splitShellCommands (a @ '' && '' @ b) = splitShellCommands a @ splitShellCommands b"
  unfolding splitShellCommands_def by (rule split_go_append [OF _ _ split_go_chain_end]) simp_all

text \<open>Every operator that ends a command, and a chain of commands with operators between them.\<close>

definition chain_ops :: "string list" where
  "chain_ops = [''&&'', ''||'', '';'', ''|'', ''&'', [nl]]"

fun shell_chain :: "(string \<times> string) list \<Rightarrow> string \<Rightarrow> string" where
  "shell_chain [] b = b"
| "shell_chain ((a, op) # r) b = a @ '' '' @ op @ '' '' @ shell_chain r b"

lemma split_go_op:
  assumes "op \<in> set chain_ops"
  shows "split_go prev ('' '' @ op @ '' '' @ b) None buf = flush_buf buf @ split_go None b None []"
proof -
  have front: "split_go (Some (CHR '' '')) b None '' '' = split_go None b None []"
    using split_go_front_ws [of "'' ''" "Some (CHR '' '')" b None "[]"] split_go_prev [of "Some (CHR '' '')" None b None "[]"] by (simp add: is_ws_def)
  have end_ws: "flush_buf (buf @ '' '') = flush_buf buf" by (rule flush_back_ws) (simp add: is_ws_def)
  from assms consider "op = ''&&''" | "op = ''||''" | "op = '';''" | "op = ''|''" | "op = ''&''" | "op = [nl]"
    by (auto simp: chain_ops_def)
  then show ?thesis by cases (simp_all add: split_go.simps front end_ws)
qed

lemma split_op:
  "plain a \<Longrightarrow> op \<in> set chain_ops \<Longrightarrow> splitShellCommands (a @ '' '' @ op @ '' '' @ b) = splitShellCommands a @ splitShellCommands b"
  unfolding splitShellCommands_def by (rule split_go_append [OF _ _ split_go_op]) simp_all

definition plain_steps :: "(string \<times> string) list \<Rightarrow> bool" where
  "plain_steps pre \<longleftrightarrow> list_all (\<lambda>ao. plain (fst ao) \<and> snd ao \<in> set chain_ops) pre"

lemmas split_op_plain = split_op [simplified]

lemma split_steps: "plain_steps pre \<Longrightarrow> set (splitShellCommands b) \<subseteq> set (splitShellCommands (shell_chain pre b))"
  unfolding plain_steps_def by (induction pre b rule: shell_chain.induct) (auto simp: split_op_plain)

text \<open>One command, as the splitter sees it.\<close>

definition one_command :: "string \<Rightarrow> bool" where
  "one_command b \<longleftrightarrow> plain b \<and> splitShellCommands b = [b]"

text \<open>The rules see no start of string, so each matches a command in the place where it stands in a chain.\<close>

lemma CATASTROPHIC_no_bol: "r \<in> set CATASTROPHIC \<Longrightarrow> no_bol (dr_test r)"
  by (auto simp: CATASTROPHIC_def segment_def raw_disk_def recursive_on_root_def rx_spell)

lemma rule_hits_suffix:
  assumes "rule_hits b \<noteq> None" "cs \<noteq> []" "\<not> is_word (last cs)"
  shows "rule_hits (cs @ b) \<noteq> None"
proof -
  from assms(1) obtain r where "r \<in> set CATASTROPHIC" "dr_reason r \<noteq> ''recursive-force rm''" "rx_test (dr_test r) b"
    unfolding rule_hits_def by (auto simp: find_None_iff)
  then show ?thesis
    unfolding rule_hits_def using rx_test_suffix [OF CATASTROPHIC_no_bol assms(2,3)] by (auto simp: find_None_iff)
qed

lemma first_hit_None: "first_hit cs = None \<longleftrightarrow> (\<forall>c \<in> set cs. rule_hits c = None)"
  by (induction cs) (auto split: option.splits)

lemma catastrophicDeny_None:
  "catastrophicDeny c = None \<longleftrightarrow> (\<forall>s \<in> set (splitShellCommands c). \<not> isRootRm s \<and> rule_hits s = None) \<and> rule_hits c = None"
  by (auto simp: catastrophicDeny_def Let_def list_ex_iff first_hit_None simp del: first_hit.simps)

lemma catastrophic_in_chain:
  assumes "plain a" "catastrophicDeny b \<noteq> None"
  shows "\<exists>why. catastrophicDeny (a @ '' && '' @ b) = Some why"
proof (rule ccontr)
  assume "\<nexists>why. catastrophicDeny (a @ '' && '' @ b) = Some why"
  then have "catastrophicDeny (a @ '' && '' @ b) = None" by simp
  then have n: "\<forall>s \<in> set (splitShellCommands b). \<not> isRootRm s \<and> rule_hits s = None" "rule_hits ((a @ '' && '') @ b) = None"
    unfolding catastrophicDeny_None split_chain [OF assms(1)] by auto
  have "a @ '' && '' \<noteq> []" "\<not> is_word (last (a @ '' && ''))"
    by (simp_all add: is_word_def is_alpha_def is_lower_def is_upper_def is_digit_def)
  from rule_hits_suffix [OF _ this] n(2) have "rule_hits b = None" by blast
  with n(1) assms(2) show False by (simp add: catastrophicDeny_None)
qed

lemma shell_chain_end: "pre = [] \<or> (\<exists>cs. shell_chain pre b = cs @ '' '' @ b)"
proof (induction pre b rule: shell_chain.induct)
  case (2 a op r b)
  then show ?case by (cases "r = []") (auto simp: append_assoc [symmetric] simp del: append_assoc)
qed simp

text \<open>A catastrophic line is denied behind any chain of plain commands; a catastrophic command is denied at any place of one, whatever
  follows it.\<close>

lemma catastrophic_last:
  assumes "plain_steps pre" "catastrophicDeny b \<noteq> None"
  shows "catastrophicDeny (shell_chain pre b) \<noteq> None"
proof
  assume none: "catastrophicDeny (shell_chain pre b) = None"
  then have n: "\<forall>s \<in> set (splitShellCommands b). \<not> isRootRm s \<and> rule_hits s = None" "rule_hits (shell_chain pre b) = None"
    using split_steps [OF assms(1), of b] unfolding catastrophicDeny_None by auto
  have "rule_hits b = None"
  proof (cases "pre = []")
    case False
    then obtain cs where "shell_chain pre b = (cs @ '' '') @ b" using shell_chain_end [of pre b] by auto
    moreover have "\<not> is_word (last (cs @ '' ''))" by (simp add: is_word_def is_alpha_def is_lower_def is_upper_def is_digit_def)
    ultimately show ?thesis using n(2) rule_hits_suffix [of b "cs @ '' ''"] by fastforce
  qed (use n(2) in simp)
  with n(1) assms(2) show False by (simp add: catastrophicDeny_None)
qed

lemma catastrophic_inside:
  assumes "plain_steps pre" "catastrophicDeny b \<noteq> None" "one_command b" "op \<in> set chain_ops"
  shows "catastrophicDeny (shell_chain pre (b @ '' '' @ op @ '' '' @ rest)) \<noteq> None"
proof (rule catastrophic_last [OF assms(1)])
  have "b \<in> set (splitShellCommands (b @ '' '' @ op @ '' '' @ rest))" using assms(3,4) by (simp add: split_op_plain one_command_def)
  then show "catastrophicDeny (b @ '' '' @ op @ '' '' @ rest) \<noteq> None"
    using assms(2,3) unfolding catastrophicDeny_None one_command_def by auto
qed

text \<open>A command that is denied is denied in a chain too: putting any command without quotes, escapes,
  parentheses or backticks and a \<open>&&\<close> before it does not hide it.\<close>

theorem deny_survives_prefix:
  assumes "plain a" "catastrophicDeny b \<noteq> None"
  shows "catastrophicDeny (a @ '' && '' @ b) \<noteq> None"
  using catastrophic_in_chain [OF assms] by auto

theorem deny_survives_prefix_witness:
  "catastrophicDeny (''ls -la'' @ '' && '' @ ''rm -rf /etc'') \<noteq> None"
proof (rule deny_survives_prefix)
  show "plain ''ls -la''" by (simp add: plain_def)
  show "catastrophicDeny ''rm -rf /etc'' \<noteq> None" by code_simp
qed

text \<open>A protected path stays protected under any directory.\<close>

lemma component_under:
  assumes "no_bol r" "rx_search (Cat at_component r) (None, p)"
  shows "rx_search (Cat at_component r) (prev, CHR ''/'' # p)"
proof -
  let ?R = "Cat at_component r"
  have v: "(rx_ends r (None, p) = []) = (rx_ends r (Some (CHR ''/''), p) = [])"
    by (rule rx_ends_view_Nil [OF assms(1)]) (simp add: same_view_def is_word_def is_alpha_def is_lower_def is_upper_def is_digit_def)
  have "rx_ends ?R (None, p) \<noteq> [] \<Longrightarrow> rx_ends ?R (prev, CHR ''/'' # p) \<noteq> [] \<or> rx_ends ?R (Some (CHR ''/''), p) \<noteq> []"
    using v by (cases p) (auto simp: at_component_def split: if_splits)
  with assms(2) have "rx_ends ?R (prev, CHR ''/'' # p) \<noteq> [] \<or> rx_search ?R (Some (CHR ''/''), p)"
    by (subst (asm) rx_search.simps) (subst rx_search.simps, auto split: list.splits simp del: rx_ends.simps)
  then show ?thesis by (subst rx_search.simps) auto
qed

lemma protected_rule: "r \<in> set PROTECTED_WRITE \<Longrightarrow> \<exists>q. dr_test r = Cat at_component q \<and> no_bol q"
  by (auto simp: PROTECTED_WRITE_def rx_spell)

lemma contentSafetyDeny_None:
  "contentSafetyDeny p = None \<longleftrightarrow> (\<forall>r \<in> set PROTECTED_WRITE. \<not> rx_test (dr_test r) (map (\<lambda>c. if c = bslash then CHR ''/'' else c) p))"
  by (simp add: contentSafetyDeny_def Let_def find_None_iff Ball_def)

text \<open>A write that is denied at a path is denied at that path under any directory, whatever the directory's name.\<close>

theorem protected_anywhere:
  assumes "contentSafetyDeny p \<noteq> None"
  shows "contentSafetyDeny (dir @ ''/'' @ p) \<noteq> None"
proof -
  let ?f = "\<lambda>c. if c = bslash then CHR ''/'' else c"
  from assms obtain r where r: "r \<in> set PROTECTED_WRITE" "rx_test (dr_test r) (map ?f p)"
    by (auto simp: contentSafetyDeny_None)
  then obtain q where q: "dr_test r = Cat at_component q" "no_bol q" using protected_rule by blast
  have s: "rx_search (dr_test r) (x, CHR ''/'' # map ?f p)" for x
    using r(2) q(2) unfolding q(1) rx_test_def by (intro component_under)
  have "rx_test (dr_test r) (map ?f dir @ CHR ''/'' # map ?f p)"
  proof (cases "map ?f dir = []")
    case False
    from rx_search_skip_all [OF this s] show ?thesis by (simp only: rx_test_def)
  qed (simp add: rx_test_def s)
  with r(1) show ?thesis by (auto simp: contentSafetyDeny_None)
qed

theorem protected_anywhere_witness: "contentSafetyDeny (''sub/dir'' @ ''/'' @ ''.git/config'') \<noteq> None"
  by (rule protected_anywhere) code_simp

text \<open>Inside double quotes nothing is split off, although the shell runs a substitution there.\<close>

lemma split_go_quoted:
  "dquote \<notin> set s \<Longrightarrow> split_go prev (s @ dquote # rest) (Some dquote) buf = split_go (Some dquote) rest None (buf @ s)"
  by (induction s arbitrary: prev buf) (auto simp: split_go.simps)

lemma split_go_echo: "split_go None (''echo '' @ s) None [] = split_go (Some (CHR '' '')) s None ''echo ''"
  by (simp add: split_go_plain) (simp add: split_go.simps(2))

text \<open>A command substituted inside double quotes is never one of the commands that are inspected: the
  whole line is a single command that starts with the outer one.\<close>

theorem quoted_substitution_hidden:
  assumes "dquote \<notin> set s"
  shows "splitShellCommands (''echo '' @ [dquote] @ ''$('' @ s @ '')'' @ [dquote]) = [''echo $('' @ s @ '')'']"
proof -
  have t: "trim (''echo $('' @ s @ '')'') = ''echo $('' @ s @ '')''"
    by (simp add: trim_def trimStart_def trimEnd_def is_ws_def)
  have "split_go (Some (CHR '' '')) ([dquote] @ ''$('' @ s @ '')'' @ [dquote]) None ''echo '' =
        split_go (Some dquote) ((''$('' @ s @ '')'') @ [dquote]) (Some dquote) ''echo ''"
    by (simp add: split_go.simps(2))
  also have "\<dots> = flush_buf (''echo '' @ (''$('' @ s @ '')''))"
    using assms split_go_quoted [of "''$('' @ s @ '')''" "Some dquote" "[]" "''echo ''"] by (simp add: split_go.simps(1))
  finally show ?thesis
    unfolding splitShellCommands_def split_go_echo using t by (simp add: flush_buf_def)
qed

theorem quoted_substitution_hidden_witness:
  "splitShellCommands (''echo '' @ [dquote] @ ''$(rm -rf /)'' @ [dquote]) = [''echo $(rm -rf /)''] \<and>
   catastrophicDeny (''echo '' @ [dquote] @ ''$(rm -rf /)'' @ [dquote]) = None \<and> catastrophicDeny ''echo $(rm -rf /)'' \<noteq> None"
proof (intro conjI)
  show "splitShellCommands (''echo '' @ [dquote] @ ''$(rm -rf /)'' @ [dquote]) = [''echo $(rm -rf /)'']"
    using quoted_substitution_hidden [of "''rm -rf /''"] by simp
qed code_simp+

lemma double_slash_not_root: "catastrophicDeny ''rm -rf //'' = None"
  by code_simp


end
