(* ===== verification/ShellWords.thy ===== *)
theory ShellWords
  imports JsRegex
begin

text \<open>
  The words of \<open>permission/shell-decompose.ts\<close>: what a shell line is taken apart into, the matching of
  parentheses and braces, and the expansions inside a word.  A position in the source is here the rest of the
  text from it.  The program throws \<open>Opaque\<close> where it cannot follow the line; here that is \<open>Inl form\<close>.  The
  commands found so far and what the whole line does are one accumulator, passed through every call that appends to
  them; the recursive call on a nested command is the parameter \<open>inner\<close>.
\<close>

section \<open>Data\<close>

record redirection =
  rd_operator :: string
  rd_target :: string
  rd_literal :: bool

record shell_command =
  sc_forms :: "string list"
  sc_bestEffort :: bool
  sc_argsUnknown :: bool
  sc_envInjected :: bool
  sc_redirected :: "string list option"

record decomposed =
  dm_commands :: "shell_command list"
  dm_opaque :: "string option"
  dm_writes :: "redirection list"

definition refusesAutoApproval :: "decomposed \<Rightarrow> bool" where
  "refusesAutoApproval d \<longleftrightarrow> dm_opaque d \<noteq> None \<or> dm_writes d \<noteq> [] \<or> list_ex sc_envInjected (dm_commands d)"

record shell_line =
  sl_out :: "shell_command list"
  sl_envChanged :: bool
  sl_writes :: "redirection list"

definition empty_line :: shell_line where
  "empty_line = \<lparr>sl_out = [], sl_envChanged = False, sl_writes = []\<rparr>"

definition change_env :: "bool \<Rightarrow> shell_line \<Rightarrow> shell_line" where
  "change_env b l = (if b then l\<lparr>sl_envChanged := True\<rparr> else l)"

definition add_command :: "shell_command \<Rightarrow> shell_line \<Rightarrow> shell_line" where
  "add_command c l = l\<lparr>sl_out := sl_out l @ [c]\<rparr>"

record word =
  wd_text :: string
  wd_expanded :: bool
  wd_literal :: bool
  wd_glob :: bool
  wd_tilde :: bool

definition new_word :: word where
  "new_word = \<lparr>wd_text = [], wd_expanded = False, wd_literal = True, wd_glob = False, wd_tilde = False\<rparr>"

definition add_text :: "string \<Rightarrow> word \<Rightarrow> word" where
  "add_text s w = w\<lparr>wd_text := wd_text w @ s\<rparr>"

definition add_expansion :: "string \<Rightarrow> word \<Rightarrow> word" where
  "add_expansion s w = w\<lparr>wd_text := wd_text w @ s, wd_expanded := True, wd_literal := False\<rparr>"

definition words_text :: "word list \<Rightarrow> string" where
  "words_text wds = join '' '' (map wd_text wds)"

definition clip :: "string \<Rightarrow> string" where
  "clip s = (if length s > 120 then take 120 s @ ellipsis else s)"

definition HARMLESS_TARGET :: rx where
  "HARMLESS_TARGET =
     cats [Bol, lit ''/dev/'', alts [lit ''null'', lit ''stdin'', lit ''stdout'', lit ''stderr'', Cat (lit ''fd/'') (plus digit)], Eol]"

definition writesFile :: "redirection \<Rightarrow> bool" where
  "writesFile r \<longleftrightarrow> CHR ''>'' \<in> set (rd_operator r) \<and> \<not> (rd_literal r \<and> rx_test HARMLESS_TARGET (rd_target r))"

section \<open>Matching parentheses and braces\<close>

text \<open>The index of the \<open>)\<close> that closes depth \<open>d\<close>, past quotes and escapes.\<close>

fun matchParen :: "nat \<Rightarrow> char option \<Rightarrow> string \<Rightarrow> nat option" where
  "matchParen d q [] = None"
| "matchParen d (Some q) (c # cs) =
     (if c = bslash \<and> q = dquote then (case cs of [] \<Rightarrow> None | _ # ds \<Rightarrow> map_option (\<lambda>k. k + 2) (matchParen d (Some q) ds))
      else map_option Suc (matchParen d (if c = q then None else Some q) cs))"
| "matchParen d None (c # cs) =
     (if c = bslash then (case cs of [] \<Rightarrow> None | _ # ds \<Rightarrow> map_option (\<lambda>k. k + 2) (matchParen d None ds))
      else if c = squote \<or> c = dquote then map_option Suc (matchParen d (Some c) cs)
      else if c = CHR ''('' then map_option Suc (matchParen (d + 1) None cs)
      else if c = CHR '')'' then (if d = 1 then Some 0 else map_option Suc (matchParen (d - 1) None cs))
      else map_option Suc (matchParen d None cs))"

function matchBrace :: "nat \<Rightarrow> char option \<Rightarrow> string \<Rightarrow> nat option" where
  "matchBrace d q [] = None"
| "matchBrace d (Some q) (c # cs) =
     (if c = bslash \<and> q = dquote then (case cs of [] \<Rightarrow> None | _ # ds \<Rightarrow> map_option (\<lambda>k. k + 2) (matchBrace d (Some q) ds))
      else map_option Suc (matchBrace d (if c = q then None else Some q) cs))"
| "matchBrace d None (c # cs) =
     (if c = bslash then (case cs of [] \<Rightarrow> None | _ # ds \<Rightarrow> map_option (\<lambda>k. k + 2) (matchBrace d None ds))
      else if c = squote \<or> c = dquote then map_option Suc (matchBrace d (Some c) cs)
      else if c = CHR ''$'' \<and> cs \<noteq> [] \<and> hd cs = CHR ''('' then
        (case matchParen 0 None cs of
           None \<Rightarrow> None
         | Some k \<Rightarrow> map_option (\<lambda>j. j + k + 2) (matchBrace d None (drop (k + 1) cs)))
      else if c = CHR ''{'' then map_option Suc (matchBrace (d + 1) None cs)
      else if c = CHR ''}'' then (if d = 1 then Some 0 else map_option Suc (matchBrace (d - 1) None cs))
      else map_option Suc (matchBrace d None cs))"
  by pat_completeness auto
termination by (relation "measure (\<lambda>(d, q, s). length s)") auto

section \<open>Substitutions\<close>

type_synonym 'a parse = "string + 'a"
type_synonym runner = "string \<Rightarrow> shell_line \<Rightarrow> shell_line parse"

definition unbalanced_quotes :: string where "unbalanced_quotes = ''unbalanced quotes''"
definition unbalanced_parens :: string where "unbalanced_parens = ''unbalanced parentheses''"
definition unbalanced_backticks :: string where "unbalanced_backticks = ''unbalanced backticks''"
definition unterminated_parameter :: string where "unterminated_parameter = ''an unterminated ${'' @ ellipsis @ ''}''"

definition is_name_start :: "char \<Rightarrow> bool" where "is_name_start c = (is_alpha c \<or> c = CHR ''_'')"

definition subscript :: rx where "subscript = opt (cats [lit ''['', Star (Chr (\<lambda>c. c \<noteq> CHR '']'')), lit '']''])"

definition ARITHMETIC_ASSIGNMENT :: rx where
  "ARITHMETIC_ASSIGNMENT =
     alts [cats [Chr is_name_start, Star (Chr is_word), subscript, Star ws,
                 opt (alts [lit ''<<'', lit ''>>'', one_of ''-+*/%&^|'']), lit ''='', NotAhead (lit ''='')],
           lit ''++'', lit ''--'']"

definition PARAMETER_ASSIGNMENT :: rx where
  "PARAMETER_ASSIGNMENT = cats [Bol, Chr is_name_start, Star (Chr is_word), subscript, opt (lit '':''), lit ''='']"

text \<open>
  \<open>substitutions\<close>, with \<open>arithmetic\<close> and \<open>parameter\<close>, which call it back on a body, unfolded.  \<open>quotes\<close> is true
  for a word, false for a here-doc body.
\<close>

function substitutions :: "runner \<Rightarrow> bool \<Rightarrow> string \<Rightarrow> shell_line \<Rightarrow> shell_line parse" where
  "substitutions inner quotes [] l = Inr l"
| "substitutions inner quotes (c # cs) l =
     (if c = bslash then substitutions inner quotes (tl cs) l
      else if quotes \<and> c = squote then
        (case find_index (\<lambda>d. d = squote) cs of
           None \<Rightarrow> Inl unbalanced_quotes
         | Some k \<Rightarrow> substitutions inner quotes (drop (k + 1) cs) l)
      else if c = backtick then
        (case find_index (\<lambda>d. d = backtick) cs of
           None \<Rightarrow> Inl unbalanced_backticks
         | Some k \<Rightarrow> (case inner (take k cs) l of Inl e \<Rightarrow> Inl e | Inr l' \<Rightarrow> substitutions inner quotes (drop (k + 1) cs) l'))
      else if c \<noteq> CHR ''$'' then substitutions inner quotes cs l
      else if take 2 cs = ''(('' then
        (case matchParen 0 None cs of
           None \<Rightarrow> Inl unbalanced_parens
         | Some k \<Rightarrow>
             (let body = take (k - 3) (drop 2 cs)
              in (case substitutions inner quotes body (change_env (rx_test ARITHMETIC_ASSIGNMENT body) l) of
                    Inl e \<Rightarrow> Inl e
                  | Inr l' \<Rightarrow> substitutions inner quotes (drop (k + 1) cs) l')))
      else if take 1 cs = ''('' then
        (case matchParen 0 None cs of
           None \<Rightarrow> Inl unbalanced_parens
         | Some k \<Rightarrow>
             (case inner (take (k - 1) (drop 1 cs)) l of
                Inl e \<Rightarrow> Inl e
              | Inr l' \<Rightarrow> substitutions inner quotes (drop (k + 1) cs) l'))
      else if take 1 cs = ''{'' then
        (case matchBrace 0 None cs of
           None \<Rightarrow> Inl unterminated_parameter
         | Some k \<Rightarrow>
             (let body = take (k - 1) (drop 1 cs)
              in (case substitutions inner quotes body (change_env (rx_test PARAMETER_ASSIGNMENT body) l) of
                    Inl e \<Rightarrow> Inl e
                  | Inr l' \<Rightarrow> substitutions inner quotes (drop (k + 1) cs) l')))
      else substitutions inner quotes cs l)"
  by pat_completeness auto
termination by (relation "measure (\<lambda>(f, q, s, l). length s)") auto

declare substitutions.simps [simp del]

definition arithmetic :: "runner \<Rightarrow> bool \<Rightarrow> string \<Rightarrow> shell_line \<Rightarrow> shell_line parse" where
  "arithmetic inner quotes body l = substitutions inner quotes body (change_env (rx_test ARITHMETIC_ASSIGNMENT body) l)"

definition parameter :: "runner \<Rightarrow> bool \<Rightarrow> string \<Rightarrow> shell_line \<Rightarrow> shell_line parse" where
  "parameter inner quotes body l = substitutions inner quotes body (change_env (rx_test PARAMETER_ASSIGNMENT body) l)"

text \<open>\<open>expansion\<close> at a \<open>$\<close> or a backtick \<open>c\<close> followed by \<open>cs\<close>: the word, what follows the expansion, the line.\<close>

definition expansion :: "runner \<Rightarrow> char \<Rightarrow> string \<Rightarrow> word \<Rightarrow> shell_line \<Rightarrow> (word \<times> string \<times> shell_line) parse" where
  "expansion inner c cs w l =
     (if c = backtick then
        (case find_index (\<lambda>d. d = backtick) cs of
           None \<Rightarrow> Inl unbalanced_backticks
         | Some k \<Rightarrow>
             (case inner (take k cs) l of
                Inl e \<Rightarrow> Inl e
              | Inr l' \<Rightarrow> Inr (add_expansion (c # take (k + 1) cs) w, drop (k + 1) cs, l')))
      else if cs \<noteq> [] \<and> (hd cs = squote \<or> hd cs = dquote) then Inr (add_expansion ''$'' w, cs, l)
      else if take 2 cs = ''(('' then
        (case matchParen 0 None cs of
           None \<Rightarrow> Inl unbalanced_parens
         | Some k \<Rightarrow>
             (case arithmetic inner True (take (k - 3) (drop 2 cs)) l of
                Inl e \<Rightarrow> Inl e
              | Inr l' \<Rightarrow> Inr (add_expansion (c # take (k + 1) cs) w, drop (k + 1) cs, l')))
      else if take 1 cs = ''('' then
        (case matchParen 0 None cs of
           None \<Rightarrow> Inl unbalanced_parens
         | Some k \<Rightarrow>
             (case inner (take (k - 1) (drop 1 cs)) l of
                Inl e \<Rightarrow> Inl e
              | Inr l' \<Rightarrow> Inr (add_expansion (c # take (k + 1) cs) w, drop (k + 1) cs, l')))
      else if take 1 cs = ''{'' then
        (case matchBrace 0 None cs of
           None \<Rightarrow> Inl unterminated_parameter
         | Some k \<Rightarrow>
             (case parameter inner True (take (k - 1) (drop 1 cs)) l of
                Inl e \<Rightarrow> Inl e
              | Inr l' \<Rightarrow> Inr (add_expansion (c # take (k + 1) cs) w, drop (k + 1) cs, l')))
      else if cs \<noteq> [] \<and> is_name_start (hd cs) then
        Inr (add_expansion (CHR ''$'' # takeWhile is_word cs) w, dropWhile is_word cs, l)
      else if cs \<noteq> [] \<and> (is_digit (hd cs) \<or> hd cs \<in> set ''?$!#*@-'') then
        Inr (add_expansion [CHR ''$'', hd cs] w, tl cs, l)
      else Inr (add_text ''$'' w, cs, l))"

lemma expansion_shorter: "expansion inner c cs w l = Inr (w', r, l') \<Longrightarrow> length r \<le> length cs"
  by (auto simp: expansion_def length_dropWhile_le split: if_splits option.splits sum.splits)

text \<open>The inside of double quotes, up to the closing quote.\<close>

function quoted_text :: "runner \<Rightarrow> string \<Rightarrow> word \<Rightarrow> shell_line \<Rightarrow> (word \<times> string \<times> shell_line) parse" where
  "quoted_text inner [] w l = Inl unbalanced_quotes"
| "quoted_text inner (d # ds) w l =
     (if d = dquote then Inr (w, ds, l)
      else if d = bslash \<and> ds \<noteq> [] then quoted_text inner (tl ds) (add_text [hd ds] w) l
      else if d = CHR ''$'' \<or> d = backtick then
        (case expansion inner d ds w l of Inl e \<Rightarrow> Inl e | Inr (w', r, l') \<Rightarrow> quoted_text inner r w' l')
      else quoted_text inner ds (add_text [d] w) l)"
  by pat_completeness auto
termination
  by (relation "measure (\<lambda>(f, s, w, l). length s)") (auto dest: expansion_shorter)

declare quoted_text.simps [simp del]

lemma quoted_text_shorter: "quoted_text inner s w l = Inr (w', r, l') \<Longrightarrow> length r < length s"
proof (induction s arbitrary: w l rule: length_induct)
  case (1 s)
  then have ih: "length t < length s \<Longrightarrow> quoted_text inner t w l = Inr (w', r, l') \<Longrightarrow> length r < length t" for t w l
    by blast
  show ?case
  proof (cases s)
    case (Cons d ds)
    have step: "length t \<le> length ds \<Longrightarrow> quoted_text inner t w l = Inr (w', r, l') \<Longrightarrow> length r < length s" for t w l
      using ih [of t w l] Cons by simp
    have skip: "quoted_text inner (tl ds) w l = Inr (w', r, l') \<Longrightarrow> length r < length s" for w l
      using step [of "tl ds" w l] by simp
    from 1(2) show ?thesis
      unfolding Cons quoted_text.simps
      by (auto split: if_splits sum.splits dest: step skip expansion_shorter simp: Cons [symmetric] intro: step)
        (auto simp: Cons dest: skip)
  qed (use 1(2) in \<open>simp add: quoted_text.simps\<close>)
qed

end
