(* ===== verification/ShellDecompose.thy ===== *)
theory ShellDecompose
  imports ShellWords
begin

text \<open>
  \<open>permission/shell-decompose.ts\<close>: simple commands behind prefixes and shells, the scan of a line, and \<open>decomposeBash\<close>.
  The nesting bound of the program is the depth of \<open>decompose_at\<close>: the runner for nested commands one level deeper.
\<close>

section \<open>Tables\<close>

definition MAX_DEPTH :: nat where "MAX_DEPTH = 3"

definition OPAQUE_HEAD :: "string list" where
  "OPAQUE_HEAD = [''eval'', ''source'', ''.'', ''exec'', ''sudo'', ''doas'', ''su'', ''busybox'', ''parallel'']"

definition SHELLS :: "string list" where
  "SHELLS = [''sh'', ''bash'', ''zsh'', ''dash'', ''ksh'', ''ash'', ''mksh'']"

definition COMPOUND :: "string list" where
  "COMPOUND = [''if'', ''then'', ''else'', ''elif'', ''fi'', ''do'', ''done'', ''while'', ''until'', ''!'', ''{'', ''}'']"

definition UNSUPPORTED :: "string list" where "UNSUPPORTED = [''select'', ''function'', ''coproc'']"

definition ASSIGNING_BUILTINS :: "string list" where
  "ASSIGNING_BUILTINS =
     [''export'', ''declare'', ''typeset'', ''local'', ''readonly'', ''unset'', ''read'', ''mapfile'', ''readarray'', ''let'',
      ''getopts'', ''alias'', ''unalias'', ''hash'', ''enable'']"

definition RC_SHELL_OPTIONS :: "string list" where "RC_SHELL_OPTIONS = [''login'', ''interactive'']"
definition OPENERS :: "string list" where "OPENERS = [''{'', ''if'', ''while'', ''until'', ''for'']"
definition CLOSERS :: "string list" where "CLOSERS = [''}'', ''fi'', ''done'']"

record prefix_spec =
  ps_noArg :: "string list"
  ps_arg :: "string list"
  ps_attached :: rx
  ps_numeric :: bool
  ps_noCommand :: "string list"
  ps_opaque :: "string list"
  ps_positional :: nat
  ps_assignments :: bool

definition no_spec :: prefix_spec where
  "no_spec = \<lparr>ps_noArg = [], ps_arg = [], ps_attached = Chr (\<lambda>_. False), ps_numeric = False, ps_noCommand = [], ps_opaque = [],
     ps_positional = 0, ps_assignments = False\<rparr>"

definition xargs_spec :: prefix_spec where
  "xargs_spec = no_spec\<lparr>
     ps_noArg := [''-0'', ''-r'', ''-t'', ''-p'', ''-x'', ''--null'', ''--no-run-if-empty'', ''--verbose'', ''--interactive'', ''--exit'', ''--open-tty'', ''-o''],
     ps_arg := [''-n'', ''-I'', ''-L'', ''-P'', ''-s'', ''-d'', ''-E'', ''-a'', ''--max-args'', ''--replace'', ''--max-lines'', ''--max-procs'', ''--max-chars'',
       ''--delimiter'', ''--eof'', ''--arg-file''],
     ps_attached := cats [Bol, lit ''-'', one_of ''nILPsdEa'', plus dot, Eol]\<rparr>"

text \<open>
  The table is a plain object, so a lookup also finds what every object inherits: each such value is truthy and has none of
  the fields of a specification.
\<close>

definition inherited_names :: "string list" where
  "inherited_names =
     [''constructor'', ''toString'', ''toLocaleString'', ''valueOf'', ''hasOwnProperty'', ''isPrototypeOf'', ''propertyIsEnumerable'',
      ''__proto__'', ''__defineGetter__'', ''__defineSetter__'', ''__lookupGetter__'', ''__lookupSetter__'']"

definition PREFIXES :: "(string \<times> prefix_spec) list" where
  "PREFIXES =
     [(''env'', no_spec\<lparr>ps_noArg := [''-i'', ''--ignore-environment'', ''-0'', ''--null''], ps_arg := [''-u'', ''--unset'', ''-C'', ''--chdir''],
        ps_opaque := [''-S'', ''--split-string''], ps_assignments := True\<rparr>),
      (''command'', no_spec\<lparr>ps_noArg := [''-p''], ps_noCommand := [''-v'', ''-V'']\<rparr>),
      (''builtin'', no_spec),
      (''time'', no_spec\<lparr>ps_noArg := [''-p'']\<rparr>),
      (''nohup'', no_spec),
      (''timeout'', no_spec\<lparr>ps_noArg := [''--preserve-status'', ''--foreground'', ''-v'', ''--verbose''],
        ps_arg := [''-s'', ''--signal'', ''-k'', ''--kill-after''], ps_positional := 1\<rparr>),
      (''nice'', no_spec\<lparr>ps_arg := [''-n'', ''--adjustment''], ps_attached := cats [Bol, lit ''-n'', opt (lit ''-''), plus digit, Eol],
        ps_numeric := True\<rparr>),
      (''stdbuf'', no_spec\<lparr>ps_arg := [''-i'', ''-o'', ''-e'', ''--input'', ''--output'', ''--error''],
        ps_attached := cats [Bol, lit ''-'', one_of ''ioe'', plus dot, Eol]\<rparr>),
      (''ionice'', no_spec\<lparr>ps_noArg := [''-t'', ''--ignore''], ps_arg := [''-c'', ''-n'', ''--class'', ''--classdata''],
        ps_attached := cats [Bol, lit ''-'', one_of ''cn'', plus digit, Eol],
        ps_noCommand := [''-p'', ''--pid'', ''-P'', ''--pgid'', ''-u'', ''--uid'']\<rparr>),
      (''xargs'', xargs_spec)]
     @ map (\<lambda>n. (n, no_spec)) inherited_names"

definition SHELL_LONG_FLAGS :: "string list" where
  "SHELL_LONG_FLAGS = [''--norc'', ''--noprofile'', ''--login'', ''--posix'', ''--noediting'', ''--restricted'', ''--verbose'', ''--debugger'']"
definition SHELL_LONG_WITH_VALUE :: "string list" where "SHELL_LONG_WITH_VALUE = [''--rcfile'', ''--init-file'']"
definition GIT_OPTIONS_WITH_VALUE :: "string list" where
  "GIT_OPTIONS_WITH_VALUE =
     [''-C'', ''-c'', ''--git-dir'', ''--work-tree'', ''--namespace'', ''--exec-path'', ''--super-prefix'', ''--config-env'', ''--list-cmds'']"

section \<open>Prefixes and assignments\<close>

definition starts :: "string \<Rightarrow> string \<Rightarrow> bool" where "starts p s \<longleftrightarrow> take (length p) s = p"

definition basename :: "string \<Rightarrow> string" where
  "basename w = rev (takeWhile (\<lambda>c. c \<noteq> CHR ''/'') (rev w))"

text \<open>\<open>/^[A-Za-z_][A-Za-z0-9_]*\+?=/\<close>.\<close>

definition is_assignment :: "string \<Rightarrow> bool" where
  "is_assignment s \<longleftrightarrow>
     s \<noteq> [] \<and> is_name_start (hd s) \<and> (let r = dropWhile is_word s in take 1 r = ''='' \<or> take 2 r = ''+='')"

definition before :: "char \<Rightarrow> string \<Rightarrow> string" where "before c s = takeWhile (\<lambda>d. d \<noteq> c) s"

definition numeric_option :: rx where "numeric_option = cats [Bol, lit ''-'', plus digit, Eol]"

text \<open>The options of a prefix: an error, no command, or the words after them.\<close>

function prefix_options :: "string \<Rightarrow> prefix_spec \<Rightarrow> word list \<Rightarrow> word list \<Rightarrow> word list option parse" where
  "prefix_options name spec all [] = Inr (Some [])"
| "prefix_options name spec all (w # wds) =
     (let t = wd_text w
      in if \<not> starts ''-'' t \<or> t = ''-'' then Inr (Some (w # wds))
         else if t = ''--'' then Inr (Some wds)
         else
           (let flag = (if CHR ''='' \<in> set t \<and> starts ''--'' t then before (CHR ''='') t else t)
            in if flag \<in> set (ps_opaque spec) then Inl (clip (name @ '' '' @ words_text all))
               else if flag \<in> set (ps_noCommand spec) then Inr None
               else if flag \<in> set (ps_noArg spec) then prefix_options name spec all wds
               else if flag \<in> set (ps_arg spec) then
                 prefix_options name spec all (if CHR ''='' \<in> set t then wds else drop 1 wds)
               else if rx_test (ps_attached spec) t \<or> (ps_numeric spec \<and> rx_test numeric_option t) then
                 prefix_options name spec all wds
               else Inl (clip (name @ '' '' @ words_text all @ '' (an option the matcher does not know)''))))"
  by pat_completeness auto
termination by (relation "measure (\<lambda>(n, s, a, wds). length wds)") auto

declare prefix_options.simps [simp del]

definition afterPrefix :: "string \<Rightarrow> prefix_spec \<Rightarrow> word list \<Rightarrow> word list option parse" where
  "afterPrefix name spec wds =
     (case prefix_options name spec wds wds of
        Inl e \<Rightarrow> Inl e
      | Inr None \<Rightarrow> Inr None
      | Inr (Some rest) \<Rightarrow>
          (let rest' = (if ps_assignments spec then dropWhile (\<lambda>w. is_assignment (wd_text w)) rest else rest)
           in Inr (Some (drop (ps_positional spec) rest'))))"

lemma prefix_options_shorter: "prefix_options name spec all wds = Inr (Some r) \<Longrightarrow> length r \<le> length wds"
proof (induction wds rule: length_induct)
  case (1 wds)
  then have ih: "length v < length wds \<Longrightarrow> prefix_options name spec all v = Inr (Some r) \<Longrightarrow> length r \<le> length v" for v by blast
  show ?case
  proof (cases wds)
    case (Cons w v)
    have a: "prefix_options name spec all v = Inr (Some r) \<Longrightarrow> length r \<le> length wds"
      and b: "prefix_options name spec all (drop 1 v) = Inr (Some r) \<Longrightarrow> length r \<le> length wds"
      using ih [of v] ih [of "drop 1 v"] Cons by fastforce+
    from 1(2) show ?thesis
      unfolding Cons prefix_options.simps using a b
      by (auto simp: Let_def Cons split: if_splits)
  qed (use 1(2) in \<open>simp add: prefix_options.simps\<close>)
qed

lemma afterPrefix_shorter: "afterPrefix name spec wds = Inr (Some r) \<Longrightarrow> length r \<le> length wds"
  by (auto simp: afterPrefix_def Let_def split: sum.splits option.splits if_splits dest!: prefix_options_shorter
      intro!: diff_le_self [THEN le_trans] length_dropWhile_le [THEN le_trans])

section \<open>Shells\<close>

definition opaque_words :: "word list \<Rightarrow> string \<Rightarrow> 'a parse" where
  "opaque_words wds why = Inl (clip (words_text wds @ why))"

definition script :: "runner \<Rightarrow> word list \<Rightarrow> word list \<Rightarrow> shell_line \<Rightarrow> shell_line parse" where
  "script inner wds rest l =
     (case rest of
        [] \<Rightarrow> opaque_words wds '' (a shell with a non-literal script)''
      | w # _ \<Rightarrow> if wd_literal w then inner (wd_text w) l else opaque_words wds '' (a shell with a non-literal script)'')"

definition named_command :: "string list \<Rightarrow> bool \<Rightarrow> bool \<Rightarrow> shell_command" where
  "named_command forms best env =
     \<lparr>sc_forms = forms, sc_bestEffort = best, sc_argsUnknown = False, sc_envInjected = env, sc_redirected = None\<rparr>"

definition shell_runs :: "string \<Rightarrow> bool \<Rightarrow> shell_line \<Rightarrow> shell_line" where
  "shell_runs name noRcs l = change_env (name = ''zsh'' \<and> \<not> noRcs) l"

definition script_file :: "string \<Rightarrow> word list \<Rightarrow> shell_line \<Rightarrow> shell_line" where
  "script_file name wds l = add_command (named_command [join '' '' (name # map wd_text (tl wds))] True False) l"

definition option_bundle :: rx where
  "option_bundle = cats [Bol, one_of ''-+'', plus (Chr is_alpha), Eol]"

function shell_options :: "runner \<Rightarrow> string \<Rightarrow> word list \<Rightarrow> bool \<Rightarrow> bool \<Rightarrow> word list \<Rightarrow> shell_line \<Rightarrow> shell_line parse" where
  "shell_options inner name wds command noRcs [] l = opaque_words wds '' (a shell reading its script from stdin)''"
| "shell_options inner name wds command noRcs (a # rest) l =
     (let t = wd_text a
      in if wd_literal a \<and> t = ''--'' then
           (if command then script inner wds rest (shell_runs name noRcs l)
            else if rest = [] then opaque_words wds '' (a shell reading its script from stdin)''
            else Inr (script_file name wds (shell_runs name noRcs l)))
         else if wd_literal a \<and> starts ''--'' t then
           (if t \<in> set SHELL_LONG_FLAGS then
              shell_options inner name wds command noRcs rest (change_env (t = ''--login'' \<or> t = ''--debugger'') l)
            else if t \<in> set SHELL_LONG_WITH_VALUE then shell_options inner name wds command noRcs (drop 1 rest) l
            else opaque_words wds '' (a shell option the matcher does not know)'')
         else if wd_literal a \<and> rx_test option_bundle t then
           (if CHR ''s'' \<in> set t then opaque_words wds '' (a shell reading its script from stdin)''
            else
              let command' = (command \<or> CHR ''c'' \<in> set t);
                  l1 = change_env (CHR ''l'' \<in> set t \<or> CHR ''i'' \<in> set t) l;
                  noRcs' = (if CHR ''f'' \<in> set t then starts ''-'' t else noRcs)
              in if last t \<in> set ''oO'' then
                   let arg = (case rest of [] \<Rightarrow> [] | x # _ \<Rightarrow> wd_text x);
                       l2 = change_env (toLowerCase (filter (\<lambda>c. c \<noteq> CHR ''_'') arg) \<in> set RC_SHELL_OPTIONS) l1
                   in shell_options inner name wds command' noRcs' (drop 1 rest) l2
                 else shell_options inner name wds command' noRcs' rest l1)
         else if command then script inner wds (a # rest) (shell_runs name noRcs l)
         else Inr (script_file name wds (shell_runs name noRcs l)))"
  by pat_completeness auto
termination by (relation "measure (\<lambda>(f, n, wds, c, r, args, l). length args)") auto

declare shell_options.simps [simp del]

definition shell :: "runner \<Rightarrow> string \<Rightarrow> word list \<Rightarrow> shell_line \<Rightarrow> shell_line parse" where
  "shell inner name wds l = shell_options inner name wds False False (tl wds) l"

section \<open>Simple commands\<close>

fun withoutGitGlobalOptions :: "string list \<Rightarrow> string list" where
  "withoutGitGlobalOptions [] = []"
| "withoutGitGlobalOptions (a # as) =
     (if starts ''-'' a \<and> a \<noteq> ''--'' then
        (if a \<in> set GIT_OPTIONS_WITH_VALUE then (case as of [] \<Rightarrow> [] | _ # as' \<Rightarrow> withoutGitGlobalOptions as')
         else withoutGitGlobalOptions as)
      else a # as)"

definition one_line :: "string list \<Rightarrow> string" where "one_line wds = trim (collapse_ws (join '' '' wds))"

definition printf_v :: rx where "printf_v = cats [Bol, lit ''-'', Star (Chr is_alpha), lit ''v'']"

text \<open>The record of a command whose head \<open>h\<close> is its name.\<close>

definition recorded :: "word \<Rightarrow> word list \<Rightarrow> shell_command" where
  "recorded h args =
     (let name = basename (wd_text h);
          given = map wd_text args;
          as = (if name = ''git'' then withoutGitGlobalOptions given else given);
          form = one_line (name # as);
          asWritten = one_line (wd_text h # as);
          relative = CHR ''/'' \<in> set (wd_text h) \<and> \<not> starts ''/'' (wd_text h)
      in named_command (if asWritten = form then [form] else [form, asWritten]) relative (length as < length given))"

definition mark_unknown :: "nat \<Rightarrow> shell_line \<Rightarrow> shell_line" where
  "mark_unknown from l =
     l\<lparr>sl_out := take from (sl_out l) @ map (\<lambda>c. c\<lparr>sc_argsUnknown := True\<rparr>) (drop from (sl_out l))\<rparr>"

definition trap_runs :: "word list \<Rightarrow> bool" where
  "trap_runs args = (case args of [] \<Rightarrow> False | a # _ \<Rightarrow> wd_text a \<notin> set [''-'', [], ''-l'', ''-p'', ''--''])"

function simple :: "runner \<Rightarrow> bool \<Rightarrow> word list \<Rightarrow> shell_line \<Rightarrow> shell_line parse" where
  "simple inner heredoc [] l = Inr l"
| "simple inner heredoc (h # args) l =
     (let t = wd_text h; name = basename t
      in if wd_literal h \<and> t \<in> set COMPOUND then simple inner heredoc args l
         else if wd_literal h \<and> t = ''for'' then Inr (change_env True l)
         else if wd_literal h \<and> (t \<in> set UNSUPPORTED \<or> t = ''case'' \<or> t = ''esac'') then opaque_words (h # args) []
         else if is_assignment t \<and> CHR ''$'' \<notin> set (before (CHR ''='') t) then
           simple inner heredoc args (change_env True l)
         else
           (case (if wd_literal h \<and> name \<noteq> ''xargs'' then map_of PREFIXES name else None) of
              Some spec \<Rightarrow>
                (case afterPrefix name spec args of
                   Inl e \<Rightarrow> Inl e
                 | Inr None \<Rightarrow> Inr l
                 | Inr (Some rest) \<Rightarrow>
                     simple inner heredoc rest (change_env (name = ''env'' \<and> length rest < length args) l))
            | None \<Rightarrow>
                if \<not> wd_literal h \<or> wd_expanded h then opaque_words (h # args) '' (an expansion as the command name)''
                else if wd_glob h \<and> t \<noteq> ''['' \<and> t \<noteq> ''[['' then
                  opaque_words (h # args) '' (a glob or brace expansion as the command name)''
                else if name \<in> set OPAQUE_HEAD then opaque_words (h # args) []
                else
                  let l1 = change_env (name \<in> set ASSIGNING_BUILTINS \<or>
                             (name = ''printf'' \<and> list_ex (\<lambda>w. rx_test printf_v (wd_text w)) args)) l
                  in if name = ''trap'' \<and> trap_runs args then opaque_words (h # args) '' (trap runs a command string)''
                     else if name = ''xargs'' then
                       (case afterPrefix ''xargs'' xargs_spec args of
                          Inl e \<Rightarrow> Inl e
                        | Inr rest \<Rightarrow>
                            (case (case rest of None \<Rightarrow> [] | Some r \<Rightarrow> r) of
                               [] \<Rightarrow> Inr (mark_unknown (length (sl_out l1)) (add_command (named_command [''echo''] False False) l1))
                             | w # wds \<Rightarrow>
                                 (case simple inner False (w # wds) l1 of
                                    Inl e \<Rightarrow> Inl e
                                  | Inr l2 \<Rightarrow> Inr (mark_unknown (length (sl_out l1)) l2))))
                     else if name \<in> set SHELLS then
                       (if heredoc then opaque_words (h # args) ('' <<'' @ ellipsis @ '' (a here-doc into a shell)'')
                        else shell inner name (h # args) l1)
                     else Inr (add_command (recorded h args) l1)))"
  by pat_completeness auto
termination
proof (relation "measure (\<lambda>(f, d, wds, l). length wds)", goal_cases)
  case (4 inner heredoc h args l t name l1 found w wds)
  then have "afterPrefix ''xargs'' xargs_spec args = Inr found" "(case found of None \<Rightarrow> [] | Some r \<Rightarrow> r) = w # wds" by blast+
  then have "length (w # wds) \<le> length args" by (cases found) (auto dest: afterPrefix_shorter)
  then show ?case by simp
qed (auto dest!: afterPrefix_shorter)

declare simple.simps [simp del]

section \<open>The scan of a line\<close>

record heredoc =
  hd_delimiter :: string
  hd_strip :: bool
  hd_quoted :: bool

datatype case_state = ArmPattern | ArmBody

record scan_state =
  ss_words :: "word list"
  ss_word :: "word option"
  ss_pending :: "(string \<times> bool) option"
  ss_heredoc :: bool
  ss_heredocs :: "heredoc list"
  ss_cases :: "case_state list"
  ss_redirections :: "string list"
  ss_openers :: "nat list"
  ss_closed :: "nat option"

definition scan_start :: scan_state where
  "scan_start = \<lparr>ss_words = [], ss_word = None, ss_pending = None, ss_heredoc = False, ss_heredocs = [], ss_cases = [],
     ss_redirections = [], ss_openers = [], ss_closed = None\<rparr>"

text \<open>The stacks of the program have their top first; \<open>openers.pop() ?? null\<close> is the head, if any.\<close>

definition pop_opener :: "scan_state \<Rightarrow> scan_state" where
  "pop_opener st =
     st\<lparr>ss_closed := (case ss_openers st of [] \<Rightarrow> None | k # _ \<Rightarrow> Some k), ss_openers := tl (ss_openers st)\<rparr>"

definition push_opener :: "nat \<Rightarrow> scan_state \<Rightarrow> scan_state" where
  "push_opener k st = st\<lparr>ss_openers := k # ss_openers st\<rparr>"

definition written :: "redirection \<Rightarrow> bool \<Rightarrow> scan_state \<Rightarrow> scan_state" where
  "written r spaced st =
     st\<lparr>ss_redirections := ss_redirections st @ [rd_operator r @ (if spaced then '' '' else []) @ rd_target r]\<rparr>"

definition compound_word :: "word \<Rightarrow> bool" where
  "compound_word w \<longleftrightarrow> wd_literal w \<and> wd_text w \<in> set COMPOUND"

definition case_head :: "word list \<Rightarrow> bool" where
  "case_head wds =
     (case wds of
        [a, _, b] \<Rightarrow> wd_literal a \<and> wd_text a = ''case'' \<and> wd_literal b \<and> wd_text b = ''in''
      | _ \<Rightarrow> False)"

definition endWord :: "scan_state \<Rightarrow> shell_line \<Rightarrow> scan_state \<times> shell_line" where
  "endWord st l =
     (let (st1, l1) =
        (case ss_word st of
           None \<Rightarrow> (st, l)
         | Some w \<Rightarrow>
             (case ss_pending st of
                Some (operator, spaced) \<Rightarrow>
                  (let r = \<lparr>rd_operator = operator, rd_target = wd_text w,
                            rd_literal = wd_literal w \<and> \<not> wd_glob w \<and> \<not> wd_tilde w\<rparr>
                   in ((written r spaced st)\<lparr>ss_pending := None\<rparr>,
                       if writesFile r then l\<lparr>sl_writes := sl_writes l @ [r]\<rparr> else l))
              | None \<Rightarrow>
                  (let st' =
                     (if wd_literal w \<and> list_all compound_word (ss_words st) then
                        (if wd_text w \<in> set OPENERS then push_opener (length (sl_out l)) st
                         else if wd_text w \<in> set CLOSERS then pop_opener st
                         else st)
                      else st)
                   in (st'\<lparr>ss_words := ss_words st' @ [w]\<rparr>, l))));
          st2 = st1\<lparr>ss_word := None\<rparr>
      in if case_head (ss_words st2) then
           (push_opener (length (sl_out l1)) (st2\<lparr>ss_words := [], ss_cases := ArmPattern # ss_cases st2\<rparr>), l1)
         else (st2, l1))"

definition redirect_form :: "string list \<Rightarrow> string \<Rightarrow> string" where
  "redirect_form rs f = f @ '' '' @ join '' '' rs"

definition redirect_command :: "string list \<Rightarrow> shell_command \<Rightarrow> shell_command" where
  "redirect_command rs c =
     c\<lparr>sc_redirected := Some (map (redirect_form rs) (case sc_redirected c of None \<Rightarrow> sc_forms c | Some fs \<Rightarrow> fs))\<rparr>"

text \<open>A line of redirections alone is recorded as written, a command with no form.\<close>

definition redirect_commands :: "nat \<Rightarrow> scan_state \<Rightarrow> shell_line \<Rightarrow> shell_line" where
  "redirect_commands from st l =
     (let rs = ss_redirections st; start = (case ss_closed st of None \<Rightarrow> from | Some k \<Rightarrow> k)
      in if rs = [] then l
         else if start < length (sl_out l) then
           l\<lparr>sl_out := take start (sl_out l) @ map (redirect_command rs) (drop start (sl_out l))\<rparr>
         else
           add_command \<lparr>sc_forms = [], sc_bestEffort = False, sc_argsUnknown = False, sc_envInjected = False,
             sc_redirected = Some [join '' '' (map wd_text (ss_words st) @ rs)]\<rparr> l)"

definition endCommand :: "runner \<Rightarrow> scan_state \<Rightarrow> shell_line \<Rightarrow> (scan_state \<times> shell_line) parse" where
  "endCommand inner st l =
     (let (st1, l1) = endWord st l
      in if ss_pending st1 \<noteq> None then Inl ''a redirection with no target''
         else
           (case simple inner (ss_heredoc st1) (ss_words st1) l1 of
              Inl e \<Rightarrow> Inl e
            | Inr l2 \<Rightarrow>
                Inr (st1\<lparr>ss_words := [], ss_heredoc := False, ss_redirections := [], ss_closed := None\<rparr>,
                     redirect_commands (length (sl_out l1)) st1 l2)))"

definition cur :: "scan_state \<Rightarrow> word" where
  "cur st = (case ss_word st of None \<Rightarrow> new_word | Some w \<Rightarrow> w)"

definition at_word :: "string \<Rightarrow> string \<Rightarrow> bool" where
  "at_word w s \<longleftrightarrow>
     starts w s \<and> (let r = drop (length w) s in r = [] \<or> is_ws (hd r) \<or> hd r \<in> set '';&|)'')"

definition esac :: "scan_state \<Rightarrow> scan_state" where
  "esac st = pop_opener (st\<lparr>ss_cases := tl (ss_cases st)\<rparr>)"

definition set_arm :: "case_state \<Rightarrow> scan_state \<Rightarrow> scan_state" where
  "set_arm a st = st\<lparr>ss_cases := a # tl (ss_cases st)\<rparr>"

text \<open>What follows the unquoted \<open>)\<close> that ends a case arm's pattern.\<close>

fun arm_end :: "char option \<Rightarrow> string \<Rightarrow> string option" where
  "arm_end q [] = None"
| "arm_end (Some q) (d # ds) = arm_end (if d = q then None else Some q) ds"
| "arm_end None (d # ds) =
     (if d = squote \<or> d = dquote then arm_end (Some d) ds else if d = CHR '')'' then Some ds else arm_end None ds)"

lemma arm_end_shorter: "arm_end q s = Some r \<Longrightarrow> length r < length s"
  by (induction q s rule: arm_end.induct) (auto split: if_splits)

section \<open>Here-documents\<close>

text \<open>What is left of the line's text: \<open>None\<close> once the last line has been read.\<close>

definition left :: "string option \<Rightarrow> nat" where
  "left s = (case s of None \<Rightarrow> 0 | Some t \<Rightarrow> Suc (length t))"

definition after_newline :: "string \<Rightarrow> string option" where
  "after_newline s = (case dropWhile (\<lambda>c. c \<noteq> nl) s of [] \<Rightarrow> None | _ # t \<Rightarrow> Some t)"

lemma left_after_newline: "left (after_newline s) < left (Some s)"
proof -
  have "length d \<le> length s \<Longrightarrow> left (case d of [] \<Rightarrow> None | _ # t \<Rightarrow> Some t) < left (Some s)" for d :: string
    by (cases d) (simp_all add: left_def)
  then show ?thesis unfolding after_newline_def by (simp add: length_dropWhile_le)
qed

definition is_delimiter :: "heredoc \<Rightarrow> string \<Rightarrow> bool" where
  "is_delimiter h l \<longleftrightarrow> (if hd_strip h then dropWhile (\<lambda>c. c = tab) l else l) = hd_delimiter h"

text \<open>The body of a here-doc: its lines, and the text after the delimiter's line.\<close>

function heredoc_body :: "heredoc \<Rightarrow> string option \<Rightarrow> (string list \<times> string option) option" where
  "heredoc_body h None = None"
| "heredoc_body h (Some s) =
     (if is_delimiter h (takeWhile (\<lambda>c. c \<noteq> nl) s) then Some ([], after_newline s)
      else
        (case heredoc_body h (after_newline s) of
           None \<Rightarrow> None
         | Some (body, r) \<Rightarrow> Some (takeWhile (\<lambda>c. c \<noteq> nl) s # body, r)))"
  by pat_completeness auto
termination by (relation "measure (\<lambda>(h, s). left s)") (auto simp: left_after_newline)

declare heredoc_body.simps [simp del]

lemma heredoc_body_shorter: "heredoc_body h s = Some (body, r) \<Longrightarrow> left r \<le> left s"
proof (induction h s arbitrary: body rule: heredoc_body.induct)
  case (2 h s)
  then show ?case
    using left_after_newline [of s]
    by (fastforce simp: heredoc_body.simps(2) [of h s] split: if_splits option.splits)
qed (simp add: heredoc_body.simps)

fun read_heredocs :: "runner \<Rightarrow> heredoc list \<Rightarrow> string option \<Rightarrow> shell_line \<Rightarrow> (string option \<times> shell_line) parse" where
  "read_heredocs inner [] s l = Inr (s, l)"
| "read_heredocs inner (h # hs) s l =
     (case heredoc_body h s of
        None \<Rightarrow> Inl ''an unterminated here-doc''
      | Some (body, r) \<Rightarrow>
          if hd_quoted h then read_heredocs inner hs r l
          else
            (case substitutions inner False (join [nl] body) l of
               Inl e \<Rightarrow> Inl e
             | Inr l' \<Rightarrow> read_heredocs inner hs r l'))"

lemma read_heredocs_shorter: "read_heredocs inner hs s l = Inr (r, l') \<Longrightarrow> left r \<le> left s"
proof (induction hs arbitrary: s l)
  case (Cons h hs)
  then obtain body m where m: "heredoc_body h s = Some (body, m)"
    by (auto split: option.splits)
  then obtain l'' where "read_heredocs inner hs m l'' = Inr (r, l')"
    using Cons.prems by (auto split: if_splits sum.splits)
  from Cons.IH [OF this] heredoc_body_shorter [OF m] show ?case by linarith
qed simp

text \<open>The delimiter, whether it is quoted, and the text after it.\<close>

definition delimiter_char :: "char \<Rightarrow> bool" where
  "delimiter_char c \<longleftrightarrow> \<not> is_ws c \<and> c \<notin> set '';&|<>()''"

definition quoted_delimiter :: "char \<Rightarrow> string \<Rightarrow> (string \<times> string) option" where
  "quoted_delimiter q s =
     (if s \<noteq> [] \<and> hd s = q \<and> q \<in> set (tl s) then
        Some (takeWhile (\<lambda>c. c \<noteq> q) (tl s), tl (dropWhile (\<lambda>c. c \<noteq> q) (tl s)))
      else None)"

definition heredoc_delimiter :: "string \<Rightarrow> (string \<times> bool \<times> string) option" where
  "heredoc_delimiter s =
     (case quoted_delimiter squote s of
        Some (d, r) \<Rightarrow> Some (d, True, r)
      | None \<Rightarrow>
          (case quoted_delimiter dquote s of
             Some (d, r) \<Rightarrow> Some (d, True, r)
           | None \<Rightarrow>
               (let u = (if s \<noteq> [] \<and> hd s = bslash then tl s else s); d = takeWhile delimiter_char u
                in if d \<noteq> [] then Some (d, u \<noteq> s, dropWhile delimiter_char u)
                   else if u \<noteq> s then Some ([bslash], True, u)
                   else None)))"

lemma heredoc_delimiter_shorter: "heredoc_delimiter s = Some (d, q, r) \<Longrightarrow> length r < length s"
proof -
  assume h: "heredoc_delimiter s = Some (d, q, r)"
  have q: "quoted_delimiter c s = Some (d, r) \<Longrightarrow> length r < length s" for c
    using length_dropWhile_le [of "\<lambda>x. x \<noteq> c" "tl s"] by (cases s) (auto simp: quoted_delimiter_def split: if_splits)
  have t: "takeWhile delimiter_char u \<noteq> [] \<Longrightarrow> length (dropWhile delimiter_char u) < length u" for u
    using length_dropWhile_le [of delimiter_char "tl u"] by (cases u) (auto split: if_splits)
  show ?thesis
    using h q [of squote] q [of dquote] t [of s] t [of "tl s"]
    by (cases s) (auto simp: heredoc_delimiter_def Let_def split: option.splits if_splits)
qed

section \<open>One step of the scan\<close>

text \<open>A redirection at \<open>c # cs\<close>, which is not a process substitution.\<close>

definition scan_redirect :: "char \<Rightarrow> string \<Rightarrow> scan_state \<Rightarrow> shell_line \<Rightarrow> (string \<times> scan_state \<times> shell_line) parse" where
  "scan_redirect c cs st l =
     (let (fd, st1, l1) =
        (case ss_word st of
           Some w \<Rightarrow>
             (if wd_text w \<noteq> [] \<and> list_all is_digit (wd_text w) \<and> wd_literal w then (wd_text w, st\<lparr>ss_word := None\<rparr>, l)
              else (let (st', l') = endWord st l in ([], st', l')))
         | None \<Rightarrow> (let (st', l') = endWord st l in ([], st', l')))
      in if c = CHR ''<'' \<and> take 1 cs = ''<'' \<and> take 1 (drop 1 cs) \<noteq> ''<'' then
           (let strip = (take 1 (drop 1 cs) = ''-'');
                r = drop (if strip then 2 else 1) cs;
                blank = (\<lambda>d. d = CHR '' '' \<or> d = tab);
                spaced = (r \<noteq> [] \<and> blank (hd r))
            in (case heredoc_delimiter (dropWhile blank r) of
                  None \<Rightarrow> Inl ''a here-doc with no delimiter''
                | Some (d, q, rest) \<Rightarrow>
                    Inr (rest,
                         (written \<lparr>rd_operator = fd @ (if strip then ''<<-'' else ''<<''), rd_target = d, rd_literal = True\<rparr> spaced st1)
                           \<lparr>ss_heredocs := ss_heredocs st1 @ [\<lparr>hd_delimiter = d, hd_strip = strip, hd_quoted = q\<rparr>], ss_heredoc := True\<rparr>,
                         l1)))
         else
           (let opc = (\<lambda>d. d \<in> set ''<>&|'');
                more = takeWhile opc cs;
                r = dropWhile opc cs;
                operator = fd @ c # more;
                dup = (\<lambda>d. is_digit d \<or> d = CHR ''-'')
            in if more \<noteq> [] \<and> last more = CHR ''&'' \<and> r \<noteq> [] \<and> dup (hd r) then
                 Inr (dropWhile dup r,
                      written \<lparr>rd_operator = operator, rd_target = takeWhile dup r, rd_literal = True\<rparr> False st1, l1)
               else Inr (r, st1\<lparr>ss_pending := Some (operator, r \<noteq> [] \<and> (hd r = CHR '' '' \<or> hd r = tab))\<rparr>, l1)))"

definition scan_newline :: "runner \<Rightarrow> string \<Rightarrow> scan_state \<Rightarrow> shell_line \<Rightarrow> (string \<times> scan_state \<times> shell_line) parse" where
  "scan_newline inner cs st l =
     (case endCommand inner st l of
        Inl e \<Rightarrow> Inl e
      | Inr (st1, l1) \<Rightarrow>
          (case read_heredocs inner (ss_heredocs st1) (Some cs) l1 of
             Inl e \<Rightarrow> Inl e
           | Inr (r, l2) \<Rightarrow> Inr ((case r of None \<Rightarrow> [] | Some t \<Rightarrow> t), st1\<lparr>ss_heredocs := []\<rparr>, l2)))"

definition scan_subshell :: "runner \<Rightarrow> string \<Rightarrow> scan_state \<Rightarrow> shell_line \<Rightarrow> (string \<times> scan_state \<times> shell_line) parse" where
  "scan_subshell inner cs st l =
     (if ss_word st \<noteq> None \<or> ss_words st \<noteq> [] then
        Inl (clip (trim (words_text (ss_words st) @ '' '' @ (case ss_word st of None \<Rightarrow> [] | Some w \<Rightarrow> wd_text w) @ ''('')) @
             '' (a function definition)'')
      else
        (case matchParen 0 None (CHR ''('' # cs) of
           None \<Rightarrow> Inl unbalanced_parens
         | Some k \<Rightarrow>
             (case inner (take (k - 1) cs) l of
                Inl e \<Rightarrow> Inl e
              | Inr l' \<Rightarrow> Inr (drop k cs, st\<lparr>ss_closed := Some (length (sl_out l))\<rparr>, l'))))"

definition scan_semicolon :: "runner \<Rightarrow> string \<Rightarrow> bool \<Rightarrow> scan_state \<Rightarrow> shell_line \<Rightarrow> (string \<times> scan_state \<times> shell_line) parse" where
  "scan_semicolon inner cs in_body st l =
     (let next = take 1 cs
      in if next = '';'' \<or> (next = ''&'' \<and> in_body) then
           (if \<not> in_body then Inl (backtick # '';;'' @ [backtick] @ '' outside a case'')
            else
              (case endCommand inner st l of
                 Inl e \<Rightarrow> Inl e
               | Inr (st1, l1) \<Rightarrow>
                   Inr (drop (if next = '';'' \<and> take 1 (drop 1 cs) = ''&'' then 2 else 1) cs, set_arm ArmPattern st1, l1)))
         else (case endCommand inner st l of Inl e \<Rightarrow> Inl e | Inr (st1, l1) \<Rightarrow> Inr (cs, st1, l1)))"

definition put_word :: "word \<Rightarrow> scan_state \<Rightarrow> scan_state" where
  "put_word w st = st\<lparr>ss_word := Some w\<rparr>"

text \<open>\<open>c # cs\<close> is the text from the current position; the result is the text from the next one.\<close>

definition scan_step :: "runner \<Rightarrow> char \<Rightarrow> string \<Rightarrow> scan_state \<Rightarrow> shell_line \<Rightarrow> (string \<times> scan_state \<times> shell_line) parse" where
  "scan_step inner c cs st l =
     (let arm = (case ss_cases st of [] \<Rightarrow> None | a # _ \<Rightarrow> Some a); no_word = (ss_word st = None); next = take 1 cs
      in if arm = Some ArmPattern \<and> no_word then
           (if is_ws c then Inr (cs, st, l)
            else if at_word ''esac'' (c # cs) then Inr (drop 3 cs, esac st, l)
            else
              (case arm_end None (if c = CHR ''('' then cs else c # cs) of
                 None \<Rightarrow> Inl ''an unterminated case arm''
               | Some r \<Rightarrow> Inr (r, set_arm ArmBody st, l)))
         else if arm = Some ArmBody \<and> no_word \<and> ss_words st = [] \<and> at_word ''esac'' (c # cs) then Inr (drop 3 cs, esac st, l)
         else if c = CHR '' '' \<or> c = tab then (let (st1, l1) = endWord st l in Inr (cs, st1, l1))
         else if c = nl then scan_newline inner cs st l
         else if c = CHR '';'' then scan_semicolon inner cs (arm = Some ArmBody) st l
         else if c = CHR ''#'' \<and> no_word then Inr (dropWhile (\<lambda>d. d \<noteq> nl) cs, st, l)
         else if c = CHR ''|'' \<or> (c = CHR ''&'' \<and> next \<noteq> ''>'') then
           (case endCommand inner st l of
              Inl e \<Rightarrow> Inl e
            | Inr (st1, l1) \<Rightarrow>
                Inr (if (c = CHR ''|'' \<and> (next = ''|'' \<or> next = ''&'')) \<or> (c = CHR ''&'' \<and> next = ''&'') then drop 1 cs else cs, st1, l1))
         else if c = CHR ''<'' \<or> c = CHR ''>'' \<or> c = CHR ''&'' then
           (if c \<noteq> CHR ''&'' \<and> next = ''('' then
              (case matchParen 0 None cs of
                 None \<Rightarrow> Inl unbalanced_parens
               | Some k \<Rightarrow>
                   (case inner (take (k - 1) (drop 1 cs)) l of
                      Inl e \<Rightarrow> Inl e
                    | Inr l' \<Rightarrow> Inr (drop (k + 1) cs, put_word (add_text ''/dev/fd/0'' (cur st)) st, l')))
            else scan_redirect c cs st l)
         else if c = CHR ''('' then scan_subshell inner cs st l
         else if c = CHR '')'' then Inl unbalanced_parens
         else if c = bslash then
           (if next = [nl] then Inr (drop 1 cs, st, l)
            else if cs = [] then Inr ([], st, l)
            else Inr (drop 1 cs, put_word (add_text next (cur st)) st, l))
         else if c = squote then
           (case find_index (\<lambda>d. d = squote) cs of
              None \<Rightarrow> Inl unbalanced_quotes
            | Some k \<Rightarrow> Inr (drop (k + 1) cs, put_word (add_text (take k cs) (cur st)) st, l))
         else if c = dquote then
           (case quoted_text inner cs (cur st) l of Inl e \<Rightarrow> Inl e | Inr (w, r, l') \<Rightarrow> Inr (r, put_word w st, l'))
         else if c = CHR ''$'' \<or> c = backtick then
           (case expansion inner c cs (cur st) l of Inl e \<Rightarrow> Inl e | Inr (w, r, l') \<Rightarrow> Inr (r, put_word w st, l'))
         else
           (let w = cur st
            in Inr (cs,
                    put_word ((add_text [c] w)\<lparr>wd_tilde := wd_tilde w \<or> (c = CHR ''~'' \<and> wd_text w = []),
                                               wd_glob := wd_glob w \<or> c \<in> set ''*?[{}''\<rparr>) st, l)))"

text \<open>Every step moves on.\<close>

definition moves_on :: "string \<Rightarrow> (string \<times> scan_state \<times> shell_line) parse \<Rightarrow> bool" where
  "moves_on cs p \<longleftrightarrow> (\<forall>r st l. p = Inr (r, st, l) \<longrightarrow> length r \<le> length cs)"

lemma moves_Inl: "moves_on cs (Inl e)"
  by (simp add: moves_on_def)

lemma moves_Inr: "length r \<le> length cs \<Longrightarrow> moves_on cs (Inr (r, st, l))"
  by (simp add: moves_on_def)

lemma moves_if: "moves_on cs p \<Longrightarrow> moves_on cs q \<Longrightarrow> moves_on cs (if b then p else q)"
  by simp

lemma moves_option:
  "(x = None \<Longrightarrow> moves_on cs p) \<Longrightarrow> (\<And>a. x = Some a \<Longrightarrow> moves_on cs (f a)) \<Longrightarrow> moves_on cs (case x of None \<Rightarrow> p | Some a \<Rightarrow> f a)"
  by (cases x) simp_all

lemma moves_sum:
  "(\<And>e. x = Inl e \<Longrightarrow> moves_on cs (f e)) \<Longrightarrow> (\<And>a. x = Inr a \<Longrightarrow> moves_on cs (g a)) \<Longrightarrow> moves_on cs (case x of Inl e \<Rightarrow> f e | Inr a \<Rightarrow> g a)"
  by (cases x) simp_all

lemma moves_pair: "(\<And>a b. x = (a, b) \<Longrightarrow> moves_on cs (f a b)) \<Longrightarrow> moves_on cs (case x of (a, b) \<Rightarrow> f a b)"
  by (cases x) simp

lemma moves_let: "moves_on cs (f a) \<Longrightarrow> moves_on cs (Let a f)"
  by simp

lemmas moves_intros = moves_let moves_if moves_option moves_sum moves_pair moves_Inl moves_Inr

lemma scan_redirect_moves: "moves_on cs (scan_redirect c cs st l)"
proof -
  have d: "length (dropWhile P xs) \<le> length xs" for P and xs :: string by (rule length_dropWhile_le)
  have e: "length (dropWhile P (dropWhile Q cs)) \<le> length cs" for P Q by (meson d le_trans)
  have f: "heredoc_delimiter (dropWhile P (drop n cs)) = Some (a, b, r) \<Longrightarrow> length r \<le> length cs" for P n a b r
    using heredoc_delimiter_shorter [of "dropWhile P (drop n cs)" a b r] d [of P "drop n cs"] by simp
  show ?thesis
    unfolding scan_redirect_def by (intro moves_intros) (simp_all add: d e f del: take_append drop_append)
qed

lemma scan_newline_moves: "moves_on cs (scan_newline inner cs st l)"
  unfolding scan_newline_def
proof (intro moves_intros)
  fix a st1 l1 b m l2
  assume "b = (m, l2)" "read_heredocs inner (ss_heredocs st1) (Some cs) l1 = Inr b"
  then have "left m \<le> left (Some cs)" using read_heredocs_shorter by blast
  then show "length (case m of None \<Rightarrow> [] | Some t \<Rightarrow> t) \<le> length cs" by (cases m) (simp_all add: left_def)
qed

lemma scan_semicolon_moves: "moves_on cs (scan_semicolon inner cs b st l)"
  unfolding scan_semicolon_def by (intro moves_intros) simp_all

lemma scan_subshell_moves: "moves_on cs (scan_subshell inner cs st l)"
  unfolding scan_subshell_def by (intro moves_intros) simp_all

lemma scan_step_moves: "moves_on cs (scan_step inner c cs st l)"
proof -
  have a: "arm_end None (if b then cs else c # cs) = Some r \<Longrightarrow> length r \<le> length cs" for b r
    using arm_end_shorter [of None "if b then cs else c # cs" r] by (auto split: if_splits)
  have q: "quoted_text inner cs w l = Inr p \<Longrightarrow> p = (w', r, l') \<Longrightarrow> length r \<le> length cs" for w p w' r l'
    using quoted_text_shorter by fastforce
  show ?thesis
    unfolding scan_step_def
    by (intro moves_intros scan_newline_moves scan_semicolon_moves scan_subshell_moves scan_redirect_moves)
      (auto simp: length_dropWhile_le dest: a q expansion_shorter)
qed

lemma scan_step_shorter: "scan_step inner c cs st l = Inr (r, st', l') \<Longrightarrow> length r \<le> length cs"
  using scan_step_moves [of cs inner c st l] by (auto simp: moves_on_def)

section \<open>A line\<close>

function scan :: "runner \<Rightarrow> string \<Rightarrow> scan_state \<Rightarrow> shell_line \<Rightarrow> (scan_state \<times> shell_line) parse" where
  "scan inner [] st l = Inr (st, l)"
| "scan inner (c # cs) st l =
     (case scan_step inner c cs st l of Inl e \<Rightarrow> Inl e | Inr (r, st', l') \<Rightarrow> scan inner r st' l')"
  by pat_completeness auto
termination by (relation "measure (\<lambda>(f, s, st, l). length s)") (auto dest: scan_step_shorter)

declare scan.simps [simp del]

definition decompose_line :: "runner \<Rightarrow> runner" where
  "decompose_line inner command l =
     (case scan inner command scan_start l of
        Inl e \<Rightarrow> Inl e
      | Inr (st, l1) \<Rightarrow>
          (case endCommand inner st l1 of
             Inl e \<Rightarrow> Inl e
           | Inr (st2, l2) \<Rightarrow>
               if ss_heredocs st2 \<noteq> [] then Inl ''an unterminated here-doc''
               else if ss_cases st2 \<noteq> [] then Inl ''an unterminated case''
               else Inr l2))"

text \<open>\<open>decompose\<close> with \<open>n\<close> levels left: past the last one the program throws.\<close>

primrec decompose_at :: "nat \<Rightarrow> runner" where
  "decompose_at 0 = (\<lambda>command l. Inl (''nested deeper than '' @ nat_str MAX_DEPTH))"
| "decompose_at (Suc n) = decompose_line (decompose_at n)"

definition decomposeBash :: "string \<Rightarrow> decomposed" where
  "decomposeBash command =
     (case decompose_at (Suc MAX_DEPTH) command empty_line of
        Inl e \<Rightarrow> \<lparr>dm_commands = [], dm_opaque = Some e, dm_writes = []\<rparr>
      | Inr l \<Rightarrow>
          \<lparr>dm_commands = (if sl_envChanged l then map (\<lambda>c. c\<lparr>sc_envInjected := True\<rparr>) (sl_out l) else sl_out l),
           dm_opaque = None, dm_writes = sl_writes l\<rparr>)"

end
