(* ===== verification/ReadOnlyShell.thy ===== *)
theory ReadOnlyShell
  imports Safety ShellDecompose
begin

text \<open>
  \<open>permission/readonly-shell.ts\<close>: which shell commands cruise mode runs without asking.
\<close>

section \<open>Tables\<close>

definition READ_ONLY :: "string list" where
  "READ_ONLY =
     [''ls'', ''pwd'', ''cat'', ''head'', ''tail'', ''wc'', ''stat'', ''file'', ''du'', ''df'', ''echo'', ''printf'', ''date'', ''uname'', ''whoami'', ''id'',
      ''hostname'', ''which'', ''type'', ''command'', ''readlink'', ''realpath'', ''basename'', ''dirname'', ''env'', ''printenv'', ''ps'', ''pgrep'',
      ''lsof'', ''netstat'', ''uptime'', ''true'', ''false'', ''tr'', ''cut'', ''sort'', ''uniq'', ''grep'', ''egrep'', ''fgrep'', ''rg'', ''ag'', ''awk'', ''jq'', ''diff'',
      ''cmp'', ''comm'', ''less'', ''more'', ''strings'', ''od'', ''hexdump'', ''xxd'', ''md5'', ''md5sum'', ''sha1sum'', ''sha256sum'', ''shasum'',
      ''nproc'', ''sw_vers'', ''arch'', ''locale'', ''tty'', ''sleep'', ''test'', ''['', ''column'', ''nl'', ''fold'', ''tee_never'']"

definition VERSION_ONLY :: "string list" where
  "VERSION_ONLY =
     [''node'', ''bun'', ''npm'', ''pnpm'', ''yarn'', ''python'', ''python3'', ''pip'', ''pip3'', ''go'', ''cargo'', ''rustc'', ''java'', ''ruby'', ''gem'', ''php'',
      ''docker'', ''kubectl'', ''terraform'', ''gh'', ''aws'', ''gcloud'', ''az'', ''make'', ''cmake'', ''gcc'', ''clang'', ''tsc'', ''deno'']"

definition VERSION_FLAGS :: "string list" where "VERSION_FLAGS = [''--version'', ''-v'', ''-V'', ''--help'', ''-h'']"

definition VERSION_SUBCOMMAND :: "string list" where
  "VERSION_SUBCOMMAND =
     [''npm'', ''go'', ''cargo'', ''gem'', ''pip'', ''pip3'', ''docker'', ''kubectl'', ''terraform'', ''gh'', ''aws'', ''gcloud'', ''az'']"

definition GIT_READ :: "string list" where
  "GIT_READ =
     [''status'', ''log'', ''diff'', ''show'', ''rev-parse'', ''ls-files'', ''ls-tree'', ''blame'', ''describe'', ''grep'', ''cat-file'', ''shortlog'', ''reflog'',
      ''rev-list'', ''name-rev'', ''count-objects'', ''var'', ''check-ignore'', ''merge-base'', ''for-each-ref'', ''symbolic-ref'', ''show-ref'', ''whatchanged'',
      ''diff-tree'', ''diff-index'', ''diff-files'', ''worktree'']"

definition GIT_WRITES_OR_RUNS :: rx where
  "GIT_WRITES_OR_RUNS =
     alts [cats [Bol, lit ''--'', alts (map lit [''output'', ''ext-diff'', ''textconv'', ''filters'', ''open-files-in-pager''])], cats [Bol, lit ''-O'']]"

definition BRACE_EXPANSION :: rx where
  "BRACE_EXPANSION = cats [lit ''{'', Star (none_of ''{}''), alts [lit '','', lit ''..''], Star (none_of ''{}''), lit ''}'']"

section \<open>Quotes\<close>

fun consumedBackslash :: "char option \<Rightarrow> string \<Rightarrow> bool" where
  "consumedBackslash q [] = False"
| "consumedBackslash q (c # cs) =
     (if c = bslash \<and> q \<noteq> Some squote then True
      else if q = None \<and> (c = squote \<or> c = dquote) then consumedBackslash (Some c) cs
      else if q = Some c then consumedBackslash None cs
      else consumedBackslash q cs)"

text \<open>A quoted span \<open>'[^']*'\<close> or \<open>"[^"]*"\<close> at the start: the span and the rest.\<close>

definition quoted_span :: "string \<Rightarrow> (string \<times> string) option" where
  "quoted_span s =
     (case s of
        [] \<Rightarrow> None
      | c # cs \<Rightarrow>
          if (c = squote \<or> c = dquote) \<and> c \<in> set cs then
            Some (c # takeWhile (\<lambda>d. d \<noteq> c) cs @ [c], tl (dropWhile (\<lambda>d. d \<noteq> c) cs))
          else None)"

lemma quoted_span_shorter: "quoted_span s = Some (a, r) \<Longrightarrow> length r < length s"
proof (cases s)
  case (Cons c cs)
  assume "quoted_span s = Some (a, r)"
  with Cons have "r = tl (dropWhile (\<lambda>d. d \<noteq> c) cs)" by (simp add: quoted_span_def split: if_splits)
  moreover have "length (dropWhile (\<lambda>d. d \<noteq> c) cs) \<le> length cs" by (rule length_dropWhile_le)
  ultimately show ?thesis using Cons by simp
qed (simp add: quoted_span_def)

definition redirect_end :: rx where
  "redirect_end = Ahead (alts [ws, Eol, one_of '';|&''])"

definition own_fd :: rx where
  "own_fd = opt (Cat (Prev (\<lambda>p. case p of None \<Rightarrow> True | Some c \<Rightarrow> is_ws c)) digit)"

definition HARMLESS_REDIRECT :: rx where
  "HARMLESS_REDIRECT =
     alts [cats [own_fd, alts [Cat (lit ''>'') (opt (lit ''>'')), Cat (lit ''&>'') (opt (lit ''>''))], Star ws, lit ''/dev/null'', redirect_end],
           cats [own_fd, lit ''>&'', digit, redirect_end]]"

definition blank_redirects :: "string \<Rightarrow> string" where
  "blank_redirects s = rx_replace_all HARMLESS_REDIRECT '' '' (None, s)"

text \<open>The text outside quotes since the last span, \<open>buf\<close>, is blanked when a span or the end is reached.\<close>

function strip_redirects :: "string \<Rightarrow> string \<Rightarrow> string" where
  "strip_redirects buf s =
     (case s of
        [] \<Rightarrow> blank_redirects buf
      | c # cs \<Rightarrow>
          (case quoted_span s of
             Some (a, r) \<Rightarrow> blank_redirects buf @ a @ strip_redirects [] r
           | None \<Rightarrow> strip_redirects (buf @ [c]) cs))"
  by pat_completeness auto
termination by (relation "measure (\<lambda>(b, s). length s)") (auto dest: quoted_span_shorter)

declare strip_redirects.simps [simp del]

definition stripHarmlessRedirects :: "string \<Rightarrow> string" where
  "stripHarmlessRedirects cmd = strip_redirects [] cmd"

text \<open>\<open>trimmed.replace(/'[^']*'|"[^"]*"/g, "")\<close>.\<close>

function without_quoted :: "string \<Rightarrow> string" where
  "without_quoted s =
     (case s of
        [] \<Rightarrow> []
      | c # cs \<Rightarrow> (case quoted_span s of Some (a, r) \<Rightarrow> without_quoted r | None \<Rightarrow> c # without_quoted cs))"
  by pat_completeness auto
termination by (relation "measure length") (auto dest: quoted_span_shorter)

declare without_quoted.simps [simp del]

text \<open>A quoted span with white space in it, \<open>/'[^']*\s[^']*'|"[^"]*\s[^"]*"/\<close>.\<close>

definition quoted_space :: rx where
  "quoted_space =
     alts (map (\<lambda>q. cats [lit [q], Star (Chr (\<lambda>c. c \<noteq> q)), ws, Star (Chr (\<lambda>c. c \<noteq> q)), lit [q]]) [squote, dquote])"

function words_of :: "string \<Rightarrow> string list" where
  "words_of s =
     (case s of
        [] \<Rightarrow> []
      | c # cs \<Rightarrow>
          (case quoted_span s of
             Some (a, r) \<Rightarrow> butlast (tl a) # words_of r
           | None \<Rightarrow>
               if is_ws c then words_of cs
               else takeWhile (\<lambda>d. \<not> is_ws d) s # words_of (dropWhile (\<lambda>d. \<not> is_ws d) s)))"
  by pat_completeness auto
termination
  by (relation "measure length") (auto dest: quoted_span_shorter simp: length_dropWhile_le le_imp_less_Suc)

declare words_of.simps [simp del]

definition shell_tokens :: "string \<Rightarrow> string list option" where
  "shell_tokens cmd = (if list_ex (\<lambda>c. c \<in> set (backtick # ''$()'')) cmd then None else Some (words_of cmd))"

section \<open>awk, sed and operands\<close>

fun operands :: "string list \<Rightarrow> string list \<Rightarrow> string list" where
  "operands withValue [] = []"
| "operands withValue (a # as) =
     (if a = ''--'' then as
      else if a \<in> set withValue then (case as of [] \<Rightarrow> [] | _ # as' \<Rightarrow> operands withValue as')
      else if starts ''-'' a then operands withValue as
      else a # operands withValue as)"

definition awk_option :: rx where
  "awk_option = alts [cats [Bol, lit ''-F'', dot], cats [Bol, lit ''-v'', Chr is_name_start, Star (Chr is_word), lit ''='']]"

definition awk_unsafe :: rx where
  "awk_unsafe = alts [lit ''system'', lit ''getline'', one_of ''|>'', Cat (lit ''@'') (alts [lit ''load'', lit ''include''])]"

fun awkIsReadOnly :: "string list \<Rightarrow> bool" where
  "awkIsReadOnly [] = False"
| "awkIsReadOnly (a # as) =
     (if a = ''-F'' then (case as of [] \<Rightarrow> False | _ # as' \<Rightarrow> awkIsReadOnly as')
      else if rx_test awk_option a then awkIsReadOnly as
      else if starts ''-'' a then False
      else \<not> list_ex (rx_test awk_unsafe) (a # as))"

definition SED_LONG :: "string list" where
  "SED_LONG =
     [''--debug'', ''--posix'', ''--quiet'', ''--silent'', ''--regexp-extended'', ''--sandbox'', ''--separate'', ''--unbuffered'', ''--null-data'',
      ''--zero-terminated'', ''--follow-symlinks'']"

definition SED_ADDRESS :: rx where
  "SED_ADDRESS =
     alts [plus digit, lit ''$'',
           cats [lit ''/'', Star (Alt (none_of [CHR ''/'', bslash, nl]) (Cat (lit [bslash]) dot)), lit ''/'', Star (one_of ''IM'')]]"

definition SED_RANGE :: rx where
  "SED_RANGE =
     alts [cats [plus digit, lit ''~'', plus digit],
           cats [SED_ADDRESS, opt (cats [Star ws, lit '','', Star ws, Alt SED_ADDRESS (Cat (one_of ''+~'') (plus digit))])]]"

text \<open>The two delimited fields of \<open>s\<close> and \<open>y\<close>, for the delimiter that follows the letter.\<close>

definition sed_fields :: "char \<Rightarrow> rx" where
  "sed_fields d =
     (let field = Star (Alt (Chr (\<lambda>c. c \<noteq> d \<and> c \<noteq> bslash \<and> c \<noteq> nl)) (Cat (lit [bslash]) dot))
      in cats [field, lit [d], field, lit [d]])"

definition sed_delimited :: "char \<Rightarrow> rx \<Rightarrow> pos \<Rightarrow> pos list" where
  "sed_delimited letter flags p =
     (case advance p of
        None \<Rightarrow> []
      | Some (c, q) \<Rightarrow>
          if c \<noteq> letter then []
          else
            (case advance q of
               None \<Rightarrow> []
             | Some (d, r) \<Rightarrow> if is_word d \<or> is_ws d \<or> d = bslash then [] else rx_ends (Cat (sed_fields d) flags) r))"

text \<open>The first match of \<open>SED_TOKEN\<close>, sticky at the position.\<close>

definition sed_token :: "pos \<Rightarrow> pos option" where
  "sed_token p =
     (let command = (\<lambda>q. rx_ends (lit ''{'') q @ rx_ends (one_of ''pdqQ=nNPDhHgGxlzF'') q
                         @ sed_delimited (CHR ''s'') (Star (Alt (one_of ''gpiImM'') digit)) q @ sed_delimited (CHR ''y'') Eps q);
          found = concat (map (\<lambda>q. rx_ends (one_of [CHR '';'', nl]) q @ rx_ends (lit ''}'') q
                                   @ concat (map command (rx_ends (cats [opt (Cat SED_RANGE (Star ws)), opt (lit ''!''), Star ws]) q)))
                      (rx_ends (Star ws) p))
      in (case found of [] \<Rightarrow> None | q # _ \<Rightarrow> Some q))"

function sed_script :: "pos \<Rightarrow> bool" where
  "sed_script p =
     (if trim (snd p) = [] then True
      else (case sed_token p of None \<Rightarrow> False | Some q \<Rightarrow> if length (snd q) < length (snd p) then sed_script q else False))"
  by pat_completeness auto
termination by (relation "measure (\<lambda>p. length (snd p))") auto

declare sed_script.simps [simp del]

definition sedScriptIsReadOnly :: "string \<Rightarrow> bool" where "sedScriptIsReadOnly s = sed_script (None, s)"

definition all_digits :: "string \<Rightarrow> bool" where "all_digits s \<longleftrightarrow> s \<noteq> [] \<and> list_all is_digit s"

text \<open>The letters of a short-option cluster: the script it gives, if any, and the arguments left.\<close>

fun sed_cluster :: "string \<Rightarrow> string list \<Rightarrow> (string list \<times> string list) option" where
  "sed_cluster [] as = Some ([], as)"
| "sed_cluster (c # cs) as =
     (if c \<in> set ''nErsuz'' then sed_cluster cs as
      else if c \<noteq> CHR ''e'' \<and> c \<noteq> CHR ''l'' then None
      else
        (case (if cs \<noteq> [] then Some (cs, as) else (case as of [] \<Rightarrow> None | v # as' \<Rightarrow> Some (v, as'))) of
           None \<Rightarrow> None
         | Some (v, as') \<Rightarrow>
             if c = CHR ''l'' \<and> \<not> all_digits v then None
             else Some (if c = CHR ''e'' then [v] else [], as')))"

lemma sed_cluster_shorter: "sed_cluster cs as = Some (v, as') \<Longrightarrow> length as' \<le> length as"
  by (induction cs as rule: sed_cluster.induct) (auto split: if_splits list.splits)

text \<open>The scripts and the operands, or \<open>None\<close> when an option is not known to be read-only.\<close>

function sed_arguments :: "string list \<Rightarrow> string list \<Rightarrow> string list \<Rightarrow> (string list \<times> string list) option" where
  "sed_arguments scripts rest [] = Some (scripts, rest)"
| "sed_arguments scripts rest (a # as) =
     (if a = ''--'' then Some (scripts, rest @ as)
      else if starts ''--'' a then
        (let eq = CHR ''='' \<in> set a; flag = before (CHR ''='') a;
             given = (if eq then Some (tl (dropWhile (\<lambda>c. c \<noteq> CHR ''='') a), as) else (case as of [] \<Rightarrow> None | v # as' \<Rightarrow> Some (v, as')))
         in if flag = ''--expression'' then
              (case given of None \<Rightarrow> None | Some (v, as') \<Rightarrow> sed_arguments (scripts @ [v]) rest as')
            else if flag = ''--line-length'' then
              (case given of
                 None \<Rightarrow> None
               | Some (v, as') \<Rightarrow> if all_digits v then sed_arguments scripts rest as' else None)
            else if eq \<or> a \<notin> set SED_LONG then None
            else sed_arguments scripts rest as)
      else if starts ''-'' a \<and> a \<noteq> ''-'' then
        (case sed_cluster (tl a) as of
           None \<Rightarrow> None
         | Some (v, as') \<Rightarrow> sed_arguments (scripts @ v) rest as')
      else sed_arguments scripts (rest @ [a]) as)"
  by pat_completeness auto
termination
  by (relation "measure (\<lambda>(s, r, as). length as)")
    (auto dest: sed_cluster_shorter split: if_splits list.splits)

declare sed_arguments.simps [simp del]

definition sedIsReadOnly :: "string list \<Rightarrow> bool" where
  "sedIsReadOnly args =
     (case sed_arguments [] [] args of
        None \<Rightarrow> False
      | Some (scripts, rest) \<Rightarrow>
          if scripts = [] then (case rest of [] \<Rightarrow> False | r # _ \<Rightarrow> sedScriptIsReadOnly r)
          else list_all sedScriptIsReadOnly scripts)"

section \<open>Simple commands\<close>

definition after_first :: "string \<Rightarrow> string list \<Rightarrow> string list" where
  "after_first x xs = tl (dropWhile (\<lambda>y. y \<noteq> x) xs)"

definition option_like :: "string \<Rightarrow> bool" where "option_like a = starts ''-'' a"

definition branch_writes :: rx where
  "branch_writes =
     alts [cats [Bol, lit ''-'', one_of ''dDmMcCf'', Eol],
           cats [Bol, lit ''--'',
                 alts (map lit [''delete'', ''move'', ''copy'', ''force'', ''set-upstream-to'', ''unset-upstream'', ''edit-description''])]]"

definition git_reads :: "string list \<Rightarrow> bool" where
  "git_reads args =
     (case find (\<lambda>a. \<not> option_like a) args of
        None \<Rightarrow> False
      | Some sub \<Rightarrow>
          (let rest = after_first sub args; runs = list_ex (rx_test GIT_WRITES_OR_RUNS) args
           in if sub \<notin> set GIT_READ then
                (if sub = ''branch'' \<or> sub = ''tag'' then
                   list_all (\<lambda>a. a = sub \<or> option_like a) args \<and> \<not> list_ex (rx_test branch_writes) args
                 else if sub = ''stash'' then (case rest of [] \<Rightarrow> False | r # _ \<Rightarrow> r \<in> set [''list'', ''show'']) \<and> \<not> runs
                 else if sub = ''remote'' then list_all (\<lambda>a. a \<in> set [''-v'', ''--verbose'', ''show'', ''get-url'']) rest
                 else if sub = ''config'' then
                   list_ex (\<lambda>a. a \<in> set [''--get'', ''--list'', ''-l'', ''--get-all'', ''--get-regexp'']) args
                 else False)
              else if sub = ''worktree'' then (case rest of [] \<Rightarrow> False | r # _ \<Rightarrow> r = ''list'')
              else if sub = ''symbolic-ref'' then
                \<not> list_ex (\<lambda>a. a \<in> set [''-d'', ''--delete'', ''-m'']) rest \<and> length (filter (\<lambda>a. \<not> option_like a) rest) \<le> 1
              else if sub = ''reflog'' \<and> (case rest of [] \<Rightarrow> False | r # _ \<Rightarrow> r \<in> set [''expire'', ''delete'', ''drop'']) then False
              else \<not> runs))"

definition find_writes :: rx where
  "find_writes =
     alts [cats [Bol, lit ''-'', alts (map lit [''delete'', ''exec'', ''execdir'', ''ok'', ''okdir'', ''fls'']), Eol], cats [Bol, lit ''-fprint'']]"

definition sort_writes :: rx where
  "sort_writes = alts [cats [Bol, lit ''-'', Star (none_of ''-''), lit ''o''], cats [Bol, lit ''--'', alts [lit ''o'', lit ''co'']]]"

definition file_writes :: rx where
  "file_writes = alts [cats [Bol, lit ''-'', Star (Chr is_alpha), lit ''C''], cats [Bol, lit ''--comp'']]"

definition rg_runs :: rx where
  "rg_runs = cats [Bol, lit ''--'', alts [lit ''pre'', lit ''hostname-bin''], alts [lit ''='', Eol]]"

definition ag_runs :: rx where "ag_runs = cats [Bol, lit ''--pag'']"

definition ss_kills :: rx where "ss_kills = cats [Bol, lit ''-'', Star (Chr is_alpha), lit ''K'']"

text \<open>Programs other than \<open>env\<close> and \<open>command\<close>, which run their arguments.\<close>

definition program_reads :: "string \<Rightarrow> string list \<Rightarrow> bool \<Rightarrow> bool" where
  "program_reads base args quotedSpace =
     (if base \<in> set [''sudo'', ''doas'', ''su'', ''xargs'', ''eval'', ''exec'', ''source'', ''.''] then False
      else if base = ''git'' then git_reads args
      else if base = ''arch'' then args = []
      else if base = ''find'' then \<not> list_ex (rx_test find_writes) args
      else if base = ''sed'' then \<not> quotedSpace \<and> sedIsReadOnly args
      else if base = ''awk'' \<or> base = ''gawk'' then awkIsReadOnly args
      else if base = ''sort'' then \<not> list_ex (rx_test sort_writes) args
      else if base = ''uniq'' then length (operands [''-f'', ''-s'', ''-w''] args) \<le> 1
      else if base = ''xxd'' then
        length (operands [''-c'', ''-cols'', ''-g'', ''-groupsize'', ''-l'', ''-len'', ''-s'', ''-seek'', ''-o'', ''-offset'', ''-n'', ''-name''] args) \<le> 1
      else if base = ''file'' then \<not> list_ex (rx_test file_writes) args
      else if base = ''less'' \<or> base = ''more'' then list_all (\<lambda>a. \<not> option_like a \<and> \<not> starts ''+'' a) args
      else if base = ''rg'' then \<not> list_ex (rx_test rg_runs) args
      else if base = ''ag'' then \<not> list_ex (rx_test ag_runs) args
      else if base = ''tee'' \<or> base = ''tee_never'' then False
      else if base = ''ss'' then \<not> list_ex (\<lambda>a. a = ''--kill'' \<or> rx_test ss_kills a) args
      else if base \<in> set VERSION_ONLY then
        (case args of
           [a] \<Rightarrow> a \<in> set VERSION_FLAGS \<or> (base \<in> set VERSION_SUBCOMMAND \<and> (a = ''version'' \<or> a = ''help''))
         | _ \<Rightarrow> False)
      else base \<in> set READ_ONLY)"

text \<open>\<open>argvIsReadOnly\<close> of a program and its arguments.\<close>

function argvIsReadOnly :: "string \<Rightarrow> string list \<Rightarrow> bool \<Rightarrow> bool" where
  "argvIsReadOnly prog args quotedSpace =
     (let base = basename prog
      in if base = ''env'' then
           (case args of [] \<Rightarrow> True | a # as \<Rightarrow> if option_like a then False else argvIsReadOnly a as quotedSpace)
         else if base = ''command'' then
           (case args of
              [] \<Rightarrow> True
            | a # as \<Rightarrow>
                if a = ''-v'' \<or> a = ''-V'' then True
                else if a = ''-p'' then
                  (case as of [] \<Rightarrow> True | b # bs \<Rightarrow> if option_like b then False else argvIsReadOnly b bs quotedSpace)
                else if option_like a then False
                else argvIsReadOnly a as quotedSpace)
         else program_reads base args quotedSpace)"
  by pat_completeness auto
termination by (relation "measure (\<lambda>(p, as, q). length as)") auto

declare argvIsReadOnly.simps [simp del]

definition simpleIsReadOnly :: "string \<Rightarrow> bool \<Rightarrow> bool" where
  "simpleIsReadOnly cmd quotedSpace =
     (case shell_tokens (trim cmd) of
        None \<Rightarrow> False
      | Some [] \<Rightarrow> False
      | Some (p # args) \<Rightarrow> argvIsReadOnly p args quotedSpace)"

section \<open>A line\<close>

text \<open>\<open>s.replace(/&&/g, "")\<close>.\<close>

fun without_and :: "string \<Rightarrow> string" where
  "without_and (a # b # cs) =
     (if a = CHR ''&'' \<and> b = CHR ''&'' then without_and cs else a # without_and (b # cs))"
| "without_and cs = cs"

definition writes_or_runs :: rx where
  "writes_or_runs = alts [one_of ''<>'', lit [backtick], lit ''$('']"

definition isReadOnlyShell :: "string \<Rightarrow> bool" where
  "isReadOnlyShell command =
     (let trimmed = trim (stripHarmlessRedirects (trim command));
          unquoted = without_quoted trimmed;
          parts = splitShellCommands trimmed
      in if trimmed = [] then False
         else if refusesAutoApproval (decomposeBash command) then False
         else if rx_test writes_or_runs unquoted then False
         else if consumedBackslash None trimmed \<or> rx_test BRACE_EXPANSION unquoted then False
         else if CHR ''&'' \<in> set (without_and unquoted) then False
         else if parts = [] then False
         else list_all (\<lambda>part. list_all (\<lambda>stage. simpleIsReadOnly stage (rx_test quoted_space trimmed)) (split_ch (CHR ''|'') part)) parts)"

text \<open>A line that is read-only is one the decomposer would let through.\<close>

lemma read_only_approvable: "isReadOnlyShell c \<Longrightarrow> \<not> refusesAutoApproval (decomposeBash c)"
  by (auto simp: isReadOnlyShell_def Let_def split: if_splits)

end
