(* ===== verification/PlanFlags.thy ===== *)
theory PlanFlags
  imports Protocol ReadOnlyShell Sha256
begin

text \<open>
  The words and flags of \<open>permission/plan-gate.ts\<close>: how a command is cut into words, the flag tables of kubectl, oc,
  helm, terraform and aws, the reading of one flag word (\<open>readFlag\<close>), the canonical form of a line's flags
  (\<open>canonicalFlags\<close>, \<open>terraformFlags\<close>), the files, the identity and the kubeconfig they name, and the split at the verb
  (\<open>splitGlobals\<close>).  A set of names is the list of its members, a position in the words the rest of them.  A table of
  the source that is a plain object also answers for the names every object inherits; what the program then does with
  the function it finds is to throw, which is \<open>None\<close> here.
\<close>

section \<open>Objects used as tables\<close>

datatype 'a member = Absent | Inherited | Own 'a

definition member :: "(string \<times> 'a) list \<Rightarrow> string \<Rightarrow> 'a member" where
  "member m k = (case map_of m k of Some v \<Rightarrow> Own v | None \<Rightarrow> if k \<in> set inherited_names then Inherited else Absent)"

section \<open>Words\<close>

text \<open>\<open>REDIRECT\<close> and \<open>BARE_REDIRECT\<close>.\<close>

definition redirect_op :: rx where
  "redirect_op = Cat (Star digit) (alts [lit ''>>'', lit ''>'', lit ''<'', lit ''>&'', lit ''<&'', lit ''>|''])"

definition REDIRECT :: rx where
  "REDIRECT = Cat Bol (alts [redirect_op, lit ''&>>'', lit ''&>''])"

definition BARE_REDIRECT :: rx where
  "BARE_REDIRECT =
     cats [Bol, alts [Cat (Star digit) (alts [lit ''>>'', lit ''>'', lit ''<'', lit ''>|'']), lit ''&>>'', lit ''&>''], Eol]"

text \<open>What is before the first \<open>||\<close>, \<open>&&\<close>, \<open>|\<close> or \<open>;\<close>, without the white space before it.\<close>

fun before_operator :: "string \<Rightarrow> string option" where
  "before_operator [] = None"
| "before_operator (c # cs) =
     (if c = CHR ''|'' \<or> c = CHR '';'' \<or> (c = CHR ''&'' \<and> starts ''&'' cs) then Some []
      else map_option ((#) c) (before_operator cs))"

definition first_command :: "string \<Rightarrow> string" where
  "first_command s = (case before_operator s of Some h \<Rightarrow> trimEnd h | None \<Rightarrow> s)"

fun drop_redirects :: "string list \<Rightarrow> string list" where
  "drop_redirects [] = []"
| "drop_redirects (w # wds) =
     (if rx_test REDIRECT w then
        (if rx_test BARE_REDIRECT w then (case wds of [] \<Rightarrow> [] | _ # r \<Rightarrow> drop_redirects r) else drop_redirects wds)
      else w # drop_redirects wds)"

definition env_word :: rx where
  "env_word = cats [Bol, Chr is_name_start, Star (Chr is_word), lit ''='']"

definition plan_words :: "string \<Rightarrow> string list" where
  "plan_words command =
     dropWhile (\<lambda>w. rx_test env_word w \<or> w \<in> {''sudo'', ''env'', ''time'', ''nohup''}) (drop_redirects (words_of (first_command command)))"

text \<open>The name after the last slash: \<open>w.replace(/^.*\//, "")\<close>.\<close>

definition after_slash :: "string \<Rightarrow> string" where
  "after_slash w = rx_replace1 (cats [Bol, Star dot, lit ''/'']) [] w"

text \<open>\<open>w.startsWith(name + "=")\<close>, and the value after it.\<close>

definition assigns :: "string \<Rightarrow> string \<Rightarrow> bool" where "assigns n w \<longleftrightarrow> starts (n @ ''='') w"

fun flag_at :: "string list \<Rightarrow> string \<Rightarrow> string list \<Rightarrow> string option" where
  "flag_at [] w rest = None"
| "flag_at (n # names) w rest =
     (if w = n \<and> rest \<noteq> [] \<and> hd rest \<noteq> [] then Some (hd rest)
      else if assigns n w then Some (drop (length n + 1) w)
      else flag_at names w rest)"

fun flagValue :: "string list \<Rightarrow> string list \<Rightarrow> string option" where
  "flagValue [] names = None"
| "flagValue (w # wds) names = (case flag_at names w wds of Some v \<Rightarrow> Some v | None \<Rightarrow> flagValue wds names)"

definition flags_at :: "string list \<Rightarrow> string \<Rightarrow> string list \<Rightarrow> string list" where
  "flags_at names w rest =
     concat (map (\<lambda>n. if w = n \<and> rest \<noteq> [] \<and> hd rest \<noteq> [] then [hd rest]
                      else if assigns n w then [drop (length n + 1) w] else []) names)"

fun flagValues :: "string list \<Rightarrow> string list \<Rightarrow> string list" where
  "flagValues [] names = []"
| "flagValues (w # wds) names = flags_at names w wds @ flagValues wds names"

definition DRY_RUN_MODES :: "string list" where "DRY_RUN_MODES = [''server'', ''client'', ''none'']"

definition SPACED_VALUE :: "string list" where
  "SPACED_VALUE =
     map ((#) (CHR ''-''))
       [''f'', ''n'', ''o'', ''out'', ''var-file'', ''chdir'', ''namespace'', ''values'', ''file'', ''g'', ''l'', ''p'', ''-context'', ''-kube-context'',
        ''-kubeconfig'', ''-cluster'', ''-server'', ''-user'', ''-output'', ''-field-manager'', ''-filename'', ''-kustomize'', ''-selector'']"

fun positionals :: "string list \<Rightarrow> string list" where
  "positionals [] = []"
| "positionals [w] = (if starts ''-'' w then [] else [w])"
| "positionals (w # v # wds) =
     (if starts ''-'' w then
        (if CHR ''='' \<notin> set w \<and> v \<noteq> [] \<and> \<not> starts ''-'' v \<and> w \<in> set SPACED_VALUE then positionals wds
         else if w = ''--dry-run'' \<and> v \<in> set DRY_RUN_MODES then positionals wds
         else positionals (v # wds))
      else w # positionals (v # wds))"

datatype plan_kind = Plan | Apply

fun dry_run_from :: "plan_kind \<Rightarrow> string list \<Rightarrow> plan_kind" where
  "dry_run_from mode [] = mode"
| "dry_run_from mode (w # wds) =
     (if w = ''--dry-run'' then dry_run_from Plan wds
      else if assigns ''--dry-run'' w then
        (if drop 10 w \<in> {''client'', ''server'', ''true''} then dry_run_from Plan wds else Apply)
      else dry_run_from mode wds)"

definition dryRun :: "string list \<Rightarrow> plan_kind" where "dryRun wds = dry_run_from Apply wds"

section \<open>Flag tables\<close>

record flag_spec =
  fs_value :: "string list"
  fs_bool :: "string list"
  fs_short :: "(char \<times> string) list"
  fs_repeatable :: "string list"
  fs_goStyle :: bool

definition KUBECTL_MUTATING :: "string list" where
  "KUBECTL_MUTATING =
     [''apply'', ''create'', ''delete'', ''patch'', ''replace'', ''scale'', ''rollout'', ''set'', ''label'', ''annotate'',
      ''taint'', ''drain'', ''cordon'', ''uncordon'', ''expose'', ''autoscale'', ''run'', ''edit'']"

definition KUBE_GLOBAL_VALUE :: "string list" where
  "KUBE_GLOBAL_VALUE =
     [''server'', ''context'', ''kubeconfig'', ''cluster'', ''user'', ''token'', ''as'', ''as-group'', ''as-uid'',
      ''namespace'', ''request-timeout'', ''v'', ''tls-server-name'', ''certificate-authority'', ''client-certificate'',
      ''client-key'', ''username'', ''password'', ''cache-dir'', ''profile'', ''profile-output'', ''log-file'', ''log-dir'',
      ''vmodule'', ''stderrthreshold'', ''log-file-max-size'', ''log-flush-frequency'']"

definition KUBE_GLOBAL_BOOL :: "string list" where
  "KUBE_GLOBAL_BOOL =
     [''insecure-skip-tls-verify'', ''match-server-version'', ''warnings-as-errors'', ''disable-compression'',
      ''alsologtostderr'', ''logtostderr'', ''skip-headers'', ''skip-log-headers'', ''one-output'', ''add-dir-header'',
      ''help'']"

definition KUBE_LOCAL_VALUE :: "string list" where
  "KUBE_LOCAL_VALUE =
     [''filename'', ''kustomize'', ''output'', ''template'', ''selector'', ''field-selector'', ''field-manager'', ''patch'',
      ''patch-file'', ''type'', ''replicas'', ''current-replicas'', ''resource-version'', ''timeout'', ''grace-period'',
      ''image'', ''port'', ''target-port'', ''name'', ''protocol'', ''external-ip'', ''load-balancer-ip'',
      ''session-affinity'', ''cluster-ip'', ''min'', ''max'', ''cpu-percent'', ''env'', ''containers'', ''from'', ''keys'',
      ''prefix'', ''resource'', ''limits'', ''requests'', ''serviceaccount'', ''to-revision'', ''pod-selector'',
      ''chunk-size'', ''labels'', ''restart'', ''overrides'', ''image-pull-policy'', ''subresource'', ''raw'',
      ''prune-allowlist'', ''prune-whitelist'', ''applyset'', ''from-file'', ''from-literal'', ''from-env-file'',
      ''skip-wait-for-delete-timeout'', ''concurrency'', ''schedule'', ''node-port'', ''tcp'', ''clusterrole'', ''role'',
      ''group'', ''verb'', ''resource-name'', ''annotations'', ''docker-server'', ''docker-username'', ''docker-password'',
      ''docker-email'', ''cert'', ''key'', ''class'', ''rule'', ''default-backend'', ''hostport'', ''revision'']"

definition KUBE_LOCAL_BOOL :: "string list" where
  "KUBE_LOCAL_BOOL =
     [''all'', ''all-namespaces'', ''overwrite'', ''force'', ''now'', ''wait'', ''ignore-not-found'', ''recursive'',
      ''server-side'', ''force-conflicts'', ''prune'', ''save-config'', ''list'', ''local'', ''ignore-daemonsets'',
      ''delete-emptydir-data'', ''delete-local-data'', ''disable-eviction'', ''rm'', ''stdin'', ''tty'', ''attach'',
      ''command'', ''quiet'', ''privileged'', ''edit'', ''windows-line-endings'', ''openapi-patch'', ''record'',
      ''show-managed-fields'', ''interactive'', ''resolve'', ''dry-run'', ''cascade'', ''validate'', ''expose'',
      ''append-hash'', ''leave-stdin-open'', ''allow-missing-template-keys'']"

definition KUBE :: flag_spec where
  "KUBE =
     \<lparr>fs_value = KUBE_GLOBAL_VALUE @ KUBE_LOCAL_VALUE, fs_bool = KUBE_GLOBAL_BOOL @ KUBE_LOCAL_BOOL,
      fs_short =
        [(CHR ''s'', ''server''), (CHR ''n'', ''namespace''), (CHR ''v'', ''v''), (CHR ''f'', ''filename''), (CHR ''k'', ''kustomize''),
         (CHR ''o'', ''output''), (CHR ''l'', ''selector''), (CHR ''p'', ''patch''), (CHR ''A'', ''all-namespaces''), (CHR ''R'', ''recursive''),
         (CHR ''e'', ''env''), (CHR ''c'', ''containers''), (CHR ''i'', ''stdin''), (CHR ''t'', ''tty''), (CHR ''q'', ''quiet''), (CHR ''h'', ''help'')],
      fs_repeatable =
        [''filename'', ''kustomize'', ''env'', ''as-group'', ''prune-allowlist'', ''prune-whitelist'', ''from-file'', ''from-literal'',
         ''from-env-file'', ''annotations'', ''verb'', ''resource'', ''resource-name'', ''rule'', ''tcp'', ''group'', ''serviceaccount''],
      fs_goStyle = False\<rparr>"

definition KUBE_GLOBALS :: flag_spec where
  "KUBE_GLOBALS =
     \<lparr>fs_value = KUBE_GLOBAL_VALUE, fs_bool = KUBE_GLOBAL_BOOL @ [''all-namespaces''],
      fs_short = [(CHR ''s'', ''server''), (CHR ''n'', ''namespace''), (CHR ''v'', ''v''), (CHR ''A'', ''all-namespaces''), (CHR ''h'', ''help'')],
      fs_repeatable = [''as-group''], fs_goStyle = False\<rparr>"

definition HELM_GLOBAL_VALUE :: "string list" where
  "HELM_GLOBAL_VALUE =
     [''kube-context'', ''kubeconfig'', ''namespace'', ''kube-apiserver'', ''kube-as-user'', ''kube-as-group'', ''kube-token'',
      ''kube-ca-file'', ''kube-tls-server-name'', ''registry-config'', ''repository-cache'', ''repository-config'',
      ''burst-limit'', ''qps'', ''content-cache'']"

definition HELM_GLOBAL_BOOL :: "string list" where
  "HELM_GLOBAL_BOOL =
     [''debug'', ''kube-insecure-skip-tls-verify'', ''help'']"

definition HELM_LOCAL_VALUE :: "string list" where
  "HELM_LOCAL_VALUE =
     [''set'', ''set-string'', ''set-file'', ''set-json'', ''set-literal'', ''values'', ''version'', ''timeout'',
      ''description'', ''repo'', ''post-renderer'', ''post-renderer-args'', ''history-max'', ''username'', ''password'',
      ''ca-file'', ''cert-file'', ''key-file'', ''keyring'', ''name-template'', ''labels'', ''output'', ''max'', ''suppress'',
      ''suppress-output-line-regex'', ''find-renames'']"

definition HELM_LOCAL_BOOL :: "string list" where
  "HELM_LOCAL_BOOL =
     [''install'', ''atomic'', ''create-namespace'', ''reuse-values'', ''reset-values'', ''reset-then-reuse-values'',
      ''force'', ''force-replace'', ''force-conflicts'', ''devel'', ''keep-history'', ''cleanup-on-fail'', ''no-hooks'',
      ''skip-crds'', ''wait-for-jobs'', ''recreate-pods'', ''generate-name'', ''render-subchart-notes'',
      ''disable-openapi-validation'', ''dependency-update'', ''take-ownership'', ''rollback-on-failure'',
      ''insecure-skip-tls-verify'', ''plain-http'', ''pass-credentials'', ''verify'', ''enable-dns'',
      ''skip-schema-validation'', ''hide-notes'', ''ignore-not-found'', ''detailed-exitcode'', ''suppress-secrets'',
      ''three-way-merge'', ''allow-unreleased'', ''normalize-manifests'', ''show-secrets'', ''show-secrets-decoded'',
      ''no-color'', ''color'', ''strip-trailing-cr'', ''disable-validation'', ''include-tests'', ''include-crds'', ''dry-run'',
      ''wait'', ''cascade'', ''server-side'']"

definition HELM :: flag_spec where
  "HELM =
     \<lparr>fs_value = HELM_GLOBAL_VALUE @ HELM_LOCAL_VALUE, fs_bool = HELM_GLOBAL_BOOL @ HELM_LOCAL_BOOL,
      fs_short =
        [(CHR ''n'', ''namespace''), (CHR ''f'', ''values''), (CHR ''i'', ''install''), (CHR ''g'', ''generate-name''), (CHR ''o'', ''output''),
         (CHR ''l'', ''labels''), (CHR ''h'', ''help'')],
      fs_repeatable =
        [''set'', ''set-string'', ''set-file'', ''set-json'', ''set-literal'', ''values'', ''post-renderer-args'', ''kube-as-group'', ''suppress'',
         ''suppress-output-line-regex''],
      fs_goStyle = False\<rparr>"

definition HELM_DIFF :: flag_spec where
  "HELM_DIFF = HELM\<lparr>fs_value := fs_value HELM @ [''context''], fs_short := fs_short HELM @ [(CHR ''C'', ''context'')]\<rparr>"

definition HELM_GLOBALS :: flag_spec where
  "HELM_GLOBALS =
     \<lparr>fs_value = HELM_GLOBAL_VALUE, fs_bool = HELM_GLOBAL_BOOL, fs_short = [(CHR ''n'', ''namespace''), (CHR ''h'', ''help'')],
      fs_repeatable = [''kube-as-group''], fs_goStyle = False\<rparr>"

definition TF_GLOBALS :: flag_spec where
  "TF_GLOBALS =
     \<lparr>fs_value = [''chdir''], fs_bool = [''help'', ''version''], fs_short = [], fs_repeatable = [], fs_goStyle = True\<rparr>"

definition TF :: flag_spec where
  "TF =
     \<lparr>fs_value =
        [''chdir'', ''var'', ''var-file'', ''target'', ''replace'', ''exclude'', ''out'', ''state'', ''state-out'', ''backup'', ''lock-timeout'',
         ''parallelism'', ''generate-config-out''],
      fs_bool =
        [''auto-approve'', ''destroy'', ''refresh-only'', ''detailed-exitcode'', ''input'', ''lock'', ''compact-warnings'', ''no-color'', ''json'',
         ''refresh'', ''help'', ''version''],
      fs_short = [], fs_repeatable = [''var'', ''var-file'', ''target'', ''replace'', ''exclude''], fs_goStyle = True\<rparr>"

definition TF_UNKEYED :: "string list" where
  "TF_UNKEYED =
     [''auto-approve'', ''input'', ''no-color'', ''json'', ''compact-warnings'', ''detailed-exitcode'', ''out'', ''chdir'',
      ''lock-timeout'', ''generate-config-out'', ''help'', ''version'']"

definition AWS_GLOBALS :: flag_spec where
  "AWS_GLOBALS =
     \<lparr>fs_value =
        [''profile'', ''region'', ''output'', ''endpoint-url'', ''query'', ''color'', ''ca-bundle'', ''cli-read-timeout'', ''cli-connect-timeout'',
         ''cli-binary-format''],
      fs_bool =
        [''no-verify-ssl'', ''no-paginate'', ''debug'', ''no-sign-request'', ''no-cli-pager'', ''cli-auto-prompt'', ''no-cli-auto-prompt''],
      fs_short = [], fs_repeatable = [], fs_goStyle = False\<rparr>"

definition GLOBALS :: "(string \<times> flag_spec) list" where
  "GLOBALS =
     [(''kubectl'', KUBE_GLOBALS), (''oc'', KUBE_GLOBALS), (''helm'', HELM_GLOBALS), (''terraform'', TF_GLOBALS), (''tofu'', TF_GLOBALS),
      (''aws'', AWS_GLOBALS)]"

section \<open>One flag word\<close>

record flag_hit =
  fh_name :: string
  fh_value :: string
  fh_known :: bool

text \<open>The flags of the word, and how many of the words after it they took; or why the word cannot be read.\<close>

type_synonym flag_read = "string + flag_hit list \<times> nat"

definition true_flag :: "string \<Rightarrow> flag_hit" where
  "true_flag name = \<lparr>fh_name = name, fh_value = ''true'', fh_known = True\<rparr>"

definition read_long :: "flag_spec \<Rightarrow> string \<Rightarrow> string list \<Rightarrow> flag_read" where
  "read_long spec w rest =
     (let body = (if starts ''--'' w then drop 2 w else drop 1 w); name = before (CHR ''='') body;
          known = (name \<in> set (fs_value spec) \<or> name \<in> set (fs_bool spec))
      in if CHR ''='' \<in> set body then
           Inr ([\<lparr>fh_name = name, fh_value = drop (length name + 1) body, fh_known = known\<rparr>], 0)
         else if name \<in> set (fs_value spec) then
           (case rest of
              v # _ \<Rightarrow> Inr ([\<lparr>fh_name = name, fh_value = v, fh_known = known\<rparr>], 1)
            | [] \<Rightarrow> Inl (w @ '' without its value''))
         else if name \<in> set (fs_bool spec) then Inr ([\<lparr>fh_name = name, fh_value = ''true'', fh_known = known\<rparr>], 0)
         else Inl (''unknown flag '' @ w))"

fun read_short :: "flag_spec \<Rightarrow> string \<Rightarrow> string list \<Rightarrow> flag_hit list \<Rightarrow> string \<Rightarrow> flag_read" where
  "read_short spec w rest flags [] = Inr (flags, 0)"
| "read_short spec w rest flags (c # cs) =
     (case map_of (fs_short spec) c of
        None \<Rightarrow> Inl (''unknown flag '' @ w)
      | Some name \<Rightarrow>
          if name \<in> set (fs_value spec) then
            (if cs \<noteq> [] then
               Inr (flags @ [\<lparr>fh_name = name, fh_value = (if starts ''='' cs then tl cs else cs), fh_known = True\<rparr>], 0)
             else
               (case rest of
                  [] \<Rightarrow> Inl (w @ '' without its value'')
                | v # _ \<Rightarrow> Inr (flags @ [\<lparr>fh_name = name, fh_value = v, fh_known = True\<rparr>], 1)))
          else if starts ''='' cs then Inr (flags @ [\<lparr>fh_name = name, fh_value = tl cs, fh_known = True\<rparr>], 0)
          else read_short spec w rest (flags @ [true_flag name]) cs)"

definition readFlag :: "flag_spec \<Rightarrow> string \<Rightarrow> string list \<Rightarrow> flag_read" where
  "readFlag spec w rest =
     (if starts ''--'' w \<or> fs_goStyle spec then read_long spec w rest else read_short spec w rest [] (drop 1 w))"

definition isFlag :: "string \<Rightarrow> bool" where "isFlag w \<longleftrightarrow> starts ''-'' w \<and> w \<noteq> ''-''"

definition keyWord :: "string \<Rightarrow> string" where
  "keyWord w = (if list_ex (\<lambda>c. is_ws c \<or> c = dquote) w then json_quote w else w)"

section \<open>The flags of a line\<close>

type_synonym flag_values = "(string, string list) jmap"

definition values_of :: "flag_values \<Rightarrow> string \<Rightarrow> string list" where
  "values_of m k = (case map_of m k of Some vs \<Rightarrow> vs | None \<Rightarrow> [])"

record canonical_flags =
  cf_values :: flag_values
  cf_keep :: "(string \<times> nat option) list"
  cf_why :: "string option"

definition flag_word :: "flag_spec \<Rightarrow> string \<Rightarrow> flag_hit \<Rightarrow> string" where
  "flag_word spec dashes f =
     dashes @ fh_name f @ (if fh_name f \<in> set (fs_bool spec) \<and> fh_value f = ''true'' then [] else ''='' @ fh_value f)"

fun add_flags :: "flag_spec \<Rightarrow> string list \<Rightarrow> flag_hit list \<Rightarrow> canonical_flags \<Rightarrow> canonical_flags" where
  "add_flags spec dropped [] cf = cf"
| "add_flags spec dropped (f # fs) cf =
     (let seen = values_of (cf_values cf) (fh_name f)
      in if seen \<noteq> [] \<and> fh_name f \<notin> set (fs_repeatable spec) then cf\<lparr>cf_why := Some (''--'' @ fh_name f @ '' given more than once'')\<rparr>
         else
           add_flags spec dropped fs
             (cf\<lparr>cf_values := jmap_set (fh_name f) (seen @ [fh_value f]) (cf_values cf),
                 cf_keep := cf_keep cf @ (if fh_name f \<in> set dropped then [] else [(keyWord (flag_word spec ''--'' f), None)])\<rparr>))"

function canonical_from :: "flag_spec \<Rightarrow> string list \<Rightarrow> bool \<Rightarrow> nat \<Rightarrow> string list \<Rightarrow> canonical_flags \<Rightarrow> canonical_flags" where
  "canonical_from spec dropped positionalOnly i [] cf = cf"
| "canonical_from spec dropped positionalOnly i (w # wds) cf =
     (if positionalOnly \<or> \<not> isFlag w then
        canonical_from spec dropped positionalOnly (i + 1) wds (cf\<lparr>cf_keep := cf_keep cf @ [(keyWord w, Some i)]\<rparr>)
      else if w = ''--'' then canonical_from spec dropped True (i + 1) wds (cf\<lparr>cf_keep := cf_keep cf @ [(w, Some i)]\<rparr>)
      else
        (case readFlag spec w wds of
           Inl why \<Rightarrow> cf\<lparr>cf_why := Some why\<rparr>
         | Inr (flags, k) \<Rightarrow>
             (let cf' = add_flags spec dropped flags cf;
                  more = (if w = ''--dry-run'' \<and> drop k wds \<noteq> [] \<and> hd (drop k wds) \<in> set DRY_RUN_MODES then k + 1 else k)
              in if cf_why cf' \<noteq> None then cf'
                 else canonical_from spec dropped False (i + 1 + more) (drop more wds) cf')))"
  by pat_completeness auto
termination by (relation "measure (\<lambda>(s, d, p, i, wds, cf). length wds)") auto

declare canonical_from.simps [simp del]

definition no_flags :: canonical_flags where
  "no_flags = \<lparr>cf_values = [], cf_keep = [], cf_why = None\<rparr>"

definition canonicalFlags :: "flag_spec \<Rightarrow> string list \<Rightarrow> string list \<Rightarrow> canonical_flags" where
  "canonicalFlags spec wds dropped = canonical_from spec dropped False 0 wds no_flags"

record terraform_flags =
  tf_words :: "string list"
  tf_values :: flag_values
  tf_why :: "string option"

fun add_terraform :: "flag_hit list \<Rightarrow> terraform_flags \<Rightarrow> terraform_flags" where
  "add_terraform [] tf = tf"
| "add_terraform (f # fs) tf =
     (let seen = values_of (tf_values tf) (fh_name f)
      in if seen \<noteq> [] \<and> fh_name f \<notin> set (fs_repeatable TF) then tf\<lparr>tf_why := Some (''-'' @ fh_name f @ '' given more than once'')\<rparr>
         else
           add_terraform fs
             (tf\<lparr>tf_values := jmap_set (fh_name f) (seen @ [fh_value f]) (tf_values tf), tf_words := tf_words tf @ [flag_word TF ''-'' f]\<rparr>))"

function terraform_from :: "string list \<Rightarrow> terraform_flags \<Rightarrow> terraform_flags" where
  "terraform_from [] tf = tf"
| "terraform_from (w # wds) tf =
     (if \<not> isFlag w \<or> w = ''--'' then terraform_from wds (tf\<lparr>tf_words := tf_words tf @ [w]\<rparr>)
      else
        (case readFlag TF w wds of
           Inl why \<Rightarrow> tf\<lparr>tf_why := Some why\<rparr>
         | Inr (flags, k) \<Rightarrow>
             (let tf' = add_terraform flags tf
              in if tf_why tf' \<noteq> None then tf' else terraform_from (drop k wds) tf')))"
  by pat_completeness auto
termination by (relation "measure (\<lambda>(wds, tf). length wds)") auto

declare terraform_from.simps [simp del]

definition terraformFlags :: "string list \<Rightarrow> terraform_flags" where
  "terraformFlags wds = terraform_from wds \<lparr>tf_words = [], tf_values = [], tf_why = None\<rparr>"

section \<open>What the flags name\<close>

datatype input_form = PathForm | ListForm | KeyedForm

definition KUBE_INPUTS :: "(string \<times> input_form) list" where
  "KUBE_INPUTS =
     [(''filename'', ListForm), (''kustomize'', PathForm), (''patch-file'', PathForm), (''from-file'', KeyedForm), (''from-env-file'', ListForm),
      (''cert'', PathForm), (''key'', PathForm), (''kubeconfig'', PathForm), (''certificate-authority'', PathForm),
      (''client-certificate'', PathForm), (''client-key'', PathForm)]"

definition HELM_INPUTS :: "(string \<times> input_form) list" where
  "HELM_INPUTS =
     [(''values'', ListForm), (''set-file'', KeyedForm), (''kubeconfig'', PathForm), (''kube-ca-file'', PathForm), (''ca-file'', PathForm),
      (''cert-file'', PathForm), (''key-file'', PathForm), (''keyring'', PathForm)]"

definition keyed_path :: "string \<Rightarrow> string" where
  "keyed_path x = (if CHR ''='' \<in> set x then tl (dropWhile (\<lambda>c. c \<noteq> CHR ''='') x) else x)"

definition value_inputs :: "input_form \<Rightarrow> string \<Rightarrow> string list" where
  "value_inputs form v =
     map (if form = KeyedForm then keyed_path else id)
       (filter (\<lambda>x. x \<noteq> []) (if form = PathForm then [v] else split_ch (CHR '','') v))"

definition flagInputs :: "flag_values \<Rightarrow> (string \<times> input_form) list \<Rightarrow> string list" where
  "flagInputs m table = concat (map (\<lambda>(flag, form). concat (map (value_inputs form) (values_of m flag))) table)"

definition KUBE_DROP :: "string list" where
  "KUBE_DROP =
     [''output'', ''template'', ''v'', ''dry-run'', ''record'', ''request-timeout'', ''show-managed-fields'', ''namespace'',
      ''context'', ''kubeconfig'', ''cluster'', ''server'', ''user'', ''as'', ''as-group'', ''as-uid'', ''token'']"

definition HELM_DROP :: "string list" where
  "HELM_DROP =
     [''output'', ''dry-run'', ''namespace'', ''kube-context'', ''kubeconfig'', ''kube-apiserver'', ''kube-as-user'',
      ''kube-as-group'', ''kube-token'']"

definition HELM_DIFF_DISPLAY :: "string list" where
  "HELM_DIFF_DISPLAY =
     [''context'', ''detailed-exitcode'', ''no-color'', ''color'', ''suppress-secrets'', ''show-secrets'',
      ''show-secrets-decoded'', ''suppress'', ''suppress-output-line-regex'', ''strip-trailing-cr'', ''find-renames'']"

definition IDENTITY_kube :: "(string \<times> string) list" where
  "IDENTITY_kube =
     [(''context'', ''ctx''), (''kubeconfig'', ''kubeconfig''), (''cluster'', ''cluster''), (''server'', ''server''), (''user'', ''user''),
      (''as'', ''as''), (''as-group'', ''asgroup''), (''as-uid'', ''asuid'')]"

definition IDENTITY_helm :: "(string \<times> string) list" where
  "IDENTITY_helm =
     [(''kube-context'', ''ctx''), (''kubeconfig'', ''kubeconfig''), (''kube-apiserver'', ''server''), (''kube-as-user'', ''as''),
      (''kube-as-group'', ''asgroup'')]"

definition identity_part :: "flag_values \<Rightarrow> string \<times> string \<Rightarrow> string list" where
  "identity_part m fk =
     (let v = join '','' (values_of m (fst fk)) in if v = [] then [] else [snd fk @ ''='' @ v])"

definition token_part :: "flag_values \<Rightarrow> string \<Rightarrow> string list" where
  "token_part m flag =
     (let v = join '','' (values_of m flag) in if v = [] then [] else [''token='' @ take 12 (sha256_hex v)])"

definition identityKey :: "canonical_flags \<Rightarrow> bool \<Rightarrow> string list" where
  "identityKey cf kube =
     identity_part (cf_values cf) (''namespace'', ''ns'')
     @ concat (map (identity_part (cf_values cf)) (if kube then IDENTITY_kube else IDENTITY_helm))
     @ token_part (cf_values cf) (if kube then ''token'' else ''kube-token'')"

record kube_selection =
  ks_kubeconfig :: "string option"
  ks_context :: "string option"
  ks_cluster :: "string option"
  ks_user :: "string option"

definition first_value :: "flag_values \<Rightarrow> string \<Rightarrow> string option" where
  "first_value m flag = (case values_of m flag of [] \<Rightarrow> None | v # _ \<Rightarrow> Some v)"

definition kubeSelection :: "canonical_flags \<Rightarrow> string option \<Rightarrow> string option \<Rightarrow> string option \<Rightarrow> string option \<Rightarrow> kube_selection" where
  "kubeSelection cf kubeconfig context cluster user =
     (let sel = (\<lambda>n. Option.bind n (first_value (cf_values cf)))
      in \<lparr>ks_kubeconfig = sel kubeconfig, ks_context = sel context, ks_cluster = sel cluster, ks_user = sel user\<rparr>)"

definition dotted :: rx where "dotted = plus (Chr (\<lambda>c. is_alpha c \<or> is_digit c \<or> c \<in> set ''.-''))"

definition EXACT_VERSION :: rx where
  "EXACT_VERSION =
     cats [Bol, opt (lit ''v''), plus digit, lit ''.'', plus digit, lit ''.'', plus digit, opt (Cat (lit ''-'') dotted), opt (Cat (lit ''+'') dotted), Eol]"

definition scheme :: rx where
  "scheme = cats [Bol, lower_i, Star (Chr (\<lambda>c. is_alpha c \<or> is_digit c \<or> c \<in> set ''+.-'')), lit '':'']"

text \<open>What a helm install or upgrade builds from: why it cannot be bound, or its inputs and those that must exist.\<close>

definition helm_chart :: "string \<Rightarrow> canonical_flags \<Rightarrow> string list \<Rightarrow> string list \<Rightarrow> string + string list \<times> string list" where
  "helm_chart verb cf args renderer =
     (if verb \<noteq> ''install'' \<and> verb \<noteq> ''upgrade'' then Inr (renderer, renderer)
      else
        (case (if verb = ''install'' \<and> map_of (cf_values cf) ''generate-name'' \<noteq> None then args else drop 1 args) of
           [] \<Rightarrow> Inr (renderer, renderer)
         | chart # _ \<Rightarrow>
             (let pinned = rx_test EXACT_VERSION (case first_value (cf_values cf) ''version'' of Some v \<Rightarrow> v | None \<Rightarrow> [])
              in if starts ''oci://'' chart \<or> map_of (cf_values cf) ''repo'' \<noteq> None then
                   (if pinned then Inr (renderer, renderer) else Inl ''a remote chart without an exact --version cannot be bound'')
                 else if rx_test scheme chart then Inl ''a chart fetched from a URL cannot be bound''
                 else Inr (renderer @ [chart], if pinned then renderer else renderer @ [chart]))))"

definition helmSources :: "string \<Rightarrow> canonical_flags \<Rightarrow> string list \<Rightarrow> string + string list \<times> string list" where
  "helmSources verb cf args =
     (case first_value (cf_values cf) ''post-renderer'' of
        Some r \<Rightarrow>
          if CHR ''/'' \<notin> set r then Inl ''a --post-renderer found on PATH cannot be bound'' else helm_chart verb cf args [r]
      | None \<Rightarrow> helm_chart verb cf args [])"

section \<open>The words before the verb\<close>

definition namesKuberc :: "string \<Rightarrow> string list \<Rightarrow> bool" where
  "namesKuberc tool wds \<longleftrightarrow>
     after_slash tool \<in> {''kubectl'', ''oc''} \<and> list_ex (\<lambda>w. w = ''--kuberc'' \<or> assigns ''--kuberc'' w) wds"

definition LOCKED_ENV :: "string list" where "LOCKED_ENV = [''KUBECTL_KUBERC'', ''KUBERC'', ''PATH'']"

definition BARE_ONLY :: "string list" where "BARE_ONLY = [''kubectl'', ''oc'', ''helm'', ''terraform'', ''tofu'']"

definition invokedByPath :: "string \<Rightarrow> bool" where
  "invokedByPath w \<longleftrightarrow> CHR ''/'' \<in> set w \<and> after_slash w \<in> set BARE_ONLY"

record split_globals =
  sg_globals :: "string list"
  sg_rest :: "string list"
  sg_unknown :: "string option"

function split_from :: "flag_spec \<Rightarrow> string list \<Rightarrow> string list \<Rightarrow> split_globals" where
  "split_from spec globals [] = \<lparr>sg_globals = globals, sg_rest = [], sg_unknown = None\<rparr>"
| "split_from spec globals (w # wds) =
     (if \<not> isFlag w then \<lparr>sg_globals = globals, sg_rest = w # wds, sg_unknown = None\<rparr>
      else if w = ''--'' then \<lparr>sg_globals = globals, sg_rest = wds, sg_unknown = None\<rparr>
      else
        (case readFlag spec w wds of
           Inl _ \<Rightarrow> \<lparr>sg_globals = globals, sg_rest = w # wds, sg_unknown = Some w\<rparr>
         | Inr (flags, k) \<Rightarrow>
             if list_ex (\<lambda>f. \<not> fh_known f) flags then \<lparr>sg_globals = globals, sg_rest = w # wds, sg_unknown = Some w\<rparr>
             else split_from spec (globals @ w # take k wds) (drop k wds)))"
  by pat_completeness auto
termination by (relation "measure (\<lambda>(s, g, wds). length wds)") auto

declare split_from.simps [simp del]

text \<open>No result when the program throws; no split for a tool without a table.\<close>

definition splitGlobals :: "string \<Rightarrow> string list \<Rightarrow> split_globals option option" where
  "splitGlobals tool wds =
     (case member GLOBALS (after_slash tool) of
        Absent \<Rightarrow> Some None
      | Own spec \<Rightarrow> Some (Some (split_from spec [] wds))
      | Inherited \<Rightarrow>
          (case wds of
             w # r \<Rightarrow>
               if \<not> isFlag w then Some (Some \<lparr>sg_globals = [], sg_rest = wds, sg_unknown = None\<rparr>)
               else if w = ''--'' then Some (Some \<lparr>sg_globals = [], sg_rest = r, sg_unknown = None\<rparr>)
               else None
           | [] \<Rightarrow> Some (Some \<lparr>sg_globals = [], sg_rest = [], sg_unknown = None\<rparr>)))"

end
