(* ===== verification/PlanCommands.thy ===== *)
theory PlanCommands
  imports PlanFlags
begin

text \<open>
  The commands of \<open>permission/plan-gate.ts\<close>: recognising one simple command as a plan or an apply with the key of what it
  acts on (\<open>classifyWords\<close>, \<open>classifyPlanCommand\<close>), and matching an apply with the plans recorded in a run (\<open>matchPlan\<close>).
\<close>

section \<open>Plan commands\<close>

record plan_command =
  pc_kind :: plan_kind
  pc_tool :: string
  pc_bin :: string
  pc_target :: string
  pc_inputs :: "string list"
  pc_planFile :: "string option"
  pc_mustExist :: "string list option"
  pc_kube :: "kube_selection option"
  pc_kustomize :: "string option"

definition plan_cmd :: "plan_kind \<Rightarrow> string \<Rightarrow> string \<Rightarrow> string list \<Rightarrow> plan_command" where
  "plan_cmd kind tool target inputs =
     \<lparr>pc_kind = kind, pc_tool = tool, pc_bin = [], pc_target = target, pc_inputs = inputs, pc_planFile = None, pc_mustExist = None,
      pc_kube = None, pc_kustomize = None\<rparr>"

text \<open>A command that cannot be read: an apply whose target names why, which no plan is recorded under.\<close>

definition unreadable :: "string \<Rightarrow> string option \<Rightarrow> string list \<Rightarrow> plan_command" where
  "unreadable tool why rest =
     plan_cmd Apply tool (''unreadable '' @ (case why of Some y \<Rightarrow> ''('' @ y @ '') '' | None \<Rightarrow> []) @ join '' '' rest) []"

definition no_dash :: "string \<Rightarrow> bool" where "no_dash w \<longleftrightarrow> \<not> starts ''-'' w"

definition word_at :: "string list \<Rightarrow> nat \<Rightarrow> string option" where
  "word_at wds n = (if n < length wds then Some (wds ! n) else None)"

definition given :: "string option \<Rightarrow> string option" where
  "given v = (if v = Some [] then None else v)"

section \<open>terraform and tofu\<close>

definition TERRAFORM :: "string list" where "TERRAFORM = [''terraform'', ''tofu'']"

definition unkeyed_name :: "string \<Rightarrow> bool" where
  "unkeyed_name w \<longleftrightarrow> before (CHR ''='') (drop 1 w) \<in> set TF_UNKEYED"

definition tf_flags :: "string list \<Rightarrow> bool \<Rightarrow> string list" where
  "tf_flags wds destroy =
     filter (\<lambda>f. f \<in> set wds \<or> (destroy \<and> f = ''-destroy'')) [''-destroy'', ''-refresh-only'']
     @ map keyWord
         (filter (\<lambda>w. starts ''-'' w \<and> \<not> unkeyed_name w \<and>
            w \<notin> {''-destroy'', ''-refresh-only'', ''-refresh'', ''-lock'', ''-refresh=true'', ''-lock=true''}) wds)"

definition saved_in_plan :: rx where
  "saved_in_plan =
     cats [Bol, opt (lit [dquote]), lit ''-'',
       alts (map lit [''var'', ''var-file'', ''target'', ''replace'', ''exclude'', ''destroy'', ''refresh-only'', ''refresh'']), alts [lit ''='', Eol]]"

definition planfileKey :: "string \<Rightarrow> string list \<Rightarrow> string" where
  "planfileKey dir wds = join '' '' ((dir @ '' planfile'') # filter (\<lambda>w. \<not> rx_test saved_in_plan w) (tf_flags wds False))"

definition terraform_command :: "string list \<Rightarrow> plan_command option" where
  "terraform_command rest =
     (let tf = terraformFlags rest; wds = tf_words tf; m = tf_values tf
      in case tf_why tf of
           Some why \<Rightarrow> Some (unreadable ''terraform'' (Some why) rest)
         | None \<Rightarrow>
             (let verb = find no_dash wds; dir = (case given (first_value m ''chdir'') of Some d \<Rightarrow> d | None \<Rightarrow> ''.'');
                  inputs = dir # values_of m ''var-file'' @ values_of m ''state''
              in if verb = Some ''plan'' then
                   (case given (first_value m ''out'') of
                      Some out \<Rightarrow> Some ((plan_cmd Plan ''terraform'' (planfileKey dir wds) [out])\<lparr>pc_planFile := Some out\<rparr>)
                    | None \<Rightarrow> Some (plan_cmd Plan ''terraform'' (join '' '' (dir # tf_flags wds False)) inputs))
                 else if verb = Some ''apply'' \<or> verb = Some ''destroy'' then
                   (case (if verb = Some ''apply'' then given (find no_dash (drop 1 (dropWhile (\<lambda>w. w \<noteq> ''apply'') wds))) else None) of
                      Some f \<Rightarrow> Some ((plan_cmd Apply ''terraform'' (planfileKey dir wds) [f])\<lparr>pc_planFile := Some f\<rparr>)
                    | None \<Rightarrow> Some (plan_cmd Apply ''terraform'' (join '' '' (dir # tf_flags wds (verb = Some ''destroy''))) inputs))
                 else None))"

section \<open>kubectl, oc and helm\<close>

definition kube_change :: "nat \<Rightarrow> canonical_flags \<Rightarrow> string list" where
  "kube_change verbAt cf = map (\<lambda>(w, i). if i = Some verbAt \<and> w = ''diff'' then ''apply'' else w) (cf_keep cf)"

definition kubectl_command :: "string \<Rightarrow> string list \<Rightarrow> plan_command option" where
  "kubectl_command tool rest =
     (if namesKuberc tool rest then Some (unreadable tool (Some ''--kuberc sets flag defaults the gate cannot see'') rest)
      else
        (case splitGlobals tool rest of
           Some (Some g) \<Rightarrow>
             if sg_unknown g \<noteq> None then Some (unreadable tool None rest)
             else
               (let pos = positionals (sg_rest g)
                in case given (word_at pos 0) of
                     None \<Rightarrow> None
                   | Some verb \<Rightarrow>
                       if verb \<notin> set KUBECTL_MUTATING \<and> verb \<noteq> ''diff'' then None
                       else if verb = ''rollout'' \<and> word_at pos 1 \<notin> Some ` {''undo'', ''restart'', ''pause'', ''resume''} then None
                       else
                         (let cf = canonicalFlags KUBE rest KUBE_DROP
                          in case cf_why cf of
                               Some why \<Rightarrow> Some (unreadable tool (Some why) rest)
                             | None \<Rightarrow>
                                 Some ((plan_cmd (if verb = ''diff'' \<or> dryRun rest = Plan then Plan else Apply) tool
                                          (join '' '' (identityKey cf True @ kube_change (length rest - length (sg_rest g)) cf))
                                          (flagInputs (cf_values cf) KUBE_INPUTS))
                                   \<lparr>pc_kustomize := given (first_value (cf_values cf) ''kustomize''),
                                    pc_kube := Some (kubeSelection cf (Some ''kubeconfig'') (Some ''context'') (Some ''cluster'') (Some ''user''))\<rparr>)))
         | _ \<Rightarrow> None))"

definition helm_change :: "bool \<Rightarrow> nat \<Rightarrow> canonical_flags \<Rightarrow> string list" where
  "helm_change isDiff verbAt cf = map fst (filter (\<lambda>(w, i). \<not> (isDiff \<and> i = Some verbAt \<and> w = ''diff'')) (cf_keep cf))"

definition helm_args :: "bool \<Rightarrow> nat \<Rightarrow> string list \<Rightarrow> canonical_flags \<Rightarrow> string list" where
  "helm_args isDiff verbAt rest cf =
     concat (map (\<lambda>(w, i). case i of
                             Some n \<Rightarrow> if n > verbAt + (if isDiff then 1 else 0) \<and> n < length rest then [rest ! n] else []
                           | None \<Rightarrow> []) (cf_keep cf))"

definition helm_command :: "string \<Rightarrow> string list \<Rightarrow> plan_command option" where
  "helm_command tool rest =
     (case splitGlobals tool rest of
        Some (Some g) \<Rightarrow>
          if sg_unknown g \<noteq> None then Some (unreadable tool None rest)
          else
            (case given (find no_dash (sg_rest g)) of
               None \<Rightarrow> None
             | Some verb \<Rightarrow>
                 (let pos = positionals (drop 1 (sg_rest g));
                      isDiff = (verb = ''diff'' \<and> word_at pos 0 \<in> Some ` {''upgrade'', ''install'', ''rollback''});
                      verbAt = length rest - length (sg_rest g)
                  in if \<not> isDiff \<and> verb \<notin> {''install'', ''upgrade'', ''uninstall'', ''rollback''} then None
                     else
                       (let cf = canonicalFlags (if isDiff then HELM_DIFF else HELM) rest (if isDiff then HELM_DROP @ HELM_DIFF_DISPLAY else HELM_DROP)
                        in case cf_why cf of
                             Some why \<Rightarrow> Some (unreadable tool (Some why) rest)
                           | None \<Rightarrow>
                               (case helmSources (if isDiff then hd pos else verb) cf (helm_args isDiff verbAt rest cf) of
                                  Inl why \<Rightarrow> Some (unreadable tool (Some why) rest)
                                | Inr (inputs, mustExist) \<Rightarrow>
                                    Some ((plan_cmd (if isDiff \<or> dryRun rest = Plan then Plan else Apply) tool
                                             (join '' '' (identityKey cf False @ helm_change isDiff verbAt cf))
                                             (flagInputs (cf_values cf) HELM_INPUTS @ inputs))
                                      \<lparr>pc_mustExist := (if mustExist = [] then None else Some mustExist),
                                       pc_kube := Some (kubeSelection cf (Some ''kubeconfig'') (Some ''kube-context'') None None)\<rparr>)))))
      | _ \<Rightarrow> None)"

section \<open>The cloud tools\<close>

definition or_empty :: "string option \<Rightarrow> string" where
  "or_empty v = (case v of Some s \<Rightarrow> s | None \<Rightarrow> [])"

definition pulumi_command :: "string \<Rightarrow> string list \<Rightarrow> plan_command option" where
  "pulumi_command tool rest =
     (let verb = find no_dash rest; stack = or_empty (flagValue rest [''-s'', ''--stack''])
      in if verb = Some ''preview'' then Some (plan_cmd Plan tool stack [])
         else if verb = Some ''up'' \<or> verb = Some ''destroy'' then Some (plan_cmd Apply tool stack [])
         else None)"

definition cdk_command :: "string \<Rightarrow> string list \<Rightarrow> plan_command option" where
  "cdk_command tool rest =
     (let verb = find no_dash rest;
          pos = (case given verb of Some v \<Rightarrow> positionals (drop 1 (dropWhile (\<lambda>w. w \<noteq> v) rest)) | None \<Rightarrow> [])
      in if verb = Some ''diff'' then Some (plan_cmd Plan tool (join '' '' pos) [])
         else if verb = Some ''deploy'' \<or> verb = Some ''destroy'' then Some (plan_cmd Apply tool (join '' '' pos) [])
         else None)"

definition az_verbs :: "string list" where
  "az_verbs = [''create'', ''delete'', ''update'', ''set'', ''start'', ''stop'', ''restart'', ''deallocate'', ''purge'']"

definition az_command :: "string \<Rightarrow> string list \<Rightarrow> plan_command option" where
  "az_command tool rest =
     (let pos = positionals rest
      in if ''what-if'' \<in> set pos then
           Some (plan_cmd Plan tool (join '' '' (filter (\<lambda>w. w \<noteq> ''what-if'') pos))
                  (flagValues rest [''--template-file'', ''-f'', ''--parameters'', ''-p'']))
         else
           (case find_index (\<lambda>w. w \<in> set az_verbs) pos of
              None \<Rightarrow> None
            | Some verbIdx \<Rightarrow>
                Some (plan_cmd (if dryRun rest = Plan \<or> list_ex (\<lambda>w. w = ''--what-if'' \<or> assigns ''--what-if'' w) rest then Plan else Apply) tool
                       (join '' '' (take verbIdx pos @ flagValues rest [''-n'', ''--name'', ''-g'', ''--resource-group'']))
                       (flagValues rest [''--template-file'', ''-f'']))))"

definition gcloud_verbs :: "string list" where
  "gcloud_verbs =
     [''create'', ''delete'', ''update'', ''deploy'', ''destroy'', ''start'', ''stop'', ''resize'', ''set-iam-policy'', ''add-iam-policy-binding'',
      ''remove-iam-policy-binding'']"

definition gcloud_command :: "string \<Rightarrow> string list \<Rightarrow> plan_command option" where
  "gcloud_command tool rest =
     (let pos = positionals rest
      in if list_ex (\<lambda>w. w \<in> set gcloud_verbs) pos then
           Some (plan_cmd (dryRun rest) tool (join '' '' pos) (flagValues rest [''--source'', ''--config'', ''--template'']))
         else None)"

definition aws_prefixes :: "string list" where
  "aws_prefixes =
     [''create'', ''delete'', ''update'', ''put'', ''modify'', ''terminate'', ''run-instances'', ''start'', ''stop'', ''reboot'', ''deregister'',
      ''attach'', ''detach'', ''associate'', ''disassociate'', ''authorize'', ''revoke'', ''execute-change-set'']"

definition change_set_key :: "string list \<Rightarrow> string list \<Rightarrow> string" where
  "change_set_key pos rest = join '' '' (filter (\<lambda>w. w \<noteq> []) [hd pos, or_empty (flagValue rest [''--stack-name''])])"

definition aws_command :: "string \<Rightarrow> string list \<Rightarrow> plan_command option" where
  "aws_command tool rest =
     (let pos = positionals rest
      in if \<not> list_ex (\<lambda>w. list_ex (\<lambda>p. starts p w) aws_prefixes) pos then None
         else if ''create-change-set'' \<in> set pos then
           Some (plan_cmd Plan tool (change_set_key pos rest) (flagValues rest [''--template-body'', ''--template-url'']))
         else if ''execute-change-set'' \<in> set pos then Some (plan_cmd Apply tool (change_set_key pos rest) [])
         else Some (plan_cmd (dryRun rest) tool (join '' '' pos) []))"

section \<open>One command\<close>

definition by_path_target :: "string \<Rightarrow> string" where
  "by_path_target w = ''unreadable ('' @ w @ '' is run by a path; run the tool by its name)''"

definition classifyWords :: "string list \<Rightarrow> plan_command option" where
  "classifyWords wds =
     (let tool = after_slash (hd wds); rest = tl wds
      in if invokedByPath (hd wds) then Some (plan_cmd Apply tool (by_path_target (hd wds)) [])
         else if tool \<in> set TERRAFORM then terraform_command rest
         else if tool = ''kubectl'' \<or> tool = ''oc'' then kubectl_command tool rest
         else if tool = ''helm'' then helm_command tool rest
         else if tool = ''pulumi'' then pulumi_command tool rest
         else if tool = ''cdk'' then cdk_command tool rest
         else if tool = ''az'' then az_command tool rest
         else if tool = ''gcloud'' then gcloud_command tool rest
         else if tool = ''aws'' then aws_command tool rest
         else None)"

definition classifyPlanCommand :: "string \<Rightarrow> plan_command option" where
  "classifyPlanCommand command =
     (case plan_words command of
        [] \<Rightarrow> None
      | w # wds \<Rightarrow> map_option (\<lambda>pc. pc\<lparr>pc_bin := w\<rparr>) (classifyWords (w # wds)))"

section \<open>Recorded plans\<close>

record plan_artifact =
  pa_at :: string
  pa_tool :: string
  pa_target :: string
  pa_cwd :: string
  pa_command :: string
  pa_fields :: "(string \<times> string) list"
  pa_outputHash :: "string option"

record plan_match =
  pm_approved :: bool
  pm_detail :: string
  pm_matched :: "plan_artifact option"

text \<open>\<open>a > b\<close> on strings.\<close>

fun string_gt :: "string \<Rightarrow> string \<Rightarrow> bool" where
  "string_gt [] b = False"
| "string_gt (x # xs) [] = True"
| "string_gt (x # xs) (y # ys) = (x > y \<or> x = y \<and> string_gt xs ys)"

fun newest :: "plan_artifact \<Rightarrow> plan_artifact list \<Rightarrow> plan_artifact" where
  "newest a [] = a"
| "newest a (b # bs) = newest (if string_gt (pa_at a) (pa_at b) then a else b) bs"

definition not_comparable :: "string \<Rightarrow> bool \<Rightarrow> string" where
  "not_comparable f was =
     ''the plan gate cannot compare '' @ [dquote] @ f @ [dquote] @ '' ('' @
     (if was then ''not known at apply time'' else ''not recorded at plan time'') @ '')''"

text \<open>The first field that keeps the apply from matching, in a sentence; a name every object has is compared as the object's own member.\<close>

fun field_mismatch :: "plan_artifact \<Rightarrow> (string \<times> string) list \<Rightarrow> string list \<Rightarrow> string option" where
  "field_mismatch plan now [] = None"
| "field_mismatch plan now (f # fs) =
     (let want = member (pa_fields plan) f; got = member now f
      in if want = Absent \<or> got = Absent then Some (not_comparable f (want \<noteq> Absent))
         else if want \<noteq> got then
           Some ([dquote] @ f @ [dquote] @ '' changed since the plan at '' @ pa_at plan @ '': the apply does not match the reviewed plan'')
         else field_mismatch plan now fs)"

definition matchPlan :: "plan_artifact list \<Rightarrow> string \<Rightarrow> string \<Rightarrow> string \<Rightarrow> (string \<times> string) list \<Rightarrow> string list \<Rightarrow> plan_match" where
  "matchPlan artifacts tool target cwd now hashFields =
     (case filter (\<lambda>a. pa_tool a = tool \<and> pa_target a = target \<and> pa_cwd a = cwd) artifacts of
        [] \<Rightarrow>
          \<lparr>pm_approved = False,
           pm_detail = ''no dry run of '' @ tool @ '' for '' @ [dquote] @ (if target = [] then cwd else target) @ [dquote] @
             '' was recorded in this run; run the plan first'',
           pm_matched = None\<rparr>
      | a # as \<Rightarrow>
          (let plan = newest a as
           in case field_mismatch plan now hashFields of
                Some why \<Rightarrow> \<lparr>pm_approved = False, pm_detail = why, pm_matched = Some plan\<rparr>
              | None \<Rightarrow>
                  \<lparr>pm_approved = True, pm_detail = ''matches the plan recorded at '' @ pa_at plan @ '' on '' @ join '', '' hashFields,
                   pm_matched = Some plan\<rparr>))"

end
