(* ===== verification/PlanLine.thy ===== *)
theory PlanLine
  imports PlanCommands Safety "HOL-Library.List_Lexorder" "HOL-Library.Monad_Syntax"
begin

text \<open>
  The line level of \<open>permission/plan-gate.ts\<close>: every plan and apply a Bash line runs with the directory and the environment
  it runs in (\<open>planLine\<close>), the line's one kubernetes change (\<open>soleKubeApply\<close>) and the exit status of a dry run.
  An operation that can throw returns an option, \<open>None\<close> where it throws; a local closure that sets a captured
  variable passes the line's state through.
\<close>

section \<open>Expressions and tables\<close>

definition gated_names :: rx where
  "gated_names = alts (map lit [''terraform'', ''tofu'', ''kubectl'', ''oc'', ''helm'', ''pulumi'', ''cdk'', ''az'', ''gcloud'', ''aws''])"

definition GATED_TOOLS :: rx where
  "GATED_TOOLS =
     cats [alts [Bol, Chr (\<lambda>c. is_ws c \<or> c \<in> set ([backtick, dquote, squote] @ '';&|($/''))], gated_names,
       Ahead (alts [Eol, Chr (\<lambda>c. is_ws c \<or> c \<in> set ([backtick, dquote, squote] @ '';&|)''))])]"

definition CONTEXT_ONLY_LINE :: "string list" where
  "CONTEXT_ONLY_LINE = [''cd'', ''pushd'', ''export'', ''unset'', ''true'', '':'', ''set'']"

definition ENV_OPAQUE :: "string list" where
  "ENV_OPAQUE =
     [''read'', ''declare'', ''typeset'', ''local'', ''readonly'', ''let'', ''alias'', ''unalias'', ''hash'', ''enable'', ''mapfile'', ''readarray'',
      ''getopts'', ''for'', ''popd'', ''source'', ''.'', ''eval'']"

definition NOT_LITERAL :: "string \<Rightarrow> bool" where
  "NOT_LITERAL s \<longleftrightarrow> list_ex (\<lambda>c. c \<in> set (backtick # ''$*?~[{'')) s"

definition ASSIGN :: "string \<Rightarrow> (string \<times> string) option" where
  "ASSIGN w =
     (let name = takeWhile is_word w; r = dropWhile is_word w
      in if name \<noteq> [] \<and> is_name_start (hd name) \<and> starts ''='' r \<and> list_all not_newline r then Some (name, tl r) else None)"

definition arithmetic_sets :: rx where
  "arithmetic_sets = cats [lit ''$(('', Star (none_of '')''), none_of ''=!<>'', lit ''='', none_of ''='']"

definition parameter_sets :: rx where
  "parameter_sets = cats [lit ''${'', Chr is_name_start, Star (Chr is_word), opt (lit '':''), lit ''='']"

definition ends_in_background :: rx where
  "ends_in_background = cats [alts [Bol, none_of ''&''], lit ''&'', Star ws, Eol]"

definition backgrounded :: "string \<Rightarrow> bool" where
  "backgrounded command \<longleftrightarrow> rx_test ends_in_background (trim command)"

section \<open>Steps and lines\<close>

record plan_step =
  ps_pc :: plan_command
  ps_cwd :: string
  ps_env :: "string list"

record plan_line =
  pl_steps :: "plan_step list"
  pl_unreadable :: "string option"
  pl_recordable :: "plan_step option"

definition bare :: "string \<Rightarrow> string" where
  "bare part =
     trim (rev (dropWhile (\<lambda>c. is_ws c \<or> c \<in> set '')}'') (rev (dropWhile (\<lambda>c. is_ws c \<or> c \<in> set ''(!{'') part))))"

definition negated :: "string \<Rightarrow> bool" where
  "negated part \<longleftrightarrow>
     rx_test (cats [Bol, Star (Chr (\<lambda>c. is_ws c \<or> c \<in> set ''({'')), lit ''!'', alts [ws, Eol]]) part"

text \<open>\<open>s.split(/\s+/)\<close>.\<close>

definition split_ws :: "string \<Rightarrow> string list" where
  "split_ws s = split_ch (CHR '' '') (collapse_ws s)"

section \<open>Prefix commands\<close>

definition PREFIX_VALUE_FLAGS :: "(string \<times> string list) list" where
  "PREFIX_VALUE_FLAGS =
     [(''timeout'', [''-s'', ''--signal'', ''-k'', ''--kill-after'']), (''nice'', [''-n'', ''--adjustment'']),
      (''stdbuf'', [''-i'', ''-o'', ''-e'', ''--input'', ''--output'', ''--error'']),
      (''ionice'', [''-c'', ''-n'', ''--class'', ''--classdata'']), (''command'', []), (''builtin'', []), (''time'', []), (''nohup'', [])]"

text \<open>The words after the options of a prefix; \<open>None\<close> when its table has no such member and an option asks it.\<close>

fun after_options :: "string list member \<Rightarrow> string list \<Rightarrow> string list option" where
  "after_options valued [] = Some []"
| "after_options valued (w # wds) =
     (if starts ''-'' w \<and> w \<noteq> ''--'' then
        (case valued of
           Own names \<Rightarrow>
             if w \<in> set names then (case wds of [] \<Rightarrow> Some [] | _ # r \<Rightarrow> after_options valued r) else after_options valued wds
         | _ \<Rightarrow> None)
      else Some (w # wds))"

lemma after_options_shorter: "after_options valued wds = Some r \<Longrightarrow> length r \<le> length wds"
proof (induction wds arbitrary: r rule: length_induct)
  case (1 wds)
  have IH: "after_options valued ys = Some r \<Longrightarrow> length ys < length wds \<Longrightarrow> length r \<le> length ys" for ys r
    using "1.IH" by blast
  show ?case
  proof (cases wds)
    case (Cons w rest)
    show ?thesis
    proof (cases rest)
      case Nil
      with Cons "1.prems" show ?thesis by (auto split: if_splits member.splits)
    next
      case (Cons v r')
      with \<open>wds = w # rest\<close> "1.prems" IH [of r' r] IH [of rest r] show ?thesis
        by (auto split: if_splits member.splits simp del: after_options.simps(2) simp: after_options.simps(2) [of valued w "v # r'"])
    qed
  qed (use "1.prems" in simp)
qed

definition past_prefix :: "string \<Rightarrow> string list \<Rightarrow> string list" where
  "past_prefix name wds =
     (let r = (if wds \<noteq> [] \<and> hd wds = ''--'' then tl wds else wds) in if name = ''timeout'' then drop 1 r else r)"

lemma length_past_prefix: "length (past_prefix name wds) \<le> length wds"
  by (auto simp: past_prefix_def Let_def le_diff_conv)

text \<open>The outer option is a throw, the inner one a prefix that runs nothing.\<close>

function afterPrefixes :: "string list \<Rightarrow> string list option option" where
  "afterPrefixes [] = Some (Some [])"
| "afterPrefixes (name # wds) =
     (case member PREFIX_VALUE_FLAGS name of
        Absent \<Rightarrow> Some (Some (name # wds))
      | valued \<Rightarrow>
          if name = ''command'' \<and> wds \<noteq> [] \<and> hd wds \<in> {''-v'', ''-V''} then Some None
          else
            (case after_options valued wds of
               None \<Rightarrow> None
             | Some r \<Rightarrow> afterPrefixes (past_prefix name r)))"
  by pat_completeness auto
termination
  by (relation "measure length") (auto dest!: after_options_shorter intro: le_imp_less_Suc order_trans [OF length_past_prefix])

declare afterPrefixes.simps [simp del]

section \<open>Reading a line\<close>

record line_state =
  ls_env :: "(string, string) jmap"
  ls_dir :: string
  ls_unreadable :: "string option"
  ls_negatedPlan :: bool
  ls_steps :: "plan_step list"

definition fail :: "string \<Rightarrow> line_state \<Rightarrow> line_state" where
  "fail why st = (case ls_unreadable st of Some _ \<Rightarrow> st | None \<Rightarrow> st\<lparr>ls_unreadable := Some why\<rparr>)"

definition lockedEnv :: "string \<Rightarrow> line_state \<Rightarrow> line_state" where
  "lockedEnv name st =
     (if name \<in> set LOCKED_ENV then fail (''the line sets '' @ name @ '', which the plan gate locks'') st else st)"

definition assign :: "string \<times> string \<Rightarrow> line_state \<Rightarrow> line_state" where
  "assign nv st =
     (let st' = lockedEnv (fst nv)
                  (if NOT_LITERAL (snd nv) then fail (''a non-literal assignment ('' @ fst nv @ ''='' @ ellipsis @ '')'') st else st)
      in st'\<lparr>ls_env := jmap_set (fst nv) (snd nv) (ls_env st')\<rparr>)"

fun leading_assignments :: "string list \<Rightarrow> line_state \<Rightarrow> string list \<times> line_state" where
  "leading_assignments [] st = ([], st)"
| "leading_assignments (w # wds) st =
     (case ASSIGN w of Some nv \<Rightarrow> leading_assignments wds (assign nv st) | None \<Rightarrow> (w # wds, st))"

fun env_words :: "string list \<Rightarrow> line_state \<Rightarrow> string list \<times> line_state" where
  "env_words [] st = ([], st)"
| "env_words (w # wds) st =
     (case ASSIGN w of
        Some nv \<Rightarrow> env_words wds (assign nv st)
      | None \<Rightarrow> if starts ''-'' w then env_words wds (fail ''env with options'' st) else (w # wds, st))"

definition joined_dir :: "string \<Rightarrow> string \<Rightarrow> string" where
  "joined_dir dir to =
     rx_replace_all (lit ''/./'') ''/'' (None, rev (dropWhile (\<lambda>c. c = CHR ''/'') (rev dir)) @ ''/'' @ to)"

definition change_dir :: "string \<Rightarrow> string \<Rightarrow> string list \<Rightarrow> line_state \<Rightarrow> line_state" where
  "change_dir head part args st =
     (case filter (\<lambda>w. \<not> starts ''-'' w) args of
        [to] \<Rightarrow>
          if NOT_LITERAL to \<or> to = ''-'' then fail (''a '' @ head @ '' the gate cannot follow ('' @ part @ '')'') st
          else st\<lparr>ls_dir := (if starts ''/'' to then to else joined_dir (ls_dir st) to)\<rparr>
      | _ \<Rightarrow> fail (''a '' @ head @ '' the gate cannot follow ('' @ part @ '')'') st)"

definition export_word :: "string \<Rightarrow> line_state \<Rightarrow> line_state" where
  "export_word w st =
     (if starts ''-'' w then fail ''export with options'' st
      else (case ASSIGN w of Some nv \<Rightarrow> assign nv st | None \<Rightarrow> st))"

definition unset_word :: "string \<Rightarrow> line_state \<Rightarrow> line_state" where
  "unset_word w st = (let st' = lockedEnv w st in st'\<lparr>ls_env := jmap_del w (ls_env st')\<rparr>)"

definition env_list :: "(string, string) jmap \<Rightarrow> string list" where
  "env_list m = sort (map (\<lambda>(k, v). k @ ''='' @ v) m)"

definition add_step :: "bool \<Rightarrow> plan_command \<Rightarrow> line_state \<Rightarrow> line_state" where
  "add_step isNegated pc st =
     st\<lparr>ls_steps := ls_steps st @ [\<lparr>ps_pc = pc, ps_cwd = ls_dir st, ps_env = env_list (ls_env st)\<rparr>],
        ls_negatedPlan := (ls_negatedPlan st \<or> isNegated \<and> pc_kind pc = Plan)\<rparr>"

definition run_words :: "bool \<Rightarrow> string list \<Rightarrow> line_state \<Rightarrow> line_state option" where
  "run_words isNegated wds st =
     do {
       run \<leftarrow> afterPrefixes wds;
       Some (case run of
               Some (w # r) \<Rightarrow>
                 (case classifyPlanCommand (join '' '' (w # r)) of Some pc \<Rightarrow> add_step isNegated pc st | None \<Rightarrow> st)
             | _ \<Rightarrow> st)
     }"

definition head_words :: "string list \<times> line_state \<Rightarrow> string list \<times> line_state" where
  "head_words ws_st = (case ws_st of (w # wds, st) \<Rightarrow> if w = ''env'' then env_words wds st else (w # wds, st) | _ \<Rightarrow> ws_st)"

definition line_part :: "string \<Rightarrow> line_state \<Rightarrow> line_state option" where
  "line_part raw st =
     (let part = bare raw
      in if part = [] then Some st
         else
           (case head_words (leading_assignments (split_ws part) st) of
              ([], st') \<Rightarrow> Some st'
            | (head # args, st') \<Rightarrow>
                if head = ''cd'' \<or> head = ''pushd'' then Some (change_dir head part args st')
                else if head = ''export'' then Some (fold export_word args st')
                else if head = ''unset'' then Some (fold unset_word args st')
                else if head \<in> set ENV_OPAQUE then Some (fail (head @ '' changes the line in a way the gate cannot read'') st')
                else run_words (negated raw) (head # args) st'))"

fun line_parts :: "string list \<Rightarrow> line_state \<Rightarrow> line_state option" where
  "line_parts [] st = Some st"
| "line_parts (p # ps) st = do { st' \<leftarrow> line_part p st; line_parts ps st' }"

definition first_form :: "shell_command \<Rightarrow> string option" where
  "first_form c = (case sc_forms c of f # _ \<Rightarrow> given (Some f) | [] \<Rightarrow> None)"

definition form_command :: "shell_command \<Rightarrow> plan_command option" where
  "form_command c = Option.bind (first_form c) classifyPlanCommand"

definition seen_commands :: "decomposed \<Rightarrow> plan_command list" where
  "seen_commands d = List.map_filter form_command (dm_commands d)"

definition count_kind :: "plan_kind \<Rightarrow> plan_command list \<Rightarrow> nat" where
  "count_kind kind pcs = length (filter (\<lambda>p. pc_kind p = kind) pcs)"

definition line_start :: "string \<Rightarrow> string \<Rightarrow> line_state" where
  "line_start command cwd =
     (let st = \<lparr>ls_env = [], ls_dir = cwd, ls_unreadable = None, ls_negatedPlan = False, ls_steps = []\<rparr>
      in if rx_test arithmetic_sets command \<or> rx_test parameter_sets command then fail ''an assignment inside an expansion'' st else st)"

definition nested :: "plan_kind \<Rightarrow> string \<Rightarrow> plan_command list \<Rightarrow> line_state \<Rightarrow> line_state" where
  "nested kind what seen st =
     (if count_kind kind seen > count_kind kind (map ps_pc (ls_steps st)) then fail (what @ '' inside a nested shell or substitution'') st else st)"

definition context_only :: "string \<Rightarrow> bool" where
  "context_only form \<longleftrightarrow> hd (split_ch (CHR '' '') form) \<in> set CONTEXT_ONLY_LINE"

definition runs_nothing :: "shell_command \<Rightarrow> bool" where
  "runs_nothing c \<longleftrightarrow> (case sc_forms c of [] \<Rightarrow> True | f # _ \<Rightarrow> context_only f)"

definition recordable_step :: "string \<Rightarrow> decomposed \<Rightarrow> plan_command list \<Rightarrow> line_state \<Rightarrow> plan_step option" where
  "recordable_step command d seen st =
     (let plans = filter (\<lambda>s. pc_kind (ps_pc s) = Plan) (ls_steps st);
          lastPc = (if dm_commands d = [] then None else form_command (last (dm_commands d)))
      in if ls_unreadable st = None \<and> \<not> ls_negatedPlan st \<and> \<not> backgrounded command \<and> map_option pc_kind lastPc = Some Plan \<and>
            list_all runs_nothing (butlast (dm_commands d)) \<and> length plans = 1 \<and> count_kind Apply seen = 0
         then Some (hd plans) else None)"

definition line_end :: "decomposed \<Rightarrow> line_state \<Rightarrow> line_state" where
  "line_end d st = nested Plan ''a dry run'' (seen_commands d) (nested Apply ''an apply'' (seen_commands d) st)"

definition line_result :: "string \<Rightarrow> decomposed \<Rightarrow> line_state \<Rightarrow> plan_line" where
  "line_result command d st =
     (let seen = seen_commands d
      in \<lparr>pl_steps = ls_steps st,
          pl_unreadable = (if rx_test GATED_TOOLS command \<or> ls_steps st \<noteq> [] \<or> seen \<noteq> [] then ls_unreadable st else None),
          pl_recordable = recordable_step command d seen st\<rparr>)"

definition planLine :: "string \<Rightarrow> string \<Rightarrow> plan_line option" where
  "planLine command cwd =
     (let d = decomposeBash command
      in case dm_opaque d of
           Some form \<Rightarrow>
             Some \<lparr>pl_steps = [], pl_unreadable = Some (''the line cannot be read ('' @ form @ '')''), pl_recordable = None\<rparr>
         | None \<Rightarrow>
             do {
               st \<leftarrow> line_parts (splitShellCommands command) (line_start command cwd);
               Some (line_result command d (line_end d st))
             })"

section \<open>The line's one kubernetes change\<close>

definition KUBE_READS :: "(string \<times> string list) list" where
  "KUBE_READS =
     [(''kubectl'',
       [''get'', ''describe'', ''wait'', ''logs'', ''top'', ''events'', ''explain'', ''api-resources'', ''api-versions'', ''version'', ''cluster-info'',
        ''rollout status'', ''rollout history'', ''auth can-i'', ''auth whoami'']),
      (''helm'', [''status'', ''list'', ''ls'', ''history'', ''get''])]"

definition run_of :: "string \<Rightarrow> string list option" where
  "run_of form = map_option (case_option [] id) (afterPrefixes (split_ws form))"

definition tool_of :: "string list \<Rightarrow> string" where
  "tool_of wds = (case wds of [] \<Rightarrow> [] | w # _ \<Rightarrow> after_slash w)"

definition has_flag :: "string list \<Rightarrow> string \<Rightarrow> bool" where
  "has_flag wds name \<longleftrightarrow> list_ex (\<lambda>w. w = ''--'' @ name \<or> assigns (''--'' @ name) w) wds"

definition url_scheme :: rx where "url_scheme = Cat scheme (lit ''//'')"
definition fetched_scheme :: rx where "fetched_scheme = cats [Bol, alts [lit_i ''oci'', Cat (lit_i ''http'') (opt (lit_i ''s''))], lit ''://'']"

fun before_url :: "string \<Rightarrow> string" where
  "before_url [] = []"
| "before_url (c # cs) = (if starts ''://'' (c # cs) then [] else c # before_url cs)"

definition opens_editor :: "string list \<Rightarrow> string option \<Rightarrow> string option \<Rightarrow> bool" where
  "opens_editor wds verb sub \<longleftrightarrow>
     verb = Some ''edit'' \<or> (verb = Some ''apply'' \<and> sub = Some ''edit-last-applied'') \<or>
     (has_flag wds ''edit'' \<and> ''--edit=false'' \<notin> set wds)"

definition spawnsProgram :: "string \<Rightarrow> string option option" where
  "spawnsProgram form =
     do {
       wds \<leftarrow> run_of form;
       let tool = tool_of wds;
       if tool = ''helm'' then
         Some (if has_flag wds ''post-renderer'' \<or> has_flag wds ''post-renderer-args''
               then Some ''helm runs the --post-renderer program with the command's environment''
               else map_option (\<lambda>w. ''helm fetches '' @ before_url w @ '':// charts with a downloader plugin'')
                      (find (\<lambda>w. rx_test url_scheme w \<and> \<not> rx_test fetched_scheme w) wds))
       else if tool = ''kubectl'' \<or> tool = ''oc'' then
         do {
           g \<leftarrow> splitGlobals tool (drop 1 wds);
           let pos = (case g of Some s \<Rightarrow> positionals (sg_rest s) | None \<Rightarrow> []);
           Some (if opens_editor wds (word_at pos 0) (word_at pos 1)
                 then Some ''kubectl opens an editor (KUBE_EDITOR/EDITOR) with the command's environment''
                 else if has_flag wds ''enable-alpha-plugins'' \<or> has_flag wds ''enable-helm'' \<or> has_flag wds ''helm-command''
                 then Some ''kustomize runs plugins or helm with the command's environment''
                 else None)
         }
       else Some None
     }"

definition KUBE_TARGET_FLAGS :: "(string \<times> string list) list" where
  "KUBE_TARGET_FLAGS =
     [(''kubectl'',
       [''kubeconfig'', ''server'', ''token'', ''username'', ''password'', ''client-certificate'', ''client-key'', ''certificate-authority'',
        ''insecure-skip-tls-verify'', ''tls-server-name'']),
      (''helm'', [''kubeconfig'', ''kube-apiserver'', ''kube-token'', ''kube-ca-file'', ''kube-insecure-skip-tls-verify'', ''kube-tls-server-name''])]"

definition env_name :: "string \<Rightarrow> string" where
  "env_name kv = (if CHR ''='' \<in> set kv then before (CHR ''='') kv else butlast kv)"

definition connection_env :: "string \<Rightarrow> bool" where
  "connection_env n \<longleftrightarrow> n = ''KUBECONFIG'' \<or> (starts ''HELM_KUBE'' n \<and> n \<noteq> ''HELM_KUBECONTEXT'')"

definition target_flag :: "string \<Rightarrow> string list \<Rightarrow> string \<Rightarrow> bool" where
  "target_flag tool flags w \<longleftrightarrow>
     list_ex (\<lambda>f. w = ''--'' @ f \<or> assigns (''--'' @ f) w) flags \<or>
     (tool \<in> {''kubectl'', ''oc''} \<and> (w = ''-s'' \<or> (starts ''-s'' w \<and> length w > 2 \<and> \<not> is_ws (w ! 2))))"

definition leavesGovernedKubeconfig :: "string \<Rightarrow> string list \<Rightarrow> string option option" where
  "leavesGovernedKubeconfig form env =
     (case find connection_env (map env_name env) of
        Some n \<Rightarrow> Some (Some (''the line sets '' @ n))
      | None \<Rightarrow>
          do {
            wds \<leftarrow> run_of form;
            let tool = tool_of wds;
            (case member KUBE_TARGET_FLAGS (if tool = ''oc'' then ''kubectl'' else tool) of
               Absent \<Rightarrow> Some None
             | Inherited \<Rightarrow> if wds = [] then Some None else None
             | Own flags \<Rightarrow>
                 Some (map_option (\<lambda>w. tool @ '' '' @ before (CHR ''='') w @ '' leaves the governed kubeconfig'')
                         (find (target_flag tool flags) wds)))
          })"

definition kubeRead :: "string \<Rightarrow> bool option" where
  "kubeRead form =
     do {
       run \<leftarrow> afterPrefixes (split_ws form);
       (case run of
          Some (w # wds) \<Rightarrow>
            if CHR ''/'' \<in> set w then Some False
            else
              (let tool = (if w = ''oc'' then ''kubectl'' else w)
               in case member KUBE_READS tool of
                    Absent \<Rightarrow> Some False
                  | Inherited \<Rightarrow> None
                  | Own reads \<Rightarrow>
                      do {
                        g \<leftarrow> splitGlobals tool wds;
                        Some (case g of
                                None \<Rightarrow> False
                              | Some s \<Rightarrow>
                                  if sg_unknown s \<noteq> None \<and> sg_unknown s \<noteq> Some [] then False
                                  else
                                    (let pos = positionals (sg_rest s); shown = (\<lambda>v. case v of Some x \<Rightarrow> x | None \<Rightarrow> ''undefined'')
                                     in or_empty (word_at pos 0) \<in> set reads \<or>
                                        (shown (word_at pos 0) @ '' '' @ shown (word_at pos 1)) \<in> set reads))
                      })
        | _ \<Rightarrow> Some False)
     }"

text \<open>\<open>xs.some(f)\<close> and \<open>xs.every(f)\<close> where \<open>f\<close> may throw.\<close>

fun some_js :: "('a \<Rightarrow> bool option) \<Rightarrow> 'a list \<Rightarrow> bool option" where
  "some_js f [] = Some False"
| "some_js f (x # xs) = do { b \<leftarrow> f x; if b then Some True else some_js f xs }"

definition every_js :: "('a \<Rightarrow> bool option) \<Rightarrow> 'a list \<Rightarrow> bool option" where
  "every_js f xs = map_option Not (some_js (\<lambda>x. map_option Not (f x)) xs)"

definition is_change :: "shell_command \<Rightarrow> bool" where
  "is_change c \<longleftrightarrow> map_option pc_kind (classifyPlanCommand (hd (sc_forms c))) = Some Apply"

definition running_commands :: "decomposed \<Rightarrow> shell_command list" where
  "running_commands d = filter (\<lambda>c. \<not> runs_nothing c) (dm_commands d)"

definition soleKubeApply :: "string \<Rightarrow> string \<Rightarrow> plan_step option option" where
  "soleKubeApply command cwd =
     (let d = decomposeBash command
      in if dm_opaque d \<noteq> None \<or> backgrounded command then Some None
         else
           do {
             line \<leftarrow> planLine command cwd;
             (case (pl_unreadable line, pl_steps line) of
                (None, [step]) \<Rightarrow>
                  if pc_kind (ps_pc step) \<noteq> Apply \<or> pc_tool (ps_pc step) \<notin> {''kubectl'', ''oc'', ''helm''} then Some None
                  else
                    (let running = running_commands d
                     in case filter is_change running of
                          [change] \<Rightarrow>
                            do {
                              spawns \<leftarrow> spawnsProgram (hd (sc_forms change));
                              if spawns \<noteq> None then Some None
                              else
                                do {
                                  leaves \<leftarrow>
                                    some_js (\<lambda>c. map_option (\<lambda>r. r \<noteq> None) (leavesGovernedKubeconfig (hd (sc_forms c)) (ps_env step))) running;
                                  if leaves then Some None
                                  else
                                    do {
                                      reads \<leftarrow> every_js (\<lambda>c. if is_change c then Some True else kubeRead (hd (sc_forms c))) running;
                                      Some (if reads then Some step else None)
                                    }
                                }
                            }
                        | _ \<Rightarrow> Some None)
              | _ \<Rightarrow> Some None)
           })"

definition word_rx :: "string \<Rightarrow> rx" where "word_rx s = cats [WordB, lit s, WordB]"

definition planExitOk :: "plan_command \<Rightarrow> string \<Rightarrow> int \<Rightarrow> bool" where
  "planExitOk pc command code \<longleftrightarrow>
     code = 0 \<or>
     (pc_tool pc \<in> {''kubectl'', ''oc''} \<and> code = 1 \<and> rx_test (word_rx ''diff'') command) \<or>
     (pc_tool pc = ''terraform'' \<and> code = 2 \<and> rx_test (Cat (lit ''-detailed-exitcode'') WordB) command) \<or>
     (pc_tool pc = ''helm'' \<and> code = 2 \<and> rx_test (word_rx ''diff'') command \<and> rx_test (Cat (lit ''--detailed-exitcode'') WordB) command)"

end
