(* ===== verification/Containment.thy ===== *)
theory Containment
  imports Safety
begin

text \<open>
  \<open>permission/containment.ts\<close>: the escape routes that autopilot refuses.  Each rule is a predicate on a command; the
  whole command is a candidate, and so is each command of the chain.
\<close>

definition shell_word :: rx where
  "shell_word = cats [opt (alts [lit ''ba'', lit ''z'', lit ''da'', lit ''k'']), lit ''sh'', WordB]"

definition pipe_to_shell :: rx where
  "pipe_to_shell = cats [Star (none_of ''|''), lit ''|'', Star ws]"

definition spaced :: "string list \<Rightarrow> rx" where
  "spaced wds = cats (concat (map (\<lambda>w. [plus ws, lit w]) wds))"

definition any_of :: "string list \<Rightarrow> rx" where "any_of wds = alts (map lit wds)"

definition METADATA_HOSTS :: rx where
  "METADATA_HOSTS =
     alts (map lit_i [''169.254.169.254'', ''metadata.google.internal'', ''fd00:ec2::254'', ''100.100.100.200'', ''169.254.170.2''])"

record containment_rule =
  cr_name :: string
  cr_test :: "string \<Rightarrow> bool"

definition any_rx :: "rx list \<Rightarrow> string \<Rightarrow> bool" where
  "any_rx rs s = list_ex (\<lambda>r. rx_test r s) rs"

definition shell_profile :: rx where
  "shell_profile =
     cats [at_component, lit ''.'',
           any_of [''bashrc'', ''bash_profile'', ''zshrc'', ''zprofile'', ''zshenv'', ''profile'', ''zlogin''], Eol]"

definition RULES :: "containment_rule list" where
  "RULES =
     [\<lparr>cr_name = ''cloud metadata endpoint'', cr_test = rx_test METADATA_HOSTS\<rparr>,
      \<lparr>cr_name = ''pipe from the network into a shell'',
       cr_test = any_rx
         [cats [WordB, any_of [''curl'', ''wget'', ''fetch''], WordB, pipe_to_shell, opt (Cat (lit ''sudo'') (plus ws)), shell_word],
          cats [WordB, opt (any_of [''ba'', ''z'', ''da'', ''k'']), lit ''sh'', plus ws, lit ''<('', Star ws, any_of [''curl'', ''wget''], WordB]]\<rparr>,
      \<lparr>cr_name = ''privilege escalation'',
       cr_test = any_rx
         [cats [Bol, Star ws, any_of [''sudo'', ''doas'', ''su''], WordB], cats [WordB, lit ''pkexec'', WordB]]\<rparr>,
      \<lparr>cr_name = ''persistence (cron/launchd/systemd/login items)'',
       cr_test = any_rx
         [cats [Bol, Star ws, lit ''crontab'', WordB],
          cats [WordB, lit ''launchctl'', plus ws, any_of [''load'', ''bootstrap'', ''submit'', ''enable''], WordB],
          cats [WordB, lit ''systemctl'', plus ws, opt (Cat (lit ''--user'') (plus ws)), any_of [''enable'', ''link'', ''edit''], WordB],
          cats [WordB, lit_i ''osascript'', WordB, Star dot, lit_i ''login item'']]\<rparr>,
      \<lparr>cr_name = ''shell profile edit'', cr_test = (\<lambda>s. list_ex (rx_test shell_profile) (redirectTargets s))\<rparr>,
      \<lparr>cr_name = ''credential store dump'',
       cr_test = any_rx
         [cats [WordB, lit ''security'', plus ws,
                alts [cats [lit ''find-'', any_of [''generic'', ''internet''], lit ''-password''], lit ''dump-keychain'', lit ''export''],
                WordB],
          alts [cats [WordB, lit ''gnome-keyring''], cats [lit ''secret-tool'', plus ws, lit ''lookup'', WordB]]]\<rparr>,
      \<lparr>cr_name = ''decoded execution'',
       cr_test = any_rx
         [cats [WordB, lit ''base64'', WordB, pipe_to_shell, shell_word],
          cats [WordB, lit ''eval'', plus ws, opt (Chr (\<lambda>c. c = dquote)), lit ''$('', Star ws,
                alts [lit ''base64'', lit ''xxd'', cats [lit ''openssl'', plus ws, lit ''enc'']], WordB]]\<rparr>,
      \<lparr>cr_name = ''disabling the firewall or gatekeeper'',
       cr_test = any_rx
         [cats [WordB, lit ''spctl'', plus ws, lit ''--master-disable'', WordB],
          cats [WordB, lit ''socketfilterfw'', WordB, Star dot, lit ''--setglobalstate'', plus ws, lit ''off''],
          cats [WordB, lit ''ufw'', plus ws, lit ''disable'', WordB]]\<rparr>]"

definition containmentDeny :: "string \<Rightarrow> string option" where
  "containmentDeny command =
     (let candidates = command # splitShellCommands command
      in (case find (\<lambda>r. list_ex (cr_test r) candidates) RULES of
            None \<Rightarrow> None
          | Some r \<Rightarrow>
              (case find (cr_test r) candidates of
                 None \<Rightarrow> None
               | Some hit \<Rightarrow> Some (''autopilot containment: '' @ cr_name r @ '' '' @ emdash @ '' '' @ take 120 (trim hit)))))"

lemma containmentDeny_None:
  "containmentDeny c = None \<longleftrightarrow> (\<forall>r \<in> set RULES. \<forall>x \<in> set (c # splitShellCommands c). \<not> cr_test r x)"
proof -
  let ?cs = "c # splitShellCommands c"
  show ?thesis
  proof (cases "find (\<lambda>r. list_ex (cr_test r) ?cs) RULES")
    case None
    then have "\<forall>r \<in> set RULES. \<forall>x \<in> set ?cs. \<not> cr_test r x" unfolding find_None_iff list_ex_iff by blast
    then show ?thesis using None by (simp only: containmentDeny_def Let_def option.case) simp
  next
    case (Some r)
    then have r: "r \<in> set RULES" "\<exists>x \<in> set ?cs. cr_test r x"
      unfolding find_Some_iff list_ex_iff by (auto dest: nth_mem)
    then obtain h where "find (cr_test r) ?cs = Some h" by (metis find_None_iff2 option.exhaust)
    then have "containmentDeny c \<noteq> None" unfolding containmentDeny_def Let_def Some option.case by simp
    with r show ?thesis by blast
  qed
qed

text \<open>
  Every command that a chain runs is contained: if one of the commands the second part of a chain splits
  into is an escape route, the whole chain is refused, whatever plain command stands before it.
\<close>

theorem containment_in_chain:
  assumes "plain a" "s \<in> set (splitShellCommands b)" "containmentDeny s \<noteq> None" "splitShellCommands s = [s]"
  shows "containmentDeny (a @ '' && '' @ b) \<noteq> None"
proof -
  from assms(3,4) obtain r where "r \<in> set RULES" "cr_test r s" by (auto simp: containmentDeny_None)
  with assms(2) show ?thesis unfolding containmentDeny_None split_chain [OF assms(1)] by auto
qed

theorem containment_in_chain_witness: "containmentDeny (''cd build'' @ '' && '' @ ''make; sudo make install'') \<noteq> None"
proof (rule containment_in_chain)
  show "plain ''cd build''" by (simp add: plain_def)
  show "''sudo make install'' \<in> set (splitShellCommands ''make; sudo make install'')" by code_simp
  show "containmentDeny ''sudo make install'' \<noteq> None" by code_simp
  show "splitShellCommands ''sudo make install'' = [''sudo make install'']" by code_simp
qed

end
