(* ===== verification/ShellWraps.thy ===== *)
theory ShellWraps
  imports ShellDecompose
begin

text \<open>
  What a deny rule relies on in the decomposer of \<open>permission/shell-decompose.ts\<close>: a deeper nesting bound changes nothing that
  was decomposed, and a command wrapped in \<open>sh -c\<close> and subshells is the command.
\<close>

section \<open>A deeper bound changes nothing that was decomposed\<close>

definition refines :: "'a parse \<Rightarrow> 'a parse \<Rightarrow> bool" where
  "refines p q \<longleftrightarrow> (\<forall>r. p = Inr r \<longrightarrow> q = Inr r)"

definition runner_refines :: "runner \<Rightarrow> runner \<Rightarrow> bool" where
  "runner_refines f g \<longleftrightarrow> (\<forall>s l. refines (f s l) (g s l))"

lemma refines_refl [simp]: "refines p p"
  by (simp add: refines_def)

lemma refines_Inl [simp]: "refines (Inl e) q"
  by (simp add: refines_def)

lemma refines_runner: "runner_refines f g \<Longrightarrow> refines (f s l) (g s l)"
  by (simp add: runner_refines_def)

lemma refines_bind:
  "refines p q \<Longrightarrow> (\<And>r. p = Inr r \<Longrightarrow> refines (f r) (g r)) \<Longrightarrow>
   refines (case p of Inl e \<Rightarrow> Inl e | Inr r \<Rightarrow> f r) (case q of Inl e \<Rightarrow> Inl e | Inr r \<Rightarrow> g r)"
  by (cases p) (auto simp: refines_def)

lemma refines_if: "(b \<Longrightarrow> refines p q) \<Longrightarrow> (\<not> b \<Longrightarrow> refines p' q') \<Longrightarrow> refines (if b then p else p') (if b then q else q')"
  by simp

lemma refines_option:
  "(x = None \<Longrightarrow> refines p q) \<Longrightarrow> (\<And>a. x = Some a \<Longrightarrow> refines (f a) (g a)) \<Longrightarrow>
   refines (case x of None \<Rightarrow> p | Some a \<Rightarrow> f a) (case x of None \<Rightarrow> q | Some a \<Rightarrow> g a)"
  by (cases x) simp_all

lemma refines_list:
  "(x = [] \<Longrightarrow> refines p q) \<Longrightarrow> (\<And>a as. x = a # as \<Longrightarrow> refines (f a as) (g a as)) \<Longrightarrow>
   refines (case x of [] \<Rightarrow> p | a # as \<Rightarrow> f a as) (case x of [] \<Rightarrow> q | a # as \<Rightarrow> g a as)"
  by (cases x) simp_all

lemma refines_pair: "(\<And>a b. x = (a, b) \<Longrightarrow> refines (f a b) (g a b)) \<Longrightarrow> refines (case x of (a, b) \<Rightarrow> f a b) (case x of (a, b) \<Rightarrow> g a b)"
  by (cases x) simp

lemma refines_let: "refines (f a) (g a) \<Longrightarrow> refines (Let a f) (Let a g)"
  by simp

lemmas refines_intros = refines_let refines_if refines_option refines_list refines_bind refines_pair refines_refl refines_Inl

text \<open>Two runners, the second of which agrees with the first where the first can follow a command.\<close>

locale deeper_runner =
  fixes f :: runner and g :: runner
  assumes fg: "runner_refines f g"
begin

lemma substitutions_refines: "refines (substitutions f q s l) (substitutions g q s l)"
proof (induction s arbitrary: l rule: length_induct)
  case (1 s)
  then have ih: "length t < length s \<Longrightarrow> refines (substitutions f q t l) (substitutions g q t l)" for t l by blast
  show ?case
  proof (cases s)
    case (Cons c cs)
    show ?thesis
      unfolding Cons substitutions.simps
      by (intro refines_intros ih refines_runner [OF fg]) (simp_all add: Cons)
  qed (simp add: substitutions.simps)
qed

lemma expansion_refines: "refines (expansion f c cs w l) (expansion g c cs w l)"
  unfolding expansion_def arithmetic_def parameter_def
  by (intro refines_intros substitutions_refines refines_runner [OF fg])

lemma quoted_text_refines: "refines (quoted_text f s w l) (quoted_text g s w l)"
proof (induction s arbitrary: w l rule: length_induct)
  case (1 s)
  then have ih: "length t < length s \<Longrightarrow> refines (quoted_text f t w l) (quoted_text g t w l)" for t w l by blast
  show ?case
  proof (cases s)
    case (Cons c cs)
    show ?thesis
      unfolding Cons quoted_text.simps
      by (intro refines_intros ih expansion_refines) (auto simp: Cons dest: expansion_shorter)
  qed (simp add: quoted_text.simps)
qed

lemma script_refines: "refines (script f wds rest l) (script g wds rest l)"
  unfolding script_def opaque_words_def by (intro refines_intros refines_runner [OF fg])

lemma shell_options_refines: "refines (shell_options f name wds c r args l) (shell_options g name wds c r args l)"
proof (induction args arbitrary: c r l rule: length_induct)
  case (1 args)
  then have ih: "length t < length args \<Longrightarrow> refines (shell_options f name wds c r t l) (shell_options g name wds c r t l)" for t c r l
    by blast
  show ?case
  proof (cases args)
    case (Cons a rest)
    show ?thesis
      unfolding Cons shell_options.simps opaque_words_def
      by (intro refines_intros ih script_refines) (simp_all add: Cons)
  qed (simp add: shell_options.simps)
qed

lemma simple_refines: "refines (simple f h wds l) (simple g h wds l)"
proof (induction wds arbitrary: h l rule: length_induct)
  case (1 wds)
  then have ih: "length t < length wds \<Longrightarrow> refines (simple f h t l) (simple g h t l)" for t h l by blast
  show ?case
  proof (cases wds)
    case (Cons w args)
    have x: "afterPrefix n spec args = Inr rest \<Longrightarrow> (case rest of None \<Rightarrow> [] | Some r \<Rightarrow> r) = t \<Longrightarrow> length t < length wds" for n spec rest t
      using afterPrefix_shorter [of n spec args] Cons by (cases rest) fastforce+
    show ?thesis
      unfolding Cons simple.simps(2) [of f h w args l] simple.simps(2) [of g h w args l] opaque_words_def shell_def
      by (intro refines_intros ih shell_options_refines) (auto simp: Cons dest: afterPrefix_shorter x)
  qed (simp add: simple.simps)
qed

lemma endCommand_refines: "refines (endCommand f st l) (endCommand g st l)"
  unfolding endCommand_def by (intro refines_intros simple_refines)

lemma read_heredocs_refines: "refines (read_heredocs f hs s l) (read_heredocs g hs s l)"
proof (induction hs arbitrary: s l)
  case (Cons h hs)
  show ?case unfolding read_heredocs.simps by (intro refines_intros substitutions_refines Cons.IH)
qed simp

lemma scan_step_refines: "refines (scan_step f c cs st l) (scan_step g c cs st l)"
  unfolding scan_step_def scan_newline_def scan_semicolon_def scan_subshell_def
  by (intro refines_let refines_if refines_option refines_bind refines_pair refines_Inl refines_runner [OF fg] endCommand_refines
      read_heredocs_refines quoted_text_refines expansion_refines refines_refl)

lemma scan_refines: "refines (scan f s st l) (scan g s st l)"
proof (induction s arbitrary: st l rule: length_induct)
  case (1 s)
  then have ih: "length t < length s \<Longrightarrow> refines (scan f t st l) (scan g t st l)" for t st l by blast
  show ?case
  proof (cases s)
    case (Cons c cs)
    show ?thesis
      unfolding Cons scan.simps
      by (intro refines_intros ih scan_step_refines) (auto simp: Cons dest: scan_step_shorter)
  qed (simp add: scan.simps)
qed

lemma decompose_line_refines: "runner_refines (decompose_line f) (decompose_line g)"
  unfolding decompose_line_def runner_refines_def by (intro allI refines_intros scan_refines endCommand_refines)

end

lemma decompose_at_deeper: "runner_refines (decompose_at n) (decompose_at (Suc n))"
proof (induction n)
  case 0
  then show ?case by (simp add: runner_refines_def)
next
  case (Suc n)
  then have "runner_refines (decompose_line (decompose_at n)) (decompose_line (decompose_at (Suc n)))"
    by (rule deeper_runner.decompose_line_refines [OF deeper_runner.intro])
  then show ?case by (simp only: decompose_at.simps)
qed

interpretation deeper: deeper_runner "decompose_at n" "decompose_at (Suc n)" for n
  by unfold_locales (rule decompose_at_deeper)

section \<open>Wrapped commands\<close>

lemma scan_start_simps [simp]:
  "ss_words scan_start = []" "ss_word scan_start = None" "ss_pending scan_start = None" "\<not> ss_heredoc scan_start"
  "ss_heredocs scan_start = []" "ss_cases scan_start = []" "ss_redirections scan_start = []" "ss_openers scan_start = []"
  "ss_closed scan_start = None"
  by (simp_all add: scan_start_def)

lemma subshell_line:
  assumes "matchParen 0 None (CHR ''('' # s @ '')'') = Some (length s + 1)"
  shows "decompose_line inner (''('' @ s @ '')'') l = inner s l"
proof -
  have d: "drop (Suc (length s)) (s @ '')'') = []" by simp
  have "scan_step inner (CHR ''('') (s @ '')'') scan_start l =
        (case inner s l of Inl e \<Rightarrow> Inl e | Inr l' \<Rightarrow> Inr ([], scan_start\<lparr>ss_closed := Some (length (sl_out l))\<rparr>, l'))"
    using assms by (cases "inner s l") (simp_all add: scan_step_def scan_subshell_def Let_def is_ws_def d)
  then show ?thesis
    by (simp add: decompose_line_def scan.simps endCommand_def endWord_def case_head_def simple.simps redirect_commands_def
        split: sum.splits)
qed


lemma scan_letter:
  assumes "ss_cases st = []" "is_alpha c \<or> c = CHR ''-''"
  shows "scan inner (c # cs) st l = scan inner cs (put_word (add_text [c] (cur st)) st) l"
proof -
  have c: "c \<notin> set ('' ;#|&<>()~*?[{}$'' @ [tab, nl, bslash, squote, dquote, backtick])"
    using assms(2) by (auto simp: is_alpha_def is_lower_def is_upper_def)
  then have "scan_step inner c cs st l = Inr (cs, put_word (add_text [c] (cur st)) st, l)"
    using assms(1) by (simp add: scan_step_def Let_def add_text_def)
  then show ?thesis by (simp add: scan.simps(2))
qed

lemma scan_blank:
  "ss_cases st = [] \<Longrightarrow> scan inner (CHR '' '' # cs) st l = (let (st1, l1) = endWord st l in scan inner cs st1 l1)"
  by (simp add: scan.simps(2) scan_step_def Let_def case_prod_unfold)

lemma scan_squoted:
  assumes "ss_cases st = []" "squote \<notin> set s"
  shows "scan inner (squote # s @ squote # cs) st l = scan inner cs (put_word (add_text s (cur st)) st) l"
proof -
  have "find_index (\<lambda>d. d = squote) (s @ squote # cs) = Some (length s)"
    using assms(2) by (induction s) auto
  then have "scan_step inner squote (s @ squote # cs) st l = Inr (cs, put_word (add_text s (cur st)) st, l)"
    using assms(1) by (simp add: scan_step_def Let_def)
  then show ?thesis by (simp add: scan.simps(2))
qed

definition plain_word :: "string \<Rightarrow> word" where
  "plain_word s = \<lparr>wd_text = s, wd_expanded = False, wd_literal = True, wd_glob = False, wd_tilde = False\<rparr>"

lemma plain_word_simps [simp]:
  "wd_text (plain_word s) = s" "wd_literal (plain_word s)" "\<not> wd_glob (plain_word s)" "\<not> wd_expanded (plain_word s)"
  "add_text t (plain_word s) = plain_word (s @ t)" "new_word = plain_word []"
  by (simp_all add: plain_word_def add_text_def new_word_def)

lemma sh_c_scan:
  assumes "squote \<notin> set s"
  shows "scan inner (''sh -c '' @ [squote] @ s @ [squote]) scan_start l =
    Inr (scan_start\<lparr>ss_words := [plain_word ''sh'', plain_word ''-c''], ss_word := Some (plain_word s)\<rparr>, l)"
  using assms
  by (simp add: scan_letter scan_blank scan_squoted is_alpha_def is_lower_def is_upper_def endWord_def put_word_def
      case_head_def cur_def compound_word_def OPENERS_def CLOSERS_def COMPOUND_def scan.simps(1))

text \<open>A script that the shell would not take for an option.\<close>

definition no_option :: "string \<Rightarrow> bool" where
  "no_option s \<longleftrightarrow> s = [] \<or> hd s \<notin> set ''-+''"

lemma sh_c_simple:
  assumes "no_option s"
  shows "simple inner False [plain_word ''sh'', plain_word ''-c'', plain_word s] l = inner s l"
proof -
  have w: "rx_test option_bundle ''-c''" by code_simp
  have b: "basename ''sh'' = ''sh''" "map_of PREFIXES ''sh'' = None" "''sh'' \<in> set SHELLS" "\<not> is_assignment ''sh''"
    "''sh'' \<notin> set COMPOUND" "''sh'' \<notin> set UNSUPPORTED" "''sh'' \<notin> set OPAQUE_HEAD" "''sh'' \<notin> set ASSIGNING_BUILTINS" by code_simp+
  have n: "\<not> starts ''--'' s" "s \<noteq> ''--''"
    using assms by (cases s; auto simp: no_option_def starts_def)+
  have o: "\<not> rx_test option_bundle s"
  proof -
    have "rx_ends option_bundle (None, s) = []"
      using assms by (cases s) (auto simp: option_bundle_def no_option_def rx_spell)
    moreover have "rx_ends option_bundle (Some c, t) = []" for c t by (simp add: option_bundle_def)
    moreover have "\<not> rx_search option_bundle (Some c, t)" for c t
      by (induction t arbitrary: c) (subst rx_search.simps, simp add: option_bundle_def)+
    ultimately show ?thesis unfolding rx_test_def by (subst rx_search.simps) (auto split: list.splits)
  qed
  have e: "shell_options inner ''sh'' wds True False [plain_word s] l = inner s l" for wds
    using n o by (simp add: shell_options.simps(2) Let_def change_env_def script_def shell_runs_def)
  have "shell inner ''sh'' [plain_word ''sh'', plain_word ''-c'', plain_word s] l = inner s l"
    by (simp add: shell_def shell_options.simps(2) [of _ _ _ _ _ "plain_word ''-c''"] w Let_def starts_def change_env_def e)
  then show ?thesis
    by (simp add: simple.simps(2) b Let_def change_env_def)
qed

lemma sh_c_line:
  assumes "squote \<notin> set s" "no_option s"
  shows "decompose_line inner (''sh -c '' @ [squote] @ s @ [squote]) l = inner s l"
  unfolding decompose_line_def sh_c_scan [OF assms(1)]
  by (cases "inner s l")
    (simp_all add: endCommand_def endWord_def Let_def compound_word_def COMPOUND_def case_head_def sh_c_simple [OF assms(2)]
      redirect_commands_def)

text \<open>A command and the wrappings of it that run it.\<close>

inductive wraps :: "string \<Rightarrow> string \<Rightarrow> bool" where
  bare: "wraps s s"
| in_sh: "wraps s t \<Longrightarrow> squote \<notin> set t \<Longrightarrow> no_option t \<Longrightarrow> wraps s (''sh -c '' @ [squote] @ t @ [squote])"
| in_subshell: "wraps s t \<Longrightarrow> matchParen 0 None (CHR ''('' # t @ '')'') = Some (length t + 1) \<Longrightarrow> wraps s (''('' @ t @ '')'')"

lemma decompose_wrapper:
  assumes "\<And>inner l. decompose_line inner w l = inner t l" "dm_opaque (decomposeBash w) = None"
  shows "decomposeBash w = decomposeBash t"
proof -
  have d: "decompose_at (Suc MAX_DEPTH) w empty_line = decompose_at MAX_DEPTH t empty_line" by (simp add: assms(1))
  with assms(2) obtain r where r: "decompose_at MAX_DEPTH t empty_line = Inr r"
    unfolding decomposeBash_def d by (cases "decompose_at MAX_DEPTH t empty_line") simp_all
  moreover from r have "decompose_at (Suc MAX_DEPTH) t empty_line = Inr r"
    using decompose_at_deeper [of MAX_DEPTH] unfolding runner_refines_def refines_def by blast
  ultimately show ?thesis unfolding decomposeBash_def d by simp
qed

lemma wrapped_same:
  assumes "wraps s w" "dm_opaque (decomposeBash w) = None"
  shows "decomposeBash w = decomposeBash s"
  using assms
proof induction
  case (in_sh s t)
  then show ?case using decompose_wrapper [OF sh_c_line] by metis
next
  case (in_subshell s t)
  then show ?case using decompose_wrapper [OF subshell_line] by metis
qed simp

text \<open>However often a command is wrapped in \<open>sh -c '...'\<close> and subshells, the line is either reported as
  undecomposable or decomposed into exactly the commands, redirections and environment changes of the command itself.\<close>

theorem wrapping_is_seen_through:
  assumes "wraps s w" "dm_opaque (decomposeBash w) = None"
  shows "decomposeBash w = decomposeBash s"
  using assms by (rule wrapped_same)

theorem wrapping_is_seen_through_witness:
  "decomposeBash (''sh -c '' @ [squote] @ ''(git push > log)'' @ [squote]) = decomposeBash ''git push > log'' \<and>
   map sc_forms (dm_commands (decomposeBash ''git push > log'')) = [[''git push'']]"
proof
  have "wraps ''git push > log'' (''('' @ ''git push > log'' @ '')'')" by (rule in_subshell [OF bare]) code_simp
  then have "wraps ''git push > log'' (''sh -c '' @ [squote] @ (''('' @ ''git push > log'' @ '')'') @ [squote])"
    by (rule in_sh) (simp_all add: no_option_def)
  from wrapping_is_seen_through [OF this]
  show "decomposeBash (''sh -c '' @ [squote] @ ''(git push > log)'' @ [squote]) = decomposeBash ''git push > log''" by simp code_simp
  show "map sc_forms (dm_commands (decomposeBash ''git push > log'')) = [[''git push'']]" by code_simp
qed

end
