(* ===== verification/Permission.thy ===== *)
theory Permission
  imports Protocol Containment ReadOnlyShell ShellWraps
begin

text \<open>
  \<open>permission/engine.ts\<close>: the deny, envelope, allow, mode cascade over a tool call.  The safety envelope is the host's closure and
  so a parameter of the configuration; logging is left out.
\<close>

section \<open>Requests and decisions\<close>

datatype permission_mode = Recon | Manual | Cruise | Autopilot

datatype deny_source = HardDeny | DenyRule | SafetySource | ModeSource | ToolBoundary | AnswersPolicy

datatype safety_reason = PolicyDenied | OutOfEnvelope | OverCeiling | NeedsApprovalReason | MissingInfo
datatype safety_outcome = EnvelopeAllow | EnvelopeDeny | EnvelopePark

record safety_disposition =
  sd_outcome :: safety_outcome
  sd_reason :: "safety_reason option"
  sd_detail :: "string option"

datatype decision =
    Allow "string option"
  | Deny string "deny_source option" "safety_reason option" "string option"
  | Ask "string option" "safety_reason option"

fun is_allow :: "decision \<Rightarrow> bool" where
  "is_allow (Allow _) = True"
| "is_allow _ = False"

record permission_request =
  rq_toolName :: string
  rq_input :: json
  rq_readOnly :: bool
  rq_isEdit :: bool
  rq_isMemory :: bool
  rq_principal :: author

record permission_config =
  cfg_mode :: permission_mode
  cfg_allow :: "string list"
  cfg_deny :: "string list"
  cfg_safety :: "(permission_request \<Rightarrow> safety_disposition option) option"

definition reason_name :: "safety_reason \<Rightarrow> string" where
  "reason_name r =
     (case r of PolicyDenied \<Rightarrow> ''policy_denied'' | OutOfEnvelope \<Rightarrow> ''out_of_envelope'' | OverCeiling \<Rightarrow> ''over_ceiling''
      | NeedsApprovalReason \<Rightarrow> ''needs_approval'' | MissingInfo \<Rightarrow> ''missing_info'')"

definition safetyReasonText :: "safety_disposition \<Rightarrow> string" where
  "safetyReasonText d =
     (case sd_detail d of
        Some t \<Rightarrow> (if t = [] then (case sd_reason d of None \<Rightarrow> ''safety envelope'' | Some r \<Rightarrow> reason_name r)
                   else (case sd_reason d of None \<Rightarrow> ''undefined'' | Some r \<Rightarrow> reason_name r) @ '': '' @ t)
      | None \<Rightarrow> (case sd_reason d of None \<Rightarrow> ''safety envelope'' | Some r \<Rightarrow> reason_name r))"

text \<open>\<open>String(v ?? "")\<close>.\<close>

fun js_string :: "json \<Rightarrow> string" where
  "js_string JNull = ''null''"
| "js_string (JBool b) = (if b then ''true'' else ''false'')"
| "js_string (JNum n) = int_str n"
| "js_string (JFrac q) = frac_str q"
| "js_string (JStr s) = s"
| "js_string (JArr xs) = join '','' (map (\<lambda>x. if x = JNull then [] else js_string x) xs)"
| "js_string (JObj _) = ''[object Object]''"

definition string_or_empty :: "json option \<Rightarrow> string" where
  "string_or_empty v = (case v of None \<Rightarrow> [] | Some JNull \<Rightarrow> [] | Some x \<Rightarrow> js_string x)"

definition command_of :: "permission_request \<Rightarrow> string" where
  "command_of req = string_or_empty (jget ''command'' (rq_input req))"

definition path_of :: "permission_request \<Rightarrow> string option" where
  "path_of req = (case jget ''path'' (rq_input req) of Some (JStr p) \<Rightarrow> Some p | _ \<Rightarrow> None)"

definition representativeArg :: "permission_request \<Rightarrow> string" where
  "representativeArg req =
     (if rq_toolName req = ''Bash'' then command_of req
      else (case path_of req of Some p \<Rightarrow> p | None \<Rightarrow> json_str (rq_input req)))"

section \<open>Rules\<close>

text \<open>A rule \<open>Tool\<close> or \<open>Tool(pattern)\<close> whose tool part is of the given characters.\<close>

definition parse_rule :: "(char \<Rightarrow> bool) \<Rightarrow> string \<Rightarrow> (string \<times> string option) option" where
  "parse_rule tool_char rule =
     (let tool = takeWhile tool_char rule; r = dropWhile tool_char rule
      in if tool = [] then None
         else if r = [] then Some (tool, None)
         else if hd r = CHR ''('' \<and> length r \<ge> 2 \<and> last r = CHR '')'' \<and> list_all not_newline r then Some (tool, Some (butlast (tl r)))
         else None)"

definition allow_char :: "char \<Rightarrow> bool" where "allow_char c \<longleftrightarrow> is_alpha c \<or> c = CHR ''_''"
definition deny_char :: "char \<Rightarrow> bool" where "deny_char c \<longleftrightarrow> is_word c \<or> c \<in> set ''*:.-''"

definition parse_allow :: "string \<Rightarrow> (string \<times> string option) option" where "parse_allow = parse_rule allow_char"
definition DENY_RULE :: "string \<Rightarrow> (string \<times> string option) option" where "DENY_RULE = parse_rule deny_char"

definition bashSubjects :: "string \<Rightarrow> decomposed" where "bashSubjects command = decomposeBash command"

definition ruleMatches :: "string \<Rightarrow> permission_request \<Rightarrow> bool" where
  "ruleMatches rule req =
     (case parse_allow rule of
        None \<Rightarrow> False
      | Some (tool, pattern) \<Rightarrow>
          if tool \<noteq> rq_toolName req then False
          else
            (case pattern of
               None \<Rightarrow> True
             | Some pat \<Rightarrow>
                 if rq_toolName req = ''Bash'' then
                   (let subjects = bashSubjects (command_of req); run = filter (\<lambda>c. sc_forms c \<noteq> []) (dm_commands subjects)
                    in if refusesAutoApproval subjects then False
                       else run \<noteq> [] \<and> list_all (\<lambda>c. \<not> sc_argsUnknown c \<and> list_ex (globMatch pat) (sc_forms c)) run)
                 else globMatch pat (representativeArg req)))"

definition toolMatches :: "string \<Rightarrow> string \<Rightarrow> bool" where
  "toolMatches tool name = (if CHR ''*'' \<in> set tool then globMatch tool name else tool = name)"

definition namesRedirectWrites :: "string \<Rightarrow> permission_request \<Rightarrow> bool" where
  "namesRedirectWrites tool req \<longleftrightarrow>
     rq_toolName req = ''Bash'' \<and> \<not> toolMatches tool ''Bash'' \<and> (toolMatches tool ''Write'' \<or> toolMatches tool ''Edit'')"

datatype write_rule = WriteHit string | WriteUnchecked string

fun write_scan :: "string option \<Rightarrow> string option \<Rightarrow> redirection list \<Rightarrow> write_rule option" where
  "write_scan pattern unchecked [] = map_option WriteUnchecked unchecked"
| "write_scan pattern unchecked (w # wds) =
     (if (case pattern of None \<Rightarrow> True | Some p \<Rightarrow> rd_literal w \<and> globMatch p (rd_target w)) then
        Some (WriteHit (''a redirect to '' @ rd_target w))
      else
        write_scan pattern
          (if \<not> rd_literal w \<and> unchecked = None then Some (''the redirect target '' @ rd_target w @ '' is not literal'') else unchecked) wds)"

definition writeRuleOnBash :: "string option \<Rightarrow> decomposed \<Rightarrow> write_rule option" where
  "writeRuleOnBash pattern d =
     (case dm_opaque d of
        Some form \<Rightarrow> Some (WriteUnchecked (''undecomposable: '' @ form))
      | None \<Rightarrow> write_scan pattern None (dm_writes d))"

definition command_forms :: "shell_command \<Rightarrow> string list" where
  "command_forms c = sc_forms c @ (case sc_redirected c of None \<Rightarrow> [] | Some fs \<Rightarrow> fs)"

definition ruleMatch :: "string \<Rightarrow> permission_request \<Rightarrow> string option" where
  "ruleMatch rule req =
     (case DENY_RULE rule of
        None \<Rightarrow> None
      | Some (tool, pattern) \<Rightarrow>
          if namesRedirectWrites tool req then
            (case writeRuleOnBash pattern (bashSubjects (command_of req)) of Some (WriteHit h) \<Rightarrow> Some h | _ \<Rightarrow> None)
          else if \<not> toolMatches tool (rq_toolName req) then None
          else if rq_toolName req \<noteq> ''Bash'' then
            (case pattern of None \<Rightarrow> Some [] | Some p \<Rightarrow> if globMatch p (representativeArg req) then Some [] else None)
          else
            (let d = bashSubjects (command_of req)
             in (case dm_opaque d of
                   Some form \<Rightarrow> Some (''undecomposable: '' @ form)
                 | None \<Rightarrow>
                     (case pattern of
                        None \<Rightarrow>
                          Some (case dm_commands d of [] \<Rightarrow> [] | c # _ \<Rightarrow> (case sc_forms c of [] \<Rightarrow> [] | f # _ \<Rightarrow> f))
                      | Some p \<Rightarrow> find (globMatch p) (concat (map command_forms (dm_commands d)))))))"

definition uncheckedWriteRule :: "string \<Rightarrow> permission_request \<Rightarrow> string option" where
  "uncheckedWriteRule rule req =
     (case DENY_RULE rule of
        None \<Rightarrow> None
      | Some (tool, pattern) \<Rightarrow>
          if \<not> namesRedirectWrites tool req then None
          else
            (case writeRuleOnBash pattern (bashSubjects (command_of req)) of
               Some (WriteUnchecked u) \<Rightarrow> Some (''cannot check rule '' @ [dquote] @ rule @ [dquote] @ '': '' @ u)
             | _ \<Rightarrow> None))"

section \<open>The cascade\<close>

definition hardDeny :: "permission_request \<Rightarrow> string option" where
  "hardDeny req =
     (if rq_toolName req = ''Bash'' then
        (case catastrophicDeny (command_of req) of
           Some r \<Rightarrow> Some r
         | None \<Rightarrow>
             (case find (\<lambda>t. contentSafetyDeny t \<noteq> None) (redirectTargets (command_of req)) of
                Some t \<Rightarrow> contentSafetyDeny t
              | None \<Rightarrow> None))
      else if rq_toolName req = ''Write'' \<or> rq_toolName req = ''Edit'' then
        (case path_of req of Some p \<Rightarrow> contentSafetyDeny p | None \<Rightarrow> None)
      else None)"

definition defaultForMode :: "permission_mode \<Rightarrow> permission_request \<Rightarrow> decision" where
  "defaultForMode mode req =
     (let ungated = (rq_readOnly req \<or> rq_isMemory req)
      in (case mode of
            Autopilot \<Rightarrow> Allow None
          | Cruise \<Rightarrow>
              (if ungated \<or> rq_isEdit req then Allow None
               else if rq_toolName req = ''Bash'' \<and>
                       (case jget ''command'' (rq_input req) of Some (JStr c) \<Rightarrow> isReadOnlyShell c | _ \<Rightarrow> False) then Allow None
               else Ask None None)
          | Recon \<Rightarrow>
              (if ungated then Allow None
               else Deny ''recon mode is read-only: changes are blocked'' (Some ModeSource) None None)
          | Manual \<Rightarrow> (if ungated then Allow None else Ask None None)))"

text \<open>The deny rules in order: the first that matches denies; else the first write rule that could not be checked.\<close>

fun deny_rules :: "string list \<Rightarrow> string option \<Rightarrow> permission_request \<Rightarrow> decision + string option" where
  "deny_rules [] unchecked req = Inr unchecked"
| "deny_rules (rule # rules) unchecked req =
     (case ruleMatch rule req of
        Some hit \<Rightarrow>
          Inl (Deny (''denied by rule '' @ [dquote] @ rule @ [dquote] @ (if hit = [] then [] else '': '' @ hit)) (Some DenyRule) None None)
      | None \<Rightarrow>
          deny_rules rules (case unchecked of Some u \<Rightarrow> Some u | None \<Rightarrow> uncheckedWriteRule rule req) req)"

definition unlessUnchecked :: "string option \<Rightarrow> decision \<Rightarrow> decision" where
  "unlessUnchecked unchecked d =
     (case unchecked of Some u \<Rightarrow> if is_allow d then Ask (Some u) None else d | None \<Rightarrow> d)"

definition envelope_decides :: "permission_config \<Rightarrow> string option \<Rightarrow> permission_request \<Rightarrow> decision option" where
  "envelope_decides config unchecked req =
     (case cfg_safety config of
        None \<Rightarrow> None
      | Some safety \<Rightarrow>
          (case safety req of
             None \<Rightarrow> None
           | Some d \<Rightarrow>
               (case sd_outcome d of
                  EnvelopeDeny \<Rightarrow> Some (Deny (safetyReasonText d) (Some SafetySource) (sd_reason d) None)
                | EnvelopePark \<Rightarrow> Some (Ask (Some (safetyReasonText d)) (sd_reason d))
                | EnvelopeAllow \<Rightarrow> if cfg_mode config \<noteq> Recon then Some (unlessUnchecked unchecked (Allow None)) else None)))"

definition createPolicy :: "permission_config \<Rightarrow> permission_request \<Rightarrow> decision" where
  "createPolicy config req =
     (case hardDeny req of
        Some hard \<Rightarrow> Deny hard (Some HardDeny) None None
      | None \<Rightarrow>
          (case (if cfg_mode config = Autopilot \<and> rq_toolName req = ''Bash'' then containmentDeny (command_of req) else None) of
             Some c \<Rightarrow> Deny c (Some HardDeny) None None
           | None \<Rightarrow>
               (case deny_rules (cfg_deny config) None req of
                  Inl d \<Rightarrow> d
                | Inr unchecked \<Rightarrow>
                    (case envelope_decides config unchecked req of
                       Some d \<Rightarrow> d
                     | None \<Rightarrow>
                         if list_ex (\<lambda>rule. ruleMatches rule req) (cfg_allow config) then unlessUnchecked unchecked (Allow None)
                         else unlessUnchecked unchecked (defaultForMode (cfg_mode config) req)))))"

section \<open>Approval entries\<close>

text \<open>The characters of the code page that Python's \<open>isprintable\<close> refuses, the space aside.\<close>

definition unprintable :: "char \<Rightarrow> bool" where
  "unprintable c \<longleftrightarrow> c < CHR '' '' \<or> c \<in> {CHR 0x7F, CHR 0x81, CHR 0x8D, CHR 0x8F, CHR 0x90, CHR 0x9D, CHR 0xA0, CHR 0xAD}"

fun balanced :: "nat \<Rightarrow> string \<Rightarrow> bool" where
  "balanced depth [] = (depth = 0)"
| "balanced depth (c # cs) =
     (if c = CHR ''('' then balanced (depth + 1) cs
      else if c = CHR '')'' then (if depth = 0 then False else balanced (depth - 1) cs)
      else balanced depth cs)"

definition parseApprovalEntry :: "string \<Rightarrow> (string \<times> string option) option" where
  "parseApprovalEntry entry =
     (case parse_rule deny_char entry of
        None \<Rightarrow> None
      | Some (tool, pattern) \<Rightarrow>
          if length tool > 128 \<or> list_ex unprintable entry then None
          else
            (case pattern of
               None \<Rightarrow> Some (tool, None)
             | Some p \<Rightarrow> if 1 \<le> length p \<and> length p \<le> 256 \<and> balanced 0 p then Some (tool, Some p) else None))"

section \<open>What the cascade promises\<close>

definition bash_call :: "string \<Rightarrow> permission_request" where
  "bash_call c =
     \<lparr>rq_toolName = ''Bash'', rq_input = JObj [(''command'', JStr c)], rq_readOnly = False, rq_isEdit = False, rq_isMemory = False,
      rq_principal = HUMAN\<rparr>"

lemma bash_call_simps [simp]:
  "rq_toolName (bash_call c) = ''Bash''" "command_of (bash_call c) = c" "\<not> rq_readOnly (bash_call c)" "\<not> rq_isEdit (bash_call c)"
  "\<not> rq_isMemory (bash_call c)" "jget ''command'' (rq_input (bash_call c)) = Some (JStr c)"
  by (simp_all add: bash_call_def command_of_def string_or_empty_def)

lemma unlessUnchecked_allow: "is_allow (unlessUnchecked u d) \<Longrightarrow> u = None \<and> is_allow d"
  by (auto simp: unlessUnchecked_def split: option.splits if_splits)

lemma deny_rules_keeps: "deny_rules rules (Some u) req = Inr v \<Longrightarrow> v = Some u"
  by (induction rules) (auto split: option.splits)

lemma deny_rules_clear:
  "deny_rules rules None req = Inr None \<Longrightarrow> rule \<in> set rules \<Longrightarrow> ruleMatch rule req = None \<and> uncheckedWriteRule rule req = None"
proof (induction rules)
  case (Cons r rules)
  then have "ruleMatch r req = None" "uncheckedWriteRule r req = None \<and> deny_rules rules None req = Inr None"
    by (auto split: option.splits dest: deny_rules_keeps; cases "uncheckedWriteRule r req"; auto dest: deny_rules_keeps)+
  with Cons show ?case by auto
qed simp

lemma deny_rules_Inl: "deny_rules rules u req = Inl d \<Longrightarrow> \<not> is_allow d"
  by (induction rules arbitrary: u) (auto split: option.splits)

text \<open>Whatever is allowed passed every layer before the one that allowed it.\<close>

lemma allowed_passes:
  assumes "is_allow (createPolicy config req)"
  shows "hardDeny req = None" "deny_rules (cfg_deny config) None req = Inr None"
    "(\<exists>safety. cfg_safety config = Some safety \<and> (\<exists>d. safety req = Some d \<and> sd_outcome d = EnvelopeAllow) \<and> cfg_mode config \<noteq> Recon) \<or>
     list_ex (\<lambda>rule. ruleMatches rule req) (cfg_allow config) \<or> is_allow (defaultForMode (cfg_mode config) req)"
  using assms
  by (auto simp: createPolicy_def envelope_decides_def split: option.splits sum.splits if_splits safety_outcome.splits
      dest: unlessUnchecked_allow deny_rules_Inl)



text \<open>Without an allow rule, recon mode lets through only reads and memory writes: no envelope and no deny list
  makes it allow anything else.\<close>

theorem recon_refuses_changes:
  assumes "cfg_mode config = Recon" "cfg_allow config = []" "is_allow (createPolicy config req)"
  shows "rq_readOnly req \<or> rq_isMemory req"
  using allowed_passes(3) [OF assms(3)] assms(1,2) by (auto simp: defaultForMode_def Let_def split: if_splits)

theorem recon_refuses_changes_witness:
  "rq_readOnly ((bash_call ''ls'')\<lparr>rq_readOnly := True\<rparr>) \<or> rq_isMemory ((bash_call ''ls'')\<lparr>rq_readOnly := True\<rparr>)"
proof (rule recon_refuses_changes [where config = "\<lparr>cfg_mode = Recon, cfg_allow = [], cfg_deny = [], cfg_safety = None\<rparr>"])
  show "is_allow (createPolicy \<lparr>cfg_mode = Recon, cfg_allow = [], cfg_deny = [], cfg_safety = None\<rparr> ((bash_call ''ls'')\<lparr>rq_readOnly := True\<rparr>))"
    by code_simp
qed simp_all

text \<open>Outside autopilot and without an envelope, a shell line that runs without asking (no bare \<open>Bash\<close>
  rule allowing everything) decomposes completely, changes no environment, writes no file through a redirection and is
  named by no deny rule.\<close>

theorem allowed_bash_is_transparent:
  assumes "is_allow (createPolicy config (bash_call c))" "cfg_mode config \<noteq> Autopilot" "cfg_safety config = None"
    "\<forall>rule \<in> set (cfg_allow config). parse_allow rule \<noteq> Some (''Bash'', None)"
  shows "dm_opaque (decomposeBash c) = None \<and> dm_writes (decomposeBash c) = [] \<and>
         list_all (\<lambda>x. \<not> sc_envInjected x) (dm_commands (decomposeBash c)) \<and>
         (\<forall>rule \<in> set (cfg_deny config). ruleMatch rule (bash_call c) = None)"
proof -
  from allowed_passes(3) [OF assms(1)] assms(3)
  consider rule where "rule \<in> set (cfg_allow config)" "ruleMatches rule (bash_call c)" | "is_allow (defaultForMode (cfg_mode config) (bash_call c))"
    by (auto simp: list_ex_iff)
  then have "\<not> refusesAutoApproval (decomposeBash c)"
  proof cases
    case 1
    then obtain pattern where p: "parse_allow rule = Some (''Bash'', pattern)"
      by (auto simp: ruleMatches_def split: option.splits if_splits)
    with 1 assms(4) obtain pat where "parse_allow rule = Some (''Bash'', Some pat)" by (cases pattern) auto
    with 1 show ?thesis by (auto simp: ruleMatches_def Let_def bashSubjects_def split: if_splits)
  next
    case 2
    with assms(2) show ?thesis
      by (auto simp: defaultForMode_def Let_def dest: read_only_approvable split: permission_mode.splits if_splits)
  qed
  with deny_rules_clear [OF allowed_passes(2) [OF assms(1)]] show ?thesis
    by (auto simp: refusesAutoApproval_def list_ex_iff list_all_iff)
qed

theorem allowed_bash_is_transparent_witness:
  "dm_opaque (decomposeBash ''git status'') = None \<and> dm_writes (decomposeBash ''git status'') = [] \<and>
   list_all (\<lambda>x. \<not> sc_envInjected x) (dm_commands (decomposeBash ''git status'')) \<and>
   ruleMatch ''Bash(rm*)'' (bash_call ''git status'') = None"
proof -
  let ?c = "\<lparr>cfg_mode = Manual, cfg_allow = [''Bash(git status*)''], cfg_deny = [''Bash(rm*)''], cfg_safety = None\<rparr>"
  have "is_allow (createPolicy ?c (bash_call ''git status''))" by code_simp
  moreover have "parse_allow ''Bash(git status*)'' \<noteq> Some (''Bash'', None)" by code_simp
  ultimately show ?thesis using allowed_bash_is_transparent [of ?c "''git status''"] by simp
qed

text \<open>A deny rule that names a shell command keeps it from running unasked in any wrapping: in \<open>sh -c '...'\<close> and
  subshells, however nested, the call is never allowed.\<close>

theorem deny_sees_through_wrapping:
  assumes "rule \<in> set (cfg_deny config)" "ruleMatch rule (bash_call s) \<noteq> None" "wraps s w"
  shows "\<not> is_allow (createPolicy config (bash_call w))"
proof
  assume "is_allow (createPolicy config (bash_call w))"
  from deny_rules_clear [OF allowed_passes(2) [OF this] assms(1)]
  have w: "ruleMatch rule (bash_call w) = None" "uncheckedWriteRule rule (bash_call w) = None" by simp_all
  show False
  proof (cases "dm_opaque (decomposeBash w)")
    case None
    with wrapped_same [OF assms(3)] have same: "decomposeBash w = decomposeBash s" by simp
    have "ruleMatch rule (bash_call w) = ruleMatch rule (bash_call s)"
      unfolding ruleMatch_def namesRedirectWrites_def bashSubjects_def bash_call_simps simp_thms if_False same ..
    with w assms(2) show False by simp
  next
    case (Some form)
    with w assms(2) show False
      by (auto simp: ruleMatch_def uncheckedWriteRule_def writeRuleOnBash_def namesRedirectWrites_def bashSubjects_def Let_def
          split: option.splits if_splits prod.splits)
  qed
qed

theorem deny_sees_through_wrapping_witness:
  "\<not> is_allow (createPolicy \<lparr>cfg_mode = Autopilot, cfg_allow = [''Bash''], cfg_deny = [''Bash(git push*)''], cfg_safety = None\<rparr>
      (bash_call (''sh -c '' @ [squote] @ ''git push -f'' @ [squote])))"
proof (rule deny_sees_through_wrapping)
  show "''Bash(git push*)'' \<in> set (cfg_deny \<lparr>cfg_mode = Autopilot, cfg_allow = [''Bash''], cfg_deny = [''Bash(git push*)''], cfg_safety = None\<rparr>)" by simp
  show "ruleMatch ''Bash(git push*)'' (bash_call ''git push -f'') \<noteq> None" by code_simp
  show "wraps ''git push -f'' (''sh -c '' @ [squote] @ ''git push -f'' @ [squote])"
    by (rule in_sh [OF bare]) (simp_all add: no_option_def)
qed

text \<open>A program of the workspace runs without asking when it has the name of a known one: cruise runs \<open>./ls\<close>, and a
  rule that allows \<open>git status\<close> allows \<open>./git status\<close>, \<open>./nohup git status\<close> and \<open>./valueOf git status\<close>.\<close>

theorem planted_program_runs:
  "createPolicy \<lparr>cfg_mode = Cruise, cfg_allow = [], cfg_deny = [], cfg_safety = None\<rparr> (bash_call ''./ls'') = Allow None \<and>
   list_all (\<lambda>c. createPolicy \<lparr>cfg_mode = Manual, cfg_allow = [''Bash(git status)''], cfg_deny = [], cfg_safety = None\<rparr> (bash_call c) = Allow None)
     [''./git status'', ''./nohup git status'', ''./valueOf git status'']"
  by code_simp

end
