(* ===== verification/SafetyEnvelope.thy ===== *)
theory SafetyEnvelope
  imports PlanLine Permission
begin

text \<open>
  \<open>permission/safety-envelope.ts\<close>: the class of an action under a profile's tool classes (\<open>classifyAction\<close>: the worst
  command of a Bash line wins) and the disposition of the action inside the declared envelope (\<open>evaluateSafety\<close>), with
  the trace record of an attempt.  Counts and costs are integers.  \<open>None\<close> is a throw of the table lookup in \<open>verbLed\<close>.
\<close>

section \<open>Policies and actions\<close>

datatype safety_class = ReadOnlyClass | MemoryClass | MutativeClass | DestructiveClass | UnknownClass

record tool_classes =
  tc_readOnly :: "string list"
  tc_mutative :: "string list"
  tc_destructive :: "string list"

record blast_radius =
  br_maxResources :: "int option"
  br_accounts :: "string list option"
  br_regions :: "string list option"
  br_requireTag :: "string option"

record safety_policy =
  sp_toolClasses :: tool_classes
  sp_requirePlanArtifact :: bool
  sp_hash :: "string list"
  sp_blastRadius :: blast_radius
  sp_destructiveAlways :: bool
  sp_outOfScopeAlways :: bool
  sp_costCeilingUsdMonth :: "int option"

record plan_signals =
  sig_resourceCount :: "int option"
  sig_accounts :: "string list option"
  sig_regions :: "string list option"
  sig_costUsdMonth :: "int option"
  sig_tagged :: "bool option"

record safety_action =
  sa_toolName :: string
  sa_command :: string
  sa_readOnly :: bool
  sa_applies :: bool
  sa_infra :: bool
  sa_memory :: bool
  sa_plan :: "plan_signals option"

record safety_eval_state =
  se_planApproved :: "bool option"
  se_planDetail :: "string option"
  se_hasRequiredInfo :: "bool option"

section \<open>The class of an action\<close>

text \<open>One entry of a tool class against the forms of a command: \<open>Tool(pattern)\<close>, a tool name, or a bare glob.\<close>

definition entry_hits :: "safety_action \<Rightarrow> string list \<Rightarrow> string \<Rightarrow> bool" where
  "entry_hits action fs entry =
     (case parse_allow entry of
        Some (tool, Some pat) \<Rightarrow> tool = sa_toolName action \<and> list_ex (globMatch pat) fs
      | _ \<Rightarrow> entry = sa_toolName action \<or> list_ex (globMatch entry) fs)"

definition anyMatch :: "string list \<Rightarrow> safety_action \<Rightarrow> bool" where
  "anyMatch patterns action =
     (let subs = splitShellCommands (sa_command action); cmdParts = (if subs = [] then [sa_command action] else subs)
      in list_ex (entry_hits action cmdParts) patterns)"

datatype verb_led = VerbUnreadable | VerbSame | VerbForm string

definition verbLed :: "string \<Rightarrow> verb_led option" where
  "verbLed form =
     (let wds = split_ch (CHR '' '') form; tool = hd wds
      in if namesKuberc tool (tl wds) then Some VerbUnreadable
         else
           map_option
             (\<lambda>g. case g of
                None \<Rightarrow> VerbSame
              | Some s \<Rightarrow>
                  if given (sg_unknown s) \<noteq> None then VerbUnreadable
                  else if sg_globals s = [] then VerbSame
                  else VerbForm (join '' '' (tool # sg_rest s @ sg_globals s)))
             (splitGlobals tool (tl wds)))"

definition RANK :: "safety_class \<Rightarrow> nat" where
  "RANK c = (case c of MemoryClass \<Rightarrow> 0 | ReadOnlyClass \<Rightarrow> 1 | UnknownClass \<Rightarrow> 2 | MutativeClass \<Rightarrow> 3 | DestructiveClass \<Rightarrow> 4)"

definition CONTEXT_ONLY :: "string list" where
  "CONTEXT_ONLY = [''cd'', ''pushd'', ''popd'', ''export'', ''unset'', ''true'', ''false'', '':'', ''set'']"

definition defaultClass :: "safety_action \<Rightarrow> safety_class" where
  "defaultClass action =
     (if sa_memory action then MemoryClass else if sa_applies action then MutativeClass
      else if sa_readOnly action then ReadOnlyClass else UnknownClass)"

definition classifyForms :: "tool_classes \<Rightarrow> safety_action \<Rightarrow> string list \<Rightarrow> safety_class" where
  "classifyForms tc action fs =
     (if list_ex (entry_hits action fs) (tc_destructive tc) then DestructiveClass
      else if list_ex (entry_hits action fs) (tc_mutative tc) then MutativeClass
      else if list_ex (entry_hits action fs) (tc_readOnly tc) then ReadOnlyClass
      else defaultClass action)"

definition adds_nothing :: "shell_command \<Rightarrow> bool" where
  "adds_nothing c \<longleftrightarrow>
     command_forms c = [] \<or>
     (case first_form c of Some f \<Rightarrow> hd (split_ch (CHR '' '') f) \<in> set CONTEXT_ONLY | None \<Rightarrow> False)"

text \<open>The class of one simple command that adds to its line's class.\<close>

definition command_class :: "tool_classes \<Rightarrow> safety_action \<Rightarrow> shell_command \<Rightarrow> safety_class option" where
  "command_class tc action c =
     (if list_ex (\<lambda>f. invokedByPath (hd (split_ch (CHR '' '') f))) (sc_forms c) then Some DestructiveClass
      else
        map_option
          (\<lambda>canon. case canon of
             VerbUnreadable \<Rightarrow> DestructiveClass
           | VerbSame \<Rightarrow> classifyForms tc action (command_forms c)
           | VerbForm f \<Rightarrow> classifyForms tc action (command_forms c @ [f]))
          (verbLed (case sc_forms c of f # _ \<Rightarrow> f | [] \<Rightarrow> [])))"

definition worse :: "safety_class option \<Rightarrow> safety_class \<Rightarrow> safety_class option" where
  "worse worst cls = (case worst of None \<Rightarrow> Some cls | Some w \<Rightarrow> if RANK cls > RANK w then Some cls else Some w)"

fun worst_class :: "tool_classes \<Rightarrow> safety_action \<Rightarrow> safety_class option \<Rightarrow> shell_command list \<Rightarrow> safety_class option option" where
  "worst_class tc action worst [] = Some worst"
| "worst_class tc action worst (c # cs) =
     (if adds_nothing c then worst_class tc action worst cs
      else (case command_class tc action c of None \<Rightarrow> None | Some cls \<Rightarrow> worst_class tc action (worse worst cls) cs))"

definition listed_class :: "tool_classes \<Rightarrow> safety_action \<Rightarrow> safety_class" where
  "listed_class tc action =
     (if anyMatch (tc_mutative tc) action then MutativeClass
      else if anyMatch (tc_readOnly tc) action then ReadOnlyClass
      else defaultClass action)"

definition classifyAction :: "safety_policy \<Rightarrow> safety_action \<Rightarrow> safety_class option" where
  "classifyAction safety action =
     (let tc = sp_toolClasses safety
      in if anyMatch (tc_destructive tc) action then Some DestructiveClass
         else if sa_toolName action = ''Bash'' \<and> trim (sa_command action) \<noteq> [] then
           (let d = decomposeBash (sa_command action)
            in if dm_opaque d \<noteq> None then Some DestructiveClass
               else map_option (case_option (listed_class tc action) id) (worst_class tc action None (dm_commands d)))
         else Some (listed_class tc action))"

section \<open>The disposition\<close>

definition allowed :: safety_disposition where
  "allowed = \<lparr>sd_outcome = EnvelopeAllow, sd_reason = None, sd_detail = None\<rparr>"

definition park :: "safety_reason \<Rightarrow> string \<Rightarrow> safety_disposition" where
  "park r detail = \<lparr>sd_outcome = EnvelopePark, sd_reason = Some r, sd_detail = Some detail\<rparr>"

definition outside :: "string list option \<Rightarrow> string list option \<Rightarrow> bool" where
  "outside permitted named =
     (case (permitted, named) of (Some ps, Some ns) \<Rightarrow> \<not> list_all (\<lambda>n. n \<in> set ps) ns | _ \<Rightarrow> False)"

definition exceeds :: "int option \<Rightarrow> int option \<Rightarrow> bool" where
  "exceeds most n = (case (most, n) of (Some m, Some k) \<Rightarrow> k > m | _ \<Rightarrow> False)"

definition shown :: "int option \<Rightarrow> string" where
  "shown n = (case n of Some k \<Rightarrow> int_str k | None \<Rightarrow> [])"

definition over_the_edge :: "safety_policy \<Rightarrow> plan_signals \<Rightarrow> safety_disposition option" where
  "over_the_edge safety plan =
     (let br = sp_blastRadius safety; ceil = sp_costCeilingUsdMonth safety; scope = sp_outOfScopeAlways safety
      in if scope \<and> outside (br_accounts br) (sig_accounts plan) then Some (park OutOfEnvelope ''account not in allowlist'')
         else if scope \<and> outside (br_regions br) (sig_regions plan) then Some (park OutOfEnvelope ''region not in allowlist'')
         else if scope \<and> given (br_requireTag br) \<noteq> None \<and> sig_tagged plan = Some False then
           Some (park OutOfEnvelope (''missing required tag '' @ or_empty (br_requireTag br)))
         else if exceeds (br_maxResources br) (sig_resourceCount plan) then
           Some (park OverCeiling (shown (sig_resourceCount plan) @ '' resources > '' @ shown (br_maxResources br)))
         else if exceeds ceil (sig_costUsdMonth plan) then
           Some (park OverCeiling (''$'' @ shown (sig_costUsdMonth plan) @ ''/mo > $'' @ shown ceil))
         else None)"

definition no_plan :: "safety_eval_state \<Rightarrow> safety_disposition" where
  "no_plan state =
     \<lparr>sd_outcome = EnvelopeDeny, sd_reason = Some PolicyDenied,
      sd_detail =
        Some (''no reviewed plan artifact for this apply (preApply)'' @
              (case given (se_planDetail state) of Some d \<Rightarrow> '': '' @ d | None \<Rightarrow> []))\<rparr>"

definition evaluate_class :: "safety_policy \<Rightarrow> safety_action \<Rightarrow> safety_eval_state \<Rightarrow> safety_class \<Rightarrow> safety_disposition" where
  "evaluate_class safety action state cls =
     (if cls \<in> {ReadOnlyClass, MemoryClass, UnknownClass} then allowed
      else if se_hasRequiredInfo state = Some False then park MissingInfo ''required information is missing''
      else
        (case Option.bind (sa_plan action) (over_the_edge safety) of
           Some d \<Rightarrow> d
         | None \<Rightarrow>
             if sp_requirePlanArtifact safety \<and> se_planApproved state = Some False then no_plan state
             else if cls = DestructiveClass \<and> sp_destructiveAlways safety then
               park NeedsApprovalReason ''destructive action requires approval''
             else allowed))"

definition evaluateSafety :: "safety_policy \<Rightarrow> safety_action \<Rightarrow> safety_eval_state \<Rightarrow> safety_disposition option" where
  "evaluateSafety safety action state = map_option (evaluate_class safety action state) (classifyAction safety action)"

section \<open>The attempt trace\<close>

datatype trace_reason =
    EnvelopeReason safety_reason | HardDenyReason | DenyRuleReason | ModeRefused | ModeRefusedHeadless | UserDeclined | OutsideRoots
  | PolicyDeclined

datatype trace_disposition = Allowed | Denied | Parked

record attempt_trace_entry =
  at_tool :: string
  at_command :: string
  at_class :: safety_class
  at_disposition :: trace_disposition
  at_reason :: "trace_reason option"
  at_detail :: "string option"

definition DISPOSITION :: "safety_outcome \<Rightarrow> trace_disposition" where
  "DISPOSITION oc = (case oc of EnvelopeAllow \<Rightarrow> Allowed | EnvelopeDeny \<Rightarrow> Denied | EnvelopePark \<Rightarrow> Parked)"

definition toTraceEntry :: "safety_policy \<Rightarrow> safety_action \<Rightarrow> safety_disposition \<Rightarrow> attempt_trace_entry option" where
  "toTraceEntry safety action disp =
     map_option
       (\<lambda>cls. \<lparr>at_tool = sa_toolName action, at_command = sa_command action, at_class = cls,
               at_disposition = DISPOSITION (sd_outcome disp), at_reason = map_option EnvelopeReason (sd_reason disp),
               at_detail = given (sd_detail disp)\<rparr>)
       (classifyAction safety action)"

end
