(* ===== verification/PlanGate.thy ===== *)
theory PlanGate
  imports SafetyEnvelope
begin

text \<open>
  What the plan gate and the safety envelope promise: the flags of a line are read as the tool reads them and a value
  that could be read two ways is refused; an apply is approved only by the newest plan of its key; what is recorded and
  what is granted runs alone on its line; the worst command of a line decides its class; and the cascade never overrides
  the envelope.
\<close>

section \<open>The flags of a line as its tool reads them\<close>

text \<open>The tool's own reading: the flags in order, or why a word cannot be read.\<close>

function tool_flags :: "flag_spec \<Rightarrow> bool \<Rightarrow> string list \<Rightarrow> string + flag_hit list" where
  "tool_flags spec positionalOnly [] = Inr []"
| "tool_flags spec positionalOnly (w # wds) =
     (if positionalOnly \<or> \<not> isFlag w then tool_flags spec positionalOnly wds
      else if w = ''--'' then tool_flags spec True wds
      else
        (case readFlag spec w wds of
           Inl why \<Rightarrow> Inl why
         | Inr (flags, k) \<Rightarrow>
             map_sum id ((@) flags)
               (tool_flags spec False
                 (drop (if w = ''--dry-run'' \<and> drop k wds \<noteq> [] \<and> hd (drop k wds) \<in> set DRY_RUN_MODES then k + 1 else k) wds))))"
  by pat_completeness auto
termination by (relation "measure (\<lambda>(s, p, wds). length wds)") auto

declare tool_flags.simps [simp del]

definition given_values :: "flag_hit list \<Rightarrow> string \<Rightarrow> string list" where
  "given_values fs k = map fh_value (filter (\<lambda>f. fh_name f = k) fs)"

lemma given_values_simps [simp]:
  "given_values [] k = []"
  "given_values (f # fs) k = (if fh_name f = k then fh_value f # given_values fs k else given_values fs k)"
  "given_values (fs @ gs) k = given_values fs k @ given_values gs k"
  by (simp_all add: given_values_def)

definition at_most_one :: "flag_spec \<Rightarrow> canonical_flags \<Rightarrow> bool" where
  "at_most_one spec cf \<longleftrightarrow> (\<forall>k. k \<in> set (fs_repeatable spec) \<or> length (values_of (cf_values cf) k) \<le> 1)"

lemma values_of_set: "values_of (jmap_set k vs m) k' = (if k' = k then vs else values_of m k')"
  by (simp add: values_of_def jm.get_put)

definition add_flag :: "string list \<Rightarrow> flag_spec \<Rightarrow> flag_hit \<Rightarrow> canonical_flags \<Rightarrow> canonical_flags" where
  "add_flag dropped spec f cf =
     cf\<lparr>cf_values := jmap_set (fh_name f) (values_of (cf_values cf) (fh_name f) @ [fh_value f]) (cf_values cf),
        cf_keep := cf_keep cf @ (if fh_name f \<in> set dropped then [] else [(keyWord (flag_word spec ''--'' f), None)])\<rparr>"

lemma add_flags_Cons:
  "add_flags spec dropped (f # fs) cf =
     (if values_of (cf_values cf) (fh_name f) \<noteq> [] \<and> fh_name f \<notin> set (fs_repeatable spec)
      then cf\<lparr>cf_why := Some (''--'' @ fh_name f @ '' given more than once'')\<rparr>
      else add_flags spec dropped fs (add_flag dropped spec f cf))"
  by (simp add: add_flag_def Let_def add_flags.simps(2))

declare add_flags.simps(2) [simp del]

lemma add_flag_values:
  "values_of (cf_values (add_flag dropped spec f cf)) k = values_of (cf_values cf) k @ given_values [f] k"
  "cf_why (add_flag dropped spec f cf) = cf_why cf"
  by (simp_all add: add_flag_def values_of_set)

lemma add_flags_values:
  "cf_why (add_flags spec dropped fs cf) = None \<Longrightarrow>
     cf_why cf = None \<and> (\<forall>k. values_of (cf_values (add_flags spec dropped fs cf)) k = values_of (cf_values cf) k @ given_values fs k)"
proof (induction fs arbitrary: cf)
  case (Cons f fs)
  then have "cf_why (add_flags spec dropped fs (add_flag dropped spec f cf)) = None" by (auto simp: add_flags_Cons split: if_splits)
  moreover from Cons.prems have "add_flags spec dropped (f # fs) cf = add_flags spec dropped fs (add_flag dropped spec f cf)"
    by (auto simp: add_flags_Cons split: if_splits)
  ultimately show ?case using Cons.IH [of "add_flag dropped spec f cf"] by (simp add: add_flag_values)
qed simp

lemma add_flag_at_most_one:
  "at_most_one spec cf \<Longrightarrow> values_of (cf_values cf) (fh_name f) = [] \<or> fh_name f \<in> set (fs_repeatable spec) \<Longrightarrow>
     at_most_one spec (add_flag dropped spec f cf)"
  by (auto simp: at_most_one_def add_flag_values)

lemma at_most_one_same_values: "at_most_one spec cf \<Longrightarrow> cf_values cf' = cf_values cf \<Longrightarrow> at_most_one spec cf'"
  by (simp add: at_most_one_def)

lemma add_flags_at_most_one: "at_most_one spec cf \<Longrightarrow> at_most_one spec (add_flags spec dropped fs cf)"
proof (induction fs arbitrary: cf)
  case (Cons f fs)
  then show ?case
    by (auto simp: add_flags_Cons intro: Cons.IH add_flag_at_most_one at_most_one_same_values)
qed simp

lemma canonical_from_values:
  "cf_why (canonical_from spec dropped po i wds cf) = None \<Longrightarrow>
     \<exists>fs. tool_flags spec po wds = Inr fs \<and>
       (\<forall>k. values_of (cf_values (canonical_from spec dropped po i wds cf)) k = values_of (cf_values cf) k @ given_values fs k)"
proof (induction spec dropped po i wds cf rule: canonical_from.induct)
  case (1 spec dropped po i cf)
  then show ?case by (simp add: canonical_from.simps tool_flags.simps)
next
  case (2 spec dropped po i w wds cf)
  show ?case
  proof (cases "po \<or> \<not> isFlag w \<or> w = ''--''")
    case True
    with 2 show ?thesis by (auto simp: canonical_from.simps(2) tool_flags.simps(2) split: if_splits)
  next
    case False
    with "2.prems" obtain flags k where r: "readFlag spec w wds = Inr (flags, k)"
      by (auto simp: canonical_from.simps(2) split: sum.splits)
    with False "2.prems" have ok: "cf_why (add_flags spec dropped flags cf) = None"
      by (auto simp: canonical_from.simps(2) Let_def split: if_splits)
    with False r "2.prems" "2.IH"(3) [OF _ _ r refl refl refl] add_flags_values [OF ok] show ?thesis
      by (auto simp: canonical_from.simps(2) tool_flags.simps(2) Let_def)
  qed
qed

lemma canonical_from_at_most_one: "at_most_one spec cf \<Longrightarrow> at_most_one spec (canonical_from spec dropped po i wds cf)"
proof (induction spec dropped po i wds cf rule: canonical_from.induct)
  case (2 spec dropped po i w wds cf)
  have keep: "at_most_one spec (cf\<lparr>cf_keep := x\<rparr>)" "at_most_one spec (cf\<lparr>cf_why := y\<rparr>)" for x y
    using "2.prems" by (simp_all add: at_most_one_def)
  show ?case
  proof (cases "readFlag spec w wds")
    case (Inl why)
    with 2 keep show ?thesis by (auto simp: canonical_from.simps(2))
  next
    case (Inr fk)
    then obtain flags k where r: "readFlag spec w wds = Inr (flags, k)" by (cases fk) simp
    with 2 keep add_flags_at_most_one [OF "2.prems"] show ?thesis
      by (auto simp: canonical_from.simps(2) Let_def)
  qed
qed (simp add: canonical_from.simps)

text \<open>The canonical form of a line refines the tool's own reading of it: when the gate can read a line, every flag
  has exactly the values the tool reads, in order, and a flag that does not accumulate has only one, so the value
  the reviewer reads first is the one the tool uses last.\<close>

theorem canonical_refines_tool:
  assumes "cf_why (canonicalFlags spec wds dropped) = None"
  shows "\<exists>fs. tool_flags spec False wds = Inr fs \<and>
           (\<forall>k. values_of (cf_values (canonicalFlags spec wds dropped)) k = given_values fs k \<and>
                (k \<in> set (fs_repeatable spec) \<or> length (given_values fs k) \<le> 1))"
proof -
  from canonical_from_values [OF assms [unfolded canonicalFlags_def]] obtain fs
    where fs: "tool_flags spec False wds = Inr fs"
      "\<And>k. values_of (cf_values (canonicalFlags spec wds dropped)) k = given_values fs k"
    by (auto simp: canonicalFlags_def no_flags_def values_of_def)
  have "at_most_one spec (canonicalFlags spec wds dropped)"
    unfolding canonicalFlags_def by (rule canonical_from_at_most_one) (simp add: at_most_one_def no_flags_def values_of_def)
  with fs show ?thesis by (auto simp: at_most_one_def)
qed

theorem canonical_refines_tool_witness:
  "\<exists>fs. tool_flags KUBE False [''-nprod'', ''apply'', ''-f'', ''a.yaml''] = Inr fs \<and>
     (\<forall>k. values_of (cf_values (canonicalFlags KUBE [''-nprod'', ''apply'', ''-f'', ''a.yaml''] KUBE_DROP)) k = given_values fs k \<and>
          (k \<in> set (fs_repeatable KUBE) \<or> length (given_values fs k) \<le> 1))"
  by (rule canonical_refines_tool) code_simp

section \<open>Approval\<close>

lemma newest_in: "newest a as \<in> set (a # as)"
proof (induction as arbitrary: a)
  case (Cons b bs)
  from Cons [of a] Cons [of b] show ?case by (auto split: if_splits)
qed simp

lemma string_gt_trans: "string_gt a b \<Longrightarrow> string_gt b c \<Longrightarrow> string_gt a c"
proof (induction a b arbitrary: c rule: string_gt.induct)
  case (3 x xs y ys)
  then show ?case by (cases c) auto
qed auto

lemma string_gt_irrefl: "\<not> string_gt a a"
  by (induction a) auto

lemma not_gt_trans: "\<not> string_gt b a \<Longrightarrow> \<not> string_gt c b \<Longrightarrow> \<not> string_gt c a"
proof (induction c a arbitrary: b rule: string_gt.induct)
  case (2 x xs)
  then show ?case by (cases b) auto
next
  case (3 x xs y ys)
  then show ?case by (cases b) auto
qed auto

lemma newest_is_newest: "b \<in> set (a # as) \<Longrightarrow> \<not> string_gt (pa_at b) (pa_at (newest a as))"
proof (induction as arbitrary: a b)
  case (Cons c cs)
  let ?m = "if string_gt (pa_at a) (pa_at c) then a else c"
  have m: "\<not> string_gt (pa_at ?m) (pa_at (newest ?m cs))" using Cons.IH [of ?m ?m] by simp
  show ?case
  proof (cases "b \<in> set cs")
    case True
    with Cons.IH [of b ?m] show ?thesis by simp
  next
    case False
    with Cons.prems have "b = a \<or> b = c" by auto
    then have "\<not> string_gt (pa_at b) (pa_at ?m)"
      using string_gt_irrefl string_gt_trans [of "pa_at a" "pa_at c" "pa_at a"] by auto
    from not_gt_trans [OF m this] show ?thesis by simp
  qed
qed (simp add: string_gt_irrefl)

lemma field_mismatch_None:
  "field_mismatch plan now fs = None \<Longrightarrow> f \<in> set fs \<Longrightarrow> member (pa_fields plan) f = member now f \<and> member now f \<noteq> Absent"
  by (induction fs) (auto simp: Let_def split: if_splits)

text \<open>C2 approved_only_by_newest_plan. An apply is approved only by a plan recorded in the run for the same tool, target and directory, agreeing with
  it on every hash field the profile names, none of them unknown on either side; and no plan of that key is newer.\<close>

theorem approved_only_by_newest_plan:
  assumes "pm_approved (matchPlan artifacts tool target cwd now hashFields)"
  shows "\<exists>plan \<in> set artifacts.
           pm_matched (matchPlan artifacts tool target cwd now hashFields) = Some plan \<and>
           pa_tool plan = tool \<and> pa_target plan = target \<and> pa_cwd plan = cwd \<and>
           (\<forall>f \<in> set hashFields. member (pa_fields plan) f = member now f \<and> member now f \<noteq> Absent) \<and>
           (\<forall>a \<in> set artifacts. pa_tool a = tool \<and> pa_target a = target \<and> pa_cwd a = cwd \<longrightarrow> \<not> string_gt (pa_at a) (pa_at plan))"
proof -
  let ?same = "\<lambda>a. pa_tool a = tool \<and> pa_target a = target \<and> pa_cwd a = cwd"
  from assms obtain a as where as: "filter ?same artifacts = a # as"
    by (auto simp: matchPlan_def split: list.splits)
  with assms have f: "field_mismatch (newest a as) now hashFields = None"
    by (auto simp: matchPlan_def Let_def split: option.splits)
  have same: "set (a # as) = {x \<in> set artifacts. ?same x}" using as by (metis set_filter)
  with newest_in [of a as] have n: "newest a as \<in> set artifacts" "?same (newest a as)" by auto
  moreover have "\<not> string_gt (pa_at b) (pa_at (newest a as))" if "b \<in> set artifacts" "?same b" for b
    using newest_is_newest [of b a as] same that by blast
  moreover have "pm_matched (matchPlan artifacts tool target cwd now hashFields) = Some (newest a as)"
    using as f by (simp add: matchPlan_def Let_def)
  ultimately show ?thesis using field_mismatch_None [OF f] by blast
qed

definition sample_plan :: "string \<Rightarrow> string \<Rightarrow> plan_artifact" where
  "sample_plan day digest =
     \<lparr>pa_at = day, pa_tool = ''kubectl'', pa_target = ''ns=prod apply --filename=a.yaml'', pa_cwd = ''/w'',
      pa_command = ''kubectl -n prod diff -f a.yaml'', pa_fields = [(''plan'', digest), (''identity'', ''dev'')], pa_outputHash = None\<rparr>"

theorem approved_only_by_newest_plan_witness:
  "let artifacts = [sample_plan ''2026-01-01'' ''old'', sample_plan ''2026-01-02'' ''h1'']; now = [(''plan'', ''h1''), (''identity'', ''dev'')]
   in \<exists>plan \<in> set artifacts.
        pm_matched (matchPlan artifacts ''kubectl'' ''ns=prod apply --filename=a.yaml'' ''/w'' now [''plan'', ''identity'']) = Some plan \<and>
        pa_fields plan = now"
proof -
  have "pm_approved (matchPlan [sample_plan ''2026-01-01'' ''old'', sample_plan ''2026-01-02'' ''h1''] ''kubectl''
          ''ns=prod apply --filename=a.yaml'' ''/w'' [(''plan'', ''h1''), (''identity'', ''dev'')] [''plan'', ''identity''])"
    by code_simp
  from approved_only_by_newest_plan [OF this] show ?thesis
    by (auto simp: sample_plan_def member_def Let_def)
qed

section \<open>The line\<close>

lemma fail_unreadable [simp]: "ls_unreadable (fail why st) \<noteq> None"
  by (auto simp: fail_def split: option.splits)

lemma nested_steps [simp]: "ls_steps (nested kind what seen st) = ls_steps st"
  by (simp add: nested_def fail_def split: option.splits)

lemma nested_clear:
  "ls_unreadable (nested kind what seen st) = None \<Longrightarrow>
     ls_unreadable st = None \<and> count_kind kind seen \<le> count_kind kind (map ps_pc (ls_steps st))"
  using fail_unreadable [of "what @ '' inside a nested shell or substitution''" st] by (auto simp: nested_def split: if_splits)

lemma count_kind_Nil [simp]: "count_kind kind [] = 0"
  by (simp add: count_kind_def)

lemma line_end_steps [simp]: "ls_steps (line_end d st) = ls_steps st"
  by (simp add: line_end_def)

lemma planLine_cases:
  assumes "planLine command cwd = Some line"
  obtains form where "dm_opaque (decomposeBash command) = Some form" "pl_unreadable line \<noteq> None" "pl_recordable line = None"
  | st where "dm_opaque (decomposeBash command) = None" "line = line_result command (decomposeBash command) (line_end (decomposeBash command) st)"
proof (cases "dm_opaque (decomposeBash command)")
  case (Some form)
  with assms that(1) [OF Some] show ?thesis by (auto simp: planLine_def Let_def)
next
  case None
  with assms that(2) [OF None] show ?thesis by (auto simp: planLine_def Let_def split: Option.bind_splits)
qed

lemma line_end_counts:
  assumes "pl_unreadable (line_result command d (line_end d st)) = None"
  shows "count_kind kind (seen_commands d) \<le> count_kind kind (map ps_pc (ls_steps st))"
proof (cases "seen_commands d = []")
  case False
  with assms have "ls_unreadable (line_end d st) = None" by (simp add: line_result_def Let_def)
  then show ?thesis unfolding line_end_def by (cases kind) (auto dest!: nested_clear)
qed simp

text \<open>C3 every_apply_is_counted. A line the gate calls readable decomposes fully, and has at least as many applies (and dry runs) with a
  known directory and environment as the decomposer sees run at any depth: an apply inside a nested shell or a
  substitution makes the line unreadable unless something else on the line is read as one.\<close>

theorem every_apply_is_counted:
  assumes "planLine command cwd = Some line" "pl_unreadable line = None"
  shows "dm_opaque (decomposeBash command) = None \<and>
         count_kind kind (seen_commands (decomposeBash command)) \<le> count_kind kind (map ps_pc (pl_steps line))"
  using assms by (elim planLine_cases) (auto simp: line_result_def Let_def intro: line_end_counts)

definition kube_cmd :: "string \<Rightarrow> plan_command" where
  "kube_cmd f =
     (plan_cmd Apply ''kubectl'' (''apply --filename='' @ f) [f])
       \<lparr>pc_bin := ''kubectl'', pc_kube := Some \<lparr>ks_kubeconfig = None, ks_context = None, ks_cluster = None, ks_user = None\<rparr>\<rparr>"

definition change_line :: string where
  "change_line = ''cd /srv && kubectl apply -f a.yaml && kubectl rollout status deploy/x''"

lemma change_line_reads:
  "planLine change_line ''/w'' =
     Some \<lparr>pl_steps = [\<lparr>ps_pc = kube_cmd ''a.yaml'', ps_cwd = ''/srv'', ps_env = []\<rparr>], pl_unreadable = None, pl_recordable = None\<rparr>"
  by code_simp

theorem every_apply_is_counted_witness:
  "count_kind Apply (seen_commands (decomposeBash change_line)) \<le> 1"
  using every_apply_is_counted [OF change_line_reads, of Apply] by (simp add: count_kind_def kube_cmd_def plan_cmd_def)

text \<open>The count is no match: an apply in a nested shell and another in a comment make a line that the gate reads as
  the one in the comment, while the decomposer sees only the nested one run.  With the commented change reviewed,
  the gate admits the line, and grants it the kubernetes capability.\<close>

definition evil_line :: string where
  "evil_line = ''sh -c '' @ [squote] @ ''kubectl apply -f evil.yaml'' @ [squote] @ '' # ; kubectl apply -f reviewed.yaml''"

lemma evil_line_reads:
  "planLine evil_line ''/w'' =
     Some \<lparr>pl_steps = [\<lparr>ps_pc = kube_cmd ''reviewed.yaml'', ps_cwd = ''/w'', ps_env = []\<rparr>], pl_unreadable = None, pl_recordable = None\<rparr>"
  by code_simp

theorem comment_hides_apply:
  "\<exists>line step.
     planLine evil_line ''/w'' = Some line \<and> pl_unreadable line = None \<and> map ps_pc (pl_steps line) = [kube_cmd ''reviewed.yaml''] \<and>
     map sc_forms (dm_commands (decomposeBash evil_line)) = [[''kubectl apply -f evil.yaml'']] \<and>
     soleKubeApply evil_line ''/w'' = Some (Some step) \<and> ps_pc step = kube_cmd ''reviewed.yaml''"
proof -
  have "map sc_forms (dm_commands (decomposeBash evil_line)) = [[''kubectl apply -f evil.yaml'']]" by code_simp
  moreover have "soleKubeApply evil_line ''/w'' = Some (Some \<lparr>ps_pc = kube_cmd ''reviewed.yaml'', ps_cwd = ''/w'', ps_env = []\<rparr>)"
    by code_simp
  ultimately show ?thesis using evil_line_reads by simp
qed

text \<open>So is a dry run: the plan of the commented command is recorded when only the nested one has run.\<close>

definition evil_diff :: string where
  "evil_diff = ''sh -c '' @ [squote] @ ''kubectl diff -f evil.yaml'' @ [squote] @ '' # ; kubectl diff -f reviewed.yaml''"

theorem comment_hides_dry_run:
  "\<exists>line step.
     planLine evil_diff ''/w'' = Some line \<and> pl_recordable line = Some step \<and> ps_pc step = (kube_cmd ''reviewed.yaml'')\<lparr>pc_kind := Plan\<rparr> \<and>
     map sc_forms (dm_commands (decomposeBash evil_diff)) = [[''kubectl diff -f evil.yaml'']]"
proof -
  have "map sc_forms (dm_commands (decomposeBash evil_diff)) = [[''kubectl diff -f evil.yaml'']]" by code_simp
  moreover have "Option.bind (planLine evil_diff ''/w'') pl_recordable = Some \<lparr>ps_pc = (kube_cmd ''reviewed.yaml'')\<lparr>pc_kind := Plan\<rparr>, ps_cwd = ''/w'', ps_env = []\<rparr>"
    by code_simp
  ultimately show ?thesis by (cases "planLine evil_diff ''/w''") auto
qed

text \<open>The identity that leads a key is not quoted as the words of the change are: a command against a context whose
  name contains a space has the key of a command against another context with another user, so the plan of one
  matches the apply of the other when the profile hashes nothing that tells them apart.\<close>

theorem identity_key_collides:
  "\<exists>pc pc'.
     classifyPlanCommand (''kubectl --context '' @ [dquote] @ ''dev user=admin'' @ [dquote] @ '' apply --dry-run=server -f a.yaml'') = Some pc \<and>
     classifyPlanCommand ''kubectl --context dev --user admin apply -f a.yaml'' = Some pc' \<and>
     pc_kind pc = Plan \<and> pc_kind pc' = Apply \<and> pc_tool pc = pc_tool pc' \<and> pc_target pc = pc_target pc' \<and> pc_inputs pc = pc_inputs pc' \<and>
     map_option ks_context (pc_kube pc) \<noteq> map_option ks_context (pc_kube pc')"
proof -
  let ?sel = "\<lambda>c u. Some \<lparr>ks_kubeconfig = None, ks_context = Some c, ks_cluster = None, ks_user = u\<rparr>"
  let ?cmd = "\<lambda>kind. (plan_cmd kind ''kubectl'' ''ctx=dev user=admin apply --filename=a.yaml'' [''a.yaml''])\<lparr>pc_bin := ''kubectl''\<rparr>"
  have "classifyPlanCommand (''kubectl --context '' @ [dquote] @ ''dev user=admin'' @ [dquote] @ '' apply --dry-run=server -f a.yaml'') =
          Some ((?cmd Plan)\<lparr>pc_kube := ?sel ''dev user=admin'' None\<rparr>)" by code_simp
  moreover have "classifyPlanCommand ''kubectl --context dev --user admin apply -f a.yaml'' =
          Some ((?cmd Apply)\<lparr>pc_kube := ?sel ''dev'' (Some ''admin'')\<rparr>)" by code_simp
  ultimately show ?thesis by (simp add: plan_cmd_def)
qed

text \<open>A dry run is recorded only from a line the gate reads, on which the decomposer sees no apply: it is the line's
  only dry run and its last command, in the foreground, and what runs before it only sets the line's context.\<close>

theorem recorded_plan_runs_last:
  assumes "planLine command cwd = Some line" "pl_recordable line = Some step"
  shows "step \<in> set (pl_steps line) \<and> pc_kind (ps_pc step) = Plan \<and>
         count_kind Plan (map ps_pc (pl_steps line)) = 1 \<and>
         count_kind Apply (seen_commands (decomposeBash command)) = 0 \<and> \<not> backgrounded command \<and>
         (\<exists>before_it final pc. dm_commands (decomposeBash command) = before_it @ [final] \<and> list_all runs_nothing before_it \<and>
            form_command final = Some pc \<and> pc_kind pc = Plan)"
proof -
  let ?d = "decomposeBash command"
  from assms obtain st where l: "pl_steps line = ls_steps st" "pl_recordable line = recordable_step command ?d (seen_commands ?d) st"
    by (elim planLine_cases) (auto simp: line_result_def Let_def simp del: line_end_steps)
  let ?plans = "filter (\<lambda>s. pc_kind (ps_pc s) = Plan) (ls_steps st)"
  from l assms(2) have r: "\<not> backgrounded command" "list_all runs_nothing (butlast (dm_commands ?d))" "length ?plans = 1"
    "count_kind Apply (seen_commands ?d) = 0" "step = hd ?plans"
    "map_option pc_kind (if dm_commands ?d = [] then None else form_command (last (dm_commands ?d))) = Some Plan"
    by (auto simp: recordable_step_def Let_def split: if_splits)
  from r(3,5) have "?plans = [step]" by (cases ?plans) auto
  then have "step \<in> set ?plans" by simp
  then have s: "step \<in> set (pl_steps line)" "pc_kind (ps_pc step) = Plan" using l by simp_all
  have "count_kind Plan (map ps_pc (pl_steps line)) = 1"
    using r(3) l by (simp add: count_kind_def filter_map comp_def)
  moreover from r(6) obtain pc where "dm_commands ?d \<noteq> []" "form_command (last (dm_commands ?d)) = Some pc" "pc_kind pc = Plan"
    by (auto split: if_splits)
  then have "\<exists>before_it final pc. dm_commands ?d = before_it @ [final] \<and> list_all runs_nothing before_it \<and> form_command final = Some pc \<and> pc_kind pc = Plan"
    using r(2) append_butlast_last_id by metis
  ultimately show ?thesis using r s by blast
qed

definition diff_line :: string where "diff_line = ''cd /srv && kubectl diff -f a.yaml''"

lemma diff_line_reads:
  "planLine diff_line ''/w'' =
     Some \<lparr>pl_steps = [\<lparr>ps_pc = (kube_cmd ''a.yaml'')\<lparr>pc_kind := Plan\<rparr>, ps_cwd = ''/srv'', ps_env = []\<rparr>], pl_unreadable = None,
           pl_recordable = Some \<lparr>ps_pc = (kube_cmd ''a.yaml'')\<lparr>pc_kind := Plan\<rparr>, ps_cwd = ''/srv'', ps_env = []\<rparr>\<rparr>"
  by code_simp

theorem recorded_plan_runs_last_witness:
  "count_kind Apply (seen_commands (decomposeBash diff_line)) = 0"
  using recorded_plan_runs_last [OF diff_line_reads, of "\<lparr>ps_pc = (kube_cmd ''a.yaml'')\<lparr>pc_kind := Plan\<rparr>, ps_cwd = ''/srv'', ps_env = []\<rparr>"]
  by simp

lemma filter_set_eq_single: "filter P xs = [y] \<Longrightarrow> x \<in> set xs \<Longrightarrow> P x \<Longrightarrow> x = y"
  by (metis (mono_tags) empty_iff filter_eq_Cons_iff in_set_conv_decomp set_ConsD filter_set list.set(1) mem_Collect_eq set_filter)

lemma some_js_False: "some_js f xs = Some False \<Longrightarrow> x \<in> set xs \<Longrightarrow> f x = Some False"
  by (induction xs) (auto split: Option.bind_splits if_splits)

lemma every_js_True: "every_js f xs = Some True \<Longrightarrow> x \<in> set xs \<Longrightarrow> f x = Some True"
  unfolding every_js_def by (auto dest!: some_js_False)

text \<open>A line is granted the kubernetes capability only when every command it runs is its one change or a kubernetes
  read, the change starts no other program, and none of them leaves the governed kubeconfig.\<close>

theorem sole_kube_apply_alone:
  assumes "soleKubeApply command cwd = Some (Some step)" "c \<in> set (running_commands (decomposeBash command))"
  shows "(is_change c \<and> spawnsProgram (hd (sc_forms c)) = Some None \<or> kubeRead (hd (sc_forms c)) = Some True) \<and>
         leavesGovernedKubeconfig (hd (sc_forms c)) (ps_env step) = Some None"
proof -
  let ?running = "running_commands (decomposeBash command)"
  from assms(1) obtain change where ch: "filter is_change ?running = [change]" "spawnsProgram (hd (sc_forms change)) = Some None"
      "some_js (\<lambda>c. map_option (\<lambda>r. r \<noteq> None) (leavesGovernedKubeconfig (hd (sc_forms c)) (ps_env step))) ?running = Some False"
      "every_js (\<lambda>c. if is_change c then Some True else kubeRead (hd (sc_forms c))) ?running = Some True"
    by (auto simp: soleKubeApply_def Let_def split: if_splits Option.bind_splits list.splits option.splits)
  have "is_change c \<Longrightarrow> c = change" using ch(1) assms(2) by (metis (mono_tags) filter_set_eq_single)
  with ch every_js_True [OF ch(4) assms(2)] some_js_False [OF ch(3) assms(2)] show ?thesis by (auto split: if_splits)
qed

theorem sole_kube_apply_alone_witness:
  "kubeRead ''kubectl rollout status deploy/x'' = Some True"
proof -
  have s: "soleKubeApply change_line ''/w'' = Some (Some \<lparr>ps_pc = kube_cmd ''a.yaml'', ps_cwd = ''/srv'', ps_env = []\<rparr>)"
    by code_simp
  have "last (running_commands (decomposeBash change_line)) \<in> set (running_commands (decomposeBash change_line))" by code_simp
  from sole_kube_apply_alone [OF s this]
  have "is_change (last (running_commands (decomposeBash change_line))) \<or>
        kubeRead (hd (sc_forms (last (running_commands (decomposeBash change_line))))) = Some True" by blast
  moreover have "\<not> is_change (last (running_commands (decomposeBash change_line)))" by code_simp
  moreover have "hd (sc_forms (last (running_commands (decomposeBash change_line)))) = ''kubectl rollout status deploy/x''" by code_simp
  ultimately show ?thesis by simp
qed

section \<open>The envelope\<close>

lemma RANK_worse: "worse w cls = Some k \<Longrightarrow> RANK cls \<le> RANK k \<and> (\<forall>v. w = Some v \<longrightarrow> RANK v \<le> RANK k)"
  by (auto simp: worse_def split: option.splits if_splits)

lemma worse_Some: "\<exists>k. worse w cls = Some k"
  by (auto simp: worse_def split: option.splits)

lemma worst_class_grows: "worst_class tc action (Some w) cs = Some r \<Longrightarrow> \<exists>k. r = Some k \<and> RANK w \<le> RANK k"
proof (induction cs arbitrary: w)
  case (Cons c cs)
  show ?case
  proof (cases "adds_nothing c")
    case False
    with Cons.prems obtain cls where c: "worst_class tc action (worse (Some w) cls) cs = Some r" by (auto split: option.splits)
    obtain v where v: "worse (Some w) cls = Some v" using worse_Some by blast
    with Cons.IH c obtain k where "r = Some k" "RANK v \<le> RANK k" by auto
    moreover have "RANK w \<le> RANK v" using RANK_worse [OF v] by simp
    ultimately show ?thesis by auto
  qed (use Cons in auto)
qed auto

lemma worst_class_bounds:
  assumes "worst_class tc action w cs = Some r" "c \<in> set cs" "\<not> adds_nothing c"
  shows "\<exists>cls k. command_class tc action c = Some cls \<and> r = Some k \<and> RANK cls \<le> RANK k"
  using assms
proof (induction cs arbitrary: w)
  case (Cons d ds)
  show ?case
  proof (cases "adds_nothing d")
    case True
    with Cons show ?thesis by auto
  next
    case False
    with Cons.prems(1) obtain cls where d: "command_class tc action d = Some cls" "worst_class tc action (worse w cls) ds = Some r"
      by (auto split: option.splits)
    show ?thesis
    proof (cases "c = d")
      case True
      obtain k where k: "worse w cls = Some k" using worse_Some by blast
      with d RANK_worse [OF k] worst_class_grows [of tc action k ds r] True show ?thesis by (auto dest: order_trans)
    qed (use Cons d in auto)
  qed
qed simp


definition sample_policy :: safety_policy where
  "sample_policy =
     \<lparr>sp_toolClasses =
        \<lparr>tc_readOnly = [''Bash(kubectl get*)''], tc_mutative = [''Bash(kubectl apply*)''], tc_destructive = [''Bash(kubectl delete*)'']\<rparr>,
      sp_requirePlanArtifact = True, sp_hash = [''plan''],
      sp_blastRadius = \<lparr>br_maxResources = Some 10, br_accounts = None, br_regions = None, br_requireTag = None\<rparr>,
      sp_destructiveAlways = True, sp_outOfScopeAlways = True, sp_costCeilingUsdMonth = None\<rparr>"

definition bash_action :: "string \<Rightarrow> safety_action" where
  "bash_action c =
     \<lparr>sa_toolName = ''Bash'', sa_command = c, sa_readOnly = False, sa_applies = False, sa_infra = False, sa_memory = False, sa_plan = None\<rparr>"

definition masked_delete :: string where
  "masked_delete = ''kubectl get pods; sh -c '' @ [squote] @ ''kubectl -n prod delete ns x'' @ [squote]"


definition gated_class :: "safety_class \<Rightarrow> bool" where
  "gated_class cls \<longleftrightarrow> cls = MutativeClass \<or> cls = DestructiveClass"

text \<open>
  The envelope as it is declared, for a change of a class: the information is there; the accounts and regions the plan names are among those permitted and its
  tag is not missing, where being out of scope always stops; no more resources than the limit and no more cost than the ceiling; a reviewed plan where one is required;
  and no destructive change where that always stops.
\<close>

definition within_limit :: "int option \<Rightarrow> int option \<Rightarrow> bool" where
  "within_limit limit n \<longleftrightarrow> (\<forall>m k. limit = Some m \<and> n = Some k \<longrightarrow> k \<le> m)"

definition among :: "string list option \<Rightarrow> string list option \<Rightarrow> bool" where
  "among permitted named \<longleftrightarrow> (\<forall>ps ns. permitted = Some ps \<and> named = Some ns \<longrightarrow> set ns \<subseteq> set ps)"

definition inside_envelope :: "safety_policy \<Rightarrow> safety_action \<Rightarrow> safety_eval_state \<Rightarrow> safety_class \<Rightarrow> bool" where
  "inside_envelope safety action state cls \<longleftrightarrow>
     se_hasRequiredInfo state \<noteq> Some False \<and>
     (\<forall>plan. sa_plan action = Some plan \<longrightarrow>
        (sp_outOfScopeAlways safety \<longrightarrow>
           among (br_accounts (sp_blastRadius safety)) (sig_accounts plan) \<and>
           among (br_regions (sp_blastRadius safety)) (sig_regions plan) \<and>
           (\<forall>t. br_requireTag (sp_blastRadius safety) = Some t \<and> t \<noteq> [] \<longrightarrow> sig_tagged plan \<noteq> Some False)) \<and>
        within_limit (br_maxResources (sp_blastRadius safety)) (sig_resourceCount plan) \<and>
        within_limit (sp_costCeilingUsdMonth safety) (sig_costUsdMonth plan)) \<and>
     (sp_requirePlanArtifact safety \<longrightarrow> se_planApproved state \<noteq> Some False) \<and>
     (cls = DestructiveClass \<longrightarrow> \<not> sp_destructiveAlways safety)"

lemma outside_among: "outside permitted named \<longleftrightarrow> \<not> among permitted named"
  by (auto simp: outside_def among_def list_all_iff split: option.splits)

lemma exceeds_limit: "exceeds limit n \<longleftrightarrow> \<not> within_limit limit n"
  by (auto simp: exceeds_def within_limit_def split: option.splits)

lemma given_text: "given t \<noteq> None \<longleftrightarrow> (\<exists>s. t = Some s \<and> s \<noteq> [])"
  by (cases t) (auto simp: given_def)

lemma over_the_edge_parks: "over_the_edge safety plan = Some d \<Longrightarrow> sd_outcome d = EnvelopePark"
  by (auto simp: over_the_edge_def park_def Let_def split: if_splits)

lemma over_the_edge_None:
  "over_the_edge safety plan = None \<longleftrightarrow>
     (sp_outOfScopeAlways safety \<longrightarrow>
        among (br_accounts (sp_blastRadius safety)) (sig_accounts plan) \<and>
        among (br_regions (sp_blastRadius safety)) (sig_regions plan) \<and>
        (\<forall>t. br_requireTag (sp_blastRadius safety) = Some t \<and> t \<noteq> [] \<longrightarrow> sig_tagged plan \<noteq> Some False)) \<and>
     within_limit (br_maxResources (sp_blastRadius safety)) (sig_resourceCount plan) \<and>
     within_limit (sp_costCeilingUsdMonth safety) (sig_costUsdMonth plan)"
  unfolding over_the_edge_def Let_def outside_among exceeds_limit given_text by auto

lemma evaluate_inside:
  assumes "gated_class cls"
  shows "sd_outcome (evaluate_class safety action state cls) = EnvelopeAllow \<longleftrightarrow> inside_envelope safety action state cls"
proof -
  have g: "cls \<notin> {ReadOnlyClass, MemoryClass, UnknownClass}" using assms by (auto simp: gated_class_def)
  show ?thesis
  proof (cases "Option.bind (sa_plan action) (over_the_edge safety)")
    case None
    then have "\<forall>plan. sa_plan action = Some plan \<longrightarrow> over_the_edge safety plan = None" by (cases "sa_plan action") auto
    then show ?thesis using g None unfolding inside_envelope_def over_the_edge_None [symmetric]
      by (auto simp: evaluate_class_def park_def no_plan_def allowed_def)
  next
    case (Some d)
    then obtain plan where plan: "sa_plan action = Some plan" "over_the_edge safety plan = Some d" by (cases "sa_plan action") auto
    then have "\<not> inside_envelope safety action state cls" using over_the_edge_None [of safety plan] unfolding inside_envelope_def by auto
    then show ?thesis using g Some over_the_edge_parks [OF plan(2)] by (simp add: evaluate_class_def park_def)
  qed
qed


definition planned_action :: "string \<Rightarrow> plan_signals \<Rightarrow> safety_action" where
  "planned_action c plan = (bash_action c)\<lparr>sa_plan := Some plan\<rparr>"

definition abroad :: plan_signals where
  "abroad = \<lparr>sig_resourceCount = Some 3, sig_accounts = None, sig_regions = Some [''eu-west-1'', ''us-east-1''], sig_costUsdMonth = None, sig_tagged = None\<rparr>"

definition european_policy :: safety_policy where
  "european_policy =
     sample_policy\<lparr>sp_blastRadius := \<lparr>br_maxResources = Some 10, br_accounts = None, br_regions = Some [''eu-west-1''], br_requireTag = None\<rparr>\<rparr>"


text \<open>C19 edge_is_never_crossed. Composed with the permission cascade: when the host's envelope is this evaluator on the action it makes of a request, a request whose change is
  outside the declared envelope, for any of its edges and for any tool, is not allowed by any mode, allow rule or default.\<close>

theorem edge_is_never_crossed:
  assumes "cfg_safety config = Some (\<lambda>r. evaluateSafety safety (action_of r) state)"
    "classifyAction safety (action_of req) = Some cls" "gated_class cls" "\<not> inside_envelope safety (action_of req) state cls"
  shows "\<not> is_allow (createPolicy config req)"
proof -
  have "sd_outcome (evaluate_class safety (action_of req) state cls) \<noteq> EnvelopeAllow" using evaluate_inside [OF assms(3)] assms(4) by simp
  moreover have "evaluateSafety safety (action_of req) state = Some (evaluate_class safety (action_of req) state cls)"
    using assms(2) by (simp add: evaluateSafety_def)
  ultimately have env: "\<exists>e. envelope_decides config u req = Some e \<and> \<not> is_allow e" for u
    using assms(1) by (cases "sd_outcome (evaluate_class safety (action_of req) state cls)") (simp_all add: envelope_decides_def)
  show ?thesis
  proof (cases "deny_rules (cfg_deny config) None req")
    case (Inl e)
    with deny_rules_Inl [OF this] show ?thesis by (simp add: createPolicy_def split: option.splits)
  next
    case (Inr u)
    with env [of u] show ?thesis by (auto simp: createPolicy_def split: option.splits)
  qed
qed

theorem edge_is_never_crossed_witness:
  "\<not> is_allow (createPolicy
     \<lparr>cfg_mode = Autopilot, cfg_allow = [''Bash''], cfg_deny = [],
      cfg_safety = Some (\<lambda>req. evaluateSafety european_policy (planned_action (command_of req) abroad)
                           \<lparr>se_planApproved = Some True, se_planDetail = None, se_hasRequiredInfo = None\<rparr>)\<rparr>
     (bash_call ''kubectl -n prod apply -f a.yaml''))"
proof (rule edge_is_never_crossed [where action_of = "\<lambda>req. planned_action (command_of req) abroad"])
  show "classifyAction european_policy (planned_action (command_of (bash_call ''kubectl -n prod apply -f a.yaml'')) abroad) = Some MutativeClass" by code_simp
  show "gated_class MutativeClass" by (simp add: gated_class_def)
  have "\<not> among (Some [''eu-west-1'']) (Some [''eu-west-1'', ''us-east-1''])" by (auto simp: among_def)
  then show "\<not> inside_envelope european_policy (planned_action (command_of (bash_call ''kubectl -n prod apply -f a.yaml'')) abroad)
      \<lparr>se_planApproved = Some True, se_planDetail = None, se_hasRequiredInfo = None\<rparr> MutativeClass"
    by (simp add: inside_envelope_def planned_action_def european_policy_def sample_policy_def abroad_def)
qed simp

end
