(* ===== verification/Redact.thy ===== *)
theory Redact
  imports Protocol
begin

text \<open>
  \<open>obs/redact.ts\<close>: the registered secrets (a map from the value to its label) and the redaction every
  tool result passes; and the result a tool call has (\<open>tools/types.ts\<close>).  The lemmas show that replacing
  the secrets one after another leaves none of them, whatever the text, when no secret can arise
  from the marks themselves.
\<close>

section \<open>Texts and their parts\<close>

text \<open>\<open>s.includes(v)\<close> and \<open>s.split(v)\<close> for a separator that is not empty.\<close>

abbreviation contains :: "string \<Rightarrow> string \<Rightarrow> bool" where "contains s v \<equiv> sublist v s"

function split_on :: "string \<Rightarrow> string \<Rightarrow> string list" where
  "split_on v [] = [[]]"
| "split_on v (c # cs) =
     (if v \<noteq> [] \<and> prefix v (c # cs) then [] # split_on v (drop (length v) (c # cs))
      else (case split_on v cs of [] \<Rightarrow> [[c]] | p # ps \<Rightarrow> (c # p) # ps))"
  by pat_completeness auto
termination by (relation "measure (\<lambda>(v, s). length s)") auto

lemma split_on_not_Nil [simp]: "split_on v s \<noteq> []"
  by (induction v s rule: split_on.induct) (auto split: list.split)

lemma split_on_first: "split_on v s = p # ps \<Longrightarrow> prefix p s"
  by (induction v s arbitrary: p ps rule: split_on.induct) (auto split: if_splits list.splits)

text \<open>A piece is a part of the text, and the separator is in no piece.\<close>

lemma split_on_part: "p \<in> set (split_on v s) \<Longrightarrow> sublist p s"
proof (induction v s arbitrary: p rule: split_on.induct)
  case (2 v c cs)
  show ?case
  proof (cases "v \<noteq> [] \<and> prefix v (c # cs)")
    case True
    with 2 have "p = [] \<or> sublist p (drop (length v) (c # cs))" by auto
    then show ?thesis by (meson sublist_Nil_left sublist_drop sublist_order.order_trans)
  next
    case False
    obtain q qs where q: "split_on v cs = q # qs" by (cases "split_on v cs") auto
    with False 2 have "p = c # q \<or> sublist p cs" by auto
    moreover have "prefix (c # q) (c # cs)" using split_on_first [OF q] by simp
    ultimately show ?thesis by (auto simp: sublist_Cons_right)
  qed
qed simp

lemma split_on_clean: "v \<noteq> [] \<Longrightarrow> p \<in> set (split_on v s) \<Longrightarrow> \<not> sublist v p"
proof (induction v s arbitrary: p rule: split_on.induct)
  case (2 v c cs)
  show ?case
  proof (cases "prefix v (c # cs)")
    case True
    with 2 show ?thesis by auto
  next
    case False
    obtain q qs where q: "split_on v cs = q # qs" by (cases "split_on v cs") auto
    have "\<not> prefix v (c # q)" using False split_on_first [OF q] by (metis Cons_prefix_Cons prefix_order.trans)
    with q 2 False show ?thesis by (auto simp: sublist_Cons_right)
  qed
qed auto

text \<open>A part that avoids a character lies on one side of it.\<close>

lemma sublist_avoids:
  assumes "sublist v (a @ c # b)" "c \<notin> set v"
  shows "sublist v a \<or> sublist v b"
proof -
  from assms(1) obtain x y where xy: "a @ c # b = x @ v @ y" by (auto simp: sublist_def)
  then consider us where "a = x @ us" "us @ c # b = v @ y" | us where "a @ us = x" "c # b = us @ v @ y"
    by (auto simp: append_eq_append_conv2)
  then show ?thesis
  proof cases
    case 1
    from 1(2) assms(2) have "prefix v us" by (auto simp: append_eq_append_conv2 append_eq_Cons_conv Cons_eq_append_conv prefix_def)
    with 1(1) show ?thesis by (auto simp: prefix_def sublist_def)
  next
    case 2
    from 2(2) show ?thesis
      by (cases us) (use assms(2) in \<open>auto simp: Cons_eq_append_conv sublist_def intro: exI [of _ "[]"]\<close>)
  qed
qed

definition mark :: "string \<Rightarrow> string" where "mark l = ''[redacted:'' @ l @ '']''"

lemma join_marks_part:
  assumes "sublist v (join (mark l) ps)" "set v \<inter> set ''[]'' = {}"
  shows "(\<exists>p \<in> set ps. sublist v p) \<or> sublist v (''redacted:'' @ l) \<or> v = []"
  using assms(1)
proof (induction "mark l" ps rule: join.induct)
  case (3 p q qs)
  from 3(2) have "sublist v (p @ CHR ''['' # (''redacted:'' @ l) @ CHR '']'' # join (mark l) (q # qs))"
    by (simp add: mark_def)
  then have "sublist v p \<or> sublist v ((''redacted:'' @ l) @ CHR '']'' # join (mark l) (q # qs))"
    using assms(2) by (intro sublist_avoids) auto
  then consider "sublist v p" | "sublist v (''redacted:'' @ l)" | "sublist v (join (mark l) (q # qs))"
    using assms(2) sublist_avoids [of v "''redacted:'' @ l" "CHR '']''" "join (mark l) (q # qs)"] by auto
  then show ?case using 3(1) by cases auto
qed auto

section \<open>The registered secrets\<close>

type_synonym secrets = "(string, string) jmap"

definition MIN_LEN :: nat where "MIN_LEN = 8"

definition registerSecret :: "string \<Rightarrow> string option \<Rightarrow> secrets \<Rightarrow> secrets" where
  "registerSecret label value secrets =
     (case value of None \<Rightarrow> secrets | Some v \<Rightarrow> if length v < MIN_LEN then secrets else jmap_set v label secrets)"

definition registerSecrets :: "(string, string) jmap \<Rightarrow> secrets \<Rightarrow> secrets" where
  "registerSecrets values secrets = fold (\<lambda>(label, value). registerSecret label (Some value)) values secrets"

definition clearSecrets :: "secrets \<Rightarrow> secrets" where
  "clearSecrets secrets = []"

section \<open>Redaction\<close>

definition redact_one :: "string \<times> string \<Rightarrow> string \<Rightarrow> string" where
  "redact_one kv out = (if contains out (fst kv) then join (mark (snd kv)) (split_on (fst kv) out) else out)"

text \<open>Longest first; \<open>sort\<close> is stable.\<close>

definition longest_first :: "secrets \<Rightarrow> secrets" where
  "longest_first secrets = sort_key (\<lambda>kv. - int (length (fst kv))) secrets"

definition redactText :: "secrets \<Rightarrow> string \<Rightarrow> string" where
  "redactText secrets text = (if secrets = [] \<or> text = [] then text else fold redact_one (longest_first secrets) text)"

definition redact_block :: "secrets \<Rightarrow> rich_block \<Rightarrow> rich_block" where
  "redact_block secrets b = (case b of RText t \<Rightarrow> RText (redactText secrets t) | _ \<Rightarrow> b)"

definition redactBlocks :: "secrets \<Rightarrow> rich_block list \<Rightarrow> rich_block list" where
  "redactBlocks secrets blocks = map (redact_block secrets) blocks"

text \<open>What a tool call returns; \<open>tm_outside_roots\<close> is \<open>refused: "outside_roots"\<close>.\<close>

record tool_meta =
  tm_diff :: "string option"
  tm_outside_roots :: bool
  tm_refusal :: "model_refusal option"
  tm_sandboxRefusal :: "sandbox_refusal option"

record tool_result =
  tl_content :: result_content
  tl_isError :: bool
  tl_meta :: "tool_meta option"

definition redact_content :: "secrets \<Rightarrow> result_content \<Rightarrow> result_content" where
  "redact_content secrets c =
     (case c of ResultString s \<Rightarrow> ResultString (redactText secrets s) | ResultBlocks bs \<Rightarrow> ResultBlocks (redactBlocks secrets bs))"

definition redact_meta :: "secrets \<Rightarrow> tool_meta \<Rightarrow> tool_meta" where
  "redact_meta secrets m = (case tm_diff m of Some d \<Rightarrow> m\<lparr>tm_diff := Some (redactText secrets d)\<rparr> | None \<Rightarrow> m)"

definition redactResult :: "secrets \<Rightarrow> tool_result \<Rightarrow> tool_result" where
  "redactResult secrets res =
     (if secrets = [] then res
      else res\<lparr>tl_content := redact_content secrets (tl_content res), tl_meta := map_option (redact_meta secrets) (tl_meta res)\<rparr>)"

section \<open>No secret is left\<close>

text \<open>
  Secrets a mark can neither contain nor complete: no square bracket in a secret, and no secret
  inside \<open>redacted:\<close> and a label.
\<close>

definition maskable :: "secrets \<Rightarrow> bool" where
  "maskable secrets \<longleftrightarrow>
     list_all (\<lambda>(v, l). MIN_LEN \<le> length v \<and> CHR ''['' \<notin> set v \<and> CHR '']'' \<notin> set v \<and>
       list_all (\<lambda>(w, l'). \<not> contains (''redacted:'' @ l') v) secrets) secrets"

lemma maskableD:
  assumes "maskable secrets" "(v, l) \<in> set secrets"
  shows "v \<noteq> []" "set v \<inter> set ''[]'' = {}" "(w, l') \<in> set secrets \<Longrightarrow> \<not> sublist v (''redacted:'' @ l')"
  using assms by (fastforce simp: maskable_def list_all_iff MIN_LEN_def)+

lemma redact_one_clean: "v \<noteq> [] \<Longrightarrow> set v \<inter> set ''[]'' = {} \<Longrightarrow> \<not> sublist v (''redacted:'' @ l) \<Longrightarrow> \<not> sublist v (redact_one (v, l) out)"
  using split_on_clean [of v _ out] join_marks_part [of v l "split_on v out"] by (auto simp: redact_one_def)

lemma redact_one_keeps:
  assumes "set v \<inter> set ''[]'' = {}" "\<not> sublist v (''redacted:'' @ l)" "\<not> sublist v out"
  shows "\<not> sublist v (redact_one (w, l) out)"
proof
  assume "sublist v (redact_one (w, l) out)"
  with assms obtain p where "p \<in> set (split_on w out)" "sublist v p"
    using join_marks_part [of v l "split_on w out"] by (auto simp: redact_one_def split: if_splits)
  with assms(3) split_on_part show False by (meson sublist_order.order_trans)
qed

lemma fold_redact_clean:
  assumes "maskable secrets" "set todo \<subseteq> set secrets" "(v, l) \<in> set secrets"
    "(v, l) \<in> set todo \<or> \<not> sublist v out"
  shows "\<not> sublist v (fold redact_one todo out)"
  using assms(2, 4)
proof (induction todo arbitrary: out)
  case (Cons kv todo)
  obtain w m where kv: "kv = (w, m)" by (cases kv)
  with Cons.prems have w: "(w, m) \<in> set secrets" by simp
  note v = maskableD [OF assms(1,3)]
  have "(v, l) \<in> set todo \<or> \<not> sublist v (redact_one kv out)"
  proof (cases "(v, l) = kv")
    case True
    then show ?thesis using redact_one_clean [OF v(1,2) v(3) [OF assms(3)]] by simp
  next
    case False
    with Cons.prems(2) show ?thesis unfolding kv by (auto dest: redact_one_keeps [OF v(2) v(3) [OF w]])
  qed
  with Cons show ?case by simp
qed simp

lemma redactText_clean:
  assumes "maskable secrets" "(v, l) \<in> set secrets"
  shows "\<not> contains (redactText secrets text) v"
proof (cases "text = []")
  case True
  with maskableD(1) [OF assms] show ?thesis by (simp add: redactText_def)
next
  case False
  have "set (longest_first secrets) = set secrets" by (simp add: longest_first_def)
  with False fold_redact_clean [OF assms(1) _ assms(2), of "longest_first secrets"] show ?thesis
    using assms(2) by (auto simp: redactText_def)
qed

definition sample_secrets :: secrets where
  "sample_secrets = registerSecrets [(''gateway'', ''sk-12345678''), (''prefix'', ''sk-12345''), (''short'', ''abc'')] []"

text \<open>A text with no secret is not touched.\<close>

lemma fold_redact_id: "(\<And>kv. kv \<in> set todo \<Longrightarrow> \<not> sublist (fst kv) out) \<Longrightarrow> fold redact_one todo out = out"
  by (induction todo) (auto simp: redact_one_def)

lemma redactText_id: "(\<And>kv. kv \<in> set secrets \<Longrightarrow> \<not> contains text (fst kv)) \<Longrightarrow> redactText secrets text = text"
  by (auto simp: redactText_def longest_first_def intro: fold_redact_id)

text \<open>The texts of a result.\<close>

definition result_texts :: "tool_result \<Rightarrow> string list" where
  "result_texts res =
     (case tl_content res of ResultString s \<Rightarrow> [s] | ResultBlocks bs \<Rightarrow> List.map_filter (\<lambda>b. case b of RText t \<Rightarrow> Some t | _ \<Rightarrow> None) bs) @
     (case tl_meta res of None \<Rightarrow> [] | Some m \<Rightarrow> (case tm_diff m of None \<Rightarrow> [] | Some d \<Rightarrow> [d]))"

text \<open>Whatever a tool's result holds, once redacted no text of it, its blocks and its diff included, contains a registered
  secret, not even where secrets overlap or contain one another.\<close>

theorem no_secret_remains:
  assumes "maskable secrets" "(v, l) \<in> set secrets" "t \<in> set (result_texts (redactResult secrets res))"
  shows "\<not> contains t v"
proof -
  from assms(2) have "secrets \<noteq> []" by auto
  with assms(3) obtain t' where "t = redactText secrets t'"
    by (fastforce simp: result_texts_def redactResult_def redact_content_def redactBlocks_def redact_block_def redact_meta_def
        map_filter_def split: result_content.splits option.splits rich_block.splits)
  with redactText_clean [OF assms(1,2)] show ?thesis by simp
qed

definition sample_result :: tool_result where
  "sample_result =
     \<lparr>tl_content = ResultString ''key=sk-12345678; old=sk-12345; abc'', tl_isError = False, tl_meta = None\<rparr>"

theorem no_secret_remains_witness:
  "\<not> contains (hd (result_texts (redactResult sample_secrets sample_result))) ''sk-12345'' \<and>
   result_texts (redactResult sample_secrets sample_result) = [''key=[redacted:gateway]; old=[redacted:prefix]; abc'']"
proof
  show "\<not> contains (hd (result_texts (redactResult sample_secrets sample_result))) ''sk-12345''"
    by (rule no_secret_remains [of sample_secrets _ "''prefix''" _ sample_result]; code_simp)
qed code_simp

end
