(* ===== verification/Registry.thy ===== *)
theory Registry
  imports Redact Permission Compaction "HOL-Library.List_Lexorder"
begin

text \<open>
  \<open>tools/registry.ts\<close>, \<open>tools/deferred.ts\<close> and the tool contract of \<open>tools/types.ts\<close>.  Registries share state: a
  registry made by \<open>filter\<close> holds the same restriction object as its parent and looks its parent up
  again when a tool connects late, so a world is a store of registries and of restriction objects,
  addressed by number.  The code a host supplies (the late resolver) is a parameter that answers
  with the registrations it makes; a schema's parser and a tool's body are fields of the tool.
\<close>

section \<open>Tools\<close>

datatype tool_hands = PureHands | RoutedHands | LocalHands

record tool =
  t_name :: string
  t_description :: string
  t_jsonSchema :: json
  t_hands :: "tool_hands option"
  t_readOnly :: bool
  t_parse :: "json \<Rightarrow> string + json"
  t_call :: "json \<Rightarrow> string + tool_result"

text \<open>\<open>sanitizeJsonSchema\<close>: the keys some providers reject are dropped and numeric exclusive bounds become inclusive.\<close>

definition is_number :: "json option \<Rightarrow> bool" where
  "is_number v = (case v of Some (JNum _) \<Rightarrow> True | Some (JFrac _) \<Rightarrow> True | _ \<Rightarrow> False)"

definition fold_bound :: "string \<Rightarrow> string \<Rightarrow> (string, json) jmap \<Rightarrow> (string, json) jmap" where
  "fold_bound excl incl ob =
     (case map_of ob excl of
        Some v \<Rightarrow> if is_number (Some v)
                  then jmap_del excl (if is_number (map_of ob incl) then ob else jmap_set incl v ob) else ob
      | None \<Rightarrow> ob)"

definition sanitize_node :: "(string, json) jmap \<Rightarrow> (string, json) jmap" where
  "sanitize_node ob =
     fold_bound ''exclusiveMaximum'' ''maximum''
       (fold_bound ''exclusiveMinimum'' ''minimum'' (jmap_del ''$schema'' (jmap_del ''additionalProperties'' ob)))"

text \<open>The recursion goes into the values that are left; a number moved to another key has nothing to sanitize, so the
  values may be sanitized first.\<close>

fun sanitizeJsonSchema :: "json \<Rightarrow> json" where
  "sanitizeJsonSchema (JArr xs) = JArr (map sanitizeJsonSchema xs)"
| "sanitizeJsonSchema (JObj kvs) = JObj (sanitize_node (map (map_prod id sanitizeJsonSchema) kvs))"
| "sanitizeJsonSchema v = v"

text \<open>What is left at any depth: none of the keys, and no numeric exclusive bound.\<close>

fun schema_clean :: "json \<Rightarrow> bool" where
  "schema_clean (JArr xs) = list_all schema_clean xs"
| "schema_clean (JObj kvs) =
     (map_of kvs ''additionalProperties'' = None \<and> map_of kvs ''$schema'' = None \<and>
      \<not> is_number (map_of kvs ''exclusiveMinimum'') \<and> \<not> is_number (map_of kvs ''exclusiveMaximum'') \<and>
      list_all (\<lambda>kv. schema_clean (snd kv)) kvs)"
| "schema_clean v = True"

lemma map_of_fold_bound:
  "excl \<noteq> incl \<Longrightarrow> k \<noteq> incl \<Longrightarrow>
     map_of (fold_bound excl incl kvs) k = (if k = excl \<and> is_number (map_of kvs excl) then None else map_of kvs k)"
  by (auto simp: fold_bound_def map_of_jmap_set map_of_jmap_del is_number_def split: option.split)

lemma fold_bound_values: "kv \<in> set (fold_bound excl incl kvs) \<Longrightarrow> snd kv \<in> snd ` set kvs"
  by (auto simp: fold_bound_def split: option.splits if_splits dest!: set_jmap_delD set_jmap_setD map_of_SomeD intro: rev_image_eqI)

lemma sanitize_node_values: "snd ` set (sanitize_node kvs) \<subseteq> snd ` set kvs"
proof -
  have f: "snd ` set (fold_bound e i xs) \<subseteq> snd ` set xs" for e i xs using fold_bound_values by blast
  have d: "snd ` set (jmap_del k xs) \<subseteq> snd ` set xs" for k and xs :: "(string, json) jmap" by (auto simp: jmap_del_def)
  show ?thesis unfolding sanitize_node_def by (rule order_trans [OF f order_trans [OF f order_trans [OF d d]]])
qed

theorem sanitize_clean: "schema_clean (sanitizeJsonSchema v)"
proof (induction v rule: sanitizeJsonSchema.induct)
  case (2 kvs)
  have none: "\<not> is_number None" by (simp add: is_number_def)
  have "schema_clean (snd kv)" if "kv \<in> set (sanitize_node (map (map_prod id sanitizeJsonSchema) kvs))" for kv
    using sanitize_node_values that 2 by fastforce
  then show ?case by (simp add: list_all_iff) (simp add: sanitize_node_def map_of_fold_bound map_of_jmap_del none)
qed (auto simp: list_all_iff)

section \<open>Registries\<close>

text \<open>The restriction object: the admitted classes, the names it refused and those its listener heard of.\<close>

record hands_cell =
  hc_allowed :: "tool_hands list"
  hc_listens :: bool
  hc_refused :: "string list"
  hc_heard :: "string list"

text \<open>A late resolver is the host's, or that of a filtered registry: the parent's, then a second look at the parent.\<close>

datatype late = HostLate nat | FilteredLate late nat "tool \<Rightarrow> bool" nat

record registry =
  rg_map :: "(string, tool) jmap"
  rg_late :: "late option"
  rg_schemaFilter :: "tool \<Rightarrow> bool"
  rg_hands :: "nat option"

record tool_world =
  tw_registries :: "registry list"
  tw_cells :: "hands_cell list"

definition new_registry :: registry where
  "new_registry = \<lparr>rg_map = [], rg_late = None, rg_schemaFilter = (\<lambda>_. True), rg_hands = None\<rparr>"

abbreviation reg :: "nat \<Rightarrow> tool_world \<Rightarrow> registry" where "reg r w \<equiv> tw_registries w ! r"

definition set_reg :: "nat \<Rightarrow> registry \<Rightarrow> tool_world \<Rightarrow> tool_world" where
  "set_reg r rg w = w\<lparr>tw_registries := (tw_registries w)[r := rg]\<rparr>"

definition hands_ok :: "hands_cell \<Rightarrow> tool \<Rightarrow> bool" where
  "hands_ok h t = (case t_hands t of None \<Rightarrow> False | Some c \<Rightarrow> c \<in> set (hc_allowed h))"

definition refuse :: "string \<Rightarrow> hands_cell \<Rightarrow> hands_cell" where
  "refuse n h =
     (if n \<in> set (hc_refused h) then h
      else h\<lparr>hc_refused := hc_refused h @ [n], hc_heard := hc_heard h @ (if hc_listens h then [n] else [])\<rparr>)"

definition admits :: "nat \<Rightarrow> tool \<Rightarrow> tool_world \<Rightarrow> bool \<times> tool_world" where
  "admits r t w =
     (case rg_hands (reg r w) of
        None \<Rightarrow> (True, w)
      | Some a \<Rightarrow>
          if hands_ok (tw_cells w ! a) t then (True, w)
          else (False, w\<lparr>tw_cells := (tw_cells w)[a := refuse (t_name t) (tw_cells w ! a)]\<rparr>))"

definition tools_of :: "nat \<Rightarrow> tool_world \<Rightarrow> tool list" where
  "tools_of r w = map snd (rg_map (reg r w))"

definition get_tool :: "nat \<Rightarrow> string \<Rightarrow> tool_world \<Rightarrow> tool option" where
  "get_tool r n w = map_of (rg_map (reg r w)) n"

definition unregister :: "nat \<Rightarrow> string \<Rightarrow> tool_world \<Rightarrow> tool_world" where
  "unregister r n w = set_reg r ((reg r w)\<lparr>rg_map := jmap_del n (rg_map (reg r w))\<rparr>) w"

definition register :: "nat \<Rightarrow> tool \<Rightarrow> tool_world \<Rightarrow> tool_world" where
  "register r t w =
     (let (ok, w') = admits r t w
      in if ok then set_reg r ((reg r w')\<lparr>rg_map := jmap_set (t_name t) t (rg_map (reg r w'))\<rparr>) w' else w')"

definition drop_refused :: "nat \<Rightarrow> tool \<Rightarrow> tool_world \<Rightarrow> tool_world" where
  "drop_refused r t w = (let (ok, w') = admits r t w in if ok then w' else unregister r (t_name t) w')"

definition restrictHands :: "nat \<Rightarrow> tool_hands list \<Rightarrow> bool \<Rightarrow> tool_world \<Rightarrow> tool_world" where
  "restrictHands r allowed listens w =
     (let w' = set_reg r ((reg r w)\<lparr>rg_hands := Some (length (tw_cells w))\<rparr>)
                 (w\<lparr>tw_cells := tw_cells w @ [\<lparr>hc_allowed = allowed, hc_listens = listens, hc_refused = [], hc_heard = []\<rparr>]\<rparr>)
      in fold (drop_refused r) (tools_of r w') w')"

definition handsRestriction :: "nat \<Rightarrow> tool_world \<Rightarrow> tool_hands list option" where
  "handsRestriction r w = map_option (\<lambda>a. hc_allowed (tw_cells w ! a)) (rg_hands (reg r w))"

definition setSchemaFilter :: "nat \<Rightarrow> (tool \<Rightarrow> bool) \<Rightarrow> tool_world \<Rightarrow> tool_world" where
  "setSchemaFilter r pred w = set_reg r ((reg r w)\<lparr>rg_schemaFilter := pred\<rparr>) w"

definition shown_tool :: "nat \<Rightarrow> tool \<Rightarrow> tool_world \<Rightarrow> bool" where
  "shown_tool r t w = rg_schemaFilter (reg r w) t"

definition setLateResolver :: "nat \<Rightarrow> late \<Rightarrow> tool_world \<Rightarrow> tool_world" where
  "setLateResolver r l w = set_reg r ((reg r w)\<lparr>rg_late := Some l\<rparr>) w"

text \<open>\<open>filter\<close>: the new registry's address is the old length of the store.\<close>

definition filter_registry :: "nat \<Rightarrow> (tool \<Rightarrow> bool) \<Rightarrow> tool_world \<Rightarrow> tool_world" where
  "filter_registry r pred w =
     (let n = length (tw_registries w);
          out = new_registry\<lparr>rg_schemaFilter := rg_schemaFilter (reg r w), rg_hands := rg_hands (reg r w)\<rparr>;
          w1 = fold (register n) (filter pred (tools_of r w)) (w\<lparr>tw_registries := tw_registries w @ [out]\<rparr>)
      in (case rg_late (reg r w1) of None \<Rightarrow> w1 | Some l \<Rightarrow> setLateResolver n (FilteredLate l r pred n) w1))"

text \<open>
  What a host's resolver does with a name: the registrations it makes, and whether it fails.  A
  registration at an address that names no registry is none.
\<close>

type_synonym late_host = "nat \<Rightarrow> string \<Rightarrow> tool_world \<Rightarrow> (nat \<times> tool) list \<times> bool"

definition host_registers :: "nat \<times> tool \<Rightarrow> tool_world \<Rightarrow> tool_world" where
  "host_registers rt w = (if fst rt < length (tw_registries w) then register (fst rt) (snd rt) w else w)"

fun run_late :: "late_host \<Rightarrow> late \<Rightarrow> string \<Rightarrow> tool_world \<Rightarrow> tool_world \<times> bool" where
  "run_late host (HostLate k) n w = (let (made, failed) = host k n w in (fold host_registers made w, failed))"
| "run_late host (FilteredLate l p pred c) n w =
     (let (w', failed) = run_late host l n w
      in if failed then (w', True)
         else (case get_tool p n w' of
                 Some t \<Rightarrow> if pred t then (register c t w', False) else (w', False)
               | None \<Rightarrow> (w', False)))"

definition resolve :: "late_host \<Rightarrow> nat \<Rightarrow> string \<Rightarrow> tool_world \<Rightarrow> tool option \<times> tool_world" where
  "resolve host r n w =
     (case get_tool r n w of
        Some t \<Rightarrow> (Some t, w)
      | None \<Rightarrow> (case rg_late (reg r w) of
                  None \<Rightarrow> (None, w)
                | Some l \<Rightarrow> let w' = fst (run_late host l n w) in (get_tool r n w', w')))"

record tool_schema =
  ts_name :: string
  ts_description :: string
  ts_input_schema :: json

definition schema_of :: "tool \<Rightarrow> tool_schema" where
  "schema_of t = \<lparr>ts_name = t_name t, ts_description = t_description t, ts_input_schema = t_jsonSchema t\<rparr>"

definition schemas :: "nat \<Rightarrow> tool_world \<Rightarrow> tool_schema list" where
  "schemas r w = map schema_of (filter (rg_schemaFilter (reg r w)) (tools_of r w))"

section \<open>Running a tool\<close>

definition MALFORMED_INPUT_KEY :: string where "MALFORMED_INPUT_KEY = ''__yodex_malformed_json__''"

definition SECRET_LIKE_KEY :: rx where
  "SECRET_LIKE_KEY =
     alts [lit_i ''secret'', lit_i ''token'', lit_i ''password'', cats [lit_i ''api'', opt (one_of ''_-''), lit_i ''key'']]"

definition secret_key :: "string \<Rightarrow> bool" where "secret_key k = (k \<noteq> [] \<and> rx_test SECRET_LIKE_KEY k)"

definition hideable :: "json \<Rightarrow> bool" where
  "hideable v = (case v of JStr _ \<Rightarrow> True | JArr _ \<Rightarrow> True | JObj _ \<Rightarrow> True | _ \<Rightarrow> False)"

text \<open>What the replacer of \<open>JSON.stringify\<close> leaves.\<close>

fun hide_secrets :: "json \<Rightarrow> json" where
  "hide_secrets (JArr xs) = JArr (map hide_secrets xs)"
| "hide_secrets (JObj kvs) =
     JObj (map (\<lambda>(k, v). (k, if secret_key k \<and> hideable v then JStr ''[redacted]'' else hide_secrets v)) kvs)"
| "hide_secrets v = v"

definition tool_error :: "string \<Rightarrow> tool_result" where
  "tool_error s = \<lparr>tl_content = ResultString s, tl_isError = True, tl_meta = None\<rparr>"

definition unknown_tool :: "string \<Rightarrow> tool_result" where
  "unknown_tool name = tool_error (''Unknown tool: '' @ name)"

definition deferred_tool :: "string \<Rightarrow> tool_result" where
  "deferred_tool name =
     tool_error (name @ '' is a deferred tool: load it first with ToolSearch (query '' @ [dquote] @ ''select:'' @ name @ [dquote] @ ''), then call it.'')"

definition malformed_input :: "string \<Rightarrow> json \<Rightarrow> tool_result" where
  "malformed_input name raw =
     tool_error (''Your '' @ name @ '' tool call'' @ [squote] @ ''s input was not valid JSON and could not be repaired. '' @
       ''Re-send it as well-formed JSON. What you sent (truncated):'' @ [nl] @ js_string raw)"

definition invalid_input :: "string \<Rightarrow> string \<Rightarrow> json \<Rightarrow> tool_result" where
  "invalid_input name msg raw =
     tool_error (''Invalid input for '' @ name @ '': '' @ msg @ [nl] @ ''Received (truncated): '' @ take 400 (json_str (hide_secrets raw)))"

definition run_call :: "secrets \<Rightarrow> tool \<Rightarrow> string \<Rightarrow> json \<Rightarrow> tool_result" where
  "run_call secrets t name d =
     redactResult secrets (case t_call t d of Inr res \<Rightarrow> res | Inl msg \<Rightarrow> tool_error (''Tool '' @ name @ '' threw: '' @ msg))"

text \<open>The result, and the tool whose body ran with its parsed input (if one did).\<close>

definition run_resolved :: "secrets \<Rightarrow> bool \<Rightarrow> tool \<Rightarrow> string \<Rightarrow> json \<Rightarrow> tool_result \<times> (tool \<times> json) option" where
  "run_resolved secrets visible t name raw =
     (if \<not> visible then (deferred_tool name, None)
      else (case jget MALFORMED_INPUT_KEY raw of
              Some v \<Rightarrow> (malformed_input name v, None)
            | None \<Rightarrow>
                (case t_parse t raw of
                   Inl msg \<Rightarrow> (invalid_input name msg raw, None)
                 | Inr d \<Rightarrow> (run_call secrets t name d, Some (t, d)))))"

definition runTool :: "late_host \<Rightarrow> secrets \<Rightarrow> nat \<Rightarrow> string \<Rightarrow> json \<Rightarrow> tool_world \<Rightarrow> (tool_result \<times> (tool \<times> json) option) \<times> tool_world" where
  "runTool host secrets r name raw w =
     (case resolve host r name w of
        (None, w') \<Rightarrow> ((unknown_tool name, None), w')
      | (Some t, w') \<Rightarrow> (run_resolved secrets (shown_tool r t w') t name raw, w'))"

section \<open>Deferred tools\<close>

record deferred_tools =
  dt_deferred :: "(string, string) jmap"
  dt_loaded :: "string list"

definition defer_tool :: "string \<Rightarrow> string \<Rightarrow> deferred_tools \<Rightarrow> deferred_tools" where
  "defer_tool n server d = d\<lparr>dt_deferred := jmap_set n server (dt_deferred d)\<rparr>"

definition forget :: "string \<Rightarrow> deferred_tools \<Rightarrow> deferred_tools" where
  "forget n d = d\<lparr>dt_deferred := jmap_del n (dt_deferred d), dt_loaded := jset_del n (dt_loaded d)\<rparr>"

definition isDeferred :: "string \<Rightarrow> deferred_tools \<Rightarrow> bool" where "isDeferred n d = (map_of (dt_deferred d) n \<noteq> None)"
definition isLoaded :: "string \<Rightarrow> deferred_tools \<Rightarrow> bool" where "isLoaded n d = (n \<in> set (dt_loaded d))"

definition visible :: "deferred_tools \<Rightarrow> tool \<Rightarrow> bool" where
  "visible d t = (\<not> isDeferred (t_name t) d \<or> isLoaded (t_name t) d)"

definition load_tools :: "string list \<Rightarrow> deferred_tools \<Rightarrow> deferred_tools" where
  "load_tools names d =
     fold (\<lambda>n d. if isDeferred n d then d\<lparr>dt_loaded := jset_add n (dt_loaded d)\<rparr> else d) names d"

definition group_server :: "deferred_tools \<Rightarrow> string \<times> string \<Rightarrow> (string, string list) jmap \<Rightarrow> (string, string list) jmap" where
  "group_server d ns by =
     (if isLoaded (fst ns) d then by
      else jmap_set (snd ns) ((case map_of by (snd ns) of None \<Rightarrow> [] | Some xs \<Rightarrow> xs) @ [fst ns]) by)"

definition pending_tools :: "deferred_tools \<Rightarrow> (string \<times> string list) list" where
  "pending_tools d = map (map_prod id sort) (fold (group_server d) (dt_deferred d) [])"

definition deferred_size :: "deferred_tools \<Rightarrow> nat" where "deferred_size d = length (dt_deferred d)"

definition schema_json :: "tool \<Rightarrow> json" where
  "schema_json t = JObj [(''name'', JStr (t_name t)), (''description'', JStr (t_description t)), (''input_schema'', t_jsonSchema t)]"

definition schemaTokens :: "tool list \<Rightarrow> nat" where
  "schemaTokens tools = estimateTokens (json_str (JArr (map schema_json tools)))"

section \<open>A restricted registry offers only what it admits\<close>

primrec late_within :: "nat \<Rightarrow> late \<Rightarrow> bool" where
  "late_within n (HostLate k) \<longleftrightarrow> True"
| "late_within n (FilteredLate l p pred c) \<longleftrightarrow> late_within n l \<and> p < n \<and> c < n"

definition registry_ok :: "tool_world \<Rightarrow> registry \<Rightarrow> bool" where
  "registry_ok w rg \<longleftrightarrow>
     (\<forall>(k, t) \<in> set (rg_map rg). k = t_name t) \<and>
     (\<forall>l. rg_late rg = Some l \<longrightarrow> late_within (length (tw_registries w)) l) \<and>
     (\<forall>a. rg_hands rg = Some a \<longrightarrow>
        a < length (tw_cells w) \<and> (\<forall>(k, t) \<in> set (rg_map rg). hands_ok (tw_cells w ! a) t))"

definition cell_ok :: "hands_cell \<Rightarrow> bool" where
  "cell_ok h \<longleftrightarrow> distinct (hc_heard h) \<and> set (hc_heard h) \<subseteq> set (hc_refused h)"

definition world_ok :: "tool_world \<Rightarrow> bool" where
  "world_ok w \<longleftrightarrow> (\<forall>rg \<in> set (tw_registries w). registry_ok w rg) \<and> (\<forall>h \<in> set (tw_cells w). cell_ok h)"

text \<open>
  What every operation may do to the store: registries and restriction objects are only added, and an
  object's admitted classes never change.
\<close>

definition extends :: "tool_world \<Rightarrow> tool_world \<Rightarrow> bool" where
  "extends w w' \<longleftrightarrow>
     length (tw_registries w) \<le> length (tw_registries w') \<and> length (tw_cells w) \<le> length (tw_cells w') \<and>
     (\<forall>a < length (tw_cells w). hc_allowed (tw_cells w' ! a) = hc_allowed (tw_cells w ! a))"

lemma extends_refl [simp]: "extends w w"
  by (simp add: extends_def)

lemma extends_trans: "extends u v \<Longrightarrow> extends v w \<Longrightarrow> extends u w"
  by (auto simp: extends_def)

lemma late_within_mono: "late_within m l \<Longrightarrow> m \<le> n \<Longrightarrow> late_within n l"
  by (induction l) auto

lemma hands_ok_allowed: "hc_allowed h = hc_allowed h' \<Longrightarrow> hands_ok h t = hands_ok h' t"
  by (simp add: hands_ok_def split: option.split)

lemma registry_ok_extends: "registry_ok w rg \<Longrightarrow> extends w w' \<Longrightarrow> registry_ok w' rg"
  by (fastforce simp: registry_ok_def extends_def intro: late_within_mono dest: hands_ok_allowed)

lemma refuse_simps [simp]: "hc_allowed (refuse n h) = hc_allowed h" "cell_ok h \<Longrightarrow> cell_ok (refuse n h)"
  by (auto simp: refuse_def cell_ok_def)

lemma refuse_cells: "\<forall>h \<in> set cs. cell_ok h \<Longrightarrow> h \<in> set (cs[i := refuse n (cs ! i)]) \<Longrightarrow> cell_ok h"
  by (cases "i < length cs") (auto simp: list_update_beyond dest!: set_update_subset_insert [THEN subsetD])

lemma admits_keeps:
  assumes "world_ok w" "admits r t w = (ok, w')"
  shows "world_ok w' \<and> extends w w' \<and> tw_registries w' = tw_registries w \<and> length (tw_cells w') = length (tw_cells w)"
proof -
  have nth: "hc_allowed (cs[i := refuse n (cs ! i)] ! a) = hc_allowed (cs ! a)" for cs i n a
    by (cases "i < length cs"; cases "i = a") (auto simp: list_update_beyond)
  have "extends w w'" "tw_registries w' = tw_registries w" "length (tw_cells w') = length (tw_cells w)"
    using assms(2) by (auto simp: admits_def extends_def nth split: option.splits if_splits)
  moreover have "\<forall>h \<in> set (tw_cells w'). cell_ok h"
    using assms refuse_cells unfolding admits_def world_ok_def by (auto split: option.splits if_splits)
  ultimately show ?thesis using assms(1) registry_ok_extends by (auto simp: world_ok_def)
qed

lemma admits_ok:
  "admits r t w = (ok, w') \<Longrightarrow> ok \<longleftrightarrow> (\<forall>a. rg_hands (reg r w) = Some a \<longrightarrow> hands_ok (tw_cells w ! a) t)"
  by (auto simp: admits_def split: option.splits if_splits)

lemma set_reg_keeps:
  assumes "world_ok w" "r < length (tw_registries w) \<Longrightarrow> registry_ok w rg"
  shows "world_ok (set_reg r rg w) \<and> extends w (set_reg r rg w)"
proof -
  have e: "extends w (set_reg r rg w)" by (simp add: set_reg_def extends_def)
  have "registry_ok w x" if "x \<in> set ((tw_registries w)[r := rg])" for x
    using that assms by (cases "r < length (tw_registries w)") (auto simp: world_ok_def list_update_beyond dest!: set_update_subset_insert [THEN subsetD])
  with e assms(1) show ?thesis by (auto simp: world_ok_def set_reg_def intro: registry_ok_extends [OF _ e [unfolded set_reg_def]])
qed

lemma reg_ok: "world_ok w \<Longrightarrow> r < length (tw_registries w) \<Longrightarrow> registry_ok w (reg r w)"
  by (simp add: world_ok_def)

lemma unregister_keeps: "world_ok w \<Longrightarrow> world_ok (unregister r n w) \<and> extends w (unregister r n w)"
  unfolding unregister_def
  by (rule set_reg_keeps) (auto simp: registry_ok_def dest!: reg_ok set_jmap_delD)

lemma register_keeps:
  assumes "world_ok w"
  shows "world_ok (register r t w) \<and> extends w (register r t w)"
proof -
  obtain ok w' where a: "admits r t w = (ok, w')" by force
  note k = admits_keeps [OF assms a]
  show ?thesis
  proof (cases ok)
    case False
    with a k show ?thesis by (simp add: register_def)
  next
    case True
    with admits_ok [OF a] have "w' = w" and h: "\<forall>c. rg_hands (reg r w) = Some c \<longrightarrow> hands_ok (tw_cells w ! c) t"
      using a by (auto simp: admits_def split: option.splits if_splits)
    have "world_ok (set_reg r ((reg r w)\<lparr>rg_map := jmap_set (t_name t) t (rg_map (reg r w))\<rparr>) w) \<and>
        extends w (set_reg r ((reg r w)\<lparr>rg_map := jmap_set (t_name t) t (rg_map (reg r w))\<rparr>) w)"
      by (rule set_reg_keeps [OF assms]) (use h in \<open>auto simp: registry_ok_def dest!: reg_ok [OF assms] set_jmap_setD\<close>)
    with True a \<open>w' = w\<close> show ?thesis by (simp add: register_def)
  qed
qed

lemma drop_refused_keeps: "world_ok w \<Longrightarrow> world_ok (drop_refused r t w) \<and> extends w (drop_refused r t w)"
  using admits_keeps [of w r t "fst (admits r t w)" "snd (admits r t w)"] unregister_keeps [of "snd (admits r t w)" r "t_name t"]
  by (auto simp: drop_refused_def split: prod.split intro: extends_trans)

text \<open>A sequence of operations that each keep the store keeps it.\<close>

definition keeps :: "(tool_world \<Rightarrow> tool_world) \<Rightarrow> bool" where
  "keeps f \<longleftrightarrow> (\<forall>w. world_ok w \<longrightarrow> world_ok (f w) \<and> extends w (f w))"

lemma keeps_fold: "(\<And>x. x \<in> set xs \<Longrightarrow> keeps (f x)) \<Longrightarrow> keeps (fold f xs)"
  by (induction xs) (auto simp: keeps_def intro: extends_trans)

lemma keepsD: "keeps f \<Longrightarrow> world_ok w \<Longrightarrow> world_ok (f w) \<and> extends w (f w)"
  by (simp add: keeps_def)

lemma keeps_ops: "keeps (register r t)" "keeps (unregister r n)" "keeps (drop_refused r t)" "keeps (host_registers rt)"
  by (simp_all add: keeps_def register_keeps unregister_keeps drop_refused_keeps host_registers_def)

lemma keeps_schemaFilter: "keeps (setSchemaFilter r pred)"
  unfolding keeps_def setSchemaFilter_def
proof (intro allI impI)
  fix w
  assume w: "world_ok w"
  show "world_ok (set_reg r ((reg r w)\<lparr>rg_schemaFilter := pred\<rparr>) w) \<and> extends w (set_reg r ((reg r w)\<lparr>rg_schemaFilter := pred\<rparr>) w)"
    by (rule set_reg_keeps [OF w]) (auto simp: registry_ok_def dest!: reg_ok [OF w])
qed

lemma keeps_lateResolver: "world_ok w \<Longrightarrow> late_within (length (tw_registries w)) l \<Longrightarrow>
    world_ok (setLateResolver r l w) \<and> extends w (setLateResolver r l w)"
  unfolding setLateResolver_def by (rule set_reg_keeps) (auto simp: registry_ok_def dest!: reg_ok)

lemma run_late_keeps: "world_ok w \<Longrightarrow> world_ok (fst (run_late host l n w)) \<and> extends w (fst (run_late host l n w))"
proof (induction l)
  case (HostLate k)
  have "keeps (fold host_registers (fst (host k n w)))" by (rule keeps_fold) (rule keeps_ops)
  from keepsD [OF this HostLate] show ?case by (simp add: case_prod_beta)
next
  case (FilteredLate l p pred c)
  then show ?case using register_keeps [of "fst (run_late host l n w)" c]
    by (auto simp: case_prod_beta Let_def split: option.split intro: extends_trans)
qed

text \<open>What dropping the refused tools of a registry leaves, in closed form.\<close>

definition kept_tools :: "hands_cell \<Rightarrow> tool list \<Rightarrow> (string, tool) jmap \<Rightarrow> (string, tool) jmap" where
  "kept_tools h ts m = filter (\<lambda>kt. \<forall>t \<in> set ts. hands_ok h t \<or> fst kt \<noteq> t_name t) m"

lemma drop_refused_form:
  assumes "r < length (tw_registries w)" "rg_hands (reg r w) = Some a" "a < length (tw_cells w)" "\<forall>h \<in> set (tw_cells w). cell_ok h"
  shows "tw_registries (drop_refused r t w) = (tw_registries w)[r := (reg r w)\<lparr>rg_map := kept_tools (tw_cells w ! a) [t] (rg_map (reg r w))\<rparr>] \<and>
    extends w (drop_refused r t w) \<and> length (tw_cells (drop_refused r t w)) = length (tw_cells w) \<and>
    (\<forall>h \<in> set (tw_cells (drop_refused r t w)). cell_ok h)"
proof (cases "hands_ok (tw_cells w ! a) t")
  case True
  with assms show ?thesis by (simp add: drop_refused_def admits_def kept_tools_def)
next
  case False
  have "hc_allowed ((tw_cells w)[a := refuse (t_name t) (tw_cells w ! a)] ! b) = hc_allowed (tw_cells w ! b)" for b
    using assms(3) by (cases "a = b") auto
  moreover have "cell_ok h" if "h \<in> set ((tw_cells w)[a := refuse (t_name t) (tw_cells w ! a)])" for h
    using that assms(3,4) by (auto dest!: set_update_subset_insert [THEN subsetD])
  ultimately show ?thesis using False assms
    by (simp add: drop_refused_def admits_def kept_tools_def unregister_def set_reg_def jmap_del_def extends_def)
qed

lemma fold_drop_refused_form:
  assumes "r < length (tw_registries w)" "rg_hands (reg r w) = Some a" "a < length (tw_cells w)" "\<forall>h \<in> set (tw_cells w). cell_ok h"
  shows "tw_registries (fold (drop_refused r) ts w) = (tw_registries w)[r := (reg r w)\<lparr>rg_map := kept_tools (tw_cells w ! a) ts (rg_map (reg r w))\<rparr>] \<and>
    extends w (fold (drop_refused r) ts w) \<and> length (tw_cells (fold (drop_refused r) ts w)) = length (tw_cells w) \<and>
    (\<forall>h \<in> set (tw_cells (fold (drop_refused r) ts w)). cell_ok h)"
  using assms
proof (induction ts arbitrary: w)
  case Nil
  then show ?case by (simp add: kept_tools_def)
next
  case (Cons t ts)
  note d = drop_refused_form [OF Cons.prems, of t]
  let ?v = "drop_refused r t w"
  from d Cons.prems have v: "reg r ?v = (reg r w)\<lparr>rg_map := kept_tools (tw_cells w ! a) [t] (rg_map (reg r w))\<rparr>" by simp
  from d Cons.prems(3) have al: "hc_allowed (tw_cells ?v ! a) = hc_allowed (tw_cells w ! a)" by (simp add: extends_def)
  have "kept_tools (tw_cells ?v ! a) ts (kept_tools (tw_cells w ! a) [t] m) = kept_tools (tw_cells w ! a) (t # ts) m" for m
    unfolding kept_tools_def using hands_ok_allowed [OF al] by (auto intro!: filter_cong)
  with Cons.IH [of ?v] d v Cons.prems show ?case by (auto intro: extends_trans)
qed

lemma restrictHands_keeps:
  assumes w: "world_ok w" and r: "r < length (tw_registries w)"
  shows "world_ok (restrictHands r allowed listens w) \<and> extends w (restrictHands r allowed listens w)"
proof -
  define a where "a = length (tw_cells w)"
  define cell where "cell = \<lparr>hc_allowed = allowed, hc_listens = listens, hc_refused = [], hc_heard = []\<rparr>"
  define w' where "w' = set_reg r ((reg r w)\<lparr>rg_hands := Some a\<rparr>) (w\<lparr>tw_cells := tw_cells w @ [cell]\<rparr>)"
  define ts where "ts = tools_of r w"
  have sz: "length (tw_registries w') = length (tw_registries w)" "tw_cells w' = tw_cells w @ [cell]"
    "reg r w' = (reg r w)\<lparr>rg_hands := Some a\<rparr>"
    using r by (simp_all add: w'_def set_reg_def)
  have cells: "\<forall>h \<in> set (tw_cells w'). cell_ok h" using w by (auto simp: sz world_ok_def cell_def cell_ok_def)
  have e: "extends w w'" using sz by (simp add: extends_def nth_append)
  define v where "v = fold (drop_refused r) ts w'"
  have res: "restrictHands r allowed listens w = v"
    using sz by (simp add: v_def restrictHands_def w'_def a_def cell_def ts_def tools_of_def)
  note f = fold_drop_refused_form [of r w' a ts, folded v_def]
  from f r sz cells have regs: "tw_registries v = (tw_registries w')[r := (reg r w')\<lparr>rg_map := kept_tools cell ts (rg_map (reg r w))\<rparr>]"
    and ev: "extends w' v" and lc: "length (tw_cells v) = length (tw_cells w')" and cv: "\<forall>h \<in> set (tw_cells v). cell_ok h"
    by (simp_all add: a_def)
  from e ev have wv: "extends w v" by (rule extends_trans)
  have al: "hands_ok (tw_cells v ! a) t = hands_ok cell t" for t
    using ev by (intro hands_ok_allowed) (simp add: extends_def sz a_def)
  have "registry_ok v ((reg r w')\<lparr>rg_map := kept_tools cell ts (rg_map (reg r w))\<rparr>)"
    using registry_ok_extends [OF reg_ok [OF w r] wv] al lc sz
    by (fastforce simp: registry_ok_def kept_tools_def ts_def tools_of_def a_def)
  moreover have "registry_ok v (reg i w')" if "i < length (tw_registries w)" "i \<noteq> r" for i
    using registry_ok_extends [OF reg_ok [OF w that(1)] wv] that by (simp add: w'_def set_reg_def)
  ultimately have "\<forall>rg \<in> set (tw_registries v). registry_ok v rg"
    using r sz by (auto simp: regs all_set_conv_all_nth nth_list_update)
  with cv wv show ?thesis by (simp add: res world_ok_def)
qed

lemma filter_registry_keeps:
  assumes w: "world_ok w" and r: "r < length (tw_registries w)"
  shows "world_ok (filter_registry r pred w) \<and> extends w (filter_registry r pred w)"
proof -
  define n where "n = length (tw_registries w)"
  define out where "out = new_registry\<lparr>rg_schemaFilter := rg_schemaFilter (reg r w), rg_hands := rg_hands (reg r w)\<rparr>"
  define w0 where "w0 = w\<lparr>tw_registries := tw_registries w @ [out]\<rparr>"
  define w1 where "w1 = fold (register n) (filter pred (tools_of r w)) w0"
  have e0: "extends w w0" by (simp add: extends_def w0_def)
  moreover have "registry_ok w0 out"
    using reg_ok [OF w r] by (auto simp: registry_ok_def out_def new_registry_def w0_def)
  ultimately have "world_ok w0" using w by (auto simp: world_ok_def w0_def intro: registry_ok_extends)
  moreover have "keeps (fold (register n) (filter pred (tools_of r w)))" by (rule keeps_fold) (rule keeps_ops)
  ultimately have w1: "world_ok w1 \<and> extends w0 w1" using keepsD unfolding w1_def by blast
  with e0 have e1: "extends w w1" using extends_trans by blast
  have len: "n < length (tw_registries w1)" "r < length (tw_registries w1)" using w1 r by (simp_all add: extends_def w0_def n_def)
  have "world_ok (setLateResolver n (FilteredLate l r pred n) w1) \<and> extends w1 (setLateResolver n (FilteredLate l r pred n) w1)"
    if "rg_late (reg r w1) = Some l" for l
    using that len reg_ok [OF conjunct1 [OF w1] len(2)] by (intro keeps_lateResolver) (simp_all add: w1 registry_ok_def)
  moreover have "filter_registry r pred w = (case rg_late (reg r w1) of None \<Rightarrow> w1 | Some l \<Rightarrow> setLateResolver n (FilteredLate l r pred n) w1)"
    unfolding filter_registry_def Let_def w1_def w0_def out_def n_def by (rule refl)
  ultimately show ?thesis using w1 e1 by (auto split: option.split intro: extends_trans)
qed

lemma resolve_keeps: "world_ok w \<Longrightarrow> world_ok (snd (resolve host r n w)) \<and> extends w (snd (resolve host r n w))"
  using run_late_keeps by (auto simp: resolve_def Let_def split: option.split)

text \<open>The operations of a registry, from a world with no registry.\<close>

inductive registry_step :: "late_host \<Rightarrow> tool_world \<Rightarrow> tool_world \<Rightarrow> bool" for host where
  create: "registry_step host w (w\<lparr>tw_registries := tw_registries w @ [new_registry]\<rparr>)"
| restrict: "r < length (tw_registries w) \<Longrightarrow> registry_step host w (restrictHands r allowed listens w)"
| add: "r < length (tw_registries w) \<Longrightarrow> registry_step host w (register r t w)"
| remove: "r < length (tw_registries w) \<Longrightarrow> registry_step host w (unregister r n w)"
| derive: "r < length (tw_registries w) \<Longrightarrow> registry_step host w (filter_registry r pred w)"
| set_filter: "r < length (tw_registries w) \<Longrightarrow> registry_step host w (setSchemaFilter r pred w)"
| set_late: "r < length (tw_registries w) \<Longrightarrow> registry_step host w (setLateResolver r (HostLate k) w)"
| look_up: "r < length (tw_registries w) \<Longrightarrow> registry_step host w (snd (resolve host r n w))"

definition no_registries :: tool_world where "no_registries = \<lparr>tw_registries = [], tw_cells = []\<rparr>"

lemma registry_step_keeps: "registry_step host w v \<Longrightarrow> world_ok w \<Longrightarrow> world_ok v \<and> extends w v"
proof (induction rule: registry_step.induct)
  case (create w)
  have e: "extends w (w\<lparr>tw_registries := tw_registries w @ [new_registry]\<rparr>)" by (simp add: extends_def)
  with create show ?case by (auto simp: world_ok_def intro: registry_ok_extends) (simp add: registry_ok_def new_registry_def)
qed (simp_all add: restrictHands_keeps register_keeps unregister_keeps filter_registry_keeps keepsD [OF keeps_schemaFilter]
    keeps_lateResolver resolve_keeps)

interpretation registries: invariant_system "registry_step host" world_ok for host
  by unfold_locales (simp add: registry_step_keeps)

text \<open>C31 only_admitted_tools_run. After any sequence of registrations, restrictions, derivations and late connections, the tool a call to a restricted
  registry runs is registered under the called name, is shown to the model, was given well-formed and valid input, and has a hands class the
  restriction admits; and the restriction's listener has heard of no name twice.\<close>

theorem only_admitted_tools_run:
  assumes "(registry_step host)\<^sup>*\<^sup>* no_registries w" "r < length (tw_registries w)"
    "runTool host secrets r name raw w = ((res, Some (t, d)), w')"
  shows "get_tool r name w' = Some t \<and> t_name t = name \<and> shown_tool r t w' \<and> jget MALFORMED_INPUT_KEY raw = None \<and> t_parse t raw = Inr d \<and>
    res = run_call secrets t name d \<and>
    (case handsRestriction r w' of None \<Rightarrow> True | Some allowed \<Rightarrow> t_hands t \<in> Some ` set allowed) \<and>
    (\<forall>h \<in> set (tw_cells w'). distinct (hc_heard h))"
proof -
  have ok: "world_ok w" by (rule registries.run_inv [OF assms(1)]) (simp add: no_registries_def world_ok_def)
  from assms(3) have res: "resolve host r name w = (Some t, w')"
    and run: "shown_tool r t w'" "jget MALFORMED_INPUT_KEY raw = None" "t_parse t raw = Inr d" "res = run_call secrets t name d"
    by (auto simp: runTool_def run_resolved_def split: prod.splits option.splits sum.splits if_splits)
  have w': "world_ok w'" "extends w w'" using resolve_keeps [OF ok, of host r name] res by simp_all
  have get: "get_tool r name w' = Some t" using res by (auto simp: resolve_def Let_def split: option.splits)
  have "registry_ok w' (reg r w')" using w' assms(2) by (intro reg_ok) (simp_all add: extends_def)
  moreover have "(name, t) \<in> set (rg_map (reg r w'))" using get by (simp add: get_tool_def map_of_SomeD)
  ultimately have "t_name t = name" "\<And>a. rg_hands (reg r w') = Some a \<Longrightarrow> hands_ok (tw_cells w' ! a) t"
    by (auto simp: registry_ok_def)
  then show ?thesis using get run w'(1)
    by (auto simp: handsRestriction_def hands_ok_def world_ok_def cell_ok_def split: option.splits)
qed

definition sample_tool :: "string \<Rightarrow> tool_hands \<Rightarrow> tool" where
  "sample_tool n h =
     \<lparr>t_name = n, t_description = [], t_jsonSchema = JObj [], t_hands = Some h, t_readOnly = True,
      t_parse = (\<lambda>v. if jget ''text'' v = None then Inl ''Required'' else Inr v),
      t_call = (\<lambda>v. Inr \<lparr>tl_content = ResultString (json_str v), tl_isError = False, tl_meta = None\<rparr>)\<rparr>"

definition no_host :: late_host where "no_host k n w = ([], False)"

definition sample_world :: tool_world where
  "sample_world =
     register 0 (sample_tool ''Bash'' LocalHands)
       (restrictHands 0 [PureHands, RoutedHands] True
         (register 0 (sample_tool ''Echo'' PureHands)
           (register 0 (sample_tool ''Read'' LocalHands) \<lparr>tw_registries = [new_registry], tw_cells = []\<rparr>)))"

lemma sample_world_form:
  "sample_world =
     \<lparr>tw_registries = [new_registry\<lparr>rg_map := [(''Echo'', sample_tool ''Echo'' PureHands)], rg_hands := Some 0\<rparr>],
      tw_cells = [\<lparr>hc_allowed = [PureHands, RoutedHands], hc_listens = True, hc_refused = [''Read'', ''Bash''], hc_heard = [''Read'', ''Bash'']\<rparr>]\<rparr>"
  by (simp add: sample_world_def register_def restrictHands_def admits_def new_registry_def set_reg_def tools_of_def
      drop_refused_def sample_tool_def hands_ok_def refuse_def unregister_def jmap_del_def)

lemma sample_world_reached: "(registry_step no_host)\<^sup>*\<^sup>* no_registries sample_world"
proof -
  have base: "(registry_step no_host)\<^sup>*\<^sup>* no_registries \<lparr>tw_registries = [new_registry], tw_cells = []\<rparr>"
    using registry_step.create [of no_host no_registries] by (auto simp: no_registries_def)
  have add: "(registry_step no_host)\<^sup>*\<^sup>* no_registries (register 0 t w)" and restrict: "(registry_step no_host)\<^sup>*\<^sup>* no_registries (restrictHands 0 a l w)"
    if "(registry_step no_host)\<^sup>*\<^sup>* no_registries w" "0 < length (tw_registries w)" for w t a l
    using that by (auto intro: registry_step.add registry_step.restrict rtranclp.rtrancl_into_rtrancl)
  show ?thesis
    unfolding sample_world_def
    by (intro add restrict base) (simp_all add: register_def restrictHands_def admits_def new_registry_def set_reg_def tools_of_def
      drop_refused_def sample_tool_def hands_ok_def refuse_def unregister_def jmap_del_def)
qed

theorem only_admitted_tools_run_witness:
  "get_tool 0 ''Echo'' sample_world = Some (sample_tool ''Echo'' PureHands) \<and> t_hands (sample_tool ''Echo'' PureHands) \<in> Some ` {PureHands, RoutedHands} \<and>
   get_tool 0 ''Read'' sample_world = None"
proof -
  have run: "runTool no_host [] 0 ''Echo'' (JObj [(''text'', JStr ''hi'')]) sample_world =
      ((run_call [] (sample_tool ''Echo'' PureHands) ''Echo'' (JObj [(''text'', JStr ''hi'')]), Some (sample_tool ''Echo'' PureHands, JObj [(''text'', JStr ''hi'')])), sample_world)"
    by (simp add: sample_world_form runTool_def resolve_def get_tool_def run_resolved_def shown_tool_def new_registry_def MALFORMED_INPUT_KEY_def sample_tool_def)
  have "0 < length (tw_registries sample_world)" by (simp add: sample_world_form)
  from only_admitted_tools_run [OF sample_world_reached this run] show ?thesis
    by (simp add: handsRestriction_def sample_world_form new_registry_def get_tool_def)
qed

section \<open>What an error repeats of the input\<close>

text \<open>Inputs that differ only in texts, arrays and objects under keys that look secret.\<close>

inductive agree :: "json \<Rightarrow> json \<Rightarrow> bool" where
  same: "agree v v"
| arr: "list_all2 agree xs ys \<Longrightarrow> agree (JArr xs) (JArr ys)"
| obj: "list_all2 (\<lambda>a b. fst a = fst b \<and> (secret_key (fst a) \<and> hideable (snd a) \<and> hideable (snd b) \<or> agree (snd a) (snd b))) kvs kvs' \<Longrightarrow>
    agree (JObj kvs) (JObj kvs')"

lemma map_eq_list_all2: "map f xs = map f ys \<longleftrightarrow> list_all2 (\<lambda>x y. f x = f y) xs ys"
  by (simp add: list_all2_conv_all_nth list_eq_iff_nth_eq) auto

lemma agree_hideable: "agree v w \<Longrightarrow> hideable v \<longleftrightarrow> hideable w"
  by (cases rule: agree.cases) (auto simp: hideable_def)

lemma hide_secrets_agree: "agree v w \<Longrightarrow> hide_secrets v = hide_secrets w"
proof (induction rule: agree.induct)
  case (arr xs ys)
  then show ?case by (auto simp: map_eq_list_all2 elim: list_all2_mono)
next
  case (obj kvs kvs')
  then show ?case using agree_hideable by (auto simp: map_eq_list_all2 case_prod_beta elim!: list_all2_mono)
qed simp

lemma agree_has_key:
  assumes "agree v w"
  shows "jget k v = None \<longleftrightarrow> jget k w = None"
  using assms
proof cases
  case (obj kvs kvs')
  then have "map fst kvs = map fst kvs'" by (auto simp: map_eq_list_all2 elim: list_all2_mono)
  then have "fst ` set kvs = fst ` set kvs'" by (metis list.set_map)
  with obj show ?thesis by (simp add: map_of_eq_None_iff)
qed auto

text \<open>A call refused for its input repeats nothing of a value under a key that looks secret: inputs that differ only there, and
  fail with the same message, are answered with the same text.\<close>

theorem echo_hides_secrets:
  assumes "agree raw raw'" "jget MALFORMED_INPUT_KEY raw = None" "t_parse t raw = Inl m" "t_parse t raw' = Inl m"
  shows "run_resolved secrets vis t name raw = run_resolved secrets vis t name raw'"
proof -
  have "jget MALFORMED_INPUT_KEY raw' = None" using agree_has_key [OF assms(1)] assms(2) by blast
  then show ?thesis using assms(2-4) hide_secrets_agree [OF assms(1)] by (simp add: run_resolved_def invalid_input_def)
qed

theorem echo_hides_secrets_witness:
  "run_resolved [] True (sample_tool ''Login'' PureHands) ''Login'' (JObj [(''api_key'', JStr ''hunter2'')]) =
   run_resolved [] True (sample_tool ''Login'' PureHands) ''Login'' (JObj [(''api_key'', JStr ''swordfish'')])"
proof (rule echo_hides_secrets)
  have "secret_key ''api_key''" by code_simp
  then show "agree (JObj [(''api_key'', JStr ''hunter2'')]) (JObj [(''api_key'', JStr ''swordfish'')])"
    by (intro agree.obj) (simp add: hideable_def)
qed (simp_all add: MALFORMED_INPUT_KEY_def sample_tool_def)

section \<open>Deferred tools wait\<close>

lemma load_tools_deferred [simp]: "dt_deferred (load_tools names d) = dt_deferred d"
  unfolding load_tools_def by (induction names arbitrary: d) auto

lemma load_tools_loaded: "n \<in> set (dt_loaded (load_tools names d)) \<longleftrightarrow> n \<in> set (dt_loaded d) \<or> n \<in> set names \<and> isDeferred n d"
  unfolding load_tools_def
proof (induction names arbitrary: d)
  case (Cons m names)
  show ?case by (simp add: Cons.IH) (auto simp: isDeferred_def)
qed simp

text \<open>A deferred tool runs for no call, whatever its input, before ToolSearch has loaded its name, and the call is told how to load
  it; loading other names changes nothing, loading its own makes the call the one it would be if the tool had never been deferred, and
  forgetting it (its server is gone) undefers it.\<close>

theorem deferred_waits:
  assumes "resolve host r name w = (Some t, w')" "rg_schemaFilter (reg r w') = visible (load_tools names d)"
    "map_of (dt_deferred d) (t_name t) = Some server" "t_name t \<notin> set (dt_loaded d)"
  shows "fst (runTool host secrets r name raw w) =
      (if t_name t \<in> set names then run_resolved secrets True t name raw else (deferred_tool name, None)) \<and>
    visible (forget (t_name t) d) t"
  using assms by (simp add: runTool_def run_resolved_def shown_tool_def visible_def isDeferred_def isLoaded_def load_tools_loaded forget_def jmap_del_def
      map_of_eq_None_iff) auto

theorem deferred_waits_witness:
  "fst (runTool no_host [] 0 ''Echo'' (JObj []) (setSchemaFilter 0 (visible (load_tools [''Other''] (defer_tool ''Echo'' ''srv'' \<lparr>dt_deferred = [], dt_loaded = []\<rparr>))) sample_world)) =
     (deferred_tool ''Echo'', None)"
  using deferred_waits [of no_host 0 "''Echo''" "setSchemaFilter 0 (visible (load_tools [''Other''] (defer_tool ''Echo'' ''srv'' \<lparr>dt_deferred = [], dt_loaded = []\<rparr>))) sample_world"
      "sample_tool ''Echo'' PureHands" "setSchemaFilter 0 (visible (load_tools [''Other''] (defer_tool ''Echo'' ''srv'' \<lparr>dt_deferred = [], dt_loaded = []\<rparr>))) sample_world"
      "[''Other'']" "defer_tool ''Echo'' ''srv'' \<lparr>dt_deferred = [], dt_loaded = []\<rparr>" "''srv''" "[]" "JObj []"]
  by (simp add: resolve_def get_tool_def setSchemaFilter_def set_reg_def sample_world_form defer_tool_def sample_tool_def)

end
