(* ===== verification/Hooks.thy ===== *)
theory Hooks
  imports Permission Json
begin

text \<open>
  \<open>hooks/types.ts\<close> and \<open>hooks/engine.ts\<close>: the events, the filter of a configured hook, the engine that runs the
  hooks of an event in order and isolates one that throws, and the four kinds of hook.  A hook's
  result comes from \<open>JSON.parse\<close> without a check, so it is the object as it is: a map from names to JSON values.
  A throw is \<open>Inl\<close> with its message.  What is outside the source is a parameter: the regular
  expressions a configuration writes, a command's process, the HTTP exchange and the judging model's reply.
\<close>

section \<open>Events\<close>

datatype hook_event =
    UserPromptSubmit | PreToolUse | PostToolUse | Stop | SessionStart | SessionEnd | PreCompact | SubagentStop
  | PermissionRequest | NotificationHook | PostCompact | SubagentStart | StopFailure | ConfigChange | WorktreeCreate | TeammateIdle

definition HOOK_EVENTS :: "hook_event list" where
  "HOOK_EVENTS =
     [UserPromptSubmit, PreToolUse, PostToolUse, Stop, SessionStart, SessionEnd, PreCompact, SubagentStop,
      PermissionRequest, NotificationHook, PostCompact, SubagentStart, StopFailure, ConfigChange, WorktreeCreate, TeammateIdle]"

fun event_name :: "hook_event \<Rightarrow> string" where
  "event_name UserPromptSubmit = ''UserPromptSubmit''"
| "event_name PreToolUse = ''PreToolUse''"
| "event_name PostToolUse = ''PostToolUse''"
| "event_name Stop = ''Stop''"
| "event_name SessionStart = ''SessionStart''"
| "event_name SessionEnd = ''SessionEnd''"
| "event_name PreCompact = ''PreCompact''"
| "event_name SubagentStop = ''SubagentStop''"
| "event_name PermissionRequest = ''PermissionRequest''"
| "event_name NotificationHook = ''Notification''"
| "event_name PostCompact = ''PostCompact''"
| "event_name SubagentStart = ''SubagentStart''"
| "event_name StopFailure = ''StopFailure''"
| "event_name ConfigChange = ''ConfigChange''"
| "event_name WorktreeCreate = ''WorktreeCreate''"
| "event_name TeammateIdle = ''TeammateIdle''"

text \<open>An input names its event; its other fields are read by name.\<close>

record hook_input =
  hi_event :: hook_event
  hi_fields :: "(string, json) jmap"

definition input_json :: "hook_input \<Rightarrow> json" where
  "input_json i = JObj ((''event'', JStr (event_name (hi_event i))) # hi_fields i)"

definition opt_field :: "string \<Rightarrow> string option \<Rightarrow> (string, json) jmap" where
  "opt_field k v = (case v of None \<Rightarrow> [] | Some s \<Rightarrow> [(k, JStr s)])"

definition user_prompt_submit :: "string \<Rightarrow> hook_input" where
  "user_prompt_submit prompt = \<lparr>hi_event = UserPromptSubmit, hi_fields = [(''prompt'', JStr prompt)]\<rparr>"

definition pre_tool_use :: "string \<Rightarrow> json \<Rightarrow> hook_input" where
  "pre_tool_use toolName inp = \<lparr>hi_event = PreToolUse, hi_fields = [(''toolName'', JStr toolName), (''input'', inp)]\<rparr>"

definition post_tool_use :: "string \<Rightarrow> json \<Rightarrow> string \<Rightarrow> bool \<Rightarrow> hook_input" where
  "post_tool_use toolName inp res isError =
     \<lparr>hi_event = PostToolUse,
      hi_fields = [(''toolName'', JStr toolName), (''input'', inp), (''result'', JStr res), (''isError'', JBool isError)]\<rparr>"

definition stop_input :: "nat \<Rightarrow> hook_input" where
  "stop_input numTurns = \<lparr>hi_event = Stop, hi_fields = [(''numTurns'', JNum (int numTurns))]\<rparr>"

definition permission_request_input :: "string \<Rightarrow> json \<Rightarrow> string option \<Rightarrow> string option \<Rightarrow> hook_input" where
  "permission_request_input toolName inp reason safetyReason =
     \<lparr>hi_event = PermissionRequest,
      hi_fields = [(''toolName'', JStr toolName), (''input'', inp)] @ opt_field ''reason'' reason @ opt_field ''safetyReason'' safetyReason\<rparr>"

definition stop_failure_input :: "string \<Rightarrow> string option \<Rightarrow> nat \<Rightarrow> hook_input" where
  "stop_failure_input reason verdict continuations =
     \<lparr>hi_event = StopFailure,
      hi_fields = [(''reason'', JStr reason)] @ opt_field ''verdict'' verdict @ [(''continuations'', JNum (int continuations))]\<rparr>"

record hook_context =
  hx_sessionId :: string
  hx_agentId :: string
  hx_cwd :: string
  hx_runId :: "string option"

type_synonym hook_result = "(string, json) jmap"

section \<open>The filter of a configured hook\<close>

datatype one_or_many = OneOf string | ManyOf "string list"

record hook_when =
  hw_toolName :: "one_or_many option"
  hw_command :: "string option"
  hw_prompt :: "string option"
  hw_isError :: "bool option"
  hw_kind :: "one_or_many option"
  hw_agentType :: "one_or_many option"

text \<open>\<open>new RegExp(pattern)\<close>: the test it makes, or \<open>None\<close> when the pattern is no expression.\<close>

type_synonym regexps = "string \<Rightarrow> (string \<Rightarrow> bool) option"

definition field_of :: "string \<Rightarrow> hook_input \<Rightarrow> json option" where
  "field_of k i = (if k = ''event'' then Some (JStr (event_name (hi_event i))) else map_of (hi_fields i) k)"

definition matches_one :: "one_or_many option \<Rightarrow> json option \<Rightarrow> bool" where
  "matches_one want got =
     (case want of
        None \<Rightarrow> True
      | Some w \<Rightarrow> (case got of
                     Some (JStr s) \<Rightarrow> (case w of OneOf x \<Rightarrow> x = s | ManyOf xs \<Rightarrow> s \<in> set xs)
                   | _ \<Rightarrow> False))"

definition matches_re :: "regexps \<Rightarrow> string option \<Rightarrow> json option \<Rightarrow> bool" where
  "matches_re regexp pattern got =
     (case pattern of
        None \<Rightarrow> True
      | Some p \<Rightarrow> (case got of
                     Some (JStr s) \<Rightarrow> (case regexp p of None \<Rightarrow> False | Some test \<Rightarrow> test s)
                   | _ \<Rightarrow> False))"

definition truthy :: "json \<Rightarrow> bool" where
  "truthy v =
     (case v of JNull \<Rightarrow> False | JBool b \<Rightarrow> b | JNum n \<Rightarrow> n \<noteq> 0 | JStr s \<Rightarrow> s \<noteq> [] | _ \<Rightarrow> True)"

definition nullish :: "json option \<Rightarrow> bool" where
  "nullish v = (v = None \<or> v = Some JNull)"

definition command_field :: "hook_input \<Rightarrow> json option" where
  "command_field i =
     (let c = Option.bind (field_of ''input'' i) (jget ''command'') in if nullish c then field_of ''command'' i else c)"

definition matchesWhen :: "regexps \<Rightarrow> hook_when option \<Rightarrow> hook_input \<Rightarrow> bool" where
  "matchesWhen regexp when i =
     (case when of
        None \<Rightarrow> True
      | Some w \<Rightarrow>
          matches_one (hw_toolName w) (field_of ''toolName'' i) \<and>
          matches_one (hw_kind w) (field_of ''kind'' i) \<and>
          matches_one (hw_agentType w) (field_of ''agentType'' i) \<and>
          (case hw_isError w of
             None \<Rightarrow> True
           | Some e \<Rightarrow> (case field_of ''isError'' i of None \<Rightarrow> False | Some v \<Rightarrow> truthy v) = e) \<and>
          matches_re regexp (hw_command w) (command_field i) \<and>
          matches_re regexp (hw_prompt w) (field_of ''prompt'' i))"

section \<open>Results\<close>

definition HOOK_OUTPUT_CAP :: nat where "HOOK_OUTPUT_CAP = 16 * 1024"

definition clipped :: "string \<Rightarrow> nat \<Rightarrow> string" where
  "clipped s cap = s @ [nl] @ ''[hook output clipped at '' @ nat_str cap @ '' characters]''"

text \<open>
  \<open>clip\<close> takes \<open>length\<close> and \<open>slice\<close> of whatever value the field has: a text and an array have both, an object may
  have a \<open>length\<close> of its own and then no \<open>slice\<close>.  A text in the place of a number counts as the decimal number it spells.
\<close>

definition as_number :: "json \<Rightarrow> rat option" where
  "as_number v =
     (case v of
        JNum n \<Rightarrow> Some (of_int n)
      | JFrac q \<Rightarrow> Some q
      | JStr s \<Rightarrow> (case json_parse (trim s) of Some (JNum n) \<Rightarrow> Some (of_int n) | Some (JFrac q) \<Rightarrow> Some q | _ \<Rightarrow> None)
      | _ \<Rightarrow> None)"

definition exceeds_cap :: "json option \<Rightarrow> nat \<Rightarrow> bool" where
  "exceeds_cap v cap = (case Option.bind v as_number of None \<Rightarrow> False | Some q \<Rightarrow> q > of_nat cap)"

definition clip_value :: "nat \<Rightarrow> json \<Rightarrow> string + json" where
  "clip_value cap v =
     (case v of
        JStr s \<Rightarrow> Inr (if length s > cap then JStr (clipped (take cap s) cap) else v)
      | JArr xs \<Rightarrow> Inr (if length xs > cap then JStr (clipped (js_string (JArr (take cap xs))) cap) else v)
      | JObj _ \<Rightarrow> if exceeds_cap (jget ''length'' v) cap then Inl ''v.slice is not a function'' else Inr v
      | _ \<Rightarrow> Inr v)"

definition clip_field :: "nat \<Rightarrow> string \<Rightarrow> hook_result \<Rightarrow> string + hook_result" where
  "clip_field cap k r =
     (case map_of r k of
        None \<Rightarrow> Inr r
      | Some v \<Rightarrow> if truthy v then map_sum id (\<lambda>v'. jmap_set k v' r) (clip_value cap v) else Inr r)"

definition bind_sum :: "'e + 'a \<Rightarrow> ('a \<Rightarrow> 'e + 'b) \<Rightarrow> 'e + 'b" where
  "bind_sum m f = (case m of Inl e \<Rightarrow> Inl e | Inr x \<Rightarrow> f x)"

definition clipHookResult :: "nat \<Rightarrow> hook_result \<Rightarrow> string + hook_result" where
  "clipHookResult cap r =
     bind_sum (clip_field cap ''injectContext'' r) (\<lambda>r1. bind_sum (clip_field cap ''reason'' r1) (clip_field cap ''updatedPrompt''))"

text \<open>The own properties of what was parsed; the members of an array have their indices as names.\<close>

definition object_fields :: "json \<Rightarrow> hook_result" where
  "object_fields v =
     (case v of
        JObj kvs \<Rightarrow> fold (\<lambda>(k, x). jmap_set k x) kvs []
      | JArr xs \<Rightarrow> map (\<lambda>(i, x). (nat_str i, x)) (List.enumerate 0 xs)
      | _ \<Rightarrow> [])"

definition parseHookOutput :: "string \<Rightarrow> hook_result" where
  "parseHookOutput stdout =
     (let t = trim stdout
      in if t = [] then []
         else (case json_parse t of Some v \<Rightarrow> object_fields v | None \<Rightarrow> [(''injectContext'', JStr t)]))"

definition hookResultOf :: "int option \<Rightarrow> string \<Rightarrow> string \<Rightarrow> string + hook_result" where
  "hookResultOf code stdout stderr =
     bind_sum (clipHookResult HOOK_OUTPUT_CAP (parseHookOutput stdout)) (\<lambda>parsed.
       if code \<noteq> Some 2 then Inr parsed
       else
         let given = map_of parsed ''reason'';
             err = take HOOK_OUTPUT_CAP (trim stderr);
             reason = (if nullish given then JStr (if err = [] then ''blocked by hook'' else err) else the given)
         in Inr (jmap_set ''reason'' reason (jmap_set ''block'' (JBool True) parsed)))"

section \<open>The engine\<close>

record hook =
  hk_id :: string
  hk_events :: "hook_event list"
  hk_run :: "hook_input \<Rightarrow> hook_context \<Rightarrow> string + hook_result"

definition filtered_hook :: "regexps \<Rightarrow> hook \<Rightarrow> hook_when \<Rightarrow> hook" where
  "filtered_hook regexp inner when = inner\<lparr>hk_run := (\<lambda>i x. if matchesWhen regexp (Some when) i then hk_run inner i x else Inr [])\<rparr>"

record hook_failure =
  hf_hook :: string
  hf_event :: hook_event
  hf_error :: string

record hook_engine =
  he_hooks :: "hook list"
  he_log :: "hook_failure list"

definition register_hook :: "hook \<Rightarrow> hook_engine \<Rightarrow> hook_engine" where
  "register_hook h e = e\<lparr>he_hooks := he_hooks e @ [h]\<rparr>"

definition has_event :: "hook_event \<Rightarrow> hook_engine \<Rightarrow> bool" where
  "has_event ev e = list_ex (\<lambda>h. ev \<in> set (hk_events h)) (he_hooks e)"

definition run_hook :: "hook_input \<Rightarrow> hook_context \<Rightarrow> hook \<Rightarrow> hook_result list \<times> hook_engine \<Rightarrow> hook_result list \<times> hook_engine" where
  "run_hook i x h st =
     (case hk_run h i x of
        Inr r \<Rightarrow> (fst st @ [r], snd st)
      | Inl msg \<Rightarrow> (fst st, (snd st)\<lparr>he_log := he_log (snd st) @ [\<lparr>hf_hook = hk_id h, hf_event = hi_event i, hf_error = msg\<rparr>]\<rparr>))"

definition run_hooks :: "hook_input \<Rightarrow> hook_context \<Rightarrow> hook_engine \<Rightarrow> hook_result list \<times> hook_engine" where
  "run_hooks i x e = fold (run_hook i x) (filter (\<lambda>h. hi_event i \<in> set (hk_events h)) (he_hooks e)) ([], e)"

section \<open>Kinds of hook\<close>

definition function_hook :: "string \<Rightarrow> hook_event list \<Rightarrow> (hook_input \<Rightarrow> hook_context \<Rightarrow> string + hook_result) \<Rightarrow> hook" where
  "function_hook i events f = \<lparr>hk_id = i, hk_events = events, hk_run = f\<rparr>"

text \<open>A command: on the host's runner, or a local process that fails to start or closes.\<close>

record process_end =
  pe_code :: "int option"
  pe_stdout :: string
  pe_stderr :: string

datatype command_place =
    Elsewhere "string \<Rightarrow> string \<Rightarrow> nat \<Rightarrow> string \<Rightarrow> string + process_end"
  | LocalShell "string \<Rightarrow> string \<Rightarrow> nat \<Rightarrow> string \<Rightarrow> process_end option"

text \<open>The arguments of a place are the command, the input on stdin, the time limit and the session (the directory of a local shell).\<close>

definition or_default :: "'a option \<Rightarrow> 'a \<Rightarrow> 'a" where
  "or_default x d = (case x of None \<Rightarrow> d | Some v \<Rightarrow> v)"

definition run_elsewhere :: "(string \<Rightarrow> string \<Rightarrow> nat \<Rightarrow> string \<Rightarrow> string + process_end) \<Rightarrow> string \<Rightarrow> nat \<Rightarrow> hook_input \<Rightarrow> hook_context \<Rightarrow> hook_result" where
  "run_elsewhere runner cmd timeout i x =
     (case runner cmd (json_str (input_json i)) timeout (hx_sessionId x) of
        Inl _ \<Rightarrow> []
      | Inr p \<Rightarrow> (case hookResultOf (pe_code p) (pe_stdout p) (pe_stderr p) of Inl _ \<Rightarrow> [] | Inr r \<Rightarrow> r))"

text \<open>A local hook whose output cannot be clipped throws in the listener of its process: no result comes, the error is nobody's.\<close>

datatype 'a settled = Settles 'a | Uncaught string

definition run_local :: "(string \<Rightarrow> string \<Rightarrow> nat \<Rightarrow> string \<Rightarrow> process_end option) \<Rightarrow> string \<Rightarrow> nat \<Rightarrow> hook_input \<Rightarrow> hook_context \<Rightarrow> hook_result settled" where
  "run_local bash cmd timeout i x =
     (case bash cmd (json_str (input_json i)) timeout (hx_cwd x) of
        None \<Rightarrow> Settles []
      | Some p \<Rightarrow> (case hookResultOf (pe_code p) (pe_stdout p) (pe_stderr p) of Inl e \<Rightarrow> Uncaught e | Inr r \<Rightarrow> Settles r))"

definition command_run :: "command_place \<Rightarrow> string \<Rightarrow> nat option \<Rightarrow> hook_input \<Rightarrow> hook_context \<Rightarrow> hook_result settled" where
  "command_run place cmd timeoutMs i x =
     (let timeout = or_default timeoutMs 30000
      in case place of
           Elsewhere runner \<Rightarrow> Settles (run_elsewhere runner cmd timeout i x)
         | LocalShell bash \<Rightarrow> run_local bash cmd timeout i x)"

text \<open>An HTTP hook: the answer's status and body, or an error; a failure is logged once.\<close>

record http_hook =
  hh_url :: string
  hh_headers :: "(string, string) jmap"
  hh_timeoutMs :: "nat option"
  hh_warned :: bool

definition http_body :: "hook_input \<Rightarrow> hook_context \<Rightarrow> json" where
  "http_body i x =
     JObj (jmap_set ''context''
       (JObj ([(''sessionId'', JStr (hx_sessionId x)), (''agentId'', JStr (hx_agentId x))] @ opt_field ''runId'' (hx_runId x)))
       ((''event'', JStr (event_name (hi_event i))) # hi_fields i))"

definition http_headers :: "http_hook \<Rightarrow> (string, string) jmap" where
  "http_headers h = fold (\<lambda>(k, v). jmap_set k v) (hh_headers h) [(''content-type'', ''application/json'')]"

type_synonym http_fetch = "string \<Rightarrow> (string, string) jmap \<Rightarrow> string \<Rightarrow> nat \<Rightarrow> string + nat \<times> string"

definition http_run :: "http_fetch \<Rightarrow> hook_input \<Rightarrow> hook_context \<Rightarrow> http_hook \<Rightarrow> (hook_result \<times> bool) \<times> http_hook" where
  "http_run fetch i x h =
     (let answer = fetch (hh_url h) (http_headers h) (json_str (http_body i x)) (or_default (hh_timeoutMs h) 10000);
          res = bind_sum answer (\<lambda>(status, body).
                  if status < 200 \<or> 299 < status then Inl (''HTTP '' @ nat_str status)
                  else clipHookResult HOOK_OUTPUT_CAP (parseHookOutput body))
      in case res of
           Inr r \<Rightarrow> ((r, False), h)
         | Inl _ \<Rightarrow> (([], \<not> hh_warned h), h\<lparr>hh_warned := True\<rparr>))"

text \<open>A prompt hook: the model's reply, or the error of the call.\<close>

definition prompt_message :: "string \<Rightarrow> hook_input \<Rightarrow> string" where
  "prompt_message rule i = ''Rule: '' @ rule @ [nl, nl] @ ''Event:'' @ [nl] @ take 12000 (json_str (input_json i))"

definition reply_text :: "msg_content \<Rightarrow> string" where
  "reply_text c = (case c of StrContent s \<Rightarrow> s | Blocks bs \<Rightarrow> concat (map (\<lambda>b. case b of TextBlock t \<Rightarrow> t | _ \<Rightarrow> []) bs))"

definition last_index :: "('a \<Rightarrow> bool) \<Rightarrow> 'a list \<Rightarrow> nat option" where
  "last_index P xs = map_option (\<lambda>i. length xs - 1 - i) (find_index P (rev xs))"

definition braced :: "string \<Rightarrow> string option" where
  "braced s =
     (case (find_index (\<lambda>c. c = CHR ''{'') s, last_index (\<lambda>c. c = CHR ''}'') s) of
        (Some a, Some b) \<Rightarrow> if b \<le> a then None else Some (take (b + 1 - a) (drop a s))
      | _ \<Rightarrow> None)"

definition verdict_of :: "string \<Rightarrow> string \<Rightarrow> hook_result" where
  "verdict_of rule text =
     (case braced text of
        None \<Rightarrow> []
      | Some s \<Rightarrow>
          (case json_parse s of
             None \<Rightarrow> []
           | Some v \<Rightarrow>
               if jget ''block'' v = Some (JBool True)
               then [(''block'', JBool True),
                     (''reason'', JStr (case jget ''reason'' v of Some (JStr r) \<Rightarrow> take 500 r | _ \<Rightarrow> ''blocked by rule: '' @ rule))]
               else []))"

definition prompt_run :: "(string \<Rightarrow> string + msg_content) \<Rightarrow> string \<Rightarrow> hook_input \<Rightarrow> hook_result" where
  "prompt_run model rule i = (case model (prompt_message rule i) of Inl _ \<Rightarrow> [] | Inr c \<Rightarrow> verdict_of rule (reply_text c))"

section \<open>Plugin hooks\<close>

text \<open>What a plugin's module asks of the api, in order.\<close>

datatype plugin_call =
    OnEvent hook_event "hook_input \<Rightarrow> hook_context \<Rightarrow> string + hook_result"
  | ToolCheck "string \<Rightarrow> json \<Rightarrow> hook_context \<Rightarrow> string + hook_result"

definition plugin_id :: "string \<Rightarrow> string \<Rightarrow> nat \<Rightarrow> string" where
  "plugin_id name what n = ''plugin:'' @ name @ '':'' @ what @ ''#'' @ nat_str n"

definition plugin_hook :: "string \<Rightarrow> nat \<Rightarrow> plugin_call \<Rightarrow> hook" where
  "plugin_hook name n c =
     (case c of
        OnEvent ev handler \<Rightarrow>
          function_hook (plugin_id name (event_name ev) n) [ev] (\<lambda>i x. if hi_event i = ev then handler i x else Inr [])
      | ToolCheck handler \<Rightarrow>
          function_hook (plugin_id name ''tool.check'' n) [PreToolUse]
            (\<lambda>i x. if hi_event i = PreToolUse
                   then handler (case field_of ''toolName'' i of Some (JStr t) \<Rightarrow> t | _ \<Rightarrow> [])
                          (case field_of ''input'' i of Some v \<Rightarrow> v | None \<Rightarrow> JObj []) x
                   else Inr []))"

definition plugin_registers :: "string \<Rightarrow> plugin_call \<Rightarrow> hook_engine \<times> nat \<Rightarrow> hook_engine \<times> nat" where
  "plugin_registers name c st = (register_hook (plugin_hook name (snd st + 1) c) (fst st), snd st + 1)"

definition registerPluginHooks :: "string \<Rightarrow> plugin_call list \<Rightarrow> hook_engine \<Rightarrow> hook_engine \<times> nat" where
  "registerPluginHooks name calls e = fold (plugin_registers name) calls (e, 0)"

section \<open>One bad hook breaks no run\<close>

definition hook_results :: "hook_input \<Rightarrow> hook_context \<Rightarrow> hook list \<Rightarrow> hook_result list" where
  "hook_results i x hs = List.map_filter (\<lambda>h. case hk_run h i x of Inr r \<Rightarrow> Some r | Inl _ \<Rightarrow> None) hs"

definition hook_failures :: "hook_input \<Rightarrow> hook_context \<Rightarrow> hook list \<Rightarrow> hook_failure list" where
  "hook_failures i x hs =
     List.map_filter (\<lambda>h. case hk_run h i x of Inr _ \<Rightarrow> None | Inl m \<Rightarrow> Some \<lparr>hf_hook = hk_id h, hf_event = hi_event i, hf_error = m\<rparr>) hs"

lemma fold_run_hook:
  "fold (run_hook i x) hs (out, e) = (out @ hook_results i x hs, e\<lparr>he_log := he_log e @ hook_failures i x hs\<rparr>)"
  by (induction hs arbitrary: out e)
    (simp_all add: run_hook_def hook_results_def hook_failures_def map_filter_simps split: sum.split)

lemma numbered_inject:
  assumes "a @ ''#'' @ nat_str m = b @ ''#'' @ nat_str n"
  shows "m = n"
proof -
  have t: "takeWhile (\<lambda>c. c \<noteq> CHR ''#'') (rev (a @ ''#'' @ nat_str k)) = rev (nat_str k)" for a k
  proof -
    have "\<forall>c \<in> set (nat_str k). c \<noteq> CHR ''#''" using nat_str_digits [of k] by (auto simp: list_all_iff is_digit_def)
    then show ?thesis by (simp add: takeWhile_append)
  qed
  from t [of a m] t [of b n] assms have "rev (nat_str m) = rev (nat_str n)" by (metis (no_types))
  then show ?thesis by simp
qed

lemma plugin_hook_numbered: "\<exists>a. hk_id (plugin_hook name n c) = a @ ''#'' @ nat_str n"
  by (cases c) (auto simp: plugin_hook_def function_hook_def plugin_id_def intro: exI [of _ "''plugin:'' @ name @ CHR '':'' # x" for x])

lemma plugin_ids_distinct: "distinct (map hk_id (map (\<lambda>(k, c). plugin_hook name (k + 1) c) (List.enumerate j calls)))"
proof -
  have "k = k'" if "hk_id (plugin_hook name (k + 1) c) = hk_id (plugin_hook name (k' + 1) c')" for k k' c c'
    using that plugin_hook_numbered [of name "k + 1" c] plugin_hook_numbered [of name "k' + 1" c'] numbered_inject
    by (metis Suc_eq_plus1 nat.inject)
  then show ?thesis
    by (auto simp: distinct_map inj_on_def distinct_enumerate in_set_enumerate_eq)
      (metis nth_enumerate_eq fst_conv)+
qed

text \<open>An event runs every hook registered for it (a plugin's among them, which fire for their own event alone), in the order of
  registration: those that throw are logged and give no result, the results of the others are all there, and registering a plugin's hooks
  after others changes no result of theirs.\<close>

theorem hooks_isolated:
  assumes "registerPluginHooks name calls e = (e', n)"
  shows "run_hooks i x e' =
      (hook_results i x (filter (\<lambda>h. hi_event i \<in> set (hk_events h)) (he_hooks e)) @
         hook_results i x (filter (\<lambda>h. hi_event i \<in> set (hk_events h)) (map (\<lambda>(k, c). plugin_hook name (k + 1) c) (List.enumerate 0 calls))),
       e'\<lparr>he_log := he_log e @ hook_failures i x (filter (\<lambda>h. hi_event i \<in> set (hk_events h)) (he_hooks e')) \<rparr>) \<and>
     n = length calls \<and> distinct (map hk_id (map (\<lambda>(k, c). plugin_hook name (k + 1) c) (List.enumerate 0 calls)))"
proof -
  have "fold (plugin_registers name) cs (d, k) =
      (d\<lparr>he_hooks := he_hooks d @ map (\<lambda>(j, c). plugin_hook name (j + 1) c) (List.enumerate k cs)\<rparr>, k + length cs)" for cs d k
    by (induction cs arbitrary: d k) (simp_all add: plugin_registers_def register_hook_def)
  from this [of calls e 0] assms have e': "e' = e\<lparr>he_hooks := he_hooks e @ map (\<lambda>(j, c). plugin_hook name (j + 1) c) (List.enumerate 0 calls)\<rparr>"
    and n: "n = length calls"
    by (simp_all add: registerPluginHooks_def)
  have "run_hooks i x e' = (hook_results i x (filter (\<lambda>h. hi_event i \<in> set (hk_events h)) (he_hooks e')),
      e'\<lparr>he_log := he_log e @ hook_failures i x (filter (\<lambda>h. hi_event i \<in> set (hk_events h)) (he_hooks e'))\<rparr>)"
    by (simp add: run_hooks_def fold_run_hook) (simp add: e')
  moreover have "he_hooks e' = he_hooks e @ map (\<lambda>(j, c). plugin_hook name (j + 1) c) (List.enumerate 0 calls)" by (simp add: e')
  ultimately show ?thesis using n plugin_ids_distinct [of name 0 calls] by (simp only: filter_append hook_results_def map_filter_def map_append simp_thms)
qed

definition sample_hook :: "string \<Rightarrow> string + hook_result \<Rightarrow> hook" where
  "sample_hook n r = function_hook n [PreToolUse] (\<lambda>i x. r)"

definition sample_engine :: hook_engine where
  "sample_engine = \<lparr>he_hooks = [sample_hook ''a'' (Inl ''boom''), sample_hook ''b'' (Inr [(''block'', JBool True)])], he_log = []\<rparr>"

theorem hooks_isolated_witness:
  "fst (run_hooks (pre_tool_use ''Bash'' (JObj [])) x
      (fst (registerPluginHooks ''p'' [OnEvent Stop (\<lambda>i x. Inl ''no''), ToolCheck (\<lambda>t i x. Inr [(''reason'', JStr t)])] sample_engine))) =
     [[(''block'', JBool True)], [(''reason'', JStr ''Bash'')]]"
  by (subst hooks_isolated [THEN conjunct1, OF surjective_pairing])
    (simp add: sample_engine_def sample_hook_def hook_results_def function_hook_def plugin_hook_def pre_tool_use_def field_of_def map_filter_simps)

section \<open>What a command's output can do\<close>

definition clipped_fields :: "string list" where "clipped_fields = [''injectContext'', ''reason'', ''updatedPrompt'']"

definition text_result :: "hook_result \<Rightarrow> bool" where
  "text_result r \<longleftrightarrow> list_all (\<lambda>k. case map_of r k of None \<Rightarrow> True | Some (JStr _) \<Rightarrow> True | _ \<Rightarrow> False) clipped_fields"

definition cut :: "nat \<Rightarrow> string \<Rightarrow> string" where
  "cut cap s = (if length s > cap then clipped (take cap s) cap else s)"

lemma clip_field_text:
  assumes "map_of r k = map_option JStr t"
  shows "\<exists>r'. clip_field cap k r = Inr r' \<and> map_of r' = (map_of r)(k := map_option (JStr \<circ> cut cap) t)"
proof (cases t)
  case None
  with assms show ?thesis by (auto simp: clip_field_def)
next
  case (Some s)
  have "map_of (jmap_set k v r) = (map_of r)(k := Some v)" for v by (auto simp: map_of_jmap_set)
  with Some assms show ?thesis by (auto simp: clip_field_def clip_value_def cut_def truthy_def intro: exI [of _ r])
qed

lemma clipHookResult_text:
  assumes "text_result r"
  shows "\<exists>r'. clipHookResult cap r = Inr r' \<and>
    map_of r' = (\<lambda>k. if k \<in> set clipped_fields then (case map_of r k of Some (JStr s) \<Rightarrow> Some (JStr (cut cap s)) | _ \<Rightarrow> None) else map_of r k)"
proof -
  have t: "\<exists>t. map_of r k = map_option JStr t" if "k \<in> set clipped_fields" for k
  proof (cases "map_of r k")
    case None
    then show ?thesis by (intro exI [of _ None]) simp
  next
    case (Some v)
    with assms that obtain s where "v = JStr s" by (cases v) (force simp: text_result_def list_all_iff)+
    with Some show ?thesis by (intro exI [of _ "Some s"]) simp
  qed
  obtain t1 t2 t3 where t123: "map_of r ''injectContext'' = map_option JStr t1" "map_of r ''reason'' = map_option JStr t2" "map_of r ''updatedPrompt'' = map_option JStr t3"
    using t by (force simp: clipped_fields_def)
  obtain r1 where r1: "clip_field cap ''injectContext'' r = Inr r1" "map_of r1 = (map_of r)(''injectContext'' := map_option (JStr \<circ> cut cap) t1)"
    using clip_field_text [OF t123(1)] by blast
  then obtain r2 where r2: "clip_field cap ''reason'' r1 = Inr r2" "map_of r2 = (map_of r1)(''reason'' := map_option (JStr \<circ> cut cap) t2)"
    using clip_field_text [of r1 "''reason''" t2] t123 by auto
  then obtain r3 where r3: "clip_field cap ''updatedPrompt'' r2 = Inr r3" "map_of r3 = (map_of r2)(''updatedPrompt'' := map_option (JStr \<circ> cut cap) t3)"
    using clip_field_text [of r2 "''updatedPrompt''" t3] t123 r1 by auto
  show ?thesis
    using r1 r2 r3 t123
    by (intro exI [of _ r3]) (auto simp: clipHookResult_def bind_sum_def clipped_fields_def fun_eq_iff split: option.split)
qed

lemma length_cut: "length (cut HOOK_OUTPUT_CAP s) \<le> HOOK_OUTPUT_CAP + 50"
proof -
  have "length (clipped [] HOOK_OUTPUT_CAP) \<le> 50" by (simp add: clipped_def HOOK_OUTPUT_CAP_def nat_str.simps)
  then show ?thesis by (auto simp: cut_def clipped_def)
qed

text \<open>A command hook that exits with 2 blocks, whatever it printed, with a text for its reason; any other exit leaves the block to the
  output; and no text of a result is longer than the cap and its notice.  The texts the output names have to be texts.\<close>

theorem blocking_exit:
  assumes "text_result (parseHookOutput out)"
  shows "\<exists>r. hookResultOf code out err = Inr r \<and>
    (if code = Some 2 then map_of r ''block'' = Some (JBool True) \<and> (\<exists>s. map_of r ''reason'' = Some (JStr s))
     else map_of r ''block'' = map_of (parseHookOutput out) ''block'') \<and>
    (\<forall>k \<in> set clipped_fields. \<forall>s. map_of r k = Some (JStr s) \<longrightarrow> length s \<le> HOOK_OUTPUT_CAP + 50)"
proof -
  obtain p where p: "clipHookResult HOOK_OUTPUT_CAP (parseHookOutput out) = Inr p"
    and mp: "map_of p = (\<lambda>k. if k \<in> set clipped_fields then (case map_of (parseHookOutput out) k of Some (JStr s) \<Rightarrow> Some (JStr (cut HOOK_OUTPUT_CAP s)) | _ \<Rightarrow> None)
      else map_of (parseHookOutput out) k)"
    using clipHookResult_text [OF assms] by blast
  have b: "length s \<le> HOOK_OUTPUT_CAP + 50" if "k \<in> set clipped_fields" "map_of p k = Some (JStr s)" for k s
    using that length_cut by (auto simp: mp split: option.splits json.splits)
  have n: "''block'' \<notin> set clipped_fields" "''reason'' \<in> set clipped_fields" by (simp_all add: clipped_fields_def)
  have reason: "map_of p ''reason'' = None \<or> (\<exists>s. map_of p ''reason'' = Some (JStr s))"
    using n(2) by (auto simp: mp split: option.splits json.splits)
  show ?thesis
  proof (cases "code = Some 2")
    case False
    with p b n show ?thesis by (simp add: hookResultOf_def bind_sum_def) (auto simp: mp)
  next
    case True
    have "length (if take HOOK_OUTPUT_CAP (trim err) = [] then ''blocked by hook'' else take HOOK_OUTPUT_CAP (trim err)) \<le> HOOK_OUTPUT_CAP + 50"
      by (simp add: min_def)
    with True p b n reason show ?thesis
      by (auto simp: hookResultOf_def bind_sum_def Let_def map_of_jmap_set nullish_def)
  qed
qed

theorem blocking_exit_witness:
  "\<exists>r. hookResultOf (Some 2) ''not this one'' [] = Inr r \<and> map_of r ''block'' = Some (JBool True)"
proof -
  have "text_result (parseHookOutput ''not this one'')" by code_simp
  from blocking_exit [OF this, of "Some 2" "[]"] show ?thesis by auto
qed

text \<open>The proviso is needed: an output whose reason is an object with a large length is no text that can be cut, and the error
  is thrown in the listener of the local process, where nothing catches it, so the hook's block is lost with it.\<close>

definition long_reason :: string where "long_reason = json_str (JObj [(''reason'', JObj [(''length'', JNum 20000)])])"

lemma long_reason_output: "parseHookOutput long_reason = [(''reason'', JObj [(''length'', JNum 20000)])]"
proof -
  have "trim long_reason = long_reason" by (simp add: long_reason_def trim_def trimStart_def trimEnd_def is_ws_def)
  moreover have "json_parse long_reason = Some (JObj [(''reason'', JObj [(''length'', JNum 20000)])])"
    unfolding long_reason_def by (rule json_parse_str) simp
  moreover have "long_reason \<noteq> []" by (simp add: long_reason_def)
  ultimately show ?thesis by (simp add: parseHookOutput_def object_fields_def)
qed

theorem hook_length_crashes:
  "run_local (\<lambda>c i t d. Some \<lparr>pe_code = Some 2, pe_stdout = long_reason, pe_stderr = []\<rparr>) c t i x = Uncaught ''v.slice is not a function''"
  by (simp add: long_reason_output run_local_def hookResultOf_def clipHookResult_def clip_field_def bind_sum_def truthy_def clip_value_def
      exceeds_cap_def as_number_def HOOK_OUTPUT_CAP_def)

end
