(* ===== verification/Judge.thy ===== *)
theory Judge
  imports Hooks
begin

text \<open>
  \<open>permission/judge.ts\<close>: the model that decides a request the cascade would put to a person.  The model's answer,
  its error or the deadline is a parameter of the judge.
\<close>

datatype judge_choice = AllowIt | DenyIt | Unsure

record judge_decision =
  jd_verdict :: judge_choice
  jd_reason :: string

record judge_context =
  jc_hop :: string
  jc_purpose :: string
  jc_allow :: "string list"
  jc_deny :: "string list"
  jc_roots :: "string list"
  jc_task :: "string option"

text \<open>What comes of the race between the call and the clock; the clock aborts the call.\<close>

datatype consultation = Reply msg_content | CallFailed string | Deadline

definition judge_subject :: "permission_request \<Rightarrow> string" where
  "judge_subject req =
     (if rq_toolName req = ''Bash'' then command_of req
      else (case path_of req of Some p \<Rightarrow> p | None \<Rightarrow> take 2000 (json_str (rq_input req))))"

definition rules_line :: "string \<Rightarrow> string list \<Rightarrow> string" where
  "rules_line what rules = what @ '' rules: '' @ (if rules = [] then ''(none)'' else join '', '' rules)"

definition judge_message :: "judge_context \<Rightarrow> permission_request \<Rightarrow> string" where
  "judge_message ctx req =
     join [nl]
       ([''HOP: '' @ jc_hop ctx, ''Purpose: '' @ jc_purpose ctx, ''Workspace roots: '' @ join '', '' (jc_roots ctx),
         rules_line ''Allow'' (jc_allow ctx), rules_line ''Deny'' (jc_deny ctx)] @
        (case jc_task ctx of None \<Rightarrow> [] | Some t \<Rightarrow> if t = [] then [] else [''Task: '' @ take 1500 t]) @
        [[], ''Tool: '' @ rq_toolName req, ''Action:'' @ [nl] @ judge_subject req])"

definition choice_of :: "string \<Rightarrow> judge_choice option" where
  "choice_of v =
     (if v = ''allow'' then Some AllowIt else if v = ''deny'' then Some DenyIt else if v = ''unsure'' then Some Unsure else None)"

definition unsure :: "string \<Rightarrow> judge_decision" where
  "unsure why = \<lparr>jd_verdict = Unsure, jd_reason = why\<rparr>"

definition judge_verdict_text :: "json \<Rightarrow> string" where
  "judge_verdict_text v = (case jget ''verdict'' v of Some (JStr s) \<Rightarrow> toLowerCase s | _ \<Rightarrow> [])"

definition judge_reason :: "json \<Rightarrow> string" where
  "judge_reason v =
     (case jget ''reason'' v of
        Some (JStr r) \<Rightarrow> if trim r \<noteq> [] then trim r else ''judge said '' @ judge_verdict_text v
      | _ \<Rightarrow> ''judge said '' @ judge_verdict_text v)"

text \<open>The message of a failed \<open>JSON.parse\<close> is the engine's own; here it is fixed.\<close>

definition judge_reply :: "string \<Rightarrow> judge_decision" where
  "judge_reply text =
     (case braced text of
        None \<Rightarrow> unsure ''judge reply was not a verdict''
      | Some s \<Rightarrow>
          (case json_parse s of
             None \<Rightarrow> unsure ''judge failed: not valid JSON''
           | Some v \<Rightarrow>
               (case choice_of (judge_verdict_text v) of
                  Some c \<Rightarrow> \<lparr>jd_verdict = c, jd_reason = judge_reason v\<rparr>
                | None \<Rightarrow> unsure ''judge reply was not a verdict'')))"

definition judge_timeout :: "nat option \<Rightarrow> nat" where
  "judge_timeout t = (case t of None \<Rightarrow> 15000 | Some n \<Rightarrow> n)"

definition permission_judge :: "(string \<Rightarrow> consultation) \<Rightarrow> judge_context \<Rightarrow> nat option \<Rightarrow> permission_request \<Rightarrow> judge_decision" where
  "permission_judge consult ctx timeoutMs req =
     (case consult (judge_message ctx req) of
        Reply c \<Rightarrow> judge_reply (reply_text c)
      | CallFailed msg \<Rightarrow> unsure (''judge failed: '' @ msg)
      | Deadline \<Rightarrow> unsure (''judge timed out after '' @ nat_str ((judge_timeout timeoutMs + 500) div 1000) @ ''s''))"

text \<open>The judge lets a call proceed, or stops it, only when the model answered in time with a JSON object that says so in that word;
  a timeout, an error, prose, a reply that does not parse or another word leave the decision to the person.\<close>

theorem judge_only_when_said:
  assumes "jd_verdict (permission_judge consult ctx timeoutMs req) \<noteq> Unsure"
  shows "\<exists>c s v w. consult (judge_message ctx req) = Reply c \<and> braced (reply_text c) = Some s \<and> json_parse s = Some v \<and>
    jget ''verdict'' v = Some (JStr w) \<and>
    toLowerCase w = (if jd_verdict (permission_judge consult ctx timeoutMs req) = AllowIt then ''allow'' else ''deny'') \<and>
    jd_reason (permission_judge consult ctx timeoutMs req) \<noteq> []"
proof -
  obtain c where c: "consult (judge_message ctx req) = Reply c"
    using assms by (cases "consult (judge_message ctx req)") (simp_all add: permission_judge_def unsure_def)
  then have j: "permission_judge consult ctx timeoutMs req = judge_reply (reply_text c)" by (simp add: permission_judge_def)
  with assms obtain s v ch where s: "braced (reply_text c) = Some s" "json_parse s = Some v" "choice_of (judge_verdict_text v) = Some ch"
    "judge_reply (reply_text c) = \<lparr>jd_verdict = ch, jd_reason = judge_reason v\<rparr>" "ch \<noteq> Unsure"
    by (auto simp: judge_reply_def unsure_def split: option.splits)
  then obtain w where w: "jget ''verdict'' v = Some (JStr w)"
    by (auto simp: judge_verdict_text_def choice_of_def split: option.splits json.splits)
  moreover have "judge_reason v \<noteq> []" by (auto simp: judge_reason_def split: option.split json.split)
  ultimately show ?thesis
    using c s j by (auto simp: judge_verdict_text_def choice_of_def split: if_splits)
qed

definition said_allow :: "string \<Rightarrow> consultation" where
  "said_allow m = Reply (StrContent (''Sure: '' @ json_str (JObj [(''verdict'', JStr ''Allow'')])))"

definition judged_in :: judge_context where
  "judged_in = \<lparr>jc_hop = ''coder'', jc_purpose = ''edit code'', jc_allow = [], jc_deny = [], jc_roots = [''/w''], jc_task = None\<rparr>"

theorem judge_only_when_said_witness:
  "jd_verdict (permission_judge said_allow judged_in None (bash_call ''ls'')) = AllowIt \<and>
   (\<exists>c s. said_allow (judge_message judged_in (bash_call ''ls'')) = Reply c \<and> braced (reply_text c) = Some s)"
proof -
  have "braced (''Sure: '' @ json_str (JObj [(''verdict'', JStr ''Allow'')])) = Some (json_str (JObj [(''verdict'', JStr ''Allow'')]))" by code_simp
  moreover have "choice_of (toLowerCase ''Allow'') = Some AllowIt" by code_simp
  ultimately have v: "jd_verdict (permission_judge said_allow judged_in None (bash_call ''ls'')) = AllowIt"
    by (simp add: permission_judge_def said_allow_def judge_reply_def reply_text_def json_parse_str judge_verdict_text_def del: json_str.simps)
  then have "jd_verdict (permission_judge said_allow judged_in None (bash_call ''ls'')) \<noteq> Unsure" by simp
  from judge_only_when_said [OF this] v show ?thesis by blast
qed

end
