(* ===== verification/LostResponse.thy ===== *)
theory LostResponse
  imports Permission Json
begin

text \<open>
  \<open>mcp/lost-response.ts\<close>: the watch on the event stream of a POST that carries requests.  The body is read in
  chunks of text; what is reported when it ends is shown not to depend on where the chunks are cut.
\<close>

definition LOST_RESPONSE_CODE :: int where "LOST_RESPONSE_CODE = -32050"

definition isLostResponse :: "json \<Rightarrow> bool" where
  "isLostResponse e = (jget ''code'' e = Some (JNum LOST_RESPONSE_CODE))"

section \<open>The requests of a body\<close>

record pending_request =
  pr_id :: json
  pr_method :: string

definition request_in :: "json \<Rightarrow> pending_request list" where
  "request_in v =
     (case (jget ''method'' v, jget ''id'' v) of
        (Some (JStr meth), Some i) \<Rightarrow> [\<lparr>pr_id = i, pr_method = meth\<rparr>]
      | _ \<Rightarrow> [])"

definition requestsIn :: "string option \<Rightarrow> pending_request list" where
  "requestsIn body =
     (case body of
        None \<Rightarrow> []
      | Some s \<Rightarrow> (case json_parse s of
                    None \<Rightarrow> []
                  | Some (JArr vs) \<Rightarrow> concat (map request_in vs)
                  | Some v \<Rightarrow> request_in v))"

definition isEventStream :: "string option \<Rightarrow> bool" where
  "isEventStream contentType =
     (toLowerCase (trim (hd (split_ch (CHR '';'') (case contentType of None \<Rightarrow> [] | Some s \<Rightarrow> s)))) = ''text/event-stream'')"

section \<open>The watch\<close>

text \<open>A blank line, \<open>\r?\n\r?\n\<close>, at the start of a text; and the split at blank lines and at line ends.\<close>

definition line_break :: "string \<Rightarrow> string option" where
  "line_break s =
     (case s of
        [] \<Rightarrow> None
      | c # r \<Rightarrow> if c = nl then Some r else if c = cr \<and> next_is nl r then Some (tl r) else None)"

definition blank_line :: "string \<Rightarrow> string option" where
  "blank_line s = Option.bind (line_break s) line_break"

lemma line_break_shorter: "line_break s = Some r \<Longrightarrow> length r < length s"
  by (auto simp: line_break_def next_is_def split: list.splits if_splits)

lemma blank_line_shorter: "blank_line s = Some r \<Longrightarrow> length r < length s"
  by (auto simp: blank_line_def bind_eq_Some_conv dest!: line_break_shorter)

function split_at_breaks :: "(string \<Rightarrow> string option) \<Rightarrow> string \<Rightarrow> string list" where
  "split_at_breaks brk [] = [[]]"
| "split_at_breaks brk (c # cs) =
     (case brk (c # cs) of
        Some r \<Rightarrow> if length r < length (c # cs) then [] # split_at_breaks brk r else []
      | None \<Rightarrow> (case split_at_breaks brk cs of [] \<Rightarrow> [[c]] | p # ps \<Rightarrow> (c # p) # ps))"
  by pat_completeness auto
termination by (relation "measure (\<lambda>(brk, s). length s)") auto

definition split_events :: "string \<Rightarrow> string list" where "split_events s = split_at_breaks blank_line s"
definition split_lines :: "string \<Rightarrow> string list" where "split_lines s = split_at_breaks line_break s"

text \<open>One event: whether it makes the stream resumable, and the request it answers.\<close>

definition has_prefix :: "string \<Rightarrow> string \<Rightarrow> bool" where "has_prefix p s = (take (length p) s = p)"

definition event_resumable :: "string \<Rightarrow> bool" where
  "event_resumable ev = list_ex (\<lambda>l. has_prefix ''id:'' l \<and> trim (drop 3 l) \<noteq> []) (split_lines ev)"

definition event_data :: "string \<Rightarrow> string list" where
  "event_data ev = map (\<lambda>l. trimStart (drop 5 l)) (filter (has_prefix ''data:'') (split_lines ev))"

definition event_answer :: "string \<Rightarrow> string option" where
  "event_answer ev =
     (if event_data ev = [] then None
      else (case json_parse (join [nl] (event_data ev)) of
              None \<Rightarrow> None
            | Some v \<Rightarrow> if jget ''result'' v \<noteq> None \<or> jget ''error'' v \<noteq> None then map_option js_string (jget ''id'' v) else None))"

record stream_watch =
  sw_buffered :: string
  sw_answered :: "string list"
  sw_resumable :: bool

definition new_watch :: stream_watch where "new_watch = \<lparr>sw_buffered = [], sw_answered = [], sw_resumable = False\<rparr>"

definition see_event :: "string \<Rightarrow> stream_watch \<Rightarrow> stream_watch" where
  "see_event ev st =
     st\<lparr>sw_resumable := sw_resumable st \<or> event_resumable ev,
        sw_answered := (case event_answer ev of None \<Rightarrow> sw_answered st | Some i \<Rightarrow> jset_add i (sw_answered st))\<rparr>"

definition scan_stream :: "string \<Rightarrow> stream_watch \<Rightarrow> stream_watch" where
  "scan_stream text st =
     (let events = split_events (sw_buffered st @ text)
      in fold see_event (butlast events) (st\<lparr>sw_buffered := last events\<rparr>))"

definition lost_message :: "string \<Rightarrow> pending_request \<Rightarrow> json" where
  "lost_message cause r =
     JObj [(''jsonrpc'', JStr ''2.0''), (''id'', pr_id r),
           (''error'', JObj [(''code'', JNum LOST_RESPONSE_CODE),
              (''message'', JStr (''MCP response lost: the server closed the stream before answering '' @ pr_method r @ '' ('' @ cause @ '')''))])]"

definition settle_stream :: "string \<Rightarrow> pending_request list \<Rightarrow> stream_watch \<Rightarrow> json list" where
  "settle_stream cause pending st =
     (if sw_resumable st then []
      else map (lost_message cause) (filter (\<lambda>r. js_string (pr_id r) \<notin> set (sw_answered st)) pending))"

text \<open>The body in chunks, with the error that ended it or none.\<close>

definition watchStream :: "pending_request list \<Rightarrow> string list \<Rightarrow> string option \<Rightarrow> json list" where
  "watchStream pending parts err =
     settle_stream (case err of None \<Rightarrow> ''stream ended'' | Some e \<Rightarrow> ''stream error: '' @ e) pending (fold scan_stream parts new_watch)"

record http_response =
  hr_status :: nat
  hr_contentType :: "string option"
  hr_body :: "(string list \<times> string option) option"

text \<open>What a request reports, given the response its fetch got: the response itself passes through.\<close>

definition lostResponseFetch :: "string \<Rightarrow> string option \<Rightarrow> http_response \<Rightarrow> json list" where
  "lostResponseFetch meth body response =
     (let pending = (if meth = ''POST'' then requestsIn body else [])
      in case hr_body response of
           None \<Rightarrow> []
         | Some (parts, err) \<Rightarrow>
             if pending = [] \<or> \<not> isEventStream (hr_contentType response) then [] else watchStream pending parts err)"

section \<open>The cut of the chunks does not matter\<close>

lemma split_at_breaks_not_Nil:
  assumes "\<And>s r. brk s = Some r \<Longrightarrow> length r < length s"
  shows "split_at_breaks brk s \<noteq> []"
proof (induction "length s" arbitrary: s rule: less_induct)
  case less
  show ?case
    by (cases s; cases "brk s") (use assms [of s] in \<open>auto split: list.split\<close>)
qed

lemma split_events_not_Nil [simp]: "split_events s \<noteq> []"
  unfolding split_events_def by (rule split_at_breaks_not_Nil) (rule blank_line_shorter)

lemma split_events_simps:
  "split_events [] = [[]]"
  "blank_line (c # cs) = Some r \<Longrightarrow> split_events (c # cs) = [] # split_events r"
  "blank_line (c # cs) = None \<Longrightarrow> split_events (c # cs) = (c # hd (split_events cs)) # tl (split_events cs)"
  using blank_line_shorter [of "c # cs" r] split_events_not_Nil [of cs]
  by (auto simp: split_events_def split: list.split)

lemma line_break_append: "line_break s = Some r \<Longrightarrow> line_break (s @ b) = Some (r @ b)"
  by (cases s; cases "tl s") (auto simp: line_break_def next_is_def split: if_splits)

lemma blank_line_append: "blank_line s = Some r \<Longrightarrow> blank_line (s @ b) = Some (r @ b)"
  using line_break_append by (fastforce simp: blank_line_def bind_eq_Some_conv)

text \<open>A text that is cut inside a blank line holds no blank line itself.\<close>

lemma line_break_inside: "line_break s = None \<Longrightarrow> line_break (s @ b) = Some r \<Longrightarrow> s = [] \<or> s = [cr]"
  by (cases s; cases "tl s") (auto simp: line_break_def next_is_def split: if_splits)

lemma line_break_form: "line_break s = Some r \<Longrightarrow> s = nl # r \<or> s = cr # nl # r"
  by (cases s; cases "tl s") (auto simp: line_break_def next_is_def split: if_splits)

lemma blank_line_inside:
  assumes "blank_line s = None" "blank_line (s @ b) = Some r" "s \<noteq> []"
  shows "split_events s = [s]"
proof -
  from assms(2) obtain x where x: "line_break (s @ b) = Some x" "line_break x = Some r" by (auto simp: blank_line_def bind_eq_Some_conv)
  have "s = [cr] \<or> (\<exists>y. line_break s = Some y \<and> (y = [] \<or> y = [cr]))"
  proof (cases "line_break s")
    case None
    with line_break_inside x(1) assms(3) show ?thesis by blast
  next
    case (Some y)
    with x line_break_append [OF Some, of b] have "line_break (y @ b) = Some r" by simp
    moreover from Some assms(1) have "line_break y = None" by (simp add: blank_line_def)
    ultimately show ?thesis using line_break_inside Some by blast
  qed
  then have "s \<in> {[cr], [nl], [nl, cr], [cr, nl], [cr, nl, cr]}" by (auto dest: line_break_form)
  moreover have "split_events t = [t]" if "t \<in> {[cr], [nl], [nl, cr], [cr, nl], [cr, nl, cr]}" for t
    using that by (auto simp: split_events_def blank_line_def line_break_def next_is_def)
  ultimately show ?thesis by blast
qed

lemma split_events_single: "split_events s = [p] \<Longrightarrow> p = s"
proof (induction s arbitrary: p)
  case (Cons c cs)
  then show ?case
    by (cases "blank_line (c # cs)"; cases "split_events cs") (auto simp: split_events_simps)
qed (simp add: split_events_simps)

lemma split_events_append:
  "split_events (s @ b) = butlast (split_events s) @ split_events (last (split_events s) @ b)"
proof (induction "length s" arbitrary: s rule: less_induct)
  case less
  show ?case
  proof (cases s)
    case (Cons c cs)
    show ?thesis
    proof (cases "blank_line s")
      case (Some r)
      with less [of r] Cons blank_line_shorter [OF Some] blank_line_append [OF Some, of b] show ?thesis
        by (simp add: split_events_simps)
    next
      case None
      show ?thesis
      proof (cases "blank_line (s @ b)")
        case (Some r)
        with blank_line_inside [OF None Some] Cons show ?thesis by simp
      next
        case no: None
        obtain p ps where ps: "split_events cs = p # ps" by (cases "split_events cs") auto
        have s: "split_events s = (c # p) # ps" using None Cons ps by (simp add: split_events_simps)
        have sb: "split_events (s @ b) = (c # hd (split_events (cs @ b))) # tl (split_events (cs @ b))"
          using no Cons by (simp add: split_events_simps)
        have IH: "split_events (cs @ b) = butlast (p # ps) @ split_events (last (p # ps) @ b)" using less [of cs] Cons ps by simp
        show ?thesis
        proof (cases ps)
          case Nil
          with split_events_single [of cs p] ps have "p = cs" by simp
          with Nil s Cons show ?thesis by simp
        next
          case (Cons q qs)
          then show ?thesis unfolding s sb IH by simp
        qed
      qed
    qed
  qed (simp add: split_events_simps)
qed

lemma scan_scan: "scan_stream b (scan_stream a st) = scan_stream (a @ b) st"
proof -
  let ?E = "split_events (sw_buffered st @ a)"
  have buf: "sw_buffered (fold see_event es st') = sw_buffered st'" for es st'
    by (induction es arbitrary: st') (simp_all add: see_event_def)
  have upd: "(fold see_event es st')\<lparr>sw_buffered := x\<rparr> = fold see_event es (st'\<lparr>sw_buffered := x\<rparr>)" for es st' x
  proof (induction es arbitrary: st')
    case (Cons a es)
    have "(see_event a st')\<lparr>sw_buffered := x\<rparr> = see_event a (st'\<lparr>sw_buffered := x\<rparr>)" by (cases st') (simp add: see_event_def split: option.split)
    with Cons show ?case by simp
  qed simp
  have "split_events (sw_buffered st @ a @ b) = butlast ?E @ split_events (last ?E @ b)"
    using split_events_append [of "sw_buffered st @ a" b] by simp
  then show ?thesis by (simp add: scan_stream_def Let_def buf upd butlast_append)
qed

lemma scan_parts: "fold scan_stream parts (scan_stream a st) = scan_stream (a @ concat parts) st"
  by (induction parts arbitrary: a) (simp_all add: scan_scan)

lemma see_events:
  "sw_resumable (fold see_event es st) = (sw_resumable st \<or> list_ex event_resumable es)"
  "set (sw_answered (fold see_event es st)) = set (sw_answered st) \<union> {i. Some i \<in> event_answer ` set es}"
  by (induction es arbitrary: st) (auto simp: see_event_def split: option.split)

text \<open>When the body of a request's stream has ended, the requests reported as lost are exactly those no complete event of the whole body
  answers, each once and in order, and none when some event made the stream resumable, however the body was cut into chunks.\<close>

theorem lost_exactly:
  "watchStream pending parts err =
     (if list_ex event_resumable (butlast (split_events (concat parts))) then []
      else map (lost_message (case err of None \<Rightarrow> ''stream ended'' | Some e \<Rightarrow> ''stream error: '' @ e))
             (filter (\<lambda>r. Some (js_string (pr_id r)) \<notin> event_answer ` set (butlast (split_events (concat parts)))) pending))"
proof -
  have w: "fold scan_stream parts new_watch = fold see_event (butlast (split_events (concat parts))) (new_watch\<lparr>sw_buffered := last (split_events (concat parts))\<rparr>)"
  proof -
    have "scan_stream [] new_watch = new_watch" by (simp add: scan_stream_def new_watch_def split_events_simps)
    then have "fold scan_stream parts new_watch = scan_stream (concat parts) new_watch" using scan_parts [of parts "[]" new_watch] by simp
    then show ?thesis by (simp add: scan_stream_def Let_def new_watch_def)
  qed
  show ?thesis unfolding watchStream_def w settle_stream_def see_events
    by (simp add: new_watch_def)
qed

end
