(* ===== verification/Tracker.thy ===== *)
theory Tracker
  imports Prelude JsRegex Sha256 "HOL-Library.Multiset"
begin

text \<open>
  \<open>tasks/tracker.ts\<close>: the plan of a session as numbered tasks, its file, and the store that gives each session a
  tracker of its own.  The plan file holds the record the tracker wrote, or cannot be read; a flush
  the system refuses leaves the file as it was (it is written aside and renamed).
\<close>

datatype task_item_status = PendingTask | InProgress | CompletedTask

definition status_name :: "task_item_status \<Rightarrow> string" where
  "status_name s = (case s of PendingTask \<Rightarrow> ''pending'' | InProgress \<Rightarrow> ''in_progress'' | CompletedTask \<Rightarrow> ''completed'')"

record task_item =
  ti_id :: nat
  ti_subject :: string
  ti_description :: "string option"
  ti_status :: task_item_status
  ti_createdAt :: string
  ti_updatedAt :: string

record tracker_file =
  tf_seq :: nat
  tf_items :: "task_item list"

text \<open>\<open>tk_timer\<close>: a save is scheduled.\<close>

record task_tracker =
  tk_items :: "(nat, task_item) jmap"
  tk_seq :: nat
  tk_timer :: bool

definition load_tracker :: "tracker_file option \<Rightarrow> task_tracker" where
  "load_tracker f =
     (case f of
        None \<Rightarrow> \<lparr>tk_items = [], tk_seq = 0, tk_timer = False\<rparr>
      | Some raw \<Rightarrow> \<lparr>tk_items = fold (\<lambda>it. jmap_set (ti_id it) it) (tf_items raw) [], tk_seq = tf_seq raw, tk_timer = False\<rparr>)"

definition create_task :: "string \<Rightarrow> string option \<Rightarrow> task_item_status option \<Rightarrow> string \<Rightarrow> task_tracker \<Rightarrow> task_item \<times> task_tracker" where
  "create_task subject description status now t =
     (let item = \<lparr>ti_id = tk_seq t + 1, ti_subject = subject,
                  ti_description = (if description = Some [] then None else description),
                  ti_status = (case status of None \<Rightarrow> PendingTask | Some s \<Rightarrow> s), ti_createdAt = now, ti_updatedAt = now\<rparr>
      in (item, t\<lparr>tk_items := jmap_set (tk_seq t + 1) item (tk_items t), tk_seq := tk_seq t + 1, tk_timer := True\<rparr>))"

record task_patch =
  tp_subject :: "string option"
  tp_description :: "string option"
  tp_status :: "task_item_status option"

definition patched :: "task_patch \<Rightarrow> string \<Rightarrow> task_item \<Rightarrow> task_item" where
  "patched p now it =
     it\<lparr>ti_subject := (case tp_subject p of None \<Rightarrow> ti_subject it | Some s \<Rightarrow> s),
        ti_description := (case tp_description p of None \<Rightarrow> ti_description it | Some d \<Rightarrow> Some d),
        ti_status := (case tp_status p of None \<Rightarrow> ti_status it | Some s \<Rightarrow> s),
        ti_updatedAt := now\<rparr>"

definition update_task :: "nat \<Rightarrow> task_patch \<Rightarrow> string \<Rightarrow> task_tracker \<Rightarrow> task_item option \<times> task_tracker" where
  "update_task i p now t =
     (case map_of (tk_items t) i of
        None \<Rightarrow> (None, t)
      | Some it \<Rightarrow> (Some (patched p now it), t\<lparr>tk_items := jmap_set i (patched p now it) (tk_items t), tk_timer := True\<rparr>))"

definition get_task :: "nat \<Rightarrow> task_tracker \<Rightarrow> task_item option" where "get_task i t = map_of (tk_items t) i"

definition list_tasks :: "task_tracker \<Rightarrow> task_item list" where
  "list_tasks t = sort_key ti_id (map snd (tk_items t))"

definition plan_summary :: "task_tracker \<Rightarrow> string" where
  "plan_summary t =
     (let every = list_tasks t;
          done = length (filter (\<lambda>x. ti_status x = CompletedTask) every)
      in nat_str (length every) @ '' task(s), '' @ nat_str done @ '' done'' @
         (case find (\<lambda>x. ti_status x = InProgress) every of
            None \<Rightarrow> []
          | Some a \<Rightarrow> ''; now: #'' @ nat_str (ti_id a) @ '' '' @ ti_subject a))"

definition task_line :: "task_item \<Rightarrow> string" where
  "task_line t =
     ''#'' @ nat_str (ti_id t) @ '' ['' @ status_name (ti_status t) @ ''] '' @ ti_subject t @
     (case ti_description t of None \<Rightarrow> [] | Some d \<Rightarrow> if d = [] then [] else '' '' @ emdash @ '' '' @ d)"

definition plan_snapshot :: "task_tracker \<Rightarrow> string option" where
  "plan_snapshot t = (if list_tasks t = [] then None else Some (join [nl] (map task_line (list_tasks t))))"

definition flush_tracker :: "bool \<Rightarrow> task_tracker \<Rightarrow> tracker_file option \<Rightarrow> task_tracker \<times> tracker_file option" where
  "flush_tracker refused t f =
     (t\<lparr>tk_timer := False\<rparr>, if refused then f else Some \<lparr>tf_seq = tk_seq t, tf_items = list_tasks t\<rparr>)"

section \<open>The store\<close>

definition sid_char :: "char \<Rightarrow> bool" where "sid_char c = (is_word c \<or> c = CHR ''-'')"

definition plain_sid :: "string \<Rightarrow> bool" where
  "plain_sid s = (1 \<le> length s \<and> length s \<le> 128 \<and> list_all sid_char s)"

definition plan_name :: "string \<Rightarrow> string" where
  "plan_name sessionId = (if plain_sid sessionId then sessionId else ''sid-'' @ take 32 (sha256_hex sessionId))"

text \<open>The trackers in memory, by session, and the plan files, by name.\<close>

record task_store =
  sk_trackers :: "(string, task_tracker) jmap"
  sk_files :: "string \<Rightarrow> tracker_file option"

definition tracker_for :: "string \<Rightarrow> task_store \<Rightarrow> task_tracker \<times> task_store" where
  "tracker_for sessionId st =
     (case map_of (sk_trackers st) sessionId of
        Some t \<Rightarrow> (t, st)
      | None \<Rightarrow>
          let t = load_tracker (sk_files st (plan_name sessionId))
          in (t, st\<lparr>sk_trackers := jmap_set sessionId t (sk_trackers st)\<rparr>))"

definition flush_one :: "(string \<Rightarrow> bool) \<Rightarrow> string \<times> task_tracker \<Rightarrow> task_store \<Rightarrow> task_store" where
  "flush_one refused kt st =
     (let n = plan_name (fst kt); (t, f) = flush_tracker (refused n) (snd kt) (sk_files st n)
      in st\<lparr>sk_trackers := jmap_set (fst kt) t (sk_trackers st), sk_files := (sk_files st)(n := f)\<rparr>)"

definition flushAll :: "(string \<Rightarrow> bool) \<Rightarrow> task_store \<Rightarrow> task_store" where
  "flushAll refused st = fold (flush_one refused) (sk_trackers st) st"

section \<open>Numbers are not reused, and a plan survives its file\<close>

definition tracker_ok :: "task_tracker \<Rightarrow> bool" where
  "tracker_ok t \<longleftrightarrow> distinct (jmap_keys (tk_items t)) \<and> (\<forall>(i, it) \<in> set (tk_items t). ti_id it = i \<and> 0 < i \<and> i \<le> tk_seq t)"

datatype task_op = Create string "string option" "task_item_status option" string | Update nat task_patch string

fun apply_task_op :: "task_op \<Rightarrow> task_tracker \<Rightarrow> task_tracker" where
  "apply_task_op (Create s d st now) t = snd (create_task s d st now t)"
| "apply_task_op (Update i p now) t = snd (update_task i p now t)"

lemma apply_task_op_ok: "tracker_ok t \<Longrightarrow> tracker_ok (apply_task_op op t)"
proof (cases op)
  case (Create s d st now)
  assume "tracker_ok t"
  with Create show ?thesis
    using jm.distinct_put [of "tk_items t" "tk_seq t + 1"]
    by (fastforce simp: tracker_ok_def create_task_def Let_def dest: set_jmap_setD)
next
  case (Update i p now)
  assume ok: "tracker_ok t"
  show ?thesis
  proof (cases "map_of (tk_items t) i")
    case (Some it)
    then have "(i, it) \<in> set (tk_items t)" by (rule map_of_SomeD)
    with ok Some Update show ?thesis
      using jm.distinct_put [of "tk_items t" i "patched p now it"]
      by (fastforce simp: tracker_ok_def update_task_def patched_def dest: set_jmap_setD)
  qed (use ok Update in \<open>simp add: update_task_def\<close>)
qed

lemma list_tasks_ids: "tracker_ok t \<Longrightarrow> distinct (map ti_id (list_tasks t)) \<and> sorted (map ti_id (list_tasks t))"
proof -
  assume ok: "tracker_ok t"
  then have "map ti_id (map snd (tk_items t)) = jmap_keys (tk_items t)" by (auto simp: tracker_ok_def)
  with ok have "distinct (map ti_id (map snd (tk_items t)))" by (simp only: tracker_ok_def)
  moreover have "distinct (map ti_id (sort_key ti_id xs)) = distinct (map ti_id xs)" for xs :: "task_item list"
    by (rule mset_eq_imp_distinct_iff) simp
  ultimately show ?thesis by (simp add: list_tasks_def)
qed

lemma load_items: "distinct (map ti_id its) \<Longrightarrow> fold (\<lambda>it. jmap_set (ti_id it) it) its m = m @ map (\<lambda>it. (ti_id it, it)) its"
  if "set (map ti_id its) \<inter> set (jmap_keys m) = {}" for m :: "(nat, task_item) jmap"
  using that
proof (induction its arbitrary: m)
  case (Cons it its)
  then have "jmap_set (ti_id it) it m = m @ [(ti_id it, it)]" by (intro jmap_set_new) auto
  with Cons show ?case by auto
qed simp

text \<open>Whatever tasks a session created and changed, a plan read back from its flushed file is the plan it was: the same tasks under the
  same numbers, the same list and text for the model, and the next number is one no task ever had.\<close>

theorem plan_roundtrip:
  fixes ops now f
  defines "t \<equiv> fold apply_task_op ops (load_tracker None)"
  defines "t' \<equiv> load_tracker (snd (flush_tracker False t f))"
  shows "(\<forall>i. get_task i t' = get_task i t) \<and> list_tasks t' = list_tasks t \<and> plan_snapshot t' = plan_snapshot t \<and>
    ti_id (fst (create_task s d st now t')) \<notin> set (map ti_id (list_tasks t)) \<and>
    ti_id (fst (create_task s d st now t')) = ti_id (fst (create_task s d st now t))"
proof -
  have "tracker_ok (fold apply_task_op ops u)" if "tracker_ok u" for u
    using that by (induction ops arbitrary: u) (simp_all add: apply_task_op_ok)
  then have ok: "tracker_ok t" by (simp add: t_def load_tracker_def tracker_ok_def)
  let ?L = "list_tasks t"
  note ids = list_tasks_ids [OF ok]
  have t': "tk_items t' = map (\<lambda>it. (ti_id it, it)) ?L" "tk_seq t' = tk_seq t"
    using load_items [of ?L "[]"] ids by (simp_all add: t'_def flush_tracker_def load_tracker_def)
  have list: "list_tasks t' = ?L"
    using ids by (simp add: list_tasks_def [of t'] t' comp_def sort_key_id_if_sorted)
  have "set ?L = snd ` set (tk_items t)" by (simp add: list_tasks_def)
  then have "set (tk_items t') = set (tk_items t)" using ok by (fastforce simp: t' tracker_ok_def image_iff)
  moreover have "distinct (jmap_keys (tk_items t'))" using ids by (simp add: t' comp_def)
  ultimately have "map_of (tk_items t') = map_of (tk_items t)" using ok by (subst map_of_inject_set) (simp_all add: tracker_ok_def)
  moreover have "tk_seq t + 1 \<notin> set (map ti_id ?L)" using ok by (fastforce simp: list_tasks_def tracker_ok_def)
  ultimately show ?thesis using list t' by (simp add: get_task_def plan_snapshot_def create_task_def Let_def)
qed

lemma hex_nibble_word: "n < 16 \<Longrightarrow> is_word (hex_nibble n)"
proof -
  assume "n < 16"
  then have "n \<in> set [0..<16]" by simp
  moreover have "list_all (\<lambda>n. is_word (hex_nibble n)) [0..<16]" by code_simp
  ultimately show ?thesis by (auto simp: list_all_iff)
qed

lemma sha256_hex_word: "list_all is_word (sha256_hex s)"
  by (auto simp: sha256_hex_def word_hex_def list_all_iff intro!: hex_nibble_word)

lemma digest_name_plain: "plain_sid (''sid-'' @ take 32 (sha256_hex s))"
proof -
  have "list_all sid_char (sha256_hex s)" using sha256_hex_word [of s] by (auto simp: list_all_iff sid_char_def)
  moreover have "list_all sid_char ''sid-''" by code_simp
  ultimately show ?thesis by (auto simp: plain_sid_def list_all_iff length_sha256_hex dest: in_set_takeD)
qed

text \<open>The file of a session's plan is inside the plan directory whatever the client calls its session: its name is one to 128 letters,
  digits, underscores and dashes.\<close>

theorem plan_name_safe: "plain_sid (plan_name s)"
  using digest_name_plain by (simp add: plan_name_def)

text \<open>But not every session has a file of its own: the digest name of one is a plain name another session may have.\<close>

theorem plan_files_collide: "\<not> plain_sid s \<Longrightarrow> plan_name s \<noteq> s \<and> plan_name (plan_name s) = plan_name s"
  by (metis digest_name_plain plan_name_def)

end
