(* ===== verification/Workflow.thy ===== *)
theory Workflow
  imports Protocol
begin

text \<open>
  \<open>workflow/runner.ts\<close>: the semaphore every agent call of a workflow passes, and the context a workflow's body
  drives.  A call that finds no free slot waits in a queue; a release wakes the first waiter, which
  takes its slot only when its own continuation runs, so between the two other calls can step in.
  The runs of the sub-agents and the resume cache are parameters.
\<close>

section \<open>The semaphore\<close>

record semaphore =
  sm_limit :: nat
  sm_active :: nat
  sm_waiters :: "nat list"
  sm_woken :: "nat list"

definition new_semaphore :: "nat \<Rightarrow> semaphore" where
  "new_semaphore limit = \<lparr>sm_limit = limit, sm_active = 0, sm_waiters = [], sm_woken = []\<rparr>"

text \<open>\<open>acquire\<close> up to its first wait: whether the slot is taken at once.\<close>

definition sem_acquire :: "nat \<Rightarrow> semaphore \<Rightarrow> bool \<times> semaphore" where
  "sem_acquire i s =
     (if sm_limit s \<le> sm_active s then (False, s\<lparr>sm_waiters := sm_waiters s @ [i]\<rparr>)
      else (True, s\<lparr>sm_active := sm_active s + 1\<rparr>))"

definition sem_release :: "semaphore \<Rightarrow> semaphore" where
  "sem_release s =
     (case sm_waiters s of
        [] \<Rightarrow> s\<lparr>sm_active := sm_active s - 1\<rparr>
      | w # ws \<Rightarrow> s\<lparr>sm_active := sm_active s - 1, sm_waiters := ws, sm_woken := sm_woken s @ [w]\<rparr>)"

text \<open>The rest of a woken \<open>acquire\<close>.\<close>

definition sem_wake :: "nat \<Rightarrow> semaphore \<Rightarrow> semaphore" where
  "sem_wake i s = s\<lparr>sm_woken := jset_del i (sm_woken s), sm_active := sm_active s + 1\<rparr>"

section \<open>Agent calls\<close>

record wf_opts =
  wo_label :: "string option"
  wo_phase :: "string option"
  wo_schema :: "json option"
  wo_model :: "string option"
  wo_effort :: "string option"
  wo_agentType :: "string option"
  wo_worktree :: bool

record run_agent_result =
  ra_text :: string
  ra_data :: "json option"
  ra_tokens :: "nat option"

datatype wf_event =
    PhaseStarted string
  | Logged string
  | AgentStart nat string "string option"
  | AgentEnd nat string bool bool

record wf_config =
  wc_concurrency :: "nat option"
  wc_maxAgents :: "nat option"
  wc_budget :: "nat option"

type_synonym wf_cache = "nat \<Rightarrow> string \<Rightarrow> wf_opts \<Rightarrow> run_agent_result option"

record agent_call =
  ac_id :: nat
  ac_prompt :: string
  ac_opts :: wf_opts
  ac_label :: string
  ac_phase :: "string option"

record wf_state =
  wf_spawned :: nat
  wf_phase :: "string option"
  wf_spent :: nat
  wf_sem :: semaphore
  wf_parked :: "agent_call list"
  wf_running :: "agent_call list"
  wf_events :: "wf_event list"
  wf_journal :: "(nat \<times> string \<times> run_agent_result) list"

definition start_workflow :: "wf_config \<Rightarrow> wf_state" where
  "start_workflow cfg =
     \<lparr>wf_spawned = 0, wf_phase = None, wf_spent = 0,
      wf_sem = new_semaphore (max 1 (case wc_concurrency cfg of None \<Rightarrow> 8 | Some n \<Rightarrow> n)),
      wf_parked = [], wf_running = [], wf_events = [], wf_journal = []\<rparr>"

definition max_agents :: "wf_config \<Rightarrow> nat" where
  "max_agents cfg = (case wc_maxAgents cfg of None \<Rightarrow> 1000 | Some n \<Rightarrow> n)"

text \<open>\<open>budget.remaining()\<close>: \<open>None\<close> is \<open>Infinity\<close>.\<close>

definition budget_remaining :: "wf_config \<Rightarrow> wf_state \<Rightarrow> nat option" where
  "budget_remaining cfg st = map_option (\<lambda>b. b - wf_spent st) (wc_budget cfg)"

definition out_of_budget :: "wf_config \<Rightarrow> wf_state \<Rightarrow> bool" where
  "out_of_budget cfg st = (case wc_budget cfg of None \<Rightarrow> False | Some b \<Rightarrow> b \<le> wf_spent st)"

definition answer_of :: "wf_opts \<Rightarrow> run_agent_result \<Rightarrow> json" where
  "answer_of opts res =
     (if wo_schema opts = None then JStr (ra_text res) else (case ra_data res of None \<Rightarrow> JStr (ra_text res) | Some d \<Rightarrow> d))"

datatype call_outcome = Refused string | Answered json | Started | Parked

definition call_of :: "wf_state \<Rightarrow> string \<Rightarrow> wf_opts \<Rightarrow> agent_call" where
  "call_of st prompt opts =
     \<lparr>ac_id = wf_spawned st + 1, ac_prompt = prompt, ac_opts = opts,
      ac_label = (case wo_label opts of None \<Rightarrow> ''agent '' @ nat_str (wf_spawned st + 1) | Some l \<Rightarrow> l),
      ac_phase = (case wo_phase opts of None \<Rightarrow> wf_phase st | Some p \<Rightarrow> Some p)\<rparr>"

definition start_call :: "agent_call \<Rightarrow> wf_state \<Rightarrow> wf_state" where
  "start_call c st =
     st\<lparr>wf_running := wf_running st @ [c], wf_events := wf_events st @ [AgentStart (ac_id c) (ac_label c) (ac_phase c)]\<rparr>"

definition call_agent :: "wf_config \<Rightarrow> wf_cache \<Rightarrow> string \<Rightarrow> wf_opts \<Rightarrow> wf_state \<Rightarrow> call_outcome \<times> wf_state" where
  "call_agent cfg cache prompt opts st =
     (if max_agents cfg \<le> wf_spawned st then
        (Refused (''workflow exceeded the '' @ nat_str (max_agents cfg) @ ''-agent cap''), st)
      else if out_of_budget cfg st then
        (Refused (''workflow token budget ('' @ nat_str (or_zero (wc_budget cfg)) @ '') exhausted''), st)
      else
        let c = call_of st prompt opts; st1 = st\<lparr>wf_spawned := wf_spawned st + 1\<rparr>
        in case cache (ac_id c) prompt opts of
             Some hit \<Rightarrow>
               (Answered (answer_of opts hit),
                st1\<lparr>wf_events := wf_events st1 @ [AgentStart (ac_id c) (ac_label c) (ac_phase c), AgentEnd (ac_id c) (ac_label c) True True]\<rparr>)
           | None \<Rightarrow>
               let (got, sem) = sem_acquire (ac_id c) (wf_sem st1)
               in if got then (Started, start_call c (st1\<lparr>wf_sem := sem\<rparr>))
                  else (Parked, st1\<lparr>wf_sem := sem, wf_parked := wf_parked st1 @ [c]\<rparr>))"

text \<open>A woken call goes on; a running one ends with the sub-agent's result or its error.\<close>

definition wake_call :: "agent_call \<Rightarrow> wf_state \<Rightarrow> wf_state" where
  "wake_call c st =
     start_call c (st\<lparr>wf_sem := sem_wake (ac_id c) (wf_sem st), wf_parked := filter (\<lambda>d. ac_id d \<noteq> ac_id c) (wf_parked st)\<rparr>)"

definition end_call :: "agent_call \<Rightarrow> string + run_agent_result \<Rightarrow> wf_state \<Rightarrow> (string + json) \<times> wf_state" where
  "end_call c res st =
     (let freed = st\<lparr>wf_running := filter (\<lambda>d. ac_id d \<noteq> ac_id c) (wf_running st), wf_sem := sem_release (wf_sem st)\<rparr>
      in case res of
           Inr r \<Rightarrow>
             (Inr (answer_of (ac_opts c) r),
              freed\<lparr>wf_spent := wf_spent st + or_zero (ra_tokens r), wf_journal := wf_journal st @ [(ac_id c, ac_prompt c, r)],
                    wf_events := wf_events st @ [AgentEnd (ac_id c) (ac_label c) True False]\<rparr>)
         | Inl e \<Rightarrow> (Inl e, freed\<lparr>wf_events := wf_events st @ [AgentEnd (ac_id c) (ac_label c) False False]\<rparr>))"

definition set_phase :: "string \<Rightarrow> wf_state \<Rightarrow> wf_state" where
  "set_phase title st = st\<lparr>wf_phase := Some title, wf_events := wf_events st @ [PhaseStarted title]\<rparr>"

definition log_message :: "string \<Rightarrow> wf_state \<Rightarrow> wf_state" where
  "log_message msg st = st\<lparr>wf_events := wf_events st @ [Logged msg]\<rparr>"

text \<open>\<open>parallel\<close> and \<open>pipeline\<close> on what their thunks and stages give; and the nested workflow.\<close>

definition parallel :: "(string + 'a) list \<Rightarrow> 'a option list" where
  "parallel outcomes = map (\<lambda>r. case r of Inl _ \<Rightarrow> None | Inr v \<Rightarrow> Some v) outcomes"

fun run_stages :: "(json \<Rightarrow> json \<Rightarrow> nat \<Rightarrow> string + json) list \<Rightarrow> json \<Rightarrow> json \<Rightarrow> nat \<Rightarrow> json option" where
  "run_stages [] v item i = Some v"
| "run_stages (f # fs) v item i = (case f v item i of Inl _ \<Rightarrow> None | Inr v' \<Rightarrow> run_stages fs v' item i)"

definition pipeline :: "json list \<Rightarrow> (json \<Rightarrow> json \<Rightarrow> nat \<Rightarrow> string + json) list \<Rightarrow> json option list" where
  "pipeline items stages = map (\<lambda>(i, item). run_stages stages item item i) (List.enumerate 0 items)"

definition nested_workflow :: "(string \<Rightarrow> json \<Rightarrow> string + json) option \<Rightarrow> string \<Rightarrow> json \<Rightarrow> string + json" where
  "nested_workflow runNested name args =
     (case runNested of None \<Rightarrow> Inl ''workflow() nesting is one level only'' | Some run \<Rightarrow> run name args)"

section \<open>Runs of a workflow\<close>

inductive wf_step :: "wf_config \<Rightarrow> wf_cache \<Rightarrow> wf_state \<Rightarrow> wf_state \<Rightarrow> bool" for cfg cache where
  call: "wf_step cfg cache st (snd (call_agent cfg cache prompt opts st))"
| resume: "c \<in> set (wf_parked st) \<Longrightarrow> ac_id c \<in> set (sm_woken (wf_sem st)) \<Longrightarrow> wf_step cfg cache st (wake_call c st)"
| finish: "c \<in> set (wf_running st) \<Longrightarrow> wf_step cfg cache st (snd (end_call c res st))"
| phase: "wf_step cfg cache st (set_phase title st)"
| log: "wf_step cfg cache st (log_message msg st)"

definition live_ids :: "wf_state \<Rightarrow> nat list" where
  "live_ids st = map ac_id (wf_running st) @ sm_woken (wf_sem st) @ sm_waiters (wf_sem st)"

definition wf_ok :: "wf_config \<Rightarrow> wf_state \<Rightarrow> bool" where
  "wf_ok cfg st \<longleftrightarrow>
     1 \<le> sm_limit (wf_sem st) \<and>
     distinct (live_ids st) \<and> (\<forall>i \<in> set (live_ids st). i \<le> wf_spawned st) \<and>
     map ac_id (wf_parked st) = sm_woken (wf_sem st) @ sm_waiters (wf_sem st) \<and>
     sm_active (wf_sem st) = length (wf_running st) \<and>
     (sm_waiters (wf_sem st) \<noteq> [] \<longrightarrow> sm_limit (wf_sem st) \<le> length (wf_running st) + length (sm_woken (wf_sem st))) \<and>
     wf_spawned st \<le> max_agents cfg"

lemma map_filter_ids: "map ac_id (filter (\<lambda>d. ac_id d \<noteq> i) cs) = jset_del i (map ac_id cs)" for cs :: "agent_call list"
  by (simp add: filter_map comp_def jset_del_def)

lemma jset_del_absent: "i \<notin> set xs \<Longrightarrow> jset_del i xs = xs"
  by (auto simp: jset_del_def filter_id_conv)

lemma jset_del_Cons: "jset_del i (x # xs) = (if x = i then jset_del i xs else x # jset_del i xs)"
  by (simp add: jset_del_def)

lemma length_jset_del: "distinct xs \<Longrightarrow> i \<in> set xs \<Longrightarrow> Suc (length (jset_del i xs)) = length xs"
  by (induction xs) (auto simp: jset_del_Cons jset_del_absent)

lemma jset_del_append: "jset_del i (xs @ ys) = jset_del i xs @ jset_del i ys"
  by (simp add: jset_del_def)

text \<open>The length of the calls that are left when one is taken out.\<close>

lemma length_without: "distinct (map ac_id cs) \<Longrightarrow> c \<in> set cs \<Longrightarrow> Suc (length (filter (\<lambda>d. ac_id d \<noteq> ac_id c) cs)) = length cs" for cs :: "agent_call list"
  using length_jset_del [of "map ac_id cs" "ac_id c"] by (metis imageI length_map list.set_map map_filter_ids)

lemma call_agent_ok:
  assumes ok: "wf_ok cfg st"
  shows "wf_ok cfg (snd (call_agent cfg cache prompt opts st))"
proof (cases "max_agents cfg \<le> wf_spawned st \<or> out_of_budget cfg st")
  case True
  with ok show ?thesis by (auto simp: call_agent_def)
next
  case False
  have new: "Suc (wf_spawned st) \<notin> set (live_ids st)" "\<forall>i \<in> set (live_ids st). i \<le> Suc (wf_spawned st)" and room: "Suc (wf_spawned st) \<le> max_agents cfg"
    using ok False by (fastforce simp: wf_ok_def)+
  have id: "ac_id (call_of st prompt opts) = Suc (wf_spawned st)" by (simp add: call_of_def)
  note rest = ok [unfolded wf_ok_def]
  consider hit where "cache (Suc (wf_spawned st)) prompt opts = Some hit" | "cache (Suc (wf_spawned st)) prompt opts = None" by force
  then show ?thesis
  proof cases
    case 1
    with False rest new room id show ?thesis by (simp add: call_agent_def Let_def wf_ok_def live_ids_def)
  next
    case 2
    then show ?thesis
      using False rest new room id
      by (cases "sm_limit (wf_sem st) \<le> sm_active (wf_sem st)")
        (simp_all add: call_agent_def Let_def sem_acquire_def start_call_def wf_ok_def live_ids_def ball_Un le_SucI)
  qed
qed

lemma wake_call_ok:
  assumes ok: "wf_ok cfg st" and c: "c \<in> set (wf_parked st)" "ac_id c \<in> set (sm_woken (wf_sem st))"
  shows "wf_ok cfg (wake_call c st) \<and> Suc (length (wf_parked (wake_call c st))) = length (wf_parked st) \<and>
    length (wf_running (wake_call c st)) = Suc (length (wf_running st))"
proof -
  let ?W = "sm_woken (wf_sem st)" and ?Q = "sm_waiters (wf_sem st)" and ?R = "map ac_id (wf_running st)"
  have d: "distinct (?R @ ?W @ ?Q)" and ids: "map ac_id (wf_parked st) = ?W @ ?Q" using ok by (simp_all add: wf_ok_def live_ids_def)
  from d c(2) have q: "jset_del (ac_id c) ?Q = ?Q" "ac_id c \<notin> set ?R" by (auto intro!: jset_del_absent)
  from d c(2) have w: "Suc (length (jset_del (ac_id c) ?W)) = length ?W" by (simp add: length_jset_del)
  have p: "Suc (length (filter (\<lambda>d. ac_id d \<noteq> ac_id c) (wf_parked st))) = length (wf_parked st)"
    using d ids c(1) by (intro length_without) simp_all
  have "map ac_id (filter (\<lambda>d. ac_id d \<noteq> ac_id c) (wf_parked st)) = jset_del (ac_id c) ?W @ ?Q"
    by (simp add: map_filter_ids ids jset_del_append q)
  moreover have "distinct (?R @ [ac_id c] @ jset_del (ac_id c) ?W @ ?Q)" using d q(2) c(2) by auto
  ultimately show ?thesis
    using ok w p c(2) by (auto simp: wake_call_def start_call_def sem_wake_def wf_ok_def live_ids_def)
qed

lemma end_call_ok:
  assumes ok: "wf_ok cfg st" and c: "c \<in> set (wf_running st)"
  shows "wf_ok cfg (snd (end_call c res st)) \<and> Suc (length (wf_running (snd (end_call c res st)))) = length (wf_running st) \<and>
    wf_parked (snd (end_call c res st)) = wf_parked st"
proof -
  let ?st = "st\<lparr>wf_running := filter (\<lambda>d. ac_id d \<noteq> ac_id c) (wf_running st), wf_sem := sem_release (wf_sem st)\<rparr>"
  have "distinct (map ac_id (wf_running st))" using ok by (simp add: wf_ok_def live_ids_def)
  note l = length_without [OF this c]
  have "set (jset_del (ac_id c) (map ac_id (wf_running st))) \<subseteq> set (map ac_id (wf_running st))" by auto
  then have "wf_ok cfg ?st"
    using ok l by (cases "sm_waiters (wf_sem st)") (auto simp: wf_ok_def sem_release_def live_ids_def map_filter_ids)
  then have "wf_ok cfg (?st\<lparr>wf_spent := a, wf_journal := b, wf_events := d\<rparr>)" "wf_ok cfg (?st\<lparr>wf_events := d\<rparr>)" for a b d
    by (simp_all add: wf_ok_def live_ids_def)
  with l show ?thesis by (cases res) (simp_all add: end_call_def Let_def)
qed

lemma wf_step_ok: "wf_step cfg cache st st' \<Longrightarrow> wf_ok cfg st \<Longrightarrow> wf_ok cfg st'"
proof (induction rule: wf_step.induct)
  case (phase st title)
  then show ?case by (simp add: set_phase_def wf_ok_def live_ids_def)
next
  case (log st msg)
  then show ?case by (simp add: log_message_def wf_ok_def live_ids_def)
qed (simp_all add: call_agent_ok wake_call_ok end_call_ok)

interpretation workflow_runs: invariant_system "wf_step cfg cache" "wf_ok cfg" for cfg cache
  by unfold_locales (rule wf_step_ok)

lemma start_workflow_ok: "wf_ok cfg (start_workflow cfg)"
  by (simp add: start_workflow_def new_semaphore_def wf_ok_def live_ids_def)

section \<open>No call is left waiting\<close>

text \<open>The steps that bring calls to an end.\<close>

inductive settle_step :: "wf_state \<Rightarrow> wf_state \<Rightarrow> bool" where
  resumes: "c \<in> set (wf_parked st) \<Longrightarrow> ac_id c \<in> set (sm_woken (wf_sem st)) \<Longrightarrow> settle_step st (wake_call c st)"
| finishes: "c \<in> set (wf_running st) \<Longrightarrow> settle_step st (snd (end_call c res st))"

definition calls_left :: "wf_state \<Rightarrow> nat" where
  "calls_left st = 2 * length (wf_parked st) + length (wf_running st)"

lemma settle_step_less: "settle_step st st' \<Longrightarrow> wf_ok cfg st \<Longrightarrow> wf_ok cfg st' \<and> Suc (calls_left st') = calls_left st"
proof (induction rule: settle_step.induct)
  case (resumes c st)
  then show ?case using wake_call_ok [of cfg st c] by (simp add: calls_left_def)
next
  case (finishes c st res)
  then show ?case using end_call_ok [of cfg st c res] by (simp add: calls_left_def)
qed

text \<open>A semaphore with a waiter has a slot taken or on its way to a woken call.\<close>

lemma settle_step_enabled:
  assumes ok: "wf_ok cfg st" and left: "calls_left st \<noteq> 0"
  shows "\<exists>st'. settle_step st st'"
proof (cases "wf_running st")
  case (Cons c cs)
  then show ?thesis using settle_step.finishes [of c st] by auto
next
  case Nil
  with left have "wf_parked st \<noteq> []" by (auto simp: calls_left_def)
  moreover have "sm_woken (wf_sem st) \<noteq> []"
  proof
    assume "sm_woken (wf_sem st) = []"
    moreover from this \<open>wf_parked st \<noteq> []\<close> have "sm_waiters (wf_sem st) \<noteq> []" using ok by (auto simp: wf_ok_def)
    ultimately show False using ok Nil by (auto simp: wf_ok_def)
  qed
  ultimately obtain c where "c \<in> set (wf_parked st)" "ac_id c \<in> set (sm_woken (wf_sem st))"
    using ok by (cases "wf_parked st"; cases "sm_woken (wf_sem st)") (auto simp: wf_ok_def)
  then show ?thesis using settle_step.resumes by blast
qed

text \<open>C34 workflow_drains. From any state a workflow can reach, let its agents end, in any order and with any results: every schedule runs out after exactly
  two steps a waiting call and one a running call, and it can stop only with no call running or waiting, so no call of a
  workflow is left in the queue; and no workflow has started more agents than its cap.\<close>

theorem workflow_drains:
  assumes "(wf_step cfg cache)\<^sup>*\<^sup>* (start_workflow cfg) st" "(settle_step ^^ n) st st'"
  shows "n + calls_left st' = calls_left st \<and> ((\<exists>st''. settle_step st' st'') \<longleftrightarrow> wf_parked st' \<noteq> [] \<or> wf_running st' \<noteq> []) \<and>
    wf_spawned st' \<le> max_agents cfg"
proof -
  have ok: "wf_ok cfg st" by (rule workflow_runs.run_inv [OF assms(1) start_workflow_ok])
  from assms(2) have "wf_ok cfg st' \<and> n + calls_left st' = calls_left st"
  proof (induction n arbitrary: st')
    case (Suc n)
    then obtain v where "(settle_step ^^ n) st v" "settle_step v st'" by auto
    with Suc.IH [of v] settle_step_less [of v st' cfg] show ?case by simp
  qed (use ok in simp)
  moreover have "(\<exists>st''. settle_step st' st'') \<longleftrightarrow> calls_left st' \<noteq> 0" if "wf_ok cfg st'"
    using settle_step_enabled [OF that] settle_step_less [OF _ that] by fastforce
  ultimately show ?thesis by (auto simp: calls_left_def wf_ok_def)
qed

definition sample_config :: wf_config where "sample_config = \<lparr>wc_concurrency = Some 1, wc_maxAgents = None, wc_budget = None\<rparr>"

definition plain_opts :: wf_opts where
  "plain_opts = \<lparr>wo_label = None, wo_phase = None, wo_schema = None, wo_model = None, wo_effort = None, wo_agentType = None, wo_worktree = False\<rparr>"

definition sample_call :: "nat \<Rightarrow> agent_call" where
  "sample_call i = \<lparr>ac_id = i, ac_prompt = ''go'', ac_opts = plain_opts, ac_label = ''agent '' @ nat_str i, ac_phase = None\<rparr>"

definition after_calls :: "nat \<Rightarrow> wf_state" where
  "after_calls n = ((\<lambda>st. snd (call_agent sample_config (\<lambda>i p q. None) ''go'' plain_opts st)) ^^ n) (start_workflow sample_config)"

lemma after_calls_reached: "(wf_step sample_config (\<lambda>i p q. None))\<^sup>*\<^sup>* (start_workflow sample_config) (after_calls n)"
  unfolding after_calls_def
  by (induction n) (auto intro: rtranclp.rtrancl_into_rtrancl wf_step.call)

lemmas workflow_eval = after_calls_def call_agent_def start_workflow_def new_semaphore_def max_agents_def out_of_budget_def call_of_def sem_acquire_def
  start_call_def sample_config_def plain_opts_def sample_call_def end_call_def wake_call_def sem_wake_def sem_release_def jset_del_def

theorem workflow_drains_witness:
  "wf_parked (after_calls 2) = [sample_call 2] \<and> (\<exists>st. settle_step (after_calls 2) st) \<and> calls_left (after_calls 2) = 3"
  using workflow_drains [OF after_calls_reached, of 0 2 "after_calls 2"]
  by (simp add: workflow_eval calls_left_def numeral_2_eq_2)

text \<open>The bound on concurrency is not kept: a release gives up its slot before the call it wakes takes it, so a call made in between
  finds the slot free, and with a limit of one two agents run.\<close>

theorem semaphore_overruns:
  "\<exists>st. (wf_step sample_config (\<lambda>i p q. None))\<^sup>*\<^sup>* (start_workflow sample_config) st \<and> sm_limit (wf_sem st) = 1 \<and> length (wf_running st) = 2"
proof -
  let ?step = "wf_step sample_config (\<lambda>i p q. None)"
  define a where "a = after_calls 2"
  define b where "b = snd (end_call (sample_call 1) (Inl ''failed'') a)"
  define c where "c = snd (call_agent sample_config (\<lambda>i p q. None) ''go'' plain_opts b)"
  define d where "d = wake_call (sample_call 2) c"
  have "?step a b" unfolding b_def by (rule wf_step.finish) (simp add: a_def workflow_eval numeral_2_eq_2)
  moreover have "?step b c" unfolding c_def by (rule wf_step.call)
  moreover have "?step c d" unfolding d_def
    by (rule wf_step.resume) (simp_all add: c_def b_def a_def workflow_eval numeral_2_eq_2)
  ultimately have "?step\<^sup>*\<^sup>* (start_workflow sample_config) d"
    using after_calls_reached [of 2] unfolding a_def by (meson rtranclp.rtrancl_into_rtrancl)
  moreover have "sm_limit (wf_sem d) = 1" "length (wf_running d) = 2"
    by (simp_all add: d_def c_def b_def a_def workflow_eval numeral_2_eq_2)
  ultimately show ?thesis by blast
qed

end
