(* ===== verification/Checkpoints.thy ===== *)
theory Checkpoints
  imports Sha256 Prelude
begin

text \<open>
  \<open>checkpoints/store.ts\<close>: the pre-image of every file a turn touches, in content-addressed blobs and two line
  files, and the rewind that restores them.  The disk is a map from paths to files; a write the system
  refuses is a parameter that says what it leaves.  The store is shown to refine a stack of whole
  trees: rewinding to a turn brings every file's content back to what it was when that turn began.
\<close>

section \<open>State\<close>

record ck_file =
  cf_data :: string
  cf_mode :: nat

record ck_turn =
  cn_turn :: nat
  cn_ts :: string
  cn_prompt :: string
  cn_toUuid :: "string option"

record ck_touch =
  ct_turn :: nat
  ct_path :: string
  ct_blob :: "string option"
  ct_mode :: "nat option"

text \<open>A file of JSON lines: absent, with a line that does not parse, or readable.\<close>

datatype 'a jsonl = NoLines | TornLines | Lines "'a list"

record ck_store =
  ck_turns :: "ck_turn jsonl"
  ck_files :: "ck_touch jsonl"
  ck_blobs :: "string \<Rightarrow> string option"
  ck_disk :: "string \<Rightarrow> ck_file option"

definition readJsonl :: "'a jsonl \<Rightarrow> 'a list" where
  "readJsonl f = (case f of Lines xs \<Rightarrow> xs | _ \<Rightarrow> [])"

definition appendJsonl :: "'a \<Rightarrow> 'a jsonl \<Rightarrow> 'a jsonl" where
  "appendJsonl x f = (case f of NoLines \<Rightarrow> Lines [x] | TornLines \<Rightarrow> TornLines | Lines xs \<Rightarrow> Lines (xs @ [x]))"

text \<open>The digest of a file's bytes, one \<open>char\<close> a byte.\<close>

definition file_digest :: "string \<Rightarrow> string" where
  "file_digest data = concat (map word_hex (foldl sha_block sha_H (chunks 64 (sha_pad (map of_char data)))))"

section \<open>Operations\<close>

definition PROMPT_CLIP :: nat where "PROMPT_CLIP = 120"

definition beginTurn :: "string \<Rightarrow> string option \<Rightarrow> string \<Rightarrow> ck_store \<Rightarrow> nat \<times> ck_store" where
  "beginTurn prompt toUuid now w =
     (let turn = length (readJsonl (ck_turns w)) + 1
      in (turn, w\<lparr>ck_turns := appendJsonl
            \<lparr>cn_turn = turn, cn_ts = now, cn_prompt = take PROMPT_CLIP (trim (collapse_ws prompt)), cn_toUuid = toUuid\<rparr> (ck_turns w)\<rparr>))"

definition take_snapshot :: "nat \<Rightarrow> string \<Rightarrow> ck_store \<Rightarrow> ck_store" where
  "take_snapshot turn p w =
     (if list_ex (\<lambda>f. ct_turn f = turn \<and> ct_path f = p) (readJsonl (ck_files w)) then w
      else
        (case ck_disk w p of
           Some f \<Rightarrow>
             let sha = file_digest (cf_data f)
             in w\<lparr>ck_blobs := (if ck_blobs w sha = None then (ck_blobs w)(sha \<mapsto> cf_data f) else ck_blobs w),
                  ck_files := appendJsonl \<lparr>ct_turn = turn, ct_path = p, ct_blob = Some sha, ct_mode = Some (cf_mode f)\<rparr> (ck_files w)\<rparr>
         | None \<Rightarrow>
             w\<lparr>ck_files := appendJsonl \<lparr>ct_turn = turn, ct_path = p, ct_blob = None, ct_mode = None\<rparr> (ck_files w)\<rparr>))"

definition list_turns :: "ck_store \<Rightarrow> (ck_turn \<times> nat) list" where
  "list_turns w =
     map (\<lambda>t. (t, length (filter (\<lambda>f. ct_turn f = cn_turn t) (readJsonl (ck_files w))))) (readJsonl (ck_turns w))"

record rewind_result =
  rr_turn :: nat
  rr_toUuid :: "string option"
  rr_restored :: "string list"
  rr_deleted :: "string list"
  rr_failed :: "(string \<times> string) list"

definition note_touch :: "nat \<Rightarrow> ck_touch \<Rightarrow> (string, ck_touch) jmap \<Rightarrow> (string, ck_touch) jmap" where
  "note_touch turn f first =
     (if ct_turn f < turn then first
      else (case map_of first (ct_path f) of
              None \<Rightarrow> jmap_set (ct_path f) f first
            | Some seen \<Rightarrow> if ct_turn f < ct_turn seen then jmap_set (ct_path f) f first else first))"

definition first_touch :: "nat \<Rightarrow> ck_touch list \<Rightarrow> (string, ck_touch) jmap" where
  "first_touch turn files = fold (note_touch turn) files []"

text \<open>
  What the system may refuse: for a path, the error and what is left there.  A written_file file keeps the mode
  it has; a new one gets the wanted mode less the process's mask (\<open>0o666\<close> when none is recorded).
\<close>

type_synonym disk_faults = "string \<Rightarrow> (string \<times> ck_file option) option"

definition written_file :: "(nat \<Rightarrow> nat) \<Rightarrow> nat option \<Rightarrow> string \<Rightarrow> ck_file option \<Rightarrow> ck_file" where
  "written_file umask mode data old =
     \<lparr>cf_data = data, cf_mode = (case old of Some f \<Rightarrow> cf_mode f | None \<Rightarrow> umask (case mode of None \<Rightarrow> 438 | Some k \<Rightarrow> k))\<rparr>"

definition restore_one :: "disk_faults \<Rightarrow> (nat \<Rightarrow> nat) \<Rightarrow> ck_touch \<Rightarrow> ck_store \<times> rewind_result \<Rightarrow> ck_store \<times> rewind_result" where
  "restore_one faults umask f st =
     (case st of (w, res) \<Rightarrow>
        (case ct_blob f of
           None \<Rightarrow>
             if ck_disk w (ct_path f) \<noteq> None \<and> faults (ct_path f) \<noteq> None
             then (w\<lparr>ck_disk := (ck_disk w)(ct_path f := snd (the (faults (ct_path f))))\<rparr>,
                   res\<lparr>rr_failed := rr_failed res @ [(ct_path f, fst (the (faults (ct_path f))))]\<rparr>)
             else (w\<lparr>ck_disk := (ck_disk w)(ct_path f := None)\<rparr>, res\<lparr>rr_deleted := rr_deleted res @ [ct_path f]\<rparr>)
         | Some sha \<Rightarrow>
             (case ck_blobs w sha of
                None \<Rightarrow> (w, res\<lparr>rr_failed := rr_failed res @ [(ct_path f, ''ENOENT: no such file or directory'')]\<rparr>)
              | Some data \<Rightarrow>
                  (case faults (ct_path f) of
                     Some (msg, left) \<Rightarrow> (w\<lparr>ck_disk := (ck_disk w)(ct_path f := left)\<rparr>, res\<lparr>rr_failed := rr_failed res @ [(ct_path f, msg)]\<rparr>)
                   | None \<Rightarrow>
                       (w\<lparr>ck_disk := (ck_disk w)(ct_path f \<mapsto> written_file umask (ct_mode f) data (ck_disk w (ct_path f)))\<rparr>,
                        res\<lparr>rr_restored := rr_restored res @ [ct_path f]\<rparr>)))))"

definition rewind :: "disk_faults \<Rightarrow> (nat \<Rightarrow> nat) \<Rightarrow> nat \<Rightarrow> ck_store \<Rightarrow> (string + rewind_result) \<times> ck_store" where
  "rewind faults umask turn w =
     (let turns = readJsonl (ck_turns w) in
      case find (\<lambda>t. cn_turn t = turn) turns of
        None \<Rightarrow> (Inl (''no checkpoint for turn '' @ nat_str turn @ '' (have 1..'' @ nat_str (length turns) @ '')''), w)
      | Some target \<Rightarrow>
          let files = readJsonl (ck_files w);
              res = \<lparr>rr_turn = turn, rr_toUuid = cn_toUuid target, rr_restored = [], rr_deleted = [], rr_failed = []\<rparr>;
              (w', res') = fold (restore_one faults umask) (map snd (first_touch turn files)) (w, res)
          in (Inr res', w'\<lparr>ck_turns := Lines (filter (\<lambda>t. cn_turn t < turn) turns),
                           ck_files := Lines (filter (\<lambda>f. ct_turn f < turn) files)\<rparr>))"

section \<open>The store refines a stack of trees\<close>

text \<open>
  The turns of a session, its tracked edits (the pre-image first, then any change of the one file), and its
  rewinds; beside the store runs the specification, the contents of the whole tree at the start of each turn.
\<close>

definition contents :: "ck_store \<Rightarrow> string \<Rightarrow> string option" where
  "contents w p = map_option cf_data (ck_disk w p)"

datatype ck_op = Begin string "string option" string | Edit string "ck_file option" | Rewind nat

fun ck_apply :: "(nat \<Rightarrow> nat) \<Rightarrow> ck_op \<Rightarrow> ck_store \<Rightarrow> ck_store" where
  "ck_apply umask (Begin prompt toUuid now) w = snd (beginTurn prompt toUuid now w)"
| "ck_apply umask (Edit p f) w =
     (if readJsonl (ck_turns w) = [] then w
      else (take_snapshot (length (readJsonl (ck_turns w))) p w)\<lparr>ck_disk := (ck_disk w)(p := f)\<rparr>)"
| "ck_apply umask (Rewind t) w = snd (rewind (\<lambda>_. None) umask t w)"

fun spec_apply :: "ck_op \<Rightarrow> (string \<Rightarrow> string option) list \<times> (string \<Rightarrow> string option) \<Rightarrow> (string \<Rightarrow> string option) list \<times> (string \<Rightarrow> string option)" where
  "spec_apply (Begin prompt toUuid now) (trees, tree) = (trees @ [tree], tree)"
| "spec_apply (Edit p f) (trees, tree) = (trees, if trees = [] then tree else tree(p := map_option cf_data f))"
| "spec_apply (Rewind t) (trees, tree) =
     (if 0 < t \<and> t \<le> length trees then (take (t - 1) trees, trees ! (t - 1)) else (trees, tree))"

text \<open>What a recorded touch restores, and the touch a rewind to \<open>t\<close> uses for a path.\<close>

definition pre_image :: "ck_store \<Rightarrow> ck_touch \<Rightarrow> string option" where
  "pre_image w f = (case ct_blob f of None \<Rightarrow> None | Some sha \<Rightarrow> ck_blobs w sha)"

definition touch_of :: "nat \<Rightarrow> string \<Rightarrow> ck_touch list \<Rightarrow> ck_touch option" where
  "touch_of t p fs = find (\<lambda>f. ct_path f = p \<and> t \<le> ct_turn f) fs"

definition readable_lines :: "'a jsonl \<Rightarrow> bool" where "readable_lines f \<longleftrightarrow> f \<noteq> TornLines"

definition images_ok :: "ck_store \<Rightarrow> (string \<Rightarrow> string option) list \<Rightarrow> (string \<Rightarrow> string option) \<Rightarrow> bool" where
  "images_ok w trees tree \<longleftrightarrow>
     (\<forall>t p. 0 < t \<and> t \<le> length trees \<longrightarrow>
        (trees ! (t - 1)) p = (case touch_of t p (readJsonl (ck_files w)) of None \<Rightarrow> tree p | Some f \<Rightarrow> pre_image w f))"

definition ck_related :: "ck_store \<Rightarrow> (string \<Rightarrow> string option) list \<times> (string \<Rightarrow> string option) \<Rightarrow> bool" where
  "ck_related w st \<longleftrightarrow>
     contents w = snd st \<and>
     readable_lines (ck_turns w) \<and> readable_lines (ck_files w) \<and>
     map cn_turn (readJsonl (ck_turns w)) = [1..<length (fst st) + 1] \<and>
     sorted (map ct_turn (readJsonl (ck_files w))) \<and>
     (\<forall>f \<in> set (readJsonl (ck_files w)). ct_turn f \<le> length (fst st) \<and> (\<forall>sha. ct_blob f = Some sha \<longrightarrow> ck_blobs w sha \<noteq> None)) \<and>
     images_ok w (fst st) (snd st)"

text \<open>Blobs are addressed by digest: the contents met so far have different digests.\<close>

definition blobs_ok :: "string set \<Rightarrow> ck_store \<Rightarrow> bool" where
  "blobs_ok D w \<longleftrightarrow> (\<forall>sha data. ck_blobs w sha = Some data \<longrightarrow> data \<in> D \<and> sha = file_digest data)"

lemma readJsonl_simps [simp]:
  "readJsonl NoLines = []" "readJsonl (Lines xs) = xs" "readable_lines f \<Longrightarrow> readJsonl (appendJsonl x f) = readJsonl f @ [x]"
  "readable_lines f \<Longrightarrow> readable_lines (appendJsonl x f)" "readable_lines (Lines xs)"
  by (auto simp: readJsonl_def appendJsonl_def readable_lines_def split: jsonl.splits)

lemma map_of_first_touch:
  assumes "sorted (map ct_turn fs)"
  shows "map_of (first_touch t fs) p = touch_of t p fs"
  using assms
proof (induction fs arbitrary: p rule: rev_induct)
  case (snoc f fs)
  let ?m = "first_touch t fs"
  have "first_touch t (fs @ [f]) = note_touch t f ?m" by (simp add: first_touch_def)
  moreover have "\<not> ct_turn f < ct_turn s" if "map_of ?m (ct_path f) = Some s" for s
  proof -
    have "find (\<lambda>g. ct_path g = ct_path f \<and> t \<le> ct_turn g) fs = Some s"
      using that snoc.prems snoc.IH [of "ct_path f"] by (simp add: sorted_append touch_of_def)
    then have "s \<in> set fs" by (auto simp: find_Some_iff)
    with snoc.prems show ?thesis by (auto simp: sorted_append)
  qed
  ultimately show ?case using snoc
    by (auto simp: note_touch_def touch_of_def find_append map_of_jmap_set sorted_append split: option.split)
qed (simp add: first_touch_def touch_of_def)

lemma first_touch_keys:
  "\<forall>(p, f) \<in> set (first_touch t fs). ct_path f = p" "distinct (jmap_keys (first_touch t fs))" "set (map snd (first_touch t fs)) \<subseteq> set fs"
proof -
  have "(\<forall>(p, f) \<in> set (fold (note_touch t) gs m). ct_path f = p) \<and> distinct (jmap_keys (fold (note_touch t) gs m)) \<and>
      snd ` set (fold (note_touch t) gs m) \<subseteq> snd ` set m \<union> set gs"
    if "\<forall>(p, f) \<in> set m. ct_path f = p" "distinct (jmap_keys m)" for gs m
    using that
  proof (induction gs arbitrary: m)
    case (Cons g gs)
    have "set (note_touch t g m) \<subseteq> insert (ct_path g, g) (set m)"
      by (auto simp: note_touch_def dest!: set_jmap_setD split: option.splits if_splits)
    moreover have "distinct (jmap_keys (note_touch t g m))"
      using Cons.prems(2) jm.distinct_put [of m] by (auto simp: note_touch_def split: option.split)
    moreover from calculation(1) have "\<forall>(p, f) \<in> set (note_touch t g m). ct_path f = p" using Cons.prems(1) by blast
    moreover from calculation(1) have "snd ` set (note_touch t g m) \<subseteq> insert g (snd ` set m)" by auto
    ultimately have "(\<forall>(p, f) \<in> set (fold (note_touch t) gs (note_touch t g m)). ct_path f = p) \<and>
        distinct (jmap_keys (fold (note_touch t) gs (note_touch t g m))) \<and>
        snd ` set (fold (note_touch t) gs (note_touch t g m)) \<subseteq> insert g (snd ` set m) \<union> set gs"
      using Cons.IH [of "note_touch t g m"] by (meson Un_mono order_refl order_trans)
    then show ?case by (simp add: insert_commute)
  qed simp
  from this [of "[]" fs] show "\<forall>(p, f) \<in> set (first_touch t fs). ct_path f = p" "distinct (jmap_keys (first_touch t fs))"
    "set (map snd (first_touch t fs)) \<subseteq> set fs"
    by (simp_all add: first_touch_def)
qed

text \<open>Without a fault and with every blob at hand, a rewind gives each touched path its pre-image and leaves the others.\<close>

lemma restore_contents:
  assumes "distinct (map ct_path fs)" "\<forall>f \<in> set fs. \<forall>sha. ct_blob f = Some sha \<longrightarrow> ck_blobs w sha \<noteq> None"
  shows "contents (fst (fold (restore_one (\<lambda>_. None) umask) fs (w, res))) p =
      (case find (\<lambda>f. ct_path f = p) fs of None \<Rightarrow> contents w p | Some f \<Rightarrow> pre_image w f) \<and>
    ck_blobs (fst (fold (restore_one (\<lambda>_. None) umask) fs (w, res))) = ck_blobs w \<and>
    rr_failed (snd (fold (restore_one (\<lambda>_. None) umask) fs (w, res))) = rr_failed res"
  using assms
proof (induction fs arbitrary: w res)
  case (Cons f fs)
  obtain w' res' where one: "restore_one (\<lambda>_. None) umask f (w, res) = (w', res')" by force
  have w': "ck_blobs w' = ck_blobs w" "rr_failed res' = rr_failed res"
    "contents w' p = (if p = ct_path f then pre_image w f else contents w p)"
    using one Cons.prems(2)
    by (auto simp: restore_one_def contents_def pre_image_def written_file_def split: option.splits if_splits)
  have "find (\<lambda>g. ct_path g = p) fs = None" if "p = ct_path f"
    using Cons.prems(1) that by (auto simp: find_None_iff) (metis image_eqI)
  with w' Cons.IH [of w' res'] Cons.prems one show ?case
    by (auto simp: pre_image_def split: option.splits)
qed simp

lemma find_values:
  assumes "\<forall>(q, f) \<in> set m. ct_path f = q" "distinct (jmap_keys m)"
  shows "find (\<lambda>f. ct_path f = p) (map snd m) = map_of m p" "distinct (map ct_path (map snd m))"
proof -
  from assms(1) have e: "map ct_path (map snd m) = jmap_keys m" by (induction m) auto
  show "distinct (map ct_path (map snd m))" unfolding e by (rule assms(2))
  from assms(1) show "find (\<lambda>f. ct_path f = p) (map snd m) = map_of m p" by (induction m) auto
qed

lemma images_okI:
  "(\<And>t p. 0 < t \<Longrightarrow> t \<le> length trees \<Longrightarrow>
      (trees ! (t - 1)) p = (case touch_of t p (readJsonl (ck_files w)) of None \<Rightarrow> tree p | Some f \<Rightarrow> pre_image w f)) \<Longrightarrow>
    images_ok w trees tree"
  by (auto simp: images_ok_def)

lemma images_okD:
  "images_ok w trees tree \<Longrightarrow> 0 < t \<Longrightarrow> t \<le> length trees \<Longrightarrow>
      (trees ! (t - 1)) p = (case touch_of t p (readJsonl (ck_files w)) of None \<Rightarrow> tree p | Some f \<Rightarrow> pre_image w f)"
  by (auto simp: images_ok_def)

text \<open>What a rewind to a turn that exists does to the store.\<close>

lemma rewind_form:
  assumes r: "ck_related w (trees, tree)" and t: "0 < t" "t \<le> length trees"
  shows "\<exists>res w'. rewind (\<lambda>_. None) umask t w = (Inr res, w') \<and> rr_failed res = [] \<and>
    contents w' = trees ! (t - 1) \<and> ck_blobs w' = ck_blobs w \<and>
    ck_turns w' = Lines (filter (\<lambda>n. cn_turn n < t) (readJsonl (ck_turns w))) \<and>
    ck_files w' = Lines (filter (\<lambda>f. ct_turn f < t) (readJsonl (ck_files w)))"
proof -
  let ?fs = "readJsonl (ck_files w)" and ?turns = "readJsonl (ck_turns w)"
  have srt: "sorted (map ct_turn ?fs)" and blobs: "\<forall>f \<in> set ?fs. \<forall>sha. ct_blob f = Some sha \<longrightarrow> ck_blobs w sha \<noteq> None"
    and nums: "map cn_turn ?turns = [1..<length trees + 1]" and tree_eq: "(trees ! (t - 1)) p = (case touch_of t p ?fs of None \<Rightarrow> contents w p | Some f \<Rightarrow> pre_image w f)" for p
    using r images_okD [OF _ t, of w tree p] by (auto simp: ck_related_def)
  have "t \<in> set (map cn_turn ?turns)" unfolding nums using t by auto
  then obtain target where target: "find (\<lambda>n. cn_turn n = t) ?turns = Some target"
    by (cases "find (\<lambda>n. cn_turn n = t) ?turns") (auto simp: find_None_iff)
  define res where "res = \<lparr>rr_turn = t, rr_toUuid = cn_toUuid target, rr_restored = [], rr_deleted = [], rr_failed = []\<rparr>"
  define m where "m = first_touch t ?fs"
  note m = find_values [OF first_touch_keys(1,2) [of t ?fs], folded m_def]
  have "set (map snd m) \<subseteq> set ?fs" using first_touch_keys(3) by (simp add: m_def)
  with blobs have bl: "\<forall>f \<in> set (map snd m). \<forall>sha. ct_blob f = Some sha \<longrightarrow> ck_blobs w sha \<noteq> None" by blast
  obtain w1 res1 where f: "fold (restore_one (\<lambda>_. None) umask) (map snd m) (w, res) = (w1, res1)" by force
  have c: "contents w1 p = (case touch_of t p ?fs of None \<Rightarrow> contents w p | Some f \<Rightarrow> pre_image w f)" and
    b: "ck_blobs w1 = ck_blobs w" "rr_failed res1 = []" for p
    using restore_contents [OF m(2) bl, of umask res p] m(1) [of p] map_of_first_touch [OF srt, of t p] f
    by (simp_all add: m_def res_def split: option.splits)
  have "contents w1 = trees ! (t - 1)" using c tree_eq by (intro ext) simp
  moreover have "contents (w1\<lparr>ck_turns := a, ck_files := z\<rparr>) = contents w1" for a z by (simp add: contents_def fun_eq_iff)
  ultimately show ?thesis using b f target by (simp add: rewind_def m_def res_def Let_def)
qed

lemma touch_of_append: "touch_of t p (fs @ gs) = (case touch_of t p fs of Some g \<Rightarrow> Some g | None \<Rightarrow> touch_of t p gs)"
  by (simp add: touch_of_def find_append split: option.split)

lemma touch_of_simps: "touch_of t p [] = None" "touch_of t p (f # fs) = (if ct_path f = p \<and> t \<le> ct_turn f then Some f else touch_of t p fs)"
  by (simp_all add: touch_of_def)

lemma touch_of_mem: "touch_of t p fs = Some g \<Longrightarrow> g \<in> set fs \<and> ct_path g = p \<and> t \<le> ct_turn g"
  by (induction fs) (auto simp: touch_of_simps split: if_splits)

lemma touch_of_late: "k \<le> t \<Longrightarrow> touch_of k p (filter (\<lambda>f. \<not> ct_turn f < t) fs) = touch_of t p fs"
  by (induction fs) (auto simp: touch_of_simps)

text \<open>The relation at work, with the contents met so far.\<close>

definition ck_sim :: "string set \<Rightarrow> ck_store \<Rightarrow> (string \<Rightarrow> string option) list \<times> (string \<Rightarrow> string option) \<Rightarrow> bool" where
  "ck_sim D w st \<longleftrightarrow> ck_related w st \<and> blobs_ok D w \<and> ran (contents w) \<subseteq> D"

lemma ck_simI:
  assumes "contents w = tree" "readable_lines (ck_turns w)" "readable_lines (ck_files w)"
    "map cn_turn (readJsonl (ck_turns w)) = [1..<length trees + 1]" "sorted (map ct_turn (readJsonl (ck_files w)))"
    "\<And>f. f \<in> set (readJsonl (ck_files w)) \<Longrightarrow> ct_turn f \<le> length trees \<and> (\<forall>sha. ct_blob f = Some sha \<longrightarrow> ck_blobs w sha \<noteq> None)"
    "images_ok w trees tree" "blobs_ok D w" "ran tree \<subseteq> D"
  shows "ck_sim D w (trees, tree)"
  using assms by (simp add: ck_sim_def ck_related_def)

lemma pre_image_disk [simp]: "pre_image (w\<lparr>ck_disk := d\<rparr>) f = pre_image w f" "pre_image (w\<lparr>ck_turns := t\<rparr>) f = pre_image w f"
  by (simp_all add: pre_image_def split: option.split)

lemma sorted_split:
  "sorted (map k fs) \<Longrightarrow> fs = filter (\<lambda>f. k f < (t :: nat)) fs @ filter (\<lambda>f. \<not> k f < t) fs"
proof (induction fs)
  case (Cons f fs)
  show ?case
  proof (cases "k f < t")
    case False
    with Cons.prems have "filter (\<lambda>f. k f < t) (f # fs) = []" "filter (\<lambda>f. \<not> k f < t) (f # fs) = f # fs"
      by (fastforce simp: filter_empty_conv filter_id_conv)+
    then show ?thesis by simp
  qed (use Cons in simp)
qed simp

lemma sim_begin:
  assumes "ck_sim D w (trees, tree)"
  shows "ck_sim D (ck_apply umask (Begin prompt toUuid now) w) (trees @ [tree], tree)"
proof -
  have none: "touch_of (Suc (length trees)) p (readJsonl (ck_files w)) = None" for p
    using assms by (fastforce simp: ck_sim_def ck_related_def touch_of_def find_None_iff)
  have len: "length (readJsonl (ck_turns w)) = length trees"
    using assms by (metis ck_related_def ck_sim_def diff_add_inverse2 fst_conv length_map length_upt)
  let ?v = "ck_apply umask (Begin prompt toUuid now) w"
  have v: "contents ?v = contents w" "ck_files ?v = ck_files w" "ck_blobs ?v = ck_blobs w" "pre_image ?v f = pre_image w f" for f
    by (simp_all add: beginTurn_def Let_def contents_def fun_eq_iff)
  have sim: "ck_related w (trees, tree)" "blobs_ok D w" "ran tree \<subseteq> D" "contents w = tree" using assms by (auto simp: ck_sim_def ck_related_def)
  have "images_ok ?v (trees @ [tree]) tree"
  proof (rule images_okI)
    fix t p
    assume "0 < t" "t \<le> length (trees @ [tree])"
    then consider "t = Suc (length trees)" | "0 < t" "t \<le> length trees" by fastforce
    then show "((trees @ [tree]) ! (t - 1)) p = (case touch_of t p (readJsonl (ck_files ?v)) of None \<Rightarrow> tree p | Some f \<Rightarrow> pre_image ?v f)"
    proof cases
      case 2
      then have "(trees ! (t - 1)) p = (case touch_of t p (readJsonl (ck_files w)) of None \<Rightarrow> tree p | Some f \<Rightarrow> pre_image w f)"
        using sim(1) by (intro images_okD) (simp add: ck_related_def)
      moreover have "t - 1 < length trees" using 2 by linarith
      ultimately show ?thesis using v by (simp add: nth_append split: option.split)
    qed (simp add: none v del: ck_apply.simps)
  qed
  then show ?thesis
    using sim v by (intro ck_simI) (auto simp: ck_related_def blobs_ok_def beginTurn_def Let_def len)
qed

text \<open>Taking the pre-image: the touch is recorded unless this turn has it, and restores what the file holds now.\<close>

lemma snapshot_form:
  assumes b: "blobs_ok D w" "ran (contents w) \<subseteq> D" "inj_on file_digest D" and fl: "readable_lines (ck_files w)"
  shows "\<exists>new. readJsonl (ck_files (take_snapshot T p w)) = readJsonl (ck_files w) @ new \<and>
    (if \<exists>f \<in> set (readJsonl (ck_files w)). ct_turn f = T \<and> ct_path f = p then new = []
     else \<exists>f. new = [f] \<and> ct_turn f = T \<and> ct_path f = p \<and> pre_image (take_snapshot T p w) f = contents w p \<and>
       (\<forall>sha. ct_blob f = Some sha \<longrightarrow> ck_blobs (take_snapshot T p w) sha \<noteq> None)) \<and>
    (\<forall>sha data. ck_blobs w sha = Some data \<longrightarrow> ck_blobs (take_snapshot T p w) sha = Some data) \<and>
    blobs_ok D (take_snapshot T p w) \<and> ck_turns (take_snapshot T p w) = ck_turns w \<and> readable_lines (ck_files (take_snapshot T p w))"
proof (cases "\<exists>f \<in> set (readJsonl (ck_files w)). ct_turn f = T \<and> ct_path f = p")
  case True
  then have "take_snapshot T p w = w" by (auto simp: take_snapshot_def list_ex_iff)
  with True b fl show ?thesis by simp
next
  case False
  show ?thesis
  proof (cases "ck_disk w p")
    case None
    with False have "take_snapshot T p w = w\<lparr>ck_files := appendJsonl \<lparr>ct_turn = T, ct_path = p, ct_blob = None, ct_mode = None\<rparr> (ck_files w)\<rparr>"
      by (auto simp: take_snapshot_def list_ex_iff)
    with False b fl None show ?thesis by (simp add: pre_image_def contents_def blobs_ok_def)
  next
    case (Some f)
    let ?sha = "file_digest (cf_data f)"
    have s: "take_snapshot T p w = w\<lparr>ck_blobs := (if ck_blobs w ?sha = None then (ck_blobs w)(?sha \<mapsto> cf_data f) else ck_blobs w),
        ck_files := appendJsonl \<lparr>ct_turn = T, ct_path = p, ct_blob = Some ?sha, ct_mode = Some (cf_mode f)\<rparr> (ck_files w)\<rparr>"
      using False Some by (auto simp: take_snapshot_def list_ex_iff Let_def)
    have D: "cf_data f \<in> D" using b(2) Some by (auto simp: contents_def ran_def)
    have "ck_blobs (take_snapshot T p w) ?sha = Some (cf_data f)"
    proof (cases "ck_blobs w ?sha")
      case (Some d)
      with b D have "d = cf_data f" by (auto simp: blobs_ok_def dest: inj_onD)
      with Some s show ?thesis by simp
    qed (simp add: s)
    moreover have "blobs_ok D (take_snapshot T p w)" using b(1) D by (auto simp: s blobs_ok_def)
    moreover have "contents w p = Some (cf_data f)" using Some by (simp add: contents_def)
    ultimately show ?thesis using False fl by (auto simp: s pre_image_def)
  qed
qed

lemma sim_edit:
  assumes sim: "ck_sim D w (trees, tree)" and inj: "inj_on file_digest D" and f: "\<And>g. f = Some g \<Longrightarrow> cf_data g \<in> D" and ne: "trees \<noteq> []"
  shows "ck_sim D (ck_apply umask (Edit p f) w) (trees, tree(p := map_option cf_data f))"
proof -
  let ?T = "length trees" and ?fs = "readJsonl (ck_files w)"
  define v where "v = take_snapshot ?T p w"
  have rel: "contents w = tree" "readable_lines (ck_turns w)" "readable_lines (ck_files w)" "map cn_turn (readJsonl (ck_turns w)) = [1..<?T + 1]"
    "sorted (map ct_turn ?fs)" "\<And>g. g \<in> set ?fs \<Longrightarrow> ct_turn g \<le> ?T \<and> (\<forall>sha. ct_blob g = Some sha \<longrightarrow> ck_blobs w sha \<noteq> None)"
    "images_ok w trees tree"
    and bl: "blobs_ok D w" "ran (contents w) \<subseteq> D"
    using sim by (auto simp: ck_sim_def ck_related_def)
  have len: "length (readJsonl (ck_turns w)) = ?T" using rel(4) by (metis add_diff_cancel_right' length_map length_upt)
  with ne have op: "ck_apply umask (Edit p f) w = v\<lparr>ck_disk := (ck_disk w)(p := f)\<rparr>" by (auto simp: v_def)
  obtain new where new: "readJsonl (ck_files v) = ?fs @ new" "blobs_ok D v" "ck_turns v = ck_turns w" "readable_lines (ck_files v)"
    and kept: "\<And>sha d. ck_blobs w sha = Some d \<Longrightarrow> ck_blobs v sha = Some d"
    and cases: "if \<exists>g \<in> set ?fs. ct_turn g = ?T \<and> ct_path g = p then new = []
     else \<exists>g. new = [g] \<and> ct_turn g = ?T \<and> ct_path g = p \<and> pre_image v g = contents w p \<and> (\<forall>sha. ct_blob g = Some sha \<longrightarrow> ck_blobs v sha \<noteq> None)"
    using snapshot_form [OF bl inj rel(3), of ?T p] unfolding v_def by blast
  have pre: "pre_image v g = pre_image w g" if "g \<in> set ?fs" for g
    using rel(6) [OF that] kept by (auto simp: pre_image_def split: option.splits)
  have fs': "sorted (map ct_turn (?fs @ new))" "\<And>g. g \<in> set (?fs @ new) \<Longrightarrow> ct_turn g \<le> ?T \<and> (\<forall>sha. ct_blob g = Some sha \<longrightarrow> ck_blobs v sha \<noteq> None)"
    using rel(5,6) kept cases by (fastforce simp: sorted_append split: if_splits)+
  have "(trees ! (t - 1)) q = (case touch_of t q (?fs @ new) of None \<Rightarrow> (tree(p := map_option cf_data f)) q | Some g \<Rightarrow> pre_image v g)"
    (is "?at t q") if t: "0 < t" "t \<le> ?T" for t q
  proof (cases "touch_of t q ?fs")
    case (Some g)
    then have "touch_of t q (?fs @ new) = Some g" "g \<in> set ?fs" by (simp add: touch_of_append) (simp add: touch_of_mem [OF Some])
    with images_okD [OF rel(7) t, of q] Some pre show ?thesis by simp
  next
    case None
    show ?thesis
    proof (cases "q = p")
      case True
      with None t have "\<not> (\<exists>g \<in> set ?fs. ct_turn g = ?T \<and> ct_path g = p)" by (auto simp: touch_of_def find_None_iff)
      with cases None t True rel(1) images_okD [OF rel(7) t, of q] show ?thesis by (auto simp: touch_of_append touch_of_simps)
    next
      case False
      with cases None have "touch_of t q (?fs @ new) = None" by (auto simp: touch_of_append touch_of_simps split: if_splits)
      with False None rel(1) images_okD [OF rel(7) t, of q] show ?thesis by simp
    qed
  qed
  then have "images_ok (v\<lparr>ck_disk := (ck_disk w)(p := f)\<rparr>) trees (tree(p := map_option cf_data f))"
    using new(1) by (intro images_okI) (simp split: option.split)
  moreover have "contents (v\<lparr>ck_disk := (ck_disk w)(p := f)\<rparr>) = tree(p := map_option cf_data f)"
    using rel(1) by (auto simp: contents_def fun_eq_iff)
  moreover have "ran (tree(p := map_option cf_data f)) \<subseteq> D" using bl(2) f rel(1) by (auto simp: ran_def split: if_splits)
  ultimately show ?thesis
    unfolding op by (intro ck_simI) (use rel new fs' in \<open>simp_all add: blobs_ok_def\<close>)
qed

lemma sim_rewind:
  assumes sim: "ck_sim D w (trees, tree)"
  shows "ck_sim D (ck_apply umask (Rewind t) w) (spec_apply (Rewind t) (trees, tree))"
proof (cases "0 < t \<and> t \<le> length trees")
  case False
  then have "\<not> t \<in> set (map cn_turn (readJsonl (ck_turns w)))" using sim by (auto simp: ck_sim_def ck_related_def)
  then have "find (\<lambda>n. cn_turn n = t) (readJsonl (ck_turns w)) = None" by (auto simp: find_None_iff)
  with False sim show ?thesis by (auto simp: rewind_def)
next
  case t: True
  let ?fs = "readJsonl (ck_files w)"
  let ?keep = "filter (\<lambda>f. ct_turn f < t) ?fs"
  have rel: "ck_related w (trees, tree)" "blobs_ok D w" "ran (contents w) \<subseteq> D" using sim by (auto simp: ck_sim_def)
  obtain res w' where w': "rewind (\<lambda>_. None) umask t w = (Inr res, w')" "contents w' = trees ! (t - 1)" "ck_blobs w' = ck_blobs w"
    "ck_turns w' = Lines (filter (\<lambda>n. cn_turn n < t) (readJsonl (ck_turns w)))" "ck_files w' = Lines ?keep"
    using rewind_form [OF rel(1)] t by blast
  have tree_eq: "(trees ! (k - 1)) p = (case touch_of k p ?fs of None \<Rightarrow> contents w p | Some f \<Rightarrow> pre_image w f)" if "0 < k" "k \<le> length trees" for k p
    using rel(1) images_okD [OF _ that, of w tree p] by (auto simp: ck_related_def)
  have srt: "sorted (map ct_turn ?fs)" using rel(1) by (simp add: ck_related_def)
  have nums: "map cn_turn (filter (\<lambda>n. cn_turn n < t) (readJsonl (ck_turns w))) = [1..<t]"
  proof -
    have "map cn_turn (filter (\<lambda>n. cn_turn n < t) (readJsonl (ck_turns w))) = filter (\<lambda>n. n < t) [1..<length trees + 1]"
    proof -
      have "map cn_turn (filter (\<lambda>n. cn_turn n < t) xs) = filter (\<lambda>n. n < t) (map cn_turn xs)" for xs :: "ck_turn list"
        by (simp add: filter_map comp_def)
      moreover have "map cn_turn (readJsonl (ck_turns w)) = [1..<length trees + 1]" using rel(1) by (simp add: ck_related_def)
      ultimately show ?thesis by (simp only:)
    qed
    also have "\<dots> = filter (\<lambda>n. n < t) ([1..<t] @ [t..<length trees + 1])" using t upt_add_eq_append [of 1 t "length trees + 1 - t"] by simp
    also have "\<dots> = [1..<t]" by (simp add: filter_id_conv del: upt_Suc)
    finally show ?thesis .
  qed
  have "(trees ! (k - 1)) p = (case touch_of k p ?keep of None \<Rightarrow> (trees ! (t - 1)) p | Some f \<Rightarrow> pre_image w f)" if k: "0 < k" "k < t" for k p
  proof -
    let ?rest = "filter (\<lambda>f. \<not> ct_turn f < t) ?fs"
    have split: "?fs = ?keep @ ?rest" by (rule sorted_split [OF srt])
    have rest: "touch_of k p ?rest = touch_of t p ?fs" using k(2) by (intro touch_of_late) simp
    have "touch_of k p ?fs = (case touch_of k p ?keep of Some g \<Rightarrow> Some g | None \<Rightarrow> touch_of k p ?rest)"
      unfolding touch_of_append [symmetric] split [symmetric] by (rule refl)
    with tree_eq [of k p] k t have "(trees ! (k - 1)) p = (case touch_of k p ?keep of Some f \<Rightarrow> pre_image w f
        | None \<Rightarrow> (case touch_of k p ?rest of None \<Rightarrow> contents w p | Some f \<Rightarrow> pre_image w f))"
      by (simp split: option.split)
    also have "(case touch_of k p ?rest of None \<Rightarrow> contents w p | Some f \<Rightarrow> pre_image w f) = (trees ! (t - 1)) p"
      unfolding rest using tree_eq [of t p] t by simp
    finally show ?thesis by (auto split: option.splits)
  qed
  then have "images_ok w' (take (t - 1) trees) (trees ! (t - 1))"
    using w'(3,5) by (intro images_okI) (auto simp: pre_image_def split: option.split)
  moreover have "ran (trees ! (t - 1)) \<subseteq> D"
  proof -
    have c: "d \<in> D" if "contents w p = Some d" for p d using rel(3) that by (auto simp: ran_def)
    have b: "d \<in> D" if "ck_blobs w sha = Some d" for sha d using rel(2) that by (auto simp: blobs_ok_def)
    have "d \<in> D" if "(trees ! (t - 1)) p = Some d" for p d
      using that tree_eq [of t p] t c [of p d] b [of _ d] by (simp add: pre_image_def split: option.splits)
    then show ?thesis by (auto simp: ran_def)
  qed
  moreover have "length (take (t - 1) trees) = t - 1" using t by auto
  ultimately have "ck_sim D w' (take (t - 1) trees, trees ! (t - 1))"
    using w' t nums rel
    by (intro ck_simI) (auto simp: blobs_ok_def ck_related_def sorted_filter simp del: length_take upt_Suc)
  with w'(1) t show ?thesis by simp
qed

text \<open>C32 rewind_restores. Along any sequence of turns, tracked edits and rewinds, the disk is what a stack of whole-tree copies would make it: a rewind
  to a turn brings every file, touched or not, back to the content it had when that turn began, deletes those that were not there, and leaves
  a ledger later rewinds can be trusted on; no restore fails for want of a blob.  Contents met along the way must have different digests.\<close>

theorem rewind_restores:
  assumes "inj_on file_digest D" "ran (\<lambda>p. map_option cf_data (disk p)) \<subseteq> D" "\<forall>op \<in> set ops. \<forall>p f. op = Edit p (Some f) \<longrightarrow> cf_data f \<in> D"
  shows "contents (fold (ck_apply umask) ops \<lparr>ck_turns = NoLines, ck_files = NoLines, ck_blobs = Map.empty, ck_disk = disk\<rparr>) =
    snd (fold spec_apply ops ([], \<lambda>p. map_option cf_data (disk p)))"
proof -
  have start: "ck_sim D \<lparr>ck_turns = NoLines, ck_files = NoLines, ck_blobs = Map.empty, ck_disk = disk\<rparr> ([], \<lambda>p. map_option cf_data (disk p))"
    using assms(2) by (intro ck_simI) (auto simp: readable_lines_def images_ok_def blobs_ok_def contents_def fun_eq_iff)
  have "ck_sim D (fold (ck_apply umask) ops w) (fold spec_apply ops st)"
    if "ck_sim D w st" "\<forall>op \<in> set ops. \<forall>p f. op = Edit p (Some f) \<longrightarrow> cf_data f \<in> D" for w st ops
    using that
  proof (induction ops arbitrary: w st)
    case (Cons op ops)
    obtain trees tree where st: "st = (trees, tree)" by (cases st)
    have "ck_sim D (ck_apply umask op w) (spec_apply op st)"
    proof (cases op)
      case (Begin prompt toUuid now)
      with Cons.prems(1) st show ?thesis using sim_begin by (simp del: ck_apply.simps)
    next
      case (Edit p f)
      show ?thesis
      proof (cases "trees = []")
        case True
        with Cons.prems(1) st have "readJsonl (ck_turns w) = []" by (simp add: ck_sim_def ck_related_def)
        with True Cons.prems(1) st Edit show ?thesis by simp
      next
        case False
        have "cf_data g \<in> D" if "f = Some g" for g using Cons.prems(2) Edit that by auto
        with sim_edit [OF _ assms(1) _ False] Cons.prems(1) st Edit False show ?thesis by (simp del: ck_apply.simps)
      qed
    next
      case (Rewind t)
      with Cons.prems(1) st show ?thesis using sim_rewind by (simp del: ck_apply.simps spec_apply.simps)
    qed
    with Cons show ?case by simp
  qed simp
  from this [OF start assms(3)] show ?thesis by (simp add: ck_sim_def ck_related_def)
qed

definition sample_disk :: "string \<Rightarrow> ck_file option" where
  "sample_disk p = (if p = ''/w/a'' then Some \<lparr>cf_data = ''one'', cf_mode = 420\<rparr> else None)"

theorem rewind_restores_witness:
  "contents (fold (ck_apply id)
      [Begin ''go'' None ''t1'', Edit ''/w/a'' None, Edit ''/w/b'' (Some \<lparr>cf_data = ''one'', cf_mode = 420\<rparr>), Rewind 1]
      \<lparr>ck_turns = NoLines, ck_files = NoLines, ck_blobs = Map.empty, ck_disk = sample_disk\<rparr>) ''/w/a'' = Some ''one''"
proof -
  have "inj_on file_digest {''one''}" by simp
  moreover have "ran (\<lambda>p. map_option cf_data (sample_disk p)) \<subseteq> {''one''}" by (auto simp: ran_def sample_disk_def split: if_splits)
  ultimately show ?thesis by (subst rewind_restores [of "{''one''}"]) (auto simp: sample_disk_def)
qed

end
