(* ===== verification/AgentTurn.thy ===== *)
theory AgentTurn
  imports Messages Permission "HOL-Library.Sublist"
begin

text \<open>
  \<open>loop/agent.ts\<close>, the turn as the log tells it: which tool calls of a turn have no result (\<open>unansweredToolUses\<close>), the
  call a park holds for a person's approval (\<open>heldCall\<close>), the turn in flight (\<open>inFlightTurn\<close>) and the one an engine
  resumes after another died (\<open>turnToResume\<close>).  \<open>heldCall\<close> and \<open>inFlightTurn\<close> call each other on shorter logs.  The content
  of an assistant entry is an array of blocks, as the engine writes it and the code reads it back.
\<close>

section \<open>Tool calls and their positions\<close>

definition INTERRUPTED_TOOL_RESULT :: string where
  "INTERRUPTED_TOOL_RESULT =
     ''interrupted: the engine restarted while this tool ran; its effect may already have happened '' @ emdash @
     '' check before repeating''"

definition DUPLICATE_TOOL_USE_ID :: string where
  "DUPLICATE_TOOL_USE_ID =
     ''duplicate_tool_use_id: the message gave two or more tool calls the same id, so none of its calls ran '' @ emdash @
     '' call them again, one id per call''"

record tool_use =
  tu_id :: string
  tu_name :: string
  tu_input :: json

record call_at =
  ca_toolUseId :: string
  ca_entry :: string
  ca_index :: nat

record pending_call =
  pd_tu :: tool_use
  pd_at :: call_at

text \<open>A template literal over a value that may be missing.\<close>

definition js_text :: "json option \<Rightarrow> string" where
  "js_text v = (case v of None \<Rightarrow> ''undefined'' | Some x \<Rightarrow> js_string x)"

definition position_key :: "string \<Rightarrow> string \<Rightarrow> string" where
  "position_key en i = en @ '':'' @ i"

definition marker_keys :: "json list \<Rightarrow> string list" where
  "marker_keys markers =
     concat (map (\<lambda>m. case jget ''entry'' m of Some (JStr e) \<Rightarrow> [position_key e (js_text (jget ''index'' m))] | _ \<Rightarrow> []) markers)"

definition marker_ids :: "json list \<Rightarrow> json option list" where
  "marker_ids markers =
     concat (map (\<lambda>m. case jget ''entry'' m of Some (JStr e) \<Rightarrow> [] | _ \<Rightarrow> [jget ''toolUseId'' m]) markers)"

definition startedFrom :: "json list \<Rightarrow> call_at \<Rightarrow> bool" where
  "startedFrom markers c =
     (position_key (ca_entry c) (nat_str (ca_index c)) \<in> set (marker_keys markers) \<or>
      Some (JStr (ca_toolUseId c)) \<in> set (marker_ids markers))"

definition failed_result :: "tool_use \<Rightarrow> string \<Rightarrow> tool_result_event" where
  "failed_result tu body =
     \<lparr>tr_toolUseId = tu_id tu, tr_toolName = tu_name tu, tr_content = body, tr_blocks = None, tr_diff = None,
      tr_judged = None, tr_refusal = None, tr_sandboxRefusal = None, tr_isError = True\<rparr>"

definition duplicateRefusal :: "tool_use \<Rightarrow> tool_result_event" where
  "duplicateRefusal tu = failed_result tu DUPLICATE_TOOL_USE_ID"

definition duplicate_step :: "string list \<times> string list \<Rightarrow> tool_use \<Rightarrow> string list \<times> string list" where
  "duplicate_step st c =
     (case st of (seen, dupes) \<Rightarrow>
        if tu_id c \<in> set seen then (seen, jset_add (tu_id c) dupes) else (jset_add (tu_id c) seen, dupes))"

definition duplicateIds :: "tool_use list \<Rightarrow> string list" where
  "duplicateIds calls = snd (foldl duplicate_step ([], []) calls)"

section \<open>Reading a turn\<close>

definition is_assistant :: "conversation_entry \<Rightarrow> bool" where
  "is_assistant e = (case ce_payload e of AssistantEv a \<Rightarrow> True | _ \<Rightarrow> False)"

definition is_user :: "conversation_entry \<Rightarrow> bool" where
  "is_user e = (case ce_payload e of UserEv u \<Rightarrow> True | _ \<Rightarrow> False)"

definition is_end :: "conversation_entry \<Rightarrow> bool" where
  "is_end e = (case ce_payload e of ResultEv r \<Rightarrow> True | ErrorEv x \<Rightarrow> True | _ \<Rightarrow> False)"

definition result_id :: "conversation_entry \<Rightarrow> string option" where
  "result_id e = (case ce_payload e of ToolResultEv t \<Rightarrow> Some (tr_toolUseId t) | _ \<Rightarrow> None)"

definition moves_on :: "conversation_entry \<Rightarrow> bool" where
  "moves_on e = (case ce_payload e of UserEv u \<Rightarrow> True | AssistantEv a \<Rightarrow> True | ToolResultEv t \<Rightarrow> True | _ \<Rightarrow> False)"

definition movesTurn :: "conversation_entry list \<Rightarrow> bool" where
  "movesTurn es = list_ex moves_on es"

definition last_where :: "('a \<Rightarrow> bool) \<Rightarrow> 'a list \<Rightarrow> nat option" where
  "last_where P xs = map_option (\<lambda>k. length xs - Suc k) (find_index P (rev xs))"

record last_assistant =
  la_content :: "content_block list"
  la_at :: nat
  la_uuid :: string

definition assistant_blocks :: "conversation_entry \<Rightarrow> content_block list" where
  "assistant_blocks e = (case ce_payload e of AssistantEv a \<Rightarrow> msg_blocks (ae_message a) | _ \<Rightarrow> [])"

definition lastAssistantContent :: "conversation_entry list \<Rightarrow> last_assistant option" where
  "lastAssistantContent turn =
     map_option (\<lambda>i. \<lparr>la_content = assistant_blocks (turn ! i), la_at = i, la_uuid = ce_uuid (turn ! i)\<rparr>)
       (last_where is_assistant turn)"

definition as_tool_use :: "content_block \<Rightarrow> tool_use option" where
  "as_tool_use b = (case b of ToolUse i n j \<Rightarrow> Some \<lparr>tu_id = i, tu_name = n, tu_input = j\<rparr> | _ \<Rightarrow> None)"

definition tool_uses :: "content_block list \<Rightarrow> tool_use list" where
  "tool_uses bs = List.map_filter as_tool_use bs"

definition pending_at :: "string \<Rightarrow> string list \<Rightarrow> nat \<times> content_block \<Rightarrow> pending_call option" where
  "pending_at uuid answered ib =
     (case as_tool_use (snd ib) of
        None \<Rightarrow> None
      | Some tu \<Rightarrow> if tu_id tu \<in> set answered then None
                   else Some \<lparr>pd_tu = tu, pd_at = \<lparr>ca_toolUseId = tu_id tu, ca_entry = uuid, ca_index = fst ib\<rparr>\<rparr>)"

definition unansweredToolUses :: "conversation_entry list \<Rightarrow> pending_call list" where
  "unansweredToolUses turn =
     (case lastAssistantContent turn of
        None \<Rightarrow> []
      | Some asst \<Rightarrow>
          List.map_filter (pending_at (la_uuid asst) (List.map_filter result_id (drop (Suc (la_at asst)) turn)))
            (List.enumerate 0 (la_content asst)))"

section \<open>The held call and the turn in flight\<close>

text \<open>\<open>String(input.command ?? input.path ?? "")\<close>.\<close>

definition parkCommand :: "json \<Rightarrow> string" where
  "parkCommand inp =
     (case jget ''command'' inp of
        None \<Rightarrow> string_or_empty (jget ''path'' inp)
      | Some JNull \<Rightarrow> string_or_empty (jget ''path'' inp)
      | Some v \<Rightarrow> js_string v)"

record held_call =
  hl_toolUse :: tool_use
  hl_at :: call_at
  hl_command :: string
  hl_parkId :: string
  hl_turn :: "conversation_entry list"
  hl_resultAt :: nat

definition names_call :: "pending_approval \<Rightarrow> pending_call \<Rightarrow> bool" where
  "names_call want c =
     (case pa_index want of
        Some i \<Rightarrow> ca_index (pd_at c) = i \<and> pa_toolUseId want = Some (tu_id (pd_tu c))
      | None \<Rightarrow>
          (case pa_toolUseId want of
             Some (x # xs) \<Rightarrow> tu_id (pd_tu c) = x # xs
           | _ \<Rightarrow> parkCommand (tu_input (pd_tu c)) = pa_command want))"

definition pending_of :: "conversation_entry \<Rightarrow> pending_approval option" where
  "pending_of e =
     (case ce_payload e of
        ResultEv r \<Rightarrow> if re_subtype r = NeedsApproval then re_pendingApproval r else None
      | _ \<Rightarrow> None)"

definition held_in :: "conversation_entry list \<Rightarrow> nat \<Rightarrow> conversation_entry list \<Rightarrow> held_call option" where
  "held_in entries at_end turn =
     (case pending_of (entries ! at_end) of
        None \<Rightarrow> None
      | Some want \<Rightarrow>
          (case filter (names_call want) (unansweredToolUses turn) of
             [held] \<Rightarrow>
               (case lastAssistantContent turn of
                  None \<Rightarrow> None
                | Some asst \<Rightarrow>
                    if tu_id (pd_tu held) \<in> set (duplicateIds (tool_uses (la_content asst))) then None
                    else Some \<lparr>hl_toolUse = pd_tu held, hl_at = pd_at held, hl_command = pa_command want,
                               hl_parkId = ce_uuid (entries ! at_end), hl_turn = turn, hl_resultAt = at_end\<rparr>)
           | _ \<Rightarrow> None))"

text \<open>From the first user entry after the last end, to the end of the log.\<close>

definition since_end :: "conversation_entry list \<Rightarrow> conversation_entry list" where
  "since_end entries = rev (takeWhile (\<lambda>e. \<not> is_end e) (rev entries))"

definition open_turn :: "conversation_entry list \<Rightarrow> conversation_entry list" where
  "open_turn entries = dropWhile (\<lambda>e. \<not> is_user e) (since_end entries)"

lemma last_where_append:
  "last_where P (xs @ ys) =
     (case last_where P ys of Some j \<Rightarrow> Some (length xs + j) | None \<Rightarrow> last_where P xs)"
proof -
  have "find_index P (us @ vs) =
     (case find_index P us of Some j \<Rightarrow> Some j | None \<Rightarrow> map_option (\<lambda>k. length us + k) (find_index P vs))" for us vs :: "'a list"
    by (induction us; cases "find_index P vs") (auto split: option.splits)
  then show ?thesis
    by (auto simp: last_where_def option.map_comp comp_def dest: find_index_Some split: option.splits)
qed

lemma last_where_simps [simp]:
  "last_where P [] = None"
  "last_where P (xs @ [x]) = (if P x then Some (length xs) else last_where P xs)"
proof -
  show "last_where P [] = None" by (simp add: last_where_def)
  have "last_where P [x] = (if P x then Some 0 else None)" by (simp add: last_where_def)
  then show "last_where P (xs @ [x]) = (if P x then Some (length xs) else last_where P xs)"
    by (simp add: last_where_append)
qed

lemma last_where_SomeD:
  "last_where P xs = Some i \<Longrightarrow> i < length xs \<and> P (xs ! i) \<and> (\<forall>x \<in> set (drop (Suc i) xs). \<not> P x)"
proof (induction xs rule: rev_induct)
  case Nil
  then show ?case by simp
next
  case (snoc x xs)
  then show ?case by (auto simp: nth_append split: if_splits)
qed

lemma last_where_NoneD: "last_where P xs = None \<Longrightarrow> x \<in> set xs \<Longrightarrow> \<not> P x"
  by (auto simp: last_where_def find_index_None)

lemma last_where_None_iff: "last_where P xs = None \<longleftrightarrow> (\<forall>x \<in> set xs. \<not> P x)"
  by (auto simp: last_where_def find_index_None)

function heldCall :: "conversation_entry list \<Rightarrow> held_call option"
  and inFlightTurn :: "conversation_entry list \<Rightarrow> conversation_entry list"
where
  "heldCall entries =
     (case last_where is_end entries of
        None \<Rightarrow> None
      | Some i \<Rightarrow> held_in entries i (inFlightTurn (take i entries)))"
| "inFlightTurn entries =
     (case heldCall entries of
        Some held \<Rightarrow>
          (let later = drop (Suc (hl_resultAt held)) entries
           in if Some (tu_id (hl_toolUse held)) \<in> result_id ` set later then hl_turn held @ later else open_turn entries)
      | None \<Rightarrow> open_turn entries)"
  by pat_completeness auto
termination
  by (relation "measure (\<lambda>s. case s of Inl es \<Rightarrow> 2 * length es | Inr es \<Rightarrow> 2 * length es + 1)")
    (auto dest: last_where_SomeD)

declare heldCall.simps [simp del] inFlightTurn.simps [simp del]

definition settleableHeldCall :: "conversation_entry list \<Rightarrow> held_call option" where
  "settleableHeldCall entries =
     (case heldCall entries of
        Some held \<Rightarrow> if movesTurn (drop (Suc (hl_resultAt held)) entries) then None else Some held
      | None \<Rightarrow> None)"

definition turnToResume :: "conversation_entry list \<Rightarrow> (call_at \<Rightarrow> bool) \<Rightarrow> conversation_entry list" where
  "turnToResume entries started =
     (let turn = inFlightTurn entries
      in if turn \<noteq> [] then turn
         else
           (case heldCall entries of
              None \<Rightarrow> []
            | Some held \<Rightarrow>
                (let later = drop (Suc (hl_resultAt held)) entries
                 in if movesTurn later \<or> \<not> started (hl_at held) then [] else hl_turn held @ later)))"

section \<open>Continuing a turn\<close>

text \<open>
  What \<open>continueTurn\<close> and \<open>resume\<close> read off the turn: the entry that asked for it (the person's, not one seeded by the
  system ahead of it), its author and task, the answer it ends in when that has no tool call, and what its model calls
  have spent.
\<close>

definition asks_person :: "conversation_entry \<Rightarrow> bool" where
  "asks_person e = (case ce_payload e of UserEv u \<Rightarrow> au_type (ue_author u) \<noteq> SystemAuthor | _ \<Rightarrow> False)"

definition asked_entry :: "conversation_entry list \<Rightarrow> conversation_entry" where
  "asked_entry turn =
     (case find asks_person turn of
        Some e \<Rightarrow> e
      | None \<Rightarrow> turn ! 0)"

definition turn_author :: "user_event \<Rightarrow> author" where
  "turn_author asked = (if au_type (ue_author asked) = SystemAuthor then HUMAN else ue_author asked)"

definition block_text :: "content_block \<Rightarrow> string" where
  "block_text b = (case b of TextBlock t \<Rightarrow> t | _ \<Rightarrow> [])"

definition content_text :: "msg_content \<Rightarrow> string" where
  "content_text c = (case c of StrContent s \<Rightarrow> s | Blocks bs \<Rightarrow> concat (map block_text bs))"

definition turn_head :: "conversation_entry list \<Rightarrow> conversation_entry option" where
  "turn_head turn = find moves_on (rev turn)"

definition answered_head :: "conversation_entry list \<Rightarrow> assistant_event option" where
  "answered_head turn =
     (case turn_head turn of
        None \<Rightarrow> None
      | Some e \<Rightarrow>
          (case ce_payload e of
             AssistantEv a \<Rightarrow> if tool_uses (msg_blocks (ae_message a)) = [] then Some a else None
           | _ \<Rightarrow> None))"

definition usage_of :: "conversation_entry list \<Rightarrow> usage" where
  "usage_of es = foldl (\<lambda>u e. case ce_payload e of AssistantEv a \<Rightarrow> addUsage u (ae_usage a) | _ \<Rightarrow> u) emptyUsage es"

text \<open>Past a park only the calls after it count: the park's result has counted the rest.\<close>

definition resume_usage :: "conversation_entry list \<Rightarrow> conversation_entry list \<Rightarrow> usage" where
  "resume_usage entries turn =
     (case heldCall entries of
        Some held \<Rightarrow> if turn ! 0 = hl_turn held ! 0 then usage_of (drop (Suc (hl_resultAt held)) entries) else usage_of turn
      | None \<Rightarrow> usage_of turn)"

section \<open>Reading back what was written\<close>

lemma duplicate_step_simp [simp]:
  "duplicate_step (seen, dupes) c =
     (if tu_id c \<in> set seen then (seen, jset_add (tu_id c) dupes) else (jset_add (tu_id c) seen, dupes))"
  by (simp add: duplicate_step_def)

lemma duplicate_fold:
  "set (fst (foldl duplicate_step ([], []) cs)) = tu_id ` set cs"
  "i \<in> set (snd (foldl duplicate_step ([], []) cs)) \<longleftrightarrow> 2 \<le> length (filter (\<lambda>c. tu_id c = i) cs)"
proof (induction cs rule: rev_induct)
  case Nil
  { case 1 show ?case by simp }
  { case 2 show ?case by simp }
next
  case (snoc c cs)
  obtain seen dupes where f: "foldl duplicate_step ([], []) cs = (seen, dupes)" by force
  have seen: "set seen = tu_id ` set cs" using snoc.IH(1) f by simp
  have many: "i \<in> set dupes \<longleftrightarrow> 2 \<le> length (filter (\<lambda>c. tu_id c = i) cs)" using snoc.IH(2) f by simp
  have one: "tu_id c \<in> set seen \<longleftrightarrow> 1 \<le> length (filter (\<lambda>d. tu_id d = tu_id c) cs)"
    using seen by (auto simp: Suc_le_eq filter_empty_conv image_iff intro: sym)
  { case 1 show ?case using seen by (auto simp: f) }
  { case 2 show ?case using many one by (auto simp: f) }
qed

lemma duplicateIds_iff: "i \<in> set (duplicateIds cs) \<longleftrightarrow> 2 \<le> length (filter (\<lambda>c. tu_id c = i) cs)"
  by (simp add: duplicateIds_def duplicate_fold)

lemma two_of_a_key: "(\<exists>i. 2 \<le> length (filter (\<lambda>c. f c = i) cs)) \<longleftrightarrow> \<not> distinct (map f cs)"
proof (induction cs)
  case Nil
  then show ?case by simp
next
  case (Cons c cs)
  have "filter (\<lambda>d. f d = f c) cs \<noteq> [] \<longleftrightarrow> f c \<in> f ` set cs"
    by (auto simp: filter_empty_conv image_iff intro: sym)
  then have one: "2 \<le> length (filter (\<lambda>d. f d = f c) (c # cs)) \<longleftrightarrow> f c \<in> f ` set cs"
    by (cases "filter (\<lambda>d. f d = f c) cs") auto
  have other: "2 \<le> length (filter (\<lambda>d. f d = i) (c # cs)) \<longleftrightarrow> 2 \<le> length (filter (\<lambda>d. f d = i) cs)" if "i \<noteq> f c" for i
    using that by auto
  have more: "2 \<le> length (filter (\<lambda>d. f d = i) cs) \<Longrightarrow> 2 \<le> length (filter (\<lambda>d. f d = i) (c # cs))" for i
    by auto
  have "(\<exists>i. 2 \<le> length (filter (\<lambda>d. f d = i) (c # cs))) \<longleftrightarrow> f c \<in> f ` set cs \<or> (\<exists>i. 2 \<le> length (filter (\<lambda>d. f d = i) cs))"
    using one other more by metis
  with Cons show ?case by simp
qed

lemma duplicateIds_Nil: "duplicateIds cs = [] \<longleftrightarrow> distinct (map tu_id cs)"
  using two_of_a_key [of tu_id cs] by (metis duplicateIds_iff ex_in_conv set_empty)

lemma lastAssistantContent_SomeD:
  "lastAssistantContent turn = Some a \<Longrightarrow>
     la_at a < length turn \<and> is_assistant (turn ! la_at a) \<and> la_content a = assistant_blocks (turn ! la_at a) \<and>
     la_uuid a = ce_uuid (turn ! la_at a) \<and> (\<forall>e \<in> set (drop (Suc (la_at a)) turn). \<not> is_assistant e)"
  by (auto simp: lastAssistantContent_def dest: last_where_SomeD)

lemma set_map_filter: "y \<in> set (List.map_filter f xs) \<longleftrightarrow> (\<exists>x \<in> set xs. f x = Some y)"
  by (force simp: map_filter_def)

lemma as_tool_use_Some: "as_tool_use b = Some tu \<longleftrightarrow> b = ToolUse (tu_id tu) (tu_name tu) (tu_input tu)"
  by (cases b; cases tu) (auto simp: as_tool_use_def)

lemma pending_at_Some:
  "pending_at u as ib = Some pd \<longleftrightarrow>
     as_tool_use (snd ib) = Some (pd_tu pd) \<and> tu_id (pd_tu pd) \<notin> set as \<and>
     pd_at pd = \<lparr>ca_toolUseId = tu_id (pd_tu pd), ca_entry = u, ca_index = fst ib\<rparr>"
  by (cases pd) (auto simp: pending_at_def split: option.splits)

lemma bex_enumerate: "(\<exists>x \<in> set (List.enumerate 0 xs). P x) \<longleftrightarrow> (\<exists>i < length xs. P (i, xs ! i))"
  by (force simp: in_set_enumerate_eq)

lemma set_answered: "x \<in> set (List.map_filter result_id es) \<longleftrightarrow> Some x \<in> result_id ` set es"
  by (auto simp: set_map_filter image_iff) metis

lemma unanswered_iff:
  "pd \<in> set (unansweredToolUses turn) \<longleftrightarrow>
     (\<exists>a i. lastAssistantContent turn = Some a \<and> i < length (la_content a) \<and> as_tool_use (la_content a ! i) = Some (pd_tu pd) \<and>
        Some (tu_id (pd_tu pd)) \<notin> result_id ` set (drop (Suc (la_at a)) turn) \<and>
        pd_at pd = \<lparr>ca_toolUseId = tu_id (pd_tu pd), ca_entry = la_uuid a, ca_index = i\<rparr>)"
proof (cases "lastAssistantContent turn")
  case None
  then show ?thesis by (simp add: unansweredToolUses_def)
next
  case (Some a)
  then show ?thesis
    by (auto simp: unansweredToolUses_def set_map_filter [where f = "pending_at u as" for u as] bex_enumerate pending_at_Some set_answered)
qed

lemma pending_at_index: "pending_at u as ib = Some pd \<Longrightarrow> ca_index (pd_at pd) = fst ib"
  by (auto simp: pending_at_def split: option.splits if_splits)

lemma distinct_pending: "distinct (map fst ibs) \<Longrightarrow> distinct (map (\<lambda>pd. ca_index (pd_at pd)) (List.map_filter (pending_at u as) ibs))"
proof (induction ibs)
  case Nil
  then show ?case by (simp add: map_filter_def)
next
  case (Cons ib ibs)
  have "\<forall>pd \<in> set (List.map_filter (pending_at u as) ibs). ca_index (pd_at pd) \<in> fst ` set ibs"
    by (auto simp: set_map_filter dest!: pending_at_index)
  moreover have "fst ib \<notin> fst ` set ibs" using Cons.prems by simp
  ultimately have "\<forall>pd \<in> set (List.map_filter (pending_at u as) ibs). ca_index (pd_at pd) \<noteq> fst ib" by metis
  moreover have "ca_index (pd_at a) = fst ib" if "pending_at u as ib = Some a" for a
    using that by (rule pending_at_index)
  ultimately show ?case
    using Cons by (cases "pending_at u as ib") (auto simp: map_filter_simps image_iff)
qed

lemma distinct_unanswered: "distinct (map (\<lambda>pd. ca_index (pd_at pd)) (unansweredToolUses turn))"
  by (auto simp: unansweredToolUses_def distinct_pending split: option.split)

lemma filter_distinct_key: "distinct (map f xs) \<Longrightarrow> x \<in> set xs \<Longrightarrow> filter (\<lambda>y. f y = f x) xs = [x]"
  by (induction xs) (auto simp: image_iff filter_empty_conv)

lemma heldCall_SomeD:
  "heldCall es = Some h \<Longrightarrow>
     last_where is_end es = Some (hl_resultAt h) \<and> hl_turn h = inFlightTurn (take (hl_resultAt h) es) \<and>
     (\<exists>want a. pending_of (es ! hl_resultAt h) = Some want \<and> lastAssistantContent (hl_turn h) = Some a \<and>
        filter (names_call want) (unansweredToolUses (hl_turn h)) = [\<lparr>pd_tu = hl_toolUse h, pd_at = hl_at h\<rparr>] \<and>
        tu_id (hl_toolUse h) \<notin> set (duplicateIds (tool_uses (la_content a))) \<and>
        hl_command h = pa_command want \<and> hl_parkId h = ce_uuid (es ! hl_resultAt h))"
  by (subst (asm) heldCall.simps) (auto simp: held_in_def split: option.splits list.splits if_splits)

lemma last_where_drop: "last_where P xs = Some i \<Longrightarrow> drop (Suc i) xs = rev (takeWhile (\<lambda>x. \<not> P x) (rev xs))"
proof (induction xs rule: rev_induct)
  case Nil
  then show ?case by simp
next
  case (snoc x xs)
  then show ?case by (auto split: if_splits dest: last_where_SomeD)
qed

lemma since_end_drop: "last_where is_end es = Some i \<Longrightarrow> since_end es = drop (Suc i) es"
  by (simp add: since_end_def last_where_drop)

lemma set_open_turn: "set (open_turn es) \<subseteq> set es"
  by (auto simp: open_turn_def since_end_def dest!: set_dropWhileD set_takeWhileD)

lemma open_turn_hd: "open_turn es \<noteq> [] \<Longrightarrow> is_user (hd (open_turn es))"
  unfolding open_turn_def using hd_dropWhile by blast

lemma subseq_since_end: "subseq (since_end es) es"
  unfolding since_end_def
  by (rule suffix_imp_subseq) (simp add: suffix_to_prefix takeWhile_is_prefix)

lemma subseq_open_turn: "subseq (open_turn es) es"
  unfolding open_turn_def by (meson subseq_order.trans subseq_since_end suffix_dropWhile suffix_imp_subseq)

lemma turn_shape:
  "\<forall>h. heldCall es = Some h \<longrightarrow>
     hl_turn h \<noteq> [] \<and> is_user (hd (hl_turn h)) \<and> subseq (hl_turn h @ drop (Suc (hl_resultAt h)) es) es"
  "(inFlightTurn es \<noteq> [] \<longrightarrow> is_user (hd (inFlightTurn es))) \<and> subseq (inFlightTurn es) es"
proof (induction es and es rule: heldCall_inFlightTurn.induct)
  case (1 es)
  show ?case
  proof (intro allI impI)
    fix h assume "heldCall es = Some h"
    note h = heldCall_SomeD [OF this]
    let ?i = "hl_resultAt h"
    from h obtain a where "lastAssistantContent (hl_turn h) = Some a" by blast
    then have "hl_turn h \<noteq> []" by (auto dest: lastAssistantContent_SomeD)
    moreover have "inFlightTurn (take ?i es) \<noteq> [] \<longrightarrow> is_user (hd (inFlightTurn (take ?i es)))" "subseq (inFlightTurn (take ?i es)) (take ?i es)"
      using 1 h by auto
    moreover have "es = take ?i es @ es ! ?i # drop (Suc ?i) es" using h by (auto dest: last_where_SomeD intro: id_take_nth_drop)
    ultimately show "hl_turn h \<noteq> [] \<and> is_user (hd (hl_turn h)) \<and> subseq (hl_turn h @ drop (Suc ?i) es) es"
      using h by (metis list_emb_Cons list_emb_append_mono subseq_order.refl)
  qed
next
  case (2 es)
  show ?case
  proof (cases "heldCall es")
    case None
    then show ?thesis by (subst (1 2 3) inFlightTurn.simps) (simp add: open_turn_hd subseq_open_turn)
  next
    case (Some h)
    with 2 show ?thesis
      by (subst (1 2 3) inFlightTurn.simps) (auto simp: Let_def open_turn_hd subseq_open_turn)
  qed
qed

lemma resumed_shape:
  assumes "turnToResume es started \<noteq> []"
  shows "is_user (hd (turnToResume es started)) \<and> subseq (turnToResume es started) es"
  using assms turn_shape [of es]
  by (auto simp: turnToResume_def Let_def split: option.splits if_splits)

section \<open>The park and the call it holds\<close>

definition park_of :: "pending_call \<Rightarrow> conversation_entry \<Rightarrow> bool" where
  "park_of pd e =
     (\<exists>want. pending_of e = Some want \<and> pa_toolUseId want = Some (tu_id (pd_tu pd)) \<and> pa_index want = Some (ca_index (pd_at pd)))"

definition quiet :: "conversation_entry list \<Rightarrow> bool" where
  "quiet es = (\<not> movesTurn es \<and> \<not> list_ex is_end es)"

lemma quietD: "quiet es \<Longrightarrow> e \<in> set es \<Longrightarrow> \<not> is_end e \<and> \<not> is_user e \<and> result_id e = None"
  by (auto simp: quiet_def movesTurn_def list_ex_iff moves_on_def is_user_def result_id_def split: sdk_message.splits)

lemma pending_is_end: "pending_of e \<noteq> None \<Longrightarrow> is_end e"
  by (auto simp: pending_of_def is_end_def split: sdk_message.splits)

lemma last_end_at: "is_end e \<Longrightarrow> \<not> list_ex is_end later \<Longrightarrow> last_where is_end (es @ e # later) = Some (length es)"
proof -
  assume e: "is_end e" and "\<not> list_ex is_end later"
  then have "last_where is_end later = None" by (simp add: last_where_None_iff list_ex_iff)
  with e show ?thesis using last_where_append [of is_end "es @ [e]" later] by simp
qed

lemma heldCall_at:
  "is_end e \<Longrightarrow> \<not> list_ex is_end later \<Longrightarrow> heldCall (es @ e # later) = held_in (es @ e # later) (length es) (inFlightTurn es)"
  by (subst heldCall.simps) (simp add: last_end_at)

lemma since_end_at: "is_end e \<Longrightarrow> \<not> list_ex is_end later \<Longrightarrow> since_end (es @ e # later) = later"
  by (simp add: since_end_drop last_end_at)

definition held_as :: "pending_call \<Rightarrow> conversation_entry list \<Rightarrow> conversation_entry \<Rightarrow> held_call" where
  "held_as pd es park =
     \<lparr>hl_toolUse = pd_tu pd, hl_at = pd_at pd, hl_command = pa_command (the (pending_of park)), hl_parkId = ce_uuid park,
      hl_turn = inFlightTurn es, hl_resultAt = length es\<rparr>"

lemma names_one:
  assumes "pd \<in> set (unansweredToolUses turn)" "pa_toolUseId want = Some (tu_id (pd_tu pd))" "pa_index want = Some (ca_index (pd_at pd))"
  shows "filter (names_call want) (unansweredToolUses turn) = [pd]"
proof -
  have "filter (\<lambda>c. ca_index (pd_at c) = ca_index (pd_at pd)) (unansweredToolUses turn) = [pd]"
    using filter_distinct_key [OF distinct_unanswered assms(1)] .
  moreover have "names_call want c \<longleftrightarrow> ca_index (pd_at c) = ca_index (pd_at pd)" if "c \<in> set (unansweredToolUses turn)" for c
  proof -
    have "c = pd" if "ca_index (pd_at c) = ca_index (pd_at pd)"
      using that \<open>c \<in> _\<close> assms(1) distinct_unanswered [of turn] by (auto simp: distinct_map inj_on_def)
    then show ?thesis using assms(2,3) by (auto simp: names_call_def)
  qed
  then have "filter (names_call want) (unansweredToolUses turn) = filter (\<lambda>c. ca_index (pd_at c) = ca_index (pd_at pd)) (unansweredToolUses turn)"
    by (rule filter_cong [OF refl])
  ultimately show ?thesis by simp
qed

lemma parked_held:
  assumes "lastAssistantContent (inFlightTurn es) = Some a" "pd \<in> set (unansweredToolUses (inFlightTurn es))"
    and "tu_id (pd_tu pd) \<notin> set (duplicateIds (tool_uses (la_content a)))" "park_of pd park" "\<not> list_ex is_end later"
  shows "heldCall (es @ park # later) = Some (held_as pd es park)"
proof -
  from assms(4) obtain want where w: "pending_of park = Some want" "pa_toolUseId want = Some (tu_id (pd_tu pd))"
    "pa_index want = Some (ca_index (pd_at pd))" by (auto simp: park_of_def)
  then have "is_end park" by (simp add: pending_is_end)
  with assms w show ?thesis
    by (simp add: heldCall_at held_in_def names_one held_as_def)
qed

lemma quiet_open: "is_end e \<Longrightarrow> quiet later \<Longrightarrow> open_turn (es @ e # later) = []"
  by (simp add: open_turn_def since_end_at quiet_def dropWhile_eq_Nil_conv) (meson quietD quiet_def)

lemma quiet_results: "quiet later \<Longrightarrow> Some i \<notin> result_id ` set later"
  by (metis image_iff option.distinct(1) quietD)

lemma parked_resume:
  assumes "heldCall (es @ park # later) = Some (held_as pd es park)" "is_end park" "quiet later"
  shows "inFlightTurn (es @ park # later) = []"
    and "settleableHeldCall (es @ park # later) = Some (held_as pd es park)"
    and "turnToResume (es @ park # later) started = (if started (pd_at pd) then inFlightTurn es @ later else [])"
proof -
  show flight: "inFlightTurn (es @ park # later) = []"
    using assms by (subst inFlightTurn.simps) (simp add: held_as_def Let_def quiet_results quiet_open)
  show "settleableHeldCall (es @ park # later) = Some (held_as pd es park)"
    using assms by (simp add: settleableHeldCall_def held_as_def quiet_def)
  show "turnToResume (es @ park # later) started = (if started (pd_at pd) then inFlightTurn es @ later else [])"
    using assms flight by (simp add: turnToResume_def held_as_def quiet_def)
qed

text \<open>C9 parked_call_is_held. A turn that parks on one of its open calls is found again in the log by any engine: the held call is that
  very call, at its position, with the turn that led to it; nothing is resumed until its approved run has begun, and then the
  parked turn is.\<close>

theorem parked_call_is_held:
  assumes "lastAssistantContent (inFlightTurn es) = Some a" "pd \<in> set (unansweredToolUses (inFlightTurn es))"
    and "tu_id (pd_tu pd) \<notin> set (duplicateIds (tool_uses (la_content a)))" "park_of pd park" "quiet later"
  shows "settleableHeldCall (es @ park # later) = Some (held_as pd es park) \<and>
    inFlightTurn (es @ park # later) = [] \<and>
    turnToResume (es @ park # later) started = (if started (pd_at pd) then inFlightTurn es @ later else [])"
proof -
  have "is_end park" using assms(4) by (auto simp: park_of_def intro: pending_is_end)
  moreover have "heldCall (es @ park # later) = Some (held_as pd es park)"
    using assms parked_held [of es a pd park later] by (simp add: quiet_def)
  ultimately show ?thesis using parked_resume assms(5) by blast
qed

text \<open>Once the held call has its result the parked turn is in flight again, with what followed the park
  in place of the park; an engine that dies at any later moment before the turn's end resumes it there, and the settled call is
  not among the open ones.\<close>

theorem settled_park_goes_on:
  assumes "lastAssistantContent (inFlightTurn es) = Some a" "pd \<in> set (unansweredToolUses (inFlightTurn es))"
    and "tu_id (pd_tu pd) \<notin> set (duplicateIds (tool_uses (la_content a)))" "park_of pd park"
    and "\<not> list_ex is_end later" "Some (tu_id (pd_tu pd)) \<in> result_id ` set later"
  shows "turnToResume (es @ park # later) started = inFlightTurn es @ later \<and>
    (list_ex is_assistant later \<or> pd \<notin> set (unansweredToolUses (inFlightTurn es @ later)))"
proof -
  have "heldCall (es @ park # later) = Some (held_as pd es park)" using assms parked_held by simp
  then have "inFlightTurn (es @ park # later) = inFlightTurn es @ later"
    using assms(6) by (subst inFlightTurn.simps) (simp add: held_as_def Let_def)
  moreover have "inFlightTurn es @ later \<noteq> []" using assms(6) by auto
  ultimately have "turnToResume (es @ park # later) started = inFlightTurn es @ later" by (simp add: turnToResume_def)
  moreover have "pd \<notin> set (unansweredToolUses (inFlightTurn es @ later))" if "\<not> list_ex is_assistant later"
  proof -
    have "last_where is_assistant later = None" using that by (simp add: last_where_None_iff list_ex_iff)
    then have "lastAssistantContent (inFlightTurn es @ later) = Some a"
      using assms(1) by (auto simp: lastAssistantContent_def last_where_append nth_append dest: last_where_SomeD)
    moreover have "la_at a < length (inFlightTurn es)" using assms(1) by (auto dest: lastAssistantContent_SomeD)
    ultimately show ?thesis using assms(6) by (auto simp: unanswered_iff)
  qed
  ultimately show ?thesis by blast
qed

text \<open>After a turn's result, or its error, there is no turn to resume, whatever quiet entries follow and
  whatever markers are on record; only a park can be gone on with.\<close>

theorem ended_turn_stays_ended:
  assumes "is_end e" "pending_of e = None" "quiet later"
  shows "heldCall (es @ e # later) = None \<and> turnToResume (es @ e # later) started = []"
proof -
  have held: "heldCall (es @ e # later) = None"
    using assms by (simp add: heldCall_at quiet_def held_in_def)
  then have "inFlightTurn (es @ e # later) = []"
    using assms by (subst inFlightTurn.simps) (simp add: quiet_open)
  with held show ?thesis by (simp add: turnToResume_def)
qed

text \<open>What an approval settles is named by the log alone: the park is the last end of the log, a
  \<open>needs_approval\<close> result; the call is the one open call it names, a tool use at its position in the assistant entry that
  carries its uuid, before the park, and no other call of that message has its id.\<close>

theorem held_call_binds:
  assumes "heldCall es = Some h"
  shows "\<exists>park want asst.
    park = es ! hl_resultAt h \<and> hl_resultAt h < length es \<and> pending_of park = Some want \<and> hl_parkId h = ce_uuid park \<and>
    hl_command h = pa_command want \<and> \<not> list_ex is_end (drop (Suc (hl_resultAt h)) es) \<and>
    filter (names_call want) (unansweredToolUses (hl_turn h)) = [\<lparr>pd_tu = hl_toolUse h, pd_at = hl_at h\<rparr>] \<and>
    asst \<in> set (take (hl_resultAt h) es) \<and> is_assistant asst \<and> ce_uuid asst = ca_entry (hl_at h) \<and>
    ca_index (hl_at h) < length (assistant_blocks asst) \<and>
    assistant_blocks asst ! ca_index (hl_at h) = ToolUse (tu_id (hl_toolUse h)) (tu_name (hl_toolUse h)) (tu_input (hl_toolUse h)) \<and>
    length (filter (\<lambda>u. tu_id u = tu_id (hl_toolUse h)) (tool_uses (assistant_blocks asst))) < 2"
proof -
  note h = heldCall_SomeD [OF assms]
  then obtain want a where w: "pending_of (es ! hl_resultAt h) = Some want" "lastAssistantContent (hl_turn h) = Some a"
    "filter (names_call want) (unansweredToolUses (hl_turn h)) = [\<lparr>pd_tu = hl_toolUse h, pd_at = hl_at h\<rparr>]"
    "tu_id (hl_toolUse h) \<notin> set (duplicateIds (tool_uses (la_content a)))"
    "hl_command h = pa_command want" "hl_parkId h = ce_uuid (es ! hl_resultAt h)" by blast
  note a = lastAssistantContent_SomeD [OF w(2)]
  have "\<lparr>pd_tu = hl_toolUse h, pd_at = hl_at h\<rparr> \<in> set (unansweredToolUses (hl_turn h))"
  proof -
    have "\<lparr>pd_tu = hl_toolUse h, pd_at = hl_at h\<rparr> \<in> set (filter (names_call want) (unansweredToolUses (hl_turn h)))" using w(3) by simp
    then show ?thesis by simp
  qed
  then have at: "ca_index (hl_at h) < length (la_content a)" "ca_entry (hl_at h) = la_uuid a"
    "as_tool_use (la_content a ! ca_index (hl_at h)) = Some (hl_toolUse h)"
    using w(2) by (auto simp: unanswered_iff)
  have inside: "hl_turn h ! la_at a \<in> set (take (hl_resultAt h) es)"
  proof -
    have "set (hl_turn h) \<subseteq> set (take (hl_resultAt h) es)"
      using conjunct2 [OF turn_shape(2) [of "take (hl_resultAt h) es"]] conjunct1 [OF conjunct2 [OF h]]
      by (metis set_nths_subset subseq_conv_nths)
    then show ?thesis using a by (meson nth_mem subsetD)
  qed
  have last: "hl_resultAt h < length es" "\<not> list_ex is_end (drop (Suc (hl_resultAt h)) es)"
    using last_where_SomeD [OF conjunct1 [OF h]] by (simp_all add: list_ex_iff)
  have asst: "is_assistant (hl_turn h ! la_at a)" "ce_uuid (hl_turn h ! la_at a) = ca_entry (hl_at h)"
    "ca_index (hl_at h) < length (assistant_blocks (hl_turn h ! la_at a))"
    using a at by simp_all
  have use: "assistant_blocks (hl_turn h ! la_at a) ! ca_index (hl_at h) = ToolUse (tu_id (hl_toolUse h)) (tu_name (hl_toolUse h)) (tu_input (hl_toolUse h))"
    using at(3) a by (simp add: as_tool_use_Some)
  have once: "length (filter (\<lambda>u. tu_id u = tu_id (hl_toolUse h)) (tool_uses (assistant_blocks (hl_turn h ! la_at a)))) < 2"
    using w(4) a by (simp add: duplicateIds_iff)
  show ?thesis
    by (intro exI [of _ "es ! hl_resultAt h"] exI [of _ want] exI [of _ "hl_turn h ! la_at a"] conjI refl last inside asst use once w)
qed

text \<open>What a continued turn needs of its entries: a user entry first, and a subsequence of the log.\<close>

lemma approved_shape:
  "heldCall es = Some h \<Longrightarrow>
   is_user (hd (hl_turn h @ drop (Suc (hl_resultAt h)) es)) \<and> subseq (hl_turn h @ drop (Suc (hl_resultAt h)) es) es \<and> hl_turn h \<noteq> []"
  using turn_shape(1) [of es] by simp

lemma opened_by_user:
  assumes "turn \<noteq> []" "is_user (hd turn)"
  shows "is_user (turn ! 0) \<and> (\<exists>u. ce_payload (asked_entry turn) = UserEv u) \<and> (\<exists>e \<in> set turn. turn_head turn = Some e \<and> moves_on e)"
proof -
  have first: "is_user (turn ! 0)" using assms by (simp add: hd_conv_nth)
  then have "moves_on (turn ! 0)" by (auto simp: is_user_def moves_on_def split: sdk_message.splits)
  moreover have "turn ! 0 \<in> set (rev turn)" using assms(1) by simp
  ultimately have "find moves_on (rev turn) \<noteq> None" by (meson find_None_iff)
  then obtain e where "find moves_on (rev turn) = Some e" by blast
  moreover from this have "e \<in> set turn" "moves_on e" by (auto simp: find_Some_iff nth_mem rev_nth)
  moreover have "\<exists>u. ce_payload (asked_entry turn) = UserEv u"
  proof (cases "find asks_person turn")
    case None
    with first show ?thesis by (auto simp: asked_entry_def is_user_def split: sdk_message.splits)
  next
    case (Some e)
    then have "asks_person e" by (auto simp: find_Some_iff)
    with Some show ?thesis by (auto simp: asked_entry_def asks_person_def split: sdk_message.splits)
  qed
  ultimately show ?thesis using first by (auto simp: turn_head_def)
qed

section \<open>A parked session\<close>

definition asks :: conversation_entry where
  "asks = entry ''u1'' (UserEv \<lparr>ue_message = user_msg (StrContent ''ship it''), ue_author = HUMAN, ue_requestId = None\<rparr>)"

definition answers :: conversation_entry where
  "answers = entry ''a1'' (AssistantEv
     \<lparr>ae_message = assistant_msg (Blocks [TextBlock ''ok'', ToolUse ''t1'' ''Bash'' (JObj [(''command'', JStr ''make ship'')])]),
      ae_usage = emptyUsage, ae_stopReason = None, ae_model = ''m'', ae_effort = None\<rparr>)"

definition park_result :: "result_subtype \<Rightarrow> pending_approval option \<Rightarrow> conversation_entry" where
  "park_result s p = entry ''p1'' (ResultEv \<lparr>re_subtype = s, re_reason = None, re_refusal = None, re_sandboxRefusal = None,
     re_numTurns = 1, re_usage = emptyUsage, re_pendingApproval = p\<rparr>)"

definition parked_call :: pending_call where
  "parked_call = \<lparr>pd_tu = \<lparr>tu_id = ''t1'', tu_name = ''Bash'', tu_input = JObj [(''command'', JStr ''make ship'')]\<rparr>,
     pd_at = \<lparr>ca_toolUseId = ''t1'', ca_entry = ''a1'', ca_index = 1\<rparr>\<rparr>"

definition the_park :: conversation_entry where
  "the_park = park_result NeedsApproval
     (Some \<lparr>pa_command = ''make ship'', pa_reason = ''approval_required'', pa_toolUseId = Some ''t1'', pa_index = Some 1\<rparr>)"

lemma parked_session:
  "lastAssistantContent (inFlightTurn [asks, answers]) = Some \<lparr>la_content = assistant_blocks answers, la_at = 1, la_uuid = ''a1''\<rparr>"
  "parked_call \<in> set (unansweredToolUses (inFlightTurn [asks, answers]))"
  "tu_id (pd_tu parked_call) \<notin> set (duplicateIds (tool_uses (assistant_blocks answers)))"
  by code_simp+

lemma the_park_names: "park_of parked_call the_park"
  by (simp add: park_of_def the_park_def park_result_def pending_of_def parked_call_def entry_def)

lemma parked_log: "heldCall [asks, answers, the_park] \<noteq> None"
  by code_simp

theorem parked_call_is_held_witness:
  "settleableHeldCall [asks, answers, the_park] = Some (held_as parked_call [asks, answers] the_park)"
  using parked_call_is_held [of "[asks, answers]", OF parked_session(1,2) _ the_park_names, of "[]"] parked_session(3)
  by (simp add: quiet_def movesTurn_def)

definition settles :: conversation_entry where
  "settles = entry ''r1'' (ToolResultEv (failed_result (pd_tu parked_call) ''no''))"

theorem settled_park_goes_on_witness:
  "turnToResume [asks, answers, the_park, settles] (\<lambda>c. False) = inFlightTurn [asks, answers] @ [settles]"
  using settled_park_goes_on [of "[asks, answers]", OF parked_session(1,2) _ the_park_names, of "[settles]"] parked_session(3)
  by (simp add: settles_def is_end_def result_id_def entry_def failed_result_def)

theorem ended_turn_stays_ended_witness: "turnToResume [asks, answers, park_result Success None] (\<lambda>c. True) = []"
  using ended_turn_stays_ended [of "park_result Success None" "[]" "[asks, answers]"]
  by (simp add: park_result_def is_end_def pending_of_def quiet_def movesTurn_def entry_def)

theorem held_call_binds_witness: "\<exists>h. heldCall [asks, answers, the_park] = Some h \<and> hl_resultAt h < length [asks, answers, the_park]"
  using parked_log held_call_binds by fastforce

end
