(* ===== verification/AgentTool.thy ===== *)
theory AgentTool
  imports AgentTurn Hooks Registry
begin

text \<open>
  \<open>loop/agent.ts\<close>, one tool call: \<open>executeTool\<close> from the hooks before it to the result, the permission it needs
  (\<open>resolve\<close>, \<open>resolveDecided\<close>), the marker written before its effect (\<open>markStarted\<close>), and \<open>settlePending\<close>, which gives
  each call a dead engine left without a result one.  What the engine does to the world is the list of its effects in order, so
  that an engine that dies has done a prefix of them.  The policy, the answerer, the hooks and the tools are the host's.
\<close>

section \<open>What the host gives\<close>

datatype decision_via = ViaPolicy | ViaInteractive | ViaHeadlessPark | ViaHeadlessRefused | ViaTool

datatype park_mode = NoPark | ParkEdges | ParkEveryAsk

text \<open>The tags of a tool (\<open>tools/types.ts\<close>) the loop looks at.\<close>

record tool_caps =
  tc_readOnly :: bool
  tc_edits :: bool
  tc_memory :: bool
  tc_executes :: bool
  tc_callReadOnly :: "(json \<Rightarrow> bool) option"

definition call_reads :: "tool_caps \<Rightarrow> json \<Rightarrow> bool" where
  "call_reads t inp = (case tc_callReadOnly t of Some f \<Rightarrow> f inp | None \<Rightarrow> tc_readOnly t)"

datatype mark_answer = MarkWritten | NoMarkChannel | MarkRefused string

record agent_host =
  ag_hooks :: hook_engine
  ag_hookCtx :: hook_context
  ag_get :: "string \<Rightarrow> tool_caps option"
  ag_resolve :: "string \<Rightarrow> tool_caps option"
  ag_run :: "string \<Rightarrow> json \<Rightarrow> tool_result"
  ag_policy :: "permission_request \<Rightarrow> decision"
  ag_onAsk :: "(permission_request \<Rightarrow> string option \<Rightarrow> safety_reason option \<Rightarrow> call_at \<Rightarrow> decision option) option"
  ag_park :: park_mode
  ag_mark :: "json \<Rightarrow> mark_answer"
  ag_stamp :: "(string \<times> json) list"
  ag_tooLarge :: "tool_result_event \<Rightarrow> (nat \<times> nat) option"

text \<open>
  \<open>ag_run\<close> is the tool's result as \<open>raceAbort\<close> hands it over (the interruption's, once the run is cancelled).  A decision a
  person took for a held call, with what the park showed them, is a \<open>held_decision\<close>.
\<close>

record held_decision =
  hd_index :: nat
  hd_decision :: decision
  hd_command :: string

datatype agent_effect =
    Observed permission_request decision decision_via
  | Marked json
  | Ran call_at bool string json
  | ExecLogged string string bool
  | Appended sdk_message
  | Posted string string
  | StatusSet string

text \<open>\<open>Posted\<close> is mail to a session's mailbox, \<open>StatusSet\<close> the status of this one in the registry.  The flag of \<open>Ran\<close> says that the call was marked, as a call that may change something is.\<close>

section \<open>Hooks around a call\<close>

definition hook_says :: "string \<Rightarrow> hook_result \<Rightarrow> bool" where
  "hook_says k r = (case map_of r k of None \<Rightarrow> False | Some v \<Rightarrow> truthy v)"

definition hook_text :: "string \<Rightarrow> string \<Rightarrow> hook_result \<Rightarrow> string" where
  "hook_text k d r = (case map_of r k of None \<Rightarrow> d | Some JNull \<Rightarrow> d | Some v \<Rightarrow> js_string v)"

definition hook_results :: "agent_host \<Rightarrow> hook_input \<Rightarrow> hook_result list" where
  "hook_results host i = fst (run_hooks i (ag_hookCtx host) (ag_hooks host))"

definition updated_input :: "hook_result \<Rightarrow> json \<Rightarrow> json" where
  "updated_input r i = (if hook_says ''updatedInput'' r then the (map_of r ''updatedInput'') else i)"

text \<open>The reason of the hook that blocks the call, or the input it goes on with.\<close>

definition pre_hooks :: "agent_host \<Rightarrow> tool_use \<Rightarrow> string + json" where
  "pre_hooks host tu =
     (if has_event PreToolUse (ag_hooks host) then
        let results = hook_results host (pre_tool_use (tu_name tu) (tu_input tu))
        in case find (hook_says ''block'') results of
             Some blocker \<Rightarrow> Inl (hook_text ''reason'' ''denied'' blocker)
           | None \<Rightarrow> Inr (fold updated_input results (tu_input tu))
      else Inr (tu_input tu))"

definition post_hooks :: "agent_host \<Rightarrow> tool_use \<Rightarrow> json \<Rightarrow> string \<Rightarrow> bool \<Rightarrow> string" where
  "post_hooks host tu inp display isError =
     (if has_event PostToolUse (ag_hooks host) then
        let results = hook_results host (post_tool_use (tu_name tu) inp display isError);
            notes = map (\<lambda>r. js_string (the (map_of r ''injectContext''))) (filter (hook_says ''injectContext'') results)
        in if notes = [] then display else display @ [nl, nl] @ ''[hook] '' @ join [nl] notes
      else display)"

section \<open>The permission of a call\<close>

datatype call_permission = Decided decision decision_via | ParkRun string string call_at

definition is_deny :: "decision \<Rightarrow> bool" where
  "is_deny d = (case d of Deny r s sr j \<Rightarrow> True | _ \<Rightarrow> False)"

definition denied_text :: "decision \<Rightarrow> string" where
  "denied_text d = (case d of Deny r s sr j \<Rightarrow> r | _ \<Rightarrow> ''not allowed'')"

text \<open>An allow is observed by the caller, once the tool has run.\<close>

definition unless_allow :: "permission_request \<Rightarrow> decision \<Rightarrow> decision_via \<Rightarrow> agent_effect list" where
  "unless_allow req d via = (if is_allow d then [] else [Observed req d via])"

definition decided_by :: "permission_request \<Rightarrow> decision \<Rightarrow> decision_via \<Rightarrow> call_permission \<times> agent_effect list" where
  "decided_by req d via = (Decided d via, unless_allow req d via)"

definition some_text :: "string option \<Rightarrow> string option" where
  "some_text s = (if s = Some [] then None else s)"

definition permission_hook :: "agent_host \<Rightarrow> permission_request \<Rightarrow> string option \<Rightarrow> safety_reason option \<Rightarrow> decision option" where
  "permission_hook host req reason edge =
     (if has_event PermissionRequest (ag_hooks host) then
        (case find (hook_says ''decision'')
                (hook_results host (permission_request_input (rq_toolName req) (rq_input req) (some_text reason) (map_option reason_name edge))) of
           None \<Rightarrow> None
         | Some answer \<Rightarrow>
             if map_of answer ''decision'' = Some (JStr ''allow'') then Some (Allow None)
             else Some (Deny (hook_text ''reason'' ''denied by hook'' answer) None None None))
      else None)"

definition ask_person :: "agent_host \<Rightarrow> permission_request \<Rightarrow> string option \<Rightarrow> safety_reason option \<Rightarrow> call_at \<Rightarrow> decision option" where
  "ask_person host req reason edge at_call =
     (case ag_onAsk host of None \<Rightarrow> None | Some answerer \<Rightarrow> answerer req reason edge at_call)"

definition parks :: "agent_host \<Rightarrow> safety_reason option \<Rightarrow> bool" where
  "parks host edge \<longleftrightarrow> (edge \<noteq> None \<and> ag_park host \<noteq> NoPark) \<or> ag_park host = ParkEveryAsk"

definition resolve_call :: "agent_host \<Rightarrow> permission_request \<Rightarrow> call_at \<Rightarrow> call_permission \<times> agent_effect list" where
  "resolve_call host req at_call =
     (case ag_policy host req of
        Ask reason edge \<Rightarrow>
          (case permission_hook host req reason edge of
             Some d \<Rightarrow> decided_by req d ViaPolicy
           | None \<Rightarrow>
               (case ask_person host req reason edge at_call of
                  Some d \<Rightarrow> decided_by req d ViaInteractive
                | None \<Rightarrow>
                    if parks host edge then
                      (ParkRun (parkCommand (rq_input req)) (case edge of Some r \<Rightarrow> reason_name r | None \<Rightarrow> ''approval_required'') at_call,
                       [Observed req (Ask reason edge) ViaHeadlessPark])
                    else
                      decided_by req (Deny ''approval required but running non-interactively'' (Some ModeSource) None None) ViaHeadlessRefused))
      | d \<Rightarrow> decided_by req d ViaPolicy)"

definition resolveDecided :: "agent_host \<Rightarrow> permission_request \<Rightarrow> decision \<Rightarrow> call_permission \<times> agent_effect list" where
  "resolveDecided host req decided =
     (let d = ag_policy host req
      in if is_deny d then (Decided d ViaPolicy, [Observed req d ViaPolicy])
         else (Decided decided ViaInteractive, if is_deny decided then [Observed req decided ViaInteractive] else []))"

section \<open>One call\<close>

datatype call_outcome = CallResult tool_result_event | CallParked string string call_at | CallThrew string

definition marker_of :: "agent_host \<Rightarrow> tool_use \<Rightarrow> call_at \<Rightarrow> json" where
  "marker_of host tu at_call =
     JObj (ag_stamp host @
       [(''toolUseId'', JStr (tu_id tu)), (''name'', JStr (tu_name tu)), (''entry'', JStr (ca_entry at_call)),
        (''index'', JNum (int (ca_index at_call)))])"

definition markStarted :: "agent_host \<Rightarrow> tool_use \<Rightarrow> call_at \<Rightarrow> string option \<times> agent_effect list" where
  "markStarted host tu at_call =
     (case ag_mark host (marker_of host tu at_call) of
        MarkWritten \<Rightarrow> (None, [Marked (marker_of host tu at_call)])
      | NoMarkChannel \<Rightarrow> (None, [])
      | MarkRefused e \<Rightarrow> (Some e, []))"

definition judged_note :: "decision \<Rightarrow> (judge_verdict \<times> string) option" where
  "judged_note d =
     (case d of
        Allow j \<Rightarrow> map_option (\<lambda>r. (JudgeAllow, r)) j
      | Deny r s sr j \<Rightarrow> map_option (\<lambda>w. (JudgeDeny, w)) j
      | Ask r e \<Rightarrow> None)"

definition behavior_name :: "decision \<Rightarrow> string" where
  "behavior_name d = (case d of Allow j \<Rightarrow> ''allow'' | Deny r s sr j \<Rightarrow> ''deny'' | Ask r e \<Rightarrow> ''ask'')"

definition block_summary :: "rich_block \<Rightarrow> string" where
  "block_summary b =
     (case b of RText t \<Rightarrow> t | RImage m d \<Rightarrow> ''[image '' @ m @ '']'' | RDocument m d \<Rightarrow> ''[document '' @ m @ '']'')"

definition summarizeBlocks :: "rich_block list \<Rightarrow> string" where
  "summarizeBlocks blocks = join '' '' (map block_summary blocks)"

definition permission_of :: "agent_host \<Rightarrow> tool_use \<Rightarrow> json \<Rightarrow> author \<Rightarrow> permission_request" where
  "permission_of host tu inp speaker =
     (let t = ag_resolve host (tu_name tu)
      in \<lparr>rq_toolName = tu_name tu, rq_input = inp,
          rq_readOnly = (case t of Some c \<Rightarrow> tc_readOnly c | None \<Rightarrow> False),
          rq_isEdit = (case t of Some c \<Rightarrow> tc_edits c | None \<Rightarrow> False),
          rq_isMemory = (case t of Some c \<Rightarrow> tc_memory c | None \<Rightarrow> False),
          rq_principal = speaker\<rparr>)"

text \<open>A tool's own boundary may still refuse the call; then that is the decision observed.\<close>

definition first_line :: "string \<Rightarrow> string" where
  "first_line s = takeWhile (\<lambda>c. c \<noteq> nl) s"

definition observed_run :: "permission_request \<Rightarrow> decision \<Rightarrow> decision_via \<Rightarrow> tool_result \<Rightarrow> agent_effect" where
  "observed_run req d via res =
     (if (case tl_meta res of Some m \<Rightarrow> tm_outside_roots m | None \<Rightarrow> False) then
        Observed req
          (Deny (case tl_content res of ResultString s \<Rightarrow> first_line s | ResultBlocks bs \<Rightarrow> ''refused by the tool'') (Some ToolBoundary) None None)
          ViaTool
      else Observed req d via)"

definition result_text :: "result_content \<Rightarrow> string" where
  "result_text c = (case c of ResultString s \<Rightarrow> s | ResultBlocks bs \<Rightarrow> summarizeBlocks bs)"

definition call_result :: "agent_host \<Rightarrow> tool_use \<Rightarrow> json \<Rightarrow> decision \<Rightarrow> tool_result \<Rightarrow> tool_result_event" where
  "call_result host tu inp d res =
     \<lparr>tr_toolUseId = tu_id tu, tr_toolName = tu_name tu,
      tr_content = post_hooks host tu inp (result_text (tl_content res)) (tl_isError res),
      tr_blocks = (case tl_content res of ResultString s \<Rightarrow> None | ResultBlocks bs \<Rightarrow> Some bs),
      tr_diff = some_text (Option.bind (tl_meta res) tm_diff),
      tr_judged = judged_note d,
      tr_refusal = Option.bind (tl_meta res) tm_refusal,
      tr_sandboxRefusal = Option.bind (tl_meta res) tm_sandboxRefusal,
      tr_isError = tl_isError res\<rparr>"

definition finish_call :: "agent_host \<Rightarrow> tool_use \<Rightarrow> json \<Rightarrow> decision \<Rightarrow> tool_result \<Rightarrow> call_outcome \<times> agent_effect list" where
  "finish_call host tu inp d res =
     (CallResult (call_result host tu inp d res), [ExecLogged (tu_name tu) (behavior_name d) (tl_isError res)])"

definition needs_mark :: "agent_host \<Rightarrow> tool_use \<Rightarrow> json \<Rightarrow> bool" where
  "needs_mark host tu inp = (case ag_resolve host (tu_name tu) of Some t \<Rightarrow> \<not> call_reads t inp | None \<Rightarrow> False)"

definition then_do :: "agent_effect list \<Rightarrow> 'a \<times> agent_effect list \<Rightarrow> 'a \<times> agent_effect list" where
  "then_do es r = (fst r, es @ snd r)"

definition run_call_now :: "agent_host \<Rightarrow> tool_use \<Rightarrow> call_at \<Rightarrow> permission_request \<Rightarrow> decision \<Rightarrow> decision_via \<Rightarrow> call_outcome \<times> agent_effect list" where
  "run_call_now host tu at_call req d via =
     (let inp = rq_input req;
          (refused, marks) = (if needs_mark host tu inp then markStarted host tu at_call else (None, []))
      in case refused of
           Some e \<Rightarrow> (CallThrew e, marks)
         | None \<Rightarrow>
             (let res = ag_run host (tu_name tu) inp
              in then_do (marks @ [Ran at_call (needs_mark host tu inp) (tu_name tu) inp, observed_run req d via res])
                   (finish_call host tu inp d res)))"

text \<open>A held call that a hook has since made another than the park showed is asked about again.\<close>

definition permit :: "agent_host \<Rightarrow> permission_request \<Rightarrow> call_at \<Rightarrow> held_decision option \<Rightarrow> call_permission \<times> agent_effect list" where
  "permit host req at_call approved =
     (case approved of
        Some a \<Rightarrow>
          if parkCommand (rq_input req) = hd_command a then resolveDecided host req (hd_decision a) else resolve_call host req at_call
      | None \<Rightarrow> resolve_call host req at_call)"

definition executeTool ::
  "agent_host \<Rightarrow> tool_use \<Rightarrow> call_at \<Rightarrow> author \<Rightarrow> held_decision option \<Rightarrow> call_outcome \<times> agent_effect list" where
  "executeTool host tu at_call speaker approved =
     (case pre_hooks host tu of
        Inl reason \<Rightarrow>
          (CallResult (failed_result tu (''Blocked by hook: '' @ reason)), [ExecLogged (tu_name tu) ''hook_block'' True])
      | Inr inp \<Rightarrow>
          (let req = permission_of host tu inp speaker;
               permission = permit host req at_call approved
           in case fst permission of
                ParkRun command reason c \<Rightarrow> (CallParked command reason c, snd permission)
              | Decided d via \<Rightarrow>
                  then_do (snd permission)
                    (if is_deny d then finish_call host tu inp d (tool_error (''Permission denied: '' @ denied_text d))
                     else run_call_now host tu at_call req d via)))"

section \<open>Results that are too large, and the calls left without one\<close>

text \<open>\<open>Number((bytes / 2 ** 20).toFixed(2))\<close> in a message: two decimals, rounded half up, without trailing zeros.\<close>

definition mib :: "nat \<Rightarrow> string" where
  "mib bytes =
     (let hundredths = (200 * bytes + 2 ^ 20) div 2 ^ 21
      in if hundredths mod 100 = 0 then nat_str (hundredths div 100) else frac_str (of_nat hundredths / 100))"

definition appendToolResult :: "agent_host \<Rightarrow> tool_result_event \<Rightarrow> tool_result_event" where
  "appendToolResult host t =
     (case ag_tooLarge host t of
        None \<Rightarrow> t
      | Some (bytes, limit) \<Rightarrow>
          failed_result \<lparr>tu_id = tr_toolUseId t, tu_name = tr_toolName t, tu_input = JNull\<rparr>
            (''the tool'' @ [squote] @ ''s result of '' @ mib bytes @ '' MiB exceeds the session store'' @ [squote] @ ''s event limit of '' @ mib limit @
             '' MiB; read a smaller range or write it to a file''))"

definition appended_result :: "agent_host \<Rightarrow> tool_result_event \<Rightarrow> agent_effect" where
  "appended_result host t = Appended (ToolResultEv (appendToolResult host t))"

definition settle_one ::
  "agent_host \<Rightarrow> (call_at \<Rightarrow> bool) \<Rightarrow> bool \<Rightarrow> held_decision option \<Rightarrow> author \<Rightarrow> pending_call \<Rightarrow> call_outcome \<times> agent_effect list" where
  "settle_one host started duplicated decided speaker p =
     (if started (pd_at p) then (CallResult (failed_result (pd_tu p) INTERRUPTED_TOOL_RESULT), [])
      else if duplicated then (CallResult (duplicateRefusal (pd_tu p)), [])
      else executeTool host (pd_tu p) (pd_at p) speaker
             (case decided of Some d \<Rightarrow> if ca_index (pd_at p) = hd_index d then Some d else None | None \<Rightarrow> None))"

text \<open>\<open>None\<close>: every call has its result; else the park or the error that ended it.\<close>

fun settlePending ::
  "agent_host \<Rightarrow> (call_at \<Rightarrow> bool) \<Rightarrow> bool \<Rightarrow> held_decision option \<Rightarrow> author \<Rightarrow> pending_call list \<Rightarrow> call_outcome option \<times> agent_effect list" where
  "settlePending host started duplicated decided speaker [] = (None, [])"
| "settlePending host started duplicated decided speaker (p # ps) =
     (case settle_one host started duplicated decided speaker p of
        (CallResult r, es) \<Rightarrow>
          then_do (es @ [appended_result host r]) (settlePending host started duplicated decided speaker ps)
      | (stopped, es) \<Rightarrow> (Some stopped, es))"

section \<open>The calls of an answer\<close>

text \<open>
  The calls of a fresh answer run in steps: all of them at once when each only reads, else one by one.  The effects of a step
  that runs several are listed call by call; its results are appended once all are in.  The calls of a message that gives two
  of them one id are refused.
\<close>

definition calls_of :: "string \<Rightarrow> content_block list \<Rightarrow> pending_call list" where
  "calls_of uuid content_blocks = List.map_filter (pending_at uuid []) (List.enumerate 0 content_blocks)"

definition all_read_only :: "agent_host \<Rightarrow> pending_call list \<Rightarrow> bool" where
  "all_read_only host calls =
     list_all (\<lambda>p. case ag_get host (tu_name (pd_tu p)) of None \<Rightarrow> False | Some t \<Rightarrow> call_reads t (tu_input (pd_tu p))) calls"

definition tool_steps :: "agent_host \<Rightarrow> bool \<Rightarrow> pending_call list \<Rightarrow> pending_call list list" where
  "tool_steps host duplicated calls =
     (if all_read_only host calls \<and> length calls > 1 \<and> \<not> duplicated then [calls] else map (\<lambda>p. [p]) calls)"

definition exec_live :: "agent_host \<Rightarrow> bool \<Rightarrow> author \<Rightarrow> pending_call \<Rightarrow> call_outcome \<times> agent_effect list" where
  "exec_live host duplicated speaker p =
     (if duplicated then (CallResult (duplicateRefusal (pd_tu p)), [])
      else executeTool host (pd_tu p) (pd_at p) speaker None)"

definition result_of :: "call_outcome \<Rightarrow> tool_result_event option" where
  "result_of c = (case c of CallResult r \<Rightarrow> Some r | _ \<Rightarrow> None)"

fun run_steps ::
  "agent_host \<Rightarrow> bool \<Rightarrow> author \<Rightarrow> pending_call list list \<Rightarrow> (call_outcome option \<times> tool_result_event list) \<times> agent_effect list" where
  "run_steps host duplicated speaker [] = ((None, []), [])"
| "run_steps host duplicated speaker (step # steps) =
     (let ran = map (exec_live host duplicated speaker) step;
          effects = concat (map snd ran)
      in case find (\<lambda>c. result_of c = None) (map fst ran) of
           Some stopped \<Rightarrow> ((Some stopped, []), effects)
         | None \<Rightarrow>
             (let results = List.map_filter result_of (map fst ran);
                  rest = run_steps host duplicated speaker steps
              in ((fst (fst rest), results @ snd (fst rest)), effects @ map (appended_result host) results @ snd rest)))"

definition run_answer :: "agent_host \<Rightarrow> author \<Rightarrow> string \<Rightarrow> content_block list \<Rightarrow> (call_outcome option \<times> tool_result_event list) \<times> agent_effect list" where
  "run_answer host speaker uuid content_blocks =
     (let calls = calls_of uuid content_blocks;
          duplicated = (duplicateIds (map pd_tu calls) \<noteq> [])
      in run_steps host duplicated speaker (tool_steps host duplicated calls))"

section \<open>The life of an engine\<close>

record session_log =
  sl_entries :: "conversation_entry list"
  sl_markers :: "json list"
  sl_ran :: "(call_at \<times> bool) list"
  sl_next :: nat

definition empty_log :: session_log where
  "empty_log = \<lparr>sl_entries = [], sl_markers = [], sl_ran = [], sl_next = 0\<rparr>"

text \<open>Entries get the uuids of a generator that never repeats one; their parent is the head.\<close>

definition append_entry :: "(nat \<Rightarrow> string) \<Rightarrow> sdk_message \<Rightarrow> session_log \<Rightarrow> session_log" where
  "append_entry uuid p s =
     s\<lparr>sl_entries := sl_entries s @
         [\<lparr>ce_uuid = uuid (sl_next s), ce_parentUuid = (if sl_entries s = [] then None else Some (ce_uuid (last (sl_entries s)))),
           ce_ts = [], ce_payload = p\<rparr>],
       sl_next := Suc (sl_next s)\<rparr>"

fun do_effect :: "(nat \<Rightarrow> string) \<Rightarrow> agent_effect \<Rightarrow> session_log \<Rightarrow> session_log" where
  "do_effect uuid (Marked m) s = s\<lparr>sl_markers := sl_markers s @ [m]\<rparr>"
| "do_effect uuid (Ran c b n i) s = s\<lparr>sl_ran := sl_ran s @ [(c, b)]\<rparr>"
| "do_effect uuid (Appended p) s = append_entry uuid p s"
| "do_effect uuid e s = s"

definition do_effects :: "(nat \<Rightarrow> string) \<Rightarrow> agent_effect list \<Rightarrow> session_log \<Rightarrow> session_log" where
  "do_effects uuid es s = fold (do_effect uuid) es s"

text \<open>
  \<open>continueTurn\<close> settles what the turn left open: on a resume, the turn to resume; on an approval of the park the person
  named, the parked turn with their answer.
\<close>

definition settle_turn ::
  "agent_host \<Rightarrow> json list \<Rightarrow> conversation_entry list \<Rightarrow> held_decision option \<Rightarrow> call_outcome option \<times> agent_effect list" where
  "settle_turn host markers turn decided =
     (let duplicated = (case lastAssistantContent turn of None \<Rightarrow> False | Some a \<Rightarrow> duplicateIds (tool_uses (la_content a)) \<noteq> []);
          speaker = (case ce_payload (asked_entry turn) of UserEv u \<Rightarrow> turn_author u | _ \<Rightarrow> HUMAN)
      in settlePending host (startedFrom markers) duplicated decided speaker (unansweredToolUses turn))"

definition resume_effects :: "agent_host \<Rightarrow> session_log \<Rightarrow> agent_effect list" where
  "resume_effects host s =
     (let turn = turnToResume (effectiveEntries (sl_entries s)) (startedFrom (sl_markers s))
      in if turn = [] then [] else snd (settle_turn host (sl_markers s) turn None))"

definition approve :: "string option \<Rightarrow> bool \<Rightarrow> string \<Rightarrow> conversation_entry list \<Rightarrow> (conversation_entry list \<times> held_decision) option" where
  "approve reason allowed parkId entries =
     (case heldCall entries of
        None \<Rightarrow> None
      | Some held \<Rightarrow>
          (let later = drop (Suc (hl_resultAt held)) entries
           in if movesTurn later \<or> parkId \<noteq> hl_parkId held then None
              else Some (hl_turn held @ later,
                \<lparr>hd_index = ca_index (hl_at held),
                 hd_decision = (if allowed then Allow None
                                else Deny (case reason of Some r \<Rightarrow> r | None \<Rightarrow> ''declined by the user'') None None None),
                 hd_command = hl_command held\<rparr>)))"

definition approve_effects :: "agent_host \<Rightarrow> string option \<Rightarrow> bool \<Rightarrow> string \<Rightarrow> session_log \<Rightarrow> agent_effect list" where
  "approve_effects host reason allowed parkId s =
     (case approve reason allowed parkId (effectiveEntries (sl_entries s)) of
        None \<Rightarrow> []
      | Some (turn, decided) \<Rightarrow> snd (settle_turn host (sl_markers s) turn (Some decided)))"

text \<open>C21 continued_turn_is_typed. The reads of a continued turn that the code takes for granted never fail, whether a resume goes on with
  it or an approval: the turn is a subsequence of the log that opens with a user entry, so the entry that asked for it is a user event, and
  the search for its head finds an entry of it that moves the turn on.\<close>

theorem continued_turn_is_typed:
  assumes "turn = turnToResume es started \<and> turn \<noteq> [] \<or> (\<exists>reason allowed parkId d. approve reason allowed parkId es = Some (turn, d))"
  shows "is_user (turn ! 0) \<and> (\<exists>u. ce_payload (asked_entry turn) = UserEv u) \<and> (\<exists>e \<in> set turn. turn_head turn = Some e \<and> moves_on e) \<and>
    subseq turn es"
proof -
  have "turn \<noteq> [] \<and> is_user (hd turn) \<and> subseq turn es"
    using assms
  proof (elim disjE exE)
    assume "turn = turnToResume es started \<and> turn \<noteq> []"
    then have t: "turn = turnToResume es started" "turnToResume es started \<noteq> []" by auto
    show ?thesis unfolding t(1) using t(2) resumed_shape [OF t(2)] by blast
  next
    fix reason allowed parkId d
    assume "approve reason allowed parkId es = Some (turn, d)"
    then obtain h where "heldCall es = Some h" "turn = hl_turn h @ drop (Suc (hl_resultAt h)) es"
      by (auto simp: approve_def Let_def split: option.splits if_splits)
    then show ?thesis using approved_shape [of es h] by blast
  qed
  then show ?thesis using opened_by_user [of turn] by blast
qed

theorem continued_turn_is_typed_witness:
  "\<exists>turn d u. approve None True ''p1'' [asks, answers, the_park] = Some (turn, d) \<and> ce_payload (asked_entry turn) = UserEv u"
proof -
  have "approve None True ''p1'' [asks, answers, the_park] \<noteq> None" by code_simp
  then obtain turn d where a: "approve None True ''p1'' [asks, answers, the_park] = Some (turn, d)" by auto
  then show ?thesis using continued_turn_is_typed [of turn "[asks, answers, the_park]" "\<lambda>c. False"] by blast
qed

text \<open>
  An engine may die after any number of its effects; another one, or the same, goes on from the log.  An answer's entry is
  appended and its calls run; a dead engine's calls are settled on a resume or an approval; every other entry is one that is no
  answer.
\<close>

definition durable :: "agent_host \<Rightarrow> bool" where
  "durable host \<longleftrightarrow> (\<forall>m. ag_mark host m \<noteq> NoMarkChannel)"

inductive engine_step :: "(nat \<Rightarrow> string) \<Rightarrow> session_log \<Rightarrow> session_log \<Rightarrow> bool" for uuid where
  answer_step:
    "durable host \<Longrightarrow>
     es = Appended (AssistantEv a) # snd (run_answer host speaker (uuid (sl_next s)) (msg_blocks (ae_message a))) \<Longrightarrow>
     engine_step uuid s (do_effects uuid (take n es) s)"
| resume_step: "durable host \<Longrightarrow> engine_step uuid s (do_effects uuid (take n (resume_effects host s)) s)"
| approve_step:
    "durable host \<Longrightarrow> engine_step uuid s (do_effects uuid (take n (approve_effects host reason allowed parkId s)) s)"
| other_step: "(\<And>a. p \<noteq> AssistantEv a) \<Longrightarrow> engine_step uuid s (append_entry uuid p s)"

section \<open>What a list of effects does\<close>

text \<open>The markers it writes, the changing calls it runs, and whether each such call has its marker by then.\<close>

fun marks :: "agent_effect list \<Rightarrow> json list" where
  "marks [] = []"
| "marks (Marked m # es) = m # marks es"
| "marks (e # es) = marks es"

fun changes :: "agent_effect list \<Rightarrow> call_at list" where
  "changes [] = []"
| "changes (Ran c b n i # es) = (if b then c # changes es else changes es)"
| "changes (e # es) = changes es"

fun guarded :: "json list \<Rightarrow> agent_effect list \<Rightarrow> bool" where
  "guarded ms [] = True"
| "guarded ms (Marked m # es) = guarded (ms @ [m]) es"
| "guarded ms (Ran c b n i # es) = ((b \<longrightarrow> startedFrom ms c) \<and> guarded ms es)"
| "guarded ms (e # es) = guarded ms es"

lemma startedFrom_mono: "set ms \<subseteq> set ms' \<Longrightarrow> startedFrom ms c \<Longrightarrow> startedFrom ms' c"
  unfolding startedFrom_def marker_keys_def marker_ids_def by auto

lemma guarded_mono: "guarded ms es \<Longrightarrow> set ms \<subseteq> set ms' \<Longrightarrow> guarded ms' es"
proof (induction ms es arbitrary: ms' rule: guarded.induct)
  case (2 ms m es)
  then have "set (ms @ [m]) \<subseteq> set (ms' @ [m])" by auto
  with 2 show ?case by simp
qed (auto intro: startedFrom_mono)

lemma effects_append:
  "marks (xs @ ys) = marks xs @ marks ys"
  "changes (xs @ ys) = changes xs @ changes ys"
  "guarded ms (xs @ ys) \<longleftrightarrow> guarded ms xs \<and> guarded (ms @ marks xs) ys"
proof -
  show "marks (xs @ ys) = marks xs @ marks ys" by (induction xs rule: marks.induct) auto
  show "changes (xs @ ys) = changes xs @ changes ys" by (induction xs rule: changes.induct) auto
  show "guarded ms (xs @ ys) \<longleftrightarrow> guarded ms xs \<and> guarded (ms @ marks xs) ys"
    by (induction ms xs rule: guarded.induct) auto
qed

lemma guarded_append: "guarded ms xs \<Longrightarrow> guarded ms ys \<Longrightarrow> guarded ms (xs @ ys)"
  by (auto simp: effects_append intro: guarded_mono)

lemma guarded_concat: "\<forall>xs \<in> set xss. guarded ms xs \<Longrightarrow> guarded ms (concat xss)"
  by (induction xss) (auto intro: guarded_append)

lemma changes_concat: "changes (concat xss) = concat (map changes xss)"
  by (induction xss) (auto simp: effects_append)

fun inert_effect :: "agent_effect \<Rightarrow> bool" where
  "inert_effect (Marked m) = False"
| "inert_effect (Ran c b n i) = False"
| "inert_effect e = True"

abbreviation inert :: "agent_effect list \<Rightarrow> bool" where
  "inert es \<equiv> list_all inert_effect es"

lemma inert_effects: "inert es \<Longrightarrow> guarded ms es \<and> changes es = [] \<and> marks es = []"
proof (induction es)
  case Nil
  then show ?case by simp
next
  case (Cons e es)
  then show ?case by (cases e) auto
qed

lemma inert_results [simp]: "inert (map (appended_result host) rs)"
  by (induction rs) (simp_all add: appended_result_def)

lemma marker_starts: "startedFrom (ms @ [marker_of host tu c]) c"
  by (simp add: startedFrom_def marker_keys_def marker_of_def js_text_def int_str_def)

text \<open>One call: marked before it changes anything, and run at most once.\<close>

definition call_effects_ok :: "call_at \<Rightarrow> agent_effect list \<Rightarrow> bool" where
  "call_effects_ok c es \<longleftrightarrow> (\<forall>ms. guarded ms es) \<and> (changes es = [] \<or> changes es = [c])"

lemma inert_ok: "inert es \<Longrightarrow> call_effects_ok c es"
  using inert_effects by (auto simp: call_effects_ok_def)

lemma resolve_inert: "inert (snd (resolve_call host req c))" "inert (snd (resolveDecided host req d))"
  by (auto simp: resolve_call_def resolveDecided_def decided_by_def unless_allow_def Let_def split: decision.split option.split)

lemma ok_after: "inert xs \<Longrightarrow> call_effects_ok c ys \<Longrightarrow> call_effects_ok c (xs @ ys)"
  using inert_effects by (auto simp: call_effects_ok_def effects_append)

lemma run_now_ok: "durable host \<Longrightarrow> call_effects_ok c (snd (run_call_now host tu c req d via))"
  by (auto simp: run_call_now_def Let_def markStarted_def then_do_def finish_call_def observed_run_def call_effects_ok_def marker_starts
    durable_def split: mark_answer.split)

lemma permit_inert: "inert (snd (permit host req c approved))"
  by (simp add: permit_def resolve_inert split: option.split)

lemma finish_ok: "call_effects_ok c (snd (finish_call host tu inp d res))"
  by (simp add: finish_call_def inert_ok)

lemma executeTool_ok: "durable host \<Longrightarrow> call_effects_ok c (snd (executeTool host tu c speaker approved))"
  by (simp add: executeTool_def Let_def then_do_def inert_ok ok_after permit_inert finish_ok run_now_ok
    split: sum.split call_permission.split)

lemma settle_one_ok: "durable host \<Longrightarrow> call_effects_ok (pd_at p) (snd (settle_one host started dup decided speaker p))"
  by (simp add: settle_one_def executeTool_ok inert_ok)

lemma settle_one_started: "started (pd_at p) \<Longrightarrow> snd (settle_one host started dup decided speaker p) = []"
  by (simp add: settle_one_def)

lemma exec_live_ok: "durable host \<Longrightarrow> call_effects_ok (pd_at p) (snd (exec_live host dup speaker p))"
  by (simp add: exec_live_def executeTool_ok inert_ok)

lemma settle_effects:
  assumes "durable host"
  shows "guarded ms (snd (settlePending host started dup decided speaker ps)) \<and>
    subseq (changes (snd (settlePending host started dup decided speaker ps))) (map pd_at (filter (\<lambda>p. \<not> started (pd_at p)) ps))"
proof (induction ps)
  case Nil
  then show ?case by simp
next
  case (Cons p ps)
  obtain o1 es where one: "settle_one host started dup decided speaker p = (o1, es)" by force
  have ok: "guarded ms es" "changes es = [] \<or> changes es = [pd_at p] \<and> \<not> started (pd_at p)"
    using settle_one_ok [OF assms, of p started dup decided speaker] settle_one_started [of started p host dup decided speaker] one
    by (auto simp: call_effects_ok_def)
  have rest: "guarded ms (es @ appended_result host r # snd (settlePending host started dup decided speaker ps))"
    "changes (es @ appended_result host r # snd (settlePending host started dup decided speaker ps))
       = changes es @ changes (snd (settlePending host started dup decided speaker ps))" for r
    using Cons ok guarded_append [of ms es "appended_result host r # snd (settlePending host started dup decided speaker ps)"]
    by (simp_all add: effects_append appended_result_def)
  have sub: "subseq (changes es @ xs) (map pd_at (filter (\<lambda>p. \<not> started (pd_at p)) (p # ps)))"
    if "subseq xs (map pd_at (filter (\<lambda>p. \<not> started (pd_at p)) ps))" for xs
    using ok(2) that by auto
  show ?case
    using Cons sub [of "[]"] sub ok(1) rest by (cases o1) (simp_all add: one then_do_def)
qed

lemma subseq_changes_map:
  "(\<And>p. p \<in> set ps \<Longrightarrow> changes (f p) = [] \<or> changes (f p) = [pd_at p]) \<Longrightarrow>
   subseq (concat (map (\<lambda>p. changes (f p)) ps)) (map pd_at ps)"
proof (induction ps)
  case Nil
  then show ?case by simp
next
  case (Cons p ps)
  have "subseq (concat (map (\<lambda>p. changes (f p)) ps)) (map pd_at ps)" using Cons by simp
  moreover have "changes (f p) = [] \<or> changes (f p) = [pd_at p]" using Cons.prems by simp
  ultimately show ?case by auto
qed

lemma step_effects:
  assumes "durable host"
  shows "guarded ms (concat (map snd (map (exec_live host dup speaker) ps))) \<and>
    subseq (changes (concat (map snd (map (exec_live host dup speaker) ps)))) (map pd_at ps)"
  using exec_live_ok [OF assms] subseq_changes_map [of ps "\<lambda>p. snd (exec_live host dup speaker p)"]
  by (auto simp: call_effects_ok_def changes_concat comp_def intro!: guarded_concat)

lemma run_steps_effects:
  assumes "durable host"
  shows "guarded ms (snd (run_steps host dup speaker steps)) \<and>
    subseq (changes (snd (run_steps host dup speaker steps))) (map pd_at (concat steps))"
proof (induction steps)
  case Nil
  then show ?case by simp
next
  case (Cons ps steps)
  note step = step_effects [OF assms, of ms dup speaker ps]
  have rs: "guarded ms (map (appended_result host) rs)" "changes (map (appended_result host) rs) = []" for rs
    using inert_effects [OF inert_results] by blast+
  have "guarded ms (concat (map snd (map (exec_live host dup speaker) ps)) @ map (appended_result host) rs @ snd (run_steps host dup speaker steps))" for rs
    using step Cons rs by (intro guarded_append) blast+
  moreover have "subseq (changes (concat (map snd (map (exec_live host dup speaker) ps)) @ map (appended_result host) rs @ snd (run_steps host dup speaker steps)))
      (map pd_at (ps @ concat steps))" for rs
    using step Cons rs by (simp add: effects_append list_emb_append_mono)
  moreover have "subseq (changes (concat (map snd (map (exec_live host dup speaker) ps)))) (map pd_at (ps @ concat steps))"
    using step by (simp add: subseq_rev_drop_many)
  ultimately show ?case
    using step by (auto simp: Let_def split: option.split)
qed

lemma subseq_distinct: "subseq xs ys \<Longrightarrow> distinct ys \<Longrightarrow> distinct xs"
  by (metis distinct_nthsI subseq_conv_nths)

lemma concat_tool_steps: "concat (tool_steps host dup calls) = calls"
  by (simp add: tool_steps_def concat_map_singleton)

lemma calls_of_at: "p \<in> set (calls_of u bs) \<Longrightarrow> ca_entry (pd_at p) = u"
  by (auto simp: calls_of_def set_map_filter pending_at_Some)

lemma distinct_positions: "distinct (map (\<lambda>p. ca_index (pd_at p)) ps) \<Longrightarrow> distinct (map pd_at ps)"
  by (auto simp: distinct_map inj_on_def)

lemma answer_effects:
  assumes "durable host"
  shows "guarded ms (snd (run_answer host speaker u bs)) \<and> distinct (changes (snd (run_answer host speaker u bs))) \<and>
    (\<forall>c \<in> set (changes (snd (run_answer host speaker u bs))). ca_entry c = u)"
proof -
  let ?calls = "calls_of u bs" and ?es = "snd (run_answer host speaker u bs)"
  have es: "guarded ms ?es" "subseq (changes ?es) (map pd_at ?calls)"
    using run_steps_effects [OF assms] by (simp_all add: run_answer_def Let_def concat_tool_steps) (metis concat_tool_steps)
  have "distinct (map pd_at ?calls)"
    by (rule distinct_positions) (simp add: calls_of_def distinct_pending)
  then have "distinct (changes ?es)" using es(2) subseq_distinct by blast
  moreover have "set (changes ?es) \<subseteq> pd_at ` set ?calls" using es(2) by (metis set_nths_subset subseq_conv_nths list.set_map)
  ultimately show ?thesis using es(1) calls_of_at by blast
qed

section \<open>No effect twice\<close>

definition changing_runs :: "session_log \<Rightarrow> call_at list" where
  "changing_runs s = map fst (filter snd (sl_ran s))"

definition engine_inv :: "(nat \<Rightarrow> string) \<Rightarrow> session_log \<Rightarrow> bool" where
  "engine_inv uuid s \<longleftrightarrow>
     inj uuid \<and> distinct (changing_runs s) \<and>
     (\<forall>c \<in> set (changing_runs s). startedFrom (sl_markers s) c \<and> ca_entry c \<in> uuid ` {..<sl_next s}) \<and>
     (\<forall>e \<in> set (sl_entries s). ce_uuid e \<in> uuid ` {..<sl_next s})"

lemma do_effects_simps [simp]:
  "do_effects uuid [] s = s"
  "do_effects uuid (e # es) s = do_effects uuid es (do_effect uuid e s)"
  by (simp_all add: do_effects_def)

lemma do_effects_result:
  "sl_markers (do_effects uuid es s) = sl_markers s @ marks es \<and>
   changing_runs (do_effects uuid es s) = changing_runs s @ changes es \<and>
   sl_next s \<le> sl_next (do_effects uuid es s) \<and>
   (\<forall>e \<in> set (sl_entries (do_effects uuid es s)). e \<in> set (sl_entries s) \<or> ce_uuid e \<in> uuid ` {..<sl_next (do_effects uuid es s)})"
proof (induction es arbitrary: s)
  case Nil
  then show ?case by simp
next
  case (Cons e es)
  have "(\<forall>x \<in> set (sl_entries (do_effect uuid e s)). x \<in> set (sl_entries s) \<or> ce_uuid x = uuid (sl_next s) \<and> sl_next s < sl_next (do_effect uuid e s))"
    by (cases e) (auto simp: append_entry_def)
  moreover have "sl_next s \<le> sl_next (do_effect uuid e s)" by (cases e) (auto simp: append_entry_def)
  moreover have "sl_markers (do_effect uuid e s) = sl_markers s @ marks [e]" by (cases e) (auto simp: append_entry_def)
  moreover have "changing_runs (do_effect uuid e s) = changing_runs s @ changes [e]"
    by (cases e) (auto simp: append_entry_def changing_runs_def)
  moreover have "marks (e # es) = marks [e] @ marks es" "changes (e # es) = changes [e] @ changes es"
    using effects_append(1,2) [of "[e]" es] by simp_all
  ultimately show ?case using Cons [of "do_effect uuid e s"] by (auto intro: less_le_trans)
qed

lemma guarded_started: "guarded ms es \<Longrightarrow> c \<in> set (changes es) \<Longrightarrow> startedFrom (ms @ marks es) c"
proof (induction ms es rule: guarded.induct)
  case (3 ms c' b n i es)
  then show ?case by (auto split: if_splits intro: startedFrom_mono [of ms])
qed (auto intro: startedFrom_mono)

lemma engine_inv_effects:
  assumes inv: "engine_inv uuid s" and es: "guarded (sl_markers s) es" "distinct (changes es)"
    and new: "set (changes es) \<inter> set (changing_runs s) = {}"
    and at: "\<forall>c \<in> set (changes es). ca_entry c \<in> uuid ` {..<sl_next (do_effects uuid es s)}"
  shows "engine_inv uuid (do_effects uuid es s)"
proof -
  note r = do_effects_result [of uuid es s]
  have mono: "{..<sl_next s} \<subseteq> {..<sl_next (do_effects uuid es s)}" using r by auto
  let ?t = "do_effects uuid es s"
  have "startedFrom (sl_markers ?t) c" if "c \<in> set (changing_runs s @ changes es)" for c
    using that inv r guarded_started [OF es(1)] by (auto simp: engine_inv_def intro: startedFrom_mono [of "sl_markers s"])
  moreover have "ca_entry c \<in> uuid ` {..<sl_next ?t}" if "c \<in> set (changing_runs s @ changes es)" for c
    using that inv at mono by (auto simp: engine_inv_def dest: image_mono)
  moreover have "ce_uuid e \<in> uuid ` {..<sl_next ?t}" if "e \<in> set (sl_entries ?t)" for e
    using that inv r image_mono [OF mono, of uuid] unfolding engine_inv_def by blast
  moreover have "changing_runs ?t = changing_runs s @ changes es" using r by blast
  moreover have "distinct (changing_runs s @ changes es)" using inv es(2) new by (auto simp: engine_inv_def)
  moreover have "inj uuid" using inv by (simp add: engine_inv_def)
  ultimately show ?thesis by (simp add: engine_inv_def)
qed

lemma prefix_effects:
  assumes "guarded ms es" "distinct (changes es)"
  shows "guarded ms (take n es) \<and> distinct (changes (take n es)) \<and> set (changes (take n es)) \<subseteq> set (changes es)"
proof -
  have "guarded ms (take n es @ drop n es)" "distinct (changes (take n es @ drop n es))" using assms by simp_all
  then show ?thesis using effects_append(2) [of "take n es" "drop n es"]
    by (auto simp add: effects_append(3) simp del: append_take_drop_id) (metis Un_iff append_take_drop_id set_append)
qed

lemma set_effectiveEntries: "set (effectiveEntries es) \<subseteq> set es"
proof -
  have "set (foldl effective_step out es) \<subseteq> set out \<union> set es" for out
    by (induction es arbitrary: out)
      (fastforce simp: effective_step_def dest: in_set_takeD split: sdk_message.splits option.splits)+
  from this [of "[]"] show ?thesis by (simp add: effectiveEntries_def)
qed

text \<open>Settling a turn of the log: only calls without a marker run, each of them once, at positions the log has.\<close>

lemma settle_turn_effects:
  assumes "durable host" "set turn \<subseteq> set entries"
  shows "guarded markers (snd (settle_turn host markers turn decided)) \<and>
    distinct (changes (snd (settle_turn host markers turn decided))) \<and>
    (\<forall>c \<in> set (changes (snd (settle_turn host markers turn decided))). \<not> startedFrom markers c \<and> ca_entry c \<in> ce_uuid ` set entries)"
proof -
  let ?ps = "unansweredToolUses turn" and ?es = "snd (settle_turn host markers turn decided)"
  have es: "guarded markers ?es" "subseq (changes ?es) (map pd_at (filter (\<lambda>p. \<not> startedFrom markers (pd_at p)) ?ps))"
    using settle_effects [OF assms(1)] by (simp_all add: settle_turn_def Let_def)
  have "distinct (map pd_at ?ps)" by (rule distinct_positions) (rule distinct_unanswered)
  then have "distinct (map pd_at (filter (\<lambda>p. \<not> startedFrom markers (pd_at p)) ?ps))" by (simp add: distinct_map_filter)
  then have "distinct (changes ?es)" using es(2) subseq_distinct by blast
  moreover have "ca_entry (pd_at p) \<in> ce_uuid ` set entries" if "p \<in> set ?ps" for p
  proof -
    from that obtain a where "lastAssistantContent turn = Some a" "ca_entry (pd_at p) = la_uuid a" by (auto simp: unanswered_iff)
    then have "ca_entry (pd_at p) = ce_uuid (turn ! la_at a)" "turn ! la_at a \<in> set turn" by (auto dest: lastAssistantContent_SomeD)
    with assms(2) show ?thesis by blast
  qed
  moreover have "set (changes ?es) \<subseteq> pd_at ` set (filter (\<lambda>p. \<not> startedFrom markers (pd_at p)) ?ps)"
    using es(2) by (metis set_nths_subset subseq_conv_nths list.set_map)
  ultimately show ?thesis using es(1) by fastforce
qed

lemma engine_inv_settle:
  assumes "engine_inv uuid s" "durable host" "set turn \<subseteq> set (sl_entries s)"
  shows "engine_inv uuid (do_effects uuid (take n (snd (settle_turn host (sl_markers s) turn decided))) s)"
proof -
  let ?es = "snd (settle_turn host (sl_markers s) turn decided)"
  note t = settle_turn_effects [OF assms(2,3), of "sl_markers s" decided]
  have p: "guarded (sl_markers s) (take n ?es)" "distinct (changes (take n ?es))" "set (changes (take n ?es)) \<subseteq> set (changes ?es)"
    using prefix_effects [of "sl_markers s" ?es n] t by blast+
  have mono: "{..<sl_next s} \<subseteq> {..<sl_next (do_effects uuid (take n ?es) s)}" using do_effects_result by auto
  have old: "\<forall>c \<in> set (changing_runs s). startedFrom (sl_markers s) c" "ce_uuid ` set (sl_entries s) \<subseteq> uuid ` {..<sl_next s}"
    using assms(1) by (auto simp: engine_inv_def)
  have "set (changes (take n ?es)) \<inter> set (changing_runs s) = {}" using old(1) t p(3) by blast
  moreover have "\<forall>c \<in> set (changes (take n ?es)). ca_entry c \<in> uuid ` {..<sl_next (do_effects uuid (take n ?es) s)}"
    using old(2) t p(3) image_mono [OF mono, of uuid] by blast
  ultimately show ?thesis by (rule engine_inv_effects [OF assms(1) p(1,2)])
qed

lemma subseq_set: "subseq xs ys \<Longrightarrow> set xs \<subseteq> set ys"
  by (metis set_nths_subset subseq_conv_nths)

lemma engine_inv_answer:
  assumes inv: "engine_inv uuid s" and d: "durable host"
    and es: "es = Appended (AssistantEv a) # snd (run_answer host speaker (uuid (sl_next s)) bs)"
  shows "engine_inv uuid (do_effects uuid (take n es) s)"
proof -
  note t = answer_effects [OF d, of "sl_markers s" speaker "uuid (sl_next s)" bs]
  have g: "guarded (sl_markers s) es" "distinct (changes es)" using t es by simp_all
  note p = prefix_effects [OF g, of n]
  have at: "ca_entry c = uuid (sl_next s)" if "c \<in> set (changes (take n es))" for c
    using that p t es by auto
  moreover have "sl_next s < sl_next (do_effects uuid (take n es) s)" if "c \<in> set (changes (take n es))" for c
  proof (cases n)
    case 0
    with that show ?thesis by simp
  next
    case (Suc m)
    then have "take n es = Appended (AssistantEv a) # take m (tl es)" using es by simp
    then show ?thesis using do_effects_result [of uuid "take m (tl es)" "append_entry uuid (AssistantEv a) s"] by (simp add: append_entry_def)
  qed
  moreover have "ca_entry c \<noteq> uuid (sl_next s)" if "c \<in> set (changing_runs s)" for c
  proof -
    from inv that have "inj uuid" "ca_entry c \<in> uuid ` {..<sl_next s}" by (auto simp: engine_inv_def)
    then show ?thesis by (metis imageE injD lessThan_iff less_irrefl)
  qed
  ultimately show ?thesis
    by (intro engine_inv_effects [OF inv]) (use p in auto)
qed

lemma engine_inv_step:
  assumes inv: "engine_inv uuid s" and st: "engine_step uuid s t"
  shows "engine_inv uuid t"
  using st
proof cases
  case (answer_step host es a speaker n)
  then show ?thesis using inv engine_inv_answer by blast
next
  case (resume_step host n)
  have "set (turnToResume (effectiveEntries (sl_entries s)) (startedFrom (sl_markers s))) \<subseteq> set (sl_entries s)"
    using resumed_shape [of "effectiveEntries (sl_entries s)" "startedFrom (sl_markers s)"] subseq_set set_effectiveEntries by fastforce
  then show ?thesis using resume_step inv by (auto simp: resume_effects_def Let_def intro: engine_inv_settle)
next
  case (approve_step host n reason allowed parkId)
  have "set turn \<subseteq> set (sl_entries s)" if "approve reason allowed parkId (effectiveEntries (sl_entries s)) = Some (turn, dec)" for turn dec
  proof -
    from that obtain h where "heldCall (effectiveEntries (sl_entries s)) = Some h" "turn = hl_turn h @ drop (Suc (hl_resultAt h)) (effectiveEntries (sl_entries s))"
      by (auto simp: approve_def Let_def split: option.splits if_splits)
    then show ?thesis using turn_shape(1) [of "effectiveEntries (sl_entries s)"] subseq_set set_effectiveEntries by fastforce
  qed
  then show ?thesis using approve_step inv by (auto simp: approve_effects_def split: option.split intro: engine_inv_settle)
next
  case (other_step p)
  then show ?thesis using inv engine_inv_effects [of uuid s "[Appended p]"] by simp
qed

interpretation engines: invariant_system "engine_step uuid" "engine_inv uuid" for uuid
  by unfold_locales (rule engine_inv_step)

text \<open>C1 effect_at_most_once. However often engines die, between any two of their effects, and whatever is resumed or approved after:
  the body of a call that may change something runs at most once, and its marker is on record from before it ran.\<close>

theorem effect_at_most_once:
  assumes "inj uuid" "(engine_step uuid)\<^sup>*\<^sup>* empty_log s"
  shows "distinct (changing_runs s) \<and> (\<forall>c \<in> set (changing_runs s). startedFrom (sl_markers s) c)"
proof -
  have "engine_inv uuid empty_log" using assms(1) by (simp add: engine_inv_def empty_log_def changing_runs_def)
  then have "engine_inv uuid s" using engines.run_inv assms(2) by blast
  then show ?thesis by (simp add: engine_inv_def)
qed

definition nat_uuid :: "nat \<Rightarrow> string" where "nat_uuid n = ''e'' @ nat_str n"

lemma inj_nat_uuid: "inj nat_uuid"
  by (simp add: inj_def nat_uuid_def)

definition open_host :: agent_host where
  "open_host =
     \<lparr>ag_hooks = \<lparr>he_hooks = [], he_log = []\<rparr>, ag_hookCtx = \<lparr>hx_sessionId = ''s'', hx_agentId = ''a'', hx_cwd = ''/w'', hx_runId = None\<rparr>,
      ag_get = (\<lambda>n. None),
      ag_resolve = (\<lambda>n. Some \<lparr>tc_readOnly = False, tc_edits = False, tc_memory = False, tc_executes = True, tc_callReadOnly = None\<rparr>),
      ag_run = (\<lambda>n i. \<lparr>tl_content = ResultString ''shipped'', tl_isError = False, tl_meta = None\<rparr>),
      ag_policy = (\<lambda>req. Allow None), ag_onAsk = None, ag_park = NoPark, ag_mark = (\<lambda>m. MarkWritten), ag_stamp = [],
      ag_tooLarge = (\<lambda>t. None)\<rparr>"

text \<open>An engine dies after it has run a call and before the result is on record; the next one resumes.\<close>

definition crashed_log :: session_log where
  "crashed_log = do_effects nat_uuid (take 3 (Appended (ce_payload answers) #
     snd (run_answer open_host HUMAN (nat_uuid 1) (assistant_blocks answers)))) (append_entry nat_uuid (ce_payload asks) empty_log)"

definition resumed_after_crash :: session_log where
  "resumed_after_crash = do_effects nat_uuid (take 9 (resume_effects open_host crashed_log)) crashed_log"

lemma crashed_reached: "(engine_step nat_uuid)\<^sup>*\<^sup>* empty_log resumed_after_crash"
proof -
  have d: "durable open_host" by (simp add: durable_def open_host_def)
  obtain a where a: "ce_payload answers = AssistantEv a" "msg_blocks (ae_message a) = assistant_blocks answers"
    by (simp add: answers_def entry_def assistant_blocks_def)
  have "engine_step nat_uuid empty_log (append_entry nat_uuid (ce_payload asks) empty_log)"
    by (rule other_step) (simp add: asks_def entry_def)
  moreover have "engine_step nat_uuid (append_entry nat_uuid (ce_payload asks) empty_log) crashed_log"
    unfolding crashed_log_def
    by (rule answer_step [OF d, where a = a and speaker = HUMAN]) (simp add: a append_entry_def empty_log_def)
  moreover have "engine_step nat_uuid crashed_log resumed_after_crash"
    unfolding resumed_after_crash_def by (rule resume_step [OF d])
  ultimately show ?thesis by (meson converse_rtranclp_into_rtranclp rtranclp.rtrancl_refl)
qed

lemma crashed_runs: "map ca_index (changing_runs resumed_after_crash) = [1] \<and> length (sl_entries resumed_after_crash) = 3"
  by code_simp

theorem effect_at_most_once_witness:
  "map ca_index (changing_runs resumed_after_crash) = [1] \<and> distinct (changing_runs resumed_after_crash) \<and>
   length (sl_entries resumed_after_crash) = 3"
  using effect_at_most_once [OF inj_nat_uuid crashed_reached] crashed_runs by blast

section \<open>Who lets a call run\<close>

lemma ran_permitted:
  assumes "Ran c b n i \<in> set (snd (executeTool host tu at_call speaker approved))"
  shows "pre_hooks host tu = Inr i \<and> c = at_call \<and> n = tu_name tu \<and> b = needs_mark host tu i \<and>
    (\<exists>d via. fst (permit host (permission_of host tu i speaker) at_call approved) = Decided d via \<and> \<not> is_deny d)"
proof -
  have quiet: "Ran c b n i \<notin> set es" if "inert es" for es
    using that by (auto simp: list_all_iff)
  show ?thesis
    using assms quiet [OF permit_inert] quiet [of "snd (finish_call host tu j d res)" for j d res]
    by (auto simp: executeTool_def Let_def then_do_def run_call_now_def markStarted_def finish_call_def observed_run_def permission_of_def
      split: sum.splits call_permission.splits if_splits option.splits mark_answer.splits prod.splits)
qed

lemma permit_cases:
  assumes "fst (permit host req at_call approved) = Decided d via" "\<not> is_deny d"
  shows "\<not> is_deny (ag_policy host req) \<and>
    (is_allow (ag_policy host req) \<or>
     (\<exists>a. approved = Some a \<and> hd_command a = parkCommand (rq_input req) \<and> hd_decision a = d) \<or>
     (\<exists>reason edge. ag_policy host req = Ask reason edge \<and>
        (permission_hook host req reason edge = Some d \<or>
         permission_hook host req reason edge = None \<and> ask_person host req reason edge at_call = Some d)))"
  using assms
  by (auto simp: permit_def resolveDecided_def resolve_call_def decided_by_def Let_def is_deny_def
    split: option.splits decision.splits if_splits)

text \<open>C7 tool_runs_only_when_permitted. The body of a tool runs only on the input the hooks left, and only when the policy does not deny that
  very request and either the policy allows it, or it asks and a hook or the person lets it run, or the person approved this held call
  and it still is what the park showed.\<close>

theorem tool_runs_only_when_permitted:
  assumes "Ran c b n i \<in> set (snd (executeTool host tu at_call speaker approved))"
    and "req = permission_of host tu i speaker"
  shows "c = at_call \<and> n = tu_name tu \<and> pre_hooks host tu = Inr i \<and> \<not> is_deny (ag_policy host req) \<and>
    (is_allow (ag_policy host req) \<or>
     (\<exists>d. \<not> is_deny d \<and>
        ((\<exists>a. approved = Some a \<and> hd_command a = parkCommand i \<and> hd_decision a = d) \<or>
         (\<exists>reason edge. ag_policy host req = Ask reason edge \<and>
            (permission_hook host req reason edge = Some d \<or>
             permission_hook host req reason edge = None \<and> ask_person host req reason edge at_call = Some d)))))"
proof -
  have "rq_input req = i" by (simp add: assms(2) permission_of_def Let_def)
  moreover obtain d via where d: "fst (permit host req at_call approved) = Decided d via" "\<not> is_deny d"
    using ran_permitted [OF assms(1)] assms(2) by blast
  ultimately show ?thesis
    using ran_permitted [OF assms(1)] permit_cases [OF d] by blast
qed

definition bash_use :: "string \<Rightarrow> tool_use" where
  "bash_use cmd = \<lparr>tu_id = ''t1'', tu_name = ''Bash'', tu_input = JObj [(''command'', JStr cmd)]\<rparr>"

definition some_call :: call_at where
  "some_call = \<lparr>ca_toolUseId = ''t1'', ca_entry = ''a1'', ca_index = 1\<rparr>"

lemma open_host_runs:
  "Ran some_call True ''Bash'' (tu_input (bash_use cmd)) \<in> set (snd (executeTool open_host (bash_use cmd) some_call HUMAN None))"
  by (simp add: open_host_def bash_use_def executeTool_def Let_def pre_hooks_def has_event_def permit_def resolve_call_def decided_by_def
    is_deny_def then_do_def run_call_now_def needs_mark_def call_reads_def permission_of_def markStarted_def)

theorem tool_runs_only_when_permitted_witness:
  "\<not> is_deny (ag_policy open_host (permission_of open_host (bash_use ''make'') (tu_input (bash_use ''make'')) HUMAN))"
  using tool_runs_only_when_permitted [OF open_host_runs refl] by blast

text \<open>Under the engine's own policy the body of Bash never gets a catastrophic command, nor one that
  redirects into a protected file, whatever the hooks make of the input, whoever answers, and also when a person has approved that
  very call.\<close>

theorem catastrophic_never_runs:
  assumes "ag_policy host = createPolicy config" "hardDeny (permission_of host tu i speaker) \<noteq> None"
  shows "Ran c b n i \<notin> set (snd (executeTool host tu at_call speaker approved))"
proof
  assume "Ran c b n i \<in> set (snd (executeTool host tu at_call speaker approved))"
  then obtain d via where d: "fst (permit host (permission_of host tu i speaker) at_call approved) = Decided d via" "\<not> is_deny d"
    using ran_permitted by blast
  moreover have "is_deny (createPolicy config (permission_of host tu i speaker))"
    using assms(2) by (auto simp: createPolicy_def is_deny_def)
  ultimately show False using permit_cases [OF d] assms(1) by simp
qed

definition guarded_host :: agent_host where
  "guarded_host = open_host\<lparr>ag_policy := createPolicy \<lparr>cfg_mode = Autopilot, cfg_allow = [''Bash''], cfg_deny = [], cfg_safety = None\<rparr>\<rparr>"

lemma root_removal: "hardDeny (permission_of guarded_host (bash_use ''rm -rf /'') (tu_input (bash_use ''rm -rf /'')) HUMAN) \<noteq> None"
  by code_simp

theorem catastrophic_never_runs_witness:
  "Ran some_call True ''Bash'' (tu_input (bash_use ''rm -rf /'')) \<notin> set (snd (executeTool guarded_host (bash_use ''rm -rf /'') some_call HUMAN
     (Some \<lparr>hd_index = 1, hd_decision = Allow None, hd_command = ''rm -rf /''\<rparr>)))"
  using catastrophic_never_runs [OF _ root_removal] by (simp add: guarded_host_def)

section \<open>An edge is parked, an approval settles one call\<close>

text \<open>A call over a safety edge that no hook answers and nobody is there to answer does not run and is not denied:
  the run parks on it, with the command and the reason the policy gave, and the park names the call by its position.\<close>

theorem edge_parks_the_run:
  assumes "pre_hooks host tu = Inr i" "req = permission_of host tu i speaker" "ag_policy host req = Ask reason (Some edge)"
    and "permission_hook host req reason (Some edge) = None" "ask_person host req reason (Some edge) at_call = None"
    and "ag_park host \<noteq> NoPark"
  shows "executeTool host tu at_call speaker None =
    (CallParked (parkCommand i) (reason_name edge) at_call, [Observed req (Ask reason (Some edge)) ViaHeadlessPark])"
proof -
  have "rq_input req = i" by (simp add: assms(2) permission_of_def Let_def)
  then show ?thesis
    using assms by (simp add: executeTool_def Let_def permit_def resolve_call_def parks_def)
qed

definition edge_host :: agent_host where
  "edge_host = open_host\<lparr>ag_policy := (\<lambda>req. Ask (Some ''over the ceiling'') (Some OverCeiling)), ag_park := ParkEdges\<rparr>"

theorem edge_parks_the_run_witness:
  "fst (executeTool edge_host (bash_use ''make ship'') some_call HUMAN None) = CallParked ''make ship'' ''over_ceiling'' some_call"
proof -
  have "parkCommand (tu_input (bash_use ''make ship'')) = ''make ship''" "reason_name OverCeiling = ''over_ceiling''" by code_simp+
  then show ?thesis
    using edge_parks_the_run [of edge_host "bash_use ''make ship''", OF _ refl]
    by (simp add: edge_host_def open_host_def pre_hooks_def has_event_def permission_hook_def ask_person_def)
qed

text \<open>Whether a call is settled differently for a decision it is not the held call of, or whose command a hook has changed: it is not.\<close>

lemma decision_elsewhere:
  assumes "settle_one host started dup (Some dec) speaker p \<noteq> settle_one host started dup None speaker p"
  shows "ca_index (pd_at p) = hd_index dec \<and> \<not> started (pd_at p) \<and> \<not> dup \<and>
    (\<exists>i. pre_hooks host (pd_tu p) = Inr i \<and> parkCommand i = hd_command dec)"
  using assms by (auto simp: settle_one_def executeTool_def permit_def permission_of_def Let_def split: if_splits sum.splits)

lemma refusal_runs_nothing:
  assumes "pre_hooks host tu = Inr i" "parkCommand i = hd_command dec" "is_deny (hd_decision dec)"
  shows "Ran c b n x \<notin> set (snd (executeTool host tu at_call speaker (Some dec)))"
proof
  assume "Ran c b n x \<in> set (snd (executeTool host tu at_call speaker (Some dec)))"
  moreover have "rq_input (permission_of host tu i speaker) = i" by (simp add: permission_of_def Let_def)
  ultimately show False
    using assms by (auto simp: executeTool_def Let_def permit_def resolveDecided_def then_do_def finish_call_def split: if_splits)
qed

text \<open>C10 approval_binds. An approval is taken only for the park it names, the one held now.  It changes how a call is settled only if that is the
  held call, not begun yet, and its command is still the one the park showed: any other call, and the held call once a hook has made it another, is settled as if no one had
  answered.  For the call it answers, a policy that denies stands; else a refusal runs nothing, and an approval is the decision.\<close>

theorem approval_binds:
  assumes "approve reason allowed parkId es = Some (turn, dec)" "heldCall es = Some h"
  shows "parkId = hl_parkId h \<and>
    (\<forall>host started dup speaker p. settle_one host started dup (Some dec) speaker p \<noteq> settle_one host started dup None speaker p \<longrightarrow>
       ca_index (pd_at p) = ca_index (hl_at h) \<and> \<not> started (pd_at p) \<and>
       (\<exists>i. pre_hooks host (pd_tu p) = Inr i \<and> parkCommand i = hl_command h)) \<and>
    (\<forall>host speaker i c b n x. pre_hooks host (hl_toolUse h) = Inr i \<and> parkCommand i = hl_command h \<longrightarrow>
       fst (permit host (permission_of host (hl_toolUse h) i speaker) (hl_at h) (Some dec)) =
         (let d = ag_policy host (permission_of host (hl_toolUse h) i speaker)
          in if is_deny d then Decided d ViaPolicy
             else Decided (if allowed then Allow None
                           else Deny (case reason of Some r \<Rightarrow> r | None \<Rightarrow> ''declined by the user'') None None None) ViaInteractive) \<and>
       (\<not> allowed \<longrightarrow> Ran c b n x \<notin> set (snd (executeTool host (hl_toolUse h) (hl_at h) speaker (Some dec)))))"
proof -
  have dec: "parkId = hl_parkId h" "hd_index dec = ca_index (hl_at h)" "hd_command dec = hl_command h"
    "hd_decision dec = (if allowed then Allow None else Deny (case reason of Some r \<Rightarrow> r | None \<Rightarrow> ''declined by the user'') None None None)"
    using assms by (auto simp: approve_def Let_def split: if_splits)
  have inp: "rq_input (permission_of host tu i speaker) = i" for host tu i speaker by (simp add: permission_of_def Let_def)
  show ?thesis
  proof (intro conjI allI impI)
    show "parkId = hl_parkId h" by (rule dec(1))
  next
    fix host speaker i c b n x
    assume i: "pre_hooks host (hl_toolUse h) = Inr i \<and> parkCommand i = hl_command h"
    assume "\<not> allowed"
    with i dec(3,4) show "Ran c b n x \<notin> set (snd (executeTool host (hl_toolUse h) (hl_at h) speaker (Some dec)))"
      by (intro refusal_runs_nothing [of _ _ i]) (simp_all add: is_deny_def)
  qed (use decision_elsewhere dec(2,3) in \<open>force simp: permit_def resolveDecided_def Let_def inp dec\<close>)+
qed

lemma approve_parked: "\<exists>turn dec. approve None True ''p1'' [asks, answers, the_park] = Some (turn, dec)"
proof -
  have "approve None True ''p1'' [asks, answers, the_park] \<noteq> None" by code_simp
  then show ?thesis by (cases "approve None True ''p1'' [asks, answers, the_park]") auto
qed

lemma parked_command: "map_option hl_command (heldCall [asks, answers, the_park]) = Some ''make ship''"
  "map_option (\<lambda>h. parkCommand (tu_input (hl_toolUse h))) (heldCall [asks, answers, the_park]) = Some ''make ship''"
  by code_simp+

theorem approval_binds_witness: "\<exists>h. heldCall [asks, answers, the_park] = Some h \<and> hl_parkId h = ''p1''"
proof -
  obtain h where h: "heldCall [asks, answers, the_park] = Some h" using parked_log by auto
  obtain turn dec where d: "approve None True ''p1'' [asks, answers, the_park] = Some (turn, dec)" using approve_parked by blast
  from approval_binds [OF d h] have "''p1'' = hl_parkId h" by blast
  with h show ?thesis by auto
qed

section \<open>Every call gets its result\<close>

definition appends :: "agent_effect list \<Rightarrow> sdk_message list" where
  "appends es = List.map_filter (\<lambda>e. case e of Appended p \<Rightarrow> Some p | _ \<Rightarrow> None) es"

lemma appends_simps [simp]:
  "appends [] = []" "appends (xs @ ys) = appends xs @ appends ys" "appends (Appended p # es) = p # appends es"
  by (simp_all add: appends_def map_filter_def)

lemma appends_results [simp]: "appends (map (appended_result host) rs) = map (\<lambda>r. ToolResultEv (appendToolResult host r)) rs"
  by (induction rs) (simp_all add: appended_result_def)

definition unappending :: "agent_effect list \<Rightarrow> bool" where
  "unappending es \<longleftrightarrow> (\<forall>p. Appended p \<notin> set es)"

lemma unappending_appends: "unappending es \<Longrightarrow> appends es = []"
  by (induction es) (auto simp: unappending_def appends_def map_filter_def split: agent_effect.splits)

lemma executeTool_unappending: "unappending (snd (executeTool host tu c speaker approved))"
  by (auto simp: unappending_def executeTool_def Let_def then_do_def run_call_now_def markStarted_def finish_call_def observed_run_def
    permit_def resolve_call_def resolveDecided_def decided_by_def unless_allow_def
    split: sum.splits call_permission.splits if_splits option.splits mark_answer.splits decision.splits)

lemma executeTool_result: "fst (executeTool host tu c speaker approved) = CallResult r \<Longrightarrow> tr_toolUseId r = tu_id tu"
  by (auto simp: executeTool_def Let_def then_do_def run_call_now_def finish_call_def call_result_def failed_result_def
    split: sum.splits call_permission.splits if_splits option.splits prod.splits)

lemma settle_one_result:
  "fst (settle_one host started dup decided speaker p) = CallResult r \<Longrightarrow> tr_toolUseId r = tu_id (pd_tu p)"
  "unappending (snd (settle_one host started dup decided speaker p))"
  using executeTool_result executeTool_unappending
  by (auto simp: settle_one_def failed_result_def duplicateRefusal_def unappending_def split: if_splits)

lemma appendToolResult_id: "tr_toolUseId (appendToolResult host r) = tr_toolUseId r"
  by (simp add: appendToolResult_def failed_result_def split: option.split prod.split)

definition results_for :: "sdk_message list \<Rightarrow> string list \<Rightarrow> bool" where
  "results_for ps ids = list_all2 (\<lambda>p i. \<exists>t. p = ToolResultEv t \<and> tr_toolUseId t = i) ps ids"

lemma settle_results:
  "fst (settlePending host started dup decided speaker ps) = None \<Longrightarrow>
   results_for (appends (snd (settlePending host started dup decided speaker ps))) (map (\<lambda>p. tu_id (pd_tu p)) ps)"
proof (induction ps)
  case Nil
  then show ?case by (simp add: results_for_def)
next
  case (Cons p ps)
  obtain o1 es where one: "settle_one host started dup decided speaker p = (o1, es)" by force
  with Cons.prems obtain r where r: "o1 = CallResult r" by (cases o1) auto
  have "appends es = []" "tr_toolUseId r = tu_id (pd_tu p)"
    using settle_one_result [of host started dup decided speaker p] one r unappending_appends by auto
  with Cons one r show ?case
    by (simp add: then_do_def appended_result_def results_for_def appendToolResult_id)
qed

lemma results_forD:
  "results_for ps ids \<Longrightarrow> (\<forall>p \<in> set ps. \<exists>t. p = ToolResultEv t) \<and> (\<forall>i \<in> set ids. \<exists>t. ToolResultEv t \<in> set ps \<and> tr_toolUseId t = i)"
  unfolding results_for_def by (induction rule: list_all2_induct) auto

lemma results_close:
  assumes "results_for (map ce_payload new) (map (\<lambda>p. tu_id (pd_tu p)) (unansweredToolUses turn))"
  shows "unansweredToolUses (turn @ new) = []"
proof -
  note r = results_forD [OF assms]
  have "\<not> is_assistant e" if "e \<in> set new" for e
    using r that by (force simp: is_assistant_def)
  then have last: "last_where is_assistant (turn @ new) = last_where is_assistant turn"
    by (simp add: last_where_append last_where_None_iff [THEN iffD2])
  have "pd \<notin> set (unansweredToolUses (turn @ new))" for pd
  proof
    assume "pd \<in> set (unansweredToolUses (turn @ new))"
    then obtain a i where a: "lastAssistantContent (turn @ new) = Some a" "i < length (la_content a)"
      "as_tool_use (la_content a ! i) = Some (pd_tu pd)"
      "Some (tu_id (pd_tu pd)) \<notin> result_id ` set (drop (Suc (la_at a)) (turn @ new))"
      "pd_at pd = \<lparr>ca_toolUseId = tu_id (pd_tu pd), ca_entry = la_uuid a, ca_index = i\<rparr>"
      unfolding unanswered_iff by blast
    from a(1) last have at: "last_where is_assistant turn = Some (la_at a)" by (auto simp: lastAssistantContent_def)
    then have "la_at a < length turn" by (auto dest: last_where_SomeD)
    with a(1) at last have "lastAssistantContent turn = Some a" by (auto simp: lastAssistantContent_def nth_append)
    moreover have "Some (tu_id (pd_tu pd)) \<notin> result_id ` set (drop (Suc (la_at a)) turn)" "Some (tu_id (pd_tu pd)) \<notin> result_id ` set new"
      using a(4) \<open>la_at a < length turn\<close> by auto
    ultimately have "pd \<in> set (unansweredToolUses turn)" using a by (auto simp: unanswered_iff)
    then obtain t where "ToolResultEv t \<in> ce_payload ` set new" "tr_toolUseId t = tu_id (pd_tu pd)" using r by fastforce
    then obtain e where "e \<in> set new" "ce_payload e = ToolResultEv t" by auto
    then have "e \<in> set new" "result_id e = Some (tu_id (pd_tu pd))"
      using \<open>tr_toolUseId t = tu_id (pd_tu pd)\<close> by (simp_all add: result_id_def)
    then have "Some (tu_id (pd_tu pd)) \<in> result_id ` set new" by (metis image_eqI)
    with \<open>Some (tu_id (pd_tu pd)) \<notin> result_id ` set new\<close> show False by blast
  qed
  then show ?thesis by (metis last_in_set)
qed

text \<open>When the engine has settled the calls a dead one left, without a park or a refused write, the turn with what
  was appended has no open call: every call of it has one result, in the order of the calls.\<close>

theorem settled_turn_is_answered:
  assumes "settle_turn host markers turn decided = (None, es)" "map ce_payload new = appends es"
  shows "unansweredToolUses (turn @ new) = [] \<and> length new = length (unansweredToolUses turn)"
proof -
  have "results_for (appends es) (map (\<lambda>p. tu_id (pd_tu p)) (unansweredToolUses turn))"
    using assms(1) unfolding settle_turn_def Let_def by (metis fst_conv snd_conv settle_results)
  then have "results_for (map ce_payload new) (map (\<lambda>p. tu_id (pd_tu p)) (unansweredToolUses turn))" by (simp only: assms(2))
  then show ?thesis using results_close [of new turn] by (auto simp: results_for_def dest: list_all2_lengthD)
qed

definition settled_after_crash :: "call_outcome option \<times> agent_effect list" where
  "settled_after_crash = settle_turn open_host [] [asks, answers] None"

lemma settles_after_crash: "settled_after_crash = (None, snd settled_after_crash) \<and> length (appends (snd settled_after_crash)) = 1"
  by code_simp

theorem settled_turn_is_answered_witness:
  "unansweredToolUses ([asks, answers] @ map (entry ''r1'') (appends (snd settled_after_crash))) = []"
proof -
  have "settle_turn open_host [] [asks, answers] None = (None, snd settled_after_crash)"
    using settles_after_crash by (simp add: settled_after_crash_def)
  then show ?thesis
    using settled_turn_is_answered [of open_host "[]" "[asks, answers]" None "snd settled_after_crash" "map (entry ''r1'') (appends (snd settled_after_crash))"]
    by (simp add: comp_def entry_def)
qed

section \<open>The trace of decisions\<close>

definition observations :: "agent_effect list \<Rightarrow> agent_effect list" where
  "observations es = filter (\<lambda>e. case e of Observed r d v \<Rightarrow> True | _ \<Rightarrow> False) es"

definition never_asks :: "(permission_request \<Rightarrow> string option \<Rightarrow> safety_reason option \<Rightarrow> call_at \<Rightarrow> decision option) \<Rightarrow> bool" where
  "never_asks answerer \<longleftrightarrow> (\<forall>req reason edge c r e. answerer req reason edge c \<noteq> Some (Ask r e))"

text \<open>Every attempt at a call that no hook blocks, and whose marker is not refused, leaves exactly one
  decision in the host's trace, whichever way it was reached; the answerer is one that answers.\<close>

theorem decision_observed_once:
  assumes "pre_hooks host tu = Inr i" "\<forall>e. fst (executeTool host tu at_call speaker approved) \<noteq> CallThrew e"
    and "case approved of None \<Rightarrow> True | Some a \<Rightarrow> hd_decision a = Allow None \<or> is_deny (hd_decision a)"
    and "case ag_onAsk host of None \<Rightarrow> True | Some answerer \<Rightarrow> never_asks answerer"
  shows "length (observations (snd (executeTool host tu at_call speaker approved))) = 1"
proof -
  let ?req = "permission_of host tu i speaker"
  have "case fst (permit host ?req at_call approved) of
      Decided d via \<Rightarrow> length (observations (snd (permit host ?req at_call approved))) = (if is_deny d then 1 else 0)
    | ParkRun c r x \<Rightarrow> length (observations (snd (permit host ?req at_call approved))) = 1"
    using assms(3,4)
    by (auto simp: permit_def resolve_call_def resolveDecided_def decided_by_def unless_allow_def observations_def Let_def is_deny_def
      permission_hook_def ask_person_def never_asks_def split: option.splits decision.splits if_splits)
  moreover have "length (observations (snd (finish_call host tu i d res))) = 0" for d res
    by (simp add: finish_call_def observations_def)
  moreover have "length (observations (snd (run_call_now host tu at_call ?req d via))) = 1"
    if "\<forall>e. fst (run_call_now host tu at_call ?req d via) \<noteq> CallThrew e" for d via
    using that by (auto simp: run_call_now_def Let_def markStarted_def then_do_def finish_call_def observations_def observed_run_def
      split: option.splits mark_answer.splits if_splits prod.splits)
  moreover have "observations (xs @ ys) = observations xs @ observations ys" for xs ys by (simp add: observations_def)
  ultimately show ?thesis
    using assms(1,2) by (auto simp: executeTool_def Let_def then_do_def split: call_permission.splits if_splits)
qed

lemma edge_not_threw: "\<forall>e. fst (executeTool edge_host (bash_use ''make'') some_call HUMAN None) \<noteq> CallThrew e"
proof -
  have "\<exists>a b c. fst (executeTool edge_host (bash_use ''make'') some_call HUMAN None) = CallParked a b c"
    by (simp add: edge_host_def open_host_def executeTool_def Let_def pre_hooks_def has_event_def permit_def resolve_call_def
      permission_hook_def ask_person_def parks_def)
  then show ?thesis by auto
qed

theorem decision_observed_once_witness:
  "length (observations (snd (executeTool edge_host (bash_use ''make'') some_call HUMAN None))) = 1"
  using decision_observed_once [OF _ edge_not_threw]
  by (simp add: edge_host_def open_host_def pre_hooks_def has_event_def)

end
