(* ===== verification/AgentLoop.thy ===== *)
theory AgentLoop
  imports AgentTool Compaction Inbox
begin

text \<open>
  \<open>loop/agent.ts\<close>, the turn: \<open>AgentSession.run\<close> and \<open>turn\<close>, with \<open>loop/handoff.ts\<close>.  A round of the loop compacts the messages,
  calls the model, and then either runs the tools of its answer or, at the finish point, looks for a reason to go on.
  Its state is the local variables of \<open>turn\<close>; what a round finds outside (the model's answer, mail, what the person typed,
  events, the Stop hooks' results) is an input of the round.  The effects of the run are listed in order.  Left out
  are what only observers read (logs, metrics, telemetry) and the lifecycle entries of sub-agents, which the readers of a turn
  skip.
\<close>

section \<open>Handoffs\<close>

record peer_message =
  pm_from :: author
  pm_text :: string
  pm_correlationId :: "string option"

definition HANDOFF_FRAME :: string where
  "HANDOFF_FRAME =
     [nl, nl] @ ''[This is a handoff request from another repo'' @ [squote] @ ''s agent. Complete it here, then end with a '' @
     ''short report of what you changed '' @ emdash @ '' it is sent back automatically.]''"

definition correlation :: "peer_message \<Rightarrow> string option" where
  "correlation pm = some_text (pm_correlationId pm)"

definition frameHandoff :: "peer_message \<Rightarrow> string" where
  "frameHandoff pm = (if correlation pm = None then pm_text pm else pm_text pm @ HANDOFF_FRAME)"

definition postHandoffReply :: "string \<Rightarrow> string \<Rightarrow> agent_effect" where
  "postHandoffReply correlationId reply =
     Posted correlationId (if reply = [] then ''(the other agent finished but produced no summary)'' else reply)"

section \<open>Configuration, inputs and state\<close>

record loop_policy =
  po_verifyCommand :: "(string \<Rightarrow> bool) option"
  po_envBroken :: "(string \<Rightarrow> bool) option"
  po_churnThreshold :: nat
  po_antiChurnNudge :: "string \<Rightarrow> nat \<Rightarrow> string"
  po_selfCheckNudge :: "nat \<Rightarrow> string option \<Rightarrow> string"

text \<open>\<open>lc_strip\<close> is what \<open>stripInvisible\<close> leaves of a text, \<open>lc_condense\<close> the threshold and the side call, which may fail.\<close>

record loop_config =
  lc_model :: string
  lc_system :: string
  lc_maxTurns :: nat
  lc_ladder :: "string list"
  lc_patienceOpt :: "nat option"
  lc_maxStopOpt :: "nat option"
  lc_selfCheck :: bool
  lc_minEdits :: nat
  lc_antiChurn :: bool
  lc_verifyHint :: "string option"
  lc_peers :: bool
  lc_policy :: loop_policy
  lc_checkpoint :: "(nat \<times> (nat \<Rightarrow> string)) option"
  lc_compaction :: "compaction_options option"
  lc_summarize :: "message list \<Rightarrow> string option"
  lc_afterCompact :: "(string \<Rightarrow> string option) option"
  lc_condense :: "(nat \<times> (string \<Rightarrow> string option)) option"
  lc_strip :: "string \<Rightarrow> string"
  lc_parent :: "string option"
  lc_events :: bool

record model_result =
  mr_blocks :: "content_block list"
  mr_usage :: usage
  mr_computeUnits :: "rat option"
  mr_stopReason :: "stop_reason option"
  mr_model :: string
  mr_effort :: "(string \<times> string) option"
  mr_fallback :: "model_fallback_event option"

datatype model_outcome = Answered model_result | CallCancelled | CallRefused model_refusal | CallFailed string

record loop_input =
  li_aborted :: bool
  li_switches :: "model_fallback_event list"
  li_outcome :: model_outcome
  li_uuid :: string
  li_peers :: "peer_message list"
  li_steers :: "string list"
  li_notes :: "string list"
  li_events :: "agent_event list"
  li_stop :: "hook_result list"

record loop_state =
  lp_messages :: "message list"
  lp_usage :: usage
  lp_turns :: nat
  lp_stopContinuations :: nat
  lp_recoveries :: nat
  lp_lastInput :: nat
  lp_edits :: nat
  lp_byFile :: "(string, nat) jmap"
  lp_verifyRan :: bool
  lp_verifyObserved :: bool
  lp_selfChecked :: bool
  lp_churned :: bool
  lp_owed :: "string list"
  lp_lastText :: string
  lp_rung :: nat
  lp_rungBlocks :: nat
  lp_active :: string
  lp_out :: "agent_effect list"

definition patience :: "loop_config \<Rightarrow> nat" where
  "patience cfg = max 1 (case lc_patienceOpt cfg of Some p \<Rightarrow> p | None \<Rightarrow> 2)"

definition max_stop :: "loop_config \<Rightarrow> nat" where
  "max_stop cfg = (case lc_maxStopOpt cfg of Some n \<Rightarrow> n | None \<Rightarrow> max 3 (length (lc_ladder cfg) * patience cfg))"

definition MAX_RECOVERIES :: nat where "MAX_RECOVERIES = 3"

definition self_check_on :: "loop_config \<Rightarrow> agent_host \<Rightarrow> bool" where
  "self_check_on cfg host \<longleftrightarrow> lc_selfCheck cfg \<and> \<not> has_event Stop (ag_hooks host)"

definition anti_churn_on :: "loop_config \<Rightarrow> agent_host \<Rightarrow> bool" where
  "anti_churn_on cfg host \<longleftrightarrow> lc_antiChurn cfg \<and> \<not> has_event Stop (ag_hooks host)"

section \<open>Writing\<close>

definition emit_effects :: "agent_effect list \<Rightarrow> loop_state \<Rightarrow> loop_state" where
  "emit_effects es s = s\<lparr>lp_out := lp_out s @ es\<rparr>"

definition push_message :: "message \<Rightarrow> loop_state \<Rightarrow> loop_state" where
  "push_message m s = s\<lparr>lp_messages := lp_messages s @ [m]\<rparr>"

definition user_entry :: "author \<Rightarrow> string \<Rightarrow> sdk_message" where
  "user_entry a t = UserEv \<lparr>ue_message = user_msg (StrContent t), ue_author = a, ue_requestId = None\<rparr>"

text \<open>A text of its own turn: persisted and pushed.\<close>

definition inject :: "author \<Rightarrow> string \<Rightarrow> loop_state \<Rightarrow> loop_state" where
  "inject a t s = push_message (user_msg (StrContent t)) (emit_effects [Appended (user_entry a t)] s)"

definition run_end_event :: "result_subtype \<Rightarrow> pending_approval option \<Rightarrow> model_refusal option \<Rightarrow> loop_state \<Rightarrow> sdk_message" where
  "run_end_event subtype parked refused s =
     ResultEv \<lparr>re_subtype = subtype, re_reason = map_option rf_message refused, re_refusal = refused, re_sandboxRefusal = None,
       re_numTurns = lp_turns s, re_usage = lp_usage s, re_pendingApproval = parked\<rparr>"

definition finish_run :: "result_subtype \<Rightarrow> pending_approval option \<Rightarrow> model_refusal option \<Rightarrow> loop_state \<Rightarrow> loop_state" where
  "finish_run subtype parked refused s = emit_effects [Appended (run_end_event subtype parked refused s)] s"

text \<open>How a run ends: with a result of a subtype, or by an error it throws on.\<close>

datatype run_end = EndedWith result_subtype | Threw string

section \<open>Before the model call\<close>

definition after_compaction :: "loop_config \<Rightarrow> string \<Rightarrow> loop_state \<Rightarrow> loop_state" where
  "after_compaction cfg summary s =
     (case lc_afterCompact cfg of
        None \<Rightarrow> s
      | Some rebuild \<Rightarrow>
          (case rebuild summary of None \<Rightarrow> s | Some rebuilt \<Rightarrow> if trim rebuilt = [] then s else inject SYSTEM rebuilt s))"

definition compact_now :: "loop_config \<Rightarrow> loop_state \<Rightarrow> loop_state option" where
  "compact_now cfg s =
     (case lc_compaction cfg of
        None \<Rightarrow> Some s
      | Some opts \<Rightarrow>
          (case maybeCompact (lc_summarize cfg) (lp_messages s) (Some (lc_system cfg)) (opts\<lparr>knownFloorTokens := Some (lp_lastInput s)\<rparr>) of
             None \<Rightarrow> None
           | Some c \<Rightarrow>
               if \<not> cr_compacted c then Some s
               else
                 (let s1 = s\<lparr>lp_messages := cr_messages c\<rparr>
                  in Some (case some_text (cr_summary c) of
                       None \<Rightarrow> s1
                     | Some summary \<Rightarrow>
                         after_compaction cfg summary
                           (emit_effects [Appended (CompactEv \<lparr>ce_summary = summary, ce_trigger = AutoCompact,
                              ce_replacedMessages = or_zero (cr_replaced c)\<rparr>)] s1)))))"

definition checkpoint_nudge :: "loop_config \<Rightarrow> loop_state \<Rightarrow> loop_state" where
  "checkpoint_nudge cfg s =
     (case lc_checkpoint cfg of
        None \<Rightarrow> s
      | Some (every, nudge) \<Rightarrow>
          if every > 0 \<and> lp_turns s mod every = 0 then inject SYSTEM (nudge (lp_turns s)) s else s)"

section \<open>The answer\<close>

definition call_usage :: "model_result \<Rightarrow> usage" where
  "call_usage r = (case mr_computeUnits r of None \<Rightarrow> mr_usage r | Some cu \<Rightarrow> (mr_usage r)\<lparr>compute_units := Some cu\<rparr>)"

definition assistant_entry :: "model_result \<Rightarrow> sdk_message" where
  "assistant_entry r =
     AssistantEv \<lparr>ae_message = assistant_msg (Blocks (mr_blocks r)), ae_usage = call_usage r, ae_stopReason = mr_stopReason r,
       ae_model = mr_model r, ae_effort = mr_effort r\<rparr>"

text \<open>The switches announced on the stream, or else the fallback the result reports.\<close>

definition fallback_entries :: "loop_input \<Rightarrow> model_result \<Rightarrow> agent_effect list" where
  "fallback_entries inp r =
     (if li_switches inp = [] then (case mr_fallback r of None \<Rightarrow> [] | Some fb \<Rightarrow> [Appended (ModelFallbackEv fb)]) else [])"

definition take_answer :: "loop_input \<Rightarrow> model_result \<Rightarrow> loop_state \<Rightarrow> loop_state" where
  "take_answer inp r s =
     push_message (assistant_msg (Blocks (mr_blocks r)))
       (emit_effects (fallback_entries inp r @ [Appended (assistant_entry r)])
         (s\<lparr>lp_usage := addUsage (lp_usage s) (call_usage r),
            lp_lastInput := input_tokens (mr_usage r) + or_zero (cache_read (mr_usage r)) + or_zero (cache_creation (mr_usage r))\<rparr>))"

definition note_text :: "model_result \<Rightarrow> loop_state \<Rightarrow> loop_state" where
  "note_text r s =
     (let t = trim (concat (map block_text (mr_blocks r))) in if t = [] then s else s\<lparr>lp_lastText := t\<rparr>)"

section \<open>The finish point\<close>

text \<open>Each reason to go on, in the order they are looked for: \<open>None\<close> when there is none.\<close>

definition output_limit_note :: string where
  "output_limit_note =
     ''[Output limit] Your last response hit the output token limit and was cut off. Continue '' @
     ''exactly where you left off '' @ emdash @ '' no apology, no recap. If you'' @ [squote] @ ''re producing something large '' @
     ''(a file, a long list), split it into smaller pieces across multiple steps.''"

definition recover_output :: "model_result \<Rightarrow> loop_state \<Rightarrow> loop_state option" where
  "recover_output r s =
     (if mr_stopReason r = Some MaxTokens \<and> lp_recoveries s < MAX_RECOVERIES then
        Some (inject SYSTEM output_limit_note (s\<lparr>lp_recoveries := lp_recoveries s + 1\<rparr>))
      else None)"

definition owe :: "peer_message \<Rightarrow> loop_state \<Rightarrow> loop_state" where
  "owe pm s = (case correlation pm of None \<Rightarrow> s | Some c \<Rightarrow> s\<lparr>lp_owed := lp_owed s @ [c]\<rparr>)"

definition inject_peer :: "loop_config \<Rightarrow> peer_message \<Rightarrow> loop_state \<Rightarrow> loop_state" where
  "inject_peer cfg pm s =
     inject (pm_from pm) (frameHandoff (pm\<lparr>pm_text := lc_strip cfg (pm_text pm)\<rparr>)) (owe pm s)"

definition go_on :: "('a \<Rightarrow> loop_state \<Rightarrow> loop_state) \<Rightarrow> 'a list \<Rightarrow> loop_state \<Rightarrow> loop_state option" where
  "go_on f xs s = (if xs = [] then None else Some (fold f xs s))"

definition drain_peers :: "loop_config \<Rightarrow> loop_input \<Rightarrow> loop_state \<Rightarrow> loop_state option" where
  "drain_peers cfg inp s = (if lc_peers cfg then go_on (inject_peer cfg) (li_peers inp) s else None)"

definition steers_of :: "loop_input \<Rightarrow> string list" where
  "steers_of inp = filter (\<lambda>t. t \<noteq> []) (map trim (li_steers inp))"

definition drain_steers :: "author \<Rightarrow> loop_input \<Rightarrow> loop_state \<Rightarrow> loop_state option" where
  "drain_steers speaker inp s = go_on (inject speaker) (steers_of inp) s"

definition drain_notes :: "loop_input \<Rightarrow> loop_state \<Rightarrow> loop_state option" where
  "drain_notes inp s = go_on (inject SYSTEM) (li_notes inp) s"

definition drain_events :: "loop_input \<Rightarrow> loop_state \<Rightarrow> loop_state option" where
  "drain_events inp s = (if li_events inp = [] then None else Some (inject SYSTEM (renderEvents (li_events inp)) s))"

text \<open>A blocking Stop hook sends the run on, at most \<open>max_stop\<close> times, and up the ladder once the rung has failed \<open>patience\<close> times.\<close>

definition climb :: "loop_config \<Rightarrow> loop_state \<Rightarrow> string \<times> loop_state" where
  "climb cfg s =
     (if patience cfg \<le> lp_rungBlocks s \<and> lp_rung s + 1 < length (lc_ladder cfg) then
        (let up = lc_ladder cfg ! (lp_rung s + 1)
         in ('' Escalating to a stronger model ('' @ up @ '') after '' @ nat_str (patience cfg) @ '' failed '' @
               (if patience cfg = 1 then ''attempt'' else ''attempts'') @ ''.'',
             s\<lparr>lp_rung := lp_rung s + 1, lp_rungBlocks := 0, lp_active := up\<rparr>))
      else ([], s))"

definition stop_hooks :: "loop_config \<Rightarrow> agent_host \<Rightarrow> loop_input \<Rightarrow> loop_state \<Rightarrow> loop_state option" where
  "stop_hooks cfg host inp s =
     (if has_event Stop (ag_hooks host) \<and> lp_stopContinuations s < max_stop cfg then
        (case find (hook_says ''block'') (li_stop inp) of
           None \<Rightarrow> None
         | Some blocker \<Rightarrow>
             (let (escNote, s1) = climb cfg (s\<lparr>lp_stopContinuations := lp_stopContinuations s + 1, lp_rungBlocks := lp_rungBlocks s + 1\<rparr>)
              in Some (inject SYSTEM
                   (''[Verification] '' @ hook_text ''reason'' (''Not done yet '' @ emdash @ '' keep going.'') blocker @ escNote) s1)))
      else None)"

definition self_check :: "loop_config \<Rightarrow> agent_host \<Rightarrow> loop_state \<Rightarrow> loop_state option" where
  "self_check cfg host s =
     (if self_check_on cfg host \<and> \<not> lp_selfChecked s \<and> lc_minEdits cfg \<le> lp_edits s \<and> \<not> lp_verifyObserved s then
        Some (inject SYSTEM (po_selfCheckNudge (lc_policy cfg) (lp_edits s) (lc_verifyHint cfg)) (s\<lparr>lp_selfChecked := True\<rparr>))
      else None)"

definition reply_owed :: "loop_state \<Rightarrow> loop_state" where
  "reply_owed s = (emit_effects (map (\<lambda>c. postHandoffReply c (lp_lastText s)) (lp_owed s)) s)\<lparr>lp_owed := []\<rparr>"

definition succeed :: "loop_state \<Rightarrow> loop_state" where
  "succeed s = finish_run Success None None (emit_effects [StatusSet ''idle''] (reply_owed s))"

fun first_some :: "('a \<Rightarrow> 'a option) list \<Rightarrow> 'a \<Rightarrow> 'a option" where
  "first_some [] s = None"
| "first_some (f # fs) s = (case f s of Some t \<Rightarrow> Some t | None \<Rightarrow> first_some fs s)"

definition reasons_to_go_on ::
  "loop_config \<Rightarrow> agent_host \<Rightarrow> author \<Rightarrow> loop_input \<Rightarrow> model_result \<Rightarrow> (loop_state \<Rightarrow> loop_state option) list" where
  "reasons_to_go_on cfg host speaker inp r =
     [recover_output r, drain_peers cfg inp, drain_steers speaker inp, drain_notes inp, drain_events inp, stop_hooks cfg host inp,
      self_check cfg host]"

definition finish_point ::
  "loop_config \<Rightarrow> agent_host \<Rightarrow> author \<Rightarrow> loop_input \<Rightarrow> model_result \<Rightarrow> loop_state \<Rightarrow> run_end option \<times> loop_state" where
  "finish_point cfg host speaker inp r s =
     (case first_some (reasons_to_go_on cfg host speaker inp r) s of
        Some t \<Rightarrow> (None, t)
      | None \<Rightarrow> (Some (EndedWith Success), succeed s))"

section \<open>A round of tools\<close>

definition input_path :: "tool_use \<Rightarrow> string" where
  "input_path tu = string_or_empty (jget ''path'' (tu_input tu))"

definition input_command :: "tool_use \<Rightarrow> string" where
  "input_command tu = string_or_empty (jget ''command'' (tu_input tu))"

definition passes :: "(string \<Rightarrow> bool) option \<Rightarrow> string \<Rightarrow> bool" where
  "passes re t = (case re of None \<Rightarrow> False | Some f \<Rightarrow> f t)"

definition add_edit :: "string \<Rightarrow> (string, nat) jmap \<Rightarrow> (string, nat) jmap" where
  "add_edit path m = (if path = [] then m else jmap_set path (or_zero (map_of m path) + 1) m)"

text \<open>A successful edit counts, in all and for its file; a command of the verification vocabulary has run, and was a verification
  unless its output says that the environment is broken.\<close>

definition count_call :: "loop_policy \<Rightarrow> agent_host \<Rightarrow> tool_result_event list \<Rightarrow> tool_use \<Rightarrow> loop_state \<Rightarrow> loop_state" where
  "count_call po host results tu s =
     (let t = ag_get host (tu_name tu);
          res = find (\<lambda>e. tr_toolUseId e = tu_id tu) results
      in if (case t of Some c \<Rightarrow> tc_edits c | None \<Rightarrow> False) then
           (case res of
              Some r \<Rightarrow> if tr_isError r then s else s\<lparr>lp_edits := lp_edits s + 1, lp_byFile := add_edit (input_path tu) (lp_byFile s)\<rparr>
            | None \<Rightarrow> s)
         else if (case t of Some c \<Rightarrow> tc_executes c | None \<Rightarrow> False) \<and> passes (po_verifyCommand po) (input_command tu) then
           (case res of
              Some r \<Rightarrow> s\<lparr>lp_verifyRan := True, lp_verifyObserved := lp_verifyObserved s \<or> \<not> passes (po_envBroken po) (tr_content r)\<rparr>
            | None \<Rightarrow> s)
         else s)"

definition count_signals :: "loop_config \<Rightarrow> agent_host \<Rightarrow> tool_use list \<Rightarrow> tool_result_event list \<Rightarrow> loop_state \<Rightarrow> loop_state" where
  "count_signals cfg host uses results s =
     (if self_check_on cfg host \<or> anti_churn_on cfg host then fold (count_call (lc_policy cfg) host results) uses s else s)"

definition churn_breaker :: "loop_config \<Rightarrow> agent_host \<Rightarrow> loop_state \<Rightarrow> string option \<times> loop_state" where
  "churn_breaker cfg host s =
     (if anti_churn_on cfg host \<and> \<not> lp_churned s then
        (case find (\<lambda>pn. po_churnThreshold (lc_policy cfg) \<le> snd pn) (lp_byFile s) of
           None \<Rightarrow> (None, s)
         | Some (path, n) \<Rightarrow> (Some (po_antiChurnNudge (lc_policy cfg) path n), s\<lparr>lp_churned := True\<rparr>))
      else (None, s))"

text \<open>A side call that fails, or says nothing, leaves the two ends of the text.\<close>

definition condenseOutput :: "(string \<Rightarrow> string option) \<Rightarrow> string \<Rightarrow> string" where
  "condenseOutput side t =
     (case side t of
        Some out \<Rightarrow> if trim out \<noteq> [] then out
                    else take 4000 t @ [nl, nl] @ ellipsis @ ''['' @ nat_str (length t) @ '' chars total; middle elided]'' @ ellipsis @ [nl, nl] @
                         drop (length t - 4000) t
      | None \<Rightarrow> take 4000 t @ [nl, nl] @ ellipsis @ ''['' @ nat_str (length t) @ '' chars total; middle elided]'' @ ellipsis @ [nl, nl] @
                drop (length t - 4000) t)"

definition condense_block :: "loop_config \<Rightarrow> content_block \<Rightarrow> content_block" where
  "condense_block cfg b =
     (case lc_condense cfg of
        None \<Rightarrow> b
      | Some (limit, side) \<Rightarrow>
          (case b of
             ToolResult i (ResultString t) e \<Rightarrow>
               if e \<noteq> Some True \<and> limit < length t then ToolResult i (ResultString (condenseOutput side t)) e else b
           | _ \<Rightarrow> b))"

text \<open>What arrived while the tools ran rides with their results in one user turn; each text is persisted as an entry of its own.\<close>

definition fold_in :: "author \<Rightarrow> string \<Rightarrow> content_block list \<times> loop_state \<Rightarrow> content_block list \<times> loop_state" where
  "fold_in a t bs = (fst bs @ [TextBlock t], emit_effects [Appended (user_entry a t)] (snd bs))"

definition fold_peer :: "peer_message \<Rightarrow> content_block list \<times> loop_state \<Rightarrow> content_block list \<times> loop_state" where
  "fold_peer pm bs = fold_in (pm_from pm) (frameHandoff pm) (fst bs, owe pm (snd bs))"

definition fold_arrivals :: "loop_config \<Rightarrow> author \<Rightarrow> loop_input \<Rightarrow> content_block list \<times> loop_state \<Rightarrow> content_block list \<times> loop_state" where
  "fold_arrivals cfg speaker inp bs =
     (let steered = fold (fold_in speaker) (steers_of inp) bs;
          mailed = (if lc_peers cfg then fold fold_peer (li_peers inp) steered else steered)
      in if li_events inp = [] then mailed else fold_in SYSTEM (renderEvents (li_events inp)) mailed)"

definition after_tools ::
  "loop_config \<Rightarrow> agent_host \<Rightarrow> author \<Rightarrow> loop_input \<Rightarrow> tool_use list \<Rightarrow> tool_result_event list \<Rightarrow> loop_state \<Rightarrow> loop_state" where
  "after_tools cfg host speaker inp uses results s =
     (let blocks = map (\<lambda>r. condense_block cfg (result_block (appendToolResult host r))) results;
          (churnNote, s1) = churn_breaker cfg host (count_signals cfg host uses results s);
          content_blocks = blocks @ (case churnNote of None \<Rightarrow> [] | Some t \<Rightarrow> [TextBlock t]);
          (turnContent, s2) = fold_arrivals cfg speaker inp (content_blocks, s1)
      in push_message (user_msg (Blocks turnContent)) s2)"

definition park_record :: "string \<Rightarrow> string \<Rightarrow> call_at \<Rightarrow> pending_approval" where
  "park_record command reason c =
     \<lparr>pa_command = command, pa_reason = reason, pa_toolUseId = Some (ca_toolUseId c), pa_index = Some (ca_index c)\<rparr>"

definition end_by :: "call_outcome \<Rightarrow> loop_state \<Rightarrow> run_end option \<times> loop_state" where
  "end_by stopped s =
     (case stopped of
        CallParked command reason c \<Rightarrow> (Some (EndedWith NeedsApproval), finish_run NeedsApproval (Some (park_record command reason c)) None s)
      | CallThrew e \<Rightarrow> (Some (Threw e), s)
      | CallResult r \<Rightarrow> (None, s))"

definition tool_round ::
  "loop_config \<Rightarrow> agent_host \<Rightarrow> author \<Rightarrow> loop_input \<Rightarrow> model_result \<Rightarrow> loop_state \<Rightarrow> run_end option \<times> loop_state" where
  "tool_round cfg host speaker inp r s =
     (let ran = run_answer host speaker (li_uuid inp) (mr_blocks r);
          s1 = emit_effects (snd ran) s
      in case fst (fst ran) of
           Some stopped \<Rightarrow> end_by stopped s1
         | None \<Rightarrow> (None, after_tools cfg host speaker inp (tool_uses (mr_blocks r)) (snd (fst ran)) s1))"

section \<open>A round, a run\<close>

definition after_answer ::
  "loop_config \<Rightarrow> agent_host \<Rightarrow> author \<Rightarrow> loop_input \<Rightarrow> model_result \<Rightarrow> loop_state \<Rightarrow> run_end option \<times> loop_state" where
  "after_answer cfg host speaker inp r s =
     (if tool_uses (mr_blocks r) = [] then finish_point cfg host speaker inp r (note_text r s)
      else tool_round cfg host speaker inp r (note_text r s))"

definition call_model ::
  "loop_config \<Rightarrow> agent_host \<Rightarrow> author \<Rightarrow> loop_input \<Rightarrow> loop_state \<Rightarrow> run_end option \<times> loop_state" where
  "call_model cfg host speaker inp s0 =
     (let s = emit_effects (map (\<lambda>fb. Appended (ModelFallbackEv fb)) (li_switches inp)) s0
      in case li_outcome inp of
           CallCancelled \<Rightarrow> (Some (EndedWith Cancelled), finish_run Cancelled None None s)
         | CallRefused refusal \<Rightarrow> (Some (EndedWith ErrorResult), finish_run ErrorResult None (Some refusal) s)
         | CallFailed e \<Rightarrow> (Some (Threw e), s)
         | Answered r \<Rightarrow> after_answer cfg host speaker inp r (take_answer inp r s))"

definition next_turn :: "loop_config \<Rightarrow> loop_state \<Rightarrow> loop_state" where
  "next_turn cfg s = checkpoint_nudge cfg (s\<lparr>lp_turns := lp_turns s + 1\<rparr>)"

definition loop_round ::
  "loop_config \<Rightarrow> agent_host \<Rightarrow> author \<Rightarrow> loop_input \<Rightarrow> loop_state \<Rightarrow> run_end option \<times> loop_state" where
  "loop_round cfg host speaker inp s =
     (if li_aborted inp then (Some (EndedWith Cancelled), finish_run Cancelled None None s)
      else if lc_maxTurns cfg \<le> lp_turns s then (Some (EndedWith MaxTurns), finish_run MaxTurns None None s)
      else (case compact_now cfg s of
              None \<Rightarrow> (Some (Threw ''compaction failed''), s)
            | Some s1 \<Rightarrow> call_model cfg host speaker inp (next_turn cfg s1)))"

text \<open>The first round of a resumed turn whose model call had answered: no call, nothing compacted, nudged or recorded before it.\<close>

definition answered_round ::
  "loop_config \<Rightarrow> agent_host \<Rightarrow> author \<Rightarrow> loop_input \<Rightarrow> model_result \<Rightarrow> loop_state \<Rightarrow> run_end option \<times> loop_state" where
  "answered_round cfg host speaker inp r s =
     (if li_aborted inp then (Some (EndedWith Cancelled), finish_run Cancelled None None s)
      else if lc_maxTurns cfg \<le> lp_turns s then (Some (EndedWith MaxTurns), finish_run MaxTurns None None s)
      else after_answer cfg host speaker inp r (s\<lparr>lp_turns := lp_turns s + 1\<rparr>))"

text \<open>The rounds from the \<open>i\<close>-th input on; the fuel bounds their number.\<close>

fun run_rounds ::
  "loop_config \<Rightarrow> agent_host \<Rightarrow> author \<Rightarrow> (nat \<Rightarrow> loop_input) \<Rightarrow> nat \<Rightarrow> nat \<Rightarrow> loop_state \<Rightarrow> run_end option \<times> loop_state" where
  "run_rounds cfg host speaker inputs 0 i s = (None, s)"
| "run_rounds cfg host speaker inputs (Suc fuel) i s =
     (case loop_round cfg host speaker (inputs i) s of
        (Some e, t) \<Rightarrow> (Some e, t)
      | (None, t) \<Rightarrow> run_rounds cfg host speaker inputs fuel (Suc i) t)"

definition forward_late :: "string \<Rightarrow> string \<Rightarrow> peer_message \<Rightarrow> agent_effect" where
  "forward_late sessionId parent pm =
     Posted parent (''[sent to sub-agent '' @ take 8 sessionId @ '' after it finished] '' @ pm_text pm)"

text \<open>
  A side event a tool raises on its session's stream: the lifecycle of a sub-agent, or an event of it.  With no loop of the session
  running, the bus appends a persisted one at the head of the conversation and only tells its listeners of the others; it does so on a
  queue of its own, in the order the events arrived.
\<close>

datatype side_event = Lifecycle subagent_event | ChildEvent string engine_event

definition side_as_event :: "side_event \<Rightarrow> engine_event" where
  "side_as_event e = (case e of Lifecycle s \<Rightarrow> Sdk (SubagentEv s) | ChildEvent c x \<Rightarrow> SubagentStream c x)"

definition idle_entries :: "side_event \<Rightarrow> sdk_message list" where
  "idle_entries e =
     (if isPersisted (side_as_event e) then (case e of Lifecycle s \<Rightarrow> [SubagentEv s] | ChildEvent c x \<Rightarrow> []) else [])"

definition idle_emit :: "side_event \<Rightarrow> agent_effect list" where
  "idle_emit e = map Appended (idle_entries e)"

text \<open>What is found when a run ends: the side events raised since its last flush, and the mail that came after its last look.\<close>

record run_exit =
  ex_side :: "side_event list"
  ex_mail :: "peer_message list"

text \<open>What is done however the run ends: owed replies, the status, the side events still queued through the bus (the run has
  unsubscribed), and a sub-agent's late mail to the session that delegated it.\<close>

definition run_cleanup :: "loop_config \<Rightarrow> string \<Rightarrow> run_exit \<Rightarrow> loop_state \<Rightarrow> loop_state" where
  "run_cleanup cfg sessionId late s =
     emit_effects
       (StatusSet ''idle'' #
        (if lc_events cfg then concat (map idle_emit (ex_side late)) else []) @
        (case lc_parent cfg of Some p \<Rightarrow> if lc_peers cfg then map (forward_late sessionId p) (ex_mail late) else [] | None \<Rightarrow> []))
       (reply_owed s)"

definition start_state :: "loop_config \<Rightarrow> nat \<Rightarrow> message list \<Rightarrow> loop_state" where
  "start_state cfg rung messages =
     \<lparr>lp_messages = messages, lp_usage = emptyUsage, lp_turns = 0, lp_stopContinuations = 0, lp_recoveries = 0, lp_lastInput = 0,
      lp_edits = 0, lp_byFile = [], lp_verifyRan = False, lp_verifyObserved = False, lp_selfChecked = False, lp_churned = False,
      lp_owed = [], lp_lastText = [], lp_rung = rung, lp_rungBlocks = 0,
      lp_active = (if lc_ladder cfg = [] then lc_model cfg else lc_ladder cfg ! rung), lp_out = [StatusSet ''active'']\<rparr>"

text \<open>Each round that goes on is a turn, and the round after the last turn ends the run.\<close>

definition enough_rounds :: "loop_config \<Rightarrow> loop_state \<Rightarrow> nat" where
  "enough_rounds cfg s = Suc (lc_maxTurns cfg - lp_turns s)"

definition turn_loop ::
  "loop_config \<Rightarrow> agent_host \<Rightarrow> author \<Rightarrow> string \<Rightarrow> (nat \<Rightarrow> loop_input) \<Rightarrow> run_exit \<Rightarrow> loop_state \<Rightarrow> run_end option \<times> loop_state" where
  "turn_loop cfg host speaker sessionId inputs late s =
     (let res = run_rounds cfg host speaker inputs (enough_rounds cfg s) 0 s
      in (fst res, run_cleanup cfg sessionId late (snd res)))"

section \<open>Going on after another engine\<close>

record turn_counts =
  cn_turns :: nat
  cn_edits :: nat
  cn_byFile :: "(string, nat) jmap"
  cn_verifyRan :: bool
  cn_verifyObserved :: bool

definition turn_results :: "conversation_entry list \<Rightarrow> (string \<times> tool_result_event) list" where
  "turn_results turn =
     List.map_filter (\<lambda>e. case ce_payload e of ToolResultEv t \<Rightarrow> Some (tr_toolUseId t, t) | _ \<Rightarrow> None) turn"

definition count_replayed :: "loop_policy \<Rightarrow> agent_host \<Rightarrow> (string \<Rightarrow> tool_result_event option) \<Rightarrow> tool_use \<Rightarrow> turn_counts \<Rightarrow> turn_counts" where
  "count_replayed po host results tu c =
     (let t = ag_get host (tu_name tu)
      in case results (tu_id tu) of
           None \<Rightarrow> c
         | Some r \<Rightarrow>
             if (case t of Some k \<Rightarrow> tc_edits k | None \<Rightarrow> False) then
               (if tr_isError r then c else c\<lparr>cn_edits := cn_edits c + 1, cn_byFile := add_edit (input_path tu) (cn_byFile c)\<rparr>)
             else if (case t of Some k \<Rightarrow> tc_executes k | None \<Rightarrow> False) \<and> passes (po_verifyCommand po) (input_command tu) then
               c\<lparr>cn_verifyRan := True, cn_verifyObserved := cn_verifyObserved c \<or> \<not> passes (po_envBroken po) (tr_content r)\<rparr>
             else c)"

definition count_entry :: "loop_policy \<Rightarrow> agent_host \<Rightarrow> (string \<Rightarrow> tool_result_event option) \<Rightarrow> conversation_entry \<Rightarrow> turn_counts \<Rightarrow> turn_counts" where
  "count_entry po host results e c =
     (case ce_payload e of
        AssistantEv a \<Rightarrow> fold (count_replayed po host results) (tool_uses (msg_blocks (ae_message a))) (c\<lparr>cn_turns := cn_turns c + 1\<rparr>)
      | _ \<Rightarrow> c)"

definition countTurn :: "loop_policy \<Rightarrow> agent_host \<Rightarrow> conversation_entry list \<Rightarrow> turn_counts" where
  "countTurn po host turn =
     fold (count_entry po host (map_of (rev (turn_results turn)))) turn
       \<lparr>cn_turns = 0, cn_edits = 0, cn_byFile = [], cn_verifyRan = False, cn_verifyObserved = False\<rparr>"

text \<open>A continued turn: its open calls are settled, the state is counted from the log, and the rounds go on.\<close>

definition continue_turn ::
  "loop_config \<Rightarrow> agent_host \<Rightarrow> string \<Rightarrow> nat \<Rightarrow> (nat \<Rightarrow> loop_input) \<Rightarrow> run_exit \<Rightarrow> usage \<Rightarrow> json list \<Rightarrow>
     conversation_entry list \<Rightarrow> conversation_entry list \<Rightarrow> held_decision option \<Rightarrow> (agent_effect list \<Rightarrow> conversation_entry list) \<Rightarrow>
     run_end option \<times> loop_state" where
  "continue_turn cfg host sessionId rung inputs late used markers entries turn decided logged =
     (let speaker = (case ce_payload (asked_entry turn) of UserEv u \<Rightarrow> turn_author u | _ \<Rightarrow> HUMAN);
          (stopped, es) = settle_turn host markers turn decided;
          now = logged es;
          counted = countTurn (lc_policy cfg) host (inFlightTurn (effectiveEntries now));
          answer = answered_head turn;
          s = emit_effects es ((start_state cfg rung (loadMessages now))
                \<lparr>lp_usage := used, lp_turns := cn_turns counted - (if answer = None then 0 else 1), lp_edits := cn_edits counted,
                 lp_byFile := cn_byFile counted, lp_verifyRan := cn_verifyRan counted, lp_verifyObserved := cn_verifyObserved counted\<rparr>);
          rounds = (\<lambda>i t. run_rounds cfg host speaker inputs (enough_rounds cfg t) i t);
          res = (case stopped of
                   Some st \<Rightarrow> end_by st s
                 | None \<Rightarrow>
                     (case answer of
                        None \<Rightarrow> rounds 0 s
                      | Some a \<Rightarrow>
                          (case answered_round cfg host speaker (inputs 0)
                                  \<lparr>mr_blocks = msg_blocks (ae_message a), mr_usage = ae_usage a, mr_computeUnits = None,
                                   mr_stopReason = ae_stopReason a, mr_model = ae_model a, mr_effort = None, mr_fallback = None\<rparr> s of
                             (Some e, t) \<Rightarrow> (Some e, t)
                           | (None, t) \<Rightarrow> rounds 1 t)))
      in (fst res, run_cleanup cfg sessionId late (snd res)))"

section \<open>What every reason to go on keeps\<close>

text \<open>
  The reasons to go on are made of a few writes.  A relation between states that is a preorder and holds over each of the writes
  holds over whatever reason the finish point finds.
\<close>

locale round_relation =
  fixes cfg :: loop_config and R :: "loop_state \<Rightarrow> loop_state \<Rightarrow> bool"
  assumes R_refl: "R s s"
    and R_trans: "R s t \<Longrightarrow> R t u \<Longrightarrow> R s u"
    and R_inject: "R s (inject a tx s)"
    and R_owe: "R s (owe pm s)"
    and R_recover: "lp_recoveries s < MAX_RECOVERIES \<Longrightarrow> R s (s\<lparr>lp_recoveries := Suc (lp_recoveries s)\<rparr>)"
    and R_block: "lp_stopContinuations s < max_stop cfg \<Longrightarrow>
      R s (s\<lparr>lp_stopContinuations := Suc (lp_stopContinuations s), lp_rungBlocks := Suc (lp_rungBlocks s)\<rparr>)"
    and R_climb: "patience cfg \<le> lp_rungBlocks s \<Longrightarrow> Suc (lp_rung s) < length (lc_ladder cfg) \<Longrightarrow>
      R s (s\<lparr>lp_rung := Suc (lp_rung s), lp_rungBlocks := 0, lp_active := lc_ladder cfg ! Suc (lp_rung s)\<rparr>)"
    and R_check: "R s (s\<lparr>lp_selfChecked := True\<rparr>)"
begin

lemma over_fold: "(\<And>x u. R u (f x u)) \<Longrightarrow> R s (fold f xs s)"
proof (induction xs arbitrary: s)
  case Nil
  show ?case by (simp add: R_refl)
next
  case (Cons x xs)
  then have "R s (f x s)" "R (f x s) (fold f xs (f x s))" by blast+
  then show ?case by (auto intro: R_trans)
qed

lemma over_go_on: "go_on f xs s = Some t \<Longrightarrow> (\<And>x u. R u (f x u)) \<Longrightarrow> R s t"
  by (auto simp: go_on_def over_fold split: if_splits)

lemma over_climb: "R s (snd (climb cfg s))"
  by (simp add: climb_def Let_def R_climb R_refl)

lemma over_stop:
  assumes "stop_hooks cfg host inp s = Some t"
  shows "R s t"
proof -
  let ?b = "s\<lparr>lp_stopContinuations := Suc (lp_stopContinuations s), lp_rungBlocks := Suc (lp_rungBlocks s)\<rparr>"
  obtain tx where t: "t = inject SYSTEM tx (snd (climb cfg ?b))" and "lp_stopContinuations s < max_stop cfg"
    using assms by (auto simp: stop_hooks_def Let_def split: if_splits option.splits prod.splits)
  then have "R s ?b" by (simp add: R_block)
  then have "R s (snd (climb cfg ?b))" using over_climb R_trans by blast
  then show ?thesis unfolding t using R_inject R_trans by blast
qed

lemma over_reason:
  assumes "f \<in> set (reasons_to_go_on cfg host speaker inp r)" "f s = Some t"
  shows "R s t"
proof -
  have peer: "R u (inject_peer cfg pm u)" for pm u
    unfolding inject_peer_def by (rule R_trans [OF R_owe R_inject])
  from assms show ?thesis
    by (auto simp: reasons_to_go_on_def recover_output_def drain_peers_def drain_steers_def drain_notes_def drain_events_def self_check_def
      split: if_splits intro: over_stop R_inject R_trans [OF R_recover R_inject] R_trans [OF R_check R_inject]
      dest!: over_go_on [OF _ peer] over_go_on [OF _ R_inject])
qed

lemma over_reasons: "first_some fs s = Some t \<Longrightarrow> set fs \<subseteq> set (reasons_to_go_on cfg host speaker inp r) \<Longrightarrow> R s t"
  by (induction fs) (auto intro: over_reason split: option.splits)

lemma over_finish: "finish_point cfg host speaker inp r s = (None, t) \<Longrightarrow> R s t"
  by (auto simp: finish_point_def intro: over_reasons split: option.splits)

end

named_theorems loop_defs

lemmas [loop_defs] = emit_effects_def push_message_def inject_def finish_run_def reply_owed_def succeed_def note_text_def take_answer_def
  owe_def Let_def

text \<open>
  The same for a whole round: its writes other than the end of the run are messages, counters, and effects that are no result entry.
\<close>

definition ends_turn :: "agent_effect \<Rightarrow> bool" where
  "ends_turn e = (case e of Appended (ResultEv r) \<Rightarrow> True | _ \<Rightarrow> False)"

locale loop_relation =
  fixes cfg :: loop_config and R :: "loop_state \<Rightarrow> loop_state \<Rightarrow> bool"
  assumes L_refl: "R s s"
    and L_trans: "R s t \<Longrightarrow> R t u \<Longrightarrow> R s u"
    and L_write: "\<forall>e \<in> set es. \<not> ends_turn e \<Longrightarrow> R s (emit_effects es s)"
    and L_messages: "R s (s\<lparr>lp_messages := ms\<rparr>)"
    and L_edits: "R s (s\<lparr>lp_edits := a, lp_byFile := b\<rparr>)"
    and L_verify: "R s (s\<lparr>lp_verifyRan := c, lp_verifyObserved := d\<rparr>)"
    and L_usage: "R s (s\<lparr>lp_usage := v, lp_lastInput := n\<rparr>)"
    and L_checked: "R s (s\<lparr>lp_selfChecked := x\<rparr>)"
    and L_churned: "R s (s\<lparr>lp_churned := y\<rparr>)"
    and L_owed: "R s (s\<lparr>lp_owed := os\<rparr>)"
    and L_text: "R s (s\<lparr>lp_lastText := tx\<rparr>)"
    and L_recover: "lp_recoveries s < MAX_RECOVERIES \<Longrightarrow> R s (s\<lparr>lp_recoveries := Suc (lp_recoveries s)\<rparr>)"
    and L_block: "lp_stopContinuations s < max_stop cfg \<Longrightarrow>
      R s (s\<lparr>lp_stopContinuations := Suc (lp_stopContinuations s), lp_rungBlocks := Suc (lp_rungBlocks s)\<rparr>)"
    and L_climb: "patience cfg \<le> lp_rungBlocks s \<Longrightarrow> Suc (lp_rung s) < length (lc_ladder cfg) \<Longrightarrow>
      R s (s\<lparr>lp_rung := Suc (lp_rung s), lp_rungBlocks := 0, lp_active := lc_ladder cfg ! Suc (lp_rung s)\<rparr>)"
begin

lemma L_inject: "R s (inject a tx s)"
proof -
  have "R s (emit_effects [Appended (user_entry a tx)] s)" by (rule L_write) (simp add: ends_turn_def user_entry_def)
  then show ?thesis unfolding inject_def push_message_def using L_messages L_trans by blast
qed

lemma L_owe: "R s (owe pm s)"
  by (simp add: owe_def L_owed L_refl split: option.split)

end

sublocale loop_relation \<subseteq> round_relation cfg R
proof
qed (fact L_refl L_trans L_inject L_owe L_recover L_block L_climb L_checked)+

lemma run_steps_no_end: "e \<in> set (snd (run_steps host dup speaker steps)) \<Longrightarrow> \<not> ends_turn e"
proof (induction steps)
  case Nil
  then show ?case by simp
next
  case (Cons step steps)
  have live: "\<not> ends_turn e" if "e \<in> set (snd (exec_live host dup speaker p))" for e p
    using that executeTool_unappending [of host "pd_tu p" "pd_at p" speaker None]
    by (auto simp: exec_live_def unappending_def ends_turn_def split: if_splits agent_effect.splits sdk_message.splits)
  have res: "\<not> ends_turn (appended_result host r)" for r by (simp add: appended_result_def ends_turn_def)
  from Cons show ?case by (auto simp: Let_def live res split: option.splits)
qed

context loop_relation begin

lemma over_fold_in: "R (snd bs) (snd (fold_in a tx bs))"
  by (simp add: fold_in_def) (rule L_write, simp add: ends_turn_def user_entry_def)

lemma over_fold_peer: "R (snd bs) (snd (fold_peer pm bs))"
proof -
  have "R (owe pm (snd bs)) (snd (fold_peer pm bs))"
    unfolding fold_peer_def using over_fold_in [of "(fst bs, owe pm (snd bs))"] by (simp only: snd_conv)
  then show ?thesis using L_owe L_trans by blast
qed

lemma over_blocks: "(\<And>x bs. R (snd bs) (snd (f x bs))) \<Longrightarrow> R (snd bs) (snd (fold f xs bs))"
proof (induction xs arbitrary: bs)
  case Nil
  show ?case by (simp add: L_refl)
next
  case (Cons x xs)
  then have "R (snd bs) (snd (f x bs))" "R (snd (f x bs)) (snd (fold f xs (f x bs)))" by blast+
  then show ?case by (auto intro: L_trans)
qed

lemma over_arrivals: "R (snd bs) (snd (fold_arrivals cfg' speaker inp bs))"
proof -
  have steered: "R (snd bs) (snd (fold (fold_in speaker) xs bs))" for xs by (rule over_blocks) (rule over_fold_in)
  have "R (snd cs) (snd (fold fold_peer xs cs))" for xs cs by (rule over_blocks) (rule over_fold_peer)
  then have mailed: "R (snd bs) (snd (fold fold_peer ys (fold (fold_in speaker) xs bs)))" for xs ys
    using steered L_trans by blast
  show ?thesis
    using steered mailed L_trans [OF steered over_fold_in] L_trans [OF mailed over_fold_in] by (simp add: fold_arrivals_def Let_def)
qed

lemma over_count: "R s (count_signals cfg' host uses results s)"
proof -
  have "R u (count_call po host results tu u)" for po tu u
    by (simp add: count_call_def Let_def L_edits L_verify L_refl split: option.split)
  then have "R s (fold (count_call po host results) uses s)" for po by (rule over_fold)
  then show ?thesis by (simp add: count_signals_def L_refl)
qed

lemma over_churn: "R s (snd (churn_breaker cfg' host s))"
  by (simp add: churn_breaker_def L_churned L_refl split: option.split prod.split)

lemma over_after_tools: "R s (after_tools cfg' host speaker inp uses results s)"
proof -
  let ?c = "churn_breaker cfg' host (count_signals cfg' host uses results s)"
  have "R s (snd ?c)" using over_count over_churn L_trans by blast
  moreover have "R (snd ?c) (snd (fold_arrivals cfg' speaker inp (bs, snd ?c)))" for bs
    using over_arrivals [of "(bs, snd ?c)"] by simp
  ultimately have "R s (push_message m (snd (fold_arrivals cfg' speaker inp (bs, snd ?c))))" for m bs
    unfolding push_message_def using L_messages L_trans by blast
  then show ?thesis by (simp add: after_tools_def Let_def split: prod.split) (metis snd_conv)
qed

lemma over_note: "R s (note_text r s)"
  by (simp add: note_text_def Let_def L_text L_refl)

lemma L_push: "R s (push_message m s)"
  by (simp add: push_message_def L_messages)

lemma over_answer: "R s (take_answer inp r s)"
proof -
  have "\<forall>e \<in> set (fallback_entries inp r @ [Appended (assistant_entry r)]). \<not> ends_turn e"
  proof -
    have "\<not> ends_turn (Appended (assistant_entry r))" by (simp add: assistant_entry_def ends_turn_def)
    moreover have "\<not> ends_turn (Appended (ModelFallbackEv fb))" for fb by (simp add: ends_turn_def)
    ultimately show ?thesis by (cases "li_switches inp = []"; cases "mr_fallback r") (simp_all add: fallback_entries_def)
  qed
  then have logs: "R u (emit_effects (fallback_entries inp r @ [Appended (assistant_entry r)]) u)" for u by (rule L_write)
  show ?thesis unfolding take_answer_def by (rule L_trans [OF L_usage L_trans [OF logs L_push]])
qed

lemma over_checkpoint: "R s (checkpoint_nudge cfg' s)"
  by (simp add: checkpoint_nudge_def L_inject L_refl split: option.split)

lemma over_compact:
  assumes "compact_now cfg' s = Some t"
  shows "R s t"
proof -
  have behind: "R u (after_compaction cfg' summary u)" for summary u
    by (simp add: after_compaction_def L_inject L_refl split: option.split)
  have logs: "R u (emit_effects [Appended (CompactEv c)] u)" for c u by (rule L_write) (simp add: ends_turn_def)
  have "R s (after_compaction cfg' summary (emit_effects [Appended (CompactEv c)] (s\<lparr>lp_messages := ms\<rparr>)))" for summary c ms
    by (rule L_trans [OF L_messages L_trans [OF logs behind]])
  then show ?thesis
    using assms L_messages L_refl by (auto simp: compact_now_def Let_def split: option.splits if_splits)
qed

lemma over_tools: "tool_round cfg' host speaker inp r s = (None, t) \<Longrightarrow> R s t"
proof -
  have "R s (emit_effects (snd (run_answer host speaker (li_uuid inp) (mr_blocks r))) s)"
    by (rule L_write) (simp add: run_answer_def Let_def run_steps_no_end)
  then show "tool_round cfg' host speaker inp r s = (None, t) \<Longrightarrow> R s t"
    by (auto simp: tool_round_def Let_def end_by_def split: option.splits call_outcome.splits intro: L_trans over_after_tools)
qed

lemma over_after_answer: "after_answer cfg host speaker inp r s = (None, t) \<Longrightarrow> R s t"
  by (auto simp: after_answer_def split: if_splits intro: L_trans [OF over_note over_finish] L_trans [OF over_note over_tools])

text \<open>A run that ends has written its result last, or none when it threw.\<close>

definition run_ended :: "run_end \<Rightarrow> loop_state \<Rightarrow> loop_state \<Rightarrow> bool" where
  "run_ended e s t \<longleftrightarrow>
     (\<exists>u. R s u \<and> (case e of Threw x \<Rightarrow> t = u | EndedWith k \<Rightarrow> \<exists>parked refused. t = finish_run k parked refused u))"

lemma run_ended_after: "R s u \<Longrightarrow> run_ended e u t \<Longrightarrow> run_ended e s t"
  unfolding run_ended_def using L_trans by blast

lemma ended_finish: "run_ended (EndedWith k) s (finish_run k parked refused s)"
  unfolding run_ended_def using L_refl by auto

lemma over_success: "finish_point cfg host speaker inp r s = (Some e, t) \<Longrightarrow> run_ended e s t"
proof -
  have "R s (emit_effects (map (\<lambda>c. postHandoffReply c (lp_lastText s)) (lp_owed s)) s)"
    by (rule L_write) (auto simp: postHandoffReply_def ends_turn_def)
  then have "R s (reply_owed s)" unfolding reply_owed_def using L_owed L_trans by blast
  moreover have "R u (emit_effects [StatusSet x] u)" for u x by (rule L_write) (simp add: ends_turn_def)
  ultimately have "run_ended (EndedWith Success) s (succeed s)"
    unfolding succeed_def using L_trans run_ended_after ended_finish by blast
  then show "finish_point cfg host speaker inp r s = (Some e, t) \<Longrightarrow> run_ended e s t"
    by (auto simp: finish_point_def split: option.splits)
qed

lemma over_end_by: "end_by stopped s = (Some e, t) \<Longrightarrow> run_ended e s t"
  using ended_finish L_refl by (auto simp: end_by_def run_ended_def split: call_outcome.splits)

lemma over_tools_end: "tool_round cfg' host speaker inp r s = (Some e, t) \<Longrightarrow> run_ended e s t"
proof -
  have "R s (emit_effects (snd (run_answer host speaker (li_uuid inp) (mr_blocks r))) s)"
    by (rule L_write) (simp add: run_answer_def Let_def run_steps_no_end)
  then show "tool_round cfg' host speaker inp r s = (Some e, t) \<Longrightarrow> run_ended e s t"
    by (auto simp: tool_round_def Let_def split: option.splits intro: run_ended_after over_end_by)
qed

lemma over_after_answer_end: "after_answer cfg host speaker inp r s = (Some e, t) \<Longrightarrow> run_ended e s t"
  by (auto simp: after_answer_def split: if_splits intro: run_ended_after [OF over_note] over_success over_tools_end)

lemma over_switches: "R s (emit_effects (map (\<lambda>fb. Appended (ModelFallbackEv fb)) fbs) s)"
  by (rule L_write) (auto simp: ends_turn_def)

lemma over_call: "call_model cfg host speaker inp s = (None, t) \<Longrightarrow> R s t"
proof -
  assume "call_model cfg host speaker inp s = (None, t)"
  then obtain r where "after_answer cfg host speaker inp r (take_answer inp r (emit_effects (map (\<lambda>fb. Appended (ModelFallbackEv fb)) (li_switches inp)) s)) = (None, t)"
    by (auto simp: call_model_def Let_def split: model_outcome.splits)
  then show ?thesis by (rule L_trans [OF over_switches L_trans [OF over_answer over_after_answer]])
qed

lemma over_call_end: "call_model cfg host speaker inp s = (Some e, t) \<Longrightarrow> run_ended e s t"
  using over_switches L_refl
  by (auto simp: call_model_def Let_def run_ended_def [of "Threw x" for x] split: model_outcome.splits
    intro: run_ended_after [OF over_switches ended_finish] run_ended_after [OF over_switches run_ended_after [OF over_answer over_after_answer_end]])

end

locale loop_invariant_relation = loop_relation +
  assumes L_turn: "R s (s\<lparr>lp_turns := n\<rparr>)"
begin

lemma over_next_turn: "R s (next_turn cfg s)"
  unfolding next_turn_def by (rule L_trans [OF L_turn over_checkpoint])

lemma over_round: "loop_round cfg host speaker inp s = (None, t) \<Longrightarrow> R s t"
  by (auto simp: loop_round_def split: if_splits option.splits intro: L_trans [OF over_compact L_trans [OF over_next_turn over_call]])

lemma over_round_end: "loop_round cfg host speaker inp s = (Some e, t) \<Longrightarrow> run_ended e s t"
  using L_refl
  by (auto simp: loop_round_def run_ended_def [of "Threw x" for x] split: if_splits option.splits
    intro: ended_finish run_ended_after [OF over_compact run_ended_after [OF over_next_turn over_call_end]])

lemma over_rounds:
  "run_rounds cfg host speaker inputs fuel i s = (x, t) \<Longrightarrow> (case x of None \<Rightarrow> R s t | Some e \<Rightarrow> run_ended e s t)"
proof (induction fuel arbitrary: i s)
  case 0
  then show ?case by (simp add: L_refl)
next
  case (Suc fuel)
  obtain e u where r: "loop_round cfg host speaker (inputs i) s = (e, u)" by force
  show ?case
  proof (cases e)
    case None
    with r have "R s u" by (simp add: over_round)
    moreover have "case x of None \<Rightarrow> R u t | Some e \<Rightarrow> run_ended e u t" using Suc r None by simp
    ultimately show ?thesis using L_trans run_ended_after by (auto split: option.splits)
  next
    case (Some e')
    with r Suc.prems show ?thesis by (auto intro: over_round_end)
  qed
qed

end

section \<open>Rounds are bounded\<close>

interpretation turns_kept: loop_relation cfg "\<lambda>s t. lp_turns t = lp_turns s" for cfg
  by unfold_locales (simp_all add: loop_defs)

lemma loop_round_turns:
  assumes "loop_round cfg host speaker inp s = (None, t)"
  shows "lp_turns s < lc_maxTurns cfg \<and> lp_turns t = Suc (lp_turns s)"
proof -
  from assms obtain s1 where s1: "lp_turns s < lc_maxTurns cfg" "compact_now cfg s = Some s1"
    "call_model cfg host speaker inp (next_turn cfg s1) = (None, t)"
    by (auto simp: loop_round_def split: if_splits option.splits)
  then have "lp_turns t = lp_turns (next_turn cfg s1)" using turns_kept.over_call by blast
  also have "\<dots> = Suc (lp_turns s1)" by (simp add: next_turn_def turns_kept.over_checkpoint)
  finally show ?thesis using s1 turns_kept.over_compact by simp
qed

lemma run_rounds_end:
  "enough_rounds cfg s \<le> fuel \<Longrightarrow> fst (run_rounds cfg host speaker inputs fuel i s) \<noteq> None"
proof (induction fuel arbitrary: i s)
  case 0
  then show ?case by (simp add: enough_rounds_def)
next
  case (Suc fuel)
  obtain e t where r: "loop_round cfg host speaker (inputs i) s = (e, t)" by force
  show ?case
  proof (cases e)
    case None
    with r have t: "lp_turns s < lc_maxTurns cfg" "lp_turns t = Suc (lp_turns s)" using loop_round_turns by blast+
    then have "fst (run_rounds cfg host speaker inputs fuel (Suc i) t) \<noteq> None" using Suc by (auto simp: enough_rounds_def)
    then show ?thesis using r None by simp
  next
    case (Some x)
    with r show ?thesis by simp
  qed
qed

lemma run_rounds_more:
  "fst (run_rounds cfg host speaker inputs fuel i s) \<noteq> None \<Longrightarrow>
   run_rounds cfg host speaker inputs (fuel + k) i s = run_rounds cfg host speaker inputs fuel i s"
  by (induction fuel arbitrary: i s) (auto split: prod.split option.split)

text \<open>C5 loop_terminates. A turn ends, whatever the model answers, the hooks block and others send: the rounds that its turn limit allows
  are enough, and more would change nothing.\<close>

theorem loop_terminates:
  "\<exists>e. fst (turn_loop cfg host speaker sessionId inputs late s) = Some e \<and>
    (\<forall>k. run_rounds cfg host speaker inputs (enough_rounds cfg s + k) 0 s = run_rounds cfg host speaker inputs (enough_rounds cfg s) 0 s)"
  using run_rounds_end [of cfg s "enough_rounds cfg s" host speaker inputs 0] run_rounds_more [of cfg host speaker inputs "enough_rounds cfg s" 0 s]
  by (simp add: turn_loop_def Let_def)

definition loop_bounds :: "loop_config \<Rightarrow> nat \<Rightarrow> loop_state \<Rightarrow> bool" where
  "loop_bounds cfg r0 s \<longleftrightarrow>
     lp_recoveries s \<le> MAX_RECOVERIES \<and> lp_stopContinuations s \<le> max_stop cfg \<and> r0 \<le> lp_rung s \<and>
     (lp_rung s - r0) * patience cfg + lp_rungBlocks s \<le> lp_stopContinuations s \<and>
     (lc_ladder cfg = [] \<or> lp_rung s < length (lc_ladder cfg)) \<and>
     lp_active s = (if lc_ladder cfg = [] then lc_model cfg else lc_ladder cfg ! lp_rung s)"

definition loop_fields :: "loop_state \<Rightarrow> nat \<times> nat \<times> nat \<times> nat \<times> string" where
  "loop_fields s = (lp_recoveries s, lp_stopContinuations s, lp_rung s, lp_rungBlocks s, lp_active s)"

lemma loop_bounds_fields: "loop_fields t = loop_fields s \<Longrightarrow> loop_bounds cfg r0 s \<Longrightarrow> loop_bounds cfg r0 t"
  by (simp add: loop_bounds_def loop_fields_def)

lemma loop_bounds_climb:
  assumes "loop_bounds cfg r0 s" "patience cfg \<le> lp_rungBlocks s" "Suc (lp_rung s) < length (lc_ladder cfg)"
  shows "loop_bounds cfg r0 (s\<lparr>lp_rung := Suc (lp_rung s), lp_rungBlocks := 0, lp_active := lc_ladder cfg ! Suc (lp_rung s)\<rparr>)"
proof -
  have "(Suc (lp_rung s) - r0) * patience cfg = (lp_rung s - r0) * patience cfg + patience cfg"
    using assms(1) by (simp add: loop_bounds_def Suc_diff_le)
  then show ?thesis using assms by (auto simp: loop_bounds_def)
qed

interpretation bounded: loop_invariant_relation cfg "\<lambda>s t. loop_bounds cfg r0 s \<longrightarrow> loop_bounds cfg r0 t" for cfg r0
  by unfold_locales (auto intro: loop_bounds_climb simp: loop_bounds_def emit_effects_def Suc_diff_le)

text \<open>C17 loop_stays_in_bounds. However a turn goes: at most three answers cut off by the output limit are continued, the Stop hooks
  block at most as often as allowed, the model is the rung's and never climbs past the ladder, and each climb has cost the rung its
  patience in blocked finishes.\<close>

theorem loop_stays_in_bounds:
  assumes "lc_ladder cfg = [] \<or> rung < length (lc_ladder cfg)" "lc_ladder cfg = [] \<longrightarrow> rung = 0"
    and "run_rounds cfg host speaker inputs fuel 0 (start_state cfg rung messages) = (x, t)"
  shows "lp_recoveries t \<le> 3 \<and> lp_stopContinuations t \<le> max_stop cfg \<and>
    (lp_rung t - rung) * patience cfg + lp_rungBlocks t \<le> lp_stopContinuations t \<and>
    (if lc_ladder cfg = [] then lp_active t = lc_model cfg
     else lp_rung t < length (lc_ladder cfg) \<and> lp_active t = lc_ladder cfg ! lp_rung t)"
proof -
  have "loop_bounds cfg rung (start_state cfg rung messages)"
    using assms(1,2) by (simp add: loop_bounds_def start_state_def)
  moreover have "loop_bounds cfg rung (finish_run k p f u) = loop_bounds cfg rung u" for k p f u
    by (simp add: loop_bounds_def finish_run_def emit_effects_def)
  ultimately have "loop_bounds cfg rung t"
  proof (cases x)
    case (Some e)
    then show ?thesis
      using bounded.over_rounds [where cfg = cfg and ?r0.0 = rung, OF assms(3)] \<open>loop_bounds cfg rung (start_state cfg rung messages)\<close>
        \<open>\<And>k p f u. loop_bounds cfg rung (finish_run k p f u) = loop_bounds cfg rung u\<close>
      by (cases e) (auto simp: bounded.run_ended_def)
  next
    case None
    with bounded.over_rounds [where cfg = cfg and ?r0.0 = rung, OF assms(3)] \<open>loop_bounds cfg rung (start_state cfg rung messages)\<close>
    show ?thesis by simp
  qed
  then show ?thesis by (auto simp: loop_bounds_def MAX_RECOVERIES_def)
qed

section \<open>One result\<close>

definition unended :: "loop_state \<Rightarrow> loop_state \<Rightarrow> bool" where
  "unended s t \<longleftrightarrow> (\<exists>es. lp_out t = lp_out s @ es \<and> (\<forall>e \<in> set es. \<not> ends_turn e))"

lemma unended_same: "lp_out t = lp_out s \<Longrightarrow> unended s t"
  by (simp add: unended_def)

interpretation results: loop_invariant_relation cfg unended for cfg
proof
  show "unended s t \<Longrightarrow> unended t u \<Longrightarrow> unended s u" for s t u by (fastforce simp: unended_def)
qed (auto intro: unended_same simp: unended_def emit_effects_def)

text \<open>The entries the bus appends behind the result.\<close>

definition late_entries :: "loop_config \<Rightarrow> run_exit \<Rightarrow> sdk_message list" where
  "late_entries cfg late = (if lc_events cfg then concat (map idle_entries (ex_side late)) else [])"

lemma idle_entries_subagent:
  assumes "p \<in> set (idle_entries e)"
  shows "\<exists>s. p = SubagentEv s \<and> sa_kind s \<noteq> SubProgress"
proof (cases e)
  case (Lifecycle s)
  then have "idle_entries e = (if sa_kind s \<noteq> SubProgress then [SubagentEv s] else [])"
    by (simp add: idle_entries_def side_as_event_def isPersisted_def)
  with assms show ?thesis by (cases "sa_kind s = SubProgress") simp_all
next
  case (ChildEvent c x)
  with assms show ?thesis by (simp add: idle_entries_def side_as_event_def isPersisted_def)
qed

lemma appends_map_Appended: "appends (map Appended ps) = ps"
  by (induction ps) simp_all

lemma appends_idle: "appends (concat (map idle_emit es)) = concat (map idle_entries es)"
  by (induction es) (simp_all add: idle_emit_def appends_map_Appended)

lemma idle_no_end: "x \<in> set (concat (map idle_emit es)) \<Longrightarrow> \<not> ends_turn x"
  using idle_entries_subagent by (fastforce simp: idle_emit_def ends_turn_def)

text \<open>C16 turn_has_one_result. A turn that ends has written exactly one result entry, and it says how the run ended. Behind it come only what the
  cleanup does, and of entries only the starts and ends of sub-agents still queued as side events, in their order; a turn that an
  error left has written no result, so that another engine finds it in flight.\<close>

theorem turn_has_one_result:
  assumes "turn_loop cfg host speaker sessionId inputs late (start_state cfg rung messages) = (Some e, t)"
  shows "case e of
      EndedWith k \<Rightarrow> \<exists>es rest r. lp_out t = es @ Appended (ResultEv r) # rest \<and> re_subtype r = k \<and>
        (\<forall>x \<in> set (es @ rest). \<not> ends_turn x) \<and> appends rest = late_entries cfg late
    | Threw x \<Rightarrow> \<forall>x \<in> set (lp_out t). \<not> ends_turn x"
proof -
  let ?s = "start_state cfg rung messages"
  obtain u where u: "run_rounds cfg host speaker inputs (enough_rounds cfg ?s) 0 ?s = (Some e, u)" "t = run_cleanup cfg sessionId late u"
    using assms by (auto simp: turn_loop_def Let_def prod_eq_iff)
  have "results.run_ended e ?s u" using results.over_rounds [OF u(1)] by simp
  then obtain v where v: "unended ?s v" "case e of Threw x \<Rightarrow> u = v | EndedWith k \<Rightarrow> \<exists>parked refused. u = finish_run k parked refused v"
    unfolding results.run_ended_def by blast
  have out: "\<forall>x \<in> set (lp_out v). \<not> ends_turn x" using v(1) by (auto simp: unended_def start_state_def ends_turn_def)
  define before_it where "before_it = map (\<lambda>c. postHandoffReply c (lp_lastText u)) (lp_owed u) @ [StatusSet ''idle'']"
  define side where "side = (if lc_events cfg then concat (map idle_emit (ex_side late)) else [])"
  define mail where "mail = (case lc_parent cfg of Some p \<Rightarrow> if lc_peers cfg then map (forward_late sessionId p) (ex_mail late) else [] | None \<Rightarrow> [])"
  let ?rest = "before_it @ side @ mail"
  have t: "lp_out t = lp_out u @ ?rest" by (simp add: u(2) run_cleanup_def reply_owed_def emit_effects_def before_it_def side_def mail_def)
  have quiet_ends: "\<forall>x \<in> set before_it. \<not> ends_turn x" "unappending before_it" "\<forall>x \<in> set mail. \<not> ends_turn x" "unappending mail"
    by (auto simp: before_it_def mail_def ends_turn_def postHandoffReply_def forward_late_def unappending_def split: option.splits if_splits)
  moreover have "\<forall>x \<in> set side. \<not> ends_turn x" using idle_no_end by (auto simp: side_def)
  moreover have "appends side = late_entries cfg late" by (simp add: side_def late_entries_def appends_idle)
  ultimately have r: "\<forall>x \<in> set ?rest. \<not> ends_turn x" "appends ?rest = late_entries cfg late"
    by (auto simp: unappending_appends)
  show ?thesis
  proof (cases e)
    case (EndedWith k)
    then obtain parked refused where "u = finish_run k parked refused v" using v(2) by auto
    then have "lp_out t = lp_out v @ Appended (run_end_event k parked refused v) # ?rest" by (simp add: t finish_run_def emit_effects_def)
    then show ?thesis
      using EndedWith out r unfolding run_end_event_def by (simp only: run_end.case, intro exI [of _ "lp_out v"] exI [of _ ?rest] exI conjI) auto
  next
    case (Threw x)
    then show ?thesis using v(2) t out r by auto
  qed
qed

section \<open>A small run\<close>

definition small_cfg :: loop_config where
  "small_cfg = \<lparr>lc_model = ''m'', lc_system = [], lc_maxTurns = 3, lc_ladder = [''cheap'', ''strong''], lc_patienceOpt = Some 1, lc_maxStopOpt = None,
     lc_selfCheck = True, lc_minEdits = 3, lc_antiChurn = True, lc_verifyHint = None, lc_peers = True,
     lc_policy = \<lparr>po_verifyCommand = None, po_envBroken = None, po_churnThreshold = 5, po_antiChurnNudge = (\<lambda>p n. ''stop''),
       po_selfCheckNudge = (\<lambda>n h. ''check'')\<rparr>,
     lc_checkpoint = None, lc_compaction = None, lc_summarize = (\<lambda>ms. None), lc_afterCompact = None, lc_condense = None,
     lc_strip = (\<lambda>t. t), lc_parent = None, lc_events = True\<rparr>"

definition says :: "content_block list \<Rightarrow> string list \<Rightarrow> loop_input" where
  "says bs steers =
     \<lparr>li_aborted = False, li_switches = [],
      li_outcome = Answered \<lparr>mr_blocks = bs, mr_usage = emptyUsage, mr_computeUnits = None, mr_stopReason = Some EndTurn, mr_model = ''m'',
        mr_effort = None, mr_fallback = None\<rparr>,
      li_uuid = ''a1'', li_peers = [], li_steers = steers, li_notes = [], li_events = [], li_stop = []\<rparr>"

definition two_rounds :: "nat \<Rightarrow> loop_input" where
  "two_rounds i = (if i = 0 then says (assistant_blocks answers) [] else says [TextBlock ''shipped''] [])"

definition child_ended :: subagent_event where
  "child_ended = \<lparr>sa_kind = SubEnd, sa_toolUseId = ''t9'', sa_childSessionId = ''c1'', sa_description = ''look'', sa_model = None, sa_background = True,
     sa_status = None, sa_outcome = Some SubSuccess\<rparr>"

text \<open>A background child reports progress and ends while the run finishes.\<close>

definition small_left :: run_exit where
  "small_left = \<lparr>ex_side = [Lifecycle (child_ended\<lparr>sa_kind := SubProgress\<rparr>), Lifecycle child_ended], ex_mail = []\<rparr>"

definition small_run :: "run_end option \<times> loop_state" where
  "small_run = turn_loop small_cfg open_host HUMAN ''s1'' two_rounds small_left (start_state small_cfg 0 [])"

lemma small_run_ends: "fst small_run = Some (EndedWith Success) \<and> lp_turns (snd small_run) = 2"
  by code_simp

theorem turn_has_one_result_witness:
  "\<exists>es rest r. lp_out (snd small_run) = es @ Appended (ResultEv r) # rest \<and> re_subtype r = Success \<and> appends rest = [SubagentEv child_ended]"
proof -
  have late: "late_entries small_cfg small_left = [SubagentEv child_ended]" by code_simp
  have "turn_loop small_cfg open_host HUMAN ''s1'' two_rounds small_left (start_state small_cfg 0 []) = (Some (EndedWith Success), snd small_run)"
    using small_run_ends by (metis prod.collapse small_run_def)
  from turn_has_one_result [OF this, unfolded late] show ?thesis by (simp only: run_end.case) blast
qed

theorem loop_stays_in_bounds_witness:
  "lp_active (snd (run_rounds small_cfg open_host HUMAN two_rounds 1 0 (start_state small_cfg 1 []))) = ''strong''"
proof -
  let ?r = "run_rounds small_cfg open_host HUMAN two_rounds 1 0 (start_state small_cfg 1 [])"
  have b: "lc_ladder small_cfg = [''cheap'', ''strong'']" by (simp add: small_cfg_def)
  have "?r = (fst ?r, snd ?r)" by simp
  from loop_stays_in_bounds [OF _ _ this] b have "lp_rung (snd ?r) < 2" "lp_active (snd ?r) = [''cheap'', ''strong''] ! lp_rung (snd ?r)" by simp_all
  moreover have "lp_rung (snd ?r) = 1" by code_simp
  ultimately show ?thesis by simp
qed

section \<open>The messages of a live turn\<close>

lemma next_array_append: "ms \<noteq> [] \<Longrightarrow> next_array (ms @ ns) = next_array ms"
  by (cases ms) (simp_all add: next_array_def)

lemma all_answered_append: "all_answered ms \<Longrightarrow> all_answered ns \<Longrightarrow> all_answered (ms @ ns)"
proof (induction ms)
  case Nil
  then show ?case by simp
next
  case (Cons m ms)
  show ?case
  proof (cases "ms = []")
    case True
    with Cons.prems have "msg_uses m = []" by (auto simp: next_array_def)
    with True Cons.prems show ?thesis by simp
  next
    case False
    with Cons show ?thesis by (simp add: next_array_append)
  qed
qed

lemma all_answered_push_user: "all_answered ms \<Longrightarrow> all_answered (ms @ [user_msg c])"
  by (rule all_answered_append) simp_all

definition answered_messages :: "loop_state \<Rightarrow> bool" where
  "answered_messages s \<longleftrightarrow> all_answered (lp_messages s)"

lemma answered_inject: "answered_messages s \<Longrightarrow> answered_messages (inject a tx s)"
  by (simp add: answered_messages_def inject_def push_message_def emit_effects_def all_answered_push_user)

interpretation answered: round_relation cfg "\<lambda>s t. answered_messages s \<longrightarrow> answered_messages t" for cfg
  by unfold_locales (auto simp: answered_messages_def owe_def inject_def push_message_def emit_effects_def all_answered_push_user split: option.splits)

text \<open>The results of a round of tools, in the order of its calls.\<close>

lemma exec_live_result: "fst (exec_live host dup speaker p) = CallResult r \<Longrightarrow> tr_toolUseId r = tu_id (pd_tu p)"
  using executeTool_result by (auto simp: exec_live_def duplicateRefusal_def failed_result_def split: if_splits)

lemma run_steps_results:
  "fst (fst (run_steps host dup speaker steps)) = None \<Longrightarrow>
   map tr_toolUseId (snd (fst (run_steps host dup speaker steps))) = map (\<lambda>p. tu_id (pd_tu p)) (concat steps)"
proof (induction steps)
  case Nil
  then show ?case by simp
next
  case (Cons step steps)
  from Cons.prems have none: "find (\<lambda>c. result_of c = None) (map fst (map (exec_live host dup speaker) step)) = None"
    and rest: "fst (fst (run_steps host dup speaker steps)) = None"
    by (auto simp: Let_def split: option.splits)
  have "map tr_toolUseId (List.map_filter result_of (map fst (map (exec_live host dup speaker) ps))) = map (\<lambda>p. tu_id (pd_tu p)) ps"
    if "\<forall>p \<in> set ps. result_of (fst (exec_live host dup speaker p)) \<noteq> None" for ps
    using that
  proof (induction ps)
    case Nil
    then show ?case by (simp add: map_filter_def)
  next
    case (Cons p ps)
    then obtain r where "fst (exec_live host dup speaker p) = CallResult r" by (auto simp: result_of_def split: call_outcome.splits)
    with Cons show ?case by (simp add: map_filter_simps exec_live_result result_of_def)
  qed
  moreover have "\<forall>p \<in> set step. result_of (fst (exec_live host dup speaker p)) \<noteq> None"
    using none by (auto simp: find_None_iff)
  ultimately show ?case using Cons.IH none rest by (simp add: Let_def)
qed

lemma map_filter_enumerate: "List.map_filter (\<lambda>ib. f (snd ib)) (List.enumerate n xs) = List.map_filter f xs"
  by (induction xs arbitrary: n) (simp_all add: map_filter_simps split: option.split)

lemma calls_of_uses: "map pd_tu (calls_of u bs) = tool_uses bs"
proof -
  have "map pd_tu (List.map_filter (pending_at u []) ibs) = List.map_filter (\<lambda>ib. as_tool_use (snd ib)) ibs" for ibs
    by (induction ibs) (auto simp: map_filter_simps pending_at_def split: option.splits)
  then show ?thesis by (simp add: calls_of_def tool_uses_def map_filter_enumerate)
qed

lemma run_answer_results:
  "fst (fst (run_answer host speaker u bs)) = None \<Longrightarrow>
   map tr_toolUseId (snd (fst (run_answer host speaker u bs))) = map tu_id (tool_uses bs)"
proof -
  let ?calls = "calls_of u bs"
  let ?ran = "run_steps host (duplicateIds (map pd_tu ?calls) \<noteq> []) speaker (tool_steps host (duplicateIds (map pd_tu ?calls) \<noteq> []) ?calls)"
  assume "fst (fst (run_answer host speaker u bs)) = None"
  then have "map tr_toolUseId (snd (fst ?ran)) = map (\<lambda>p. tu_id (pd_tu p)) ?calls"
    using run_steps_results [of host _ speaker "tool_steps host (duplicateIds (map pd_tu ?calls) \<noteq> []) ?calls"]
    by (simp add: run_answer_def Let_def concat_tool_steps)
  moreover have "map (\<lambda>p. tu_id (pd_tu p)) ?calls = map tu_id (map pd_tu ?calls)" by simp
  ultimately show ?thesis by (simp add: run_answer_def Let_def calls_of_uses)
qed

definition arrivals :: "loop_config \<Rightarrow> author \<Rightarrow> loop_input \<Rightarrow> (author \<times> string) list" where
  "arrivals cfg speaker inp =
     map (Pair speaker) (steers_of inp) @
     (if lc_peers cfg then map (\<lambda>pm. (pm_from pm, frameHandoff pm)) (li_peers inp) else []) @
     (if li_events inp = [] then [] else [(SYSTEM, renderEvents (li_events inp))])"

definition arrival_entries :: "(author \<times> string) list \<Rightarrow> agent_effect list" where
  "arrival_entries ats = map (\<lambda>x. Appended (user_entry (fst x) (snd x))) ats"

definition arrival_blocks :: "(author \<times> string) list \<Rightarrow> content_block list" where
  "arrival_blocks ats = map (\<lambda>x. TextBlock (snd x)) ats"

definition arrived :: "(author \<times> string) list \<Rightarrow> content_block list \<times> loop_state \<Rightarrow> content_block list \<times> loop_state \<Rightarrow> bool" where
  "arrived ats bs cs \<longleftrightarrow>
     fst cs = fst bs @ arrival_blocks ats \<and> lp_out (snd cs) = lp_out (snd bs) @ arrival_entries ats \<and> lp_messages (snd cs) = lp_messages (snd bs)"

lemma arrived_Nil: "arrived [] bs bs"
  by (simp add: arrived_def arrival_blocks_def arrival_entries_def)

lemma arrived_append: "arrived xs bs cs \<Longrightarrow> arrived ys cs ds \<Longrightarrow> arrived (xs @ ys) bs ds"
  by (simp add: arrived_def arrival_blocks_def arrival_entries_def)

lemma arrived_fold_in: "arrived [(a, tx)] bs (fold_in a tx bs)"
  by (simp add: arrived_def arrival_blocks_def arrival_entries_def fold_in_def emit_effects_def)

lemma arrived_fold_peer: "arrived [(pm_from pm, frameHandoff pm)] bs (fold_peer pm bs)"
  by (simp add: arrived_def arrival_blocks_def arrival_entries_def fold_peer_def fold_in_def emit_effects_def owe_def split: option.split)

lemma arrived_fold: "(\<And>x bs. arrived [g x] bs (f x bs)) \<Longrightarrow> arrived (map g xs) bs (fold f xs bs)"
proof (induction xs arbitrary: bs)
  case Nil
  show ?case by (simp add: arrived_Nil)
next
  case (Cons x xs)
  then have "arrived [g x] bs (f x bs)" "arrived (map g xs) (f x bs) (fold f xs (f x bs))" by blast+
  then show ?case using arrived_append by fastforce
qed

lemma arrived_arrivals: "arrived (arrivals cfg speaker inp) bs (fold_arrivals cfg speaker inp bs)"
proof -
  have steered: "arrived (map (Pair speaker) xs) bs (fold (fold_in speaker) xs bs)" for xs bs
    by (rule arrived_fold) (rule arrived_fold_in)
  have mailed: "arrived (map (\<lambda>pm. (pm_from pm, frameHandoff pm)) ps) bs (fold fold_peer ps bs)" for ps bs
    by (rule arrived_fold) (rule arrived_fold_peer)
  note both = arrived_append [OF steered mailed]
  show ?thesis
    using steered both arrived_append [OF steered arrived_fold_in] arrived_append [OF both arrived_fold_in]
    by (simp add: arrivals_def fold_arrivals_def Let_def)
qed

definition result_blocks :: "loop_config \<Rightarrow> agent_host \<Rightarrow> tool_result_event list \<Rightarrow> content_block list" where
  "result_blocks cfg host results = map (\<lambda>r. condense_block cfg (result_block (appendToolResult host r))) results"

lemma count_signals_keeps:
  "lp_messages (count_signals cfg host uses results s) = lp_messages s" "lp_out (count_signals cfg host uses results s) = lp_out s"
proof -
  have "lp_messages (fold (count_call po host results) uses s) = lp_messages s \<and> lp_out (fold (count_call po host results) uses s) = lp_out s" for po
    by (induction uses arbitrary: s) (simp_all add: count_call_def Let_def split: option.split)
  then show "lp_messages (count_signals cfg host uses results s) = lp_messages s" "lp_out (count_signals cfg host uses results s) = lp_out s"
    by (simp_all add: count_signals_def)
qed

lemma churn_keeps:
  "lp_messages (snd (churn_breaker cfg host s)) = lp_messages s" "lp_out (snd (churn_breaker cfg host s)) = lp_out s"
  by (simp_all add: churn_breaker_def split: option.split prod.split)

text \<open>The user turn a round of tools leaves, and what it logs.\<close>

lemma after_tools_turn:
  obtains churn where "churn = [] \<or> anti_churn_on cfg host \<and> (\<exists>tx. churn = [TextBlock tx])"
    "lp_messages (after_tools cfg host speaker inp uses results s) =
       lp_messages s @ [user_msg (Blocks (result_blocks cfg host results @ churn @ arrival_blocks (arrivals cfg speaker inp)))]"
    "lp_out (after_tools cfg host speaker inp uses results s) = lp_out s @ arrival_entries (arrivals cfg speaker inp)"
proof -
  let ?c = "churn_breaker cfg host (count_signals cfg host uses results s)"
  define churn where "churn = (case fst ?c of None \<Rightarrow> [] | Some t \<Rightarrow> [TextBlock t])"
  let ?f = "fold_arrivals cfg speaker inp (result_blocks cfg host results @ churn, snd ?c)"
  have "after_tools cfg host speaker inp uses results s = push_message (user_msg (Blocks (fst ?f))) (snd ?f)"
    by (simp add: after_tools_def Let_def result_blocks_def churn_def split: prod.split)
  moreover have "arrived (arrivals cfg speaker inp) (result_blocks cfg host results @ churn, snd ?c) ?f" by (rule arrived_arrivals)
  moreover have "churn = [] \<or> anti_churn_on cfg host \<and> (\<exists>tx. churn = [TextBlock tx])"
    by (auto simp: churn_def churn_breaker_def split: option.splits if_splits)
  ultimately show ?thesis
    using that [of churn] by (simp add: arrived_def push_message_def count_signals_keeps churn_keeps)
qed

lemma result_block_ids: "tool_result_ids (result_blocks cfg host results) = map tr_toolUseId results"
proof -
  have "tool_result_ids [condense_block cfg (result_block (appendToolResult host r))] = [tr_toolUseId r]" for r
    by (simp add: condense_block_def result_block_def appendToolResult_id split: option.split prod.split)
  then show ?thesis by (induction results) (simp_all add: result_blocks_def)
qed

lemma text_block_ids [simp]: "tool_result_ids (arrival_blocks ats) = []"
  by (induction ats) (simp_all add: arrival_blocks_def)

lemma tool_uses_ids: "tool_use_ids bs = map tu_id (tool_uses bs)"
  by (induction bs) (auto simp: tool_uses_def map_filter_simps as_tool_use_def split: content_block.split)

lemma run_steps_stop: "fst (fst (run_steps host dup speaker steps)) \<noteq> Some (CallResult r)"
  by (induction steps) (auto simp: Let_def find_Some_iff result_of_def split: option.split)

lemma answered_turn:
  assumes "set (tool_use_ids bs) \<subseteq> set (tool_result_ids cs)"
  shows "all_answered [assistant_msg (Blocks bs), user_msg (Blocks cs)]"
  using assms by (simp add: msg_uses_def)

lemma tool_round_goes_on:
  assumes "tool_round cfg host speaker inp r s = (None, t)"
  obtains "fst (fst (run_answer host speaker (li_uuid inp) (mr_blocks r))) = None"
    "t = after_tools cfg host speaker inp (tool_uses (mr_blocks r)) (snd (fst (run_answer host speaker (li_uuid inp) (mr_blocks r))))
       (emit_effects (snd (run_answer host speaker (li_uuid inp) (mr_blocks r))) s)"
  using assms by (auto simp: tool_round_def Let_def end_by_def run_answer_def run_steps_stop split: option.splits call_outcome.splits)

lemma answered_tool_round:
  assumes "answered_messages s" "tool_round cfg host speaker inp r (note_text r (take_answer inp r s)) = (None, t)"
  shows "answered_messages t"
proof -
  let ?s = "note_text r (take_answer inp r s)" and ?ran = "run_answer host speaker (li_uuid inp) (mr_blocks r)"
  obtain none: "fst (fst ?ran) = None" and
    t: "t = after_tools cfg host speaker inp (tool_uses (mr_blocks r)) (snd (fst ?ran)) (emit_effects (snd ?ran) ?s)"
    using assms(2) by (rule tool_round_goes_on)
  have ms: "lp_messages (emit_effects (snd ?ran) ?s) = lp_messages s @ [assistant_msg (Blocks (mr_blocks r))]"
    by (simp add: emit_effects_def note_text_def take_answer_def push_message_def Let_def)
  show ?thesis
  proof (rule after_tools_turn [of cfg host speaker inp "tool_uses (mr_blocks r)" "snd (fst ?ran)" "emit_effects (snd ?ran) ?s"])
    fix churn
    let ?cs = "result_blocks cfg host (snd (fst ?ran)) @ churn @ arrival_blocks (arrivals cfg speaker inp)"
    assume after: "lp_messages (after_tools cfg host speaker inp (tool_uses (mr_blocks r)) (snd (fst ?ran)) (emit_effects (snd ?ran) ?s)) =
        lp_messages (emit_effects (snd ?ran) ?s) @ [user_msg (Blocks ?cs)]"
    have "set (tool_use_ids (mr_blocks r)) \<subseteq> set (tool_result_ids ?cs)"
      using run_answer_results [OF none] by (simp add: result_block_ids tool_uses_ids)
    then have "all_answered (lp_messages s @ [assistant_msg (Blocks (mr_blocks r)), user_msg (Blocks ?cs)])"
      using assms(1) answered_turn unfolding answered_messages_def by (intro all_answered_append) blast+
    then show ?thesis using after ms t by (simp add: answered_messages_def)
  qed
qed

lemma run_rounds_keep:
  assumes "\<And>j u v. loop_round cfg host speaker (inputs j) u = (None, v) \<Longrightarrow> P u \<Longrightarrow> P v"
  shows "run_rounds cfg host speaker inputs fuel i s = (None, t) \<Longrightarrow> P s \<Longrightarrow> P t"
  by (induction fuel arbitrary: i s) (auto split: prod.splits option.splits intro: assms)

text \<open>A round that goes on has an answer, and it went on from the finish point or after its tools.\<close>

definition answered_state :: "loop_config \<Rightarrow> loop_input \<Rightarrow> model_result \<Rightarrow> loop_state \<Rightarrow> loop_state" where
  "answered_state cfg inp r s =
     note_text r (take_answer inp r (emit_effects (map (\<lambda>fb. Appended (ModelFallbackEv fb)) (li_switches inp)) (next_turn cfg s)))"

lemma loop_round_cases [consumes 1, case_names reason tools]:
  assumes "loop_round cfg host speaker inp s = (None, t)"
  obtains s1 r where "compact_now cfg s = Some s1" "tool_uses (mr_blocks r) = []"
      "finish_point cfg host speaker inp r (answered_state cfg inp r s1) = (None, t)"
  | s1 r where "compact_now cfg s = Some s1" "tool_uses (mr_blocks r) \<noteq> []"
      "tool_round cfg host speaker inp r (answered_state cfg inp r s1) = (None, t)"
  using assms by (auto simp: loop_round_def call_model_def after_answer_def answered_state_def Let_def
    split: if_splits option.splits model_outcome.splits)

lemma answered_compact:
  assumes "compact_now cfg s = Some t" "answered_messages s"
  shows "answered_messages t"
proof -
  have behind: "answered_messages u \<Longrightarrow> answered_messages (after_compaction cfg summary u)" for summary u
    by (simp add: after_compaction_def answered_inject split: option.split)
  have "answered_messages (s\<lparr>lp_messages := ms\<rparr>) = all_answered ms" "answered_messages (emit_effects es u) = answered_messages u" for ms es u
    by (simp_all add: answered_messages_def emit_effects_def)
  with assms behind show ?thesis
    by (auto simp: compact_now_def Let_def split: option.splits if_splits intro!: maybeCompact_answered)
      (simp_all add: answered_messages_def maybeCompact_answered)
qed

lemma answered_next: "answered_messages s \<Longrightarrow> answered_messages (next_turn cfg s)"
  by (auto simp: next_turn_def checkpoint_nudge_def answered_messages_def inject_def push_message_def emit_effects_def all_answered_push_user
    split: option.split)

lemma answered_go_on:
  assumes "loop_round cfg host speaker inp s = (None, t)" "answered_messages s"
  shows "answered_messages t"
  using assms(1)
proof (cases rule: loop_round_cases)
  case (reason s1 r)
  have "answered_messages (next_turn cfg s1)" using answered_next answered_compact reason(1) assms(2) by blast
  moreover have "all_answered [assistant_msg (Blocks (mr_blocks r))]"
    using reason(2) by (simp add: msg_uses_def tool_uses_ids)
  ultimately have "answered_messages (answered_state cfg inp r s1)"
    by (simp add: answered_state_def answered_messages_def note_text_def take_answer_def push_message_def emit_effects_def Let_def
      all_answered_append del: all_answered.simps)
  then show ?thesis using answered.over_finish [OF reason(3)] by simp
next
  case (tools s1 r)
  have "answered_messages (emit_effects es (next_turn cfg s1))" for es
    using answered_next [OF answered_compact [OF tools(1) assms(2)]] by (simp add: answered_messages_def emit_effects_def)
  then show ?thesis using tools(3) unfolding answered_state_def by (rule answered_tool_round)
qed

text \<open>C4 live_calls_answered. However a turn has gone so far, with whatever tools failed, were refused or compacted away, the messages of the
  next model call answer every tool call in the message right after it, as the model's API demands.\<close>

theorem live_calls_answered:
  assumes "all_answered messages"
    and "run_rounds cfg host speaker inputs fuel 0 (start_state cfg rung messages) = (None, s)"
    and "compact_now cfg s = Some t"
  shows "all_answered (lp_messages (next_turn cfg t))"
proof -
  have "answered_messages (start_state cfg rung messages)" using assms(1) by (simp add: answered_messages_def start_state_def)
  then have "answered_messages s" using run_rounds_keep [where P = answered_messages, OF answered_go_on assms(2)] by simp
  then show ?thesis using answered_next answered_compact assms(3) by (simp add: answered_messages_def)
qed

section \<open>The live messages and the transcript\<close>

definition loaded :: "message list \<Rightarrow> loop_state \<Rightarrow> message list \<times> content_block list" where
  "loaded m0 s = foldl load_step (m0, []) (appends (lp_out s))"

definition reload :: "message list \<Rightarrow> loop_state \<Rightarrow> message list" where
  "reload m0 s = fst (flush_pending (loaded m0 s))"

lemma loaded_emit [simp]: "loaded m0 (emit_effects es s) = foldl load_step (loaded m0 s) (appends es)"
  by (simp add: loaded_def emit_effects_def)

lemma load_fallbacks: "foldl load_step st (map ModelFallbackEv fbs) = st"
  by (induction fbs) (simp_all add: load_step_def)

lemma load_results: "foldl load_step (ms, pend) (map (\<lambda>r. ToolResultEv (f r)) rs) = (ms, pend @ map (\<lambda>r. result_block (f r)) rs)"
  by (induction rs arbitrary: pend) (simp_all add: load_step_def)

lemma appends_switches [simp]: "appends (map (\<lambda>fb. Appended (ModelFallbackEv fb)) fbs) = map ModelFallbackEv fbs"
  by (induction fbs) simp_all

lemma appends_fallbacks: "\<exists>fbs. appends (fallback_entries inp r) = map ModelFallbackEv fbs"
  by (cases "mr_fallback r") (auto simp: fallback_entries_def intro: exI [of _ "[]"] exI [of _ "[x]" for x])

text \<open>What is written after an answer is a message of its own in both.\<close>

definition in_step :: "message list \<Rightarrow> loop_state \<Rightarrow> bool" where
  "in_step m0 s \<longleftrightarrow> loaded m0 s = (lp_messages s, [])"

lemma in_step_answer:
  assumes "reload m0 s = lp_messages s"
  shows "in_step m0 (note_text r (take_answer inp r (emit_effects (map (\<lambda>fb. Appended (ModelFallbackEv fb)) fbs) s)))"
proof -
  obtain gs where gs: "appends (fallback_entries inp r) = map ModelFallbackEv gs" using appends_fallbacks by blast
  have "flush_pending (loaded m0 s) = (lp_messages s, [])" using assms by (simp add: reload_def prod_eq_iff)
  then have "load_step (loaded m0 s) (assistant_entry r) = (lp_messages s @ [assistant_msg (Blocks (mr_blocks r))], [])"
    by (simp add: load_step_def assistant_entry_def)
  then show ?thesis
    by (simp add: in_step_def loaded_def note_text_def take_answer_def push_message_def emit_effects_def Let_def gs load_fallbacks)
qed

interpretation stepping: round_relation cfg "\<lambda>s t. in_step m0 s \<longrightarrow> in_step m0 t" for cfg m0
proof
  show "in_step m0 s \<longrightarrow> in_step m0 (inject a tx s)" for s a tx
    by (simp add: in_step_def inject_def push_message_def emit_effects_def loaded_def user_entry_def load_step_def)
  show "in_step m0 s \<longrightarrow> in_step m0 (owe pm s)" for s pm
    by (simp add: owe_def in_step_def loaded_def split: option.split)
qed (simp_all add: in_step_def loaded_def)

lemma in_step_reload: "in_step m0 s \<Longrightarrow> reload m0 s = lp_messages s"
  by (simp add: in_step_def reload_def flush_pending_def)

lemma run_steps_log:
  "fst (fst (run_steps host dup speaker steps)) = None \<Longrightarrow>
   appends (snd (run_steps host dup speaker steps)) =
     map (\<lambda>r. ToolResultEv (appendToolResult host r)) (snd (fst (run_steps host dup speaker steps)))"
proof (induction steps)
  case Nil
  then show ?case by simp
next
  case (Cons step steps)
  have "unappending (snd (exec_live host dup speaker p))" for p
    using executeTool_unappending by (simp add: exec_live_def unappending_def)
  then have "unappending (concat (map snd (map (exec_live host dup speaker) step)))" by (auto simp: unappending_def)
  then have "appends (concat (map snd (map (exec_live host dup speaker) step))) = []" by (rule unappending_appends)
  with Cons show ?case by (auto simp: Let_def split: option.splits)
qed

lemma run_answer_log:
  "fst (fst (run_answer host speaker u bs)) = None \<Longrightarrow>
   appends (snd (run_answer host speaker u bs)) = map (\<lambda>r. ToolResultEv (appendToolResult host r)) (snd (fst (run_answer host speaker u bs)))"
  by (simp add: run_answer_def Let_def run_steps_log)

lemma appends_arrivals [simp]: "appends (arrival_entries ats) = map (\<lambda>x. user_entry (fst x) (snd x)) ats"
  by (induction ats) (simp_all add: arrival_entries_def)

lemma reload_tools:
  assumes "in_step m0 s" "tool_round cfg host speaker inp r s = (None, t)" "tool_uses (mr_blocks r) \<noteq> []"
    and "lc_condense cfg = None" "\<not> anti_churn_on cfg host" "length (arrivals cfg speaker inp) \<le> 1"
  shows "reload m0 t = lp_messages t"
proof -
  let ?ran = "run_answer host speaker (li_uuid inp) (mr_blocks r)"
  from assms(2) show ?thesis
  proof (rule tool_round_goes_on)
    assume none: "fst (fst ?ran) = None"
      and t: "t = after_tools cfg host speaker inp (tool_uses (mr_blocks r)) (snd (fst ?ran)) (emit_effects (snd ?ran) s)"
    let ?bs = "map (\<lambda>q. result_block (appendToolResult host q)) (snd (fst ?ran))"
    have bs: "result_blocks cfg host (snd (fst ?ran)) = ?bs" by (simp add: result_blocks_def condense_block_def assms(4))
    have ne: "?bs \<noteq> []" using run_answer_results [OF none] assms(3) by (metis map_is_Nil_conv)
    have ld: "loaded m0 (emit_effects (snd ?ran) s) = (lp_messages s, ?bs)"
      using assms(1) by (simp add: in_step_def run_answer_log [OF none] load_results)
    obtain churn where churn: "churn = [] \<or> anti_churn_on cfg host \<and> (\<exists>tx. churn = [TextBlock tx])"
      and msgs: "lp_messages t = lp_messages s @ [user_msg (Blocks (?bs @ churn @ arrival_blocks (arrivals cfg speaker inp)))]"
      and log: "lp_out t = lp_out (emit_effects (snd ?ran) s) @ arrival_entries (arrivals cfg speaker inp)"
      unfolding t by (rule after_tools_turn [of cfg host speaker inp "tool_uses (mr_blocks r)" "snd (fst ?ran)" "emit_effects (snd ?ran) s"])
        (simp add: bs emit_effects_def)
    have "loaded m0 t = foldl load_step (lp_messages s, ?bs) (map (\<lambda>x. user_entry (fst x) (snd x)) (arrivals cfg speaker inp))"
      using ld by (simp add: loaded_def log)
    moreover have "churn = []" using churn assms(5) by blast
    moreover have "arrivals cfg speaker inp = [] \<or> (\<exists>a tx. arrivals cfg speaker inp = [(a, tx)])"
      using assms(6) by (cases "arrivals cfg speaker inp") (auto simp: le_Suc_eq)
    ultimately show ?thesis
      using ne by (auto simp: reload_def msgs flush_pending_def load_step_def user_entry_def as_blocks_def arrival_blocks_def)
  qed
qed

text \<open>The log of a turn that compacts nothing is read back entry by entry.\<close>

definition turn_payload :: "sdk_message \<Rightarrow> bool" where
  "turn_payload p = (case p of RewindEv r \<Rightarrow> False | CompactEv c \<Rightarrow> False | _ \<Rightarrow> True)"

definition plain_log :: "loop_state \<Rightarrow> bool" where
  "plain_log s \<longleftrightarrow> (\<forall>p \<in> set (appends (lp_out s)). turn_payload p)"

interpretation plain: round_relation cfg "\<lambda>s t. plain_log s \<longrightarrow> plain_log t" for cfg
proof
  show "plain_log s \<longrightarrow> plain_log (inject a tx s)" for s a tx
    by (auto simp: plain_log_def inject_def push_message_def emit_effects_def user_entry_def turn_payload_def)
  show "plain_log s \<longrightarrow> plain_log (owe pm s)" for s pm
    by (simp add: owe_def plain_log_def split: option.split)
qed ((blast | simp add: plain_log_def; fail)+)

definition uncompacting :: "loop_config \<Rightarrow> bool" where
  "uncompacting cfg \<longleftrightarrow> lc_compaction cfg = None \<and> lc_checkpoint cfg = None"

lemma uncompacting_next:
  assumes "uncompacting cfg" "compact_now cfg s = Some s1"
  shows "next_turn cfg s1 = s\<lparr>lp_turns := Suc (lp_turns s)\<rparr>"
  using assms by (simp add: uncompacting_def compact_now_def next_turn_def checkpoint_nudge_def)

lemma plain_answered:
  assumes "plain_log s" "uncompacting cfg" "compact_now cfg s = Some s1"
  shows "plain_log (answered_state cfg inp r s1)"
proof -
  obtain gs where "appends (fallback_entries inp r) = map ModelFallbackEv gs" using appends_fallbacks by blast
  then show ?thesis
    using assms(1) by (auto simp: answered_state_def uncompacting_next [OF assms(2,3)] plain_log_def note_text_def take_answer_def push_message_def
      emit_effects_def assistant_entry_def turn_payload_def Let_def)
qed

lemma plain_round:
  assumes "loop_round cfg host speaker inp s = (None, t)" "plain_log s" "uncompacting cfg"
  shows "plain_log t"
  using assms(1)
proof (cases rule: loop_round_cases)
  case (reason s1 r)
  then show ?thesis using plain.over_finish [OF reason(3)] plain_answered [OF assms(2,3) reason(1)] by blast
next
  case (tools s1 r)
  let ?ran = "run_answer host speaker (li_uuid inp) (mr_blocks r)" and ?a = "answered_state cfg inp r s1"
  from tools(3) show ?thesis
  proof (rule tool_round_goes_on)
    assume none: "fst (fst ?ran) = None"
      and t: "t = after_tools cfg host speaker inp (tool_uses (mr_blocks r)) (snd (fst ?ran)) (emit_effects (snd ?ran) ?a)"
    have "lp_out t = lp_out (emit_effects (snd ?ran) ?a) @ arrival_entries (arrivals cfg speaker inp)"
      unfolding t by (rule after_tools_turn [of cfg host speaker inp "tool_uses (mr_blocks r)" "snd (fst ?ran)" "emit_effects (snd ?ran) ?a"])
    then show ?thesis
      using plain_answered [OF assms(2,3) tools(1)]
      by (auto simp: plain_log_def emit_effects_def run_answer_log [OF none] turn_payload_def user_entry_def)
  qed
qed

lemma reload_round:
  assumes "loop_round cfg host speaker inp s = (None, t)" "reload m0 s = lp_messages s"
    and "uncompacting cfg" "lc_condense cfg = None" "\<not> anti_churn_on cfg host" "length (arrivals cfg speaker inp) \<le> 1"
  shows "reload m0 t = lp_messages t"
  using assms(1)
proof (cases rule: loop_round_cases)
  case (reason s1 r)
  have "in_step m0 (answered_state cfg inp r s1)"
    unfolding answered_state_def uncompacting_next [OF assms(3) reason(1)]
    by (rule in_step_answer) (use assms(2) in \<open>simp add: reload_def loaded_def\<close>)
  then show ?thesis using stepping.over_finish [OF reason(3)] in_step_reload by blast
next
  case (tools s1 r)
  have "in_step m0 (answered_state cfg inp r s1)"
    unfolding answered_state_def uncompacting_next [OF assms(3) tools(1)]
    by (rule in_step_answer) (use assms(2) in \<open>simp add: reload_def loaded_def\<close>)
  then show ?thesis using reload_tools [OF _ tools(3,2) assms(4-6)] by blast
qed

lemma load_plain:
  assumes "\<forall>e \<in> set es. turn_payload (ce_payload e)"
  shows "loadMessages es = healInterruptedTools (fst (flush_pending (foldl load_step ([], []) (map ce_payload es))))"
proof -
  have "\<forall>e \<in> set es. \<not> is_rewind e \<and> \<not> is_compact e"
    using assms by (auto simp: turn_payload_def is_rewind_def is_compact_def split: sdk_message.splits)
  moreover from this have "effectiveEntries es = es" using effective_plain [of es "[]"] by (simp add: effectiveEntries_def)
  moreover have "takeWhile (\<lambda>e. \<not> is_compact e) (rev es) = rev es" using calculation(1) by (simp add: takeWhile_eq_all_conv)
  then have "recent_entries es = es" by (simp only: recent_entries_def rev_rev_ident)
  moreover have "find is_compact (rev es) = None" using calculation(1) by (simp add: find_None_iff)
  then have "compact_messages es = []" by (simp add: compact_messages_def)
  ultimately show ?thesis by (simp add: loadMessages_def Let_def split: prod.split)
qed

lemma turn_user_entry: "turn_payload (user_entry a tx)"
  by (simp add: turn_payload_def user_entry_def)

text \<open>C6 reload_matches_live. Live context and reloaded context match: what another engine loads from the log of a turn is what this one sends the
  model, call by call, as long as nothing is compacted, condensed or nudged and at most one text arrives while the tools of an
  answer run.\<close>

theorem reload_matches_live:
  assumes "lc_compaction cfg = None" "lc_checkpoint cfg = None" "lc_condense cfg = None" "\<not> anti_churn_on cfg host"
    and "\<And>i. length (arrivals cfg speaker (inputs i)) \<le> 1"
    and "run_rounds cfg host speaker inputs fuel 0 (start_state cfg rung [user_msg (StrContent prompt)]) = (None, t)"
    and "map ce_payload stored = user_entry speaker prompt # appends (lp_out t)"
  shows "loadMessages stored = lp_messages t"
proof -
  let ?m0 = "[user_msg (StrContent prompt)]"
  let ?s = "start_state cfg rung ?m0"
  have u: "uncompacting cfg" using assms(1,2) by (simp add: uncompacting_def)
  have start: "reload ?m0 ?s = lp_messages ?s" "plain_log ?s" "answered_messages ?s"
    by (simp_all add: reload_def loaded_def plain_log_def answered_messages_def start_state_def flush_pending_def appends_def map_filter_simps)
  have "reload ?m0 t = lp_messages t"
    by (rule run_rounds_keep [where P = "\<lambda>s. reload ?m0 s = lp_messages s", OF _ assms(6) start(1)]) (rule reload_round [OF _ _ u assms(3,4,5)])
  moreover have "ce_payload ` set stored = insert (user_entry speaker prompt) (set (appends (lp_out t)))"
    using arg_cong [OF assms(7), of set] by simp
  then have entries: "plain_log t \<Longrightarrow> e \<in> set stored \<Longrightarrow> turn_payload (ce_payload e)" for e
    by (auto simp: plain_log_def set_eq_iff image_iff) (metis turn_user_entry)
  have "plain_log t"
    by (rule run_rounds_keep [where P = plain_log, OF _ assms(6) start(2)]) (rule plain_round [OF _ _ u])
  then have "loadMessages stored = healInterruptedTools (fst (flush_pending (foldl load_step ([], []) (map ce_payload stored))))"
    using entries by (intro load_plain) blast
  moreover have "all_answered (lp_messages t)"
    using run_rounds_keep [where P = answered_messages, OF answered_go_on assms(6) start(3)] by (simp add: answered_messages_def)
  ultimately show ?thesis
    by (simp add: assms(7) reload_def loaded_def load_step_def user_entry_def heal_answered_id)
qed

definition calm_cfg :: loop_config where
  "calm_cfg = small_cfg\<lparr>lc_antiChurn := False\<rparr>"

definition calm_run :: "(nat \<Rightarrow> loop_input) \<Rightarrow> loop_state" where
  "calm_run inputs = snd (run_rounds calm_cfg open_host HUMAN inputs 1 0 (start_state calm_cfg 0 [user_msg (StrContent ''go'')]))"

definition logged_run :: "loop_state \<Rightarrow> conversation_entry list" where
  "logged_run t = map (entry ''e'') (user_entry HUMAN ''go'' # appends (lp_out t))"

lemma calm_cfg_plain:
  "lc_compaction calm_cfg = None" "lc_checkpoint calm_cfg = None" "lc_condense calm_cfg = None" "\<not> anti_churn_on calm_cfg host"
  by (simp_all add: calm_cfg_def small_cfg_def anti_churn_on_def)

lemma payloads_of_entries: "map ce_payload (map (entry u) ps) = ps"
  by (induction ps) (simp_all add: entry_def)

lemma calm_run_goes_on: "fst (run_rounds calm_cfg open_host HUMAN two_rounds 1 0 (start_state calm_cfg 0 [user_msg (StrContent ''go'')])) = None"
  by code_simp

lemma calm_rounds:
  "run_rounds calm_cfg open_host HUMAN two_rounds 1 0 (start_state calm_cfg 0 [user_msg (StrContent ''go'')]) = (None, calm_run two_rounds)"
  using calm_run_goes_on by (simp add: calm_run_def prod_eq_iff)

theorem reload_matches_live_witness:
  "length (lp_messages (calm_run two_rounds)) = 3 \<and> loadMessages (logged_run (calm_run two_rounds)) = lp_messages (calm_run two_rounds)"
proof -
  have "length (arrivals calm_cfg HUMAN (two_rounds i)) \<le> 1" for i
    by (simp add: arrivals_def two_rounds_def says_def steers_of_def)
  then have "loadMessages (logged_run (calm_run two_rounds)) = lp_messages (calm_run two_rounds)"
    by (rule reload_matches_live [OF calm_cfg_plain _ calm_rounds]) (simp only: logged_run_def payloads_of_entries)
  moreover have "length (lp_messages (calm_run two_rounds)) = 3" by code_simp
  ultimately show ?thesis by simp
qed

theorem live_calls_answered_witness:
  "all_answered (lp_messages (next_turn calm_cfg (calm_run two_rounds)))"
proof -
  have "compact_now calm_cfg (calm_run two_rounds) = Some (calm_run two_rounds)" by (simp add: compact_now_def calm_cfg_plain)
  from live_calls_answered [OF _ calm_rounds this] show ?thesis by simp
qed

text \<open>Two texts typed while the tools of an answer run ride in one user turn live, and come back as two from the log.\<close>

definition two_notes :: "nat \<Rightarrow> loop_input" where
  "two_notes i = says (assistant_blocks answers) [''a'', ''b'']"

theorem second_note_splits:
  "length (lp_messages (calm_run two_notes)) = 3 \<and> length (loadMessages (logged_run (calm_run two_notes))) = 4"
  by code_simp

text \<open>A peer message that comes while tools run reaches the model as it was sent, whatever characters \<open>stripInvisible\<close>
  would have removed from it; one that waits for the finish point is stripped.\<close>

theorem midloop_peer_unstripped:
  assumes "lc_peers cfg" "pm \<in> set (li_peers inp)"
  shows "(\<exists>bs. lp_messages (after_tools cfg host speaker inp uses results s) = lp_messages s @ [user_msg (Blocks bs)] \<and>
            TextBlock (frameHandoff pm) \<in> set bs) \<and>
    lp_messages (inject_peer cfg pm s) =
      lp_messages s @ [user_msg (StrContent (frameHandoff (pm\<lparr>pm_text := lc_strip cfg (pm_text pm)\<rparr>)))]"
proof -
  have "TextBlock (frameHandoff pm) \<in> set (arrival_blocks (arrivals cfg speaker inp))"
    using assms by (force simp: arrival_blocks_def arrivals_def)
  then have "\<exists>bs. lp_messages (after_tools cfg host speaker inp uses results s) = lp_messages s @ [user_msg (Blocks bs)] \<and>
      TextBlock (frameHandoff pm) \<in> set bs"
    by (rule_tac after_tools_turn [of cfg host speaker inp uses results s]) auto
  then show ?thesis by (simp add: inject_peer_def inject_def push_message_def emit_effects_def owe_def split: option.split)
qed

definition hidden_mail :: peer_message where
  "hidden_mail = \<lparr>pm_from = SYSTEM, pm_text = ''ab'', pm_correlationId = None\<rparr>"

theorem midloop_peer_unstripped_witness:
  "\<exists>bs. lp_messages (after_tools calm_cfg open_host HUMAN ((says [] [])\<lparr>li_peers := [hidden_mail]\<rparr>) [] [] (start_state calm_cfg 0 [])) =
     [user_msg (Blocks bs)] \<and> TextBlock ''ab'' \<in> set bs"
proof -
  have "lc_peers calm_cfg" by (simp add: calm_cfg_def small_cfg_def)
  moreover have "hidden_mail \<in> set (li_peers ((says [] [])\<lparr>li_peers := [hidden_mail]\<rparr>))" by simp
  moreover have "frameHandoff hidden_mail = ''ab''" by (simp add: frameHandoff_def correlation_def some_text_def hidden_mail_def)
  ultimately show ?thesis
    using midloop_peer_unstripped [of calm_cfg hidden_mail "(says [] [])\<lparr>li_peers := [hidden_mail]\<rparr>" open_host HUMAN "[]" "[]" "start_state calm_cfg 0 []"]
    by (simp add: start_state_def)
qed

end
