(* ===== verification/AgentRun.thy ===== *)
theory AgentRun
  imports AgentLoop
begin

text \<open>
  The entry points of \<open>AgentSession\<close> in \<open>loop/agent.ts\<close> beside the turn: how \<open>run\<close> opens one (the session's first entries, the hooks
  that see the prompt, the user entry), the rung \<open>routing/classifier.ts\<close> starts it on, the loop \<open>listen\<close> that serves mail, and
  \<open>compact\<close>.  A log is the list of entries of the session's conversation; what a run appends is a list of effects.
\<close>

section \<open>Opening a turn\<close>

record turn_input =
  ti_text :: string
  ti_author :: "author option"
  ti_blocks :: "content_block list option"
  ti_requestId :: "string option"

text \<open>The context a hook injects: its fields that are read as text are strings.\<close>

definition injected :: "hook_result \<Rightarrow> string" where
  "injected r = (case map_of r ''injectContext'' of Some (JStr t) \<Rightarrow> trim t | _ \<Rightarrow> [])"

definition injected_all :: "hook_result list \<Rightarrow> string list" where
  "injected_all rs = filter (\<lambda>t. t \<noteq> []) (map injected rs)"

definition session_start_input :: hook_input where
  "session_start_input = \<lparr>hi_event = SessionStart, hi_fields = [(''source'', JStr ''startup'')]\<rparr>"

text \<open>A session whose conversation is empty gets its first entry, and the context its \<open>SessionStart\<close> hooks give it.\<close>

definition session_start :: "agent_host \<Rightarrow> system_init_event \<Rightarrow> conversation_entry list \<Rightarrow> agent_effect list" where
  "session_start host init entries =
     (if entries = [] then
        Appended (SystemInit init) #
        (if has_event SessionStart (ag_hooks host) then
           (let seeded = join [nl, nl] (injected_all (hook_results host session_start_input))
            in if seeded = [] then [] else [Appended (user_entry SYSTEM seeded)])
         else [])
      else [])"

definition updated_prompt :: "hook_result \<Rightarrow> string \<Rightarrow> string" where
  "updated_prompt r p = (if hook_says ''updatedPrompt'' r then hook_text ''updatedPrompt'' [] r else p)"

text \<open>The reason a hook rejects the prompt for, or the prompt the turn asks.\<close>

definition submit_prompt :: "agent_host \<Rightarrow> string \<Rightarrow> string + string" where
  "submit_prompt host prompt =
     (if has_event UserPromptSubmit (ag_hooks host) then
        (let results = hook_results host (user_prompt_submit prompt)
         in case find (hook_says ''block'') results of
              Some blocker \<Rightarrow> Inl (''prompt rejected by hook: '' @ hook_text ''reason'' ''no reason given'' blocker)
            | None \<Rightarrow>
                (let p = fold updated_prompt results prompt;
                     extra = injected_all results
                 in Inr (if extra = [] then p else p @ [nl, nl] @ join [nl, nl] extra)))
      else Inr prompt)"

text \<open>Attachments ride ahead of the text in one user message.\<close>

definition user_content :: "turn_input \<Rightarrow> string \<Rightarrow> msg_content" where
  "user_content inp prompt =
     (case ti_blocks inp of
        Some (b # bs) \<Rightarrow> Blocks ((b # bs) @ [TextBlock prompt])
      | _ \<Rightarrow> StrContent prompt)"

definition turn_speaker :: "turn_input \<Rightarrow> author" where
  "turn_speaker inp = (case ti_author inp of Some a \<Rightarrow> a | None \<Rightarrow> HUMAN)"

definition opening_event :: "turn_input \<Rightarrow> string \<Rightarrow> user_event" where
  "opening_event inp prompt =
     \<lparr>ue_message = user_msg (user_content inp prompt), ue_author = turn_speaker inp, ue_requestId = some_text (ti_requestId inp)\<rparr>"

text \<open>A rejected prompt yields a result that is not persisted; a user entry that cannot be appended opens no turn.\<close>

datatype run_opening = Rejected string | NotOpened | Opened user_event

definition open_run ::
  "loop_config \<Rightarrow> agent_host \<Rightarrow> system_init_event \<Rightarrow> conversation_entry list \<Rightarrow> turn_input \<Rightarrow> bool \<Rightarrow> run_opening \<times> agent_effect list" where
  "open_run cfg host init entries inp refused =
     (let started = session_start host init entries
      in case submit_prompt host (lc_strip cfg (ti_text inp)) of
           Inl reason \<Rightarrow> (Rejected reason, started)
         | Inr prompt \<Rightarrow>
             if refused then (NotOpened, started)
             else (Opened (opening_event inp prompt), started @ [Appended (UserEv (opening_event inp prompt))]))"

section \<open>The rung to start on\<close>

text \<open>
  \<open>reply\<close> is the classifier's answer, none when the call failed; \<open>parse_rung\<close> is \<open>JSON.parse\<close> with the finite number the
  object has for \<open>rung\<close>.  The object is the text from the first opening brace to the last closing one, when there is one.
\<close>

definition braces_of :: "string \<Rightarrow> string option" where
  "braces_of t =
     (let from = dropWhile (\<lambda>c. c \<noteq> CHR ''{'') t;
          upto = rev (dropWhile (\<lambda>c. c \<noteq> CHR ''}'') (rev from))
      in if upto = [] then None else Some upto)"

definition classifyStartRung :: "(string \<Rightarrow> rat option) \<Rightarrow> nat \<Rightarrow> string \<Rightarrow> string option \<Rightarrow> nat" where
  "classifyStartRung parse_rung rungs task reply =
     (if rungs \<le> 1 \<or> trim task = [] then 0
      else (case Option.bind (Option.bind reply braces_of) parse_rung of
              None \<Rightarrow> 0
            | Some r \<Rightarrow> nat (min (int rungs - 1) (max 0 \<lfloor>r + 1 / 2\<rfloor>))))"

text \<open>The classifier is asked for a ladder of several rungs, unless the turn has its answer already.\<close>

definition start_rung :: "(string \<Rightarrow> rat option) \<Rightarrow> loop_config \<Rightarrow> bool \<Rightarrow> bool \<Rightarrow> string \<Rightarrow> string option \<Rightarrow> nat" where
  "start_rung parse_rung cfg classifies settled task reply =
     (if classifies \<and> length (lc_ladder cfg) > 1 \<and> \<not> settled then classifyStartRung parse_rung (length (lc_ladder cfg)) task reply else 0)"

section \<open>Serving mail\<close>

text \<open>
  Each poll drains the mailbox; each message is a run of its own, which throws, or ends with the last text of its answers; the post of
  the reply it asks for may throw too, and so end the loop.  The outcome is whether the loop ended by an error.  The registry and the
  reads of the mailbox are taken to succeed.
\<close>

datatype serving = RunThrew | RunSaid string bool

text \<open>The flag of \<open>RunSaid\<close> says that a reply can be posted.\<close>

type_synonym mail = "(peer_message \<times> serving) list"

datatype listen_effect = Served peer_message | Did agent_effect

definition listen_reply :: "peer_message \<Rightarrow> string \<Rightarrow> listen_effect list" where
  "listen_reply pm reply = (case correlation pm of None \<Rightarrow> [] | Some c \<Rightarrow> [Did (postHandoffReply c reply)])"

fun listen_batch :: "mail \<Rightarrow> bool \<times> listen_effect list" where
  "listen_batch [] = (False, [])"
| "listen_batch ((pm, run) # pms) =
     (case run of
        RunThrew \<Rightarrow> (True, [Served pm])
      | RunSaid reply posted \<Rightarrow>
          (if correlation pm \<noteq> None \<and> \<not> posted then (True, [Served pm])
           else (let rest = listen_batch pms
                 in (fst rest, Served pm # listen_reply pm reply @ snd rest))))"

fun listen_polls :: "bool \<Rightarrow> mail list \<Rightarrow> bool \<times> listen_effect list" where
  "listen_polls once [] = (False, [])"
| "listen_polls once (mail # polls) =
     (if mail = [] then
        (if once then (False, [])
         else (let rest = listen_polls once polls in (fst rest, Did (StatusSet ''listening'') # snd rest)))
      else
        (let batch = listen_batch mail
         in if fst batch then batch
            else (let rest = listen_polls once polls
                  in (fst rest, snd batch @ Did (StatusSet ''listening'') # snd rest))))"

text \<open>The polls are those before the signal aborts.\<close>

definition listen :: "bool \<Rightarrow> mail list \<Rightarrow> bool \<times> listen_effect list" where
  "listen once polls =
     (let served = listen_polls once polls
      in (fst served, Did (StatusSet ''listening'') # snd served @ [Did (StatusSet ''idle'')]))"

section \<open>Compacting by hand\<close>

text \<open>What \<open>compact\<close> appends, \<open>None\<close> when there is nothing to compact; \<open>summarize\<close> may throw.\<close>

definition manual_compact :: "loop_config \<Rightarrow> (message list \<Rightarrow> string option) \<Rightarrow> conversation_entry list \<Rightarrow> sdk_message list option" where
  "manual_compact cfg summarize entries =
     (let messages = loadMessages entries
      in if length messages < 2 then None
         else (case summarize messages of
                 None \<Rightarrow> None
               | Some summary \<Rightarrow>
                   Some (CompactEv \<lparr>ce_summary = summary, ce_trigger = ManualCompact, ce_replacedMessages = length messages\<rparr> #
                     (case lc_afterCompact cfg of
                        None \<Rightarrow> []
                      | Some rebuild \<Rightarrow>
                          (case rebuild summary of
                             None \<Rightarrow> []
                           | Some rebuilt \<Rightarrow> if trim rebuilt = [] then [] else [user_entry SYSTEM rebuilt])))))"

section \<open>What an entry at the end of the log does\<close>

lemma heldCall_append:
  assumes "\<not> list_ex is_end later"
  shows "heldCall (es @ later) = heldCall es"
proof -
  have "last_where is_end later = None" using assms by (simp add: last_where_None_iff list_ex_iff)
  then have "last_where is_end (es @ later) = last_where is_end es" by (simp add: last_where_append)
  moreover have "held_in (es @ later) i turn = held_in es i turn" if "i < length es" for i turn
  proof -
    have "(es @ later) ! i = es ! i" using that by (simp add: nth_append)
    then show ?thesis by (simp only: held_in_def)
  qed
  ultimately show ?thesis
    by (subst (1 2) heldCall.simps) (auto dest: last_where_SomeD split: option.split)
qed

lemma inFlight_user:
  assumes "is_user e" "\<not> list_ex is_end later" "e \<in> set later"
  shows "inFlightTurn (es @ later) \<noteq> []"
proof -
  have "takeWhile (\<lambda>e. \<not> is_end e) (rev (es @ later)) = rev later @ takeWhile (\<lambda>e. \<not> is_end e) (rev es)"
    using assms(2) by (simp add: list_ex_iff) (rule takeWhile_append2, simp)
  then have "e \<in> set (since_end (es @ later))" using assms(3) by (simp add: since_end_def)
  then have "open_turn (es @ later) \<noteq> []" using assms(1) by (auto simp: open_turn_def)
  moreover have "hl_turn h @ drop (Suc (hl_resultAt h)) (es @ later) \<noteq> []"
    if "Some i \<in> result_id ` set (drop (Suc (hl_resultAt h)) (es @ later))" for h i
    using that by auto
  ultimately show ?thesis by (subst inFlightTurn.simps) (auto simp: Let_def split: option.split)
qed

lemma effective_more: "\<forall>e \<in> set new. \<not> is_rewind e \<Longrightarrow> effectiveEntries (es @ new) = effectiveEntries es @ new"
  by (simp add: effectiveEntries_def effective_plain)

lemma user_entry_is_user: "ce_payload e = user_entry a t \<Longrightarrow> is_user e \<and> \<not> is_end e \<and> \<not> is_rewind e \<and> moves_on e \<and> \<not> is_compact e"
  by (simp add: is_user_def is_end_def is_rewind_def user_entry_def moves_on_def is_compact_def)

lemma compact_is_quiet: "ce_payload e = CompactEv c \<Longrightarrow> \<not> is_user e \<and> \<not> is_end e \<and> \<not> is_rewind e \<and> \<not> moves_on e \<and> is_compact e"
  by (simp add: is_user_def is_end_def is_rewind_def moves_on_def is_compact_def)

lemma manual_compact_shape:
  assumes "manual_compact cfg summarize entries = Some ps"
  obtains c where "ps = [CompactEv c]" "lc_afterCompact cfg = None \<or> (\<exists>rebuild. lc_afterCompact cfg = Some rebuild \<and>
      (case rebuild (ce_summary c) of None \<Rightarrow> True | Some t \<Rightarrow> trim t = []))"
  | c rebuild t where "ps = [CompactEv c, user_entry SYSTEM t]" "lc_afterCompact cfg = Some rebuild" "rebuild (ce_summary c) = Some t"
  using assms by (auto simp: manual_compact_def Let_def split: if_splits option.splits)

section \<open>Properties\<close>

text \<open>A run that opens a turn appends the person's entry last and once, with their words as the hooks left them behind
  whatever they attached; a rejected prompt, or one whose entry is refused, adds nothing to a session that has begun.\<close>

theorem prompt_opens_one_turn:
  assumes "entries \<noteq> []"
  shows "case open_run cfg host init entries inp refused of
      (Opened u, es) \<Rightarrow> es = [Appended (UserEv u)] \<and> ue_author u = turn_speaker inp \<and>
        (\<exists>p. submit_prompt host (lc_strip cfg (ti_text inp)) = Inr p \<and>
          as_blocks (content (ue_message u)) = (case ti_blocks inp of None \<Rightarrow> [] | Some bs \<Rightarrow> bs) @ [TextBlock p])
    | (x, es) \<Rightarrow> es = []"
  using assms by (auto simp: open_run_def session_start_def opening_event_def user_content_def as_blocks_def split: sum.split option.split list.split)

text \<open>Whatever the classifier answers, the turn starts on a rung of the ladder, and on the first unless the ladder has
  several and the classifier named another.\<close>

theorem start_rung_in_ladder:
  assumes "lc_ladder cfg \<noteq> []"
  shows "start_rung parse_rung cfg classifies settled task reply < length (lc_ladder cfg) \<and>
    (settled \<or> \<not> classifies \<or> reply = None \<longrightarrow> start_rung parse_rung cfg classifies settled task reply = 0)"
  using assms by (auto simp: start_rung_def classifyStartRung_def split: option.split)

section \<open>Mail\<close>

definition served :: "listen_effect list \<Rightarrow> peer_message list" where
  "served es = List.map_filter (\<lambda>e. case e of Served pm \<Rightarrow> Some pm | Did d \<Rightarrow> None) es"

definition replies :: "listen_effect list \<Rightarrow> agent_effect list" where
  "replies es = List.map_filter (\<lambda>e. case e of Did (Posted i t) \<Rightarrow> Some (Posted i t) | _ \<Rightarrow> None) es"

lemma mail_simps [simp]:
  "served [] = []" "served (Served pm # es) = pm # served es" "served (Did d # es) = served es" "served (xs @ ys) = served xs @ served ys"
  "replies [] = []" "replies (Served pm # es) = replies es" "replies (Did (StatusSet x) # es) = replies es"
  "replies (Did (postHandoffReply c t) # es) = postHandoffReply c t # replies es" "replies (xs @ ys) = replies xs @ replies ys"
  by (simp_all add: served_def replies_def map_filter_simps map_filter_def postHandoffReply_def)

text \<open>A message whose run ends, and whose reply, if it asks for one, is posted.\<close>

definition goes_well :: "peer_message \<times> serving \<Rightarrow> bool" where
  "goes_well m = (case snd m of RunThrew \<Rightarrow> False | RunSaid t posted \<Rightarrow> correlation (fst m) = None \<or> posted)"

definition owed_reply :: "peer_message \<times> serving \<Rightarrow> agent_effect list" where
  "owed_reply m =
     (case (correlation (fst m), snd m) of
        (Some c, RunSaid t posted) \<Rightarrow> [postHandoffReply c t]
      | _ \<Rightarrow> [])"

text \<open>What the polls find: with \<open>once\<close>, up to the first that finds nothing.\<close>

definition mail_found :: "bool \<Rightarrow> mail list \<Rightarrow> mail" where
  "mail_found once polls = concat (if once then takeWhile (\<lambda>m. m \<noteq> []) polls else polls)"

text \<open>The messages that get a run: up to the first that does not go well, and that one.\<close>

definition run_on :: "mail \<Rightarrow> mail" where
  "run_on ms = takeWhile goes_well ms @ take 1 (dropWhile goes_well ms)"

lemma listen_reply_mail [simp]:
  "served (listen_reply pm t) = []" "replies (listen_reply pm t) = (case correlation pm of None \<Rightarrow> [] | Some c \<Rightarrow> [postHandoffReply c t])"
  by (simp_all add: listen_reply_def split: option.split)

lemma goes_well_cases:
  assumes "goes_well (pm, x)"
  obtains t posted where "x = RunSaid t posted" "correlation pm = None \<or> posted"
  using assms by (cases x) (auto simp: goes_well_def)

lemma listen_batch_runs:
  "fst (listen_batch ms) = (\<not> list_all goes_well ms) \<and> served (snd (listen_batch ms)) = map fst (run_on ms) \<and>
   replies (snd (listen_batch ms)) = concat (map owed_reply (takeWhile goes_well ms))"
proof (induction ms)
  case (Cons m ms)
  obtain pm x where m: "m = (pm, x)" by (cases m)
  show ?case
  proof (cases "goes_well m")
    case True
    then obtain t posted where "x = RunSaid t posted" "correlation pm = None \<or> posted" unfolding m by (rule goes_well_cases)
    with Cons True show ?thesis by (auto simp: m Let_def run_on_def owed_reply_def split: option.split)
  next
    case False
    then show ?thesis by (cases x) (auto simp: m goes_well_def run_on_def)
  qed
qed (simp add: run_on_def)

lemma run_on_append: "run_on (xs @ ys) = (if list_all goes_well xs then xs @ run_on ys else run_on xs)"
  by (induction xs) (auto simp: run_on_def)

lemma takeWhile_append_all: "takeWhile P (xs @ ys) = (if list_all P xs then xs @ takeWhile P ys else takeWhile P xs)"
  by (induction xs) auto

lemma listen_polls_runs:
  "fst (listen_polls once polls) = (\<not> list_all goes_well (mail_found once polls)) \<and>
   served (snd (listen_polls once polls)) = map fst (run_on (mail_found once polls)) \<and>
   replies (snd (listen_polls once polls)) = concat (map owed_reply (takeWhile goes_well (mail_found once polls)))"
proof (induction polls)
  case Nil
  then show ?case by (simp add: mail_found_def run_on_def)
next
  case (Cons mail polls)
  show ?case
  proof (cases "mail = []")
    case True
    with Cons show ?thesis by (auto simp: Let_def mail_found_def run_on_def)
  next
    case False
    then have found: "mail_found once (mail # polls) = mail @ mail_found once polls" by (simp add: mail_found_def)
    have whole: "takeWhile goes_well mail = mail \<and> run_on mail = mail" if "list_all goes_well mail"
      using that by (induction mail) (auto simp: run_on_def)
    show ?thesis
    proof (cases "list_all goes_well mail")
      case True
      then show ?thesis
        using Cons listen_batch_runs [of mail] False whole [OF True] by (simp add: Let_def found run_on_append takeWhile_append_all)
    next
      case bad: False
      then show ?thesis using listen_batch_runs [of mail] False by (simp add: Let_def found run_on_append takeWhile_append_all)
    qed
  qed
qed

text \<open>A listening session runs the messages its polls find (with \<open>once\<close>, until one finds nothing) each as a run of
  its own and in the order they came, up to and with the first whose run throws or whose reply cannot be posted; it answers each one before that
  which asks for an answer with what its run said last. It ends by an error exactly when there is such a message, and then runs none of those behind it.\<close>

theorem listen_serves_all:
  "fst (listen once polls) = (\<not> list_all goes_well (mail_found once polls)) \<and>
   served (snd (listen once polls)) = map fst (run_on (mail_found once polls)) \<and>
   replies (snd (listen once polls)) = concat (map owed_reply (takeWhile goes_well (mail_found once polls)))"
  using listen_polls_runs [of once polls] by (simp add: listen_def Let_def)

text \<open>When the run of one message throws, or its reply cannot be posted, the loop ends with it: the messages drained with it and behind it are
  served by no run and answered by nobody, and so is that one.\<close>

theorem listen_drops_batch:
  assumes "list_all goes_well front" "\<not> goes_well m"
  shows "fst (listen once ((front @ m # rest) # polls)) \<and> served (snd (listen once ((front @ m # rest) # polls))) = map fst (front @ [m]) \<and>
    replies (snd (listen once ((front @ m # rest) # polls))) = concat (map owed_reply front)"
proof -
  have "run_on (front @ m # rest) = front @ [m]" "takeWhile goes_well (front @ m # rest) = front"
    using assms by (simp_all add: run_on_append takeWhile_append_all) (simp add: run_on_def)
  then show ?thesis using listen_batch_runs [of "front @ m # rest"] assms by (simp add: listen_def Let_def)
qed

section \<open>The boundary\<close>

text \<open>After a compaction by hand the next load starts from its summary, and from the context rebuilt behind it, and
  from nothing else.\<close>

theorem manual_compact_reload:
  assumes "manual_compact cfg summarize entries = Some ps" "map ce_payload new = ps"
  shows "\<exists>summary. summarize (loadMessages entries) = Some summary \<and>
    loadMessages (entries @ new) = user_msg (StrContent (summaryHeader summary)) #
      (case Option.bind (lc_afterCompact cfg) (\<lambda>f. f summary) of
         None \<Rightarrow> []
       | Some t \<Rightarrow> if trim t = [] then [] else [user_msg (StrContent t)])"
proof -
  obtain summary where sm: "summarize (loadMessages entries) = Some summary"
    using assms(1) by (auto simp: manual_compact_def Let_def split: if_splits option.splits)
  define c where "c = \<lparr>ce_summary = summary, ce_trigger = ManualCompact, ce_replacedMessages = length (loadMessages entries)\<rparr>"
  have c: "summarize (loadMessages entries) = Some summary" "ce_summary c = summary" using sm by (simp_all add: c_def)
  have ps: "ps = CompactEv c # map (user_entry SYSTEM) (case Option.bind (lc_afterCompact cfg) (\<lambda>f. f summary) of
         None \<Rightarrow> [] | Some t \<Rightarrow> if trim t = [] then [] else [t])"
    using assms(1) sm by (auto simp: manual_compact_def Let_def c_def split: if_splits option.splits)
  let ?ts = "case Option.bind (lc_afterCompact cfg) (\<lambda>f. f summary) of None \<Rightarrow> [] | Some t \<Rightarrow> if trim t = [] then [] else [t]"
  from assms(2) ps obtain e post where new: "new = e # post" "ce_payload e = CompactEv c" "map ce_payload post = map (user_entry SYSTEM) ?ts"
    by (cases new) auto
  have post: "\<forall>x \<in> set post. \<exists>t. ce_payload x = user_entry SYSTEM t"
  proof
    fix x assume "x \<in> set post"
    then have "ce_payload x \<in> set (map (user_entry SYSTEM) ?ts)" using new(3) by (metis image_eqI list.set_map)
    then show "\<exists>t. ce_payload x = user_entry SYSTEM t" by auto
  qed
  have "is_compact e" "\<not> is_rewind e" using compact_is_quiet new(2) by blast+
  then have plain: "\<forall>x \<in> set new. \<not> is_rewind x" "\<forall>x \<in> set post. \<not> is_compact x" "is_compact e"
    using post new(1) user_entry_is_user by auto
  have "effectiveEntries (entries @ new) = effectiveEntries entries @ e # post" using effective_more [OF plain(1)] new(1) by simp
  note r = recent_after_compact [OF plain(3,2), of "effectiveEntries entries"]
  have "loadMessages (entries @ new) =
      healInterruptedTools (fst (flush_pending (foldl load_step (compact_messages [e], []) (map (user_entry SYSTEM) ?ts))))"
    using r by (simp add: loadMessages_def Let_def \<open>effectiveEntries (entries @ new) = _\<close> new(3) split: prod.split)
  moreover have "compact_messages [e] = [user_msg (StrContent (summaryHeader summary))]"
    using new(2) c(2) by (simp add: compact_messages_def is_compact_def)
  ultimately show ?thesis
    using c(1) by (auto simp: load_step_def user_entry_def flush_pending_def split: option.split)
qed

text \<open>A compaction by hand that rebuilds the context leaves a turn in flight, which another engine would resume although nobody
  asked for one; and a call held for approval can no longer be settled.  One that rebuilds nothing keeps it settleable.\<close>

theorem compact_reopens:
  assumes "manual_compact cfg summarize entries = Some ps" "map ce_payload new = ps"
    and "heldCall (effectiveEntries entries) = Some h" "settleableHeldCall (effectiveEntries entries) = Some h"
  shows "if length ps = 1 then settleableHeldCall (effectiveEntries (entries @ new)) = Some h
    else inFlightTurn (effectiveEntries (entries @ new)) \<noteq> [] \<and> settleableHeldCall (effectiveEntries (entries @ new)) = None"
proof -
  let ?es = "effectiveEntries entries"
  have at_end: "hl_resultAt h < length ?es" using assms(3) heldCall_SomeD last_where_SomeD by blast
  have quiet: "\<not> movesTurn (drop (Suc (hl_resultAt h)) ?es)" using assms(3,4) by (auto simp: settleableHeldCall_def split: if_splits)
  show ?thesis
    using assms(1)
  proof (cases rule: manual_compact_shape)
    case (1 c)
    with assms(2) obtain e where e: "new = [e]" "ce_payload e = CompactEv c" by auto
    then have "effectiveEntries (entries @ new) = ?es @ [e]" "heldCall (?es @ [e]) = Some h"
      using compact_is_quiet [OF e(2)] effective_more [of new entries] heldCall_append [of "[e]" ?es] assms(3) by auto
    then show ?thesis
      using 1(1) quiet at_end compact_is_quiet [OF e(2)] by (simp add: settleableHeldCall_def movesTurn_def)
  next
    case (2 c rebuild t)
    with assms(2) obtain e x where e: "new = [e, x]" "ce_payload e = CompactEv c" "ce_payload x = user_entry SYSTEM t" by auto
    note q = compact_is_quiet [OF e(2)] user_entry_is_user [OF e(3)]
    have "effectiveEntries (entries @ new) = ?es @ [e, x]" "heldCall (?es @ [e, x]) = Some h"
      using q e(1) effective_more [of new entries] heldCall_append [of "[e, x]" ?es] assms(3) by auto
    then show ?thesis
      using 2(1) q at_end inFlight_user [of x "[e, x]" ?es] by (auto simp: settleableHeldCall_def movesTurn_def)
  qed
qed

lemma join_ne: "ts \<noteq> [] \<Longrightarrow> (\<And>t. t \<in> set ts \<Longrightarrow> t \<noteq> []) \<Longrightarrow> join sep ts \<noteq> []"
  by (induction sep ts rule: join.induct) auto

text \<open>A first prompt that a hook rejects leaves a turn in flight after all when the session's start gave it context.\<close>

theorem rejected_prompt_in_flight:
  assumes "has_event SessionStart (ag_hooks host)" "injected_all (hook_results host session_start_input) \<noteq> []"
    and "fst (open_run cfg host init [] inp refused) = Rejected reason"
    and "map ce_payload stored = appends (snd (open_run cfg host init [] inp refused))"
  shows "inFlightTurn (effectiveEntries stored) \<noteq> [] \<and> turnToResume (effectiveEntries stored) started \<noteq> []"
proof -
  let ?t = "join [nl, nl] (injected_all (hook_results host session_start_input))"
  have "t \<noteq> []" if "t \<in> set (injected_all (hook_results host session_start_input))" for t
    using that by (simp add: injected_all_def)
  with assms(2) have "?t \<noteq> []" using join_ne by blast
  then have "appends (snd (open_run cfg host init [] inp refused)) = [SystemInit init, user_entry SYSTEM ?t]"
    using assms(1,3) by (auto simp: open_run_def session_start_def Let_def split: sum.splits if_splits)
  with assms(4) obtain e x where e: "stored = [e, x]" "ce_payload e = SystemInit init" "ce_payload x = user_entry SYSTEM ?t" by auto
  have q: "\<not> is_end e" "\<not> is_rewind e" using e(2) by (simp_all add: is_end_def is_rewind_def)
  have "effectiveEntries stored = [] @ [e, x]"
    using q user_entry_is_user [OF e(3)] e(1) effective_more [of stored "[]"] by (auto simp: effectiveEntries_def)
  then show ?thesis
    using q user_entry_is_user [OF e(3)] inFlight_user [of x "[e, x]" "[]"] by (auto simp: turnToResume_def Let_def)
qed

section \<open>Examples\<close>

definition some_init :: system_init_event where
  "some_init = \<lparr>si_sessionId = ''s'', si_agentId = ''a'', si_model = ''m'', si_cwd = ''/w''\<rparr>"

definition says_hi :: turn_input where
  "says_hi = \<lparr>ti_text = ''hi'', ti_author = None, ti_blocks = Some [ImageBlock ''image/png'' ''d''], ti_requestId = None\<rparr>"

lemma opens_hi: "open_run calm_cfg open_host some_init [asks] says_hi False =
    (Opened (opening_event says_hi ''hi''), [Appended (UserEv (opening_event says_hi ''hi''))])"
  by (simp add: open_run_def session_start_def submit_prompt_def has_event_def open_host_def calm_cfg_def small_cfg_def says_hi_def)

theorem prompt_opens_one_turn_witness:
  "as_blocks (content (ue_message (opening_event says_hi ''hi''))) = [ImageBlock ''image/png'' ''d'', TextBlock ''hi'']"
proof -
  have "submit_prompt open_host (lc_strip calm_cfg (ti_text says_hi)) = Inr ''hi''"
    by (simp add: submit_prompt_def has_event_def open_host_def calm_cfg_def small_cfg_def says_hi_def)
  moreover have "ti_blocks says_hi = Some [ImageBlock ''image/png'' ''d'']" by (simp add: says_hi_def)
  ultimately show ?thesis
    using prompt_opens_one_turn [where entries = "[asks]" and cfg = calm_cfg and host = open_host and init = some_init and inp = says_hi and refused = False]
    unfolding opens_hi by simp
qed

theorem start_rung_in_ladder_witness: "start_rung (\<lambda>t. Some 7) small_cfg True False ''fix it'' (Some ''{}'') < 2"
  using start_rung_in_ladder [of small_cfg "\<lambda>t. Some 7" True False "''fix it''" "Some ''{}''"] by (simp add: small_cfg_def)

theorem listen_drops_batch_witness:
  "served (snd (listen False [[(hidden_mail, RunThrew), (hidden_mail, RunSaid ''ok'' True)]])) = [hidden_mail]"
  using listen_drops_batch [of "[]" "(hidden_mail, RunThrew)" False "[(hidden_mail, RunSaid ''ok'' True)]" "[]"] by (simp add: goes_well_def)

definition remembering_cfg :: loop_config where
  "remembering_cfg = calm_cfg\<lparr>lc_afterCompact := Some (\<lambda>t. Some ''notes'')\<rparr>"

definition parked_entries :: "conversation_entry list" where
  "parked_entries = [asks, answers, the_park]"

definition compacted_by_hand :: "sdk_message list" where
  "compacted_by_hand = the (manual_compact remembering_cfg (\<lambda>ms. Some ''sum'') parked_entries)"

lemma compacts_by_hand: "manual_compact remembering_cfg (\<lambda>ms. Some ''sum'') parked_entries = Some compacted_by_hand"
  "length compacted_by_hand = 2"
  by code_simp+

theorem manual_compact_reload_witness:
  "loadMessages (parked_entries @ map (entry ''n'') compacted_by_hand) = [user_msg (StrContent (summaryHeader ''sum'')), user_msg (StrContent ''notes'')]"
proof -
  have "trim ''notes'' \<noteq> []" by code_simp
  then show ?thesis
    using manual_compact_reload [OF compacts_by_hand(1) payloads_of_entries] by (simp add: remembering_cfg_def)
qed

theorem compact_reopens_witness:
  "settleableHeldCall (effectiveEntries parked_entries) \<noteq> None \<and>
   settleableHeldCall (effectiveEntries (parked_entries @ map (entry ''n'') compacted_by_hand)) = None"
proof -
  obtain h where h: "heldCall (effectiveEntries parked_entries) = Some h" "settleableHeldCall (effectiveEntries parked_entries) = Some h"
  proof -
    have "settleableHeldCall (effectiveEntries parked_entries) \<noteq> None" by code_simp
    then show ?thesis using that by (auto simp: settleableHeldCall_def split: option.splits if_splits)
  qed
  from compact_reopens [OF compacts_by_hand(1) payloads_of_entries this] h(2) show ?thesis by (simp add: compacts_by_hand(2))
qed

definition seeding_host :: agent_host where
  "seeding_host = open_host\<lparr>ag_hooks :=
     \<lparr>he_hooks = [function_hook ''seed'' [SessionStart] (\<lambda>i x. Inr [(''injectContext'', JStr ''notes'')]),
                  function_hook ''gate'' [UserPromptSubmit] (\<lambda>i x. Inr [(''block'', JBool True)])], he_log = []\<rparr>\<rparr>"

definition rejected_log :: "conversation_entry list" where
  "rejected_log = map (entry ''e'') (appends (snd (open_run calm_cfg seeding_host some_init [] says_hi False)))"

theorem rejected_prompt_in_flight_witness: "turnToResume (effectiveEntries rejected_log) (\<lambda>c. False) \<noteq> []"
proof -
  have "has_event SessionStart (ag_hooks seeding_host)" by code_simp
  moreover have "injected_all (hook_results seeding_host session_start_input) \<noteq> []" by code_simp
  moreover obtain reason where "fst (open_run calm_cfg seeding_host some_init [] says_hi False) = Rejected reason"
  proof -
    have "(case fst (open_run calm_cfg seeding_host some_init [] says_hi False) of Rejected r \<Rightarrow> True | _ \<Rightarrow> False)" by code_simp
    then show ?thesis using that by (auto split: run_opening.splits)
  qed
  moreover have "map ce_payload rejected_log = appends (snd (open_run calm_cfg seeding_host some_init [] says_hi False))"
    by (simp only: rejected_log_def payloads_of_entries)
  ultimately show ?thesis by (rule conjunct2 [OF rejected_prompt_in_flight])
qed

end
