(* ===== verification/Sse.thy ===== *)
theory Sse
  imports Json
begin

text \<open>
  \<open>gateway/sse.ts\<close>: the reader of the gateway's event stream.  Chunks are what the decoder gives for the bytes as they arrive; a block
  ends at an empty line, its data lines are one JSON text, and what is no JSON is dropped.
\<close>

definition strip_cr :: "string \<Rightarrow> string" where
  "strip_cr s = filter (\<lambda>c. c \<noteq> cr) s"

text \<open>The text before and behind the first empty line.\<close>

fun find_break :: "string \<Rightarrow> (string \<times> string) option" where
  "find_break [] = None"
| "find_break [c] = None"
| "find_break (c # d # cs) =
     (if c = nl \<and> d = nl then Some ([], cs) else map_option (\<lambda>br. (c # fst br, snd br)) (find_break (d # cs)))"

lemma find_break_shorter: "find_break s = Some (b, rest) \<Longrightarrow> length rest < length s"
  by (induction s arbitrary: b rule: find_break.induct) (auto split: if_splits)

text \<open>The blocks a buffer holds, and what is left of it.\<close>

function drain_blocks :: "string \<Rightarrow> string list \<times> string" where
  "drain_blocks buf =
     (case find_break buf of
        None \<Rightarrow> ([], buf)
      | Some (block, rest) \<Rightarrow> (let drained = drain_blocks rest in (block # fst drained, snd drained)))"
  by pat_completeness auto
termination by (relation "measure length") (auto dest: find_break_shorter)

declare drain_blocks.simps [simp del]

fun read_chunks :: "string \<Rightarrow> string list \<Rightarrow> string list \<times> string" where
  "read_chunks buf [] = ([], buf)"
| "read_chunks buf (chunk # rest) =
     (let drained = drain_blocks (buf @ strip_cr chunk);
          more = read_chunks (snd drained) rest
      in (fst drained @ fst more, snd more))"

definition data_line :: "string \<Rightarrow> string option" where
  "data_line line =
     (if take 5 line = ''data:'' then
        Some (let t = drop 5 line in if t \<noteq> [] \<and> hd t = CHR '' '' then tl t else t)
      else None)"

definition extractData :: "string \<Rightarrow> string option" where
  "extractData block =
     (let lines = List.map_filter data_line (split_ch nl block)
      in if lines = [] then None else Some (join [nl] lines))"

definition parseEvent :: "string \<Rightarrow> json option" where
  "parseEvent block = Option.bind (extractData block) json_parse"

text \<open>\<open>last_text\<close> is what the decoder still gives at the end of the stream.  \<open>JSON.parse\<close> of \<open>null\<close>, \<open>0\<close>, \<open>false\<close> or an empty text is no event:
  the code yields what is truthy.\<close>

definition truthy_event :: "json \<Rightarrow> bool" where
  "truthy_event v = (v \<noteq> JNull \<and> v \<noteq> JBool False \<and> v \<noteq> JNum 0 \<and> v \<noteq> JStr [])"

definition events_of :: "string list \<Rightarrow> json list" where
  "events_of bls = filter truthy_event (List.map_filter parseEvent bls)"

definition parseSSE :: "string list \<Rightarrow> string \<Rightarrow> json list" where
  "parseSSE stream last_text =
     (let got = read_chunks [] stream in events_of (fst got @ [snd got @ strip_cr last_text]))"

section \<open>Chunks do not matter\<close>

lemma find_break_append: "find_break s = Some (b, rest) \<Longrightarrow> find_break (s @ t) = Some (b, rest @ t)"
  by (induction s arbitrary: b rule: find_break.induct) (auto split: if_splits)

lemma drain_append:
  "drain_blocks (s @ t) =
     (fst (drain_blocks s) @ fst (drain_blocks (snd (drain_blocks s) @ t)), snd (drain_blocks (snd (drain_blocks s) @ t)))"
proof (induction s rule: drain_blocks.induct)
  case (1 s)
  show ?case
  proof (cases "find_break s")
    case None
    then show ?thesis by (simp add: drain_blocks.simps [of s])
  next
    case (Some br)
    then obtain b rest where br: "find_break s = Some (b, rest)" by (cases br) auto
    then have "find_break (s @ t) = Some (b, rest @ t)" by (rule find_break_append)
    then show ?thesis using 1 [OF br refl] br by (simp add: drain_blocks.simps [of "s @ t"] drain_blocks.simps [of s] Let_def)
  qed
qed

lemma read_chunks_drained:
  "drain_blocks buf = ([], buf) \<Longrightarrow> read_chunks buf stream = drain_blocks (buf @ strip_cr (concat stream))"
proof (induction stream arbitrary: buf)
  case Nil
  then show ?case by (simp add: strip_cr_def)
next
  case (Cons chunk stream)
  let ?d = "drain_blocks (buf @ strip_cr chunk)"
  have rest: "drain_blocks (snd d) = ([], snd d)" if "d = drain_blocks s" for s d
    using drain_append [of s "[]"] that by (simp add: prod_eq_iff)
  have "read_chunks (snd ?d) stream = drain_blocks (snd ?d @ strip_cr (concat stream))" using Cons.IH [OF rest] by blast
  then show ?case
    using drain_append [of "buf @ strip_cr chunk" "strip_cr (concat stream)"] by (simp add: strip_cr_def Let_def)
qed

text \<open>C30 sse_chunks_equivalent. How the network cuts the stream into chunks does not change the events read from it, even when it cuts inside a line
  end or a data line.\<close>

theorem sse_chunks_equivalent:
  assumes "concat stream = concat stream'"
  shows "parseSSE stream last_text = parseSSE stream' last_text"
proof -
  have "drain_blocks [] = ([], [])" by (simp add: drain_blocks.simps)
  then have "read_chunks [] stream = read_chunks [] stream'" using assms read_chunks_drained [of "[]"] by simp
  then show ?thesis by (simp only: parseSSE_def)
qed

theorem sse_chunks_equivalent_witness:
  "parseSSE [''data: 1'' @ [cr], [nl, cr, nl], ''data:'' @ ''2''] [] = parseSSE [''da'', ''ta: 1'' @ [cr, nl, cr, nl] @ ''data:2''] []"
  by (rule sse_chunks_equivalent) simp

text \<open>What a server writes event by event is what is read: a text without line ends in each data line.\<close>

definition sse_frame :: "string \<Rightarrow> string" where
  "sse_frame t = ''data: '' @ t @ [nl, nl]"

lemma find_break_line: "nl \<notin> set t \<Longrightarrow> find_break (t @ nl # nl # rest) = Some (t, rest)"
proof (induction t)
  case Nil
  show ?case by simp
next
  case (Cons c t)
  then show ?case by (cases t) auto
qed

lemma drain_frames:
  assumes "\<forall>t \<in> set ts. nl \<notin> set t"
  shows "drain_blocks (concat (map sse_frame ts)) = (map (\<lambda>t. ''data: '' @ t) ts, [])"
  using assms
proof (induction ts)
  case Nil
  show ?case by (simp add: drain_blocks.simps)
next
  case (Cons t ts)
  have "nl \<notin> set (''data: '' @ t)" using Cons.prems by auto
  then have "find_break (concat (map sse_frame (t # ts))) = Some (''data: '' @ t, concat (map sse_frame ts))"
    using find_break_line [of "''data: '' @ t" "concat (map sse_frame ts)"] by (simp add: sse_frame_def)
  then show ?case using Cons by (simp add: drain_blocks.simps [of "sse_frame t @ concat (map sse_frame ts)"] Let_def)
qed

lemma split_ch_single: "c \<notin> set t \<Longrightarrow> split_ch c t = [t]"
  by (induction c t rule: split_ch.induct) auto

lemma parse_frame: "nl \<notin> set t \<Longrightarrow> parseEvent (''data: '' @ t) = json_parse t"
  by (simp add: parseEvent_def extractData_def split_ch_single data_line_def map_filter_simps)

text \<open>A value printed as JSON is one line.\<close>

lemma list_all_join: "list_all P sep \<Longrightarrow> list_all (list_all P) xs \<Longrightarrow> list_all P (join sep xs)"
  by (induction sep xs rule: join.induct) auto

lemma esc_one_line: "list_all not_newline (json_esc c)"
proof -
  have "list_all (\<lambda>d. not_newline (hex_digit d)) [0..<16]" by code_simp
  then have "not_newline (hex_digit d)" if "d < 16" for d using that by (simp add: list_all_iff)
  moreover have "(of_char c :: nat) < 32 \<Longrightarrow> of_char c div 16 < (16 :: nat)" by simp
  ultimately show ?thesis by (auto simp: json_esc_def not_newline_def)
qed

lemma quote_one_line: "list_all not_newline (json_quote s)"
  using esc_one_line by (induction s) (auto simp: json_quote_def list_all_iff not_newline_def)

lemma digits_one_line: "list_all is_digit s \<Longrightarrow> list_all not_newline s"
  by (auto simp: list_all_iff is_digit_def not_newline_def)

lemma json_one_line: "printable P v \<Longrightarrow> list_all not_newline (json_str v)"
proof (induction v rule: json_str.induct)
  case (3 n)
  have "list_all not_newline (nat_str m)" for m using nat_str_digits digits_one_line by blast
  then show ?case by (simp add: int_str_def) (simp add: not_newline_def)
next
  case (5 s)
  then show ?case using quote_one_line by simp
next
  case (6 xs)
  then have "list_all (list_all not_newline) (map json_str xs)" by (simp add: list_all_iff)
  then have "list_all not_newline (join '','' (map json_str xs))" by (rule list_all_join [rotated]) (simp add: not_newline_def)
  then show ?case by simp (simp add: not_newline_def)
next
  case (7 kvs)
  have "list_all not_newline (json_quote k @ '':'' @ json_str v)" if "(k, v) \<in> set kvs" for k v
    using that 7 quote_one_line by (fastforce simp: list_all_iff not_newline_def)
  then have "list_all (list_all not_newline) (map (\<lambda>(k, v). json_quote k @ '':'' @ json_str v) kvs)" by (fastforce simp: list_all_iff)
  then have "list_all not_newline (join '','' (map (\<lambda>(k, v). json_quote k @ '':'' @ json_str v) kvs))"
    by (rule list_all_join [rotated]) (simp add: not_newline_def)
  then show ?case by simp (simp add: not_newline_def)
qed (simp_all add: not_newline_def)

lemma strip_nothing: "cr \<notin> set s \<Longrightarrow> strip_cr s = s"
  by (induction s) (auto simp: strip_cr_def)

text \<open>The values a server sends, one event each, are read back in order, however the stream is cut.\<close>

theorem sse_roundtrip:
  assumes "\<forall>v \<in> set vs. truthy_event v \<and> printable (\<lambda>t. True) v"
    and "concat stream = concat (map (\<lambda>v. sse_frame (json_str v)) vs)"
  shows "parseSSE stream [] = vs"
proof -
  let ?ts = "map json_str vs"
  have line: "nl \<notin> set (json_str v)" "cr \<notin> set (json_str v)" if "v \<in> set vs" for v
    using that assms(1) json_one_line [of "\<lambda>t. True" v] by (auto simp: list_all_iff not_newline_def)
  have "cr \<notin> set (concat stream)" unfolding assms(2) using line by (auto simp: sse_frame_def)
  then have "strip_cr (concat stream) = concat (map sse_frame ?ts)"
    using assms(2) strip_nothing [of "concat stream"] by (simp add: comp_def)
  then have "read_chunks [] stream = (map (\<lambda>t. ''data: '' @ t) ?ts, [])"
    using drain_frames [of ?ts] line read_chunks_drained [of "[]" stream] by (simp add: drain_blocks.simps)
  moreover have "parseEvent (''data: '' @ json_str v) = Some v" if "v \<in> set vs" for v
    using assms(1) that parse_frame [OF line(1)] json_parse_str [of v] by simp
  then have "List.map_filter parseEvent (map (\<lambda>t. ''data: '' @ t) ?ts) = vs"
    by (induction vs) (simp_all add: map_filter_simps)
  moreover have "parseEvent [] = None" by (simp add: parseEvent_def extractData_def data_line_def map_filter_simps)
  ultimately show ?thesis
    using assms(1) by (simp add: parseSSE_def events_of_def strip_cr_def map_filter_def)
qed

theorem sse_roundtrip_witness:
  "parseSSE [''data: {'' @ [dquote], ''type'' @ [dquote] @ '':true}'' @ [nl], [nl]] [] = [JObj [(''type'', JBool True)]]"
  by (rule sse_roundtrip) (simp_all add: truthy_event_def sse_frame_def json_quote_def json_esc_def)

end
