(* ===== verification/Gateway.thy ===== *)
theory Gateway
  imports Sse Registry
begin

text \<open>
  \<open>gateway/client.ts\<close>: one call to the model gateway.  \<open>connect\<close> gets a response with its retries, \<open>consume\<close> reads the answer off the
  event stream, and \<open>stream\<close> retries, resumes and fails over between models until an answer is complete.  What the network does
  is an input; what \<open>stream\<close> yields is a list in order.  A field of an event that has another type than the wire gives it
  reads as absent.
\<close>

section \<open>Errors\<close>

datatype gateway_kind = HttpError | TimeoutError | CancelledError | StreamError | NetworkError

record gateway_error =
  ge_message :: string
  ge_status :: nat
  ge_kind :: gateway_kind
  ge_errorType :: "string option"
  ge_code :: "string option"
  ge_model :: "string option"
  ge_window :: "string option"
  ge_resetAt :: "string option"
  ge_sessionToken :: bool

definition plain_error :: "string \<Rightarrow> nat \<Rightarrow> gateway_kind \<Rightarrow> gateway_error" where
  "plain_error m st k =
     \<lparr>ge_message = m, ge_status = st, ge_kind = k, ge_errorType = None, ge_code = None, ge_model = None, ge_window = None, ge_resetAt = None,
      ge_sessionToken = False\<rparr>"

definition modelAccessDenied :: "gateway_error \<Rightarrow> bool" where
  "modelAccessDenied e \<longleftrightarrow> ge_code e \<in> {Some ''model_access_denied'', Some ''model_not_allowed''}"

definition sessionTokenRejected :: "gateway_error \<Rightarrow> bool" where
  "sessionTokenRejected e \<longleftrightarrow> ge_sessionToken e \<and> ge_status e = 401 \<and> ge_code e = Some ''invalid_api_key''"

definition budgetExceeded :: "gateway_error \<Rightarrow> bool" where
  "budgetExceeded e \<longleftrightarrow> ge_code e = Some ''budget_exceeded''"

definition retryable_error :: "gateway_error \<Rightarrow> bool" where
  "retryable_error e \<longleftrightarrow>
     (if ge_kind e = CancelledError then False
      else if ge_code e = Some ''fallback_denied'' then False
      else if ge_kind e = TimeoutError then True
      else if ge_kind e = NetworkError then True
      else ge_status e \<in> {408, 409, 429, 529} \<or> (500 \<le> ge_status e \<and> ge_status e < 600))"

text \<open>String fields of a JSON object; the \<open>error\<close> object of a refusal's body.\<close>

definition str_field :: "string \<Rightarrow> json \<Rightarrow> string option" where
  "str_field k v = (case jget k v of Some (JStr s) \<Rightarrow> Some s | _ \<Rightarrow> None)"

definition sub_field :: "string \<Rightarrow> json \<Rightarrow> json" where
  "sub_field k v = (case jget k v of Some x \<Rightarrow> x | None \<Rightarrow> JNull)"

definition errorFields :: "string \<Rightarrow> nat \<Rightarrow> bool \<Rightarrow> json \<Rightarrow> gateway_error" where
  "errorFields m st tok body =
     (let e = sub_field ''error'' body
      in \<lparr>ge_message = m, ge_status = st, ge_kind = HttpError, ge_errorType = str_field ''type'' e, ge_code = str_field ''code'' e,
          ge_model = str_field ''model'' e, ge_window = str_field ''window'' e, ge_resetAt = str_field ''reset_at'' e, ge_sessionToken = tok\<rparr>)"

text \<open>A response that is not ok: its error, from a body that may be no JSON.\<close>

definition toError :: "bool \<Rightarrow> nat \<Rightarrow> string \<Rightarrow> string \<Rightarrow> gateway_error" where
  "toError sessionToken status statusText body =
     (let v = (case json_parse body of Some v \<Rightarrow> v | None \<Rightarrow> JNull);
          said = (case str_field ''message'' (sub_field ''error'' v) of Some (c # cs) \<Rightarrow> c # cs | _ \<Rightarrow> statusText)
      in errorFields (''gateway '' @ nat_str status @ '': '' @ said) status sessionToken v)"

text \<open>A 200 whose body is a plain JSON error.\<close>

definition json_body_error :: "nat \<Rightarrow> string \<Rightarrow> gateway_error" where
  "json_body_error status body =
     (let st = (if status = 200 then 400 else status); excerpt = take 300 body
      in case json_parse body of
           None \<Rightarrow> plain_error excerpt st HttpError
         | Some v \<Rightarrow>
             errorFields
               (case str_field ''message'' (sub_field ''error'' v) of
                  Some m \<Rightarrow> m
                | None \<Rightarrow> (case str_field ''message'' v of Some m \<Rightarrow> m | None \<Rightarrow> excerpt)) st False v)"

definition kind_name :: "gateway_kind \<Rightarrow> string" where
  "kind_name k =
     (case k of HttpError \<Rightarrow> ''http'' | TimeoutError \<Rightarrow> ''timeout'' | CancelledError \<Rightarrow> ''cancelled'' | StreamError \<Rightarrow> ''stream''
        | NetworkError \<Rightarrow> ''network'')"

text \<open>\<open>/^[A-Za-z0-9_.-]{1,64}$/\<close>\<close>

definition machine_word :: "string \<Rightarrow> bool" where
  "machine_word s \<longleftrightarrow> s \<noteq> [] \<and> length s \<le> 64 \<and> list_all (\<lambda>c. is_word c \<or> c = CHR ''.'' \<or> c = CHR ''-'') s"

definition machine_words :: "gateway_error \<Rightarrow> string list" where
  "machine_words e = filter machine_word (List.map_filter (\<lambda>x. x) [ge_errorType e, ge_code e])"

text \<open>The reason and the code a switch is announced with.\<close>

definition switchReason :: "gateway_error \<Rightarrow> string \<times> string" where
  "switchReason e =
     (if ge_kind e \<noteq> HttpError then (kind_name (ge_kind e), kind_name (ge_kind e))
      else (''gateway '' @ nat_str (ge_status e) @ (if machine_words e = [] then [] else '' '' @ join '' '' (machine_words e)),
            if 500 \<le> ge_status e then ''http_5xx'' else ''http_'' @ nat_str (ge_status e)))"

section \<open>Which model answered\<close>

fun find_sub :: "string \<Rightarrow> string \<Rightarrow> (string \<times> string) option" where
  "find_sub sep [] = (if sep = [] then Some ([], []) else None)"
| "find_sub sep (c # cs) =
     (if take (length sep) (c # cs) = sep then Some ([], drop (length sep) (c # cs))
      else map_option (\<lambda>p. (c # fst p, snd p)) (find_sub sep cs))"

text \<open>\<open>m.split(sep)[1]\<close>, when \<open>sep\<close> occurs.\<close>

definition second_part :: "string \<Rightarrow> string \<Rightarrow> string option" where
  "second_part sep m =
     (case find_sub sep m of
        None \<Rightarrow> None
      | Some (_, rest) \<Rightarrow> Some (case find_sub sep rest of None \<Rightarrow> rest | Some (x, _) \<Rightarrow> x))"

definition strip_prefix :: "string \<Rightarrow> string \<Rightarrow> string" where
  "strip_prefix p m = (if take (length p) m = p then drop (length p) m else m)"

definition openai_prefixes :: "string list" where
  "openai_prefixes = [''global.openai.'', ''us.openai.'', ''eu.openai.'', ''openai.'']"

definition at_tail :: rx where "at_tail = cats [Chr (\<lambda>c. c = CHR ''@''), Star dot, Eol]"

definition version_tail :: rx where "version_tail = cats [lit ''-v'', plus digit, Chr (\<lambda>c. c = CHR '':''), plus digit, Eol]"

definition canonicalModelId :: "string \<Rightarrow> string" where
  "canonicalModelId model =
     (let m = toLowerCase model;
          m1 = (case second_part ''.anthropic.'' m of Some x \<Rightarrow> x | None \<Rightarrow> strip_prefix ''anthropic.'' m);
          m2 = fold strip_prefix openai_prefixes m1
      in rx_replace1 version_tail [] (rx_replace1 at_tail [] m2))"

definition digits :: "nat \<Rightarrow> rx" where "digits n = cats (replicate n digit)"

definition DATED :: rx where
  "DATED =
     cats [Chr (\<lambda>c. c = CHR ''-''),
           Alt (digits 8) (cats [digits 4, Chr (\<lambda>c. c = CHR ''-''), digits 2, Chr (\<lambda>c. c = CHR ''-''), digits 2]), Eol]"

definition sameModel :: "string \<Rightarrow> string \<Rightarrow> bool" where
  "sameModel requested answering \<longleftrightarrow>
     (let r = canonicalModelId requested; s = canonicalModelId answering
      in r = s \<or> (\<not> rx_test DATED r \<and> rx_replace1 DATED [] s = r))"

definition resolvedByGateway :: "string \<Rightarrow> bool" where
  "resolvedByGateway model \<longleftrightarrow>
     (take 5 model = ''mlpal'' \<and> (drop 5 model = [] \<or> hd (drop 5 model) = CHR ''-'')) \<or> take 5 model = ''user/''"

section \<open>The request\<close>

text \<open>A block with its cache mark; a message goes out as it is unless one of its blocks is marked.\<close>

datatype wire_message = AsIs message | WithMarks role "(content_block \<times> bool) list"

definition mark_last :: "content_block list \<Rightarrow> (content_block \<times> bool) list" where
  "mark_last bs = map (\<lambda>ib. (snd ib, Suc (fst ib) = length bs)) (List.enumerate 0 bs)"

definition withConversationCache :: "message list \<Rightarrow> wire_message list" where
  "withConversationCache messages =
     map (\<lambda>im. if length messages \<le> fst im + 2 then WithMarks (role (snd im)) (mark_last (as_blocks (content (snd im)))) else AsIs (snd im))
       (List.enumerate 0 messages)"

record model_request =
  rq_models :: "string list"
  rq_system :: "string option"
  rq_messages :: "message list"
  rq_tools :: "json list"
  rq_toolChoice :: "json option"
  rq_maxTokens :: nat
  rq_temperature :: "rat option"
  rq_effort :: "string option"
  rq_noFallback :: bool

text \<open>\<open>rq_models\<close> is the primary and the fallback models the request names.\<close>

record request_body =
  bd_model :: string
  bd_messages :: "wire_message list"
  bd_maxTokens :: nat
  bd_system :: "(string \<times> bool) option"
  bd_tools :: "json list option"
  bd_toolChoice :: "json option"
  bd_temperature :: "rat option"
  bd_effort :: "string option"

definition buildBody :: "model_request \<Rightarrow> string \<Rightarrow> request_body" where
  "buildBody req model =
     \<lparr>bd_model = model, bd_messages = withConversationCache (rq_messages req), bd_maxTokens = rq_maxTokens req,
      bd_system = map_option (\<lambda>s. (s, True)) (rq_system req),
      bd_tools = (if rq_tools req = [] then None else Some (rq_tools req)), bd_toolChoice = rq_toolChoice req,
      bd_temperature = rq_temperature req, bd_effort = rq_effort req\<rparr>"

definition failover_ladder :: "model_request \<Rightarrow> string list" where
  "failover_ladder req =
     (case rq_models req of [] \<Rightarrow> [] | m # ms \<Rightarrow> m # filter (\<lambda>x. x \<noteq> [] \<and> x \<noteq> m) ms)"

section \<open>Connecting\<close>

text \<open>What is thrown: a gateway error, or something else that looks like an abort, like a lost connection, or like neither.\<close>

datatype raw_kind = AbortLike | NetworkLike | Unlike

datatype raised = GwErr gateway_error | Raw raw_kind string

datatype response_body = NoBody | JsonBody string | EventStream "json list" "(raw_kind \<times> string) option"

text \<open>The events of a stream, and the error that ends it when it does not end by itself.\<close>

record response =
  rs_status :: nat
  rs_body :: response_body
  rs_computeUnits :: "rat option"
  rs_effort :: "(string \<times> string) option"

datatype fetch_outcome =
    NoCredential gateway_error
  | FetchOk response
  | FetchRefused gateway_error "rat option"
  | FetchThrew raw_kind string

text \<open>One attempt: whether the person has cancelled before it and by its end, and what the network does with a request whose signal is
  still live.\<close>

record net_step =
  ns_cancelled :: bool
  ns_cancelledBy :: bool
  ns_outcome :: fetch_outcome

record gateway_config =
  gc_maxRetries :: nat
  gc_maxResume :: nat
  gc_timeoutMs :: nat
  gc_number :: "string \<Rightarrow> rat option"

text \<open>\<open>gc_number\<close> is \<open>Number(s)\<close> of a string, when it is finite.\<close>

record conn_state =
  cn_step :: nat
  cn_attempt :: nat
  cn_reread :: bool
  cn_dead :: bool
  cn_sent :: nat
  cn_slept :: "rat list"

definition fresh_conn :: conn_state where
  "fresh_conn = \<lparr>cn_step = 0, cn_attempt = 0, cn_reread = False, cn_dead = False, cn_sent = 0, cn_slept = []\<rparr>"

definition backoffMs :: "nat \<Rightarrow> nat" where
  "backoffMs attempt = min (1000 * 2 ^ (attempt - 1)) 8000"

definition retryDelay :: "rat option \<Rightarrow> nat \<Rightarrow> rat" where
  "retryDelay retryAfter attempt = (case retryAfter of Some secs \<Rightarrow> min (secs * 1000) 30000 | None \<Rightarrow> of_nat (backoffMs attempt))"

definition cancelled_error :: gateway_error where
  "cancelled_error = plain_error ''request cancelled'' 0 CancelledError"

definition try_again :: "rat \<Rightarrow> conn_state \<Rightarrow> conn_state" where
  "try_again delay c = c\<lparr>cn_attempt := cn_attempt c + 1, cn_slept := cn_slept c @ [delay]\<rparr>"

text \<open>
  The idle signal of a call is one controller: once its timer has fired it stays aborted, whatever is re-armed, and a request with an
  aborted signal is rejected at once.
\<close>

definition fetch_with :: "bool \<Rightarrow> fetch_outcome \<Rightarrow> fetch_outcome" where
  "fetch_with dead outcome =
     (case outcome of NoCredential e \<Rightarrow> NoCredential e | _ \<Rightarrow> if dead then FetchThrew AbortLike ''aborted'' else outcome)"

definition timed_out :: "gateway_config \<Rightarrow> gateway_error" where
  "timed_out cfg = plain_error (''request timed out after '' @ nat_str (gc_timeoutMs cfg) @ ''ms'') 408 TimeoutError"

definition connect_caught :: "gateway_config \<Rightarrow> bool \<Rightarrow> raised \<Rightarrow> conn_state \<Rightarrow> (raised + response) + conn_state" where
  "connect_caught cfg cancelled e c =
     (let spent = gc_maxRetries cfg \<le> cn_attempt c; again = try_again (of_nat (backoffMs (cn_attempt c + 1))) c
      in case e of
           GwErr g \<Rightarrow> if \<not> retryable_error g \<or> spent then Inl (Inl e) else Inr again
         | Raw AbortLike m \<Rightarrow>
             if cancelled then Inl (Inl (GwErr cancelled_error))
             else if spent then Inl (Inl (GwErr (timed_out cfg)))
             else Inr (again\<lparr>cn_dead := True\<rparr>)
         | Raw k m \<Rightarrow> if spent then Inl (Inl e) else Inr again)"

definition connect_step :: "gateway_config \<Rightarrow> net_step \<Rightarrow> conn_state \<Rightarrow> ((raised + response) + conn_state) \<times> nat" where
  "connect_step cfg n c0 =
     (let c = c0\<lparr>cn_step := cn_step c0 + 1\<rparr>; c1 = c\<lparr>cn_sent := cn_sent c + 1\<rparr>
      in if ns_cancelled n then (Inl (Inl (GwErr cancelled_error)), cn_sent c0)
         else (case fetch_with (cn_dead c0) (ns_outcome n) of
                 NoCredential e \<Rightarrow> (connect_caught cfg (ns_cancelledBy n) (GwErr e) c, cn_sent c)
               | FetchOk res \<Rightarrow> (Inl (Inr res), cn_sent c1)
               | FetchRefused err retryAfter \<Rightarrow>
                   (if sessionTokenRejected err \<and> \<not> cn_reread c1 then Inr (c1\<lparr>cn_reread := True\<rparr>)
                    else if \<not> retryable_error err \<or> gc_maxRetries cfg \<le> cn_attempt c1 then Inl (Inl (GwErr err))
                    else Inr (try_again (retryDelay retryAfter (cn_attempt c1 + 1)) c1), cn_sent c1)
               | FetchThrew k m \<Rightarrow> (connect_caught cfg (ns_cancelledBy n) (Raw k m) c1, cn_sent c1)))"

text \<open>The result, when the fuel is enough, with the number of requests sent.\<close>

fun connect_loop :: "gateway_config \<Rightarrow> (nat \<Rightarrow> net_step) \<Rightarrow> nat \<Rightarrow> conn_state \<Rightarrow> (raised + response) option \<times> nat" where
  "connect_loop cfg net 0 c = (None, cn_sent c)"
| "connect_loop cfg net (Suc fuel) c =
     (case connect_step cfg (net (cn_step c)) c of
        (Inl res, sent) \<Rightarrow> (Some res, sent)
      | (Inr c', sent) \<Rightarrow> connect_loop cfg net fuel c')"

definition connect_fuel :: "gateway_config \<Rightarrow> nat" where
  "connect_fuel cfg = gc_maxRetries cfg + 2"

definition connect :: "gateway_config \<Rightarrow> (nat \<Rightarrow> net_step) \<Rightarrow> (raised + response) \<times> nat" where
  "connect cfg net =
     (let res = connect_loop cfg net (connect_fuel cfg) fresh_conn
      in (case fst res of Some r \<Rightarrow> r | None \<Rightarrow> Inl (GwErr (timed_out cfg)), snd res))"

section \<open>How often a call connects\<close>

definition attempts_left :: "gateway_config \<Rightarrow> conn_state \<Rightarrow> nat" where
  "attempts_left cfg c = (gc_maxRetries cfg - cn_attempt c) + (if cn_reread c then 0 else 1)"

lemma connect_step_less: "fst (connect_step cfg n c) = Inr c' \<Longrightarrow> attempts_left cfg c' < attempts_left cfg c"
  by (auto simp: connect_step_def connect_caught_def try_again_def attempts_left_def Let_def
    split: fetch_outcome.splits if_splits raised.splits raw_kind.splits)

lemma connect_step_sent:
  "snd (connect_step cfg n c) \<le> Suc (cn_sent c)"
  "fst (connect_step cfg n c) = Inr c' \<Longrightarrow> cn_sent c' = snd (connect_step cfg n c)"
  by (auto simp: connect_step_def connect_caught_def try_again_def Let_def split: fetch_outcome.splits if_splits raised.splits raw_kind.splits)

lemma connect_loop_ends: "attempts_left cfg c < fuel \<Longrightarrow> fst (connect_loop cfg net fuel c) \<noteq> None"
proof (induction fuel arbitrary: c)
  case 0
  then show ?case by simp
next
  case (Suc fuel)
  obtain r k where step: "connect_step cfg (net (cn_step c)) c = (r, k)" by force
  show ?case
  proof (cases r)
    case (Inl x)
    with step show ?thesis by simp
  next
    case (Inr c')
    with step have "attempts_left cfg c' < attempts_left cfg c" using connect_step_less [of cfg "net (cn_step c)" c c'] by simp
    then have "fst (connect_loop cfg net fuel c') \<noteq> None" using Suc by simp
    with step Inr show ?thesis by simp
  qed
qed

lemma connect_loop_sent: "snd (connect_loop cfg net fuel c) \<le> cn_sent c + fuel"
proof (induction fuel arbitrary: c)
  case 0
  then show ?case by simp
next
  case (Suc fuel)
  obtain r k where step: "connect_step cfg (net (cn_step c)) c = (r, k)" by force
  then have k: "k \<le> Suc (cn_sent c)" using connect_step_sent(1) [of cfg "net (cn_step c)" c] by simp
  show ?case
  proof (cases r)
    case (Inl x)
    with step k show ?thesis by simp
  next
    case (Inr c')
    with step have "cn_sent c' = k" using connect_step_sent(2) [of cfg "net (cn_step c)" c c'] by simp
    then have "snd (connect_loop cfg net fuel c') \<le> k + fuel" using Suc [of c'] by simp
    with step Inr k show ?thesis by simp
  qed
qed

lemma connect_ends: "fst (connect_loop cfg net (connect_fuel cfg) fresh_conn) \<noteq> None"
  by (rule connect_loop_ends) (simp add: attempts_left_def fresh_conn_def connect_fuel_def)

lemma connect_sent: "snd (connect cfg net) \<le> gc_maxRetries cfg + 2"
  using connect_loop_sent [of cfg net "connect_fuel cfg" fresh_conn] by (simp add: connect_def Let_def connect_fuel_def fresh_conn_def)

section \<open>After an idle timeout\<close>

lemma connect_caught_keeps: "connect_caught cfg b e c = Inr c' \<Longrightarrow> cn_dead c \<Longrightarrow> cn_dead c'"
  by (auto simp: connect_caught_def try_again_def Let_def split: if_splits raised.splits raw_kind.splits)

lemma connect_caught_fails: "connect_caught cfg b e c \<noteq> Inl (Inr res)"
  by (auto simp: connect_caught_def Let_def split: raised.split raw_kind.split)

lemma connect_dead:
  "cn_dead c \<Longrightarrow> fst (connect_loop cfg net fuel c) \<noteq> Some (Inr res)"
proof (induction fuel arbitrary: c)
  case 0
  then show ?case by simp
next
  case (Suc fuel)
  obtain r k where step: "connect_step cfg (net (cn_step c)) c = (r, k)" by force
  have "r \<noteq> Inl (Inr res)"
    using step Suc.prems connect_caught_fails
    by (auto simp: connect_step_def Let_def fetch_with_def split: fetch_outcome.splits if_splits)
  moreover have "cn_dead c'" if "r = Inr c'" for c'
    using step Suc.prems that connect_caught_keeps
    by (fastforce simp: connect_step_def Let_def fetch_with_def split: fetch_outcome.splits if_splits)
  ultimately show ?case using step Suc.IH by (cases r) auto
qed

text \<open>A handshake that the idle timer has ended is retried in vain: whatever the network would answer to the next
  attempts, they are rejected with the signal that stays aborted, and the connection fails.\<close>

theorem idle_timeout_is_final:
  assumes "ns_outcome (net 0) = FetchThrew AbortLike m" "\<not> ns_cancelled (net 0)"
  shows "\<exists>e. fst (connect cfg net) = Inl e"
proof -
  have "fst (connect_loop cfg net (connect_fuel cfg) fresh_conn) \<noteq> Some (Inr res)" for res
  proof (cases "connect_step cfg (net 0) fresh_conn")
    case (Pair r k)
    show ?thesis
    proof (cases r)
      case (Inl x)
      with Pair assms connect_caught_fails show ?thesis
        by (auto simp: connect_fuel_def connect_step_def fetch_with_def fresh_conn_def Let_def)
    next
      case (Inr c')
      with Pair assms have "cn_dead c'"
        by (auto simp: connect_step_def fetch_with_def fresh_conn_def connect_caught_def try_again_def Let_def split: if_splits)
      moreover obtain n where "connect_fuel cfg = Suc n" by (simp add: connect_fuel_def)
      moreover have "cn_step fresh_conn = 0" by (simp add: fresh_conn_def)
      ultimately show ?thesis using Pair Inr connect_dead by simp
    qed
  qed
  then show ?thesis
    using connect_ends [of cfg net] by (cases "fst (connect cfg net)") (auto simp: connect_def Let_def split: option.splits)
qed

definition quick_config :: gateway_config where
  "quick_config = \<lparr>gc_maxRetries = 3, gc_maxResume = 8, gc_timeoutMs = 300000, gc_number = (\<lambda>t. None)\<rparr>"

definition slow_once :: "nat \<Rightarrow> net_step" where
  "slow_once i =
     \<lparr>ns_cancelled = False, ns_cancelledBy = False,
      ns_outcome = (if i = 0 then FetchThrew AbortLike ''idle'' else FetchOk \<lparr>rs_status = 200, rs_body = NoBody, rs_computeUnits = None, rs_effort = None\<rparr>)\<rparr>"

theorem idle_timeout_is_final_witness: "\<exists>e. fst (connect quick_config slow_once) = Inl e"
  by (rule idle_timeout_is_final [where m = "''idle''"]) (simp_all add: slow_once_def)

section \<open>What a request carries\<close>

text \<open>The cache marks change nothing else of a request: the messages that go out say what was given, at most two blocks of them are
  marked, each the last of one of the last two messages.\<close>

definition wire_says :: "wire_message \<Rightarrow> role \<times> content_block list" where
  "wire_says w = (case w of AsIs m \<Rightarrow> (role m, as_blocks (content m)) | WithMarks r bs \<Rightarrow> (r, map fst bs))"

definition marks_of :: "wire_message \<Rightarrow> nat" where
  "marks_of w = (case w of AsIs m \<Rightarrow> 0 | WithMarks r bs \<Rightarrow> length (filter snd bs))"

lemma filter_enumerate_none: "filter (\<lambda>ib. fst ib = n) (List.enumerate (Suc n) xs) = []"
  by (auto simp: filter_empty_conv in_set_enumerate_eq)

lemma mark_last_says: "map fst (mark_last bs) = bs"
  by (simp add: mark_last_def comp_def)

lemma mark_last_marks: "length (filter snd (mark_last bs)) \<le> 1"
proof -
  have "length (filter (\<lambda>ib. Suc (fst ib) = k) (List.enumerate n xs)) \<le> 1" for k n and xs :: "content_block list"
    by (induction xs arbitrary: n) (auto simp: filter_enumerate_none)
  moreover have "filter snd (mark_last bs) = map (\<lambda>ib. (snd ib, Suc (fst ib) = length bs)) (filter (\<lambda>ib. Suc (fst ib) = length bs) (List.enumerate 0 bs))"
    by (simp add: mark_last_def filter_map comp_def)
  ultimately show ?thesis by simp
qed

lemma marked_two:
  "(\<And>m. g m \<le> 1) \<Longrightarrow>
   sum_list (map (\<lambda>im. if k + length ms \<le> fst im + 2 then g (snd im) else (0 :: nat)) (List.enumerate k ms)) \<le> min 2 (length ms)"
proof (induction ms arbitrary: k)
  case Nil
  then show ?case by simp
next
  case (Cons m ms)
  define rest where "rest = sum_list (map (\<lambda>im. if Suc k + length ms \<le> fst im + 2 then g (snd im) else 0) (List.enumerate (Suc k) ms))"
  define total where "total = sum_list (map (\<lambda>im. if k + length (m # ms) \<le> fst im + 2 then g (snd im) else 0) (List.enumerate k (m # ms)))"
  have "rest \<le> min 2 (length ms)" unfolding rest_def using Cons by blast
  moreover have "g m \<le> 1" using Cons.prems .
  moreover have "total = (if length ms \<le> 1 then g m else 0) + rest" by (simp add: total_def rest_def)
  ultimately have "total \<le> min 2 (length (m # ms))" by (auto split: if_splits)
  then show ?case by (simp only: total_def)
qed

theorem cache_marks_only:
  "map wire_says (withConversationCache ms) = map (\<lambda>m. (role m, as_blocks (content m))) ms \<and>
   sum_list (map marks_of (withConversationCache ms)) \<le> 2"
proof
  have "map wire_says (withConversationCache ms) = map (\<lambda>im. (role (snd im), as_blocks (content (snd im)))) (List.enumerate 0 ms)"
    by (simp add: withConversationCache_def wire_says_def mark_last_says)
  also have "\<dots> = map (\<lambda>m. (role m, as_blocks (content m))) (map snd (List.enumerate 0 ms))" by (simp only: map_map comp_def)
  finally show "map wire_says (withConversationCache ms) = map (\<lambda>m. (role m, as_blocks (content m))) ms" by simp
  let ?g = "\<lambda>m. length (filter snd (mark_last (as_blocks (content m))))"
  have "map marks_of (withConversationCache ms) = map (\<lambda>im. if length ms \<le> fst im + 2 then ?g (snd im) else 0) (List.enumerate 0 ms)"
    by (simp add: withConversationCache_def marks_of_def)
  then show "sum_list (map marks_of (withConversationCache ms)) \<le> 2"
    using marked_two [of ?g 0 ms] mark_last_marks by simp
qed

section \<open>What a switch says\<close>

text \<open>The reason a switch is announced with is made of the gateway's machine fields only: no text of a provider gets into it.\<close>

theorem switch_reason_is_machine:
  "list_all (\<lambda>c. is_word c \<or> c \<in> {CHR '' '', CHR ''.'', CHR ''-''}) (fst (switchReason e))"
proof -
  let ?P = "\<lambda>c. is_word c \<or> c \<in> {CHR '' '', CHR ''.'', CHR ''-''}"
  have "list_all ?P (nat_str n)" for n using nat_str_digits [of n] by (auto simp: list_all_iff is_word_def)
  moreover have "list_all (list_all ?P) (machine_words e)"
    by (auto simp: machine_words_def machine_word_def list_all_iff map_filter_simps split: option.splits)
  then have "list_all ?P (join '' '' (machine_words e))" by (rule list_all_join [rotated]) simp
  moreover have "list_all ?P (kind_name k)" for k by (cases k) (simp_all add: kind_name_def is_word_def is_alpha_def is_lower_def)
  ultimately show ?thesis by (simp add: switchReason_def is_word_def is_alpha_def is_lower_def)
qed

end
