(* ===== verification/GatewayStream.thy ===== *)
theory GatewayStream
  imports Gateway
begin

text \<open>
  \<open>gateway/client.ts\<close>, the answer: \<open>consume\<close> folds the events of one response into a message, \<open>stream\<close> runs attempts until one is complete,
  resuming after a lost connection and failing over to the next model.
\<close>

section \<open>Blocks of an answer\<close>

datatype acc_block = AccText string | AccThinking string "string option" | AccTool string string string

definition text_or :: "string option \<Rightarrow> string" where
  "text_or s = (case s of Some t \<Rightarrow> t | None \<Rightarrow> [])"

definition startBlock :: "json \<Rightarrow> acc_block" where
  "startBlock cb =
     (let t = str_field ''type'' cb
      in if t = Some ''text'' then AccText (text_or (str_field ''text'' cb))
         else if t = Some ''thinking'' then AccThinking (text_or (str_field ''thinking'' cb)) (str_field ''signature'' cb)
         else if t = Some ''tool_use'' then AccTool (text_or (str_field ''id'' cb)) (text_or (str_field ''name'' cb)) []
         else AccText [])"

text \<open>The streamed input of a call: read tolerantly, and marked when it is no object.\<close>

definition parseJsonInput :: "string \<Rightarrow> json" where
  "parseJsonInput t =
     (let trimmed = trim t
      in if trimmed = [] then JObj []
         else (case parseJsonLenient trimmed of
                 Inr (JObj kvs) \<Rightarrow> JObj kvs
               | _ \<Rightarrow> JObj [(MALFORMED_INPUT_KEY, JStr (take 600 trimmed))]))"

definition assembled :: "acc_block \<Rightarrow> content_block" where
  "assembled b =
     (case b of AccText t \<Rightarrow> TextBlock t | AccThinking t s \<Rightarrow> ThinkingBlock t s | AccTool i n t \<Rightarrow> ToolUse i n (parseJsonInput t))"

definition assembleBlocks :: "(nat, acc_block) jmap \<Rightarrow> content_block list" where
  "assembleBlocks blocks = map (\<lambda>ib. assembled (snd ib)) (sort_key fst blocks)"

section \<open>Reading one response\<close>

record model_switch =
  sw_from :: string
  sw_to :: string
  sw_code :: string
  sw_reason :: string

datatype stream_item = Item stream_delta | Switch model_switch

record usage_trailer =
  ut_computeUnits :: "rat option"
  ut_servingBackend :: "string option"
  ut_traceId :: "string option"
  ut_reasoningTokens :: "nat option"

record consume_state =
  cs_blocks :: "(nat, acc_block) jmap"
  cs_model :: string
  cs_usage :: usage
  cs_stop :: "string option"
  cs_sawStop :: bool
  cs_trailer :: usage_trailer

definition nat_field :: "string \<Rightarrow> json \<Rightarrow> nat option" where
  "nat_field k v = (case jget k v of Some (JNum n) \<Rightarrow> if 0 \<le> n then Some (nat n) else None | _ \<Rightarrow> None)"

definition consume_start :: "string \<Rightarrow> consume_state" where
  "consume_start requested =
     \<lparr>cs_blocks = [], cs_model = requested, cs_usage = emptyUsage, cs_stop = None, cs_sawStop = False,
      cs_trailer = \<lparr>ut_computeUnits = None, ut_servingBackend = None, ut_traceId = None, ut_reasoningTokens = None\<rparr>\<rparr>"

definition normalizeUsage :: "json \<Rightarrow> usage" where
  "normalizeUsage u =
     \<lparr>input_tokens = or_zero (nat_field ''input_tokens'' u), output_tokens = or_zero (nat_field ''output_tokens'' u),
      cache_creation = nat_field ''cache_creation_input_tokens'' u, cache_read = nat_field ''cache_read_input_tokens'' u, compute_units = None\<rparr>"

definition swap_switch :: "string \<Rightarrow> string \<Rightarrow> model_switch" where
  "swap_switch requested m =
     \<lparr>sw_from = requested, sw_to = m, sw_code = ''gateway_swap'', sw_reason = ''the gateway served another model''\<rparr>"

definition denied_swap :: "string \<Rightarrow> string \<Rightarrow> gateway_error" where
  "denied_swap requested m =
     (plain_error (''the gateway answered with '' @ m @ '' instead of '' @ requested @ '', and model.fallback is deny'') 409 HttpError)
       \<lparr>ge_errorType := Some ''fallback_denied'', ge_code := Some ''fallback_denied'', ge_model := Some m\<rparr>"

definition other_model :: "string \<Rightarrow> string option \<Rightarrow> string option" where
  "other_model requested m =
     (case m of
        Some (c # cs) \<Rightarrow> if \<not> resolvedByGateway requested \<and> \<not> sameModel requested (c # cs) then Some (c # cs) else None
      | _ \<Rightarrow> None)"

definition message_start :: "bool \<Rightarrow> string \<Rightarrow> json \<Rightarrow> consume_state \<Rightarrow> stream_item list \<times> (gateway_error + consume_state)" where
  "message_start noFallback requested ev s =
     (let msg = sub_field ''message'' ev;
          m = str_field ''model'' msg;
          s1 = (case m of Some (c # cs) \<Rightarrow> s\<lparr>cs_model := c # cs\<rparr> | _ \<Rightarrow> s);
          s2 = (case jget ''usage'' msg of Some (JObj kvs) \<Rightarrow> s1\<lparr>cs_usage := normalizeUsage (JObj kvs)\<rparr> | _ \<Rightarrow> s1)
      in case other_model requested m of
           None \<Rightarrow> ([], Inr s2)
         | Some x \<Rightarrow> if noFallback then ([], Inl (denied_swap requested x)) else ([Switch (swap_switch requested x)], Inr s2))"

definition block_start :: "json \<Rightarrow> consume_state \<Rightarrow> stream_item list \<times> consume_state" where
  "block_start ev s =
     (let cb = sub_field ''content_block'' ev; b = startBlock cb
      in (case b of AccTool i n t \<Rightarrow> [Item (ToolUseStart i n)] | _ \<Rightarrow> [],
          s\<lparr>cs_blocks := jmap_set (or_zero (nat_field ''index'' ev)) b (cs_blocks s)\<rparr>))"

definition block_delta :: "json \<Rightarrow> consume_state \<Rightarrow> stream_item list \<times> consume_state" where
  "block_delta ev s =
     (let i = or_zero (nat_field ''index'' ev);
          delta = sub_field ''delta'' ev;
          t = str_field ''type'' delta;
          put = (\<lambda>b. s\<lparr>cs_blocks := jmap_set i b (cs_blocks s)\<rparr>)
      in case map_of (cs_blocks s) i of
           None \<Rightarrow> ([], s)
         | Some (AccText x) \<Rightarrow>
             if t = Some ''text_delta'' then
               (let d = text_or (str_field ''text'' delta) in ([Item (TextDelta d)], put (AccText (x @ d))))
             else ([], s)
         | Some (AccTool n k x) \<Rightarrow>
             if t = Some ''input_json_delta'' then ([], put (AccTool n k (x @ text_or (str_field ''partial_json'' delta)))) else ([], s)
         | Some (AccThinking x g) \<Rightarrow>
             if t = Some ''thinking_delta'' then
               (let d = text_or (str_field ''thinking'' delta) in ([Item (ThinkingDelta d)], put (AccThinking (x @ d) g)))
             else if t = Some ''signature_delta'' then
               ([], put (AccThinking x (Some (text_or g @ text_or (str_field ''signature'' delta)))))
             else ([], s))"

definition merge_count :: "nat option \<Rightarrow> nat \<Rightarrow> nat" where
  "merge_count new old = (case new of Some n \<Rightarrow> n | None \<Rightarrow> old)"

definition message_delta :: "json \<Rightarrow> consume_state \<Rightarrow> consume_state" where
  "message_delta ev s =
     (let u = sub_field ''usage'' ev; old = cs_usage s;
          reason = str_field ''stop_reason'' (sub_field ''delta'' ev)
      in s\<lparr>cs_stop := (case reason of Some (c # cs) \<Rightarrow> Some (c # cs) | _ \<Rightarrow> cs_stop s),
          cs_usage := old\<lparr>input_tokens := (case nat_field ''input_tokens'' u of Some (Suc n) \<Rightarrow> Suc n | _ \<Rightarrow> input_tokens old),
            output_tokens := merge_count (nat_field ''output_tokens'' u) (output_tokens old),
            cache_creation := (case nat_field ''cache_creation_input_tokens'' u of Some n \<Rightarrow> Some n | None \<Rightarrow> cache_creation old),
            cache_read := (case nat_field ''cache_read_input_tokens'' u of Some n \<Rightarrow> Some n | None \<Rightarrow> cache_read old)\<rparr>\<rparr>)"

definition stream_error :: "json \<Rightarrow> gateway_error" where
  "stream_error ev =
     (let e = sub_field ''error'' ev
      in (plain_error (case str_field ''message'' e of Some m \<Rightarrow> m | None \<Rightarrow> ''stream error'') 502 StreamError)
           \<lparr>ge_errorType := str_field ''type'' e\<rparr>)"

definition read_units :: "(string \<Rightarrow> rat option) \<Rightarrow> json \<Rightarrow> rat option" where
  "read_units number ev =
     (case jget ''compute_units'' ev of Some (JStr t) \<Rightarrow> number t | Some (JNum n) \<Rightarrow> Some (of_int n) | Some (JFrac q) \<Rightarrow> Some q | _ \<Rightarrow> None)"

definition usage_event :: "(string \<Rightarrow> rat option) \<Rightarrow> json \<Rightarrow> usage_trailer" where
  "usage_event number ev =
     \<lparr>ut_computeUnits = read_units number ev, ut_servingBackend = str_field ''serving_backend'' ev, ut_traceId = str_field ''trace_id'' ev,
      ut_reasoningTokens = nat_field ''reasoning_tokens'' (sub_field ''usage'' ev)\<rparr>"

text \<open>One event.\<close>

definition consume_event ::
  "(string \<Rightarrow> rat option) \<Rightarrow> bool \<Rightarrow> string \<Rightarrow> json \<Rightarrow> consume_state \<Rightarrow> stream_item list \<times> (gateway_error + consume_state)" where
  "consume_event number noFallback requested ev s =
     (let t = str_field ''type'' ev
      in if t = Some ''message_start'' then message_start noFallback requested ev s
         else if t = Some ''content_block_start'' then (let r = block_start ev s in (fst r, Inr (snd r)))
         else if t = Some ''content_block_delta'' then (let r = block_delta ev s in (fst r, Inr (snd r)))
         else if t = Some ''message_delta'' then ([], Inr (message_delta ev s))
         else if t = Some ''message_stop'' then ([], Inr (s\<lparr>cs_sawStop := True\<rparr>))
         else if t = Some ''error'' then ([], Inl (stream_error ev))
         else if t = Some ''mlpal_usage'' then ([], Inr (s\<lparr>cs_trailer := usage_event number ev\<rparr>))
         else ([], Inr s))"

fun consume_events ::
  "(string \<Rightarrow> rat option) \<Rightarrow> bool \<Rightarrow> string \<Rightarrow> json list \<Rightarrow> consume_state \<Rightarrow> stream_item list \<times> (gateway_error + consume_state)" where
  "consume_events number noFallback requested [] s = ([], Inr s)"
| "consume_events number noFallback requested (ev # evs) s =
     (case consume_event number noFallback requested ev s of
        (items, Inl e) \<Rightarrow> (items, Inl e)
      | (items, Inr s') \<Rightarrow>
          (let rest = consume_events number noFallback requested evs s' in (items @ fst rest, snd rest)))"

text \<open>A stream that ends without a stop was cut off: it is an error to resume from, not an answer.\<close>

definition consume ::
  "(string \<Rightarrow> rat option) \<Rightarrow> bool \<Rightarrow> string \<Rightarrow> json list \<Rightarrow> (raw_kind \<times> string) option \<Rightarrow> stream_item list \<times> (raised + consume_state)" where
  "consume number noFallback requested events ending =
     (let got = consume_events number noFallback requested events (consume_start requested)
      in (fst got,
          case snd got of
            Inl e \<Rightarrow> Inl (GwErr e)
          | Inr s \<Rightarrow>
              (case ending of
                 Some (k, m) \<Rightarrow> Inl (Raw k m)
               | None \<Rightarrow>
                   if \<not> cs_sawStop s \<and> cs_stop s = None then Inl (GwErr (plain_error ''stream closed before completion'' 0 NetworkError))
                   else Inr s)))"

section \<open>Attempts\<close>

record gateway_result =
  gr_model :: string
  gr_message :: message
  gr_usage :: usage
  gr_stopReason :: "string option"
  gr_fallback :: "(string \<times> string \<times> string) option"
  gr_computeUnits :: "rat option"
  gr_trailer :: usage_trailer
  gr_attempts :: nat
  gr_effort :: "(string \<times> string) option"

record stream_state =
  ss_model :: nat
  ss_attempt :: nat
  ss_resume :: nat
  ss_streamResume :: nat
  ss_lastSwitch :: "model_switch option"
  ss_announced :: "(string \<times> string) list"
  ss_primary :: "gateway_error option"
  ss_sent :: nat
  ss_out :: "stream_item list"

text \<open>What a round meets: the network of its connect, and whether the person has cancelled by the time it fails.\<close>

record round_input =
  ri_net :: "nat \<Rightarrow> net_step"
  ri_aborted :: bool

definition MAX_STREAM_RETRY :: nat where "MAX_STREAM_RETRY = 2"
definition MAX_STREAM_RESUME :: nat where "MAX_STREAM_RESUME = 2"

definition normalizeError :: "bool \<Rightarrow> raised \<Rightarrow> raised" where
  "normalizeError aborted e =
     (case e of
        GwErr g \<Rightarrow> GwErr g
      | Raw k m \<Rightarrow>
          if aborted then GwErr cancelled_error
          else (case k of
                  AbortLike \<Rightarrow> GwErr (plain_error ''request timed out'' 408 TimeoutError)
                | NetworkLike \<Rightarrow> GwErr (plain_error ''connection lost'' 0 NetworkError)
                | Unlike \<Rightarrow> Raw k m))"

text \<open>An item is yielded, but a switch already announced is not announced again.\<close>

definition yield_item :: "stream_item \<Rightarrow> stream_state \<Rightarrow> stream_state" where
  "yield_item x s =
     (case x of
        Item d \<Rightarrow> s\<lparr>ss_out := ss_out s @ [x]\<rparr>
      | Switch w \<Rightarrow>
          if (sw_from w, sw_to w) \<in> set (ss_announced s) then s
          else s\<lparr>ss_announced := ss_announced s @ [(sw_from w, sw_to w)], ss_lastSwitch := Some w, ss_out := ss_out s @ [x]\<rparr>)"

definition is_item :: "stream_item \<Rightarrow> bool" where
  "is_item x = (case x of Item d \<Rightarrow> True | Switch w \<Rightarrow> False)"

definition read_response :: "gateway_config \<Rightarrow> model_request \<Rightarrow> string \<Rightarrow> response \<Rightarrow> stream_item list \<times> (raised + consume_state)" where
  "read_response cfg req model res =
     (case rs_body res of
        NoBody \<Rightarrow> ([], Inl (GwErr (plain_error ''no response body'' 502 HttpError)))
      | JsonBody t \<Rightarrow> ([], Inl (GwErr (json_body_error (rs_status res) t)))
      | EventStream events ending \<Rightarrow> consume (gc_number cfg) (rq_noFallback req) model events ending)"

definition final_result :: "model_request \<Rightarrow> response \<Rightarrow> consume_state \<Rightarrow> stream_state \<Rightarrow> gateway_result" where
  "final_result req res c s =
     \<lparr>gr_model = cs_model c, gr_message = assistant_msg (Blocks (assembleBlocks (cs_blocks c))), gr_usage = cs_usage c, gr_stopReason = cs_stop c,
      gr_fallback = map_option (\<lambda>w. (hd (failover_ladder req), sw_reason w, sw_code w)) (ss_lastSwitch s),
      gr_computeUnits = (case ut_computeUnits (cs_trailer c) of Some u \<Rightarrow> Some u | None \<Rightarrow> rs_computeUnits res),
      gr_trailer = cs_trailer c, gr_attempts = ss_sent s, gr_effort = rs_effort res\<rparr>"

definition reset_turn :: "stream_state \<Rightarrow> stream_state" where
  "reset_turn s = s\<lparr>ss_attempt := 0, ss_out := ss_out s @ [Item ResetDelta]\<rparr>"

text \<open>The next model, announced before its first delta.\<close>

definition fail_over :: "model_request \<Rightarrow> string \<Rightarrow> string \<Rightarrow> stream_state \<Rightarrow> stream_state" where
  "fail_over req reason code s =
     (let from = failover_ladder req ! ss_model s; to = failover_ladder req ! (ss_model s + 1);
          w = \<lparr>sw_from = from, sw_to = to, sw_code = code, sw_reason = reason\<rparr>
      in s\<lparr>ss_model := ss_model s + 1, ss_attempt := 0, ss_lastSwitch := Some w,
           ss_announced := (if (from, to) \<in> set (ss_announced s) then ss_announced s else ss_announced s @ [(from, to)]),
           ss_out := ss_out s @ [Switch w]\<rparr>)"

definition has_next :: "model_request \<Rightarrow> stream_state \<Rightarrow> bool" where
  "has_next req s \<longleftrightarrow> ss_model s + 1 < length (failover_ladder req)"

definition surface :: "stream_state \<Rightarrow> gateway_error \<Rightarrow> gateway_error" where
  "surface s e = (case ss_primary s of Some p \<Rightarrow> p | None \<Rightarrow> e)"

text \<open>After a failure: go on in the given state, or throw.\<close>

definition after_failure :: "gateway_config \<Rightarrow> model_request \<Rightarrow> bool \<Rightarrow> bool \<Rightarrow> raised \<Rightarrow> stream_state \<Rightarrow> raised + stream_state" where
  "after_failure cfg req aborted emitted err s =
     (case err of
        Raw k m \<Rightarrow> Inl err
      | GwErr e \<Rightarrow>
          if emitted \<and> ge_kind e \<in> {NetworkError, TimeoutError} \<and> \<not> aborted \<and> ss_resume s < gc_maxResume cfg then
            Inr (reset_turn (s\<lparr>ss_resume := ss_resume s + 1\<rparr>))
          else if emitted \<and> ge_kind e = StreamError \<and> \<not> aborted \<and> ss_streamResume s < MAX_STREAM_RESUME then
            Inr (reset_turn (s\<lparr>ss_streamResume := ss_streamResume s + 1\<rparr>))
          else if \<not> emitted \<and> modelAccessDenied e \<and> 0 < ss_model s then
            (if has_next req s then Inr (fail_over req ''the model was refused by policy'' ''model_refused'' s)
             else Inl (GwErr (surface s e)))
          else if \<not> emitted \<and> retryable_error e \<and> ss_attempt s < MAX_STREAM_RETRY then
            Inr (s\<lparr>ss_attempt := ss_attempt s + 1\<rparr>)
          else if \<not> emitted \<and> retryable_error e \<and> has_next req s then
            Inr (fail_over req (fst (switchReason e)) (snd (switchReason e)) (if ss_model s = 0 then s\<lparr>ss_primary := Some e\<rparr> else s))
          else Inl (GwErr e))"

definition stream_round :: "gateway_config \<Rightarrow> model_request \<Rightarrow> round_input \<Rightarrow> stream_state \<Rightarrow> ((raised + gateway_result) option) \<times> stream_state" where
  "stream_round cfg req inp s0 =
     (let model = failover_ladder req ! ss_model s0;
          (conn, sent) = connect cfg (ri_net inp);
          s = s0\<lparr>ss_sent := ss_sent s0 + sent\<rparr>
      in case conn of
           Inl e \<Rightarrow>
             (case after_failure cfg req (ri_aborted inp) False (normalizeError (ri_aborted inp) e) s of
                Inl r \<Rightarrow> (Some (Inl r), s)
              | Inr t \<Rightarrow> (None, t))
         | Inr res \<Rightarrow>
             (let (items, got) = read_response cfg req model res;
                  s1 = fold yield_item items s;
                  emitted = list_ex is_item items
              in case got of
                   Inr c \<Rightarrow> (Some (Inr (final_result req res c s1)), s1)
                 | Inl e \<Rightarrow>
                     (case after_failure cfg req (ri_aborted inp) emitted (normalizeError (ri_aborted inp) e) s1 of
                        Inl r \<Rightarrow> (Some (Inl r), s1)
                      | Inr t \<Rightarrow> (None, t))))"

fun stream_rounds ::
  "gateway_config \<Rightarrow> model_request \<Rightarrow> (nat \<Rightarrow> round_input) \<Rightarrow> nat \<Rightarrow> nat \<Rightarrow> stream_state \<Rightarrow> (raised + gateway_result) option \<times> stream_state" where
  "stream_rounds cfg req inputs 0 i s = (None, s)"
| "stream_rounds cfg req inputs (Suc fuel) i s =
     (case stream_round cfg req (inputs i) s of
        (Some r, t) \<Rightarrow> (Some r, t)
      | (None, t) \<Rightarrow> stream_rounds cfg req inputs fuel (Suc i) t)"

definition fresh_stream :: stream_state where
  "fresh_stream =
     \<lparr>ss_model = 0, ss_attempt = 0, ss_resume = 0, ss_streamResume = 0, ss_lastSwitch = None, ss_announced = [], ss_primary = None, ss_sent = 0,
      ss_out = []\<rparr>"

text \<open>Each resume and each model has a budget of attempts of its own.\<close>

definition rounds_left :: "gateway_config \<Rightarrow> model_request \<Rightarrow> stream_state \<Rightarrow> nat" where
  "rounds_left cfg req s =
     (MAX_STREAM_RETRY + 1) * ((gc_maxResume cfg - ss_resume s) + (MAX_STREAM_RESUME - ss_streamResume s) + (length (failover_ladder req) - (ss_model s + 1)))
       + (MAX_STREAM_RETRY - ss_attempt s)"

definition stream_call :: "gateway_config \<Rightarrow> model_request \<Rightarrow> (nat \<Rightarrow> round_input) \<Rightarrow> (raised + gateway_result) option \<times> stream_state" where
  "stream_call cfg req inputs = stream_rounds cfg req inputs (Suc (rounds_left cfg req fresh_stream)) 0 fresh_stream"

section \<open>A call ends\<close>

definition on_ladder :: "model_request \<Rightarrow> stream_state \<Rightarrow> bool" where
  "on_ladder req s \<longleftrightarrow> ss_model s < length (failover_ladder req)"

lemma after_failure_less:
  assumes "after_failure cfg req aborted emitted err s = Inr t" "on_ladder req s"
  shows "rounds_left cfg req t < rounds_left cfg req s \<and> on_ladder req t"
proof -
  obtain k where "length (failover_ladder req) = Suc k" using assms(2) by (cases "length (failover_ladder req)") (auto simp: on_ladder_def)
  with assms show ?thesis
  by (auto simp: after_failure_def rounds_left_def reset_turn_def fail_over_def has_next_def on_ladder_def MAX_STREAM_RETRY_def MAX_STREAM_RESUME_def
    Let_def split: raised.splits if_splits)
qed

definition counters :: "stream_state \<Rightarrow> nat \<times> nat \<times> nat \<times> nat \<times> gateway_error option" where
  "counters s = (ss_model s, ss_attempt s, ss_resume s, ss_streamResume s, ss_primary s)"

lemma counters_yield: "counters (fold yield_item items s) = counters s \<and> ss_sent (fold yield_item items s) = ss_sent s"
  by (induction items arbitrary: s) (simp_all add: yield_item_def counters_def split: stream_item.split)

lemma same_counters:
  "counters t = counters s \<Longrightarrow> rounds_left cfg req t = rounds_left cfg req s \<and> on_ladder req t = on_ladder req s"
  by (simp add: counters_def rounds_left_def on_ladder_def)

text \<open>A round that does not end the call failed, before or after its items, and goes on from the failure.\<close>

lemma stream_round_cases [consumes 1, case_names unconnected failed]:
  assumes "stream_round cfg req inp s0 = (None, t)"
  obtains e sent where "connect cfg (ri_net inp) = (Inl e, sent)"
      "after_failure cfg req (ri_aborted inp) False (normalizeError (ri_aborted inp) e) (s0\<lparr>ss_sent := ss_sent s0 + sent\<rparr>) = Inr t"
  | res sent items e where "connect cfg (ri_net inp) = (Inr res, sent)"
      "read_response cfg req (failover_ladder req ! ss_model s0) res = (items, Inl e)"
      "after_failure cfg req (ri_aborted inp) (list_ex is_item items) (normalizeError (ri_aborted inp) e)
         (fold yield_item items (s0\<lparr>ss_sent := ss_sent s0 + sent\<rparr>)) = Inr t"
  using assms by (auto simp: stream_round_def Let_def split: prod.splits sum.splits)

lemma sent_counters: "counters (s\<lparr>ss_sent := n\<rparr>) = counters s"
  by (simp add: counters_def)

lemma stream_round_less:
  assumes "stream_round cfg req inp s = (None, t)" "on_ladder req s"
  shows "rounds_left cfg req t < rounds_left cfg req s \<and> on_ladder req t"
  using assms(1)
proof (cases rule: stream_round_cases)
  case (unconnected e sent)
  note same_counters [OF sent_counters [where s = s and n = "ss_sent s + sent"], of cfg req]
  then show ?thesis using after_failure_less [OF unconnected(2)] assms(2) by auto
next
  case (failed res sent items e)
  have "counters (fold yield_item items (s\<lparr>ss_sent := ss_sent s + sent\<rparr>)) = counters s"
    using counters_yield sent_counters by metis
  note same_counters [OF this, of cfg req]
  then show ?thesis using after_failure_less [OF failed(3)] assms(2) by auto
qed

lemma stream_rounds_end:
  "on_ladder req s \<Longrightarrow> rounds_left cfg req s < fuel \<Longrightarrow> fst (stream_rounds cfg req inputs fuel i s) \<noteq> None"
proof (induction fuel arbitrary: i s)
  case 0
  then show ?case by simp
next
  case (Suc fuel)
  obtain r t where round: "stream_round cfg req (inputs i) s = (r, t)" by force
  show ?case
  proof (cases r)
    case None
    with round have "rounds_left cfg req t < rounds_left cfg req s \<and> on_ladder req t" using stream_round_less Suc.prems(1) by blast
    with Suc None round show ?thesis by simp
  next
    case (Some x)
    with round show ?thesis by simp
  qed
qed

lemma after_failure_sent: "after_failure cfg req aborted emitted err s = Inr t \<Longrightarrow> ss_sent t = ss_sent s"
  by (auto simp: after_failure_def reset_turn_def fail_over_def Let_def split: raised.splits if_splits)

lemma stream_round_sent: "ss_sent (snd (stream_round cfg req inp s)) \<le> ss_sent s + (gc_maxRetries cfg + 2)"
proof -
  obtain conn sent where c: "connect cfg (ri_net inp) = (conn, sent)" by force
  then have "sent \<le> gc_maxRetries cfg + 2" using connect_sent [of cfg "ri_net inp"] by simp
  moreover have "ss_sent (snd (stream_round cfg req inp s)) = ss_sent s + sent"
    using c counters_yield by (auto simp: stream_round_def Let_def after_failure_sent split: prod.split sum.split)
  ultimately show ?thesis by simp
qed

lemma stream_rounds_sent: "ss_sent (snd (stream_rounds cfg req inputs fuel i s)) \<le> ss_sent s + fuel * (gc_maxRetries cfg + 2)"
proof (induction fuel arbitrary: i s)
  case 0
  then show ?case by simp
next
  case (Suc fuel)
  obtain r t where round: "stream_round cfg req (inputs i) s = (r, t)" by force
  then have t: "ss_sent t \<le> ss_sent s + (gc_maxRetries cfg + 2)" using stream_round_sent [of cfg req "inputs i" s] by simp
  show ?case
  proof (cases r)
    case None
    with round t Suc [of "Suc i" t] show ?thesis by simp
  next
    case (Some x)
    with round t show ?thesis by simp
  qed
qed


section \<open>What the caller sees\<close>

text \<open>What is on the screen: the deltas since the last reset.\<close>

definition see_item :: "stream_item \<Rightarrow> stream_delta list \<Rightarrow> stream_delta list" where
  "see_item x shown = (case x of Item ResetDelta \<Rightarrow> [] | Item d \<Rightarrow> shown @ [d] | Switch w \<Rightarrow> shown)"

definition visible :: "stream_item list \<Rightarrow> stream_delta list" where
  "visible xs = fold see_item xs []"

definition deltas :: "stream_item list \<Rightarrow> stream_delta list" where
  "deltas xs = List.map_filter (\<lambda>x. case x of Item d \<Rightarrow> Some d | Switch w \<Rightarrow> None) xs"

definition no_reset :: "stream_item list \<Rightarrow> bool" where
  "no_reset xs \<longleftrightarrow> Item ResetDelta \<notin> set xs"

lemma visible_append: "visible (xs @ ys) = fold see_item ys (visible xs)"
  by (simp add: visible_def)

lemma see_items: "no_reset items \<Longrightarrow> fold see_item items shown = shown @ deltas items"
proof (induction items arbitrary: shown)
  case Nil
  then show ?case by (simp add: deltas_def map_filter_simps)
next
  case (Cons x items)
  have "no_reset items" "x \<noteq> Item ResetDelta" using Cons.prems by (auto simp: no_reset_def)
  with Cons.IH show ?case
    by (cases x) (auto simp: see_item_def deltas_def map_filter_simps split: stream_delta.split)
qed

lemma yield_visible: "visible (ss_out (fold yield_item items s)) = fold see_item items (visible (ss_out s))"
  by (induction items arbitrary: s) (auto simp: yield_item_def visible_append see_item_def split: stream_item.split)

lemma consume_event_no_reset: "no_reset (fst (consume_event number nf m ev s))"
  by (simp add: consume_event_def Let_def message_start_def block_start_def block_delta_def no_reset_def
    split: option.split acc_block.split)

lemma consume_events_no_reset: "no_reset (fst (consume_events number nf m evs s))"
proof (induction evs arbitrary: s)
  case Nil
  then show ?case by (simp add: no_reset_def)
next
  case (Cons ev evs)
  then show ?case
    using consume_event_no_reset [of number nf m ev s] by (auto simp: no_reset_def Let_def split: prod.splits sum.splits)
qed

lemma read_no_reset: "read_response cfg req m res = (items, r) \<Longrightarrow> no_reset items"
  using consume_events_no_reset by (auto simp: read_response_def consume_def Let_def no_reset_def split: response_body.splits)

lemma deltas_none: "\<not> list_ex is_item items \<Longrightarrow> deltas items = []"
  by (induction items) (auto simp: deltas_def map_filter_simps is_item_def split: stream_item.splits)

lemma after_failure_visible:
  assumes "after_failure cfg req aborted emitted err s = Inr t" "\<not> emitted \<Longrightarrow> visible (ss_out s) = []"
  shows "visible (ss_out t) = []"
  using assms
  by (auto simp: after_failure_def reset_turn_def fail_over_def visible_append see_item_def Let_def split: raised.splits if_splits)

lemma stream_round_clears:
  assumes "stream_round cfg req inp s = (None, t)" "visible (ss_out s) = []"
  shows "visible (ss_out t) = []"
  using assms(1)
proof (cases rule: stream_round_cases)
  case (unconnected e sent)
  then show ?thesis using assms(2) by (auto intro: after_failure_visible)
next
  case (failed res sent items e)
  have "visible (ss_out (fold yield_item items (s\<lparr>ss_sent := ss_sent s + sent\<rparr>))) = deltas items"
    using see_items [OF read_no_reset [OF failed(2)]] assms(2) by (simp add: yield_visible)
  then show ?thesis using after_failure_visible [OF failed(3)] deltas_none by simp
qed

lemma stream_rounds_keep:
  assumes "\<And>j u v. stream_round cfg req (inputs j) u = (None, v) \<Longrightarrow> P u \<Longrightarrow> P v"
  shows "stream_rounds cfg req inputs fuel i s = (Some r, t) \<Longrightarrow> P s \<Longrightarrow> \<exists>j u. stream_round cfg req (inputs j) u = (Some r, t) \<and> P u"
proof (induction fuel arbitrary: i s)
  case 0
  then show ?case by simp
next
  case (Suc fuel)
  obtain r' v where round: "stream_round cfg req (inputs i) s = (r', v)" by force
  show ?case
  proof (cases r')
    case None
    with round assms Suc.prems(2) have "P v" by blast
    then show ?thesis using Suc.IH [of "Suc i" v] Suc.prems(1) None round by simp
  next
    case (Some x)
    with round Suc.prems show ?thesis by auto
  qed
qed

lemma read_response_answer:
  assumes "read_response cfg req model res = (items, Inr c)"
  shows "\<exists>events. consume (gc_number cfg) (rq_noFallback req) model events None = (items, Inr c)"
proof (cases "rs_body res")
  case (EventStream events ending)
  with assms have r: "consume (gc_number cfg) (rq_noFallback req) model events ending = (items, Inr c)" by (simp add: read_response_def)
  then have "ending = None" by (cases ending) (auto simp: consume_def Let_def split: sum.splits)
  with r show ?thesis by blast
qed (use assms in \<open>simp_all add: read_response_def\<close>)

lemma stream_round_result:
  assumes "stream_round cfg req inp s = (Some (Inr g), t)"
  obtains res sent items c where "connect cfg (ri_net inp) = (Inr res, sent)"
    "read_response cfg req (failover_ladder req ! ss_model s) res = (items, Inr c)"
    "t = fold yield_item items (s\<lparr>ss_sent := ss_sent s + sent\<rparr>)" "g = final_result req res c t"
  using assms by (auto simp: stream_round_def Let_def split: prod.splits sum.splits)

text \<open>What stays on the screen when a call answers is the stream of its last attempt, delta by delta, and its message is made of
  that stream: nothing of an attempt that broke off, however often it was resumed or failed over, is shown twice or mixed in.\<close>

theorem one_answer_is_shown:
  assumes "stream_call cfg req inputs = (Some (Inr g), t)"
  shows "\<exists>events items c.
    consume (gc_number cfg) (rq_noFallback req) (failover_ladder req ! ss_model t) events None = (items, Inr c) \<and>
    visible (ss_out t) = deltas items \<and> gr_message g = assistant_msg (Blocks (assembleBlocks (cs_blocks c))) \<and> gr_model g = cs_model c"
proof -
  have start: "visible (ss_out fresh_stream) = []" by (simp add: fresh_stream_def visible_def)
  obtain j u where round: "stream_round cfg req (inputs j) u = (Some (Inr g), t)" and "visible (ss_out u) = []"
    using stream_rounds_keep [where P = "\<lambda>s. visible (ss_out s) = []", OF _ assms [unfolded stream_call_def] start] stream_round_clears by blast
  from round obtain res sent items c where r:
    "read_response cfg req (failover_ladder req ! ss_model u) res = (items, Inr c)"
    "t = fold yield_item items (u\<lparr>ss_sent := ss_sent u + sent\<rparr>)" "g = final_result req res c t"
    by (rule stream_round_result)
  have "visible (ss_out t) = deltas items"
    using see_items [OF read_no_reset [OF r(1)]] \<open>visible (ss_out u) = []\<close> by (simp add: r(2) yield_visible)
  moreover have "ss_model t = ss_model u" using counters_yield [of items "u\<lparr>ss_sent := ss_sent u + sent\<rparr>"] r(2) by (simp add: counters_def)
  moreover note read_response_answer [OF r(1)]
  ultimately show ?thesis using r(3) by (auto simp: final_result_def)
qed

section \<open>No silent switch\<close>

definition covers :: "string \<Rightarrow> string \<Rightarrow> bool" where
  "covers requested answering \<longleftrightarrow> resolvedByGateway requested \<or> sameModel requested answering"

lemma event_model:
  assumes "consume_event number nf m ev s = (items, Inr s')"
  shows "cs_model s' = cs_model s \<or> covers m (cs_model s') \<or> (\<exists>w. Switch w \<in> set items \<and> sw_to w = cs_model s')"
proof -
  have "message_start nf m ev s = (items, Inr s') \<Longrightarrow> ?thesis"
    by (auto simp: message_start_def other_model_def covers_def swap_switch_def Let_def split: option.splits list.splits if_splits json.splits)
  moreover have "cs_model (snd (block_start ev s)) = cs_model s" "cs_model (snd (block_delta ev s)) = cs_model s"
    by (simp_all add: block_start_def block_delta_def Let_def split: option.split acc_block.split)
  ultimately show ?thesis
    using assms by (auto simp: consume_event_def message_delta_def Let_def split: if_splits)
qed

lemma events_model:
  "consume_events number nf m evs s = (items, Inr c) \<Longrightarrow>
   cs_model c = cs_model s \<or> covers m (cs_model c) \<or> (\<exists>w. Switch w \<in> set items \<and> sw_to w = cs_model c)"
proof (induction evs arbitrary: s items)
  case Nil
  then show ?case by simp
next
  case (Cons ev evs)
  obtain xs x where x: "consume_event number nf m ev s = (xs, x)" by force
  with Cons.prems obtain s' where s': "x = Inr s'" by (cases x) auto
  obtain ys y where y: "consume_events number nf m evs s' = (ys, y)" by force
  have e: "consume_event number nf m ev s = (xs, Inr s')" and r: "consume_events number nf m evs s' = (ys, Inr c)" and items: "items = xs @ ys"
    using Cons.prems x s' y by simp_all
  show ?case using event_model [OF e] Cons.IH [OF r] items by auto
qed

lemma read_model:
  assumes "read_response cfg req m res = (items, Inr c)"
  shows "cs_model c = m \<or> covers m (cs_model c) \<or> (\<exists>w. Switch w \<in> set items \<and> sw_to w = cs_model c)"
proof -
  obtain events where "consume (gc_number cfg) (rq_noFallback req) m events None = (items, Inr c)" using read_response_answer [OF assms] by blast
  then have "consume_events (gc_number cfg) (rq_noFallback req) m events (consume_start m) = (items, Inr c)"
    by (auto simp: consume_def Let_def prod_eq_iff split: sum.splits if_splits)
  from events_model [OF this] show ?thesis by (simp add: consume_start_def)
qed

definition told :: "stream_item list \<Rightarrow> string \<Rightarrow> bool" where
  "told out m \<longleftrightarrow> (\<exists>w. Switch w \<in> set out \<and> sw_to w = m)"

definition switches_said :: "model_request \<Rightarrow> stream_state \<Rightarrow> bool" where
  "switches_said req s \<longleftrightarrow>
     (\<forall>ab \<in> set (ss_announced s). told (ss_out s) (snd ab)) \<and> (ss_model s = 0 \<or> told (ss_out s) (failover_ladder req ! ss_model s))"

lemma told_more: "told out m \<Longrightarrow> told (out @ later) m"
  by (auto simp: told_def)

lemma told_switch [simp]: "told (out @ [Switch w]) (sw_to w)"
  by (auto simp: told_def)

lemma yield_said: "switches_said req s \<Longrightarrow> switches_said req (yield_item x s)"
  by (auto simp: switches_said_def yield_item_def told_more split: stream_item.split)

lemma yields_said: "switches_said req s \<Longrightarrow> switches_said req (fold yield_item items s)"
  by (induction items arbitrary: s) (simp_all add: yield_said)

lemma yield_keeps: "told (ss_out s) m \<Longrightarrow> told (ss_out (fold yield_item items s)) m"
  by (induction items arbitrary: s) (auto simp: yield_item_def told_more split: stream_item.split)

lemma yields_tell: "switches_said req s \<Longrightarrow> Switch w \<in> set items \<Longrightarrow> told (ss_out (fold yield_item items s)) (sw_to w)"
proof (induction items arbitrary: s)
  case Nil
  then show ?case by simp
next
  case (Cons x items)
  show ?case
  proof (cases "x = Switch w")
    case True
    have "told (ss_out (yield_item x s)) (sw_to w)"
      using Cons.prems(1) True by (auto simp: yield_item_def switches_said_def)
    then show ?thesis by (simp add: yield_keeps)
  next
    case False
    with Cons yield_said show ?thesis by simp
  qed
qed

lemma failure_said:
  assumes "after_failure cfg req aborted emitted err s = Inr t" "switches_said req s"
  shows "switches_said req t"
proof -
  have over: "switches_said req (fail_over req r c u)" if "switches_said req u" for r c u
    using that by (auto simp: switches_said_def fail_over_def Let_def told_more) (auto simp: told_def)
  have reset: "switches_said req (reset_turn u)" if "switches_said req u" for u
    using that by (auto simp: switches_said_def reset_turn_def told_more)
  have same: "switches_said req (u\<lparr>ss_resume := n\<rparr>) = switches_said req u" "switches_said req (u\<lparr>ss_streamResume := n\<rparr>) = switches_said req u"
    "switches_said req (u\<lparr>ss_attempt := n\<rparr>) = switches_said req u" "switches_said req (u\<lparr>ss_primary := p\<rparr>) = switches_said req u" for u n p
    by (simp_all add: switches_said_def)
  show ?thesis using assms over reset same by (auto simp: after_failure_def split: raised.splits if_splits)
qed

lemma sent_said: "switches_said req (s\<lparr>ss_sent := n\<rparr>) = switches_said req s"
  by (simp add: switches_said_def)

lemma round_said:
  assumes "stream_round cfg req inp s = (None, t)" "switches_said req s"
  shows "switches_said req t"
  using assms(1)
proof (cases rule: stream_round_cases)
  case (unconnected e sent)
  then show ?thesis using assms(2) failure_said by (simp add: sent_said)
next
  case (failed res sent items e)
  then show ?thesis using assms(2) failure_said yields_said by (simp add: sent_said)
qed

text \<open>C22 no_silent_switch. A model never changes in silence: the model an answer says it is from is the one the call named, another name of it, or one of
  which the caller was told, before it answered, that the call switches to it.\<close>

theorem no_silent_switch:
  assumes "stream_call cfg req inputs = (Some (Inr g), t)"
  shows "\<exists>m. (m = failover_ladder req ! 0 \<or> told (ss_out t) m) \<and> (gr_model g = m \<or> covers m (gr_model g))"
proof -
  have start: "switches_said req fresh_stream" by (simp add: switches_said_def fresh_stream_def)
  obtain j u where round: "stream_round cfg req (inputs j) u = (Some (Inr g), t)" and said: "switches_said req u"
    using stream_rounds_keep [where P = "switches_said req", OF _ assms [unfolded stream_call_def] start] round_said by blast
  from round obtain res sent items c where r:
    "read_response cfg req (failover_ladder req ! ss_model u) res = (items, Inr c)"
    "t = fold yield_item items (u\<lparr>ss_sent := ss_sent u + sent\<rparr>)" "g = final_result req res c t"
    by (rule stream_round_result)
  let ?m = "failover_ladder req ! ss_model u"
  have said': "switches_said req (u\<lparr>ss_sent := ss_sent u + sent\<rparr>)" using said by (simp add: sent_said)
  have m: "?m = failover_ladder req ! 0 \<or> told (ss_out t) ?m"
  proof (cases "ss_model u = 0")
    case True
    then show ?thesis by simp
  next
    case False
    then have "told (ss_out u) ?m" using said by (simp add: switches_said_def)
    then show ?thesis using yield_keeps [of "u\<lparr>ss_sent := ss_sent u + sent\<rparr>" ?m items] r(2) by simp
  qed
  have g: "gr_model g = cs_model c" by (simp add: r(3) final_result_def)
  from read_model [OF r(1)] show ?thesis
  proof (elim disjE exE conjE)
    fix w assume "Switch w \<in> set items" "sw_to w = cs_model c"
    then show ?thesis using yields_tell [OF said', of w items] r(2) g by auto
  qed (use m g in auto)
qed

section \<open>No switch when it is denied\<close>

definition unswitched :: "stream_item list \<Rightarrow> bool" where
  "unswitched xs \<longleftrightarrow> (\<forall>w. Switch w \<notin> set xs)"

lemma denied_event: "unswitched (fst (consume_event number True m ev s))"
  by (simp add: consume_event_def Let_def message_start_def block_start_def block_delta_def unswitched_def
    split: option.split acc_block.split)

lemma denied_events: "unswitched (fst (consume_events number True m evs s))"
proof (induction evs arbitrary: s)
  case Nil
  then show ?case by (simp add: unswitched_def)
next
  case (Cons ev evs)
  then show ?case
    using denied_event [of number m ev s] by (auto simp: unswitched_def Let_def split: prod.splits sum.splits)
qed

lemma denied_read: "rq_noFallback req \<Longrightarrow> read_response cfg req m res = (items, r) \<Longrightarrow> unswitched items"
  using denied_events by (auto simp: read_response_def consume_def Let_def unswitched_def split: response_body.splits)

definition never_switched :: "stream_state \<Rightarrow> bool" where
  "never_switched s \<longleftrightarrow> unswitched (ss_out s) \<and> ss_lastSwitch s = None \<and> ss_model s = 0"

lemma yields_unswitched: "unswitched items \<Longrightarrow> never_switched s \<Longrightarrow> never_switched (fold yield_item items s)"
proof (induction items arbitrary: s)
  case Nil
  then show ?case by simp
next
  case (Cons x items)
  have "never_switched (yield_item x s)" "unswitched items"
    using Cons.prems by (auto simp: never_switched_def unswitched_def yield_item_def split: stream_item.split)
  with Cons.IH show ?case by simp
qed

lemma denied_round:
  assumes "stream_round cfg req inp s = (None, t)" "never_switched s" "rq_noFallback req" "length (failover_ladder req) = 1"
  shows "never_switched t"
proof -
  have fails: "never_switched v" if "after_failure cfg req ab em err u = Inr v" "never_switched u" for ab em err u v
    using that assms(4)
    by (auto simp: after_failure_def has_next_def never_switched_def reset_turn_def unswitched_def split: raised.splits if_splits)
  have sent: "never_switched (u\<lparr>ss_sent := n\<rparr>) = never_switched u" for u n by (simp add: never_switched_def)
  from assms(1) show ?thesis
  proof (cases rule: stream_round_cases)
    case (unconnected e n)
    then show ?thesis using fails assms(2) by (simp add: sent)
  next
    case (failed res n items e)
    then show ?thesis
      using fails [OF failed(3)] yields_unswitched [OF denied_read [OF assms(3) failed(2)]] assms(2) by (simp add: sent)
  qed
qed

text \<open>C20 denied_fallback_holds. Where the caller denies a fallback, the answer is from the model named, or another name of it; no switch is announced and none
  is reported.\<close>

theorem denied_fallback_holds:
  assumes "stream_call cfg req inputs = (Some (Inr g), t)" "rq_noFallback req" "rq_models req = [m]"
  shows "(gr_model g = m \<or> covers m (gr_model g)) \<and> gr_fallback g = None \<and> unswitched (ss_out t)"
proof -
  have ladder: "failover_ladder req = [m]" using assms(3) by (simp add: failover_ladder_def)
  have start: "never_switched fresh_stream" by (simp add: never_switched_def fresh_stream_def unswitched_def)
  obtain j u where round: "stream_round cfg req (inputs j) u = (Some (Inr g), t)" and u: "never_switched u"
    using stream_rounds_keep [where P = never_switched, OF _ assms(1) [unfolded stream_call_def] start] denied_round assms(2) ladder by fastforce
  from round obtain res sent items c where r:
    "read_response cfg req (failover_ladder req ! ss_model u) res = (items, Inr c)"
    "t = fold yield_item items (u\<lparr>ss_sent := ss_sent u + sent\<rparr>)" "g = final_result req res c t"
    by (rule stream_round_result)
  have items: "unswitched items" using denied_read [OF assms(2) r(1)] .
  then have t: "never_switched t"
    using yields_unswitched [OF items, of "u\<lparr>ss_sent := ss_sent u + sent\<rparr>"] u r(2) by (simp add: never_switched_def)
  have "failover_ladder req ! ss_model u = m" using u ladder by (simp add: never_switched_def)
  with read_model [OF r(1)] items have "cs_model c = m \<or> covers m (cs_model c)" by (auto simp: unswitched_def)
  with t show ?thesis by (simp add: r(3) final_result_def never_switched_def)
qed

section \<open>The refusal that ends a call\<close>

definition primary_kept :: "stream_state \<Rightarrow> bool" where
  "primary_kept s \<longleftrightarrow> 0 < ss_model s \<longrightarrow> ss_primary s \<noteq> None"

lemma kept_counters: "counters t = counters s \<Longrightarrow> primary_kept t = primary_kept s \<and> ss_model t = ss_model s \<and> ss_primary t = ss_primary s"
  by (simp add: counters_def primary_kept_def)

lemma failure_kept: "after_failure cfg req aborted emitted err s = Inr t \<Longrightarrow> primary_kept s \<Longrightarrow> primary_kept t"
  by (auto simp: after_failure_def primary_kept_def reset_turn_def fail_over_def Let_def split: raised.splits if_splits)

lemma round_kept:
  assumes "stream_round cfg req inp s = (None, t)" "primary_kept s"
  shows "primary_kept t"
  using assms(1)
proof (cases rule: stream_round_cases)
  case (unconnected e sent)
  then show ?thesis using failure_kept assms(2) kept_counters [OF sent_counters] by blast
next
  case (failed res sent items e)
  have "counters (fold yield_item items (s\<lparr>ss_sent := ss_sent s + sent\<rparr>)) = counters s" using counters_yield sent_counters by metis
  then show ?thesis using failure_kept [OF failed(3)] assms(2) kept_counters by blast
qed

lemma emitted_code:
  assumes "read_response cfg req m res = (items, Inl e)" "items \<noteq> []" "normalizeError ab e = GwErr g"
  shows "\<not> modelAccessDenied g"
proof -
  obtain events ending where "consume (gc_number cfg) (rq_noFallback req) m events ending = (items, Inl e)"
    using assms(1,2) by (auto simp: read_response_def split: response_body.splits)
  moreover have "snd (consume_events number nf m' evs s) = Inl x \<Longrightarrow> \<not> modelAccessDenied x" for number nf m' evs s x
    by (induction evs arbitrary: s)
      (auto simp: consume_event_def message_start_def stream_error_def denied_swap_def plain_error_def modelAccessDenied_def Let_def
        split: prod.splits sum.splits if_splits option.splits)
  ultimately show ?thesis
    using assms(3) by (auto simp: consume_def normalizeError_def cancelled_error_def plain_error_def modelAccessDenied_def Let_def
      split: sum.splits option.splits if_splits raised.splits raw_kind.splits)
qed

lemma failure_refusal:
  assumes "after_failure cfg req aborted emitted err s = Inl (GwErr e)" "modelAccessDenied e" "0 < ss_model s" "primary_kept s"
    and "emitted \<Longrightarrow> \<not> modelAccessDenied g" "err = GwErr g"
  shows "ss_primary s = Some e"
  using assms by (auto simp: after_failure_def surface_def primary_kept_def split: if_splits option.splits)

text \<open>A model the policy refuses ends a call only when it is the one the call named: refused further down the ladder it is
  skipped, and when no model is left the call fails with the error of the one it named.\<close>

theorem failover_refusal_hidden:
  assumes "stream_call cfg req inputs = (Some (Inl (GwErr e)), t)" "modelAccessDenied e" "0 < ss_model t"
  shows "ss_primary t = Some e"
proof -
  have start: "primary_kept fresh_stream" by (simp add: primary_kept_def fresh_stream_def)
  obtain j u where round: "stream_round cfg req (inputs j) u = (Some (Inl (GwErr e)), t)" and u: "primary_kept u"
    using stream_rounds_keep [where P = primary_kept, OF _ assms(1) [unfolded stream_call_def] start] round_kept by blast
  obtain conn sent where c: "connect cfg (ri_net (inputs j)) = (conn, sent)" by force
  let ?s = "u\<lparr>ss_sent := ss_sent u + sent\<rparr>"
  show ?thesis
  proof (cases conn)
    case (Inl x)
    then have f: "after_failure cfg req (ri_aborted (inputs j)) False (normalizeError (ri_aborted (inputs j)) x) ?s = Inl (GwErr e)" and t: "t = ?s"
      using round c by (auto simp: stream_round_def Let_def split: sum.splits)
    have "primary_kept ?s" "0 < ss_model ?s" using u assms(3) t by (simp_all add: primary_kept_def)
    moreover obtain g where "normalizeError (ri_aborted (inputs j)) x = GwErr g" using f by (auto simp: after_failure_def split: raised.splits)
    ultimately show ?thesis using failure_refusal [OF f assms(2)] t by blast
  next
    case (Inr res)
    obtain items x where i: "read_response cfg req (failover_ladder req ! ss_model u) res = (items, Inl x)"
      and f: "after_failure cfg req (ri_aborted (inputs j)) (list_ex is_item items) (normalizeError (ri_aborted (inputs j)) x) (fold yield_item items ?s) = Inl (GwErr e)"
      and t: "t = fold yield_item items ?s"
      using round c Inr by (auto simp: stream_round_def Let_def split: sum.splits prod.splits)
    have "counters t = counters u" unfolding t using counters_yield sent_counters by metis
    then have "primary_kept t" "0 < ss_model t" using kept_counters u assms(3) by blast+
    moreover obtain g where g: "normalizeError (ri_aborted (inputs j)) x = GwErr g" using f by (auto simp: after_failure_def split: raised.splits)
    moreover have "list_ex is_item items \<Longrightarrow> \<not> modelAccessDenied g" using emitted_code [OF i _ g] by (cases items) auto
    ultimately show ?thesis using failure_refusal [OF f assms(2)] t by blast
  qed
qed

section \<open>Examples\<close>

definition wire :: "string \<Rightarrow> (string \<times> json) list \<Rightarrow> json" where
  "wire t fs = JObj ((''type'', JStr t) # fs)"

definition starts_as :: "string \<Rightarrow> json list" where
  "starts_as m =
     [wire ''message_start'' [(''message'', JObj [(''model'', JStr m)])],
      wire ''content_block_start'' [(''index'', JNum 0), (''content_block'', wire ''text'' [])]]"

definition says_text :: "string \<Rightarrow> json" where
  "says_text t = wire ''content_block_delta'' [(''index'', JNum 0), (''delta'', wire ''text_delta'' [(''text'', JStr t)])]"

definition answers_with :: "json list \<Rightarrow> (raw_kind \<times> string) option \<Rightarrow> round_input" where
  "answers_with events ending =
     \<lparr>ri_net = (\<lambda>i. \<lparr>ns_cancelled = False, ns_cancelledBy = False,
        ns_outcome = FetchOk \<lparr>rs_status = 200, rs_body = EventStream events ending, rs_computeUnits = None, rs_effort = None\<rparr>\<rparr>),
      ri_aborted = False\<rparr>"

definition refuses_with :: "nat \<Rightarrow> string \<Rightarrow> round_input" where
  "refuses_with status code =
     \<lparr>ri_net = (\<lambda>i. \<lparr>ns_cancelled = False, ns_cancelledBy = False,
        ns_outcome = FetchRefused ((plain_error ''no'' status HttpError)\<lparr>ge_code := Some code\<rparr>) None\<rparr>),
      ri_aborted = False\<rparr>"

definition calls :: "string list \<Rightarrow> bool \<Rightarrow> model_request" where
  "calls ms denied =
     \<lparr>rq_models = ms, rq_system = None, rq_messages = [], rq_tools = [], rq_toolChoice = None, rq_maxTokens = 10, rq_temperature = None,
      rq_effort = None, rq_noFallback = denied\<rparr>"

text \<open>The first stream breaks off in the middle of a word, the second answers.\<close>

definition broken_then_whole :: "string \<Rightarrow> nat \<Rightarrow> round_input" where
  "broken_then_whole other i =
     (if i = 0 then answers_with (starts_as other @ [says_text ''he'']) (Some (NetworkLike, ''reset''))
      else answers_with (starts_as ''m'' @ [says_text ''he'', says_text ''llo'', wire ''message_stop'' []]) None)"

definition answer_of :: "(raised + gateway_result) option \<times> stream_state \<Rightarrow> gateway_result option" where
  "answer_of r = (case fst r of Some (Inr g) \<Rightarrow> Some g | _ \<Rightarrow> None)"

lemma answer_of_Some: "answer_of r = Some g \<Longrightarrow> r = (Some (Inr g), snd r)"
  by (cases r) (auto simp: answer_of_def split: option.splits sum.splits)

lemma two_rounds:
  assumes "stream_round cfg req (inputs 0) fresh_stream = (None, s)" "stream_round cfg req (inputs (Suc 0)) s = (Some r, t)"
  shows "stream_call cfg req inputs = (Some r, t)"
proof -
  obtain n where "rounds_left cfg req fresh_stream = Suc n"
    by (cases "rounds_left cfg req fresh_stream") (auto simp: rounds_left_def fresh_stream_def MAX_STREAM_RETRY_def)
  then show ?thesis using assms by (simp add: stream_call_def)
qed

lemma connect_answered:
  "connect cfg (ri_net (answers_with events ending)) =
     (Inr \<lparr>rs_status = 200, rs_body = EventStream events ending, rs_computeUnits = None, rs_effort = None\<rparr>, 1)"
  by (simp add: connect_def connect_fuel_def answers_with_def connect_step_def fetch_with_def fresh_conn_def Let_def)

lemma ri_aborted_answers: "\<not> ri_aborted (answers_with events ending)"
  by (simp add: answers_with_def)

lemma same_m: "sameModel ''m'' ''m''" by code_simp
lemma other_x: "\<not> sameModel ''m'' ''x''" by code_simp

lemma m_is_named: "\<not> resolvedByGateway ''m''" by code_simp

lemmas wire_simps = starts_as_def says_text_def wire_def str_field_def sub_field_def nat_field_def

lemmas fold_simps = consume_def consume_event_def message_start_def block_start_def startBlock_def text_or_def block_delta_def consume_start_def Let_def

definition said_state :: "string \<Rightarrow> string \<Rightarrow> bool \<Rightarrow> consume_state" where
  "said_state m t stopped = (consume_start m)\<lparr>cs_blocks := [(0, AccText t)], cs_sawStop := stopped\<rparr>"

lemma broken_m:
  "consume number denied ''m'' (starts_as ''m'' @ [says_text ''he'']) (Some (NetworkLike, ''reset'')) =
     ([Item (TextDelta ''he'')], Inl (Raw NetworkLike ''reset''))"
  by (simp add: wire_simps fold_simps other_model_def same_m m_is_named)

lemma broken_x:
  "consume number False ''m'' (starts_as ''x'' @ [says_text ''he'']) (Some (NetworkLike, ''reset'')) =
     ([Switch (swap_switch ''m'' ''x''), Item (TextDelta ''he'')], Inl (Raw NetworkLike ''reset''))"
  by (simp add: wire_simps fold_simps other_model_def other_x m_is_named)

lemma whole_m:
  "consume number denied ''m'' (starts_as ''m'' @ [says_text ''he'', says_text ''llo'', wire ''message_stop'' []]) None =
     ([Item (TextDelta ''he''), Item (TextDelta ''llo'')], Inr (said_state ''m'' ''hello'' True))"
  by (simp add: wire_simps fold_simps other_model_def same_m m_is_named said_state_def)

lemmas round_simps = stream_round_def connect_answered broken_then_whole_def read_response_def calls_def failover_ladder_def fresh_stream_def
  yield_item_def is_item_def normalizeError_def after_failure_def plain_error_def quick_config_def reset_turn_def

definition resumed_m :: stream_state where
  "resumed_m = fresh_stream\<lparr>ss_resume := 1, ss_sent := 1, ss_out := [Item (TextDelta ''he''), Item ResetDelta]\<rparr>"

definition resumed_x :: stream_state where
  "resumed_x =
     fresh_stream\<lparr>ss_resume := 1, ss_sent := 1, ss_lastSwitch := Some (swap_switch ''m'' ''x''), ss_announced := [(''m'', ''x'')],
       ss_out := [Switch (swap_switch ''m'' ''x''), Item (TextDelta ''he''), Item ResetDelta]\<rparr>"

lemma first_round_m: "stream_round quick_config (calls [''m''] denied) (broken_then_whole ''m'' 0) fresh_stream = (None, resumed_m)"
  by (simp add: round_simps broken_m resumed_m_def ri_aborted_answers)

lemma first_round_x: "stream_round quick_config (calls [''m''] False) (broken_then_whole ''x'' 0) fresh_stream = (None, resumed_x)"
  by (simp add: round_simps broken_x resumed_x_def swap_switch_def ri_aborted_answers)

lemma second_round:
  "ss_model s = 0 \<Longrightarrow>
   \<exists>t g. stream_round quick_config (calls [''m''] denied) (broken_then_whole x (Suc 0)) s = (Some (Inr g), t) \<and>
     ss_model t = 0 \<and> gr_model g = ''m'' \<and> (gr_fallback g = None \<longleftrightarrow> ss_lastSwitch s = None)"
  by (simp add: stream_round_def connect_answered broken_then_whole_def read_response_def calls_def failover_ladder_def whole_m yield_item_def
    final_result_def said_state_def consume_start_def)

lemma whole_answer:
  "\<exists>g. stream_call quick_config (calls [''m''] denied) (broken_then_whole ''m'') =
     (Some (Inr g), snd (stream_call quick_config (calls [''m''] denied) (broken_then_whole ''m''))) \<and>
     ss_model (snd (stream_call quick_config (calls [''m''] denied) (broken_then_whole ''m''))) = 0"
proof -
  have "ss_model resumed_m = 0" by (simp add: resumed_m_def fresh_stream_def)
  then obtain g t where t: "stream_round quick_config (calls [''m''] denied) (broken_then_whole ''m'' (Suc 0)) resumed_m = (Some (Inr g), t)" "ss_model t = 0"
    using second_round by blast
  from two_rounds [OF first_round_m t(1)] t(2) show ?thesis by simp
qed

text \<open>A call that is answered by the model it named still reports a fallback when an attempt that broke off had been served by
  another.\<close>

theorem stale_fallback_reported:
  "map_option (\<lambda>g. (gr_model g, gr_fallback g \<noteq> None)) (answer_of (stream_call quick_config (calls [''m''] False) (broken_then_whole ''x'')))
     = Some (''m'', True)"
proof -
  have "ss_model resumed_x = 0" "ss_lastSwitch resumed_x \<noteq> None" by (simp_all add: resumed_x_def fresh_stream_def)
  then obtain g t where t: "stream_round quick_config (calls [''m''] False) (broken_then_whole ''x'' (Suc 0)) resumed_x = (Some (Inr g), t)"
    and g: "gr_model g = ''m''" "gr_fallback g \<noteq> None"
    using second_round [of resumed_x False "''x''"] by auto
  from two_rounds [OF first_round_x t] g show ?thesis by (simp add: answer_of_def)
qed


theorem one_answer_is_shown_witness:
  "\<exists>events items c. consume (gc_number quick_config) True ''m'' events None = (items, Inr c) \<and>
    visible (ss_out (snd (stream_call quick_config (calls [''m''] True) (broken_then_whole ''m'')))) = deltas items"
proof -
  let ?r = "stream_call quick_config (calls [''m''] True) (broken_then_whole ''m'')"
  obtain g where r: "?r = (Some (Inr g), snd ?r)" and zero: "ss_model (snd ?r) = 0" using whole_answer by blast
  have m: "failover_ladder (calls [''m''] True) ! 0 = ''m''" "rq_noFallback (calls [''m''] True)" by (simp_all add: calls_def failover_ladder_def)
  from one_answer_is_shown [OF r] m zero show ?thesis by metis
qed

theorem no_silent_switch_witness:
  "\<exists>m. (m = ''m'' \<or> told (ss_out (snd (stream_call quick_config (calls [''m''] True) (broken_then_whole ''m'')))) m)"
proof -
  let ?r = "stream_call quick_config (calls [''m''] True) (broken_then_whole ''m'')"
  obtain g where r: "?r = (Some (Inr g), snd ?r)" using whole_answer by blast
  from no_silent_switch [OF r] show ?thesis by (auto simp: calls_def failover_ladder_def)
qed

theorem denied_fallback_holds_witness:
  "unswitched (ss_out (snd (stream_call quick_config (calls [''m''] True) (broken_then_whole ''m''))))"
proof -
  let ?r = "stream_call quick_config (calls [''m''] True) (broken_then_whole ''m'')"
  obtain g where r: "?r = (Some (Inr g), snd ?r)" using whole_answer by blast
  show ?thesis using denied_fallback_holds [OF r, of "''m''"] by (simp add: calls_def)
qed

text \<open>The named model is overloaded three times; the policy refuses the next one.\<close>

definition overloaded_then_denied :: "nat \<Rightarrow> round_input" where
  "overloaded_then_denied i = refuses_with (if i < 3 then 529 else 403) ''model_access_denied''"

definition denial :: "nat \<Rightarrow> gateway_error" where
  "denial status = (plain_error ''no'' status HttpError)\<lparr>ge_code := Some ''model_access_denied''\<rparr>"

definition waiting :: "nat \<Rightarrow> stream_state" where
  "waiting n = fresh_stream\<lparr>ss_attempt := n, ss_sent := 4 * n\<rparr>"

lemma quick_fuel: "connect_fuel quick_config = Suc (Suc (Suc (Suc (Suc 0))))"
  by (simp add: connect_fuel_def quick_config_def)

lemma net_overloaded:
  "connect_step quick_config (ri_net (refuses_with 529 ''model_access_denied'') i) c =
     (if 3 \<le> cn_attempt c then Inl (Inl (GwErr (denial 529)))
      else Inr (try_again (of_nat (backoffMs (cn_attempt c + 1))) (c\<lparr>cn_step := cn_step c + 1, cn_sent := cn_sent c + 1\<rparr>)), cn_sent c + 1)"
  if "\<not> cn_dead c"
  using that
  by (simp add: refuses_with_def connect_step_def fetch_with_def Let_def quick_config_def retryDelay_def
    retryable_error_def sessionTokenRejected_def plain_error_def denial_def)

lemma connect_overloaded: "connect quick_config (ri_net (refuses_with 529 ''model_access_denied'')) = (Inl (GwErr (denial 529)), 4)"
  by (simp add: connect_def quick_fuel net_overloaded fresh_conn_def try_again_def)

lemma connect_denied: "connect quick_config (ri_net (refuses_with 403 ''model_access_denied'')) = (Inl (GwErr (denial 403)), 1)"
  by (simp add: connect_def quick_fuel refuses_with_def connect_step_def fetch_with_def fresh_conn_def Let_def
    retryable_error_def sessionTokenRejected_def plain_error_def denial_def)

lemma overloaded_round:
  "n < 2 \<Longrightarrow> stream_round quick_config (calls [''m'', ''n''] False) (refuses_with 529 ''model_access_denied'') (waiting n) = (None, waiting (Suc n))"
  by (simp add: stream_round_def connect_overloaded normalizeError_def after_failure_def waiting_def fresh_stream_def denial_def plain_error_def
    retryable_error_def MAX_STREAM_RETRY_def)

lemma failing_round:
  "\<exists>t. stream_round quick_config (calls [''m'', ''n''] False) (refuses_with 529 ''model_access_denied'') (waiting 2) = (None, t) \<and>
     ss_model t = 1 \<and> ss_primary t = Some (denial 529)"
  by (simp add: stream_round_def connect_overloaded normalizeError_def after_failure_def waiting_def fresh_stream_def denial_def plain_error_def
    retryable_error_def MAX_STREAM_RETRY_def has_next_def fail_over_def Let_def calls_def failover_ladder_def)

lemma denied_last:
  "ss_model s = 1 \<Longrightarrow> ss_primary s = Some (denial 529) \<Longrightarrow>
   \<exists>t. stream_round quick_config (calls [''m'', ''n''] False) (refuses_with 403 ''model_access_denied'') s = (Some (Inl (GwErr (denial 529))), t) \<and>
     ss_model t = 1"
  by (simp add: stream_round_def connect_denied normalizeError_def after_failure_def denial_def plain_error_def modelAccessDenied_def
    has_next_def surface_def calls_def failover_ladder_def)

lemma overloaded_call:
  "\<exists>t. stream_call quick_config (calls [''m'', ''n''] False) overloaded_then_denied = (Some (Inl (GwErr (denial 529))), t) \<and> ss_model t = 1"
proof -
  have "rounds_left quick_config (calls [''m'', ''n''] False) fresh_stream = 35"
    by (simp add: rounds_left_def fresh_stream_def MAX_STREAM_RETRY_def MAX_STREAM_RESUME_def quick_config_def calls_def failover_ladder_def)
  then obtain n where n: "rounds_left quick_config (calls [''m'', ''n''] False) fresh_stream = Suc (Suc (Suc n))"
    using that [of 32] by simp
  obtain s where s: "stream_round quick_config (calls [''m'', ''n''] False) (refuses_with 529 ''model_access_denied'') (waiting 2) = (None, s)"
    "ss_model s = 1" "ss_primary s = Some (denial 529)" using failing_round by blast
  from denied_last [OF s(2,3)] obtain t where
    "stream_round quick_config (calls [''m'', ''n''] False) (refuses_with 403 ''model_access_denied'') s = (Some (Inl (GwErr (denial 529))), t)"
    "ss_model t = 1" by blast
  moreover have "fresh_stream = waiting 0" by (simp add: waiting_def fresh_stream_def)
  ultimately show ?thesis
    using overloaded_round [of 0] overloaded_round [of 1] s(1) n
    by (simp add: stream_call_def overloaded_then_denied_def numeral_2_eq_2 numeral_3_eq_3)
qed

theorem failover_refusal_hidden_witness:
  "ss_primary (snd (stream_call quick_config (calls [''m'', ''n''] False) overloaded_then_denied)) = Some (denial 529)"
proof -
  obtain t where t: "stream_call quick_config (calls [''m'', ''n''] False) overloaded_then_denied = (Some (Inl (GwErr (denial 529))), t)" "ss_model t = 1"
    using overloaded_call by blast
  have "modelAccessDenied (denial 529)" by (simp add: modelAccessDenied_def denial_def)
  with failover_refusal_hidden [OF t(1)] t show ?thesis by simp
qed

end
