(* ===== verification/ProfileTypes.thy ===== *)
theory ProfileTypes
  imports SafetyEnvelope AgentLoop
begin

text \<open>
  The data of a profile (HOP): \<open>profile/types.ts\<close>, the composed profile, and the parsed \<open>hop.yaml\<close> of \<open>profile/load.ts\<close>, as the
  schema leaves it: absent leaves are \<open>None\<close>, defaulted ones are filled.  A string of a closed set stays a string.
\<close>

section \<open>Blocks shared by the file and the profile\<close>

datatype eval_role = Golden | Frontier | Probe

record eval_suite =
  es_name :: string
  es_description :: "string option"
  es_tasks :: string
  es_scorer :: string
  es_runs :: nat
  es_passBar :: rat
  es_role :: "eval_role option"
  es_gates :: "bool option"

text \<open>Every leaf may be absent in the file; of a composed block only \<open>maxAge\<close> and \<open>triggers\<close> may.\<close>

record tuning_policy =
  tn_cadence :: "string option"
  tn_maxAge :: "string option"
  tn_minRunsSinceLast :: "nat option"
  tn_canaryFraction :: "rat option"
  tn_canaryMinRuns :: "nat option"
  tn_promote :: "string option"
  tn_frontierMetric :: "string option"
  tn_promotionMargin :: "string option"
  tn_goldenSuite :: "string option"
  tn_triggers :: "string list option"

record tier_def =
  td_primary :: string
  td_fallbacks :: "string list"

record model_policy =
  mp_main :: string
  mp_readOnly :: "string option"
  mp_verify :: "string option"
  mp_allowInvokeAny :: bool
  mp_tiers :: "(string, tier_def) jmap option"
  mp_subscribe :: "string option"
  mp_fallback :: "string option"

record y_model =
  ym_main :: "string option"
  ym_subagents :: "(string option \<times> string option) option"
  ym_allowInvokeAny :: "bool option"
  ym_tiers :: "(string, tier_def) jmap option"
  ym_subscribe :: "string option"
  ym_fallback :: "string option"

record binary_req =
  bq_name :: string
  bq_detect :: string
  bq_setup :: "string option"
  bq_timeoutMs :: "nat option"

record named_req =
  nq_name :: string
  nq_optional :: "bool option"

record requires_policy =
  re_binaries :: "binary_req list"
  re_mcp :: "named_req list"
  re_models :: "string list option"
  re_agents :: "named_req list option"
  re_skills :: "string list option"
  re_memory :: "(bool \<times> bool) option"
  re_kube :: "string list option"

text \<open>The envelope with the parts the evaluation of a class does not read.\<close>

record hop_safety = safety_policy +
  hs_readIdentity :: "string option"
  hs_writeIdentity :: "string option"
  hs_neverSelfGrant :: bool
  hs_sandbox :: "json option"

record hop_sandbox =
  sb_size :: "string option"
  sb_template :: "string option"
  sb_egress :: "string list option"

record mcp_stdio =
  ms_name :: string
  ms_argv :: "string list"
  ms_envNames :: "string list"

record hop_processes =
  pc_mcpStdio :: "mcp_stdio list option"
  pc_hooks :: "bool option"
  pc_lsp :: "bool option"

record hop_credential =
  hc_ref :: string
  hc_tool :: string
  hc_host :: string
  hc_header :: string

record kube_credential =
  kc_ref :: string
  kc_name :: string
  kc_source :: string
  kc_namespace :: "string option"
  kc_allowInsecureTls :: bool

text \<open>A declared credential: its kind is chosen by its tool.\<close>

record y_kube =
  yk_ref :: string
  yk_name :: "string option"
  yk_source :: string
  yk_namespace :: "string option"
  yk_allowInsecureTls :: bool

datatype y_credential = HeaderCredential hop_credential | KubeDeclared y_kube

record memory_limits =
  ml_nodes :: "nat option"
  ml_bytes :: "nat option"
  ml_writeBytes :: "nat option"

record memory_policy =
  mq_record :: "string list"
  mq_feeds :: "string list"

record memory_topic =
  mt_id :: string
  mt_kind :: string
  mt_key :: string
  mt_halfLife :: string
  mt_read :: string
  mt_inject :: bool
  mt_phase :: "string option"
  mt_feedback :: "string option"

record ontology_class =
  oc_name :: string
  oc_parent :: string
  oc_description :: "string option"

record hop_memory =
  hm_workspace :: "string option"
  hm_tenant :: "string option"
  hm_policy :: "memory_policy option"
  hm_topics :: "memory_topic list option"
  hm_reads :: "string list option"
  hm_writes :: "string list option"
  hm_ontology :: "ontology_class list option"
  hm_owner :: "string option"
  hm_mode :: "string option"
  hm_sharing :: "string option"
  hm_publication :: "string option"
  hm_promotion :: "string option"
  hm_limits :: "memory_limits option"

text \<open>In the file the four lists are never absent: the schema fills them.\<close>

record y_memory =
  yh_workspace :: "string option"
  yh_tenant :: "string option"
  yh_policy :: "memory_policy option"
  yh_topics :: "memory_topic list"
  yh_reads :: "string list"
  yh_writes :: "string list"
  yh_ontology :: "ontology_class list"
  yh_owner :: "string option"
  yh_mode :: "string option"
  yh_sharing :: "string option"
  yh_publication :: "string option"
  yh_promotion :: "string option"
  yh_limits :: "memory_limits option"

record hop_module =
  md_prompt :: string
  md_tools :: "string list option"
  md_enabled :: bool
  md_description :: "string option"

datatype on_off = Flag bool | Word string

record y_module =
  yo_prompt :: string
  yo_tools :: "string list option"
  yo_enabled :: on_off
  yo_description :: "string option"

datatype tunable_range = NumericRange rat rat | EnumRange "string list"

type_synonym tunable = "string \<times> tunable_range"

section \<open>The composed profile\<close>

record hop_loop = loop_policy +
  hl_taskType :: string
  hl_checkpointNudge :: "(nat \<Rightarrow> string \<Rightarrow> string) option"
  hl_summarizerSystem :: string
  hl_condenserSystem :: string
  hl_classifierSystem :: "nat \<Rightarrow> string"

record verifier_policy =
  vp_enabled :: bool
  vp_tier :: string
  vp_minChangedLines :: nat
  vp_riskGate :: string
  vp_failMode :: string

record verification_policy =
  vf_observe :: string
  vf_selfCheck :: bool
  vf_minEdits :: nat
  vf_antiChurn :: bool
  vf_threshold :: nat
  vf_agent :: verifier_policy

record hop_routing =
  ro_subagents :: string
  ro_classifyStart :: bool
  ro_ladder :: string
  ro_patience :: nat

record hop_permissions =
  pe_defaultMode :: permission_mode
  pe_allow :: "string list"
  pe_deny :: "string list"

datatype profile_source = FromBuiltin | FromUser | FromProject | FromPath

record profile =
  pf_name :: string
  pf_version :: string
  pf_description :: string
  pf_source :: profile_source
  pf_dir :: "string option"
  pf_extendsChain :: "string list"
  pf_system :: string
  pf_verifierAgent :: string
  pf_verifierTask :: "string \<Rightarrow> string option \<Rightarrow> string"
  pf_loop :: hop_loop
  pf_verification :: verification_policy
  pf_catalogProfile :: string
  pf_routing :: hop_routing
  pf_permissions :: hop_permissions
  pf_include :: "string list option"
  pf_maxTurns :: nat
  pf_taskType :: string
  pf_evals :: "eval_suite list"
  pf_tuning :: "tuning_policy option"
  pf_model :: "model_policy option"
  pf_requires :: "requires_policy option"
  pf_safety :: "hop_safety option"
  pf_memory :: "hop_memory option"
  pf_modelPolicy :: "(string list \<times> string list) option"
  pf_sandbox :: "hop_sandbox option"
  pf_workspace :: "string option option"
  pf_processes :: "hop_processes option"
  pf_credentials :: "hop_credential list option"
  pf_kubeCredentials :: "kube_credential list option"
  pf_locked :: "string list"
  pf_tunable :: "tunable list"
  pf_warnings :: "string list"
  pf_modules :: "(string, hop_module) jmap"

text \<open>\<open>pf_workspace\<close> is the block with its one optional field; no warnings are an absent list.\<close>

section \<open>The parsed file\<close>

record y_agent =
  ya_enabled :: "bool option"
  ya_tier :: "string option"
  ya_minChangedLines :: "nat option"
  ya_riskGate :: "string option"
  ya_failMode :: "string option"
  ya_task :: "string option"

record y_verification =
  yv_observe :: "string option"
  yv_selfCheck :: "bool option"
  yv_minEdits :: "nat option"
  yv_antiChurn :: "bool option"
  yv_threshold :: "nat option"
  yv_agent :: y_agent

record y_routing =
  yr_subagents :: "string option"
  yr_classifyStart :: "bool option"
  yr_ladder :: "string option"
  yr_patience :: "nat option"

record y_permissions =
  yp_defaultMode :: "permission_mode option"
  yp_allow :: "string list option"
  yp_deny :: "string list option"

record profile_yaml =
  y_name :: string
  y_version :: string
  y_description :: string
  y_extends :: string
  y_system :: "string option"
  y_verifierAgent :: "string option"
  y_summarizer :: "string option"
  y_condenser :: "string option"
  y_verification :: y_verification
  y_catalogProfile :: "string option"
  y_routing :: y_routing
  y_permissions :: y_permissions
  y_include :: "string list option"
  y_modules :: "(string, y_module) jmap"
  y_maxTurns :: "nat option"
  y_taskType :: "string option"
  y_evals :: "eval_suite list"
  y_tuning :: "tuning_policy option"
  y_modelBlock :: "y_model option"
  y_requires :: "requires_policy option"
  y_safety :: "hop_safety option"
  y_memory :: y_memory
  y_modelPolicy :: "(string list option \<times> string list option) option"
  y_sandbox :: "hop_sandbox option"
  y_workspace :: "string option option"
  y_processes :: "hop_processes option"
  y_credentials :: "y_credential list option"
  y_locked :: "string list"
  y_tunable :: "tunable list"

end
