(* ===== verification/ProfileLocks.thy ===== *)
theory ProfileLocks
  imports ProfileTypes
begin

text \<open>
  Locks (\<open>profile/load.ts\<close>): the leaf paths a parsed file sets, the paths a profile locks, and the settings a person may not set
  over them.  \<open>yaml_obj\<close> is the parsed file as the object it is in JavaScript, \<open>describeProfile\<close> (\<open>profile/describe.ts\<close>) the view
  of a profile as an object.
\<close>

section \<open>Objects\<close>

definition opt_key :: "string \<Rightarrow> ('a \<Rightarrow> json) \<Rightarrow> 'a option \<Rightarrow> (string \<times> json) list" where
  "opt_key k f v = (case v of None \<Rightarrow> [] | Some x \<Rightarrow> [(k, f x)])"

abbreviation strs :: "string list \<Rightarrow> json" where "strs xs \<equiv> JArr (map JStr xs)"

definition num :: "nat \<Rightarrow> json" where "num n = JNum (int n)"

definition ratio :: "rat \<Rightarrow> json" where "ratio q = (if q = of_int \<lfloor>q\<rfloor> then JNum \<lfloor>q\<rfloor> else JFrac q)"

definition mode_name :: "permission_mode \<Rightarrow> string" where
  "mode_name m = (case m of Recon \<Rightarrow> ''recon'' | Manual \<Rightarrow> ''manual'' | Cruise \<Rightarrow> ''cruise'' | Autopilot \<Rightarrow> ''autopilot'')"

definition role_name :: "eval_role \<Rightarrow> string" where
  "role_name r = (case r of Golden \<Rightarrow> ''golden'' | Frontier \<Rightarrow> ''frontier'' | Probe \<Rightarrow> ''probe'')"

definition always_name :: "bool \<Rightarrow> string" where "always_name b = (if b then ''always'' else ''never'')"

definition eval_obj :: "eval_suite \<Rightarrow> json" where
  "eval_obj e =
     JObj ([(''name'', JStr (es_name e))] @ opt_key ''description'' JStr (es_description e) @
       [(''tasks'', JStr (es_tasks e)), (''scorer'', JStr (es_scorer e)), (''runs'', num (es_runs e)), (''passBar'', ratio (es_passBar e))] @
       opt_key ''role'' (\<lambda>r. JStr (role_name r)) (es_role e) @ opt_key ''gates'' JBool (es_gates e))"

definition tuning_obj :: "tuning_policy \<Rightarrow> json" where
  "tuning_obj t =
     JObj (opt_key ''cadence'' JStr (tn_cadence t) @ opt_key ''maxAge'' JStr (tn_maxAge t) @
       opt_key ''minRunsSinceLast'' num (tn_minRunsSinceLast t) @ opt_key ''canaryFraction'' ratio (tn_canaryFraction t) @
       opt_key ''canaryMinRuns'' num (tn_canaryMinRuns t) @ opt_key ''promote'' JStr (tn_promote t) @
       opt_key ''frontierMetric'' JStr (tn_frontierMetric t) @ opt_key ''promotionMargin'' JStr (tn_promotionMargin t) @
       opt_key ''goldenSuite'' JStr (tn_goldenSuite t) @ opt_key ''triggers'' strs (tn_triggers t))"

definition tiers_obj :: "(string, tier_def) jmap \<Rightarrow> json" where
  "tiers_obj ts = JObj (map (\<lambda>kt. (fst kt, JObj [(''primary'', JStr (td_primary (snd kt))), (''fallbacks'', strs (td_fallbacks (snd kt)))])) ts)"

definition subagents_obj :: "string option \<times> string option \<Rightarrow> json" where
  "subagents_obj s = JObj (opt_key ''readOnly'' JStr (fst s) @ opt_key ''verify'' JStr (snd s))"

definition y_model_obj :: "y_model \<Rightarrow> json" where
  "y_model_obj m =
     JObj (opt_key ''main'' JStr (ym_main m) @ opt_key ''subagents'' subagents_obj (ym_subagents m) @
       opt_key ''allowInvokeAny'' JBool (ym_allowInvokeAny m) @ opt_key ''tiers'' tiers_obj (ym_tiers m) @
       opt_key ''subscribe'' JStr (ym_subscribe m) @ opt_key ''fallback'' JStr (ym_fallback m))"

definition model_obj :: "model_policy \<Rightarrow> json" where
  "model_obj m =
     JObj ([(''main'', JStr (mp_main m)), (''subagents'', subagents_obj (mp_readOnly m, mp_verify m)), (''allowInvokeAny'', JBool (mp_allowInvokeAny m))] @
       opt_key ''tiers'' tiers_obj (mp_tiers m) @ opt_key ''subscribe'' JStr (mp_subscribe m) @ opt_key ''fallback'' JStr (mp_fallback m))"

definition binary_obj :: "binary_req \<Rightarrow> json" where
  "binary_obj b =
     JObj ([(''name'', JStr (bq_name b)), (''detect'', JStr (bq_detect b))] @ opt_key ''setup'' JStr (bq_setup b) @ opt_key ''timeoutMs'' num (bq_timeoutMs b))"

definition named_obj :: "named_req \<Rightarrow> json" where
  "named_obj r = JObj ([(''name'', JStr (nq_name r))] @ opt_key ''optional'' JBool (nq_optional r))"

definition requires_obj :: "requires_policy \<Rightarrow> json" where
  "requires_obj r =
     JObj ([(''binaries'', JArr (map binary_obj (re_binaries r))), (''mcp'', JArr (map named_obj (re_mcp r)))] @
       opt_key ''models'' (\<lambda>ts. JObj [(''tiers'', strs ts)]) (re_models r) @
       opt_key ''agents'' (\<lambda>xs. JArr (map named_obj xs)) (re_agents r) @ opt_key ''skills'' strs (re_skills r) @
       opt_key ''memory'' (\<lambda>rw. JObj [(''read'', JBool (fst rw)), (''write'', JBool (snd rw))]) (re_memory r) @
       opt_key ''kube'' (\<lambda>xs. JArr (map (\<lambda>c. JObj [(''credential'', JStr c)]) xs)) (re_kube r))"

definition safety_obj :: "hop_safety \<Rightarrow> json" where
  "safety_obj s =
     JObj ([(''toolClasses'', JObj [(''readOnly'', strs (tool_classes.tc_readOnly (sp_toolClasses s))), (''mutative'', strs (tc_mutative (sp_toolClasses s))),
              (''destructive'', strs (tc_destructive (sp_toolClasses s)))]),
            (''preApply'', JObj [(''requirePlanArtifact'', JBool (sp_requirePlanArtifact s)), (''hash'', strs (sp_hash s))]),
            (''blastRadius'', JObj (opt_key ''maxResources'' JNum (br_maxResources (sp_blastRadius s)) @
              opt_key ''accounts'' strs (br_accounts (sp_blastRadius s)) @ opt_key ''regions'' strs (br_regions (sp_blastRadius s)) @
              opt_key ''requireTag'' JStr (br_requireTag (sp_blastRadius s)))),
            (''approval'', JObj ([(''destructive'', JStr (always_name (sp_destructiveAlways s))), (''outOfScope'', JStr (always_name (sp_outOfScopeAlways s)))] @
              opt_key ''costCeilingUsdMonth'' JNum (sp_costCeilingUsdMonth s))),
            (''identities'', JObj (opt_key ''read'' JStr (hs_readIdentity s) @ opt_key ''write'' JStr (hs_writeIdentity s) @
              [(''neverSelfGrant'', JBool (hs_neverSelfGrant s))]))] @
       opt_key ''sandbox'' (\<lambda>b. b) (hs_sandbox s))"

definition limits_obj :: "memory_limits \<Rightarrow> json" where
  "limits_obj l = JObj (opt_key ''max_nodes'' num (ml_nodes l) @ opt_key ''max_bytes'' num (ml_bytes l) @ opt_key ''max_write_bytes'' num (ml_writeBytes l))"

definition mem_policy_obj :: "memory_policy \<Rightarrow> json" where
  "mem_policy_obj p = JObj [(''record'', strs (mq_record p)), (''feeds'', strs (mq_feeds p))]"

definition topic_obj :: "memory_topic \<Rightarrow> json" where
  "topic_obj t =
     JObj ([(''id'', JStr (mt_id t)), (''kind'', JStr (mt_kind t)), (''key'', JStr (mt_key t)), (''halfLife'', JStr (mt_halfLife t)),
            (''read'', JStr (mt_read t)), (''inject'', JBool (mt_inject t))] @
       opt_key ''phase'' JStr (mt_phase t) @ opt_key ''feedback'' JStr (mt_feedback t))"

definition class_obj :: "ontology_class \<Rightarrow> json" where
  "class_obj c = JObj ([(''name'', JStr (oc_name c)), (''parent'', JStr (oc_parent c))] @ opt_key ''description'' JStr (oc_description c))"

definition y_memory_obj :: "y_memory \<Rightarrow> json" where
  "y_memory_obj m =
     JObj (opt_key ''workspace'' JStr (yh_workspace m) @ opt_key ''tenant'' JStr (yh_tenant m) @ opt_key ''policy'' mem_policy_obj (yh_policy m) @
       [(''topics'', JArr (map topic_obj (yh_topics m))), (''reads'', strs (yh_reads m)), (''writes'', strs (yh_writes m)),
        (''ontology'', JArr (map class_obj (yh_ontology m)))] @
       opt_key ''owner'' JStr (yh_owner m) @ opt_key ''mode'' JStr (yh_mode m) @ opt_key ''sharing'' JStr (yh_sharing m) @
       opt_key ''publication'' JStr (yh_publication m) @ opt_key ''promotion'' JStr (yh_promotion m) @ opt_key ''limits'' limits_obj (yh_limits m))"

definition memory_obj :: "hop_memory \<Rightarrow> json" where
  "memory_obj m =
     JObj (opt_key ''workspace'' JStr (hm_workspace m) @ opt_key ''tenant'' JStr (hm_tenant m) @ opt_key ''policy'' mem_policy_obj (hm_policy m) @
       opt_key ''topics'' (\<lambda>ts. JArr (map topic_obj ts)) (hm_topics m) @ opt_key ''reads'' strs (hm_reads m) @ opt_key ''writes'' strs (hm_writes m) @
       opt_key ''ontology'' (\<lambda>cs. JArr (map class_obj cs)) (hm_ontology m) @
       opt_key ''owner'' JStr (hm_owner m) @ opt_key ''mode'' JStr (hm_mode m) @ opt_key ''sharing'' JStr (hm_sharing m) @
       opt_key ''publication'' JStr (hm_publication m) @ opt_key ''promotion'' JStr (hm_promotion m) @ opt_key ''limits'' limits_obj (hm_limits m))"

definition sandbox_obj :: "hop_sandbox \<Rightarrow> json" where
  "sandbox_obj s = JObj (opt_key ''size_class'' JStr (sb_size s) @ opt_key ''template'' JStr (sb_template s) @ opt_key ''egress'' strs (sb_egress s))"

definition stdio_obj :: "mcp_stdio \<Rightarrow> json" where
  "stdio_obj s = JObj [(''name'', JStr (ms_name s)), (''argv'', strs (ms_argv s)), (''env_names'', strs (ms_envNames s))]"

definition processes_obj :: "hop_processes \<Rightarrow> json" where
  "processes_obj p =
     JObj (opt_key ''mcp_stdio'' (\<lambda>xs. JArr (map stdio_obj xs)) (pc_mcpStdio p) @ opt_key ''hooks'' JBool (pc_hooks p) @ opt_key ''lsp'' JBool (pc_lsp p))"

definition y_credential_obj :: "y_credential \<Rightarrow> json" where
  "y_credential_obj c =
     (case c of
        HeaderCredential h \<Rightarrow> JObj [(''ref'', JStr (hc_ref h)), (''tool'', JStr (hc_tool h)), (''host'', JStr (hc_host h)), (''header'', JStr (hc_header h))]
      | KubeDeclared k \<Rightarrow>
          JObj ([(''ref'', JStr (yk_ref k)), (''tool'', JStr ''kube'')] @ opt_key ''name'' JStr (yk_name k) @ [(''source'', JStr (yk_source k))] @
            opt_key ''namespace'' JStr (yk_namespace k) @ [(''allowInsecureTls'', JBool (yk_allowInsecureTls k))]))"

definition on_off_obj :: "on_off \<Rightarrow> json" where
  "on_off_obj e = (case e of Flag b \<Rightarrow> JBool b | Word w \<Rightarrow> JStr w)"

definition y_module_obj :: "y_module \<Rightarrow> json" where
  "y_module_obj m =
     JObj ([(''prompt'', JStr (yo_prompt m))] @ opt_key ''tools'' strs (yo_tools m) @ [(''enabled'', on_off_obj (yo_enabled m))] @
       opt_key ''description'' JStr (yo_description m))"

definition module_obj :: "hop_module \<Rightarrow> json" where
  "module_obj m =
     JObj ([(''prompt'', JStr (md_prompt m))] @ opt_key ''tools'' strs (md_tools m) @ [(''enabled'', JBool (md_enabled m))] @
       opt_key ''description'' JStr (md_description m))"

definition range_obj :: "tunable \<Rightarrow> json" where
  "range_obj t =
     JObj [(''path'', JStr (fst t)),
       (''range'', case snd t of NumericRange a b \<Rightarrow> JArr [ratio a, ratio b] | EnumRange xs \<Rightarrow> strs xs)]"

definition y_verification_obj :: "y_verification \<Rightarrow> json" where
  "y_verification_obj v =
     (let a = yv_agent v
      in JObj (opt_key ''observe'' JStr (yv_observe v) @
           [(''selfCheck'', JObj (opt_key ''enabled'' JBool (yv_selfCheck v) @ opt_key ''minEdits'' num (yv_minEdits v))),
            (''antiChurn'', JObj (opt_key ''enabled'' JBool (yv_antiChurn v) @ opt_key ''threshold'' num (yv_threshold v))),
            (''agent'', JObj (opt_key ''enabled'' JBool (ya_enabled a) @ opt_key ''tier'' JStr (ya_tier a) @
              opt_key ''riskGateMinChangedLines'' num (ya_minChangedLines a) @ opt_key ''riskGate'' JStr (ya_riskGate a) @
              opt_key ''failMode'' JStr (ya_failMode a) @ opt_key ''task'' JStr (ya_task a)))]))"

definition yaml_obj :: "profile_yaml \<Rightarrow> (string \<times> json) list" where
  "yaml_obj y =
     [(''spec'', JStr ''mlpal/hop-v1''), (''name'', JStr (y_name y)), (''version'', JStr (y_version y)), (''description'', JStr (y_description y)),
      (''extends'', JStr (y_extends y)),
      (''prompts'', JObj (opt_key ''system'' JStr (y_system y) @ opt_key ''verifierAgent'' JStr (y_verifierAgent y) @
         opt_key ''summarizer'' JStr (y_summarizer y) @ opt_key ''condenser'' JStr (y_condenser y))),
      (''verification'', y_verification_obj (y_verification y)),
      (''catalog'', JObj (opt_key ''profile'' JStr (y_catalogProfile y))),
      (''routing'', JObj (opt_key ''subagents'' JStr (yr_subagents (y_routing y)) @ opt_key ''classifyStart'' JBool (yr_classifyStart (y_routing y)) @
         [(''escalation'', JObj (opt_key ''ladder'' JStr (yr_ladder (y_routing y)) @ opt_key ''patience'' num (yr_patience (y_routing y))))])),
      (''permissions'', JObj (opt_key ''defaultMode'' (\<lambda>m. JStr (mode_name m)) (yp_defaultMode (y_permissions y)) @
         opt_key ''allow'' strs (yp_allow (y_permissions y)) @ opt_key ''deny'' strs (yp_deny (y_permissions y)))),
      (''tools'', JObj (opt_key ''include'' strs (y_include y))),
      (''modules'', JObj (map (\<lambda>nm. (fst nm, y_module_obj (snd nm))) (y_modules y))),
      (''budgets'', JObj (opt_key ''maxTurns'' num (y_maxTurns y))),
      (''telemetry'', JObj (opt_key ''taskType'' JStr (y_taskType y))),
      (''evals'', JArr (map eval_obj (y_evals y)))] @
     opt_key ''tuning'' tuning_obj (y_tuning y) @ opt_key ''model'' y_model_obj (y_modelBlock y) @ opt_key ''requires'' requires_obj (y_requires y) @
     opt_key ''safety'' safety_obj (y_safety y) @
     [(''memory'', y_memory_obj (y_memory y))] @
     opt_key ''model_policy'' (\<lambda>ad. JObj (opt_key ''allow'' strs (fst ad) @ opt_key ''deny'' strs (snd ad))) (y_modelPolicy y) @
     opt_key ''sandbox'' sandbox_obj (y_sandbox y) @ opt_key ''workspace'' (\<lambda>w. JObj (opt_key ''policy'' JStr w)) (y_workspace y) @
     opt_key ''processes'' processes_obj (y_processes y) @ opt_key ''credentials'' (\<lambda>cs. JArr (map y_credential_obj cs)) (y_credentials y) @
     [(''locked'', strs (y_locked y)), (''tunable'', JArr (map range_obj (y_tunable y)))]"

section \<open>Paths\<close>

definition dotted :: "string \<Rightarrow> string \<Rightarrow> string" where
  "dotted stem k = (if stem = [] then k else stem @ ''.'' @ k)"

fun leaf_paths :: "string \<Rightarrow> json \<Rightarrow> string list" where
  "leaf_paths stem (JObj kvs) = concat (map (\<lambda>(k, v). leaf_paths (dotted stem k) v) kvs)"
| "leaf_paths stem v = [stem]"

definition presentLeafPaths :: "(string \<times> json) list \<Rightarrow> string list" where
  "presentLeafPaths kvs = leaf_paths [] (JObj kvs)"

text \<open>\<open>p === l || p.startsWith(l + ".")\<close>\<close>

definition lies_under :: "string \<Rightarrow> string \<Rightarrow> bool" where
  "lies_under l p \<longleftrightarrow> p = l \<or> take (length l + 1) p = l @ ''.''"

definition locked_by :: "string list \<Rightarrow> string \<Rightarrow> bool" where
  "locked_by locks p \<longleftrightarrow> list_ex (\<lambda>l. lies_under l p) locks"

definition lockViolation :: "string list \<Rightarrow> string list \<Rightarrow> string option" where
  "lockViolation locks paths = find (locked_by locks) paths"

fun getPath_keys :: "json \<Rightarrow> string list \<Rightarrow> json option" where
  "getPath_keys v [] = Some v"
| "getPath_keys v (k # ks) = Option.bind (jget k v) (\<lambda>w. getPath_keys w ks)"

definition getPath :: "json \<Rightarrow> string \<Rightarrow> json option" where
  "getPath v path = getPath_keys v (split_ch CHR ''.'' path)"

definition META_KEYS :: "string list" where
  "META_KEYS = [''spec'', ''name'', ''version'', ''description'', ''extends'', ''locked'', ''tunable'', ''evals'']"

definition overriddenPaths :: "profile_yaml \<Rightarrow> string list" where
  "overriddenPaths y =
     filter (\<lambda>p. \<not> locked_by META_KEYS p \<and> take (length ''permissions.deny'') p \<noteq> ''permissions.deny'') (presentLeafPaths (yaml_obj y))"

section \<open>Settings over a profile\<close>

definition settings_map :: "(string \<times> string) list" where
  "settings_map =
     [(''mode'', ''permissions.defaultMode''),
      (''maxTurns'', ''budgets.maxTurns''),
      (''permissions.allow'', ''permissions.allow''),
      (''permissions.deny'', ''permissions.deny''),
      (''routing.subtasks'', ''routing.subagents''),
      (''routing.budget'', ''routing.subagents''),
      (''routing.escalation'', ''routing.escalation.ladder''),
      (''routing.escalationPatience'', ''routing.escalation.patience''),
      (''routing.classifyStart'', ''routing.classifyStart''),
      (''verify.command'', ''verification.command''),
      (''verify.auto'', ''verification.command''),
      (''verify.selfCheck'', ''verification.selfCheck.enabled''),
      (''verify.selfCheckMinEdits'', ''verification.selfCheck.minEdits''),
      (''verify.antiChurn'', ''verification.antiChurn.enabled''),
      (''verify.agent'', ''verification.agent.enabled'')]"

definition settings_message :: "profile \<Rightarrow> string \<times> string \<Rightarrow> string" where
  "settings_message p sp =
     ''settings set '' @ [dquote] @ fst sp @ [dquote] @ '', but profile '' @ [dquote] @ pf_name p @ [dquote] @ '' locks '' @ [dquote] @ snd sp @ [dquote] @
     '' '' @ emdash @ '' remove the setting or use a profile that does not lock it''"

text \<open>The error, when a setting touches a lock.\<close>

definition assertSettingsRespectLocks :: "profile \<Rightarrow> json \<Rightarrow> string option" where
  "assertSettingsRespectLocks p explicit =
     map_option (settings_message p) (find (\<lambda>sp. getPath explicit (fst sp) \<noteq> None \<and> locked_by (pf_locked p) (snd sp)) settings_map)"

section \<open>The view of a profile\<close>

definition present :: "('a \<Rightarrow> bool) option \<Rightarrow> json" where
  "present r = (case r of None \<Rightarrow> JNull | Some f \<Rightarrow> JBool True)"

definition verification_obj :: "verification_policy \<Rightarrow> json" where
  "verification_obj v =
     (let a = vf_agent v
      in JObj [(''observe'', JStr (vf_observe v)),
           (''selfCheck'', JObj [(''enabled'', JBool (vf_selfCheck v)), (''minEdits'', num (vf_minEdits v))]),
           (''antiChurn'', JObj [(''enabled'', JBool (vf_antiChurn v)), (''threshold'', num (vf_threshold v))]),
           (''agent'', JObj [(''enabled'', JBool (vp_enabled a)), (''tier'', JStr (vp_tier a)),
              (''riskGateMinChangedLines'', num (vp_minChangedLines a)), (''riskGate'', JStr (vp_riskGate a)), (''failMode'', JStr (vp_failMode a))])])"

definition source_name :: "profile_source \<Rightarrow> string" where
  "source_name s = (case s of FromBuiltin \<Rightarrow> ''builtin'' | FromUser \<Rightarrow> ''user'' | FromProject \<Rightarrow> ''project'' | FromPath \<Rightarrow> ''path'')"

text \<open>The source of a regular expression is not kept: whether there is one is.\<close>

definition describeProfile :: "profile \<Rightarrow> json" where
  "describeProfile p =
     JObj ([(''name'', JStr (pf_name p)), (''version'', JStr (pf_version p)), (''description'', JStr (pf_description p)),
       (''source'', JStr (source_name (pf_source p))), (''dir'', case pf_dir p of None \<Rightarrow> JNull | Some d \<Rightarrow> JStr d),
       (''extendsChain'', strs (pf_extendsChain p)),
       (''prompts'', JObj [(''system'', JStr (pf_system p)), (''verifierAgent'', JStr (pf_verifierAgent p))]),
       (''loop'', JObj [(''taskType'', JStr (hl_taskType (pf_loop p))), (''verifyCommand'', present (po_verifyCommand (pf_loop p))),
          (''envBroken'', present (po_envBroken (pf_loop p))), (''churnThreshold'', num (po_churnThreshold (pf_loop p))),
          (''summarizerSystem'', JStr (hl_summarizerSystem (pf_loop p))), (''condenserSystem'', JStr (hl_condenserSystem (pf_loop p))),
          (''checkpointNudge'', JBool (hl_checkpointNudge (pf_loop p) \<noteq> None))]),
       (''verification'', verification_obj (pf_verification p)),
       (''catalog'', JObj [(''profile'', JStr (pf_catalogProfile p))]),
       (''routing'', JObj [(''subagents'', JStr (ro_subagents (pf_routing p))), (''classifyStart'', JBool (ro_classifyStart (pf_routing p))),
          (''escalation'', JObj [(''ladder'', JStr (ro_ladder (pf_routing p))), (''patience'', num (ro_patience (pf_routing p)))])]),
       (''permissions'', JObj [(''defaultMode'', JStr (mode_name (pe_defaultMode (pf_permissions p)))), (''allow'', strs (pe_allow (pf_permissions p))),
          (''deny'', strs (pe_deny (pf_permissions p)))]),
       (''tools'', JObj (opt_key ''include'' strs (pf_include p))),
       (''budgets'', JObj [(''maxTurns'', num (pf_maxTurns p))]),
       (''telemetry'', JObj [(''taskType'', JStr (pf_taskType p))]),
       (''evals'', JArr (map eval_obj (pf_evals p)))] @
      opt_key ''tuning'' tuning_obj (pf_tuning p) @ opt_key ''model'' model_obj (pf_model p) @ opt_key ''requires'' requires_obj (pf_requires p) @
      opt_key ''safety'' safety_obj (pf_safety p) @ opt_key ''memory'' memory_obj (pf_memory p) @
      opt_key ''modelPolicy'' (\<lambda>ad. JObj [(''allow'', strs (fst ad)), (''deny'', strs (snd ad))]) (pf_modelPolicy p) @
      [(''locked'', strs (pf_locked p)), (''tunable'', JArr (map range_obj (pf_tunable p))),
       (''modules'', JObj (map (\<lambda>nm. (fst nm, module_obj (snd nm))) (pf_modules p)))] @
      (if pf_warnings p = [] then [] else [(''warnings'', strs (pf_warnings p))]))"

end
