(* ===== verification/ProfileFiles.thy ===== *)
theory ProfileFiles
  imports ProfileLocks
begin

text \<open>
  The paths and files a load touches (\<open>profile/load.ts\<close>): \<open>join\<close>, \<open>resolve\<close> and \<open>relative\<close> of \<open>node:path\<close> on POSIX, the confinement of
  an untrusted bundle, and the texts its prompts refer to.  The file system is a parameter.
\<close>

section \<open>Paths\<close>

definition split_path :: "string \<Rightarrow> string list" where "split_path p = split_ch CHR ''/'' p"

definition isAbsolute :: "string \<Rightarrow> bool" where "isAbsolute p \<longleftrightarrow> p \<noteq> [] \<and> hd p = CHR ''/''"

text \<open>\<open>normalizeString\<close> on segments; the accumulator is reversed.\<close>

fun normal_segs :: "bool \<Rightarrow> string list \<Rightarrow> string list \<Rightarrow> string list" where
  "normal_segs up_ok [] acc = rev acc"
| "normal_segs up_ok (s # ss) acc =
     (if s = [] \<or> s = ''.'' then normal_segs up_ok ss acc
      else if s = ''..'' then
        (case acc of
           t # ts \<Rightarrow> if t \<noteq> ''..'' then normal_segs up_ok ss ts else if up_ok then normal_segs up_ok ss (s # acc) else normal_segs up_ok ss acc
         | [] \<Rightarrow> if up_ok then normal_segs up_ok ss [s] else normal_segs up_ok ss [])
      else normal_segs up_ok ss (s # acc))"

definition normalize :: "string \<Rightarrow> string" where
  "normalize p =
     (if p = [] then ''.''
      else (let absolute = isAbsolute p; body = join ''/'' (normal_segs (\<not> absolute) (split_path p) []);
                trailing = last p = CHR ''/''
            in if body = [] then (if absolute then ''/'' else if trailing then ''./'' else ''.'')
               else (if absolute then ''/'' else []) @ body @ (if trailing then ''/'' else [])))"

definition path_join :: "string list \<Rightarrow> string" where
  "path_join parts = (let ps = filter (\<lambda>p. p \<noteq> []) parts in if ps = [] then ''.'' else normalize (join ''/'' ps))"

text \<open>\<open>resolve\<close>: the arguments from the last to the first until one is absolute, then the working directory.\<close>

fun resolve_text :: "string \<Rightarrow> string list \<Rightarrow> string \<Rightarrow> string" where
  "resolve_text cwd [] acc = cwd @ ''/'' @ acc"
| "resolve_text cwd (p # ps) acc =
     (if p = [] then resolve_text cwd ps acc
      else if isAbsolute p then p @ ''/'' @ acc
      else resolve_text cwd ps (p @ ''/'' @ acc))"

definition resolved_segs :: "string \<Rightarrow> string list \<Rightarrow> string list" where
  "resolved_segs cwd parts = normal_segs False (split_path (resolve_text cwd (rev parts) [])) []"

definition path_resolve :: "string \<Rightarrow> string list \<Rightarrow> string" where
  "path_resolve cwd parts = ''/'' @ join ''/'' (resolved_segs cwd parts)"

fun drop_common :: "string list \<Rightarrow> string list \<Rightarrow> string list \<times> string list" where
  "drop_common (a # as) (b # bs) = (if a = b then drop_common as bs else (a # as, b # bs))"
| "drop_common as bs = (as, bs)"

definition path_relative :: "string \<Rightarrow> string \<Rightarrow> string \<Rightarrow> string" where
  "path_relative cwd a b =
     (let (up, down) = drop_common (resolved_segs cwd [a]) (resolved_segs cwd [b])
      in join ''/'' (map (\<lambda>s. ''..'') up @ down))"

section \<open>Files\<close>

text \<open>How a load fails; the last two are a reference that finds a member every object inherits in the table of builtins: returned as if it were
  a profile, and thrown at when something is composed over it.\<close>

datatype load_error = HopPath string string | LoadFailed string | NotAProfile string | ParentNotAProfile string

record hop_fs =
  fs_exists :: "string \<Rightarrow> bool"
  fs_realpath :: "string \<Rightarrow> string option"
  fs_read :: "string \<Rightarrow> string + string"
  fs_entries :: "string \<Rightarrow> string list"

text \<open>\<open>fs_read\<close> gives the error's text or the file's.\<close>

definition escapes :: "string \<Rightarrow> bool" where
  "escapes rel \<longleftrightarrow> rel = ''..'' \<or> take 3 rel = ''../'' \<or> isAbsolute rel"

definition textually_inside :: "string \<Rightarrow> string \<Rightarrow> string \<Rightarrow> bool" where
  "textually_inside cwd base p \<longleftrightarrow> \<not> escapes (path_relative cwd (path_resolve cwd [base]) (path_resolve cwd [p]))"

definition confined :: "hop_fs \<Rightarrow> string \<Rightarrow> string \<Rightarrow> string option \<Rightarrow> string \<Rightarrow> load_error + string" where
  "confined fs cwd p base field =
     (case base of
        None \<Rightarrow> Inr p
      | Some r \<Rightarrow>
          if \<not> textually_inside cwd r p then Inl (HopPath field p)
          else (let (realRoot, real) =
                      (case (fs_realpath fs r, fs_realpath fs p) of
                         (Some a, Some b) \<Rightarrow> (a, b)
                       | _ \<Rightarrow> (path_resolve cwd [r], path_resolve cwd [p]))
                in if escapes (path_relative cwd realRoot real) then Inl (HopPath field p) else Inr p))"

definition strip_newline :: "string \<Rightarrow> string" where
  "strip_newline t = (if t \<noteq> [] \<and> last t = nl then butlast t else t)"

definition starts :: "string \<Rightarrow> string \<Rightarrow> bool" where "starts p s \<longleftrightarrow> take (length p) s = p"

definition quoted :: "string \<Rightarrow> string" where "quoted s = [dquote] @ s @ [dquote]"

text \<open>A file inside the confinement, with the message that it is missing.\<close>

definition read_confined :: "hop_fs \<Rightarrow> string \<Rightarrow> string option \<Rightarrow> string \<Rightarrow> string \<Rightarrow> string \<Rightarrow> load_error + string" where
  "read_confined fs cwd base field missing p =
     (case confined fs cwd p base field of
        Inl e \<Rightarrow> Inl e
      | Inr q \<Rightarrow>
          if \<not> fs_exists fs q then Inl (LoadFailed missing)
          else (case fs_read fs q of Inl e \<Rightarrow> Inl (LoadFailed e) | Inr t \<Rightarrow> Inr t))"

definition resolvePromptText :: "hop_fs \<Rightarrow> string \<Rightarrow> string option \<Rightarrow> string \<Rightarrow> string \<Rightarrow> string \<Rightarrow> load_error + string" where
  "resolvePromptText fs cwd base dir field value =
     (if \<not> starts ''file:'' value then Inr value
      else (let rel = drop 5 value; p = (if isAbsolute rel then rel else path_join [dir, rel])
            in map_sum id strip_newline
                 (read_confined fs cwd base field (''profile '' @ field @ '' references '' @ value @ '' but '' @ p @ '' does not exist'') p)))"

section \<open>Two file systems that agree inside a directory\<close>

text \<open>Inside by the text, and after links where there are any to follow.\<close>

definition stays_inside :: "hop_fs \<Rightarrow> string \<Rightarrow> string \<Rightarrow> string \<Rightarrow> bool" where
  "stays_inside fs cwd base p \<longleftrightarrow>
     textually_inside cwd base p \<and>
     (\<forall>r q. fs_realpath fs base = Some r \<longrightarrow> fs_realpath fs p = Some q \<longrightarrow> \<not> escapes (path_relative cwd r q))"

text \<open>What a confined load may see: where the paths inside the base lead, and what is in those that stay inside.\<close>

definition same_inside :: "string \<Rightarrow> string \<Rightarrow> hop_fs \<Rightarrow> hop_fs \<Rightarrow> bool" where
  "same_inside cwd base fs gs \<longleftrightarrow>
     fs_realpath fs base = fs_realpath gs base \<and>
     (\<forall>p. textually_inside cwd base p \<longrightarrow>
        fs_realpath fs p = fs_realpath gs p \<and>
        (stays_inside fs cwd base p \<longrightarrow> fs_exists fs p = fs_exists gs p \<and> fs_read fs p = fs_read gs p))"

lemma confined_same: "same_inside cwd base fs gs \<Longrightarrow> confined fs cwd p (Some base) field = confined gs cwd p (Some base) field"
  by (auto simp: confined_def same_inside_def)

lemma confined_path: "confined fs cwd p base field = Inr q \<Longrightarrow> q = p"
  by (auto simp: confined_def Let_def split: option.splits if_splits prod.splits)

lemma confined_stays: "confined fs cwd p (Some base) field = Inr q \<Longrightarrow> stays_inside fs cwd base p"
  by (auto simp: confined_def stays_inside_def split: option.splits if_splits)

lemma confined_sees:
  assumes "same_inside cwd base fs gs" "confined fs cwd p (Some base) field = Inr q"
  shows "fs_exists fs p = fs_exists gs p \<and> fs_read fs p = fs_read gs p"
  using assms(1) confined_stays [OF assms(2)] by (auto simp: same_inside_def stays_inside_def)

lemma read_same:
  assumes "same_inside cwd base fs gs"
  shows "read_confined fs cwd (Some base) field missing p = read_confined gs cwd (Some base) field missing p"
proof (cases "confined fs cwd p (Some base) field")
  case (Inl e)
  then show ?thesis by (simp add: read_confined_def confined_same [OF assms, of p field, symmetric])
next
  case (Inr q)
  then show ?thesis using confined_sees [OF assms Inr] confined_path [OF Inr] by (simp add: read_confined_def confined_same [OF assms, of p field, symmetric])
qed

lemma prompt_same:
  "same_inside cwd base fs gs \<Longrightarrow>
   resolvePromptText fs cwd (Some base) dir field value = resolvePromptText gs cwd (Some base) dir field value"
  by (simp add: resolvePromptText_def Let_def read_same)

end
