(* ===== verification/ProfileCompose.thy ===== *)
theory ProfileCompose
  imports ProfileFiles
begin

text \<open>
  \<open>composeProfile\<close> of \<open>profile/load.ts\<close>, block by block, and the model policy its pins are checked against
  (\<open>profile/model-policy.ts\<close>).  A name looked up with \<open>in\<close> is looked up among an object's own keys.
\<close>

section \<open>Substituting a text\<close>

text \<open>\<open>GetSubstitution\<close> for a plain pattern: the dollar forms of a replacement are expanded.\<close>

fun substitution :: "string \<Rightarrow> string \<Rightarrow> string \<Rightarrow> string \<Rightarrow> string" where
  "substitution matched pre post (c # d # r) =
     (if c = CHR ''$'' then
        if d = CHR ''$'' then c # substitution matched pre post r
        else if d = CHR ''&'' then matched @ substitution matched pre post r
        else if d = backtick then pre @ substitution matched pre post r
        else if d = squote then post @ substitution matched pre post r
        else c # substitution matched pre post (d # r)
      else c # substitution matched pre post (d # r))"
| "substitution matched pre post r = r"

function replace_from :: "string \<Rightarrow> string \<Rightarrow> string \<Rightarrow> string \<Rightarrow> string" where
  "replace_from pat rep pre s =
     (if pat = [] \<or> s = [] then s
      else if take (length pat) s = pat then
        substitution pat pre (drop (length pat) s) rep @ replace_from pat rep (pre @ pat) (drop (length pat) s)
      else hd s # replace_from pat rep (pre @ [hd s]) (tl s))"
  by pat_completeness auto
termination by (relation "measure (\<lambda>(pat, rep, pre, s). length s)") auto

declare replace_from.simps [simp del]

definition replaceAll :: "string \<Rightarrow> string \<Rightarrow> string \<Rightarrow> string" where
  "replaceAll s pat rep = replace_from pat rep [] s"

section \<open>Evals and tuning\<close>

definition withGatesDefaults :: "eval_suite list \<Rightarrow> eval_suite list" where
  "withGatesDefaults evals =
     map (\<lambda>e. e\<lparr>es_gates := Some (case es_gates e of Some g \<Rightarrow> g | None \<Rightarrow> es_role e \<in> {Some Golden, Some Probe})\<rparr>) evals"

abbreviation over :: "'a option \<Rightarrow> 'a option \<Rightarrow> 'a option" where
  "over child parent \<equiv> (case child of Some x \<Rightarrow> Some x | None \<Rightarrow> parent)"

abbreviation over_default :: "'a option \<Rightarrow> 'a \<Rightarrow> 'a" where
  "over_default child parent \<equiv> (case child of Some x \<Rightarrow> x | None \<Rightarrow> parent)"

definition merged_tuning :: "tuning_policy \<Rightarrow> tuning_policy \<Rightarrow> tuning_policy" where
  "merged_tuning p c =
     \<lparr>tn_cadence = over (tn_cadence c) (tn_cadence p), tn_maxAge = over (tn_maxAge c) (tn_maxAge p),
      tn_minRunsSinceLast = over (tn_minRunsSinceLast c) (tn_minRunsSinceLast p), tn_canaryFraction = over (tn_canaryFraction c) (tn_canaryFraction p),
      tn_canaryMinRuns = over (tn_canaryMinRuns c) (tn_canaryMinRuns p), tn_promote = over (tn_promote c) (tn_promote p),
      tn_frontierMetric = over (tn_frontierMetric c) (tn_frontierMetric p), tn_promotionMargin = over (tn_promotionMargin c) (tn_promotionMargin p),
      tn_goldenSuite = over (tn_goldenSuite c) (tn_goldenSuite p), tn_triggers = over (tn_triggers c) (tn_triggers p)\<rparr>"

definition tuning_required :: "tuning_policy \<Rightarrow> (string \<times> bool) list" where
  "tuning_required t =
     [(''cadence'', tn_cadence t \<noteq> None), (''minRunsSinceLast'', tn_minRunsSinceLast t \<noteq> None), (''canaryFraction'', tn_canaryFraction t \<noteq> None),
      (''canaryMinRuns'', tn_canaryMinRuns t \<noteq> None), (''promote'', tn_promote t \<noteq> None), (''frontierMetric'', tn_frontierMetric t \<noteq> None),
      (''promotionMargin'', tn_promotionMargin t \<noteq> None), (''goldenSuite'', tn_goldenSuite t \<noteq> None)]"

definition complete_tuning :: "string \<Rightarrow> tuning_policy \<Rightarrow> load_error + tuning_policy option" where
  "complete_tuning name merged =
     (case find (\<lambda>kb. \<not> snd kb) (tuning_required merged) of
        Some (k, _) \<Rightarrow>
          Inl (LoadFailed (''profile '' @ quoted name @ '' declares a tuning block missing required field '' @ quoted k @ '' '' @ emdash @
            '' a HOP either has a complete tuning policy or none''))
      | None \<Rightarrow> Inr (Some merged))"

fun composeTuning :: "tuning_policy option \<Rightarrow> tuning_policy option \<Rightarrow> string \<Rightarrow> load_error + tuning_policy option" where
  "composeTuning None None name = Inr None"
| "composeTuning (Some p) None name = complete_tuning name p"
| "composeTuning None (Some c) name = complete_tuning name c"
| "composeTuning (Some p) (Some c) name = complete_tuning name (merged_tuning p c)"

definition suite_named :: "eval_suite list \<Rightarrow> string option \<Rightarrow> eval_suite option" where
  "suite_named evals name = find (\<lambda>e. Some (es_name e) = name) (rev evals)"

definition validateTuning :: "tuning_policy \<Rightarrow> eval_suite list \<Rightarrow> string \<Rightarrow> load_error option" where
  "validateTuning t evals name =
     (let frontier = suite_named evals (tn_frontierMetric t); golden = suite_named evals (tn_goldenSuite t)
      in if map_option es_role frontier \<noteq> Some (Some Frontier) then
           Some (LoadFailed (''profile '' @ quoted name @ '' tuning.frontierMetric must name an eval suite with role: frontier''))
         else if map_option es_role golden \<noteq> Some (Some Golden) then
           Some (LoadFailed (''profile '' @ quoted name @ '' tuning.goldenSuite must name an eval suite with role: golden''))
         else if tn_promote t = Some ''auto'' \<and> map_option es_gates golden \<noteq> Some (Some True) then
           Some (LoadFailed (''profile '' @ quoted name @ '' sets tuning.promote: auto but its golden suite does not gate''))
         else None)"

section \<open>Models\<close>

definition some_text :: "string option \<Rightarrow> string option" where
  "some_text s = (case s of Some (c # cs) \<Rightarrow> Some (c # cs) | _ \<Rightarrow> None)"

definition merged_map :: "('k, 'v) jmap \<Rightarrow> ('k, 'v) jmap \<Rightarrow> ('k, 'v) jmap" where
  "merged_map p c = fold (\<lambda>kv. jmap_set (fst kv) (snd kv)) c p"

definition composeModel :: "model_policy option \<Rightarrow> y_model option \<Rightarrow> string \<Rightarrow> load_error + model_policy option" where
  "composeModel parent child name =
     (if parent = None \<and> child = None then Inr None
      else (let sub = Option.bind child ym_subagents;
                tiers = (case (Option.bind parent mp_tiers, Option.bind child ym_tiers) of
                           (None, None) \<Rightarrow> None
                         | (p, c) \<Rightarrow> Some (merged_map (over_default p []) (over_default c [])))
            in case some_text (over (Option.bind child ym_main) (map_option mp_main parent)) of
                 None \<Rightarrow> Inl (LoadFailed (''profile '' @ quoted name @ '' declares a model block without model.main''))
               | Some m \<Rightarrow>
                   Inr (Some
                     \<lparr>mp_main = m,
                      mp_readOnly = over (Option.bind sub fst) (Option.bind parent mp_readOnly),
                      mp_verify = over (Option.bind sub snd) (Option.bind parent mp_verify),
                      mp_allowInvokeAny = over_default (Option.bind child ym_allowInvokeAny) (case parent of Some p \<Rightarrow> mp_allowInvokeAny p | None \<Rightarrow> True),
                      mp_tiers = tiers,
                      mp_subscribe = some_text (over (Option.bind child ym_subscribe) (Option.bind parent mp_subscribe)),
                      mp_fallback = over (Option.bind child ym_fallback) (Option.bind parent mp_fallback)\<rparr>)))"

definition TIER_RANK :: "(string \<times> nat) list" where
  "TIER_RANK = [(''cheap'', 0), (''mid'', 1), (''frontier'', 2), (''max'', 3)]"

text \<open>\<open>/^[a-z][a-z-]{0,31}$/\<close>\<close>

definition tier_name :: "string \<Rightarrow> bool" where
  "tier_name s \<longleftrightarrow> s \<noteq> [] \<and> is_lower (hd s) \<and> list_all (\<lambda>c. is_lower c \<or> c = CHR ''-'') (tl s) \<and> length s \<le> 32"

definition unpinned_warning :: string where
  "unpinned_warning = ''model.* resolves against the catalog (no tiers/subscribe declared) '' @ emdash @ '' the model set is unpinned''"

definition primary_tier :: "(string, tier_def) jmap \<Rightarrow> string \<Rightarrow> string option" where
  "primary_tier tiers m = map_option fst (find (\<lambda>td. td_primary (snd td) = m) (rev tiers))"

fun check_fallbacks :: "(string, tier_def) jmap \<Rightarrow> string \<Rightarrow> string \<Rightarrow> nat \<Rightarrow> string list \<Rightarrow> load_error + string list" where
  "check_fallbacks tiers name main rank [] = Inr []"
| "check_fallbacks tiers name main rank (fb # fbs) =
     (case primary_tier tiers fb of
        Some t \<Rightarrow>
          (case map_of TIER_RANK t of
             Some r \<Rightarrow>
               if r < rank then
                 Inl (LoadFailed (''profile '' @ quoted name @ '' model.main tier '' @ quoted main @ '' lists fallback '' @ quoted fb @ '' '' @ emdash @
                   '' the primary of lower tier '' @ quoted t @ ''; a main loop may not silently degrade downward''))
               else check_fallbacks tiers name main rank fbs
           | None \<Rightarrow> check_fallbacks tiers name main rank fbs)
      | None \<Rightarrow>
          map_sum id ((#) (''model.main fallback '' @ quoted fb @ '' is not a declared tier's primary (author-vouched, unpinned quality)''))
            (check_fallbacks tiers name main rank fbs))"

definition validateModel :: "model_policy \<Rightarrow> string \<Rightarrow> load_error + string list" where
  "validateModel m name =
     (let tiers = over_default (mp_tiers m) [];
          unpinned = (if mp_tiers m = None \<and> mp_subscribe m = None then [unpinned_warning] else [])
      in case find (\<lambda>k. \<not> tier_name k) (map fst tiers) of
           Some k \<Rightarrow> Inl (LoadFailed (''profile '' @ quoted name @ '' model.tiers name '' @ quoted k @ '' must match the grammar of tier names''))
         | None \<Rightarrow>
             (case (map_of tiers (mp_main m), map_of TIER_RANK (mp_main m)) of
                (Some d, Some rank) \<Rightarrow> map_sum id (\<lambda>ws. unpinned @ ws) (check_fallbacks tiers name (mp_main m) rank (td_fallbacks d))
              | _ \<Rightarrow> Inr unpinned))"

section \<open>The model policy\<close>

text \<open>The items of a character class; a range out of order is no expression.\<close>

fun class_items :: "string \<Rightarrow> (char \<Rightarrow> bool) option" where
  "class_items [] = Some (\<lambda>c. False)"
| "class_items (a # d # b # r) =
     (if d = CHR ''-'' then
        if b < a then None else map_option (\<lambda>f c. (a \<le> c \<and> c \<le> b) \<or> f c) (class_items r)
      else map_option (\<lambda>f c. c = a \<or> f c) (class_items (d # b # r)))"
| "class_items (a # r) = map_option (\<lambda>f c. c = a \<or> f c) (class_items r)"

definition glob_class :: "string \<Rightarrow> (char \<Rightarrow> bool) option" where
  "glob_class body =
     (case body of
        c # r \<Rightarrow> if c = CHR ''!'' \<or> c = CHR ''^'' then map_option (\<lambda>f c. \<not> f c) (class_items r) else class_items body
      | [] \<Rightarrow> class_items [])"

definition class_end :: "string \<Rightarrow> (string \<times> string) option" where
  "class_end r = (let body = takeWhile (\<lambda>c. c \<noteq> CHR '']'') r in if body = r then None else Some (body, drop (length body + 1) r))"

lemma class_end_shorter: "class_end r = Some (body, rest) \<Longrightarrow> length rest \<le> length r"
  by (auto simp: class_end_def Let_def split: if_splits)

function glob_rx :: "string \<Rightarrow> rx list option" where
  "glob_rx [] = Some []"
| "glob_rx (c # r) =
     (if c = CHR ''*'' then map_option ((#) (Star dot)) (glob_rx r)
      else if c = CHR ''?'' then map_option ((#) dot) (glob_rx r)
      else if c = CHR ''['' then
        (case class_end r of
           None \<Rightarrow> map_option ((#) (Chr (\<lambda>d. d = c))) (glob_rx r)
         | Some (body, rest) \<Rightarrow>
             (case glob_class body of
                None \<Rightarrow> None
              | Some f \<Rightarrow> map_option ((#) (Chr f)) (glob_rx rest)))
      else map_option ((#) (Chr (\<lambda>d. d = c))) (glob_rx r))"
  by pat_completeness auto
termination by (relation "measure length") (auto dest: class_end_shorter)

text \<open>\<open>globToRegExp(glob).test(model)\<close>; \<open>None\<close> when the class is no regular expression.\<close>

definition glob_test :: "string \<Rightarrow> string \<Rightarrow> bool option" where
  "glob_test glob model = map_option (\<lambda>rs. rx_test (cats (Bol # rs @ [Eol])) model) (glob_rx glob)"

fun some_matches :: "string list \<Rightarrow> string \<Rightarrow> bool option" where
  "some_matches [] m = Some False"
| "some_matches (g # gs) m = (case glob_test g m of None \<Rightarrow> None | Some True \<Rightarrow> Some True | Some False \<Rightarrow> some_matches gs m)"

definition policyIsOpen :: "(string list \<times> string list) option \<Rightarrow> bool" where
  "policyIsOpen policy =
     (case policy of None \<Rightarrow> True | Some (allow, deny) \<Rightarrow> (allow = [] \<or> list_all (\<lambda>g. g = ''*'') allow) \<and> deny = [])"

definition policyAllows :: "(string list \<times> string list) option \<Rightarrow> string \<Rightarrow> bool option" where
  "policyAllows policy model =
     (case policy of
        None \<Rightarrow> Some True
      | Some (allow, deny) \<Rightarrow>
          (case some_matches deny model of
             None \<Rightarrow> None
           | Some True \<Rightarrow> Some False
           | Some False \<Rightarrow> if allow = [] then Some True else some_matches allow model))"

definition TIERS :: "string list" where "TIERS = [''max'', ''frontier'', ''mid'', ''cheap'']"

definition add_pin :: "model_policy \<Rightarrow> string \<Rightarrow> string list \<Rightarrow> string list" where
  "add_pin m ref out =
     (if ref \<noteq> [] \<and> ref \<notin> set TIERS \<and> ref \<notin> set (map fst (over_default (mp_tiers m) [])) \<and> ref \<noteq> ''inherit'' then jset_add ref out else out)"

definition model_refs :: "model_policy \<Rightarrow> string list" where
  "model_refs m =
     [mp_main m] @ List.map_filter (\<lambda>x. x) [mp_readOnly m, mp_verify m] @
     concat (map (\<lambda>kt. td_primary (snd kt) # td_fallbacks (snd kt)) (over_default (mp_tiers m) []))"

definition pinnedModels :: "model_policy option \<Rightarrow> string list" where
  "pinnedModels model = (case model of None \<Rightarrow> [] | Some m \<Rightarrow> fold (add_pin m) (model_refs m) [])"

fun refused_by :: "(string list \<times> string list) option \<Rightarrow> string list \<Rightarrow> string list option" where
  "refused_by policy [] = Some []"
| "refused_by policy (m # ms) =
     (case policyAllows policy m of
        None \<Rightarrow> None
      | Some ok \<Rightarrow> map_option (\<lambda>rest. if ok then rest else m # rest) (refused_by policy ms))"

definition pinsOutsidePolicy :: "(string list \<times> string list) option \<Rightarrow> model_policy option \<Rightarrow> string list option" where
  "pinsOutsidePolicy policy model = (if policyIsOpen policy then Some [] else refused_by policy (pinnedModels model))"

section \<open>Requirements, safety, tools\<close>

definition merge_by :: "('a \<Rightarrow> string) \<Rightarrow> 'a list \<Rightarrow> 'a list \<Rightarrow> 'a list" where
  "merge_by key a b = map snd (fold (\<lambda>x. jmap_set (key x) x) (a @ b) [])"

abbreviation listed :: "'a list option \<Rightarrow> 'a list" where "listed xs \<equiv> over_default xs []"

definition non_empty :: "'a list \<Rightarrow> 'a list option" where "non_empty xs = (if xs = [] then None else Some xs)"

definition composeRequires :: "requires_policy option \<Rightarrow> requires_policy option \<Rightarrow> requires_policy option" where
  "composeRequires parent child =
     (if parent = None \<and> child = None then None
      else Some
        \<lparr>re_binaries = merge_by bq_name (listed (map_option re_binaries parent)) (listed (map_option re_binaries child)),
         re_mcp = merge_by nq_name (listed (map_option re_mcp parent)) (listed (map_option re_mcp child)),
         re_models = over (Option.bind child re_models) (Option.bind parent re_models),
         re_agents = non_empty (merge_by nq_name (listed (Option.bind parent re_agents)) (listed (Option.bind child re_agents))),
         re_skills = non_empty (fold jset_add (listed (Option.bind parent re_skills) @ listed (Option.bind child re_skills)) []),
         re_memory = over (Option.bind child re_memory) (Option.bind parent re_memory),
         re_kube = non_empty (merge_by id (listed (Option.bind parent re_kube)) (listed (Option.bind child re_kube)))\<rparr>)"

definition plan_warning :: string where
  "plan_warning = ''safety.preApply.hash omits '' @ quoted ''plan'' @
     ''; the engine adds it (a locked minimum: identity and backend are advisory and bind no content)''"

definition lockPlanHash :: "hop_safety option \<Rightarrow> hop_safety option \<times> string list" where
  "lockPlanHash safety =
     (case safety of
        None \<Rightarrow> (None, [])
      | Some s \<Rightarrow>
          if \<not> sp_requirePlanArtifact s \<or> ''plan'' \<in> set (sp_hash s) then (Some s, [])
          else (Some (s\<lparr>sp_hash := ''plan'' # sp_hash s\<rparr>), [plan_warning]))"

definition composeSafety :: "hop_safety option \<Rightarrow> hop_safety option \<Rightarrow> hop_safety option" where
  "composeSafety parent child = over child parent"

definition composeTools :: "string list option \<Rightarrow> (string, hop_module) jmap \<Rightarrow> string list option" where
  "composeTools include modules =
     (case include of
        None \<Rightarrow> None
      | Some inc \<Rightarrow>
          (let extra = concat (map (\<lambda>nm. listed (md_tools (snd nm))) (filter (\<lambda>nm. md_enabled (snd nm)) modules))
           in Some (if extra = [] then inc else fold jset_add (inc @ extra) [])))"

section \<open>The platform blocks\<close>

definition composeSandbox :: "hop_sandbox option \<Rightarrow> hop_sandbox option \<Rightarrow> hop_sandbox option" where
  "composeSandbox parent child =
     (case (parent, child) of
        (Some p, Some c) \<Rightarrow> Some \<lparr>sb_size = over (sb_size c) (sb_size p), sb_template = over (sb_template c) (sb_template p), sb_egress = over (sb_egress c) (sb_egress p)\<rparr>
      | (p, None) \<Rightarrow> p
      | (None, c) \<Rightarrow> c)"

definition composeWorkspace :: "string option option \<Rightarrow> string option option \<Rightarrow> string option option" where
  "composeWorkspace parent child =
     (case (parent, child) of (Some p, Some c) \<Rightarrow> Some (over c p) | (p, None) \<Rightarrow> p | (None, c) \<Rightarrow> c)"

definition composeProcesses :: "hop_processes option \<Rightarrow> hop_processes option \<Rightarrow> hop_processes option" where
  "composeProcesses parent child =
     (case (parent, child) of
        (Some p, Some c) \<Rightarrow> Some \<lparr>pc_mcpStdio = over (pc_mcpStdio c) (pc_mcpStdio p), pc_hooks = over (pc_hooks c) (pc_hooks p), pc_lsp = over (pc_lsp c) (pc_lsp p)\<rparr>
      | (p, None) \<Rightarrow> p
      | (None, c) \<Rightarrow> c)"

definition composeLimits :: "memory_limits option \<Rightarrow> memory_limits option \<Rightarrow> memory_limits option" where
  "composeLimits parent child =
     (case (parent, child) of
        (Some p, Some c) \<Rightarrow> Some \<lparr>ml_nodes = over (ml_nodes c) (ml_nodes p), ml_bytes = over (ml_bytes c) (ml_bytes p), ml_writeBytes = over (ml_writeBytes c) (ml_writeBytes p)\<rparr>
      | (p, None) \<Rightarrow> p
      | (None, c) \<Rightarrow> c)"

definition context_name :: "string \<Rightarrow> string" where
  "context_name r = take 63 (map (\<lambda>c. if is_lower c \<or> is_digit c \<or> c = CHR ''-'' then c else CHR ''-'') r)"

definition kube_of :: "y_kube \<Rightarrow> kube_credential" where
  "kube_of k =
     \<lparr>kc_ref = yk_ref k, kc_name = over_default (yk_name k) (context_name (yk_ref k)), kc_source = yk_source k, kc_namespace = some_text (yk_namespace k),
      kc_allowInsecureTls = yk_allowInsecureTls k\<rparr>"

fun first_repeat :: "string list \<Rightarrow> string list \<Rightarrow> string option" where
  "first_repeat old [] = None"
| "first_repeat old (n # ns) = (if n \<in> set old then Some n else first_repeat (n # old) ns)"

definition splitCredentials :: "y_credential list \<Rightarrow> load_error + hop_credential list \<times> kube_credential list" where
  "splitCredentials cs =
     (let heads = List.map_filter (\<lambda>c. case c of HeaderCredential h \<Rightarrow> Some h | _ \<Rightarrow> None) cs;
          kubes = List.map_filter (\<lambda>c. case c of KubeDeclared k \<Rightarrow> Some (kube_of k) | _ \<Rightarrow> None) cs
      in case some_text (first_repeat [] (map kc_name kubes)) of
           Some dup \<Rightarrow> Inl (LoadFailed (''credentials: two kube credentials are named '' @ quoted dup))
         | None \<Rightarrow> Inr (heads, kubes))"

text \<open>A declared list replaces the parent's whole; absent, both kinds are inherited.\<close>

definition composeCredentials :: "profile \<Rightarrow> profile_yaml \<Rightarrow> load_error + hop_credential list option \<times> kube_credential list option" where
  "composeCredentials parent y =
     (case y_credentials y of
        None \<Rightarrow> Inr (pf_credentials parent, Option.bind (pf_kubeCredentials parent) non_empty)
      | Some cs \<Rightarrow> map_sum id (\<lambda>hk. (Some (fst hk), non_empty (snd hk))) (splitCredentials cs))"

section \<open>Memory\<close>

definition composeMemory :: "hop_memory option \<Rightarrow> y_memory \<Rightarrow> hop_memory option" where
  "composeMemory parent y =
     (let own = yh_topics y \<noteq> [] \<or> yh_writes y \<noteq> [] \<or> yh_reads y \<noteq> [];
          topics = (if own then yh_topics y else listed (Option.bind parent hm_topics));
          reads = (if own then yh_reads y else listed (Option.bind parent hm_reads));
          writes = (if own then yh_writes y else listed (Option.bind parent hm_writes));
          ontology = (if yh_ontology y \<noteq> [] then yh_ontology y else listed (Option.bind parent hm_ontology));
          m = \<lparr>hm_workspace = some_text (over (yh_workspace y) (Option.bind parent hm_workspace)),
               hm_tenant = some_text (over (yh_tenant y) (Option.bind parent hm_tenant)),
               hm_policy = over (yh_policy y) (Option.bind parent hm_policy), hm_topics = non_empty topics, hm_reads = non_empty reads, hm_writes = non_empty writes,
               hm_ontology = non_empty ontology, hm_owner = some_text (over (yh_owner y) (Option.bind parent hm_owner)), hm_mode = over (yh_mode y) (Option.bind parent hm_mode),
               hm_sharing = over (yh_sharing y) (Option.bind parent hm_sharing), hm_publication = some_text (yh_publication y),
               hm_promotion = over (yh_promotion y) (Option.bind parent hm_promotion), hm_limits = composeLimits (Option.bind parent hm_limits) (yh_limits y)\<rparr>
      in if hm_workspace m \<noteq> None \<or> hm_policy m \<noteq> None \<or> hm_tenant m \<noteq> None \<or> topics \<noteq> [] \<or> reads \<noteq> [] \<or> writes \<noteq> [] \<or> ontology \<noteq> [] \<or>
           hm_promotion m \<noteq> None \<or> hm_limits m \<noteq> None
         then Some m else None)"

section \<open>Modules and prompts\<close>

definition enabled_word :: "on_off \<Rightarrow> bool" where
  "enabled_word e = (case e of Flag b \<Rightarrow> b | Word w \<Rightarrow> w = ''on'')"

type_synonym text_reader = "string \<Rightarrow> string \<Rightarrow> load_error + string"

fun composeModules :: "text_reader \<Rightarrow> (string, y_module) jmap \<Rightarrow> load_error + (string, hop_module) jmap" where
  "composeModules text [] = Inr []"
| "composeModules text ((n, m) # ms) =
     (case text (''modules.'' @ n @ ''.prompt'') (yo_prompt m) of
        Inl e \<Rightarrow> Inl e
      | Inr t \<Rightarrow>
          map_sum id ((#) (n, \<lparr>md_prompt = t, md_tools = yo_tools m, md_enabled = enabled_word (yo_enabled m), md_description = some_text (yo_description m)\<rparr>))
            (composeModules text ms))"

definition module_text :: "string \<times> hop_module \<Rightarrow> string" where
  "module_text nm = [nl, nl] @ ''<!-- module: '' @ fst nm @ '' -->'' @ [nl] @ md_prompt (snd nm)"

definition own_text :: "text_reader \<Rightarrow> string \<Rightarrow> string option \<Rightarrow> string \<Rightarrow> load_error + string" where
  "own_text text field own parent = (case some_text own of None \<Rightarrow> Inr parent | Some v \<Rightarrow> text field v)"

definition verifier_task :: "string \<Rightarrow> string \<Rightarrow> string option \<Rightarrow> string" where
  "verifier_task template task deliverable =
     replaceAll (replaceAll template ''{task}'' task) ''{deliverable}'' (over_default deliverable ''(no deliverable on disk)'')"

section \<open>A profile over its parent\<close>

record compose_env =
  ce_codingVerify :: "string \<Rightarrow> bool"
  ce_codingBroken :: "string \<Rightarrow> bool"

text \<open>\<open>OBSERVE_SOURCES\<close>: the two regular expressions of the coding domain, or none.\<close>

definition observed :: "compose_env \<Rightarrow> string \<Rightarrow> (string \<Rightarrow> bool) option \<times> (string \<Rightarrow> bool) option" where
  "observed env src = (if src = ''builtin:coding'' then (Some (ce_codingVerify env), Some (ce_codingBroken env)) else (None, None))"

definition composeVerification :: "verification_policy \<Rightarrow> y_verification \<Rightarrow> verification_policy" where
  "composeVerification p y =
     (let a = vf_agent p; b = yv_agent y
      in \<lparr>vf_observe = over_default (yv_observe y) (vf_observe p), vf_selfCheck = over_default (yv_selfCheck y) (vf_selfCheck p),
          vf_minEdits = over_default (yv_minEdits y) (vf_minEdits p), vf_antiChurn = over_default (yv_antiChurn y) (vf_antiChurn p),
          vf_threshold = over_default (yv_threshold y) (vf_threshold p),
          vf_agent = \<lparr>vp_enabled = over_default (ya_enabled b) (vp_enabled a), vp_tier = over_default (ya_tier b) (vp_tier a),
            vp_minChangedLines = over_default (ya_minChangedLines b) (vp_minChangedLines a), vp_riskGate = over_default (ya_riskGate b) (vp_riskGate a),
            vp_failMode = over_default (ya_failMode b) (vp_failMode a)\<rparr>\<rparr>)"

definition composeRouting :: "hop_routing \<Rightarrow> y_routing \<Rightarrow> hop_routing" where
  "composeRouting p y =
     \<lparr>ro_subagents = over_default (yr_subagents y) (ro_subagents p), ro_classifyStart = over_default (yr_classifyStart y) (ro_classifyStart p),
      ro_ladder = over_default (yr_ladder y) (ro_ladder p), ro_patience = over_default (yr_patience y) (ro_patience p)\<rparr>"

definition composePermissions :: "hop_permissions \<Rightarrow> y_permissions \<Rightarrow> hop_permissions" where
  "composePermissions p y =
     \<lparr>pe_defaultMode = over_default (yp_defaultMode y) (pe_defaultMode p), pe_allow = pe_allow p @ listed (yp_allow y), pe_deny = pe_deny p @ listed (yp_deny y)\<rparr>"

definition composeTunable :: "tunable list \<Rightarrow> tunable list \<Rightarrow> tunable list" where
  "composeTunable parent own = filter (\<lambda>t. \<not> list_ex (\<lambda>o'. fst o' = fst t) own) parent @ own"

definition composeLocked :: "string list \<Rightarrow> string list \<Rightarrow> hop_safety option \<Rightarrow> string list" where
  "composeLocked parent own safety = fold jset_add (parent @ own @ (if safety = None then [] else [''safety''])) []"

definition composeLoop :: "compose_env \<Rightarrow> hop_loop \<Rightarrow> profile_yaml \<Rightarrow> string \<Rightarrow> string \<Rightarrow> string \<Rightarrow> hop_loop" where
  "composeLoop env p y src summarizer condenser =
     p\<lparr>hl_taskType := over_default (y_taskType y) (hl_taskType p), po_verifyCommand := fst (observed env src), po_envBroken := snd (observed env src),
       po_churnThreshold := over_default (yv_threshold (y_verification y)) (po_churnThreshold p), hl_summarizerSystem := summarizer,
       hl_condenserSystem := condenser\<rparr>"

text \<open>What makes a composed profile with a safety block unsafe to default.\<close>

definition safety_conflict :: "profile \<Rightarrow> profile_yaml \<Rightarrow> tuning_policy option \<Rightarrow> hop_safety option \<Rightarrow> load_error option" where
  "safety_conflict parent y tuning safety =
     (if safety = None then None
      else if over_default (yp_defaultMode (y_permissions y)) (pe_defaultMode (pf_permissions parent)) = Autopilot then
        Some (LoadFailed (''profile '' @ quoted (y_name y) @ '' declares a safety block with defaultMode: autopilot''))
      else if Option.bind tuning tn_promote = Some ''auto'' then
        Some (LoadFailed (''profile '' @ quoted (y_name y) @ '' sets tuning.promote: auto with a safety block present''))
      else None)"

definition undeclared_kube :: "requires_policy option \<Rightarrow> kube_credential list option \<Rightarrow> string list" where
  "undeclared_kube requires kubes =
     filter (\<lambda>k. \<not> list_ex (\<lambda>c. kc_name c = k) (listed kubes)) (listed (Option.bind requires re_kube))"

definition final_checks :: "profile \<Rightarrow> load_error + profile" where
  "final_checks p =
     (if undeclared_kube (pf_requires p) (pf_kubeCredentials p) \<noteq> [] then
        Inl (LoadFailed (''profile '' @ quoted (pf_name p) @ '' requires.kube names '' @
          join '', '' (map quoted (undeclared_kube (pf_requires p) (pf_kubeCredentials p))) @ '', which no kube credential declares''))
      else (case pinsOutsidePolicy (pf_modelPolicy p) (pf_model p) of
              None \<Rightarrow> Inl (LoadFailed ''Invalid regular expression'')
            | Some [] \<Rightarrow> Inr p
            | Some out \<Rightarrow> Inl (LoadFailed (''profile '' @ quoted (pf_name p) @ '' pins '' @ join '', '' out @ '' but its model_policy denies them''))))"

end
