(* ===== verification/ProfileChain.thy ===== *)
theory ProfileChain
  imports ProfileCompose
begin

text \<open>
  A profile over its parent as a whole (\<open>composeProfile\<close>, \<open>fillWorkspace\<close>), and what a chain of them keeps: the locks, the denies, a locked
  safety block, and the locked settings a file sets one by one.  A child may still add allow rules or change what is not locked.
\<close>

section \<open>composeProfile\<close>

definition then_do :: "'e + 'a \<Rightarrow> ('a \<Rightarrow> 'e + 'b) \<Rightarrow> 'e + 'b" where
  "then_do r f = (case r of Inl e \<Rightarrow> Inl e | Inr x \<Rightarrow> f x)"

lemma then_do_Inr: "then_do r f = Inr y \<longleftrightarrow> (\<exists>x. r = Inr x \<and> f x = Inr y)"
  by (cases r) (simp_all add: then_do_def)

definition unless_error :: "'e option \<Rightarrow> 'e + 'b \<Rightarrow> 'e + 'b" where
  "unless_error e r = (case e of Some x \<Rightarrow> Inl x | None \<Rightarrow> r)"

lemma unless_error_Inr: "unless_error e r = Inr y \<longleftrightarrow> e = None \<and> r = Inr y"
  by (cases e) (simp_all add: unless_error_def)

record hop_parts =
  hp_modules :: "(string, hop_module) jmap"
  hp_tuning :: "tuning_policy option"
  hp_model :: "model_policy option"
  hp_modelWarnings :: "string list"

record hop_texts =
  ht_system :: string
  ht_verifierAgent :: string
  ht_summarizer :: string
  ht_condenser :: string

definition composed_evals :: "profile \<Rightarrow> profile_yaml \<Rightarrow> eval_suite list" where
  "composed_evals parent y = withGatesDefaults (if y_evals y \<noteq> [] then y_evals y else pf_evals parent)"

definition composed_safety :: "profile \<Rightarrow> profile_yaml \<Rightarrow> hop_safety option" where
  "composed_safety parent y = fst (lockPlanHash (composeSafety (pf_safety parent) (y_safety y)))"

definition lock_message :: "profile \<Rightarrow> profile_yaml \<Rightarrow> string \<Rightarrow> load_error" where
  "lock_message parent y p =
     LoadFailed (''profile '' @ quoted (y_name y) @ '' overrides '' @ quoted p @ '', which is locked by its parent '' @ quoted (pf_name parent) @
       '' '' @ emdash @ '' remove the override or extend a profile that does not lock it'')"

text \<open>The blocks that can fail, in the order the code composes them.\<close>

definition composeParts :: "text_reader \<Rightarrow> profile \<Rightarrow> profile_yaml \<Rightarrow> load_error + hop_parts" where
  "composeParts text parent y =
     then_do (composeModules text (y_modules y)) (\<lambda>modules.
     then_do (composeTuning (pf_tuning parent) (y_tuning y) (y_name y)) (\<lambda>tuning.
     unless_error (Option.bind tuning (\<lambda>t. validateTuning t (composed_evals parent y) (y_name y)))
       (then_do (composeModel (pf_model parent) (y_modelBlock y) (y_name y)) (\<lambda>model.
        then_do (case model of None \<Rightarrow> Inr [] | Some m \<Rightarrow> validateModel m (y_name y)) (\<lambda>warnings.
        unless_error (safety_conflict parent y tuning (composed_safety parent y))
          (Inr \<lparr>hp_modules = modules, hp_tuning = tuning, hp_model = model, hp_modelWarnings = warnings\<rparr>))))))"

definition composeTexts :: "text_reader \<Rightarrow> profile \<Rightarrow> profile_yaml \<Rightarrow> load_error + hop_texts" where
  "composeTexts text parent y =
     then_do (own_text text ''prompts.system'' (y_system y) (pf_system parent)) (\<lambda>sys.
     then_do (own_text text ''prompts.verifierAgent'' (y_verifierAgent y) (pf_verifierAgent parent)) (\<lambda>verifier.
     then_do (own_text text ''prompts.summarizer'' (y_summarizer y) (hl_summarizerSystem (pf_loop parent))) (\<lambda>summarizer.
     then_do (own_text text ''prompts.condenser'' (y_condenser y) (hl_condenserSystem (pf_loop parent))) (\<lambda>condenser.
       Inr \<lparr>ht_system = sys, ht_verifierAgent = verifier, ht_summarizer = summarizer, ht_condenser = condenser\<rparr>))))"

definition assemble ::
  "compose_env \<Rightarrow> profile \<Rightarrow> profile_yaml \<Rightarrow> string \<Rightarrow> profile_source \<Rightarrow> hop_parts \<Rightarrow> hop_texts \<Rightarrow>
   hop_credential list option \<times> kube_credential list option \<Rightarrow> profile" where
  "assemble env parent y dir source parts texts creds =
     (let verification = composeVerification (pf_verification parent) (y_verification y);
          safety = composed_safety parent y
      in \<lparr>pf_name = y_name y, pf_version = y_version y,
          pf_description = (if y_description y = [] then pf_description parent else y_description y),
          pf_source = source, pf_dir = Some dir, pf_extendsChain = pf_extendsChain parent @ [pf_name parent],
          pf_system = ht_system texts @ concat (map module_text (filter (\<lambda>nm. md_enabled (snd nm)) (hp_modules parts))),
          pf_verifierAgent = ht_verifierAgent texts,
          pf_verifierTask = (case some_text (ya_task (yv_agent (y_verification y))) of None \<Rightarrow> pf_verifierTask parent | Some t \<Rightarrow> verifier_task t),
          pf_loop = composeLoop env (pf_loop parent) y (vf_observe verification) (ht_summarizer texts) (ht_condenser texts),
          pf_verification = verification,
          pf_catalogProfile = over_default (y_catalogProfile y) (pf_catalogProfile parent),
          pf_routing = composeRouting (pf_routing parent) (y_routing y),
          pf_permissions = composePermissions (pf_permissions parent) (y_permissions y),
          pf_include = composeTools (over (y_include y) (pf_include parent)) (hp_modules parts),
          pf_maxTurns = over_default (y_maxTurns y) (pf_maxTurns parent),
          pf_taskType = over_default (y_taskType y) (pf_taskType parent),
          pf_evals = composed_evals parent y,
          pf_tuning = hp_tuning parts,
          pf_model = hp_model parts,
          pf_requires = composeRequires (pf_requires parent) (y_requires y),
          pf_safety = safety,
          pf_memory = composeMemory (pf_memory parent) (y_memory y),
          pf_modelPolicy = map_option (\<lambda>ad. (listed (fst ad), listed (snd ad))) (y_modelPolicy y),
          pf_sandbox = composeSandbox (pf_sandbox parent) (y_sandbox y),
          pf_workspace = composeWorkspace (pf_workspace parent) (y_workspace y),
          pf_processes = composeProcesses (pf_processes parent) (y_processes y),
          pf_credentials = fst creds,
          pf_kubeCredentials = snd creds,
          pf_locked = composeLocked (pf_locked parent) (y_locked y) safety,
          pf_tunable = composeTunable (pf_tunable parent) (y_tunable y),
          pf_warnings = hp_modelWarnings parts @ snd (lockPlanHash (composeSafety (pf_safety parent) (y_safety y))),
          pf_modules = hp_modules parts\<rparr>)"

definition composeProfile :: "compose_env \<Rightarrow> text_reader \<Rightarrow> profile \<Rightarrow> profile_yaml \<Rightarrow> string \<Rightarrow> profile_source \<Rightarrow> load_error + profile" where
  "composeProfile env text parent y dir source =
     (case lockViolation (pf_locked parent) (overriddenPaths y) of
        Some p \<Rightarrow> Inl (lock_message parent y p)
      | None \<Rightarrow>
          then_do (composeParts text parent y) (\<lambda>parts.
          then_do (composeTexts text parent y) (\<lambda>texts.
          then_do (composeCredentials parent y) (\<lambda>creds. final_checks (assemble env parent y dir source parts texts creds)))))"

definition fill :: "string \<Rightarrow> string \<Rightarrow> string" where "fill workspace s = replaceAll s ''{workspace}'' workspace"

definition fill_memory :: "string \<Rightarrow> hop_memory \<Rightarrow> hop_memory" where
  "fill_memory w m =
     m\<lparr>hm_workspace := Some (case hm_workspace m of None \<Rightarrow> w | Some x \<Rightarrow> if x = ''from-host'' then w else x),
       hm_topics := map_option (map (\<lambda>t. t\<lparr>mt_id := fill w (mt_id t)\<rparr>)) (hm_topics m),
       hm_reads := map_option (map (fill w)) (hm_reads m), hm_writes := map_option (map (fill w)) (hm_writes m)\<rparr>"

definition fillWorkspace :: "profile \<Rightarrow> string \<Rightarrow> profile" where
  "fillWorkspace p w =
     p\<lparr>pf_memory := map_option (fill_memory w) (pf_memory p),
       pf_modules := map (\<lambda>nm. (fst nm, (snd nm)\<lparr>md_prompt := fill w (md_prompt (snd nm))\<rparr>)) (pf_modules p),
       pf_system := fill w (pf_system p)\<rparr>"

section \<open>What a composition gives\<close>

lemma final_checks_Inr: "final_checks p = Inr q \<Longrightarrow> q = p \<and> pinsOutsidePolicy (pf_modelPolicy p) (pf_model p) = Some []"
  by (auto simp: final_checks_def split: if_splits option.splits list.splits)

lemma composeProfile_Inr:
  assumes "composeProfile env text parent y dir source = Inr p"
  obtains parts texts creds where "lockViolation (pf_locked parent) (overriddenPaths y) = None" "composeParts text parent y = Inr parts"
    "composeTexts text parent y = Inr texts" "composeCredentials parent y = Inr creds" "p = assemble env parent y dir source parts texts creds"
    "pinsOutsidePolicy (pf_modelPolicy p) (pf_model p) = Some []"
  using assms by (auto simp: composeProfile_def then_do_Inr split: option.splits dest!: final_checks_Inr)

lemma composeParts_Inr:
  assumes "composeParts text parent y = Inr parts"
  shows "composeModules text (y_modules y) = Inr (hp_modules parts)" "composeTuning (pf_tuning parent) (y_tuning y) (y_name y) = Inr (hp_tuning parts)"
    "composeModel (pf_model parent) (y_modelBlock y) (y_name y) = Inr (hp_model parts)"
    "safety_conflict parent y (hp_tuning parts) (composed_safety parent y) = None"
  using assms by (auto simp: composeParts_def then_do_Inr unless_error_Inr)

lemma composeTexts_Inr:
  assumes "composeTexts text parent y = Inr texts"
  shows "own_text text ''prompts.verifierAgent'' (y_verifierAgent y) (pf_verifierAgent parent) = Inr (ht_verifierAgent texts)"
    "own_text text ''prompts.summarizer'' (y_summarizer y) (hl_summarizerSystem (pf_loop parent)) = Inr (ht_summarizer texts)"
    "own_text text ''prompts.condenser'' (y_condenser y) (hl_condenserSystem (pf_loop parent)) = Inr (ht_condenser texts)"
  using assms by (auto simp: composeTexts_def then_do_Inr)

section \<open>Leaves and locks\<close>

lemma leaf_in: "(k, v) \<in> set kvs \<Longrightarrow> q \<in> set (leaf_paths (dotted stem k) v) \<Longrightarrow> q \<in> set (leaf_paths stem (JObj kvs))"
  by force

lemma not_overridden:
  assumes "lockViolation locks (overriddenPaths y) = None" "locked_by locks q" "\<not> locked_by META_KEYS q"
    "take (length ''permissions.deny'') q \<noteq> ''permissions.deny''"
  shows "q \<notin> set (presentLeafPaths (yaml_obj y))"
  using assms by (auto simp: lockViolation_def overriddenPaths_def find_None_iff)

lemma set_opt_key: "set (opt_key k f v) = (case v of None \<Rightarrow> {} | Some x \<Rightarrow> {(k, f x)})"
  by (simp add: opt_key_def split: option.split)

lemma get_append: "map_of (rev (xs @ ys)) k = (case map_of (rev ys) k of None \<Rightarrow> map_of (rev xs) k | Some v \<Rightarrow> Some v)"
  by (simp add: map_add_def)

lemma get_opt_key: "map_of (rev (opt_key k' f v)) k = (if k = k' then map_option f v else None)"
  by (simp add: opt_key_def split: option.split)

definition guarded_paths :: "string list" where
  "guarded_paths =
     [''permissions.defaultMode'', ''permissions.allow'', ''budgets.maxTurns'', ''catalog.profile'', ''telemetry.taskType'', ''routing.subagents'',
      ''routing.classifyStart'', ''routing.escalation.ladder'', ''routing.escalation.patience'', ''verification.observe'',
      ''verification.selfCheck.enabled'', ''verification.selfCheck.minEdits'', ''verification.antiChurn.enabled'', ''verification.antiChurn.threshold'',
      ''verification.agent.enabled'', ''verification.agent.tier'', ''verification.agent.riskGateMinChangedLines'', ''verification.agent.riskGate'',
      ''verification.agent.failMode'', ''prompts.verifierAgent'', ''tuning.promote'', ''model.main'']"

text \<open>A leaf the file sets is among its paths.\<close>

lemma leaf_permissions_defaultMode: "yp_defaultMode (y_permissions y) \<noteq> None \<Longrightarrow> ''permissions.defaultMode'' \<in> set (presentLeafPaths (yaml_obj y))"
  unfolding presentLeafPaths_def
  by (rule leaf_in [where k = "''permissions''"]) (auto simp: yaml_obj_def dotted_def set_opt_key num_def)

lemma leaf_permissions_allow: "yp_allow (y_permissions y) \<noteq> None \<Longrightarrow> ''permissions.allow'' \<in> set (presentLeafPaths (yaml_obj y))"
  unfolding presentLeafPaths_def
  by (rule leaf_in [where k = "''permissions''"]) (auto simp: yaml_obj_def dotted_def set_opt_key num_def)

lemma leaf_budgets_maxTurns: "y_maxTurns y \<noteq> None \<Longrightarrow> ''budgets.maxTurns'' \<in> set (presentLeafPaths (yaml_obj y))"
  unfolding presentLeafPaths_def
  by (rule leaf_in [where k = "''budgets''"]) (auto simp: yaml_obj_def dotted_def set_opt_key num_def)

lemma leaf_catalog_profile: "y_catalogProfile y \<noteq> None \<Longrightarrow> ''catalog.profile'' \<in> set (presentLeafPaths (yaml_obj y))"
  unfolding presentLeafPaths_def
  by (rule leaf_in [where k = "''catalog''"]) (auto simp: yaml_obj_def dotted_def set_opt_key num_def)

lemma leaf_telemetry_taskType: "y_taskType y \<noteq> None \<Longrightarrow> ''telemetry.taskType'' \<in> set (presentLeafPaths (yaml_obj y))"
  unfolding presentLeafPaths_def
  by (rule leaf_in [where k = "''telemetry''"]) (auto simp: yaml_obj_def dotted_def set_opt_key num_def)

lemma leaf_routing_subagents: "yr_subagents (y_routing y) \<noteq> None \<Longrightarrow> ''routing.subagents'' \<in> set (presentLeafPaths (yaml_obj y))"
  unfolding presentLeafPaths_def
  by (rule leaf_in [where k = "''routing''"]) (auto simp: yaml_obj_def dotted_def set_opt_key num_def)

lemma leaf_routing_classifyStart: "yr_classifyStart (y_routing y) \<noteq> None \<Longrightarrow> ''routing.classifyStart'' \<in> set (presentLeafPaths (yaml_obj y))"
  unfolding presentLeafPaths_def
  by (rule leaf_in [where k = "''routing''"]) (auto simp: yaml_obj_def dotted_def set_opt_key num_def)

lemma leaf_routing_escalation_ladder: "yr_ladder (y_routing y) \<noteq> None \<Longrightarrow> ''routing.escalation.ladder'' \<in> set (presentLeafPaths (yaml_obj y))"
  unfolding presentLeafPaths_def
  by (rule leaf_in [where k = "''routing''"]) (auto simp: yaml_obj_def dotted_def set_opt_key num_def)

lemma leaf_routing_escalation_patience: "yr_patience (y_routing y) \<noteq> None \<Longrightarrow> ''routing.escalation.patience'' \<in> set (presentLeafPaths (yaml_obj y))"
  unfolding presentLeafPaths_def
  by (rule leaf_in [where k = "''routing''"]) (auto simp: yaml_obj_def dotted_def set_opt_key num_def)

lemma leaf_verification_observe: "yv_observe (y_verification y) \<noteq> None \<Longrightarrow> ''verification.observe'' \<in> set (presentLeafPaths (yaml_obj y))"
  unfolding presentLeafPaths_def
  by (rule leaf_in [where k = "''verification''"]) (auto simp: yaml_obj_def y_verification_obj_def Let_def dotted_def set_opt_key num_def)

lemma leaf_verification_selfCheck_enabled: "yv_selfCheck (y_verification y) \<noteq> None \<Longrightarrow> ''verification.selfCheck.enabled'' \<in> set (presentLeafPaths (yaml_obj y))"
  unfolding presentLeafPaths_def
  by (rule leaf_in [where k = "''verification''"]) (auto simp: yaml_obj_def y_verification_obj_def Let_def dotted_def set_opt_key num_def)

lemma leaf_verification_selfCheck_minEdits: "yv_minEdits (y_verification y) \<noteq> None \<Longrightarrow> ''verification.selfCheck.minEdits'' \<in> set (presentLeafPaths (yaml_obj y))"
  unfolding presentLeafPaths_def
  by (rule leaf_in [where k = "''verification''"]) (auto simp: yaml_obj_def y_verification_obj_def Let_def dotted_def set_opt_key num_def)

lemma leaf_verification_antiChurn_enabled: "yv_antiChurn (y_verification y) \<noteq> None \<Longrightarrow> ''verification.antiChurn.enabled'' \<in> set (presentLeafPaths (yaml_obj y))"
  unfolding presentLeafPaths_def
  by (rule leaf_in [where k = "''verification''"]) (auto simp: yaml_obj_def y_verification_obj_def Let_def dotted_def set_opt_key num_def)

lemma leaf_verification_antiChurn_threshold: "yv_threshold (y_verification y) \<noteq> None \<Longrightarrow> ''verification.antiChurn.threshold'' \<in> set (presentLeafPaths (yaml_obj y))"
  unfolding presentLeafPaths_def
  by (rule leaf_in [where k = "''verification''"]) (auto simp: yaml_obj_def y_verification_obj_def Let_def dotted_def set_opt_key num_def)

lemma leaf_verification_agent_enabled: "ya_enabled (yv_agent (y_verification y)) \<noteq> None \<Longrightarrow> ''verification.agent.enabled'' \<in> set (presentLeafPaths (yaml_obj y))"
  unfolding presentLeafPaths_def
  by (rule leaf_in [where k = "''verification''"]) (auto simp: yaml_obj_def y_verification_obj_def Let_def dotted_def set_opt_key num_def)

lemma leaf_verification_agent_tier: "ya_tier (yv_agent (y_verification y)) \<noteq> None \<Longrightarrow> ''verification.agent.tier'' \<in> set (presentLeafPaths (yaml_obj y))"
  unfolding presentLeafPaths_def
  by (rule leaf_in [where k = "''verification''"]) (auto simp: yaml_obj_def y_verification_obj_def Let_def dotted_def set_opt_key num_def)

lemma leaf_verification_agent_riskGateMinChangedLines: "ya_minChangedLines (yv_agent (y_verification y)) \<noteq> None \<Longrightarrow> ''verification.agent.riskGateMinChangedLines'' \<in> set (presentLeafPaths (yaml_obj y))"
  unfolding presentLeafPaths_def
  by (rule leaf_in [where k = "''verification''"]) (auto simp: yaml_obj_def y_verification_obj_def Let_def dotted_def set_opt_key num_def)

lemma leaf_verification_agent_riskGate: "ya_riskGate (yv_agent (y_verification y)) \<noteq> None \<Longrightarrow> ''verification.agent.riskGate'' \<in> set (presentLeafPaths (yaml_obj y))"
  unfolding presentLeafPaths_def
  by (rule leaf_in [where k = "''verification''"]) (auto simp: yaml_obj_def y_verification_obj_def Let_def dotted_def set_opt_key num_def)

lemma leaf_verification_agent_failMode: "ya_failMode (yv_agent (y_verification y)) \<noteq> None \<Longrightarrow> ''verification.agent.failMode'' \<in> set (presentLeafPaths (yaml_obj y))"
  unfolding presentLeafPaths_def
  by (rule leaf_in [where k = "''verification''"]) (auto simp: yaml_obj_def y_verification_obj_def Let_def dotted_def set_opt_key num_def)

lemma leaf_prompts_verifierAgent: "y_verifierAgent y \<noteq> None \<Longrightarrow> ''prompts.verifierAgent'' \<in> set (presentLeafPaths (yaml_obj y))"
  unfolding presentLeafPaths_def
  by (rule leaf_in [where k = "''prompts''"]) (auto simp: yaml_obj_def dotted_def set_opt_key num_def)

lemma leaf_prompts_summarizer: "y_summarizer y \<noteq> None \<Longrightarrow> ''prompts.summarizer'' \<in> set (presentLeafPaths (yaml_obj y))"
  unfolding presentLeafPaths_def
  by (rule leaf_in [where k = "''prompts''"]) (auto simp: yaml_obj_def dotted_def set_opt_key num_def)

lemma leaf_prompts_condenser: "y_condenser y \<noteq> None \<Longrightarrow> ''prompts.condenser'' \<in> set (presentLeafPaths (yaml_obj y))"
  unfolding presentLeafPaths_def
  by (rule leaf_in [where k = "''prompts''"]) (auto simp: yaml_obj_def dotted_def set_opt_key num_def)

lemma leaf_verification_agent_task: "ya_task (yv_agent (y_verification y)) \<noteq> None \<Longrightarrow> ''verification.agent.task'' \<in> set (presentLeafPaths (yaml_obj y))"
  unfolding presentLeafPaths_def
  by (rule leaf_in [where k = "''verification''"]) (auto simp: yaml_obj_def y_verification_obj_def Let_def dotted_def set_opt_key num_def)

lemma leaf_tuning_promote: "Option.bind (y_tuning y) tn_promote \<noteq> None \<Longrightarrow> ''tuning.promote'' \<in> set (presentLeafPaths (yaml_obj y))"
proof -
  assume set: "Option.bind (y_tuning y) tn_promote \<noteq> None"
  then obtain t where "y_tuning y = Some t" by (cases "y_tuning y") auto
  then show ?thesis
    unfolding presentLeafPaths_def using set
    by (intro leaf_in [where k = "''tuning''" and v = "tuning_obj t"]) (auto simp: yaml_obj_def tuning_obj_def dotted_def set_opt_key)
qed

lemma leaf_model_main: "Option.bind (y_modelBlock y) ym_main \<noteq> None \<Longrightarrow> ''model.main'' \<in> set (presentLeafPaths (yaml_obj y))"
proof -
  assume set: "Option.bind (y_modelBlock y) ym_main \<noteq> None"
  then obtain t where "y_modelBlock y = Some t" by (cases "y_modelBlock y") auto
  then show ?thesis
    unfolding presentLeafPaths_def using set
    by (intro leaf_in [where k = "''model''" and v = "y_model_obj t"]) (auto simp: yaml_obj_def y_model_obj_def dotted_def set_opt_key)
qed

lemma leaf_safety_preApply_requirePlanArtifact: "y_safety y \<noteq> None \<Longrightarrow> ''safety.preApply.requirePlanArtifact'' \<in> set (presentLeafPaths (yaml_obj y))"
proof -
  assume set: "y_safety y \<noteq> None"
  then obtain t where "y_safety y = Some t" by (cases "y_safety y") auto
  then show ?thesis
    unfolding presentLeafPaths_def using set
    by (intro leaf_in [where k = "''safety''" and v = "safety_obj t"]) (auto simp: yaml_obj_def safety_obj_def dotted_def set_opt_key)
qed

text \<open>What the view has at the guarded paths.\<close>

lemma view_paths:
  "getPath (describeProfile p) ''permissions.defaultMode'' = Some (JStr (mode_name (pe_defaultMode (pf_permissions p))))"
  "getPath (describeProfile p) ''permissions.allow'' = Some (strs (pe_allow (pf_permissions p)))"
  "getPath (describeProfile p) ''budgets.maxTurns'' = Some (num (pf_maxTurns p))"
  "getPath (describeProfile p) ''catalog.profile'' = Some (JStr (pf_catalogProfile p))"
  "getPath (describeProfile p) ''telemetry.taskType'' = Some (JStr (pf_taskType p))"
  "getPath (describeProfile p) ''routing.subagents'' = Some (JStr (ro_subagents (pf_routing p)))"
  "getPath (describeProfile p) ''routing.classifyStart'' = Some (JBool (ro_classifyStart (pf_routing p)))"
  "getPath (describeProfile p) ''routing.escalation.ladder'' = Some (JStr (ro_ladder (pf_routing p)))"
  "getPath (describeProfile p) ''routing.escalation.patience'' = Some (num (ro_patience (pf_routing p)))"
  "getPath (describeProfile p) ''verification.observe'' = Some (JStr (vf_observe (pf_verification p)))"
  "getPath (describeProfile p) ''verification.selfCheck.enabled'' = Some (JBool (vf_selfCheck (pf_verification p)))"
  "getPath (describeProfile p) ''verification.selfCheck.minEdits'' = Some (num (vf_minEdits (pf_verification p)))"
  "getPath (describeProfile p) ''verification.antiChurn.enabled'' = Some (JBool (vf_antiChurn (pf_verification p)))"
  "getPath (describeProfile p) ''verification.antiChurn.threshold'' = Some (num (vf_threshold (pf_verification p)))"
  "getPath (describeProfile p) ''verification.agent.enabled'' = Some (JBool (vp_enabled (vf_agent (pf_verification p))))"
  "getPath (describeProfile p) ''verification.agent.tier'' = Some (JStr (vp_tier (vf_agent (pf_verification p))))"
  "getPath (describeProfile p) ''verification.agent.riskGateMinChangedLines'' = Some (num (vp_minChangedLines (vf_agent (pf_verification p))))"
  "getPath (describeProfile p) ''verification.agent.riskGate'' = Some (JStr (vp_riskGate (vf_agent (pf_verification p))))"
  "getPath (describeProfile p) ''verification.agent.failMode'' = Some (JStr (vp_failMode (vf_agent (pf_verification p))))"
  "getPath (describeProfile p) ''prompts.verifierAgent'' = Some (JStr (pf_verifierAgent p))"
  "getPath (describeProfile p) ''tuning.promote'' = map_option JStr (Option.bind (pf_tuning p) tn_promote)"
  "getPath (describeProfile p) ''model.main'' = map_option (\<lambda>m. JStr (mp_main m)) (pf_model p)"
  by (simp_all add: getPath_def describeProfile_def verification_obj_def Let_def map_add_def get_opt_key tuning_obj_def model_obj_def
    split: option.split)

section \<open>A lock holds\<close>

lemma guarded_no_meta:
  "list_all (\<lambda>q. \<not> locked_by META_KEYS q \<and> take (length ''permissions.deny'') q \<noteq> ''permissions.deny'') guarded_paths"
  by code_simp

lemma guarded_absent:
  assumes "lockViolation locks (overriddenPaths y) = None" "locked_by locks q" "q \<in> set guarded_paths"
  shows "q \<notin> set (presentLeafPaths (yaml_obj y))"
  using not_overridden [OF assms(1,2)] assms(3) guarded_no_meta by (auto simp: list_all_iff)

lemma tuning_promotes: "complete_tuning name m = Inr t \<Longrightarrow> t = Some m \<and> tn_promote m \<noteq> None"
  by (simp add: complete_tuning_def tuning_required_def split: if_splits)

lemma promote_kept:
  "composeTuning parent child name = Inr t \<Longrightarrow> Option.bind child tn_promote = None \<Longrightarrow>
   Option.bind t tn_promote = Option.bind parent tn_promote"
  by (cases parent; cases child) (auto dest!: tuning_promotes simp: merged_tuning_def)

lemma some_text_Some: "some_text s = Some m \<Longrightarrow> s = Some m"
  by (auto simp: some_text_def split: option.splits list.splits)

lemma composeModel_main:
  "composeModel parent child name = Inr (Some m) \<Longrightarrow> some_text (over (Option.bind child ym_main) (map_option mp_main parent)) = Some (mp_main m)"
  by (auto simp: composeModel_def Let_def split: option.splits if_splits)

lemma composeModel_None: "composeModel parent child name = Inr None \<Longrightarrow> parent = None"
  by (cases "parent = None \<and> child = None") (auto simp: composeModel_def Let_def split: option.splits)

lemma main_kept:
  assumes "composeModel parent child name = Inr m" "Option.bind child ym_main = None"
  shows "map_option mp_main m = map_option mp_main parent"
proof (cases m)
  case None
  with assms(1) composeModel_None show ?thesis by blast
next
  case (Some x)
  with assms show ?thesis using some_text_Some [OF composeModel_main [of parent child name x]] by auto
qed

lemma unleaf_permissions_defaultMode: "''permissions.defaultMode'' \<notin> set (presentLeafPaths (yaml_obj y)) \<Longrightarrow> yp_defaultMode (y_permissions y) = None"
  using leaf_permissions_defaultMode [of y] by blast

lemma unleaf_permissions_allow: "''permissions.allow'' \<notin> set (presentLeafPaths (yaml_obj y)) \<Longrightarrow> yp_allow (y_permissions y) = None"
  using leaf_permissions_allow [of y] by blast

lemma unleaf_budgets_maxTurns: "''budgets.maxTurns'' \<notin> set (presentLeafPaths (yaml_obj y)) \<Longrightarrow> y_maxTurns y = None"
  using leaf_budgets_maxTurns [of y] by blast

lemma unleaf_catalog_profile: "''catalog.profile'' \<notin> set (presentLeafPaths (yaml_obj y)) \<Longrightarrow> y_catalogProfile y = None"
  using leaf_catalog_profile [of y] by blast

lemma unleaf_telemetry_taskType: "''telemetry.taskType'' \<notin> set (presentLeafPaths (yaml_obj y)) \<Longrightarrow> y_taskType y = None"
  using leaf_telemetry_taskType [of y] by blast

lemma unleaf_routing_subagents: "''routing.subagents'' \<notin> set (presentLeafPaths (yaml_obj y)) \<Longrightarrow> yr_subagents (y_routing y) = None"
  using leaf_routing_subagents [of y] by blast

lemma unleaf_routing_classifyStart: "''routing.classifyStart'' \<notin> set (presentLeafPaths (yaml_obj y)) \<Longrightarrow> yr_classifyStart (y_routing y) = None"
  using leaf_routing_classifyStart [of y] by blast

lemma unleaf_routing_escalation_ladder: "''routing.escalation.ladder'' \<notin> set (presentLeafPaths (yaml_obj y)) \<Longrightarrow> yr_ladder (y_routing y) = None"
  using leaf_routing_escalation_ladder [of y] by blast

lemma unleaf_routing_escalation_patience: "''routing.escalation.patience'' \<notin> set (presentLeafPaths (yaml_obj y)) \<Longrightarrow> yr_patience (y_routing y) = None"
  using leaf_routing_escalation_patience [of y] by blast

lemma unleaf_verification_observe: "''verification.observe'' \<notin> set (presentLeafPaths (yaml_obj y)) \<Longrightarrow> yv_observe (y_verification y) = None"
  using leaf_verification_observe [of y] by blast

lemma unleaf_verification_selfCheck_enabled: "''verification.selfCheck.enabled'' \<notin> set (presentLeafPaths (yaml_obj y)) \<Longrightarrow> yv_selfCheck (y_verification y) = None"
  using leaf_verification_selfCheck_enabled [of y] by blast

lemma unleaf_verification_selfCheck_minEdits: "''verification.selfCheck.minEdits'' \<notin> set (presentLeafPaths (yaml_obj y)) \<Longrightarrow> yv_minEdits (y_verification y) = None"
  using leaf_verification_selfCheck_minEdits [of y] by blast

lemma unleaf_verification_antiChurn_enabled: "''verification.antiChurn.enabled'' \<notin> set (presentLeafPaths (yaml_obj y)) \<Longrightarrow> yv_antiChurn (y_verification y) = None"
  using leaf_verification_antiChurn_enabled [of y] by blast

lemma unleaf_verification_antiChurn_threshold: "''verification.antiChurn.threshold'' \<notin> set (presentLeafPaths (yaml_obj y)) \<Longrightarrow> yv_threshold (y_verification y) = None"
  using leaf_verification_antiChurn_threshold [of y] by blast

lemma unleaf_verification_agent_enabled: "''verification.agent.enabled'' \<notin> set (presentLeafPaths (yaml_obj y)) \<Longrightarrow> ya_enabled (yv_agent (y_verification y)) = None"
  using leaf_verification_agent_enabled [of y] by blast

lemma unleaf_verification_agent_tier: "''verification.agent.tier'' \<notin> set (presentLeafPaths (yaml_obj y)) \<Longrightarrow> ya_tier (yv_agent (y_verification y)) = None"
  using leaf_verification_agent_tier [of y] by blast

lemma unleaf_verification_agent_riskGateMinChangedLines: "''verification.agent.riskGateMinChangedLines'' \<notin> set (presentLeafPaths (yaml_obj y)) \<Longrightarrow> ya_minChangedLines (yv_agent (y_verification y)) = None"
  using leaf_verification_agent_riskGateMinChangedLines [of y] by blast

lemma unleaf_verification_agent_riskGate: "''verification.agent.riskGate'' \<notin> set (presentLeafPaths (yaml_obj y)) \<Longrightarrow> ya_riskGate (yv_agent (y_verification y)) = None"
  using leaf_verification_agent_riskGate [of y] by blast

lemma unleaf_verification_agent_failMode: "''verification.agent.failMode'' \<notin> set (presentLeafPaths (yaml_obj y)) \<Longrightarrow> ya_failMode (yv_agent (y_verification y)) = None"
  using leaf_verification_agent_failMode [of y] by blast

lemma unleaf_prompts_verifierAgent: "''prompts.verifierAgent'' \<notin> set (presentLeafPaths (yaml_obj y)) \<Longrightarrow> y_verifierAgent y = None"
  using leaf_prompts_verifierAgent [of y] by blast

lemma unleaf_tuning_promote: "''tuning.promote'' \<notin> set (presentLeafPaths (yaml_obj y)) \<Longrightarrow> Option.bind (y_tuning y) tn_promote = None"
  using leaf_tuning_promote [of y] by blast

lemma unleaf_model_main: "''model.main'' \<notin> set (presentLeafPaths (yaml_obj y)) \<Longrightarrow> Option.bind (y_modelBlock y) ym_main = None"
  using leaf_model_main [of y] by blast

lemmas absent_leaves =
  unleaf_permissions_defaultMode unleaf_permissions_allow unleaf_budgets_maxTurns
  unleaf_catalog_profile unleaf_telemetry_taskType unleaf_routing_subagents
  unleaf_routing_classifyStart unleaf_routing_escalation_ladder unleaf_routing_escalation_patience
  unleaf_verification_observe unleaf_verification_selfCheck_enabled unleaf_verification_selfCheck_minEdits
  unleaf_verification_antiChurn_enabled unleaf_verification_antiChurn_threshold unleaf_verification_agent_enabled
  unleaf_verification_agent_tier unleaf_verification_agent_riskGateMinChangedLines unleaf_verification_agent_riskGate
  unleaf_verification_agent_failMode unleaf_prompts_verifierAgent unleaf_tuning_promote
  unleaf_model_main

lemma composed_guarded:
  assumes "composeProfile env text parent y dir source = Inr p" "q \<in> set guarded_paths" "locked_by (pf_locked parent) q"
  shows "getPath (describeProfile p) q = getPath (describeProfile parent) q"
proof -
  obtain parts texts creds where c: "lockViolation (pf_locked parent) (overriddenPaths y) = None" "composeParts text parent y = Inr parts"
    "composeTexts text parent y = Inr texts" "p = assemble env parent y dir source parts texts creds"
    using assms(1) by (rule composeProfile_Inr)
  have absent: "q \<notin> set (presentLeafPaths (yaml_obj y))" by (rule guarded_absent [OF c(1) assms(3,2)])
  note parts = composeParts_Inr [OF c(2)]
  note promote = promote_kept [OF parts(2)]
  note main = main_kept [OF parts(3)]
  have model: "map_option (\<lambda>m. JStr (mp_main m)) x = map_option JStr (map_option mp_main x)" for x
    by (simp add: option.map_comp comp_def)
  note simps = view_paths assemble_def Let_def composePermissions_def composeRouting_def composeVerification_def
  note verifier = composeTexts_Inr [OF c(3)]
  from assms(2) absent show ?thesis
    unfolding guarded_paths_def c(4) list.set insert_iff empty_iff
    by (elim disjE; use promote main verifier in \<open>simp add: simps absent_leaves own_text_def some_text_def model\<close>)
qed

text \<open>The three settings the view of a profile does not show under the path a file sets them by.\<close>

lemma composed_texts:
  assumes "composeProfile env text parent y dir source = Inr p"
  shows "locked_by (pf_locked parent) ''prompts.summarizer'' \<Longrightarrow> hl_summarizerSystem (pf_loop p) = hl_summarizerSystem (pf_loop parent)"
    "locked_by (pf_locked parent) ''prompts.condenser'' \<Longrightarrow> hl_condenserSystem (pf_loop p) = hl_condenserSystem (pf_loop parent)"
    "locked_by (pf_locked parent) ''verification.agent.task'' \<Longrightarrow> pf_verifierTask p = pf_verifierTask parent"
proof -
  obtain parts texts creds where c: "lockViolation (pf_locked parent) (overriddenPaths y) = None"
    "composeTexts text parent y = Inr texts" "p = assemble env parent y dir source parts texts creds"
    using assms by (rule composeProfile_Inr)
  have free: "list_all (\<lambda>q. \<not> locked_by META_KEYS q \<and> take (length ''permissions.deny'') q \<noteq> ''permissions.deny'')
      [''prompts.summarizer'', ''prompts.condenser'', ''verification.agent.task'']" by code_simp
  note absent = not_overridden [OF c(1)] and texts = composeTexts_Inr [OF c(2)]
  show "hl_summarizerSystem (pf_loop p) = hl_summarizerSystem (pf_loop parent)" if "locked_by (pf_locked parent) ''prompts.summarizer''"
  proof -
    have "''prompts.summarizer'' \<notin> set (presentLeafPaths (yaml_obj y))" using absent [OF that] free by simp
    then have "y_summarizer y = None" using leaf_prompts_summarizer by blast
    then show ?thesis using texts(2) by (simp add: c(3) assemble_def Let_def composeLoop_def own_text_def some_text_def)
  qed
  show "hl_condenserSystem (pf_loop p) = hl_condenserSystem (pf_loop parent)" if "locked_by (pf_locked parent) ''prompts.condenser''"
  proof -
    have "''prompts.condenser'' \<notin> set (presentLeafPaths (yaml_obj y))" using absent [OF that] free by simp
    then have "y_condenser y = None" using leaf_prompts_condenser by blast
    then show ?thesis using texts(3) by (simp add: c(3) assemble_def Let_def composeLoop_def own_text_def some_text_def)
  qed
  show "pf_verifierTask p = pf_verifierTask parent" if "locked_by (pf_locked parent) ''verification.agent.task''"
  proof -
    have "''verification.agent.task'' \<notin> set (presentLeafPaths (yaml_obj y))" using absent [OF that] free by simp
    then have "ya_task (yv_agent (y_verification y)) = None" using leaf_verification_agent_task by blast
    then show ?thesis by (simp add: c(3) assemble_def Let_def some_text_def)
  qed
qed

section \<open>What a chain keeps\<close>

text \<open>A leaf path no file below may set when it is locked: every one but what names the profile, its evals and its deny rules.\<close>

definition lockable :: "string \<Rightarrow> bool" where
  "lockable q \<longleftrightarrow> \<not> locked_by META_KEYS q \<and> take (length ''permissions.deny'') q \<noteq> ''permissions.deny''"

definition keeps_locked_settings :: "profile \<Rightarrow> profile \<Rightarrow> bool" where
  "keeps_locked_settings a b \<longleftrightarrow>
     (\<forall>q \<in> set guarded_paths. locked_by (pf_locked a) q \<longrightarrow> getPath (describeProfile b) q = getPath (describeProfile a) q) \<and>
     (locked_by (pf_locked a) ''prompts.summarizer'' \<longrightarrow> hl_summarizerSystem (pf_loop b) = hl_summarizerSystem (pf_loop a)) \<and>
     (locked_by (pf_locked a) ''prompts.condenser'' \<longrightarrow> hl_condenserSystem (pf_loop b) = hl_condenserSystem (pf_loop a)) \<and>
     (locked_by (pf_locked a) ''verification.agent.task'' \<longrightarrow> pf_verifierTask b = pf_verifierTask a)"

text \<open>The locked safety block is the declared one; the first profile over it adds \<open>plan\<close> to what an approval covers, when a plan is
  required.\<close>

definition keeps_safety :: "profile \<Rightarrow> profile \<Rightarrow> bool" where
  "keeps_safety a b \<longleftrightarrow>
     (\<forall>s. pf_safety a = Some s \<longrightarrow> ''safety'' \<in> set (pf_locked a) \<longrightarrow> pf_safety b \<in> {Some s, fst (lockPlanHash (Some s))})"

definition locks_hold_in :: "profile \<Rightarrow> profile \<Rightarrow> bool" where
  "locks_hold_in a b \<longleftrightarrow>
     set (pf_locked a) \<subseteq> set (pf_locked b) \<and>
     (\<exists>more_rules. pe_deny (pf_permissions b) = pe_deny (pf_permissions a) @ more_rules) \<and>
     keeps_locked_settings a b \<and> keeps_safety a b"

text \<open>\<open>descends env a ys b\<close>: the files \<open>ys\<close>, one over the other, give \<open>b\<close> over \<open>a\<close>.\<close>

definition extended_by :: "compose_env \<Rightarrow> profile \<Rightarrow> profile_yaml \<Rightarrow> profile \<Rightarrow> bool" where
  "extended_by env a y b \<longleftrightarrow> (\<exists>text dir source. composeProfile env text a y dir source = Inr b)"

fun descends :: "compose_env \<Rightarrow> profile \<Rightarrow> profile_yaml list \<Rightarrow> profile \<Rightarrow> bool" where
  "descends env a [] b \<longleftrightarrow> b = a"
| "descends env a (y # ys) b \<longleftrightarrow> (\<exists>c. extended_by env a y c \<and> descends env c ys b)"

lemma descends_snoc: "descends env a (ys @ [y]) b \<longleftrightarrow> (\<exists>c. descends env a ys c \<and> extended_by env c y b)"
  by (induction ys arbitrary: a) auto

lemma locked_by_mono: "set a \<subseteq> set b \<Longrightarrow> locked_by a q \<Longrightarrow> locked_by b q"
  by (auto simp: locked_by_def list_ex_iff)

lemma lockPlanHash_again: "fst (lockPlanHash (fst (lockPlanHash x))) = fst (lockPlanHash x)"
  by (auto simp: lockPlanHash_def split: option.split)

lemma keeps_settings_trans:
  assumes "set (pf_locked a) \<subseteq> set (pf_locked b)" "keeps_locked_settings a b" "keeps_locked_settings b c"
  shows "keeps_locked_settings a c"
  using assms(2,3) locked_by_mono [OF assms(1)] unfolding keeps_locked_settings_def by metis

lemma keeps_safety_step:
  assumes "keeps_safety a b" "set (pf_locked a) \<subseteq> set (pf_locked b)" "keeps_safety b c"
  shows "keeps_safety a c"
proof -
  have "pf_safety c \<in> {Some s, fst (lockPlanHash (Some s))}" if s: "pf_safety a = Some s" and l: "''safety'' \<in> set (pf_locked a)" for s
  proof -
    have b: "pf_safety b \<in> {Some s, fst (lockPlanHash (Some s))}" using assms(1) s l by (simp add: keeps_safety_def)
    obtain t where t: "fst (lockPlanHash (Some s)) = Some t" by (cases "fst (lockPlanHash (Some s))") (auto simp: lockPlanHash_def split: if_splits)
    from b t consider "pf_safety b = Some s" | "pf_safety b = Some t" by auto
    then show ?thesis
    proof cases
      case 1
      then show ?thesis using assms(2,3) l by (auto simp: keeps_safety_def)
    next
      case 2
      have "fst (lockPlanHash (Some t)) = Some t" using lockPlanHash_again [of "Some s"] t by simp
      moreover have "pf_safety c \<in> {Some t, fst (lockPlanHash (Some t))}" using assms(2,3) l 2 by (auto simp: keeps_safety_def)
      ultimately show ?thesis using t by simp
    qed
  qed
  then show ?thesis by (simp add: keeps_safety_def)
qed

lemma locks_hold_refl: "locks_hold_in a a"
  by (simp add: locks_hold_in_def keeps_locked_settings_def keeps_safety_def)

lemma locks_hold_trans:
  assumes "locks_hold_in a b" "locks_hold_in b c"
  shows "locks_hold_in a c"
proof -
  have "set (pf_locked a) \<subseteq> set (pf_locked c)" "\<exists>rs. pe_deny (pf_permissions c) = pe_deny (pf_permissions a) @ rs"
    using assms by (auto simp: locks_hold_in_def)
  then show ?thesis
    using assms keeps_settings_trans [of a b c] keeps_safety_step [of a b c] by (simp add: locks_hold_in_def)
qed

lemma set_fold_jset_add: "set (fold jset_add xs acc) = set acc \<union> set xs"
  by (induction xs arbitrary: acc) auto

lemma lock_safety_absent:
  assumes "lockViolation (pf_locked parent) (overriddenPaths y) = None" "''safety'' \<in> set (pf_locked parent)"
  shows "y_safety y = None"
proof -
  have "locked_by (pf_locked parent) ''safety.preApply.requirePlanArtifact''"
    using assms(2) by (auto simp: locked_by_def list_ex_iff lies_under_def intro!: bexI [where x = "''safety''"])
  moreover have "\<not> locked_by META_KEYS ''safety.preApply.requirePlanArtifact''" by code_simp
  ultimately have "''safety.preApply.requirePlanArtifact'' \<notin> set (presentLeafPaths (yaml_obj y))"
    using not_overridden [OF assms(1)] by simp
  then show ?thesis using leaf_safety_preApply_requirePlanArtifact by blast
qed

lemma lockPlanHash_bound: "fst (lockPlanHash x) = Some s \<Longrightarrow> sp_requirePlanArtifact s \<Longrightarrow> ''plan'' \<in> set (sp_hash s)"
  by (auto simp: lockPlanHash_def split: option.splits if_splits)

lemma compose_keeps:
  assumes "composeProfile env text parent y dir source = Inr p"
  shows "locks_hold_in parent p"
proof -
  obtain parts texts creds where c: "lockViolation (pf_locked parent) (overriddenPaths y) = None" "p = assemble env parent y dir source parts texts creds"
    using assms by (rule composeProfile_Inr)
  have "pf_safety p = fst (lockPlanHash (Some s))" if "pf_safety parent = Some s" "''safety'' \<in> set (pf_locked parent)" for s
    using lock_safety_absent [OF c(1) that(2)] that by (simp add: c(2) assemble_def Let_def composed_safety_def composeSafety_def)
  then have "keeps_safety parent p" by (simp add: keeps_safety_def)
  moreover have "set (pf_locked parent) \<subseteq> set (pf_locked p)"
    by (auto simp: c(2) assemble_def Let_def composeLocked_def set_fold_jset_add)
  moreover have "pe_deny (pf_permissions p) = pe_deny (pf_permissions parent) @ listed (yp_deny (y_permissions y))"
    by (simp add: c(2) assemble_def Let_def composePermissions_def)
  moreover have "keeps_locked_settings parent p"
    using composed_guarded [OF assms] composed_texts [OF assms] by (simp add: keeps_locked_settings_def)
  ultimately show ?thesis by (simp add: locks_hold_in_def)
qed

lemma extended_keeps: "extended_by env a y b \<Longrightarrow> locks_hold_in a b"
  using compose_keeps by (auto simp: extended_by_def)

lemma descends_keeps: "descends env a ys b \<Longrightarrow> locks_hold_in a b"
  by (induction ys arbitrary: a) (auto intro: locks_hold_refl locks_hold_trans extended_keeps)

lemma extended_absent:
  assumes "extended_by env a y b" "locked_by (pf_locked a) q" "lockable q"
  shows "q \<notin> set (presentLeafPaths (yaml_obj y))"
proof -
  obtain reader dir source where "composeProfile env reader a y dir source = Inr b" using assms(1) by (auto simp: extended_by_def)
  then have "lockViolation (pf_locked a) (overriddenPaths y) = None" by (rule composeProfile_Inr)
  then show ?thesis using not_overridden assms(2,3) by (simp add: lockable_def)
qed

lemma descends_absent:
  assumes "descends env a ys b" "locked_by (pf_locked a) q" "lockable q" "y \<in> set ys"
  shows "q \<notin> set (presentLeafPaths (yaml_obj y))"
  using assms
proof (induction ys arbitrary: a)
  case (Cons x ys)
  then obtain c where c: "extended_by env a x c" "descends env c ys b" by auto
  have "locked_by (pf_locked c) q" using extended_keeps [OF c(1)] Cons.prems(2) locked_by_mono by (auto simp: locks_hold_in_def)
  with Cons c extended_absent [OF c(1)] show ?case by auto
qed simp


text \<open>C15 safety_never_default_autopilot. A composed profile with a safety block defaults to no autopilot, does not promote itself, is locked, and where it
  requires a reviewed plan the plan is among what an approval covers.\<close>

theorem safety_never_default_autopilot:
  assumes "composeProfile env text parent y dir source = Inr p" "pf_safety p = Some s"
  shows "pe_defaultMode (pf_permissions p) \<noteq> Autopilot \<and> Option.bind (pf_tuning p) tn_promote \<noteq> Some ''auto'' \<and>
    ''safety'' \<in> set (pf_locked p) \<and> (sp_requirePlanArtifact s \<longrightarrow> ''plan'' \<in> set (sp_hash s))"
proof -
  obtain parts texts creds where c: "composeParts text parent y = Inr parts" "p = assemble env parent y dir source parts texts creds"
    using assms(1) by (rule composeProfile_Inr)
  have s: "composed_safety parent y = Some s" using assms(2) by (simp add: c(2) assemble_def Let_def)
  have "safety_conflict parent y (hp_tuning parts) (Some s) = None" using composeParts_Inr(4) [OF c(1)] s by simp
  then show ?thesis
    using lockPlanHash_bound [of _ s] s
    by (auto simp: safety_conflict_def c(2) assemble_def Let_def composePermissions_def composed_safety_def composeLocked_def set_fold_jset_add split: if_splits)
qed

lemma refused_none: "refused_by policy ms = Some [] \<Longrightarrow> m \<in> set ms \<Longrightarrow> policyAllows policy m = Some True"
  by (induction ms) (auto split: option.splits if_splits)

text \<open>Every model a composed profile pins may run under its own model policy.\<close>

theorem pins_fit_policy:
  assumes "composeProfile env text parent y dir source = Inr p" "m \<in> set (pinnedModels (pf_model p))"
  shows "policyIsOpen (pf_modelPolicy p) \<or> policyAllows (pf_modelPolicy p) m = Some True"
proof -
  have "pinsOutsidePolicy (pf_modelPolicy p) (pf_model p) = Some []" using assms(1) by (rule composeProfile_Inr)
  then show ?thesis using assms(2) refused_none by (auto simp: pinsOutsidePolicy_def split: if_splits)
qed

section \<open>Examples\<close>

definition base_loop :: hop_loop where
  "base_loop =
     \<lparr>po_verifyCommand = None, po_envBroken = None, po_churnThreshold = 6, po_antiChurnNudge = (\<lambda>p n. []), po_selfCheckNudge = (\<lambda>n h. []),
      hl_taskType = ''ops'', hl_checkpointNudge = None, hl_summarizerSystem = [], hl_condenserSystem = [], hl_classifierSystem = (\<lambda>n. [])\<rparr>"

definition base_profile :: "string list \<Rightarrow> profile" where
  "base_profile locks =
     \<lparr>pf_name = ''base'', pf_version = ''1.0.0'', pf_description = [], pf_source = FromUser, pf_dir = None, pf_extendsChain = [],
      pf_system = ''be careful'', pf_verifierAgent = ''check'', pf_verifierTask = (\<lambda>t d. t), pf_loop = base_loop,
      pf_verification = \<lparr>vf_observe = ''builtin:none'', vf_selfCheck = False, vf_minEdits = 3, vf_antiChurn = False, vf_threshold = 6,
        vf_agent = \<lparr>vp_enabled = True, vp_tier = ''mid'', vp_minChangedLines = 0, vp_riskGate = ''actions'', vp_failMode = ''closed''\<rparr>\<rparr>,
      pf_catalogProfile = ''coding'', pf_routing = \<lparr>ro_subagents = ''catalog'', ro_classifyStart = False, ro_ladder = ''off'', ro_patience = 2\<rparr>,
      pf_permissions = \<lparr>pe_defaultMode = Recon, pe_allow = [], pe_deny = [''Write'']\<rparr>, pf_include = Some [''Read''], pf_maxTurns = 100,
      pf_taskType = ''ops'',
      pf_evals = [\<lparr>es_name = ''gate'', es_description = None, es_tasks = ''t'', es_scorer = ''s'', es_runs = 1, es_passBar = 1, es_role = Some Golden, es_gates = Some True\<rparr>],
      pf_tuning = None, pf_model = None, pf_requires = None, pf_safety = None, pf_memory = None, pf_modelPolicy = None, pf_sandbox = None,
      pf_workspace = None, pf_processes = None, pf_credentials = None, pf_kubeCredentials = None, pf_locked = locks, pf_tunable = [], pf_warnings = [],
      pf_modules = []\<rparr>"

definition bare_memory :: y_memory where
  "bare_memory =
     \<lparr>yh_workspace = None, yh_tenant = None, yh_policy = None, yh_topics = [], yh_reads = [], yh_writes = [], yh_ontology = [], yh_owner = None,
      yh_mode = None, yh_sharing = None, yh_publication = None, yh_promotion = None, yh_limits = None\<rparr>"

definition bare_child :: profile_yaml where
  "bare_child =
     \<lparr>y_name = ''child'', y_version = ''1.0.0'', y_description = [], y_extends = ''base'', y_system = None, y_verifierAgent = None, y_summarizer = None,
      y_condenser = None,
      y_verification = \<lparr>yv_observe = None, yv_selfCheck = None, yv_minEdits = None, yv_antiChurn = None, yv_threshold = None,
        yv_agent = \<lparr>ya_enabled = None, ya_tier = None, ya_minChangedLines = None, ya_riskGate = None, ya_failMode = None, ya_task = None\<rparr>\<rparr>,
      y_catalogProfile = None, y_routing = \<lparr>yr_subagents = None, yr_classifyStart = None, yr_ladder = None, yr_patience = None\<rparr>,
      y_permissions = \<lparr>yp_defaultMode = None, yp_allow = None, yp_deny = Some [''Bash'']\<rparr>, y_include = None, y_modules = [], y_maxTurns = None,
      y_taskType = None, y_evals = [], y_tuning = None, y_modelBlock = None, y_requires = None, y_safety = None, y_memory = bare_memory,
      y_modelPolicy = None, y_sandbox = None, y_workspace = None, y_processes = None, y_credentials = None, y_locked = [], y_tunable = []\<rparr>"

definition no_observer :: compose_env where
  "no_observer = \<lparr>ce_codingVerify = (\<lambda>c. False), ce_codingBroken = (\<lambda>c. False)\<rparr>"

definition inline_text :: text_reader where "inline_text field value = Inr value"

definition loaded_of :: "load_error + profile \<Rightarrow> profile option" where
  "loaded_of r = (case r of Inr p \<Rightarrow> Some p | Inl e \<Rightarrow> None)"

lemma loaded_of_Some: "loaded_of r = Some p \<Longrightarrow> r = Inr p"
  by (auto simp: loaded_of_def split: sum.splits)

abbreviation child_of :: "string list \<Rightarrow> profile_yaml \<Rightarrow> load_error + profile" where
  "child_of locks y \<equiv> composeProfile no_observer inline_text (base_profile locks) y ''d'' FromUser"

lemma bare_child_loads: "loaded_of (child_of [''permissions.defaultMode''] bare_child) \<noteq> None"
  by code_simp


definition declared_safety :: hop_safety where
  "declared_safety =
     \<lparr>sp_toolClasses = \<lparr>tool_classes.tc_readOnly = [], tc_mutative = [''Bash''], tc_destructive = []\<rparr>, sp_requirePlanArtifact = True, sp_hash = [''identity''],
      sp_blastRadius = \<lparr>br_maxResources = None, br_accounts = None, br_regions = None, br_requireTag = None\<rparr>, sp_destructiveAlways = True,
      sp_outOfScopeAlways = True, sp_costCeilingUsdMonth = None, hs_readIdentity = None, hs_writeIdentity = None, hs_neverSelfGrant = True,
      hs_sandbox = None\<rparr>"

definition safe_child :: profile_yaml where
  "safe_child = bare_child\<lparr>y_safety := Some declared_safety\<rparr>"

lemma safe_child_loads: "map_option (\<lambda>p. pf_safety p \<noteq> None) (loaded_of (child_of [] safe_child)) = Some True"
  by code_simp

theorem safety_never_default_autopilot_witness:
  "\<exists>p s. child_of [] safe_child = Inr p \<and> pf_safety p = Some s \<and> pe_defaultMode (pf_permissions p) \<noteq> Autopilot \<and> ''safety'' \<in> set (pf_locked p)"
proof -
  obtain p s where p: "child_of [] safe_child = Inr p" "pf_safety p = Some s" using safe_child_loads loaded_of_Some by auto
  show ?thesis using safety_never_default_autopilot [OF p] p by blast
qed

definition pinned_child :: profile_yaml where
  "pinned_child =
     bare_child\<lparr>y_modelBlock := Some \<lparr>ym_main = Some ''ab'', ym_subagents = None, ym_allowInvokeAny = None, ym_tiers = None, ym_subscribe = None,
         ym_fallback = None\<rparr>, y_modelPolicy := Some (Some [''a*''], None)\<rparr>"

lemma pinned_child_loads: "map_option (\<lambda>p. pinnedModels (pf_model p)) (loaded_of (child_of [] pinned_child)) = Some [''ab'']"
  by code_simp

theorem pins_fit_policy_witness:
  "\<exists>p. child_of [] pinned_child = Inr p \<and> (policyIsOpen (pf_modelPolicy p) \<or> policyAllows (pf_modelPolicy p) ''ab'' = Some True)"
proof -
  obtain p where p: "child_of [] pinned_child = Inr p" "''ab'' \<in> set (pinnedModels (pf_model p))" using pinned_child_loads loaded_of_Some by fastforce
  show ?thesis using pins_fit_policy [OF p] p by blast
qed

section \<open>Where a lock does not hold\<close>

definition bash_child :: profile_yaml where
  "bash_child =
     bare_child\<lparr>y_modules := [(''x'', \<lparr>yo_prompt = ''be bold'', yo_tools = Some [''Bash''], yo_enabled = Flag True, yo_description = None\<rparr>)]\<rparr>"

text \<open>A lock on the tools or on the system prompt does not hold against a module: a child adds a tool its parent's locked list leaves
  out, and a text to the locked prompt, by declaring a module.\<close>

theorem module_widens_locked_tools:
  "map_option (\<lambda>p. (pf_include p, starts (pf_system (base_profile [])) (pf_system p), pf_system p = pf_system (base_profile [])))
     (loaded_of (child_of [''tools.include'', ''prompts.system''] bash_child))
   = Some (Some [''Read'', ''Bash''], True, False)"
  by code_simp

definition easy_gate :: profile_yaml where
  "easy_gate =
     bare_child\<lparr>y_evals := [\<lparr>es_name = ''gate'', es_description = None, es_tasks = ''none'', es_scorer = ''true'', es_runs = 1, es_passBar = 0, es_role = Some Golden,
         es_gates = None\<rparr>]\<rparr>"

text \<open>A lock on the evals is ignored: a child replaces the suite that gates its promotion.\<close>

theorem evals_lock_ignored:
  "map_option (\<lambda>p. map es_scorer (pf_evals p)) (loaded_of (child_of [''evals''] easy_gate)) = Some [''true'']"
  by code_simp

text \<open>A profile that locks its memory topics cannot be extended at all: the schema fills the lists a child leaves out, and what it
  fills counts as an override.\<close>

theorem memory_lock_blocks_all:
  assumes "locked_by (pf_locked parent) ''memory.topics''"
  shows "\<exists>e. composeProfile env text parent y dir source = Inl e"
proof -
  have "''memory.topics'' \<in> set (presentLeafPaths (yaml_obj y))"
    unfolding presentLeafPaths_def
    by (rule leaf_in [where k = "''memory''" and v = "y_memory_obj (y_memory y)"]) (auto simp: yaml_obj_def y_memory_obj_def dotted_def set_opt_key)
  moreover have "\<not> locked_by META_KEYS ''memory.topics''" by code_simp
  ultimately have "lockViolation (pf_locked parent) (overriddenPaths y) \<noteq> None"
    using not_overridden [OF _ assms] by auto
  then show ?thesis by (auto simp: composeProfile_def)
qed

theorem memory_lock_blocks_all_witness: "\<exists>e. child_of [''memory''] bare_child = Inl e"
  by (rule memory_lock_blocks_all) code_simp

text \<open>The verifier of a profile with a task template is not given the task as it was said: a dollar form in it is expanded.\<close>

theorem task_text_altered:
  "verifier_task ''Check: {task}'' ''echo $$ {deliverable}'' (Some ''done'') = ''Check: echo $ done''"
  by code_simp

end
