(* ===== verification/ProfileSchema.thy ===== *)
theory ProfileSchema
  imports ProfileTypes
begin

text \<open>
  What the schema of \<open>hop.yaml\<close> accepts (\<open>profileYamlSchema\<close> and its parts in \<open>profile/load.ts\<close>), over the record of the parsed file.  That a key
  is of its type and that no other key is there is the record itself; the rest of each schema, its patterns, closed sets, bounds and
  refinements, is a predicate.
\<close>

section \<open>Patterns\<close>

definition alnum :: "char \<Rightarrow> bool" where "alnum c \<longleftrightarrow> is_alpha c \<or> is_digit c"
definition low_num :: "char \<Rightarrow> bool" where "low_num c \<longleftrightarrow> is_lower c \<or> is_digit c"
definition among :: "string \<Rightarrow> char \<Rightarrow> bool" where "among cs c \<longleftrightarrow> c \<in> set cs"

text \<open>\<open>^[F][R]{0,n-1}$\<close>\<close>

definition led_by :: "(char \<Rightarrow> bool) \<Rightarrow> (char \<Rightarrow> bool) \<Rightarrow> string \<Rightarrow> bool" where
  "led_by first rest s \<longleftrightarrow> s \<noteq> [] \<and> first (hd s) \<and> list_all rest (tl s)"

definition all_of :: "(char \<Rightarrow> bool) \<Rightarrow> string \<Rightarrow> bool" where
  "all_of P s \<longleftrightarrow> s \<noteq> [] \<and> list_all P s"

definition hop_name :: "string \<Rightarrow> bool" where
  "hop_name s \<longleftrightarrow> led_by low_num (\<lambda>c. low_num c \<or> c = CHR ''-'') s \<and> length s \<le> 64"

definition numeral_text :: "string \<Rightarrow> bool" where "numeral_text s \<longleftrightarrow> all_of is_digit s"

text \<open>\<open>/^\d+\.\d+\.\d+$/\<close>\<close>

definition semver :: "string \<Rightarrow> bool" where
  "semver v \<longleftrightarrow> length (split_ch CHR ''.'' v) = 3 \<and> list_all numeral_text (split_ch CHR ''.'' v)"

text \<open>\<open>\d+\<close> and then one of the units.\<close>

definition counted :: "string \<Rightarrow> string \<Rightarrow> bool" where
  "counted units s \<longleftrightarrow> s \<noteq> [] \<and> numeral_text (butlast s) \<and> last s \<in> set units"

definition half_life :: "string \<Rightarrow> bool" where "half_life s \<longleftrightarrow> s = ''none'' \<or> counted ''dwyx'' s"

definition topic_id :: "string \<Rightarrow> bool" where
  "topic_id s \<longleftrightarrow>
     list_all (led_by (\<lambda>c. low_num c \<or> among ''{}'' c) (\<lambda>c. low_num c \<or> among ''{}._-'' c)) (split_ch CHR ''/'' s)"

definition cadence_text :: "string \<Rightarrow> bool" where
  "cadence_text s \<longleftrightarrow>
     s \<in> {''daily'', ''weekly'', ''monthly''} \<or>
     (\<exists>n \<in> {0..<length s}. s = ''per-'' @ take n (drop 4 s) @ ''-runs'' \<and> numeral_text (take n (drop 4 s)))"

text \<open>Two parts around the first \<open>@\<close>.\<close>

definition at_parts :: "(string \<Rightarrow> bool) \<Rightarrow> (string \<Rightarrow> bool) \<Rightarrow> string \<Rightarrow> bool" where
  "at_parts P Q s \<longleftrightarrow>
     (let a = takeWhile (\<lambda>c. c \<noteq> CHR ''@'') s in a \<noteq> s \<and> P a \<and> Q (drop (length a + 1) s))"

definition subscription :: "string \<Rightarrow> bool" where
  "subscription s \<longleftrightarrow>
     at_parts (all_of (\<lambda>c. low_num c \<or> c = CHR ''-'')) (all_of (\<lambda>c. is_word c \<or> among ''.-'' c)) s"

definition template_part :: "string \<Rightarrow> bool" where
  "template_part s \<longleftrightarrow> led_by alnum (\<lambda>c. alnum c \<or> among ''._-'' c) s"

definition template_text :: "string \<Rightarrow> bool" where
  "template_text s \<longleftrightarrow> s = ''hands'' \<or> at_parts template_part template_part s"

definition secret_ref :: "string \<Rightarrow> bool" where
  "secret_ref s \<longleftrightarrow> led_by alnum (\<lambda>c. alnum c \<or> among ''._:/-'' c) s \<and> length s \<le> 200"

definition short_word :: "string \<Rightarrow> bool" where
  "short_word s \<longleftrightarrow> all_of (\<lambda>c. is_word c \<or> c = CHR ''-'') s \<and> length s \<le> 64"

definition env_name :: "string \<Rightarrow> bool" where
  "env_name s \<longleftrightarrow> led_by (\<lambda>c. is_alpha c \<or> c = CHR ''_'') is_word s"

definition header_name :: "string \<Rightarrow> bool" where
  "header_name s \<longleftrightarrow> all_of (\<lambda>c. alnum c \<or> among (''!#$%&*+.^_|~-'' @ [squote, backtick]) c) s"

definition dns_label :: "string \<Rightarrow> bool" where
  "dns_label s \<longleftrightarrow> led_by low_num (\<lambda>c. low_num c \<or> c = CHR ''-'') s \<and> low_num (last s) \<and> length s \<le> 63"

definition class_name :: "string \<Rightarrow> bool" where
  "class_name s \<longleftrightarrow> led_by is_upper alnum s \<and> 2 \<le> length s \<and> length s \<le> 41"

section \<open>Egress entries\<close>

definition host_label :: "string \<Rightarrow> bool" where
  "host_label s \<longleftrightarrow> led_by alnum (\<lambda>c. alnum c \<or> c = CHR ''-'') s \<and> alnum (last s)"

text \<open>The host of an entry and what follows it: an address in brackets, or the text before the first colon.\<close>

definition egress_host :: "string \<Rightarrow> (string \<times> string) option" where
  "egress_host e =
     (case e of
        c # r \<Rightarrow>
          if c = CHR ''['' then
            (let a = takeWhile (\<lambda>d. d \<noteq> CHR '']'') r
             in if a \<noteq> r \<and> all_of (\<lambda>d. is_digit d \<or> among ''abcdefABCDEF:.'' d) a then Some (c # a @ '']'', drop (length a + 1) r) else None)
          else (let h = takeWhile (\<lambda>d. d \<noteq> CHR '':'') e
                in if list_all host_label (split_ch CHR ''.'' h) then Some (h, drop (length h) e) else None)
      | [] \<Rightarrow> None)"

definition port_suffix :: "string \<Rightarrow> bool" where
  "port_suffix s \<longleftrightarrow>
     s = [] \<or> (hd s = CHR '':'' \<and> numeral_text (tl s) \<and> length (tl s) \<le> 5 \<and> 1 \<le> str_nat (tl s) \<and> str_nat (tl s) \<le> 65535)"

definition validEgressEntry :: "string \<Rightarrow> bool" where
  "validEgressEntry e \<longleftrightarrow> (case egress_host e of None \<Rightarrow> False | Some (h, rest) \<Rightarrow> port_suffix rest)"

section \<open>Blocks\<close>

abbreviation given :: "('a \<Rightarrow> bool) \<Rightarrow> 'a option \<Rightarrow> bool" where
  "given P v \<equiv> (case v of None \<Rightarrow> True | Some x \<Rightarrow> P x)"

definition some_string :: "string \<Rightarrow> bool" where "some_string s \<longleftrightarrow> s \<noteq> []"

definition eval_ok :: "eval_suite \<Rightarrow> bool" where
  "eval_ok e \<longleftrightarrow>
     some_string (es_name e) \<and> some_string (es_tasks e) \<and> some_string (es_scorer e) \<and> 0 < es_runs e \<and> 0 \<le> es_passBar e \<and> es_passBar e \<le> 1"

definition DEVIATION_KINDS :: "string list" where
  "DEVIATION_KINDS = [''refusal'', ''verifier_fail'', ''unmodelled'', ''correction'', ''surprise'', ''escalation'']"

definition RECORD_KINDS :: "string list" where "RECORD_KINDS = DEVIATION_KINDS @ [''outcome'', ''preference'']"

definition MEMORY_FEEDS :: "string list" where "MEMORY_FEEDS = [''tune'', ''evals'', ''personalize'']"

definition memory_policy_ok :: "memory_policy \<Rightarrow> bool" where
  "memory_policy_ok p \<longleftrightarrow>
     mq_record p \<noteq> [] \<and> list_all (\<lambda>k. k \<in> set RECORD_KINDS) (mq_record p) \<and> distinct (mq_record p) \<and>
     mq_feeds p \<noteq> [] \<and> list_all (\<lambda>f. f \<in> set MEMORY_FEEDS) (mq_feeds p)"

definition TOPIC_KINDS :: "string list" where
  "TOPIC_KINDS = [''state'', ''record'', ''learning'', ''preference'', ''deviation'']"

definition READ_SCOPES :: "string list" where
  "READ_SCOPES = [''self'', ''owner'', ''team'', ''company'', ''fleet'']"

text \<open>A topic as the file has it: its half life may be left out.\<close>

record raw_topic =
  rt_topic :: memory_topic
  rt_halfLife :: "string option"

definition topic_ok :: "raw_topic \<Rightarrow> bool" where
  "topic_ok r \<longleftrightarrow>
     (let t = rt_topic r
      in topic_id (mt_id t) \<and> mt_kind t \<in> set TOPIC_KINDS \<and> some_string (mt_key t) \<and> given half_life (rt_halfLife r) \<and>
         mt_read t \<in> set READ_SCOPES \<and> mt_phase t \<in> {Some ''build'', Some ''deploy''} \<and>
         given (\<lambda>f. f \<in> {''off'', ''declared-only'', ''ask''}) (mt_feedback t))"

definition HALF_LIFE_DEFAULT :: "(string \<times> string) list" where
  "HALF_LIFE_DEFAULT = [(''state'', ''2x''), (''record'', ''none''), (''learning'', ''1y''), (''preference'', ''none''), (''deviation'', ''90d'')]"

text \<open>\<open>globToRegExp\<close> of the memory contract: only the star is special.\<close>

definition star_rx :: "string \<Rightarrow> rx" where
  "star_rx g = cats (Bol # map (\<lambda>c. if c = CHR ''*'' then Star dot else Chr (\<lambda>d. d = c)) g @ [Eol])"

definition covers_topic :: "string list \<Rightarrow> string \<Rightarrow> bool" where
  "covers_topic writes i \<longleftrightarrow> list_ex (\<lambda>w. rx_test (star_rx w) i) writes"

definition class_ok :: "ontology_class \<Rightarrow> bool" where
  "class_ok c \<longleftrightarrow> class_name (oc_name c) \<and> some_string (oc_parent c) \<and> given (\<lambda>d. length d \<le> 200) (oc_description c)"

definition limits_ok :: "memory_limits \<Rightarrow> bool" where
  "limits_ok l \<longleftrightarrow> given (\<lambda>n. 0 < n) (ml_nodes l) \<and> given (\<lambda>n. 0 < n) (ml_bytes l) \<and> given (\<lambda>n. 0 < n) (ml_writeBytes l)"

definition memory_shape :: "raw_topic list \<Rightarrow> y_memory \<Rightarrow> bool" where
  "memory_shape ts m \<longleftrightarrow>
     given some_string (yh_workspace m) \<and> given some_string (yh_tenant m) \<and> given memory_policy_ok (yh_policy m) \<and> list_all topic_ok ts \<and>
     list_all some_string (yh_reads m) \<and> list_all some_string (yh_writes m) \<and> list_all class_ok (yh_ontology m) \<and>
     given some_string (yh_owner m) \<and> given (\<lambda>x. x \<in> {''auto'', ''review'', ''manual''}) (yh_mode m) \<and>
     given (\<lambda>x. x \<in> {''none'', ''org'', ''fleet''}) (yh_sharing m) \<and> given some_string (yh_publication m) \<and>
     given (\<lambda>x. x \<in> {''auto'', ''review''}) (yh_promotion m) \<and> given limits_ok (yh_limits m)"

text \<open>The refinement over the topics, one at a time: a repeated id, a state topic without a key, one \<open>writes\<close> leaves out.\<close>

datatype memory_issue = NoPublication | RepeatedId string | DedupKey string | NotWritten string

fun topic_issues :: "string list \<Rightarrow> string list \<Rightarrow> memory_topic list \<Rightarrow> memory_issue list" where
  "topic_issues writes old [] = []"
| "topic_issues writes old (t # ts) =
     (if mt_id t \<in> set old then [RepeatedId (mt_id t)] else []) @
     (if mt_kind t = ''state'' \<and> mt_key t = ''dedup'' then [DedupKey (mt_id t)] else []) @
     (if writes \<noteq> [] \<and> \<not> covers_topic writes (mt_id t) then [NotWritten (mt_id t)] else []) @
     topic_issues writes (mt_id t # old) ts"

definition memory_issues :: "raw_topic list \<Rightarrow> y_memory \<Rightarrow> memory_issue list" where
  "memory_issues ts m =
     (if list_ex (\<lambda>r. mt_feedback (rt_topic r) = Some ''ask'') ts \<and> yh_publication m = None then [NoPublication] else []) @
     topic_issues (yh_writes m) [] (map rt_topic ts)"

definition finish_topic :: "raw_topic \<Rightarrow> memory_topic" where
  "finish_topic r =
     (let t = rt_topic r
      in t\<lparr>mt_halfLife := (case rt_halfLife r of Some h \<Rightarrow> h | None \<Rightarrow> (case map_of HALF_LIFE_DEFAULT (mt_kind t) of Some h \<Rightarrow> h | None \<Rightarrow> []))\<rparr>)"

definition finish_memory :: "raw_topic list \<Rightarrow> y_memory \<Rightarrow> y_memory" where
  "finish_memory ts m =
     m\<lparr>yh_topics := map finish_topic ts, yh_writes := (if yh_writes m \<noteq> [] then yh_writes m else map (\<lambda>r. mt_id (rt_topic r)) ts)\<rparr>"

text \<open>What the schema makes of a memory block.\<close>

definition parse_memory :: "raw_topic list \<Rightarrow> y_memory \<Rightarrow> y_memory option" where
  "parse_memory ts m = (if memory_shape ts m \<and> memory_issues ts m = [] then Some (finish_memory ts m) else None)"

definition tuning_ok :: "tuning_policy \<Rightarrow> bool" where
  "tuning_ok t \<longleftrightarrow>
     given cadence_text (tn_cadence t) \<and> given (counted ''dw'') (tn_maxAge t) \<and> given (\<lambda>q. 0 \<le> q \<and> q \<le> 1) (tn_canaryFraction t) \<and>
     given (\<lambda>p. p \<in> {''auto'', ''human''}) (tn_promote t) \<and> given some_string (tn_frontierMetric t) \<and> given some_string (tn_promotionMargin t) \<and>
     given some_string (tn_goldenSuite t) \<and>
     given (list_all (\<lambda>x. x \<in> {''on-model-release'', ''on-api-change'', ''on-incident''})) (tn_triggers t)"

definition tier_ok :: "tier_def \<Rightarrow> bool" where
  "tier_ok t \<longleftrightarrow> some_string (td_primary t) \<and> list_all some_string (td_fallbacks t)"

definition model_ok :: "y_model \<Rightarrow> bool" where
  "model_ok m \<longleftrightarrow>
     given some_string (ym_main m) \<and> given (\<lambda>s. given some_string (fst s) \<and> given some_string (snd s)) (ym_subagents m) \<and>
     given (list_all (\<lambda>kt. tier_ok (snd kt))) (ym_tiers m) \<and> given subscription (ym_subscribe m) \<and>
     given (\<lambda>f. f \<in> {''allow'', ''deny''}) (ym_fallback m)"

definition binary_ok :: "binary_req \<Rightarrow> bool" where
  "binary_ok b \<longleftrightarrow> some_string (bq_name b) \<and> some_string (bq_detect b) \<and> given (\<lambda>n. 0 < n) (bq_timeoutMs b)"

definition requires_ok :: "requires_policy \<Rightarrow> bool" where
  "requires_ok r \<longleftrightarrow>
     list_all binary_ok (re_binaries r) \<and> list_all (\<lambda>n. some_string (nq_name n)) (re_mcp r) \<and>
     given (\<lambda>ts. ts \<noteq> [] \<and> list_all some_string ts) (re_models r) \<and> given (list_all (\<lambda>n. some_string (nq_name n))) (re_agents r) \<and>
     given (list_all some_string) (re_skills r) \<and> given (list_all some_string) (re_kube r)"

definition safety_ok :: "hop_safety \<Rightarrow> bool" where
  "safety_ok s \<longleftrightarrow> given (\<lambda>n. 0 < n) (br_maxResources (sp_blastRadius s)) \<and> given (\<lambda>n. 0 < n) (sp_costCeilingUsdMonth s)"

definition sandbox_ok :: "hop_sandbox \<Rightarrow> bool" where
  "sandbox_ok s \<longleftrightarrow>
     given (\<lambda>x. x \<in> {''1c2g'', ''2c4g''}) (sb_size s) \<and> given template_text (sb_template s) \<and> given (list_all validEgressEntry) (sb_egress s)"

definition credential_ok :: "y_credential \<Rightarrow> bool" where
  "credential_ok c \<longleftrightarrow>
     (case c of
        HeaderCredential h \<Rightarrow>
          secret_ref (hc_ref h) \<and> short_word (hc_tool h) \<and> hc_tool h \<noteq> ''kube'' \<and> validEgressEntry (hc_host h) \<and> CHR '':'' \<notin> set (hc_host h) \<and>
          header_name (hc_header h)
      | KubeDeclared k \<Rightarrow>
          secret_ref (yk_ref k) \<and> given dns_label (yk_name k) \<and> yk_source k \<in> {''secret'', ''local-context''} \<and> given dns_label (yk_namespace k))"

definition stdio_ok :: "mcp_stdio \<Rightarrow> bool" where
  "stdio_ok s \<longleftrightarrow> short_word (ms_name s) \<and> ms_argv s \<noteq> [] \<and> list_all some_string (ms_argv s) \<and> list_all env_name (ms_envNames s)"

definition processes_ok :: "hop_processes \<Rightarrow> bool" where
  "processes_ok p \<longleftrightarrow> given (\<lambda>ss. list_all stdio_ok ss \<and> distinct (map ms_name ss)) (pc_mcpStdio p)"

definition module_ok :: "y_module \<Rightarrow> bool" where
  "module_ok m \<longleftrightarrow> (case yo_enabled m of Flag b \<Rightarrow> True | Word w \<Rightarrow> w \<in> {''on'', ''off''})"

definition verification_ok :: "y_verification \<Rightarrow> bool" where
  "verification_ok v \<longleftrightarrow>
     (let a = yv_agent v
      in given (\<lambda>x. x \<in> {''builtin:coding'', ''builtin:none''}) (yv_observe v) \<and> given (\<lambda>n. 0 < n) (yv_minEdits v) \<and> given (\<lambda>n. 0 < n) (yv_threshold v) \<and>
         given (\<lambda>x. x \<in> {''max'', ''frontier'', ''mid'', ''cheap''}) (ya_tier a) \<and> given (\<lambda>x. x \<in> {''changed-lines'', ''actions''}) (ya_riskGate a) \<and>
         given (\<lambda>x. x \<in> {''open'', ''closed''}) (ya_failMode a) \<and> given some_string (ya_task a))"

definition routing_ok :: "y_routing \<Rightarrow> bool" where
  "routing_ok r \<longleftrightarrow>
     given (\<lambda>x. x \<in> {''catalog'', ''inherit'', ''budget:economy'', ''budget:balanced'', ''budget:quality''}) (yr_subagents r) \<and>
     given (\<lambda>x. x \<in> {''catalog'', ''off''}) (yr_ladder r) \<and> given (\<lambda>n. 1 \<le> n) (yr_patience r)"

definition tunable_ok :: "tunable \<Rightarrow> bool" where
  "tunable_ok t \<longleftrightarrow> (case snd t of NumericRange a b \<Rightarrow> True | EnumRange xs \<Rightarrow> xs \<noteq> [] \<and> list_all some_string xs)"

text \<open>The whole file; its memory block is what \<open>parse_memory\<close> made of one.\<close>

definition yaml_ok :: "raw_topic list \<Rightarrow> y_memory \<Rightarrow> profile_yaml \<Rightarrow> bool" where
  "yaml_ok ts m y \<longleftrightarrow>
     hop_name (y_name y) \<and> semver (y_version y) \<and> verification_ok (y_verification y) \<and> routing_ok (y_routing y) \<and>
     list_all (\<lambda>nm. module_ok (snd nm)) (y_modules y) \<and> given (\<lambda>n. 0 < n) (y_maxTurns y) \<and> list_all eval_ok (y_evals y) \<and>
     given tuning_ok (y_tuning y) \<and> given model_ok (y_modelBlock y) \<and> given requires_ok (y_requires y) \<and> given safety_ok (y_safety y) \<and>
     parse_memory ts m = Some (y_memory y) \<and>
     given (\<lambda>ad. given (list_all some_string) (fst ad) \<and> given (list_all some_string) (snd ad)) (y_modelPolicy y) \<and>
     given sandbox_ok (y_sandbox y) \<and> given (given (\<lambda>w. w \<in> {''ephemeral'', ''session'', ''persistent''})) (y_workspace y) \<and>
     given processes_ok (y_processes y) \<and> given (list_all credential_ok) (y_credentials y) \<and> list_all tunable_ok (y_tunable y)"

section \<open>The memory contract\<close>

lemma literal_matches:
  "CHR ''*'' \<notin> set s \<Longrightarrow>
   rx_ends (cats (map (\<lambda>c. if c = CHR ''*'' then Star dot else Chr (\<lambda>d. d = c)) s @ [Eol])) (p, s) \<noteq> []"
proof (induction s arbitrary: p)
  case Nil
  then show ?case by simp
next
  case (Cons c s)
  have cat: "cats (x # ys @ [Eol]) = Cat x (cats (ys @ [Eol]))" for x and ys :: "rx list" by (cases ys) simp_all
  have "CHR ''*'' \<notin> set s" "c \<noteq> CHR ''*''" using Cons.prems by auto
  then show ?case using Cons.IH [of "Some c"] by (simp add: cat del: cats.simps)
qed

lemma star_self: "CHR ''*'' \<notin> set s \<Longrightarrow> rx_test (star_rx s) s"
proof -
  assume "CHR ''*'' \<notin> set s"
  then have "rx_ends (star_rx s) (None, s) \<noteq> []"
    using literal_matches [of s None] by (cases s) (simp_all add: star_rx_def)
  then show ?thesis by (simp add: rx_test_def rx_search.simps)
qed

lemma topic_issues_Nil:
  "topic_issues writes old ts = [] \<Longrightarrow>
   distinct (map mt_id ts) \<and> (\<forall>t \<in> set ts. mt_id t \<notin> set old \<and> (writes \<noteq> [] \<longrightarrow> covers_topic writes (mt_id t)))"
proof (induction ts arbitrary: old)
  case Nil
  then show ?case by simp
next
  case (Cons t ts)
  then have "topic_issues writes (mt_id t # old) ts = []" "mt_id t \<notin> set old" "writes \<noteq> [] \<longrightarrow> covers_topic writes (mt_id t)"
    by (auto split: if_splits)
  moreover note Cons.IH [OF this(1)]
  ultimately show ?case by auto
qed

lemma finish_id: "mt_id (finish_topic r) = mt_id (rt_topic r)"
  by (simp add: finish_topic_def Let_def)

lemma split_pieces: "x \<in> set s \<Longrightarrow> x \<noteq> c \<Longrightarrow> \<exists>p \<in> set (split_ch c s). x \<in> set p"
proof (induction s)
  case Nil
  then show ?case by simp
next
  case (Cons y s)
  obtain p ps where "split_ch c s = p # ps" by (cases "split_ch c s") auto
  with Cons show ?case by auto
qed

lemma led_by_set: "led_by P Q p \<Longrightarrow> x \<in> set p \<Longrightarrow> P x \<or> Q x"
  by (cases p) (auto simp: led_by_def list_all_iff)

lemma no_star: "topic_id s \<Longrightarrow> CHR ''*'' \<notin> set s"
proof
  assume id: "topic_id s" and star: "CHR ''*'' \<in> set s"
  obtain p where "p \<in> set (split_ch CHR ''/'' s)" "CHR ''*'' \<in> set p" using split_pieces [OF star, of "CHR ''/''"] by auto
  moreover have "\<forall>p \<in> set (split_ch CHR ''/'' s). \<forall>x \<in> set p. (low_num x \<or> among ''{}'' x) \<or> (low_num x \<or> among ''{}._-'' x)"
    using id led_by_set unfolding topic_id_def list_all_iff by fast
  moreover have "\<not> ((low_num CHR ''*'' \<or> among ''{}'' CHR ''*'') \<or> (low_num CHR ''*'' \<or> among ''{}._-'' CHR ''*''))" by code_simp
  ultimately show False by blast
qed

text \<open>C33 memory_contract_closed. A memory contract the schema accepts is closed: its topics have different ids, and each is one the contract may write.\<close>

theorem memory_contract_closed:
  assumes "parse_memory ts m = Some y"
  shows "distinct (map mt_id (yh_topics y)) \<and> list_all (\<lambda>t. covers_topic (yh_writes y) (mt_id t)) (yh_topics y)"
proof -
  have shape: "memory_shape ts m" and issues: "topic_issues (yh_writes m) [] (map rt_topic ts) = []" and y: "y = finish_memory ts m"
    using assms by (auto simp: parse_memory_def memory_issues_def split: if_splits)
  note none = topic_issues_Nil [OF issues]
  have "map mt_id (yh_topics y) = map mt_id (map rt_topic ts)" by (simp add: y finish_memory_def finish_id)
  moreover have "covers_topic (yh_writes y) (mt_id (rt_topic r))" if r: "r \<in> set ts" for r
  proof (cases "yh_writes m = []")
    case True
    have "topic_id (mt_id (rt_topic r))" using shape r by (auto simp: memory_shape_def list_all_iff topic_ok_def Let_def)
    then have "rx_test (star_rx (mt_id (rt_topic r))) (mt_id (rt_topic r))" using star_self no_star by blast
    then show ?thesis using True r by (auto simp: y finish_memory_def covers_topic_def list_ex_iff)
  next
    case False
    with none r show ?thesis by (auto simp: y finish_memory_def)
  qed
  moreover have "yh_topics y = map finish_topic ts" by (simp add: y finish_memory_def)
  ultimately show ?thesis using none by (simp add: list_all_iff finish_id comp_def)
qed

definition two_topics :: "raw_topic list" where
  "two_topics =
     map (\<lambda>(i, k). \<lparr>rt_topic = \<lparr>mt_id = i, mt_kind = k, mt_key = ''run'', mt_halfLife = [], mt_read = ''self'', mt_inject = False, mt_phase = Some ''build'',
                     mt_feedback = None\<rparr>, rt_halfLife = None\<rparr>)
       [(''a/b'', ''state''), (''c'', ''record'')]"

definition plain_memory :: y_memory where
  "plain_memory =
     \<lparr>yh_workspace = None, yh_tenant = None, yh_policy = None, yh_topics = [], yh_reads = [], yh_writes = [], yh_ontology = [], yh_owner = None,
      yh_mode = None, yh_sharing = None, yh_publication = None, yh_promotion = None, yh_limits = None\<rparr>"

lemma two_topics_accepted: "map_option yh_writes (parse_memory two_topics plain_memory) = Some [''a/b'', ''c'']"
  by code_simp

theorem memory_contract_closed_witness:
  "\<exists>y. parse_memory two_topics plain_memory = Some y \<and> distinct (map mt_id (yh_topics y)) \<and>
       list_all (\<lambda>t. covers_topic (yh_writes y) (mt_id t)) (yh_topics y)"
proof -
  obtain y where y: "parse_memory two_topics plain_memory = Some y" using two_topics_accepted by blast
  from memory_contract_closed [OF y] y show ?thesis by blast
qed

section \<open>Names that become paths\<close>

text \<open>A name the schema accepts is one segment of a path.\<close>

lemma hop_name_is_segment:
  assumes "yaml_ok ts m y"
  shows "y_name y \<noteq> [] \<and> CHR ''/'' \<notin> set (y_name y) \<and> CHR ''.'' \<notin> set (y_name y) \<and> length (y_name y) \<le> 64"
proof -
  obtain c cs where n: "y_name y = c # cs" "low_num c" "list_all (\<lambda>d. low_num d \<or> d = CHR ''-'') cs" "length (y_name y) \<le> 64"
    using assms by (cases "y_name y") (auto simp: yaml_ok_def hop_name_def led_by_def)
  have "\<not> low_num CHR ''/''" "\<not> low_num CHR ''.''" by code_simp+
  with n show ?thesis by (auto simp: list_all_iff)
qed

end
