(* ===== verification/ProfileResolve.thy ===== *)
theory ProfileResolve
  imports ProfileChain ProfileSchema PlanFlags "HOL-Library.Product_Lexorder"
begin

text \<open>
  \<open>loadProfile\<close> of \<open>profile/load.ts\<close>: a reference is a builtin, a path or an installed name with its versions; the file found is parsed and
  composed over the parent it extends, at most four deep.  The YAML parser and the schema are parameters, the file system too.
  The table of builtins is a plain object, so a reference such as \<open>constructor\<close> finds the member every object inherits: the load
  returns that member as if it were a profile (\<open>NotAProfile\<close>), and composing over it throws (\<open>ParentNotAProfile\<close>).
\<close>

section \<open>Names and versions\<close>

definition last_at :: "string \<Rightarrow> nat option" where
  "last_at s = map_option (\<lambda>i. length s - 1 - i) (find_index (\<lambda>c. c = CHR ''@'') (rev s))"

definition parseHopRef :: "string \<Rightarrow> string \<times> string option" where
  "parseHopRef ref =
     (case last_at ref of
        Some (Suc i) \<Rightarrow> (take (Suc i) ref, Some (drop (Suc (Suc i)) ref))
      | _ \<Rightarrow> (ref, None))"

definition semver_key :: "string \<Rightarrow> nat \<times> nat \<times> nat" where
  "semver_key v = (let p = map str_nat (split_ch CHR ''.'' v) in (p ! 0, p ! 1, p ! 2))"

definition by_version :: "string list \<Rightarrow> string list" where "by_version vs = sort_key semver_key vs"

section \<open>Where a named profile is\<close>

record load_env =
  le_cwd :: string
  le_home :: string
  le_processCwd :: string
  le_configDir :: string
  le_confineTo :: "string option"
  le_builtins :: "(string, profile) jmap"
  le_compose :: compose_env
  le_yaml :: "string \<Rightarrow> string + json"
  le_schema :: "json \<Rightarrow> (string list \<times> string) + profile_yaml"

definition hop_base :: "load_env \<Rightarrow> string \<Rightarrow> string \<Rightarrow> string" where
  "hop_base env at_root name = path_join [at_root, le_configDir env, ''hops'', name]"

definition resolveNamedHopDir :: "load_env \<Rightarrow> hop_fs \<Rightarrow> string \<Rightarrow> string \<Rightarrow> load_error + string option" where
  "resolveNamedHopDir env fs at_root ref =
     (let (name, version) = parseHopRef ref; base = hop_base env at_root name;
          flat = fs_exists fs (path_join [base, ''hop.yaml'']);
          versions = filter (\<lambda>e. semver e \<and> fs_exists fs (path_join [base, e, ''hop.yaml''])) (fs_entries fs base)
      in if \<not> fs_exists fs base then Inr None
         else if flat \<and> versions \<noteq> [] then
           Inl (LoadFailed (''HOP '' @ quoted name @ '' has both a flat hop.yaml and versioned subdirs under '' @ base @ '' '' @ emdash @
             '' a single hops/'' @ name @ ''/ must use one layout, not both''))
         else if flat then
           (case some_text version of
              Some v \<Rightarrow> Inl (LoadFailed (''HOP '' @ quoted name @ '' uses the flat layout (no versions); drop the @'' @ v @ '' pin or move it under hops/'' @
                name @ ''/'' @ v @ ''/''))
            | None \<Rightarrow> Inr (Some base))
         else if versions \<noteq> [] then
           (case some_text version of
              Some v \<Rightarrow>
                if v \<notin> set versions then
                  Inl (LoadFailed (''HOP '' @ quoted (name @ ''@'' @ v) @ '' not found under '' @ base @ '' (have: '' @ join '', '' (by_version versions) @ '')''))
                else Inr (Some (path_join [base, v]))
            | None \<Rightarrow> Inr (Some (path_join [base, last (by_version versions)])))
         else Inr None)"

section \<open>Resolving a reference\<close>

text \<open>What a reference is, before its file is read.\<close>

datatype found = Compiled profile | InheritedMember string | AtDir string profile_source | NotFound load_error

definition has_slash :: "string \<Rightarrow> bool" where "has_slash ref \<longleftrightarrow> CHR ''/'' \<in> set ref"

text \<open>An inherited member has no version: a pin is compared with \<open>undefined\<close>.\<close>

definition other_version :: "string \<Rightarrow> string \<Rightarrow> string \<Rightarrow> load_error" where
  "other_version name version ref =
     LoadFailed (''builtin HOP '' @ quoted name @ '' is version '' @ version @ '' in this build; '' @ quoted ref @ '' is not available'')"

definition pinned_builtin :: "load_env \<Rightarrow> string \<Rightarrow> found option" where
  "pinned_builtin env ref =
     (if \<not> has_slash ref \<and> CHR ''@'' \<in> set ref then
        (let (name, version) = parseHopRef ref
         in case member (le_builtins env) name of
              Absent \<Rightarrow> None
            | Inherited \<Rightarrow>
                (case some_text version of
                   Some v \<Rightarrow> Some (NotFound (other_version name ''undefined'' ref))
                 | None \<Rightarrow> Some (InheritedMember name))
            | Own b \<Rightarrow>
                (case some_text version of
                   Some v \<Rightarrow> if v \<noteq> pf_version b then Some (NotFound (other_version name (pf_version b) ref)) else Some (Compiled b)
                 | None \<Rightarrow> Some (Compiled b)))
      else None)"

definition unknown_hop :: "load_env \<Rightarrow> string \<Rightarrow> load_error" where
  "unknown_hop env ref =
     LoadFailed (''unknown HOP '' @ quoted ref @ '' '' @ emdash @ '' not a builtin ('' @ join '', '' (map fst (le_builtins env)) @ ''), and no hops/'' @
       fst (parseHopRef ref) @ ''/ (flat or versioned) found under the project or user root; create one with a hop.yaml declaring spec: mlpal/hop-v1'')"

definition find_profile :: "load_env \<Rightarrow> hop_fs \<Rightarrow> string \<Rightarrow> string option \<Rightarrow> found" where
  "find_profile env fs ref fromDir =
     (let field = (if fromDir = None then ''hop'' else ''extends'')
      in case member (le_builtins env) ref of
           Own b \<Rightarrow> Compiled b
         | Inherited \<Rightarrow> InheritedMember ref
         | Absent \<Rightarrow>
             (case pinned_builtin env ref of
                Some found \<Rightarrow> found
              | None \<Rightarrow>
                  if has_slash ref then
                    (let p = (if isAbsolute ref then ref else path_resolve (le_processCwd env) [over_default fromDir (le_cwd env), ref])
                     in case confined fs (le_processCwd env) p (le_confineTo env) field of
                          Inl e \<Rightarrow> NotFound e
                        | Inr base \<Rightarrow>
                            if fs_exists fs base then AtDir base FromPath else NotFound (LoadFailed (''profile path '' @ base @ '' does not exist'')))
                  else if le_confineTo env \<noteq> None then NotFound (HopPath field ref)
                  else (case resolveNamedHopDir env fs (le_cwd env) ref of
                          Inl e \<Rightarrow> NotFound e
                        | Inr (Some d) \<Rightarrow> AtDir d FromProject
                        | Inr None \<Rightarrow>
                            (case resolveNamedHopDir env fs (le_home env) ref of
                               Inl e \<Rightarrow> NotFound e
                             | Inr (Some d) \<Rightarrow> AtDir d FromUser
                             | Inr None \<Rightarrow> NotFound (unknown_hop env ref)))))"

text \<open>The file of a directory, parsed.\<close>

definition read_hop :: "load_env \<Rightarrow> hop_fs \<Rightarrow> string \<Rightarrow> load_error + profile_yaml" where
  "read_hop env fs dir =
     (let file = path_join [dir, ''hop.yaml'']
      in then_do (read_confined fs (le_processCwd env) (le_confineTo env) ''hop.yaml'' (''HOP directory '' @ dir @ '' has no hop.yaml'') file) (\<lambda>t.
         case le_yaml env t of
           Inl m \<Rightarrow> Inl (LoadFailed (file @ '' is not valid YAML: '' @ m))
         | Inr doc \<Rightarrow>
             (case le_schema env doc of
                Inl (path, m) \<Rightarrow>
                  Inl (LoadFailed (file @ '' is not a valid profile'' @ (if path = [] then [] else '' at '' @ join ''.'' path) @ '': '' @ m))
              | Inr y \<Rightarrow> Inr y)))"

definition MAX_EXTENDS :: nat where "MAX_EXTENDS = 4"

definition as_parent :: "load_error + profile \<Rightarrow> load_error + profile" where
  "as_parent r = (case r of Inl (NotAProfile k) \<Rightarrow> Inl (ParentNotAProfile k) | _ \<Rightarrow> r)"

lemma as_parent_Inr: "as_parent r = Inr p \<longleftrightarrow> r = Inr p"
  by (auto simp: as_parent_def split: sum.splits load_error.splits)

function resolveProfile :: "load_env \<Rightarrow> hop_fs \<Rightarrow> nat \<Rightarrow> string \<Rightarrow> string option \<Rightarrow> load_error + profile" where
  "resolveProfile env fs depth ref fromDir =
     (case find_profile env fs ref fromDir of
        Compiled b \<Rightarrow> Inr b
      | InheritedMember k \<Rightarrow> Inl (NotAProfile k)
      | NotFound e \<Rightarrow> Inl e
      | AtDir dir source \<Rightarrow>
          (case read_hop env fs dir of
             Inl e \<Rightarrow> Inl e
           | Inr y \<Rightarrow>
               if MAX_EXTENDS < depth then
                 Inl (LoadFailed (''profile extends chain deeper than 4 at '' @ path_join [dir, ''hop.yaml''] @ '' '' @ emdash @ '' flatten the hierarchy''))
               else then_do (as_parent (resolveProfile env fs (depth + 1) (y_extends y) (Some dir))) (\<lambda>parent.
                      composeProfile (le_compose env) (\<lambda>field value. resolvePromptText fs (le_processCwd env) (le_confineTo env) dir field value)
                        parent y dir source)))"
  by pat_completeness auto
termination by (relation "measure (\<lambda>(env, fs, depth, ref, fromDir). Suc MAX_EXTENDS - depth)") auto

declare resolveProfile.simps [simp del]

definition loadProfile :: "load_env \<Rightarrow> hop_fs \<Rightarrow> string option \<Rightarrow> load_error + profile" where
  "loadProfile env fs ref = resolveProfile env fs 0 (over_default ref ''coding'') None"

section \<open>Every load is a chain over a builtin\<close>

lemma map_of_value: "map_of m k = Some v \<Longrightarrow> v \<in> set (map snd m)"
  by (induction m) (auto split: if_splits)

lemma member_value: "member m k = Own v \<Longrightarrow> v \<in> set (map snd m)"
  using map_of_value by (fastforce simp: member_def split: option.splits if_splits)

lemma pinned_builtin_in:
  assumes "pinned_builtin env ref = Some (Compiled b)"
  shows "b \<in> set (map snd (le_builtins env))"
proof -
  obtain name version where n: "parseHopRef ref = (name, version)" by force
  with assms have "member (le_builtins env) name = Own b"
    by (cases "member (le_builtins env) name") (auto simp: pinned_builtin_def split: if_splits option.splits)
  then show ?thesis by (rule member_value)
qed

lemma compiled_in:
  assumes "find_profile env fs ref fromDir = Compiled b"
  shows "b \<in> set (map snd (le_builtins env))"
proof (cases "member (le_builtins env) ref")
  case Absent
  with assms have "pinned_builtin env ref = Some (Compiled b)"
    by (auto simp: find_profile_def Let_def split: option.splits sum.splits if_splits)
  then show ?thesis by (rule pinned_builtin_in)
next
  case Inherited
  with assms show ?thesis by (simp add: find_profile_def)
next
  case (Own c)
  with assms have "c = b" by (simp add: find_profile_def)
  with Own show ?thesis using member_value by fast
qed

lemma resolve_cases:
  assumes "resolveProfile env fs depth ref fromDir = Inr p"
  obtains (compiled) "find_profile env fs ref fromDir = Compiled p"
  | (extends) dir source y parent where "depth \<le> MAX_EXTENDS" "resolveProfile env fs (depth + 1) (y_extends y) (Some dir) = Inr parent"
      "composeProfile (le_compose env) (\<lambda>field value. resolvePromptText fs (le_processCwd env) (le_confineTo env) dir field value) parent y dir source = Inr p"
  using assms by (subst (asm) resolveProfile.simps) (auto simp: then_do_Inr as_parent_Inr split: found.splits sum.splits if_splits)

lemma resolve_chain:
  "resolveProfile env fs depth ref fromDir = Inr p \<Longrightarrow> depth \<le> Suc MAX_EXTENDS \<Longrightarrow>
   \<exists>b \<in> set (map snd (le_builtins env)). \<exists>ys. descends (le_compose env) b ys p \<and> length ys + depth \<le> Suc MAX_EXTENDS"
proof (induction "Suc MAX_EXTENDS - depth" arbitrary: depth ref fromDir p)
  case 0
  from 0(2) show ?case
  proof (cases rule: resolve_cases)
    case compiled
    then show ?thesis using compiled_in 0(3) by (intro bexI [where x = p] exI [where x = "[]"]) auto
  next
    case (extends dir source y parent)
    with 0(1) show ?thesis by simp
  qed
next
  case (Suc n)
  from Suc(3) show ?case
  proof (cases rule: resolve_cases)
    case compiled
    then show ?thesis using compiled_in Suc(4) by (intro bexI [where x = p] exI [where x = "[]"]) auto
  next
    case (extends dir source y parent)
    have "n = Suc MAX_EXTENDS - (depth + 1)" "depth + 1 \<le> Suc MAX_EXTENDS" using Suc(2) extends(1) by simp_all
    from Suc(1) [OF this(1) extends(2) this(2)] obtain b ys where b: "b \<in> set (map snd (le_builtins env))"
      "descends (le_compose env) b ys parent" "length ys + (depth + 1) \<le> Suc MAX_EXTENDS" by blast
    have "extended_by (le_compose env) parent y p" using extends(3) by (auto simp: extended_by_def)
    then have "descends (le_compose env) b (ys @ [y]) p" using b(2) by (auto simp: descends_snoc)
    then show ?thesis using b by (intro bexI [where x = b] exI [where x = "ys @ [y]"]) auto
  qed
qed


text \<open>A reference that names a member every object inherits is not refused as unknown: the member is returned as the profile.\<close>

theorem builtin_lookup_inherits:
  assumes "k \<in> set inherited_names" "map_of (le_builtins env) k = None"
  shows "loadProfile env fs (Some k) = Inl (NotAProfile k)"
  using assms by (simp add: loadProfile_def resolveProfile.simps [of env fs 0 k None] find_profile_def member_def)

section \<open>A confined load\<close>

lemma find_same:
  assumes "le_confineTo env = Some base" "same_inside (le_processCwd env) base fs gs"
  shows "find_profile env fs ref fromDir = find_profile env gs ref fromDir"
proof -
  let ?p = "if isAbsolute ref then ref else path_resolve (le_processCwd env) [over_default fromDir (le_cwd env), ref]"
  let ?f = "if fromDir = None then ''hop'' else ''extends''"
  let ?look = "\<lambda>h. (case confined h (le_processCwd env) ?p (Some base) ?f of
      Inl e \<Rightarrow> NotFound e
    | Inr q \<Rightarrow> if fs_exists h q then AtDir q FromPath else NotFound (LoadFailed (''profile path '' @ q @ '' does not exist'')))"
  have "?look fs = ?look gs"
  proof (cases "confined fs (le_processCwd env) ?p (Some base) ?f")
    case (Inl e)
    then show ?thesis by (simp add: confined_same [OF assms(2), of ?p ?f, symmetric])
  next
    case (Inr q)
    then show ?thesis using confined_sees [OF assms(2) Inr] confined_path [OF Inr]
      by (simp add: confined_same [OF assms(2), of ?p ?f, symmetric])
  qed
  then show ?thesis by (simp only: find_profile_def Let_def assms(1)) (simp split: option.split member.split)
qed

lemma read_hop_same:
  "le_confineTo env = Some base \<Longrightarrow> same_inside (le_processCwd env) base fs gs \<Longrightarrow> read_hop env fs dir = read_hop env gs dir"
  by (simp add: read_hop_def Let_def read_same)

lemma resolve_same:
  assumes "le_confineTo env = Some base" "same_inside (le_processCwd env) base fs gs"
  shows "resolveProfile env fs depth ref fromDir = resolveProfile env gs depth ref fromDir"
proof (induction "Suc MAX_EXTENDS - depth" arbitrary: depth ref fromDir rule: less_induct)
  case less
  have prompts: "resolvePromptText fs (le_processCwd env) (le_confineTo env) dir = resolvePromptText gs (le_processCwd env) (le_confineTo env) dir" for dir
    using prompt_same [OF assms(2)] by (intro ext) (simp add: assms(1))
  have deeper: "resolveProfile env fs (depth + 1) r d = resolveProfile env gs (depth + 1) r d" if "\<not> MAX_EXTENDS < depth" for r d
    using less [of "depth + 1" r d] that by simp
  show ?case
    by (subst (1 2) resolveProfile.simps)
      (auto simp: find_same [OF assms] read_hop_same [OF assms] prompts deeper [simplified] split: found.split sum.split)
qed


section \<open>Examples\<close>

definition bundle_env :: load_env where
  "bundle_env =
     \<lparr>le_cwd = ''/w'', le_home = ''/h'', le_processCwd = ''/w'', le_configDir = ''.yodex'', le_confineTo = Some ''/b'',
      le_builtins = [(''base'', base_profile [''permissions.defaultMode''])], le_compose = no_observer, le_yaml = (\<lambda>t. Inr JNull),
      le_schema = (\<lambda>doc. Inr bare_child)\<rparr>"

text \<open>One file, \<open>/b/hop.yaml\<close>, and whatever else there is on the machine.\<close>

definition bundle_fs :: "string \<Rightarrow> hop_fs" where
  "bundle_fs secret =
     \<lparr>fs_exists = (\<lambda>p. p \<in> {''/b'', ''/b/hop.yaml'', ''/etc/secret''}), fs_realpath = (\<lambda>p. Some p),
      fs_read = (\<lambda>p. if p = ''/b/hop.yaml'' then Inr ''name: child'' else if p = ''/etc/secret'' then Inr secret else Inl ''no such file''), fs_entries = (\<lambda>p. [])\<rparr>"


theorem builtin_lookup_inherits_witness: "loadProfile bundle_env (bundle_fs ''x'') (Some ''constructor'') = Inl (NotAProfile ''constructor'')"
  by (rule builtin_lookup_inherits) code_simp+


end
