(* ===== verification/LocalText.thy ===== *)
theory LocalText
  imports Json Sha256 "HOL-Library.Sublist"
begin

text \<open>
  The files of the local store (\<open>store/local.ts\<close>, \<open>store/blobs.ts\<close>): records one to a line, the last line read from the end, a poll of
  the lines written since, and attachments kept beside the line by their digest.  A text is its bytes.
\<close>

section \<open>Records one to a line\<close>

definition chop_nls :: "string \<Rightarrow> string" where "chop_nls s = rev (dropWhile (\<lambda>c. c = nl) (rev s))"

definition last_nl :: "string \<Rightarrow> nat option" where
  "last_nl s = map_option (\<lambda>i. length s - 1 - i) (find_index (\<lambda>c. c = nl) (rev s))"

definition filled_lines :: "string \<Rightarrow> string list" where
  "filled_lines t = filter (\<lambda>l. trim l \<noteq> []) (split_ch nl t)"

fun all_parsed :: "string list \<Rightarrow> json list option" where
  "all_parsed [] = Some []"
| "all_parsed (l # ls) = (case json_parse l of None \<Rightarrow> None | Some v \<Rightarrow> map_option ((#) v) (all_parsed ls))"

text \<open>\<open>None\<close> when a line is no JSON: the read throws.\<close>

definition readJsonl_file :: "string option \<Rightarrow> json list option" where
  "readJsonl_file file = (case file of None \<Rightarrow> Some [] | Some t \<Rightarrow> all_parsed (filled_lines t))"

definition appendJsonl_file :: "json \<Rightarrow> string option \<Rightarrow> string option" where
  "appendJsonl_file v file = Some ((case file of None \<Rightarrow> [] | Some t \<Rightarrow> t) @ json_str v @ [nl])"

section \<open>The last line\<close>

definition FIRST_CHUNK :: nat where "FIRST_CHUNK = 64 * 1024"

function last_line_in :: "nat \<Rightarrow> string \<Rightarrow> string option" where
  "last_line_in chunk t =
     (let start = length t - chunk; text = chop_nls (drop start t); cut = last_nl text
      in if cut \<noteq> None \<or> start = 0 \<or> chunk = 0 then (let l = (case cut of None \<Rightarrow> text | Some i \<Rightarrow> drop (i + 1) text) in if l = [] then None else Some l)
         else last_line_in (chunk * 4) t)"
  by pat_completeness auto
termination by (relation "measure (\<lambda>(chunk, t). length t - chunk)") auto

declare last_line_in.simps [simp del]

definition lastLine :: "string option \<Rightarrow> string option" where
  "lastLine file = (case file of None \<Rightarrow> None | Some t \<Rightarrow> if t = [] then None else last_line_in FIRST_CHUNK t)"

text \<open>The whole file read at once.\<close>

definition final_line :: "string \<Rightarrow> string option" where
  "final_line t = (if chop_nls t = [] then None else Some (last (split_ch nl (chop_nls t))))"

section \<open>Polling\<close>

fun items_of :: "(string \<Rightarrow> json option) \<Rightarrow> string list \<Rightarrow> json list" where
  "items_of onBad [] = []"
| "items_of onBad (l # ls) =
     (if trim l = [] then []
      else (case json_parse l of
              Some v \<Rightarrow> [v]
            | None \<Rightarrow> (case onBad l of Some v \<Rightarrow> [v] | None \<Rightarrow> []))) @ items_of onBad ls"

definition tailJsonl :: "(string \<Rightarrow> json option) \<Rightarrow> string option \<Rightarrow> nat \<Rightarrow> json list \<times> nat" where
  "tailJsonl onBad file cursor =
     (case file of
        None \<Rightarrow> ([], cursor)
      | Some t \<Rightarrow>
          if length t \<le> cursor then ([], cursor)
          else (case last_nl (drop cursor t) of
                  None \<Rightarrow> ([], cursor)
                | Some i \<Rightarrow> (items_of onBad (split_ch nl (take i (drop cursor t))), cursor + i + 1)))"

section \<open>Base64\<close>

definition b64_alphabet :: string where
  "b64_alphabet = ''ABCDEFGHIJKLMNOPQRSTUVWXYZabcdefghijklmnopqrstuvwxyz0123456789+/''"

definition b64_char :: "nat \<Rightarrow> char" where "b64_char n = b64_alphabet ! n"

text \<open>The reader also takes the two characters of the url alphabet, and passes over any other.\<close>

definition b64_value :: "char \<Rightarrow> nat option" where
  "b64_value c = (if c = CHR ''-'' then Some 62 else if c = CHR ''_'' then Some 63 else find_index (\<lambda>d. d = c) b64_alphabet)"

fun b64_encode :: "nat list \<Rightarrow> string" where
  "b64_encode (a # b # c # r) =
     [b64_char (a div 4), b64_char (a mod 4 * 16 + b div 16), b64_char (b mod 16 * 4 + c div 64), b64_char (c mod 64)] @ b64_encode r"
| "b64_encode [a, b] = [b64_char (a div 4), b64_char (a mod 4 * 16 + b div 16), b64_char (b mod 16 * 4), CHR ''='']"
| "b64_encode [a] = [b64_char (a div 4), b64_char (a mod 4 * 16), CHR ''='', CHR ''='']"
| "b64_encode [] = []"

fun b64_bytes :: "nat list \<Rightarrow> nat list" where
  "b64_bytes (w # x # y # z # r) = (w * 4 + x div 16) # (x mod 16 * 16 + y div 4) # (y mod 4 * 64 + z) # b64_bytes r"
| "b64_bytes [w, x, y] = [w * 4 + x div 16, x mod 16 * 16 + y div 4]"
| "b64_bytes [w, x] = [w * 4 + x div 16]"
| "b64_bytes _ = []"

definition b64_decode :: "string \<Rightarrow> nat list" where
  "b64_decode s = b64_bytes (List.map_filter b64_value (takeWhile (\<lambda>c. c \<noteq> CHR ''='') s))"

text \<open>What an encoder writes: whole groups, the last one padded, no bit set that a byte does not need.\<close>

definition six_bits :: "char \<Rightarrow> bool" where "six_bits c \<longleftrightarrow> c \<in> set b64_alphabet"

definition low_bits_clear :: "nat \<Rightarrow> char \<Rightarrow> bool" where
  "low_bits_clear m c \<longleftrightarrow> (case b64_value c of Some v \<Rightarrow> v mod m = 0 | None \<Rightarrow> False)"

fun canonical64 :: "string \<Rightarrow> bool" where
  "canonical64 [] = True"
| "canonical64 (w # x # y # z # r) =
     (six_bits w \<and> six_bits x \<and>
      (if r = [] \<and> z = CHR ''='' then (if y = CHR ''='' then low_bits_clear 16 x else six_bits y \<and> low_bits_clear 4 y)
       else six_bits y \<and> six_bits z \<and> canonical64 r))"
| "canonical64 _ = False"

lemma alphabet_value: "six_bits c \<Longrightarrow> \<exists>v. b64_value c = Some v \<and> v < 64 \<and> b64_char v = c \<and> c \<noteq> CHR ''=''"
proof -
  have "list_all (\<lambda>c. case b64_value c of Some v \<Rightarrow> v < 64 \<and> b64_char v = c \<and> c \<noteq> CHR ''='' | None \<Rightarrow> False) b64_alphabet" by code_simp
  moreover assume "six_bits c"
  ultimately show ?thesis by (auto simp: six_bits_def list_all_iff split: option.splits)
qed

lemma decode_encode_step:
  assumes "w < 64" "x < 64" "y < 64" "z < (64::nat)"
  shows "(w * 4 + x div 16) div 4 = w" "(w * 4 + x div 16) mod 4 * 16 + (x mod 16 * 16 + y div 4) div 16 = x"
    "(x mod 16 * 16 + y div 4) mod 16 * 4 + (y mod 4 * 64 + z) div 64 = y" "(y mod 4 * 64 + z) mod 64 = z"
  using assms by (simp_all add: algebra_simps)

theorem base64_canonical: "canonical64 s \<Longrightarrow> b64_encode (b64_decode s) = s"
proof (induction s rule: canonical64.induct)
  case (2 w x y z r)
  have wx: "six_bits w" "six_bits x" using 2(2) by simp_all
  obtain a where a: "b64_value w = Some a" "a < 64" "b64_char a = w" "w \<noteq> CHR ''=''" using alphabet_value [OF wx(1)] by blast
  obtain b where b: "b64_value x = Some b" "b < 64" "b64_char b = x" "x \<noteq> CHR ''=''" using alphabet_value [OF wx(2)] by blast
  show ?case
  proof (cases "r = [] \<and> z = CHR ''=''")
    case pad: True
    show ?thesis
    proof (cases "y = CHR ''=''")
      case True
      then have "b mod 16 = 0" using 2(2) pad b(1) by (simp add: low_bits_clear_def)
      then have "(a * 4 + b div 16) div 4 = a" "(a * 4 + b div 16) mod 4 * 16 = b"
        using a(2) b(2) decode_encode_step [of a b 0 0] by simp_all
      then show ?thesis using pad True a b by (simp add: b64_decode_def List.map_filter_def)
    next
      case False
      then have "six_bits y" "low_bits_clear 4 y" using 2(2) pad by simp_all
      moreover obtain c where c: "b64_value y = Some c" "c < 64" "b64_char c = y" using alphabet_value [OF \<open>six_bits y\<close>] by blast
      ultimately have "c mod 4 = 0" by (simp add: low_bits_clear_def)
      then show ?thesis using pad False a b c decode_encode_step [of a b c 0] by (simp add: b64_decode_def List.map_filter_def)
    qed
  next
    case False
    then have yz: "six_bits y" "six_bits z" "canonical64 r" using 2(2) by (simp_all split: if_splits)
    obtain c where c: "b64_value y = Some c" "c < 64" "b64_char c = y" "y \<noteq> CHR ''=''" using alphabet_value [OF yz(1)] by blast
    obtain d where d: "b64_value z = Some d" "d < 64" "b64_char d = z" "z \<noteq> CHR ''=''" using alphabet_value [OF yz(2)] by blast
    have "b64_encode (b64_decode r) = r" using 2(1) False yz(3) by blast
    then show ?thesis using a b c d decode_encode_step [of a b c d] by (simp add: b64_decode_def List.map_filter_def)
  qed
qed (simp_all add: b64_decode_def List.map_filter_def)

section \<open>Attachments beside the line\<close>

definition BLOB_THRESHOLD :: nat where "BLOB_THRESHOLD = 16 * 1024"

definition is_block :: "(string \<times> json) list \<Rightarrow> bool" where
  "is_block kvs \<longleftrightarrow> map_of kvs ''type'' \<in> {Some (JStr ''image''), Some (JStr ''document'')}"

definition is_string :: "json option \<Rightarrow> bool" where
  "is_string v \<longleftrightarrow> (case v of Some (JStr s) \<Rightarrow> True | _ \<Rightarrow> False)"

definition isBlobRef :: "json option \<Rightarrow> bool" where
  "isBlobRef v \<longleftrightarrow> (case v of Some (JObj s) \<Rightarrow> map_of s ''type'' = Some (JStr ''blob'') \<and> is_string (map_of s ''ref'') | _ \<Rightarrow> False)"

text \<open>The media type and the data of a block to store, past the threshold.\<close>

definition large_source :: "nat \<Rightarrow> (string \<times> json) list \<Rightarrow> (json option \<times> string) option" where
  "large_source threshold kvs =
     (if is_block kvs then
        (case map_of kvs ''source'' of
           Some (JObj s) \<Rightarrow>
             (case (map_of s ''type'', map_of s ''data'') of
                (Some (JStr t), Some (JStr d)) \<Rightarrow> if t = ''base64'' \<and> length d > threshold then Some (map_of s ''media_type'', d) else None
              | _ \<Rightarrow> None)
         | _ \<Rightarrow> None)
      else None)"

definition byte_text :: "nat list \<Rightarrow> string" where "byte_text bs = map (char_of :: nat \<Rightarrow> char) bs"
definition text_bytes :: "string \<Rightarrow> nat list" where "text_bytes t = map (of_char :: char \<Rightarrow> nat) t"

definition media_key :: "json option \<Rightarrow> (string \<times> json) list" where
  "media_key m = (case m of None \<Rightarrow> [] | Some v \<Rightarrow> [(''media_type'', v)])"

text \<open>The digest of the bytes, in hexadecimal.\<close>

definition blob_digest :: "string \<Rightarrow> string" where
  "blob_digest data = concat (map word_hex (foldl sha_block sha_H (chunks 64 (sha_pad (map of_char data)))))"

lemma length_blob_digest: "length (blob_digest data) = 64"
  by (simp add: blob_digest_def length_concat_words length_sha_blocks length_sha_H)

definition blob_ref :: "json option \<Rightarrow> string \<Rightarrow> json" where
  "blob_ref m data = JObj ([(''type'', JStr ''blob'')] @ media_key m @ [(''ref'', JStr (blob_digest data)), (''bytes'', JNum (int (length data)))])"

text \<open>An assignment to \<open>__proto__\<close> makes no key.\<close>

definition rebuilt :: "(string \<times> json) list \<Rightarrow> (string \<times> json) list" where
  "rebuilt kvs = filter (\<lambda>kv. fst kv \<noteq> ''__proto__'') kvs"

text \<open>The payload of the line, and what goes to files; a payload without one is returned as it is.\<close>

fun externalizeBlobs :: "nat \<Rightarrow> json \<Rightarrow> json \<times> (string \<times> string) list" where
  "externalizeBlobs threshold (JArr xs) =
     (let rs = map (externalizeBlobs threshold) xs in (JArr (map fst rs), concat (map snd rs)))"
| "externalizeBlobs threshold (JObj kvs) =
     (case large_source threshold kvs of
        Some (m, d) \<Rightarrow> (let data = byte_text (b64_decode d) in (JObj (jmap_set ''source'' (blob_ref m data) kvs), [(blob_digest data, data)]))
      | None \<Rightarrow>
          (let rs = map (map_prod id (externalizeBlobs threshold)) kvs; blobs = concat (map (\<lambda>r. snd (snd r)) rs)
           in (JObj (if blobs = [] then kvs else rebuilt (map (map_prod id fst) rs)), blobs)))"
| "externalizeBlobs threshold v = (v, [])"

definition shown_leaf :: "json option \<Rightarrow> string" where
  "shown_leaf v = (case v of None \<Rightarrow> ''undefined'' | Some (JStr s) \<Rightarrow> s | Some w \<Rightarrow> json_str w)"

definition missing_block :: "json option \<Rightarrow> (string \<times> json) list \<Rightarrow> string \<Rightarrow> json" where
  "missing_block t s ref =
     JObj [(''type'', JStr ''text''),
       (''text'', JStr (''[attachment missing: '' @ shown_leaf t @ '' '' @ shown_leaf (map_of s ''media_type'') @ '', '' @ shown_leaf (map_of s ''bytes'') @
          '' bytes, '' @ take 12 ref @ '']''))]"

definition ref_source :: "(string \<times> json) list \<Rightarrow> ((string \<times> json) list \<times> string) option" where
  "ref_source kvs =
     (if is_block kvs then
        (case map_of kvs ''source'' of
           Some (JObj s) \<Rightarrow>
             (case (map_of s ''type'', map_of s ''ref'') of
                (Some (JStr t), Some (JStr ref)) \<Rightarrow> if t = ''blob'' then Some (s, ref) else None
              | _ \<Rightarrow> None)
         | _ \<Rightarrow> None)
      else None)"

definition inline_source :: "(string \<times> json) list \<Rightarrow> string \<Rightarrow> json" where
  "inline_source s data =
     JObj ([(''type'', JStr ''base64'')] @ media_key (map_of s ''media_type'') @ [(''data'', JStr (b64_encode (text_bytes data)))])"

fun rehydrateBlobs :: "(string \<Rightarrow> string option) \<Rightarrow> json \<Rightarrow> json" where
  "rehydrateBlobs readBlob (JArr xs) = JArr (map (rehydrateBlobs readBlob) xs)"
| "rehydrateBlobs readBlob (JObj kvs) =
     (case ref_source kvs of
        Some (s, ref) \<Rightarrow>
          (case readBlob ref of
             None \<Rightarrow> missing_block (map_of kvs ''type'') s ref
           | Some data \<Rightarrow> JObj (jmap_set ''source'' (inline_source s data) kvs))
      | None \<Rightarrow> JObj (rebuilt (map (map_prod id (rehydrateBlobs readBlob)) kvs)))"
| "rehydrateBlobs readBlob v = v"

fun hasBlobRefs :: "json \<Rightarrow> bool" where
  "hasBlobRefs (JArr xs) \<longleftrightarrow> list_ex hasBlobRefs xs"
| "hasBlobRefs (JObj kvs) \<longleftrightarrow> isBlobRef (map_of kvs ''source'') \<or> list_ex (\<lambda>kv. hasBlobRefs (snd kv)) kvs"
| "hasBlobRefs v \<longleftrightarrow> False"

text \<open>A key no assignment makes is nowhere; what is stored is canonical text in a plain source.\<close>

fun plain_keys :: "json \<Rightarrow> bool" where
  "plain_keys (JArr xs) \<longleftrightarrow> list_all plain_keys xs"
| "plain_keys (JObj kvs) \<longleftrightarrow> list_all (\<lambda>kv. fst kv \<noteq> ''__proto__'' \<and> plain_keys (snd kv)) kvs"
| "plain_keys v \<longleftrightarrow> True"

fun storable :: "nat \<Rightarrow> json \<Rightarrow> bool" where
  "storable threshold (JArr xs) \<longleftrightarrow> list_all (storable threshold) xs"
| "storable threshold (JObj kvs) \<longleftrightarrow>
     (case large_source threshold kvs of
        Some (m, d) \<Rightarrow>
          canonical64 d \<and> map_of kvs ''source'' = Some (JObj ([(''type'', JStr ''base64'')] @ media_key m @ [(''data'', JStr d)]))
      | None \<Rightarrow> list_all (\<lambda>kv. storable threshold (snd kv)) kvs)"
| "storable threshold v \<longleftrightarrow> True"

lemma rebuilt_plain: "list_all (\<lambda>kv. fst kv \<noteq> ''__proto__'') kvs \<Longrightarrow> rebuilt kvs = kvs"
  by (simp add: rebuilt_def filter_id_conv list_all_iff)

lemma ref_source_isBlobRef: "ref_source kvs = Some (s, ref) \<Longrightarrow> isBlobRef (map_of kvs ''source'')"
  by (auto simp: ref_source_def isBlobRef_def is_string_def split: if_splits option.splits json.splits)

text \<open>Reading is the same with and without the shortcut for a payload that has no reference.\<close>

lemma rehydrate_plain: "\<not> hasBlobRefs v \<Longrightarrow> plain_keys v \<Longrightarrow> rehydrateBlobs st v = v"
proof (induction v rule: hasBlobRefs.induct)
  case (1 xs)
  then show ?case by (auto simp: list_ex_iff list_all_iff intro: map_idI)
next
  case (2 kvs)
  have none: "ref_source kvs = None" using 2(2) ref_source_isBlobRef by (cases "ref_source kvs") auto
  have same: "map (map_prod id (rehydrateBlobs st)) kvs = kvs"
  proof (rule map_idI)
    fix kv assume kv: "kv \<in> set kvs"
    then have "\<not> hasBlobRefs (snd kv)" "plain_keys (snd kv)" using 2(2,3) by (auto simp: list_ex_iff list_all_iff)
    then have "rehydrateBlobs st (snd kv) = snd kv" using 2(1) kv by auto
    then show "map_prod id (rehydrateBlobs st) kv = kv" by (cases kv) simp
  qed
  have "rebuilt kvs = kvs" using 2(3) by (auto intro!: rebuilt_plain simp: list_all_iff)
  then show ?case using none same by simp
qed simp_all

lemma map_of_values: "map_of (map (map_prod id f) kvs) k = map_option f (map_of kvs k)"
  by (induction kvs) auto

lemma ext_lookup: "map_of (map (map_prod id fst) (map (map_prod id (externalizeBlobs n)) kvs)) k = map_option (\<lambda>x. fst (externalizeBlobs n x)) (map_of kvs k)"
  unfolding map_of_values by (cases "map_of kvs k") simp_all

lemma b64_value_small: "b64_value c = Some v \<Longrightarrow> v < 64"
proof -
  have "length b64_alphabet = 64" by code_simp
  moreover assume "b64_value c = Some v"
  ultimately show ?thesis by (auto simp: b64_value_def split: if_splits dest: find_index_Some)
qed

lemma b64_bytes_small: "list_all (\<lambda>v. v < 64) vs \<Longrightarrow> list_all (\<lambda>b. b < 256) (b64_bytes vs)"
  by (induction vs rule: b64_bytes.induct) auto

lemma bytes_back: "text_bytes (byte_text (b64_decode d)) = b64_decode d"
proof -
  have "list_all (\<lambda>v. v < 64) (List.map_filter b64_value (takeWhile (\<lambda>c. c \<noteq> CHR ''='') d))"
    by (auto simp: list_all_iff List.map_filter_def dest: b64_value_small)
  from b64_bytes_small [OF this] have "\<forall>b \<in> set (b64_decode d). b < 256" by (simp add: b64_decode_def list_all_iff)
  then show ?thesis by (auto simp: text_bytes_def byte_text_def of_char_of intro!: map_idI)
qed

lemma jmap_set_back: "map_of m k = Some v \<Longrightarrow> jmap_set k v (jmap_set k w m) = m"
  by (induction m) auto

lemma is_block_set: "is_block (jmap_set ''source'' v kvs) = is_block kvs"
  by (simp add: is_block_def map_of_jmap_set)

lemma ext_string: "fst (externalizeBlobs n v) = JStr t \<longleftrightarrow> v = JStr t"
  by (cases v) (auto simp: Let_def split: option.splits prod.splits)

lemma ext_object:
  assumes "fst (externalizeBlobs n v) = JObj s'"
  obtains s where "v = JObj s" "\<And>k t. k \<noteq> ''source'' \<Longrightarrow> map_of s' k = Some (JStr t) \<Longrightarrow> map_of s k = Some (JStr t)"
proof (cases v)
  case (JObj s)
  have "map_of s k = Some (JStr t)" if k: "k \<noteq> ''source''" "map_of s' k = Some (JStr t)" for k t
  proof (cases "large_source n s")
    case None
    define rs where "rs = map (map_prod id (externalizeBlobs n)) s"
    have s': "s' = (if concat (map (\<lambda>r. snd (snd r)) rs) = [] then s else rebuilt (map (map_prod id fst) rs))"
      using assms unfolding JObj externalizeBlobs.simps None option.case Let_def rs_def [symmetric] fst_conv by simp
    show ?thesis
    proof (cases "concat (map (\<lambda>r. snd (snd r)) rs) = []")
      case True
      then show ?thesis using s' k by auto
    next
      case False
      then have "s' = rebuilt (map (map_prod id fst) rs)" unfolding s' by (simp only: if_False)
      then have kv: "map_of (rebuilt (map (map_prod id fst) rs)) k = Some (JStr t)" using k by simp
      have "k \<noteq> ''__proto__''"
      proof
        assume "k = ''__proto__''"
        with kv show False by (auto simp: rebuilt_def dest!: map_of_SomeD)
      qed
      then have "map_of (rebuilt m) k = map_of m k" for m :: "(string \<times> json) list" by (induction m) (auto simp: rebuilt_def)
      then have "map_of (map (map_prod id fst) rs) k = Some (JStr t)" using kv by simp
      then show ?thesis unfolding rs_def ext_lookup by (auto simp: ext_string)
    qed
  next
    case (Some md)
    obtain m d where md: "md = (m, d)" by (cases md) auto
    then have "s' = jmap_set ''source'' (blob_ref m (byte_text (b64_decode d))) s" using assms by (simp add: JObj Some Let_def)
    then show ?thesis using k by (simp add: map_of_jmap_set)
  qed
  with JObj that show ?thesis by blast
qed (use assms in \<open>auto simp: Let_def\<close>)

lemma ext_isBlobRef: "isBlobRef (Some (fst (externalizeBlobs n v))) \<Longrightarrow> isBlobRef (Some v)"
proof -
  assume r: "isBlobRef (Some (fst (externalizeBlobs n v)))"
  then obtain s' where s': "fst (externalizeBlobs n v) = JObj s'" by (auto simp: isBlobRef_def split: json.splits)
  from s' obtain s where s: "v = JObj s" "\<And>k t. k \<noteq> ''source'' \<Longrightarrow> map_of s' k = Some (JStr t) \<Longrightarrow> map_of s k = Some (JStr t)"
    by (rule ext_object) blast
  from r obtain d where "map_of s' ''type'' = Some (JStr ''blob'')" "map_of s' ''ref'' = Some (JStr d)"
    by (auto simp: isBlobRef_def is_string_def s' split: option.splits json.splits)
  then have "map_of s ''type'' = Some (JStr ''blob'')" "map_of s ''ref'' = Some (JStr d)" using s(2) by simp_all
  then show ?thesis by (simp add: isBlobRef_def is_string_def s(1))
qed

lemma large_source_blocks: "large_source n kvs = Some (m, d) \<Longrightarrow> is_block kvs"
  by (simp add: large_source_def split: if_splits)

text \<open>A payload whose large attachments are plain base64 is read back exactly as it was appended, once the files written beside the line hold
  what was written to them.\<close>

theorem attachment_roundtrip:
  assumes "\<not> hasBlobRefs v" "plain_keys v" "storable n v" "list_all (\<lambda>rd. st (fst rd) = Some (snd rd)) (snd (externalizeBlobs n v))"
  shows "rehydrateBlobs st (fst (externalizeBlobs n v)) = v"
  using assms
proof (induction v rule: hasBlobRefs.induct)
  case (1 xs)
  have "rehydrateBlobs st (fst (externalizeBlobs n x)) = x" if "x \<in> set xs" for x
    using 1 that by (auto simp: list_ex_iff list_all_iff Let_def)
  then show ?case by (auto simp: Let_def intro!: map_idI)
next
  case (2 kvs)
  show ?case
  proof (cases "large_source n kvs")
    case (Some md)
    obtain m d where md: "md = (m, d)" by (cases md) auto
    define data where "data = byte_text (b64_decode d)"
    have st: "st (blob_digest data) = Some data" using 2(5) by (simp add: Some md Let_def data_def)
    have src: "map_of kvs ''source'' = Some (JObj ([(''type'', JStr ''base64'')] @ media_key m @ [(''data'', JStr d)]))" and can: "canonical64 d"
      using 2(4) by (simp_all add: Some md)
    let ?s = "[(''type'', JStr ''blob'')] @ media_key m @ [(''ref'', JStr (blob_digest data)), (''bytes'', JNum (int (length data)))]"
    have look: "map_of ?s ''ref'' = Some (JStr (blob_digest data))" "map_of ?s ''media_type'' = m" "map_of ?s ''type'' = Some (JStr ''blob'')"
      by (auto simp: media_key_def split: option.splits)
    have "ref_source (jmap_set ''source'' (blob_ref m data) kvs) = Some (?s, blob_digest data)"
      using large_source_blocks [OF Some [unfolded md]] look by (simp add: ref_source_def is_block_set map_of_jmap_set blob_ref_def)
    moreover have "inline_source ?s data = JObj ([(''type'', JStr ''base64'')] @ media_key m @ [(''data'', JStr d)])"
      using base64_canonical [OF can] look(2) by (simp add: inline_source_def data_def bytes_back)
    ultimately show ?thesis using st jmap_set_back [OF src] by (simp add: Some md Let_def data_def)
  next
    case None
    define rs where "rs = map (map_prod id (externalizeBlobs n)) kvs"
    define blobs where "blobs = concat (map (\<lambda>r. snd (snd r)) rs)"
    have ext: "externalizeBlobs n (JObj kvs) = (JObj (if blobs = [] then kvs else rebuilt (map (map_prod id fst) rs)), blobs)"
      by (simp add: None Let_def rs_def blobs_def)
    show ?thesis
    proof (cases "blobs = []")
      case True
      then show ?thesis using ext rehydrate_plain [OF 2(2,3)] by simp
    next
      case False
      have plain: "list_all (\<lambda>kv. fst kv \<noteq> ''__proto__'') (map (map_prod id fst) rs)" using 2(3) by (auto simp: rs_def list_all_iff)
      have none: "ref_source (map (map_prod id fst) rs) = None"
      proof (rule ccontr)
        assume "ref_source (map (map_prod id fst) rs) \<noteq> None"
        then have "isBlobRef (map_of (map (map_prod id fst) rs) ''source'')" using ref_source_isBlobRef by fastforce
        moreover have "map_of (map (map_prod id fst) rs) ''source'' = map_option (\<lambda>x. fst (externalizeBlobs n x)) (map_of kvs ''source'')"
          unfolding rs_def by (rule ext_lookup)
        ultimately have "isBlobRef (map_of kvs ''source'')" by (cases "map_of kvs ''source''") (auto dest: ext_isBlobRef)
        then show False using 2(2) by simp
      qed
      have "map_prod id (rehydrateBlobs st) (map_prod id fst (map_prod id (externalizeBlobs n) kv)) = kv" if kv: "kv \<in> set kvs" for kv
      proof -
        have "\<not> hasBlobRefs (snd kv)" "plain_keys (snd kv)" "storable n (snd kv)" using 2(2,3,4) kv None by (auto simp: list_ex_iff list_all_iff)
        moreover have "list_all (\<lambda>rd. st (fst rd) = Some (snd rd)) (snd (externalizeBlobs n (snd kv)))"
          using 2(5) kv unfolding ext blobs_def rs_def by (cases kv) (force simp: list_all_iff)
        ultimately have "rehydrateBlobs st (fst (externalizeBlobs n (snd kv))) = snd kv" using 2(1) kv by blast
        then show ?thesis by (cases kv) simp
      qed
      then have "map (map_prod id (rehydrateBlobs st)) (map (map_prod id fst) rs) = kvs" by (auto simp: rs_def intro!: map_idI)
      moreover have "rebuilt kvs = kvs" using 2(3) by (auto intro!: rebuilt_plain simp: list_all_iff)
      ultimately show ?thesis using ext False none rebuilt_plain [OF plain] by simp
    qed
  qed
qed simp_all

definition picture :: "string \<Rightarrow> json" where
  "picture d = JObj [(''type'', JStr ''image''), (''source'', JObj [(''type'', JStr ''base64''), (''media_type'', JStr ''image/png''), (''data'', JStr d)])]"

lemma three_bytes: "b64_decode ''QUJD'' = [65, 66, 67]" "b64_decode (''QU'' @ [nl] @ ''JD'') = [65, 66, 67]" "b64_encode [65, 66, 67] = ''QUJD''" "canonical64 ''QUJD''"
  by code_simp+

theorem attachment_roundtrip_witness:
  "rehydrateBlobs (map_of (snd (externalizeBlobs 3 (picture ''QUJD'')))) (fst (externalizeBlobs 3 (picture ''QUJD''))) = picture ''QUJD''"
  by (rule attachment_roundtrip)
    (simp_all add: picture_def isBlobRef_def large_source_def is_block_def three_bytes media_key_def Let_def del: canonical64.simps)

text \<open>C0 wrapped_base64_altered. An attachment whose base64 has a line break, as some clients send it, is not read back as it was: the break is gone.\<close>

theorem wrapped_base64_altered:
  "rehydrateBlobs (map_of (snd (externalizeBlobs 3 (picture (''QU'' @ [nl] @ ''JD''))))) (fst (externalizeBlobs 3 (picture (''QU'' @ [nl] @ ''JD'')))) = picture ''QUJD''"
proof -
  have bytes: "text_bytes (byte_text [65, 66, 67]) = [65, 66, 67]" by code_simp
  show ?thesis
    using three_bytes bytes
    by (simp add: picture_def large_source_def is_block_def media_key_def Let_def blob_ref_def ref_source_def inline_source_def)
qed

section \<open>Reading the last line from the end\<close>

lemma last_nl_None: "last_nl s = None \<longleftrightarrow> nl \<notin> set s"
  by (auto simp: last_nl_def find_index_None)

lemma find_index_first: "\<forall>x \<in> set b. \<not> P x \<Longrightarrow> P y \<Longrightarrow> find_index P (b @ y # a) = Some (length b)"
  by (induction b) auto

lemma last_nl_at: "nl \<notin> set b \<Longrightarrow> last_nl (a @ nl # b) = Some (length a)"
  using find_index_first [of "rev b" "\<lambda>c. c = nl" nl "rev a"] by (force simp: last_nl_def)

lemma last_nl_Some:
  assumes "last_nl s = Some i"
  obtains a b where "s = a @ nl # b" "nl \<notin> set b" "i = length a"
proof -
  have "nl \<in> set s" using assms last_nl_None [of s] by auto
  then obtain a b where "s = a @ nl # b" "nl \<notin> set b" using split_list_last [of nl s] by blast
  with that last_nl_at assms show ?thesis by auto
qed

lemma chop_append: "chop_nls (a @ b) = (if chop_nls b = [] then chop_nls a else a @ chop_nls b)"
  by (auto simp: chop_nls_def dropWhile_append)

lemma chop_last: "chop_nls s \<noteq> x @ [nl]"
proof
  assume "chop_nls s = x @ [nl]"
  then have e: "dropWhile (\<lambda>c. c = nl) (rev s) = nl # rev x" by (simp add: chop_nls_def rev_swap)
  have "hd (dropWhile (\<lambda>c. c = nl) (rev s)) \<noteq> nl" by (rule hd_dropWhile) (simp add: e)
  then show False by (simp add: e)
qed

lemma split_once: "split_ch c (a @ c # b) = split_ch c a @ split_ch c b"
proof (induction a)
  case (Cons x a)
  then show ?case by (cases "split_ch c a") (auto split: list.splits)
qed simp

lemma split_none: "c \<notin> set a \<Longrightarrow> split_ch c a = [a]"
  by (induction a) auto

lemma last_split: "c \<notin> set b \<Longrightarrow> last (split_ch c (a @ c # b)) = b"
  by (simp add: split_once split_none)

lemma last_line_from: "0 < chunk \<Longrightarrow> last_line_in chunk t = final_line t"
proof (induction chunk t rule: last_line_in.induct)
  case (1 chunk t)
  define start where "start = length t - chunk"
  define piece where "piece = chop_nls (drop start t)"
  have whole: "chop_nls t = (if piece = [] then chop_nls (take start t) else take start t @ piece)"
    using chop_append [of "take start t" "drop start t"] by (simp add: piece_def)
  note step = last_line_in.simps [of chunk t, folded start_def, unfolded Let_def, folded piece_def]
  show ?case
  proof (cases "last_nl piece")
    case None
    show ?thesis
    proof (cases "start = 0")
      case True
      then have "chop_nls t = piece" by (simp add: piece_def)
      moreover have "split_ch nl piece = [piece]" using None by (intro split_none) (simp add: last_nl_None)
      ultimately show ?thesis using None True by (simp add: step final_line_def)
    next
      case False
      then have "last_line_in (chunk * 4) t = final_line t" using 1(1) [OF start_def piece_def refl] 1(2) None by simp
      then show ?thesis using None False 1(2) by (simp add: step)
    qed
  next
    case (Some i)
    then obtain a b where cut: "piece = a @ nl # b" "nl \<notin> set b" "i = length a" by (rule last_nl_Some)
    have "b \<noteq> []" using chop_last [of "drop start t" a] cut(1) by (auto simp: piece_def)
    moreover have "last (split_ch nl (take start t @ piece)) = b"
      using last_split [OF cut(2), of "take start t @ a"] by (simp add: cut(1))
    ultimately show ?thesis using Some whole cut by (simp add: step final_line_def)
  qed
qed

lemma lastLine_final: "lastLine (Some t) = final_line t"
proof (cases "t = []")
  case True
  then show ?thesis by (simp add: lastLine_def final_line_def chop_nls_def)
next
  case False
  then show ?thesis using last_line_from [of FIRST_CHUNK t] by (simp add: lastLine_def FIRST_CHUNK_def)
qed

text \<open>Reading a file from its end in growing chunks gives the last line of the whole file, however long its lines are.\<close>

theorem last_line_is_last: "lastLine (Some t) = final_line t"
  by (rule lastLine_final)

section \<open>A poll\<close>

lemma items_append: "items_of onBad (xs @ ys) = items_of onBad xs @ items_of onBad ys"
  by (induction xs) auto

text \<open>A read and what it leaves for the next.\<close>

lemma tail_at: "c < length t \<Longrightarrow> drop c t = a @ nl # b \<Longrightarrow> nl \<notin> set b \<Longrightarrow> tailJsonl onBad (Some t) c = (items_of onBad (split_ch nl a), c + length a + 1)"
  by (simp add: tailJsonl_def last_nl_at)

lemma tail_twice:
  assumes "tailJsonl onBad (Some t) c = (xs, c1)" "tailJsonl onBad (Some (t @ u)) c1 = (ys, c2)"
  shows "tailJsonl onBad (Some (t @ u)) c = (xs @ ys, c2)"
proof (cases "length t \<le> c \<or> last_nl (drop c t) = None")
  case True
  then show ?thesis using assms by (auto simp: tailJsonl_def split: if_splits)
next
  case False
  then have c: "c < length t" by simp
  obtain a b where d: "drop c t = a @ nl # b" "nl \<notin> set b" using False by (auto elim: last_nl_Some)
  have xs: "xs = items_of onBad (split_ch nl a)" "c1 = c + length a + 1" using assms(1) tail_at [OF c d] by simp_all
  have whole: "drop c (t @ u) = a @ nl # b @ u" "c < length (t @ u)" using c d(1) by simp_all
  have rest: "drop c1 (t @ u) = b @ u"
  proof -
    have "drop c1 (t @ u) = drop (length a + 1) (drop c (t @ u))" by (simp add: xs(2) ac_simps del: drop_append)
    moreover have "drop (length a + 1) (a @ nl # b @ u) = b @ u" by simp
    ultimately show ?thesis by (simp only: whole(1))
  qed
  show ?thesis
  proof (cases "last_nl (b @ u)")
    case None
    then have "ys = []" "c2 = c1" using assms(2) rest by (auto simp: tailJsonl_def split: if_splits)
    then show ?thesis using tail_at [OF whole(2,1)] None xs by (simp add: last_nl_None)
  next
    case (Some j)
    then obtain p q where pq: "b @ u = p @ nl # q" "nl \<notin> set q" by (rule last_nl_Some)
    have "c1 < length (t @ u)"
    proof (rule ccontr)
      assume "\<not> c1 < length (t @ u)"
      then have "drop c1 (t @ u) = []" by simp
      then show False using rest pq(1) by simp
    qed
    then have ys: "ys = items_of onBad (split_ch nl p)" "c2 = c1 + length p + 1"
      using tail_at [of c1 "t @ u" p q onBad] rest pq assms(2) by simp_all
    have "drop c (t @ u) = (a @ nl # p) @ nl # q" using whole(1) pq(1) by simp
    from tail_at [OF whole(2) this pq(2), of onBad] show ?thesis
      by (simp add: split_once items_append xs ys)
  qed
qed

text \<open>A reader that polls a growing file, keeping its cursor.\<close>

fun polls :: "(string \<Rightarrow> json option) \<Rightarrow> string list \<Rightarrow> nat \<Rightarrow> json list \<times> nat" where
  "polls onBad [] c = ([], c)"
| "polls onBad (t # ts) c =
     (let (xs, c1) = tailJsonl onBad (Some t) c; (ys, c2) = polls onBad ts c1 in (xs @ ys, c2))"



end
