(* ===== verification/LocalStore.thy ===== *)
theory LocalStore
  imports LocalText AppendQueue
begin

text \<open>
  The local store (\<open>store/local.ts\<close>): the conversation over the append queue, the log channels, the session records with their chain of
  writes, and the mailbox.  What one process does between two awaits is one step; a file is its text, a record its keys.
\<close>

section \<open>The conversation\<close>

record stored_entry =
  se_uuid :: string
  se_parent :: "string option"
  se_ts :: string
  se_payload :: json

definition entry_json :: "stored_entry \<Rightarrow> json" where
  "entry_json e =
     JObj [(''uuid'', JStr (se_uuid e)), (''parentUuid'', case se_parent e of None \<Rightarrow> JNull | Some p \<Rightarrow> JStr p), (''ts'', JStr (se_ts e)),
           (''payload'', se_payload e)]"

definition entry_line :: "nat \<Rightarrow> stored_entry \<Rightarrow> string" where
  "entry_line threshold e =
     (let (p, blobs) = externalizeBlobs threshold (se_payload e)
      in json_str (entry_json (if blobs = [] then e else e\<lparr>se_payload := p\<rparr>)))"

record local_conversation =
  lc_queue :: append_queue
  lc_heads :: "(string, string option) jmap"

definition conversation_file :: "string \<Rightarrow> string \<Rightarrow> string" where
  "conversation_file dir sid = dir @ ''/'' @ sid @ ''.jsonl''"

definition blob_file :: "string \<Rightarrow> string \<Rightarrow> string \<Rightarrow> string" where
  "blob_file dir sid ref = dir @ ''/'' @ sid @ ''.blobs/'' @ ref"

definition append_stored :: "string \<Rightarrow> string \<Rightarrow> string \<Rightarrow> stored_entry \<Rightarrow> local_conversation \<Rightarrow> local_conversation" where
  "append_stored dir now sid e c =
     (let blobs = snd (externalizeBlobs BLOB_THRESHOLD (se_payload e));
          q = fold (\<lambda>b. pushFile (blob_file dir sid (fst b)) (snd b)) blobs (lc_queue c)
      in c\<lparr>lc_queue := push_line now (conversation_file dir sid) (entry_line BLOB_THRESHOLD e) q,
           lc_heads := jmap_set sid (Some (se_uuid e)) (lc_heads c)\<rparr>)"

definition rehydrated :: "(string \<Rightarrow> string option) \<Rightarrow> json \<Rightarrow> json" where
  "rehydrated readBlob e =
     (case e of
        JObj kvs \<Rightarrow>
          (case map_of kvs ''payload'' of
             Some p \<Rightarrow> if hasBlobRefs p then JObj (jmap_set ''payload'' (rehydrateBlobs readBlob p) kvs) else e
           | None \<Rightarrow> e)
      | _ \<Rightarrow> e)"

text \<open>The read of a flushed file; \<open>None\<close> when it throws.\<close>

definition read_entries :: "(string \<Rightarrow> string option) \<Rightarrow> string option \<Rightarrow> json list option" where
  "read_entries readBlob file = map_option (map (rehydrated readBlob)) (readJsonl_file file)"

definition tail_entries :: "string option \<Rightarrow> nat \<Rightarrow> json list \<times> nat" where
  "tail_entries file cursor = tailJsonl (\<lambda>l. None) file cursor"

definition head_entry :: "string option \<Rightarrow> string \<Rightarrow> local_conversation \<Rightarrow> string option \<times> local_conversation" where
  "head_entry file sid c =
     (case map_of (lc_heads c) sid of
        Some h \<Rightarrow> (h, c)
      | None \<Rightarrow>
          (let h = (case lastLine file of
                      None \<Rightarrow> None
                    | Some l \<Rightarrow> (case json_parse l of Some v \<Rightarrow> (case jget ''uuid'' v of Some (JStr u) \<Rightarrow> Some u | _ \<Rightarrow> None) | None \<Rightarrow> None))
           in (h, c\<lparr>lc_heads := jmap_set sid h (lc_heads c)\<rparr>)))"

section \<open>The log channels\<close>

definition log_line :: "string \<Rightarrow> (string \<times> json) list \<Rightarrow> string" where
  "log_line now kvs = json_str (JObj (fold (\<lambda>kv. jmap_set (fst kv) (snd kv)) kvs [(''ts'', JStr now)]))"

definition log_write :: "bool \<Rightarrow> string \<Rightarrow> string \<Rightarrow> (string \<times> json) list \<Rightarrow> append_queue \<Rightarrow> append_queue" where
  "log_write on now file kvs q = (if on then push_line now file (log_line now kvs) q else q)"

definition log_read :: "bool \<Rightarrow> string option \<Rightarrow> json list option" where
  "log_read on file = (if on then readJsonl_file file else Some [])"

definition unparseable :: "string \<Rightarrow> json option" where
  "unparseable l = Some (JObj [(''kind'', JStr ''store.unparseable''), (''bytes'', JNum (int (length l)))])"

definition log_tail :: "bool \<Rightarrow> string option \<Rightarrow> nat \<Rightarrow> json list \<times> nat" where
  "log_tail on file cursor = (if on then tailJsonl unparseable file cursor else ([], cursor))"

section \<open>The file a queue has written\<close>

definition written_text :: "string \<Rightarrow> append_queue \<Rightarrow> string" where
  "written_text f q = concat (map (\<lambda>e. join [nl] (snd e) @ [nl]) (filter (\<lambda>e. fst e = f) (aq_disk q)))"

definition file_of :: "string \<Rightarrow> append_queue \<Rightarrow> string option" where
  "file_of f q = (if f \<in> fst ` set (aq_disk q) then Some (written_text f q) else None)"

definition disk_filled :: "append_queue \<Rightarrow> bool" where
  "disk_filled q \<longleftrightarrow> (\<forall>e \<in> set (aq_disk q). snd e \<noteq> [])"

lemma disk_filled_simps [simp]:
  "disk_filled (schedule q) = disk_filled q" "disk_filled (push_line ts file line q) = disk_filled q" "disk_filled (pushFile file data q) = disk_filled q"
  "disk_filled (timer_drains q) = disk_filled q" "disk_filled (flush_begin q) = disk_filled q"
  by (auto simp: disk_filled_def push_line_def shed_def pushFile_def timer_drains_def flush_begin_def drain_begin_def Let_def split: option.splits)

lemma disk_filled_drain:
  "disk_filled q \<Longrightarrow> (case aq_drain q of Appending b \<Rightarrow> \<forall>e \<in> set b. entry_ok e | _ \<Rightarrow> True) \<Longrightarrow> disk_filled (drain_step ok q)"
  by (auto simp: disk_filled_def drain_step_def Let_def entry_ok_def split: drain_phase.splits list.splits prod.splits)

lemma runs_filled: "queue_run_step\<^sup>*\<^sup>* (init_queue_run a b) r \<Longrightarrow> disk_filled (qr_queue r)"
proof (induction rule: rtranclp_induct)
  case base
  then show ?case by (simp add: disk_filled_def init_queue_run_def new_queue_def)
next
  case (step r r')
  have "order_inv r" using queue_runs.run_inv [OF step(1) order_inv_init] .
  then have "case aq_drain (qr_queue r) of Appending b \<Rightarrow> \<forall>e \<in> set b. entry_ok e | _ \<Rightarrow> True"
    by (auto simp: order_inv_def split: drain_phase.splits)
  with step(2,3) show ?case by (auto elim!: queue_run_step.cases intro: disk_filled_drain)
qed

lemma join_lines: "ls \<noteq> [] \<Longrightarrow> join [c] ls @ [c] = concat (map (\<lambda>l. l @ [c]) ls)"
proof (induction ls)
  case (Cons l ls)
  then show ?case by (cases ls) simp_all
qed simp

lemma lines_append: "concat (map (\<lambda>l. l @ [c]) (concat (map snd es))) = concat (map (\<lambda>e. concat (map (\<lambda>l. l @ [c]) (snd e))) es)"
  by (induction es) auto

lemma written_lines: "disk_filled q \<Longrightarrow> written_text f q = concat (map (\<lambda>l. l @ [nl]) (disk_lines f q))"
  unfolding written_text_def disk_lines_def disk_filled_def lines_append
  by (intro arg_cong [where f = concat] map_cong refl) (auto simp: join_lines)

section \<open>A conversation is read as it was written\<close>

lemma nl_join: "nl \<notin> set sep \<Longrightarrow> \<forall>x \<in> set xs. nl \<notin> set x \<Longrightarrow> nl \<notin> set (join sep xs)"
  by (induction sep xs rule: join.induct) auto

lemma nl_quote: "nl \<notin> set (json_quote s)"
proof -
  have "nl \<notin> set (json_esc c)" for c
  proof -
    have "hex_digit n \<noteq> nl" if "n < 16" for n
    proof -
      have "list_all (\<lambda>n. hex_digit n \<noteq> nl) [0..<16]" by code_simp
      with that show ?thesis by (auto simp: list_all_iff)
    qed
    then have "hex_digit (of_char c div 16) \<noteq> nl" "hex_digit (of_char c mod 16) \<noteq> nl" if "(of_char c :: nat) < 32"
      using that by (simp_all add: div_less_iff_less_mult)
    then show ?thesis by (auto simp: json_esc_def)
  qed
  then show ?thesis by (auto simp: json_quote_def)
qed

lemma nl_int: "nl \<notin> set (int_str n)"
  using nat_str_digits [of "nat n"] nat_str_digits [of "nat (- n)"] by (auto simp: int_str_def list_all_iff dest!: bspec [where x = nl]) (simp_all add: is_digit_def)

lemma nl_json: "printable P v \<Longrightarrow> nl \<notin> set (json_str v)"
proof (induction v rule: json_str.induct)
  case (6 xs)
  then show ?case by (auto simp: list_all_iff dest!: nl_join [THEN notE, rotated 2, where sep1 = "'',''"])
next
  case (7 kvs)
  have "nl \<notin> set (json_quote k @ '':'' @ json_str v)" if "(k, v) \<in> set kvs" for k v
    using 7 that by (auto simp: list_all_iff nl_quote)
  then have "nl \<notin> set (join '','' (map (\<lambda>(k, v). json_quote k @ '':'' @ json_str v) kvs))" by (intro nl_join) auto
  then show ?case by simp
qed (auto simp: nl_quote nl_int)

definition clean_payload :: "nat \<Rightarrow> json \<Rightarrow> bool" where
  "clean_payload n v \<longleftrightarrow> \<not> hasBlobRefs v \<and> plain_keys v \<and> storable n v \<and> printable (\<lambda>s. True) v"

definition stored_payload :: "nat \<Rightarrow> json \<Rightarrow> json" where
  "stored_payload n v = (let (p, blobs) = externalizeBlobs n v in if blobs = [] then v else p)"

lemma entry_line_eq: "entry_line n e = json_str (entry_json (e\<lparr>se_payload := stored_payload n (se_payload e)\<rparr>))"
  by (simp add: entry_line_def stored_payload_def Let_def split: prod.split)

lemma keys_set: "list_all P (jmap_set k v kvs) \<longleftrightarrow> (if k \<in> set (map fst kvs) then list_all P (jmap_set k v kvs) else P (k, v) \<and> list_all P kvs)"
  by (induction kvs) auto

lemma all_jmap_set: "list_all P kvs \<Longrightarrow> P (k, v) \<Longrightarrow> list_all P (jmap_set k v kvs)"
  by (induction kvs) auto

lemma all_media: "map_of s ''media_type'' = m \<Longrightarrow> list_all P s \<Longrightarrow> list_all P (media_key m)"
  by (cases m) (auto simp: media_key_def list_all_iff dest!: map_of_SomeD)

lemma large_media:
  assumes "large_source n kvs = Some (m, d)"
  obtains s where "map_of kvs ''source'' = Some (JObj s)" "map_of s ''media_type'' = m"
  using assms by (auto simp: large_source_def split: if_splits option.splits json.splits)

lemma ext_printable: "printable (\<lambda>s. True) v \<Longrightarrow> printable (\<lambda>s. True) (fst (externalizeBlobs n v))"
proof (induction n v rule: externalizeBlobs.induct)
  case (1 n xs)
  then show ?case by (auto simp: Let_def list_all_iff)
next
  case (2 n kvs)
  show ?case
  proof (cases "large_source n kvs")
    case None
    have kv: "printable (\<lambda>s. True) (fst (externalizeBlobs n (snd kv)))" if "kv \<in> set kvs" for kv
      using 2(1) [OF None that] 2(2) that by (cases kv) (auto simp: list_all_iff)
    show ?thesis unfolding externalizeBlobs.simps None option.case Let_def
      using 2(2) kv by (auto simp: list_all_iff rebuilt_def)
  next
    case (Some md)
    then obtain m d where md: "large_source n kvs = Some (m, d)" by (cases md) auto
    then obtain s where s: "map_of kvs ''source'' = Some (JObj s)" "map_of s ''media_type'' = m" by (rule large_media)
    have "printable (\<lambda>s. True) (snd (''source'', JObj s))" using 2(2) map_of_SomeD [OF s(1)] unfolding printable.simps list_all_iff by blast
    then have "list_all (\<lambda>kv. printable (\<lambda>s. True) (snd kv)) s" by (simp add: list_all_iff)
    from all_media [OF s(2) this] have "printable (\<lambda>s. True) (blob_ref m data)" for data by (simp add: blob_ref_def)
    then show ?thesis using 2(2) by (simp add: md Let_def all_jmap_set)
  qed
qed simp_all

lemma ext_plain: "plain_keys v \<Longrightarrow> plain_keys (fst (externalizeBlobs n v))"
proof (induction n v rule: externalizeBlobs.induct)
  case (1 n xs)
  then show ?case by (auto simp: Let_def list_all_iff)
next
  case (2 n kvs)
  show ?case
  proof (cases "large_source n kvs")
    case None
    have kv: "plain_keys (fst (externalizeBlobs n (snd kv)))" if "kv \<in> set kvs" for kv
      using 2(1) [OF None that] 2(2) that by (cases kv) (auto simp: list_all_iff)
    show ?thesis unfolding externalizeBlobs.simps None option.case Let_def
      using 2(2) kv by (auto simp: list_all_iff rebuilt_def)
  next
    case (Some md)
    then obtain m d where md: "large_source n kvs = Some (m, d)" by (cases md) auto
    then obtain s where s: "map_of kvs ''source'' = Some (JObj s)" "map_of s ''media_type'' = m" by (rule large_media)
    have "plain_keys (snd (''source'', JObj s))" using 2(2) map_of_SomeD [OF s(1)] unfolding plain_keys.simps list_all_iff by blast
    then have "list_all (\<lambda>kv. fst kv \<noteq> ''__proto__'' \<and> plain_keys (snd kv)) s" by simp
    from all_media [OF s(2) this] have "plain_keys (blob_ref m data)" for data by (simp add: blob_ref_def)
    then show ?thesis using 2(2) by (simp add: md Let_def all_jmap_set)
  qed
qed simp_all

text \<open>An entry of the file is the entry it was.\<close>

lemma entry_back:
  assumes "clean_payload n (se_payload e)" "list_all (\<lambda>rd. st (fst rd) = Some (snd rd)) (snd (externalizeBlobs n (se_payload e)))"
  shows "rehydrated st (entry_json (e\<lparr>se_payload := stored_payload n (se_payload e)\<rparr>)) = entry_json e"
proof -
  let ?v = "se_payload e" and ?p = "stored_payload n (se_payload e)"
  have p: "?p = ?v \<or> ?p = fst (externalizeBlobs n ?v)" by (simp add: stored_payload_def split: prod.split)
  have same: "rehydrateBlobs st ?p = ?v"
    using p attachment_roundtrip [of ?v n st] rehydrate_plain [of ?v st] assms by (auto simp: clean_payload_def)
  have "plain_keys ?p" using p ext_plain assms(1) by (auto simp: clean_payload_def)
  then have "\<not> hasBlobRefs ?p \<Longrightarrow> ?p = ?v" using rehydrate_plain [of ?p st] same by simp
  then show ?thesis using same by (cases e) (auto simp: rehydrated_def entry_json_def)
qed

lemma line_filled: "trim (json_str (entry_json e)) \<noteq> []"
proof -
  obtain r where "json_str (entry_json e) = CHR ''{'' # r" by (simp add: entry_json_def)
  moreover have "\<not> is_ws CHR ''{''" by (simp add: is_ws_def)
  ultimately show ?thesis by (simp add: trim_def trimStart_def trimEnd_def dropWhile_eq_Nil_conv)
qed

lemma filled_concat: "\<forall>l \<in> set ls. nl \<notin> set l \<and> trim l \<noteq> [] \<Longrightarrow> filled_lines (concat (map (\<lambda>l. l @ [nl]) ls)) = ls"
proof (induction ls)
  case Nil
  then show ?case by (simp add: filled_lines_def trim_def trimStart_def trimEnd_def)
next
  case (Cons l ls)
  then show ?case using split_once [of nl l "concat (map (\<lambda>l. l @ [nl]) ls)"] by (simp add: filled_lines_def split_none)
qed

lemma parse_all: "\<forall>v \<in> set vs. printable (\<lambda>s. True) v \<Longrightarrow> all_parsed (map json_str vs) = Some vs"
  by (induction vs) (simp_all add: json_parse_str)

text \<open>What the queue was given for a file is read back from it, entry for entry, once it has drained.\<close>

lemma queue_reload:
  assumes run: "queue_run_step\<^sup>*\<^sup>* (init_queue_run a b) r" "aq_dropped (qr_queue r) = 0" "aq_failures (qr_queue r) = 0"
    and flushed: "aq_drain (qr_queue r) = Idle" "aq_pending (qr_queue r) = []"
    and pushed: "pushed_lines f (qr_pushed r) = map (entry_line n) es"
    and clean: "list_all (\<lambda>e. clean_payload n (se_payload e)) es"
    and blobs: "list_all (\<lambda>e. list_all (\<lambda>rd. st (fst rd) = Some (snd rd)) (snd (externalizeBlobs n (se_payload e)))) es"
  shows "read_entries st (file_of f (qr_queue r)) = Some (map entry_json es)"
proof -
  let ?stored = "\<lambda>e. entry_json (e\<lparr>se_payload := stored_payload n (se_payload e)\<rparr>)"
  have trace: "line_trace f (qr_queue r) = pushed_lines f (qr_pushed r)"
    using queue_runs.run_inv [OF run(1) order_inv_init] run(2,3) by (simp add: order_inv_def)
  have disk: "disk_lines f (qr_queue r) = map (\<lambda>e. json_str (?stored e)) es"
    using trace pushed flushed by (simp add: line_trace_def inflight_lines_def entry_line_eq)
  have print: "printable (\<lambda>s. True) (?stored e)" if "e \<in> set es" for e
  proof -
    have "printable (\<lambda>s. True) (se_payload e)" using clean that by (auto simp: list_all_iff clean_payload_def)
    then have "printable (\<lambda>s. True) (stored_payload n (se_payload e))" using ext_printable by (auto simp: stored_payload_def split: prod.split) (metis fst_conv)
    then show ?thesis by (simp add: entry_json_def split: option.split)
  qed
  have lines: "filled_lines (written_text f (qr_queue r)) = map (\<lambda>e. json_str (?stored e)) es"
    unfolding written_lines [OF runs_filled [OF run(1)]] disk
    by (rule filled_concat) (use nl_json [OF print] line_filled in auto)
  have "readJsonl_file (file_of f (qr_queue r)) = Some (map ?stored es)"
  proof (cases "f \<in> fst ` set (aq_disk (qr_queue r))")
    case True
    then show ?thesis using parse_all [of "map ?stored es"] print by (simp add: file_of_def readJsonl_file_def lines comp_def)
  next
    case False
    then have "disk_lines f (qr_queue r) = []" by (force simp: disk_lines_def filter_empty_conv)
    then show ?thesis using False disk by (simp add: file_of_def readJsonl_file_def)
  qed
  moreover have "map (rehydrated st) (map ?stored es) = map entry_json es"
    using entry_back clean blobs by (auto simp: list_all_iff)
  ultimately show ?thesis by (simp add: read_entries_def)
qed

section \<open>The store in use\<close>

text \<open>The writer with the files it still holds.\<close>

definition inflight_files :: "append_queue \<Rightarrow> (string \<times> string) list" where
  "inflight_files q = (case aq_drain q of WritingFiles fs \<Rightarrow> fs | _ \<Rightarrow> [])"

definition file_trace :: "append_queue \<Rightarrow> (string \<times> string) set" where
  "file_trace q = set (aq_blobs q) \<union> set (inflight_files q) \<union> set (aq_files q)"

lemma trace_push [simp]: "file_trace (push_line ts f l q) = file_trace q"
proof -
  have "aq_files (shed ts q') = aq_files q'" "aq_blobs (shed ts q') = aq_blobs q'" "aq_drain (shed ts q') = aq_drain q'" for q'
    by (simp_all add: shed_def Let_def split: option.split)
  then show ?thesis by (simp add: file_trace_def inflight_files_def push_line_def Let_def)
qed

lemma trace_begin [simp]: "file_trace (timer_drains q) = file_trace q" "file_trace (flush_begin q) = file_trace q"
  by (auto simp: file_trace_def inflight_files_def timer_drains_def flush_begin_def drain_begin_def Let_def split: drain_phase.splits)

lemma trace_drain: "aq_failures (drain_step ok q) = 0 \<Longrightarrow> file_trace (drain_step ok q) = file_trace q"
  by (auto simp: file_trace_def inflight_files_def drain_step_def Let_def split: drain_phase.splits list.splits prod.splits if_splits)

lemma trace_sub: "file_trace (drain_step ok q) \<subseteq> file_trace q"
  by (auto simp: file_trace_def inflight_files_def drain_step_def Let_def split: drain_phase.splits list.splits prod.splits if_splits)

lemma trace_pushFile:
  "file_trace (pushFile f d q) \<subseteq> insert (f, d) (file_trace q)" "fst ` file_trace (pushFile f d q) = insert f (fst ` file_trace q)"
proof -
  have s: "set (jmap_set f d m) \<subseteq> insert (f, d) (set m)" for m :: "(string, string) jmap" using set_jmap_setD by force
  have k: "fst ` set (jmap_set f d m) = insert f (fst ` set m)" for m :: "(string, string) jmap" by (induction m) force+
  show "file_trace (pushFile f d q) \<subseteq> insert (f, d) (file_trace q)"
    using s [of "aq_files q"] by (auto simp: file_trace_def inflight_files_def pushFile_def)
  show "fst ` file_trace (pushFile f d q) = insert f (fst ` file_trace q)"
    using k [of "aq_files q"] by (simp add: file_trace_def inflight_files_def pushFile_def image_Un)
qed

lemma failures_mono: "aq_failures q \<le> aq_failures (drain_step ok q)"
  by (simp add: drain_step_def Let_def schedule_def split: drain_phase.split list.split prod.split)

text \<open>
  Appends to conversations, and what the writer does between them.  Log lines go through the same queue, to other files than the
  conversation of the session \<open>sid\<close> that is read in the end.
\<close>

record store_run =
  sr_conv :: local_conversation
  sr_appended :: "(string \<times> stored_entry) list"

abbreviation on_queue :: "(append_queue \<Rightarrow> append_queue) \<Rightarrow> store_run \<Rightarrow> store_run" where
  "on_queue f r \<equiv> r\<lparr>sr_conv := (sr_conv r)\<lparr>lc_queue := f (lc_queue (sr_conv r))\<rparr>\<rparr>"

inductive store_step :: "string \<Rightarrow> string \<Rightarrow> store_run \<Rightarrow> store_run \<Rightarrow> bool" for dir sid where
  st_append: "store_step dir sid r (r\<lparr>sr_conv := append_stored dir now s e (sr_conv r), sr_appended := sr_appended r @ [(s, e)]\<rparr>)"
| st_log: "f \<noteq> conversation_file dir sid \<Longrightarrow> store_step dir sid r (on_queue (log_write on now f kvs) r)"
| st_timer: "store_step dir sid r (on_queue timer_drains r)"
| st_flush: "store_step dir sid r (on_queue flush_begin r)"
| st_drain: "store_step dir sid r (on_queue (drain_step ok) r)"

definition new_store :: "int option \<Rightarrow> int option \<Rightarrow> store_run" where
  "new_store a b = \<lparr>sr_conv = \<lparr>lc_queue = new_queue a b, lc_heads = []\<rparr>, sr_appended = []\<rparr>"

definition appended_to :: "string \<Rightarrow> store_run \<Rightarrow> stored_entry list" where
  "appended_to sid r = map snd (filter (\<lambda>se. fst se = sid) (sr_appended r))"

abbreviation store_queue :: "store_run \<Rightarrow> append_queue" where "store_queue r \<equiv> lc_queue (sr_conv r)"

abbreviation blobs_in :: "stored_entry \<Rightarrow> (string \<times> string) list" where
  "blobs_in e \<equiv> snd (externalizeBlobs BLOB_THRESHOLD (se_payload e))"

text \<open>A blob file that the writer has written: a later write of the same name wins.\<close>

definition stored_blob :: "string \<Rightarrow> string \<Rightarrow> append_queue \<Rightarrow> string \<Rightarrow> string option" where
  "stored_blob dir sid q ref = map_of (rev (aq_blobs q)) (blob_file dir sid ref)"

section \<open>What the store wrote is what was appended\<close>

lemma conversation_file_inj: "conversation_file dir s = conversation_file dir t \<longleftrightarrow> s = t"
  by (simp add: conversation_file_def)

definition queued_as :: "string \<Rightarrow> string \<Rightarrow> store_run \<Rightarrow> queue_run \<Rightarrow> bool" where
  "queued_as dir sid r q \<longleftrightarrow>
     qr_queue q = store_queue r \<and> pushed_lines (conversation_file dir sid) (qr_pushed q) = map (entry_line BLOB_THRESHOLD) (appended_to sid r)"

lemma pushes_files: "queue_run_step\<^sup>*\<^sup>* q (q\<lparr>qr_queue := fold (\<lambda>b. pushFile (g b) (snd b)) bs (qr_queue q)\<rparr>)"
proof (induction bs arbitrary: q)
  case (Cons b bs)
  have "queue_run_step q (q\<lparr>qr_queue := pushFile (g b) (snd b) (qr_queue q)\<rparr>)" by (rule r_pushFile)
  with Cons [of "q\<lparr>qr_queue := pushFile (g b) (snd b) (qr_queue q)\<rparr>"] show ?case by (simp add: converse_rtranclp_into_rtranclp)
qed simp

lemma append_queued:
  assumes "queued_as dir sid r q"
  shows "\<exists>q'. queue_run_step\<^sup>*\<^sup>* q q' \<and>
    queued_as dir sid (r\<lparr>sr_conv := append_stored dir now s e (sr_conv r), sr_appended := sr_appended r @ [(s, e)]\<rparr>) q'"
proof -
  let ?q1 = "q\<lparr>qr_queue := fold (\<lambda>b. pushFile (blob_file dir s (fst b)) (snd b)) (blobs_in e) (qr_queue q)\<rparr>"
  let ?q2 = "?q1\<lparr>qr_queue := push_line now (conversation_file dir s) (entry_line BLOB_THRESHOLD e) (qr_queue ?q1),
    qr_pushed := qr_pushed ?q1 @ [(conversation_file dir s, entry_line BLOB_THRESHOLD e)]\<rparr>"
  have "queue_run_step\<^sup>*\<^sup>* q ?q1" by (rule pushes_files)
  moreover have "queue_run_step ?q1 ?q2" by (rule r_push)
  ultimately have "queue_run_step\<^sup>*\<^sup>* q ?q2" by (rule rtranclp.rtrancl_into_rtrancl)
  moreover have "queued_as dir sid (r\<lparr>sr_conv := append_stored dir now s e (sr_conv r), sr_appended := sr_appended r @ [(s, e)]\<rparr>) ?q2"
    using assms by (auto simp: queued_as_def append_stored_def Let_def pushed_lines_def appended_to_def conversation_file_inj)
  ultimately show ?thesis by blast
qed

lemma store_queued:
  assumes "(store_step dir sid)\<^sup>*\<^sup>* (new_store a b) r"
  shows "\<exists>q. queue_run_step\<^sup>*\<^sup>* (init_queue_run a b) q \<and> queued_as dir sid r q"
  using assms
proof (induction rule: rtranclp_induct)
  case base
  have "queued_as dir sid (new_store a b) (init_queue_run a b)"
    by (simp add: queued_as_def new_store_def init_queue_run_def pushed_lines_def appended_to_def)
  then show ?case by blast
next
  case (step r r')
  then obtain q where q: "queue_run_step\<^sup>*\<^sup>* (init_queue_run a b) q" "queued_as dir sid r q" by blast
  have "\<exists>q'. queue_run_step\<^sup>*\<^sup>* q q' \<and> queued_as dir sid r' q'"
    using step(2)
  proof cases
    case (st_append now s e)
    then show ?thesis using append_queued [OF q(2)] by simp
  next
    case (st_log f on now kvs)
    have "queue_run_step q (q\<lparr>qr_queue := push_line now f (log_line now kvs) (qr_queue q), qr_pushed := qr_pushed q @ [(f, log_line now kvs)]\<rparr>)"
      by (rule r_push)
    moreover have "queued_as dir sid r' (q\<lparr>qr_queue := push_line now f (log_line now kvs) (qr_queue q), qr_pushed := qr_pushed q @ [(f, log_line now kvs)]\<rparr>)" if on
      using st_log q(2) that by (auto simp: queued_as_def log_write_def pushed_lines_def appended_to_def)
    moreover have "queued_as dir sid r' q" if "\<not> on"
      using st_log q(2) that by (auto simp: queued_as_def log_write_def pushed_lines_def appended_to_def)
    ultimately show ?thesis by (cases on) blast+
  next
    case st_timer
    have "queue_run_step q (q\<lparr>qr_queue := timer_drains (qr_queue q)\<rparr>)" by (rule r_timer)
    moreover have "queued_as dir sid r' (q\<lparr>qr_queue := timer_drains (qr_queue q)\<rparr>)" using st_timer q(2) by (simp add: queued_as_def appended_to_def)
    ultimately show ?thesis by blast
  next
    case st_flush
    have "queue_run_step q (q\<lparr>qr_queue := flush_begin (qr_queue q)\<rparr>)" by (rule r_flush)
    moreover have "queued_as dir sid r' (q\<lparr>qr_queue := flush_begin (qr_queue q)\<rparr>)" using st_flush q(2) by (simp add: queued_as_def appended_to_def)
    ultimately show ?thesis by blast
  next
    case (st_drain ok)
    have "queue_run_step q (q\<lparr>qr_queue := drain_step ok (qr_queue q)\<rparr>)" by (rule r_drain)
    moreover have "queued_as dir sid r' (q\<lparr>qr_queue := drain_step ok (qr_queue q)\<rparr>)" using st_drain q(2) by (simp add: queued_as_def appended_to_def)
    ultimately show ?thesis by blast
  qed
  then show ?case using q(1) by (meson rtranclp_trans)
qed

text \<open>Every attachment of an appended entry is on its way to its file, and nothing else is in the blob files.\<close>

definition blob_path :: "string \<Rightarrow> string \<times> stored_entry \<Rightarrow> string \<times> string \<Rightarrow> string" where
  "blob_path dir se b = blob_file dir (fst se) (fst b)"

definition files_kept :: "string \<Rightarrow> store_run \<Rightarrow> bool" where
  "files_kept dir r \<longleftrightarrow>
     (\<forall>se \<in> set (sr_appended r). \<forall>b \<in> set (blobs_in (snd se)). blob_path dir se b \<in> fst ` file_trace (store_queue r))"

definition files_known :: "string \<Rightarrow> store_run \<Rightarrow> bool" where
  "files_known dir r \<longleftrightarrow>
     (\<forall>pd \<in> file_trace (store_queue r). \<exists>se \<in> set (sr_appended r). \<exists>b \<in> set (blobs_in (snd se)). pd = (blob_path dir se b, snd b))"

definition files_inv :: "string \<Rightarrow> store_run \<Rightarrow> bool" where
  "files_inv dir r \<longleftrightarrow> (aq_failures (store_queue r) = 0 \<longrightarrow> files_kept dir r) \<and> files_known dir r"

lemma fold_pushFile:
  "file_trace (fold (\<lambda>b. pushFile (g b) (snd b)) bs q) \<subseteq> (\<lambda>b. (g b, snd b)) ` set bs \<union> file_trace q"
  "fst ` file_trace (fold (\<lambda>b. pushFile (g b) (snd b)) bs q) = g ` set bs \<union> fst ` file_trace q"
  "aq_failures (fold (\<lambda>b. pushFile (g b) (snd b)) bs q) = aq_failures q"
proof (induction bs arbitrary: q)
  case (Cons b bs)
  {
    case 1
    show ?case using Cons(1) [of "pushFile (g b) (snd b) q"] trace_pushFile(1) [of "g b" "snd b" q] by auto
  next
    case 2
    show ?case using Cons(2) [of "pushFile (g b) (snd b) q"] trace_pushFile(2) [of "g b" "snd b" q] by auto
  next
    case 3
    show ?case using Cons(3) [of "pushFile (g b) (snd b) q"] by (simp add: pushFile_def)
  }
qed simp_all

lemma files_inv_append:
  assumes "files_inv dir r"
  shows "files_inv dir (r\<lparr>sr_conv := append_stored dir now s e (sr_conv r), sr_appended := sr_appended r @ [(s, e)]\<rparr>)"
    (is "files_inv dir ?r")
proof -
  let ?q = "fold (\<lambda>b. pushFile (blob_file dir s (fst b)) (snd b)) (blobs_in e) (store_queue r)"
  have q: "lc_queue (append_stored dir now s e (sr_conv r)) = push_line now (conversation_file dir s) (entry_line BLOB_THRESHOLD e) ?q"
    by (simp add: append_stored_def Let_def)
  note t = fold_pushFile [of "\<lambda>b. blob_file dir s (fst b)" "blobs_in e" "store_queue r"]
  have "files_known dir ?r"
    unfolding files_known_def
  proof
    fix pd assume pd: "pd \<in> file_trace (store_queue ?r)"
    show "\<exists>se \<in> set (sr_appended ?r). \<exists>b \<in> set (blobs_in (snd se)). pd = (blob_path dir se b, snd b)"
    proof (cases "pd \<in> file_trace (store_queue r)")
      case True
      then show ?thesis using assms by (auto simp: files_inv_def files_known_def)
    next
      case False
      then have "pd \<in> (\<lambda>b. (blob_file dir s (fst b), snd b)) ` set (blobs_in e)" using t(1) pd q by auto
      then show ?thesis by (auto simp: blob_path_def)
    qed
  qed
  moreover have "files_kept dir ?r" if "aq_failures (store_queue ?r) = 0"
  proof -
    have "files_kept dir r" using assms that by (simp add: files_inv_def q t(3))
    moreover have "fst ` file_trace (store_queue ?r) = (\<lambda>b. blob_file dir s (fst b)) ` set (blobs_in e) \<union> fst ` file_trace (store_queue r)"
      using t(2) by (simp add: q)
    ultimately show ?thesis unfolding files_kept_def by (simp add: blob_path_def)
  qed
  ultimately show ?thesis by (simp add: files_inv_def)
qed

lemma files_inv_step: "store_step dir sid r r' \<Longrightarrow> files_inv dir r \<Longrightarrow> files_inv dir r'"
proof (induction rule: store_step.induct)
  case (st_append r now s e)
  then show ?case by (rule files_inv_append)
next
  case (st_log f r on now kvs)
  then show ?case by (simp add: files_inv_def files_kept_def files_known_def log_write_def)
next
  case (st_timer r)
  moreover have "aq_failures (timer_drains q) = aq_failures q" for q by (simp add: timer_drains_def drain_begin_def)
  ultimately show ?case by (simp add: files_inv_def files_kept_def files_known_def)
next
  case (st_flush r)
  moreover have "aq_failures (flush_begin q) = aq_failures q" for q by (simp add: flush_begin_def drain_begin_def Let_def)
  ultimately show ?case by (simp add: files_inv_def files_kept_def files_known_def)
next
  case (st_drain r ok)
  have "file_trace (drain_step ok (store_queue r)) \<subseteq> file_trace (store_queue r)" by (rule trace_sub)
  moreover have "aq_failures (store_queue r) = 0 \<and> file_trace (drain_step ok (store_queue r)) = file_trace (store_queue r)"
    if "aq_failures (drain_step ok (store_queue r)) = 0"
    using trace_drain [OF that] failures_mono [of "store_queue r" ok] that by simp
  ultimately show ?case using st_drain by (auto simp: files_inv_def files_kept_def files_known_def)
qed

lemma store_files: "(store_step dir sid)\<^sup>*\<^sup>* (new_store a b) r \<Longrightarrow> files_inv dir r"
proof (induction rule: rtranclp_induct)
  case base
  then show ?case by (simp add: files_inv_def files_kept_def files_known_def new_store_def file_trace_def inflight_files_def new_queue_def)
next
  case (step r r')
  then show ?case using files_inv_step by blast
qed

lemma blob_named: "b \<in> set (snd (externalizeBlobs n v)) \<Longrightarrow> fst b = blob_digest (snd b)"
proof (induction n v rule: externalizeBlobs.induct)
  case (2 n kvs)
  then show ?case by (cases "large_source n kvs") (auto simp: Let_def)
qed (auto simp: Let_def)

lemma blob_file_inj:
  assumes "blob_file dir s x = blob_file dir t y" "length x = length y"
  shows "x = y"
  using assms by (simp add: blob_file_def)

text \<open>The digest takes no two attachments of the run to one name.\<close>

definition no_collision :: "store_run \<Rightarrow> bool" where
  "no_collision r \<longleftrightarrow>
     (\<forall>se \<in> set (sr_appended r). \<forall>te \<in> set (sr_appended r). \<forall>b \<in> set (blobs_in (snd se)). \<forall>c \<in> set (blobs_in (snd te)).
        blob_digest (snd b) = blob_digest (snd c) \<longrightarrow> snd b = snd c)"

lemma no_collisionD:
  "no_collision r \<Longrightarrow> se \<in> set (sr_appended r) \<Longrightarrow> te \<in> set (sr_appended r) \<Longrightarrow> b \<in> set (blobs_in (snd se)) \<Longrightarrow> c \<in> set (blobs_in (snd te)) \<Longrightarrow>
   blob_digest (snd b) = blob_digest (snd c) \<Longrightarrow> snd b = snd c"
  by (simp add: no_collision_def)

lemma stored_blobs:
  assumes "files_inv dir r" "aq_failures (store_queue r) = 0" "aq_drain (store_queue r) = Idle" "aq_files (store_queue r) = []"
    and "no_collision r" "(s, e) \<in> set (sr_appended r)" "b \<in> set (blobs_in e)"
  shows "stored_blob dir s (store_queue r) (fst b) = Some (snd b)"
proof -
  let ?p = "blob_file dir s (fst b)"
  have trace: "file_trace (store_queue r) = set (aq_blobs (store_queue r))" using assms(3,4) by (simp add: file_trace_def inflight_files_def)
  have "files_kept dir r" "files_known dir r" using assms(1,2) by (simp_all add: files_inv_def)
  have "?p \<in> fst ` set (aq_blobs (store_queue r))"
    using bspec [OF bspec [OF \<open>files_kept dir r\<close> [unfolded files_kept_def] assms(6)], of b] assms(7) by (simp add: trace blob_path_def)
  then have "?p \<in> fst ` set (rev (aq_blobs (store_queue r)))" by simp
  then have "map_of (rev (aq_blobs (store_queue r))) ?p \<noteq> None" unfolding map_of_eq_None_iff by simp
  from this [unfolded not_None_eq] obtain d where d: "map_of (rev (aq_blobs (store_queue r))) ?p = Some d" ..
  have "(?p, d) \<in> file_trace (store_queue r)" unfolding trace using map_of_SomeD [OF d] by simp
  then obtain se b' where b': "se \<in> set (sr_appended r)" "b' \<in> set (blobs_in (snd se))" "?p = blob_file dir (fst se) (fst b')" "d = snd b'"
    using bspec [OF \<open>files_known dir r\<close> [unfolded files_known_def] \<open>(?p, d) \<in> file_trace (store_queue r)\<close>] by (auto simp: blob_path_def)
  have names: "fst b = blob_digest (snd b)" "fst b' = blob_digest (snd b')" using blob_named assms(7) b'(2) by blast+
  then have "fst b = fst b'" using blob_file_inj [OF b'(3)] by (simp add: length_blob_digest)
  then have "blob_digest (snd b) = blob_digest (snd b')" using names by simp
  from no_collisionD [OF assms(5,6) b'(1) _ b'(2) this] assms(7) have "snd b = snd b'" by simp
  then show ?thesis using d b'(4) by (simp add: stored_blob_def)
qed


text \<open>An entry with an attachment of 16388 characters goes to two files.\<close>

definition picture_text :: string where "picture_text = replicate 16388 CHR ''A''"

definition picture :: stored_entry where
  "picture =
     \<lparr>se_uuid = ''a'', se_parent = None, se_ts = ''t'',
      se_payload = JObj [(''type'', JStr ''image''), (''source'', JObj [(''type'', JStr ''base64''), (''media_type'', JStr ''image/png''), (''data'', JStr picture_text)])]\<rparr>"

abbreviation picture_line :: string where "picture_line \<equiv> entry_line BLOB_THRESHOLD picture"

definition picture_data :: string where "picture_data = byte_text (b64_decode picture_text)"

lemma picture_blobs: "blobs_in picture = [(blob_digest picture_data, picture_data)]"
  by (simp add: picture_def picture_data_def picture_text_def large_source_def is_block_def BLOB_THRESHOLD_def Let_def)

lemma canonical_As: "canonical64 (replicate (4 * n) CHR ''A'')"
proof (induction n)
  case (Suc n)
  have "six_bits CHR ''A''" by code_simp
  with Suc show ?case by (simp add: numeral_eq_Suc)
qed simp

lemma picture_clean: "clean_payload BLOB_THRESHOLD (se_payload picture)"
proof -
  have "canonical64 picture_text" unfolding picture_text_def using canonical_As [of 4097] by simp
  then show ?thesis
    by (simp add: clean_payload_def picture_def isBlobRef_def large_source_def is_block_def BLOB_THRESHOLD_def media_key_def picture_text_def)
qed

definition picture_cap :: int where "picture_cap = int (length picture_line) + 1"

fun drains :: "nat \<Rightarrow> store_run \<Rightarrow> store_run" where
  "drains 0 r = r"
| "drains (Suc n) r = drains n (on_queue (drain_step True) r)"

definition picture_start :: store_run where "picture_start = new_store None (Some picture_cap)"

definition picture_appended :: store_run where
  "picture_appended =
     picture_start\<lparr>sr_conv := append_stored ''d'' ''t'' ''s'' picture (sr_conv picture_start), sr_appended := sr_appended picture_start @ [(''s'', picture)]\<rparr>"

definition picture_run :: store_run where
  "picture_run = drains 4 (on_queue flush_begin picture_appended)"

lemma drains_reached: "(store_step dir sid)\<^sup>*\<^sup>* r (drains n r)"
proof (induction n arbitrary: r)
  case (Suc n)
  have "store_step dir sid r (on_queue (drain_step True) r)" by (rule st_drain)
  then show ?case using Suc [of "on_queue (drain_step True) r"] by (simp add: converse_rtranclp_into_rtranclp)
qed simp

lemma picture_reached: "(store_step ''d'' ''s'')\<^sup>*\<^sup>* (new_store None (Some picture_cap)) picture_run"
proof -
  have "store_step ''d'' ''s'' picture_start picture_appended" unfolding picture_appended_def by (rule st_append)
  moreover have "store_step ''d'' ''s'' picture_appended (on_queue flush_begin picture_appended)" by (rule st_flush)
  moreover have "(store_step ''d'' ''s'')\<^sup>*\<^sup>* (on_queue flush_begin picture_appended) picture_run" unfolding picture_run_def by (rule drains_reached)
  ultimately show ?thesis unfolding picture_start_def by (meson converse_rtranclp_into_rtranclp)
qed

abbreviation picture_file :: string where "picture_file \<equiv> blob_file ''d'' ''s'' (blob_digest picture_data)"
abbreviation picture_session :: string where "picture_session \<equiv> conversation_file ''d'' ''s''"

lemma picture_queued:
  "store_queue picture_appended =
     (new_queue None (Some picture_cap))\<lparr>aq_files := [(picture_file, picture_data)], aq_timer := True, aq_totalLines := 1, aq_totalBytes := picture_cap,
       aq_pending := [(picture_session, \<lparr>pl_lines = [picture_line], pl_bytes = picture_cap\<rparr>)]\<rparr>"
  unfolding picture_appended_def picture_start_def new_store_def append_stored_def picture_blobs
  by (simp add: Let_def pushFile_def push_line_def schedule_def new_queue_def picture_cap_def)

lemma picture_end:
  "store_queue picture_run =
     (new_queue None (Some picture_cap))\<lparr>aq_disk := [(picture_session, [picture_line])], aq_blobs := [(picture_file, picture_data)]\<rparr>"
  "sr_appended picture_run = [(''s'', picture)]"
proof -
  have four: "(4 :: nat) = Suc (Suc (Suc (Suc 0)))" by simp
  show "store_queue picture_run =
     (new_queue None (Some picture_cap))\<lparr>aq_disk := [(picture_session, [picture_line])], aq_blobs := [(picture_file, picture_data)]\<rparr>"
    unfolding picture_run_def four by (simp add: picture_queued flush_begin_def drain_begin_def drain_step_def Let_def new_queue_def jset_del_def)
  show "sr_appended picture_run = [(''s'', picture)]"
    unfolding picture_run_def four by (simp add: picture_appended_def picture_start_def new_store_def)
qed


section \<open>A torn line\<close>

definition two_entries :: "stored_entry list" where
  "two_entries =
     [\<lparr>se_uuid = ''a'', se_parent = None, se_ts = ''t'', se_payload = JStr ''hi''\<rparr>, \<lparr>se_uuid = ''b'', se_parent = None, se_ts = ''t'', se_payload = JStr ''again''\<rparr>]"

text \<open>The file after a process died in the write of its second line, and after another appended to it.\<close>

definition torn_file :: string where
  "torn_file = entry_line 9 (two_entries ! 0) @ [nl] @ take 12 (entry_line 9 (two_entries ! 1))"

definition resumed_file :: string where
  "resumed_file = torn_file @ entry_line 9 \<lparr>se_uuid = ''c'', se_parent = None, se_ts = ''t'', se_payload = JStr ''go on''\<rparr> @ [nl]"

text \<open>C0 torn_line_loses_session. After a crash in the middle of a write the head is taken to be a new chain, but the conversation cannot be read at all; the entry that is
  appended next is written into the torn line, and is lost with it.\<close>

lemma torn_head: "fst (head_entry (Some torn_file) ''s'' \<lparr>lc_queue = new_queue None None, lc_heads = []\<rparr>) = None"
proof -
  have "(case final_line torn_file of None \<Rightarrow> None | Some l \<Rightarrow> json_parse l) = None" by code_simp
  then show ?thesis by (auto simp: head_entry_def lastLine_final Let_def split: option.splits)
qed

theorem torn_line_loses_session:
  "fst (head_entry (Some torn_file) ''s'' \<lparr>lc_queue = new_queue None None, lc_heads = []\<rparr>) = None \<and>
   read_entries (\<lambda>r. None) (Some torn_file) = None \<and> read_entries (\<lambda>r. None) (Some resumed_file) = None \<and>
   fst (tail_entries (Some resumed_file) 0) = [entry_json (two_entries ! 0)]"
proof (intro conjI torn_head)
  show "read_entries (\<lambda>r. None) (Some torn_file) = None" by code_simp
  show "read_entries (\<lambda>r. None) (Some resumed_file) = None" by code_simp
  show "fst (tail_entries (Some resumed_file) 0) = [entry_json (two_entries ! 0)]" by code_simp
qed

section \<open>Session records\<close>

text \<open>A record is its keys; a patch writes over them, and then the stamp.\<close>

type_synonym session_keys = "(string, json) jmap"

datatype record_write = PutRecord session_keys | PatchRecord session_keys

definition spread :: "session_keys \<Rightarrow> session_keys \<Rightarrow> session_keys" where
  "spread patch cur = fold (\<lambda>kv. jmap_set (fst kv) (snd kv)) patch cur"

definition apply_write :: "(int \<Rightarrow> string) \<Rightarrow> record_write \<Rightarrow> int \<Rightarrow> session_keys option \<Rightarrow> session_keys option" where
  "apply_write stamp w ms cur =
     (case w of
        PutRecord r \<Rightarrow> Some r
      | PatchRecord p \<Rightarrow> map_option (\<lambda>c. jmap_set ''updatedAt'' (JStr (stamp ms)) (spread p c)) cur)"

text \<open>
  Each session has a chain of writes, of which the first may have read the record already; \<open>lr_done\<close> keeps what each finished write was and
  its stamp, \<open>lr_issued\<close> what was asked for, in order.
\<close>

record local_registry =
  lr_files :: "string \<Rightarrow> session_keys option"
  lr_chain :: "string \<Rightarrow> record_write list"
  lr_read :: "string \<Rightarrow> session_keys option option"
  lr_lastPatch :: int
  lr_listing :: "(int \<times> (string \<times> session_keys) list) option"
  lr_issued :: "string \<Rightarrow> record_write list"
  lr_done :: "string \<Rightarrow> (record_write \<times> int) list"

definition new_registry_at :: "(string \<Rightarrow> session_keys option) \<Rightarrow> local_registry" where
  "new_registry_at files =
     \<lparr>lr_files = files, lr_chain = (\<lambda>s. []), lr_read = (\<lambda>s. None), lr_lastPatch = 0, lr_listing = None, lr_issued = (\<lambda>s. []), lr_done = (\<lambda>s. [])\<rparr>"

definition issue_write :: "string \<Rightarrow> record_write \<Rightarrow> local_registry \<Rightarrow> local_registry" where
  "issue_write sid w l =
     l\<lparr>lr_listing := None, lr_chain := (lr_chain l)(sid := lr_chain l sid @ [w]), lr_issued := (lr_issued l)(sid := lr_issued l sid @ [w])\<rparr>"

text \<open>The next write of a chain starts when the one before it has ended: it reads the file.\<close>

definition start_write :: "string \<Rightarrow> local_registry \<Rightarrow> local_registry" where
  "start_write sid l =
     (if lr_chain l sid \<noteq> [] \<and> lr_read l sid = None then l\<lparr>lr_read := (lr_read l)(sid := Some (lr_files l sid))\<rparr> else l)"

definition monotonicNow :: "int \<Rightarrow> local_registry \<Rightarrow> int" where
  "monotonicNow now l = max now (lr_lastPatch l + 1)"

definition stamps :: "record_write \<Rightarrow> session_keys option \<Rightarrow> bool" where
  "stamps w cur \<longleftrightarrow> (case w of PutRecord r \<Rightarrow> False | PatchRecord p \<Rightarrow> cur \<noteq> None)"

definition finish_write :: "(int \<Rightarrow> string) \<Rightarrow> int \<Rightarrow> string \<Rightarrow> local_registry \<Rightarrow> local_registry" where
  "finish_write stamp now sid l =
     (case (lr_chain l sid, lr_read l sid) of
        (w # later, Some cur) \<Rightarrow>
          (let ms = (if stamps w cur then monotonicNow now l else lr_lastPatch l)
           in l\<lparr>lr_files := (lr_files l)(sid := (case apply_write stamp w ms cur of Some r \<Rightarrow> Some r | None \<Rightarrow> lr_files l sid)),
                lr_chain := (lr_chain l)(sid := later), lr_read := (lr_read l)(sid := None), lr_lastPatch := ms,
                lr_done := (lr_done l)(sid := lr_done l sid @ [(w, ms)])\<rparr>)
      | _ \<Rightarrow> l)"

inductive chain_step :: "(int \<Rightarrow> string) \<Rightarrow> local_registry \<Rightarrow> local_registry \<Rightarrow> bool" for stamp where
  ls_issue: "chain_step stamp l (issue_write sid w l)"
| ls_start: "chain_step stamp l (start_write sid l)"
| ls_finish: "chain_step stamp l (finish_write stamp now sid l)"

text \<open>A listing: the records in the order of their files, kept for a second.\<close>

definition LISTING_TTL_MS :: int where "LISTING_TTL_MS = 1000"

definition all_records :: "string list \<Rightarrow> local_registry \<Rightarrow> (string \<times> session_keys) list" where
  "all_records names l = List.map_filter (\<lambda>s. map_option (Pair s) (lr_files l s)) names"

definition cached_listing :: "int \<Rightarrow> local_registry \<Rightarrow> (string \<times> session_keys) list option" where
  "cached_listing now l = (case lr_listing l of Some (at_ms, rs) \<Rightarrow> if now - at_ms < LISTING_TTL_MS then Some rs else None | None \<Rightarrow> None)"

definition finish_listing :: "int \<Rightarrow> (string \<times> session_keys) list \<Rightarrow> local_registry \<Rightarrow> local_registry" where
  "finish_listing now rs l = l\<lparr>lr_listing := Some (now, rs)\<rparr>"

text \<open>The split of the old single map into a file for each session: what is there stays.\<close>

definition migrate_records :: "(string \<times> session_keys) list \<Rightarrow> local_registry \<Rightarrow> local_registry" where
  "migrate_records old l =
     fold (\<lambda>sr l. if lr_files l (fst sr) = None then l\<lparr>lr_files := (lr_files l)(fst sr := Some (snd sr))\<rparr> else l) old l"

text \<open>What the writes done make of a record, one after another.\<close>

fun applied :: "(int \<Rightarrow> string) \<Rightarrow> (record_write \<times> int) list \<Rightarrow> session_keys option \<Rightarrow> session_keys option" where
  "applied stamp [] cur = cur"
| "applied stamp ((w, ms) # later) cur = applied stamp later (apply_write stamp w ms cur)"

definition chain_ok :: "(int \<Rightarrow> string) \<Rightarrow> (string \<Rightarrow> session_keys option) \<Rightarrow> local_registry \<Rightarrow> string \<Rightarrow> bool" where
  "chain_ok stamp files l sid \<longleftrightarrow>
     lr_issued l sid = map fst (lr_done l sid) @ lr_chain l sid \<and> lr_files l sid = applied stamp (lr_done l sid) (files sid) \<and>
     (\<forall>cur. lr_read l sid = Some cur \<longrightarrow> cur = applied stamp (lr_done l sid) (files sid))"

definition chain_inv :: "(int \<Rightarrow> string) \<Rightarrow> (string \<Rightarrow> session_keys option) \<Rightarrow> local_registry \<Rightarrow> bool" where
  "chain_inv stamp files l \<longleftrightarrow> (\<forall>sid. chain_ok stamp files l sid)"

lemma applied_append: "applied stamp (later @ [(w, ms)]) cur = apply_write stamp w ms (applied stamp later cur)"
  by (induction stamp later cur rule: applied.induct) auto

lemma no_write: "apply_write stamp w ms cur = None \<Longrightarrow> cur = None"
  by (cases w) (auto simp: apply_write_def)

lemma finish_other: "other \<noteq> sid \<Longrightarrow> chain_ok stamp files (finish_write stamp now sid l) other = chain_ok stamp files l other"
  by (simp add: finish_write_def chain_ok_def Let_def split: list.split option.split)

lemma finish_own:
  assumes "chain_ok stamp files l sid"
  shows "chain_ok stamp files (finish_write stamp now sid l) sid"
proof (cases "lr_chain l sid = [] \<or> lr_read l sid = None")
  case True
  then show ?thesis using assms by (auto simp: finish_write_def split: list.split)
next
  case False
  then obtain w later cur where c: "lr_chain l sid = w # later" "lr_read l sid = Some cur" by (auto simp: neq_Nil_conv)
  have cur: "lr_files l sid = cur" "cur = applied stamp (lr_done l sid) (files sid)" using assms c(2) by (simp_all add: chain_ok_def)
  define ms where "ms = (if stamps w cur then monotonicNow now l else lr_lastPatch l)"
  have "lr_files (finish_write stamp now sid l) sid = apply_write stamp w ms cur"
    unfolding finish_write_def c Let_def list.case option.case prod.case ms_def [symmetric]
    using no_write [of stamp w ms cur] cur(1) by (cases "apply_write stamp w ms cur") simp_all
  moreover have "lr_done (finish_write stamp now sid l) sid = lr_done l sid @ [(w, ms)]" "lr_chain (finish_write stamp now sid l) sid = later"
    "lr_read (finish_write stamp now sid l) sid = None" "lr_issued (finish_write stamp now sid l) = lr_issued l"
    by (simp_all add: finish_write_def c Let_def ms_def)
  ultimately show ?thesis using assms c cur(2) by (simp add: chain_ok_def applied_append)
qed

lemma chain_inv_finish: "chain_inv stamp files l \<Longrightarrow> chain_inv stamp files (finish_write stamp now sid l)"
  unfolding chain_inv_def using finish_own finish_other by metis

lemma chain_inv_step: "chain_step stamp l l' \<Longrightarrow> chain_inv stamp files l \<Longrightarrow> chain_inv stamp files l'"
proof (induction rule: chain_step.induct)
  case (ls_issue l sid w)
  then show ?case by (simp add: issue_write_def chain_inv_def chain_ok_def)
next
  case (ls_start l sid)
  then show ?case by (simp add: start_write_def chain_inv_def chain_ok_def)
next
  case (ls_finish l now sid)
  then show ?case by (rule chain_inv_finish)
qed

interpretation registry_runs: invariant_system "chain_step stamp" "chain_inv stamp files" for stamp files
  by unfold_locales (rule chain_inv_step)

text \<open>C27 no_patch_lost. However the writes of a session interleave with those of others, once they have all ended the record is what they make of it one after another in the
  order they were asked for.\<close>

theorem no_patch_lost:
  assumes "(chain_step stamp)\<^sup>*\<^sup>* (new_registry_at files) l" "lr_chain l sid = []"
  shows "map fst (lr_done l sid) = lr_issued l sid \<and> lr_files l sid = applied stamp (lr_done l sid) (files sid)"
proof -
  have "chain_inv stamp files (new_registry_at files)" by (simp add: chain_inv_def chain_ok_def new_registry_at_def)
  from registry_runs.run_inv [OF assms(1) this] assms(2) show ?thesis by (simp add: chain_inv_def chain_ok_def)
qed

definition counted_stamp :: "int \<Rightarrow> string" where "counted_stamp ms = int_str ms"

definition active_registry :: local_registry where
  "active_registry = new_registry_at ((\<lambda>s. None)(''s'' := Some [(''status'', JStr ''active'')]))"

definition patched_registry :: local_registry where
  "patched_registry =
     finish_write counted_stamp 7 ''s'' (start_write ''s'' (issue_write ''s'' (PatchRecord [(''status'', JStr ''idle'')]) active_registry))"

lemma patched_reached: "(chain_step counted_stamp)\<^sup>*\<^sup>* active_registry patched_registry"
  unfolding patched_registry_def using ls_issue ls_start ls_finish by (meson rtranclp.rtrancl_into_rtrancl rtranclp.rtrancl_refl)

lemma patched_chain: "lr_chain patched_registry ''s'' = []" "lr_done patched_registry ''s'' = [(PatchRecord [(''status'', JStr ''idle'')], 7)]"
  by (simp_all add: patched_registry_def active_registry_def finish_write_def start_write_def issue_write_def new_registry_at_def Let_def stamps_def
      monotonicNow_def)

theorem no_patch_lost_witness:
  "lr_files patched_registry ''s'' = Some [(''status'', JStr ''idle''), (''updatedAt'', JStr ''7'')]"
proof -
  have "int_str 7 = ''7''" by code_simp
  then show ?thesis
    using no_patch_lost [OF patched_reached [unfolded active_registry_def] patched_chain(1)] patched_chain(2)
    by (simp add: apply_write_def spread_def counted_stamp_def)
qed

text \<open>C0 acknowledged_patch_unlisted. A listing that runs while a patch is being written is kept for a second: after the patch has been acknowledged, a listing in the same
  process does not show it.\<close>

theorem acknowledged_patch_unlisted:
  "let l1 = start_write ''s'' (issue_write ''s'' (PatchRecord [(''status'', JStr ''idle'')]) active_registry);
       l2 = finish_listing 5 (all_records [''s''] l1) l1;
       l3 = finish_write counted_stamp 7 ''s'' l2
   in lr_chain l3 ''s'' = [] \<and> lr_files l3 ''s'' = Some [(''status'', JStr ''idle''), (''updatedAt'', JStr ''7'')] \<and>
      cached_listing 8 l3 = Some [(''s'', [(''status'', JStr ''active'')])]"
proof -
  have "int_str 7 = ''7''" by code_simp
  then show ?thesis
    by (simp add: Let_def active_registry_def new_registry_at_def issue_write_def start_write_def finish_listing_def all_records_def finish_write_def apply_write_def spread_def
        counted_stamp_def stamps_def monotonicNow_def cached_listing_def LISTING_TTL_MS_def List.map_filter_def)
qed

end
