(* ===== verification/LocalMailbox.thy ===== *)
theory LocalMailbox
  imports Prelude "HOL-Library.Multiset"
begin

text \<open>
  The mailbox, the notes and the agents of the local store (\<open>store/local.ts\<close>).  A mailbox is a file other processes append to: a post opens it and then writes, a drain renames it, reads it and removes it, and any of these steps may fall
  between two of another process.
\<close>

section \<open>The mailbox\<close>

record 'm mailbox =
  mb_path :: "nat option"
  mb_inodes :: "'m list list"
  mb_open :: "(nat \<times> 'm) list"
  mb_claims :: "(nat \<times> 'm list option) list"
  mb_finished :: "(nat \<times> 'm list) list"
  mb_posted :: "'m list"

definition empty_mailbox :: "'m mailbox" where
  "empty_mailbox = \<lparr>mb_path = None, mb_inodes = [], mb_open = [], mb_claims = [], mb_finished = [], mb_posted = []\<rparr>"

text \<open>A post opens the file at the path, or makes one, and then writes to what it opened.\<close>

definition post_open :: "'m \<Rightarrow> 'm mailbox \<Rightarrow> 'm mailbox" where
  "post_open m b =
     (case mb_path b of
        Some i \<Rightarrow> b\<lparr>mb_open := mb_open b @ [(i, m)]\<rparr>
      | None \<Rightarrow>
          b\<lparr>mb_path := Some (length (mb_inodes b)), mb_inodes := mb_inodes b @ [[]], mb_open := mb_open b @ [(length (mb_inodes b), m)]\<rparr>)"

definition post_write :: "nat \<Rightarrow> 'm mailbox \<Rightarrow> 'm mailbox" where
  "post_write k b =
     (if k < length (mb_open b) then
        (let (i, m) = mb_open b ! k
         in b\<lparr>mb_open := remove_at k (mb_open b), mb_inodes := (mb_inodes b)[i := mb_inodes b ! i @ [m]], mb_posted := mb_posted b @ [m]\<rparr>)
      else b)"

definition drain_claim :: "'m mailbox \<Rightarrow> 'm mailbox" where
  "drain_claim b = (case mb_path b of None \<Rightarrow> b | Some i \<Rightarrow> b\<lparr>mb_path := None, mb_claims := mb_claims b @ [(i, None)]\<rparr>)"

definition drain_read :: "nat \<Rightarrow> 'm mailbox \<Rightarrow> 'm mailbox" where
  "drain_read k b =
     (if k < length (mb_claims b) \<and> snd (mb_claims b ! k) = None then
        (let i = fst (mb_claims b ! k) in b\<lparr>mb_claims := (mb_claims b)[k := (i, Some (mb_inodes b ! i))]\<rparr>)
      else b)"

text \<open>The drain removes the claimed file and returns what it read.\<close>

definition drain_return :: "nat \<Rightarrow> 'm mailbox \<Rightarrow> 'm mailbox" where
  "drain_return k b =
     (if k < length (mb_claims b) then
        (case mb_claims b ! k of
           (i, Some ms) \<Rightarrow> b\<lparr>mb_claims := remove_at k (mb_claims b), mb_finished := mb_finished b @ [(i, ms)]\<rparr>
         | _ \<Rightarrow> b)
      else b)"

definition peek_mail :: "'m mailbox \<Rightarrow> 'm list" where
  "peek_mail b = (case mb_path b of None \<Rightarrow> [] | Some i \<Rightarrow> mb_inodes b ! i)"

definition returned_mail :: "'m mailbox \<Rightarrow> 'm list" where
  "returned_mail b = concat (map snd (mb_finished b))"

inductive mailbox_step :: "'m mailbox \<Rightarrow> 'm mailbox \<Rightarrow> bool" where
  mb_opens: "mailbox_step b (post_open m b)"
| mb_writes: "mailbox_step b (post_write k b)"
| mb_claimed: "mailbox_step b (drain_claim b)"
| mb_reads: "mailbox_step b (drain_read k b)"
| mb_returns: "mailbox_step b (drain_return k b)"

text \<open>A post that no drain interrupts.\<close>

definition whole_post :: "'m \<Rightarrow> 'm mailbox \<Rightarrow> 'm mailbox" where
  "whole_post m b = post_write (length (mb_open b)) (post_open m b)"

inductive prompt_step :: "'m mailbox \<Rightarrow> 'm mailbox \<Rightarrow> bool" where
  pm_post: "prompt_step b (whole_post m b)"
| pm_claimed: "prompt_step b (drain_claim b)"
| pm_reads: "prompt_step b (drain_read k b)"
| pm_returns: "prompt_step b (drain_return k b)"

definition held_inodes :: "'m mailbox \<Rightarrow> nat list" where
  "held_inodes b = (case mb_path b of None \<Rightarrow> [] | Some i \<Rightarrow> [i]) @ map fst (mb_claims b) @ map fst (mb_finished b)"

text \<open>No two hold the same file, what was read is a beginning of what is in it, and everything posted is in some file.\<close>

definition mailbox_inv :: "'m mailbox \<Rightarrow> bool" where
  "mailbox_inv b \<longleftrightarrow>
     distinct (held_inodes b) \<and> (\<forall>i \<in> set (held_inodes b) \<union> fst ` set (mb_open b). i < length (mb_inodes b)) \<and>
     (\<forall>c \<in> set (mb_claims b). \<forall>ms. snd c = Some ms \<longrightarrow> mset ms \<subseteq># mset (mb_inodes b ! fst c)) \<and>
     (\<forall>f \<in> set (mb_finished b). mset (snd f) \<subseteq># mset (mb_inodes b ! fst f)) \<and>
     mset (mb_posted b) = (\<Sum>x\<leftarrow>mb_inodes b. mset x)"

lemma sum_update: "i < length xs \<Longrightarrow> (\<Sum>x\<leftarrow>xs[i := xs ! i @ [m]]. mset x) = add_mset m (\<Sum>x\<leftarrow>xs. mset x)"
proof (induction xs arbitrary: i)
  case (Cons x xs)
  then show ?case by (cases i) simp_all
qed simp

lemma grown: "mset ms \<subseteq># mset (xs ! j) \<Longrightarrow> i < length xs \<Longrightarrow> j < length xs \<Longrightarrow> mset ms \<subseteq># mset (xs[i := xs ! i @ [m]] ! j)"
  by (cases "i = j") (auto simp: nth_list_update intro: subset_mset.order_trans)

lemma mset_remove_at: "k < length xs \<Longrightarrow> mset xs = add_mset (xs ! k) (mset (remove_at k xs))"
  by (subst split_at [of k xs]) (simp_all add: remove_at_def)

lemma inv_open: "mailbox_inv b \<Longrightarrow> mailbox_inv (post_open m b)"
proof (cases "mb_path b")
  case None
  assume "mailbox_inv b"
  with None show ?thesis
    by (auto simp: mailbox_inv_def post_open_def held_inodes_def nth_append less_SucI dest!: bspec)
next
  case (Some i)
  assume "mailbox_inv b"
  with Some show ?thesis by (auto simp: mailbox_inv_def post_open_def held_inodes_def)
qed

lemma inv_write: "mailbox_inv b \<Longrightarrow> mailbox_inv (post_write k b)"
proof (cases "k < length (mb_open b)")
  case True
  assume inv: "mailbox_inv b"
  obtain i m where im: "mb_open b ! k = (i, m)" by (cases "mb_open b ! k")
  have i: "i < length (mb_inodes b)" using inv True im nth_mem [OF True] by (force simp: mailbox_inv_def)
  have same: "held_inodes (post_write k b) = held_inodes b" by (simp add: post_write_def held_inodes_def True im)
  have rest: "\<forall>j \<in> fst ` set (remove_at k (mb_open b)). j < length (mb_inodes b)" using inv remove_at_subset [of k "mb_open b"] by (auto simp: mailbox_inv_def)
  have held: "\<forall>j \<in> set (held_inodes b). j < length (mb_inodes b)" "fst ` set (mb_claims b) \<subseteq> set (held_inodes b)" "fst ` set (mb_finished b) \<subseteq> set (held_inodes b)"
    using inv by (auto simp: mailbox_inv_def held_inodes_def)
  have "mset ms \<subseteq># mset ((mb_inodes b)[i := mb_inodes b ! i @ [m]] ! fst c)" if "c \<in> set (mb_claims b)" "snd c = Some ms" for c ms
    using inv that held i by (intro grown) (auto simp: mailbox_inv_def)
  moreover have "mset (snd f) \<subseteq># mset ((mb_inodes b)[i := mb_inodes b ! i @ [m]] ! fst f)" if "f \<in> set (mb_finished b)" for f
    using inv that held i by (intro grown) (auto simp: mailbox_inv_def)
  moreover have "mset (mb_posted b @ [m]) = (\<Sum>x\<leftarrow>(mb_inodes b)[i := mb_inodes b ! i @ [m]]. mset x)"
    using inv sum_update [OF i, of m] by (simp add: mailbox_inv_def)
  ultimately show ?thesis using inv rest held(1) unfolding mailbox_inv_def same by (simp add: post_write_def True im ball_Un)
qed (simp add: post_write_def)

lemma inv_claim: "mailbox_inv b \<Longrightarrow> mailbox_inv (drain_claim b)"
  by (auto simp: mailbox_inv_def drain_claim_def held_inodes_def split: option.splits)

lemma keys_kept: "k < length xs \<Longrightarrow> fst (xs ! k) = i \<Longrightarrow> map fst (xs[k := (i, v)]) = map fst xs"
  by (metis fst_conv list_update_id map_update nth_map length_map)

lemma drain_fields [simp]:
  "mb_inodes (drain_read k b) = mb_inodes b" "mb_open (drain_read k b) = mb_open b" "mb_finished (drain_read k b) = mb_finished b"
  "mb_posted (drain_read k b) = mb_posted b" "mb_path (drain_read k b) = mb_path b"
  "mb_inodes (drain_return k b) = mb_inodes b" "mb_open (drain_return k b) = mb_open b" "mb_posted (drain_return k b) = mb_posted b"
  "mb_path (drain_return k b) = mb_path b"
  by (simp_all add: drain_read_def drain_return_def Let_def split: prod.split option.split)

lemma read_claims:
  "c \<in> set (mb_claims (drain_read k b)) \<Longrightarrow> c \<in> set (mb_claims b) \<or> snd c = Some (mb_inodes b ! fst c)"
  by (auto simp: drain_read_def Let_def split: if_splits dest!: subsetD [OF set_update_subset_insert])

lemma read_held: "held_inodes (drain_read k b) = held_inodes b"
  by (simp add: drain_read_def held_inodes_def Let_def keys_kept)

lemma inv_read: "mailbox_inv b \<Longrightarrow> mailbox_inv (drain_read k b)"
proof -
  assume inv: "mailbox_inv b"
  have "mset ms \<subseteq># mset (mb_inodes b ! fst c)" if "c \<in> set (mb_claims (drain_read k b))" "snd c = Some ms" for c ms
    using read_claims [OF that(1)] that(2) inv by (auto simp: mailbox_inv_def)
  then show ?thesis using inv by (simp add: mailbox_inv_def read_held)
qed

lemma return_claims:
  obtains "drain_return k b = b"
  | i ms where "(i, Some ms) \<in> set (mb_claims b)" "mb_finished (drain_return k b) = mb_finished b @ [(i, ms)]"
      "set (mb_claims (drain_return k b)) \<subseteq> set (mb_claims b)" "mset (held_inodes (drain_return k b)) = mset (held_inodes b)"
proof (cases "k < length (mb_claims b) \<and> snd (mb_claims b ! k) \<noteq> None")
  case True
  then obtain i ms where c: "mb_claims b ! k = (i, Some ms)" by (cases "mb_claims b ! k") auto
  have "(i, Some ms) \<in> set (mb_claims b)" using True c nth_mem [of k "mb_claims b"] by simp
  moreover have "mb_finished (drain_return k b) = mb_finished b @ [(i, ms)]" "mb_claims (drain_return k b) = remove_at k (mb_claims b)"
    using True c by (simp_all add: drain_return_def)
  moreover from this have "mset (held_inodes (drain_return k b)) = mset (held_inodes b)"
    using mset_remove_at [of k "mb_claims b"] True c by (simp add: held_inodes_def)
  ultimately show ?thesis using that(2) remove_at_subset [of k "mb_claims b"] by metis
next
  case False
  then have "drain_return k b = b" by (auto simp: drain_return_def split: prod.split option.split)
  with that(1) show ?thesis .
qed

lemma inv_return: "mailbox_inv b \<Longrightarrow> mailbox_inv (drain_return k b)"
proof -
  assume inv: "mailbox_inv b"
  show ?thesis
  proof (rule return_claims [of k b])
    assume "drain_return k b = b"
    with inv show ?thesis by simp
  next
    fix i ms
    assume r: "(i, Some ms) \<in> set (mb_claims b)" "mb_finished (drain_return k b) = mb_finished b @ [(i, ms)]"
      "set (mb_claims (drain_return k b)) \<subseteq> set (mb_claims b)" "mset (held_inodes (drain_return k b)) = mset (held_inodes b)"
    have h: "distinct (held_inodes (drain_return k b)) = distinct (held_inodes b)" "set (held_inodes (drain_return k b)) = set (held_inodes b)"
      using mset_eq_imp_distinct_iff [OF r(4)] mset_eq_setD [OF r(4)] by simp_all
    have "mset ms \<subseteq># mset (mb_inodes b ! i)" using inv r(1) by (fastforce simp: mailbox_inv_def)
    then show ?thesis using inv r(3) by (auto simp: mailbox_inv_def h r(2))
  qed
qed

lemma mailbox_inv_step: "mailbox_step b c \<Longrightarrow> mailbox_inv b \<Longrightarrow> mailbox_inv c"
  by (induction rule: mailbox_step.induct) (simp_all add: inv_open inv_write inv_claim inv_read inv_return)

interpretation mailbox_runs: invariant_system mailbox_step mailbox_inv
  by unfold_locales (rule mailbox_inv_step)

lemma empty_mailbox_inv: "mailbox_inv empty_mailbox"
  by (simp add: mailbox_inv_def empty_mailbox_def held_inodes_def)

lemma sum_sub: "A \<subseteq># B \<Longrightarrow> \<Sum>\<^sub># A \<subseteq># \<Sum>\<^sub># B"
  by (auto simp: subset_mset.le_iff_add)

lemma chosen_files:
  assumes "distinct is" "\<forall>i \<in> set is. i < length xs"
  shows "(\<Sum>i\<leftarrow>is. mset (xs ! i)) \<subseteq># (\<Sum>x\<leftarrow>xs. mset x)"
proof -
  have "mset is = mset_set (set is)" "mset [0..<length xs] = mset_set {0..<length xs}" using assms(1) by (simp_all add: mset_set_set)
  moreover have "set is \<subseteq> {0..<length xs}" using assms(2) by auto
  ultimately have "mset is \<subseteq># mset [0..<length xs]" by (simp add: subset_imp_msubset_mset_set)
  then have "image_mset (\<lambda>i. mset (xs ! i)) (mset is) \<subseteq># image_mset (\<lambda>i. mset (xs ! i)) (mset [0..<length xs])" by (rule image_mset_subseteq_mono)
  from sum_sub [OF this] have "(\<Sum>i\<leftarrow>is. mset (xs ! i)) \<subseteq># (\<Sum>i\<leftarrow>[0..<length xs]. mset (xs ! i))"
    by (simp only: mset_map [symmetric] sum_mset_sum_list)
  also have "(\<Sum>i\<leftarrow>[0..<length xs]. mset (xs ! i)) = (\<Sum>x\<leftarrow>xs. mset x)"
    by (rule arg_cong [where f = sum_list], rule nth_equalityI) simp_all
  finally show ?thesis .
qed

lemma concat_sub: "\<forall>f \<in> set fs. mset (snd f) \<subseteq># mset (g (fst f)) \<Longrightarrow> mset (concat (map snd fs)) \<subseteq># (\<Sum>i\<leftarrow>map fst fs. mset (g i))"
  by (induction fs) (simp_all add: subset_mset.add_mono)

lemma concat_same: "\<forall>f \<in> set fs. snd f = g (fst f) \<Longrightarrow> mset (concat (map snd fs)) = (\<Sum>i\<leftarrow>map fst fs. mset (g i))"
  by (induction fs) simp_all

lemma finished_sub: "mailbox_inv b \<Longrightarrow> mset (returned_mail b) \<subseteq># (\<Sum>i\<leftarrow>map fst (mb_finished b). mset (mb_inodes b ! i))"
proof -
  assume "mailbox_inv b"
  then have "\<forall>f \<in> set (mb_finished b). mset (snd f) \<subseteq># mset (mb_inodes b ! fst f)" by (simp add: mailbox_inv_def)
  then show ?thesis unfolding returned_mail_def by (rule concat_sub)
qed

text \<open>However posts and drains of several processes interleave, no message is returned more often than it was posted.\<close>

theorem mail_at_most_once:
  assumes "mailbox_step\<^sup>*\<^sup>* empty_mailbox b"
  shows "mset (returned_mail b) \<subseteq># mset (mb_posted b)"
proof -
  have inv: "mailbox_inv b" using mailbox_runs.run_inv [OF assms empty_mailbox_inv] .
  then have "distinct (map fst (mb_finished b))" "\<forall>i \<in> set (map fst (mb_finished b)). i < length (mb_inodes b)"
    by (auto simp: mailbox_inv_def held_inodes_def)
  from chosen_files [OF this] have "(\<Sum>i\<leftarrow>map fst (mb_finished b). mset (mb_inodes b ! i)) \<subseteq># mset (mb_posted b)"
    using inv by (simp add: mailbox_inv_def)
  with finished_sub [OF inv] show ?thesis by (rule subset_mset.order_trans)
qed

definition hello_mail :: "string mailbox" where
  "hello_mail = drain_return 0 (drain_read 0 (drain_claim (whole_post ''hello'' empty_mailbox)))"

lemma hello_mail_steps: "mailbox_step\<^sup>*\<^sup>* empty_mailbox hello_mail"
  unfolding hello_mail_def whole_post_def
  using mb_opens mb_writes mb_claimed mb_reads mb_returns by (meson rtranclp.rtrancl_into_rtrancl rtranclp.rtrancl_refl)

lemma mail_at_most_once_witness:
  "mset (returned_mail hello_mail) \<subseteq># mset (mb_posted hello_mail) \<and> returned_mail hello_mail = [''hello'']"
proof
  show "mset (returned_mail hello_mail) \<subseteq># mset (mb_posted hello_mail)" by (rule mail_at_most_once [OF hello_mail_steps])
  show "returned_mail hello_mail = [''hello'']" by code_simp
qed

text \<open>When each post is one step, nothing is lost either.\<close>

definition prompt_inv :: "'m mailbox \<Rightarrow> bool" where
  "prompt_inv b \<longleftrightarrow>
     mailbox_inv b \<and> mb_open b = [] \<and> set (held_inodes b) = {..<length (mb_inodes b)} \<and>
     (\<forall>c \<in> set (mb_claims b). \<forall>ms. snd c = Some ms \<longrightarrow> ms = mb_inodes b ! fst c) \<and>
     (\<forall>f \<in> set (mb_finished b). snd f = mb_inodes b ! fst f)"

lemma held_bound:
  "mailbox_inv b \<Longrightarrow> i \<in> set (held_inodes b) \<Longrightarrow> i < length (mb_inodes b)"
  "c \<in> set (mb_claims b) \<Longrightarrow> fst c \<in> set (held_inodes b)"
  "f \<in> set (mb_finished b) \<Longrightarrow> fst f \<in> set (held_inodes b)"
  by (auto simp: mailbox_inv_def held_inodes_def)

lemma whole_post_simps:
  "mb_open b = [] \<Longrightarrow> mb_path b = Some i \<Longrightarrow>
     whole_post m b = b\<lparr>mb_inodes := (mb_inodes b)[i := mb_inodes b ! i @ [m]], mb_posted := mb_posted b @ [m]\<rparr>"
  "mb_open b = [] \<Longrightarrow> mb_path b = None \<Longrightarrow>
     whole_post m b = b\<lparr>mb_path := Some (length (mb_inodes b)), mb_inodes := mb_inodes b @ [[m]], mb_posted := mb_posted b @ [m]\<rparr>"
  by (simp_all add: whole_post_def post_open_def post_write_def remove_at_def)

lemma prompt_post: "prompt_inv b \<Longrightarrow> prompt_inv (whole_post m b)"
proof -
  assume inv: "prompt_inv b"
  have m: "mailbox_inv (whole_post m b)" unfolding whole_post_def using inv by (intro inv_write inv_open) (simp add: prompt_inv_def)
  have op: "mb_open b = []" using inv by (simp add: prompt_inv_def)
  show ?thesis
  proof (cases "mb_path b")
    case None
    have "mailbox_inv b" using inv by (simp add: prompt_inv_def)
    note bound = held_bound(1) [OF this]
    have "fst c < length (mb_inodes b)" if "c \<in> set (mb_claims b)" for c using bound held_bound(2) [OF that] by blast
    moreover have "fst f < length (mb_inodes b)" if "f \<in> set (mb_finished b)" for f using bound held_bound(3) [OF that] by blast
    ultimately show ?thesis using inv m op None unfolding prompt_inv_def whole_post_simps(2) [OF op None]
      by (auto simp: held_inodes_def nth_append lessThan_Suc)
  next
    case (Some i)
    have other: "(mb_inodes b)[i := x] ! fst c = mb_inodes b ! fst c" if "c \<in> set (mb_claims b)" for c x
      using inv that Some by (intro nth_list_update_neq) (auto simp: prompt_inv_def mailbox_inv_def held_inodes_def)
    have "(mb_inodes b)[i := x] ! fst f = mb_inodes b ! fst f" if "f \<in> set (mb_finished b)" for f x
      using inv that Some by (intro nth_list_update_neq) (auto simp: prompt_inv_def mailbox_inv_def held_inodes_def)
    with other show ?thesis using inv m op Some unfolding prompt_inv_def whole_post_simps(1) [OF op Some]
      by (simp add: held_inodes_def)
  qed
qed

lemma prompt_claim: "prompt_inv b \<Longrightarrow> prompt_inv (drain_claim b)"
  unfolding prompt_inv_def using inv_claim [of b] by (auto simp: drain_claim_def held_inodes_def split: option.splits)

lemma prompt_read: "prompt_inv b \<Longrightarrow> prompt_inv (drain_read k b)"
  unfolding prompt_inv_def using inv_read [of b k] by (auto simp: read_held dest!: read_claims)

lemma prompt_return: "prompt_inv b \<Longrightarrow> prompt_inv (drain_return k b)"
proof -
  assume inv: "prompt_inv b"
  show ?thesis
  proof (rule return_claims [of k b])
    assume "drain_return k b = b"
    with inv show ?thesis by simp
  next
    fix i ms
    assume r: "(i, Some ms) \<in> set (mb_claims b)" "mb_finished (drain_return k b) = mb_finished b @ [(i, ms)]"
      "set (mb_claims (drain_return k b)) \<subseteq> set (mb_claims b)" "mset (held_inodes (drain_return k b)) = mset (held_inodes b)"
    have "mailbox_inv (drain_return k b)" using inv by (intro inv_return) (simp add: prompt_inv_def)
    moreover have "ms = mb_inodes b ! i" using inv r(1) by (fastforce simp: prompt_inv_def)
    ultimately show ?thesis using inv r(3) mset_eq_setD [OF r(4)] by (auto simp: prompt_inv_def r(2))
  qed
qed

lemma prompt_inv_step: "prompt_step b c \<Longrightarrow> prompt_inv b \<Longrightarrow> prompt_inv c"
  by (induction rule: prompt_step.induct) (simp_all add: prompt_post prompt_claim prompt_read prompt_return)

interpretation prompt_runs: invariant_system prompt_step prompt_inv
  by unfold_locales (rule prompt_inv_step)

text \<open>C36 mail_exactly_once. When no drain falls between the open and the write of a post, every message posted is returned exactly once or still waits: none is lost.\<close>

theorem mail_exactly_once:
  assumes "prompt_step\<^sup>*\<^sup>* empty_mailbox b" "mb_claims b = []"
  shows "mset (returned_mail b @ peek_mail b) = mset (mb_posted b)"
proof -
  have inv: "prompt_inv b"
    by (rule prompt_runs.run_inv [OF assms(1)]) (simp add: prompt_inv_def empty_mailbox_inv, simp add: empty_mailbox_def held_inodes_def)
  have d: "distinct (held_inodes b)" "set (held_inodes b) = {..<length (mb_inodes b)}" using inv by (simp_all add: prompt_inv_def mailbox_inv_def)
  have "mset (held_inodes b) = mset [0..<length (mb_inodes b)]" using mset_set_set [OF d(1)] by (simp add: d(2) lessThan_atLeast0)
  from arg_cong [OF this, of "\<lambda>M. \<Sum>\<^sub># (image_mset (\<lambda>i. mset (mb_inodes b ! i)) M)"]
  have "(\<Sum>i\<leftarrow>held_inodes b. mset (mb_inodes b ! i)) = (\<Sum>i\<leftarrow>[0..<length (mb_inodes b)]. mset (mb_inodes b ! i))"
    by (simp only: mset_map [symmetric] sum_mset_sum_list)
  also have "\<dots> = (\<Sum>x\<leftarrow>mb_inodes b. mset x)" by (rule arg_cong [where f = sum_list], rule nth_equalityI) simp_all
  also have "\<dots> = mset (mb_posted b)" using inv by (simp add: prompt_inv_def mailbox_inv_def)
  finally have all: "(\<Sum>i\<leftarrow>held_inodes b. mset (mb_inodes b ! i)) = mset (mb_posted b)" .
  have "mset (returned_mail b) = (\<Sum>i\<leftarrow>map fst (mb_finished b). mset (mb_inodes b ! i))"
  proof -
    have "\<forall>f \<in> set (mb_finished b). snd f = mb_inodes b ! fst f" using inv by (simp add: prompt_inv_def)
    then show ?thesis unfolding returned_mail_def by (rule concat_same)
  qed
  moreover have "mset (peek_mail b) = (\<Sum>i\<leftarrow>(case mb_path b of None \<Rightarrow> [] | Some i \<Rightarrow> [i]). mset (mb_inodes b ! i))"
    by (simp add: peek_mail_def split: option.split)
  moreover have "(\<Sum>i\<leftarrow>held_inodes b. mset (mb_inodes b ! i)) =
      (\<Sum>i\<leftarrow>(case mb_path b of None \<Rightarrow> [] | Some i \<Rightarrow> [i]). mset (mb_inodes b ! i)) + (\<Sum>i\<leftarrow>map fst (mb_finished b). mset (mb_inodes b ! i))"
    unfolding held_inodes_def assms(2) by simp
  ultimately have "mset (peek_mail b) + mset (returned_mail b) = mset (mb_posted b)" using all by simp
  then show ?thesis by (simp add: union_commute)
qed

lemma hello_mail_prompt: "prompt_step\<^sup>*\<^sup>* empty_mailbox hello_mail"
  unfolding hello_mail_def
  using pm_post pm_claimed pm_reads pm_returns by (meson rtranclp.rtrancl_into_rtrancl rtranclp.rtrancl_refl)

lemma mail_exactly_once_witness:
  "mset (returned_mail hello_mail @ peek_mail hello_mail) = mset (mb_posted hello_mail) \<and> returned_mail hello_mail = [''hello'']"
proof
  have "mb_claims hello_mail = []" by code_simp
  with hello_mail_prompt show "mset (returned_mail hello_mail @ peek_mail hello_mail) = mset (mb_posted hello_mail)" by (rule mail_exactly_once)
  show "returned_mail hello_mail = [''hello'']" by code_simp
qed

text \<open>C0 mail_lost_in_drain. A post that has opened the file when a drain renames it, and writes after the drain has read it, is lost: it is neither returned nor waiting.\<close>

theorem mail_lost_in_drain:
  "\<exists>b. mailbox_step\<^sup>*\<^sup>* empty_mailbox b \<and> mb_posted b = [''hello''] \<and> mb_open b = [] \<and> mb_claims b = [] \<and> peek_mail b = [] \<and> returned_mail b = []"
proof -
  let ?b = "drain_return 0 (post_write 0 (drain_read 0 (drain_claim (post_open ''hello'' empty_mailbox))))"
  have "mailbox_step\<^sup>*\<^sup>* empty_mailbox ?b"
    using mb_opens mb_writes mb_claimed mb_reads mb_returns by (meson rtranclp.rtrancl_into_rtrancl rtranclp.rtrancl_refl)
  moreover have "mb_posted ?b = [''hello''] \<and> mb_open ?b = [] \<and> mb_claims ?b = [] \<and> peek_mail ?b = [] \<and> returned_mail ?b = []" by code_simp
  ultimately show ?thesis by blast
qed

section \<open>Notes and agents\<close>

text \<open>The directory of notes: the names of its files and what they hold.\<close>

type_synonym note_dir = "(string, string) jmap"

definition topic_file :: "string \<Rightarrow> string" where "topic_file n = n @ ''.md''"

definition readIndex :: "note_dir \<Rightarrow> string" where
  "readIndex d = (case map_of d ''MEMORY.md'' of None \<Rightarrow> [] | Some s \<Rightarrow> s)"

definition writeTopic :: "string \<Rightarrow> string \<Rightarrow> note_dir \<Rightarrow> note_dir" where
  "writeTopic n s d = jmap_set (topic_file n) s d"

definition readTopic :: "string \<Rightarrow> note_dir \<Rightarrow> string option" where
  "readTopic n d = map_of d (topic_file n)"

definition listTopics :: "note_dir \<Rightarrow> string list" where
  "listTopics d = map (\<lambda>f. take (length f - 3) f) (filter (\<lambda>f. suffix ''.md'' f \<and> f \<noteq> ''MEMORY.md'') (map fst d))"

definition put_agent :: "string \<Rightarrow> 'a \<Rightarrow> (string, 'a) jmap \<Rightarrow> (string, 'a) jmap" where
  "put_agent i a m = jmap_set i a m"

definition list_agents :: "(string, 'a) jmap \<Rightarrow> 'a list" where
  "list_agents m = map snd m"

lemma note_kept: "readTopic m (writeTopic n s d) = (if m = n then Some s else readTopic m d)"
  by (simp add: readTopic_def writeTopic_def topic_file_def map_of_jmap_set)

text \<open>A name that is listed is a note to read; a note written is listed, the index apart.\<close>

lemma listed_note: "n \<in> set (listTopics d) \<longleftrightarrow> readTopic n d \<noteq> None \<and> n \<noteq> ''MEMORY''"
proof -
  have "n \<in> set (listTopics d) \<longleftrightarrow> (\<exists>f \<in> fst ` set d. f = topic_file n \<and> f \<noteq> ''MEMORY.md'')"
    by (force simp: listTopics_def topic_file_def suffix_def)
  also have "\<dots> \<longleftrightarrow> topic_file n \<in> fst ` set d \<and> n \<noteq> ''MEMORY''"
    using append_same_eq [of n "''.md''" "''MEMORY''"] by (auto simp: topic_file_def)
  finally show ?thesis by (simp add: readTopic_def map_of_eq_None_iff)
qed

end
