(* ===== verification/Sessions.thy ===== *)
theory Sessions
  imports Compaction JsRegex
begin

text \<open>
  The readers of stored sessions (\<open>store/sessions.ts\<close>): the title of a session and what it is up to, the reference to a session by
  identifier, name or beginning of an identifier, and the prompts to recall.  The collation of \<open>localeCompare\<close> is a parameter, the key
  it compares by.
\<close>

section \<open>Records\<close>

record session_head =
  sh_id :: string
  sh_cwd :: string
  sh_name :: "string option"
  sh_origin :: "string option"
  sh_updatedAt :: string

definition for_cwd :: "string option \<Rightarrow> session_head list \<Rightarrow> session_head list" where
  "for_cwd cwd rs = (case cwd of None \<Rightarrow> rs | Some d \<Rightarrow> if d = [] then rs else filter (\<lambda>r. sh_cwd r = d) rs)"

definition newest_first :: "(string \<Rightarrow> int) \<Rightarrow> session_head list \<Rightarrow> session_head list" where
  "newest_first collate rs = sort_key (\<lambda>r. - collate (sh_updatedAt r)) rs"

section \<open>Previews\<close>

definition clip_line :: "string \<Rightarrow> string" where
  "clip_line s = (let flat = trim (collapse_ws s) in if length flat > 72 then take 72 flat @ ellipsis else flat)"

definition block_texts :: "content_block list \<Rightarrow> string" where
  "block_texts bs = join '' '' (map (\<lambda>b. case b of TextBlock s \<Rightarrow> s | _ \<Rightarrow> []) bs)"

definition block_kind :: "content_block \<Rightarrow> string" where
  "block_kind b =
     (case b of TextBlock s \<Rightarrow> ''text'' | ThinkingBlock s t \<Rightarrow> ''thinking'' | ToolUse i n j \<Rightarrow> ''tool_use'' | ToolResult i c e \<Rightarrow> ''tool_result''
      | ImageBlock m d \<Rightarrow> ''image'' | DocumentBlock m d \<Rightarrow> ''document'')"

definition or_text :: "string \<Rightarrow> string \<Rightarrow> string" where "or_text s d = (if s = [] then d else s)"

definition first_preview :: "conversation_entry list \<Rightarrow> string" where
  "first_preview entries =
     (case find (\<lambda>e. case ce_payload e of UserEv u \<Rightarrow> True | _ \<Rightarrow> False) entries of
        None \<Rightarrow> ''(empty)''
      | Some e \<Rightarrow>
          (case ce_payload e of
             UserEv u \<Rightarrow>
               (case content (ue_message u) of
                  StrContent s \<Rightarrow> or_text (clip_line s) ''(empty)''
                | Blocks bs \<Rightarrow>
                    (let kinds = map block_kind (filter (\<lambda>b. block_kind b \<noteq> ''text'') bs)
                     in or_text (clip_line (block_texts bs))
                          (if kinds = [] then ''(empty)'' else ''['' @ join '', '' (rev (remdups (rev kinds))) @ '']'')))
           | _ \<Rightarrow> ''(empty)''))"

fun last_reply :: "conversation_entry list \<Rightarrow> string" where
  "last_reply [] = []"
| "last_reply (e # es) =
     (case ce_payload e of
        AssistantEv a \<Rightarrow>
          (let t = clip_line (case content (ae_message a) of StrContent s \<Rightarrow> s | Blocks bs \<Rightarrow> block_texts bs)
           in if t \<noteq> [] then t else last_reply es)
      | _ \<Rightarrow> last_reply es)"

definition sessionPreviews :: "(string \<Rightarrow> conversation_entry list) \<Rightarrow> string \<Rightarrow> string \<times> string" where
  "sessionPreviews conversation sid =
     (let entries = effectiveEntries (conversation sid) in (first_preview entries, last_reply (rev entries)))"

definition recentSessions ::
  "(string \<Rightarrow> int) \<Rightarrow> (string \<Rightarrow> conversation_entry list) \<Rightarrow> string option \<Rightarrow> nat option \<Rightarrow> session_head list \<Rightarrow> (session_head \<times> string \<times> string) list" where
  "recentSessions collate conversation cwd limit rs =
     (let sorted = newest_first collate (for_cwd cwd rs);
          kept = (case limit of None \<Rightarrow> sorted | Some n \<Rightarrow> if n = 0 then sorted else take n sorted)
      in map (\<lambda>r. (r, sessionPreviews conversation (sh_id r))) kept)"

definition mostRecentSessionId ::
  "(string \<Rightarrow> int) \<Rightarrow> (string \<Rightarrow> conversation_entry list) \<Rightarrow> string option \<Rightarrow> session_head list \<Rightarrow> string option" where
  "mostRecentSessionId collate conversation cwd rs =
     (let all = recentSessions collate conversation cwd (Some 20) rs
      in case find (\<lambda>s. case sh_origin (fst s) of None \<Rightarrow> True | Some og \<Rightarrow> og = []) all of
           Some s \<Rightarrow> Some (sh_id (fst s))
         | None \<Rightarrow> (case all of [] \<Rightarrow> None | s # _ \<Rightarrow> Some (sh_id (fst s))))"

section \<open>References\<close>

definition named_by :: "string \<Rightarrow> session_head \<Rightarrow> bool" where
  "named_by ref r = (case sh_name r of None \<Rightarrow> False | Some n \<Rightarrow> n \<noteq> [] \<and> toLowerCase n = toLowerCase ref)"

definition resolveSessionRef :: "(string \<Rightarrow> int) \<Rightarrow> session_head list \<Rightarrow> string \<Rightarrow> string option" where
  "resolveSessionRef collate rs ref =
     (case find (\<lambda>r. sh_id r = ref) rs of
        Some r \<Rightarrow> Some (sh_id r)
      | None \<Rightarrow>
          (case newest_first collate (filter (named_by ref) rs) of
             r # _ \<Rightarrow> Some (sh_id r)
           | [] \<Rightarrow>
               (if length ref \<ge> 8 then (case filter (\<lambda>r. starts_with ref (sh_id r)) rs of [r] \<Rightarrow> Some (sh_id r) | _ \<Rightarrow> None) else None)))"

section \<open>The prompts to recall\<close>

definition userTurnText :: "msg_content \<Rightarrow> string" where
  "userTurnText c = (case c of StrContent s \<Rightarrow> trim s | Blocks bs \<Rightarrow> trim (block_texts bs))"

definition typed_prompt :: "conversation_entry \<Rightarrow> string option" where
  "typed_prompt e =
     (case ce_payload e of
        UserEv u \<Rightarrow>
          (if au_type (ue_author u) \<noteq> HumanAuthor then None
           else (let t = userTurnText (content (ue_message u)) in if t \<noteq> [] \<and> \<not> starts_with EVENTS_HEADER t then Some t else None))
      | _ \<Rightarrow> None)"

fun newest_distinct :: "nat \<Rightarrow> string list \<Rightarrow> string list \<Rightarrow> string list" where
  "newest_distinct limit got [] = got"
| "newest_distinct limit got (t # ts) =
     (if t \<in> set got then newest_distinct limit got ts
      else if length (got @ [t]) \<ge> limit then got @ [t] else newest_distinct limit (got @ [t]) ts)"

definition collected_prompts ::
  "(string \<Rightarrow> int) \<Rightarrow> (conversation_entry \<Rightarrow> string) \<Rightarrow> (string \<Rightarrow> conversation_entry list) \<Rightarrow> string option \<Rightarrow> nat \<Rightarrow> session_head list \<Rightarrow> string list" where
  "collected_prompts collate said conversation cwd cap rs =
     (let sorted = sort_key (\<lambda>r. collate (sh_updatedAt r)) (for_cwd cwd rs);
          recent = (if cap = 0 then sorted else drop (length sorted - cap) sorted);
          found = concat (map (\<lambda>r. List.map_filter (\<lambda>e. map_option (Pair (said e)) (typed_prompt e)) (effectiveEntries (conversation (sh_id r)))) recent)
      in map snd (sort_key (\<lambda>c. collate (fst c)) found))"

definition recentPrompts ::
  "(string \<Rightarrow> int) \<Rightarrow> (conversation_entry \<Rightarrow> string) \<Rightarrow> (string \<Rightarrow> conversation_entry list) \<Rightarrow> string option \<Rightarrow> nat \<Rightarrow> nat \<Rightarrow> session_head list \<Rightarrow> string list" where
  "recentPrompts collate said conversation cwd cap limit rs =
     rev (newest_distinct limit [] (rev (collected_prompts collate said conversation cwd cap rs)))"

lemma remdups_snoc: "remdups (xs @ [t]) = filter (\<lambda>u. u \<noteq> t) (remdups xs) @ [t]"
  by (induction xs) auto

lemma newest_distinct_take:
  "length got < limit \<Longrightarrow> newest_distinct limit got ts = take limit (got @ filter (\<lambda>t. t \<notin> set got) (rev (remdups (rev ts))))"
proof (induction limit got ts rule: newest_distinct.induct)
  case (2 limit got t ts)
  have step: "filter P (rev (remdups (rev (t # ts)))) = (if P t then [t] else []) @ filter (\<lambda>u. P u \<and> u \<noteq> t) (rev (remdups (rev ts)))" for P
    by (simp add: remdups_snoc rev_filter conj_commute)
  show ?case
  proof (cases "t \<in> set got")
    case True
    then have "(\<lambda>u. u \<notin> set got \<and> u \<noteq> t) = (\<lambda>u. u \<notin> set got)" by auto
    then show ?thesis using 2 True by (simp only: step) simp
  next
    case False
    have same: "(\<lambda>u. u \<notin> set (got @ [t])) = (\<lambda>u. u \<notin> set got \<and> u \<noteq> t)" by auto
    show ?thesis
    proof (cases "length (got @ [t]) \<ge> limit")
      case True
      then have "limit = length (got @ [t])" using 2(3) by simp
      then show ?thesis using False True by (simp only: step) simp
    next
      case small: False
      then show ?thesis using 2(2) [OF False small] False by (simp only: step same) simp
    qed
  qed
qed simp

text \<open>The prompts recalled are the last \<open>limit\<close> of the distinct ones, each at its latest position.\<close>

theorem recalled_prompts:
  assumes "0 < limit"
  shows "recentPrompts collate said conversation cwd cap limit rs =
     (let ps = remdups (collected_prompts collate said conversation cwd cap rs) in drop (length ps - limit) ps)"
  using assms by (simp add: recentPrompts_def newest_distinct_take Let_def rev_take)

definition typed :: "string \<Rightarrow> string \<Rightarrow> conversation_entry" where
  "typed u s = \<lparr>ce_uuid = u, ce_parentUuid = None, ce_ts = u,
     ce_payload = UserEv \<lparr>ue_message = user_msg (StrContent s), ue_author = HUMAN, ue_requestId = None\<rparr>\<rparr>"

definition one_session :: "session_head" where
  "one_session = \<lparr>sh_id = ''session-1'', sh_cwd = ''/w'', sh_name = Some ''Fix'', sh_origin = None, sh_updatedAt = ''9''\<rparr>"

definition first_char :: "string \<Rightarrow> int" where "first_char s = (case s of [] \<Rightarrow> 0 | c # _ \<Rightarrow> of_char c)"

lemma recalled_prompts_witness:
  "recentPrompts first_char ce_ts (\<lambda>i. [typed ''1'' ''hi'', typed ''2'' ''go'', typed ''3'' ''hi'']) None 25 2 [one_session] =
     (let ps = remdups (collected_prompts first_char ce_ts (\<lambda>i. [typed ''1'' ''hi'', typed ''2'' ''go'', typed ''3'' ''hi'']) None 25 [one_session])
      in drop (length ps - 2) ps) \<and>
   recentPrompts first_char ce_ts (\<lambda>i. [typed ''1'' ''hi'', typed ''2'' ''go'', typed ''3'' ''hi'']) None 25 2 [one_session] = [''go'', ''hi'']"
proof
  show "recentPrompts first_char ce_ts (\<lambda>i. [typed ''1'' ''hi'', typed ''2'' ''go'', typed ''3'' ''hi'']) None 25 2 [one_session] =
     (let ps = remdups (collected_prompts first_char ce_ts (\<lambda>i. [typed ''1'' ''hi'', typed ''2'' ''go'', typed ''3'' ''hi'']) None 25 [one_session])
      in drop (length ps - 2) ps)" by (rule recalled_prompts) simp
  show "recentPrompts first_char ce_ts (\<lambda>i. [typed ''1'' ''hi'', typed ''2'' ''go'', typed ''3'' ''hi'']) None 25 2 [one_session] = [''go'', ''hi'']" by code_simp
qed

lemma newest_of: "newest_first collate rs = r # qs \<Longrightarrow> r \<in> set rs \<and> (\<forall>q \<in> set rs. collate (sh_updatedAt q) \<le> collate (sh_updatedAt r))"
proof -
  assume n: "newest_first collate rs = r # qs"
  then have "sorted (map (\<lambda>r. - collate (sh_updatedAt r)) (r # qs))" unfolding newest_first_def by (metis sorted_sort_key)
  moreover have "set (r # qs) = set rs" using n unfolding newest_first_def by (metis set_sort)
  ultimately show ?thesis by auto
qed

text \<open>A reference resolves to the session of that identifier; else to the latest of those so named; else to the only
  session whose identifier begins with it.\<close>

theorem resolved_reference:
  assumes "resolveSessionRef collate rs ref = Some i"
  obtains r where "r \<in> set rs" "sh_id r = i" "i = ref"
  | r where "r \<in> set rs" "sh_id r = i" "ref \<notin> sh_id ` set rs" "named_by ref r"
      "\<And>q. q \<in> set rs \<Longrightarrow> named_by ref q \<Longrightarrow> collate (sh_updatedAt q) \<le> collate (sh_updatedAt r)"
  | r where "r \<in> set rs" "sh_id r = i" "ref \<notin> sh_id ` set rs" "starts_with ref i" "filter (\<lambda>q. starts_with ref (sh_id q)) rs = [r]"
proof (cases "find (\<lambda>r. sh_id r = ref) rs")
  case (Some r)
  then have "r \<in> set rs" "sh_id r = ref" by (auto simp: find_Some_iff)
  moreover have "sh_id r = i" using assms Some by (simp add: resolveSessionRef_def)
  ultimately show ?thesis by (intro that(1) [of r]) simp_all
next
  case None
  then have no: "ref \<notin> sh_id ` set rs" by (auto simp: find_None_iff)
  show ?thesis
  proof (cases "newest_first collate (filter (named_by ref) rs)")
    case (Cons r qs)
    have "sh_id r = i" using assms None Cons by (simp add: resolveSessionRef_def)
    then show ?thesis using newest_of [OF Cons] no by (intro that(2) [of r]) simp_all
  next
    case Nil
    then obtain r where r: "filter (\<lambda>q. starts_with ref (sh_id q)) rs = [r]" "sh_id r = i"
      using assms None by (auto simp: resolveSessionRef_def split: if_splits list.splits)
    then have "r \<in> set rs" "starts_with ref i" by (auto dest!: Cons_eq_filterD [OF sym])
    then show ?thesis using r no by (intro that(3) [of r]) simp_all
  qed
qed

end
