(* ===== verification/SandboxSpec.thy ===== *)
theory SandboxSpec
  imports ProfileFiles Redact "HOL-Library.List_Lexorder" "HOL-Library.Char_ord"
begin

text \<open>
  The sandbox of commands (\<open>sandbox/\<close>): the policy of a profile resolved against a workspace (\<open>spec.ts\<close>), the environment a command gets
  (\<open>env.ts\<close>), the profile of Seatbelt (\<open>seatbelt.ts\<close>), the arguments of bubblewrap (\<open>bwrap.ts\<close>) and the choice between them (\<open>index.ts\<close>).
  What files exist is a parameter.
\<close>

section \<open>The specification\<close>

datatype filesystem_mode = WorkspaceWrites | ReadOnlyFs
datatype network_mode = NetAll | NetNone | NetAllowlist

record sandbox_policy =
  sp_fsMode :: "filesystem_mode option"
  sp_allowWrite :: "string list"
  sp_allowRead :: "string list"
  sp_denyRead :: "string list"
  sp_netMode :: "network_mode option"
  sp_allow :: "string list"
  sp_keep :: "string list"
  sp_required :: "bool option"

record sandbox_spec =
  ss_mode :: filesystem_mode
  ss_writable :: "string list"
  ss_unreadable :: "string list"
  ss_network :: network_mode
  ss_allow :: "string list"
  ss_hostPorts :: "nat list"
  ss_deny :: "string list"
  ss_keep :: "string list"
  ss_required :: bool

definition DEFAULT_UNREADABLE :: "string list" where
  "DEFAULT_UNREADABLE =
     [''~/.aws'', ''~/.azure'', ''~/.config/gcloud'', ''~/.docker/config.json'', ''~/.gnupg'', ''~/.kube'', ''~/.netrc'', ''~/.npmrc'', ''~/.pypirc'',
      ''~/.yodex/credentials.json'', ''~/.ssh/id_rsa'', ''~/.ssh/id_ed25519'', ''~/.ssh/id_ecdsa'', ''~/.ssh/id_dsa'']"

definition DEFAULT_WRITABLE_CACHES :: "string list" where
  "DEFAULT_WRITABLE_CACHES =
     [''~/.cache'', ''~/.npm'', ''~/.bun'', ''~/.cargo'', ''~/.gradle'', ''~/.m2'', ''~/.pnpm-store'', ''~/.local/share/uv'', ''~/.local/share/pnpm'',
      ''~/Library/Caches'']"

definition SCRATCH_DIRS :: "string list" where
  "SCRATCH_DIRS = [''/tmp'', ''/private/tmp'', ''/var/folders'', ''/private/var/folders'', ''/dev/shm'']"

definition expandHome :: "string \<Rightarrow> string \<Rightarrow> string \<Rightarrow> string" where
  "expandHome cwd home p =
     (if p = ''~'' then home else if take 2 p = ''~/'' then path_join [home, drop 2 p] else path_resolve cwd [p])"

definition uniq :: "'a list \<Rightarrow> 'a list" where "uniq xs = fold jset_add xs []"

definition resolveSandboxSpec ::
  "string \<Rightarrow> sandbox_policy \<Rightarrow> string list \<Rightarrow> string list \<Rightarrow> string \<Rightarrow> bool \<Rightarrow> nat list \<Rightarrow> string list \<Rightarrow> sandbox_spec" where
  "resolveSandboxSpec cwd policy roots scratch home hasSafetyBlock hostPorts deny =
     (let ex = expandHome cwd home;
          mode = (case sp_fsMode policy of Some m \<Rightarrow> m | None \<Rightarrow> WorkspaceWrites);
          allowRead = map ex (sp_allowRead policy);
          unreadable = filter (\<lambda>p. p \<notin> set allowRead) (map ex DEFAULT_UNREADABLE) @ map ex (sp_denyRead policy);
          writable = (case mode of
              ReadOnlyFs \<Rightarrow> uniq (SCRATCH_DIRS @ map ex scratch)
            | WorkspaceWrites \<Rightarrow> uniq (map ex roots @ SCRATCH_DIRS @ map ex scratch @ map ex DEFAULT_WRITABLE_CACHES @ map ex (sp_allowWrite policy)))
      in \<lparr>ss_mode = mode, ss_writable = writable, ss_unreadable = uniq unreadable,
          ss_network = (case sp_netMode policy of Some m \<Rightarrow> m | None \<Rightarrow> NetAll), ss_allow = sp_allow policy, ss_hostPorts = uniq hostPorts,
          ss_deny = uniq (map toLowerCase deny), ss_keep = sp_keep policy,
          ss_required = (case sp_required policy of Some r \<Rightarrow> r | None \<Rightarrow> hasSafetyBlock)\<rparr>)"

section \<open>Hosts and endpoints\<close>

definition undot :: "string \<Rightarrow> string" where
  "undot h = (if h \<noteq> [] \<and> last h = CHR ''.'' then butlast h else h)"

definition pattern_matches :: "string \<Rightarrow> string \<Rightarrow> bool" where
  "pattern_matches h pat \<longleftrightarrow>
     (let p = toLowerCase pat
      in if take 2 p = ''*.'' then h = drop 2 p \<or> suffix (''.'' @ drop 2 p) h else h = p)"

definition hostAllowed :: "string \<Rightarrow> string list \<Rightarrow> bool" where
  "hostAllowed host allow \<longleftrightarrow> list_ex (pattern_matches (undot (toLowerCase host))) allow"

definition all_digit :: "string \<Rightarrow> bool" where "all_digit s \<longleftrightarrow> s \<noteq> [] \<and> list_all is_digit s"

text \<open>The two expressions: a host in brackets, or one without a colon; then the port.\<close>

definition bracketed :: "string \<Rightarrow> (string \<times> string) option" where
  "bracketed e =
     (case e of
        c # r \<Rightarrow>
          (let host = takeWhile (\<lambda>c. c \<noteq> CHR '']'') r; rest = dropWhile (\<lambda>c. c \<noteq> CHR '']'') r
           in if c = CHR ''['' \<and> host \<noteq> [] \<and> rest \<noteq> [] then Some (host, tl rest) else None)
      | [] \<Rightarrow> None)"

definition port_after :: "string \<Rightarrow> nat option" where
  "port_after s = (case s of c # p \<Rightarrow> if c = CHR '':'' \<and> all_digit p then Some (str_nat p) else None | [] \<Rightarrow> None)"

definition splitEndpoint :: "string \<Rightarrow> (string \<times> nat) option" where
  "splitEndpoint e =
     (let plain = (let host = takeWhile (\<lambda>c. c \<noteq> CHR '':'') e
                   in case port_after (drop (length host) e) of Some p \<Rightarrow> if host = [] then None else Some (host, p) | None \<Rightarrow> None);
          m = (case bracketed e of
                 Some (host, rest) \<Rightarrow> (case port_after rest of Some p \<Rightarrow> Some (host, p) | None \<Rightarrow> plain)
               | None \<Rightarrow> plain)
      in case m of Some (host, p) \<Rightarrow> Some (undot (toLowerCase host), p) | None \<Rightarrow> None)"

definition isLoopback :: "string \<Rightarrow> bool" where
  "isLoopback host \<longleftrightarrow>
     host \<in> {''localhost'', ''::1''} \<or>
     (case split_ch CHR ''.'' host of
        [a, b, c, d] \<Rightarrow> a = ''127'' \<and> list_all (\<lambda>p. all_digit p \<and> length p \<le> 3) [b, c, d]
      | _ \<Rightarrow> False)"

definition unbracket :: "string \<Rightarrow> string" where
  "unbracket h =
     (let t = (case h of c # r \<Rightarrow> if c = CHR ''['' then r else h | [] \<Rightarrow> [])
      in if t \<noteq> [] \<and> last t = CHR '']'' then butlast t else t)"

definition same_endpoint :: "string \<Rightarrow> nat \<Rightarrow> string \<Rightarrow> bool" where
  "same_endpoint h port e \<longleftrightarrow>
     (case splitEndpoint e of Some (dh, dp) \<Rightarrow> dp = port \<and> (dh = h \<or> isLoopback dh \<and> isLoopback h) | None \<Rightarrow> False)"

definition endpointDenied :: "string \<Rightarrow> nat \<Rightarrow> string list \<Rightarrow> bool" where
  "endpointDenied host port deny \<longleftrightarrow> list_ex (same_endpoint (unbracket (undot (toLowerCase host))) port) deny"

datatype platform = Seatbelt | Bwrap

definition unenforcedDeny :: "sandbox_spec \<Rightarrow> platform option \<Rightarrow> string list" where
  "unenforcedDeny spec p =
     (if ss_network spec = NetNone \<and> p \<noteq> None then []
      else filter (\<lambda>e. case splitEndpoint e of
                         None \<Rightarrow> True
                       | Some (h, port) \<Rightarrow> if p = Some Seatbelt then \<not> isLoopback h \<and> ss_network spec \<noteq> NetAllowlist else True)
             (ss_deny spec))"

section \<open>The environment\<close>

definition secret_words :: "string list" where
  "secret_words =
     [''KEY'', ''TOKEN'', ''SECRET'', ''SECRETS'', ''PASSWORD'', ''PASSWD'', ''CREDENTIAL'', ''CREDENTIALS'', ''PRIVATE_KEY'', ''API_KEY'', ''AUTH'']"

definition SECRET_NAME :: rx where
  "SECRET_NAME = cats [alts [Bol, lit ''_''], alts (map lit_i secret_words), alts [Eol, lit ''_'']]"

definition KNOWN_SECRETS :: "string list" where
  "KNOWN_SECRETS =
     [''AWS_ACCESS_KEY_ID'', ''AWS_SECRET_ACCESS_KEY'', ''AWS_SESSION_TOKEN'', ''GOOGLE_APPLICATION_CREDENTIALS'', ''NPM_CONFIG__AUTH'',
      ''NPM_CONFIG__AUTHTOKEN'', ''DOCKER_AUTH_CONFIG'', ''KUBECONFIG_DATA'', ''DATABASE_URL'', ''REDIS_URL'']"

definition NOT_SECRETS :: "string list" where
  "NOT_SECRETS = [''SSH_AUTH_SOCK'', ''GPG_TTY'', ''LESSKEY'', ''XAUTHORITY'', ''AUTH_SOCK'', ''PUBKEY'', ''KEYMAP'', ''TERM_PROGRAM_KEY'']"

definition isSecretName :: "string \<Rightarrow> bool" where
  "isSecretName name \<longleftrightarrow>
     (if name \<in> set NOT_SECRETS then False else if name \<in> set KNOWN_SECRETS then True else rx_test SECRET_NAME name)"

definition withheld :: "string list \<Rightarrow> string \<times> string \<Rightarrow> bool" where
  "withheld keep v \<longleftrightarrow> fst v \<notin> set keep \<and> isSecretName (fst v)"

record scrubbed_env =
  se_env :: "(string, string) jmap"
  se_scrubbed :: "string list"
  se_removed :: "(string, string) jmap"

definition scrubEnv :: "(string, string) jmap \<Rightarrow> string list \<Rightarrow> scrubbed_env" where
  "scrubEnv base keep =
     \<lparr>se_env = filter (\<lambda>v. \<not> withheld keep v) base, se_scrubbed = sort (map fst (filter (withheld keep) base)),
      se_removed = filter (withheld keep) base\<rparr>"

section \<open>Seatbelt\<close>

definition escaped :: "string \<Rightarrow> string" where
  "escaped s = concat (map (\<lambda>c. if c = bslash \<or> c = dquote then [bslash, c] else [c]) s)"

definition sb_lit :: "string \<Rightarrow> string" where "sb_lit p = [dquote] @ escaped p @ [dquote]"

definition sb_port :: "nat \<Rightarrow> string" where "sb_port p = sb_lit (''localhost:'' @ nat_str p)"

definition base_lines :: "sandbox_spec \<Rightarrow> string list" where
  "base_lines spec =
     [''(version 1)'', ''(allow default)'', ''(deny file-write*)''] @
     map (\<lambda>w. ''(allow file-write* (subpath '' @ sb_lit w @ ''))'') (ss_writable spec) @
     [''(allow file-write* (literal '' @ sb_lit ''/dev/null'' @ '') (literal '' @ sb_lit ''/dev/zero'' @ '') (literal '' @ sb_lit ''/dev/stdout'' @
        '') (literal '' @ sb_lit ''/dev/stderr'' @ '') (regex #'' @ sb_lit ''^/dev/tty'' @ '') (regex #'' @ sb_lit ''^/dev/fd/'' @ '') (regex #'' @
        sb_lit ''^/dev/pty'' @ ''))'',
      ''(allow file-write* (regex #'' @ sb_lit ''^/private/var/folders/[^/]+/[^/]+/(T|C)/'' @ ''))'',
      ''(allow file-write* (regex #'' @ sb_lit ''^/private/var/run/'' @ ''))'']"

definition unreadable_line :: "string \<Rightarrow> string" where
  "unreadable_line u = ''(deny file-read* (literal '' @ sb_lit u @ '') (subpath '' @ sb_lit u @ ''))''"

definition network_lines :: "sandbox_spec \<Rightarrow> string list" where
  "network_lines spec =
     (case ss_network spec of
        NetNone \<Rightarrow>
          [''(deny network*)'', ''(allow network* (local unix-socket) (remote unix-socket))''] @
          map (\<lambda>p. ''(allow network-outbound (remote ip '' @ sb_port p @ ''))'') (ss_hostPorts spec)
      | NetAllowlist \<Rightarrow>
          [''(deny network*)'', ''(allow network-bind network-inbound (local ip '' @ sb_lit ''localhost:*'' @ ''))'',
           ''(allow network-outbound (remote ip '' @ sb_lit ''localhost:*'' @ ''))'', ''(allow network* (local unix-socket) (remote unix-socket))'']
      | NetAll \<Rightarrow> [])"

definition deny_line :: "nat \<Rightarrow> string" where "deny_line p = ''(deny network-outbound (remote ip '' @ sb_port p @ ''))''"

definition deny_lines :: "string list \<Rightarrow> string list" where
  "deny_lines deny =
     List.map_filter (\<lambda>e. case splitEndpoint e of Some (h, p) \<Rightarrow> if isLoopback h then Some (deny_line p) else None | None \<Rightarrow> None) deny"

definition profile_lines :: "sandbox_spec \<Rightarrow> string list" where
  "profile_lines spec = base_lines spec @ map unreadable_line (ss_unreadable spec) @ network_lines spec @ deny_lines (ss_deny spec)"

definition seatbeltProfile :: "sandbox_spec \<Rightarrow> string" where
  "seatbeltProfile spec = join [nl] (profile_lines spec) @ [nl]"

definition SANDBOX_EXEC :: string where "SANDBOX_EXEC = ''/usr/bin/sandbox-exec''"

definition seatbeltArgv :: "sandbox_spec \<Rightarrow> string list \<Rightarrow> string list" where
  "seatbeltArgv spec argv = [SANDBOX_EXEC, ''-p'', seatbeltProfile spec] @ argv"

section \<open>Bubblewrap\<close>

datatype file_kind = Absent | Dir | Plain

definition shadow :: "(string \<Rightarrow> file_kind) \<Rightarrow> string \<Rightarrow> string list" where
  "shadow kind u = (case kind u of Absent \<Rightarrow> [] | Dir \<Rightarrow> [''--tmpfs'', u] | Plain \<Rightarrow> [''--ro-bind'', ''/dev/null'', u])"

definition bwrapArgv :: "(string \<Rightarrow> file_kind) \<Rightarrow> string \<Rightarrow> sandbox_spec \<Rightarrow> string list \<Rightarrow> string list" where
  "bwrapArgv kind bwrap spec argv =
     [bwrap, ''--ro-bind'', ''/'', ''/'', ''--dev'', ''/dev'', ''--proc'', ''/proc'', ''--die-with-parent''] @
     concat (map (\<lambda>w. if kind w \<noteq> Absent then [''--bind'', w, w] else []) (ss_writable spec)) @
     concat (map (shadow kind) (ss_unreadable spec)) @
     (if ss_network spec = NetNone then [''--unshare-net''] else []) @ [''--''] @ argv"

section \<open>What is enforced is known\<close>

lemma set_uniq [simp]: "set (uniq xs) = set xs"
proof -
  have "set (fold jset_add xs ys) = set ys \<union> set xs" for ys :: "'a list"
    by (induction xs arbitrary: ys) auto
  then show ?thesis by (simp add: uniq_def)
qed

lemma undot_plain: "h \<noteq> [] \<Longrightarrow> last h \<noteq> CHR ''.'' \<Longrightarrow> undot h = h"
  by (simp add: undot_def)

text \<open>A denied endpoint as the proxy is asked for it.\<close>

definition plain_host :: "string \<Rightarrow> bool" where
  "plain_host h \<longleftrightarrow> h \<noteq> [] \<and> last h \<notin> {CHR ''.'', CHR '']''} \<and> hd h \<noteq> CHR ''['' \<and> toLowerCase h = h"

lemma plain_shown: "plain_host h \<Longrightarrow> unbracket (undot (toLowerCase h)) = h"
  by (cases h) (auto simp: plain_host_def undot_def unbracket_def)

text \<open>An endpoint no command may reach is reported as not enforced, or it is refused: no network at all, the last rules of the Seatbelt
  profile refuse its loopback port, or the proxy refuses it.\<close>

theorem deny_enforced_or_reported:
  assumes "e \<in> set (ss_deny spec)" "e \<notin> set (unenforcedDeny spec p)" "p \<noteq> None" "ss_network spec \<noteq> NetNone"
  obtains h port where "p = Some Seatbelt" "splitEndpoint e = Some (h, port)"
      "isLoopback h \<Longrightarrow> \<exists>rest. profile_lines spec = rest @ deny_lines (ss_deny spec) \<and> deny_line port \<in> set (deny_lines (ss_deny spec))"
      "\<not> isLoopback h \<Longrightarrow> ss_network spec = NetAllowlist \<and> (plain_host h \<longrightarrow> endpointDenied h port (ss_deny spec))"
proof -
  obtain h port where e: "splitEndpoint e = Some (h, port)" "p = Some Seatbelt" "isLoopback h \<or> ss_network spec = NetAllowlist"
    using assms by (auto simp: unenforcedDeny_def split: option.splits if_splits)
  have "deny_line port \<in> set (deny_lines (ss_deny spec))" if "isLoopback h"
    using assms(1) e(1) that by (force simp: deny_lines_def List.map_filter_def image_iff)
  moreover have "plain_host h \<longrightarrow> endpointDenied h port (ss_deny spec)"
    using assms(1) e(1) plain_shown [of h] by (force simp: endpointDenied_def list_ex_iff same_endpoint_def)
  ultimately show ?thesis using e by (intro that [of h port]) (auto simp: profile_lines_def)
qed

text \<open>The name under which npm passes its token to a child is not taken for a secret, although the list names it in capitals.\<close>

theorem npm_token_passed_on:
  "isSecretName ''NPM_CONFIG__AUTHTOKEN'' \<and> se_removed (scrubEnv [(''npm_config__authtoken'', ''npm_s3cret'')] []) = []"
  by code_simp

text \<open>A credential directory allowed with a slash at its end stays unreadable.\<close>

theorem allow_read_slash_ignored:
  "''/home/u/.aws'' \<in> set (ss_unreadable (resolveSandboxSpec ''/w'' \<lparr>sp_fsMode = None, sp_allowWrite = [], sp_allowRead = [''~/.aws/''],
     sp_denyRead = [], sp_netMode = None, sp_allow = [], sp_keep = [], sp_required = None\<rparr> [] [] ''/home/u'' False [] []))"
  by code_simp

end
