(* ===== verification/SandboxProxy.thy ===== *)
theory SandboxProxy
  imports SandboxSpec ProfileCompose
begin

text \<open>
  The allowlist proxy of the sandbox (\<open>sandbox/proxy.ts\<close>) and the sandbox a run hands its tools (\<open>sandbox/index.ts\<close>).  A connection of a
  command is a state that each event of its two sockets moves on, in any order, also after the command's socket has ended.  The reading of
  a URL is a parameter (\<open>new URL\<close>), as is that of a port spelled otherwise than in decimal digits (\<open>Number\<close>; none when it is not finite or not
  positive).
\<close>

section \<open>The proxy\<close>

text \<open>What \<open>Number\<close> reads as a port need not be whole; a fraction is given by its digits.\<close>

datatype port_no = Whole nat | Fraction string

record parsed_url =
  pu_hostname :: string
  pu_port :: string
  pu_pathname :: string
  pu_search :: string

record proxy_env =
  px_allow :: "string list"
  px_deny :: "string list"
  px_parse :: "string \<Rightarrow> parsed_url option"
  px_number :: "string \<Rightarrow> port_no option"

definition MAX_HEAD :: nat where "MAX_HEAD = 64 * 1024"

text \<open>A connection.  \<open>tn_target\<close> is set once it is being connected, with what is sent first (and whether a \<open>CONNECT\<close> asked for it); \<open>tn_opened\<close> are
  the endpoints it was connected to, \<open>tn_request\<close> the last head and \<open>tn_received\<close> what came with it and since.\<close>

record tunnel =
  tn_head :: string
  tn_target :: "(bool \<times> string) option"
  tn_up :: bool
  tn_pending :: string
  tn_ended :: bool
  tn_sent :: string
  tn_out :: string
  tn_opened :: "(string \<times> port_no) list"
  tn_received :: string
  tn_request :: string

definition new_tunnel :: tunnel where
  "new_tunnel =
     \<lparr>tn_head = [], tn_target = None, tn_up = False, tn_pending = [], tn_ended = False, tn_sent = [], tn_out = [], tn_opened = [], tn_received = [],
      tn_request = []\<rparr>"

definition crlf :: string where "crlf = [cr, nl]"

fun index_of :: "string \<Rightarrow> string \<Rightarrow> nat option" where
  "index_of pat [] = (if pat = [] then Some 0 else None)"
| "index_of pat (c # s) = (if take (length pat) (c # s) = pat then Some 0 else map_option Suc (index_of pat s))"

definition port_number :: "(string \<Rightarrow> port_no option) \<Rightarrow> string \<Rightarrow> port_no option" where
  "port_number number s = (if all_digit s then (if str_nat s > 0 then Some (Whole (str_nat s)) else None) else number s)"

definition splitHostPort :: "(string \<Rightarrow> port_no option) \<Rightarrow> string \<Rightarrow> nat \<Rightarrow> string \<times> port_no" where
  "splitHostPort number target defaultPort =
     (let plain =
        (case find_index (\<lambda>c. c = CHR '':'') (rev target) of
           None \<Rightarrow> (target, Whole defaultPort)
         | Some i \<Rightarrow>
             (let k = length target - 1 - i
              in case port_number number (drop (k + 1) target) of Some p \<Rightarrow> (take k target, p) | None \<Rightarrow> (target, Whole defaultPort)))
      in case bracketed target of
           Some (host, rest) \<Rightarrow>
             if rest = [] then (host, Whole defaultPort) else (case port_after rest of Some p \<Rightarrow> (host, Whole p) | None \<Rightarrow> plain)
         | None \<Rightarrow> plain)"

text \<open>Nothing is written to a socket that has ended.\<close>

definition say :: "string \<Rightarrow> tunnel \<Rightarrow> tunnel" where
  "say s t = (if tn_ended t then t else t\<lparr>tn_sent := tn_sent t @ s\<rparr>)"

definition end_with :: "string \<Rightarrow> tunnel \<Rightarrow> tunnel" where
  "end_with s t = (say s t)\<lparr>tn_ended := True\<rparr>"

definition refusal :: "string \<Rightarrow> string" where
  "refusal why =
     ''HTTP/1.1 403 Forbidden'' @ crlf @ ''Content-Type: text/plain'' @ crlf @ ''Connection: close'' @ crlf @ crlf @ ''sandbox: '' @ why @ [nl]"

text \<open>The first words of the request line.\<close>

definition request_line :: "string \<Rightarrow> string" where
  "request_line h = (case index_of crlf h of Some i \<Rightarrow> take i h | None \<Rightarrow> h)"

definition nth_word :: "nat \<Rightarrow> string \<Rightarrow> string" where
  "nth_word k l = (let ws = split_ch CHR '' '' l in if k < length ws then ws ! k else [])"

text \<open>The head with its request line in origin form: \<open>replace\<close> with a plain pattern, which is found at the start.\<close>

definition rewritten :: "string \<Rightarrow> string \<Rightarrow> string" where
  "rewritten h by_line =
     (let l = request_line h in substitution l [] (drop (length l) h) by_line @ drop (length l) h)"

definition port_denied :: "string \<Rightarrow> port_no \<Rightarrow> string list \<Rightarrow> bool" where
  "port_denied host port deny \<longleftrightarrow> (case port of Whole p \<Rightarrow> endpointDenied host p deny | Fraction d \<Rightarrow> False)"

definition port_text :: "port_no \<Rightarrow> string" where
  "port_text port = (case port of Whole p \<Rightarrow> nat_str p | Fraction d \<Rightarrow> d)"

definition connect_to :: "proxy_env \<Rightarrow> bool \<Rightarrow> string \<Rightarrow> port_no \<Rightarrow> string \<Rightarrow> tunnel \<times> string list \<Rightarrow> tunnel \<times> string list" where
  "connect_to px isConnect host port forward s =
     (let (t, denied) = s
      in if host \<noteq> [] \<and> port_denied host port (px_deny px) then
           (end_with (refusal (host @ '':'' @ port_text port @
              '' is a governed cluster endpoint; commands reach it only through the session'' @ [squote] @ ''s kubeconfig'')) t, denied @ [host])
         else if host = [] \<or> \<not> hostAllowed host (px_allow px) then
           (end_with (refusal ((if host = [] then ''(no host)'' else host) @ '' is not in this HOP'' @ [squote] @ ''s network allowlist'')) t, denied @ [host])
         else (t\<lparr>tn_target := Some (isConnect, forward), tn_opened := tn_opened t @ [(host, port)]\<rparr>, denied))"

definition handle_head :: "proxy_env \<Rightarrow> string \<Rightarrow> string \<Rightarrow> tunnel \<times> string list \<Rightarrow> tunnel \<times> string list" where
  "handle_head px h rest s =
     (let l = request_line h; verb = nth_word 0 l; target = nth_word 1 l
      in if verb = ''CONNECT'' then
           (let (host, port) = splitHostPort (px_number px) target 443 in connect_to px True host port rest s)
         else (case px_parse px target of
                 None \<Rightarrow> apfst (end_with (''HTTP/1.1 400 Bad Request'' @ crlf @ ''Connection: close'' @ crlf @ crlf)) s
               | Some u \<Rightarrow>
                   connect_to px False (pu_hostname u) (Whole (if pu_port u = [] then 80 else str_nat (pu_port u)))
                     (rewritten h (verb @ '' '' @ pu_pathname u @ pu_search u @ '' HTTP/1.1'') @ crlf @ crlf @ rest) s))"

definition on_data :: "proxy_env \<Rightarrow> string \<Rightarrow> tunnel \<times> string list \<Rightarrow> tunnel \<times> string list" where
  "on_data px chunk s =
     (let (t, denied) = s
      in if tn_up t then (t\<lparr>tn_out := tn_out t @ chunk, tn_received := tn_received t @ chunk\<rparr>, denied)
         else if tn_target t \<noteq> None then (t\<lparr>tn_pending := tn_pending t @ chunk, tn_received := tn_received t @ chunk\<rparr>, denied)
         else (let h = tn_head t @ chunk
               in case index_of (crlf @ crlf) h of
                    None \<Rightarrow>
                      (if length h > MAX_HEAD then end_with (''HTTP/1.1 431 Request Header Fields Too Large'' @ crlf @ crlf) (t\<lparr>tn_head := h\<rparr>)
                       else t\<lparr>tn_head := h\<rparr>, denied)
                  | Some i \<Rightarrow>
                      handle_head px (take i h) (drop (i + 4) h) (t\<lparr>tn_head := [], tn_request := take i h, tn_received := h\<rparr>, denied)))"

definition up_open :: "tunnel \<Rightarrow> tunnel" where
  "up_open t =
     (case tn_target t of
        Some (isConnect, forward) \<Rightarrow>
          if tn_up t then t
          else (say (if isConnect then ''HTTP/1.1 200 Connection Established'' @ crlf @ crlf else []) t)
                 \<lparr>tn_up := True, tn_out := tn_out t @ forward @ tn_pending t, tn_pending := []\<rparr>
      | None \<Rightarrow> t)"

definition up_data :: "string \<Rightarrow> tunnel \<Rightarrow> tunnel" where
  "up_data d t = (if tn_up t then say d t else t)"

definition up_close :: "tunnel \<Rightarrow> tunnel" where "up_close t = (if tn_up t then end_with [] t else t)"

definition connect_failed :: "tunnel \<Rightarrow> tunnel" where
  "connect_failed t =
     (if tn_target t \<noteq> None \<and> \<not> tn_up t then end_with (''HTTP/1.1 502 Bad Gateway'' @ crlf @ ''Connection: close'' @ crlf @ crlf) t else t)"

definition client_close :: "tunnel \<Rightarrow> tunnel" where "client_close t = t\<lparr>tn_ended := True\<rparr>"

text \<open>The server: its connections and the hosts it has refused.\<close>

record allowlist_proxy =
  ap_conns :: "tunnel list"
  ap_denied :: "string list"

definition idle_proxy :: allowlist_proxy where "idle_proxy = \<lparr>ap_conns = [], ap_denied = []\<rparr>"

definition accept_conn :: "allowlist_proxy \<Rightarrow> allowlist_proxy" where
  "accept_conn p = p\<lparr>ap_conns := ap_conns p @ [new_tunnel]\<rparr>"

definition at_conn :: "nat \<Rightarrow> (tunnel \<times> string list \<Rightarrow> tunnel \<times> string list) \<Rightarrow> allowlist_proxy \<Rightarrow> allowlist_proxy" where
  "at_conn k f p =
     (if k < length (ap_conns p) then
        (let (t, denied) = f (ap_conns p ! k, ap_denied p) in \<lparr>ap_conns = (ap_conns p)[k := t], ap_denied = denied\<rparr>)
      else p)"

inductive proxy_step :: "proxy_env \<Rightarrow> allowlist_proxy \<Rightarrow> allowlist_proxy \<Rightarrow> bool" for px where
  px_accept: "proxy_step px p (accept_conn p)"
| px_data: "proxy_step px p (at_conn k (on_data px chunk) p)"
| px_open: "proxy_step px p (at_conn k (apfst up_open) p)"
| px_up_data: "proxy_step px p (at_conn k (apfst (up_data d)) p)"
| px_up_close: "proxy_step px p (at_conn k (apfst up_close) p)"
| px_failed: "proxy_step px p (at_conn k (apfst connect_failed) p)"
| px_closed: "proxy_step px p (at_conn k (apfst client_close) p)"

section \<open>What the proxy lets through\<close>

definition endpoint_ok :: "proxy_env \<Rightarrow> string \<times> port_no \<Rightarrow> bool" where
  "endpoint_ok px e \<longleftrightarrow> fst e \<noteq> [] \<and> hostAllowed (fst e) (px_allow px) \<and> \<not> port_denied (fst e) (snd e) (px_deny px)"

text \<open>A tunnel holds back nothing and adds nothing: what follows the head of a \<open>CONNECT\<close> is waiting or has been written, in order.\<close>

definition tunnel_inv :: "proxy_env \<Rightarrow> tunnel \<Rightarrow> bool" where
  "tunnel_inv px t \<longleftrightarrow>
     list_all (endpoint_ok px) (tn_opened t) \<and> length (tn_opened t) \<le> 1 \<and>
     (case tn_target t of
        None \<Rightarrow> tn_opened t = [] \<and> tn_out t = [] \<and> tn_pending t = [] \<and> \<not> tn_up t
      | Some (isConnect, forward) \<Rightarrow>
          (tn_up t \<longrightarrow> tn_pending t = []) \<and> (\<not> tn_up t \<longrightarrow> tn_out t = []) \<and>
          (isConnect \<longrightarrow> tn_received t = tn_request t @ crlf @ crlf @ (if tn_up t then tn_out t else forward @ tn_pending t)))"

definition proxy_inv :: "proxy_env \<Rightarrow> allowlist_proxy \<Rightarrow> bool" where
  "proxy_inv px p \<longleftrightarrow> list_all (tunnel_inv px) (ap_conns p)"

lemma say_fields [simp]:
  "tn_head (say s t) = tn_head t" "tn_target (say s t) = tn_target t" "tn_up (say s t) = tn_up t" "tn_pending (say s t) = tn_pending t"
  "tn_out (say s t) = tn_out t" "tn_opened (say s t) = tn_opened t" "tn_received (say s t) = tn_received t" "tn_request (say s t) = tn_request t"
  by (simp_all add: say_def)

lemma tunnel_inv_ended: "tunnel_inv px (t\<lparr>tn_ended := e\<rparr>) = tunnel_inv px t"
  by (cases "tn_target t") (auto simp: tunnel_inv_def)

lemma say_inv [simp]: "tunnel_inv px (say s t) = tunnel_inv px t"
  by (cases "tn_target t") (auto simp: tunnel_inv_def)

lemma end_inv [simp]: "tunnel_inv px (end_with s t) = tunnel_inv px t"
  by (simp add: end_with_def tunnel_inv_ended)

lemma index_of_split: "index_of pat s = Some i \<Longrightarrow> s = take i s @ pat @ drop (i + length pat) s"
proof (induction pat s arbitrary: i rule: index_of.induct)
  case (2 pat c s)
  show ?case
  proof (cases "take (length pat) (c # s) = pat")
    case True
    then have "i = 0" using 2(2) by simp
    then show ?thesis using True append_take_drop_id [of "length pat" "c # s"] by simp
  next
    case False
    then obtain j where "index_of pat s = Some j" "i = Suc j" using 2(2) by auto
    then show ?thesis using 2(1) [OF False, of j] by simp
  qed
qed (simp split: if_splits)

lemma connect_inv:
  assumes "tn_target t = None" "tn_opened t = []" "tn_out t = []" "tn_pending t = []" "\<not> tn_up t"
    and "isConnect \<Longrightarrow> tn_received t = tn_request t @ crlf @ crlf @ forward"
  shows "tunnel_inv px (fst (connect_to px isConnect host port forward (t, denied)))"
proof -
  have "tunnel_inv px t" using assms by (simp add: tunnel_inv_def)
  with assms show ?thesis by (auto simp: connect_to_def) (auto simp: tunnel_inv_def endpoint_ok_def)
qed

lemma data_inv: "tunnel_inv px t \<Longrightarrow> tunnel_inv px (fst (on_data px chunk (t, denied)))"
proof -
  assume inv: "tunnel_inv px t"
  show ?thesis
  proof (cases "tn_target t")
    case (Some cf)
    then show ?thesis using inv by (cases cf) (auto simp: on_data_def tunnel_inv_def Let_def)
  next
    case None
    define h where "h = tn_head t @ chunk"
    have new: "tn_opened t = []" "tn_out t = []" "tn_pending t = []" "\<not> tn_up t"
      using inv None by (simp_all add: tunnel_inv_def)
    show ?thesis
    proof (cases "index_of (crlf @ crlf) h")
      case none: None
      have "tunnel_inv px (t\<lparr>tn_head := h\<rparr>)" using None new by (simp add: tunnel_inv_def)
      then show ?thesis using none None new by (simp add: on_data_def Let_def h_def)
    next
      case (Some i)
      let ?u = "t\<lparr>tn_head := [], tn_request := take i h, tn_received := h\<rparr>"
      have "h = take i h @ crlf @ crlf @ drop (i + 4) h" using index_of_split [OF Some] by (simp add: crlf_def eval_nat_numeral)
      moreover have "tn_received ?u = h" "tn_request ?u = take i h" by simp_all
      ultimately have rec: "tn_received ?u = tn_request ?u @ crlf @ crlf @ drop (i + 4) h" by metis
      have opened: "tunnel_inv px (fst (connect_to px c host port f (?u, denied)))" if "c \<Longrightarrow> f = drop (i + 4) h" for c host port f
        by (rule connect_inv) (use new None rec that in simp_all)
      have "tunnel_inv px ?u" using new None by (simp add: tunnel_inv_def)
      with opened have "tunnel_inv px (fst (handle_head px (take i h) (drop (i + 4) h) (?u, denied)))"
        by (simp add: handle_head_def Let_def split: prod.split option.split)
      then show ?thesis using new None Some by (simp add: on_data_def Let_def h_def)
    qed
  qed
qed

lemma others_inv:
  assumes "tunnel_inv px t"
  shows "tunnel_inv px (up_open t)" "tunnel_inv px (up_data d t)" "tunnel_inv px (up_close t)" "tunnel_inv px (connect_failed t)"
    "tunnel_inv px (client_close t)"
proof -
  show "tunnel_inv px (up_open t)" using assms by (auto simp: tunnel_inv_def up_open_def split: option.splits)
  show "tunnel_inv px (client_close t)" using assms by (simp add: tunnel_inv_ended client_close_def)
qed (use assms in \<open>simp_all add: up_data_def up_close_def connect_failed_def\<close>)

lemma at_conn_inv:
  "proxy_inv px p \<Longrightarrow> (\<And>t denied. tunnel_inv px t \<Longrightarrow> tunnel_inv px (fst (f (t, denied)))) \<Longrightarrow> proxy_inv px (at_conn k f p)"
  by (auto simp: proxy_inv_def at_conn_def Let_def list_all_length nth_list_update split: prod.split) (metis fst_conv)

lemma proxy_inv_step: "proxy_step px p q \<Longrightarrow> proxy_inv px p \<Longrightarrow> proxy_inv px q"
proof (induction rule: proxy_step.induct)
  case (px_accept p)
  then show ?case by (simp add: proxy_inv_def accept_conn_def tunnel_inv_def new_tunnel_def)
next
  case (px_data p k chunk)
  then show ?case by (intro at_conn_inv data_inv)
qed (auto intro!: at_conn_inv others_inv)

interpretation proxy_runs: invariant_system "proxy_step px" "proxy_inv px" for px
  by unfold_locales (rule proxy_inv_step)

lemma idle_inv: "proxy_inv px idle_proxy"
  by (simp add: proxy_inv_def idle_proxy_def)

text \<open>What it is for a host to match a pattern, and for an endpoint to be the one of an entry.\<close>

lemma allowed_iff:
  "hostAllowed host allow \<longleftrightarrow>
     (\<exists>pat \<in> set allow. let h = undot (toLowerCase host); p = toLowerCase pat
       in if take 2 p = ''*.'' then h = drop 2 p \<or> suffix (''.'' @ drop 2 p) h else h = p)"
  by (simp add: hostAllowed_def list_ex_iff pattern_matches_def Let_def)

lemma denied_iff:
  "port_denied host port deny \<longleftrightarrow>
     (\<exists>e \<in> set deny. \<exists>h p. splitEndpoint e = Some (h, p) \<and> port = Whole p \<and>
        (h = unbracket (undot (toLowerCase host)) \<or> isLoopback h \<and> isLoopback (unbracket (undot (toLowerCase host)))))"
proof -
  have "same_endpoint h port e \<longleftrightarrow> (\<exists>dh. splitEndpoint e = Some (dh, port) \<and> (dh = h \<or> isLoopback dh \<and> isLoopback h))" for h port e
    by (cases "splitEndpoint e") (auto simp: same_endpoint_def)
  then show ?thesis by (cases port) (simp_all add: port_denied_def endpointDenied_def list_ex_iff)
qed


text \<open>Once a \<open>CONNECT\<close> is established, what the command sent after its head has been handed to the other socket to write: all of it, in
  order, and nothing else.\<close>

theorem tunnel_relays_exactly:
  assumes "(proxy_step px)\<^sup>*\<^sup>* idle_proxy p" "t \<in> set (ap_conns p)" "tn_target t = Some (True, forward)" "tn_up t"
  shows "tn_received t = tn_request t @ crlf @ crlf @ tn_out t"
  using proxy_runs.run_inv [OF assms(1) idle_inv] assms(2-4) by (auto simp: proxy_inv_def tunnel_inv_def list_all_iff dest!: bspec)

section \<open>The sandbox of a run\<close>

datatype os = Darwin | Linux | OtherOs string

definition proxyEnv :: "string \<Rightarrow> (string, string) jmap" where
  "proxyEnv url =
     map (\<lambda>n. (n, url)) [''HTTP_PROXY'', ''HTTPS_PROXY'', ''ALL_PROXY'', ''http_proxy'', ''https_proxy'', ''all_proxy''] @
     map (\<lambda>n. (n, ''localhost,127.0.0.1,::1'')) [''NO_PROXY'', ''no_proxy'']"

definition bwrapHint :: "string option \<Rightarrow> string" where
  "bwrapHint detail =
     (case detail of
        None \<Rightarrow> []
      | Some d \<Rightarrow>
          if rx_test (alts [lit_i ''uid map'', lit_i ''user namespace'', lit_i ''unshare'']) d then
            '' '' @ emdash @ '' unprivileged user namespaces are disabled (Ubuntu 24.04: kernel.apparmor_restrict_unprivileged_userns=1); run '' @ [backtick] @
            ''sudo sysctl kernel.apparmor_restrict_unprivileged_userns=0'' @ [backtick] @ '' or install an AppArmor profile for bwrap''
          else [])"

definition confinement :: "os \<Rightarrow> bool \<Rightarrow> string option \<Rightarrow> (string \<Rightarrow> bool \<times> string option) \<Rightarrow> platform option \<times> string" where
  "confinement system execThere bwrapPath probe =
     (case system of
        Darwin \<Rightarrow> if execThere then (Some Seatbelt, []) else (None, SANDBOX_EXEC @ '' is missing'')
      | Linux \<Rightarrow>
          (case bwrapPath of
             None \<Rightarrow> (None, ''bubblewrap (bwrap) is not installed'')
           | Some b \<Rightarrow>
               if b = [] then (None, ''bubblewrap (bwrap) is not installed'')
               else (case probe b of
                       (True, d) \<Rightarrow> (Some Bwrap, [])
                     | (False, d) \<Rightarrow>
                         (None, ''bubblewrap is installed but cannot confine here: '' @ (case d of None \<Rightarrow> ''the probe command failed'' | Some x \<Rightarrow> x) @
                            bwrapHint d)))
      | OtherOs n \<Rightarrow> (None, ''no sandbox for '' @ n))"

record sandbox =
  sx_spec :: sandbox_spec
  sx_platform :: "platform option"
  sx_reason :: string
  sx_scrubbed :: "string list"
  sx_env :: "(string, string) jmap"

definition createSandbox ::
  "os \<Rightarrow> bool \<Rightarrow> string option \<Rightarrow> (string \<Rightarrow> bool \<times> string option) \<Rightarrow> string \<Rightarrow> (string, string) jmap \<Rightarrow> sandbox_spec \<Rightarrow> secrets \<Rightarrow> sandbox \<times> secrets" where
  "createSandbox system execThere bwrapPath probe proxyUrl baseEnv spec sec =
     (let scrub = scrubEnv baseEnv (ss_keep spec);
          proxied = (if ss_network spec = NetAllowlist then proxyEnv proxyUrl else []);
          (confined, reason) = confinement system execThere bwrapPath probe
      in (\<lparr>sx_spec = spec, sx_platform = confined, sx_reason = reason, sx_scrubbed = se_scrubbed scrub,
           sx_env = fold (\<lambda>kv. jmap_set (fst kv) (snd kv)) proxied (se_env scrub)\<rparr>, registerSecrets (se_removed scrub) sec))"

definition wrap_command :: "(string \<Rightarrow> file_kind) \<Rightarrow> string \<Rightarrow> sandbox \<Rightarrow> string list \<Rightarrow> string list" where
  "wrap_command kind bwrap sx argv =
     (case sx_platform sx of
        Some Seatbelt \<Rightarrow> seatbeltArgv (sx_spec sx) argv
      | Some Bwrap \<Rightarrow> bwrapArgv kind bwrap (sx_spec sx) argv
      | None \<Rightarrow> argv)"

definition describe_sandbox :: "sandbox \<Rightarrow> string" where
  "describe_sandbox sx =
     (let spec = sx_spec sx; confined = sx_platform sx;
          fs = (if ss_mode spec = ReadOnlyFs then ''read-only filesystem'' else ''writes inside the workspace'');
          net = (case ss_network spec of
              NetNone \<Rightarrow> ''no network''
            | NetAllowlist \<Rightarrow>
                ''network to '' @ (let hosts = join '', '' (ss_allow spec) in if hosts = [] then ''nothing'' else hosts) @
                (if confined = Some Seatbelt then [] else '' (proxy env only)'')
            | NetAll \<Rightarrow> ''network open'');
          gaps = unenforcedDeny spec confined;
          denied = (if ss_deny spec = [] then []
                    else '', '' @ nat_str (length (ss_deny spec)) @ '' governed endpoint(s) refused'' @
                         (if gaps = [] then [] else '' (NOT enforced here: '' @ join '', '' gaps @ '')''));
          creds = nat_str (length (ss_unreadable spec)) @ '' credential paths unreadable'';
          envs = (if sx_scrubbed sx = [] then ''no secret env vars'' else nat_str (length (sx_scrubbed sx)) @ '' secret env vars scrubbed'');
          how = (case confined of Some Seatbelt \<Rightarrow> ''seatbelt'' | Some Bwrap \<Rightarrow> ''bwrap'' | None \<Rightarrow> ''NOT confined: '' @ sx_reason sx)
      in ''sandbox: '' @ how @ ''; '' @ fs @ '', '' @ net @ denied @ '', '' @ creds @ '', '' @ envs)"

lemma fold_set_mem: "v \<in> set (fold (\<lambda>kv. jmap_set (fst kv) (snd kv)) kvs m) \<Longrightarrow> v \<in> set kvs \<or> v \<in> set m"
proof (induction kvs arbitrary: m)
  case (Cons kv kvs)
  then show ?case by (auto dest!: Cons.IH set_jmap_setD)
qed simp

lemma proxy_names_plain: "list_all (\<lambda>v. \<not> isSecretName (fst v)) (proxyEnv url)"
proof -
  have "list_all (\<lambda>n. \<not> isSecretName n) (map fst (proxyEnv []))" by code_simp
  then show ?thesis by (simp add: proxyEnv_def)
qed

text \<open>No variable of a command's environment has the name of a secret, unless the policy keeps it.\<close>

theorem command_sees_no_secret:
  assumes "(sx, sec2) = createSandbox system execThere bwrapPath probe proxyUrl baseEnv spec sec" "v \<in> set (sx_env sx)" "isSecretName (fst v)"
  shows "fst v \<in> set (ss_keep spec)"
proof -
  have "v \<in> set (proxyEnv proxyUrl) \<or> v \<in> set (se_env (scrubEnv baseEnv (ss_keep spec)))"
    using assms(1,2) fold_set_mem by (fastforce simp: createSandbox_def Let_def split: prod.splits if_splits)
  then show ?thesis using proxy_names_plain [of proxyUrl] assms(3) by (auto simp: list_all_iff scrubEnv_def withheld_def)
qed

text \<open>A plain request whose path has dollar signs reaches the allowed host with another path.\<close>

theorem plain_request_altered:
  "rewritten (''GET http://h/a$$b HTTP/1.1'' @ crlf @ ''Host: h'') ''GET /a$$b HTTP/1.1'' = ''GET /a$b HTTP/1.1'' @ crlf @ ''Host: h''"
  by code_simp

section \<open>Examples\<close>

definition strict_proxy :: proxy_env where
  "strict_proxy = \<lparr>px_allow = [''*.dev''], px_deny = [''k8s.dev:6443''], px_parse = (\<lambda>u. None), px_number = (\<lambda>s. None)\<rparr>"

definition asked :: string where "asked = ''CONNECT git.dev:443 HTTP/1.1'' @ crlf @ crlf @ ''hi''"

definition connecting_proxy :: allowlist_proxy where
  "connecting_proxy = at_conn 0 (on_data strict_proxy asked) (accept_conn idle_proxy)"

definition relaying_proxy :: allowlist_proxy where
  "relaying_proxy = at_conn 0 (on_data strict_proxy ''there'') (at_conn 0 (apfst up_open) connecting_proxy)"

lemma connecting_reached: "(proxy_step strict_proxy)\<^sup>*\<^sup>* idle_proxy connecting_proxy"
  unfolding connecting_proxy_def by (meson px_accept px_data rtranclp.rtrancl_into_rtrancl rtranclp.rtrancl_refl)

lemma relaying_reached: "(proxy_step strict_proxy)\<^sup>*\<^sup>* idle_proxy relaying_proxy"
  unfolding relaying_proxy_def by (meson connecting_reached px_open px_data rtranclp.rtrancl_into_rtrancl)


theorem tunnel_relays_exactly_witness: "tn_out (hd (ap_conns relaying_proxy)) = ''hithere''"
proof -
  have s: "tn_target (hd (ap_conns relaying_proxy)) = Some (True, ''hi'')" "tn_up (hd (ap_conns relaying_proxy))"
    "tn_received (hd (ap_conns relaying_proxy)) = asked @ ''there''" "tn_request (hd (ap_conns relaying_proxy)) = ''CONNECT git.dev:443 HTTP/1.1''"
    by code_simp+
  have "ap_conns relaying_proxy \<noteq> []" by code_simp
  then have "hd (ap_conns relaying_proxy) \<in> set (ap_conns relaying_proxy)" by simp
  from tunnel_relays_exactly [OF relaying_reached this s(1,2)] show ?thesis by (simp add: s(3,4) asked_def crlf_def)
qed

definition open_spec :: sandbox_spec where
  "open_spec =
     \<lparr>ss_mode = WorkspaceWrites, ss_writable = [], ss_unreadable = [], ss_network = NetAll, ss_allow = [], ss_hostPorts = [], ss_deny = [],
      ss_keep = [''GH_TOKEN''], ss_required = False\<rparr>"

definition shell_env :: "(string, string) jmap" where
  "shell_env = [(''PATH'', ''/bin''), (''GH_TOKEN'', ''gh''), (''API_KEY'', ''k'')]"

abbreviation shell_sandbox :: "sandbox \<times> secrets" where
  "shell_sandbox \<equiv> createSandbox Darwin True None (\<lambda>b. (False, None)) [] shell_env open_spec []"

theorem command_sees_no_secret_witness:
  "sx_env (fst shell_sandbox) = [(''PATH'', ''/bin''), (''GH_TOKEN'', ''gh'')] \<and> ''GH_TOKEN'' \<in> set (ss_keep open_spec)"
proof -
  have e: "sx_env (fst shell_sandbox) = [(''PATH'', ''/bin''), (''GH_TOKEN'', ''gh'')]" "isSecretName ''GH_TOKEN''" by code_simp+
  have "(fst shell_sandbox, snd shell_sandbox) = shell_sandbox" by simp
  from command_sees_no_secret [OF this, of "(''GH_TOKEN'', ''gh'')"] e show ?thesis by simp
qed

end
