(* ===== verification/Egress.thy ===== *)
theory Egress
  imports Json Redact
begin

text \<open>
  Requests through the engine's egress proxy (\<open>egress/proxy.ts\<close>): the rule for the segments of a path, the route of an upstream, and the
  request that is sent.  A path is ASCII, as a URL's is, and a text is the bytes of its UTF-8.  The reading of a URL is a parameter.
\<close>

section \<open>Segments\<close>

fun pct_decode :: "string \<Rightarrow> string" where
  "pct_decode (c # a # b # r) =
     (if c = CHR ''%'' then
        (case hex_value a of
           Some x \<Rightarrow> (case hex_value b of Some y \<Rightarrow> char_of (16 * x + y) # pct_decode r | None \<Rightarrow> c # pct_decode (a # b # r))
         | None \<Rightarrow> c # pct_decode (a # b # r))
      else c # pct_decode (a # b # r))"
| "pct_decode s = s"

definition cont_byte :: "nat \<Rightarrow> bool" where "cont_byte b \<longleftrightarrow> 128 \<le> b \<and> b < 192"

text \<open>Well-formed UTF-8, as a fatal \<open>TextDecoder\<close> has it.\<close>

fun utf8_ok :: "nat list \<Rightarrow> bool" where
  "utf8_ok [] = True"
| "utf8_ok (a # r) =
     (if a < 128 then utf8_ok r
      else if 194 \<le> a \<and> a < 224 then (case r of b # s \<Rightarrow> cont_byte b \<and> utf8_ok s | _ \<Rightarrow> False)
      else if 224 \<le> a \<and> a < 240 then
        (case r of b # c # s \<Rightarrow> cont_byte b \<and> (a = 224 \<longrightarrow> 160 \<le> b) \<and> (a = 237 \<longrightarrow> b < 160) \<and> cont_byte c \<and> utf8_ok s | _ \<Rightarrow> False)
      else if 240 \<le> a \<and> a < 245 then
        (case r of b # c # d # s \<Rightarrow> cont_byte b \<and> (a = 240 \<longrightarrow> 144 \<le> b) \<and> (a = 244 \<longrightarrow> b < 144) \<and> cont_byte c \<and> cont_byte d \<and> utf8_ok s | _ \<Rightarrow> False)
      else False)"

definition bom :: string where "bom = [CHR 0xEF, CHR 0xBB, CHR 0xBF]"

definition utf8_text :: "string \<Rightarrow> string option" where
  "utf8_text s = (if utf8_ok (map of_char s) then Some (if take 3 s = bom then drop 3 s else s) else None)"

definition MAX_DECODE_ROUNDS :: nat where "MAX_DECODE_ROUNDS = 3"

primrec decode_rounds :: "nat \<Rightarrow> string \<Rightarrow> string \<Rightarrow> string option" where
  "decode_rounds 0 t bytes = (if pct_decode bytes = bytes then Some t else None)"
| "decode_rounds (Suc n) t bytes =
     (if pct_decode bytes = bytes then Some t
      else (case utf8_text (pct_decode bytes) of None \<Rightarrow> None | Some u \<Rightarrow> decode_rounds n u (pct_decode bytes)))"

definition decodedSegment :: "string \<Rightarrow> string option" where
  "decodedSegment raw = decode_rounds MAX_DECODE_ROUNDS raw raw"

definition harmless :: "string \<Rightarrow> bool" where
  "harmless seg \<longleftrightarrow>
     seg \<noteq> ''.'' \<and> seg \<noteq> ''..'' \<and> take 3 seg \<noteq> ''..;'' \<and> take 2 seg \<noteq> ''.;'' \<and>
     list_all (\<lambda>c. c \<noteq> CHR ''/'' \<and> c \<noteq> bslash \<and> c \<noteq> CHR 0x00) seg"

definition segmentsSafe :: "string \<Rightarrow> bool" where
  "segmentsSafe path \<longleftrightarrow>
     list_all (\<lambda>raw. case decodedSegment raw of None \<Rightarrow> False | Some seg \<Rightarrow> harmless seg) (split_ch CHR ''/'' path)"

section \<open>Routes\<close>

record egress_route =
  er_proxyUrl :: string
  er_upstream :: string
  er_tokenFile :: string

record url_parts =
  up_origin :: string
  up_pathname :: string

definition strip_slashes :: "string \<Rightarrow> string" where
  "strip_slashes s = rev (dropWhile (\<lambda>c. c = CHR ''/'') (rev s))"

definition uri_unreserved :: "char \<Rightarrow> bool" where
  "uri_unreserved c \<longleftrightarrow> is_alpha c \<or> is_digit c \<or> c \<in> set (''-_.!~*()'' @ [squote])"

definition upper_hex :: "nat \<Rightarrow> char" where "upper_hex d = ''0123456789ABCDEF'' ! d"

definition encodeURIComponent :: "string \<Rightarrow> string" where
  "encodeURIComponent s =
     concat (map (\<lambda>c. if uri_unreserved c then [c] else [CHR ''%'', upper_hex (of_char c div 16), upper_hex (of_char c mod 16)]) s)"

definition route_path :: "egress_route \<Rightarrow> string" where
  "route_path r = ''/v1/u/'' @ encodeURIComponent (er_upstream r) @ ''/''"

definition insideRoute :: "(string \<Rightarrow> url_parts option) \<Rightarrow> string \<Rightarrow> egress_route \<Rightarrow> bool" where
  "insideRoute parse url r =
     (case (parse url, parse (er_proxyUrl r)) of
        (Some p, Some proxy) \<Rightarrow>
          (let pre = strip_slashes (up_pathname proxy) @ route_path r
           in up_origin p = up_origin proxy \<and> take (length pre) (up_pathname p) = pre \<and> segmentsSafe (drop (length pre) (up_pathname p)))
      | _ \<Rightarrow> False)"

datatype egress_error = EgressRefused string string nat | TokenUnreadable string string | TokenEmpty string

definition PATH_ESCAPE :: string where "PATH_ESCAPE = ''path_escape''"

definition egressUrl :: "(string \<Rightarrow> url_parts option) \<Rightarrow> egress_route \<Rightarrow> string \<Rightarrow> egress_error + string" where
  "egressUrl parse r path =
     (let url = strip_slashes (er_proxyUrl r) @ route_path r @ dropWhile (\<lambda>c. c = CHR ''/'') path
      in if insideRoute parse url r then Inr url else Inl (EgressRefused PATH_ESCAPE (er_upstream r) 0))"

section \<open>Requests\<close>

definition EGRESS_TOKEN_HEADER :: string where "EGRESS_TOKEN_HEADER = ''x-harness-egress-token''"

definition ENGINE_CREDENTIAL_HEADERS :: "string list" where
  "ENGINE_CREDENTIAL_HEADERS = [''authorization'', ''proxy-authorization'', ''x-api-key'', ''api-key'', ''cookie'']"

text \<open>The token file: its text, or the code of the error.  The token is registered as a secret.\<close>

definition readEgressToken :: "(string \<Rightarrow> string + string) \<Rightarrow> string \<Rightarrow> secrets \<Rightarrow> (egress_error + string) \<times> secrets" where
  "readEgressToken readFile file sec =
     (case readFile file of
        Inl code \<Rightarrow> (Inl (TokenUnreadable file code), sec)
      | Inr s \<Rightarrow> if trim s = [] then (Inl (TokenEmpty file), sec) else (Inr (trim s), registerSecret ''egress token'' (Some (trim s)) sec))"

record sent_request =
  sr_url :: string
  sr_headers :: "(string, string) jmap"
  sr_follows :: bool

record egress_response =
  er_status :: nat
  er_marker :: "string option"
  er_code :: "string option"
  er_body :: string

text \<open>\<open>Headers\<close> has its names in small letters; the values of one name are joined.\<close>

definition add_header :: "string \<times> string \<Rightarrow> (string, string) jmap \<Rightarrow> (string, string) jmap" where
  "add_header kv hs =
     (let k = toLowerCase (fst kv)
      in jmap_set k (case map_of hs k of None \<Rightarrow> snd kv | Some v \<Rightarrow> v @ '', '' @ snd kv) hs)"

definition headers_of :: "(string \<times> string) list \<Rightarrow> (string, string) jmap" where
  "headers_of hs = fold add_header hs []"

definition stripped_headers :: "(string, string) jmap \<Rightarrow> (string, string) jmap" where
  "stripped_headers hs = fold jmap_del ENGINE_CREDENTIAL_HEADERS hs"

definition egress_request ::
  "(string \<Rightarrow> url_parts option) \<Rightarrow> (string \<Rightarrow> string + string) \<Rightarrow> egress_route \<Rightarrow> string \<Rightarrow> (string \<times> string) list \<Rightarrow> secrets \<Rightarrow> (egress_error + sent_request) \<times> secrets" where
  "egress_request parse readFile r url hs sec =
     (if \<not> insideRoute parse url r then (Inl (EgressRefused PATH_ESCAPE (er_upstream r) 0), sec)
      else (case readEgressToken readFile (er_tokenFile r) sec of
              (Inl e, sec1) \<Rightarrow> (Inl e, sec1)
            | (Inr token, sec1) \<Rightarrow>
                (Inr \<lparr>sr_url = url, sr_headers = jmap_set EGRESS_TOKEN_HEADER token (stripped_headers (headers_of hs)), sr_follows = False\<rparr>, sec1)))"

definition machine_code :: "string \<Rightarrow> bool" where
  "machine_code c \<longleftrightarrow> 1 \<le> length c \<and> length c \<le> 64 \<and> list_all (\<lambda>d. is_lower d \<or> d = CHR ''_'') c"

definition refusalCode :: "egress_response \<Rightarrow> string" where
  "refusalCode res = (case er_code res of Some c \<Rightarrow> if machine_code c then c else ''unknown'' | None \<Rightarrow> ''unknown'')"

definition egressFetch ::
  "(string \<Rightarrow> url_parts option) \<Rightarrow> (string \<Rightarrow> string + string) \<Rightarrow> (sent_request \<Rightarrow> egress_response) \<Rightarrow> egress_route \<Rightarrow> string \<Rightarrow> (string \<times> string) list \<Rightarrow> secrets \<Rightarrow>
     (egress_error + egress_response) \<times> sent_request list \<times> secrets" where
  "egressFetch parse readFile base r url hs sec =
     (case egress_request parse readFile r url hs sec of
        (Inl e, sec1) \<Rightarrow> (Inl e, [], sec1)
      | (Inr req, sec1) \<Rightarrow>
          (let res = base req
           in (if map_option toLowerCase (er_marker res) = Some ''refused'' then Inl (EgressRefused (refusalCode res) (er_upstream r) (er_status res)) else Inr res,
               [req], sec1)))"

section \<open>No decoding of a safe path escapes\<close>

lemma pct_keep: "c \<in> set s \<Longrightarrow> c \<notin> {CHR ''%''} \<union> {d. hex_value d \<noteq> None} \<Longrightarrow> c \<in> set (pct_decode s)"
  by (induction s rule: pct_decode.induct) (auto split: option.splits)

lemma pct_cons: "c \<noteq> CHR ''%'' \<Longrightarrow> pct_decode (c # s) = c # pct_decode s"
proof (cases s)
  case (Cons a t)
  assume "c \<noteq> CHR ''%''"
  then show ?thesis using Cons by (cases t) simp_all
qed simp

lemma pct_take: "CHR ''%'' \<notin> set p \<Longrightarrow> pct_decode (p @ s) = p @ pct_decode s"
  by (induction p) (auto simp: pct_cons)

lemma starts_split: "take (length p) s = p \<Longrightarrow> \<exists>r. s = p @ r"
  by (metis append_take_drop_id)

lemma starts_three: "take 3 s = [a, b, c] \<Longrightarrow> \<exists>r. s = [a, b, c] @ r"
  using starts_split [of "[a, b, c]" s] by (simp add: eval_nat_numeral)

lemma starts_two: "take 2 s = [a, b] \<Longrightarrow> \<exists>r. s = [a, b] @ r"
  using starts_split [of "[a, b]" s] by (simp add: eval_nat_numeral)

lemma harm_persists: "\<not> harmless s \<Longrightarrow> \<not> harmless (pct_decode s)"
proof -
  assume "\<not> harmless s"
  then consider "s = ''.''" | "s = ''..''" | "take 3 s = ''..;''" | "take 2 s = ''.;''"
    | c where "c \<in> set s" "c \<in> {CHR ''/'', bslash, CHR 0x00}"
    by (simp only: harmless_def list_all_iff insert_iff empty_iff) metis
  then show ?thesis
  proof cases
    case 3
    from starts_three [OF this] obtain r where "s = ''..;'' @ r" by (elim exE)
    then show ?thesis using pct_take [of "''..;''" r] by (simp add: harmless_def)
  next
    case 4
    from starts_two [OF this] obtain r where "s = ''.;'' @ r" by (elim exE)
    then show ?thesis using pct_take [of "''.;''" r] by (simp add: harmless_def)
  next
    case 5
    then have "c \<in> set (pct_decode s)" by (intro pct_keep) (auto simp: hex_value_def is_digit_def)
    then show ?thesis using 5(2) by (auto simp: harmless_def list_all_iff)
  qed (simp_all add: harmless_def)
qed

lemma harm_stays: "\<not> harmless ((pct_decode ^^ n) s) \<Longrightarrow> \<not> harmless ((pct_decode ^^ (n + k)) s)"
  by (induction k) (simp_all add: harm_persists)

lemma stable_from: "pct_decode s = s \<Longrightarrow> (pct_decode ^^ n) s = s"
  by (induction n) simp_all

lemma harmless_bom: "harmless (drop 3 s) \<Longrightarrow> take 3 s = bom \<Longrightarrow> harmless s"
proof -
  assume h: "harmless (drop 3 s)" "take 3 s = bom"
  then have "\<exists>r. s = [CHR 0xEF, CHR 0xBB, CHR 0xBF] @ r" unfolding bom_def by (intro starts_three)
  then obtain r where "s = bom @ r" unfolding bom_def by (elim exE)
  with h(1) show ?thesis by (simp add: harmless_def bom_def)
qed

lemma decoded_final:
  "decode_rounds n t bytes = Some seg \<Longrightarrow> harmless seg \<Longrightarrow> (harmless t \<Longrightarrow> harmless bytes) \<Longrightarrow>
     \<exists>k. harmless ((pct_decode ^^ k) bytes) \<and> pct_decode ((pct_decode ^^ k) bytes) = (pct_decode ^^ k) bytes"
proof (induction n arbitrary: t bytes)
  case 0
  then show ?case by (intro exI [of _ 0]) (simp split: if_splits)
next
  case (Suc n)
  show ?case
  proof (cases "pct_decode bytes = bytes")
    case True
    then show ?thesis using Suc(2-4) by (intro exI [of _ 0]) simp
  next
    case False
    then obtain u where u: "utf8_text (pct_decode bytes) = Some u" "decode_rounds n u (pct_decode bytes) = Some seg"
      using Suc(2) by (auto split: option.splits)
    have "harmless u \<Longrightarrow> harmless (pct_decode bytes)" using u(1) harmless_bom by (auto simp: utf8_text_def split: if_splits)
    from Suc(1) [OF u(2) Suc(3) this] obtain k where
      "harmless ((pct_decode ^^ k) (pct_decode bytes))" "pct_decode ((pct_decode ^^ k) (pct_decode bytes)) = (pct_decode ^^ k) (pct_decode bytes)" by blast
    then show ?thesis by (intro exI [of _ "Suc k"]) (simp only: funpow_Suc_right comp_def)
  qed
qed

lemma safe_segment:
  assumes "decodedSegment raw = Some seg" "harmless seg"
  shows "harmless ((pct_decode ^^ n) raw)"
proof -
  obtain k where k: "harmless ((pct_decode ^^ k) raw)" "pct_decode ((pct_decode ^^ k) raw) = (pct_decode ^^ k) raw"
    using decoded_final [OF assms(1) [unfolded decodedSegment_def] assms(2)] by blast
  have "(pct_decode ^^ (n + k)) raw = (pct_decode ^^ k) raw" using stable_from [OF k(2), of n] by (simp add: funpow_add)
  then show ?thesis using k(1) harm_stays [of n raw k] by metis
qed

text \<open>C39 safe_at_every_decoding. In a path the rule admits, no segment is a dot segment, begins with one and a parameter, or holds a separator or a null,
  however many times an upstream decodes its percent escapes: not at all, three times, or more often than the rule itself does.\<close>

theorem safe_at_every_decoding:
  assumes "segmentsSafe path" "raw \<in> set (split_ch CHR ''/'' path)"
  shows "let seg = (pct_decode ^^ n) raw
    in seg \<noteq> ''.'' \<and> seg \<noteq> ''..'' \<and> take 3 seg \<noteq> ''..;'' \<and> take 2 seg \<noteq> ''.;'' \<and> CHR ''/'' \<notin> set seg \<and> bslash \<notin> set seg \<and> CHR 0x00 \<notin> set seg"
proof -
  obtain seg where "decodedSegment raw = Some seg" "harmless seg"
    using assms by (fastforce simp: segmentsSafe_def list_all_iff split: option.splits)
  from safe_segment [OF this] show ?thesis unfolding harmless_def Let_def list_all_iff by blast
qed

lemma stripped_gone: "h \<in> set ks \<Longrightarrow> map_of (fold jmap_del ks m) h = None"
proof (induction ks arbitrary: m rule: rev_induct)
  case (snoc k ks)
  then show ?case by (auto simp: map_of_jmap_del)
qed simp

lemma lower_again: "lower (lower c) = lower c"
proof (cases "map_of (zip ''ABCDEFGHIJKLMNOPQRSTUVWXYZ'' ''abcdefghijklmnopqrstuvwxyz'') c")
  case (Some d)
  have "list_all (\<lambda>d. lower d = d) ''abcdefghijklmnopqrstuvwxyz''" by code_simp
  moreover have "d \<in> set ''abcdefghijklmnopqrstuvwxyz''" using map_of_SomeD [OF Some] by (rule set_zip_rightD)
  ultimately show ?thesis using Some by (simp only: list_all_iff lower_def [of c] option.case)
qed (simp add: lower_def)

lemma lower_once: "toLowerCase (toLowerCase s) = toLowerCase s"
  by (simp add: toLowerCase_def comp_def lower_again)

lemma headers_small: "\<forall>kv \<in> set (headers_of hs). toLowerCase (fst kv) = fst kv"
proof -
  have "\<forall>kv \<in> set (fold add_header hs m). toLowerCase (fst kv) = fst kv" if "\<forall>kv \<in> set m. toLowerCase (fst kv) = fst kv" for m
    using that
  proof (induction hs arbitrary: m)
    case (Cons h hs)
    have "\<forall>kv \<in> set (add_header h m). toLowerCase (fst kv) = fst kv"
      using Cons.prems by (auto simp: add_header_def Let_def lower_once dest!: set_jmap_setD)
    then show ?case using Cons.IH by simp
  qed simp
  from this [of "[]"] show ?thesis by (simp add: headers_of_def)
qed

lemma del_sub: "set (fold jmap_del ks m) \<subseteq> set m"
proof (induction ks arbitrary: m)
  case (Cons k ks)
  have "set (jmap_del k m) \<subseteq> set m" by (auto simp: jmap_del_def)
  then show ?case using Cons [of "jmap_del k m"] by auto
qed simp


section \<open>Examples\<close>

definition tiny_url :: "string \<Rightarrow> url_parts option" where
  "tiny_url s = (if take 8 s = ''http://e'' then Some \<lparr>up_origin = ''http://e'', up_pathname = drop 8 s\<rparr> else None)"

definition vault_route :: egress_route where
  "vault_route = \<lparr>er_proxyUrl = ''http://e'', er_upstream = ''wiki'', er_tokenFile = ''/run/t''\<rparr>"

theorem safe_at_every_decoding_witness:
  "CHR ''/'' \<notin> set ((pct_decode ^^ 7) ''100%2525'')"
proof -
  have "segmentsSafe ''a/100%2525''" "''100%2525'' \<in> set (split_ch CHR ''/'' ''a/100%2525'')" by code_simp+
  from safe_at_every_decoding [OF this, of 7] show ?thesis unfolding Let_def by blast
qed

definition vault_answer :: "sent_request \<Rightarrow> egress_response" where
  "vault_answer q = \<lparr>er_status = 200, er_marker = None, er_code = None, er_body = []\<rparr>"

abbreviation vault_fetch :: "(egress_error + egress_response) \<times> sent_request list \<times> secrets" where
  "vault_fetch \<equiv> egressFetch tiny_url (\<lambda>f. Inr ''tok'') vault_answer vault_route ''http://e/v1/u/wiki/page'' [(''Authorization'', ''k'')] []"

definition vault_request :: sent_request where
  "vault_request = \<lparr>sr_url = ''http://e/v1/u/wiki/page'', sr_headers = [(''x-harness-egress-token'', ''tok'')], sr_follows = False\<rparr>"


end
